(* ===== verification/Prelude.thy ===== *)
theory Prelude
  imports Complex_Main "HOL-Library.Sublist" "HOL-Library.List_Lexorder" "HOL-Library.Char_ord"
begin

text \<open>
  Shared vocabulary of the development.

  \<^item> Results: a Go function that returns \<open>(T, error)\<close> is a value of \<open>'e + 'a\<close>, with
    \<open>Inl\<close> for a non-nil error; \<open>res_bind\<close> is the \<open>if err != nil { return err }\<close>
    idiom and \<open>res_map\<close> a loop that fills a slice and returns at the first error.
  \<^item> Go strings are byte strings: a \<open>string\<close> here is a list of bytes, so \<open>length\<close>
    is Go's \<open>len\<close>, and text that is not ASCII appears as its UTF-8 bytes.
  \<^item> The functions of Go's package \<open>strings\<close> that the repository uses: \<open>split_on\<close>
    (\<open>strings.Split\<close> with a one-byte separator), \<open>join_with\<close> (\<open>strings.Join\<close>),
    \<open>trim_space\<close>, \<open>str_fields\<close>, \<open>go_upper\<close>, \<open>go_lower\<close>, \<open>index_byte\<close>,
    \<open>has_prefix\<close>, \<open>has_suffix\<close>, and \<open>itoa\<close> (\<open>strconv.Itoa\<close>).
  \<^item> A generic locale \<open>transition_system\<close> for components with state: an invariant of the
    initial states that every step keeps holds in every reachable state.
\<close>

named_theorems go_strings \<open>equations of the string functions, for evaluation\<close>

section \<open>Results\<close>

definition res_bind :: "'e + 'a \<Rightarrow> ('a \<Rightarrow> 'e + 'b) \<Rightarrow> 'e + 'b" where
  "res_bind r f = (case r of Inl e \<Rightarrow> Inl e | Inr x \<Rightarrow> f x)"

lemma res_bind_simps [simp]:
  "res_bind (Inl e) f = Inl e"
  "res_bind (Inr x) f = f x"
  by (simp_all add: res_bind_def)

lemma res_bind_eq_Inr [simp]:
  "res_bind r f = Inr y \<longleftrightarrow> (\<exists>x. r = Inr x \<and> f x = Inr y)"
  by (cases r) simp_all

lemma res_bind_eq_Inl:
  "res_bind r f = Inl e \<longleftrightarrow> r = Inl e \<or> (\<exists>x. r = Inr x \<and> f x = Inl e)"
  by (cases r) auto

lemma res_bind_cong [fundef_cong]:
  "r = r' \<Longrightarrow> (\<And>x. r' = Inr x \<Longrightarrow> f x = g x) \<Longrightarrow> res_bind r f = res_bind r' g"
  by (cases r') simp_all

text \<open>A function applied to the value of a result, errors kept.\<close>

definition res_image :: "('a \<Rightarrow> 'b) \<Rightarrow> 'e + 'a \<Rightarrow> 'e + 'b" where
  "res_image g r = res_bind r (\<lambda>x. Inr (g x))"

lemma res_image_simps [simp]:
  "res_image g (Inl e) = Inl e"
  "res_image g (Inr x) = Inr (g x)"
  by (simp_all add: res_image_def)

fun res_map :: "('a \<Rightarrow> 'e + 'b) \<Rightarrow> 'a list \<Rightarrow> 'e + 'b list" where
  "res_map f [] = Inr []"
| "res_map f (x # xs) =
     res_bind (f x) (\<lambda>y. res_bind (res_map f xs) (\<lambda>ys. Inr (y # ys)))"

lemma res_map_Inr_iff:
  "res_map f xs = Inr ys \<longleftrightarrow> list_all2 (\<lambda>x y. f x = Inr y) xs ys"
  by (induction xs arbitrary: ys) (auto simp: list_all2_Cons1)

lemma res_map_length: "res_map f xs = Inr ys \<Longrightarrow> length ys = length xs"
  by (auto simp: res_map_Inr_iff dest: list_all2_lengthD)

lemma res_map_total:
  "(\<And>x. x \<in> set xs \<Longrightarrow> \<exists>y. f x = Inr y) \<Longrightarrow> \<exists>ys. res_map f xs = Inr ys"
proof (induction xs)
  case Nil
  then show ?case by simp
next
  case (Cons x xs)
  from Cons.prems obtain y where "f x = Inr y" by auto
  moreover from Cons.prems have "\<exists>ys. res_map f xs = Inr ys" by (intro Cons.IH) auto
  ultimately show ?case by auto
qed

lemma res_map_nth:
  assumes "res_map f xs = Inr ys" and "i < length xs"
  shows "f (xs ! i) = Inr (ys ! i)"
  using assms by (simp add: res_map_Inr_iff list_all2_conv_all_nth)

lemma res_map_set:
  assumes "res_map f xs = Inr ys" and "y \<in> set ys"
  obtains x where "x \<in> set xs" and "f x = Inr y"
proof -
  from assms obtain i where "i < length ys" and "y = ys ! i"
    by (auto simp: in_set_conv_nth)
  moreover from assms(1) have "length ys = length xs" by (rule res_map_length)
  ultimately have "xs ! i \<in> set xs" and "f (xs ! i) = Inr y"
    using res_map_nth [OF assms(1), of i] by auto
  then show thesis by (rule that)
qed

text \<open>A loop over a list that returns at the first error, threading a state.\<close>

fun res_fold :: "('s \<Rightarrow> 'a \<Rightarrow> 'e + 's) \<Rightarrow> 's \<Rightarrow> 'a list \<Rightarrow> 'e + 's" where
  "res_fold f s [] = Inr s"
| "res_fold f s (x # xs) = res_bind (f s x) (\<lambda>s'. res_fold f s' xs)"

lemma res_fold_invariant:
  assumes "res_fold f s xs = Inr t" and "P s"
    and "\<And>s x s'. P s \<Longrightarrow> x \<in> set xs \<Longrightarrow> f s x = Inr s' \<Longrightarrow> P s'"
  shows "P t"
  using assms
proof (induction xs arbitrary: s)
  case Nil
  then show ?case by simp
next
  case (Cons x xs)
  from Cons.prems(1) obtain s' where s': "f s x = Inr s'" "res_fold f s' xs = Inr t" by auto
  have "P s'" by (rule Cons.prems(3) [OF Cons.prems(2) _ s'(1)]) simp
  then show ?case
    by (rule Cons.IH [OF s'(2)]) (rule Cons.prems(3), auto)
qed

section \<open>Lists of characters\<close>

fun split_on :: "char \<Rightarrow> string \<Rightarrow> string list" where
  "split_on c [] = [[]]"
| "split_on c (x # xs) =
     (if x = c then [] # split_on c xs
      else (case split_on c xs of [] \<Rightarrow> [[x]] | w # ws \<Rightarrow> (x # w) # ws))"

fun join_with :: "string \<Rightarrow> string list \<Rightarrow> string" where
  "join_with sep [] = []"
| "join_with sep [w] = w"
| "join_with sep (w # v # ws) = w @ sep @ join_with sep (v # ws)"

lemma split_on_not_Nil [simp]: "split_on c s \<noteq> []"
  by (induction s) (auto split: list.splits)

lemma length_split_on: "length (split_on c s) = Suc (count_list s c)"
  by (induction s) (auto split: list.splits simp: neq_Nil_conv)

lemma join_split [simp]: "join_with [c] (split_on c s) = s"
proof (induction s)
  case Nil
  then show ?case by simp
next
  case (Cons x xs)
  obtain w ws where ws: "split_on c xs = w # ws"
    by (cases "split_on c xs") auto
  then show ?case using Cons.IH by (cases ws) auto
qed

lemma sep_notin_split: "w \<in> set (split_on c s) \<Longrightarrow> c \<notin> set w"
proof (induction s arbitrary: w)
  case Nil
  then show ?case by simp
next
  case (Cons x xs)
  obtain v vs where vs: "split_on c xs = v # vs"
    by (cases "split_on c xs") auto
  with Cons show ?case by (fastforce split: if_splits)
qed

lemma split_on_append_sep:
  "c \<notin> set w \<Longrightarrow> split_on c (w @ c # s) = w # split_on c s"
  by (induction w) auto

lemma split_on_no_sep: "c \<notin> set w \<Longrightarrow> split_on c w = [w]"
  by (induction w) auto

lemma split_join:
  "ws \<noteq> [] \<Longrightarrow> (\<And>w. w \<in> set ws \<Longrightarrow> c \<notin> set w) \<Longrightarrow> split_on c (join_with [c] ws) = ws"
proof (induction ws)
  case Nil
  then show ?case by simp
next
  case (Cons w ws)
  then show ?case
    by (cases ws) (auto simp: split_on_no_sep split_on_append_sep)
qed

lemma set_join_with: "set (join_with sep ws) \<subseteq> set sep \<union> (\<Union>w\<in>set ws. set w)"
  by (induction sep ws rule: join_with.induct) auto

lemma set_join_subset:
  "(\<And>w. w \<in> set ws \<Longrightarrow> set w \<subseteq> A) \<Longrightarrow> set sep \<subseteq> A \<Longrightarrow> set (join_with sep ws) \<subseteq> A"
  by (rule order_trans [OF set_join_with]) auto

lemma join_with_Cons: "ws \<noteq> [] \<Longrightarrow> join_with sep (w # ws) = w @ sep @ join_with sep ws"
  by (cases ws) auto

lemma count_list_join:
  "c \<notin> set sep \<Longrightarrow> count_list (join_with sep ws) c = sum_list (map (\<lambda>w. count_list w c) ws)"
  by (induction sep ws rule: join_with.induct) auto

lemma set_split_on: "w \<in> set (split_on c s) \<Longrightarrow> set w \<subseteq> set s"
proof (induction s arbitrary: w)
  case Nil
  then show ?case by simp
next
  case (Cons x xs)
  obtain v vs where vs: "split_on c xs = v # vs"
    by (cases "split_on c xs") auto
  with Cons show ?case by (fastforce split: if_splits)
qed

text \<open>\<open>strings.IndexByte\<close>: the position of the first occurrence, \<open>None\<close> for Go's -1.\<close>

fun index_byte :: "char \<Rightarrow> string \<Rightarrow> nat option" where
  "index_byte c [] = None"
| "index_byte c (x # xs) = (if x = c then Some 0 else map_option Suc (index_byte c xs))"

lemma index_byte_Some:
  "index_byte c s = Some i \<Longrightarrow> i < length s \<and> s ! i = c \<and> c \<notin> set (take i s)"
  by (induction s arbitrary: i) (auto split: if_splits)

lemma index_byte_None [simp]: "index_byte c s = None \<longleftrightarrow> c \<notin> set s"
  by (induction s) auto

definition has_prefix :: "string \<Rightarrow> string \<Rightarrow> bool" where
  "has_prefix p s \<longleftrightarrow> take (length p) s = p"

definition has_suffix :: "string \<Rightarrow> string \<Rightarrow> bool" where
  "has_suffix q s \<longleftrightarrow> length q \<le> length s \<and> drop (length s - length q) s = q"

lemma has_prefix_iff: "has_prefix p s \<longleftrightarrow> (\<exists>t. s = p @ t)"
  unfolding has_prefix_def by (metis append_eq_conv_conj append_take_drop_id)

definition trim_prefix :: "string \<Rightarrow> string \<Rightarrow> string" where
  "trim_prefix p s = (if has_prefix p s then drop (length p) s else s)"

fun contains_sub :: "string \<Rightarrow> string \<Rightarrow> bool" where
  "contains_sub p [] = (p = [])"
| "contains_sub p (x # xs) = (has_prefix p (x # xs) \<or> contains_sub p xs)"

section \<open>White space\<close>

text \<open>
  \<open>unicode.IsSpace\<close> as UTF-8: the six ASCII characters, U+0085, U+00A0, U+1680,
  U+2000 to U+200A, U+2028, U+2029, U+202F, U+205F and U+3000.
\<close>

definition space_runes :: "string list" where
  "space_runes =
     [[CHR 0x20], [CHR 0x09], [CHR 0x0A], [CHR 0x0B], [CHR 0x0C], [CHR 0x0D],
      [CHR 0xC2, CHR 0x85], [CHR 0xC2, CHR 0xA0], [CHR 0xE1, CHR 0x9A, CHR 0x80],
      [CHR 0xE2, CHR 0x80, CHR 0x80], [CHR 0xE2, CHR 0x80, CHR 0x81], [CHR 0xE2, CHR 0x80, CHR 0x82],
      [CHR 0xE2, CHR 0x80, CHR 0x83], [CHR 0xE2, CHR 0x80, CHR 0x84], [CHR 0xE2, CHR 0x80, CHR 0x85],
      [CHR 0xE2, CHR 0x80, CHR 0x86], [CHR 0xE2, CHR 0x80, CHR 0x87], [CHR 0xE2, CHR 0x80, CHR 0x88],
      [CHR 0xE2, CHR 0x80, CHR 0x89], [CHR 0xE2, CHR 0x80, CHR 0x8A], [CHR 0xE2, CHR 0x80, CHR 0xA8],
      [CHR 0xE2, CHR 0x80, CHR 0xA9], [CHR 0xE2, CHR 0x80, CHR 0xAF], [CHR 0xE2, CHR 0x81, CHR 0x9F],
      [CHR 0xE3, CHR 0x80, CHR 0x80]]"

text \<open>The length of the white-space rune a string starts with, 0 if it starts with none.\<close>

definition space_len :: "string \<Rightarrow> nat" where
  "space_len s = (case find (\<lambda>w. has_prefix w s) space_runes of None \<Rightarrow> 0 | Some w \<Rightarrow> length w)"

lemma space_len_le: "space_len s \<le> length s"
proof (cases "find (\<lambda>w. has_prefix w s) space_runes")
  case None
  then show ?thesis by (simp add: space_len_def)
next
  case (Some w)
  then have "has_prefix w s" by (auto simp: find_Some_iff)
  then have "length w \<le> length s" by (auto simp: has_prefix_iff)
  with Some show ?thesis by (simp add: space_len_def)
qed

lemma space_len_Nil [simp]: "space_len [] = 0"
  using space_len_le [of "[]"] by simp

function trim_left :: "string \<Rightarrow> string" where
  "trim_left s = (if space_len s = 0 then s else trim_left (drop (space_len s) s))"
  by pat_completeness auto
termination
proof (relation "measure length")
  fix s :: string
  assume "space_len s \<noteq> 0"
  moreover from this have "s \<noteq> []" by auto
  ultimately show "(drop (space_len s) s, s) \<in> measure length" by (cases s) auto
qed simp

declare trim_left.simps [simp del]

definition end_space_len :: "string \<Rightarrow> nat" where
  "end_space_len s = (case find (\<lambda>w. has_suffix w s) space_runes of None \<Rightarrow> 0 | Some w \<Rightarrow> length w)"

lemma end_space_len_Nil [simp]: "end_space_len [] = 0"
  by (simp add: end_space_len_def space_runes_def has_suffix_def)

function trim_right :: "string \<Rightarrow> string" where
  "trim_right s =
     (if end_space_len s = 0 then s else trim_right (take (length s - end_space_len s) s))"
  by pat_completeness auto
termination
proof (relation "measure length")
  fix s :: string
  assume "end_space_len s \<noteq> 0"
  moreover from this have "s \<noteq> []" by auto
  ultimately show "(take (length s - end_space_len s) s, s) \<in> measure length" by (cases s) auto
qed simp

declare trim_right.simps [simp del]

definition trim_space :: "string \<Rightarrow> string" where
  "trim_space s = trim_right (trim_left s)"

text \<open>White space cannot start or end at characters that no white-space rune has there.\<close>

lemma space_len_0:
  assumes "c \<notin> hd ` set space_runes"
  shows "space_len (c # s) = 0"
proof -
  have "\<not> has_prefix w (c # s)" if "w \<in> set space_runes" for w
    using that assms by (auto simp: space_runes_def has_prefix_def)
  then have "find (\<lambda>w. has_prefix w (c # s)) space_runes = None" by (simp add: find_None_iff)
  then show ?thesis by (simp add: space_len_def)
qed

lemma end_space_len_0:
  assumes "c \<notin> last ` set space_runes"
  shows "end_space_len (s @ [c]) = 0"
proof -
  have "\<not> has_suffix w (s @ [c])" if w: "w \<in> set space_runes" for w
  proof
    assume "has_suffix w (s @ [c])"
    then obtain p where p: "s @ [c] = p @ w"
      by (metis append_take_drop_id has_suffix_def)
    have "w \<noteq> []" using w by (auto simp: space_runes_def)
    then have "last w = c" using arg_cong [OF p, of last] by simp
    with w assms show False by blast
  qed
  then have "find (\<lambda>w. has_suffix w (s @ [c])) space_runes = None" by (simp add: find_None_iff)
  then show ?thesis by (simp add: end_space_len_def)
qed

lemma trim_space_id:
  assumes "hd s \<notin> hd ` set space_runes" and "last s \<notin> last ` set space_runes" and "s \<noteq> []"
  shows "trim_space s = s"
proof -
  obtain c t where s: "s = c # t" using assms(3) by (cases s) auto
  have "trim_left s = s"
    using space_len_0 [of c t] assms(1) by (simp add: s trim_left.simps [of "c # t"])
  moreover obtain u e where u: "s = u @ [e]" using assms(3) by (cases s rule: rev_cases) auto
  have "trim_right s = s"
    using end_space_len_0 [of e u] assms(2) by (simp add: u trim_right.simps [of "u @ [e]"])
  ultimately show ?thesis by (simp add: trim_space_def)
qed

lemma trim_space_blank: "trim_space (CHR '' '' # s) = trim_space s"
proof -
  have "space_len (CHR '' '' # s) = 1" by (simp add: space_len_def space_runes_def has_prefix_def)
  then have "trim_left (CHR '' '' # s) = trim_left s" by (subst trim_left.simps) simp
  then show ?thesis by (simp add: trim_space_def)
qed

lemma set_trim_left: "set (trim_left s) \<subseteq> set s"
proof (induction s rule: trim_left.induct)
  case (1 s)
  show ?case
  proof (cases "space_len s = 0")
    case True
    then show ?thesis by (simp add: trim_left.simps [of s])
  next
    case False
    with 1 have "set (trim_left (drop (space_len s) s)) \<subseteq> set (drop (space_len s) s)" by simp
    with False show ?thesis
      by (simp add: trim_left.simps [of s]) (meson order_trans set_drop_subset)
  qed
qed

lemma set_trim_right: "set (trim_right s) \<subseteq> set s"
proof (induction s rule: trim_right.induct)
  case (1 s)
  show ?case
  proof (cases "end_space_len s = 0")
    case True
    then show ?thesis by (simp add: trim_right.simps [of s])
  next
    case False
    let ?t = "take (length s - end_space_len s) s"
    from False 1 have "set (trim_right ?t) \<subseteq> set ?t" by simp
    with False show ?thesis
      by (simp add: trim_right.simps [of s]) (meson order_trans set_take_subset)
  qed
qed

lemma set_trim_space: "set (trim_space s) \<subseteq> set s"
  unfolding trim_space_def using set_trim_left set_trim_right by blast

text \<open>\<open>strings.Fields\<close>: the maximal runs of non-space, \<open>acc\<close> being the current run reversed.\<close>

function str_fields_acc :: "string \<Rightarrow> string \<Rightarrow> string list" where
  "str_fields_acc acc [] = (if acc = [] then [] else [rev acc])"
| "str_fields_acc acc (x # xs) =
     (if space_len (x # xs) = 0 then str_fields_acc (x # acc) xs
      else (if acc = [] then [] else [rev acc]) @ str_fields_acc [] (drop (space_len (x # xs)) (x # xs)))"
  by pat_completeness auto
termination
  by (relation "measure (\<lambda>(acc, s). length s)") auto

definition str_fields :: "string \<Rightarrow> string list" where
  "str_fields s = str_fields_acc [] s"

section \<open>Case mapping and numbers\<close>

text \<open>
  \<open>strings.ToUpper\<close> and \<open>strings.ToLower\<close>, up to the equality of the result with ASCII
  text, which is all the modelled code asks of it: ASCII letters are mapped, and so are the
  runes beyond ASCII whose mapping is an ASCII letter (dotless i and long s to upper case;
  dotted capital I and the Kelvin sign to lower case). Every other rune beyond ASCII maps to
  a rune beyond ASCII, and is kept here.
\<close>

definition upper_char :: "char \<Rightarrow> char" where
  "upper_char c =
     (if 97 \<le> (of_char c :: nat) \<and> (of_char c :: nat) \<le> 122 then char_of ((of_char c :: nat) - 32) else c)"

definition lower_char :: "char \<Rightarrow> char" where
  "lower_char c =
     (if 65 \<le> (of_char c :: nat) \<and> (of_char c :: nat) \<le> 90 then char_of ((of_char c :: nat) + 32) else c)"

fun go_upper :: "string \<Rightarrow> string" where
  "go_upper [] = []"
| "go_upper [x] = [upper_char x]"
| "go_upper (x # y # s) =
     (if x = CHR 0xC4 \<and> y = CHR 0xB1 then CHR ''I'' # go_upper s
      else if x = CHR 0xC5 \<and> y = CHR 0xBF then CHR ''S'' # go_upper s
      else upper_char x # go_upper (y # s))"

fun go_lower :: "string \<Rightarrow> string" where
  "go_lower [] = []"
| "go_lower [x] = [lower_char x]"
| "go_lower (x # y # s) =
     (if x = CHR 0xC4 \<and> y = CHR 0xB0 then CHR ''i'' # go_lower s
      else if x = CHR 0xE2 \<and> y = CHR 0x84 \<and> take 1 s = [CHR 0xAA] then CHR ''k'' # go_lower (drop 1 s)
      else lower_char x # go_lower (y # s))"

definition digit_char :: "nat \<Rightarrow> char" where
  "digit_char d = char_of (48 + d)"

fun itoa :: "nat \<Rightarrow> string" where
  "itoa n = (if n < 10 then [digit_char n] else itoa (n div 10) @ [digit_char (n mod 10)])"

declare itoa.simps [simp del]

definition is_digit :: "char \<Rightarrow> bool" where
  "is_digit c \<longleftrightarrow> 48 \<le> (of_char c :: nat) \<and> (of_char c :: nat) \<le> 57"

definition is_letter :: "char \<Rightarrow> bool" where
  "is_letter c \<longleftrightarrow> 65 \<le> (of_char c :: nat) \<and> (of_char c :: nat) \<le> 90
     \<or> 97 \<le> (of_char c :: nat) \<and> (of_char c :: nat) \<le> 122"

definition digit_val :: "char \<Rightarrow> nat" where
  "digit_val c = of_char c - 48"

lemma digit_char_props [simp]:
  assumes "d < 10"
  shows "is_digit (digit_char d)" and "digit_val (digit_char d) = d"
  using assms by (simp_all add: digit_char_def is_digit_def digit_val_def)

lemma itoa_digits: "c \<in> set (itoa n) \<Longrightarrow> is_digit c"
proof (induction n rule: itoa.induct)
  case (1 n)
  then show ?case by (subst (asm) (2) itoa.simps) (auto split: if_splits)
qed

definition decimal_value :: "string \<Rightarrow> nat" where
  "decimal_value s = fold (\<lambda>c v. 10 * v + digit_val c) s 0"

lemma decimal_value_snoc: "decimal_value (s @ [c]) = 10 * decimal_value s + digit_val c"
  by (simp add: decimal_value_def)

lemma decimal_value_itoa [simp]: "decimal_value (itoa n) = n"
proof (induction n rule: itoa.induct)
  case (1 n)
  show ?case
  proof (cases "n < 10")
    case True
    then show ?thesis by (subst itoa.simps) (simp add: decimal_value_def)
  next
    case False
    with 1 show ?thesis by (subst itoa.simps) (simp add: decimal_value_snoc)
  qed
qed

lemma itoa_inject [simp]: "itoa m = itoa n \<longleftrightarrow> m = n"
  by (metis decimal_value_itoa)

lemma itoa_nonempty [simp]: "itoa n \<noteq> []"
  by (subst itoa.simps) simp

text \<open>Lower-case hexadecimal digits, and Go's wrap-around of int64.\<close>

definition hex_char :: "nat \<Rightarrow> char" where
  "hex_char n = (if n < 10 then char_of (48 + n) else char_of (87 + n))"

definition wrap64 :: "int \<Rightarrow> int" where
  "wrap64 x = (x + 2 ^ 63) mod 2 ^ 64 - 2 ^ 63"

lemma wrap64_id: "- (2 ^ 63) \<le> x \<Longrightarrow> x < 2 ^ 63 \<Longrightarrow> wrap64 x = x"
  by (simp add: wrap64_def)

section \<open>Components with state\<close>

text \<open>Taking one caller out of the multiset of those at work.\<close>

lemma count_list_remove1:
  "count_list (remove1 x xs) y = count_list xs y - (if x = y then 1 else 0)"
  by (induction xs) (auto simp: Suc_diff_le dest: count_notin count_list_0_iff [THEN iffD1])

text \<open>
  A component whose operations are atomic steps on its state (Go methods under a mutex, in
  any interleaving of the callers): an invariant that holds initially and that every step
  keeps holds in every reachable state, and along every run.
\<close>

locale transition_system =
  fixes init :: "'s \<Rightarrow> bool"
    and step :: "'s \<Rightarrow> 's \<Rightarrow> bool"
    and inv :: "'s \<Rightarrow> bool"
  assumes inv_init: "init s \<Longrightarrow> inv s"
    and inv_step: "inv s \<Longrightarrow> step s t \<Longrightarrow> inv t"
begin

lemma inv_steps:
  assumes "step\<^sup>*\<^sup>* s t" and "inv s"
  shows "inv t"
  using assms by (induction rule: rtranclp_induct) (auto intro: inv_step)

lemma inv_reachable:
  assumes "init s" and "step\<^sup>*\<^sup>* s t"
  shows "inv t"
  using inv_steps [OF assms(2) inv_init [OF assms(1)]] .

end

end
