(* ===== verification/Go_Base.thy ===== *)
theory Go_Base
  imports Prelude
begin

text \<open>
  Go values and errors shared by the components.

  \<^item> \<open>gval\<close> stands for a value of type \<open>any\<close>, by the distinctions the code makes with
    \<open>reflect\<close> and type switches: slices and arrays (\<open>VList\<close>) are told apart from
    \<open>[]byte\<close> (\<open>VBytes\<close>), and numbers keep their kind.
  \<^item> \<open>gerr\<close> is an error value: a node with the facets that \<open>errors.Is\<close> and
    \<open>errors.As\<close> look for, and the errors it wraps (\<open>%w\<close>, \<open>errors.Join\<close>).
\<close>

section \<open>Values\<close>

datatype gval =
    VNil
  | VBool bool
  | VInt int
  | VUint nat
  | VFloat rat
  | VNumber string
  | VStr string
  | VBytes string
  | VList "gval list"
  | VMap "(string \<times> gval) list"
  | VPtr "gval option"
  | VOther string

text \<open>
  \<open>expandSlice\<close> of pkg/sqlutil and \<open>expandList\<close> of pkg/db: the elements of a slice or array,
  \<open>None\<close> when the value is not a list; \<open>[]byte\<close> is a scalar.
\<close>

fun expand_slice :: "gval \<Rightarrow> gval list option" where
  "expand_slice (VList vs) = Some vs"
| "expand_slice _ = None"

section \<open>Errors\<close>

record err_info =
  e_id :: string \<comment> \<open>the identity of a sentinel error, empty for an error made on the spot\<close>
  e_msg :: string \<comment> \<open>what \<open>Error()\<close> returns\<close>
  e_state :: "string option" \<comment> \<open>\<open>SQLState()\<close>, where the type has it\<close>
  e_mssql :: "int option" \<comment> \<open>\<open>SQLErrorNumber()\<close>\<close>
  e_mysql :: "int option" \<comment> \<open>\<open>Number\<close> of a \<open>*mysql.MySQLError\<close>\<close>
  e_sqlite :: "int option" \<comment> \<open>\<open>Code\<close> of a \<open>sqlite3.Error\<close>\<close>
  e_code :: "int option" \<comment> \<open>\<open>Code() int\<close>\<close>
  e_timeout :: "bool option" \<comment> \<open>\<open>Timeout()\<close> of a \<open>net.Error\<close>\<close>

datatype gerr = Gerr err_info "gerr list"

definition plain_info :: "string \<Rightarrow> string \<Rightarrow> err_info" where
  "plain_info i m = \<lparr>e_id = i, e_msg = m, e_state = None, e_mssql = None, e_mysql = None,
     e_sqlite = None, e_code = None, e_timeout = None\<rparr>"

definition sentinel :: "string \<Rightarrow> gerr" where
  "sentinel i = Gerr (plain_info i i) []"

definition err_new :: "string \<Rightarrow> gerr" where
  "err_new m = Gerr (plain_info [] m) []"

text \<open>The tree in the order \<open>errors.Is\<close> and \<open>errors.As\<close> visit it: a node, then what it wraps.\<close>

fun err_nodes :: "gerr \<Rightarrow> err_info list" where
  "err_nodes (Gerr i cs) = i # concat (map err_nodes cs)"

fun err_msg :: "gerr \<Rightarrow> string" where
  "err_msg (Gerr i cs) = e_msg i"

definition err_is :: "gerr \<Rightarrow> string \<Rightarrow> bool" where
  "err_is e i \<longleftrightarrow> i \<noteq> [] \<and> (\<exists>n\<in>set (err_nodes e). e_id n = i)"

text \<open>\<open>errors.As\<close>: the first node that has the facet.\<close>

definition err_as :: "(err_info \<Rightarrow> 'a option) \<Rightarrow> gerr \<Rightarrow> 'a option" where
  "err_as f e = (case List.map_filter f (err_nodes e) of [] \<Rightarrow> None | x # _ \<Rightarrow> Some x)"

text \<open>\<open>fmt.Errorf\<close> with \<open>%w\<close> (the message put before a colon), and \<open>errors.Join\<close>.\<close>

definition err_wrap :: "string \<Rightarrow> gerr \<Rightarrow> gerr" where
  "err_wrap m e = Gerr (plain_info [] (m @ '': '' @ err_msg e)) [e]"

definition err_join :: "gerr \<Rightarrow> gerr \<Rightarrow> gerr" where
  "err_join a b = Gerr (plain_info [] (err_msg a @ [CHR 0x0A] @ err_msg b)) [a, b]"

lemma err_is_wrap [simp]: "err_is (err_wrap m e) i \<longleftrightarrow> err_is e i"
  by (auto simp: err_is_def err_wrap_def plain_info_def)

lemma err_is_join [simp]: "err_is (err_join a b) i \<longleftrightarrow> err_is a i \<or> err_is b i"
  by (auto simp: err_is_def err_join_def plain_info_def)

lemma err_is_sentinel [simp]: "err_is (sentinel j) i \<longleftrightarrow> i \<noteq> [] \<and> i = j"
  by (auto simp: err_is_def sentinel_def plain_info_def)

lemma err_is_new [simp]: "\<not> err_is (err_new m) i"
  by (auto simp: err_is_def err_new_def plain_info_def)

lemma err_as_wrap [simp]: "f (plain_info [] (m @ '': '' @ err_msg e)) = None \<Longrightarrow> err_as f (err_wrap m e) = err_as f e"
  by (simp add: err_as_def err_wrap_def List.map_filter_simps)

text \<open>The context errors of the standard library; \<open>DeadlineExceeded\<close> is a timed-out \<open>net.Error\<close>.\<close>

definition ctx_canceled :: gerr where
  "ctx_canceled = sentinel ''context canceled''"

definition ctx_deadline :: gerr where
  "ctx_deadline =
     Gerr ((plain_info ''context deadline exceeded'' ''context deadline exceeded'')
            \<lparr>e_timeout := Some True\<rparr>) []"

end
