(* ===== verification/Web_Session.thy ===== *)
theory Web_Session
  imports Go_Base "HOL-Library.AList"
begin

text \<open>
  What \<open>pkg/web\<close> keeps in sessions: flash messages and the user (\<open>flash.go\<close>), old form input
  (\<open>oldinputs.go\<close>), the preferred language (\<open>langpref.go\<close>) with \<open>ParseAcceptLanguage\<close> of
  \<open>pkg/localization\<close>, and the settings of the store (\<open>session.go\<close>).

  \<open>gorilla/sessions\<close> is a parameter: reading and saving the values of a session by name, and its
  \<open>AddFlash\<close> and \<open>Flashes\<close>. A \<open>[]interface{}\<close> is a \<open>VList\<close>. \<open>encoding/json\<close> is a parameter too.
  What a call changed in memory but did not save (because saving failed, or there was nothing to
  tell) is not followed to later calls of the same request.
\<close>

section \<open>Sessions\<close>

type_synonym sess_vals = "(string \<times> gval) list"

text \<open>\<open>AddFlash\<close> and \<open>Flashes\<close> panic (\<open>None\<close>) on a value that is no list.\<close>

record 'w sess_lib =
  se_get :: "string \<Rightarrow> 'w \<Rightarrow> gerr + sess_vals"
  se_save :: "string \<Rightarrow> sess_vals \<Rightarrow> 'w \<Rightarrow> gerr option \<times> 'w"
  se_add_flash :: "gval \<Rightarrow> string \<Rightarrow> sess_vals \<Rightarrow> sess_vals option"
  se_flashes :: "string \<Rightarrow> sess_vals \<Rightarrow> (gval list \<times> sess_vals) option"
  se_sprint :: "gval \<Rightarrow> string"

definition flash_session_name :: string where
  "flash_session_name = ''session-flash''"

definition auth_session_name :: string where
  "auth_session_name = ''session-auth''"

text \<open>A result: \<open>None\<close> is a panic.\<close>

definition save_values :: "'w sess_lib \<Rightarrow> string \<Rightarrow> 'a \<Rightarrow> 'a \<Rightarrow> sess_vals \<Rightarrow> 'w \<Rightarrow> ('a \<times> gerr option) \<times> 'w" where
  "save_values S name ok bad vals w =
     (case se_save S name vals w of (None, w1) \<Rightarrow> ((ok, None), w1) | (Some e, w1) \<Rightarrow> ((bad, Some e), w1))"

section \<open>Flash messages\<close>

definition is_flash_value :: "gval option \<Rightarrow> bool" where
  "is_flash_value v = (case v of Some (VList vs) \<Rightarrow> True | _ \<Rightarrow> False)"

definition flash_to_strings :: "(gval \<Rightarrow> string) \<Rightarrow> gval list \<Rightarrow> string list" where
  "flash_to_strings sprint fl = map (\<lambda>v. case v of VStr s \<Rightarrow> s | _ \<Rightarrow> sprint v) fl"

definition add_flash :: "'w sess_lib \<Rightarrow> string \<Rightarrow> string \<Rightarrow> 'w \<Rightarrow> (gerr option \<times> 'w) option" where
  "add_flash S key message w =
     (case se_get S flash_session_name w of
        Inl e \<Rightarrow> Some (Some e, w)
      | Inr vals \<Rightarrow>
          (case se_add_flash S (VStr message) key vals of
             None \<Rightarrow> None
           | Some vals1 \<Rightarrow> Some (se_save S flash_session_name vals1 w)))"

text \<open>The redirect is what is sent where the message could be stored.\<close>

definition flash_and_redirect ::
  "'w sess_lib \<Rightarrow> (string \<Rightarrow> nat \<Rightarrow> 'w \<Rightarrow> 'w) \<Rightarrow> string \<Rightarrow> string \<Rightarrow> string \<Rightarrow> nat \<Rightarrow> 'w \<Rightarrow> (gerr option \<times> 'w) option" where
  "flash_and_redirect S redirect key message url code w =
     map_option (\<lambda>(e, w1). if e = None then (None, redirect url code w1) else (e, w1)) (add_flash S key message w)"

fun add_flashes :: "'w sess_lib \<Rightarrow> string \<Rightarrow> gval list \<Rightarrow> sess_vals \<Rightarrow> sess_vals option" where
  "add_flashes S key [] vals = Some vals"
| "add_flashes S key (v # vs) vals =
     (case se_add_flash S v key vals of None \<Rightarrow> None | Some vals1 \<Rightarrow> add_flashes S key vs vals1)"

definition get_flash :: "'w sess_lib \<Rightarrow> string \<Rightarrow> 'w \<Rightarrow> ((string \<times> gerr option) \<times> 'w) option" where
  "get_flash S key w =
     (case se_get S flash_session_name w of
        Inl e \<Rightarrow> Some (([], Some e), w)
      | Inr vals \<Rightarrow>
          if \<not> is_flash_value (map_of vals key) then Some (([], None), w)
          else
            (case se_flashes S key vals of
               None \<Rightarrow> None
             | Some (fl, vals1) \<Rightarrow>
                 if fl = [] then Some (([], None), w)
                 else
                   (case add_flashes S key (tl fl) vals1 of
                      None \<Rightarrow> None
                    | Some vals2 \<Rightarrow>
                        Some (save_values S flash_session_name (hd (flash_to_strings (se_sprint S) (take 1 fl))) [] vals2 w))))"

definition get_flashes :: "'w sess_lib \<Rightarrow> string \<Rightarrow> 'w \<Rightarrow> ((string list \<times> gerr option) \<times> 'w) option" where
  "get_flashes S key w =
     (case se_get S flash_session_name w of
        Inl e \<Rightarrow> Some (([], Some e), w)
      | Inr vals \<Rightarrow>
          if \<not> is_flash_value (map_of vals key) then Some (([], None), w)
          else
            (case se_flashes S key vals of
               None \<Rightarrow> None
             | Some (fl, vals1) \<Rightarrow>
                 if fl = [] then Some (([], None), w)
                 else Some (save_values S flash_session_name (flash_to_strings (se_sprint S) fl) [] vals1 w)))"

definition clear_flashes :: "'w sess_lib \<Rightarrow> 'w \<Rightarrow> gerr option \<times> 'w" where
  "clear_flashes S w =
     (case se_get S flash_session_name w of
        Inl e \<Rightarrow> (Some e, w)
      | Inr vals \<Rightarrow> se_save S flash_session_name (filter (\<lambda>(k, v). \<not> is_flash_value (Some v)) vals) w)"

definition get_all_flashes :: "'w sess_lib \<Rightarrow> 'w \<Rightarrow> ((string \<times> string list) list \<times> gerr option) \<times> 'w" where
  "get_all_flashes S w =
     (case se_get S flash_session_name w of
        Inl e \<Rightarrow> (([], Some e), w)
      | Inr vals \<Rightarrow>
          (let out = List.map_filter (\<lambda>(k, v). case v of
                 VList fl \<Rightarrow> if fl = [] then None else Some (k, flash_to_strings (se_sprint S) fl)
               | _ \<Rightarrow> None) vals;
               vals1 = filter (\<lambda>(k, v). \<not> is_flash_value (Some v)) vals in
           if out \<noteq> [] then
             (case se_save S flash_session_name vals1 w of (e, w1) \<Rightarrow> ((out, e), w1))
           else ((out, None), w)))"

section \<open>The user of a session\<close>

definition user_key_raw :: string where
  "user_key_raw = ''user''"

definition user_key_json :: string where
  "user_key_json = ''userjson''"

text \<open>\<open>marshal\<close> is \<open>json.Marshal\<close>.\<close>

definition set_user_in_session :: "'w sess_lib \<Rightarrow> (gval \<Rightarrow> gerr + string) \<Rightarrow> gval option \<Rightarrow> 'w \<Rightarrow> gerr option \<times> 'w" where
  "set_user_in_session S marshal user w =
     (case se_get S auth_session_name w of
        Inl e \<Rightarrow> (Some e, w)
      | Inr vals \<Rightarrow>
          (let vals1 = AList.delete user_key_raw vals in
           case user of
             None \<Rightarrow> se_save S auth_session_name (AList.delete user_key_json vals1) w
           | Some u \<Rightarrow>
               (case marshal u of
                  Inl e \<Rightarrow> (Some (err_wrap ''web: user is not JSON-serialisable'' e), w)
                | Inr b \<Rightarrow> se_save S auth_session_name (AList.update user_key_json (VStr b) vals1) w)))"

text \<open>\<open>unmarshal\<close> is \<open>json.Unmarshal\<close> into a map.\<close>

definition user_from_session :: "(string \<Rightarrow> gval option) \<Rightarrow> sess_vals \<Rightarrow> gval option" where
  "user_from_session unmarshal vals =
     (case map_of vals user_key_json of
        Some (VStr s) \<Rightarrow> Some (case unmarshal s of Some m \<Rightarrow> m | None \<Rightarrow> VStr s)
      | _ \<Rightarrow>
          (case map_of vals user_key_raw of
             Some v \<Rightarrow> if v = VNil then None else Some v
           | None \<Rightarrow> None))"

definition get_user_from_request :: "'w sess_lib \<Rightarrow> (string \<Rightarrow> gval option) \<Rightarrow> 'w \<Rightarrow> gval option" where
  "get_user_from_request S unmarshal w =
     (case se_get S auth_session_name w of Inl e \<Rightarrow> None | Inr vals \<Rightarrow> user_from_session unmarshal vals)"

definition clear_user_from_session :: "'w sess_lib \<Rightarrow> 'w \<Rightarrow> gerr option \<times> 'w" where
  "clear_user_from_session S w =
     (case se_get S auth_session_name w of
        Inl e \<Rightarrow> (Some e, w)
      | Inr vals \<Rightarrow> se_save S auth_session_name (AList.delete user_key_json (AList.delete user_key_raw vals)) w)"


section \<open>Old form input\<close>

definition old_session_key :: string where
  "old_session_key = ''old_form''"

record old_limits =
  ol_max_json :: int
  ol_per_value :: int
  ol_first_value :: int

definition default_old_limits :: old_limits where
  "default_old_limits = \<lparr>ol_max_json = 2048, ol_per_value = 256, ol_first_value = 128\<rparr>"

definition set_old_input_limits :: "int \<Rightarrow> int \<Rightarrow> int \<Rightarrow> old_limits \<Rightarrow> old_limits" where
  "set_old_input_limits a b c l =
     \<lparr>ol_max_json = (if 0 < a then a else ol_max_json l), ol_per_value = (if 0 < b then b else ol_per_value l),
      ol_first_value = (if 0 < c then c else ol_first_value l)\<rparr>"

definition default_sensitive_patterns :: "string list" where
  "default_sensitive_patterns = [''password'', ''passwd'', ''secret'', ''token'', ''csrf'', ''creditcard'', ''credit_card'',
     ''cardnumber'', ''card_number'', ''iban'']"

definition sensitive_words :: "string list" where
  "sensitive_words = [''pwd'', ''pass'', ''card'', ''cvv'', ''cvc'', ''ssn'', ''otp'', ''pin'']"

definition add_sensitive_field_patterns :: "string list \<Rightarrow> string list \<Rightarrow> string list" where
  "add_sensitive_field_patterns ps pats = pats @ filter (\<lambda>p. p \<noteq> []) (map (\<lambda>p. go_lower (trim_space p)) ps)"

definition field_sep :: "char \<Rightarrow> bool" where
  "field_sep c \<longleftrightarrow> c \<in> set ''_-.[] ''"

text \<open>\<open>strings.FieldsFunc\<close>: the maximal parts without separators.\<close>

fun fields_func :: "(char \<Rightarrow> bool) \<Rightarrow> string \<Rightarrow> string \<Rightarrow> string list" where
  "fields_func sep cur [] = (if cur = [] then [] else [cur])"
| "fields_func sep cur (c # s) =
     (if sep c then (if cur = [] then [] else [cur]) @ fields_func sep [] s else fields_func sep (cur @ [c]) s)"

definition is_sensitive_field :: "string list \<Rightarrow> string \<Rightarrow> bool" where
  "is_sensitive_field pats name =
     (let n = go_lower name in
      has_prefix ''card'' n \<or> (\<exists>p\<in>set pats. contains_sub p n) \<or> (\<exists>w\<in>set (fields_func field_sep [] n). w \<in> set sensitive_words))"

text \<open>\<open>utf8.RuneStart\<close>: no continuation byte.\<close>

definition rune_start :: "char \<Rightarrow> bool" where
  "rune_start c \<longleftrightarrow> (of_char c :: nat) div 64 \<noteq> 2"

fun cut_back :: "string \<Rightarrow> nat \<Rightarrow> nat" where
  "cut_back s 0 = 0"
| "cut_back s (Suc n) = (if rune_start (s ! Suc n) then Suc n else cut_back s n)"

definition truncate_bytes :: "string \<Rightarrow> int \<Rightarrow> string" where
  "truncate_bytes s n =
     (if n \<le> 0 then [] else if int (length s) \<le> n then s else take (cut_back s (nat n)) s)"

text \<open>A form is a list of its fields, one entry for each; a map is marshalled in the order of its keys.\<close>

type_synonym old_form = "(string \<times> string list) list"

definition by_key :: "old_form \<Rightarrow> old_form" where
  "by_key m = sort_key fst m"

text \<open>Strategy 3: the fields that fit, by name; the result is the last encoding that fits.\<close>

fun fit_fields ::
  "(old_form \<Rightarrow> gerr + string) \<Rightarrow> int \<Rightarrow> old_form \<Rightarrow> string \<Rightarrow> old_form \<Rightarrow> gerr + string" where
  "fit_fields marshal mx fit best [] = Inr best"
| "fit_fields marshal mx fit best (kv # kvs) =
     (case marshal (fit @ [kv]) of
        Inl e \<Rightarrow> Inl e
      | Inr bb \<Rightarrow>
          if mx < int (length bb) then fit_fields marshal mx fit best kvs
          else fit_fields marshal mx (fit @ [kv]) bb kvs)"

definition encode_old_inputs ::
  "(old_form \<Rightarrow> gerr + string) \<Rightarrow> old_limits \<Rightarrow> string list \<Rightarrow> old_form \<Rightarrow> gerr + string" where
  "encode_old_inputs marshal l pats form =
     (let clean = by_key (filter (\<lambda>(k, vs). \<not> is_sensitive_field pats k) form) in
      if clean = [] then Inr []
      else
        res_bind (marshal clean) (\<lambda>b.
          if int (length b) \<le> ol_max_json l then Inr b
          else
            res_bind (marshal (filter (\<lambda>(k, vs). vs \<noteq> []) (map (\<lambda>(k, vs). (k, map (\<lambda>v. truncate_bytes v (ol_per_value l)) vs)) clean)))
              (\<lambda>b1.
                if int (length b1) \<le> ol_max_json l then Inr b1
                else
                  (let mini = map (\<lambda>(k, vs). (k, [if vs = [] then [] else truncate_bytes (hd vs) (ol_first_value l)])) clean in
                   res_bind (marshal mini) (\<lambda>b2.
                     if int (length b2) \<le> ol_max_json l then Inr b2
                     else fit_fields marshal (ol_max_json l) [] [] mini)))))"

definition set_old_inputs ::
  "'w sess_lib \<Rightarrow> (old_form \<Rightarrow> gerr + string) \<Rightarrow> old_limits \<Rightarrow> string list \<Rightarrow> old_form \<Rightarrow> 'w \<Rightarrow> gerr option \<times> 'w" where
  "set_old_inputs S marshal l pats form w =
     (case encode_old_inputs marshal l pats form of
        Inl e \<Rightarrow> (Some e, w)
      | Inr enc \<Rightarrow>
          (case se_get S flash_session_name w of
             Inl e \<Rightarrow> (Some e, w)
           | Inr vals \<Rightarrow>
               se_save S flash_session_name
                 (if enc = [] then AList.delete old_session_key vals else AList.update old_session_key (VStr enc) vals) w))"

text \<open>\<open>unmarshal\<close> gives the form, or \<open>None\<close> where the text is none.\<close>

definition get_old_inputs ::
  "'w sess_lib \<Rightarrow> (string \<Rightarrow> old_form option) \<Rightarrow> 'w \<Rightarrow> (old_form \<times> gerr option) \<times> 'w" where
  "get_old_inputs S unmarshal w =
     (case se_get S flash_session_name w of
        Inl e \<Rightarrow> (([], Some e), w)
      | Inr vals \<Rightarrow>
          (case map_of vals old_session_key of
             Some (VStr v) \<Rightarrow>
               (let form = (case unmarshal v of Some m \<Rightarrow> m | None \<Rightarrow> []) in
                save_values S flash_session_name form form (AList.delete old_session_key vals) w)
           | _ \<Rightarrow> (([], None), w)))"

section \<open>Languages\<close>

definition lang_session_name :: string where
  "lang_session_name = ''session-i18n''"

definition lang_key :: string where
  "lang_key = ''lang''"

definition err_invalid_lang :: gerr where
  "err_invalid_lang = sentinel ''web: invalid language tag''"

definition valid_lang :: "string \<Rightarrow> bool" where
  "valid_lang l \<longleftrightarrow> l \<noteq> [] \<and> length l \<le> 35 \<and> list_all (\<lambda>c. is_letter c \<or> is_digit c \<or> c = CHR ''-'' \<or> c = CHR ''_'') l"

definition set_preferred_lang :: "'w sess_lib \<Rightarrow> string \<Rightarrow> 'w \<Rightarrow> gerr option \<times> 'w" where
  "set_preferred_lang S l w =
     (if \<not> valid_lang l then (Some err_invalid_lang, w)
      else
        (case se_get S lang_session_name w of
           Inl e \<Rightarrow> (Some e, w)
         | Inr vals \<Rightarrow> se_save S lang_session_name (AList.update lang_key (VStr l) vals) w))"

definition preferred_lang :: "'w sess_lib \<Rightarrow> 'w \<Rightarrow> string option" where
  "preferred_lang S w =
     (case se_get S lang_session_name w of
        Inl e \<Rightarrow> None
      | Inr vals \<Rightarrow> (case map_of vals lang_key of Some (VStr s) \<Rightarrow> if s \<noteq> [] then Some s else None | _ \<Rightarrow> None))"

fun merge_from :: "string list \<Rightarrow> string list \<Rightarrow> string list" where
  "merge_from seen [] = []"
| "merge_from seen (l # ls) =
     (if l = [] \<or> l \<in> set seen then merge_from seen ls else l # merge_from (l # seen) ls)"

definition merge_langs :: "string \<Rightarrow> string list \<Rightarrow> string list" where
  "merge_langs pref langs = merge_from [] (pref # langs)"

text \<open>
  \<open>ParseAcceptLanguage\<close>; \<open>parse_float\<close> is \<open>strconv.ParseFloat\<close> on the texts that are no \<open>NaN\<close>. The quality of a
  part is that of its last \<open>q\<close>; a bad one ends the loop.
\<close>

fun quality_of :: "(string \<Rightarrow> rat option) \<Rightarrow> rat \<Rightarrow> string list \<Rightarrow> rat option" where
  "quality_of parse_float q [] = Some q"
| "quality_of parse_float q (prm # ps) =
     (case index_byte (CHR ''='') prm of
        None \<Rightarrow> quality_of parse_float q ps
      | Some i \<Rightarrow>
          if go_lower (trim_space (take i prm)) \<noteq> ''q'' then quality_of parse_float q ps
          else
            (case parse_float (trim_space (drop (Suc i) prm)) of
               None \<Rightarrow> None
             | Some f \<Rightarrow> if f < 0 then None else quality_of parse_float (min f 1) ps))"

definition lang_part :: "(string \<Rightarrow> rat option) \<Rightarrow> string \<Rightarrow> (string \<times> rat) option" where
  "lang_part parse_float part =
     (let fields = split_on (CHR '';'') part; l = trim_space (hd fields) in
      if l = [] \<or> l = ''*'' then None
      else (case quality_of parse_float 1 (tl fields) of None \<Rightarrow> None | Some q \<Rightarrow> if q \<le> 0 then None else Some (l, q)))"

fun distinct_langs :: "string list \<Rightarrow> string list \<Rightarrow> string list \<times> string list" where
  "distinct_langs seen [] = ([], seen)"
| "distinct_langs seen (l # ls) =
     (if go_lower l \<in> set seen then distinct_langs seen ls
      else (let (out, s) = distinct_langs (go_lower l # seen) ls in (l # out, s)))"

definition parse_accept_language :: "(string \<Rightarrow> rat option) \<Rightarrow> string \<Rightarrow> string \<Rightarrow> string list" where
  "parse_accept_language parse_float header fallback =
     (let lqs = sort_key (\<lambda>(l, q). - q) (List.map_filter (lang_part parse_float) (split_on (CHR '','') header));
          (out, seen) = distinct_langs [] (map fst lqs);
          fb = trim_space fallback in
      if fb \<noteq> [] \<and> go_lower fb \<notin> set seen then out @ [fb] else out)"

definition request_langs :: "'w sess_lib \<Rightarrow> (string \<Rightarrow> rat option) \<Rightarrow> string \<Rightarrow> string \<Rightarrow> 'w \<Rightarrow> string list" where
  "request_langs S parse_float header fallback w =
     merge_langs (case preferred_lang S w of Some l \<Rightarrow> l | None \<Rightarrow> []) (parse_accept_language parse_float header fallback)"


section \<open>The settings of the store\<close>

record session_opts =
  so_path :: string
  so_http_only :: bool
  so_secure :: bool
  so_same_site :: string
  so_max_age :: int

definition default_session_options :: session_opts where
  "default_session_options =
     \<lparr>so_path = ''/'', so_http_only = True, so_secure = True, so_same_site = ''lax'', so_max_age = 3600\<rparr>"

text \<open>A cookie store: its keys, its options, and the age its signatures are good for where it is set.\<close>

record cookie_store =
  ck_keys :: "string list"
  ck_opts :: session_opts
  ck_signed_for :: "int option"

definition new_cookie_store :: "session_opts \<Rightarrow> string list \<Rightarrow> cookie_store" where
  "new_cookie_store o1 ks =
     \<lparr>ck_keys = ks, ck_opts = o1, ck_signed_for = (if 0 < so_max_age o1 then Some (so_max_age o1) else None)\<rparr>"

definition init_session_store_keys :: "string list \<Rightarrow> cookie_store option \<Rightarrow> cookie_store option" where
  "init_session_store_keys ks st = Some (new_cookie_store default_session_options ks)"

text \<open>\<open>random\<close> are the two keys that \<open>randomKey\<close> draws.\<close>

definition ensure_store :: "string \<times> string \<Rightarrow> cookie_store option \<Rightarrow> cookie_store" where
  "ensure_store random st =
     (case st of
        Some s \<Rightarrow> s
      | None \<Rightarrow> new_cookie_store (default_session_options\<lparr>so_secure := False\<rparr>) [fst random, snd random])"

definition set_session_options :: "string \<times> string \<Rightarrow> session_opts option \<Rightarrow> cookie_store option \<Rightarrow> cookie_store option" where
  "set_session_options random opts st =
     (case opts of None \<Rightarrow> st | Some o1 \<Rightarrow> Some (new_cookie_store o1 (ck_keys (ensure_store random st))))"

text \<open>A session that comes with an error is used where there is one.\<close>

definition get_session :: "(string \<Rightarrow> gerr option \<times> sess_vals option) \<Rightarrow> string \<Rightarrow> gerr + sess_vals" where
  "get_session store_get name =
     (case store_get name of
        (None, Some vals) \<Rightarrow> Inr vals
      | (Some e, Some vals) \<Rightarrow> Inr vals
      | (Some e, None) \<Rightarrow> Inl e
      | (None, None) \<Rightarrow> Inr [])"

section \<open>What old input may tell\<close>

text \<open>Fields that are not sensitive, with values cut from those of the form.\<close>

definition cut_from :: "string list \<Rightarrow> old_form \<Rightarrow> old_form \<Rightarrow> bool" where
  "cut_from pats form m \<longleftrightarrow> (\<forall>(k, vs)\<in>set m. \<not> is_sensitive_field pats k \<and>
     (\<exists>ws. (k, ws) \<in> set form \<and> (\<forall>v\<in>set vs. v = [] \<or> (\<exists>x\<in>set ws. prefix v x))))"

lemma truncate_prefix: "prefix (truncate_bytes s n) s"
  by (simp add: truncate_bytes_def take_is_prefix)

lemma cut_from_clean: "cut_from pats form (by_key (filter (\<lambda>(k, vs). \<not> is_sensitive_field pats k) form))"
  by (auto simp: cut_from_def by_key_def)

lemma cut_from_map:
  assumes "cut_from pats form m" and "\<And>k vs v. (k, vs) \<in> set m \<Longrightarrow> v \<in> set (f vs) \<Longrightarrow> v = [] \<or> (\<exists>x\<in>set vs. prefix v x)"
  shows "cut_from pats form (map (\<lambda>(k, vs). (k, f vs)) m)"
  unfolding cut_from_def
proof (clarsimp, intro conjI)
  fix k vs assume m: "(k, vs) \<in> set m"
  with assms(1) obtain ws where ws: "\<not> is_sensitive_field pats k" "(k, ws) \<in> set form"
    "\<forall>v\<in>set vs. v = [] \<or> (\<exists>x\<in>set ws. prefix v x)" by (auto simp: cut_from_def)
  show "\<not> is_sensitive_field pats k" by (rule ws(1))
  have "v = [] \<or> (\<exists>x\<in>set ws. prefix v x)" if "v \<in> set (f vs)" for v
    using assms(2) [OF m that] ws(3) by (metis prefix_bot.extremum_uniqueI prefix_order.trans)
  with ws(2) show "\<exists>ws. (k, ws) \<in> set form \<and> (\<forall>v\<in>set (f vs). v = [] \<or> (\<exists>x\<in>set ws. prefix v x))" by blast
qed

lemma cut_from_subset: "cut_from pats form m \<Longrightarrow> set m' \<subseteq> set m \<Longrightarrow> cut_from pats form m'"
  unfolding cut_from_def by blast

lemma fit_fields_cut:
  assumes "cut_from pats form (fit @ kvs)" "best = [] \<or> (\<exists>m. cut_from pats form m \<and> marshal m = Inr best \<and> int (length best) \<le> mx)"
    and "fit_fields marshal mx fit best kvs = Inr s"
  shows "s = [] \<or> (\<exists>m. cut_from pats form m \<and> marshal m = Inr s \<and> int (length s) \<le> mx)"
  using assms
proof (induction kvs arbitrary: fit best)
  case (Cons kv kvs)
  then obtain bb where bb: "marshal (fit @ [kv]) = Inr bb" by (auto split: sum.splits)
  have sub: "cut_from pats form (fit @ [kv])" "cut_from pats form (fit @ kvs)" using Cons(2) by (auto intro: cut_from_subset)
  show ?case
  proof (cases "mx < int (length bb)")
    case True
    with Cons(1) [OF sub(2) Cons(3)] Cons(4) bb show ?thesis by simp
  next
    case False
    with Cons(1) [of "fit @ [kv]" bb] Cons(2,4) bb sub(1) show ?thesis by auto
  qed
qed simp

text \<open>(C36) Old input never tells a secret and never grows too big: whatever a form holds, what is kept of it is nothing, or
  the JSON of a form with none of the sensitive fields, whose values are values of the same field in the form or
  cut off from one, and it is no longer than the limit.\<close>

theorem old_inputs_safe:
  assumes "encode_old_inputs marshal l pats form = Inr s"
  shows "s = [] \<or> (\<exists>m. cut_from pats form m \<and> marshal m = Inr s \<and> int (length s) \<le> ol_max_json l)"
proof -
  let ?clean = "by_key (filter (\<lambda>(k, vs). \<not> is_sensitive_field pats k) form)"
  let ?cut = "map (\<lambda>(k, vs). (k, map (\<lambda>v. truncate_bytes v (ol_per_value l)) vs)) ?clean"
  let ?mini = "map (\<lambda>(k, vs). (k, [if vs = [] then [] else truncate_bytes (hd vs) (ol_first_value l)])) ?clean"
  have "cut_from pats form ?cut" by (rule cut_from_map [OF cut_from_clean]) (auto intro: truncate_prefix)
  then have cut: "cut_from pats form (filter (\<lambda>(k, vs). vs \<noteq> []) ?cut)" by (rule cut_from_subset) auto
  have mini: "cut_from pats form ?mini"
    by (rule cut_from_map [OF cut_from_clean]) (use truncate_prefix list.set_sel(1) in \<open>fastforce split: if_splits\<close>)
  have fit: "s = [] \<or> (\<exists>m. cut_from pats form m \<and> marshal m = Inr s \<and> int (length s) \<le> ol_max_json l)"
    if "fit_fields marshal (ol_max_json l) [] [] ?mini = Inr s"
    by (rule fit_fields_cut [OF _ _ that]) (use mini in simp_all)
  show ?thesis
    using assms cut_from_clean [of pats form] cut mini fit
    unfolding encode_old_inputs_def Let_def by (auto split: if_splits)
qed

lemma old_inputs_safe_witness:
  "\<exists>s m. encode_old_inputs (\<lambda>m. Inr (concat (map fst m))) default_old_limits default_sensitive_patterns
      [(''name'', [''Ada'']), (''Password'', [''x''])] = Inr s \<and> s = ''name''
    \<and> cut_from default_sensitive_patterns [(''name'', [''Ada'']), (''Password'', [''x''])] m"
proof -
  have run: "encode_old_inputs (\<lambda>m. Inr (concat (map fst m))) default_old_limits default_sensitive_patterns
      [(''name'', [''Ada'']), (''Password'', [''x''])] = Inr ''name''" by code_simp
  from old_inputs_safe [OF run] run show ?thesis by blast
qed


section \<open>Flash messages are told once\<close>

text \<open>What the code relies on in \<open>gorilla/sessions\<close>: \<open>AddFlash\<close> appends to the list under the key,
  \<open>Flashes\<close> takes the list away, and what was saved is what is read next.\<close>

definition flash_laws :: "'w sess_lib \<Rightarrow> bool" where
  "flash_laws S \<longleftrightarrow>
     (\<forall>v key vals. se_add_flash S v key vals = (case map_of vals key of
         None \<Rightarrow> Some (AList.update key (VList [v]) vals)
       | Some (VList vs) \<Rightarrow> Some (AList.update key (VList (vs @ [v])) vals)
       | Some _ \<Rightarrow> None))
   \<and> (\<forall>key vals. se_flashes S key vals = (case map_of vals key of
         None \<Rightarrow> Some ([], vals)
       | Some (VList vs) \<Rightarrow> Some (vs, AList.delete key vals)
       | Some _ \<Rightarrow> None))
   \<and> (\<forall>n vals w w'. se_save S n vals w = (None, w') \<longrightarrow> se_get S n w' = Inr vals)"

fun add_messages :: "'w sess_lib \<Rightarrow> string \<Rightarrow> string list \<Rightarrow> 'w \<Rightarrow> 'w option" where
  "add_messages S key [] w = Some w"
| "add_messages S key (m # ms) w =
     (case add_flash S key m w of Some (None, w1) \<Rightarrow> add_messages S key ms w1 | _ \<Rightarrow> None)"

text \<open>The messages that are waiting under a key; \<open>None\<close> where the key holds something else.\<close>

definition waiting :: "'w sess_lib \<Rightarrow> string \<Rightarrow> 'w \<Rightarrow> gval list option" where
  "waiting S key w =
     (case se_get S flash_session_name w of
        Inl e \<Rightarrow> None
      | Inr vals \<Rightarrow> (case map_of vals key of None \<Rightarrow> Some [] | Some (VList vs) \<Rightarrow> Some vs | Some _ \<Rightarrow> None))"

lemma add_flash_waiting:
  assumes "flash_laws S" "waiting S key w = Some vs" "add_flash S key m w = Some (None, w1)"
  shows "waiting S key w1 = Some (vs @ [VStr m])"
proof -
  obtain vals where vals: "se_get S flash_session_name w = Inr vals" using assms(2) by (auto simp: waiting_def split: sum.splits)
  have add: "se_add_flash S (VStr m) key vals = Some (AList.update key (VList (vs @ [VStr m])) vals)"
    using assms(1,2) vals by (auto simp: flash_laws_def waiting_def split: option.splits gval.splits)
  then have "se_save S flash_session_name (AList.update key (VList (vs @ [VStr m])) vals) w = (None, w1)"
    using assms(3) vals by (simp add: add_flash_def)
  then have "se_get S flash_session_name w1 = Inr (AList.update key (VList (vs @ [VStr m])) vals)"
    using assms(1) by (simp add: flash_laws_def)
  then show ?thesis by (simp add: waiting_def update_conv')
qed

lemma add_messages_waiting:
  "flash_laws S \<Longrightarrow> waiting S key w = Some vs \<Longrightarrow> add_messages S key ms w = Some w1 \<Longrightarrow> waiting S key w1 = Some (vs @ map VStr ms)"
proof (induction ms arbitrary: vs w)
  case (Cons m ms)
  then obtain w2 where "add_flash S key m w = Some (None, w2)" "add_messages S key ms w2 = Some w1"
    by (auto split: option.splits prod.splits)
  with Cons(1) [OF Cons(2) add_flash_waiting [OF Cons(2,3)]] show ?case by simp
qed simp

lemma add_flashes_law:
  "flash_laws S \<Longrightarrow> map_of vals key = None \<Longrightarrow> vs \<noteq> [] \<Longrightarrow>
    \<exists>vals'. add_flashes S key vs vals = Some vals' \<and> map_of vals' key = Some (VList vs)"
proof (induction vs rule: rev_induct)
  case (snoc v vs)
  have step: "add_flashes S key (xs @ [v]) u = Option.bind (add_flashes S key xs u) (se_add_flash S v key)" for xs u
    by (induction xs arbitrary: u) (auto split: option.splits)
  show ?case
  proof (cases "vs = []")
    case True
    with snoc(2,3) show ?thesis by (simp add: flash_laws_def update_conv')
  next
    case False
    with snoc obtain vals' where "add_flashes S key vs vals = Some vals'" "map_of vals' key = Some (VList vs)" by blast
    with snoc(2) step show ?thesis by (simp add: flash_laws_def update_conv')
  qed
qed simp

lemma get_flash_waiting:
  assumes "flash_laws S" "waiting S key w = Some (VStr m # vs)" "get_flash S key w = Some ((x, None), w1)"
  shows "x = m \<and> waiting S key w1 = Some vs"
proof -
  obtain vals where vals: "se_get S flash_session_name w = Inr vals" "map_of vals key = Some (VList (VStr m # vs))"
    using assms(2) by (auto simp: waiting_def split: sum.splits option.splits gval.splits)
  then have fl: "se_flashes S key vals = Some (VStr m # vs, AList.delete key vals)" using assms(1) by (simp add: flash_laws_def)
  obtain vals2 where v2: "add_flashes S key vs (AList.delete key vals) = Some vals2"
    "(vs = [] \<longrightarrow> map_of vals2 key = None) \<and> (vs \<noteq> [] \<longrightarrow> map_of vals2 key = Some (VList vs))"
  proof (cases "vs = []")
    case True
    then show ?thesis using that [of "AList.delete key vals"] by (simp add: delete_conv')
  next
    case False
    with add_flashes_law [OF assms(1), of "AList.delete key vals" key vs] that show ?thesis by (auto simp: delete_conv')
  qed
  have "x = m" "se_save S flash_session_name vals2 w = (None, w1)"
    using assms(3) vals fl v2(1)
    by (auto simp: get_flash_def is_flash_value_def save_values_def flash_to_strings_def split: prod.splits option.splits)
  then show ?thesis using assms(1) v2(2) by (cases "vs = []") (auto simp: waiting_def flash_laws_def)
qed

lemma get_flashes_waiting:
  assumes "flash_laws S" "waiting S key w = Some vs" "get_flashes S key w = Some ((xs, None), w1)"
  shows "xs = flash_to_strings (se_sprint S) vs \<and> waiting S key w1 = Some []"
proof -
  obtain vals where vals: "se_get S flash_session_name w = Inr vals"
    "map_of vals key = None \<and> vs = [] \<or> map_of vals key = Some (VList vs)"
    using assms(2) by (auto simp: waiting_def split: sum.splits option.splits gval.splits)
  show ?thesis
  proof (cases "vs = []")
    case True
    with assms vals show ?thesis
      by (auto simp: get_flashes_def is_flash_value_def flash_to_strings_def flash_laws_def waiting_def split: option.splits gval.splits)
  next
    case False
    with vals have m: "map_of vals key = Some (VList vs)" by simp
    then have "se_flashes S key vals = Some (vs, AList.delete key vals)" using assms(1) by (simp add: flash_laws_def)
    with assms(3) vals m False have "xs = flash_to_strings (se_sprint S) vs" "se_save S flash_session_name (AList.delete key vals) w = (None, w1)"
      by (auto simp: get_flashes_def is_flash_value_def save_values_def split: prod.splits option.splits)
    then show ?thesis using assms(1) by (auto simp: waiting_def flash_laws_def delete_conv')
  qed
qed

text \<open>Flash messages are told once and in order: after messages were added to a key without any, \<open>GetFlash\<close> tells the
  first of them, \<open>GetFlashes\<close> then all the others, and after that there is nothing to tell.\<close>

theorem flashes_told_once:
  assumes "flash_laws S" and "waiting S key w = Some []" and "add_messages S key (m # ms) w = Some w1"
    and "get_flash S key w1 = Some ((x, None), w2)" and "get_flashes S key w2 = Some ((xs, None), w3)"
  shows "x = m \<and> xs = ms \<and> waiting S key w3 = Some []"
proof -
  have "waiting S key w1 = Some (VStr m # map VStr ms)" using add_messages_waiting [OF assms(1-3)] by simp
  from get_flash_waiting [OF assms(1) this assms(4)] have x: "x = m" "waiting S key w2 = Some (map VStr ms)" by simp_all
  from get_flashes_waiting [OF assms(1) x(2) assms(5)] x(1) show ?thesis by (simp add: flash_to_strings_def comp_def)
qed


text \<open>Sessions in memory.\<close>

definition demo_session_lib :: "(string \<times> sess_vals) list sess_lib" where
  "demo_session_lib = \<lparr>
     se_get = (\<lambda>n w. Inr (case map_of w n of Some v \<Rightarrow> v | None \<Rightarrow> [])),
     se_save = (\<lambda>n v w. (None, AList.update n v w)),
     se_add_flash = (\<lambda>v key vals. case map_of vals key of
         None \<Rightarrow> Some (AList.update key (VList [v]) vals)
       | Some (VList vs) \<Rightarrow> Some (AList.update key (VList (vs @ [v])) vals)
       | Some _ \<Rightarrow> None),
     se_flashes = (\<lambda>key vals. case map_of vals key of
         None \<Rightarrow> Some ([], vals)
       | Some (VList vs) \<Rightarrow> Some (vs, AList.delete key vals)
       | Some _ \<Rightarrow> None),
     se_sprint = (\<lambda>v. [])\<rparr>"

lemma demo_flash_laws: "flash_laws demo_session_lib"
  by (auto simp: flash_laws_def demo_session_lib_def update_conv')

lemma flashes_told_once_witness:
  "\<exists>w1 w2 w3. add_messages demo_session_lib ''ok'' [''a'', ''b'', ''c''] [] = Some w1
    \<and> get_flash demo_session_lib ''ok'' w1 = Some ((''a'', None), w2)
    \<and> get_flashes demo_session_lib ''ok'' w2 = Some (([''b'', ''c''], None), w3) \<and> waiting demo_session_lib ''ok'' w3 = Some []"
proof -
  let ?w = "\<lambda>vs. [(''session-flash'', [(''ok'', VList vs)])]"
  have a: "add_messages demo_session_lib ''ok'' [''a'', ''b'', ''c''] [] = Some (?w [VStr ''a'', VStr ''b'', VStr ''c''])" by code_simp
  have b: "get_flash demo_session_lib ''ok'' (?w [VStr ''a'', VStr ''b'', VStr ''c'']) = Some ((''a'', None), ?w [VStr ''b'', VStr ''c''])"
    by code_simp
  have c: "get_flashes demo_session_lib ''ok'' (?w [VStr ''b'', VStr ''c'']) = Some (([''b'', ''c''], None), [(''session-flash'', [])])"
    by code_simp
  have "waiting demo_session_lib ''ok'' [] = Some []" by code_simp
  from flashes_told_once [OF demo_flash_laws this a b c] a b c show ?thesis by blast
qed

end
