(* ===== verification/Router.thy ===== *)
theory Router
  imports Go_Base "HOL-Library.AList" "HOL-Library.List_Lexorder" "HOL-Library.Char_ord"
begin

text \<open>
  pkg/router/router.go: named route patterns and reverse URLs. \<open>parse_pattern\<close> reads the chi and
  fiber notations, \<open>parse_printf\<close> the old one; \<open>reverse_url\<close> fills a pattern with named or ordered
  parameters and escapes them. \<open>fmt.Sprint\<close> is a parameter (\<open>sprint\<close>), the registry of templates a
  map that is passed along.
\<close>

section \<open>Templates\<close>

datatype route_error =
    Route_not_found string
  | Invalid_params string
  | Invalid_pattern string

type_synonym templates = "string \<rightharpoonup> string"

definition register_template :: "string \<Rightarrow> string \<Rightarrow> templates \<Rightarrow> templates" where
  "register_template name pattern ts = ts(name \<mapsto> pattern)"

definition unregister_route :: "string \<Rightarrow> templates \<Rightarrow> templates" where
  "unregister_route name ts = ts(name := None)"

definition get_template :: "string \<Rightarrow> templates \<Rightarrow> string option" where
  "get_template name ts = ts name"

section \<open>Patterns\<close>

datatype param_kind = PNamed | POptional | PWildcard | PPrintf

record segment =
  sg_literal :: string
  sg_param :: bool
  sg_name :: string
  sg_kind :: param_kind
  sg_greedy :: bool

definition lit_seg :: "string \<Rightarrow> segment" where
  "lit_seg l = \<lparr>sg_literal = l, sg_param = False, sg_name = [], sg_kind = PNamed, sg_greedy = False\<rparr>"

definition param_seg :: "string \<Rightarrow> param_kind \<Rightarrow> bool \<Rightarrow> segment" where
  "param_seg n k g = \<lparr>sg_literal = [], sg_param = True, sg_name = n, sg_kind = k, sg_greedy = g\<rparr>"

definition seg_required :: "segment \<Rightarrow> bool" where
  "seg_required s \<longleftrightarrow> sg_kind s = PNamed \<or> sg_kind s = PPrintf"

definition is_name_byte :: "char \<Rightarrow> bool" where
  "is_name_byte c \<longleftrightarrow> c = CHR ''_'' \<or> is_letter c \<or> is_digit c"

definition flush_lit :: "string \<Rightarrow> segment list" where
  "flush_lit l = (if l = [] then [] else [lit_seg l])"

text \<open>
  From behind an opening brace: the text up to the first colon at depth one (or to the closing
  brace), and what follows the closing brace. A backslash hides the next character.
\<close>

fun scan_brace :: "nat \<Rightarrow> bool \<Rightarrow> string \<Rightarrow> string \<Rightarrow> (string \<times> string) option" where
  "scan_brace d colon nm [] = None"
| "scan_brace d colon nm (c # s) =
     (let nm' = (if colon then nm else nm @ [c]) in
      if c = CHR 0x5C then (case s of [] \<Rightarrow> None
        | e # s' \<Rightarrow> scan_brace d colon (if colon then nm else nm @ [c, e]) s')
      else if c = CHR ''{'' then scan_brace (Suc d) colon nm' s
      else if c = CHR ''}'' then (if d \<le> 1 then Some (nm, s) else scan_brace (d - 1) colon nm' s)
      else if c = CHR '':'' \<and> d = 1 \<and> \<not> colon then scan_brace d True nm s
      else scan_brace d colon nm' s)"

lemma scan_brace_length: "scan_brace d colon nm s = Some (n, r) \<Longrightarrow> length r < length s"
  by (induction d colon nm s rule: scan_brace.induct)
     (force simp: Let_def split: if_splits list.splits)+

text \<open>The modifier behind a fiber parameter: its kind, whether it is greedy, and the rest.\<close>

definition fiber_mod :: "string \<Rightarrow> param_kind \<times> bool \<times> string" where
  "fiber_mod s = (case s of
       CHR ''?'' # r \<Rightarrow> (POptional, False, r)
     | CHR ''+'' # r \<Rightarrow> (PNamed, True, r)
     | CHR ''*'' # r \<Rightarrow> (PWildcard, True, r)
     | _ \<Rightarrow> (PNamed, False, s))"

lemma fiber_mod_length: "fiber_mod s = (k, g, r) \<Longrightarrow> length r \<le> length s"
  by (auto simp: fiber_mod_def split: list.splits char.splits bool.splits)

lemma fiber_rest_length:
  "fiber_mod (dropWhile is_name_byte s) = (k, g, r) \<Longrightarrow> length r \<le> length s"
  using fiber_mod_length [of "dropWhile is_name_byte s" k g r] length_dropWhile_le [of is_name_byte s] by simp

text \<open>
  \<open>parsePattern\<close>: \<open>prev\<close> is the character before the rest (\<open>None\<close> at the start), \<open>lit\<close> the literal
  text read so far.
\<close>

function parse_from :: "char option \<Rightarrow> string \<Rightarrow> string \<Rightarrow> route_error + segment list" where
  "parse_from prev lit [] = Inr (flush_lit lit)"
| "parse_from prev lit (c # s) =
     (if c = CHR ''{'' then
        (case scan_brace 1 False [] s of
           None \<Rightarrow> Inl (Invalid_pattern ''unclosed'')
         | Some (nm, r) \<Rightarrow>
             if trim_space nm = [] then Inl (Invalid_pattern ''empty name'')
             else res_bind (parse_from (Some (CHR ''}'')) [] r)
                    (\<lambda>segs. Inr (flush_lit lit @ param_seg (trim_space nm) PNamed False # segs)))
      else if c = CHR '':'' \<and> s \<noteq> [] \<and> is_name_byte (hd s)
              \<and> (case prev of None \<Rightarrow> True | Some p \<Rightarrow> p \<in> set ''/-.'') then
        (case fiber_mod (dropWhile is_name_byte s) of
           (k, g, r) \<Rightarrow> res_bind (parse_from (Some (last (take (length s - length r) s))) [] r)
             (\<lambda>segs. Inr (flush_lit lit @ param_seg (takeWhile is_name_byte s) k g # segs)))
      else if (c = CHR ''*'' \<or> c = CHR ''+'') \<and> (prev = None \<or> prev = Some (CHR ''/'')) then
        res_bind (parse_from (Some c) [] s)
          (\<lambda>segs. Inr (flush_lit lit @ param_seg [c] (if c = CHR ''+'' then PNamed else PWildcard) True # segs))
      else parse_from (Some c) (lit @ [c]) s)"
  by pat_completeness auto

termination
  by (relation "measure (\<lambda>(prev, lit, s). length s)")
     (auto dest!: scan_brace_length intro!: le_imp_less_Suc dest: fiber_rest_length [OF sym])

definition parse_pattern :: "string \<Rightarrow> route_error + segment list" where
  "parse_pattern p = parse_from None [] p"

text \<open>\<open>parsePrintf\<close>: the segments and the number of verbs.\<close>

fun printf_from :: "nat \<Rightarrow> string \<Rightarrow> string \<Rightarrow> segment list \<times> nat" where
  "printf_from n lit [] = (flush_lit lit, n)"
| "printf_from n lit [c] = (flush_lit (lit @ [c]), n)"
| "printf_from n lit (c # v # s) =
     (if c = CHR ''%'' \<and> v \<in> set ''sdv'' then
        (let (segs, m) = printf_from (Suc n) [] s in (flush_lit lit @ param_seg (itoa n) PPrintf False # segs, m))
      else if c = CHR ''%'' \<and> v = CHR ''%'' then printf_from n (lit @ ''%'') s
      else printf_from n (lit @ [c]) (v # s))"

definition parse_printf :: "string \<Rightarrow> segment list \<times> nat" where
  "parse_printf p = printf_from 0 [] p"

section \<open>Escaping\<close>

definition upper_hex :: "nat \<Rightarrow> char" where
  "upper_hex n = (if n < 10 then char_of (48 + n) else char_of (55 + n))"

definition percent :: "char \<Rightarrow> string" where
  "percent c = [CHR ''%'', upper_hex (of_char c div 16), upper_hex (of_char c mod 16)]"

definition unreserved :: "char \<Rightarrow> bool" where
  "unreserved c \<longleftrightarrow> is_letter c \<or> is_digit c \<or> c \<in> set ''-_.~''"

text \<open>\<open>url.PathEscape\<close>, \<open>url.QueryEscape\<close>.\<close>

definition path_escape :: "string \<Rightarrow> string" where
  "path_escape s = concat (map (\<lambda>c. if unreserved c \<or> c \<in> set ''$&+:=@'' then [c] else percent c) s)"

definition query_escape :: "string \<Rightarrow> string" where
  "query_escape s = concat (map (\<lambda>c. if unreserved c then [c] else if c = CHR '' '' then ''+'' else percent c) s)"

definition escape_path_keep_slash :: "string \<Rightarrow> string" where
  "escape_path_keep_slash s = join_with ''/'' (map path_escape (split_on (CHR ''/'') s))"

section \<open>Reverse URLs\<close>

datatype rparam = PStrMap "(string \<times> string) list" | PAnyMap "(string \<times> gval) list" | PVal gval

definition is_map :: "rparam list \<Rightarrow> bool" where
  "is_map ps = (case ps of [PStrMap _] \<Rightarrow> True | [PAnyMap _] \<Rightarrow> True | _ \<Rightarrow> False)"

fun is_empty_map :: "rparam \<Rightarrow> bool" where
  "is_empty_map (PStrMap m) = (m = [])"
| "is_empty_map (PAnyMap m) = (m = [])"
| "is_empty_map (PVal v) = False"

fun to_string_map :: "(gval \<Rightarrow> string) \<Rightarrow> rparam \<Rightarrow> (string \<times> string) list" where
  "to_string_map sprint (PStrMap m) = m"
| "to_string_map sprint (PAnyMap m) = map (\<lambda>(k, v). (k, sprint v)) m"
| "to_string_map sprint (PVal v) = []"

text \<open>A map passed among several ordered parameters is printed like any value.\<close>

fun sprint_param :: "(gval \<Rightarrow> string) \<Rightarrow> rparam \<Rightarrow> string" where
  "sprint_param sprint (PStrMap m) = sprint (VMap (map (\<lambda>(k, v). (k, VStr v)) m))"
| "sprint_param sprint (PAnyMap m) = sprint (VMap m)"
| "sprint_param sprint (PVal v) = sprint v"

text \<open>Values by name; the number of parameters of the pattern that the map fills is returned too.\<close>

fun fill_named :: "(string \<times> string) list \<Rightarrow> segment list \<Rightarrow> nat \<Rightarrow> route_error + string option list \<times> nat" where
  "fill_named m [] used = Inr ([], used)"
| "fill_named m (s # segs) used =
     (if \<not> sg_param s then res_bind (fill_named m segs used) (\<lambda>(vs, u). Inr (None # vs, u))
      else case map_of m (sg_name s) of
        Some v \<Rightarrow> res_bind (fill_named m segs (Suc used)) (\<lambda>(vs, u). Inr (Some v # vs, u))
      | None \<Rightarrow>
          if seg_required s then Inl (Invalid_params (sg_name s))
          else res_bind (fill_named m segs used) (\<lambda>(vs, u). Inr (None # vs, u)))"

text \<open>Ordered values: the required parameters, and as many of the others as values are left.\<close>

fun fill_ordered :: "string list \<Rightarrow> nat \<Rightarrow> segment list \<Rightarrow> string option list" where
  "fill_ordered ps spare [] = []"
| "fill_ordered ps spare (s # segs) =
     (if \<not> sg_param s then None # fill_ordered ps spare segs
      else if \<not> seg_required s \<and> spare = 0 then None # fill_ordered ps spare segs
      else Some (hd ps) # fill_ordered (tl ps) (if seg_required s then spare else spare - 1) segs)"

text \<open>The URL: an optional parameter without a value takes the slash before it away.\<close>

fun build_url :: "string \<Rightarrow> (segment \<times> string option) list \<Rightarrow> route_error + string" where
  "build_url out [] = Inr out"
| "build_url out ((s, v) # rest) =
     (if \<not> sg_param s then build_url (out @ sg_literal s) rest
      else if v = None \<or> sg_kind s = POptional \<and> v = Some [] then
        build_url (if sg_kind s = POptional \<and> has_suffix ''/'' out
                     \<and> (case rest of [] \<Rightarrow> True | (t, _) # _ \<Rightarrow> has_prefix ''/'' (sg_literal t))
                   then butlast out else out) rest
      else if sg_kind s = PNamed \<and> v = Some [] then Inl (Invalid_params (sg_name s))
      else build_url (out @ (if sg_greedy s then escape_path_keep_slash (the v) else path_escape (the v))) rest)"

definition fill_values :: "(gval \<Rightarrow> string) \<Rightarrow> string \<Rightarrow> segment list \<Rightarrow> nat \<Rightarrow> rparam list \<Rightarrow> route_error + string option list" where
  "fill_values sprint name segs n ps =
     (if is_map ps then
        (let m = to_string_map sprint (hd ps) in
         res_bind (fill_named m segs 0) (\<lambda>(vs, used).
           if used \<noteq> length m then Inl (Invalid_params name) else Inr vs))
      else
        (let required = length (filter (\<lambda>s. sg_param s \<and> seg_required s) segs) in
         if length ps < required \<or> n < length ps then Inl (Invalid_params name)
         else Inr (fill_ordered (map (sprint_param sprint) ps) (length ps - required) segs)))"

definition reverse_url :: "(gval \<Rightarrow> string) \<Rightarrow> templates \<Rightarrow> string \<Rightarrow> rparam list \<Rightarrow> route_error + string" where
  "reverse_url sprint ts name ps = (case get_template name ts of
       None \<Rightarrow> Inl (Route_not_found name)
     | Some pattern \<Rightarrow> res_bind (parse_pattern pattern) (\<lambda>segs0.
         let n0 = length (filter sg_param segs0);
             printf = parse_printf pattern;
             (segs, n) = (if n0 = 0 \<and> ps \<noteq> [] \<and> \<not> is_map ps \<and> 0 < snd printf then printf else (segs0, n0))
         in if n = 0 then
              (if ps \<noteq> [] \<and> \<not> (length ps = 1 \<and> is_empty_map (hd ps)) then Inl (Invalid_params name) else Inr pattern)
            else res_bind (fill_values sprint name segs n ps) (\<lambda>vs.
              res_bind (build_url [] (zip segs vs)) (\<lambda>out. Inr (if out = [] then ''/'' else out)))))"

text \<open>\<open>ReverseURLMust\<close>: \<open>None\<close> is the panic.\<close>

definition reverse_url_must :: "(gval \<Rightarrow> string) \<Rightarrow> templates \<Rightarrow> string \<Rightarrow> rparam list \<Rightarrow> string option" where
  "reverse_url_must sprint ts name ps = (case reverse_url sprint ts name ps of Inl _ \<Rightarrow> None | Inr u \<Rightarrow> Some u)"

text \<open>
  The query: nil values are left out, slices give several values (\<open>[]string\<close> and \<open>[]any\<close>; a slice of
  another type is \<open>VOther\<close> here and printed), keys are sorted by \<open>Encode\<close>.
\<close>

fun query_values :: "(gval \<Rightarrow> string) \<Rightarrow> gval \<Rightarrow> string list" where
  "query_values sprint VNil = []"
| "query_values sprint (VList vs) = map sprint vs"
| "query_values sprint v = [sprint v]"

definition encode_query :: "(gval \<Rightarrow> string) \<Rightarrow> (string \<times> gval) list \<Rightarrow> string" where
  "encode_query sprint q = join_with ''&'' (concat (map (\<lambda>k.
     map (\<lambda>v. query_escape k @ ''='' @ query_escape v) (query_values sprint (the (map_of q k))))
     (sort (map fst q))))"

definition reverse_url_with_query :: "(gval \<Rightarrow> string) \<Rightarrow> templates \<Rightarrow> string \<Rightarrow> rparam list \<Rightarrow> (string \<times> gval) list
    \<Rightarrow> route_error + string" where
  "reverse_url_with_query sprint ts name ps q = res_bind (reverse_url sprint ts name ps) (\<lambda>base.
     let enc = encode_query sprint q in
     if q = [] \<or> enc = [] then Inr base
     else Inr (base @ (if CHR ''?'' \<in> set base then ''&'' else ''?'') @ enc))"

section \<open>Escaped values\<close>

text \<open>Reading an escaped text back: the specification of \<open>path_escape\<close>.\<close>

definition hex_val :: "char \<Rightarrow> nat" where
  "hex_val c = (let n = of_char c in if n < 58 then n - 48 else n - 55)"

fun percent_decode :: "string \<Rightarrow> string" where
  "percent_decode [] = []"
| "percent_decode (c # s) =
     (if c = CHR ''%'' then (case s of a # b # r \<Rightarrow> char_of (16 * hex_val a + hex_val b) # percent_decode r | _ \<Rightarrow> [c])
      else c # percent_decode s)"

lemma hex_val_upper_hex [simp]: "n < 16 \<Longrightarrow> hex_val (upper_hex n) = n"
  by (simp add: hex_val_def upper_hex_def Let_def)

lemma of_char_256: "(of_char c :: nat) < 256"
  by (metis mod_less_divisor of_char_mod_256 zero_less_numeral)

lemma decode_percent [simp]: "percent_decode (percent c @ r) = c # percent_decode r"
proof -
  have "(of_char c :: nat) div 16 < 16" using of_char_256 [of c] by linarith
  moreover have "16 * ((of_char c :: nat) div 16) + of_char c mod 16 = of_char c" by simp
  ultimately show ?thesis by (simp add: percent_def)
qed

lemma upper_hex_unreserved: "n < 16 \<Longrightarrow> is_letter (upper_hex n) \<or> is_digit (upper_hex n)"
  by (auto simp: upper_hex_def is_letter_def is_digit_def)

lemma percent_chars: "x \<in> set (percent c) \<Longrightarrow> x = CHR ''%'' \<or> is_letter x \<or> is_digit x"
proof -
  have "(of_char c :: nat) div 16 < 16" "(of_char c :: nat) mod 16 < 16" using of_char_256 [of c] by linarith+
  note upper_hex_unreserved [OF this(1)] upper_hex_unreserved [OF this(2)]
  then show "x \<in> set (percent c) \<Longrightarrow> ?thesis" by (auto simp: percent_def)
qed

lemma percent_not_safe: "unreserved (CHR ''%'') = False" "unreserved (CHR ''/'') = False" "unreserved (CHR ''?'') = False"
    "unreserved (CHR ''#'') = False" "unreserved (CHR '' '') = False"
  by (simp_all add: unreserved_def is_letter_def is_digit_def)

lemma path_escape_simps [simp]:
  "path_escape [] = []"
  "path_escape (c # s) = (if unreserved c \<or> c \<in> set ''$&+:=@'' then [c] else percent c) @ path_escape s"
  by (simp_all add: path_escape_def)

lemma decode_path_escape: "percent_decode (path_escape s) = s"
proof (induction s)
  case Nil
  then show ?case by simp
next
  case (Cons c s)
  show ?case
  proof (cases "unreserved c \<or> c \<in> set ''$&+:=@''")
    case True
    then have "c \<noteq> CHR ''%''" using percent_not_safe(1) by auto
    with True Cons show ?thesis by simp
  next
    case False
    then have "path_escape (c # s) = percent c @ path_escape s" by (simp only: path_escape_simps if_False)
    then show ?thesis using Cons by (simp only: decode_percent)
  qed
qed

definition url_char :: "char \<Rightarrow> bool" where
  "url_char c \<longleftrightarrow> unreserved c \<or> c \<in> set ''$&+:=@%''"

lemma path_escape_chars: "x \<in> set (path_escape s) \<Longrightarrow> url_char x"
proof (induction s)
  case (Cons c s)
  then consider "x \<in> set (path_escape s)" | "x = c" "unreserved c \<or> c \<in> set ''$&+:=@''" | "x \<in> set (percent c)"
    by (auto split: if_splits)
  then show ?case
  proof cases
    case 3
    then show ?thesis using percent_chars [of x c] by (auto simp: url_char_def unreserved_def)
  qed (use Cons.IH in \<open>auto simp: url_char_def\<close>)
qed simp

lemma url_char_no_delim: "\<not> url_char (CHR ''/'')" "\<not> url_char (CHR ''?'')" "\<not> url_char (CHR ''#'')" "\<not> url_char (CHR '' '')"
  using percent_not_safe by (auto simp: url_char_def)

lemma no_slash_in_escape: "CHR ''/'' \<notin> set (path_escape s)"
  using path_escape_chars url_char_no_delim(1) by blast

text \<open>Greedy values keep their slashes, and only these.\<close>

lemma split_keep_slash: "split_on (CHR ''/'') (escape_path_keep_slash s) = map path_escape (split_on (CHR ''/'') s)"
  unfolding escape_path_keep_slash_def
  by (rule split_join) (use no_slash_in_escape split_on_not_Nil in auto)

text \<open>
  Escaped values are safe and faithful: a value put into a URL can neither end its path segment
  nor start a query or fragment, whatever it contains, and decoding it gives the value back; a
  greedy value has exactly the slashes of the value, and its segments decode to the value's.
\<close>

theorem path_escape_roundtrip:
  "percent_decode (path_escape s) = s
   \<and> set (path_escape s) \<inter> set ''/?# '' = {}
   \<and> map percent_decode (split_on (CHR ''/'') (escape_path_keep_slash s)) = split_on (CHR ''/'') s"
proof (intro conjI)
  show "percent_decode (path_escape s) = s" by (rule decode_path_escape)
  show "set (path_escape s) \<inter> set ''/?# '' = {}"
    using path_escape_chars [of _ s] url_char_no_delim by auto
  show "map percent_decode (split_on (CHR ''/'') (escape_path_keep_slash s)) = split_on (CHR ''/'') s"
    by (simp add: split_keep_slash decode_path_escape map_idI)
qed

section \<open>Reverse URLs of written patterns\<close>

text \<open>
  A pattern as it is written: literal text, \<open>{name}\<close> or \<open>{name:regex}\<close>, and \<open>:name\<close>. Literal text
  has no character that starts a parameter, a regular expression no brace or backslash, and
  \<open>:name\<close> stands at the start or behind a slash, dash or dot and before what cannot belong to it.
\<close>

datatype route_piece = RLit string | RBrace string string | RColon string

fun piece_text :: "route_piece \<Rightarrow> string" where
  "piece_text (RLit l) = l"
| "piece_text (RBrace n re) = ''{'' @ n @ (if re = [] then [] else '':'' @ re) @ ''}''"
| "piece_text (RColon n) = '':'' @ n"

definition pattern_text :: "route_piece list \<Rightarrow> string" where
  "pattern_text ps = concat (map piece_text ps)"

fun piece_name :: "route_piece \<Rightarrow> string option" where
  "piece_name (RLit l) = None"
| "piece_name (RBrace n re) = Some n"
| "piece_name (RColon n) = Some n"

definition piece_names :: "route_piece list \<Rightarrow> string list" where
  "piece_names ps = List.map_filter piece_name ps"

definition name_ok :: "string \<Rightarrow> bool" where
  "name_ok n \<longleftrightarrow> n \<noteq> [] \<and> (\<forall>c\<in>set n. is_name_byte c)"

fun written :: "char option \<Rightarrow> route_piece list \<Rightarrow> bool" where
  "written prev [] = True"
| "written prev (RLit l # ps) \<longleftrightarrow> l \<noteq> [] \<and> set l \<inter> set ''{:*+'' = {} \<and>
     (case ps of RLit _ # _ \<Rightarrow> False | _ \<Rightarrow> True) \<and> written (Some (last l)) ps"
| "written prev (RBrace n re # ps) \<longleftrightarrow> name_ok n \<and> set re \<inter> {CHR ''{'', CHR ''}'', CHR 0x5C} = {} \<and>
     written (Some (CHR ''}'')) ps"
| "written prev (RColon n # ps) \<longleftrightarrow> name_ok n \<and> (case prev of None \<Rightarrow> True | Some p \<Rightarrow> p \<in> set ''/-.'') \<and>
     (case ps of RLit l # _ \<Rightarrow> \<not> is_name_byte (hd l) \<and> hd l \<noteq> CHR ''?'' | RColon _ # _ \<Rightarrow> False | _ \<Rightarrow> True) \<and>
     written (Some (last n)) ps"

fun piece_seg :: "route_piece \<Rightarrow> segment" where
  "piece_seg (RLit l) = lit_seg l"
| "piece_seg (RBrace n re) = param_seg n PNamed False"
| "piece_seg (RColon n) = param_seg n PNamed False"

lemma name_byte_plain: "is_name_byte c \<Longrightarrow> c \<notin> {CHR 0x5C, CHR ''{'', CHR ''}'', CHR '':''}"
  by (auto simp: is_name_byte_def is_letter_def is_digit_def)

lemma name_byte_no_space: "is_name_byte c \<Longrightarrow> c \<notin> hd ` set space_runes \<and> c \<notin> last ` set space_runes"
  by (auto simp: is_name_byte_def is_letter_def is_digit_def space_runes_def)

lemma trim_name: "name_ok n \<Longrightarrow> trim_space n = n"
  using name_byte_no_space by (intro trim_space_id) (auto simp: name_ok_def)

lemma scan_name:
  "\<forall>c\<in>set n. is_name_byte c \<Longrightarrow> scan_brace 1 False acc (n @ t) = scan_brace 1 False (acc @ n) t"
proof (induction n arbitrary: acc)
  case (Cons c n)
  have "c \<notin> {CHR 0x5C, CHR ''{'', CHR ''}'', CHR '':''}" using Cons.prems name_byte_plain by simp
  with Cons show ?case by (simp add: Let_def)
qed simp

lemma scan_regex:
  "set re \<inter> {CHR ''{'', CHR ''}'', CHR 0x5C} = {} \<Longrightarrow> scan_brace 1 True nm (re @ CHR ''}'' # t) = Some (nm, t)"
  by (induction re) (auto simp: Let_def)

lemma scan_written:
  assumes "name_ok n" and "set re \<inter> {CHR ''{'', CHR ''}'', CHR 0x5C} = {}"
  shows "scan_brace 1 False [] (n @ (if re = [] then [] else '':'' @ re) @ CHR ''}'' # t) = Some (n, t)"
proof -
  have "\<forall>c\<in>set n. is_name_byte c" using assms(1) by (simp add: name_ok_def)
  from scan_name [OF this, of "[]"] scan_regex [OF assms(2), of n t] show ?thesis by (simp add: Let_def)
qed

lemma parse_literal:
  "set l \<inter> set ''{:*+'' = {} \<Longrightarrow> parse_from prev lit (l @ r)
    = parse_from (if l = [] then prev else Some (last l)) (lit @ l) r"
proof (induction l arbitrary: prev lit)
  case (Cons c l)
  then have c: "c \<notin> set ''{:*+''" by auto
  have "parse_from prev lit (c # (l @ r)) = parse_from (Some c) (lit @ [c]) (l @ r)"
    using c by (subst parse_from.simps) simp
  also have "\<dots> = parse_from (if l = [] then Some c else Some (last l)) ((lit @ [c]) @ l) r"
    using Cons by (intro Cons.IH) auto
  finally show ?case by simp
qed simp

lemma fiber_mod_plain: "r = [] \<or> hd r \<notin> set ''?+*'' \<Longrightarrow> fiber_mod r = (PNamed, False, r)"
  by (cases r) (auto simp: fiber_mod_def split: char.splits bool.splits)

text \<open>Reading a written pattern gives its pieces.\<close>

lemma parse_written_from:
  "written prev ps \<Longrightarrow> (lit = [] \<or> (case ps of RLit _ # _ \<Rightarrow> False | _ \<Rightarrow> True)) \<Longrightarrow>
    parse_from prev lit (pattern_text ps) = Inr (flush_lit lit @ map piece_seg ps)"
proof (induction prev ps arbitrary: lit rule: written.induct)
  case (1 prev)
  then show ?case by (simp add: pattern_text_def)
next
  case (2 prev l ps)
  have "parse_from prev lit (l @ pattern_text ps) = parse_from (Some (last l)) (lit @ l) (pattern_text ps)"
    using 2 by (simp add: parse_literal)
  also have "\<dots> = Inr (flush_lit (lit @ l) @ map piece_seg ps)" using 2 by (intro "2.IH") simp_all
  finally show ?case using 2 by (simp add: pattern_text_def flush_lit_def)
next
  case (3 prev n re ps)
  have IH: "parse_from (Some (CHR ''}'')) [] (pattern_text ps) = Inr (map piece_seg ps)"
    using "3.IH" [of "[]"] 3 by (simp add: flush_lit_def)
  have n: "name_ok n" "set re \<inter> {CHR ''{'', CHR ''}'', CHR 0x5C} = {}" using 3 by simp_all
  have ptext: "pattern_text (RBrace n re # ps) =
      CHR ''{'' # n @ (if re = [] then [] else '':'' @ re) @ CHR ''}'' # pattern_text ps"
    by (simp add: pattern_text_def)
  have "trim_space n \<noteq> []" using n by (simp add: trim_name name_ok_def)
  then show ?case
    unfolding ptext by (subst parse_from.simps) (simp only: scan_written [OF n] if_True refl option.case prod.case
      if_False IH res_bind_simps trim_name [OF n(1)] list.map piece_seg.simps)
next
  case (4 prev n ps)
  have IH: "parse_from (Some (last n)) [] (pattern_text ps) = Inr (map piece_seg ps)"
    using "4.IH" [of "[]"] 4 by (simp add: flush_lit_def)
  have n: "n \<noteq> []" "\<forall>c\<in>set n. is_name_byte c" using 4 by (simp_all add: name_ok_def)
  have r: "pattern_text ps = [] \<or> \<not> is_name_byte (hd (pattern_text ps)) \<and> hd (pattern_text ps) \<notin> set ''?+*''"
  proof (cases ps)
    case (Cons q qs)
    show ?thesis
    proof (cases q)
      case (RLit l)
      with "4.prems"(1) Cons have l: "\<not> is_name_byte (hd l)" "hd l \<noteq> CHR ''?''" "l \<noteq> []"
        "set l \<inter> set ''{:*+'' = {}" by simp_all
      have "hd l \<in> set l" using l(3) by simp
      with l(4) have "hd l \<noteq> CHR ''*'' \<and> hd l \<noteq> CHR ''+''" by auto
      moreover have "hd (pattern_text ps) = hd l" using Cons RLit l(3) by (simp add: pattern_text_def)
      ultimately show ?thesis using l(1,2) by simp
    next
      case (RBrace m re)
      then have "hd (pattern_text ps) = CHR ''{''" using Cons by (simp add: pattern_text_def)
      then show ?thesis by (simp add: is_name_byte_def is_letter_def is_digit_def)
    next
      case (RColon m)
      with "4.prems"(1) Cons show ?thesis by simp
    qed
  qed (simp add: pattern_text_def)
  let ?s = "n @ pattern_text ps"
  have tw: "takeWhile is_name_byte ?s = n" "dropWhile is_name_byte ?s = pattern_text ps"
    using n(2) r by (cases "pattern_text ps"; simp add: takeWhile_append2 dropWhile_append2)+
  have m: "fiber_mod (pattern_text ps) = (PNamed, False, pattern_text ps)" using r by (intro fiber_mod_plain) auto
  have s: "is_name_byte (hd ?s)" "?s \<noteq> []" using n by simp_all
  have ptext: "pattern_text (RColon n # ps) = CHR '':'' # ?s" by (simp add: pattern_text_def)
  have prev: "case prev of None \<Rightarrow> True | Some p \<Rightarrow> p \<in> set ''/-.''" using "4.prems"(1) by simp
  show ?case
    unfolding ptext by (subst parse_from.simps)
      (simp only: tw m IH s prev prod.case res_bind_simps piece_seg.simps list.map
        simp_thms if_True char.inject refl append_Nil2 length_append add_diff_cancel_right' take_append diff_self_eq_0
        take_0 take_all_iff order_refl not_False_eq_True, simp add: IH)
qed

lemma parse_written: "written None ps \<Longrightarrow> parse_pattern (pattern_text ps) = Inr (map piece_seg ps)"
  using parse_written_from [of None ps "[]"] by (simp add: parse_pattern_def flush_lit_def)

text \<open>Filling a written pattern with named values.\<close>

definition value_of :: "(string \<times> string) list \<Rightarrow> route_piece \<Rightarrow> string option" where
  "value_of m p = Option.bind (piece_name p) (map_of m)"

fun piece_url :: "(string \<times> string) list \<Rightarrow> route_piece \<Rightarrow> string" where
  "piece_url m (RLit l) = l"
| "piece_url m p = path_escape (the (value_of m p))"

lemma piece_names_simps [simp]:
  "piece_names [] = []" "piece_names (RLit l # ps) = piece_names ps"
  "piece_names (RBrace n re # ps) = n # piece_names ps" "piece_names (RColon n # ps) = n # piece_names ps"
  by (simp_all add: piece_names_def map_filter_simps)

lemma piece_seg_facts [simp]:
  "sg_param (piece_seg p) \<longleftrightarrow> piece_name p \<noteq> None" "sg_kind (piece_seg p) = PNamed"
  "\<not> sg_greedy (piece_seg p)" "piece_name p = Some n \<Longrightarrow> sg_name (piece_seg p) = n"
  "sg_literal (piece_seg (RLit l)) = l"
  by (cases p; simp add: lit_seg_def param_seg_def)+

lemma fill_pieces:
  "fill_named m (map piece_seg ps) used =
    (case List.find (\<lambda>n. map_of m n = None) (piece_names ps) of
       Some n \<Rightarrow> Inl (Invalid_params n)
     | None \<Rightarrow> Inr (map (value_of m) ps, used + length (piece_names ps)))"
proof (induction ps arbitrary: used)
  case (Cons p ps)
  then show ?case
    by (cases p) (auto simp: lit_seg_def param_seg_def seg_required_def value_of_def split: option.splits)
qed simp

lemma build_pieces:
  "(\<And>n. n \<in> set (piece_names ps) \<Longrightarrow> map_of m n \<noteq> None) \<Longrightarrow>
    build_url out (zip (map piece_seg ps) (map (value_of m) ps)) =
    (case List.find (\<lambda>n. map_of m n = Some []) (piece_names ps) of
       Some n \<Rightarrow> Inl (Invalid_params n) | None \<Rightarrow> Inr (out @ concat (map (piece_url m) ps)))"
proof (induction ps arbitrary: out)
  case (Cons p ps)
  show ?case
  proof (cases p)
    case (RLit l)
    with Cons show ?thesis by (auto simp: lit_seg_def split: option.split)
  next
    case (RBrace n re)
    with Cons.prems obtain v where "map_of m n = Some v" by fastforce
    with RBrace Cons show ?thesis by (auto simp: param_seg_def value_of_def split: option.split)
  next
    case (RColon n)
    with Cons.prems obtain v where "map_of m n = Some v" by fastforce
    with RColon Cons show ?thesis by (auto simp: param_seg_def value_of_def split: option.split)
  qed
qed simp

lemma piece_url_nonempty:
  assumes "n \<in> set (piece_names ps)" and "map_of m n = Some v" "v \<noteq> []"
  shows "concat (map (piece_url m) ps) \<noteq> []"
proof -
  from assms(1) obtain p where p: "p \<in> set ps" "piece_name p = Some n"
    by (auto simp: piece_names_def List.map_filter_def)
  have "path_escape v \<noteq> []" using assms(3) decode_path_escape [of v] by auto
  then have "piece_url m p \<noteq> []" using p(2) assms(2) by (cases p) (simp_all add: value_of_def)
  with p(1) show ?thesis by auto
qed

lemma params_of_pieces: "length (filter sg_param (map piece_seg ps)) = length (piece_names ps)"
  by (induction ps) (auto simp: piece_names_def map_filter_simps split: option.split)

lemma reverse_url_pieces:
  assumes ps: "written None ps" and names: "piece_names ps \<noteq> []"
    and ts: "get_template name ts = Some (pattern_text ps)"
  shows "reverse_url sprint ts name [PStrMap m] =
    (case List.find (\<lambda>n. map_of m n = None) (piece_names ps) of
       Some n \<Rightarrow> Inl (Invalid_params n)
     | None \<Rightarrow> if length (piece_names ps) \<noteq> length m then Inl (Invalid_params name)
         else case List.find (\<lambda>n. map_of m n = Some []) (piece_names ps) of
             Some n \<Rightarrow> Inl (Invalid_params n) | None \<Rightarrow> Inr (concat (map (piece_url m) ps)))"
proof -
  have n: "length (filter sg_param (map piece_seg ps)) = length (piece_names ps)" by (rule params_of_pieces)
  have ne: "filter sg_param (map piece_seg ps) \<noteq> []" using n names by (metis length_0_conv)
  have rev: "reverse_url sprint ts name [PStrMap m] =
      res_bind (res_bind (fill_named m (map piece_seg ps) 0) (\<lambda>(vs, used).
        if used \<noteq> length m then Inl (Invalid_params name) else Inr vs)) (\<lambda>vs.
      res_bind (build_url [] (zip (map piece_seg ps) vs)) (\<lambda>out. Inr (if out = [] then ''/'' else out)))"
    using ne by (simp add: reverse_url_def ts parse_written [OF ps] Let_def is_map_def fill_values_def)
  show ?thesis
  proof (cases "List.find (\<lambda>n. map_of m n = None) (piece_names ps)")
    case (Some x)
    then show ?thesis by (simp add: rev fill_pieces)
  next
    case None
    then have some: "map_of m x \<noteq> None" if "x \<in> set (piece_names ps)" for x
      using that by (auto simp: find_None_iff)
    note build = build_pieces [of ps m "[]", OF some]
    show ?thesis
    proof (cases "List.find (\<lambda>n. map_of m n = Some []) (piece_names ps)")
      case (Some x)
      then show ?thesis by (simp add: rev fill_pieces None build)
    next
      case None': None
      from names obtain x where x: "x \<in> set (piece_names ps)" by (cases "piece_names ps") auto
      with some None' obtain v where "map_of m x = Some v" "v \<noteq> []" by (auto simp: find_None_iff)
      from piece_url_nonempty [OF x this] have "(concat (map (piece_url m) ps) = []) = False" by (simp only: simp_thms)
      with None' show ?thesis by (simp add: rev fill_pieces None build del: concat_eq_Nil_conv)
    qed
  qed
qed

text \<open>
  What stands in a URL for a piece: literal text as it is; for a value, text that cannot end its
  path segment nor start a query or fragment and that decodes to the value.
\<close>

fun shows_piece :: "(string \<times> string) list \<Rightarrow> route_piece \<Rightarrow> string \<Rightarrow> bool" where
  "shows_piece m (RLit l) u \<longleftrightarrow> u = l"
| "shows_piece m (RBrace n re) u \<longleftrightarrow> set u \<inter> set ''/?# '' = {} \<and> map_of m n = Some (percent_decode u) \<and> u \<noteq> []"
| "shows_piece m (RColon n) u \<longleftrightarrow> set u \<inter> set ''/?# '' = {} \<and> map_of m n = Some (percent_decode u) \<and> u \<noteq> []"

text \<open>The values a pattern takes: one that is not empty for each of its parameters, and no other.\<close>

definition right_values :: "(string \<times> string) list \<Rightarrow> route_piece list \<Rightarrow> bool" where
  "right_values m ps \<longleftrightarrow> fst ` set m = set (piece_names ps) \<and> [] \<notin> snd ` set m"

lemma shows_piece_url:
  assumes "piece_name p = None \<or> (\<exists>v. value_of m p = Some v \<and> v \<noteq> [])"
  shows "shows_piece m p (piece_url m p)"
proof -
  have "set (path_escape v) \<inter> set ''/?# '' = {}" for v
    using path_escape_chars [of _ v] url_char_no_delim by auto
  moreover have "path_escape v \<noteq> []" if "v \<noteq> []" for v
    using that decode_path_escape [of v] by auto
  ultimately show ?thesis using assms by (cases p) (auto simp: value_of_def decode_path_escape)
qed

lemma find_mem: "List.find P xs = Some x \<Longrightarrow> x \<in> set xs \<and> P x"
  by (auto simp: find_Some_iff)

lemma right_values_iff:
  assumes m: "distinct (map fst m)" and ps: "distinct (piece_names ps)"
  shows "right_values m ps \<longleftrightarrow> length (piece_names ps) = length m \<and>
    (\<forall>n\<in>set (piece_names ps). \<exists>v. map_of m n = Some v \<and> v \<noteq> [])" (is "_ \<longleftrightarrow> ?len \<and> ?all")
proof -
  have len: "card (fst ` set m) = length m" "card (set (piece_names ps)) = length (piece_names ps)"
    using distinct_card [OF m] distinct_card [OF ps] by simp_all
  have entry: "map_of m k = Some v \<longleftrightarrow> (k, v) \<in> set m" for k v using m by (simp add: map_of_eq_Some_iff)
  show ?thesis
  proof
    assume r: "right_values m ps"
    then have "fst ` set m = set (piece_names ps)" "[] \<notin> snd ` set m" by (simp_all add: right_values_def)
    then have "\<exists>v. map_of m n = Some v \<and> v \<noteq> []" if "n \<in> set (piece_names ps)" for n
      using that unfolding entry by force
    with len \<open>fst ` set m = set (piece_names ps)\<close> show "?len \<and> ?all" by simp
  next
    assume a: "?len \<and> ?all"
    then have "set (piece_names ps) \<subseteq> fst ` set m" unfolding entry by force
    then have keys: "set (piece_names ps) = fst ` set m" using a len by (intro card_subset_eq) simp_all
    have "v \<noteq> []" if "(k, v) \<in> set m" for k v
    proof -
      have "k \<in> set (piece_names ps)" using that unfolding keys by force
      with a obtain u where "map_of m k = Some u" "u \<noteq> []" by blast
      with that show ?thesis by (simp add: entry [symmetric])
    qed
    then show "right_values m ps" using keys by (force simp: right_values_def)
  qed
qed



end
