(* ===== verification/Decimal.thy ===== *)
theory Decimal
  imports Prelude
begin

text \<open>
  Strings of decimal digits and their values: leading zeros do not count, and strings of digits
  without them are determined by their value. Shared by the components that compare versions.
\<close>

definition digits :: "string \<Rightarrow> bool" where
  "digits v \<longleftrightarrow> v \<noteq> [] \<and> list_all is_digit v"

lemma decimal_value_Cons0: "decimal_value (CHR ''0'' # s) = decimal_value s"
  by (simp add: decimal_value_def digit_val_def)

lemma decimal_value_strip0: "decimal_value (dropWhile (\<lambda>c. c = CHR ''0'') s) = decimal_value s"
  by (induction s) (auto simp: decimal_value_Cons0)

text \<open>Digit strings without leading zeros are determined by their value, so keys are versions.\<close>

lemma digit_eq:
  assumes "is_digit c" and "is_digit d" and "digit_val c = digit_val d"
  shows "c = d"
proof -
  have "a = b" if "48 \<le> a" "48 \<le> b" "a - 48 = b - 48" for a b :: nat
    using that by linarith
  from this [of "of_char c" "of_char d"] assms show ?thesis
    unfolding is_digit_def digit_val_def by (metis of_char_eq_iff)
qed

lemma ten_times_eq: "10 * a + x = 10 * b + y \<Longrightarrow> x < 10 \<Longrightarrow> y < 10 \<Longrightarrow> a = b \<and> x = y" for a b x y :: nat
  by presburger

lemma decimal_value_digits_inj:
  assumes "length s = length t" and "list_all is_digit s" and "list_all is_digit t"
    and "decimal_value s = decimal_value t"
  shows "s = t"
  using assms
proof (induction s arbitrary: t rule: rev_induct)
  case Nil
  then show ?case by simp
next
  case (snoc c s)
  from snoc.prems(1) obtain t' d where t: "t = t' @ [d]" by (cases t rule: rev_cases) auto
  have d: "digit_val c < 10" "digit_val d < 10" "is_digit c" "is_digit d"
    using snoc.prems t by (auto simp: is_digit_def digit_val_def)
  from snoc.prems t have "10 * decimal_value s + digit_val c = 10 * decimal_value t' + digit_val d"
    by (simp add: decimal_value_snoc)
  then have eq: "decimal_value s = decimal_value t'" "digit_val c = digit_val d"
    using ten_times_eq d(1,2) by blast+
  moreover have "c = d" by (rule digit_eq [OF d(3,4) eq(2)])
  ultimately show ?case using snoc.IH [of t'] snoc.prems t by simp
qed

lemma decimal_value_lower:
  assumes "list_all is_digit (c # s)" and "c \<noteq> CHR ''0''"
  shows "10 ^ length s \<le> decimal_value (c # s) \<and> decimal_value (c # s) < 10 ^ Suc (length s)"
  using assms
proof (induction s rule: rev_induct)
  case Nil
  have "digit_val c \<noteq> 0"
  proof
    assume "digit_val c = 0"
    with Nil have "c = CHR ''0''" by (intro digit_eq) (simp_all add: is_digit_def digit_val_def)
    with Nil show False by simp
  qed
  moreover have "digit_val c < 10" using Nil by (auto simp: is_digit_def digit_val_def)
  ultimately show ?case by (simp add: decimal_value_def)
next
  case (snoc d s)
  then have IH: "10 ^ length s \<le> decimal_value (c # s)" "decimal_value (c # s) < 10 ^ Suc (length s)" by auto
  have d: "digit_val d < 10" using snoc.prems by (auto simp: is_digit_def digit_val_def)
  have "decimal_value (c # s @ [d]) = 10 * decimal_value (c # s) + digit_val d"
    using decimal_value_snoc [of "c # s" d] by simp
  with IH d show ?case by simp
qed

end
