(* ===== verification/Validate.thy ===== *)
theory Validate
  imports Prelude Decimal
begin

text \<open>
  \<open>pkg/validate\<close>: the predicates the rule engine and the forms share.

  Runes are decoded from the bytes of a string as \<open>unicode/utf8\<close> does (\<open>decode_rune\<close>).
  \<open>valid_lib\<close> holds the library functions the predicates call and the model does not
  define: the float64 operations (over an abstract type \<open>'f\<close>), the Unicode tables, and the
  parsers of addresses, URLs, dates and regular expressions.
\<close>

section \<open>Runes\<close>

text \<open>
  \<open>utf8.DecodeRune\<close>: the rune a string starts with and its length in bytes, \<open>None\<close> where the
  bytes are not the (shortest) encoding of a rune. The lead byte gives the length and the
  range of the second byte.
\<close>

definition rune_width :: "nat \<Rightarrow> nat" where
  "rune_width b =
     (if b < 128 then 1
      else if 0xC2 \<le> b \<and> b \<le> 0xDF then 2
      else if 0xE0 \<le> b \<and> b \<le> 0xEF then 3
      else if 0xF0 \<le> b \<and> b \<le> 0xF4 then 4
      else 0)"

definition second_ok :: "nat \<Rightarrow> nat \<Rightarrow> bool" where
  "second_ok b c \<longleftrightarrow>
     (if b = 0xE0 then 0xA0 else if b = 0xF0 then 0x90 else 0x80) \<le> c \<and>
     c \<le> (if b = 0xED then 0x9F else if b = 0xF4 then 0x8F else 0xBF)"

definition cont_byte :: "nat \<Rightarrow> bool" where
  "cont_byte c \<longleftrightarrow> 0x80 \<le> c \<and> c \<le> 0xBF"

fun decode_rune :: "nat list \<Rightarrow> (nat \<times> nat) option" where
  "decode_rune [] = None"
| "decode_rune (b # s) =
     (case rune_width b of
        Suc 0 \<Rightarrow> Some (b, 1)
      | Suc (Suc 0) \<Rightarrow>
          (case s of c # _ \<Rightarrow> if second_ok b c then Some (b mod 32 * 64 + c mod 64, 2) else None | _ \<Rightarrow> None)
      | Suc (Suc (Suc 0)) \<Rightarrow>
          (case s of c # d # _ \<Rightarrow>
             if second_ok b c \<and> cont_byte d then Some ((b mod 16 * 64 + c mod 64) * 64 + d mod 64, 3) else None
           | _ \<Rightarrow> None)
      | Suc (Suc (Suc (Suc 0))) \<Rightarrow>
          (case s of c # d # e # _ \<Rightarrow>
             if second_ok b c \<and> cont_byte d \<and> cont_byte e
             then Some (((b mod 8 * 64 + c mod 64) * 64 + d mod 64) * 64 + e mod 64, 4) else None
           | _ \<Rightarrow> None)
      | _ \<Rightarrow> None)"

text \<open>
  Ranging over a string: \<open>k\<close> bytes belong to the rune already read; an invalid byte is one
  rune U+FFFD.
\<close>

fun runes_from :: "nat \<Rightarrow> nat list \<Rightarrow> nat option list" where
  "runes_from k [] = []"
| "runes_from (Suc k) (b # s) = runes_from k s"
| "runes_from 0 (b # s) =
     (case decode_rune (b # s) of
        None \<Rightarrow> None # runes_from 0 s
      | Some (r, w) \<Rightarrow> Some r # runes_from (w - 1) s)"

definition str_runes :: "string \<Rightarrow> nat list" where
  "str_runes s = map (\<lambda>r. case r of None \<Rightarrow> 0xFFFD | Some x \<Rightarrow> x) (runes_from 0 (map of_char s))"

definition rune_count :: "string \<Rightarrow> nat" where
  "rune_count s = length (str_runes s)"

definition utf8_valid :: "string \<Rightarrow> bool" where
  "utf8_valid s = list_all (\<lambda>r. r \<noteq> None) (runes_from 0 (map of_char s))"

lemma rune_count_le: "rune_count s \<le> length s"
proof -
  have "length (runes_from k bs) \<le> length bs" for k bs
    by (induction k bs rule: runes_from.induct) (auto split: option.splits)
  from this [of 0 "map of_char s"] show ?thesis by (simp add: rune_count_def str_runes_def)
qed

lemma rune_count_ascii: "list_all (\<lambda>c. (of_char c :: nat) < 128) s \<Longrightarrow> rune_count s = length s"
proof -
  have "list_all (\<lambda>b. b < 128) bs \<Longrightarrow> length (runes_from 0 bs) = length bs" for bs :: "nat list"
    by (induction bs) (auto simp: rune_width_def)
  then show "list_all (\<lambda>c. (of_char c :: nat) < 128) s \<Longrightarrow> rune_count s = length s"
    by (simp add: rune_count_def str_runes_def list_all_length)
qed

section \<open>Library functions\<close>

record 'f float_ops =
  f_parse :: "string \<Rightarrow> 'f option" \<comment> \<open>\<open>strconv.ParseFloat(s, 64)\<close>, \<open>None\<close> on an error\<close>
  f_format :: "'f \<Rightarrow> string" \<comment> \<open>\<open>strconv.FormatFloat(f, 'f', -1, 64)\<close>\<close>
  f_format32 :: "'f \<Rightarrow> string"
  f_of_int :: "int \<Rightarrow> 'f"
  f_to_int64 :: "'f \<Rightarrow> int"
  f_lt :: "'f \<Rightarrow> 'f \<Rightarrow> bool"
  f_eq :: "'f \<Rightarrow> 'f \<Rightarrow> bool"

record 'f valid_lib =
  vl_float :: "'f float_ops"
  vl_address :: "string \<Rightarrow> (string \<times> string) option" \<comment> \<open>\<open>mail.ParseAddress\<close>: name and address\<close>
  vl_url :: "string \<Rightarrow> (string \<times> string \<times> string) option" \<comment> \<open>\<open>url.Parse\<close>: scheme, host name, opaque\<close>
  vl_letter :: "nat \<Rightarrow> bool" \<comment> \<open>\<open>unicode.IsLetter\<close>\<close>
  vl_digit :: "nat \<Rightarrow> bool" \<comment> \<open>\<open>unicode.IsDigit\<close>\<close>
  vl_time :: "string \<Rightarrow> string \<Rightarrow> bool" \<comment> \<open>whether \<open>time.Parse(layout, s)\<close> succeeds\<close>
  vl_regex :: "string \<Rightarrow> (string \<Rightarrow> bool) option" \<comment> \<open>\<open>regexp.Compile\<close>\<close>

section \<open>Predicates\<close>

definition contains_any :: "string \<Rightarrow> string \<Rightarrow> bool" where
  "contains_any cs s = list_ex (\<lambda>c. c \<in> set cs) s"

definition last_index_byte :: "char \<Rightarrow> string \<Rightarrow> nat option" where
  "last_index_byte c s = map_option (\<lambda>i. length s - Suc i) (index_byte c (rev s))"

definition max_email_len :: nat where
  "max_email_len = 254"

definition is_email :: "'f valid_lib \<Rightarrow> string \<Rightarrow> bool" where
  "is_email L s =
     (if s = [] \<or> length s > max_email_len \<or> \<not> utf8_valid s then False
      else if trim_space s \<noteq> s \<or> contains_any (''<>()'' @ [CHR 0x0D, CHR 0x0A, CHR 0x09, CHR 0x20]) s then False
      else case vl_address L s of None \<Rightarrow> False | Some (name, addr) \<Rightarrow>
        if name \<noteq> [] \<or> addr \<noteq> s then False
        else case last_index_byte (CHR ''@'') s of None \<Rightarrow> False | Some at_pos \<Rightarrow>
          if at_pos = 0 \<or> at_pos = length s - 1 then False
          else let domain = drop (at_pos + 1) s in
            \<not> (\<not> contains_sub ''.'' domain \<or> has_prefix ''.'' domain \<or> has_suffix ''.'' domain
               \<or> contains_sub ''..'' domain))"

text \<open>
  \<open>strings.EqualFold\<close>, exact where one side is ASCII: the runes beyond ASCII that fold to an
  ASCII letter are long s and the Kelvin sign.
\<close>

fun fold_key :: "string \<Rightarrow> string" where
  "fold_key [] = []"
| "fold_key [x] = [lower_char x]"
| "fold_key (x # y # s) =
     (if x = CHR 0xC5 \<and> y = CHR 0xBF then CHR ''s'' # fold_key s
      else if x = CHR 0xE2 \<and> y = CHR 0x84 \<and> take 1 s = [CHR 0xAA] then CHR ''k'' # fold_key (drop 1 s)
      else lower_char x # fold_key (y # s))"

definition equal_fold :: "string \<Rightarrow> string \<Rightarrow> bool" where
  "equal_fold s t = (fold_key s = fold_key t)"

definition is_url_with_schemes :: "'f valid_lib \<Rightarrow> string list \<Rightarrow> string \<Rightarrow> bool" where
  "is_url_with_schemes L schemes s =
     (if s = [] \<or> trim_space s \<noteq> s \<or> contains_any [CHR 0x20, CHR 0x09, CHR 0x0D, CHR 0x0A] s then False
      else case vl_url L s of None \<Rightarrow> False | Some (scheme, host, opq) \<Rightarrow>
        if scheme = [] \<or> host = [] \<or> opq \<noteq> [] then False
        else list_ex (\<lambda>sc. equal_fold scheme sc) schemes)"

definition is_url :: "'f valid_lib \<Rightarrow> string \<Rightarrow> bool" where
  "is_url L s = is_url_with_schemes L [''http'', ''https''] s"

definition not_empty :: "string \<Rightarrow> bool" where
  "not_empty s \<longleftrightarrow> s \<noteq> []"

definition is_blank :: "string \<Rightarrow> bool" where
  "is_blank s \<longleftrightarrow> trim_space s = []"

definition is_numeric :: "'f valid_lib \<Rightarrow> string \<Rightarrow> bool" where
  "is_numeric L s0 =
     (let s = trim_space s0; low = go_lower s in
      if s = [] then False
      else if contains_sub ''inf'' low \<or> contains_sub ''nan'' low then False
      else f_parse (vl_float L) s \<noteq> None)"

text \<open>\<open>strconv.ParseInt(s, 10, 64)\<close>: an optional sign, digits, and the range of int64.\<close>

definition parse_int64 :: "string \<Rightarrow> int option" where
  "parse_int64 s =
     (let neg = (take 1 s = ''-''); ds = (if take 1 s = ''-'' \<or> take 1 s = ''+'' then drop 1 s else s) in
      if ds = [] \<or> \<not> list_all is_digit ds then None
      else let n = (if neg then - int (decimal_value ds) else int (decimal_value ds)) in
        if - (2 ^ 63) \<le> n \<and> n < 2 ^ 63 then Some n else None)"

definition itoa_int :: "int \<Rightarrow> string" where
  "itoa_int i = (if i < 0 then ''-'' @ itoa (nat (- i)) else itoa (nat i))"

lemma parse_int64_itoa_int: "- (2 ^ 63) \<le> i \<Longrightarrow> i < 2 ^ 63 \<Longrightarrow> parse_int64 (itoa_int i) = Some i"
proof -
  assume i: "- (2 ^ 63) \<le> i" "i < 2 ^ 63"
  have digits: "list_all is_digit (itoa n)" for n by (auto simp: list_all_iff itoa_digits)
  have "take 1 (itoa n) \<noteq> ''-'' \<and> take 1 (itoa n) \<noteq> ''+''" for n
    using itoa_digits [of "hd (itoa n)" n] itoa_nonempty [of n] by (cases "itoa n") (auto simp: is_digit_def)
  with i digits show ?thesis by (auto simp: parse_int64_def itoa_int_def Let_def)
qed

definition is_integer :: "string \<Rightarrow> bool" where
  "is_integer s0 = (let s = trim_space s0 in if s = [] then False else parse_int64 s \<noteq> None)"

definition is_alpha :: "'f valid_lib \<Rightarrow> string \<Rightarrow> bool" where
  "is_alpha L s \<longleftrightarrow> s \<noteq> [] \<and> list_all (vl_letter L) (str_runes s)"

definition is_alpha_num :: "'f valid_lib \<Rightarrow> string \<Rightarrow> bool" where
  "is_alpha_num L s \<longleftrightarrow> s \<noteq> [] \<and> list_all (\<lambda>r. vl_letter L r \<or> vl_digit L r) (str_runes s)"

definition is_boolean :: "string \<Rightarrow> bool" where
  "is_boolean s = (go_lower (trim_space s) \<in> set [''1'', ''0'', ''true'', ''false'', ''on'', ''off''])"

end
