(* ===== verification/Url.thy ===== *)
theory Url
  imports Router Validate
begin

text \<open>
  What the components use of \<open>net/url\<close> and of header maps: query strings as \<open>url.Values\<close>
  (\<open>ParseQuery\<close>, \<open>Encode\<close>, \<open>QueryUnescape\<close>), and \<open>http.Header\<close> with its canonical keys. A
  multi-map is an association list with distinct keys in the order they were first added.
\<close>

section \<open>Multi-maps\<close>

type_synonym multi = "(string \<times> string list) list"

fun multi_add :: "string \<Rightarrow> string \<Rightarrow> multi \<Rightarrow> multi" where
  "multi_add k v [] = [(k, [v])]"
| "multi_add k v ((j, vs) # m) = (if j = k then (j, vs @ [v]) # m else (j, vs) # multi_add k v m)"

definition multi_values :: "string \<Rightarrow> multi \<Rightarrow> string list" where
  "multi_values k m = (case map_of m k of None \<Rightarrow> [] | Some vs \<Rightarrow> vs)"

definition multi_get :: "string \<Rightarrow> multi \<Rightarrow> string" where
  "multi_get k m = (case multi_values k m of [] \<Rightarrow> [] | v # _ \<Rightarrow> v)"

definition multi_set :: "string \<Rightarrow> string \<Rightarrow> multi \<Rightarrow> multi" where
  "multi_set k v m = AList.update k [v] m"

definition multi_del :: "string \<Rightarrow> multi \<Rightarrow> multi" where
  "multi_del k m = AList.delete k m"

definition multi_add_all :: "multi \<Rightarrow> multi \<Rightarrow> multi" where
  "multi_add_all new m = foldl (\<lambda>m (k, vs). foldl (\<lambda>m v. multi_add k v m) m vs) m new"

lemma map_of_multi_add:
  "map_of (multi_add k v m) j = (if j = k then Some (multi_values k m @ [v]) else map_of m j)"
  by (induction k v m rule: multi_add.induct) (auto simp: multi_values_def)

lemma multi_values_add [simp]:
  "multi_values j (multi_add k v m) = (if j = k then multi_values k m @ [v] else multi_values j m)"
  by (simp add: multi_values_def map_of_multi_add)

lemma multi_values_set [simp]:
  "multi_values j (multi_set k v m) = (if j = k then [v] else multi_values j m)"
  by (simp add: multi_values_def multi_set_def update_conv)

lemma multi_values_del [simp]: "multi_values j (multi_del k m) = (if j = k then [] else multi_values j m)"
  by (simp add: multi_values_def multi_del_def delete_conv)

lemma multi_add_keys: "fst ` set (multi_add k v m) = insert k (fst ` set m)"
  by (induction k v m rule: multi_add.induct) (simp_all add: insert_commute)

section \<open>Headers\<close>

text \<open>
  \<open>textproto.CanonicalMIMEHeaderKey\<close>: a key of token characters has upper case at its start and
  behind a hyphen and lower case elsewhere; any other key is left as it is.
\<close>

definition header_char :: "char \<Rightarrow> bool" where
  "header_char c \<longleftrightarrow> is_letter c \<or> is_digit c \<or> c \<in> set ([CHR 0x21, CHR 0x27, CHR 0x60] @ ''#$%&*+-.^_|~'')"

fun canonical_from :: "bool \<Rightarrow> string \<Rightarrow> string" where
  "canonical_from up [] = []"
| "canonical_from up (c # s) = (if up then upper_char c else lower_char c) # canonical_from (c = CHR ''-'') s"

definition canonical_key :: "string \<Rightarrow> string" where
  "canonical_key k = (if list_all header_char k then canonical_from True k else k)"

definition header_add :: "string \<Rightarrow> string \<Rightarrow> multi \<Rightarrow> multi" where
  "header_add k v h = multi_add (canonical_key k) v h"

definition header_set :: "string \<Rightarrow> string \<Rightarrow> multi \<Rightarrow> multi" where
  "header_set k v h = multi_set (canonical_key k) v h"

definition header_get :: "string \<Rightarrow> multi \<Rightarrow> string" where
  "header_get k h = multi_get (canonical_key k) h"

definition header_values :: "string \<Rightarrow> multi \<Rightarrow> string list" where
  "header_values k h = multi_values (canonical_key k) h"

definition header_add_all :: "multi \<Rightarrow> multi \<Rightarrow> multi" where
  "header_add_all new h = foldl (\<lambda>h (k, vs). foldl (\<lambda>h v. header_add k v h) h vs) h new"

section \<open>Query strings\<close>

definition is_hex :: "char \<Rightarrow> bool" where
  "is_hex c \<longleftrightarrow> is_digit c \<or> c \<in> set ''abcdefABCDEF''"

definition unhex :: "char \<Rightarrow> nat" where
  "unhex c = (let n = of_char c in if n < 58 then n - 48 else if n < 71 then n - 55 else n - 87)"

fun query_unescape :: "string \<Rightarrow> string option" where
  "query_unescape [] = Some []"
| "query_unescape (c # s) =
     (if c = CHR ''%'' then (case s of
          a # b # r \<Rightarrow>
            if is_hex a \<and> is_hex b
            then map_option (\<lambda>t. char_of (16 * unhex a + unhex b) # t) (query_unescape r) else None
        | _ \<Rightarrow> None)
      else map_option (\<lambda>t. (if c = CHR ''+'' then CHR '' '' else c) # t) (query_unescape s))"

definition str_cut :: "char \<Rightarrow> string \<Rightarrow> string \<times> string" where
  "str_cut c s = (case index_byte c s of None \<Rightarrow> (s, []) | Some i \<Rightarrow> (take i s, drop (Suc i) s))"

definition add_pair :: "multi \<times> bool \<Rightarrow> string \<Rightarrow> multi \<times> bool" where
  "add_pair mb p = (case mb of (m, bad) \<Rightarrow>
     if CHR '';'' \<in> set p then (m, True)
     else if p = [] then (m, bad)
     else (case str_cut (CHR ''='') p of (k, v) \<Rightarrow>
       (case (query_unescape k, query_unescape v) of
          (Some k', Some v') \<Rightarrow> (multi_add k' v' m, bad)
        | _ \<Rightarrow> (m, True))))"

text \<open>\<open>ParseQuery\<close>: the values, and whether some pair could not be read.\<close>

definition parse_query :: "string \<Rightarrow> multi \<times> bool" where
  "parse_query s = foldl add_pair ([], False) (split_on (CHR ''&'') s)"

definition encode_values :: "multi \<Rightarrow> string" where
  "encode_values q = join_with ''&'' (concat (map (\<lambda>k.
     map (\<lambda>v. query_escape k @ ''='' @ query_escape v) (multi_values k q)) (sort (map fst q))))"

text \<open>A URL by the fields the components look at; the rest is kept by the library's parser.\<close>

record go_url =
  gu_scheme :: string
  gu_user :: "(string \<times> string option) option"
  gu_host :: string
  gu_path :: string
  gu_raw_query :: string
  gu_opaque :: string
  gu_fragment :: string

record url_lib =
  ul_parse :: "string \<Rightarrow> gerr + go_url"
  ul_string :: "go_url \<Rightarrow> string"

end
