(* ===== verification/Http_Server.thy ===== *)
theory Http_Server
  imports Url Validate Go_Base
begin

text \<open>
  \<open>pkg/middleware\<close>: handlers and the middlewares of \<open>middleware.go\<close> and \<open>recover.go\<close>.

  A handler takes a request and the state of its response writer beside a world, and either
  returns or panics. The context of a request holds the values the middlewares of the repository
  put there. Addresses are those of \<open>net/netip\<close>, a parameter.
\<close>

section \<open>Requests, response writers and handlers\<close>

record server_request =
  sr_method :: string
  sr_path :: string
  sr_header :: multi
  sr_post :: multi \<comment> \<open>the body as a form, read by \<open>PostFormValue\<close>\<close>
  sr_remote :: string
  sr_length :: int
  sr_body_limit :: "int option" \<comment> \<open>the limit of \<open>http.MaxBytesReader\<close>\<close>
  sr_request_id :: "string option"
  sr_csrf_token :: "string option"
  sr_csrf_err :: "gerr option"

text \<open>
  The writer: the headers set so far, the status and headers the response started with, and the
  body. Only the first status from 200 on starts the response.
\<close>

record response_writer =
  rw_header :: multi
  rw_sent :: "(int \<times> multi) option"
  rw_body :: string

datatype panic_value = Abort_handler | Panic_value string

datatype handler_end = Returned | Panicked panic_value

type_synonym 'w handler = "server_request \<Rightarrow> response_writer \<Rightarrow> 'w \<Rightarrow> handler_end \<times> response_writer \<times> 'w"

type_synonym 'w middleware = "'w handler \<Rightarrow> 'w handler"

definition write_header :: "int \<Rightarrow> response_writer \<Rightarrow> response_writer" where
  "write_header code rw =
     (if rw_sent rw = None \<and> 200 \<le> code then rw\<lparr>rw_sent := Some (code, rw_header rw)\<rparr> else rw)"

definition write_body :: "string \<Rightarrow> response_writer \<Rightarrow> response_writer" where
  "write_body b rw = (write_header 200 rw)\<lparr>rw_body := rw_body rw @ b\<rparr>"

definition rw_set :: "string \<Rightarrow> string \<Rightarrow> response_writer \<Rightarrow> response_writer" where
  "rw_set k v rw = rw\<lparr>rw_header := header_set k v (rw_header rw)\<rparr>"

definition rw_add :: "string \<Rightarrow> string \<Rightarrow> response_writer \<Rightarrow> response_writer" where
  "rw_add k v rw = rw\<lparr>rw_header := header_add k v (rw_header rw)\<rparr>"

text \<open>\<open>http.Error\<close>.\<close>

definition respond_error :: "string \<Rightarrow> int \<Rightarrow> response_writer \<Rightarrow> response_writer" where
  "respond_error msg code rw =
     write_body (msg @ [CHR 0x0A]) (write_header code (rw_set ''X-Content-Type-Options'' ''nosniff''
       (rw_set ''Content-Type'' ''text/plain; charset=utf-8''
         (rw\<lparr>rw_header := multi_del ''Content-Length'' (rw_header rw)\<rparr>))))"

definition status_code :: "response_writer \<Rightarrow> int" where
  "status_code rw = (case rw_sent rw of None \<Rightarrow> 200 | Some (c, h) \<Rightarrow> c)"

section \<open>Chain and Recover\<close>

definition chain :: "'w middleware option list \<Rightarrow> 'w middleware" where
  "chain mws h = foldr (\<lambda>m h. case m of None \<Rightarrow> h | Some f \<Rightarrow> f h) mws h"

text \<open>\<open>lg\<close> is the call of the logger.\<close>

definition recover_with :: "(panic_value \<Rightarrow> server_request \<Rightarrow> 'w \<Rightarrow> 'w) \<Rightarrow> 'w middleware" where
  "recover_with lg next r rw w = (case next r rw w of
       (Returned, rw1, w1) \<Rightarrow> (Returned, rw1, w1)
     | (Panicked Abort_handler, rw1, w1) \<Rightarrow> (Panicked Abort_handler, rw1, w1)
     | (Panicked v, rw1, w1) \<Rightarrow>
         (let w2 = lg v r w1 in
          if rw_sent rw1 \<noteq> None then (Panicked Abort_handler, rw1, w2)
          else (Returned, respond_error ''Internal Server Error'' 500 rw1, w2)))"

section \<open>Request identifiers, logging, limits\<close>

definition request_id_header :: string where
  "request_id_header = ''X-Request-ID''"

definition valid_request_id :: "string \<Rightarrow> bool" where
  "valid_request_id s \<longleftrightarrow> s \<noteq> [] \<and> length s \<le> 128
     \<and> list_all (\<lambda>c. is_letter c \<or> is_digit c \<or> c \<in> set ''-_.:'') s"

text \<open>\<open>fresh\<close> is \<open>newRequestID\<close>: 16 random bytes in hexadecimal, or the time in base 36.\<close>

definition new_request_id :: "string option \<Rightarrow> string \<Rightarrow> string" where
  "new_request_id random time36 = (case random of None \<Rightarrow> time36
     | Some b \<Rightarrow> concat (map (\<lambda>c. [hex_char (of_char c div 16), hex_char (of_char c mod 16)]) b))"

definition request_id :: "('w \<Rightarrow> string) \<Rightarrow> 'w middleware" where
  "request_id fresh next r rw w =
     (let given = header_get request_id_header (sr_header r);
          rid = (if valid_request_id given then given else fresh w) in
      next (r\<lparr>sr_request_id := Some rid\<rparr>) (rw_set request_id_header rid rw) w)"

definition get_request_id :: "server_request \<Rightarrow> string" where
  "get_request_id r = (case sr_request_id r of None \<Rightarrow> [] | Some s \<Rightarrow> s)"

datatype log_level = Info_level | Warn_level | Error_level

record access_log =
  al_level :: log_level
  al_method :: string
  al_path :: string
  al_status :: int
  al_bytes :: nat
  al_remote :: string
  al_request_id :: string

text \<open>\<open>Logger\<close>; the bytes are those written behind it. A panic leaves nothing in the log.\<close>

definition access_logger :: "(access_log \<Rightarrow> 'w \<Rightarrow> 'w) \<Rightarrow> 'w middleware" where
  "access_logger lg next r rw w = (case next r rw w of
       (Panicked v, rw1, w1) \<Rightarrow> (Panicked v, rw1, w1)
     | (Returned, rw1, w1) \<Rightarrow>
         (let status = status_code rw1;
              level = (if 500 \<le> status then Error_level else if 400 \<le> status then Warn_level else Info_level) in
          (Returned, rw1, lg \<lparr>al_level = level, al_method = sr_method r, al_path = sr_path r, al_status = status,
             al_bytes = length (rw_body rw1) - length (rw_body rw), al_remote = sr_remote r,
             al_request_id = get_request_id r\<rparr> w1)))"

definition body_limit :: "int \<Rightarrow> 'w middleware" where
  "body_limit n next r rw w =
     (if n \<le> 0 then next r rw w
      else if n < sr_length r then (Returned, respond_error ''Request Entity Too Large'' 413 rw, w)
      else next (r\<lparr>sr_body_limit := Some n\<rparr>) rw w)"

section \<open>The address of the client\<close>

record ('a, 'p) net_lib =
  nl_addr :: "string \<Rightarrow> 'a option" \<comment> \<open>\<open>netip.ParseAddr\<close>\<close>
  nl_unmap :: "'a \<Rightarrow> 'a"
  nl_host :: "string \<Rightarrow> string option" \<comment> \<open>the host of \<open>net.SplitHostPort\<close>\<close>
  nl_text :: "'a \<Rightarrow> string"
  nl_prefix :: "string \<Rightarrow> gerr + 'p" \<comment> \<open>\<open>netip.ParsePrefix\<close>\<close>
  nl_masked :: "'p \<Rightarrow> 'p"
  nl_single :: "'a \<Rightarrow> 'p" \<comment> \<open>the prefix of one address\<close>
  nl_addr_err :: "string \<Rightarrow> gerr"
  nl_contains :: "'p \<Rightarrow> 'a \<Rightarrow> bool"

definition parse_addr :: "('a, 'p) net_lib \<Rightarrow> string \<Rightarrow> 'a option" where
  "parse_addr N s =
     (if s = [] then None
      else case nl_addr N s of
        Some a \<Rightarrow> Some (nl_unmap N a)
      | None \<Rightarrow> (case nl_host N s of
            None \<Rightarrow> None
          | Some h \<Rightarrow> map_option (nl_unmap N) (nl_addr N h)))"

fun parse_trusted_proxies :: "('a, 'p) net_lib \<Rightarrow> string list \<Rightarrow> gerr + 'p list" where
  "parse_trusted_proxies N [] = Inr []"
| "parse_trusted_proxies N (c0 # cs) =
     (let c = trim_space c0 in
      if c = [] then parse_trusted_proxies N cs
      else if CHR ''/'' \<in> set c
      then res_bind (nl_prefix N c) (\<lambda>p. res_bind (parse_trusted_proxies N cs) (\<lambda>ps. Inr (nl_masked N p # ps)))
      else (case nl_addr N c of
          None \<Rightarrow> Inl (nl_addr_err N c)
        | Some a \<Rightarrow> res_bind (parse_trusted_proxies N cs) (\<lambda>ps. Inr (nl_single N (nl_unmap N a) # ps))))"

definition is_trusted :: "('a, 'p) net_lib \<Rightarrow> 'p list \<Rightarrow> 'a \<Rightarrow> bool" where
  "is_trusted N trusted a = list_ex (\<lambda>p. nl_contains N p (nl_unmap N a)) trusted"

text \<open>The loop over the parts of \<open>X-Forwarded-For\<close> from the right; \<open>client\<close> is the address so far.\<close>

fun forwarded :: "('a, 'p) net_lib \<Rightarrow> 'p list \<Rightarrow> string \<Rightarrow> string list \<Rightarrow> string" where
  "forwarded N trusted client [] = client"
| "forwarded N trusted client (p # ps) = (case parse_addr N (trim_space p) of
       None \<Rightarrow> client
     | Some a \<Rightarrow> if \<not> is_trusted N trusted a then nl_text N a else forwarded N trusted (nl_text N a) ps)"

definition forwarded_parts :: "multi \<Rightarrow> string list" where
  "forwarded_parts h = (case header_values ''X-Forwarded-For'' h of
       [] \<Rightarrow> []
     | xff \<Rightarrow> rev (split_on (CHR '','') (join_with '','' xff)))"

definition real_client :: "('a, 'p) net_lib \<Rightarrow> 'p list \<Rightarrow> server_request \<Rightarrow> string" where
  "real_client N trusted r =
     (let c = forwarded N trusted [] (forwarded_parts (sr_header r)) in
      if c \<noteq> [] then c
      else case parse_addr N (trim_space (header_get ''X-Real-IP'' (sr_header r))) of
        None \<Rightarrow> [] | Some a \<Rightarrow> nl_text N a)"

definition real_ip_request :: "('a, 'p) net_lib \<Rightarrow> 'p list \<Rightarrow> server_request \<Rightarrow> server_request" where
  "real_ip_request N trusted r = (case parse_addr N (sr_remote r) of
       None \<Rightarrow> r
     | Some remote \<Rightarrow>
         if trusted = [] \<or> \<not> is_trusted N trusted remote then r
         else if real_client N trusted r \<noteq> [] then r\<lparr>sr_remote := real_client N trusted r\<rparr> else r)"

definition real_ip :: "('a, 'p) net_lib \<Rightarrow> 'p list \<Rightarrow> 'w middleware" where
  "real_ip N trusted next r rw w = next (real_ip_request N trusted r) rw w"

definition client_ip :: "('a, 'p) net_lib \<Rightarrow> server_request \<Rightarrow> string" where
  "client_ip N r = (case parse_addr N (sr_remote r) of Some a \<Rightarrow> nl_text N a | None \<Rightarrow> sr_remote r)"

section \<open>CORS\<close>

record cors_options =
  co_origins :: "string list"
  co_methods :: "string list"
  co_headers :: "string list"
  co_exposed :: "string list"
  co_credentials :: bool
  co_max_age :: int

definition cors_origin :: "string \<Rightarrow> string" where
  "cors_origin o0 = go_lower (rev (dropWhile (\<lambda>c. c = CHR ''/'') (rev (trim_space o0))))"

definition cors_origins :: "cors_options \<Rightarrow> string list" where
  "cors_origins opts = map cors_origin (filter (\<lambda>o0. trim_space o0 \<noteq> [] \<and> trim_space o0 \<noteq> ''*'') (co_origins opts))"

definition cors_allow_all :: "cors_options \<Rightarrow> bool" where
  "cors_allow_all opts \<longleftrightarrow> ''*'' \<in> set (map trim_space (co_origins opts)) \<and> \<not> co_credentials opts"

definition cors_allowed :: "cors_options \<Rightarrow> string \<Rightarrow> bool" where
  "cors_allowed opts origin \<longleftrightarrow> origin \<noteq> [] \<and> (cors_allow_all opts \<or> go_lower origin \<in> set (cors_origins opts))"

definition cors_methods :: "cors_options \<Rightarrow> string list" where
  "cors_methods opts = (if co_methods opts = [] then [''GET'', ''POST'', ''PUT'', ''PATCH'', ''DELETE'', ''HEAD''] else co_methods opts)"

definition cors_headers :: "cors_options \<Rightarrow> string list" where
  "cors_headers opts = (if co_headers opts = []
     then [''Content-Type'', ''Authorization'', ''X-CSRF-Token'', ''X-Requested-With''] else co_headers opts)"

definition cors :: "cors_options \<Rightarrow> 'w middleware" where
  "cors opts next r rw w =
     (let origin = header_get ''Origin'' (sr_header r);
          preflight = (sr_method r = ''OPTIONS'' \<and> header_get ''Access-Control-Request-Method'' (sr_header r) \<noteq> []);
          rw1 = rw_add ''Vary'' ''Origin'' rw;
          rw2 = (if preflight then rw_add ''Vary'' ''Access-Control-Request-Headers''
                   (rw_add ''Vary'' ''Access-Control-Request-Method'' rw1) else rw1) in
      if \<not> cors_allowed opts origin then
        (if preflight then (Returned, write_header 204 rw2, w) else next r rw2 w)
      else
        (let rw3 = rw_set ''Access-Control-Allow-Origin'' (if cors_allow_all opts then ''*'' else origin) rw2;
             rw4 = (if co_credentials opts then rw_set ''Access-Control-Allow-Credentials'' ''true'' rw3 else rw3) in
         if preflight then
           (let rw5 = rw_set ''Access-Control-Allow-Headers'' (join_with '', '' (cors_headers opts))
                        (rw_set ''Access-Control-Allow-Methods'' (join_with '', '' (cors_methods opts)) rw4);
                rw6 = (if 0 < co_max_age opts then rw_set ''Access-Control-Max-Age'' (itoa_int (co_max_age opts)) rw5 else rw5) in
            (Returned, write_header 204 rw6, w))
         else
           (let ex = join_with '', '' (co_exposed opts) in
            next r (if ex \<noteq> [] then rw_set ''Access-Control-Expose-Headers'' ex rw4 else rw4) w)))"

section \<open>Panics\<close>

lemma write_header_sent: "200 \<le> code \<Longrightarrow> rw_sent rw = None \<Longrightarrow> rw_sent (write_header code rw) = Some (code, rw_header rw)"
  by (simp add: write_header_def)

lemma write_body_sent: "rw_sent rw \<noteq> None \<Longrightarrow> rw_sent (write_body b rw) = rw_sent rw"
  by (simp add: write_body_def write_header_def)

lemma rw_set_sent [simp]: "rw_sent (rw_set k v rw) = rw_sent rw" "rw_sent (rw_add k v rw) = rw_sent rw"
  by (simp_all add: rw_set_def rw_add_def)

lemma respond_error_status:
  assumes "rw_sent rw = None" "200 \<le> code"
  shows "\<exists>h. rw_sent (respond_error msg code rw) = Some (code, h)"
proof -
  let ?rw = "rw_set ''X-Content-Type-Options'' ''nosniff'' (rw_set ''Content-Type'' ''text/plain; charset=utf-8''
         (rw\<lparr>rw_header := multi_del ''Content-Length'' (rw_header rw)\<rparr>))"
  have "rw_sent (write_header code ?rw) = Some (code, rw_header ?rw)"
    using assms by (intro write_header_sent) simp_all
  then show ?thesis by (simp add: respond_error_def write_body_sent)
qed

text \<open>
  Behind \<open>Recover\<close> no panic but that of \<open>http.ErrAbortHandler\<close> gets out. A handler that panics
  before its response started is answered with 500; a response that started is left as it is and
  the connection is cut.
\<close>

theorem recover_contains_panics:
  "(case recover_with lg next r rw w of (e, rw', w') \<Rightarrow>
     (e = Returned \<or> e = Panicked Abort_handler)
     \<and> (case next r rw w of
          (Panicked (Panic_value v), rw1, w1) \<Rightarrow>
            (if rw_sent rw1 = None then e = Returned \<and> status_code rw' = 500
             else e = Panicked Abort_handler \<and> rw' = rw1)
        | out \<Rightarrow> (e, rw', w') = out))"
proof -
  obtain e1 rw1 w1 where out: "next r rw w = (e1, rw1, w1)" by (cases "next r rw w")
  show ?thesis
  proof (cases "rw_sent rw1")
    case None
    obtain h where "rw_sent (respond_error ''Internal Server Error'' 500 rw1) = Some (500, h)"
      using respond_error_status [OF None, of 500] by auto
    then show ?thesis
      by (auto simp: recover_with_def out None Let_def status_code_def split: handler_end.splits panic_value.splits)
  next
    case (Some x)
    then show ?thesis
      by (auto simp: recover_with_def out Let_def split: handler_end.splits panic_value.splits)
  qed
qed

section \<open>Forwarded addresses\<close>

text \<open>
  What the proxies of a request vouch for, as a list from the right: the parts of
  \<open>X-Forwarded-For\<close> up to the first one that is no address.
\<close>

definition vouched_hops :: "('a, 'p) net_lib \<Rightarrow> multi \<Rightarrow> 'a list" where
  "vouched_hops N h = map the (takeWhile (\<lambda>a. a \<noteq> None) (map (\<lambda>p. parse_addr N (trim_space p))
     (concat (map (\<lambda>v. rev (split_on (CHR '','') v)) (rev (header_values ''X-Forwarded-For'' h))))))"

text \<open>
  Whom a trusted proxy speaks for: the first hop that is not trusted itself; where all are, the
  farthest one; without hops the address in \<open>X-Real-IP\<close>, if there is one.
\<close>

definition spoken_for :: "('a, 'p) net_lib \<Rightarrow> 'p list \<Rightarrow> server_request \<Rightarrow> string" where
  "spoken_for N trusted r =
     (let hops = vouched_hops N (sr_header r) in
      case List.find (\<lambda>a. \<not> is_trusted N trusted a) hops of
        Some a \<Rightarrow> nl_text N a
      | None \<Rightarrow> if hops \<noteq> [] then nl_text N (last hops)
          else case parse_addr N (trim_space (header_get ''X-Real-IP'' (sr_header r))) of
            Some a \<Rightarrow> nl_text N a | None \<Rightarrow> sr_remote r)"

lemma split_on_sep: "split_on c (w @ c # s) = split_on c w @ split_on c s"
  by (induction w) (auto split: list.split)

lemma split_join_parts: "vs \<noteq> [] \<Longrightarrow> split_on c (join_with [c] vs) = concat (map (split_on c) vs)"
proof (induction "[c]" vs rule: join_with.induct)
  case (3 w v ws)
  then show ?case by (simp add: split_on_sep)
qed simp_all

lemma forwarded_parts_hops:
  "forwarded_parts h = concat (map (\<lambda>v. rev (split_on (CHR '','') v)) (rev (header_values ''X-Forwarded-For'' h)))"
proof (cases "header_values ''X-Forwarded-For'' h")
  case (Cons v vs)
  have "rev (concat (map (split_on (CHR '','')) xs)) = concat (map (\<lambda>v. rev (split_on (CHR '','') v)) (rev xs))" for xs
    by (induction xs) simp_all
  with Cons split_join_parts [of "header_values ''X-Forwarded-For'' h" "CHR '',''"] show ?thesis
    by (simp add: forwarded_parts_def del: join_with.simps)
qed (simp add: forwarded_parts_def)

lemma forwarded_found:
  "forwarded N trusted c ps =
    (let hops = map the (takeWhile (\<lambda>a. a \<noteq> None) (map (\<lambda>p. parse_addr N (trim_space p)) ps)) in
     case List.find (\<lambda>a. \<not> is_trusted N trusted a) hops of
       Some a \<Rightarrow> nl_text N a | None \<Rightarrow> if hops \<noteq> [] then nl_text N (last hops) else c)"
  by (induction ps arbitrary: c) (auto simp: Let_def split: option.split)

text \<open>
  (C26) No spoofing. A request that does not come from a trusted proxy (its remote address is no
  address, or not one of the proxies, as with an empty list) is passed on as it is, whatever
  \<open>X-Forwarded-For\<close> and \<open>X-Real-IP\<close> say. For a request of a trusted proxy only the remote address
  changes, to the one the proxies vouch for: the rightmost forwarded address that is not trusted,
  the farthest where all are trusted, and \<open>X-Real-IP\<close> only where nothing was forwarded. So what a
  client itself puts left of its own address has no influence.
\<close>

theorem real_ip_no_spoofing:
  assumes printed: "\<And>b. nl_text N b \<noteq> []"
  shows "(if \<exists>p. parse_addr N (sr_remote r) = Some p \<and> is_trusted N trusted p
      then real_ip_request N trusted r = r\<lparr>sr_remote := spoken_for N trusted r\<rparr>
      else real_ip_request N trusted r = r)
    \<and> (\<forall>r' near a far far'. sr_remote r' = sr_remote r \<and> \<not> is_trusted N trusted a
        \<and> vouched_hops N (sr_header r) = near @ a # far \<and> vouched_hops N (sr_header r') = near @ a # far'
        \<longrightarrow> sr_remote (real_ip_request N trusted r') = sr_remote (real_ip_request N trusted r))"
proof -
  have spec: "if \<exists>p. parse_addr N (sr_remote r) = Some p \<and> is_trusted N trusted p
      then real_ip_request N trusted r = r\<lparr>sr_remote := spoken_for N trusted r\<rparr>
      else real_ip_request N trusted r = r" for r
  proof (cases "\<exists>p. parse_addr N (sr_remote r) = Some p \<and> is_trusted N trusted p")
    case True
    then obtain p where p: "parse_addr N (sr_remote r) = Some p" "is_trusted N trusted p" by blast
    then have "trusted \<noteq> []" by (auto simp: is_trusted_def)
    have hops: "vouched_hops N (sr_header r) =
        map the (takeWhile (\<lambda>a. a \<noteq> None) (map (\<lambda>p. parse_addr N (trim_space p)) (forwarded_parts (sr_header r))))"
      by (simp add: vouched_hops_def forwarded_parts_hops)
    have client: "real_client N trusted r = (let c = (case List.find (\<lambda>a. \<not> is_trusted N trusted a) (vouched_hops N (sr_header r)) of
          Some a \<Rightarrow> nl_text N a
        | None \<Rightarrow> if vouched_hops N (sr_header r) \<noteq> [] then nl_text N (last (vouched_hops N (sr_header r))) else []) in
        if c \<noteq> [] then c
        else case parse_addr N (trim_space (header_get ''X-Real-IP'' (sr_header r))) of None \<Rightarrow> [] | Some a \<Rightarrow> nl_text N a)"
      unfolding real_client_def forwarded_found hops Let_def by (rule refl)
    have "(if real_client N trusted r \<noteq> [] then r\<lparr>sr_remote := real_client N trusted r\<rparr> else r)
        = r\<lparr>sr_remote := spoken_for N trusted r\<rparr>"
      by (cases "vouched_hops N (sr_header r)")
        (auto simp: client spoken_for_def Let_def printed split: option.split)
    with True p \<open>trusted \<noteq> []\<close> show ?thesis by (simp add: real_ip_request_def)
  qed (auto simp: real_ip_request_def is_trusted_def split: option.split)
  have find: "List.find P (near @ a # far) = List.find P (near @ [a])" if "P a" for P and near far :: "'a list" and a
    using that by (induction near) simp_all
  have "sr_remote (real_ip_request N trusted r') = sr_remote (real_ip_request N trusted r)"
    if "sr_remote r' = sr_remote r" "\<not> is_trusted N trusted a"
      "vouched_hops N (sr_header r) = near @ a # far" "vouched_hops N (sr_header r') = near @ a # far'"
    for r' near a far far'
  proof -
    have "List.find (\<lambda>a. \<not> is_trusted N trusted a) (near @ [a]) \<noteq> None"
      using that(2) by (induction near) simp_all
    then obtain b where "List.find (\<lambda>a. \<not> is_trusted N trusted a) (near @ [a]) = Some b" by blast
    then have "List.find (\<lambda>a. \<not> is_trusted N trusted a) (near @ a # fs) = Some b" for fs
      using find [of "\<lambda>a. \<not> is_trusted N trusted a" a near fs] that(2) by simp
    then have "spoken_for N trusted r' = spoken_for N trusted r"
      by (simp add: spoken_for_def that(3,4) Let_def)
    then show ?thesis using spec [of r] spec [of r'] that(1) by (simp split: if_splits)
  qed
  then show ?thesis using spec [of r] by blast
qed

section \<open>CORS headers\<close>

lemma header_values_rw:
  "header_values k (rw_header (rw_set j v rw)) = (if canonical_key k = canonical_key j then [v] else header_values k (rw_header rw))"
  "header_values k (rw_header (rw_add j v rw)) = (if canonical_key k = canonical_key j then header_values k (rw_header rw) @ [v] else header_values k (rw_header rw))"
  by (simp_all add: rw_set_def rw_add_def header_values_def header_set_def header_add_def)

text \<open>
  \<open>CORS\<close> hands the request on, or answers a preflight with 204, with a response that allows the
  origin of the request only where the options do: then it names this origin, or any origin where
  no credentials are allowed; for another origin it adds nothing. It never allows every origin together
  with credentials.
\<close>

theorem cors_allows_only:
  assumes "header_values ''Access-Control-Allow-Origin'' (rw_header rw) = []"
    "header_values ''Access-Control-Allow-Credentials'' (rw_header rw) = []"
  shows "\<exists>rw'. (cors opts next r rw w = next r rw' w \<or> cors opts next r rw w = (Returned, write_header 204 rw', w))
    \<and> header_values ''Access-Control-Allow-Origin'' (rw_header rw') =
        (if cors_allowed opts (header_get ''Origin'' (sr_header r))
         then [if cors_allow_all opts then ''*'' else header_get ''Origin'' (sr_header r)] else [])
    \<and> header_values ''Access-Control-Allow-Credentials'' (rw_header rw') =
        (if cors_allowed opts (header_get ''Origin'' (sr_header r)) \<and> co_credentials opts then [''true''] else [])
    \<and> \<not> (cors_allow_all opts \<and> co_credentials opts)"
proof -
  let ?ac = "''Access-Control-Allow-Origin''" and ?cr = "''Access-Control-Allow-Credentials''"
  have keys: "canonical_key ?ac \<noteq> canonical_key j" "canonical_key ?cr \<noteq> canonical_key j"
    if "j \<in> {''Vary'', ''Access-Control-Allow-Headers'', ''Access-Control-Allow-Methods'', ''Access-Control-Max-Age'',
      ''Access-Control-Expose-Headers''}" for j
  proof -
    have "list_all (\<lambda>j. canonical_key ?ac \<noteq> canonical_key j \<and> canonical_key ?cr \<noteq> canonical_key j)
      [''Vary'', ''Access-Control-Allow-Headers'', ''Access-Control-Allow-Methods'', ''Access-Control-Max-Age'',
      ''Access-Control-Expose-Headers'']" by code_simp
    with that show "canonical_key ?ac \<noteq> canonical_key j" "canonical_key ?cr \<noteq> canonical_key j"
      by (auto simp: list_all_iff)
  qed
  have two: "canonical_key ?ac \<noteq> canonical_key ?cr" by code_simp
  note other = keys [of "''Vary''", simplified] keys [of "''Access-Control-Allow-Headers''", simplified]
    keys [of "''Access-Control-Allow-Methods''", simplified] keys [of "''Access-Control-Max-Age''", simplified]
    keys [of "''Access-Control-Expose-Headers''", simplified]
  note hv = header_values_rw other two two [symmetric] assms
  let ?origin = "header_get ''Origin'' (sr_header r)"
  let ?pre = "sr_method r = ''OPTIONS'' \<and> header_get ''Access-Control-Request-Method'' (sr_header r) \<noteq> []"
  define rw2 where "rw2 = (if ?pre then rw_add ''Vary'' ''Access-Control-Request-Headers''
    (rw_add ''Vary'' ''Access-Control-Request-Method'' (rw_add ''Vary'' ''Origin'' rw)) else rw_add ''Vary'' ''Origin'' rw)"
  have h2: "header_values ?ac (rw_header rw2) = []" "header_values ?cr (rw_header rw2) = []"
    by (simp_all only: rw2_def hv if_False append_Nil split: if_split) simp_all
  show ?thesis
  proof (cases "cors_allowed opts ?origin")
    case False
    then have "cors opts next r rw w = (if ?pre then (Returned, write_header 204 rw2, w) else next r rw2 w)"
      by (simp add: cors_def Let_def rw2_def)
    with False h2 show ?thesis by (intro exI [of _ rw2]) (simp add: cors_allow_all_def)
  next
    case True
    define rw4 where "rw4 = (if co_credentials opts then rw_set ?cr ''true'' (rw_set ?ac (if cors_allow_all opts then ''*'' else ?origin) rw2)
      else rw_set ?ac (if cors_allow_all opts then ''*'' else ?origin) rw2)"
    have h4: "header_values ?ac (rw_header rw4) = [if cors_allow_all opts then ''*'' else ?origin]"
      "header_values ?cr (rw_header rw4) = (if co_credentials opts then [''true''] else [])"
      using h2 by (simp_all only: rw4_def hv if_True if_False split: if_split) simp_all
    show ?thesis
    proof (cases ?pre)
      case pre: True
      define rw6 where "rw6 = (let rw5 = rw_set ''Access-Control-Allow-Headers'' (join_with '', '' (cors_headers opts))
          (rw_set ''Access-Control-Allow-Methods'' (join_with '', '' (cors_methods opts)) rw4) in
        if 0 < co_max_age opts then rw_set ''Access-Control-Max-Age'' (itoa_int (co_max_age opts)) rw5 else rw5)"
      have "cors opts next r rw w = (Returned, write_header 204 rw6, w)"
        using True pre by (simp add: cors_def Let_def rw2_def rw4_def rw6_def)
      moreover have "header_values ?ac (rw_header rw6) = header_values ?ac (rw_header rw4)"
        "header_values ?cr (rw_header rw6) = header_values ?cr (rw_header rw4)"
        by (simp_all only: rw6_def Let_def hv if_False split: if_split) simp_all
      ultimately show ?thesis using True h4 by (intro exI [of _ rw6]) (simp add: cors_allow_all_def)
    next
      case pre: False
      define rw5 where "rw5 = (let ex = join_with '', '' (co_exposed opts) in
        if ex \<noteq> [] then rw_set ''Access-Control-Expose-Headers'' ex rw4 else rw4)"
      have "cors opts next r rw w = next r rw5 w"
        using True pre by (auto simp add: cors_def Let_def rw2_def rw4_def rw5_def)
      moreover have "header_values ?ac (rw_header rw5) = header_values ?ac (rw_header rw4)"
        "header_values ?cr (rw_header rw5) = header_values ?cr (rw_header rw4)"
        by (simp_all only: rw5_def Let_def hv if_False split: if_split) simp_all
      ultimately show ?thesis using True h4 by (intro exI [of _ rw5]) (simp add: cors_allow_all_def)
    qed
  qed
qed

section \<open>Witnesses\<close>

text \<open>Addresses of one letter; the proxies are p and q.\<close>

definition demo_net :: "(char, char) net_lib" where
  "demo_net = \<lparr>nl_addr = (\<lambda>s. case s of [c] \<Rightarrow> Some c | _ \<Rightarrow> None), nl_unmap = id, nl_host = (\<lambda>_. None), nl_text = (\<lambda>c. [c]),
     nl_prefix = (\<lambda>s. Inl (err_new s)), nl_masked = id, nl_single = id, nl_addr_err = err_new, nl_contains = (=)\<rparr>"

definition demo_forwarded :: "string \<Rightarrow> server_request" where
  "demo_forwarded xff = \<lparr>sr_method = ''GET'', sr_path = ''/'', sr_header = [(''X-Forwarded-For'', [xff])], sr_post = [],
     sr_remote = ''p'', sr_length = 0, sr_body_limit = None, sr_request_id = None, sr_csrf_token = None, sr_csrf_err = None\<rparr>"

text \<open>A stranger who claims an address in both headers.\<close>

definition demo_stranger :: server_request where
  "demo_stranger = (demo_forwarded ''x,u,q'')\<lparr>sr_remote := ''s'', sr_header := [(''X-Real-Ip'', [''v'']), (''X-Forwarded-For'', [''x,u,q''])]\<rparr>"

theorem real_ip_no_spoofing_witness:
  "sr_remote (real_ip_request demo_net ''pq'' (demo_forwarded ''x,u,q'')) = ''u''
    \<and> sr_remote (real_ip_request demo_net ''pq'' (demo_forwarded ''y,z,u,q'')) = ''u''
    \<and> real_ip_request demo_net ''pq'' demo_stranger = demo_stranger"
proof (intro conjI)
  have nonempty: "nl_text demo_net b \<noteq> []" for b by (simp add: demo_net_def)
  note spec = real_ip_no_spoofing [OF nonempty]
  have proxy: "parse_addr demo_net (sr_remote (demo_forwarded x)) = Some (CHR ''p'')"
      "is_trusted demo_net ''pq'' (CHR ''p'')" for x
    by (simp add: demo_forwarded_def demo_net_def parse_addr_def) code_simp
  have "spoken_for demo_net ''pq'' (demo_forwarded ''x,u,q'') = ''u''" by code_simp
  with spec [of "demo_forwarded ''x,u,q''" "''pq''"] proxy
  show first: "sr_remote (real_ip_request demo_net ''pq'' (demo_forwarded ''x,u,q'')) = ''u''" by auto
  have hops: "vouched_hops demo_net (sr_header (demo_forwarded ''x,u,q'')) = ''q'' @ CHR ''u'' # ''x''"
      "vouched_hops demo_net (sr_header (demo_forwarded ''y,z,u,q'')) = ''q'' @ CHR ''u'' # ''zy''"
      "\<not> is_trusted demo_net ''pq'' (CHR ''u'')"
      "sr_remote (demo_forwarded ''y,z,u,q'') = sr_remote (demo_forwarded ''x,u,q'')" by code_simp+
  with spec [of "demo_forwarded ''x,u,q''" "''pq''", THEN conjunct2, rule_format,
      of "demo_forwarded ''y,z,u,q''" "CHR ''u''" "''q''" "''x''" "''zy''"] first
  show "sr_remote (real_ip_request demo_net ''pq'' (demo_forwarded ''y,z,u,q'')) = ''u''" by simp
  have "parse_addr demo_net (sr_remote demo_stranger) = Some (CHR ''s'')" "\<not> is_trusted demo_net ''pq'' (CHR ''s'')"
    by code_simp+
  with spec [of demo_stranger "''pq''", THEN conjunct1]
  show "real_ip_request demo_net ''pq'' demo_stranger = demo_stranger" by auto
qed

end
