(* ===== verification/Web_Guard.thy ===== *)
theory Web_Guard
  imports Http_Server
begin

text \<open>
  Guards of requests: the CSRF protection of \<open>pkg/security/csrf.go\<close> with its session store
  (\<open>pkg/web/csrf.go\<close>), safe redirects (\<open>pkg/web/safe_redirect.go\<close>) and the redirects by route
  name (\<open>pkg/web/redirect.go\<close>). Sessions are those of gorilla/sessions, a parameter: reading a
  session gives its values, saving them writes a cookie. The world holds what the client keeps.
\<close>

section \<open>CSRF\<close>

definition csrf_header_name :: string where
  "csrf_header_name = ''X-CSRF-Token''"

definition csrf_field_name :: string where
  "csrf_field_name = ''csrf_token''"

definition err_csrf_missing :: gerr where
  "err_csrf_missing = sentinel ''security: CSRF token missing''"

definition err_csrf_invalid :: gerr where
  "err_csrf_invalid = sentinel ''security: CSRF token invalid''"

record 'w csrf_store =
  cs_token :: "server_request \<Rightarrow> response_writer \<Rightarrow> 'w \<Rightarrow> (gerr + string) \<times> response_writer \<times> 'w"
  cs_expected :: "server_request \<Rightarrow> 'w \<Rightarrow> gerr + string"

text \<open>\<open>NewCSRFToken\<close> from 32 random bytes, or the error of the random source.\<close>

definition new_csrf_token :: "gerr + string \<Rightarrow> gerr + string" where
  "new_csrf_token random = res_bind random (\<lambda>b.
     Inr (concat (map (\<lambda>c. [hex_char (of_char c div 16), hex_char (of_char c mod 16)]) b)))"

definition csrf_tokens_equal :: "string \<Rightarrow> string \<Rightarrow> bool" where
  "csrf_tokens_equal expected provided = (if expected = [] \<or> provided = [] then False else expected = provided)"

definition is_csrf_safe_method :: "string \<Rightarrow> bool" where
  "is_csrf_safe_method m \<longleftrightarrow> m \<in> set [''GET'', ''HEAD'', ''OPTIONS'', ''TRACE'']"

definition csrf_provided_token :: "server_request \<Rightarrow> string" where
  "csrf_provided_token r =
     (if header_get csrf_header_name (sr_header r) \<noteq> [] then header_get csrf_header_name (sr_header r)
      else multi_get csrf_field_name (sr_post r))"

definition verify_csrf :: "'w csrf_store option \<Rightarrow> server_request \<Rightarrow> string \<Rightarrow> 'w \<Rightarrow> gerr option" where
  "verify_csrf store r provided w =
     (if provided = [] then Some err_csrf_missing
      else case store of
        None \<Rightarrow> Some err_csrf_invalid
      | Some S \<Rightarrow> (case cs_expected S r w of
            Inl e \<Rightarrow> Some e
          | Inr expected \<Rightarrow> if \<not> csrf_tokens_equal expected provided then Some err_csrf_invalid else None))"

definition match_path :: "string \<Rightarrow> string \<Rightarrow> bool" where
  "match_path pattern path =
     (if pattern = path then True
      else if has_suffix ''*'' pattern then has_prefix (take (length pattern - 1) pattern) path else False)"

record 'w csrf_options =
  cf_skip :: "(server_request \<Rightarrow> bool) option"
  cf_skip_paths :: "string list"
  cf_error :: "'w handler option"

definition csrf_fail :: "'w csrf_options \<Rightarrow> gerr \<Rightarrow> 'w handler" where
  "csrf_fail opts e r rw w = (case cf_error opts of
       Some h \<Rightarrow> h (r\<lparr>sr_csrf_err := Some e\<rparr>) rw w
     | None \<Rightarrow> (Returned, respond_error ''Forbidden - CSRF token missing or invalid'' 403 rw, w))"

definition csrf_skips :: "'w csrf_options \<Rightarrow> server_request \<Rightarrow> bool" where
  "csrf_skips opts r \<longleftrightarrow> (case cf_skip opts of None \<Rightarrow> False | Some f \<Rightarrow> f r)
     \<or> list_ex (\<lambda>p. match_path p (sr_path r)) (cf_skip_paths opts)"

text \<open>\<open>CSRFProtect\<close>; \<open>warn\<close> is the warning about a token that could not be made.\<close>

definition csrf_protect :: "(gerr \<Rightarrow> 'w \<Rightarrow> 'w) \<Rightarrow> 'w csrf_store option \<Rightarrow> 'w csrf_options \<Rightarrow> 'w middleware" where
  "csrf_protect warn store opts next r rw w = (case store of
       None \<Rightarrow> csrf_fail opts err_csrf_invalid r rw w
     | Some S \<Rightarrow> (case cs_token S r rw w of (tok, rw1, w1) \<Rightarrow>
         (let r1 = (case tok of Inl e \<Rightarrow> r | Inr t \<Rightarrow> r\<lparr>sr_csrf_token := Some t\<rparr>);
              w2 = (case tok of Inl e \<Rightarrow> warn e w1 | Inr t \<Rightarrow> w1) in
          if csrf_skips opts r1 \<or> is_csrf_safe_method (sr_method r1) then next r1 rw1 w2
          else (case verify_csrf store r1 (csrf_provided_token r1) w2 of
              Some e \<Rightarrow> csrf_fail opts e r1 rw1 w2
            | None \<Rightarrow> next r1 rw1 w2))))"

definition csrf_token_from_context :: "server_request \<Rightarrow> string" where
  "csrf_token_from_context r = (case sr_csrf_token r of None \<Rightarrow> [] | Some t \<Rightarrow> t)"

text \<open>The store of \<open>pkg/web\<close>: the token is in the session named \<open>session-csrf\<close>.\<close>

record 'w session_lib =
  sl_get :: "string \<Rightarrow> server_request \<Rightarrow> 'w \<Rightarrow> gerr + (string \<times> gval) list"
  sl_save :: "string \<Rightarrow> (string \<times> gval) list \<Rightarrow> server_request \<Rightarrow> response_writer \<Rightarrow> 'w \<Rightarrow> gerr option \<times> response_writer \<times> 'w"
  sl_random :: "nat \<Rightarrow> 'w \<Rightarrow> gerr + string"

definition csrf_session_name :: string where
  "csrf_session_name = ''session-csrf''"

definition csrf_key :: string where
  "csrf_key = ''token''"

definition session_csrf_token ::
  "'w session_lib \<Rightarrow> server_request \<Rightarrow> response_writer \<Rightarrow> 'w \<Rightarrow> (gerr + string) \<times> response_writer \<times> 'w" where
  "session_csrf_token SL r rw w = (case sl_get SL csrf_session_name r w of
       Inl e \<Rightarrow> (Inl e, rw, w)
     | Inr vals \<Rightarrow> (case map_of vals csrf_key of
           Some (VStr (c # s)) \<Rightarrow> (Inr (c # s), rw, w)
         | _ \<Rightarrow> (case new_csrf_token (sl_random SL 32 w) of
               Inl e \<Rightarrow> (Inl e, rw, w)
             | Inr tok \<Rightarrow> (case sl_save SL csrf_session_name (AList.update csrf_key (VStr tok) vals) r rw w of
                   (Some e, rw1, w1) \<Rightarrow> (Inl e, rw1, w1)
                 | (None, rw1, w1) \<Rightarrow> (Inr tok, rw1, w1)))))"

definition session_csrf_expected :: "'w session_lib \<Rightarrow> server_request \<Rightarrow> 'w \<Rightarrow> gerr + string" where
  "session_csrf_expected SL r w = res_bind (sl_get SL csrf_session_name r w) (\<lambda>vals.
     Inr (case map_of vals csrf_key of Some (VStr s) \<Rightarrow> s | _ \<Rightarrow> []))"

definition session_csrf_store :: "'w session_lib \<Rightarrow> 'w csrf_store" where
  "session_csrf_store SL = \<lparr>cs_token = session_csrf_token SL, cs_expected = session_csrf_expected SL\<rparr>"

definition csrf_middleware :: "(gerr \<Rightarrow> 'w \<Rightarrow> 'w) \<Rightarrow> 'w session_lib \<Rightarrow> 'w csrf_options \<Rightarrow> 'w middleware" where
  "csrf_middleware warn SL opts = csrf_protect warn (Some (session_csrf_store SL)) opts"

text \<open>
  (C27) Fail closed: whether the handler runs can only matter for a request with a safe method, one that
  the options skip, or one whose token, which is not empty, is the one the store expects once \<open>Token\<close> was called.
\<close>

theorem csrf_fails_closed:
  assumes "csrf_protect warn store opts next r rw w \<noteq> csrf_protect warn store opts next' r rw w"
  shows "is_csrf_safe_method (sr_method r)
    \<or> (\<exists>tok. csrf_skips opts (r\<lparr>sr_csrf_token := tok\<rparr>))
    \<or> (\<exists>S tok rw1 w1. store = Some S \<and> cs_token S r rw w = (tok, rw1, w1) \<and> csrf_provided_token r \<noteq> []
        \<and> cs_expected S (case tok of Inl e \<Rightarrow> r | Inr t \<Rightarrow> r\<lparr>sr_csrf_token := Some t\<rparr>) (case tok of Inl e \<Rightarrow> warn e w1 | Inr t \<Rightarrow> w1)
          = Inr (csrf_provided_token r))"
proof -
  obtain S where S: "store = Some S" using assms by (cases store) (auto simp: csrf_protect_def)
  obtain tok rw1 w1 where tok: "cs_token S r rw w = (tok, rw1, w1)" by (cases "cs_token S r rw w")
  let ?r1 = "case tok of Inl e \<Rightarrow> r | Inr t \<Rightarrow> r\<lparr>sr_csrf_token := Some t\<rparr>"
  let ?w2 = "case tok of Inl e \<Rightarrow> warn e w1 | Inr t \<Rightarrow> w1"
  have same: "sr_method ?r1 = sr_method r" "csrf_provided_token ?r1 = csrf_provided_token r"
    "?r1 = r\<lparr>sr_csrf_token := (case tok of Inl e \<Rightarrow> sr_csrf_token r | Inr t \<Rightarrow> Some t)\<rparr>"
    by (simp_all add: csrf_provided_token_def split: sum.split)
  show ?thesis
  proof (cases "csrf_skips opts ?r1 \<or> is_csrf_safe_method (sr_method ?r1)")
    case True
    then show ?thesis using same by (metis)
  next
    case False
    with assms S tok have "verify_csrf store ?r1 (csrf_provided_token ?r1) ?w2 = None"
      by (auto simp: csrf_protect_def Let_def split: option.splits)
    then have "csrf_provided_token r \<noteq> [] \<and> cs_expected S ?r1 ?w2 = Inr (csrf_provided_token r)"
      using S same(2) by (auto simp: verify_csrf_def csrf_tokens_equal_def split: if_splits sum.splits)
    with S tok show ?thesis by blast
  qed
qed

text \<open>
  A client that sends back the token it was given is let through: where a saved session is what is
  read next, the token of the store is not empty and verifies for the following request.
\<close>

theorem csrf_token_accepted:
  assumes saved: "\<And>vals r r' rw w rw' w'. sl_save SL csrf_session_name vals r rw w = (None, rw', w') \<Longrightarrow>
      sl_get SL csrf_session_name r' w' = Inr vals"
    and kept: "\<And>r r' w. sl_get SL csrf_session_name r w = sl_get SL csrf_session_name r' w"
    and random: "\<And>w b. sl_random SL 32 w = Inr b \<Longrightarrow> b \<noteq> []"
    and tok: "session_csrf_token SL r rw w = (Inr t, rw', w')"
  shows "t \<noteq> [] \<and> verify_csrf (Some (session_csrf_store SL)) r' t w' = None"
proof -
  obtain vals where vals: "sl_get SL csrf_session_name r w = Inr vals"
    using tok by (auto simp: session_csrf_token_def split: sum.splits)
  show ?thesis
  proof (cases "\<exists>c s. map_of vals csrf_key = Some (VStr (c # s))")
    case True
    with tok vals have "w' = w" "map_of vals csrf_key = Some (VStr t)" "t \<noteq> []"
      by (auto simp: session_csrf_token_def)
    moreover have "sl_get SL csrf_session_name r' w = Inr vals" using kept vals by metis
    ultimately show ?thesis
      by (simp add: verify_csrf_def session_csrf_store_def session_csrf_expected_def csrf_tokens_equal_def)
  next
    case False
    with tok vals obtain rw1 where new: "new_csrf_token (sl_random SL 32 w) = Inr t"
      "sl_save SL csrf_session_name (AList.update csrf_key (VStr t) vals) r rw w = (None, rw1, w')"
      by (auto simp: session_csrf_token_def split: sum.splits option.splits prod.splits gval.splits list.splits)
    then obtain b where b: "sl_random SL 32 w = Inr b"
      "t = concat (map (\<lambda>c. [hex_char (of_char c div 16), hex_char (of_char c mod 16)]) b)"
      by (auto simp: new_csrf_token_def)
    with random have "t \<noteq> []" by (cases b) auto
    moreover have "sl_get SL csrf_session_name r' w' = Inr (AList.update csrf_key (VStr t) vals)" using saved new(2) .
    ultimately show ?thesis
      by (simp add: verify_csrf_def session_csrf_store_def session_csrf_expected_def csrf_tokens_equal_def update_conv)
  qed
qed

section \<open>Redirects\<close>

definition set_redirect_whitelist :: "string list \<Rightarrow> string list" where
  "set_redirect_whitelist hosts = filter (\<lambda>h. h \<noteq> []) (map (\<lambda>h. go_lower (trim_space h)) hosts)"

definition has_control_char :: "string \<Rightarrow> bool" where
  "has_control_char s \<longleftrightarrow> list_ex (\<lambda>c. (of_char c :: nat) < 0x20 \<or> (of_char c :: nat) = 0x7f) s"

text \<open>\<open>URL.Hostname\<close>: the host without its port and without the brackets of an IPv6 address.\<close>

definition url_hostname :: "string \<Rightarrow> string" where
  "url_hostname host =
     (let valid_port = (\<lambda>p. p = [] \<or> hd p = CHR '':'' \<and> list_all is_digit (tl p));
          h = (case last_index_byte (CHR '':'') host of
                 Some i \<Rightarrow> if valid_port (drop i host) then take i host else host
               | None \<Rightarrow> host) in
      if h \<noteq> [] \<and> hd h = CHR ''['' \<and> last h = CHR '']'' then butlast (tl h) else h)"

definition is_safe_redirect :: "url_lib \<Rightarrow> string list \<Rightarrow> string \<Rightarrow> bool" where
  "is_safe_redirect U allow next0 =
     (let next = trim_space next0 in
      if next = [] then True
      else if has_control_char next \<or> CHR 0x5C \<in> set next then False
      else if has_prefix ''/'' next then \<not> has_prefix ''//'' next
      else case ul_parse U next of
        Inl e \<Rightarrow> False
      | Inr u \<Rightarrow>
          if gu_scheme u = [] then False
          else if go_lower (gu_scheme u) \<notin> set [''http'', ''https''] then False
          else if gu_user u \<noteq> None then False
          else (let host = go_lower (url_hostname (gu_host u)) in
            host \<noteq> [] \<and> list_ex (\<lambda>a. host = a \<or> has_suffix (''.'' @ a) host) allow))"

definition normalize_safe_redirect :: "url_lib \<Rightarrow> string list \<Rightarrow> string \<Rightarrow> string list \<Rightarrow> string" where
  "normalize_safe_redirect U allow next0 fallback =
     (let fb = (case fallback of [] \<Rightarrow> ''/'' | f # _ \<Rightarrow> f); next = trim_space next0 in
      if next = [] then fb else if is_safe_redirect U allow next then next else fb)"

lemma space_len_0_iff: "space_len s = 0 \<longleftrightarrow> list_all (\<lambda>w. \<not> has_prefix w s) space_runes"
proof (cases "find (\<lambda>w. has_prefix w s) space_runes")
  case None
  then have "list_all (\<lambda>w. \<not> has_prefix w s) space_runes" by (simp add: find_None_iff list_all_iff)
  with None show ?thesis by (simp add: space_len_def)
next
  case (Some w)
  then have "w \<in> set space_runes" "has_prefix w s" by (auto simp: find_Some_iff)
  moreover have "w \<noteq> []" using \<open>w \<in> set space_runes\<close> by (auto simp: space_runes_def)
  ultimately show ?thesis using Some by (auto simp: space_len_def list_all_iff)
qed

lemma trim_left_start: "space_len (trim_left s) = 0"
  by (induction s rule: trim_left.induct) (subst trim_left.simps, simp)

lemma trim_right_end: "end_space_len (trim_right s) = 0"
  by (induction s rule: trim_right.induct) (subst trim_right.simps, simp)

lemma trim_right_prefix: "\<exists>n. trim_right s = take n s"
proof (induction s rule: trim_right.induct)
  case (1 s)
  show ?case
  proof (cases "end_space_len s = 0")
    case True
    then show ?thesis by (intro exI [of _ "length s"]) (simp add: trim_right.simps [of s])
  next
    case False
    with 1 show ?thesis by (subst trim_right.simps) (auto simp: take_take)
  qed
qed

lemma trim_space_idem: "trim_space (trim_space s) = trim_space s"
proof -
  let ?t = "trim_right (trim_left s)"
  obtain n where n: "?t = take n (trim_left s)" using trim_right_prefix by blast
  have "space_len ?t = 0"
    using trim_left_start [of s] unfolding space_len_0_iff n
    by (auto simp: list_all_iff has_prefix_iff) (metis append.assoc append_take_drop_id)
  then have "trim_left ?t = ?t" by (simp add: trim_left.simps [of ?t])
  moreover have "trim_right ?t = ?t" using trim_right_end [of "trim_left s"] by (simp add: trim_right.simps [of ?t])
  ultimately show ?thesis by (simp add: trim_space_def)
qed

text \<open>A target that a browser resolves to a path of the same site.\<close>

definition own_path :: "string \<Rightarrow> bool" where
  "own_path s \<longleftrightarrow> s \<noteq> [] \<and> hd s = CHR ''/'' \<and> (tl s = [] \<or> hd (tl s) \<noteq> CHR ''/'' \<and> hd (tl s) \<noteq> CHR 0x5C)
     \<and> \<not> has_control_char s \<and> CHR 0x5C \<notin> set s"

text \<open>A web address without credentials whose host is one of the listed hosts or below one.\<close>

definition listed_address :: "url_lib \<Rightarrow> string list \<Rightarrow> string \<Rightarrow> bool" where
  "listed_address U allow s \<longleftrightarrow> (\<exists>u. ul_parse U s = Inr u \<and> gu_user u = None
     \<and> go_lower (gu_scheme u) \<in> {''http'', ''https''}
     \<and> (\<exists>a\<in>set allow. go_lower (url_hostname (gu_host u)) = a
          \<or> (\<exists>p. go_lower (url_hostname (gu_host u)) = p @ ''.'' @ a)))"

text \<open>
  A normalised redirect goes to the fallback, to a path of the same site, or to an address of a
  listed host: there is no target that a browser takes for another site.
\<close>

theorem redirects_stay:
  "normalize_safe_redirect U allow next fallback = (case fallback of [] \<Rightarrow> ''/'' | f # _ \<Rightarrow> f)
    \<or> own_path (normalize_safe_redirect U allow next fallback)
    \<or> listed_address U allow (normalize_safe_redirect U allow next fallback)"
proof (cases "trim_space next \<noteq> [] \<and> is_safe_redirect U allow (trim_space next)")
  case True
  define s where "s = trim_space next"
  have norm: "normalize_safe_redirect U allow next fallback = s"
    using True by (simp add: normalize_safe_redirect_def Let_def s_def)
  have s: "trim_space s = s" "s \<noteq> []" "is_safe_redirect U allow s"
    using True by (simp_all add: s_def trim_space_idem)
  then have clean: "\<not> has_control_char s" "CHR 0x5C \<notin> set s"
    by (auto simp: is_safe_redirect_def Let_def split: if_splits)
  obtain c t where ct: "s = c # t" using s(2) by (cases s) auto
  show ?thesis
  proof (cases "c = CHR ''/''")
    case True
    with s clean ct have "own_path s"
      by (auto simp: is_safe_redirect_def Let_def own_path_def has_prefix_def neq_Nil_conv split: if_splits)
    with norm show ?thesis by simp
  next
    case False
    with ct have np: "\<not> has_prefix ''/'' s" by (simp add: has_prefix_def)
    from s(3) [unfolded is_safe_redirect_def Let_def s(1)] s(2) clean np obtain u where
      u: "ul_parse U s = Inr u" "go_lower (gu_scheme u) \<in> set [''http'', ''https'']" "gu_user u = None"
        "list_ex (\<lambda>a. go_lower (url_hostname (gu_host u)) = a \<or> has_suffix (''.'' @ a) (go_lower (url_hostname (gu_host u)))) allow"
      by (simp only: if_False if_True split: sum.splits if_splits)
    from u(4) obtain a where a: "a \<in> set allow" "go_lower (url_hostname (gu_host u)) = a
        \<or> has_suffix (''.'' @ a) (go_lower (url_hostname (gu_host u)))" by (auto simp: list_ex_iff)
    then have "go_lower (url_hostname (gu_host u)) = a \<or> (\<exists>p. go_lower (url_hostname (gu_host u)) = p @ ''.'' @ a)"
      unfolding has_suffix_def by (metis append_take_drop_id)
    with u a(1) have "listed_address U allow s" by (auto simp: listed_address_def)
    with norm show ?thesis by simp
  qed
next
  case False
  then show ?thesis by (auto simp: normalize_safe_redirect_def Let_def)
qed

section \<open>Witnesses\<close>

text \<open>The world of the demos is what the client's session holds; random bytes are fixed.\<close>

definition demo_sessions :: "(string \<times> gval) list session_lib" where
  "demo_sessions = \<lparr>sl_get = (\<lambda>name r w. Inr w), sl_save = (\<lambda>name vals r rw w. (None, rw, vals)),
     sl_random = (\<lambda>n w. Inr ''ab'')\<rparr>"

definition demo_post :: "string \<Rightarrow> server_request" where
  "demo_post tok = \<lparr>sr_method = ''POST'', sr_path = ''/x'', sr_header = [], sr_post = [(csrf_field_name, [tok])],
     sr_remote = ''10.0.0.1'', sr_length = 0, sr_body_limit = None, sr_request_id = None, sr_csrf_token = None, sr_csrf_err = None\<rparr>"

definition demo_writer :: response_writer where
  "demo_writer = \<lparr>rw_header = [], rw_sent = None, rw_body = []\<rparr>"

definition demo_csrf_options :: "(string \<times> gval) list csrf_options" where
  "demo_csrf_options = \<lparr>cf_skip = None, cf_skip_paths = [''/api/*''], cf_error = None\<rparr>"

definition demo_handler :: "string \<Rightarrow> (string \<times> gval) list handler" where
  "demo_handler b r rw w = (Returned, write_body b rw, w)"

theorem csrf_token_accepted_witness:
  "session_csrf_token demo_sessions (demo_post []) demo_writer [] = (Inr ''6162'', demo_writer, [(''token'', VStr ''6162'')])
    \<and> verify_csrf (Some (session_csrf_store demo_sessions)) (demo_post []) ''6162'' [(''token'', VStr ''6162'')] = None"
proof -
  have tok: "session_csrf_token demo_sessions (demo_post []) demo_writer [] = (Inr ''6162'', demo_writer, [(''token'', VStr ''6162'')])"
    by code_simp
  have "verify_csrf (Some (session_csrf_store demo_sessions)) (demo_post []) ''6162'' [(''token'', VStr ''6162'')] = None"
    using csrf_token_accepted [OF _ _ _ tok] by (simp add: demo_sessions_def)
  with tok show ?thesis by simp
qed

theorem csrf_fails_closed_witness:
  "\<exists>S tok rw1 w1. Some (session_csrf_store demo_sessions) = Some S
    \<and> cs_token S (demo_post ''t'') demo_writer [(csrf_key, VStr ''t'')] = (tok, rw1, w1) \<and> csrf_provided_token (demo_post ''t'') \<noteq> []
    \<and> cs_expected S (case tok of Inl e \<Rightarrow> demo_post ''t'' | Inr t \<Rightarrow> (demo_post ''t'')\<lparr>sr_csrf_token := Some t\<rparr>)
        (case tok of Inl e \<Rightarrow> w1 | Inr t \<Rightarrow> w1) = Inr (csrf_provided_token (demo_post ''t''))"
proof -
  have runs: "csrf_protect (\<lambda>e w. w) (Some (session_csrf_store demo_sessions)) demo_csrf_options (demo_handler ''1'') (demo_post ''t'') demo_writer [(csrf_key, VStr ''t'')]
    \<noteq> csrf_protect (\<lambda>e w. w) (Some (session_csrf_store demo_sessions)) demo_csrf_options (demo_handler ''2'') (demo_post ''t'') demo_writer [(csrf_key, VStr ''t'')]"
    by code_simp
  have unsafe: "\<not> is_csrf_safe_method (sr_method (demo_post ''t''))" by code_simp
  have "\<not> csrf_skips demo_csrf_options (demo_post ''t'')" by code_simp
  then have skip: "\<not> (\<exists>tok. csrf_skips demo_csrf_options ((demo_post ''t'')\<lparr>sr_csrf_token := tok\<rparr>))"
    by (simp add: csrf_skips_def demo_csrf_options_def)
  show ?thesis
    using csrf_fails_closed [OF runs]
    by (rule disjE [OF _ notE [OF unsafe] disjE [OF _ notE [OF skip]]])
qed

section \<open>Redirects by name\<close>

text \<open>\<open>Route\<close>, and \<open>RedirectRoute\<close> with \<open>http.Redirect\<close> as a parameter.\<close>

definition route :: "(gval \<Rightarrow> string) \<Rightarrow> templates \<Rightarrow> string \<Rightarrow> rparam list \<Rightarrow> string option" where
  "route sprint ts name ps = (case reverse_url sprint ts name ps of Inl e \<Rightarrow> None | Inr s \<Rightarrow> Some s)"

definition redirect_route ::
  "(server_request \<Rightarrow> string \<Rightarrow> int \<Rightarrow> response_writer \<Rightarrow> response_writer) \<Rightarrow> (gval \<Rightarrow> string) \<Rightarrow> templates
    \<Rightarrow> string \<Rightarrow> int \<Rightarrow> rparam list \<Rightarrow> server_request \<Rightarrow> response_writer \<Rightarrow> response_writer" where
  "redirect_route redirect sprint ts name code ps r rw = (case route sprint ts name ps of
       Some p \<Rightarrow> redirect r p code rw
     | None \<Rightarrow> respond_error (''route '' @ [CHR 0x27] @ name @ [CHR 0x27] @ '' not found'') 404 rw)"

end
