(* ===== verification/Menu.thy ===== *)
theory Menu
  imports Router "HOL-Library.Multiset" "HOL-Library.Product_Lexorder"
begin

text \<open>
  Menus: \<open>BuildMenu\<close> (\<open>pkg/web/menu.go\<close>) with the permission check \<open>Can\<close> (\<open>pkg/web/user.go\<close>,
  \<open>can_checker.go\<close>), and the tree of menu records with its cache
  (\<open>cmd/crm/menusvc/menuloader.go\<close>, \<open>cmd/crm/config/menu_db.go\<close>).

  The permission checker is an argument (\<open>None\<close> where none is set), and so are the store's answers
  and the clock of the loader. A menu item keeps its children; \<open>children[ParentID]\<close> of \<open>BuildTree\<close>
  is the list of the records with that parent, in the order of the input.
\<close>

section \<open>Users and permissions\<close>

text \<open>A user, by the types that \<open>ExtractUserRole\<close> tells apart.\<close>

datatype web_user = No_user | User_strings "string \<rightharpoonup> string" | User_values "string \<rightharpoonup> gval" | Role_provider string | Other_user

definition guest_role :: string where
  "guest_role = ''guest''"

definition extract_user_role :: "web_user \<Rightarrow> string \<Rightarrow> string" where
  "extract_user_role u fallback =
     (case u of
        User_strings m \<Rightarrow> (case m ''role'' of Some r \<Rightarrow> if r \<noteq> [] then r else fallback | None \<Rightarrow> fallback)
      | User_values m \<Rightarrow> (case m ''role'' of Some (VStr r) \<Rightarrow> if r \<noteq> [] then r else fallback | _ \<Rightarrow> fallback)
      | Role_provider r \<Rightarrow> if r \<noteq> [] then r else fallback
      | _ \<Rightarrow> fallback)"

definition has_role :: "web_user \<Rightarrow> string \<Rightarrow> bool" where
  "has_role u role \<longleftrightarrow> role \<noteq> [] \<and> extract_user_role u [] = role"

definition get_user_attr :: "web_user \<Rightarrow> string \<Rightarrow> gval option" where
  "get_user_attr u key =
     (case u of User_strings m \<Rightarrow> map_option VStr (m key) | User_values m \<Rightarrow> m key | _ \<Rightarrow> None)"

type_synonym can_checker = "string \<Rightarrow> string \<Rightarrow> string \<Rightarrow> bool \<times> gerr option"

definition user_can :: "can_checker option \<Rightarrow> web_user \<Rightarrow> string \<Rightarrow> string \<Rightarrow> bool" where
  "user_can chk u object action =
     (case chk of
        None \<Rightarrow> False
      | Some f \<Rightarrow> (case f (extract_user_role u guest_role) object action of (ok, None) \<Rightarrow> ok | (ok, Some e) \<Rightarrow> False))"

section \<open>Menu items\<close>

datatype menu_item = Menu_item
  (mi_label: string) (mi_route: string) (mi_url: string) (mi_object: string) (mi_action: string)
  (mi_children: "menu_item list") (mi_icon: string) (mi_active: bool) (mi_hide: bool)
  (mi_target: string) (mi_badge: string) (mi_badge_class: string)

record menu_env =
  me_path :: string
  me_user :: web_user
  me_can :: "can_checker option"
  me_routes :: templates
  me_sprint :: "gval \<Rightarrow> string"

definition item_url :: "menu_env \<Rightarrow> menu_item \<Rightarrow> string" where
  "item_url E it =
     (if mi_route it \<noteq> [] then
        (case reverse_url (me_sprint E) (me_routes E) (mi_route it) [] of
           Inr u \<Rightarrow> if u \<noteq> [] then u else mi_url it
         | Inl e \<Rightarrow> mi_url it)
      else mi_url it)"

definition normalize_path :: "string \<Rightarrow> string" where
  "normalize_path p =
     (if p = [] then ''/''
      else if p \<noteq> ''/'' \<and> has_suffix ''/'' p then
        (let q = rev (dropWhile (\<lambda>c. c = CHR ''/'') (rev p)) in if q = [] then ''/'' else q)
      else p)"

definition has_segment_prefix :: "string \<Rightarrow> string \<Rightarrow> bool" where
  "has_segment_prefix path base \<longleftrightarrow>
     has_prefix base path \<and> (length path = length base \<or> path ! length base = CHR ''/'')"

definition is_active :: "string \<Rightarrow> string \<Rightarrow> bool" where
  "is_active path url =
     (if url = [] then False
      else
        (let cp = normalize_path path; iu = normalize_path url in
         cp = iu \<or> (iu \<noteq> ''/'' \<and> has_segment_prefix cp iu)))"

definition allowed_self :: "menu_env \<Rightarrow> menu_item \<Rightarrow> bool" where
  "allowed_self E it =
     (if mi_object it \<noteq> [] \<or> mi_action it \<noteq> [] then user_can (me_can E) (me_user E) (mi_object it) (mi_action it) else True)"

text \<open>One item of the loop, its children already built.\<close>

definition menu_entry :: "menu_env \<Rightarrow> menu_item \<Rightarrow> menu_item list \<Rightarrow> menu_item option" where
  "menu_entry E it kids =
     (let ok = allowed_self E it;
          url = item_url E it;
          include = (if mi_hide it then kids \<noteq> [] else ok);
          url1 = (if mi_hide it \<and> kids \<noteq> [] \<and> \<not> ok then [] else url) in
      if \<not> include then None
      else Some (Menu_item (mi_label it) (mi_route it) url1 (mi_object it) (mi_action it) kids (mi_icon it)
             (is_active (me_path E) url1 \<or> (\<exists>k\<in>set kids. mi_active k)) (mi_hide it) (mi_target it) (mi_badge it) (mi_badge_class it)))"

function build_menu :: "menu_env \<Rightarrow> menu_item list \<Rightarrow> menu_item list" where
  "build_menu E [] = []"
| "build_menu E (it # its) =
     (case menu_entry E it (if mi_children it \<noteq> [] then build_menu E (mi_children it) else []) of
        Some x \<Rightarrow> x # build_menu E its
      | None \<Rightarrow> build_menu E its)"
  by pat_completeness auto
termination
proof (relation "measure (\<lambda>(E, its). size_list size its)")
  show "((E, mi_children it), E, it # its) \<in> measure (\<lambda>(E, its). size_list size its)" for E it its
    by (cases it) simp
qed auto

section \<open>Records and trees\<close>

record menu_record =
  mr_id :: int
  mr_parent :: int
  mr_position :: int
  mr_label :: string
  mr_route :: string
  mr_url :: string
  mr_object :: string
  mr_action :: string
  mr_icon :: string
  mr_badge :: string
  mr_hide :: bool

datatype menu_error =
    Invalid_menu_id int
  | Duplicate_menu_id int
  | Unknown_parent int int
  | Cycle_under int
  | Cycle_count nat nat
  | Store_failed string

fun check_ids :: "menu_record list \<Rightarrow> int list \<Rightarrow> menu_error option" where
  "check_ids [] seen = None"
| "check_ids (r # rs) seen =
     (if mr_id r \<le> 0 then Some (Invalid_menu_id (mr_id r))
      else if mr_id r \<in> set seen then Some (Duplicate_menu_id (mr_id r))
      else check_ids rs (mr_id r # seen))"

fun check_parents :: "int list \<Rightarrow> menu_record list \<Rightarrow> menu_error option" where
  "check_parents ids [] = None"
| "check_parents ids (r # rs) =
     (if mr_parent r \<noteq> 0 \<and> mr_parent r \<notin> set ids then Some (Unknown_parent (mr_id r) (mr_parent r))
      else check_parents ids rs)"

definition menu_level :: "menu_record list \<Rightarrow> int \<Rightarrow> menu_record list" where
  "menu_level recs p = sort_key (\<lambda>r. (mr_position r, mr_id r)) (filter (\<lambda>r. mr_parent r = p) recs)"

definition item_of :: "menu_record \<Rightarrow> menu_item list \<Rightarrow> menu_item" where
  "item_of r kids =
     Menu_item (mr_label r) (mr_route r) (mr_url r) (mr_object r) (mr_action r) kids (mr_icon r) False (mr_hide r)
       [] (mr_badge r) ''badge''"

text \<open>The loop over one level; \<open>f\<close> builds the children of a record and keeps the set of visited ones.\<close>

fun build_each ::
  "(int \<Rightarrow> int set \<Rightarrow> (menu_error + menu_item list) \<times> int set) \<Rightarrow> menu_record list \<Rightarrow> int set
    \<Rightarrow> (menu_error + menu_item list) \<times> int set" where
  "build_each f [] vis = (Inr [], vis)"
| "build_each f (r # rs) vis =
     (case f (mr_id r) (insert (mr_id r) vis) of
        (Inl e, vis1) \<Rightarrow> (Inl e, vis1)
      | (Inr kids, vis1) \<Rightarrow>
          (case build_each f rs vis1 of
             (Inl e, vis2) \<Rightarrow> (Inl e, vis2)
           | (Inr out, vis2) \<Rightarrow> (Inr (item_of r kids # out), vis2)))"

text \<open>The depth counts down from the number of records: \<open>depth > len(recs)\<close> is \<open>0\<close> here.\<close>

primrec build_level :: "menu_record list \<Rightarrow> nat \<Rightarrow> int \<Rightarrow> int set \<Rightarrow> (menu_error + menu_item list) \<times> int set" where
  "build_level recs 0 p vis = (Inl (Cycle_under p), vis)"
| "build_level recs (Suc n) p vis = build_each (build_level recs n) (menu_level recs p) vis"

definition build_tree :: "menu_record list \<Rightarrow> menu_error + menu_item list" where
  "build_tree recs =
     (case check_ids recs [] of
        Some e \<Rightarrow> Inl e
      | None \<Rightarrow>
          (case check_parents (map mr_id recs) recs of
             Some e \<Rightarrow> Inl e
           | None \<Rightarrow>
               (case build_level recs (Suc (length recs)) 0 {} of
                  (Inl e, vis) \<Rightarrow> Inl e
                | (Inr items, vis) \<Rightarrow>
                    if card vis \<noteq> length recs then Inl (Cycle_count (card vis) (length recs)) else Inr items)))"

function flatten_menu :: "nat \<Rightarrow> menu_item list \<Rightarrow> (nat \<times> menu_item) list" where
  "flatten_menu d [] = []"
| "flatten_menu d (it # its) = (d, it) # flatten_menu (Suc d) (mi_children it) @ flatten_menu d its"
  by pat_completeness auto
termination
proof (relation "measure (\<lambda>(d, its). size_list size its)")
  show "((Suc d, mi_children it), d, it # its) \<in> measure (\<lambda>(d, its). size_list size its)" for d it its
    by (cases it) simp
qed auto


section \<open>The loader\<close>

record menu_loader =
  ml_ttl :: int
  ml_items :: "menu_item list option" \<comment> \<open>\<open>None\<close> is the nil slice\<close>
  ml_loaded_at :: int

definition new_menu_loader :: "int \<Rightarrow> menu_loader" where
  "new_menu_loader ttl = \<lparr>ml_ttl = ttl, ml_items = None, ml_loaded_at = 0\<rparr>"

text \<open>\<open>Reload\<close>, with what the store answers and the time after it.\<close>

definition reload_menu :: "string + menu_record list \<Rightarrow> int \<Rightarrow> menu_loader \<Rightarrow> menu_error option \<times> menu_loader" where
  "reload_menu answer now l =
     (case answer of
        Inl e \<Rightarrow> (Some (Store_failed e), l)
      | Inr recs \<Rightarrow>
          (case build_tree recs of
             Inl e \<Rightarrow> (Some e, l)
           | Inr items \<Rightarrow> (None, l\<lparr>ml_items := Some items, ml_loaded_at := now\<rparr>)))"

text \<open>\<open>Items\<close>, with the time it starts.\<close>

definition loader_items ::
  "int \<Rightarrow> string + menu_record list \<Rightarrow> int \<Rightarrow> menu_loader \<Rightarrow> menu_item list option \<times> menu_loader" where
  "loader_items start answer now l =
     (if ml_items l \<noteq> None \<and> (ml_ttl l \<le> 0 \<or> start - ml_loaded_at l < ml_ttl l) then (ml_items l, l)
      else
        (case reload_menu answer now l of
           (Some e, l1) \<Rightarrow> (ml_items l, l1)
         | (None, l1) \<Rightarrow> (ml_items l1, l1)))"

definition menu_for ::
  "menu_env \<Rightarrow> int \<Rightarrow> string + menu_record list \<Rightarrow> int \<Rightarrow> menu_loader \<Rightarrow> menu_item list \<times> menu_loader" where
  "menu_for E start answer now l =
     (case loader_items start answer now l of
        (items, l1) \<Rightarrow> (build_menu E (case items of None \<Rightarrow> [] | Some its \<Rightarrow> its), l1))"

text \<open>The store in memory: a copy of its records, or the error of the context.\<close>

definition menu_records :: "string option \<Rightarrow> menu_record list \<Rightarrow> string + menu_record list" where
  "menu_records ctx_err recs = (case ctx_err of Some e \<Rightarrow> Inl e | None \<Rightarrow> Inr recs)"

section \<open>The tree of the records\<close>

text \<open>The items below a level, and the records they were made of, in the order of \<open>Flatten\<close>.\<close>

inductive forest :: "menu_record list \<Rightarrow> menu_record list \<Rightarrow> menu_item list \<Rightarrow> menu_record list \<Rightarrow> bool" for recs where
  forest_Nil: "forest recs [] [] []"
| forest_Cons: "forest recs (menu_level recs (mr_id r)) kids ks \<Longrightarrow> forest recs rs its os \<Longrightarrow>
    forest recs (r # rs) (item_of r kids # its) (r # ks @ os)"

definition without_kids :: "menu_item \<Rightarrow> menu_item" where
  "without_kids it =
     Menu_item (mi_label it) (mi_route it) (mi_url it) (mi_object it) (mi_action it) [] (mi_icon it) (mi_active it)
       (mi_hide it) (mi_target it) (mi_badge it) (mi_badge_class it)"

lemma menu_level_set [simp]: "set (menu_level recs p) = {r \<in> set recs. mr_parent r = p}"
  by (simp add: menu_level_def)

lemma menu_level_sorted: "sorted (map (\<lambda>r. (mr_position r, mr_id r)) (menu_level recs p))"
  by (simp add: menu_level_def)

lemma menu_level_mset: "mset (menu_level recs p) = mset (filter (\<lambda>r. mr_parent r = p) recs)"
  by (simp add: menu_level_def)

lemma build_each_forest:
  assumes "\<And>q v kids v'. f q v = (Inr kids, v') \<Longrightarrow> \<exists>ks. forest recs (menu_level recs q) kids ks \<and> v' = v \<union> mr_id ` set ks"
  shows "build_each f rs vis = (Inr items, vis') \<Longrightarrow> \<exists>os. forest recs rs items os \<and> vis' = vis \<union> mr_id ` set os"
proof (induction rs arbitrary: vis items)
  case Nil
  then show ?case using forest_Nil by fastforce
next
  case (Cons r rs)
  obtain kids v1 where k: "f (mr_id r) (insert (mr_id r) vis) = (Inr kids, v1)"
    using Cons(2) by (auto split: prod.splits sum.splits)
  obtain its where i: "build_each f rs v1 = (Inr its, vis')" "items = item_of r kids # its"
    using Cons(2) k by (auto split: prod.splits sum.splits)
  from assms [OF k] obtain ks where ks: "forest recs (menu_level recs (mr_id r)) kids ks"
    "v1 = insert (mr_id r) vis \<union> mr_id ` set ks" by blast
  from Cons(1) [OF i(1)] obtain os where os: "forest recs rs its os" "vis' = v1 \<union> mr_id ` set os" by blast
  show ?case using forest_Cons [OF ks(1) os(1)] i(2) ks(2) os(2) by (intro exI [of _ "r # ks @ os"]) auto
qed

lemma build_level_forest:
  "build_level recs n p vis = (Inr items, vis') \<Longrightarrow>
    \<exists>os. forest recs (menu_level recs p) items os \<and> vis' = vis \<union> mr_id ` set os"
proof (induction n arbitrary: p vis items vis')
  case (Suc n)
  show ?case by (rule build_each_forest [OF _ Suc(2) [unfolded build_level.simps]]) (rule Suc(1))
qed simp

lemma forest_flatten:
  "forest recs rs items os \<Longrightarrow> map (\<lambda>(d, it). without_kids it) (flatten_menu d items) = map (\<lambda>r. item_of r []) os"
proof (induction arbitrary: d rule: forest.induct)
  case (forest_Cons r kids ks rs its os)
  have "without_kids (item_of r kids) = item_of r []" "mi_children (item_of r kids) = kids"
    by (simp_all add: without_kids_def item_of_def)
  with forest_Cons(3,4) show ?case by simp
qed simp

lemma forest_records: "forest recs rs items os \<Longrightarrow> set rs \<subseteq> set recs \<Longrightarrow> set os \<subseteq> set recs"
proof (induction rule: forest.induct)
  case (forest_Cons r kids ks rs its os)
  have "set (menu_level recs (mr_id r)) \<subseteq> set recs" by auto
  with forest_Cons(3-5) show ?case by simp
qed simp

lemma forest_closed:
  "forest recs rs items os \<Longrightarrow> set rs \<subseteq> set os \<and> (\<forall>x\<in>set os. \<forall>y\<in>set recs. mr_parent y = mr_id x \<longrightarrow> y \<in> set os)"
proof (induction rule: forest.induct)
  case (forest_Cons r kids ks rs its os)
  then show ?case by (auto simp: subset_iff)
qed simp


text \<open>Going up from a record to its parent; the top has the identifier 0, which no record has.\<close>

definition parent_of :: "menu_record list \<Rightarrow> int \<Rightarrow> int" where
  "parent_of recs i = (case find (\<lambda>r. mr_id r = i) recs of Some r \<Rightarrow> mr_parent r | None \<Rightarrow> 0)"

definition ids_ok :: "menu_record list \<Rightarrow> bool" where
  "ids_ok recs \<longleftrightarrow> distinct (map mr_id recs) \<and> (\<forall>r\<in>set recs. 0 < mr_id r)"

inductive rooted :: "menu_record list \<Rightarrow> int \<Rightarrow> bool" for recs where
  rooted_top: "rooted recs 0"
| rooted_record: "r \<in> set recs \<Longrightarrow> rooted recs (mr_parent r) \<Longrightarrow> rooted recs (mr_id r)"

text \<open>What makes records a menu: good identifiers, and every record below the top.\<close>

definition menu_ok :: "menu_record list \<Rightarrow> bool" where
  "menu_ok recs \<longleftrightarrow> ids_ok recs \<and> (\<forall>r\<in>set recs. rooted recs (mr_id r))"

lemma parent_of_record: "ids_ok recs \<Longrightarrow> r \<in> set recs \<Longrightarrow> parent_of recs (mr_id r) = mr_parent r"
proof -
  assume ok: "ids_ok recs" and r: "r \<in> set recs"
  then obtain s where s: "find (\<lambda>s. mr_id s = mr_id r) recs = Some s"
    by (cases "find (\<lambda>s. mr_id s = mr_id r) recs") (auto simp: find_None_iff)
  then have "s \<in> set recs" "mr_id s = mr_id r" by (auto simp: find_Some_iff)
  then have "s = r" using ok r by (auto simp: ids_ok_def distinct_map inj_on_def)
  with s show ?thesis by (simp add: parent_of_def)
qed

lemma parent_of_zero: "ids_ok recs \<Longrightarrow> parent_of recs 0 = 0"
proof -
  assume "ids_ok recs"
  then have "find (\<lambda>r. mr_id r = 0) recs = None" by (auto simp: ids_ok_def find_None_iff)
  then show ?thesis by (simp add: parent_of_def)
qed

lemma parent_of_zeros: "ids_ok recs \<Longrightarrow> (parent_of recs ^^ k) 0 = 0"
  by (induction k) (simp_all add: parent_of_zero)

lemma no_cycle:
  assumes "ids_ok recs" "(parent_of recs ^^ k) p = 0" "(parent_of recs ^^ m) p = p" "0 < m"
  shows "p = 0"
proof -
  have "(parent_of recs ^^ (j * m)) p = p" for j by (induction j) (simp_all add: assms(3) funpow_add)
  from this [of k] have "p = (parent_of recs ^^ ((k * m - k) + k)) p" using assms(4) by (cases m) (simp_all add: add.commute)
  then show ?thesis using assms(1,2) by (simp only: funpow_add comp_apply parent_of_zeros)
qed

lemma siblings_le:
  assumes ok: "ids_ok recs" and p: "(parent_of recs ^^ k) p = 0" "parent_of recs a = p" "parent_of recs b = p" "b \<noteq> 0"
    and x: "(parent_of recs ^^ i) x = a" "(parent_of recs ^^ j) x = b" "i \<le> j"
  shows "a = b"
proof (cases "i = j")
  case False
  then obtain d where d: "j = Suc d + i" using x(3) less_imp_Suc_add [of i j] by auto
  then have b: "(parent_of recs ^^ d) p = b" using x p(2) by (auto simp: funpow_add funpow_swap1)
  then have "(parent_of recs ^^ Suc d) p = p" using p(3) by simp
  with no_cycle [OF ok p(1)] have "p = 0" by blast
  with b p(4) parent_of_zeros [OF ok] show ?thesis by simp
qed (use x in simp)

lemma siblings:
  assumes "ids_ok recs" "(parent_of recs ^^ k) p = 0" "parent_of recs a = p" "parent_of recs b = p" "a \<noteq> 0" "b \<noteq> 0"
    "(parent_of recs ^^ i) x = a" "(parent_of recs ^^ j) x = b"
  shows "a = b"
  using siblings_le [OF assms(1-4,6-8)] siblings_le [OF assms(1,2,4,3,5,8,7)] by (cases "i \<le> j") auto

lemma forest_up:
  "forest recs rs items os \<Longrightarrow> ids_ok recs \<Longrightarrow> x \<in> set os \<Longrightarrow> \<exists>j. \<exists>r\<in>set rs. (parent_of recs ^^ j) (mr_id x) = mr_id r"
proof (induction arbitrary: rule: forest.induct)
  case (forest_Cons r kids ks rs its os)
  consider "x = r" | "x \<in> set ks" | "x \<in> set os" using forest_Cons(6) by auto
  then show ?case
  proof cases
    case 1
    then show ?thesis by (intro exI [of _ 0]) simp
  next
    case 2
    with forest_Cons(3,5) obtain j s where s: "s \<in> set recs" "mr_parent s = mr_id r" "(parent_of recs ^^ j) (mr_id x) = mr_id s"
      by auto
    then have "(parent_of recs ^^ Suc j) (mr_id x) = mr_id r" using parent_of_record [OF forest_Cons(5)] by simp
    then show ?thesis by (intro exI [of _ "Suc j"]) simp
  next
    case 3
    with forest_Cons(4,5) show ?thesis by auto
  qed
qed simp

lemma forest_distinct:
  assumes "forest recs rs items os" "ids_ok recs" "distinct rs" "set rs \<subseteq> set (menu_level recs p)" "(parent_of recs ^^ k) p = 0"
  shows "distinct os"
  using assms
proof (induction arbitrary: p k rule: forest.induct)
  case (forest_Cons r kids ks rs its os)
  note ok = forest_Cons(5)
  have r: "r \<in> set recs" "mr_parent r = p" "mr_id r \<noteq> 0" using forest_Cons(7) ok by (auto simp: ids_ok_def)
  have root: "(parent_of recs ^^ Suc k) (mr_id r) = 0" using parent_of_record [OF ok r(1)] r(2) forest_Cons(8) by (simp add: funpow_swap1)
  have "distinct recs" using ok by (simp add: ids_ok_def distinct_map)
  then have "distinct (menu_level recs (mr_id r))" by (simp add: menu_level_def)
  then have ks: "distinct ks" using forest_Cons(3) [OF ok _ subset_refl root] by simp
  have os: "distinct os" using forest_Cons(4) [OF ok _ _ forest_Cons(8)] forest_Cons(6,7) by simp
  have below: "\<exists>j. (parent_of recs ^^ Suc j) (mr_id x) = mr_id r" if x: "x \<in> set ks" for x
  proof -
    from forest_up [OF forest_Cons(1) ok x] obtain j s where s: "s \<in> set recs" "mr_parent s = mr_id r"
      "(parent_of recs ^^ j) (mr_id x) = mr_id s" by auto
    then show ?thesis using parent_of_record [OF ok] by (intro exI [of _ j]) simp
  qed
  have other: False if x: "(parent_of recs ^^ i) (mr_id x) = mr_id r" "x \<in> set os" for x i
  proof -
    from forest_up [OF forest_Cons(2) ok x(2)] obtain j s where s: "s \<in> set rs" "(parent_of recs ^^ j) (mr_id x) = mr_id s" by blast
    then have s': "s \<in> set recs" "mr_parent s = p" using forest_Cons(7) by auto
    then have "mr_id s \<noteq> 0" using ok by (auto simp: ids_ok_def)
    note s' = s' this
    have "mr_id r = mr_id s"
      using siblings [OF ok forest_Cons(8) _ _ r(3) s'(3) x(1) s(2)] parent_of_record [OF ok] r s' by simp
    then have "r = s" using ok r(1) s'(1) by (auto simp: ids_ok_def distinct_map inj_on_def)
    with s(1) forest_Cons(6) show False by simp
  qed
  have "r \<notin> set ks" using below [of r] no_cycle [OF ok root, of "Suc _"] r(3) by auto
  moreover have "r \<notin> set os" using other [of 0 r] by auto
  moreover have "set ks \<inter> set os = {}" using below other by blast
  ultimately show ?case using ks os by simp
qed simp


text \<open>The depth never passes the number of records: the records above \<open>p\<close> are distinct.\<close>

lemma build_each_total:
  "(\<And>r v. r \<in> set rs \<Longrightarrow> \<exists>its v'. f (mr_id r) v = (Inr its, v')) \<Longrightarrow> \<exists>items v'. build_each f rs vis = (Inr items, v')"
proof (induction rs arbitrary: vis)
  case (Cons r rs)
  obtain kids v1 where "f (mr_id r) (insert (mr_id r) vis) = (Inr kids, v1)" using Cons(2) by fastforce
  moreover obtain items v2 where "build_each f rs v1 = (Inr items, v2)" using Cons by fastforce
  ultimately show ?case by simp
qed simp

lemma build_level_total:
  assumes "ids_ok recs" "(parent_of recs ^^ k) p = 0" "distinct anc" "set anc \<subseteq> mr_id ` set recs"
    "\<forall>a\<in>set anc. \<exists>j. (parent_of recs ^^ j) p = a" "length anc + n = Suc (length recs)"
  shows "\<exists>items v'. build_level recs n p vis = (Inr items, v')"
  using assms
proof (induction n arbitrary: p k anc vis)
  case 0
  have "length anc \<le> card (mr_id ` set recs)" using 0(3,4) by (metis card_mono distinct_card finite_imageI finite_set)
  also have "\<dots> \<le> length recs" by (metis card_image_le card_length finite_set le_trans)
  finally show ?case using 0(6) by simp
next
  case (Suc n)
  note ok = Suc(2)
  have "\<exists>its v'. build_level recs n (mr_id r) v = (Inr its, v')" if "r \<in> set (menu_level recs p)" for r v
  proof -
    have r: "r \<in> set recs" "mr_parent r = p" "mr_id r \<noteq> 0" using that ok by (auto simp: ids_ok_def)
    have u: "(parent_of recs ^^ Suc j) (mr_id r) = (parent_of recs ^^ j) p" for j
      using parent_of_record [OF ok r(1)] r(2) by (simp add: funpow_swap1)
    have "mr_id r \<notin> set anc"
    proof
      assume "mr_id r \<in> set anc"
      then obtain j where "(parent_of recs ^^ j) p = mr_id r" using Suc(6) by blast
      then have "(parent_of recs ^^ Suc j) (mr_id r) = mr_id r" using u by simp
      moreover have "(parent_of recs ^^ Suc k) (mr_id r) = 0" using u Suc(3) by simp
      ultimately show False using no_cycle [OF ok] r(3) by blast
    qed
    moreover have "\<exists>j. (parent_of recs ^^ j) (mr_id r) = a" if "a \<in> set (mr_id r # anc)" for a
    proof (cases "a = mr_id r")
      case True
      then show ?thesis by (intro exI [of _ 0]) simp
    next
      case False
      then show ?thesis using that Suc(6) u by (metis set_ConsD)
    qed
    ultimately show ?thesis
      using Suc(1) [OF ok, of "Suc k" "mr_id r" "mr_id r # anc" v] u [of k] Suc(3-5,7) r(1) by auto
  qed
  then show ?case unfolding build_level.simps by (rule build_each_total)
qed

lemma check_ids_ok: "check_ids rs seen = None \<longleftrightarrow>
    distinct (map mr_id rs) \<and> (\<forall>r\<in>set rs. 0 < mr_id r \<and> mr_id r \<notin> set seen)"
  by (induction rs arbitrary: seen) (auto, metis imageI)

lemma check_parents_ok: "check_parents ids rs = None \<longleftrightarrow> (\<forall>r\<in>set rs. mr_parent r = 0 \<or> mr_parent r \<in> set ids)"
  by (induction rs) auto

lemma rooted_cases: "rooted recs i \<Longrightarrow> i = 0 \<or> i \<in> mr_id ` set recs"
  by (cases rule: rooted.cases) auto

lemma menu_ok_parents: "menu_ok recs \<Longrightarrow> check_parents (map mr_id recs) recs = None"
proof -
  assume ok: "menu_ok recs"
  have "rooted recs (mr_parent r)" if r: "r \<in> set recs" for r
  proof -
    have "rooted recs (mr_id r)" "mr_id r \<noteq> 0" using ok r by (auto simp: menu_ok_def ids_ok_def)
    then obtain s where "s \<in> set recs" "mr_id s = mr_id r" "rooted recs (mr_parent s)"
      by (cases rule: rooted.cases) auto
    then show ?thesis using ok r by (auto simp: menu_ok_def ids_ok_def distinct_map inj_on_def)
  qed
  then show ?thesis using rooted_cases by (auto simp: check_parents_ok)
qed

lemma forest_rooted:
  "forest recs rs items os \<Longrightarrow> \<forall>r\<in>set rs. r \<in> set recs \<and> rooted recs (mr_parent r) \<Longrightarrow> \<forall>x\<in>set os. rooted recs (mr_id x)"
proof (induction rule: forest.induct)
  case (forest_Cons r kids ks rs its os)
  then have "rooted recs (mr_id r)" by (auto intro: rooted_record)
  with forest_Cons(3-5) show ?case by auto
qed simp

lemma rooted_visited:
  assumes "forest recs (menu_level recs 0) items os"
  shows "rooted recs i \<Longrightarrow> i = 0 \<or> i \<in> mr_id ` set os"
proof (induction rule: rooted.induct)
  case (rooted_record r)
  then show ?case using forest_closed [OF assms] by fastforce
qed simp

lemma forest_all:
  assumes f: "forest recs (menu_level recs 0) items os" and ok: "ids_ok recs" and os: "set os \<subseteq> set recs"
  shows "set os = set recs \<longleftrightarrow> menu_ok recs"
proof
  assume "set os = set recs"
  moreover have "\<forall>x\<in>set os. rooted recs (mr_id x)" by (rule forest_rooted [OF f]) (auto intro: rooted_top)
  ultimately show "menu_ok recs" using ok by (simp add: menu_ok_def)
next
  assume m: "menu_ok recs"
  have "r \<in> set os" if r: "r \<in> set recs" for r
  proof -
    have "mr_id r \<in> mr_id ` set os" using rooted_visited [OF f, of "mr_id r"] m r by (auto simp: menu_ok_def ids_ok_def)
    then show ?thesis using ok r os by (auto simp: ids_ok_def distinct_map dest: inj_onD)
  qed
  with os show "set os = set recs" by blast
qed

text \<open>(C31) \<open>BuildTree\<close> succeeds exactly for a menu, and then its tree holds exactly the records: the children of an
  item are the records with its identifier as parent, ordered by position and identifier, at every level
  (\<open>forest\<close>), and \<open>Flatten\<close> lists every record once, with its fields.\<close>

theorem build_tree_spec:
  "case build_tree recs of
     Inl e \<Rightarrow> \<not> menu_ok recs
   | Inr items \<Rightarrow> menu_ok recs
       \<and> (\<exists>os. forest recs (menu_level recs 0) items os \<and> mset os = mset recs
            \<and> map (\<lambda>(d, it). without_kids it) (flatten_menu 0 items) = map (\<lambda>r. item_of r []) os)"
proof (cases "ids_ok recs \<and> check_parents (map mr_id recs) recs = None")
  case False
  then have "check_ids recs [] \<noteq> None \<or> check_parents (map mr_id recs) recs \<noteq> None" by (auto simp: check_ids_ok ids_ok_def)
  then have "\<exists>e. build_tree recs = Inl e" by (auto simp: build_tree_def split: option.splits)
  moreover have "\<not> menu_ok recs" using False menu_ok_parents [of recs] unfolding menu_ok_def by blast
  ultimately show ?thesis by auto
next
  case True
  then have ok: "ids_ok recs" and "check_ids recs [] = None" by (auto simp: ids_ok_def check_ids_ok)
  obtain items vis where b: "build_level recs (Suc (length recs)) 0 {} = (Inr items, vis)"
    using build_level_total [OF ok, of 0 0 "[]" "Suc (length recs)" "{}"] by auto
  from build_level_forest [OF b] obtain os where f: "forest recs (menu_level recs 0) items os" "vis = mr_id ` set os" by auto
  have recs: "distinct recs" "inj_on mr_id (set recs)" using ok by (simp_all add: ids_ok_def distinct_map)
  have os: "distinct os" "set os \<subseteq> set recs"
    using forest_distinct [OF f(1) ok, of 0 0] forest_records [OF f(1)] recs(1) by (auto simp: menu_level_def)
  have "card vis = card (set os)" using f(2) os(2) recs(2) by (auto intro: card_image inj_on_subset)
  then have "card vis = length recs \<longleftrightarrow> set os = set recs"
    using distinct_card [OF recs(1)] card_subset_eq [OF finite_set os(2)] by metis
  moreover have "set os = set recs \<longleftrightarrow> menu_ok recs" by (rule forest_all [OF f(1) ok os(2)])
  moreover have "mset os = mset recs" if "set os = set recs" using that os(1) recs(1) by (simp add: set_eq_iff_mset_eq_distinct)
  ultimately have "card vis = length recs \<longleftrightarrow> menu_ok recs" "menu_ok recs \<Longrightarrow> mset os = mset recs" by blast+
  moreover have "build_tree recs = (if card vis \<noteq> length recs then Inl (Cycle_count (card vis) (length recs)) else Inr items)"
    using b True \<open>check_ids recs [] = None\<close> by (simp add: build_tree_def del: build_level.simps)
  ultimately show ?thesis using f(1) forest_flatten [OF f(1), of 0] by (cases "menu_ok recs") (simp, blast, simp)
qed


section \<open>What a menu shows\<close>

text \<open>An item of the built menu comes from an item of the definition, at the same depth.\<close>

definition shown_as :: "menu_env \<Rightarrow> menu_item \<Rightarrow> menu_item \<Rightarrow> bool" where
  "shown_as E it x \<longleftrightarrow>
     mi_label x = mi_label it \<and> mi_object x = mi_object it \<and> mi_action x = mi_action it \<and> mi_hide x = mi_hide it
   \<and> (allowed_self E it \<or> (mi_hide it \<and> mi_url x = [] \<and> mi_children x \<noteq> []))
   \<and> (mi_active x \<longleftrightarrow> is_active (me_path E) (mi_url x) \<or> (\<exists>k\<in>set (mi_children x). mi_active k))"

lemma menu_entry_shown: "menu_entry E it kids = Some x \<Longrightarrow> shown_as E it x \<and> mi_children x = kids"
  by (auto simp: menu_entry_def shown_as_def Let_def split: if_splits)

lemma build_menu_shown:
  "(d, x) \<in> set (flatten_menu n (build_menu E items)) \<Longrightarrow> \<exists>it. (d, it) \<in> set (flatten_menu n items) \<and> shown_as E it x"
proof (induction E items arbitrary: n rule: build_menu.induct)
  case (2 E it its)
  let ?kids = "if mi_children it \<noteq> [] then build_menu E (mi_children it) else []"
  show ?case
  proof (cases "menu_entry E it ?kids")
    case None
    with 2(4) have "(d, x) \<in> set (flatten_menu n (build_menu E its))" by simp
    with "2.IH"(2) [OF None] show ?thesis by auto
  next
    case (Some y)
    note y = menu_entry_shown [OF Some]
    from 2(4) Some y consider "d = n" "x = y" | "(d, x) \<in> set (flatten_menu (Suc n) ?kids)"
      | "(d, x) \<in> set (flatten_menu n (build_menu E its))" by auto
    then show ?thesis
    proof cases
      case 1
      with y show ?thesis by auto
    next
      case 2
      with "2.IH"(1) show ?thesis by (auto split: if_splits)
    next
      case 3
      with "2.IH"(3) [OF Some] show ?thesis by auto
    qed
  qed
qed simp


text \<open>A history of the loader: reloads and requests, each with the times and the store's answer.\<close>

datatype loader_call = Call_reload int "string + menu_record list" | Call_items int int "string + menu_record list"

fun loader_step :: "loader_call \<Rightarrow> menu_loader \<Rightarrow> menu_loader" where
  "loader_step (Call_reload now a) l = snd (reload_menu a now l)"
| "loader_step (Call_items start now a) l = snd (loader_items start a now l)"

fun call_answer :: "loader_call \<Rightarrow> string + menu_record list" where
  "call_answer (Call_reload now a) = a"
| "call_answer (Call_items start now a) = a"

definition answers_ok :: "(string + menu_record list) set \<Rightarrow> menu_item list option \<Rightarrow> bool" where
  "answers_ok A items \<longleftrightarrow> (\<forall>its. items = Some its \<longrightarrow> (\<exists>recs. Inr recs \<in> A \<and> build_tree recs = Inr its))"

lemma reload_answers:
  "answers_ok A (ml_items l) \<Longrightarrow> answers_ok (insert a A) (ml_items (snd (reload_menu a now l)))"
  by (auto simp: answers_ok_def reload_menu_def split: sum.splits)

lemma items_answers:
  "answers_ok A (ml_items l) \<Longrightarrow> loader_items start a now l = (r, l') \<Longrightarrow>
    answers_ok (insert a A) r \<and> answers_ok (insert a A) (ml_items l')"
  using reload_answers [of A l a now]
  by (auto simp: loader_items_def answers_ok_def split: if_splits prod.splits option.splits)

lemma run_answers:
  "answers_ok A (ml_items l) \<Longrightarrow> answers_ok (A \<union> call_answer ` set calls) (ml_items (fold loader_step calls l))"
proof (induction calls arbitrary: A l)
  case (Cons c calls)
  have "answers_ok (insert (call_answer c) A) (ml_items (loader_step c l))"
    using reload_answers [OF Cons(2)] items_answers [OF Cons(2)] by (cases c) (auto simp: prod_eq_iff)
  from Cons(1) [OF this] show ?case by simp
qed simp

lemma tree_record:
  assumes "build_tree recs = Inr items" "(d, it) \<in> set (flatten_menu 0 items)"
  shows "\<exists>r\<in>set recs. without_kids it = item_of r []"
proof -
  from build_tree_spec [of recs] assms(1) obtain os where os: "mset os = mset recs"
    "map (\<lambda>(d, it). without_kids it) (flatten_menu 0 items) = map (\<lambda>r. item_of r []) os" by auto
  have "without_kids it \<in> set (map (\<lambda>(d, it). without_kids it) (flatten_menu 0 items))" using assms(2) by force
  then have "without_kids it \<in> (\<lambda>r. item_of r []) ` set os" by (simp add: os(2))
  with os(1) show ?thesis by (auto dest: mset_eq_setD)
qed

text \<open>(C32) A menu shows nothing the user may not see: whatever reloads and requests came before, each with any answer
  of the store, an item that a request gets stems from a record of one of the store's answers, and the checker
  allows the user's role that record, unless the record names no permission, or is a heading that shows because of
  an item below it and then has no link.\<close>

theorem menu_shows_permitted:
  assumes "menu_for E start answer now (fold loader_step calls (new_menu_loader ttl)) = (items, l)"
    and "(d, x) \<in> set (flatten_menu 0 items)"
  shows "\<exists>recs r. Inr recs \<in> insert answer (call_answer ` set calls) \<and> r \<in> set recs \<and> mi_label x = mr_label r
    \<and> (user_can (me_can E) (me_user E) (mr_object r) (mr_action r) \<or> mr_object r = [] \<and> mr_action r = []
       \<or> mr_hide r \<and> mi_url x = [] \<and> mi_children x \<noteq> [])"
proof -
  let ?l = "fold loader_step calls (new_menu_loader ttl)"
  have start: "answers_ok ({} \<union> call_answer ` set calls) (ml_items ?l)"
    by (rule run_answers) (simp add: answers_ok_def new_menu_loader_def)
  obtain its l1 where i: "loader_items start answer now ?l = (its, l1)" by fastforce
  with assms have x: "(d, x) \<in> set (flatten_menu 0 (build_menu E (case its of None \<Rightarrow> [] | Some its \<Rightarrow> its)))"
    by (simp add: menu_for_def)
  then obtain tree where t: "its = Some tree" by (cases its) auto
  from items_answers [OF start i] t obtain recs where
    recs: "Inr recs \<in> insert answer (call_answer ` set calls)" "build_tree recs = Inr tree"
    by (auto simp: answers_ok_def)
  from build_menu_shown [OF x] t obtain it where it: "(d, it) \<in> set (flatten_menu 0 tree)" "shown_as E it x" by auto
  from tree_record [OF recs(2) it(1)] obtain r where r: "r \<in> set recs" "without_kids it = item_of r []" by blast
  then have "mi_label it = mr_label r" "mi_object it = mr_object r" "mi_action it = mr_action r" "mi_hide it = mr_hide r"
    by (auto simp: without_kids_def item_of_def)
  with it(2) recs(1) r(1) show ?thesis by (fastforce simp: shown_as_def allowed_self_def split: if_splits)
qed


definition demo_record :: "int \<Rightarrow> int \<Rightarrow> string \<Rightarrow> string \<Rightarrow> menu_record" where
  "demo_record i p name object =
     \<lparr>mr_id = i, mr_parent = p, mr_position = i, mr_label = name, mr_route = [], mr_url = object, mr_object = object,
      mr_action = (if object = [] then [] else ''GET''), mr_icon = [], mr_badge = [], mr_hide = (object = [])\<rparr>"

definition demo_records :: "menu_record list" where
  "demo_records = [demo_record 5 0 ''admin'' ''/admin'', demo_record 4 3 ''form'' ''/forms'', demo_record 3 0 ''demos'' []]"

definition demo_menu_env :: menu_env where
  "demo_menu_env =
     \<lparr>me_path = ''/forms/1'', me_user = No_user, me_can = Some (\<lambda>sub obj act. (obj \<noteq> ''/admin'', None)), me_routes = Map.empty,
      me_sprint = (\<lambda>v. [])\<rparr>"

lemma demo_menu_shown:
  "map (\<lambda>(d, x). (d, mi_label x, mi_active x)) (flatten_menu 0 (fst (menu_for demo_menu_env 0 (Inr demo_records) 0 (new_menu_loader 60)))) =
    [(0, ''demos'', True), (1, ''form'', True)]"
  by code_simp

lemma menu_shows_permitted_witness:
  "\<exists>items l x recs (r :: menu_record). menu_for demo_menu_env 0 (Inr demo_records) 0 (fold loader_step [] (new_menu_loader 60)) = (items, l)
    \<and> (1, x) \<in> set (flatten_menu 0 items) \<and> mi_label x = ''form'' \<and> r \<in> set recs \<and> mi_label x = mr_label r"
proof -
  obtain items l where m: "menu_for demo_menu_env 0 (Inr demo_records) 0 (fold loader_step [] (new_menu_loader 60)) = (items, l)"
    by fastforce
  then have f: "fst (menu_for demo_menu_env 0 (Inr demo_records) 0 (new_menu_loader 60)) = items" by simp
  note shown = demo_menu_shown [unfolded f]
  have "(1, ''form'', True) \<in> set (map (\<lambda>(d, x). (d, mi_label x, mi_active x)) (flatten_menu 0 items))"
    unfolding shown by simp
  then obtain x where x: "(1, x) \<in> set (flatten_menu 0 items)" "mi_label x = ''form''" by auto
  from menu_shows_permitted [OF m x(1)] obtain recs and r :: menu_record where "r \<in> set recs" "mi_label x = mr_label r"
    by blast
  with m x show ?thesis by (intro exI conjI)
qed

end
