(* ===== verification/Policy.thy ===== *)
theory Policy
  imports Http_Server
begin

text \<open>
  \<open>pkg/policy\<close>: authorisation by a casbin enforcer (\<open>policy.go\<close>, \<open>source.go\<close>).

  The enforcer, its model, the adapters and the files they read are casbin's and the file
  system's: an enforcer is a value of a type of its own, with its operations as parameters. A
  \<open>Manager\<close> is the enforcer with its model loader and the time of the last change; the
  package keeps a default manager and an adapter that waits for \<open>Init\<close>.
\<close>

section \<open>The enforcer\<close>

text \<open>\<open>'e\<close> are enforcers, \<open>'a\<close> adapters, \<open>'m\<close> models; an operation that fails may have changed the enforcer.\<close>

record ('e, 'a, 'm) casbin_lib =
  cb_from_file :: "string \<Rightarrow> gerr + 'e"
  cb_from_files :: "string \<Rightarrow> string \<Rightarrow> gerr + 'e"
  cb_from_adapter :: "string \<Rightarrow> 'a \<Rightarrow> gerr + 'e"
  cb_from_model :: "'m \<Rightarrow> gerr + 'e"
  cb_from_model_adapter :: "'m \<Rightarrow> 'a \<Rightarrow> gerr + 'e"
  cb_add_key_match :: "'e \<Rightarrow> 'e"
  cb_enforce :: "'e \<Rightarrow> gval \<Rightarrow> gval \<Rightarrow> gval \<Rightarrow> bool \<times> gerr option"
  cb_set_adapter :: "'a \<Rightarrow> 'e \<Rightarrow> 'e"
  cb_set_model :: "'m \<Rightarrow> 'e \<Rightarrow> 'e"
  cb_load_model :: "'e \<Rightarrow> gerr option \<times> 'e"
  cb_load_policy :: "'e \<Rightarrow> gerr option \<times> 'e"
  cb_policies :: "'e \<Rightarrow> gerr + string list list"
  cb_add :: "string list \<Rightarrow> 'e \<Rightarrow> (bool \<times> gerr option) \<times> 'e"
  cb_remove :: "string list \<Rightarrow> 'e \<Rightarrow> (bool \<times> gerr option) \<times> 'e"
  cb_parse_model :: "string \<Rightarrow> gerr + 'm"
  cb_text_adapter :: "string \<Rightarrow> 'a"
  cb_fs_adapter :: "string \<Rightarrow> 'a" \<comment> \<open>\<open>fsAdapter\<close> over the files of the program\<close>

text \<open>A model loader reads the files as they are when it is called.\<close>

type_synonym 'm model_loader = "(string \<Rightarrow> gerr + string) \<Rightarrow> gerr + 'm"

record ('e, 'm) manager =
  pm_enforcer :: 'e
  pm_load :: "'m model_loader option"
  pm_last :: int

definition err_not_initialized :: gerr where
  "err_not_initialized = sentinel ''policy: enforcer not initialised''"

text \<open>\<open>util.KeyMatch2\<close> is a parameter; the function checks the number and the types of its arguments.\<close>

definition key_match2 :: "(string \<Rightarrow> string \<Rightarrow> bool) \<Rightarrow> gval list \<Rightarrow> bool" where
  "key_match2 match args = (case args of [VStr a, VStr b] \<Rightarrow> match a b | _ \<Rightarrow> False)"

definition new_manager :: "('e, 'a, 'm) casbin_lib \<Rightarrow> int \<Rightarrow> 'e \<Rightarrow> ('e, 'm) manager" where
  "new_manager CB now e = \<lparr>pm_enforcer = cb_add_key_match CB e, pm_load = None, pm_last = now\<rparr>"

definition policy_new :: "('e, 'a, 'm) casbin_lib \<Rightarrow> int \<Rightarrow> string \<Rightarrow> string \<Rightarrow> gerr + ('e, 'm) manager" where
  "policy_new CB now model_path policy_path =
     res_bind (if policy_path = [] then cb_from_file CB model_path else cb_from_files CB model_path policy_path)
       (\<lambda>e. Inr (new_manager CB now e))"

definition err_nil_adapter :: gerr where
  "err_nil_adapter = err_new ''policy: nil adapter''"

definition new_with_adapter ::
  "('e, 'a, 'm) casbin_lib \<Rightarrow> int \<Rightarrow> string \<Rightarrow> 'a option \<Rightarrow> gerr + ('e, 'm) manager" where
  "new_with_adapter CB now model_path a = (case a of
       None \<Rightarrow> Inl err_nil_adapter
     | Some ad \<Rightarrow> res_bind (cb_from_adapter CB model_path ad) (\<lambda>e. Inr (new_manager CB now e)))"

definition touch :: "int \<Rightarrow> ('e, 'm) manager \<Rightarrow> ('e, 'm) manager" where
  "touch now m = m\<lparr>pm_last := now\<rparr>"

definition manager_enforce :: "('e, 'a, 'm) casbin_lib \<Rightarrow> ('e, 'm) manager \<Rightarrow> gval \<Rightarrow> gval \<Rightarrow> gval \<Rightarrow> bool \<times> gerr option" where
  "manager_enforce CB m sub obj act = cb_enforce CB (pm_enforcer m) sub obj act"

definition manager_set_adapter :: "('e, 'a, 'm) casbin_lib \<Rightarrow> 'a option \<Rightarrow> ('e, 'm) manager \<Rightarrow> gerr option \<times> ('e, 'm) manager" where
  "manager_set_adapter CB a m = (case a of
       None \<Rightarrow> (Some err_nil_adapter, m)
     | Some ad \<Rightarrow> (None, m\<lparr>pm_enforcer := cb_set_adapter CB ad (pm_enforcer m)\<rparr>))"

definition manager_reload ::
  "('e, 'a, 'm) casbin_lib \<Rightarrow> (string \<Rightarrow> gerr + string) \<Rightarrow> int \<Rightarrow> ('e, 'm) manager \<Rightarrow> gerr option \<times> ('e, 'm) manager" where
  "manager_reload CB files now m =
     (case (case pm_load m of
              Some load \<Rightarrow> (case load files of
                  Inl e \<Rightarrow> (Some e, pm_enforcer m)
                | Inr mdl \<Rightarrow> (None, cb_set_model CB mdl (pm_enforcer m)))
            | None \<Rightarrow> cb_load_model CB (pm_enforcer m)) of
        (Some e, en) \<Rightarrow> (Some e, m\<lparr>pm_enforcer := en\<rparr>)
      | (None, en) \<Rightarrow> (case cb_load_policy CB en of
            (Some e, en2) \<Rightarrow> (Some e, m\<lparr>pm_enforcer := en2\<rparr>)
          | (None, en2) \<Rightarrow> (None, touch now (m\<lparr>pm_enforcer := en2\<rparr>))))"

definition err_empty_rule :: gerr where
  "err_empty_rule = err_new ''policy: empty rule field''"

text \<open>\<open>AddPolicy\<close> and \<open>RemovePolicy\<close>, which differ in the call of the enforcer.\<close>

definition change_policy ::
  "(string list \<Rightarrow> 'e \<Rightarrow> (bool \<times> gerr option) \<times> 'e) \<Rightarrow> int \<Rightarrow> string \<Rightarrow> string \<Rightarrow> string \<Rightarrow> ('e, 'm) manager
    \<Rightarrow> (bool \<times> gerr option) \<times> ('e, 'm) manager" where
  "change_policy call now sub obj act m =
     (if sub = [] \<or> obj = [] \<or> act = [] then ((False, Some err_empty_rule), m)
      else case call [sub, obj, act] (pm_enforcer m) of ((done_it, err), en) \<Rightarrow>
        (let m1 = m\<lparr>pm_enforcer := en\<rparr> in
         ((done_it, err), if err = None \<and> done_it then touch now m1 else m1)))"

section \<open>The middleware\<close>

record 'w policy_args =
  pa_subject :: "(server_request \<Rightarrow> gval) option"
  pa_object :: "(server_request \<Rightarrow> gval) option"
  pa_action :: "(server_request \<Rightarrow> gval) option"
  pa_warn :: "server_request \<Rightarrow> 'w \<Rightarrow> 'w"
  pa_error :: "gerr \<Rightarrow> server_request \<Rightarrow> 'w \<Rightarrow> 'w"

definition or_default :: "'a option \<Rightarrow> 'a \<Rightarrow> 'a" where
  "or_default x d = (case x of None \<Rightarrow> d | Some y \<Rightarrow> y)"

definition enforce_middleware ::
  "('e, 'a, 'm) casbin_lib \<Rightarrow> ('w \<Rightarrow> ('e, 'm) manager option) \<Rightarrow> 'w policy_args \<Rightarrow> 'w middleware" where
  "enforce_middleware CB get P next r rw w =
     (let subject = or_default (pa_subject P) (\<lambda>_. VStr ''guest'');
          object = or_default (pa_object P) (\<lambda>r. VStr (sr_path r));
          action = or_default (pa_action P) (\<lambda>r. VStr (sr_method r)) in
      case get w of
        None \<Rightarrow> (Returned, respond_error ''forbidden'' 403 rw, pa_warn P r w)
      | Some m \<Rightarrow> (case manager_enforce CB m (subject r) (object r) (action r) of
            (_, Some e) \<Rightarrow> (Returned, respond_error ''internal server error'' 500 rw, pa_error P e r w)
          | (False, None) \<Rightarrow> (Returned, respond_error ''forbidden'' 403 rw, w)
          | (True, None) \<Rightarrow> next r rw w))"

section \<open>The default manager\<close>

record ('e, 'a, 'm) policy_state =
  ps_default :: "('e, 'm) manager option"
  ps_pending :: "'a option"

definition set_default :: "('e, 'm) manager option \<Rightarrow> ('e, 'a, 'm) policy_state \<Rightarrow> ('e, 'a, 'm) policy_state" where
  "set_default m s = s\<lparr>ps_default := m\<rparr>"

definition policy_init ::
  "('e, 'a, 'm) casbin_lib \<Rightarrow> int \<Rightarrow> string \<Rightarrow> string \<Rightarrow> ('e, 'a, 'm) policy_state \<Rightarrow> gerr option \<times> ('e, 'a, 'm) policy_state" where
  "policy_init CB now model_path policy_path s =
     (case (case ps_pending s of
              Some a \<Rightarrow> new_with_adapter CB now model_path (Some a)
            | None \<Rightarrow> policy_new CB now model_path policy_path) of
        Inl e \<Rightarrow> (Some e, s)
      | Inr m \<Rightarrow> (None, s\<lparr>ps_pending := None, ps_default := Some m\<rparr>))"

definition policy_set_adapter ::
  "('e, 'a, 'm) casbin_lib \<Rightarrow> 'a option \<Rightarrow> ('e, 'a, 'm) policy_state \<Rightarrow> gerr option \<times> ('e, 'a, 'm) policy_state" where
  "policy_set_adapter CB a s = (case a of
       None \<Rightarrow> (Some err_nil_adapter, s)
     | Some ad \<Rightarrow> (case ps_default s of
           None \<Rightarrow> (None, s\<lparr>ps_pending := Some ad\<rparr>)
         | Some m \<Rightarrow> (case manager_set_adapter CB a m of (e, m') \<Rightarrow> (e, s\<lparr>ps_default := Some m'\<rparr>))))"

definition policy_enforce :: "('e, 'a, 'm) casbin_lib \<Rightarrow> ('e, 'a, 'm) policy_state \<Rightarrow> gval \<Rightarrow> gval \<Rightarrow> gval \<Rightarrow> bool \<times> gerr option" where
  "policy_enforce CB s sub obj act = (case ps_default s of
       None \<Rightarrow> (False, Some err_not_initialized)
     | Some m \<Rightarrow> manager_enforce CB m sub obj act)"

definition policy_check :: "('e, 'a, 'm) casbin_lib \<Rightarrow> ('e, 'a, 'm) policy_state \<Rightarrow> string \<Rightarrow> string \<Rightarrow> string \<Rightarrow> bool \<times> gerr option" where
  "policy_check CB s sub obj act = policy_enforce CB s (VStr sub) (VStr obj) (VStr act)"

definition policy_reload ::
  "('e, 'a, 'm) casbin_lib \<Rightarrow> (string \<Rightarrow> gerr + string) \<Rightarrow> int \<Rightarrow> ('e, 'a, 'm) policy_state \<Rightarrow> gerr option \<times> ('e, 'a, 'm) policy_state" where
  "policy_reload CB files now s = (case ps_default s of
       None \<Rightarrow> (Some err_not_initialized, s)
     | Some m \<Rightarrow> (case manager_reload CB files now m of (e, m') \<Rightarrow> (e, s\<lparr>ps_default := Some m'\<rparr>)))"

definition last_reload :: "('e, 'a, 'm) policy_state \<Rightarrow> int option" where
  "last_reload s = map_option pm_last (ps_default s)"

definition policy_rules :: "('e, 'a, 'm) casbin_lib \<Rightarrow> ('e, 'a, 'm) policy_state \<Rightarrow> string list list" where
  "policy_rules CB s = (case ps_default s of None \<Rightarrow> []
     | Some m \<Rightarrow> (case cb_policies CB (pm_enforcer m) of Inl e \<Rightarrow> [] | Inr rs \<Rightarrow> rs))"

definition policy_stats :: "('e, 'a, 'm) casbin_lib \<Rightarrow> ('e, 'a, 'm) policy_state \<Rightarrow> nat \<times> int option" where
  "policy_stats CB s = (length (policy_rules CB s), last_reload s)"

definition change_rule ::
  "(string list \<Rightarrow> 'e \<Rightarrow> (bool \<times> gerr option) \<times> 'e) \<Rightarrow> int \<Rightarrow> string \<Rightarrow> string \<Rightarrow> string \<Rightarrow> ('e, 'a, 'm) policy_state
    \<Rightarrow> (bool \<times> gerr option) \<times> ('e, 'a, 'm) policy_state" where
  "change_rule call now sub obj act s = (case ps_default s of
       None \<Rightarrow> ((False, Some err_not_initialized), s)
     | Some m \<Rightarrow> (case change_policy call now sub obj act m of (r, m') \<Rightarrow> (r, s\<lparr>ps_default := Some m'\<rparr>)))"

definition default_middleware ::
  "('e, 'a, 'm) casbin_lib \<Rightarrow> ('w \<Rightarrow> ('e, 'a, 'm) policy_state) \<Rightarrow> 'w policy_args \<Rightarrow> 'w middleware" where
  "default_middleware CB state P = enforce_middleware CB (\<lambda>w. ps_default (state w)) P"

section \<open>Sources of models and policies\<close>

definition model_from_text :: "('e, 'a, 'm) casbin_lib \<Rightarrow> string \<Rightarrow> 'm model_loader" where
  "model_from_text CB t files = (if trim_space t = [] then Inl (err_new ''policy: empty model text'') else cb_parse_model CB t)"

text \<open>\<open>valid\<close> is \<open>fs.ValidPath\<close>.\<close>

definition model_from_fs :: "('e, 'a, 'm) casbin_lib \<Rightarrow> (string \<Rightarrow> bool) \<Rightarrow> string \<Rightarrow> 'm model_loader" where
  "model_from_fs CB valid path files =
     (if \<not> valid path then Inl (err_new (''policy: invalid model path '' @ path))
      else case files path of
        Inl e \<Rightarrow> Inl (err_wrap ''policy: read model'' e)
      | Inr b \<Rightarrow> cb_parse_model CB b)"

definition new_with_model ::
  "('e, 'a, 'm) casbin_lib \<Rightarrow> (string \<Rightarrow> gerr + string) \<Rightarrow> int \<Rightarrow> 'm model_loader option \<Rightarrow> 'a option \<Rightarrow> gerr + ('e, 'm) manager" where
  "new_with_model CB files now load a = (case load of
       None \<Rightarrow> Inl (err_new ''policy: nil model loader'')
     | Some ld \<Rightarrow> res_bind (ld files) (\<lambda>mdl.
         res_bind (case a of None \<Rightarrow> cb_from_model CB mdl | Some ad \<Rightarrow> cb_from_model_adapter CB mdl ad) (\<lambda>e.
           Inr ((new_manager CB now e)\<lparr>pm_load := Some ld\<rparr>))))"

definition new_from_text ::
  "('e, 'a, 'm) casbin_lib \<Rightarrow> (string \<Rightarrow> gerr + string) \<Rightarrow> int \<Rightarrow> string \<Rightarrow> string \<Rightarrow> gerr + ('e, 'm) manager" where
  "new_from_text CB files now model_text policy_csv =
     new_with_model CB files now (Some (model_from_text CB model_text))
       (if trim_space policy_csv \<noteq> [] then Some (cb_text_adapter CB policy_csv) else None)"

definition new_fs ::
  "('e, 'a, 'm) casbin_lib \<Rightarrow> (string \<Rightarrow> bool) \<Rightarrow> (string \<Rightarrow> gerr + string) \<Rightarrow> int \<Rightarrow> string \<Rightarrow> string \<Rightarrow> gerr + ('e, 'm) manager" where
  "new_fs CB valid files now model_path policy_path =
     new_with_model CB files now (Some (model_from_fs CB valid model_path))
       (if policy_path \<noteq> [] then Some (cb_fs_adapter CB policy_path) else None)"

definition new_fs_with_adapter ::
  "('e, 'a, 'm) casbin_lib \<Rightarrow> (string \<Rightarrow> bool) \<Rightarrow> (string \<Rightarrow> gerr + string) \<Rightarrow> int \<Rightarrow> string \<Rightarrow> 'a option \<Rightarrow> gerr + ('e, 'm) manager" where
  "new_fs_with_adapter CB valid files now model_path a = (case a of
       None \<Rightarrow> Inl err_nil_adapter
     | Some ad \<Rightarrow> new_with_model CB files now (Some (model_from_fs CB valid model_path)) (Some ad))"

text \<open>
  \<open>fsAdapter.LoadPolicy\<close>: the lines of the file, each at most \<open>2 ^ 20\<close> bytes long, given to
  casbin one by one; \<open>line\<close> is \<open>persist.LoadPolicyLine\<close>.
\<close>

fun load_lines :: "(string \<Rightarrow> 'm \<Rightarrow> gerr + 'm) \<Rightarrow> string list \<Rightarrow> 'm \<Rightarrow> gerr option \<times> 'm" where
  "load_lines line [] m = (None, m)"
| "load_lines line (l # ls) m =
     (if 2 ^ 20 \<le> length l then (Some (err_new ''bufio.Scanner: token too long''), m)
      else case line (trim_space l) m of Inl e \<Rightarrow> (Some e, m) | Inr m' \<Rightarrow> load_lines line ls m')"

definition scan_lines :: "string \<Rightarrow> string list" where
  "scan_lines s =
     (let ls = split_on (CHR 0x0A) s; ls' = (if last ls = [] then butlast ls else ls) in
      map (\<lambda>l. if l \<noteq> [] \<and> last l = CHR 0x0D then butlast l else l) ls')"

definition fs_load_policy ::
  "(string \<Rightarrow> bool) \<Rightarrow> (string \<Rightarrow> gerr + string) \<Rightarrow> (string \<Rightarrow> 'm \<Rightarrow> gerr + 'm) \<Rightarrow> string \<Rightarrow> 'm \<Rightarrow> gerr option \<times> 'm" where
  "fs_load_policy valid files line path m =
     (if \<not> valid path then (Some (err_new (''policy: invalid policy path '' @ path)), m)
      else case files path of
        Inl e \<Rightarrow> (Some (err_wrap ''policy: read policy'' e), m)
      | Inr b \<Rightarrow> load_lines line (scan_lines b) m)"

section \<open>Fail closed\<close>

text \<open>The calls of the package, as threads interleave them.\<close>

datatype ('a, 'm, 'e) policy_call =
    P_set_default "('e, 'm) manager option"
  | P_init int string string
  | P_set_adapter "'a option"
  | P_reload "string \<Rightarrow> gerr + string" int
  | P_add int string string string
  | P_remove int string string string

fun policy_step :: "('e, 'a, 'm) casbin_lib \<Rightarrow> ('a, 'm, 'e) policy_call \<Rightarrow> ('e, 'a, 'm) policy_state \<Rightarrow> ('e, 'a, 'm) policy_state" where
  "policy_step CB (P_set_default m) s = set_default m s"
| "policy_step CB (P_init now mp pp) s = snd (policy_init CB now mp pp s)"
| "policy_step CB (P_set_adapter a) s = snd (policy_set_adapter CB a s)"
| "policy_step CB (P_reload files now) s = snd (policy_reload CB files now s)"
| "policy_step CB (P_add now sub obj act) s = snd (change_rule (cb_add CB) now sub obj act s)"
| "policy_step CB (P_remove now sub obj act) s = snd (change_rule (cb_remove CB) now sub obj act s)"

definition policy_run :: "('e, 'a, 'm) casbin_lib \<Rightarrow> ('a, 'm, 'e) policy_call list \<Rightarrow> ('e, 'a, 'm) policy_state" where
  "policy_run CB cs = foldl (\<lambda>s c. policy_step CB c s) \<lparr>ps_default = None, ps_pending = None\<rparr> cs"

text \<open>A call that can put a default manager in place: \<open>SetDefault\<close>, or \<open>Init\<close> where casbin builds an enforcer.\<close>

fun may_install :: "('e, 'a, 'm) casbin_lib \<Rightarrow> ('a, 'm, 'e) policy_call \<Rightarrow> bool" where
  "may_install CB (P_set_default m) = (m \<noteq> None)"
| "may_install CB (P_init now mp pp) =
     (\<not> isl (policy_new CB now mp pp) \<or> (\<exists>a. \<not> isl (cb_from_adapter CB mp a)))"
| "may_install CB c = False"

lemma policy_step_default:
  "ps_default s = None \<Longrightarrow> \<not> may_install CB c \<Longrightarrow> ps_default (policy_step CB c s) = None"
proof (cases c)
  case (P_init now mp pp)
  assume "ps_default s = None" "\<not> may_install CB c"
  with P_init show ?thesis
    by (cases "ps_pending s")
       (auto simp: policy_init_def new_with_adapter_def isl_def res_bind_def split: sum.splits, metis sum.distinct(1))
qed (auto simp: set_default_def policy_set_adapter_def policy_reload_def change_rule_def split: option.splits)

lemma policy_run_default:
  "list_all (\<lambda>c. \<not> may_install CB c) cs \<Longrightarrow> ps_default (policy_run CB cs) = None"
proof -
  have "ps_default s = None \<Longrightarrow> list_all (\<lambda>c. \<not> may_install CB c) cs \<Longrightarrow>
      ps_default (foldl (\<lambda>s c. policy_step CB c s) s cs) = None" for s
    by (induction cs arbitrary: s) (auto simp: policy_step_default)
  then show "list_all (\<lambda>c. \<not> may_install CB c) cs \<Longrightarrow> ps_default (policy_run CB cs) = None"
    by (simp add: policy_run_def)
qed

text \<open>
  (C28) Authorisation fails closed: whether the handler behind the default middleware runs can only matter
  when the enforcer of the default manager allowed this subject, object and action without an
  error, and that needs a call that put a manager in place.
\<close>

theorem policy_fails_closed:
  assumes "state w = policy_run CB cs"
    and "default_middleware CB state P next r rw w \<noteq> default_middleware CB state P next' r rw w"
  shows "\<exists>m. ps_default (policy_run CB cs) = Some m
    \<and> cb_enforce CB (pm_enforcer m) (or_default (pa_subject P) (\<lambda>_. VStr ''guest'') r)
        (or_default (pa_object P) (\<lambda>r. VStr (sr_path r)) r) (or_default (pa_action P) (\<lambda>r. VStr (sr_method r)) r) = (True, None)
    \<and> list_ex (may_install CB) cs"
proof -
  obtain m where m: "ps_default (policy_run CB cs) = Some m"
    using assms by (cases "ps_default (policy_run CB cs)") (auto simp: default_middleware_def enforce_middleware_def)
  have "cb_enforce CB (pm_enforcer m) (or_default (pa_subject P) (\<lambda>_. VStr ''guest'') r)
        (or_default (pa_object P) (\<lambda>r. VStr (sr_path r)) r) (or_default (pa_action P) (\<lambda>r. VStr (sr_method r)) r) = (True, None)"
    using assms m
    by (auto simp: default_middleware_def enforce_middleware_def manager_enforce_def Let_def
        split: prod.splits option.splits bool.splits)
  moreover have "list_ex (may_install CB) cs"
    using policy_run_default [of CB cs] m by (auto simp: list_ex_iff list_all_iff)
  ultimately show ?thesis using m by blast
qed

text \<open>An adapter set before \<open>Init\<close> is the one whose policies \<open>Init\<close> loads, and is used once.\<close>

lemma init_uses_pending:
  assumes "ps_default s = None" "cb_from_adapter CB mp a = Inr e"
  shows "policy_init CB now mp pp (snd (policy_set_adapter CB (Some a) s))
    = (None, s\<lparr>ps_pending := None, ps_default := Some (new_manager CB now e)\<rparr>)"
  using assms by (simp add: policy_set_adapter_def policy_init_def new_with_adapter_def)

text \<open>The time of the last change moves only with a change that took place.\<close>

lemma rejected_rule_changes_nothing:
  "sub = [] \<or> obj = [] \<or> act = [] \<Longrightarrow> change_policy call now sub obj act m = ((False, Some err_empty_rule), m)"
  by (auto simp: change_policy_def)

lemma failed_reload_keeps_time:
  "manager_reload CB files now m = (Some e, m') \<Longrightarrow> pm_last m' = pm_last m"
  by (auto simp: manager_reload_def touch_def split: option.splits sum.splits prod.splits)

section \<open>Witnesses\<close>

text \<open>An enforcer that is the list of its rules.\<close>

definition demo_casbin :: "(string list list, string list list, unit) casbin_lib" where
  "demo_casbin = \<lparr>cb_from_file = (\<lambda>_. Inr []), cb_from_files = (\<lambda>_ _. Inl (err_new ''no file'')),
     cb_from_adapter = (\<lambda>_ a. Inr a), cb_from_model = (\<lambda>_. Inr []), cb_from_model_adapter = (\<lambda>_ a. Inr a), cb_add_key_match = id,
     cb_enforce = (\<lambda>e s ob ac. (list_ex (\<lambda>rule. map VStr rule = [s, ob, ac]) e, None)), cb_set_adapter = (\<lambda>a e. e), cb_set_model = (\<lambda>_ e. e),
     cb_load_model = (\<lambda>e. (None, e)), cb_load_policy = (\<lambda>e. (None, e)), cb_policies = Inr,
     cb_add = (\<lambda>rule e. ((True, None), e @ [rule])), cb_remove = (\<lambda>rule e. ((True, None), removeAll rule e)),
     cb_parse_model = (\<lambda>_. Inr ()), cb_text_adapter = (\<lambda>_. []), cb_fs_adapter = (\<lambda>_. [])\<rparr>"

definition demo_policy_args :: "string policy_args" where
  "demo_policy_args = \<lparr>pa_subject = None, pa_object = None, pa_action = None, pa_warn = (\<lambda>_ w. w), pa_error = (\<lambda>_ _ w. w)\<rparr>"

definition demo_policy_calls :: "(string list list, unit, string list list) policy_call list" where
  "demo_policy_calls = [P_set_adapter (Some []), P_init 1 ''model'' [], P_add 2 ''guest'' ''/'' ''GET'']"

theorem policy_fails_closed_witness:
  "list_ex (may_install demo_casbin) demo_policy_calls
    \<and> default_middleware demo_casbin (\<lambda>w. policy_run demo_casbin demo_policy_calls) demo_policy_args
        (\<lambda>r rw w. (Returned, rw, ''ran'')) (demo_forwarded []) \<lparr>rw_header = [], rw_sent = None, rw_body = []\<rparr> []
      = (Returned, \<lparr>rw_header = [], rw_sent = None, rw_body = []\<rparr>, ''ran'')"
proof -
  let ?rw = "\<lparr>rw_header = [], rw_sent = None, rw_body = []\<rparr>"
  let ?mw = "\<lambda>out. default_middleware demo_casbin (\<lambda>w. policy_run demo_casbin demo_policy_calls) demo_policy_args
        (\<lambda>r rw w. (Returned, rw, out)) (demo_forwarded []) ?rw []"
  have ran: "?mw ''ran'' = (Returned, ?rw, ''ran'')" by code_simp
  moreover have "?mw ''not'' = (Returned, ?rw, ''not'')" by code_simp
  ultimately have "?mw ''ran'' \<noteq> ?mw ''not''" by simp
  from policy_fails_closed [OF refl this] have "list_ex (may_install demo_casbin) demo_policy_calls" by blast
  with ran show ?thesis by blast
qed

end
