(* ===== verification/Form_Bind.thy ===== *)
theory Form_Bind
  imports Url
begin

text \<open>
  \<open>pkg/forms/bind.go\<close>: filling a struct from form data.

  A Go type is a \<open>gty\<close>, a value of a known type an \<open>fval\<close>, and a value of type \<open>any\<close> a
  \<open>raw\<close>: nothing, or a value with its type. A struct is described by its fields (\<open>sfield\<close>) and
  held as a list of values (\<open>sval\<close>). \<open>Bind\<close> returns the struct and the errors by field, or
  \<open>None\<close> where it panics. Floats and times, \<open>fmt.Sprint\<close>, \<open>%q\<close>, \<open>ParseFloat\<close> and \<open>time.Parse\<close>
  are parameters.
\<close>

section \<open>Types and values\<close>

datatype gty =
    TStr
  | TBool
  | TInt nat
  | TUint nat
  | TFloat nat
  | TTime
  | TPtr gty
  | TSlice gty
  | TArray nat gty
  | TNamed string gty \<comment> \<open>a defined type and what it is defined as\<close>
  | TAny
  | TOther string

datatype ('f, 't) fval =
    FStr string
  | FBool bool
  | FInt int
  | FUint nat
  | FFloat 'f
  | FTime 't
  | FNil \<comment> \<open>a nil pointer, slice or interface\<close>
  | FPtr "('f, 't) fval"
  | FSlice "('f, 't) fval list"
  | FAny gty "('f, 't) fval"
  | FOther string

type_synonym ('f, 't) raw = "(gty \<times> ('f, 't) fval) option"

fun under :: "gty \<Rightarrow> gty" where
  "under (TNamed n t) = under t"
| "under t = t"

fun defined_type :: "gty \<Rightarrow> bool" where
  "defined_type (TPtr t) = False"
| "defined_type (TSlice t) = False"
| "defined_type (TArray n t) = False"
| "defined_type t = True"

text \<open>\<open>reflect.Type.AssignableTo\<close>, for the types above.\<close>

definition assignable :: "gty \<Rightarrow> gty \<Rightarrow> bool" where
  "assignable a b \<longleftrightarrow> a = b \<or> under b = TAny \<or> under a = under b \<and> \<not> (defined_type a \<and> defined_type b)"

definition store :: "gty \<Rightarrow> gty \<Rightarrow> ('f, 't) fval \<Rightarrow> ('f, 't) fval" where
  "store ft rt v = (if under ft = TAny then FAny rt v else v)"

record ('f, 't) bind_lib =
  bl_zero_float :: 'f
  bl_zero_time :: 't
  bl_sprint :: "gty \<Rightarrow> ('f, 't) fval \<Rightarrow> string" \<comment> \<open>the text of values that are no strings\<close>
  bl_quote :: "string \<Rightarrow> string"
  bl_float :: "nat \<Rightarrow> string \<Rightarrow> 'f option"
  bl_time :: "string \<Rightarrow> string \<Rightarrow> 't option"
  bl_type_name :: "gty \<Rightarrow> string"

fun zero_val :: "('f, 't) bind_lib \<Rightarrow> gty \<Rightarrow> ('f, 't) fval" where
  "zero_val L TStr = FStr []"
| "zero_val L TBool = FBool False"
| "zero_val L (TInt b) = FInt 0"
| "zero_val L (TUint b) = FUint 0"
| "zero_val L (TFloat b) = FFloat (bl_zero_float L)"
| "zero_val L TTime = FTime (bl_zero_time L)"
| "zero_val L (TArray n t) = FSlice (replicate n (zero_val L t))"
| "zero_val L (TNamed n t) = zero_val L t"
| "zero_val L (TOther n) = FOther []"
| "zero_val L t = FNil"

text \<open>A value of a type; integers are within the bits of their type.\<close>

fun has_type :: "gty \<Rightarrow> ('f, 't) fval \<Rightarrow> bool" where
  "has_type (TNamed n t) v = has_type t v"
| "has_type TStr v = (case v of FStr s \<Rightarrow> True | _ \<Rightarrow> False)"
| "has_type TBool v = (case v of FBool b \<Rightarrow> True | _ \<Rightarrow> False)"
| "has_type (TInt b) v = (case v of FInt n \<Rightarrow> - (2 ^ (b - 1)) \<le> n \<and> n < 2 ^ (b - 1) | _ \<Rightarrow> False)"
| "has_type (TUint b) v = (case v of FUint n \<Rightarrow> n < 2 ^ b | _ \<Rightarrow> False)"
| "has_type (TFloat b) v = (case v of FFloat f \<Rightarrow> True | _ \<Rightarrow> False)"
| "has_type TTime v = (case v of FTime t \<Rightarrow> True | _ \<Rightarrow> False)"
| "has_type (TPtr t) v = (case v of FNil \<Rightarrow> True | FPtr w \<Rightarrow> has_type t w | _ \<Rightarrow> False)"
| "has_type (TSlice t) v = (case v of FNil \<Rightarrow> True | FSlice vs \<Rightarrow> \<forall>w\<in>set vs. has_type t w | _ \<Rightarrow> False)"
| "has_type (TArray n t) v = (case v of FSlice vs \<Rightarrow> length vs = n \<and> (\<forall>w\<in>set vs. has_type t w) | _ \<Rightarrow> False)"
| "has_type TAny v = (case v of FNil \<Rightarrow> True | FAny t w \<Rightarrow> under t \<noteq> TAny \<and> has_type t w | _ \<Rightarrow> False)"
| "has_type (TOther n) v = (case v of FOther m \<Rightarrow> True | _ \<Rightarrow> False)"

definition raw_ok :: "('f, 't) raw \<Rightarrow> bool" where
  "raw_ok raw = (case raw of None \<Rightarrow> True | Some (t, v) \<Rightarrow> under t \<noteq> TAny \<and> has_type t v)"

section \<open>Converting a value\<close>

datatype field_err = Bad_value string | Panicked

definition time_layouts_form :: "string list" where
  "time_layouts_form =
     [''2006-01-02T15:04:05.999999999Z07:00'', ''2006-01-02T15:04:05Z07:00'', ''2006-01-02T15:04:05'',
      ''2006-01-02T15:04'', ''2006-01-02 15:04:05'', ''2006-01-02 15:04'', ''2006-01-02'',
      ''02.01.2006 15:04'', ''02.01.2006'']"

text \<open>The element of a slice or an array as \<open>any\<close>, and \<open>toItems\<close>.\<close>

definition to_iface :: "gty \<Rightarrow> ('f, 't) fval \<Rightarrow> ('f, 't) raw" where
  "to_iface e x = (if under e = TAny then (case x of FAny t v \<Rightarrow> Some (t, v) | _ \<Rightarrow> None) else Some (e, x))"

fun elements :: "('f, 't) fval \<Rightarrow> ('f, 't) fval list" where
  "elements (FSlice vs) = vs"
| "elements v = []"

definition to_items :: "gty \<Rightarrow> ('f, 't) fval \<Rightarrow> ('f, 't) raw list" where
  "to_items rt v = (case under rt of
       TSlice e \<Rightarrow> if under e = TUint 8 then [Some (rt, v)] else map (to_iface e) (elements v)
     | TArray n e \<Rightarrow> map (to_iface e) (elements v)
     | _ \<Rightarrow> [Some (rt, v)])"

definition is_scalar_type :: "gty \<Rightarrow> bool" where
  "is_scalar_type rt = (case under rt of TSlice e \<Rightarrow> False | TArray n e \<Rightarrow> False | _ \<Rightarrow> True)"

fun fstr :: "('f, 't) fval \<Rightarrow> string" where
  "fstr (FStr s) = s"
| "fstr v = []"

definition single_string :: "gty \<Rightarrow> ('f, 't) fval \<Rightarrow> string option" where
  "single_string rt v =
     (if rt = TStr then Some (fstr v)
      else if rt = TSlice TStr then Some (case elements v of [] \<Rightarrow> [] | x # _ \<Rightarrow> fstr x)
      else None)"

definition scalar_string :: "('f, 't) bind_lib \<Rightarrow> gty \<Rightarrow> ('f, 't) fval \<Rightarrow> string" where
  "scalar_string L rt v =
     (if rt = TStr \<or> rt = TNamed ''json.Number'' TStr then fstr v else bl_sprint L rt v)"

definition form_parse_bool :: "string \<Rightarrow> bool option" where
  "form_parse_bool s =
     (if go_lower s \<in> set [''1'', ''true'', ''on'', ''yes'', ''evet''] then Some True
      else if go_lower s \<in> set [''0'', ''false'', ''off'', ''no'', ''hay'' @ [CHR 0xC4, CHR 0xB1] @ ''r'', ''hayir'']
      then Some False else None)"

text \<open>\<open>strconv.ParseInt\<close> and \<open>ParseUint\<close> in base 10, with a bit size up to 64.\<close>

definition parse_int_bits :: "nat \<Rightarrow> string \<Rightarrow> int option" where
  "parse_int_bits b s = (case parse_int64 s of None \<Rightarrow> None
     | Some n \<Rightarrow> if - (2 ^ (b - 1)) \<le> n \<and> n < 2 ^ (b - 1) then Some n else None)"

definition parse_uint_bits :: "nat \<Rightarrow> string \<Rightarrow> nat option" where
  "parse_uint_bits b s =
     (if s = [] \<or> \<not> list_all is_digit s then None
      else if decimal_value s < 2 ^ b then Some (decimal_value s) else None)"

definition dot_comma :: "string \<Rightarrow> string" where
  "dot_comma s =
     (if CHR ''.'' \<notin> set s \<and> count_list s (CHR '','') = 1
      then map (\<lambda>c. if c = CHR '','' then CHR ''.'' else c) s else s)"

definition bad :: "('f, 't) bind_lib \<Rightarrow> string \<Rightarrow> string \<Rightarrow> field_err + 'a" where
  "bad L what s = Inl (Bad_value (what @ '': '' @ bl_quote L s))"

definition set_scalar ::
  "('f, 't) bind_lib \<Rightarrow> string \<Rightarrow> gty \<Rightarrow> ('f, 't) raw \<Rightarrow> field_err + ('f, 't) fval" where
  "set_scalar L layout ft raw = (case raw of
       None \<Rightarrow> Inl Panicked
     | Some (rt, v) \<Rightarrow>
         if assignable rt ft then Inr (store ft rt v)
         else if ft = TTime then
           (let s = trim_space (scalar_string L rt v);
                layouts = (if layout \<noteq> [] then [layout] else time_layouts_form) in
            if s = [] then Inr (zero_val L ft)
            else case List.map_filter (\<lambda>l. bl_time L l s) layouts of
                t # _ \<Rightarrow> Inr (FTime t)
              | [] \<Rightarrow> bad L (''tarih '' @ [CHR 0xC3, CHR 0xA7] @ [CHR 0xC3, CHR 0xB6] @ ''z''
                  @ [CHR 0xC3, CHR 0xBC] @ ''mlenemedi'') s)
         else
           (let s = scalar_string L rt v; trimmed = trim_space s in
            case under ft of
              TStr \<Rightarrow> Inr (FStr s)
            | TBool \<Rightarrow> if trimmed = [] then Inr (FBool False)
                else (case form_parse_bool trimmed of Some b \<Rightarrow> Inr (FBool b)
                  | None \<Rightarrow> bad L (''mant'' @ [CHR 0xC4, CHR 0xB1] @ ''ksal de'' @ [CHR 0xC4, CHR 0x9F]
                      @ ''er de'' @ [CHR 0xC4, CHR 0x9F] @ ''il'') trimmed)
            | TInt b \<Rightarrow> if trimmed = [] then Inr (FInt 0)
                else (case parse_int_bits b trimmed of Some n \<Rightarrow> Inr (FInt n)
                  | None \<Rightarrow> bad L (''tam say'' @ [CHR 0xC4, CHR 0xB1] @ '' de'' @ [CHR 0xC4, CHR 0x9F] @ ''il'') trimmed)
            | TUint b \<Rightarrow> if trimmed = [] then Inr (FUint 0)
                else (case parse_uint_bits b trimmed of Some n \<Rightarrow> Inr (FUint n)
                  | None \<Rightarrow> bad L (''pozitif tam say'' @ [CHR 0xC4, CHR 0xB1] @ '' de'' @ [CHR 0xC4, CHR 0x9F] @ ''il'') trimmed)
            | TFloat b \<Rightarrow> if trimmed = [] then Inr (FFloat (bl_zero_float L))
                else (case bl_float L b (dot_comma trimmed) of Some x \<Rightarrow> Inr (FFloat x)
                  | None \<Rightarrow> bad L (''say'' @ [CHR 0xC4, CHR 0xB1] @ '' de'' @ [CHR 0xC4, CHR 0x9F] @ ''il'') (dot_comma trimmed))
            | _ \<Rightarrow> Inl (Bad_value (''desteklenmeyen alan tipi '' @ bl_type_name L ft))))"

text \<open>The end of \<open>setValue\<close>: of several values the first is used.\<close>

definition set_single ::
  "('f, 't) bind_lib \<Rightarrow> string \<Rightarrow> gty \<Rightarrow> gty \<Rightarrow> ('f, 't) fval \<Rightarrow> field_err + ('f, 't) fval" where
  "set_single L layout ft rt v =
     (let items = to_items rt v in
      if length items \<noteq> 1 \<or> \<not> is_scalar_type rt
      then (case items of [] \<Rightarrow> Inr (zero_val L ft) | i # _ \<Rightarrow> set_scalar L layout ft i)
      else set_scalar L layout ft (Some (rt, v)))"

lemma size_under: "size (under t) \<le> size t"
  by (induction t) auto

lemma under_smaller: "under t = TPtr e \<Longrightarrow> size e < size t" "under t = TSlice e \<Longrightarrow> size e < size t"
  using size_under [of t] by auto

function set_value ::
  "('f, 't) bind_lib \<Rightarrow> string \<Rightarrow> gty \<Rightarrow> ('f, 't) raw \<Rightarrow> field_err + ('f, 't) fval" where
  "set_value L layout ft raw = (case raw of
       None \<Rightarrow> Inr (zero_val L ft)
     | Some (rt, v) \<Rightarrow>
         if assignable rt ft then Inr (store ft rt v)
         else (case under ft of
             TPtr e \<Rightarrow>
               if (case single_string rt v of Some s \<Rightarrow> trim_space s = [] | None \<Rightarrow> False) \<and> under e \<noteq> TStr
               then Inr (zero_val L ft)
               else res_bind (set_value L layout e raw) (\<lambda>x. Inr (FPtr x))
           | TSlice e \<Rightarrow>
               if under e = TUint 8 then set_single L layout ft rt v
               else res_bind (res_map (\<lambda>i. set_value L layout e i) (to_items rt v)) (\<lambda>xs. Inr (FSlice xs))
           | _ \<Rightarrow> set_single L layout ft rt v))"
  by pat_completeness auto

termination
  by (relation "measure (\<lambda>(L, layout, ft, raw). size ft)") (auto dest: under_smaller)

declare set_value.simps [simp del]

section \<open>Converted values have the type of their field\<close>

lemma has_type_under: "has_type (under t) v = has_type t v"
  by (induction t) auto

lemma zero_ok: "has_type t (zero_val L t)"
  by (induction t) auto

lemma assignable_ok: "assignable a b \<Longrightarrow> raw_ok (Some (a, v)) \<Longrightarrow> has_type b (store b a v)"
  using has_type_under [of a v] has_type_under [of b v] has_type_under [of b "FAny a v"]
  by (auto simp: assignable_def store_def raw_ok_def)

lemma to_iface_ok: "has_type e x \<Longrightarrow> raw_ok (to_iface e x)"
  using has_type_under [of e x] by (cases x) (auto simp: to_iface_def raw_ok_def)

lemma to_items_ok:
  assumes "raw_ok (Some (rt, v))" "i \<in> set (to_items rt v)"
  shows "raw_ok i"
proof -
  have elem: "raw_ok (to_iface e x)" if "under rt = TSlice e \<or> (\<exists>n. under rt = TArray n e)" "x \<in> set (elements v)" for e x
  proof -
    have "has_type (under rt) v" using assms(1) by (simp add: raw_ok_def has_type_under)
    with that have "has_type e x" by (cases v) auto
    then show ?thesis by (rule to_iface_ok)
  qed
  with assms show ?thesis by (auto simp: to_items_def split: gty.splits if_splits)
qed

lemma parse_int_bits_range: "parse_int_bits b s = Some n \<Longrightarrow> - (2 ^ (b - 1)) \<le> n \<and> n < 2 ^ (b - 1)"
  by (auto simp: parse_int_bits_def split: option.splits if_splits)

lemma parse_uint_bits_range: "parse_uint_bits b s = Some n \<Longrightarrow> n < 2 ^ b"
  by (auto simp: parse_uint_bits_def split: if_splits)

lemma bad_not_Inr [simp]: "bad L w s \<noteq> Inr x"
  by (simp add: bad_def)

lemma set_scalar_ok:
  assumes "\<forall>r. raw = Some r \<longrightarrow> raw_ok raw" "set_scalar L layout ft raw = Inr x"
  shows "has_type ft x"
proof -
  obtain rt v where raw: "raw = Some (rt, v)" using assms(2) by (auto simp: set_scalar_def split: option.splits)
  show ?thesis
  proof (cases "assignable rt ft")
    case True
    with assms raw show ?thesis by (simp add: set_scalar_def) (metis assignable_ok)
  next
    case other: False
    show ?thesis
    proof (cases "ft = TTime")
      case True
      with assms(2) raw other show ?thesis
        by (auto simp: set_scalar_def Let_def split: if_splits list.splits)
    next
      case False
      with assms(2) raw other have "has_type (under ft) x"
        by (auto simp: set_scalar_def Let_def parse_int_bits_range parse_uint_bits_range simp del: One_nat_def
            split: if_splits gty.splits option.splits)
      then show ?thesis by (simp add: has_type_under)
    qed
  qed
qed

lemma set_single_ok:
  assumes "raw_ok (Some (rt, v))" "set_single L layout ft rt v = Inr x"
  shows "has_type ft x"
proof (cases "length (to_items rt v) \<noteq> 1 \<or> \<not> is_scalar_type rt")
  case multi: True
  show ?thesis
  proof (cases "to_items rt v")
    case Nil
    with multi assms(2) show ?thesis by (auto simp: set_single_def zero_ok)
  next
    case (Cons i items)
    with multi assms(2) have "set_scalar L layout ft i = Inr x" by (simp add: set_single_def)
    moreover have "raw_ok i" using to_items_ok [OF assms(1)] Cons by simp
    ultimately show ?thesis by (auto intro: set_scalar_ok)
  qed
next
  case False
  with assms show ?thesis using set_scalar_ok [of "Some (rt, v)"] by (simp add: set_single_def)
qed

lemma set_value_ok:
  "raw_ok raw \<Longrightarrow> set_value L layout ft raw = Inr x \<Longrightarrow> has_type ft x"
proof (induction L layout ft raw arbitrary: x rule: set_value.induct)
  case (1 L layout ft raw)
  show ?case
  proof (cases raw)
    case None
    with 1(4) show ?thesis by (auto simp: set_value.simps [of _ _ _ None] zero_ok)
  next
    case (Some rv)
    obtain rt v where raw: "raw = Some (rt, v)" using Some by (cases rv) simp
    note eq = 1(4) [unfolded raw set_value.simps [of L layout ft "Some (rt, v)"], simplified]
    note ok = 1(3) [unfolded raw]
    show ?thesis
    proof (cases "assignable rt ft")
      case True
      with eq ok show ?thesis by (auto intro: assignable_ok)
    next
      case na: False
      have single: "set_single L layout ft rt v = Inr x \<Longrightarrow> has_type ft x" using set_single_ok [OF ok] .
      have "has_type (under ft) x \<or> has_type ft x"
      proof (cases "under ft")
        case (TPtr e)
        with eq na 1(1) [OF raw refl na TPtr] ok raw zero_ok show ?thesis
          by (auto simp: single split: if_splits)
      next
        case (TSlice e)
        show ?thesis
        proof (cases "under e = TUint 8")
          case False
          with eq na TSlice obtain xs where xs: "res_map (\<lambda>i. set_value L layout e i) (to_items rt v) = Inr xs"
            "x = FSlice xs" by auto
          have "has_type e y" if "y \<in> set xs" for y
            using res_map_set [OF xs(1) that] 1(2) [OF raw refl na TSlice False] to_items_ok [OF ok] by metis
          with TSlice xs(2) show ?thesis by simp
        qed (use eq na TSlice single in simp)
      qed (use eq na single in simp_all)
      then show ?thesis by (simp add: has_type_under)
    qed
  qed
qed

section \<open>Binding a struct\<close>

record field_info =
  fi_name :: string
  fi_form_tag :: "string option"
  fi_json_tag :: "string option"
  fi_layout :: string
  fi_exported :: bool
  fi_type :: gty

text \<open>A field, an embedded struct, or an exported embedded pointer to a struct.\<close>

datatype sfield = SField field_info | SEmbed "sfield list" | SEmbed_ptr "sfield list"

datatype ('f, 't) sval = SVal "('f, 't) fval" | SSub "('f, 't) sval list" | SPtr "('f, 't) sval list option"

fun zero_struct :: "('f, 't) bind_lib \<Rightarrow> sfield \<Rightarrow> ('f, 't) sval" where
  "zero_struct L (SField fi) = SVal (zero_val L (fi_type fi))"
| "zero_struct L (SEmbed fs) = SSub (map (zero_struct L) fs)"
| "zero_struct L (SEmbed_ptr fs) = SPtr None"

definition tag_name :: "string option \<Rightarrow> string" where
  "tag_name tag = (case tag of None \<Rightarrow> [] | Some t \<Rightarrow> trim_space (hd (split_on (CHR '','') t)))"

text \<open>\<open>fieldKey\<close>; \<open>None\<close> where the field is skipped.\<close>

definition field_key :: "field_info \<Rightarrow> string option" where
  "field_key fi =
     (if tag_name (fi_form_tag fi) = ''-'' then None
      else if tag_name (fi_form_tag fi) \<noteq> [] then Some (tag_name (fi_form_tag fi))
      else if tag_name (fi_json_tag fi) = ''-'' then None
      else if tag_name (fi_json_tag fi) \<noteq> [] then Some (tag_name (fi_json_tag fi))
      else Some (fi_name fi))"

type_synonym ('f, 't) form_data = "(string \<times> ('f, 't) raw) list"

definition form_lookup :: "('f, 't) form_data \<Rightarrow> string \<Rightarrow> string \<Rightarrow> ('f, 't) raw option" where
  "form_lookup data key go_name = (case map_of data key of
       Some v \<Rightarrow> Some v
     | None \<Rightarrow> if key \<noteq> go_name then None
         else map_option snd (find (\<lambda>(k, v). equal_fold k key) data))"

definition invalid_value :: "string \<Rightarrow> string \<Rightarrow> string" where
  "invalid_value name e = name @ '' alan'' @ [CHR 0xC4, CHR 0xB1] @ '' i'' @ [CHR 0xC3, CHR 0xA7] @ ''in ge''
     @ [CHR 0xC3, CHR 0xA7] @ ''ersiz de'' @ [CHR 0xC4, CHR 0x9F] @ ''er: '' @ e"

text \<open>What \<open>bindStruct\<close> does with one field: the raw value it takes, if any, and the new value.\<close>

definition field_raw :: "('f, 't) form_data \<Rightarrow> field_info \<Rightarrow> ('f, 't) raw option" where
  "field_raw data fi =
     (if \<not> fi_exported fi then None
      else case field_key fi of None \<Rightarrow> None | Some key \<Rightarrow> form_lookup data key (fi_name fi))"

type_synonym errors = "(string \<times> string) list"

definition bind_field ::
  "('f, 't) bind_lib \<Rightarrow> ('f, 't) form_data \<Rightarrow> field_info \<Rightarrow> ('f, 't) fval \<Rightarrow> errors
    \<Rightarrow> (('f, 't) fval \<times> errors) option" where
  "bind_field L data fi v errs = (case field_raw data fi of
       None \<Rightarrow> Some (v, errs)
     | Some raw \<Rightarrow> (case set_value L (fi_layout fi) (fi_type fi) raw of
           Inr x \<Rightarrow> Some (x, errs)
         | Inl (Bad_value m) \<Rightarrow> Some (v, AList.update (fi_name fi) (invalid_value (fi_name fi) m) errs)
         | Inl Panicked \<Rightarrow> None))"

text \<open>\<open>bindStruct\<close>; the last equation is for values that are not of the struct.\<close>

fun bind_struct ::
  "('f, 't) bind_lib \<Rightarrow> ('f, 't) form_data \<Rightarrow> sfield list \<Rightarrow> ('f, 't) sval list \<Rightarrow> errors
    \<Rightarrow> (('f, 't) sval list \<times> errors) option" where
  "bind_struct L data [] [] errs = Some ([], errs)"
| "bind_struct L data (SField fi # fs) (SVal v # vs) errs =
     Option.bind (bind_field L data fi v errs) (\<lambda>(v', errs1).
     Option.bind (bind_struct L data fs vs errs1) (\<lambda>(vs', errs2). Some (SVal v' # vs', errs2)))"
| "bind_struct L data (SEmbed sub # fs) (SSub ws # vs) errs =
     Option.bind (bind_struct L data sub ws errs) (\<lambda>(ws', errs1).
     Option.bind (bind_struct L data fs vs errs1) (\<lambda>(vs', errs2). Some (SSub ws' # vs', errs2)))"
| "bind_struct L data (SEmbed_ptr sub # fs) (SPtr p # vs) errs =
     Option.bind (bind_struct L data sub (case p of None \<Rightarrow> map (zero_struct L) sub | Some ws \<Rightarrow> ws) errs) (\<lambda>(ws', errs1).
     Option.bind (bind_struct L data fs vs errs1) (\<lambda>(vs', errs2). Some (SPtr (Some ws') # vs', errs2)))"
| "bind_struct L data fs vs errs = None"

text \<open>\<open>Bind\<close>: its target is a pointer to a struct, or something else (\<open>None\<close>).\<close>

datatype form_bind_err = Bind_target | Bind_errors errors

definition form_bind ::
  "('f, 't) bind_lib \<Rightarrow> ('f, 't) form_data \<Rightarrow> (sfield list \<times> ('f, 't) sval list) option
    \<Rightarrow> (('f, 't) sval list \<times> form_bind_err option) option" where
  "form_bind L data dest = (case dest of
       None \<Rightarrow> Some ([], Some Bind_target)
     | Some (fs, vs) \<Rightarrow> Option.bind (bind_struct L data fs vs []) (\<lambda>(vs', errs).
         Some (vs', if errs \<noteq> [] then Some (Bind_errors errs) else None)))"

definition bind_error_text :: "errors \<Rightarrow> string" where
  "bind_error_text errs = ''forms: ba'' @ [CHR 0xC4, CHR 0x9F] @ ''lama hatas'' @ [CHR 0xC4, CHR 0xB1] @ '': ''
     @ join_with ''; '' (map (\<lambda>k. k @ '': '' @ (case map_of errs k of Some m \<Rightarrow> m | None \<Rightarrow> [])) (sort (map fst errs)))"

text \<open>The values of a struct.\<close>

fun struct_ok :: "sfield list \<Rightarrow> ('f, 't) sval list \<Rightarrow> bool" where
  "struct_ok [] [] = True"
| "struct_ok (SField fi # fs) (SVal v # vs) = (has_type (fi_type fi) v \<and> struct_ok fs vs)"
| "struct_ok (SEmbed sub # fs) (SSub ws # vs) = (struct_ok sub ws \<and> struct_ok fs vs)"
| "struct_ok (SEmbed_ptr sub # fs) (SPtr p # vs) =
     ((case p of None \<Rightarrow> True | Some ws \<Rightarrow> struct_ok sub ws) \<and> struct_ok fs vs)"
| "struct_ok fs vs = False"

lemma zero_struct_ok: "struct_ok fs (map (zero_struct L) fs)"
proof (induction "size_list size fs" arbitrary: fs rule: less_induct)
  case less
  show ?case
  proof (cases fs)
    case (Cons f rest)
    then have "struct_ok rest (map (zero_struct L) rest)" by (intro less) simp
    moreover have "struct_ok sub (map (zero_struct L) sub)" if "f = SEmbed sub" for sub
      using that Cons by (intro less) simp
    ultimately show ?thesis using Cons by (cases f) (simp_all add: zero_ok)
  qed simp
qed

definition data_ok :: "('f, 't) form_data \<Rightarrow> bool" where
  "data_ok data \<longleftrightarrow> list_all (\<lambda>(k, r). raw_ok r) data"

lemma form_lookup_in: "form_lookup data key n = Some raw \<Longrightarrow> \<exists>k. (k, raw) \<in> set data"
  by (auto simp: form_lookup_def find_Some_iff split: option.splits if_splits dest: map_of_SomeD) (metis nth_mem)

lemma field_raw_ok: "data_ok data \<Longrightarrow> field_raw data fi = Some raw \<Longrightarrow> raw_ok raw"
  by (auto simp: field_raw_def data_ok_def list_all_iff split: if_splits option.splits dest!: form_lookup_in)

lemma bind_field_ok:
  "data_ok data \<Longrightarrow> has_type (fi_type fi) v \<Longrightarrow> bind_field L data fi v errs = Some (v', errs') \<Longrightarrow> has_type (fi_type fi) v'"
  using field_raw_ok [of data fi]
  by (auto simp: bind_field_def split: option.splits sum.splits field_err.splits dest: set_value_ok)

lemma bind_struct_ok:
  "data_ok data \<Longrightarrow> struct_ok fs vs \<Longrightarrow> bind_struct L data fs vs errs = Some (vs', errs') \<Longrightarrow> struct_ok fs vs'"
proof (induction L data fs vs errs arbitrary: vs' errs' rule: bind_struct.induct)
  case (2 L data fi fs v vs errs)
  then show ?case by (auto simp: bind_eq_Some_conv intro: bind_field_ok)
next
  case (3 L data sub fs ws vs errs)
  then show ?case by (auto simp: bind_eq_Some_conv)
next
  case (4 L data sub fs p vs errs)
  then show ?case by (auto simp: bind_eq_Some_conv zero_struct_ok split: option.splits)
qed simp_all

section \<open>What Bind does to the fields\<close>

text \<open>The fields of a struct with those of its embedded structs, and their values; nil is zero.\<close>

fun leaves :: "sfield list \<Rightarrow> field_info list" where
  "leaves [] = []"
| "leaves (SField fi # fs) = fi # leaves fs"
| "leaves (SEmbed sub # fs) = leaves sub @ leaves fs"
| "leaves (SEmbed_ptr sub # fs) = leaves sub @ leaves fs"

fun leaf_vals :: "('f, 't) bind_lib \<Rightarrow> sfield list \<Rightarrow> ('f, 't) sval list \<Rightarrow> ('f, 't) fval list" where
  "leaf_vals L (SField fi # fs) (SVal v # vs) = v # leaf_vals L fs vs"
| "leaf_vals L (SEmbed sub # fs) (SSub ws # vs) = leaf_vals L sub ws @ leaf_vals L fs vs"
| "leaf_vals L (SEmbed_ptr sub # fs) (SPtr p # vs) =
     (case p of None \<Rightarrow> leaf_vals L sub (map (zero_struct L) sub) | Some ws \<Rightarrow> leaf_vals L sub ws) @ leaf_vals L fs vs"
| "leaf_vals L fs vs = []"

definition field_result ::
  "('f, 't) bind_lib \<Rightarrow> ('f, 't) form_data \<Rightarrow> field_info \<Rightarrow> (field_err + ('f, 't) fval) option" where
  "field_result L data fi = map_option (set_value L (fi_layout fi) (fi_type fi)) (field_raw data fi)"

definition field_panics :: "('f, 't) bind_lib \<Rightarrow> ('f, 't) form_data \<Rightarrow> field_info \<Rightarrow> bool" where
  "field_panics L data fi \<longleftrightarrow> field_result L data fi = Some (Inl Panicked)"

definition field_fails :: "('f, 't) bind_lib \<Rightarrow> ('f, 't) form_data \<Rightarrow> field_info \<Rightarrow> bool" where
  "field_fails L data fi = (case field_result L data fi of Some r \<Rightarrow> isl r | None \<Rightarrow> False)"

definition bound_val ::
  "('f, 't) bind_lib \<Rightarrow> ('f, 't) form_data \<Rightarrow> field_info \<Rightarrow> ('f, 't) fval \<Rightarrow> ('f, 't) fval" where
  "bound_val L data fi v = (case field_result L data fi of Some (Inr x) \<Rightarrow> x | _ \<Rightarrow> v)"

lemma bind_field_spec:
  "case bind_field L data fi v errs of
     None \<Rightarrow> field_panics L data fi
   | Some (v', errs') \<Rightarrow> \<not> field_panics L data fi \<and> v' = bound_val L data fi v
       \<and> fst ` set errs' = fst ` set errs \<union> (if field_fails L data fi then {fi_name fi} else {})"
  by (auto simp: bind_field_def field_panics_def field_fails_def bound_val_def field_result_def dom_update
      split: option.splits sum.splits field_err.splits)

lemma leaf_vals_length: "struct_ok fs vs \<Longrightarrow> length (leaf_vals L fs vs) = length (leaves fs)"
proof (induction "size_list size fs" arbitrary: fs vs rule: less_induct)
  case less
  show ?case
  proof (cases "(fs, vs)" rule: struct_ok.cases)
    case (4 sub fs' p vs')
    then have "length (leaf_vals L sub (map (zero_struct L) sub)) = length (leaves sub)"
      using less(1) [of sub] zero_struct_ok [of sub L] by simp
    with 4 less show ?thesis by (auto split: option.splits)
  qed (use less in auto)
qed

text \<open>What becomes of fields and the errors so far: each field by itself, unless one panics.\<close>

definition bind_post ::
  "('f, 't) bind_lib \<Rightarrow> ('f, 't) form_data \<Rightarrow> field_info list \<Rightarrow> ('f, 't) fval list \<Rightarrow> errors
    \<Rightarrow> (('f, 't) fval list \<times> errors) option \<Rightarrow> bool" where
  "bind_post L data fis ws errs out = (case out of
       None \<Rightarrow> list_ex (field_panics L data) fis
     | Some (ws', errs') \<Rightarrow> \<not> list_ex (field_panics L data) fis
         \<and> ws' = map2 (bound_val L data) fis ws
         \<and> fst ` set errs' = fst ` set errs \<union> fi_name ` set (filter (field_fails L data) fis))"

lemma bind_post_append:
  assumes "bind_post L data fis ws errs out" "length ws = length fis"
    and "\<And>ws' errs1. out = Some (ws', errs1) \<Longrightarrow> bind_post L data fis2 ws2 errs1 (out2 errs1)"
  shows "bind_post L data (fis @ fis2) (ws @ ws2) errs
    (Option.bind out (\<lambda>(a, e). map_option (\<lambda>(b, e'). (a @ b, e')) (out2 e)))"
proof (cases out)
  case None
  with assms show ?thesis by (simp add: bind_post_def)
next
  case (Some p)
  obtain a e where p: "p = (a, e)" by fastforce
  from assms(3) [of a e] Some p have "bind_post L data fis2 ws2 e (out2 e)" by simp
  with assms(1,2) Some p show ?thesis
    by (cases "out2 e") (auto simp: bind_post_def image_Un)
qed

lemma bind_field_post:
  "bind_post L data [fi] [v] errs (map_option (\<lambda>(v', e). ([v'], e)) (bind_field L data fi v errs))"
  using bind_field_spec [of L data fi v errs]
  by (cases "bind_field L data fi v errs") (auto simp: bind_post_def)

definition on_leaves ::
  "('f, 't) bind_lib \<Rightarrow> sfield list \<Rightarrow> (('f, 't) sval list \<times> errors) option \<Rightarrow> (('f, 't) fval list \<times> errors) option" where
  "on_leaves L fs out = map_option (\<lambda>(vs, e). (leaf_vals L fs vs, e)) out"

lemma bind_struct_post:
  "struct_ok fs vs \<Longrightarrow>
    bind_post L data (leaves fs) (leaf_vals L fs vs) errs (on_leaves L fs (bind_struct L data fs vs errs))"
proof (induction L data fs vs errs rule: bind_struct.induct)
  case (2 L data fi fs v vs errs)
  let ?o = "bind_field L data fi v errs"
  have "bind_post L data ([fi] @ leaves fs) ([v] @ leaf_vals L fs vs) errs
      (Option.bind (map_option (\<lambda>(v', e). ([v'], e)) ?o) (\<lambda>(a, e). map_option (\<lambda>(b, e'). (a @ b, e'))
         (on_leaves L fs (bind_struct L data fs vs e))))"
    by (rule bind_post_append [OF bind_field_post]) (use 2 in \<open>auto\<close>)
  moreover have "on_leaves L (SField fi # fs) (bind_struct L data (SField fi # fs) (SVal v # vs) errs)
      = Option.bind (map_option (\<lambda>(v', e). ([v'], e)) ?o) (\<lambda>(a, e). map_option (\<lambda>(b, e'). (a @ b, e'))
         (on_leaves L fs (bind_struct L data fs vs e)))"
    by (auto simp: on_leaves_def Option.bind_map_option comp_def case_prod_unfold map_option_case split: option.splits Option.bind_split)
  ultimately show ?case by simp
next
  case (3 L data sub fs ws vs errs)
  let ?o = "bind_struct L data sub ws errs"
  have "bind_post L data (leaves sub @ leaves fs) (leaf_vals L sub ws @ leaf_vals L fs vs) errs
      (Option.bind (on_leaves L sub ?o) (\<lambda>(a, e). map_option (\<lambda>(b, e'). (a @ b, e'))
         (on_leaves L fs (bind_struct L data fs vs e))))"
    by (rule bind_post_append [OF 3(1) leaf_vals_length]) (use 3 in \<open>auto simp: on_leaves_def\<close>)
  moreover have "on_leaves L (SEmbed sub # fs) (bind_struct L data (SEmbed sub # fs) (SSub ws # vs) errs)
      = Option.bind (on_leaves L sub ?o) (\<lambda>(a, e). map_option (\<lambda>(b, e'). (a @ b, e'))
         (on_leaves L fs (bind_struct L data fs vs e)))"
    by (auto simp: on_leaves_def case_prod_unfold map_option_case split: option.splits Option.bind_split)
  ultimately show ?case by simp
next
  case (4 L data sub fs p vs errs)
  let ?ws = "case p of None \<Rightarrow> map (zero_struct L) sub | Some ws \<Rightarrow> ws"
  let ?o = "bind_struct L data sub ?ws errs"
  have ok: "struct_ok sub ?ws" using 4(3) zero_struct_ok [of sub L] by (auto split: option.splits)
  have "bind_post L data (leaves sub @ leaves fs) (leaf_vals L sub ?ws @ leaf_vals L fs vs) errs
      (Option.bind (on_leaves L sub ?o) (\<lambda>(a, e). map_option (\<lambda>(b, e'). (a @ b, e'))
         (on_leaves L fs (bind_struct L data fs vs e))))"
    by (rule bind_post_append [OF 4(1) leaf_vals_length]) (use 4 ok in \<open>auto simp: on_leaves_def\<close>)
  moreover have "on_leaves L (SEmbed_ptr sub # fs) (bind_struct L data (SEmbed_ptr sub # fs) (SPtr p # vs) errs)
      = Option.bind (on_leaves L sub ?o) (\<lambda>(a, e). map_option (\<lambda>(b, e'). (a @ b, e'))
         (on_leaves L fs (bind_struct L data fs vs e)))"
    by (auto simp: on_leaves_def case_prod_unfold map_option_case split: option.splits Option.bind_split)
  moreover have "leaf_vals L (SEmbed_ptr sub # fs) (SPtr p # vs) = leaf_vals L sub ?ws @ leaf_vals L fs vs"
    by (simp split: option.splits)
  ultimately show ?case by simp
qed (simp_all add: bind_post_def on_leaves_def)

section \<open>Data of a request\<close>

text \<open>\<open>valuesToMap\<close>: one value is a string, any other number a \<open>[]string\<close>.\<close>

definition form_values :: "string list \<Rightarrow> ('f, 't) raw" where
  "form_values vals = (case vals of
       [s] \<Rightarrow> Some (TStr, FStr s)
     | _ \<Rightarrow> Some (TSlice TStr, FSlice (map FStr vals)))"

definition values_to_map :: "multi \<Rightarrow> ('f, 't) form_data" where
  "values_to_map m = map (\<lambda>(k, vals). (k, form_values vals)) m"

lemma form_values_ok: "raw_ok (form_values vals)"
  by (auto simp: form_values_def raw_ok_def split: list.splits)

lemma values_to_map_ok: "data_ok (values_to_map m)"
  by (auto simp: data_ok_def values_to_map_def list_all_iff form_values_ok)

definition plain_raw :: "('f, 't) raw \<Rightarrow> bool" where
  "plain_raw raw \<longleftrightarrow> (\<exists>s. raw = Some (TStr, FStr s)) \<or> (\<exists>ss. raw = Some (TSlice TStr, FSlice (map FStr ss)))"

lemma form_values_text: "plain_raw (form_values vals)"
  by (auto simp: form_values_def plain_raw_def split: list.splits) (metis list.simps(8,9))+

lemma set_scalar_panics: "set_scalar L layout ft raw = Inl Panicked \<Longrightarrow> raw = None"
  by (auto simp: set_scalar_def Let_def bad_def split: option.splits if_splits list.splits gty.splits)

lemma text_items: "plain_raw (Some (rt, v)) \<Longrightarrow> i \<in> set (to_items rt v) \<Longrightarrow> \<exists>s. i = Some (TStr, FStr s)"
  by (auto simp: plain_raw_def to_items_def to_iface_def)

lemma set_single_text: "plain_raw (Some (rt, v)) \<Longrightarrow> set_single L layout ft rt v \<noteq> Inl Panicked"
  using text_items [of rt v]
  by (fastforce simp: set_single_def Let_def split: if_splits list.splits dest!: set_scalar_panics)

lemma res_map_Inl: "res_map f xs = Inl e \<Longrightarrow> \<exists>x\<in>set xs. f x = Inl e"
  by (induction xs) (auto simp: res_bind_def split: sum.splits)

lemma text_never_panics: "plain_raw raw \<Longrightarrow> set_value L layout ft raw \<noteq> Inl Panicked"
proof (induction L layout ft raw rule: set_value.induct)
  case (1 L layout ft raw)
  then obtain rt v where raw: "raw = Some (rt, v)" by (auto simp: plain_raw_def)
  note plain = 1(3) [unfolded raw]
  show ?case
  proof
    assume panic: "set_value L layout ft raw = Inl Panicked"
    note eq = panic [unfolded raw set_value.simps [of L layout ft "Some (rt, v)"], simplified]
    from eq have na: "\<not> assignable rt ft" by (auto split: if_splits)
    show False
    proof (cases "under ft")
      case (TPtr e)
      with eq na 1(1) [OF raw refl na TPtr] 1(3) show False
        by (auto simp: raw res_bind_def split: if_splits sum.splits)
    next
      case (TSlice e)
      show False
      proof (cases "under e = TUint 8")
        case False
        with eq na TSlice have "res_map (\<lambda>i. set_value L layout e i) (to_items rt v) = Inl Panicked"
          by (auto simp: res_bind_def split: sum.splits)
        then obtain i where i: "i \<in> set (to_items rt v)" "set_value L layout e i = Inl Panicked"
          using res_map_Inl by fastforce
        then have "plain_raw i" using text_items [OF plain] by (auto simp: plain_raw_def)
        with i show False using 1(2) [OF raw refl na TSlice False] by blast
      qed (use eq na TSlice set_single_text [OF plain] in simp)
    qed (use eq na set_single_text [OF plain] in simp_all)
  qed
qed

lemma request_never_panics: "\<not> field_panics L (values_to_map m) fi"
proof
  assume "field_panics L (values_to_map m) fi"
  then obtain raw where raw: "field_raw (values_to_map m) fi = Some raw"
    "set_value L (fi_layout fi) (fi_type fi) raw = Inl Panicked"
    by (auto simp: field_panics_def field_result_def)
  then have "plain_raw raw"
    by (auto simp: field_raw_def values_to_map_def form_values_text split: if_splits option.splits dest!: form_lookup_in)
  with raw(2) show False using text_never_panics by blast
qed

section \<open>Properties\<close>

text \<open>
  (C24) Types: whatever the data, \<open>Bind\<close> leaves a struct whose every field has a value of its
  declared type, integers within their bits, also where it reports errors.
\<close>

theorem bind_keeps_types:
  assumes "data_ok data" "struct_ok fs vs" "form_bind L data (Some (fs, vs)) = Some (vs', e)"
  shows "struct_ok fs vs'"
  using assms by (auto simp: form_bind_def bind_eq_Some_conv split: if_splits intro: bind_struct_ok)

definition bind_errs :: "form_bind_err option \<Rightarrow> string set" where
  "bind_errs e = (case e of Some (Bind_errors errs) \<Rightarrow> fst ` set errs | _ \<Rightarrow> {})"

lemma bind_request_spec_aux:
  assumes "struct_ok fs vs"
  shows "\<exists>vs' e. form_bind L (values_to_map m) (Some (fs, vs)) = Some (vs', e)
    \<and> leaf_vals L fs vs' = map2 (bound_val L (values_to_map m)) (leaves fs) (leaf_vals L fs vs)
    \<and> bind_errs e = fi_name ` set (filter (field_fails L (values_to_map m)) (leaves fs))
    \<and> (e = None \<longleftrightarrow> bind_errs e = {})"
proof -
  let ?d = "values_to_map m"
  have post: "bind_post L ?d (leaves fs) (leaf_vals L fs vs) [] (on_leaves L fs (bind_struct L ?d fs vs []))"
    by (rule bind_struct_post [OF assms])
  then obtain vs' errs where out: "bind_struct L ?d fs vs [] = Some (vs', errs)"
    by (cases "bind_struct L ?d fs vs []") (auto simp: bind_post_def on_leaves_def list_ex_iff request_never_panics)
  let ?e = "if errs \<noteq> [] then Some (Bind_errors errs) else None"
  have keys: "bind_errs ?e = fst ` set errs" "(?e = None) = (fst ` set errs = {})"
    by (simp_all add: bind_errs_def)
  have "leaf_vals L fs vs' = map2 (bound_val L ?d) (leaves fs) (leaf_vals L fs vs)"
    "fst ` set errs = fi_name ` set (filter (field_fails L ?d) (leaves fs))"
    using post by (simp_all add: out on_leaves_def bind_post_def)
  moreover have "form_bind L ?d (Some (fs, vs)) = Some (vs', ?e)"
    by (simp add: form_bind_def out)
  ultimately show ?thesis using keys by (intro exI conjI) auto
qed

text \<open>
  (C25) \<open>Bind\<close> on the data of a request returns, and binds each field by itself: a field the data has
  a value for gets that value converted to its type; the error names exactly the fields whose value
  does not convert, which keep what they held, as do fields without a value.
\<close>

theorem bind_request_spec:
  assumes "struct_ok fs vs"
  shows "\<exists>vs' e. form_bind L (values_to_map m) (Some (fs, vs)) = Some (vs', e)
    \<and> leaf_vals L fs vs' = map2 (bound_val L (values_to_map m)) (leaves fs) (leaf_vals L fs vs)
    \<and> bind_errs e = fi_name ` set (filter (field_fails L (values_to_map m)) (leaves fs))
    \<and> (e = None \<longleftrightarrow> bind_errs e = {})"
  by (rule bind_request_spec_aux [OF assms])

section \<open>Values written as form data\<close>

fun show_scalar :: "gty \<Rightarrow> ('f, 't) fval \<Rightarrow> string option" where
  "show_scalar (TNamed n t) v = show_scalar t v"
| "show_scalar TStr v = (case v of FStr s \<Rightarrow> Some s | _ \<Rightarrow> None)"
| "show_scalar TBool v = (case v of FBool b \<Rightarrow> Some (if b then ''true'' else ''false'') | _ \<Rightarrow> None)"
| "show_scalar (TInt b) v = (case v of FInt n \<Rightarrow> if b \<le> 64 then Some (itoa_int n) else None | _ \<Rightarrow> None)"
| "show_scalar (TUint b) v = (case v of FUint n \<Rightarrow> Some (itoa n) | _ \<Rightarrow> None)"
| "show_scalar (TPtr t) v = (case v of
       FNil \<Rightarrow> if under t \<noteq> TStr then Some [] else None
     | FPtr w \<Rightarrow> (case show_scalar t w of
         Some s \<Rightarrow> if trim_space s = [] \<and> under t \<noteq> TStr then None else Some s
       | None \<Rightarrow> None)
     | _ \<Rightarrow> None)"
| "show_scalar t v = None"

definition form_strings :: "gty \<Rightarrow> ('f, 't) fval \<Rightarrow> string list option" where
  "form_strings t v = (case show_scalar t v of
       Some s \<Rightarrow> Some [s]
     | None \<Rightarrow> (case (under t, v) of
           (TSlice e, FSlice vs) \<Rightarrow> if under e = TUint 8 then None else those (map (show_scalar e) vs)
         | _ \<Rightarrow> None))"

fun form_of :: "field_info list \<Rightarrow> ('f, 't) fval list \<Rightarrow> multi option" where
  "form_of (fi # fis) (v # ws) = (case (field_key fi, form_strings (fi_type fi) v, form_of fis ws) of
       (Some k, Some ss, Some m) \<Rightarrow> Some ((k, ss) # m)
     | _ \<Rightarrow> None)"
| "form_of [] [] = Some []"
| "form_of fis ws = None"

lemma show_scalar_under: "show_scalar (under t) v = show_scalar t v"
  by (induction t) auto

lemma under_under [simp]: "under (under t) = under t"
  by (induction t) auto

lemma zero_val_under: "zero_val L (under t) = zero_val L t"
  by (induction t) auto

lemma no_space_char:
  "is_digit c \<or> c = CHR ''-'' \<Longrightarrow> c \<notin> hd ` set space_runes \<and> c \<notin> last ` set space_runes"
  by (auto simp: space_runes_def is_digit_def)

lemma trim_digits:
  assumes "s \<noteq> []" "\<And>c. c \<in> set s \<Longrightarrow> is_digit c \<or> c = CHR ''-''"
  shows "trim_space s = s"
proof (rule trim_space_id)
  show "hd s \<notin> hd ` set space_runes"
    using no_space_char [OF assms(2) [OF hd_in_set [OF assms(1)]]] by blast
  show "last s \<notin> last ` set space_runes"
    using no_space_char [OF assms(2) [OF last_in_set [OF assms(1)]]] by blast
qed (rule assms(1))

lemma trim_itoa: "trim_space (itoa n) = itoa n"
  by (rule trim_digits) (auto dest: itoa_digits)

lemma trim_itoa_int: "trim_space (itoa_int n) = itoa_int n"
  by (rule trim_digits) (auto simp: itoa_int_def dest: itoa_digits split: if_splits)

lemma under_not_named [simp]: "under t \<noteq> TNamed n u"
  by (induction t) auto

lemma those_Some: "those xs = Some ys \<longleftrightarrow> xs = map Some ys"
  by (induction xs arbitrary: ys) (auto split: option.splits)

lemma bool_words: "trim_space ''true'' = ''true''" "trim_space ''false'' = ''false''"
  "form_parse_bool ''true'' = Some True" "form_parse_bool ''false'' = Some False"
  by code_simp+

lemma set_single_str: "set_single L layout ft TStr (FStr s) = set_scalar L layout ft (Some (TStr, FStr s))"
  by (simp add: set_single_def to_items_def is_scalar_type_def)

lemma assignable_str: "assignable TStr t \<Longrightarrow> t = TStr \<or> under t = TAny"
  by (cases t) (auto simp: assignable_def)

lemma parse_int_bits_itoa:
  "b \<le> 64 \<Longrightarrow> - (2 ^ (b - 1)) \<le> n \<Longrightarrow> n < 2 ^ (b - 1) \<Longrightarrow> parse_int_bits b (itoa_int n) = Some n"
proof -
  assume b: "b \<le> 64" "- (2 ^ (b - 1)) \<le> n" "n < 2 ^ (b - 1)"
  have "(2::int) ^ (b - 1) \<le> 2 ^ 63" using b(1) by (intro power_increasing) auto
  with b(2,3) have "- (2 ^ 63) \<le> n" "n < 2 ^ 63" by linarith+
  then have "parse_int64 (itoa_int n) = Some n" by (rule parse_int64_itoa_int)
  with b show ?thesis by (simp add: parse_int_bits_def)
qed

lemma parse_uint_bits_itoa: "n < 2 ^ b \<Longrightarrow> parse_uint_bits b (itoa n) = Some n"
  by (auto simp: parse_uint_bits_def list_all_iff dest: itoa_digits)

lemma set_value_show:
  "has_type t v \<Longrightarrow> show_scalar t v = Some s \<Longrightarrow> set_value L layout t (Some (TStr, FStr s)) = Inr v"
proof (induction "size t" arbitrary: t v rule: less_induct)
  case less
  have ty: "has_type (under t) v" and sh: "show_scalar (under t) v = Some s"
    using less(2,3) by (simp_all add: has_type_under show_scalar_under)
  have na: "under t = TStr \<or> \<not> assignable TStr t"
    using sh assignable_str [of t] by (cases v) auto
  have time: "under t \<noteq> TTime" using sh by auto
  show ?case
  proof (cases "under t")
    case TStr
    with sh obtain "v = FStr s" by (cases v) auto
    with TStr time show ?thesis
      by (auto simp: set_value.simps [of L layout t] set_single_str set_scalar_def store_def scalar_string_def Let_def)
  next
    case TBool
    with sh obtain b where "v = FBool b" "s = (if b then ''true'' else ''false'')" by (cases v) auto
    with TBool na time show ?thesis
      by (auto simp: set_value.simps [of L layout t] set_single_str set_scalar_def scalar_string_def Let_def bool_words)
  next
    case (TInt b)
    with sh ty obtain n where n: "v = FInt n" "s = itoa_int n" "b \<le> 64" "- (2 ^ (b - 1)) \<le> n" "n < 2 ^ (b - 1)"
      by (cases v) (auto split: if_splits)
    then have "itoa_int n \<noteq> []" by (auto simp: itoa_int_def)
    with n TInt na time parse_int_bits_itoa [OF n(3-5)] show ?thesis
      by (auto simp: set_value.simps [of L layout t] set_single_str set_scalar_def scalar_string_def Let_def trim_itoa_int)
  next
    case (TUint b)
    with sh ty obtain n where n: "v = FUint n" "s = itoa n" "n < 2 ^ b" by (cases v) auto
    with TUint na time parse_uint_bits_itoa [OF n(3)] show ?thesis
      by (auto simp: set_value.simps [of L layout t] set_single_str set_scalar_def scalar_string_def Let_def trim_itoa)
  next
    case (TPtr e)
    show ?thesis
    proof (cases v)
      case FNil
      with TPtr sh have "s = []" "under e \<noteq> TStr" by (auto split: if_splits)
      moreover have "trim_space [] = []" by code_simp
      ultimately show ?thesis using TPtr FNil na zero_val_under [of L t]
        by (auto simp: set_value.simps [of L layout t] single_string_def)
    next
      case (FPtr w)
      with TPtr sh obtain "show_scalar e w = Some s" "trim_space s \<noteq> [] \<or> under e = TStr"
        by (auto split: option.splits if_splits)
      moreover from this(1) have "set_value L layout e (Some (TStr, FStr s)) = Inr w"
        using less(1) [of e w] TPtr FPtr ty under_smaller by simp
      ultimately show ?thesis using TPtr FPtr na
        by (auto simp: set_value.simps [of L layout t] single_string_def)
    qed (use TPtr sh in auto)
  qed (use sh in simp_all)
qed

lemma map_Some_list_all2:
  "map f vs = map Some ss \<Longrightarrow> (\<And>x s. x \<in> set vs \<Longrightarrow> f x = Some s \<Longrightarrow> Q s x) \<Longrightarrow> list_all2 Q ss vs"
proof (induction vs arbitrary: ss)
  case (Cons v vs)
  then show ?case by (cases ss) auto
qed simp

lemma to_items_strings:
  "to_items (TSlice TStr) (FSlice (map FStr ss)) = map (\<lambda>s. Some (TStr, FStr s)) ss"
  by (simp add: to_items_def to_iface_def)

lemma form_strings_bind:
  assumes ty: "has_type t v" and ss: "form_strings t v = Some ss"
  shows "set_value L layout t (form_values ss) = Inr v"
proof (cases "show_scalar t v")
  case (Some s)
  with ss have "ss = [s]" by (simp add: form_strings_def)
  with ty Some show ?thesis by (simp add: form_values_def set_value_show)
next
  case None
  with ss obtain e vs where e: "under t = TSlice e" "v = FSlice vs" "under e \<noteq> TUint 8"
    "those (map (show_scalar e) vs) = Some ss"
    by (auto simp: form_strings_def split: gty.splits fval.splits if_splits)
  have "has_type (under t) v" using ty by (simp add: has_type_under)
  with e have elems: "\<forall>x\<in>set vs. has_type e x" by simp
  from e(4) have shown: "map (show_scalar e) vs = map Some ss" by (simp add: those_Some)
  have "list_all2 (\<lambda>s x. set_value L layout e (Some (TStr, FStr s)) = Inr x) ss vs"
    using shown by (rule map_Some_list_all2) (use elems set_value_show in blast)
  then have items: "res_map (\<lambda>i. set_value L layout e i) (map (\<lambda>s. Some (TStr, FStr s)) ss) = Inr vs"
    by (simp add: res_map_Inr_iff list_all2_map1)
  show ?thesis
  proof (cases "\<exists>s. ss = [s]")
    case True
    then obtain s where s: "ss = [s]" ..
    moreover have "\<not> assignable TStr t" using assignable_str [of t] e(1) by auto
    ultimately show ?thesis using e items
      by (simp add: form_values_def set_value.simps [of L layout t] to_items_def)
  next
    case False
    then have raw: "form_values ss = Some (TSlice TStr, FSlice (map FStr ss))"
      by (auto simp: form_values_def split: list.splits)
    show ?thesis
    proof (cases "assignable (TSlice TStr) t")
      case True
      with e(1) have "e = TStr" by (auto simp: assignable_def)
      with shown have "list_all2 (\<lambda>s x. FStr s = x) ss vs"
        by (intro map_Some_list_all2) (auto split: fval.splits)
      then have "vs = map FStr ss" by (induction rule: list_all2_induct) auto
      with True e show ?thesis unfolding raw by (simp add: set_value.simps [of L layout t] store_def)
    next
      case na: False
      with e items show ?thesis
        unfolding raw by (simp add: set_value.simps [of L layout t] to_items_strings)
    qed
  qed
qed

lemma values_to_map_of:
  assumes "distinct (map fst m)" "(k, ss) \<in> set m"
  shows "map_of (values_to_map m) k = Some (form_values ss)"
proof (rule map_of_is_SomeI)
  show "distinct (map fst (values_to_map m))"
    using assms(1) by (simp add: values_to_map_def case_prod_unfold comp_def)
  show "(k, form_values ss) \<in> set (values_to_map m)" using assms(2) by (force simp: values_to_map_def)
qed

lemma form_of_result:
  "form_of fis ws = Some m \<Longrightarrow> distinct (map fst m) \<Longrightarrow> list_all fi_exported fis \<Longrightarrow>
    list_all2 (\<lambda>fi v. has_type (fi_type fi) v) fis ws \<Longrightarrow>
    list_all2 (\<lambda>fi v. field_result L (values_to_map m) fi = Some (Inr v)) fis ws"
proof -
  assume a: "form_of fis ws = Some m" "distinct (map fst m)" "list_all fi_exported fis"
    "list_all2 (\<lambda>fi v. has_type (fi_type fi) v) fis ws"
  have "form_of fis ws = Some m0 \<Longrightarrow> set m0 \<subseteq> set m \<Longrightarrow> list_all fi_exported fis \<Longrightarrow>
      list_all2 (\<lambda>fi v. has_type (fi_type fi) v) fis ws \<Longrightarrow>
      list_all2 (\<lambda>fi v. field_result L (values_to_map m) fi = Some (Inr v)) fis ws" for m0
  proof (induction fis ws arbitrary: m0 rule: form_of.induct)
    case (1 fi fis v ws)
    then obtain k ss m1 where k: "field_key fi = Some k" "form_strings (fi_type fi) v = Some ss"
      "form_of fis ws = Some m1" "m0 = (k, ss) # m1"
      by (auto split: option.splits)
    moreover have "(k, ss) \<in> set m" using 1(3) k(4) by auto
    ultimately have "field_result L (values_to_map m) fi = Some (Inr v)"
      using 1(4,5) k(1) form_strings_bind [OF _ k(2)]
      by (simp add: field_result_def field_raw_def form_lookup_def values_to_map_of [OF a(2)])
    with 1 k show ?case by auto
  qed auto
  from this [OF a(1) order_refl a(3,4)] show ?thesis .
qed

lemma leaf_vals_typed: "struct_ok fs vs \<Longrightarrow> list_all2 (\<lambda>fi v. has_type (fi_type fi) v) (leaves fs) (leaf_vals L fs vs)"
proof (induction "size_list size fs" arbitrary: fs vs rule: less_induct)
  case less
  show ?case
  proof (cases "(fs, vs)" rule: struct_ok.cases)
    case (4 sub fs' p vs')
    then have "list_all2 (\<lambda>fi v. has_type (fi_type fi) v) (leaves sub) (leaf_vals L sub (map (zero_struct L) sub))"
      using less(1) [of sub] zero_struct_ok [of sub L] by simp
    with 4 less show ?thesis by (auto intro: list_all2_appendI split: option.splits)
  qed (use less in \<open>auto intro: list_all2_appendI\<close>)
qed

text \<open>
  Round trip: the values of a struct of strings, booleans, integers, pointers to them and slices
  of them, written as the values of a form, bind back to a struct with these values, without an
  error and whatever the struct held before.
\<close>

theorem bind_roundtrip:
  assumes "struct_ok fs vs" "struct_ok fs vs0"
    and "form_of (leaves fs) (leaf_vals L fs vs) = Some m"
    and "distinct (map fst m)" "list_all fi_exported (leaves fs)"
  shows "\<exists>vs'. form_bind L (values_to_map m) (Some (fs, vs0)) = Some (vs', None)
    \<and> leaf_vals L fs vs' = leaf_vals L fs vs"
proof -
  let ?d = "values_to_map m"
  have res: "list_all2 (\<lambda>fi v. field_result L ?d fi = Some (Inr v)) (leaves fs) (leaf_vals L fs vs)"
    using form_of_result [OF assms(3-5) leaf_vals_typed [OF assms(1)]] .
  obtain vs' e where bind: "form_bind L ?d (Some (fs, vs0)) = Some (vs', e)"
    "leaf_vals L fs vs' = map2 (bound_val L ?d) (leaves fs) (leaf_vals L fs vs0)"
    "bind_errs e = fi_name ` set (filter (field_fails L ?d) (leaves fs))" "e = None \<longleftrightarrow> bind_errs e = {}"
    using bind_request_spec_aux [OF assms(2), of L m] by blast
  have "\<not> field_fails L ?d fi" if "fi \<in> set (leaves fs)" for fi
    using res that by (auto simp: list_all2_conv_all_nth in_set_conv_nth field_fails_def)
  then have "bind_errs e = {}" using bind(3) by auto
  moreover have "map2 (bound_val L ?d) (leaves fs) (leaf_vals L fs vs0) = leaf_vals L fs vs"
    using res leaf_vals_length [OF assms(2), of L]
    by (auto simp: list_eq_iff_nth_eq list_all2_conv_all_nth bound_val_def)
  ultimately show ?thesis using bind by auto
qed

text \<open>A value \<open>[]any\<close> with nil at its start for a field that is no slice, pointer or interface makes \<open>Bind\<close> panic.\<close>

lemma nil_item_panics: "set_value L layout (TInt b) (Some (TSlice TAny, FSlice (FNil # xs))) = Inl Panicked"
  by (simp add: set_value.simps [of _ _ "TInt b"] assignable_def set_single_def to_items_def to_iface_def
      is_scalar_type_def set_scalar_def)

section \<open>Witnesses\<close>

definition demo_bind_lib :: "(int, int) bind_lib" where
  "demo_bind_lib = \<lparr>bl_zero_float = 0, bl_zero_time = 0, bl_sprint = (\<lambda>_ _. []), bl_quote = id,
     bl_float = (\<lambda>_ _. None), bl_time = (\<lambda>_ _. None), bl_type_name = (\<lambda>_. ''T'')\<rparr>"

definition demo_field :: "string \<Rightarrow> string option \<Rightarrow> gty \<Rightarrow> field_info" where
  "demo_field name tag t = \<lparr>fi_name = name, fi_form_tag = tag, fi_json_tag = None, fi_layout = [], fi_exported = True, fi_type = t\<rparr>"

definition demo_fields :: "sfield list" where
  "demo_fields = [SField (demo_field ''N'' (Some ''n'') TStr), SEmbed [SField (demo_field ''A'' None (TPtr (TInt 8)))],
     SEmbed_ptr [SField (demo_field ''T'' (Some ''t'') (TSlice (TUint 16)))]]"

definition demo_struct :: "(int, int) sval list" where
  "demo_struct = [SVal (FStr ''x''), SSub [SVal (FPtr (FInt (- 7)))], SPtr (Some [SVal (FSlice [FUint 1, FUint 2])])]"

definition demo_empty :: "(int, int) sval list" where
  "demo_empty = map (zero_struct demo_bind_lib) demo_fields"

definition demo_bad_form :: multi where
  "demo_bad_form = [(''A'', [''128'']), (''n'', [''y'', ''z''])]"

lemma demo_empty_ok: "struct_ok demo_fields demo_empty"
  by (simp add: demo_empty_def zero_struct_ok)

lemma demo_struct_ok: "struct_ok demo_fields demo_struct"
  by (simp add: demo_fields_def demo_struct_def demo_field_def)

theorem bind_request_spec_witness:
  "\<exists>vs' e. form_bind demo_bind_lib (values_to_map demo_bad_form) (Some (demo_fields, demo_empty)) = Some (vs', e)
    \<and> bind_errs e = {''A''}"
proof -
  have "set (filter (field_fails demo_bind_lib (values_to_map demo_bad_form)) (leaves demo_fields)) = {demo_field ''A'' None (TPtr (TInt 8))}"
    by code_simp
  moreover have "fi_name (demo_field ''A'' None (TPtr (TInt 8))) = ''A''" by (simp add: demo_field_def)
  ultimately show ?thesis
    using bind_request_spec [OF demo_empty_ok, of demo_bind_lib demo_bad_form] by auto
qed

theorem bind_keeps_types_witness:
  "\<exists>vs' e. form_bind demo_bind_lib (values_to_map demo_bad_form) (Some (demo_fields, demo_empty)) = Some (vs', e)
    \<and> struct_ok demo_fields vs' \<and> e \<noteq> None"
proof -
  have "form_bind demo_bind_lib (values_to_map demo_bad_form) (Some (demo_fields, demo_empty)) \<noteq> None"
    "map_option snd (form_bind demo_bind_lib (values_to_map demo_bad_form) (Some (demo_fields, demo_empty))) \<noteq> Some None"
    by code_simp+
  then obtain vs' e where "form_bind demo_bind_lib (values_to_map demo_bad_form) (Some (demo_fields, demo_empty)) = Some (vs', e)"
    "e \<noteq> None" by auto
  with bind_keeps_types [OF values_to_map_ok demo_empty_ok this(1)] show ?thesis by blast
qed

theorem bind_roundtrip_witness:
  "\<exists>vs'. form_bind demo_bind_lib (values_to_map [(''n'', [''x'']), (''A'', [''-7'']), (''t'', [''1'', ''2''])])
      (Some (demo_fields, demo_empty)) = Some (vs', None)
    \<and> leaf_vals demo_bind_lib demo_fields vs' = [FStr ''x'', FPtr (FInt (- 7)), FSlice [FUint 1, FUint 2]]"
proof -
  have "form_of (leaves demo_fields) (leaf_vals demo_bind_lib demo_fields demo_struct)
      = Some [(''n'', [''x'']), (''A'', [''-7'']), (''t'', [''1'', ''2''])]" by code_simp
  moreover have "list_all fi_exported (leaves demo_fields)" by code_simp
  moreover have "leaf_vals demo_bind_lib demo_fields demo_struct = [FStr ''x'', FPtr (FInt (- 7)), FSlice [FUint 1, FUint 2]]"
    by (simp add: demo_fields_def demo_struct_def)
  ultimately show ?thesis
    using bind_roundtrip [OF demo_struct_ok demo_empty_ok, of demo_bind_lib] by simp
qed

end
