(* ===== verification/Validation.thy ===== *)
theory Validation
  imports Validate
begin

text \<open>
  \<open>pkg/validation\<close>: the rule engine (\<open>rules.go\<close>), its messages (\<open>messages.go\<close>) and the
  struct and JSON entry points (\<open>validation.go\<close>).

  A value of type \<open>any\<close> is a \<open>dval\<close>, by the distinctions the engine makes; \<open>DNamed\<close> is a
  value of a defined type over the underlying one, with the result of its \<open>String\<close> method
  where it has one, so that a type switch does not see it as the underlying type but
  \<open>reflect\<close> does. What \<open>fmt\<close> prints for a value and what go-playground/validator answers for a
  tag are the parameters \<open>rl_sprint\<close> and \<open>rl_var\<close>.
\<close>

section \<open>Values\<close>

datatype 'f dval =
    DNil
  | DBool bool
  | DInt int
  | DUint nat
  | DFloat 'f
  | DFloat32 'f
  | DNumber string \<comment> \<open>\<open>json.Number\<close>\<close>
  | DStr string
  | DBytes string
  | DList "'f dval list"
  | DMap "(string \<times> 'f dval) list"
  | DPtr "'f dval option"
  | DNamed "string option" "'f dval"
  | DOther string

datatype pg_result = Pg_ok bool | Pg_panic string

record 'f rule_lib =
  rl_valid :: "'f valid_lib"
  rl_sprint :: "'f dval \<Rightarrow> string" \<comment> \<open>\<open>fmt.Sprintf("%v", v)\<close>\<close>
  rl_var :: "'f dval \<Rightarrow> string \<Rightarrow> pg_result" \<comment> \<open>\<open>v().Var(s, tag) == nil\<close>, or its panic\<close>

definition rl_float :: "'f rule_lib \<Rightarrow> 'f float_ops" where
  "rl_float L = vl_float (rl_valid L)"

fun to_str :: "'f rule_lib \<Rightarrow> 'f dval \<Rightarrow> string" where
  "to_str L DNil = []"
| "to_str L (DStr s) = s"
| "to_str L (DNumber s) = s"
| "to_str L (DBool b) = (if b then ''true'' else ''false'')"
| "to_str L (DFloat f) = f_format (rl_float L) f"
| "to_str L (DFloat32 f) = f_format32 (rl_float L) f"
| "to_str L (DInt i) = itoa_int i"
| "to_str L (DUint n) = itoa n"
| "to_str L (DNamed (Some s) v) = s"
| "to_str L v = rl_sprint L v"

fun as_slice :: "'f dval \<Rightarrow> 'f dval list option" where
  "as_slice (DList vs) = Some vs"
| "as_slice (DNamed m (DList vs)) = Some vs"
| "as_slice (DNamed m (DBytes s)) = Some (map (\<lambda>c. DUint (of_char c)) s)"
| "as_slice v = None"

definition each_scalar :: "'f dval \<Rightarrow> ('f dval \<Rightarrow> bool) \<Rightarrow> bool" where
  "each_scalar v f = (case as_slice v of Some items \<Rightarrow> list_all f items | None \<Rightarrow> f v)"

fun is_empty :: "'f dval \<Rightarrow> bool" where
  "is_empty DNil = True"
| "is_empty (DStr s) = (trim_space s = [])"
| "is_empty (DMap m) = (m = [])"
| "is_empty (DNamed n (DMap m)) = (m = [])"
| "is_empty (DPtr p) = (p = None)"
| "is_empty (DNamed n (DPtr p)) = (p = None)"
| "is_empty v = (case as_slice v of Some items \<Rightarrow> items = [] | None \<Rightarrow> False)"

fun number_kind :: "'f dval \<Rightarrow> bool" where
  "number_kind (DInt i) = True"
| "number_kind (DUint n) = True"
| "number_kind (DFloat f) = True"
| "number_kind (DFloat32 f) = True"
| "number_kind (DNamed m v) = number_kind v"
| "number_kind v = False"

fun is_number_type :: "'f dval \<Rightarrow> bool" where
  "is_number_type (DNumber s) = True"
| "is_number_type v = number_kind v"

definition string_to_float :: "'f rule_lib \<Rightarrow> string \<Rightarrow> 'f option" where
  "string_to_float L s0 =
     (let s = trim_space s0 in if is_numeric (rl_valid L) s then f_parse (rl_float L) s else None)"

fun to_float :: "'f rule_lib \<Rightarrow> 'f dval \<Rightarrow> 'f option" where
  "to_float L (DNumber s) = f_parse (rl_float L) s"
| "to_float L (DInt i) = Some (f_of_int (rl_float L) i)"
| "to_float L (DUint n) = Some (f_of_int (rl_float L) (int n))"
| "to_float L (DFloat f) = Some f"
| "to_float L (DFloat32 f) = Some f"
| "to_float L (DStr s) = string_to_float L s"
| "to_float L (DNamed m v) = to_float L v"
| "to_float L v = None"

definition is_numeric_value :: "'f rule_lib \<Rightarrow> 'f dval \<Rightarrow> bool" where
  "is_numeric_value L v \<longleftrightarrow> to_float L v \<noteq> None"

definition is_integer_value :: "'f rule_lib \<Rightarrow> 'f dval \<Rightarrow> bool" where
  "is_integer_value L v = (case v of DStr s \<Rightarrow> is_integer s
     | _ \<Rightarrow> (case to_float L v of None \<Rightarrow> False
        | Some f \<Rightarrow> f_eq (rl_float L) f (f_of_int (rl_float L) (f_to_int64 (rl_float L) f))))"

definition is_boolean_value :: "'f rule_lib \<Rightarrow> 'f dval \<Rightarrow> bool" where
  "is_boolean_value L v = (case v of DBool b \<Rightarrow> True | DStr s \<Rightarrow> is_boolean s
     | _ \<Rightarrow> (case to_float L v of None \<Rightarrow> False
        | Some f \<Rightarrow> is_number_type v \<and>
            (f_eq (rl_float L) f (f_of_int (rl_float L) 0) \<or> f_eq (rl_float L) f (f_of_int (rl_float L) 1))))"

text \<open>What \<open>min\<close>, \<open>max\<close>, \<open>size\<close> and \<open>between\<close> compare, and the kind of its message.\<close>

definition measure_of :: "'f rule_lib \<Rightarrow> bool \<Rightarrow> 'f dval \<Rightarrow> ('f \<times> string) option" where
  "measure_of L numeric_ctx v = (case as_slice v of
       Some items \<Rightarrow> Some (f_of_int (rl_float L) (int (length items)), ''array'')
     | None \<Rightarrow>
         if numeric_ctx then map_option (\<lambda>f. (f, ''numeric'')) (to_float L v)
         else Some (f_of_int (rl_float L) (int (rune_count (to_str L v))), ''string''))"

definition equal_values :: "'f rule_lib \<Rightarrow> 'f dval \<Rightarrow> 'f dval \<Rightarrow> bool" where
  "equal_values L a b = (case (as_slice a, as_slice b) of
       (Some xs, Some ys) \<Rightarrow> map (to_str L) xs = map (to_str L) ys
     | (None, None) \<Rightarrow>
         if a = DNil \<or> b = DNil then a = DNil \<and> b = DNil else to_str L a = to_str L b
     | _ \<Rightarrow> False)"

section \<open>Rules\<close>

record rule_spec =
  rs_raw :: string
  rs_name :: string
  rs_arg :: string
  rs_has_arg :: bool

definition parse_rule :: "string \<Rightarrow> rule_spec" where
  "parse_rule raw0 = (let raw = trim_space raw0; nm = takeWhile (\<lambda>c. c \<noteq> CHR '':'' \<and> c \<noteq> CHR ''='') raw in
     if length nm < length raw
     then \<lparr>rs_raw = raw, rs_name = trim_space nm, rs_arg = drop (length nm + 1) raw, rs_has_arg = True\<rparr>
     else \<lparr>rs_raw = raw, rs_name = raw, rs_arg = [], rs_has_arg = False\<rparr>)"

text \<open>\<open>SplitRules\<close>: \<open>b\<close> is the text of the rule read so far.\<close>

fun split_rules_from :: "string \<Rightarrow> string \<Rightarrow> string list" where
  "split_rules_from b [] = [b]"
| "split_rules_from b [c] = (if c = CHR ''|'' then [b, []] else [b @ [c]])"
| "split_rules_from b (c # d # s) =
     (if c = CHR 0x5C \<and> d = CHR ''|'' then split_rules_from (b @ ''|'') s
      else if c = CHR ''|'' then b # split_rules_from [] (d # s)
      else split_rules_from (b @ [c]) (d # s))"

definition split_rules :: "string \<Rightarrow> string list" where
  "split_rules s = split_rules_from [] s"

definition has_rule :: "string list \<Rightarrow> rule_spec list \<Rightarrow> bool" where
  "has_rule names specs = list_ex (\<lambda>s. rs_name s \<in> set names) specs"

definition split_list :: "string \<Rightarrow> string list" where
  "split_list s = map trim_space (split_on (CHR '','') s)"

definition date_layouts :: "string list" where
  "date_layouts =
     [''2006-01-02T15:04:05Z07:00'', ''2006-01-02T15:04'', ''2006-01-02 15:04:05'', ''2006-01-02 15:04'',
      ''2006-01-02'', ''02.01.2006 15:04'', ''02.01.2006'']"

definition parse_date :: "'f rule_lib \<Rightarrow> string list \<Rightarrow> string \<Rightarrow> bool" where
  "parse_date L layouts s0 =
     (let s = trim_space s0 in s \<noteq> [] \<and> list_ex (\<lambda>l. vl_time (rl_valid L) l s) layouts)"

text \<open>
  \<open>compileRegex\<close>: the expression compiled for a pattern, and the compilation through the cache,
  which holds compiled expressions by pattern.
\<close>

definition regex_expr :: "string \<Rightarrow> string" where
  "regex_expr p =
     (if 2 \<le> length p \<and> hd p = CHR ''/'' then
        (case last_index_byte (CHR ''/'') p of
           Some e \<Rightarrow>
             if 0 < e then
               (let flags = drop (e + 1) p; body = take (e - 1) (drop 1 p) in
                if list_all (\<lambda>c. c \<in> set ''imsU'') flags
                then (if flags \<noteq> [] then ''(?'' @ flags @ '')'' @ body else body)
                else p)
             else p
         | None \<Rightarrow> p)
      else p)"

definition compile_regex ::
  "'f rule_lib \<Rightarrow> (string \<rightharpoonup> (string \<Rightarrow> bool)) \<Rightarrow> string \<Rightarrow> (string \<Rightarrow> bool) option \<times> (string \<rightharpoonup> (string \<Rightarrow> bool))" where
  "compile_regex L cache p = (case cache p of
       Some re \<Rightarrow> (Some re, cache)
     | None \<Rightarrow> (case vl_regex (rl_valid L) (regex_expr p) of
           None \<Rightarrow> (None, cache)
         | Some re \<Rightarrow> (Some re, cache(p \<mapsto> re))))"

section \<open>Messages\<close>

definition default_messages :: "(string \<times> string) list" where
  "default_messages = [
    (''required'', ''{field} alan'' @ [CHR 0xC4, CHR 0xB1] @ '' zorunlu''),
    (''email'', ''{field} ge'' @ [CHR 0xC3, CHR 0xA7] @ ''erli bir email olmal'' @ [CHR 0xC4, CHR 0xB1]),
    (''url'', ''{field} ge'' @ [CHR 0xC3, CHR 0xA7] @ ''erli bir URL olmal'' @ [CHR 0xC4, CHR 0xB1]),
    (''min.string'', ''{field} en az {min} karakter olmal'' @ [CHR 0xC4, CHR 0xB1]),
    (''min.numeric'', ''{field} en az {min} olmal'' @ [CHR 0xC4, CHR 0xB1]),
    (''min.array'', ''{field} en az {min} '' @ [CHR 0xC3, CHR 0xB6, CHR 0xC4, CHR 0x9F] @ ''e i'' @ [CHR 0xC3, CHR 0xA7] @ ''ermeli''),
    (''max.string'', ''{field} en fazla {max} karakter olmal'' @ [CHR 0xC4, CHR 0xB1]),
    (''max.numeric'', ''{field} en fazla {max} olmal'' @ [CHR 0xC4, CHR 0xB1]),
    (''max.array'', ''{field} en fazla {max} '' @ [CHR 0xC3, CHR 0xB6, CHR 0xC4, CHR 0x9F] @ ''e i'' @ [CHR 0xC3, CHR 0xA7] @ ''ermeli''),
    (''between.string'', ''{field} {min} ile {max} karakter aras'' @ [CHR 0xC4, CHR 0xB1] @ ''nda olmal'' @ [CHR 0xC4, CHR 0xB1]),
    (''between.numeric'', ''{field} {min} ile {max} aras'' @ [CHR 0xC4, CHR 0xB1] @ ''nda olmal'' @ [CHR 0xC4, CHR 0xB1]),
    (''between.array'', ''{field} {min} ile {max} aras'' @ [CHR 0xC4, CHR 0xB1] @ ''nda '' @ [CHR 0xC3, CHR 0xB6, CHR 0xC4, CHR 0x9F] @ ''e i'' @ [CHR 0xC3, CHR 0xA7] @ ''ermeli''),
    (''size.string'', ''{field} {param} karakter olmal'' @ [CHR 0xC4, CHR 0xB1]),
    (''size.numeric'', ''{field} {param} olmal'' @ [CHR 0xC4, CHR 0xB1]),
    (''size.array'', ''{field} {param} '' @ [CHR 0xC3, CHR 0xB6, CHR 0xC4, CHR 0x9F] @ ''e i'' @ [CHR 0xC3, CHR 0xA7] @ ''ermeli''),
    (''in'', ''{field} i'' @ [CHR 0xC3, CHR 0xA7] @ ''in se'' @ [CHR 0xC3, CHR 0xA7] @ ''ilen de'' @ [CHR 0xC4, CHR 0x9F] @ ''er ge'' @ [CHR 0xC3, CHR 0xA7] @ ''ersiz''),
    (''not_in'', ''{field} i'' @ [CHR 0xC3, CHR 0xA7] @ ''in se'' @ [CHR 0xC3, CHR 0xA7] @ ''ilen de'' @ [CHR 0xC4, CHR 0x9F] @ ''er ge'' @ [CHR 0xC3, CHR 0xA7] @ ''ersiz''),
    (''confirmed'', ''{field} do'' @ [CHR 0xC4, CHR 0x9F] @ ''rulamas'' @ [CHR 0xC4, CHR 0xB1] @ '' e'' @ [CHR 0xC5, CHR 0x9F] @ ''le'' @ [CHR 0xC5, CHR 0x9F] @ ''miyor''),
    (''same'', ''{field} ile {other} e'' @ [CHR 0xC5, CHR 0x9F] @ ''le'' @ [CHR 0xC5, CHR 0x9F] @ ''meli''),
    (''different'', ''{field} ile {other} farkl'' @ [CHR 0xC4, CHR 0xB1] @ '' olmal'' @ [CHR 0xC4, CHR 0xB1]),
    (''numeric'', ''{field} say'' @ [CHR 0xC4, CHR 0xB1] @ '' olmal'' @ [CHR 0xC4, CHR 0xB1]),
    (''integer'', ''{field} tam say'' @ [CHR 0xC4, CHR 0xB1] @ '' olmal'' @ [CHR 0xC4, CHR 0xB1]),
    (''alpha'', ''{field} yaln'' @ [CHR 0xC4, CHR 0xB1] @ ''zca harf i'' @ [CHR 0xC3, CHR 0xA7] @ ''ermeli''),
    (''alpha_num'', ''{field} yaln'' @ [CHR 0xC4, CHR 0xB1] @ ''zca harf ve rakam i'' @ [CHR 0xC3, CHR 0xA7] @ ''ermeli''),
    (''regex'', ''{field} bi'' @ [CHR 0xC3, CHR 0xA7] @ ''imi ge'' @ [CHR 0xC3, CHR 0xA7] @ ''ersiz''),
    (''not_regex'', ''{field} bi'' @ [CHR 0xC3, CHR 0xA7] @ ''imi ge'' @ [CHR 0xC3, CHR 0xA7] @ ''ersiz''),
    (''boolean'', ''{field} do'' @ [CHR 0xC4, CHR 0x9F] @ ''ru ya da yanl'' @ [CHR 0xC4, CHR 0xB1, CHR 0xC5, CHR 0x9F] @ '' olmal'' @ [CHR 0xC4, CHR 0xB1]),
    (''date'', ''{field} ge'' @ [CHR 0xC3, CHR 0xA7] @ ''erli bir tarih olmal'' @ [CHR 0xC4, CHR 0xB1]),
    (''array'', ''{field} bir dizi olmal'' @ [CHR 0xC4, CHR 0xB1]),
    (''unknown_rule'', ''{field} i'' @ [CHR 0xC3, CHR 0xA7] @ ''in bilinmeyen do'' @ [CHR 0xC4, CHR 0x9F] @ ''rulama kural'' @ [CHR 0xC4, CHR 0xB1] @ '': {rule}''),
    (''invalid_rule'', ''{field} i'' @ [CHR 0xC3, CHR 0xA7] @ ''in ge'' @ [CHR 0xC3, CHR 0xA7] @ ''ersiz kural tan'' @ [CHR 0xC4, CHR 0xB1] @ ''m'' @ [CHR 0xC4, CHR 0xB1] @ '': {rule}''),
    (''fallback'', ''{field} kural'' @ [CHR 0xC4, CHR 0xB1] @ '' sa'' @ [CHR 0xC4, CHR 0x9F] @ ''lanm'' @ [CHR 0xC4, CHR 0xB1] @ ''yor ({rule})''),
    (''struct_fallback'', ''{field} ge'' @ [CHR 0xC3, CHR 0xA7] @ ''ersiz ({rule})'')]"

text \<open>The templates set for all calls, \<open>customMessages\<close>.\<close>

type_synonym messages = "string \<rightharpoonup> string"

definition set_message :: "string \<Rightarrow> string \<Rightarrow> messages \<Rightarrow> messages" where
  "set_message key tmpl cm = (if tmpl = [] then cm(key := None) else cm(key \<mapsto> tmpl))"

definition set_messages :: "(string \<times> string) list \<Rightarrow> messages \<Rightarrow> messages" where
  "set_messages m cm = fold (\<lambda>(k, v). set_message k v) m cm"

definition reset_messages :: "messages \<Rightarrow> messages" where
  "reset_messages cm = Map.empty"

text \<open>\<open>strings.NewReplacer(pairs...).Replace\<close>: one pass, the first pair that matches at a position.\<close>

fun replace_from :: "nat \<Rightarrow> (string \<times> string) list \<Rightarrow> string \<Rightarrow> string" where
  "replace_from k pairs [] = []"
| "replace_from (Suc k) pairs (c # s) = replace_from k pairs s"
| "replace_from 0 pairs (c # s) = (case find (\<lambda>p. has_prefix (fst p) (c # s)) pairs of
       None \<Rightarrow> c # replace_from 0 pairs s
     | Some (old, new) \<Rightarrow> new @ replace_from (length old - 1) pairs s)"

definition render_message :: "string \<Rightarrow> string \<Rightarrow> (string \<times> string) list \<Rightarrow> string" where
  "render_message tmpl field vars =
     replace_from 0 ((''{field}'', field) # map (\<lambda>(k, v). (''{'' @ k @ ''}'', v)) vars) tmpl"

text \<open>The first of the keys a map has.\<close>

definition first_of :: "messages \<Rightarrow> string list \<Rightarrow> string" where
  "first_of m keys = (case List.map_filter m keys of [] \<Rightarrow> [] | t # _ \<Rightarrow> t)"

definition or_else :: "string \<Rightarrow> string \<Rightarrow> string" where
  "or_else s t = (if s = [] then t else s)"

definition local_template :: "messages \<Rightarrow> string \<Rightarrow> string \<Rightarrow> string list \<Rightarrow> string" where
  "local_template msgs field rule keys =
     foldl (\<lambda>t k. or_else t (case msgs k of None \<Rightarrow> [] | Some x \<Rightarrow> x)) []
       ((field @ ''.'' @ rule) # keys)"

definition message_template :: "messages \<Rightarrow> messages option \<Rightarrow> string \<Rightarrow> string \<Rightarrow> string \<Rightarrow> string" where
  "message_template cm msgs field rule kind =
     (let keys = (if kind = [] then [] else [rule @ ''.'' @ kind]) @ [rule];
          t1 = (case msgs of None \<Rightarrow> [] | Some m \<Rightarrow> local_template m field rule keys);
          t2 = or_else t1 (first_of cm keys);
          t3 = or_else t2 (first_of (map_of default_messages) keys) in
      or_else t3 (the (map_of default_messages ''fallback'')))"

definition message ::
  "messages \<Rightarrow> messages option \<Rightarrow> string \<Rightarrow> string \<Rightarrow> string \<Rightarrow> (string \<times> string) list \<Rightarrow> string" where
  "message cm msgs field rule kind vars = render_message (message_template cm msgs field rule kind) field vars"


section \<open>Checking a rule\<close>

text \<open>
  What \<open>checkRule\<close> passes to \<open>fail\<close>: the key of the message, its kind, and the values of its
  placeholders; \<open>None\<close> where the rule holds.
\<close>

type_synonym failure = "(string \<times> string \<times> (string \<times> string) list) option"

definition failing :: "string \<Rightarrow> failure" where
  "failing key = Some (key, [], [])"

definition holds_or :: "bool \<Rightarrow> string \<Rightarrow> failure" where
  "holds_or ok key = (if ok then None else failing key)"

definition size_verdict :: "'f rule_lib \<Rightarrow> rule_spec \<Rightarrow> bool \<Rightarrow> 'f dval \<Rightarrow> failure" where
  "size_verdict L sp numeric_ctx v =
     (if \<not> rs_has_arg sp then failing ''invalid_rule''
      else case f_parse (rl_float L) (trim_space (rs_arg sp)) of
        None \<Rightarrow> failing ''invalid_rule''
      | Some limit \<Rightarrow> (case measure_of L numeric_ctx v of
          None \<Rightarrow> failing ''numeric''
        | Some (n, kind) \<Rightarrow>
            let p = f_format (rl_float L) limit in
            if rs_name sp = ''min'' then
              (if f_lt (rl_float L) n limit then Some (''min'', kind, [(''min'', p), (''param'', p)]) else None)
            else if rs_name sp = ''max'' then
              (if f_lt (rl_float L) limit n then Some (''max'', kind, [(''max'', p), (''param'', p)]) else None)
            else
              (if \<not> f_eq (rl_float L) n limit then Some (''size'', kind, [(''param'', p)]) else None)))"

definition between_verdict :: "'f rule_lib \<Rightarrow> rule_spec \<Rightarrow> bool \<Rightarrow> 'f dval \<Rightarrow> failure" where
  "between_verdict L sp numeric_ctx v = (case split_on (CHR '','') (rs_arg sp) of
       [a, b] \<Rightarrow>
         if \<not> rs_has_arg sp then failing ''invalid_rule''
         else (case (f_parse (rl_float L) (trim_space a), f_parse (rl_float L) (trim_space b)) of
             (Some lo, Some hi) \<Rightarrow>
               if f_lt (rl_float L) hi lo then failing ''invalid_rule''
               else (case measure_of L numeric_ctx v of
                   None \<Rightarrow> failing ''numeric''
                 | Some (n, kind) \<Rightarrow>
                     if f_lt (rl_float L) n lo \<or> f_lt (rl_float L) hi n
                     then Some (''between'', kind,
                            [(''min'', f_format (rl_float L) lo), (''max'', f_format (rl_float L) hi)])
                     else None)
           | _ \<Rightarrow> failing ''invalid_rule'')
     | _ \<Rightarrow> failing ''invalid_rule'')"

definition in_verdict :: "'f rule_lib \<Rightarrow> rule_spec \<Rightarrow> 'f dval \<Rightarrow> failure" where
  "in_verdict L sp v =
     (if \<not> rs_has_arg sp then failing ''invalid_rule''
      else let items = split_list (rs_arg sp); want = (rs_name sp = ''in'') in
        if each_scalar v (\<lambda>s. list_ex (\<lambda>it. it = to_str L s) items = want) then None
        else Some (rs_name sp, [], [(''values'', join_with '', '' items)]))"

text \<open>The map of the request: a missing field is \<open>nil\<close>.\<close>

definition field_of :: "(string \<rightharpoonup> 'f dval) \<Rightarrow> string \<Rightarrow> 'f dval" where
  "field_of data f = (case data f of None \<Rightarrow> DNil | Some v \<Rightarrow> v)"

definition same_verdict :: "'f rule_lib \<Rightarrow> rule_spec \<Rightarrow> (string \<rightharpoonup> 'f dval) \<Rightarrow> 'f dval \<Rightarrow> failure" where
  "same_verdict L sp data v =
     (let other = trim_space (rs_arg sp) in
      if \<not> rs_has_arg sp \<or> other = [] then failing ''invalid_rule''
      else if (rs_name sp = ''same'') \<noteq> equal_values L v (field_of data other)
      then Some (rs_name sp, [], [(''other'', other)]) else None)"

definition regex_verdict :: "'f rule_lib \<Rightarrow> rule_spec \<Rightarrow> 'f dval \<Rightarrow> failure" where
  "regex_verdict L sp v =
     (if \<not> rs_has_arg sp then failing ''invalid_rule''
      else case fst (compile_regex L Map.empty (rs_arg sp)) of
        None \<Rightarrow> failing ''invalid_rule''
      | Some re \<Rightarrow>
          let want = (rs_name sp = ''regex'') in
          holds_or (each_scalar v (\<lambda>s. re (to_str L s) = want)) (rs_name sp))"

text \<open>
  \<open>playgroundCheck\<close>: the elements of a list are checked in order up to the first that fails, and
  a panic ends the check.
\<close>

datatype pg_state = Pg_done bool | Pg_unknown | Pg_invalid

fun var_all :: "('f dval \<Rightarrow> pg_result) \<Rightarrow> 'f dval list \<Rightarrow> pg_result" where
  "var_all f [] = Pg_ok True"
| "var_all f (v # vs) = (case f v of Pg_ok True \<Rightarrow> var_all f vs | r \<Rightarrow> r)"

definition playground_check :: "'f rule_lib \<Rightarrow> 'f dval \<Rightarrow> rule_spec \<Rightarrow> pg_state" where
  "playground_check L v sp =
     (if rs_name sp = [] \<or> contains_any '',| '' (rs_name sp) then Pg_unknown
      else let tag = (if rs_has_arg sp then rs_name sp @ ''='' @ rs_arg sp else rs_name sp);
               check = (\<lambda>s. rl_var L (case s of DNil \<Rightarrow> DStr [] | _ \<Rightarrow> s) tag) in
        case (case as_slice v of Some items \<Rightarrow> var_all check items | None \<Rightarrow> check v) of
          Pg_ok b \<Rightarrow> Pg_done b
        | Pg_panic m \<Rightarrow>
            if contains_sub ''Undefined validation function'' m then Pg_unknown else Pg_invalid)"

definition rule_verdict ::
  "'f rule_lib \<Rightarrow> string \<Rightarrow> 'f dval \<Rightarrow> rule_spec \<Rightarrow> (string \<rightharpoonup> 'f dval) \<Rightarrow> bool \<Rightarrow> failure" where
  "rule_verdict L field v sp data numeric_ctx =
     (let nm = rs_name sp; V = rl_valid L; str_ok = (\<lambda>p. each_scalar v (\<lambda>s. p (to_str L s))) in
      if nm = ''required'' then holds_or (\<not> is_empty v) ''required''
      else if nm \<in> set [''nullable'', ''bail'', ''sometimes''] then None
      else if nm = ''email'' then holds_or (str_ok (is_email V)) ''email''
      else if nm = ''url'' then holds_or (str_ok (is_url V)) ''url''
      else if nm = ''numeric'' then holds_or (each_scalar v (is_numeric_value L)) ''numeric''
      else if nm = ''integer'' then holds_or (each_scalar v (is_integer_value L)) ''integer''
      else if nm = ''alpha'' then holds_or (str_ok (is_alpha V)) ''alpha''
      else if nm \<in> set [''alpha_num'', ''alphanum''] then holds_or (str_ok (is_alpha_num V)) ''alpha_num''
      else if nm \<in> set [''boolean'', ''bool''] then holds_or (each_scalar v (is_boolean_value L)) ''boolean''
      else if nm = ''date'' then
        holds_or (str_ok (parse_date L
          (if rs_has_arg sp \<and> trim_space (rs_arg sp) \<noteq> [] then [rs_arg sp] else date_layouts))) ''date''
      else if nm = ''array'' then holds_or (as_slice v \<noteq> None) ''array''
      else if nm \<in> set [''min'', ''max'', ''size''] then size_verdict L sp numeric_ctx v
      else if nm = ''between'' then between_verdict L sp numeric_ctx v
      else if nm \<in> set [''in'', ''not_in''] then in_verdict L sp v
      else if nm = ''confirmed'' then
        (let other = field @ ''_confirmation'' in
         if equal_values L v (field_of data other) then None else Some (''confirmed'', [], [(''other'', other)]))
      else if nm \<in> set [''same'', ''different''] then same_verdict L sp data v
      else if nm \<in> set [''regex'', ''not_regex''] then regex_verdict L sp v
      else case playground_check L v sp of
        Pg_unknown \<Rightarrow> failing ''unknown_rule''
      | Pg_invalid \<Rightarrow> failing ''invalid_rule''
      | Pg_done ok \<Rightarrow> holds_or ok ''fallback'')"

text \<open>\<open>checkRule\<close>: the message of the failure, empty where the rule holds.\<close>

definition fail_vars :: "rule_spec \<Rightarrow> (string \<times> string) list \<Rightarrow> (string \<times> string) list" where
  "fail_vars sp vars =
     (''rule'', rs_raw sp) # (if \<exists>v\<in>set vars. fst v = ''param'' then vars else (''param'', rs_arg sp) # vars)"

definition check_rule ::
  "'f rule_lib \<Rightarrow> messages \<Rightarrow> string \<Rightarrow> 'f dval \<Rightarrow> rule_spec \<Rightarrow> (string \<rightharpoonup> 'f dval) \<Rightarrow> bool
    \<Rightarrow> messages option \<Rightarrow> string" where
  "check_rule L cm field v sp data numeric_ctx msgs =
     (case rule_verdict L field v sp data numeric_ctx of
        None \<Rightarrow> []
      | Some (key, kind, vars) \<Rightarrow> message cm msgs field key kind (fail_vars sp vars))"

fun first_message :: "('a \<Rightarrow> string) \<Rightarrow> 'a list \<Rightarrow> string" where
  "first_message f [] = []"
| "first_message f (x # xs) = (if f x \<noteq> [] then f x else first_message f xs)"

definition numeric_context :: "'f dval \<Rightarrow> rule_spec list \<Rightarrow> bool" where
  "numeric_context v specs \<longleftrightarrow> is_number_type v \<or> has_rule [''numeric'', ''integer''] specs"

definition validate_field ::
  "'f rule_lib \<Rightarrow> messages \<Rightarrow> string \<Rightarrow> (string \<rightharpoonup> 'f dval) \<Rightarrow> rule_spec list \<Rightarrow> messages option \<Rightarrow> string" where
  "validate_field L cm field data specs msgs =
     (let v = field_of data field in
      if is_empty v \<and> \<not> has_rule [''required''] specs then []
      else first_message (\<lambda>sp. check_rule L cm field v sp data (numeric_context v specs) msgs) specs)"

text \<open>
  \<open>ValidateMapRules\<close>: the rules in the order the map is ranged over, the messages by field, and
  whether there are none.
\<close>

definition specs_of :: "string list \<Rightarrow> rule_spec list" where
  "specs_of rules = map parse_rule (filter (\<lambda>r. trim_space r \<noteq> []) rules)"

definition validate_map_rules ::
  "'f rule_lib \<Rightarrow> messages \<Rightarrow> (string \<rightharpoonup> 'f dval) \<Rightarrow> (string \<times> string list) list \<Rightarrow> messages option
    \<Rightarrow> (string \<rightharpoonup> string) \<times> bool" where
  "validate_map_rules L cm data rules msgs =
     (let errs = List.map_filter (\<lambda>(field, rs).
            let msg = validate_field L cm field data (specs_of rs) msgs in
            if msg = [] then None else Some (field, msg)) rules in
      (map_of errs, errs = []))"

definition validate_map_with_messages ::
  "'f rule_lib \<Rightarrow> messages \<Rightarrow> (string \<rightharpoonup> 'f dval) \<Rightarrow> (string \<times> string) list \<Rightarrow> messages option
    \<Rightarrow> (string \<rightharpoonup> string) \<times> bool" where
  "validate_map_with_messages L cm data rules msgs =
     validate_map_rules L cm data (map (\<lambda>(f, r). (f, split_rules r)) rules) msgs"

definition validate_map ::
  "'f rule_lib \<Rightarrow> messages \<Rightarrow> (string \<rightharpoonup> 'f dval) \<Rightarrow> (string \<times> string) list \<Rightarrow> (string \<rightharpoonup> string) \<times> bool" where
  "validate_map L cm data rules = validate_map_with_messages L cm data rules None"


section \<open>Structs and JSON bodies\<close>

text \<open>
  The errors of a struct as go-playground/validator reports them: what \<open>defaultMessage\<close> reads of
  a \<open>FieldError\<close>, and how \<open>v().Struct\<close> ends.
\<close>

datatype field_kind = KString | KArray | KNumber | KOther

record field_error =
  fe_field :: string
  fe_tag :: string
  fe_param :: string
  fe_kind :: field_kind

datatype struct_result =
    Struct_ok
  | Struct_errors "field_error list"
  | Struct_failed string
  | Struct_panic bool string \<comment> \<open>whether the panic value is a string, and its text\<close>

record validation_error =
  ve_field :: string
  ve_tag :: string
  ve_param :: string
  ve_msg :: string

definition error_list_text :: "validation_error list \<Rightarrow> string" where
  "error_list_text l = (if l = [] then [] else join_with ''; '' (map (\<lambda>e. ve_field e @ '': '' @ ve_msg e) l))"

definition error_list_map :: "validation_error list \<Rightarrow> string \<rightharpoonup> string" where
  "error_list_map l =
     foldl (\<lambda>m e. if m (ve_field e) = None then m(ve_field e \<mapsto> ve_msg e) else m) Map.empty l"

definition struct_tag_rule :: "(string \<times> string) list" where
  "struct_tag_rule =
     [(''required'', ''required''), (''email'', ''email''), (''url'', ''url''),
      (''min'', ''min''), (''gte'', ''min''), (''max'', ''max''), (''lte'', ''max''), (''len'', ''size''),
      (''oneof'', ''in''), (''eqfield'', ''same''), (''nefield'', ''different''),
      (''numeric'', ''numeric''), (''number'', ''numeric''), (''alpha'', ''alpha''), (''alphaunicode'', ''alpha''),
      (''alphanum'', ''alpha_num''), (''alphanumunicode'', ''alpha_num''), (''boolean'', ''boolean''),
      (''datetime'', ''date'')]"

definition struct_message :: "messages \<Rightarrow> field_error \<Rightarrow> string" where
  "struct_message cm fe =
     (let vars = [(''param'', fe_param fe), (''rule'', fe_tag fe)] in
      case map_of struct_tag_rule (fe_tag fe) of
        None \<Rightarrow> message cm None (fe_field fe) ''struct_fallback'' [] vars
      | Some rule \<Rightarrow>
          let kind = (case fe_kind fe of KString \<Rightarrow> ''string'' | KArray \<Rightarrow> ''array'' | KNumber \<Rightarrow> ''numeric''
                      | KOther \<Rightarrow> []);
              extra = (if rule = ''min'' then [(''min'', fe_param fe)]
                       else if rule = ''max'' then [(''max'', fe_param fe)]
                       else if rule = ''in'' then [(''values'', join_with '', '' (str_fields (fe_param fe)))]
                       else if rule = ''same'' \<or> rule = ''different'' then [(''other'', fe_param fe)]
                       else []) in
          message cm None (fe_field fe) rule
            (if rule \<in> set [''min'', ''max'', ''in'', ''same'', ''different'', ''size''] then kind else [])
            (vars @ extra))"

text \<open>\<open>undefinedTagRe\<close>: the two quoted names of the panic of an undefined tag.\<close>

definition quoted_name :: "string \<Rightarrow> (string \<times> string) option" where
  "quoted_name s = (let n = takeWhile (\<lambda>c. c \<noteq> CHR 0x27) s in
     if length n < length s then Some (n, drop (length n + 1) s) else None)"

definition undefined_tag :: "string \<Rightarrow> (string \<times> string) option" where
  "undefined_tag msg =
     (let p = ''Undefined validation function '' @ [CHR 0x27]; m = [CHR 0x27] @ '' on field '' @ [CHR 0x27] in
      if \<not> has_prefix p msg then None
      else case quoted_name (drop (length p) msg) of
        None \<Rightarrow> None
      | Some (tag, r) \<Rightarrow>
          if \<not> has_prefix m (CHR 0x27 # r) then None
          else map_option (\<lambda>(f, _). (tag, f)) (quoted_name (drop (length m - 1) r)))"

definition struct_panic_text :: string where
  "struct_panic_text = ''do'' @ [CHR 0xC4, CHR 0x9F] @ ''rulama kural'' @ [CHR 0xC4, CHR 0xB1] @
     '' hatas'' @ [CHR 0xC4, CHR 0xB1] @ '': ''"

fun validate_struct :: "messages \<Rightarrow> struct_result \<Rightarrow> validation_error list" where
  "validate_struct cm Struct_ok = []"
| "validate_struct cm (Struct_errors fes) =
     map (\<lambda>fe. \<lparr>ve_field = fe_field fe, ve_tag = fe_tag fe, ve_param = fe_param fe,
                ve_msg = struct_message cm fe\<rparr>) fes"
| "validate_struct cm (Struct_failed msg) = [\<lparr>ve_field = ''_'', ve_tag = ''error'', ve_param = [], ve_msg = msg\<rparr>]"
| "validate_struct cm (Struct_panic is_string msg) =
     (let ve = \<lparr>ve_field = ''_'', ve_tag = ''unknown_rule'', ve_param = [], ve_msg = struct_panic_text @ msg\<rparr> in
      case (if is_string then undefined_tag msg else None) of
        None \<Rightarrow> [ve]
      | Some (tag, f) \<Rightarrow> [ve\<lparr>ve_param := tag, ve_field := (if f \<noteq> [] then f else ve_field ve)\<rparr>])"

text \<open>
  \<open>BindAndValidateJSONLimit\<close>: the two calls of the decoder on the body limited to the bytes
  given are arguments.
\<close>

datatype json_error = Json_too_large int | Json_eof | Json_failed string

datatype bind_error = Empty_body | Body_too_large int | Trailing_data | Bad_json string

definition default_max_json_bytes :: int where
  "default_max_json_bytes = 2 ^ 20"

fun wrap_json_err :: "json_error \<Rightarrow> bind_error" where
  "wrap_json_err (Json_too_large n) = Body_too_large n"
| "wrap_json_err Json_eof = Empty_body"
| "wrap_json_err (Json_failed m) = Bad_json m"

definition bind_json_limit ::
  "bool \<Rightarrow> (int \<Rightarrow> json_error option) \<Rightarrow> (int \<Rightarrow> json_error option) \<Rightarrow> validation_error list \<Rightarrow> int
    \<Rightarrow> bind_error + validation_error list" where
  "bind_json_limit has_body decode decode_extra checked max_bytes =
     (if \<not> has_body then Inl Empty_body
      else let n = (if max_bytes \<le> 0 then default_max_json_bytes else max_bytes) in
        case decode n of
          Some e \<Rightarrow> Inl (wrap_json_err e)
        | None \<Rightarrow> (case decode_extra n of
              Some Json_eof \<Rightarrow> Inr checked
            | Some (Json_too_large m) \<Rightarrow> Inl (wrap_json_err (Json_too_large m))
            | _ \<Rightarrow> Inl Trailing_data))"

definition bind_json ::
  "bool \<Rightarrow> (int \<Rightarrow> json_error option) \<Rightarrow> (int \<Rightarrow> json_error option) \<Rightarrow> validation_error list
    \<Rightarrow> bind_error + validation_error list" where
  "bind_json has_body decode decode_extra checked =
     bind_json_limit has_body decode decode_extra checked default_max_json_bytes"

text \<open>\<open>ToMap\<close> keeps the first message of a field.\<close>

lemma error_list_map_first:
  "error_list_map l f = map_option ve_msg (find (\<lambda>e. ve_field e = f) l)"
proof -
  have "foldl (\<lambda>m e. if m (ve_field e) = None then m(ve_field e \<mapsto> ve_msg e) else m) m l f
      = (case m f of None \<Rightarrow> map_option ve_msg (find (\<lambda>e. ve_field e = f) l) | Some x \<Rightarrow> Some x)"
    for m :: "string \<rightharpoonup> string"
    by (induction l arbitrary: m) (auto split: option.splits)
  then show ?thesis by (simp add: error_list_map_def)
qed

section \<open>Splitting rules\<close>

text \<open>A rule as it is written inside a string of rules.\<close>

definition escape_rule :: "string \<Rightarrow> string" where
  "escape_rule r = concat (map (\<lambda>c. if c = CHR ''|'' then [CHR 0x5C, CHR ''|''] else [c]) r)"

lemma split_rules_bar: "split_rules_from b (CHR ''|'' # s) = b # split_rules_from [] s"
  by (cases s) simp_all

lemma split_rules_char:
  "c \<noteq> CHR ''|'' \<Longrightarrow> c = CHR 0x5C \<longrightarrow> take 1 s \<noteq> ''|'' \<Longrightarrow>
    split_rules_from b (c # s) = split_rules_from (b @ [c]) s"
  by (cases s) auto

lemma escape_rule_start: "take 1 (escape_rule r @ s) = ''|'' \<Longrightarrow> r = []"
  by (cases r) (auto simp: escape_rule_def split: if_splits)

lemma split_rules_escaped:
  assumes "last (CHR ''x'' # r) = CHR 0x5C \<longrightarrow> take 1 s \<noteq> ''|''"
  shows "split_rules_from b (escape_rule r @ s) = split_rules_from (b @ r) s"
  using assms
proof (induction r arbitrary: b)
  case (Cons c r)
  then have IH: "split_rules_from b (escape_rule r @ s) = split_rules_from (b @ r) s" for b
    by (cases r) auto
  show ?case
  proof (cases "c = CHR ''|''")
    case False
    have "split_rules_from b (c # (escape_rule r @ s)) = split_rules_from (b @ [c]) (escape_rule r @ s)"
      using Cons.prems escape_rule_start [of r s] by (intro split_rules_char False) (auto simp: escape_rule_def)
    then show ?thesis using False IH by (simp add: escape_rule_def)
  qed (use IH in \<open>simp add: escape_rule_def\<close>)
qed (simp add: escape_rule_def)

lemma split_rules_join:
  assumes "rs \<noteq> []" and "\<forall>r\<in>set (butlast rs). last (CHR ''x'' # r) \<noteq> CHR 0x5C"
  shows "split_rules (join_with ''|'' (map escape_rule rs)) = rs"
  using assms
proof (induction rs)
  case (Cons r rs)
  show ?case
  proof (cases "rs = []")
    case True
    then show ?thesis using split_rules_escaped [of r "[]" "[]"] by (simp add: split_rules_def)
  next
    case False
    with Cons show ?thesis
      by (simp add: split_rules_def join_with_Cons split_rules_escaped split_rules_bar)
  qed
qed simp

text \<open>
  Rules written in one string mean the rules of the list: escaping the bars of each rule,
  joining them with bars and splitting gives the list back, and validating with the string is
  validating with the list, for all fields, provided that no rule but a field's last ends in a
  backslash (which no string can say).
\<close>

theorem rule_strings_roundtrip:
  assumes "\<And>f rs. (f, rs) \<in> set rules \<Longrightarrow>
    rs \<noteq> [] \<and> list_all (\<lambda>r. last (CHR ''x'' # r) \<noteq> CHR 0x5C) (butlast rs)"
  shows "map (\<lambda>(f, rs). split_rules (join_with ''|'' (map escape_rule rs))) rules = map snd rules
    \<and> validate_map_with_messages L cm data
        (map (\<lambda>(f, rs). (f, join_with ''|'' (map escape_rule rs))) rules) msgs
      = validate_map_rules L cm data rules msgs"
proof -
  have split: "split_rules (join_with ''|'' (map escape_rule rs)) = rs" if "(f, rs) \<in> set rules" for f rs
    using assms [OF that] by (intro split_rules_join) (auto simp: list_all_iff)
  then have "map (\<lambda>(f, rs). (f, split_rules (join_with ''|'' (map escape_rule rs)))) rules = rules"
    by (auto intro!: map_idI)
  then show ?thesis using split by (auto simp: validate_map_with_messages_def comp_def case_prod_unfold)
qed

lemma rule_strings_roundtrip_witness:
  "split_rules (join_with ''|'' (map escape_rule [''required'', ''regex:^(a|b)$'']))
      = [''required'', ''regex:^(a|b)$'']
    \<and> escape_rule ''regex:^(a|b)$'' = ''regex:^(a'' @ [CHR 0x5C] @ ''|b)$''"
proof -
  let ?rules = "[(''name'', [''required'', ''regex:^(a|b)$''])]"
  have ok: "rs \<noteq> [] \<and> list_all (\<lambda>r. last (CHR ''x'' # r) \<noteq> CHR 0x5C) (butlast rs)"
    if "(f, rs) \<in> set ?rules" for f rs using that by simp
  show ?thesis
    using rule_strings_roundtrip [of ?rules, OF ok, THEN conjunct1] by (simp add: escape_rule_def)
qed


section \<open>What is reported\<close>

text \<open>
  A template is visible when it has a character no placeholder has: whatever the values, the
  message is not empty. The default templates are.
\<close>

definition placeholder_chars :: string where
  "placeholder_chars = ''{}fieldruleparamminmaxothervalues''"

definition visible :: "string \<Rightarrow> bool" where
  "visible t = list_ex (\<lambda>c. c \<notin> set placeholder_chars) t"

definition plain_vars :: "(string \<times> string) list \<Rightarrow> bool" where
  "plain_vars vars = list_all (\<lambda>p. set (fst p) \<subseteq> set placeholder_chars) vars"

lemma find_SomeD: "find P xs = Some x \<Longrightarrow> P x" "find P xs = Some x \<Longrightarrow> x \<in> set xs"
  by (induction xs) (auto split: if_splits)

lemma replace_from_keeps:
  assumes "\<forall>p\<in>set pairs. fst p \<noteq> [] \<and> set (fst p) \<subseteq> A" and "c \<in> set (drop k s)" and "c \<notin> A"
  shows "c \<in> set (replace_from k pairs s)"
  using assms
proof (induction k pairs s rule: replace_from.induct)
  case (3 pairs d s)
  show ?case
  proof (cases "find (\<lambda>p. has_prefix (fst p) (d # s)) pairs")
    case None
    with 3 show ?thesis by auto
  next
    case (Some p)
    obtain old new where p: "p = (old, new)" by (cases p)
    from find_SomeD [OF Some] have "has_prefix old (d # s)" "(old, new) \<in> set pairs" by (simp_all add: p)
    then obtain t where t: "d # s = old @ t" and old: "old \<noteq> []" "set old \<subseteq> A" using 3 by (auto simp: has_prefix_iff)
    with 3 have "c \<in> set t" by (metis Un_iff drop0 set_append subsetD)
    then have "c \<in> set (drop (length old - 1) s)"
      using t old(1) by (cases old) auto
    with 3 Some p show ?thesis by simp
  qed
qed simp_all

lemma visible_message:
  assumes "visible t" and "plain_vars vars"
  shows "render_message t field vars \<noteq> []"
proof -
  from assms(1) obtain c where c: "c \<in> set t" "c \<notin> set placeholder_chars"
    by (auto simp: visible_def list_ex_iff)
  have braces: "set ''{field}'' \<subseteq> set placeholder_chars" "set ''{'' \<subseteq> set placeholder_chars"
      "set ''}'' \<subseteq> set placeholder_chars"
    unfolding placeholder_chars_def by code_simp+
  have "fst p \<noteq> [] \<and> set (fst p) \<subseteq> set placeholder_chars"
    if "p \<in> set ((''{field}'', field) # map (\<lambda>(k, v). (''{'' @ k @ ''}'', v)) vars)" for p
  proof (cases "p = (''{field}'', field)")
    case False
    with that have "p \<in> (\<lambda>(k, v). (''{'' @ k @ ''}'', v)) ` set vars" unfolding set_map [symmetric] by (meson set_ConsD)
    then obtain q where q: "q \<in> set vars" "p = (''{'' @ fst q @ ''}'', snd q)" by (auto simp: case_prod_unfold)
    from assms(2) q(1) have "set (fst q) \<subseteq> set placeholder_chars" by (simp add: plain_vars_def list_all_iff)
    with braces(2,3) have "set (fst p) \<subseteq> set placeholder_chars" unfolding q(2) fst_conv set_append by blast
    then show ?thesis by (simp add: q(2))
  qed (use braces in simp)
  then have "\<forall>p\<in>set ((''{field}'', field) # map (\<lambda>(k, v). (''{'' @ k @ ''}'', v)) vars).
      fst p \<noteq> [] \<and> set (fst p) \<subseteq> set placeholder_chars"
    by blast
  from replace_from_keeps [OF this, of c 0 t] c show ?thesis by (force simp: render_message_def)
qed

lemma default_visible: "list_all (\<lambda>p. visible (snd p)) default_messages"
  by code_simp


text \<open>Every failure names placeholders of the documented ones only.\<close>

definition plain_failure :: "failure \<Rightarrow> bool" where
  "plain_failure x = (case x of None \<Rightarrow> True | Some (key, kind, vars) \<Rightarrow> plain_vars vars)"

lemma plain_failure_intros:
  "plain_failure None" "plain_failure (failing key)" "plain_failure (holds_or b key)"
  "plain_failure x \<Longrightarrow> plain_failure y \<Longrightarrow> plain_failure (if b then x else y)"
  by (simp_all add: plain_failure_def failing_def holds_or_def plain_vars_def)

lemma plain_vars_keys [simp]:
  "plain_vars []"
  "plain_vars ((''min'', v) # vars) = plain_vars vars" "plain_vars ((''max'', v) # vars) = plain_vars vars"
  "plain_vars ((''param'', v) # vars) = plain_vars vars" "plain_vars ((''rule'', v) # vars) = plain_vars vars"
  "plain_vars ((''values'', v) # vars) = plain_vars vars" "plain_vars ((''other'', v) # vars) = plain_vars vars"
  by (simp_all add: plain_vars_def placeholder_chars_def)

lemma plain_failure_Some [simp]: "plain_failure (Some (key, kind, vars)) = plain_vars vars"
  by (simp add: plain_failure_def)

lemma plain_size: "plain_failure (size_verdict L sp numeric_ctx v)"
  unfolding size_verdict_def Let_def
  by (auto intro!: plain_failure_intros split: option.splits)

lemma plain_between: "plain_failure (between_verdict L sp numeric_ctx v)"
  unfolding between_verdict_def
  by (auto intro!: plain_failure_intros split: option.splits list.splits)

lemma plain_in: "plain_failure (in_verdict L sp v)"
  unfolding in_verdict_def Let_def by (intro plain_failure_intros) simp

lemma plain_same: "plain_failure (same_verdict L sp data v)"
  unfolding same_verdict_def Let_def by (intro plain_failure_intros) simp

lemma plain_regex: "plain_failure (regex_verdict L sp v)"
  unfolding regex_verdict_def Let_def by (auto intro!: plain_failure_intros split: option.splits)

lemma plain_playground:
  "plain_failure (case playground_check L v sp of Pg_unknown \<Rightarrow> failing ''unknown_rule''
      | Pg_invalid \<Rightarrow> failing ''invalid_rule'' | Pg_done ok \<Rightarrow> holds_or ok ''fallback'')"
  by (auto intro!: plain_failure_intros split: pg_state.splits)

lemma plain_rule_verdict: "plain_failure (rule_verdict L field v sp data numeric_ctx)"
proof -
  have "plain_failure (Some (''confirmed'', [], [(''other'', other)]))" for other by simp
  then show ?thesis
    unfolding rule_verdict_def Let_def
    by (intro plain_failure_intros plain_size plain_between plain_in plain_same plain_regex plain_playground)
qed

lemma plain_fail_vars: "plain_vars vars \<Longrightarrow> plain_vars (fail_vars sp vars)"
  by (simp add: fail_vars_def)

text \<open>Templates set by the program are visible, or empty (which stands for the default).\<close>

definition visible_templates :: "messages \<Rightarrow> messages option \<Rightarrow> bool" where
  "visible_templates cm msgs \<longleftrightarrow>
     (\<forall>t\<in>ran cm \<union> (case msgs of None \<Rightarrow> {} | Some m \<Rightarrow> ran m). t = [] \<or> visible t)"

lemma visible_or_else: "s = [] \<or> visible s \<Longrightarrow> t = [] \<or> visible t \<Longrightarrow> or_else s t = [] \<or> visible (or_else s t)"
  by (auto simp: or_else_def)

lemma visible_first_of:
  assumes "\<forall>t\<in>ran m. t = [] \<or> visible t"
  shows "first_of m keys = [] \<or> visible (first_of m keys)"
proof (cases "List.map_filter m keys")
  case (Cons t ts)
  then have "t \<in> ran m" by (induction keys) (auto simp: List.map_filter_simps ranI split: option.splits)
  with assms Cons show ?thesis by (auto simp: first_of_def)
qed (simp add: first_of_def)

lemma visible_local:
  assumes "\<forall>t\<in>ran m. t = [] \<or> visible t"
  shows "local_template m field rule keys = [] \<or> visible (local_template m field rule keys)"
proof -
  have "foldl (\<lambda>t k. or_else t (case m k of None \<Rightarrow> [] | Some x \<Rightarrow> x)) t ks = [] \<or>
      visible (foldl (\<lambda>t k. or_else t (case m k of None \<Rightarrow> [] | Some x \<Rightarrow> x)) t ks)"
    if "t = [] \<or> visible t" for t ks
    using that
  proof (induction ks arbitrary: t)
    case (Cons k ks)
    have "or_else t (case m k of None \<Rightarrow> [] | Some x \<Rightarrow> x) = [] \<or>
        visible (or_else t (case m k of None \<Rightarrow> [] | Some x \<Rightarrow> x))"
      using Cons.prems assms by (intro visible_or_else) (auto split: option.splits intro: ranI)
    from Cons.IH [OF this] show ?case by simp
  qed simp
  from this [of "[]" "(field @ ''.'' @ rule) # keys", OF disjI1 [OF refl]] show ?thesis by (simp only: local_template_def)
qed

lemma visible_Nil [simp]: "\<not> visible []"
  by (simp add: visible_def)

lemma default_fallback: "visible (the (map_of default_messages ''fallback''))"
  by code_simp

lemma visible_template:
  assumes "visible_templates cm msgs"
  shows "visible (message_template cm msgs field rule kind)"
proof -
  let ?keys = "(if kind = [] then [] else [rule @ ''.'' @ kind]) @ [rule]"
  let ?local = "case msgs of None \<Rightarrow> [] | Some m \<Rightarrow> local_template m field rule ?keys"
  have 1: "?local = [] \<or> visible ?local"
    using assms visible_local by (auto simp: visible_templates_def split: option.splits)
  have 2: "first_of cm ?keys = [] \<or> visible (first_of cm ?keys)"
    using assms by (intro visible_first_of) (auto simp: visible_templates_def)
  have 3: "first_of (map_of default_messages) ?keys = [] \<or> visible (first_of (map_of default_messages) ?keys)"
    using default_visible by (intro visible_first_of) (auto simp: list_all_iff ran_def dest!: map_of_SomeD)
  from visible_or_else [OF visible_or_else [OF visible_or_else [OF 1 2] 3] disjI2 [OF default_fallback]]
  show ?thesis using default_fallback unfolding message_template_def Let_def
    by (metis or_else_def visible_Nil)
qed

lemma message_shown:
  assumes "visible_templates cm msgs" and "rule_verdict L field v sp data numeric_ctx = Some (key, kind, vars)"
  shows "message cm msgs field key kind (fail_vars sp vars) \<noteq> []"
proof -
  from assms(2) plain_rule_verdict [of L field v sp data numeric_ctx] have "plain_vars vars" by simp
  then show ?thesis
    unfolding message_def by (intro visible_message visible_template assms(1) plain_fail_vars)
qed

text \<open>
  The reference: the first rule of a field that fails, and why; none for a field that is empty
  and not required.
\<close>

definition field_failure ::
  "'f rule_lib \<Rightarrow> (string \<rightharpoonup> 'f dval) \<Rightarrow> string \<Rightarrow> rule_spec list
    \<Rightarrow> (rule_spec \<times> string \<times> string \<times> (string \<times> string) list) option" where
  "field_failure L data field specs =
     (let v = field_of data field; verdict = (\<lambda>sp. rule_verdict L field v sp data (numeric_context v specs)) in
      if is_empty v \<and> \<not> has_rule [''required''] specs then None
      else case find (\<lambda>sp. verdict sp \<noteq> None) specs of None \<Rightarrow> None | Some sp \<Rightarrow> Some (sp, the (verdict sp)))"

lemma first_message_find:
  assumes "\<And>x. x \<in> set xs \<Longrightarrow> f x = (case g x of None \<Rightarrow> [] | Some y \<Rightarrow> h x y)"
    and "\<And>x y. g x = Some y \<Longrightarrow> h x y \<noteq> []"
  shows "first_message f xs =
    (case find (\<lambda>x. g x \<noteq> None) xs of None \<Rightarrow> [] | Some x \<Rightarrow> h x (the (g x)))"
  using assms(1) by (induction xs) (auto split: option.splits simp: assms(2))

lemma validate_field_spec:
  assumes "visible_templates cm msgs"
  shows "validate_field L cm field data specs msgs = (case field_failure L data field specs of
      None \<Rightarrow> []
    | Some (sp, key, kind, vars) \<Rightarrow> message cm msgs field key kind (fail_vars sp vars))"
proof -
  let ?v = "field_of data field"
  let ?g = "\<lambda>sp. rule_verdict L field ?v sp data (numeric_context ?v specs)"
  let ?h = "\<lambda>sp (key, kind, vars). message cm msgs field key kind (fail_vars sp vars)"
  have "first_message (\<lambda>sp. check_rule L cm field ?v sp data (numeric_context ?v specs) msgs) specs
      = (case find (\<lambda>sp. ?g sp \<noteq> None) specs of None \<Rightarrow> [] | Some sp \<Rightarrow> ?h sp (the (?g sp)))"
    by (rule first_message_find)
       (auto simp: check_rule_def message_shown [OF assms] split: option.splits)
  then show ?thesis
    by (auto simp: validate_field_def field_failure_def Let_def split: option.splits)
qed

lemma field_failure_message:
  assumes "visible_templates cm msgs" and "field_failure L data field specs = Some (sp, key, kind, vars)"
  shows "message cm msgs field key kind (fail_vars sp vars) \<noteq> []"
proof -
  from assms(2) find_SomeD(1) have "rule_verdict L field (field_of data field) sp data
      (numeric_context (field_of data field) specs) = Some (key, kind, vars)"
    by (fastforce simp: field_failure_def Let_def split: if_splits option.splits)
  from message_shown [OF assms(1) this] show ?thesis .
qed


lemma map_of_filtered:
  assumes "distinct (map fst xs)"
  shows "map_of (List.map_filter (\<lambda>(k, x). map_option (Pair k) (h k x)) xs) f
    = Option.bind (map_of xs f) (h f)"
  using assms
proof (induction xs)
  case (Cons p xs)
  obtain k x where p: "p = (k, x)" by (cases p)
  have "map_of xs k = None" using Cons.prems p by (simp add: map_of_eq_None_iff)
  with Cons p show ?case
    by (cases "h k x") (auto simp: List.map_filter_simps)
qed (simp add: List.map_filter_simps)

lemma map_filter_Nil: "List.map_filter g xs = [] \<longleftrightarrow> (\<forall>x\<in>set xs. g x = None)"
  by (induction xs) (auto simp: List.map_filter_simps split: option.splits)

text \<open>The entry of a field in the map of errors.\<close>

definition field_report ::
  "'f rule_lib \<Rightarrow> messages \<Rightarrow> (string \<rightharpoonup> 'f dval) \<Rightarrow> messages option \<Rightarrow> string \<Rightarrow> string list \<Rightarrow> string option" where
  "field_report L cm data msgs f rs = (case field_failure L data f (specs_of rs) of
       None \<Rightarrow> None
     | Some (sp, key, kind, vars) \<Rightarrow> Some (message cm msgs f key kind (fail_vars sp vars)))"

lemma validate_map_rules_report:
  assumes "visible_templates cm msgs"
  shows "validate_map_rules L cm data rules msgs =
    (map_of (List.map_filter (\<lambda>(f, rs). map_option (Pair f) (field_report L cm data msgs f rs)) rules),
     \<forall>(f, rs)\<in>set rules. field_failure L data f (specs_of rs) = None)"
proof -
  have "(let msg = validate_field L cm f data (specs_of rs) msgs in if msg = [] then None else Some (f, msg))
      = map_option (Pair f) (field_report L cm data msgs f rs)" for f rs
    using field_failure_message [OF assms, of L data f "specs_of rs"]
    by (auto simp: validate_field_spec [OF assms] field_report_def Let_def split: option.splits)
  then show ?thesis
    by (auto simp: validate_map_rules_def Let_def map_filter_Nil field_report_def split: option.splits)
qed


text \<open>Floats for the examples: whole numbers, in decimal.\<close>

definition demo_floats :: "int float_ops" where
  "demo_floats = \<lparr>f_parse = parse_int64, f_format = itoa_int, f_format32 = itoa_int,
     f_of_int = (\<lambda>i. i), f_to_int64 = (\<lambda>i. i), f_lt = (<), f_eq = (=)\<rparr>"

definition demo_rules :: "int rule_lib" where
  "demo_rules = \<lparr>rl_valid = \<lparr>vl_float = demo_floats, vl_address = (\<lambda>s. Some ([], s)), vl_url = (\<lambda>s. None),
       vl_letter = (\<lambda>r. 97 \<le> r \<and> r \<le> 122), vl_digit = (\<lambda>r. 48 \<le> r \<and> r \<le> 57),
       vl_time = (\<lambda>l s. False), vl_regex = (\<lambda>e. None)\<rparr>,
     rl_sprint = (\<lambda>v. []), rl_var = (\<lambda>v tag. Pg_ok True)\<rparr>"


text \<open>
  A template that renders to nothing turns a failing rule into a passing one: the engine takes the
  empty message for success. Here the missing required field is accepted.
\<close>

lemma empty_message_passes:
  "validate_field demo_rules Map.empty ''name'' Map.empty (specs_of [''required''])
      (Some [''required'' \<mapsto> ''{param}'']) = []"
  "field_failure demo_rules Map.empty ''name'' (specs_of [''required'']) \<noteq> None"
  by code_simp+

text \<open>The cache of compiled expressions changes no result.\<close>

definition regex_cache_ok :: "'f rule_lib \<Rightarrow> (string \<rightharpoonup> (string \<Rightarrow> bool)) \<Rightarrow> bool" where
  "regex_cache_ok L cache \<longleftrightarrow> (\<forall>p re. cache p = Some re \<longrightarrow> vl_regex (rl_valid L) (regex_expr p) = Some re)"

lemma regex_cache_transparent:
  assumes "regex_cache_ok L cache"
  shows "fst (compile_regex L cache p) = vl_regex (rl_valid L) (regex_expr p)"
    and "regex_cache_ok L (snd (compile_regex L cache p))"
  using assms by (auto simp: compile_regex_def regex_cache_ok_def split: option.splits)

end
