(* ===== verification/Forms.thy ===== *)
theory Forms
  imports Form_Bind Validation
begin

text \<open>
  \<open>pkg/forms/forms.go\<close>: a form collects the data of a request, is validated, bound to a struct
  (\<open>Form_Bind\<close>) and cleaned by the \<open>Clean\<close> methods of the struct. The methods, parsing of the
  request and what go-playground/validator reports for a struct are parameters; the rules and their
  messages are those of \<open>Validation\<close>. The fields of the struct that have hooks are its own: hooks
  of embedded structs as a whole are not modelled.
\<close>

section \<open>Forms\<close>

record ('f, 't) form =
  fm_data :: "('f, 't) form_data"
  fm_errors :: "string \<rightharpoonup> string"
  fm_cleaned :: "('f, 't) form_data option"
  fm_validated :: bool
  fm_files :: "(string \<times> string list) list"
  fm_parse_err :: "string option"

definition default_max_memory :: int where
  "default_max_memory = 32 * 2 ^ 20"

definition empty_form :: "('f, 't) form" where
  "empty_form = \<lparr>fm_data = [], fm_errors = Map.empty, fm_cleaned = None, fm_validated = False, fm_files = [],
     fm_parse_err = None\<rparr>"

definition new_from_map :: "('f, 't) form_data option \<Rightarrow> ('f, 't) form" where
  "new_from_map m = empty_form\<lparr>fm_data := (case m of None \<Rightarrow> [] | Some d \<Rightarrow> d)\<rparr>"

text \<open>
  A request: its media type (as \<open>mime.ParseMediaType\<close> reads it), and what \<open>ParseMultipartForm\<close> and
  \<open>ParseForm\<close> make of it: an error, \<open>Form\<close>, \<open>PostForm\<close> and the files.
\<close>

record parsed_form =
  pf_err :: "string option"
  pf_form :: multi
  pf_post :: multi
  pf_files :: "(string \<times> string list) list"

record form_request =
  fr_content_type :: string
  fr_media_type :: "string option"
  fr_multipart :: "int \<Rightarrow> parsed_form"
  fr_parse :: parsed_form

definition is_multipart :: "form_request \<Rightarrow> bool" where
  "is_multipart r \<longleftrightarrow> fr_content_type r \<noteq> [] \<and> fr_media_type r = Some ''multipart/form-data''"

definition new_from_request_with :: "form_request option \<Rightarrow> int \<Rightarrow> ('f, 't) form" where
  "new_from_request_with r max_memory = (case r of
       None \<Rightarrow> empty_form\<lparr>fm_parse_err := Some ''forms: istek nil''\<rparr>
     | Some r \<Rightarrow>
         (let mm = (if max_memory \<le> 0 then default_max_memory else max_memory);
              p = (if is_multipart r then fr_multipart r mm else fr_parse r);
              vals = (if pf_post p \<noteq> [] then pf_post p else pf_form p) in
          empty_form\<lparr>fm_data := values_to_map vals, fm_parse_err := pf_err p,
            fm_files := (if is_multipart r then pf_files p else [])\<rparr>))"

definition new_from_request :: "form_request option \<Rightarrow> ('f, 't) form" where
  "new_from_request r = new_from_request_with r default_max_memory"

definition form_file :: "string \<Rightarrow> ('f, 't) form \<Rightarrow> string option" where
  "form_file name f = (case map_of (fm_files f) name of Some (x # _) \<Rightarrow> Some x | _ \<Rightarrow> None)"

definition is_valid :: "('f, 't) form \<Rightarrow> bool" where
  "is_valid f \<longleftrightarrow> fm_validated f \<and> fm_errors f = Map.empty"

definition cleaned :: "string \<Rightarrow> ('f, 't) form \<Rightarrow> ('f, 't) raw" where
  "cleaned name f = (case fm_cleaned f of None \<Rightarrow> None | Some d \<Rightarrow> (case map_of d name of None \<Rightarrow> None | Some r \<Rightarrow> r))"

definition form_error :: "string \<Rightarrow> ('f, 't) form \<Rightarrow> string" where
  "form_error name f = (case fm_errors f name of None \<Rightarrow> [] | Some m \<Rightarrow> m)"

definition add_error :: "string \<Rightarrow> string \<Rightarrow> ('f, 't) form \<Rightarrow> ('f, 't) form" where
  "add_error name msg f = f\<lparr>fm_errors := (fm_errors f)(name \<mapsto> msg)\<rparr>"

definition add_error_if_absent :: "string \<Rightarrow> string \<Rightarrow> ('f, 't) form \<Rightarrow> ('f, 't) form" where
  "add_error_if_absent name msg f = (if fm_errors f name = None then add_error name msg f else f)"

section \<open>Validating the data\<close>

text \<open>A value of the form as the rules see it; \<open>str\<close> is the \<open>String\<close> method of a defined type.\<close>

fun dval_of :: "(string \<Rightarrow> ('f, 't) fval \<Rightarrow> string option) \<Rightarrow> gty \<Rightarrow> ('f, 't) fval \<Rightarrow> 'f dval" where
  "dval_of str t (FStr s) = (if t = TNamed ''json.Number'' TStr then DNumber s else
     (case t of TNamed n u \<Rightarrow> DNamed (str n (FStr s)) (DStr s) | _ \<Rightarrow> DStr s))"
| "dval_of str t (FBool b) = DBool b"
| "dval_of str t (FInt n) = DInt n"
| "dval_of str t (FUint n) = DUint n"
| "dval_of str t (FFloat x) = (if under t = TFloat 32 then DFloat32 x else DFloat x)"
| "dval_of str t (FTime x) = DOther ''time.Time''"
| "dval_of str t FNil = (case under t of TSlice e \<Rightarrow> DList [] | _ \<Rightarrow> DPtr None)"
| "dval_of str t (FPtr v) = DPtr (Some (dval_of str (case under t of TPtr e \<Rightarrow> e | _ \<Rightarrow> t) v))"
| "dval_of str t (FSlice vs) =
     (let e = (case under t of TSlice e \<Rightarrow> e | TArray n e \<Rightarrow> e | _ \<Rightarrow> t) in DList (map (dval_of str e) vs))"
| "dval_of str t (FAny u v) = dval_of str u v"
| "dval_of str t (FOther n) = DOther n"

definition form_dvals ::
  "(string \<Rightarrow> ('f, 't) fval \<Rightarrow> string option) \<Rightarrow> ('f, 't) form_data \<Rightarrow> string \<rightharpoonup> 'f dval" where
  "form_dvals str data = map_of (map (\<lambda>(k, r). (k, case r of None \<Rightarrow> DNil | Some (t, v) \<Rightarrow> dval_of str t v)) data)"

definition form_validate_map where
  "form_validate_map RL str cm rules msgs f =
     (case validate_map_with_messages RL cm (form_dvals str (fm_data f)) rules msgs of (errs, ok) \<Rightarrow>
       (f\<lparr>fm_errors := errs, fm_validated := True,
          fm_cleaned := (if ok then Some (fm_data f) else fm_cleaned f)\<rparr>, ok))"

section \<open>Clean hooks\<close>

text \<open>
  The methods of the struct: \<open>Clean<Field>() error\<close>, \<open>Clean<Field>(v T) (U, error)\<close> or one of another
  signature. A method has a pointer receiver, so it returns the struct too.
\<close>

datatype ('f, 't) hook =
    Hook_check "('f, 't) sval list \<Rightarrow> ('f, 't) sval list \<times> string option"
  | Hook_value gty gty "('f, 't) sval list \<Rightarrow> ('f, 't) fval \<Rightarrow> ('f, 't) sval list \<times> ('f, 't) fval \<times> string option"
  | Hook_other

record ('f, 't) clean_methods =
  cm_field :: "string \<Rightarrow> ('f, 't) hook option"
  cm_form :: "(('f, 't) sval list \<Rightarrow> ('f, 't) sval list \<times> string option) option"
  cm_convertible :: "gty \<Rightarrow> gty \<Rightarrow> bool" \<comment> \<open>\<open>reflect.Type.ConvertibleTo\<close>\<close>
  cm_convert :: "gty \<Rightarrow> gty \<Rightarrow> ('f, 't) fval \<Rightarrow> ('f, 't) fval"

definition is_int_kind :: "gty \<Rightarrow> bool" where
  "is_int_kind t = (case under t of TInt b \<Rightarrow> True | TUint b \<Rightarrow> True | _ \<Rightarrow> False)"

definition safe_convertible :: "('f, 't) clean_methods \<Rightarrow> gty \<Rightarrow> gty \<Rightarrow> bool" where
  "safe_convertible C a b \<longleftrightarrow> cm_convertible C a b \<and> \<not> (is_int_kind a \<and> under b = TStr) \<and> \<not> (under a = TStr \<and> is_int_kind b)"

definition hook_arg ::
  "('f, 't) bind_lib \<Rightarrow> ('f, 't) clean_methods \<Rightarrow> gty \<Rightarrow> ('f, 't) fval \<Rightarrow> gty \<Rightarrow> ('f, 't) fval option" where
  "hook_arg L C ft v arg =
     (if assignable ft arg then Some (store arg ft v)
      else case (case under ft of TPtr e \<Rightarrow> if assignable e arg then Some e else None | _ \<Rightarrow> None) of
          Some e \<Rightarrow> Some (case v of FPtr w \<Rightarrow> store arg e w | _ \<Rightarrow> zero_val L arg)
        | None \<Rightarrow>
            if (case under arg of TPtr e \<Rightarrow> assignable ft e | _ \<Rightarrow> False) then Some (FPtr v)
            else if safe_convertible C ft arg then Some (cm_convert C ft arg v)
            else None)"

definition set_cleaned ::
  "('f, 't) bind_lib \<Rightarrow> ('f, 't) clean_methods \<Rightarrow> gty \<Rightarrow> ('f, 't) fval \<Rightarrow> gty \<Rightarrow> ('f, 't) fval \<Rightarrow> ('f, 't) fval" where
  "set_cleaned L C ft old nt x =
     (if assignable nt ft then store ft nt x
      else case (case under ft of TPtr e \<Rightarrow> if assignable nt e then Some e else None | _ \<Rightarrow> None) of
          Some e \<Rightarrow> FPtr (store e nt x)
        | None \<Rightarrow> (case (case under nt of TPtr e \<Rightarrow> if assignable e ft then Some e else None | _ \<Rightarrow> None) of
              Some e \<Rightarrow> (case x of FPtr w \<Rightarrow> store ft e w | _ \<Rightarrow> zero_val L ft)
            | None \<Rightarrow> if safe_convertible C nt ft then cm_convert C nt ft x else old))"

fun field_val :: "('f, 't) sval \<Rightarrow> ('f, 't) fval" where
  "field_val (SVal v) = v"
| "field_val _ = FNil"

text \<open>The hook of the \<open>i\<close>-th field.\<close>

definition clean_field ::
  "('f, 't) bind_lib \<Rightarrow> ('f, 't) clean_methods \<Rightarrow> nat \<times> field_info \<Rightarrow> ('f, 't) form \<times> ('f, 't) sval list
    \<Rightarrow> ('f, 't) form \<times> ('f, 't) sval list" where
  "clean_field L C ifi fvs = (case (ifi, fvs) of ((i, fi), (f, vs)) \<Rightarrow>
     if \<not> fi_exported fi then (f, vs)
     else if fm_errors f (fi_name fi) \<noteq> None then (f, vs)
     else (case cm_field C (fi_name fi) of
         None \<Rightarrow> (f, vs)
       | Some Hook_other \<Rightarrow> (f, vs)
       | Some (Hook_check h) \<Rightarrow> (case h vs of
             (vs', None) \<Rightarrow> (f, vs')
           | (vs', Some msg) \<Rightarrow> (add_error_if_absent (fi_name fi) msg f, vs'))
       | Some (Hook_value arg ret h) \<Rightarrow> (case hook_arg L C (fi_type fi) (field_val (vs ! i)) arg of
             None \<Rightarrow> (f, vs)
           | Some x \<Rightarrow> (case h vs x of
                 (vs', _, Some msg) \<Rightarrow> (add_error_if_absent (fi_name fi) msg f, vs')
               | (vs', y, None) \<Rightarrow> (f, vs'[i := SVal (set_cleaned L C (fi_type fi) (field_val (vs' ! i)) ret y)])))))"

definition own_fields :: "sfield list \<Rightarrow> (nat \<times> field_info) list" where
  "own_fields fs = List.map_filter (\<lambda>(i, f). case f of SField fi \<Rightarrow> Some (i, fi) | _ \<Rightarrow> None) (zip [0..<length fs] fs)"

definition clean_form ::
  "('f, 't) clean_methods \<Rightarrow> ('f, 't) form \<times> ('f, 't) sval list \<Rightarrow> ('f, 't) form \<times> ('f, 't) sval list" where
  "clean_form C fvs = (case fvs of (f, vs) \<Rightarrow> (case cm_form C of
       None \<Rightarrow> (f, vs)
     | Some h \<Rightarrow> (case h vs of
           (vs', None) \<Rightarrow> (f, vs')
         | (vs', Some msg) \<Rightarrow> (add_error_if_absent ''_'' msg f, vs'))))"

definition mirror :: "(nat \<times> field_info) list \<Rightarrow> ('f, 't) sval list \<Rightarrow> ('f, 't) form_data \<Rightarrow> ('f, 't) form_data" where
  "mirror fis vs d = foldl (\<lambda>d (i, fi). if fi_exported fi
     then AList.update (fi_name fi) (to_iface (fi_type fi) (field_val (vs ! i))) d else d) d fis"

definition apply_clean_hooks ::
  "('f, 't) bind_lib \<Rightarrow> ('f, 't) clean_methods \<Rightarrow> sfield list \<Rightarrow> ('f, 't) form \<times> ('f, 't) sval list
    \<Rightarrow> ('f, 't) form \<times> ('f, 't) sval list" where
  "apply_clean_hooks L C fs fvs =
     (case clean_form C (foldl (\<lambda>s p. clean_field L C p s) fvs (own_fields fs)) of (f, vs) \<Rightarrow>
       (f\<lparr>fm_cleaned := Some (mirror (own_fields fs) vs (case fm_cleaned f of None \<Rightarrow> [] | Some d \<Rightarrow> d))\<rparr>, vs))"

text \<open>\<open>report\<close> is what go-playground/validator says of the struct.\<close>

definition form_validate_struct ::
  "('f, 't) bind_lib \<Rightarrow> ('f, 't) clean_methods \<Rightarrow> messages \<Rightarrow> (('f, 't) sval list \<Rightarrow> struct_result) \<Rightarrow> sfield list
    \<Rightarrow> ('f, 't) form \<times> ('f, 't) sval list \<Rightarrow> ('f, 't) form \<times> ('f, 't) sval list" where
  "form_validate_struct L C cm report fs fvs = (case fvs of (f, vs) \<Rightarrow>
     apply_clean_hooks L C fs
       (f\<lparr>fm_validated := True, fm_errors := error_list_map (validate_struct cm (report vs)),
          fm_cleaned := Some (fm_data f)\<rparr>, vs))"

text \<open>\<open>BindAndValidate\<close>: the form, the struct and whether the form is valid; \<open>None\<close> where \<open>Bind\<close> panics.\<close>

definition bind_target_text :: string where
  "bind_target_text = ''forms: Bind hedefi nil olmayan bir struct i'' @ [CHR 0xC5, CHR 0x9F] @ ''aret'' @ [CHR 0xC3, CHR 0xA7]
     @ ''isi olmal'' @ [CHR 0xC4, CHR 0xB1]"

definition bind_and_validate ::
  "('f, 't) bind_lib \<Rightarrow> ('f, 't) clean_methods \<Rightarrow> messages \<Rightarrow> (('f, 't) sval list \<Rightarrow> struct_result)
    \<Rightarrow> (sfield list \<times> ('f, 't) sval list) option \<Rightarrow> ('f, 't) form \<Rightarrow> (('f, 't) form \<times> ('f, 't) sval list \<times> bool) option" where
  "bind_and_validate L C cm report dest f =
     Option.bind (form_bind L (fm_data f) dest) (\<lambda>(vs, e). case (dest, e) of
         (Some (fs, _), Some (Bind_errors errs)) \<Rightarrow>
           (case form_validate_struct L C cm report fs (f, vs) of (f1, vs1) \<Rightarrow>
              let f2 = foldl (\<lambda>f (k, m). add_error k m f) f1 errs in Some (f2, vs1, is_valid f2))
       | (Some (fs, _), None) \<Rightarrow>
           (case form_validate_struct L C cm report fs (f, vs) of (f1, vs1) \<Rightarrow> Some (f1, vs1, is_valid f1))
       | _ \<Rightarrow> Some (f\<lparr>fm_validated := True, fm_errors := [''_'' \<mapsto> bind_target_text]\<rparr>, vs, False))"

section \<open>Who may set an error\<close>

text \<open>Hooks add errors where there is none, and only under their field or under the form's key.\<close>

lemma add_error_if_absent_le: "fm_errors f \<subseteq>\<^sub>m fm_errors (add_error_if_absent k m f)"
  by (auto simp: add_error_if_absent_def add_error_def map_le_def)

lemma clean_field_le: "fm_errors (fst s) \<subseteq>\<^sub>m fm_errors (fst (clean_field L C p s))"
  using add_error_if_absent_le
  by (auto simp: clean_field_def split: prod.splits option.splits hook.splits)

lemma clean_fields_le: "fm_errors (fst s) \<subseteq>\<^sub>m fm_errors (fst (foldl (\<lambda>s p. clean_field L C p s) s ps))"
proof (induction ps arbitrary: s)
  case (Cons p ps)
  show ?case using map_le_trans [OF clean_field_le Cons.IH] by simp
qed simp

lemma clean_form_le: "fm_errors (fst s) \<subseteq>\<^sub>m fm_errors (fst (clean_form C s))"
  using add_error_if_absent_le by (auto simp: clean_form_def split: prod.splits option.splits)

lemma apply_clean_hooks_le: "fm_errors (fst s) \<subseteq>\<^sub>m fm_errors (fst (apply_clean_hooks L C fs s))"
  using map_le_trans [OF clean_fields_le [of s L C "own_fields fs"] clean_form_le [of _ C]]
  by (simp add: apply_clean_hooks_def split: prod.split) (metis fst_conv)

lemma apply_clean_hooks_validated:
  "fm_validated (fst (apply_clean_hooks L C fs s)) = fm_validated (fst s)"
proof -
  have absent: "fm_validated (add_error_if_absent k m f) = fm_validated f" for k m and f :: "('f, 't) form"
    by (simp add: add_error_if_absent_def add_error_def)
  have one: "fm_validated (fst (clean_field L C p s)) = fm_validated (fst s)" for p s
    by (auto simp: clean_field_def absent split: prod.splits option.splits hook.splits)
  have "fm_validated (fst (foldl (\<lambda>s p. clean_field L C p s) s ps)) = fm_validated (fst s)" for ps s
    by (induction ps arbitrary: s) (simp_all add: one)
  moreover have "fm_validated (fst (clean_form C s)) = fm_validated (fst s)" for s
    by (auto simp: clean_form_def absent split: prod.splits option.splits)
  ultimately show ?thesis by (simp add: apply_clean_hooks_def split: prod.split) (metis fst_conv)
qed

lemma map_le_split: "m \<subseteq>\<^sub>m m' \<Longrightarrow> m' = (m' |` (- dom m)) ++ m"
proof (rule ext)
  fix k
  assume "m \<subseteq>\<^sub>m m'"
  then show "m' k = ((m' |` (- dom m)) ++ m) k"
    by (cases "m k") (auto simp: map_add_def restrict_map_def dom_def map_le_def)
qed

text \<open>The errors of \<open>Bind\<close> have one entry for each field.\<close>

lemma bind_struct_distinct:
  "distinct (map fst errs) \<Longrightarrow> bind_struct L data fs vs errs = Some (vs', errs') \<Longrightarrow> distinct (map fst errs')"
proof (induction L data fs vs errs arbitrary: vs' errs' rule: bind_struct.induct)
  case (2 L data fi fs v vs errs)
  obtain v1 e1 vs1 where o: "bind_field L data fi v errs = Some (v1, e1)" "bind_struct L data fs vs e1 = Some (vs1, errs')"
    using 2(3) by (auto simp: bind_eq_Some_conv)
  have "distinct (map fst e1)"
    using o(1) 2(2) by (auto simp: bind_field_def distinct_update split: option.splits sum.splits field_err.splits)
  with 2(1) [OF o(1) refl] o show ?case by simp
next
  case (3 L data sub fs ws vs errs)
  obtain w1 e1 vs1 where o: "bind_struct L data sub ws errs = Some (w1, e1)" "bind_struct L data fs vs e1 = Some (vs1, errs')"
    using 3(4) by (auto simp: bind_eq_Some_conv)
  with 3(1) [OF 3(3)] 3(2) [OF o(1) refl] show ?case by simp
next
  case (4 L data sub fs p vs errs)
  let ?ws = "case p of None \<Rightarrow> map (zero_struct L) sub | Some ws \<Rightarrow> ws"
  obtain w1 e1 vs1 where o: "bind_struct L data sub ?ws errs = Some (w1, e1)" "bind_struct L data fs vs e1 = Some (vs1, errs')"
    using 4(4) by (auto simp: bind_eq_Some_conv)
  with 4(1) [OF 4(3)] 4(2) [OF o(1) refl] show ?case by simp
qed simp_all

lemma add_error_errors: "fm_errors (add_error k m f) = (fm_errors f)(k \<mapsto> m)"
  by (simp add: add_error_def)

lemma add_error_validated: "fm_validated (add_error k m f) = fm_validated f"
  by (simp add: add_error_def)

lemma foldl_add_error:
  "distinct (map fst errs) \<Longrightarrow>
    fm_errors (foldl (\<lambda>f (k, m). add_error k m f) f errs) = fm_errors f ++ map_of errs"
proof (induction errs arbitrary: f)
  case (Cons p errs)
  obtain k m where p: "p = (k, m)" by fastforce
  then have "k \<notin> dom (map_of errs)" using Cons.prems by (simp add: dom_map_of_conv_image_fst)
  with Cons p show ?case
    by (simp add: add_error_errors map_add_upd_left del: fun_upd_apply)
qed simp

lemma foldl_add_error_validated:
  "fm_validated (foldl (\<lambda>f (k, m). add_error k m f) f errs) = fm_validated f"
  by (induction errs arbitrary: f) (simp_all add: add_error_validated split: prod.split)

definition bind_err_map :: "form_bind_err option \<Rightarrow> string \<rightharpoonup> string" where
  "bind_err_map e = (case e of Some (Bind_errors errs) \<Rightarrow> map_of errs | _ \<Rightarrow> Map.empty)"

text \<open>
  \<open>BindAndValidate\<close> with a struct: the form is valid exactly where it has no error. Its errors
  are those of binding, where a field has none of them those of validating the bound struct, and
  where it has neither what the hooks added; so a valid form was bound without an error to a struct
  that validates.
\<close>

theorem form_errors_precedence:
  assumes "form_bind L (fm_data f) (Some (fs, vs)) = Some (vs1, e)"
    and "bind_and_validate L C cm report (Some (fs, vs)) f = Some (f', vs', ok)"
  shows "(\<exists>hooks. fm_errors f' = hooks ++ error_list_map (validate_struct cm (report vs1)) ++ bind_err_map e)
    \<and> ok = (fm_errors f' = Map.empty)"
proof -
  let ?v = "error_list_map (validate_struct cm (report vs1))"
  obtain f1 vs2 where st: "form_validate_struct L C cm report fs (f, vs1) = (f1, vs2)" by fastforce
  let ?s = "(f\<lparr>fm_validated := True, fm_errors := ?v, fm_cleaned := Some (fm_data f)\<rparr>, vs1)"
  have "apply_clean_hooks L C fs ?s = (f1, vs2)" using st by (simp add: form_validate_struct_def)
  then have f1: "?v \<subseteq>\<^sub>m fm_errors f1" "fm_validated f1"
    using apply_clean_hooks_le [of ?s L C fs] apply_clean_hooks_validated [of L C fs ?s] by simp_all
  consider (ok) "e = None" | (bad) errs where "e = Some (Bind_errors errs)" "distinct (map fst errs)"
    using assms(1) bind_struct_distinct [of "[]" L "fm_data f" fs vs]
    by (auto simp: form_bind_def bind_eq_Some_conv split: if_splits)
  then show ?thesis
  proof cases
    case ok
    with assms st have "f' = f1" "ok = is_valid f1" by (auto simp: bind_and_validate_def)
    with f1 ok show ?thesis using map_le_split [OF f1(1)] by (auto simp: is_valid_def bind_err_map_def)
  next
    case bad
    let ?f2 = "foldl (\<lambda>f (k, m). add_error k m f) f1 errs"
    from bad assms st have "f' = ?f2" "ok = is_valid ?f2" by (auto simp: bind_and_validate_def Let_def)
    with f1(2) bad have "fm_errors f' = fm_errors f1 ++ map_of errs" "ok = (fm_errors f' = Map.empty)"
      by (simp_all add: is_valid_def foldl_add_error foldl_add_error_validated)
    moreover have "bind_err_map e = map_of errs" using bad by (simp add: bind_err_map_def)
    ultimately show ?thesis using map_le_split [OF f1(1)] by metis
  qed
qed

text \<open>
  As in Django, the hook of a field that does not validate is not run: methods that differ only in
  the hooks of such fields clean the form and the struct alike.
\<close>

theorem failed_fields_not_cleaned:
  assumes "\<forall>n. error_list_map (validate_struct cm (report vs)) n = None \<longrightarrow> cm_field C n = cm_field C' n"
    and "cm_form C = cm_form C'" "cm_convertible C = cm_convertible C'" "cm_convert C = cm_convert C'"
  shows "form_validate_struct L C cm report fs (f, vs) = form_validate_struct L C' cm report fs (f, vs)"
proof -
  let ?v = "error_list_map (validate_struct cm (report vs))"
  have sc: "safe_convertible C = safe_convertible C'"
    by (intro ext) (simp add: safe_convertible_def assms(3))
  have arg: "hook_arg L C = hook_arg L C'" by (intro ext) (simp only: hook_arg_def sc assms(4))
  have set: "set_cleaned L C = set_cleaned L C'" by (intro ext) (simp only: set_cleaned_def sc assms(4))
  have last: "clean_form C = clean_form C'" by (intro ext) (simp only: clean_form_def assms(2))
  note conv = arg set last
  have one: "clean_field L C p s = clean_field L C' p s" if "?v \<subseteq>\<^sub>m fm_errors (fst s)" for p s
  proof -
    obtain i fi f vs where ps: "p = (i, fi)" "s = (f, vs)" by (cases p; cases s)
    show ?thesis
    proof (cases "fm_errors f (fi_name fi)")
      case None
      with that ps have "?v (fi_name fi) = None" by (auto simp: map_le_def dom_def)
      with assms(1) have "cm_field C (fi_name fi) = cm_field C' (fi_name fi)" by blast
      then show ?thesis unfolding ps clean_field_def conv by simp
    qed (simp add: clean_field_def ps)
  qed
  have "foldl (\<lambda>s p. clean_field L C p s) s ps = foldl (\<lambda>s p. clean_field L C' p s) s ps"
    if "?v \<subseteq>\<^sub>m fm_errors (fst s)" for ps s
    using that
  proof (induction ps arbitrary: s)
    case (Cons p ps)
    then have "?v \<subseteq>\<^sub>m fm_errors (fst (clean_field L C' p s))" using map_le_trans [OF _ clean_field_le] by blast
    with Cons show ?case using one [OF Cons.prems] by simp
  qed simp
  then show ?thesis by (simp add: form_validate_struct_def apply_clean_hooks_def conv)
qed

section \<open>Witnesses\<close>

definition demo_report :: "(int, int) sval list \<Rightarrow> struct_result" where
  "demo_report vs = Struct_errors [\<lparr>fe_field = ''N'', fe_tag = ''email'', fe_param = [], fe_kind = KString\<rparr>]"

definition demo_methods :: "(int, int) hook option \<Rightarrow> (int, int) clean_methods" where
  "demo_methods h = \<lparr>cm_field = (\<lambda>n. if n = ''N'' then h else None), cm_form = None,
     cm_convertible = (\<lambda>_ _. False), cm_convert = (\<lambda>_ _ v. v)\<rparr>"

definition demo_form :: "(int, int) form" where
  "demo_form = empty_form\<lparr>fm_data := values_to_map demo_bad_form\<rparr>"

lemma demo_report_errors: "error_list_map (validate_struct Map.empty (demo_report vs)) n = None \<longleftrightarrow> n \<noteq> ''N''"
  by (simp add: error_list_map_def demo_report_def)

theorem form_errors_precedence_witness:
  "\<exists>f' vs' ok. bind_and_validate demo_bind_lib (demo_methods None) Map.empty demo_report
      (Some (demo_fields, demo_empty)) demo_form = Some (f', vs', ok) \<and> \<not> ok"
proof -
  obtain vs1 e where bind: "form_bind demo_bind_lib (fm_data demo_form) (Some (demo_fields, demo_empty)) = Some (vs1, e)"
    using bind_request_spec_aux [OF demo_empty_ok, of demo_bind_lib demo_bad_form] by (auto simp: demo_form_def)
  then have "\<exists>out. bind_and_validate demo_bind_lib (demo_methods None) Map.empty demo_report
      (Some (demo_fields, demo_empty)) demo_form = Some out"
    by (auto simp: bind_and_validate_def Let_def split: option.splits form_bind_err.splits prod.splits)
  then obtain f' vs' ok where run: "bind_and_validate demo_bind_lib (demo_methods None) Map.empty demo_report
      (Some (demo_fields, demo_empty)) demo_form = Some (f', vs', ok)" by fastforce
  from form_errors_precedence [OF bind run] obtain hooks where
    "fm_errors f' = hooks ++ error_list_map (validate_struct Map.empty (demo_report vs1)) ++ bind_err_map e"
    "ok = (fm_errors f' = Map.empty)" by blast
  moreover have "(hooks ++ error_list_map (validate_struct Map.empty (demo_report vs1)) ++ bind_err_map e) ''N'' \<noteq> None"
    using demo_report_errors [of vs1 "''N''"] by (auto simp: map_add_def split: option.splits)
  ultimately have "\<not> ok" by auto
  with run show ?thesis by blast
qed

theorem failed_fields_not_cleaned_witness:
  "form_validate_struct demo_bind_lib (demo_methods (Some (Hook_check (\<lambda>vs. ([], Some ''e''))))) Map.empty demo_report
      demo_fields (demo_form, demo_empty)
    = form_validate_struct demo_bind_lib (demo_methods None) Map.empty demo_report demo_fields (demo_form, demo_empty)"
  by (rule failed_fields_not_cleaned) (simp_all add: demo_report_errors demo_methods_def)

end
