(* ===== verification/Fiber_Web.thy ===== *)
theory Fiber_Web
  imports Web_Session Web_Guard Menu Policy Forms
begin

text \<open>
  \<open>pkg/web/fiberweb\<close> and \<open>pkg/policy/fiberpolicy\<close>: sessions, flash messages, old input, CSRF, the
  user and authorisation for Fiber. They adapt the functions of \<open>pkg/web\<close> (\<open>Web_Session\<close>,
  \<open>Web_Guard\<close>, \<open>Menu\<close>) and \<open>pkg/policy\<close> (\<open>Policy\<close>) to Fiber's context, here \<open>fctx\<close>: the request, the
  \<open>Locals\<close> of the package, the response so far, the world of the sessions and the state of the
  application.

  Fiber itself is the fields of the request (what \<open>c.Get\<close>, \<open>c.Query\<close>, \<open>c.FormValue\<close> and
  \<open>c.MultipartForm\<close> answer, and whether \<open>http.NewRequest\<close> accepts its URL) and the updates of the
  response. The cookies that saving a session writes are part of the sessions' world. What is
  logged is not modelled.
\<close>

section \<open>Contexts and handlers\<close>

datatype fbody = No_body | Body_text string | Body_json gval | Body_page string

record ('s, 'a) fctx =
  fc_method :: string
  fc_path :: string
  fc_url :: string
  fc_ip :: string
  fc_header :: multi
  fc_query :: "string \<Rightarrow> string"
  fc_form_value :: "string \<Rightarrow> string"
  fc_post_args :: "(string \<times> string) list"
  fc_multipart :: "multi option"
  fc_body :: string
  fc_url_err :: "gerr option"
  fc_user :: "gval option" \<comment> \<open>\<open>Locals("current_user")\<close>, \<open>None\<close> where it is nil\<close>
  fc_auth :: "bool option"
  fc_csrf :: "string option"
  fc_pending :: "old_form option"
  fc_persisted :: bool
  fc_old_cache :: "old_form option"
  fc_status :: int
  fc_type :: string
  fc_location :: string
  fc_cache :: string \<comment> \<open>\<open>Cache-Control\<close>\<close>
  fc_out :: fbody
  fc_sess :: 's
  fc_app :: 'a

datatype ferr = Fiber_error int string | Go_error gerr | Panic_error

type_synonym ('s, 'a) fhandler = "('s, 'a) fctx \<Rightarrow> ferr option \<times> ('s, 'a) fctx"

type_synonym ('s, 'a) fmiddleware = "('s, 'a) fhandler \<Rightarrow> ('s, 'a) fhandler"

definition c_status :: "int \<Rightarrow> ('s, 'a) fctx \<Rightarrow> ('s, 'a) fctx" where
  "c_status n c = c\<lparr>fc_status := n\<rparr>"

definition c_text :: "string \<Rightarrow> ('s, 'a) fhandler" where
  "c_text s c = (None, c\<lparr>fc_out := Body_text s\<rparr>)"

definition c_json :: "gval \<Rightarrow> ('s, 'a) fhandler" where
  "c_json v c = (None, c\<lparr>fc_type := ''application/json'', fc_out := Body_json v\<rparr>)"

definition c_redirect :: "string \<Rightarrow> int \<Rightarrow> ('s, 'a) fhandler" where
  "c_redirect url code c = (None, c\<lparr>fc_location := url, fc_status := code\<rparr>)"

definition c_get :: "string \<Rightarrow> ('s, 'a) fctx \<Rightarrow> string" where
  "c_get k c = header_get k (fc_header c)"

text \<open>
  What a template does with the helpers that take the context, one call after the other; it ends
  with its text or an error. Data of templates are values, menus, rows of a menu, and the errors
  of a form.
\<close>

datatype view_step =
    View_end "gerr + string"
  | View_flash string "string \<Rightarrow> view_step"
  | View_old string "string \<Rightarrow> view_step"
  | View_can string string "bool \<Rightarrow> view_step"
  | View_langs "string list \<Rightarrow> view_step"

datatype view_val = View_value gval | View_menu "menu_item list" | View_rows "(nat \<times> menu_item) list" | View_errors "string \<rightharpoonup> string"

type_synonym view_data = "(string \<times> view_val) list"

record 's fiber_env =
  fe_sess :: "'s sess_lib"
  fe_random :: "nat \<Rightarrow> gerr + string" \<comment> \<open>what the random source gives in this request\<close>
  fe_marshal :: "gval \<Rightarrow> gerr + string"
  fe_unmarshal :: "string \<Rightarrow> gval option"
  fe_old_marshal :: "old_form \<Rightarrow> gerr + string"
  fe_old_unmarshal :: "string \<Rightarrow> old_form option"
  fe_old_limits :: old_limits
  fe_patterns :: "string list"
  fe_parse_float :: "string \<Rightarrow> rat option"
  fe_can :: "can_checker option"
  fe_view :: "string \<Rightarrow> view_data \<Rightarrow> view_step"

section \<open>The adapter\<close>

text \<open>
  \<open>HTTPRequest\<close>: the request without its body, or the error of its URL; \<open>with_http\<close> hands it to a
  function of \<open>pkg/web\<close>. A result is a value with an error; \<open>d\<close> is what stands for no value.
\<close>

definition fiber_http_request :: "('s, 'a) fctx \<Rightarrow> server_request" where
  "fiber_http_request c = \<lparr>sr_method = fc_method c, sr_path = fc_url c, sr_header = fc_header c, sr_post = [], sr_remote = fc_ip c,
     sr_length = 0, sr_body_limit = None, sr_request_id = None, sr_csrf_token = None, sr_csrf_err = None\<rparr>"

definition adapt_error :: "gerr \<Rightarrow> ferr" where
  "adapt_error e = Go_error (err_wrap ''fiberweb: cannot adapt request'' e)"

definition with_http ::
  "'x \<Rightarrow> (server_request \<Rightarrow> ('s, 'a) fctx \<Rightarrow> ('x \<times> ferr option) \<times> ('s, 'a) fctx) \<Rightarrow> ('s, 'a) fctx
    \<Rightarrow> ('x \<times> ferr option) \<times> ('s, 'a) fctx" where
  "with_http d fn c =
     (case fc_url_err c of Some e \<Rightarrow> ((d, Some (adapt_error e)), c) | None \<Rightarrow> fn (fiber_http_request c) c)"

text \<open>Functions on the sessions, as functions on the context; \<open>None\<close> is a panic.\<close>

definition on_sess :: "('s \<Rightarrow> ('x \<times> gerr option) \<times> 's) \<Rightarrow> ('s, 'a) fctx \<Rightarrow> ('x \<times> ferr option) \<times> ('s, 'a) fctx" where
  "on_sess f c = (case f (fc_sess c) of ((x, e), s) \<Rightarrow> ((x, map_option Go_error e), c\<lparr>fc_sess := s\<rparr>))"

definition on_sess_err :: "('s \<Rightarrow> gerr option \<times> 's) \<Rightarrow> ('s, 'a) fctx \<Rightarrow> (unit \<times> ferr option) \<times> ('s, 'a) fctx" where
  "on_sess_err f = on_sess (\<lambda>s. case f s of (e, s1) \<Rightarrow> (((), e), s1))"

definition on_sess_panic ::
  "'x \<Rightarrow> ('s \<Rightarrow> (('x \<times> gerr option) \<times> 's) option) \<Rightarrow> ('s, 'a) fctx \<Rightarrow> ('x \<times> ferr option) \<times> ('s, 'a) fctx" where
  "on_sess_panic d f c = (case f (fc_sess c) of None \<Rightarrow> ((d, Some Panic_error), c) | Some r \<Rightarrow> on_sess (\<lambda>s. r) c)"

definition err_only :: "(unit \<times> ferr option) \<times> ('s, 'a) fctx \<Rightarrow> ferr option \<times> ('s, 'a) fctx" where
  "err_only r = (snd (fst r), snd r)"

section \<open>The user\<close>

definition current_user :: "'s fiber_env \<Rightarrow> ('s, 'a) fctx \<Rightarrow> gval option \<times> ('s, 'a) fctx" where
  "current_user E c =
     (case fc_user c of
        Some v \<Rightarrow> (Some v, c)
      | None \<Rightarrow>
          (case fc_url_err c of
             Some e \<Rightarrow> (None, c)
           | None \<Rightarrow>
               (case get_user_from_request (fe_sess E) (fe_unmarshal E) (fc_sess c) of
                  Some u \<Rightarrow> (Some u, c\<lparr>fc_user := Some u, fc_auth := Some True\<rparr>)
                | None \<Rightarrow> (None, c))))"

definition attach_user :: "'s fiber_env \<Rightarrow> ('s, 'a) fmiddleware" where
  "attach_user E next c =
     (case current_user E c of
        (Some u, c1) \<Rightarrow> next (c1\<lparr>fc_user := Some u, fc_auth := Some True\<rparr>)
      | (None, c1) \<Rightarrow> next (c1\<lparr>fc_user := None, fc_auth := Some False\<rparr>))"

definition is_authenticated :: "'s fiber_env \<Rightarrow> ('s, 'a) fctx \<Rightarrow> bool \<times> ('s, 'a) fctx" where
  "is_authenticated E c =
     (if fc_auth c = Some True then (True, c)
      else (case current_user E c of (u, c1) \<Rightarrow> (u \<noteq> None, c1)))"

definition accepts_html :: "string \<Rightarrow> bool" where
  "accepts_html accept \<longleftrightarrow>
     (if accept = [] then False else contains_sub ''text/html'' accept \<or> contains_sub ''application/xhtml+xml'' accept)"

definition wants_html :: "('s, 'a) fctx \<Rightarrow> bool" where
  "wants_html c \<longleftrightarrow> accepts_html (c_get ''Accept'' c)"

definition error_json :: "string \<Rightarrow> gval" where
  "error_json m = VMap [(''error'', VStr m)]"

definition login_fail :: "('s, 'a) fhandler" where
  "login_fail c =
     (if wants_html c then c_redirect (''/login?next='' @ query_escape (fc_url c)) 302 c
      else c_json (error_json ''unauthorized'') (c_status 401 c))"

definition fiber_forbidden :: "('s, 'a) fhandler" where
  "fiber_forbidden c =
     (if wants_html c then c_text ''403 Forbidden'' (c_status 403 (c\<lparr>fc_type := ''text/plain; charset=utf-8''\<rparr>))
      else c_json (error_json ''forbidden'') (c_status 403 c))"

definition require_login :: "'s fiber_env \<Rightarrow> ('s, 'a) fhandler option \<Rightarrow> ('s, 'a) fmiddleware" where
  "require_login E on_fail next c =
     (case is_authenticated E c of
        (True, c1) \<Rightarrow> next c1
      | (False, c1) \<Rightarrow> (case on_fail of Some h \<Rightarrow> h c1 | None \<Rightarrow> login_fail c1))"

text \<open>The user as \<open>pkg/web\<close> tells it apart: one read from the session is a map or a text.\<close>

definition web_user_of :: "gval option \<Rightarrow> web_user" where
  "web_user_of v = (case v of None \<Rightarrow> No_user | Some (VMap m) \<Rightarrow> User_values (map_of m) | Some _ \<Rightarrow> Other_user)"

definition authorize :: "'s fiber_env \<Rightarrow> (web_user \<Rightarrow> bool) option \<Rightarrow> ('s, 'a) fhandler option \<Rightarrow> ('s, 'a) fmiddleware" where
  "authorize E predicate on_fail next c =
     (case current_user E c of
        (None, c1) \<Rightarrow> login_fail c1
      | (Some u, c1) \<Rightarrow>
          if (case predicate of None \<Rightarrow> True | Some p \<Rightarrow> \<not> p (web_user_of (Some u))) then
            (case on_fail of Some h \<Rightarrow> h c1 | None \<Rightarrow> fiber_forbidden c1)
          else next c1)"

definition require_roles_with :: "'s fiber_env \<Rightarrow> ('s, 'a) fhandler option \<Rightarrow> string list \<Rightarrow> ('s, 'a) fmiddleware" where
  "require_roles_with E on_fail roles = authorize E (Some (\<lambda>u. list_ex (has_role u) roles)) on_fail"

definition require_roles :: "'s fiber_env \<Rightarrow> string list \<Rightarrow> ('s, 'a) fmiddleware" where
  "require_roles E roles = require_roles_with E None roles"

definition inject_user :: "'s fiber_env \<Rightarrow> view_data \<Rightarrow> ('s, 'a) fctx \<Rightarrow> view_data \<times> ('s, 'a) fctx" where
  "inject_user E d c =
     (case current_user E c of
        (Some u, c1) \<Rightarrow>
          (AList.update ''IsAuthenticated'' (View_value (VBool True)) (AList.update ''CurrentUser'' (View_value u) d), c1)
      | (None, c1) \<Rightarrow>
          (AList.update ''IsAuthenticated'' (View_value (VBool False)) (AList.update ''CurrentUser'' (View_value VNil) d), c1))"

definition set_user :: "'s fiber_env \<Rightarrow> gval option \<Rightarrow> ('s, 'a) fhandler" where
  "set_user E user c =
     (case with_http () (\<lambda>r. on_sess_err (set_user_in_session (fe_sess E) (fe_marshal E) user)) c of
        ((_, Some e), c1) \<Rightarrow> (Some e, c1)
      | ((_, None), c1) \<Rightarrow> (None, c1\<lparr>fc_user := user, fc_auth := Some (user \<noteq> None)\<rparr>))"

definition clear_user :: "'s fiber_env \<Rightarrow> ('s, 'a) fhandler" where
  "clear_user E c =
     (case with_http () (\<lambda>r. on_sess_err (clear_user_from_session (fe_sess E))) c of
        ((_, Some e), c1) \<Rightarrow> (Some e, c1)
      | ((_, None), c1) \<Rightarrow> (None, c1\<lparr>fc_user := None, fc_auth := Some False\<rparr>))"


section \<open>CSRF\<close>

definition fiber_session_lib :: "'s fiber_env \<Rightarrow> 's session_lib" where
  "fiber_session_lib E =
     \<lparr>sl_get = (\<lambda>n r s. se_get (fe_sess E) n s),
      sl_save = (\<lambda>n vals r rw s. case se_save (fe_sess E) n vals s of (e, s1) \<Rightarrow> (e, rw, s1)),
      sl_random = (\<lambda>n s. fe_random E n)\<rparr>"

definition empty_writer :: response_writer where
  "empty_writer = \<lparr>rw_header = [], rw_sent = None, rw_body = []\<rparr>"

definition fiber_csrf_token :: "'s fiber_env \<Rightarrow> ('s, 'a) fctx \<Rightarrow> (string \<times> ferr option) \<times> ('s, 'a) fctx" where
  "fiber_csrf_token E =
     with_http [] (\<lambda>r. on_sess (\<lambda>s.
       case session_csrf_token (fiber_session_lib E) r empty_writer s of
         (Inl e, rw, s1) \<Rightarrow> (([], Some e), s1)
       | (Inr t, rw, s1) \<Rightarrow> ((t, None), s1)))"

record ('s, 'a) fiber_csrf =
  fx_skip :: "(('s, 'a) fctx \<Rightarrow> bool) option"
  fx_skip_paths :: "string list"
  fx_error :: "(ferr \<Rightarrow> ('s, 'a) fhandler) option"

definition no_csrf_config :: "('s, 'a) fiber_csrf" where
  "no_csrf_config = \<lparr>fx_skip = None, fx_skip_paths = [], fx_error = None\<rparr>"

definition fiber_csrf_fail :: "('s, 'a) fiber_csrf \<Rightarrow> ferr \<Rightarrow> ('s, 'a) fhandler" where
  "fiber_csrf_fail conf e c =
     (case fx_error conf of
        Some h \<Rightarrow> h e c
      | None \<Rightarrow>
          c_text (case e of Go_error g \<Rightarrow> if err_is g ''security: CSRF token missing'' then ''CSRF token missing'' else ''Invalid CSRF token''
             | _ \<Rightarrow> ''Invalid CSRF token'') (c_status 403 c))"

definition fiber_csrf_skips :: "('s, 'a) fiber_csrf \<Rightarrow> ('s, 'a) fctx \<Rightarrow> bool" where
  "fiber_csrf_skips conf c \<longleftrightarrow> (case fx_skip conf of None \<Rightarrow> False | Some f \<Rightarrow> f c)
     \<or> list_ex (\<lambda>p. match_path p (fc_path c)) (fx_skip_paths conf)"

definition fiber_provided_token :: "('s, 'a) fctx \<Rightarrow> string" where
  "fiber_provided_token c =
     (if c_get csrf_header_name c = [] then fc_form_value c csrf_field_name else c_get csrf_header_name c)"

definition csrf_with_config :: "'s fiber_env \<Rightarrow> ('s, 'a) fiber_csrf option \<Rightarrow> ('s, 'a) fmiddleware" where
  "csrf_with_config E cfg next c =
     (let conf = (case cfg of None \<Rightarrow> no_csrf_config | Some x \<Rightarrow> x) in
      if fiber_csrf_skips conf c then next c
      else
        (case fiber_csrf_token E c of
           ((tok, e), c1) \<Rightarrow>
             (let c2 = (if e = None then c1\<lparr>fc_csrf := Some tok\<rparr> else c1) in
              if is_csrf_safe_method (fc_method c2) then next c2
              else
                (case fc_url_err c2 of
                   Some u \<Rightarrow> fiber_csrf_fail conf (adapt_error u) c2
                 | None \<Rightarrow>
                     (case verify_csrf (Some (session_csrf_store (fiber_session_lib E))) (fiber_http_request c2) (fiber_provided_token c2) (fc_sess c2) of
                        Some g \<Rightarrow> fiber_csrf_fail conf (Go_error g) c2
                      | None \<Rightarrow> next c2)))))"

section \<open>Flash messages and old input\<close>

text \<open>The closure of \<open>Flash\<close> with its cache; a panic leaves it.\<close>

type_synonym flash_cache = "string \<rightharpoonup> string"

definition flash_fn ::
  "'s fiber_env \<Rightarrow> string \<Rightarrow> flash_cache \<Rightarrow> ('s, 'a) fctx \<Rightarrow> (string \<times> flash_cache \<times> ('s, 'a) fctx) option" where
  "flash_fn E key cache c =
     (case cache key of
        Some v \<Rightarrow> Some (v, cache, c)
      | None \<Rightarrow>
          (case with_http [] (\<lambda>r. on_sess_panic [] (get_flash (fe_sess E) key)) c of
             ((msg, Some Panic_error), c1) \<Rightarrow> None
           | ((msg, _), c1) \<Rightarrow> Some (msg, cache(key \<mapsto> msg), c1)))"

definition persist_pending_old :: "'s fiber_env \<Rightarrow> ('s, 'a) fhandler" where
  "persist_pending_old E c =
     (case fc_pending c of
        None \<Rightarrow> (None, c)
      | Some form \<Rightarrow>
          (case set_old_inputs (fe_sess E) (fe_old_marshal E) (fe_old_limits E) (fe_patterns E) form (fc_sess c) of
             (Some e, s) \<Rightarrow> (Some (Go_error e), c\<lparr>fc_sess := s\<rparr>)
           | (None, s) \<Rightarrow> (None, c\<lparr>fc_sess := s, fc_pending := None, fc_persisted := True\<rparr>)))"

definition fiber_add_flash :: "'s fiber_env \<Rightarrow> string \<Rightarrow> string \<Rightarrow> ('s, 'a) fhandler" where
  "fiber_add_flash E key msg c =
     err_only (with_http () (\<lambda>r c.
       (case persist_pending_old E c of
          (Some e, c1) \<Rightarrow> (((), Some e), c1)
        | (None, c1) \<Rightarrow>
            on_sess_panic () (\<lambda>s. map_option (\<lambda>(e, s1). (((), e), s1)) (add_flash (fe_sess E) key msg s)) c1)) c)"

definition set_flash :: "'s fiber_env \<Rightarrow> string \<Rightarrow> string \<Rightarrow> string \<Rightarrow> int \<Rightarrow> ('s, 'a) fhandler" where
  "set_flash E key msg url code c =
     (case fiber_add_flash E key msg c of (Some e, c1) \<Rightarrow> (Some e, c1) | (None, c1) \<Rightarrow> c_redirect url code c1)"

definition all_flashes :: "'s fiber_env \<Rightarrow> ('s, 'a) fctx \<Rightarrow> ((string \<times> string list) list \<times> ferr option) \<times> ('s, 'a) fctx" where
  "all_flashes E = with_http [] (\<lambda>r. on_sess (get_all_flashes (fe_sess E)))"

definition fiber_set_old_inputs :: "old_form \<Rightarrow> ('s, 'a) fctx \<Rightarrow> ('s, 'a) fctx" where
  "fiber_set_old_inputs form c = c\<lparr>fc_pending := Some form\<rparr>"

definition commit_old_inputs :: "'s fiber_env \<Rightarrow> ('s, 'a) fhandler" where
  "commit_old_inputs E c =
     err_only (with_http () (\<lambda>r c. case persist_pending_old E c of (e, c1) \<Rightarrow> (((), e), c1)) c)"

definition fiber_get_old_inputs :: "'s fiber_env \<Rightarrow> ('s, 'a) fctx \<Rightarrow> (old_form \<times> ferr option) \<times> ('s, 'a) fctx" where
  "fiber_get_old_inputs E = with_http [] (\<lambda>r. on_sess (get_old_inputs (fe_sess E) (fe_old_unmarshal E)))"

definition old_all :: "'s fiber_env \<Rightarrow> ('s, 'a) fctx \<Rightarrow> old_form \<times> ('s, 'a) fctx" where
  "old_all E c =
     (case fc_old_cache c of
        Some v \<Rightarrow> (v, c)
      | None \<Rightarrow> (case fiber_get_old_inputs E c of ((vals, e), c1) \<Rightarrow> (vals, c1\<lparr>fc_old_cache := Some vals\<rparr>)))"

definition old_value :: "'s fiber_env \<Rightarrow> string \<Rightarrow> ('s, 'a) fctx \<Rightarrow> string \<times> ('s, 'a) fctx" where
  "old_value E key c = (case old_all E c of (vals, c1) \<Rightarrow> (multi_get key vals, c1))"

definition fiber_form_values :: "('s, 'a) fctx \<Rightarrow> multi" where
  "fiber_form_values c =
     (let vals = foldl (\<lambda>m (k, v). multi_add k v m) [] (fc_post_args c) in
      if has_prefix ''multipart/form-data'' (go_lower (c_get ''Content-Type'' c)) then
        (case fc_multipart c of
           None \<Rightarrow> vals
         | Some mf \<Rightarrow>
             foldl (\<lambda>m (k, vs). if map_of m k \<noteq> None then m else foldl (\<lambda>m v. multi_add k v m) m vs) vals mf)
      else vals)"

definition auto_old_inputs :: "'s fiber_env \<Rightarrow> ('s, 'a) fmiddleware" where
  "auto_old_inputs E next c =
     (if fc_method c \<notin> set [''POST'', ''PUT'', ''PATCH''] then next c
      else
        (let ct = go_lower (c_get ''Content-Type'' c) in
         if \<not> has_prefix ''application/x-www-form-urlencoded'' ct \<and> \<not> has_prefix ''multipart/form-data'' ct then next c
         else
           (let captured = fiber_form_values c in
            case next c of
              (Some Panic_error, c1) \<Rightarrow> (Some Panic_error, c1)
            | (err, c1) \<Rightarrow>
                if fc_status c1 < 300 \<or> 400 \<le> fc_status c1 then (err, c1\<lparr>fc_pending := None\<rparr>)
                else if fc_persisted c1 then (err, c1)
                else
                  (case commit_old_inputs E (if fc_pending c1 = None then c1\<lparr>fc_pending := Some captured\<rparr> else c1) of
                     (cerr, c2) \<Rightarrow> (if err = None then cerr else err, c2)))))"

text \<open>\<open>Form\<close> and \<open>JSONForm\<close>; \<open>decode\<close> is \<open>json.Unmarshal\<close> into a map.\<close>

definition fiber_form :: "('s, 'a) fctx \<Rightarrow> ('f, 't) form" where
  "fiber_form c = new_from_map (Some (values_to_map (fiber_form_values c)))"

definition json_form :: "(string \<Rightarrow> ('f, 't) form_data option) \<Rightarrow> ('s, 'a) fctx \<Rightarrow> ('f, 't) form" where
  "json_form decode c =
     (if fc_body c = [] then new_from_map (Some [])
      else (case decode (fc_body c) of
              None \<Rightarrow> new_from_map (Some [(''_raw'', Some (TStr, FStr (fc_body c)))])
            | Some m \<Rightarrow> new_from_map (Some m)))"


section \<open>Language, menu and templates\<close>

definition fiber_set_lang :: "'s fiber_env \<Rightarrow> string \<Rightarrow> ('s, 'a) fhandler" where
  "fiber_set_lang E l c = err_only (with_http () (\<lambda>r. on_sess_err (set_preferred_lang (fe_sess E) l)) c)"

definition fiber_preferred_lang :: "'s fiber_env \<Rightarrow> ('s, 'a) fctx \<Rightarrow> string option" where
  "fiber_preferred_lang E c = (if fc_url_err c \<noteq> None then None else preferred_lang (fe_sess E) (fc_sess c))"

definition fiber_langs :: "'s fiber_env \<Rightarrow> string \<Rightarrow> ('s, 'a) fctx \<Rightarrow> string list" where
  "fiber_langs E fallback c =
     merge_langs (case fiber_preferred_lang E c of Some l \<Rightarrow> l | None \<Rightarrow> [])
       (parse_accept_language (fe_parse_float E) (c_get ''Accept-Language'' c) fallback)"

definition fiber_build_menu ::
  "'s fiber_env \<Rightarrow> templates \<Rightarrow> (gval \<Rightarrow> string) \<Rightarrow> menu_item list \<Rightarrow> ('s, 'a) fctx \<Rightarrow> menu_item list \<times> ('s, 'a) fctx" where
  "fiber_build_menu E routes sprint items c =
     (case current_user E c of
        (u, c1) \<Rightarrow>
          (build_menu \<lparr>me_path = fc_path c, me_user = web_user_of u, me_can = fe_can E, me_routes = routes, me_sprint = sprint\<rparr> items, c1))"

definition fiber_can :: "'s fiber_env \<Rightarrow> string \<Rightarrow> string \<Rightarrow> ('s, 'a) fctx \<Rightarrow> bool \<times> ('s, 'a) fctx" where
  "fiber_can E object action c =
     (case current_user E c of (u, c1) \<Rightarrow> (user_can (fe_can E) (web_user_of u) object action, c1))"

definition default_lang :: string where
  "default_lang = ''tr''"

text \<open>A template at work: the helpers \<open>t\<close>, \<open>old\<close> and \<open>can\<close> of \<open>JetGlobalHelpers\<close>, and \<open>flash\<close>.\<close>

primrec run_view :: "'s fiber_env \<Rightarrow> view_step \<Rightarrow> flash_cache \<Rightarrow> ('s, 'a) fctx \<Rightarrow> (ferr + string) \<times> ('s, 'a) fctx" where
  "run_view E (View_end r) cache c = (case r of Inl e \<Rightarrow> (Inl (Go_error e), c) | Inr s \<Rightarrow> (Inr s, c))"
| "run_view E (View_flash key k) cache c =
     (case flash_fn E key cache c of None \<Rightarrow> (Inl Panic_error, c) | Some (msg, cache1, c1) \<Rightarrow> run_view E (k msg) cache1 c1)"
| "run_view E (View_old key k) cache c = (case old_value E key c of (v, c1) \<Rightarrow> run_view E (k v) cache c1)"
| "run_view E (View_can obj act k) cache c = (case fiber_can E obj act c of (b, c1) \<Rightarrow> run_view E (k b) cache c1)"
| "run_view E (View_langs k) cache c = run_view E (k (fiber_langs E default_lang c)) cache c"

definition fiber_render :: "'s fiber_env \<Rightarrow> string \<Rightarrow> view_data \<Rightarrow> ('s, 'a) fhandler" where
  "fiber_render E view d c =
     (case inject_user E d c of
        (m, c1) \<Rightarrow>
          (case flash_fn E ''success'' Map.empty c1 of
             None \<Rightarrow> (Some Panic_error, c1)
           | Some (ok, cache1, c2) \<Rightarrow>
               (case flash_fn E ''error'' cache1 c2 of
                  None \<Rightarrow> (Some Panic_error, c2)
                | Some (ko, cache2, c3) \<Rightarrow>
                    (let m1 = AList.update ''FlashError'' (View_value (VStr ko)) (AList.update ''FlashSuccess'' (View_value (VStr ok)) m);
                         (m2, c4) = (case fc_csrf c3 of
                             Some (t # ts) \<Rightarrow> (AList.update ''CSRFToken'' (View_value (VStr (t # ts))) m1, c3)
                           | _ \<Rightarrow> (case fiber_csrf_token E c3 of
                                 ((tok, None), c4) \<Rightarrow> (AList.update ''CSRFToken'' (View_value (VStr tok)) m1, c4)
                               | ((tok, Some e), c4) \<Rightarrow> (m1, c4))) in
                     case run_view E (fe_view E view m2) cache2 c4 of
                       (Inl e, c5) \<Rightarrow> (Some e, c5)
                     | (Inr s, c5) \<Rightarrow> (None, c5\<lparr>fc_type := ''text/html'', fc_out := Body_page s\<rparr>)))))"

section \<open>Casbin\<close>

record ('e, 'm, 's, 'a) fiber_casbin =
  fb_manager :: "('e, 'm) manager option"
  fb_subject :: "(('s, 'a) fctx \<Rightarrow> string \<times> ('s, 'a) fctx) option"
  fb_object :: "(('s, 'a) fctx \<Rightarrow> string) option"
  fb_action :: "(('s, 'a) fctx \<Rightarrow> string) option"
  fb_forbidden :: "('s, 'a) fhandler option"

definition default_subject :: "'s fiber_env \<Rightarrow> ('s, 'a) fctx \<Rightarrow> string \<times> ('s, 'a) fctx" where
  "default_subject E c = (case current_user E c of (u, c1) \<Rightarrow> (extract_user_role (web_user_of u) guest_role, c1))"

definition default_forbidden :: "('s, 'a) fhandler" where
  "default_forbidden c =
     (if contains_sub ''json'' (c_get ''Accept'' c) then c_json (error_json ''forbidden'') (c_status 403 c)
      else c_text ''403 Forbidden'' (c_status 403 c))"

text \<open>\<open>dflt\<close> is \<open>policy.DefaultManager\<close> at the time of the request.\<close>

definition casbin_enforce_with ::
  "('e, 'b, 'm) casbin_lib \<Rightarrow> 's fiber_env \<Rightarrow> (('s, 'a) fctx \<Rightarrow> ('e, 'm) manager option) \<Rightarrow> ('e, 'm, 's, 'a) fiber_casbin
    \<Rightarrow> ('s, 'a) fmiddleware" where
  "casbin_enforce_with CB E dflt cfg next c =
     (let subject = or_default (fb_subject cfg) (default_subject E);
          object = or_default (fb_object cfg) fc_path;
          action = or_default (fb_action cfg) fc_method;
          forbidden = or_default (fb_forbidden cfg) default_forbidden;
          m = (case fb_manager cfg of None \<Rightarrow> dflt c | Some m \<Rightarrow> Some m) in
      case m of
        None \<Rightarrow> forbidden c
      | Some mg \<Rightarrow>
          (case subject c of
             (sub, c1) \<Rightarrow>
               (case manager_enforce CB mg (VStr sub) (VStr (object c1)) (VStr (action c1)) of
                  (_, Some e) \<Rightarrow>
                    if err_is e ''policy: enforcer not initialised'' then forbidden c1
                    else c_text ''500 Internal Server Error'' (c_status 500 c1)
                | (False, None) \<Rightarrow> forbidden c1
                | (True, None) \<Rightarrow> next c1)))"


section \<open>What leaves the user alone\<close>

text \<open>Sessions are apart where saving one leaves what the others hold, and makes it hold what was saved, or nothing new.\<close>

definition sessions_apart :: "'s sess_lib \<Rightarrow> bool" where
  "sessions_apart S \<longleftrightarrow>
     (\<forall>n m vals s e s1. n \<noteq> m \<longrightarrow> se_save S n vals s = (e, s1) \<longrightarrow> se_get S m s1 = se_get S m s) \<and>
     (\<forall>n vals s e s1. se_save S n vals s = (e, s1) \<longrightarrow> se_get S n s1 = se_get S n s \<or> se_get S n s1 = Inr vals)"

definition auth_session :: "'s fiber_env \<Rightarrow> ('s, 'a) fctx \<Rightarrow> gerr + sess_vals" where
  "auth_session E c = se_get (fe_sess E) auth_session_name (fc_sess c)"

definition stored_user :: "'s fiber_env \<Rightarrow> ('s, 'a) fctx \<Rightarrow> gval option" where
  "stored_user E c =
     (if fc_url_err c = None then get_user_from_request (fe_sess E) (fe_unmarshal E) (fc_sess c) else None)"

text \<open>What the \<open>Locals\<close> say about the user is what the session says.\<close>

definition user_ok :: "'s fiber_env \<Rightarrow> ('s, 'a) fctx \<Rightarrow> bool" where
  "user_ok E c \<longleftrightarrow> (\<forall>u. fc_user c = Some u \<longrightarrow> stored_user E c = Some u) \<and> (fc_auth c = Some True \<longrightarrow> stored_user E c \<noteq> None)"

definition same_request :: "('s, 'a) fctx \<Rightarrow> ('s, 'a) fctx \<Rightarrow> bool" where
  "same_request c d \<longleftrightarrow> fc_method d = fc_method c \<and> fc_path d = fc_path c \<and> fc_url d = fc_url c \<and> fc_ip d = fc_ip c
     \<and> fc_header d = fc_header c \<and> fc_query d = fc_query c \<and> fc_form_value d = fc_form_value c \<and> fc_post_args d = fc_post_args c
     \<and> fc_multipart d = fc_multipart c \<and> fc_body d = fc_body c \<and> fc_url_err d = fc_url_err c"

text \<open>
  The CSRF token of the sessions. \<open>fresh_token\<close>: the one this request draws, where it draws one. \<open>sess_kept\<close>: the user's
  session is the same, and so is the token, unless there was none and one was drawn.
\<close>

definition session_token :: "'s fiber_env \<Rightarrow> 's \<Rightarrow> string option" where
  "session_token E s =
     (case se_get (fe_sess E) csrf_session_name s of
        Inl e \<Rightarrow> None
      | Inr vals \<Rightarrow> (case map_of vals csrf_key of Some (VStr (ch # t)) \<Rightarrow> Some (ch # t) | _ \<Rightarrow> None))"

definition fresh_token :: "'s fiber_env \<Rightarrow> string \<Rightarrow> bool" where
  "fresh_token E t \<longleftrightarrow> new_csrf_token (fe_random E 32) = Inr t"

definition sess_kept :: "'s fiber_env \<Rightarrow> 's \<Rightarrow> 's \<Rightarrow> bool" where
  "sess_kept E s s1 \<longleftrightarrow> se_get (fe_sess E) auth_session_name s1 = se_get (fe_sess E) auth_session_name s
     \<and> (session_token E s1 = session_token E s \<or> session_token E s = None \<and> (\<exists>t. session_token E s1 = Some t \<and> fresh_token E t))"

lemma sess_kept_refl [simp]: "sess_kept E s s"
  by (simp add: sess_kept_def)

lemma sess_kept_trans: "sess_kept E s s1 \<Longrightarrow> sess_kept E s1 s2 \<Longrightarrow> sess_kept E s s2"
  by (auto simp: sess_kept_def)

text \<open>
  \<open>steady\<close>: the request and the session of the user are the same, the CSRF token is kept, what the
  \<open>Locals\<close> say about the user stays right, and the part \<open>f\<close> of the application's state is the same.
\<close>

definition steady :: "'s fiber_env \<Rightarrow> ('a \<Rightarrow> 'b) \<Rightarrow> ('s, 'a) fctx \<Rightarrow> ('s, 'a) fctx \<Rightarrow> bool" where
  "steady E f c d \<longleftrightarrow> same_request c d \<and> sess_kept E (fc_sess c) (fc_sess d) \<and> f (fc_app d) = f (fc_app c)
     \<and> (user_ok E c \<longrightarrow> user_ok E d)"

lemma stored_user_auth:
  "fc_url_err d = fc_url_err c \<Longrightarrow> auth_session E d = auth_session E c \<Longrightarrow> stored_user E d = stored_user E c"
  by (simp add: stored_user_def auth_session_def get_user_from_request_def)

lemma steady_auth: "steady E f c d \<Longrightarrow> auth_session E d = auth_session E c"
  by (simp add: steady_def sess_kept_def auth_session_def)

lemma steady_stored: "steady E f c d \<Longrightarrow> stored_user E d = stored_user E c"
  by (rule stored_user_auth) (simp_all add: steady_auth, simp add: steady_def same_request_def)

lemma steady_refl [simp]: "steady E f c c"
  by (simp add: steady_def same_request_def)

lemma steady_trans [trans]: "steady E f c d \<Longrightarrow> steady E f d e \<Longrightarrow> steady E f c e"
  using sess_kept_trans [of E "fc_sess c" "fc_sess d" "fc_sess e"] by (simp add: steady_def same_request_def)

text \<open>Updates of the response and of other \<open>Locals\<close>.\<close>

definition unrelated :: "(('s, 'a) fctx \<Rightarrow> ('s, 'a) fctx) \<Rightarrow> bool" where
  "unrelated g \<longleftrightarrow> (\<forall>c. same_request c (g c) \<and> fc_sess (g c) = fc_sess c \<and> fc_app (g c) = fc_app c
     \<and> fc_user (g c) = fc_user c \<and> fc_auth (g c) = fc_auth c)"

lemma unrelated_steady: "unrelated g \<Longrightarrow> steady E f c (g c)"
  by (simp add: unrelated_def steady_def user_ok_def stored_user_def auth_session_def same_request_def)

lemma unrelated_updates [simp]:
  "unrelated (c_status n)" "unrelated (\<lambda>c. snd (c_text s c))" "unrelated (\<lambda>c. snd (c_json v c))"
  "unrelated (\<lambda>c. snd (c_redirect url n c))" "unrelated (fc_type_update h)" "unrelated (fc_out_update k)" "unrelated (fc_csrf_update l)"
  "unrelated (fc_pending_update m)" "unrelated (fc_persisted_update p)" "unrelated (fc_old_cache_update q)"
  "unrelated (fc_cache_update k')"
  by (simp_all add: unrelated_def same_request_def c_status_def c_text_def c_json_def c_redirect_def)

lemmas steady_updates [simp] = unrelated_updates [THEN unrelated_steady]

text \<open>A new state of the sessions that keeps the user's.\<close>

lemma steady_sess:
  "sess_kept E (fc_sess c) s \<Longrightarrow> steady E f c (c\<lparr>fc_sess := s\<rparr>)"
  by (simp add: steady_def same_request_def user_ok_def stored_user_def get_user_from_request_def sess_kept_def)

lemma session_names [simp]:
  "flash_session_name \<noteq> auth_session_name" "lang_session_name \<noteq> auth_session_name" "csrf_session_name \<noteq> auth_session_name"
  by (simp_all add: flash_session_name_def lang_session_name_def csrf_session_name_def auth_session_name_def)

lemma session_names_csrf [simp]: "flash_session_name \<noteq> csrf_session_name" "lang_session_name \<noteq> csrf_session_name"
  by (simp_all add: flash_session_name_def lang_session_name_def csrf_session_name_def)

lemma save_apart:
  "sessions_apart S \<Longrightarrow> n \<noteq> m \<Longrightarrow> se_save S n vals s = (e, s1) \<Longrightarrow> se_get S m s1 = se_get S m s"
  by (simp add: sessions_apart_def)

lemma save_values_apart:
  "sessions_apart S \<Longrightarrow> n \<noteq> m \<Longrightarrow> save_values S n ok ko vals s = (r, s1) \<Longrightarrow> se_get S m s1 = se_get S m s"
  by (auto simp: save_values_def split: prod.splits option.splits dest: save_apart)

text \<open>The functions of \<open>pkg/web\<close> on other sessions.\<close>

lemma other_sessions:
  assumes S: "sessions_apart S" and m: "flash_session_name \<noteq> m" "lang_session_name \<noteq> m"
  shows "add_flash S key msg w = Some (e, w1) \<Longrightarrow> se_get S m w1 = se_get S m w"
    and "get_flash S key w = Some ((x, ex), w1) \<Longrightarrow> se_get S m w1 = se_get S m w"
    and "get_all_flashes S w = (r', w1) \<Longrightarrow> se_get S m w1 = se_get S m w"
    and "set_old_inputs S mar l pats form w = (e', w1) \<Longrightarrow> se_get S m w1 = se_get S m w"
    and "get_old_inputs S unm w = ((y, ey), w1) \<Longrightarrow> se_get S m w1 = se_get S m w"
    and "set_preferred_lang S lg w = (e'', w1) \<Longrightarrow> se_get S m w1 = se_get S m w"
  using save_apart [OF S m(1)] save_apart [OF S m(2)] save_values_apart [OF S m(1)]
  by (auto simp: add_flash_def get_flash_def get_all_flashes_def set_old_inputs_def get_old_inputs_def set_preferred_lang_def Let_def
      split: sum.splits option.splits if_splits prod.splits gval.splits)

lemma sess_kept_same:
  "se_get (fe_sess E) auth_session_name s1 = se_get (fe_sess E) auth_session_name s \<Longrightarrow>
    se_get (fe_sess E) csrf_session_name s1 = se_get (fe_sess E) csrf_session_name s \<Longrightarrow> sess_kept E s s1"
  by (simp add: sess_kept_def session_token_def)

lemma other_sessions_kept:
  assumes S: "sessions_apart (fe_sess E)"
  shows "add_flash (fe_sess E) key msg w = Some (e, w1) \<Longrightarrow> sess_kept E w w1"
    and "get_flash (fe_sess E) key w = Some ((x, ex), w1) \<Longrightarrow> sess_kept E w w1"
    and "get_all_flashes (fe_sess E) w = (r', w1) \<Longrightarrow> sess_kept E w w1"
    and "set_old_inputs (fe_sess E) mar l pats form w = (e', w1) \<Longrightarrow> sess_kept E w w1"
    and "get_old_inputs (fe_sess E) unm w = ((y, ey), w1) \<Longrightarrow> sess_kept E w w1"
    and "set_preferred_lang (fe_sess E) lg w = (e'', w1) \<Longrightarrow> sess_kept E w w1"
  by (rule sess_kept_same; erule other_sessions [OF S session_names(1,2)] other_sessions [OF S session_names_csrf])+

lemma csrf_token_kept:
  assumes S: "sessions_apart (fe_sess E)" and t: "session_csrf_token (fiber_session_lib E) r rw s = (x, rw1, s1)"
  shows "sess_kept E s s1"
proof (cases "s1 = s")
  case False
  then obtain vals tok e where g: "se_get (fe_sess E) csrf_session_name s = Inr vals" "session_token E s = None"
    and new: "new_csrf_token (fe_random E 32) = Inr tok"
    and save: "se_save (fe_sess E) csrf_session_name (AList.update csrf_key (VStr tok) vals) s = (e, s1)"
    using t by (auto simp: session_csrf_token_def fiber_session_lib_def session_token_def
        split: sum.splits option.splits prod.splits gval.splits list.splits)
  have "se_get (fe_sess E) csrf_session_name s1 = se_get (fe_sess E) csrf_session_name s
      \<or> se_get (fe_sess E) csrf_session_name s1 = Inr (AList.update csrf_key (VStr tok) vals)"
    using S save unfolding sessions_apart_def by blast
  then have "session_token E s1 = session_token E s \<or> session_token E s1 = Some tok"
    using g by (cases tok) (auto simp: session_token_def update_conv')
  then show ?thesis using save_apart [OF S session_names(3) save] g(2) new by (auto simp: sess_kept_def fresh_token_def)
qed simp

text \<open>Calls on the context that hand a function on the sessions to the adapter.\<close>

lemma with_http_steady:
  assumes "with_http d fn c = (r, c1)" "\<And>r1 c2. fn (fiber_http_request c) c = (r1, c2) \<Longrightarrow> steady E f c c2"
  shows "steady E f c c1"
  using assms by (auto simp: with_http_def split: option.splits)

lemma on_sess_steady:
  assumes "on_sess g c = (r, c1)"
    and "\<And>x e s. g (fc_sess c) = ((x, e), s) \<Longrightarrow> sess_kept E (fc_sess c) s"
  shows "steady E f c c1"
  using assms steady_sess by (auto simp: on_sess_def split: prod.splits)

lemma on_sess_panic_steady:
  assumes "on_sess_panic d g c = (r, c1)"
    and "\<And>x e s. g (fc_sess c) = Some ((x, e), s) \<Longrightarrow> sess_kept E (fc_sess c) s"
  shows "steady E f c c1"
  using assms steady_sess by (fastforce simp: on_sess_panic_def on_sess_def split: option.splits)

lemma current_user_steady:
  assumes "current_user E c = (u, c1)"
  shows "steady E f c c1" and "user_ok E c \<Longrightarrow> u = stored_user E c" and "fc_sess c1 = fc_sess c"
proof -
  define g where "g = get_user_from_request (fe_sess E) (fe_unmarshal E) (fc_sess c)"
  show "steady E f c c1"
  proof (cases "fc_user c = None \<and> fc_url_err c = None \<and> g \<noteq> None")
    case True
    with assms have "c1 = c\<lparr>fc_user := g, fc_auth := Some True\<rparr>"
      unfolding current_user_def g_def [symmetric] by auto
    with True show ?thesis
      by (auto simp: steady_def same_request_def auth_session_def user_ok_def stored_user_def g_def [symmetric])
  next
    case False
    with assms have "c1 = c" unfolding current_user_def g_def [symmetric] by (auto split: option.splits)
    then show ?thesis by simp
  qed
  show "user_ok E c \<Longrightarrow> u = stored_user E c"
    using assms by (auto simp: current_user_def user_ok_def stored_user_def split: option.splits)
  show "fc_sess c1 = fc_sess c" using assms by (auto simp: current_user_def split: option.splits)
qed

lemma is_authenticated_steady:
  assumes "is_authenticated E c = (b, c1)"
  shows "steady E f c c1" and "user_ok E c \<Longrightarrow> b \<longleftrightarrow> stored_user E c \<noteq> None"
  using assms current_user_steady(1,2) [of E c _ c1]
  by (auto simp: is_authenticated_def user_ok_def [of E c] split: if_splits prod.splits)

lemma login_fail_steady: "steady E f c (snd (login_fail c))"
  by (simp add: login_fail_def steady_trans [OF steady_updates(1) steady_updates(3)])

lemma forbidden_steady: "steady E f c (snd (fiber_forbidden c))"
  using steady_trans [OF steady_updates(5) steady_trans [OF steady_updates(1) steady_updates(2)]]
    steady_trans [OF steady_updates(1) steady_updates(3)]
  by (auto simp: fiber_forbidden_def)


lemma csrf_token_steady:
  assumes S: "sessions_apart (fe_sess E)" and t: "fiber_csrf_token E c = (r, c1)"
  shows "steady E f c c1"
  using t unfolding fiber_csrf_token_def
  by (elim with_http_steady, elim on_sess_steady) (auto split: prod.splits sum.splits dest: csrf_token_kept [OF S])

lemma flash_fn_steady:
  assumes S: "sessions_apart (fe_sess E)" and t: "flash_fn E key cache c = Some (m, cache1, c1)"
  shows "steady E f c c1"
proof (cases "cache key")
  case None
  obtain r c2 where w: "with_http [] (\<lambda>r. on_sess_panic [] (get_flash (fe_sess E) key)) c = (r, c2)" by fastforce
  have "steady E f c c2"
    by (rule with_http_steady [OF w], erule on_sess_panic_steady) (auto dest: other_sessions_kept(2) [OF S])
  with t None w show ?thesis by (auto simp: flash_fn_def split: prod.splits option.splits ferr.splits)
qed (use t in \<open>simp add: flash_fn_def\<close>)

lemma steady_sess_old:
  "sess_kept E (fc_sess c) s \<Longrightarrow>
    steady E f c (c\<lparr>fc_sess := s, fc_pending := p, fc_persisted := q\<rparr>)"
  by (simp add: steady_def same_request_def user_ok_def stored_user_def get_user_from_request_def sess_kept_def)

lemma persist_steady:
  assumes S: "sessions_apart (fe_sess E)" and t: "persist_pending_old E c = (e, c1)"
  shows "steady E f c c1"
  using t other_sessions_kept(4) [OF S] by (auto simp: persist_pending_old_def steady_sess steady_sess_old split: option.splits prod.splits)

lemma err_onlyD: "err_only x = (e, c1) \<Longrightarrow> x = (((), e), c1)"
  by (cases x) (auto simp: err_only_def)

lemma add_flash_steady:
  assumes S: "sessions_apart (fe_sess E)" and t: "fiber_add_flash E key m c = (e, c1)"
  shows "steady E f c c1"
proof -
  obtain r where w: "with_http () (\<lambda>r c. case persist_pending_old E c of
        (Some e, c1) \<Rightarrow> (((), Some e), c1)
      | (None, c1) \<Rightarrow> on_sess_panic () (\<lambda>s. map_option (\<lambda>(e, s1). (((), e), s1)) (add_flash (fe_sess E) key m s)) c1) c = (r, c1)"
    using t by (auto simp: fiber_add_flash_def dest!: err_onlyD)
  show ?thesis
  proof (rule with_http_steady [OF w])
    fix r1 c2
    assume h: "(case persist_pending_old E c of
        (Some e, c1) \<Rightarrow> (((), Some e), c1)
      | (None, c1) \<Rightarrow> on_sess_panic () (\<lambda>s. map_option (\<lambda>(e, s1). (((), e), s1)) (add_flash (fe_sess E) key m s)) c1) = (r1, c2)"
    obtain e1 c3 where p: "persist_pending_old E c = (e1, c3)" by fastforce
    note p1 = persist_steady [OF S p, of f]
    show "steady E f c c2"
    proof (cases e1)
      case None
      have "steady E f c3 c2"
        by (rule on_sess_panic_steady [where g = "\<lambda>s. map_option (\<lambda>(e, s1). (((), e), s1)) (add_flash (fe_sess E) key m s)"])
           (use h p None in \<open>auto dest: other_sessions_kept(1) [OF S]\<close>)
      with p1 show ?thesis by (rule steady_trans)
    qed (use h p p1 in auto)
  qed
qed

lemma set_flash_steady:
  assumes S: "sessions_apart (fe_sess E)"
  shows "steady E f c (snd (set_flash E key m url code c))"
  using add_flash_steady [OF S] steady_trans [OF add_flash_steady [OF S] steady_updates(4)]
  by (auto simp: set_flash_def split: prod.split option.split)

lemma set_lang_steady:
  assumes S: "sessions_apart (fe_sess E)" and t: "fiber_set_lang E l c = (e, c1)"
  shows "steady E f c c1"
proof -
  obtain r where w: "with_http () (\<lambda>r. on_sess_err (set_preferred_lang (fe_sess E) l)) c = (r, c1)"
    using t by (auto simp: fiber_set_lang_def dest!: err_onlyD)
  show ?thesis
    by (rule with_http_steady [OF w], unfold on_sess_err_def, erule on_sess_steady)
       (auto split: prod.splits dest: other_sessions_kept(6) [OF S])
qed

lemma old_value_steady:
  assumes S: "sessions_apart (fe_sess E)" and t: "old_value E key c = (v, c1)"
  shows "steady E f c c1"
proof (cases "fc_old_cache c")
  case None
  obtain vals e c2 where w: "fiber_get_old_inputs E c = ((vals, e), c2)" by (metis surj_pair)
  have "steady E f c c2"
    using w unfolding fiber_get_old_inputs_def
    by (elim with_http_steady, elim on_sess_steady) (auto dest: other_sessions_kept(5) [OF S])
  with t None w steady_trans [OF this steady_updates(10)] show ?thesis
    by (auto simp: old_value_def old_all_def)
qed (use t in \<open>simp add: old_value_def old_all_def\<close>)

lemma run_view_steady:
  assumes S: "sessions_apart (fe_sess E)"
  shows "run_view E v cache c = (r, c1) \<Longrightarrow> steady E f c c1"
proof (induction v arbitrary: cache c)
  case (View_end x)
  then show ?case by (auto split: sum.splits)
next
  case (View_flash key k)
  then show ?case
    by (auto split: option.splits prod.splits intro: steady_trans [OF flash_fn_steady [OF S] View_flash.IH [OF rangeI]])
next
  case (View_old key k)
  then show ?case
    by (auto split: prod.splits intro: steady_trans [OF old_value_steady [OF S] View_old.IH [OF rangeI]])
next
  case (View_can obj act k)
  then show ?case
    by (auto simp: fiber_can_def split: prod.splits intro: steady_trans [OF current_user_steady(1) View_can.IH [OF rangeI]])
next
  case (View_langs k)
  then show ?case by (auto intro: View_langs.IH [OF rangeI])
qed

lemma inject_user_steady: "inject_user E d c = (m, c1) \<Longrightarrow> steady E f c c1"
  by (auto simp: inject_user_def split: prod.splits option.splits dest: current_user_steady(1))

text \<open>The token \<open>Render\<close> hands to the template.\<close>

lemma render_steady:
  assumes S: "sessions_apart (fe_sess E)"
  shows "steady E f c (snd (fiber_render E view d c))"
proof -
  obtain m c1 where i: "inject_user E d c = (m, c1)" by fastforce
  note s1 = inject_user_steady [OF i, of f]
  show ?thesis
  proof (cases "flash_fn E ''success'' Map.empty c1")
    case None
    with i s1 show ?thesis by (simp add: fiber_render_def)
  next
    case (Some a)
    obtain ok cache1 c2 where a: "a = (ok, cache1, c2)" by (cases a)
    have s2: "steady E f c c2" using steady_trans [OF s1 flash_fn_steady [OF S]] Some a by blast
    show ?thesis
    proof (cases "flash_fn E ''error'' cache1 c2")
      case None
      with i Some a s2 show ?thesis by (simp add: fiber_render_def)
    next
      case (Some b)
      obtain ko cache2 c3 where b: "b = (ko, cache2, c3)" by (cases b)
      have s3: "steady E f c c3" using steady_trans [OF s2 flash_fn_steady [OF S]] Some b by blast
      let ?m = "AList.update ''FlashError'' (View_value (VStr ko)) (AList.update ''FlashSuccess'' (View_value (VStr ok)) m)"
      obtain m2 c4 where t: "(case fc_csrf c3 of
          Some (t # ts) \<Rightarrow> (AList.update ''CSRFToken'' (View_value (VStr (t # ts))) ?m, c3)
        | _ \<Rightarrow> (case fiber_csrf_token E c3 of
              ((tok, None), c4) \<Rightarrow> (AList.update ''CSRFToken'' (View_value (VStr tok)) ?m, c4)
            | ((tok, Some e), c4) \<Rightarrow> (?m, c4))) = (m2, c4)" by fastforce
      then have s4: "steady E f c c4"
        using s3 steady_trans [OF s3 csrf_token_steady [OF S]]
        by (auto split: option.splits list.splits prod.splits)
      obtain x c5 where v: "run_view E (fe_view E view m2) cache2 c4 = (x, c5)" by fastforce
      have s5: "steady E f c c5" using steady_trans [OF s4 run_view_steady [OF S v]] .
      have end_: "steady E f c (c5\<lparr>fc_type := k, fc_out := l\<rparr>)" for k l
        using steady_trans [OF s5 steady_trans [OF steady_updates(5) steady_updates(6)]] by simp
      have "fiber_render E view d c = (case x of Inl e \<Rightarrow> (Some e, c5)
          | Inr s \<Rightarrow> (None, c5\<lparr>fc_type := ''text/html'', fc_out := Body_page s\<rparr>))"
        using i \<open>flash_fn E ''success'' Map.empty c1 = Some a\<close> a Some b t v by (simp add: fiber_render_def Let_def)
      with s5 end_ show ?thesis by (auto split: sum.splits)
    qed
  qed
qed


section \<open>Guards\<close>

text \<open>
  A guard either hands a steady context on, and then \<open>P\<close> holds, or answers by itself and leaves the
  session of the user. A transparent middleware may also change what comes back.
\<close>

definition guarded :: "'s fiber_env \<Rightarrow> ('a \<Rightarrow> 'b) \<Rightarrow> (('s, 'a) fctx \<Rightarrow> bool) \<Rightarrow> ('s, 'a) fmiddleware \<Rightarrow> bool" where
  "guarded E f P mw \<longleftrightarrow> (\<forall>c. user_ok E c \<longrightarrow>
     (\<exists>d. P c \<and> steady E f c d \<and> (\<forall>next. mw next c = next d)) \<or>
     (\<exists>r. auth_session E (snd r) = auth_session E c \<and> (\<forall>next. mw next c = r)))"

definition transparent :: "'s fiber_env \<Rightarrow> ('a \<Rightarrow> 'b) \<Rightarrow> ('s, 'a) fmiddleware \<Rightarrow> bool" where
  "transparent E f mw \<longleftrightarrow>
     (\<forall>next c. user_ok E c \<longrightarrow>
        (\<exists>d. steady E f c d \<and> auth_session E (snd (mw next c)) \<in> {auth_session E c, auth_session E (snd (next d))})) \<and>
     (\<forall>next next' c. user_ok E c \<longrightarrow> (\<forall>d. steady E f c d \<longrightarrow> next d = next' d) \<longrightarrow> mw next c = mw next' c)"

lemma guarded_transparent:
  fixes E :: "'s fiber_env" and f :: "'a \<Rightarrow> 'b"
  assumes g: "guarded E f P mw"
  shows "transparent E f mw"
proof -
  have "(\<exists>d. steady E f c d \<and> auth_session E (snd (mw k c)) \<in> {auth_session E c, auth_session E (snd (k d))})
      \<and> ((\<forall>d. steady E f c d \<longrightarrow> k d = k' d) \<longrightarrow> mw k c = mw k' c)"
    if "user_ok E c" for k k' :: "('s, 'a) fhandler" and c
    using g [unfolded guarded_def, rule_format, OF that]
  proof
    assume "\<exists>d. P c \<and> steady E f c d \<and> (\<forall>next. mw next c = next d)"
    then show ?thesis by auto
  next
    assume "\<exists>r. auth_session E (snd r) = auth_session E c \<and> (\<forall>next. mw next c = r)"
    then have "auth_session E (snd (mw k c)) = auth_session E c" "mw k c = mw k' c" by auto
    then show ?thesis using steady_refl by blast
  qed
  then show ?thesis by (simp add: transparent_def)
qed

text \<open>
  \<open>moves\<close>: the handler changes the session of the user only where \<open>G\<close> holds. \<open>differ\<close>: two handlers
  differ only where \<open>G\<close> holds. \<open>backed\<close>: \<open>G\<close> can be told from any earlier context.
\<close>

definition backed :: "'s fiber_env \<Rightarrow> ('a \<Rightarrow> 'b) \<Rightarrow> (('s, 'a) fctx \<Rightarrow> bool) \<Rightarrow> bool" where
  "backed E f G \<longleftrightarrow> (\<forall>c d. steady E f c d \<longrightarrow> G d \<longrightarrow> G c)"

definition moves :: "'s fiber_env \<Rightarrow> (('s, 'a) fctx \<Rightarrow> bool) \<Rightarrow> ('s, 'a) fhandler \<Rightarrow> bool" where
  "moves E G h \<longleftrightarrow> (\<forall>c. user_ok E c \<longrightarrow> auth_session E (snd (h c)) \<noteq> auth_session E c \<longrightarrow> G c)"

definition differ :: "'s fiber_env \<Rightarrow> (('s, 'a) fctx \<Rightarrow> bool) \<Rightarrow> ('s, 'a) fhandler \<Rightarrow> ('s, 'a) fhandler \<Rightarrow> bool" where
  "differ E G h h' \<longleftrightarrow> (\<forall>c. user_ok E c \<longrightarrow> h c \<noteq> h' c \<longrightarrow> G c)"

lemma steady_moves:
  assumes "\<And>c. steady E f c (snd (h c))"
  shows "moves E G h"
  unfolding moves_def using steady_auth [OF assms] by simp

lemma moves_mono: "moves E G h \<Longrightarrow> (\<And>c. user_ok E c \<Longrightarrow> G c \<Longrightarrow> G' c) \<Longrightarrow> moves E G' h"
  by (auto simp: moves_def)

lemma differ_mono: "differ E G h h' \<Longrightarrow> (\<And>c. user_ok E c \<Longrightarrow> G c \<Longrightarrow> G' c) \<Longrightarrow> differ E G' h h'"
  by (auto simp: differ_def)

lemma differ_same [simp]: "differ E G h h"
  by (simp add: differ_def)

lemma steady_user_ok: "steady E f c d \<Longrightarrow> user_ok E c \<Longrightarrow> user_ok E d"
  by (simp add: steady_def)

lemma transparent_moves:
  assumes "transparent E f mw" "moves E G h" "backed E f G"
  shows "moves E G (mw h)"
  unfolding moves_def
proof (intro allI impI)
  fix c
  assume c: "user_ok E c" "auth_session E (snd (mw h c)) \<noteq> auth_session E c"
  then obtain d where d: "steady E f c d" "auth_session E (snd (h d)) \<noteq> auth_session E c"
    using assms(1) unfolding transparent_def by (metis insertE singletonD)
  then have "G d" using assms(2) c(1) steady_user_ok steady_auth unfolding moves_def by metis
  with d(1) assms(3) show "G c" by (auto simp: backed_def)
qed

lemma guarded_moves:
  assumes "guarded E f P mw" "moves E G h" "backed E f G"
  shows "moves E (\<lambda>c. P c \<and> G c) (mw h)"
  unfolding moves_def
proof (intro allI impI)
  fix c
  assume c: "user_ok E c" "auth_session E (snd (mw h c)) \<noteq> auth_session E c"
  then obtain d where d: "P c" "steady E f c d" "mw h c = h d"
    using assms(1) unfolding guarded_def by metis
  then have "G d" using assms(2) c steady_user_ok steady_auth unfolding moves_def by metis
  with d(1,2) assms(3) show "P c \<and> G c" by (auto simp: backed_def)
qed

lemma transparent_differ:
  assumes "transparent E f mw" "differ E G h h'" "backed E f G"
  shows "differ E G (mw h) (mw h')"
  unfolding differ_def
proof (intro allI impI)
  fix c
  assume c: "user_ok E c" "mw h c \<noteq> mw h' c"
  then obtain d where "steady E f c d" "h d \<noteq> h' d" using assms(1) unfolding transparent_def by metis
  with assms(2,3) c(1) steady_user_ok show "G c" unfolding differ_def backed_def by metis
qed

lemma guarded_differ:
  assumes "guarded E f P mw" "differ E G h h'" "backed E f G"
  shows "differ E (\<lambda>c. P c \<and> G c) (mw h) (mw h')"
  unfolding differ_def
proof (intro allI impI)
  fix c
  assume c: "user_ok E c" "mw h c \<noteq> mw h' c"
  then obtain d where d: "P c" "steady E f c d" "h d \<noteq> h' d" using assms(1) unfolding guarded_def by metis
  with assms(2,3) c(1) steady_user_ok show "P c \<and> G c" unfolding differ_def backed_def by metis
qed

text \<open>The guards of the package.\<close>

lemma attach_user_guarded:
  fixes E :: "'s fiber_env" and f :: "'a \<Rightarrow> 'b"
  shows "guarded E f (\<lambda>c. True) (attach_user E)"
  unfolding guarded_def
proof (intro allI impI)
  fix c :: "('s, 'a) fctx"
  assume c: "user_ok E c"
  obtain u c1 where u: "current_user E c = (u, c1)" by fastforce
  note s = current_user_steady(1) [OF u, of f] and stored = current_user_steady(2) [OF u c]
  define d where "d = c1\<lparr>fc_user := u, fc_auth := Some (u \<noteq> None)\<rparr>"
  have "attach_user E k c = k d" for k using u by (auto simp: attach_user_def d_def split: option.split)
  moreover have "steady E f c d"
    using s stored steady_stored [OF s]
    by (auto simp: steady_def same_request_def auth_session_def user_ok_def stored_user_def d_def)
  ultimately show "(\<exists>d. True \<and> steady E f c d \<and> (\<forall>next. attach_user E next c = next d))
      \<or> (\<exists>r. auth_session E (snd r) = auth_session E c \<and> (\<forall>next. attach_user E next c = r))" by blast
qed

lemma require_login_guarded:
  fixes E :: "'s fiber_env" and f :: "'a \<Rightarrow> 'b"
  assumes fail: "\<And>h c. on_fail = Some h \<Longrightarrow> steady E f c (snd (h c))"
  shows "guarded E f (\<lambda>c. stored_user E c \<noteq> None) (require_login E on_fail)"
  unfolding guarded_def
proof (intro allI impI)
  fix c :: "('s, 'a) fctx"
  assume c: "user_ok E c"
  obtain b d where b: "is_authenticated E c = (b, d)" by fastforce
  note s = is_authenticated_steady(1) [OF b, of f] and stored = is_authenticated_steady(2) [OF b c]
  show "(\<exists>d. stored_user E c \<noteq> None \<and> steady E f c d \<and> (\<forall>next. require_login E on_fail next c = next d))
      \<or> (\<exists>r. auth_session E (snd r) = auth_session E c \<and> (\<forall>next. require_login E on_fail next c = r))"
  proof (cases b)
    case True
    with b s stored show ?thesis by (auto simp: require_login_def)
  next
    case False
    let ?r = "case on_fail of Some h \<Rightarrow> h d | None \<Rightarrow> login_fail d"
    have "steady E f d (snd ?r)" using fail login_fail_steady by (auto split: option.split)
    then have "auth_session E (snd ?r) = auth_session E c" using s steady_auth by metis
    moreover have "require_login E on_fail k c = ?r" for k using b False by (simp add: require_login_def)
    ultimately show ?thesis by blast
  qed
qed

lemma authorize_guarded:
  fixes E :: "'s fiber_env" and f :: "'a \<Rightarrow> 'b"
  assumes fail: "\<And>h c. on_fail = Some h \<Longrightarrow> steady E f c (snd (h c))"
  shows "guarded E f (\<lambda>c. \<exists>u. stored_user E c = Some u \<and> p (web_user_of (Some u))) (authorize E (Some p) on_fail)"
  unfolding guarded_def
proof (intro allI impI)
  fix c :: "('s, 'a) fctx"
  assume c: "user_ok E c"
  obtain u d where u: "current_user E c = (u, d)" by fastforce
  note s = current_user_steady(1) [OF u, of f] and stored = current_user_steady(2) [OF u c]
  show "(\<exists>d. (\<exists>u. stored_user E c = Some u \<and> p (web_user_of (Some u))) \<and> steady E f c d
        \<and> (\<forall>next. authorize E (Some p) on_fail next c = next d))
      \<or> (\<exists>r. auth_session E (snd r) = auth_session E c \<and> (\<forall>next. authorize E (Some p) on_fail next c = r))"
  proof (cases "\<exists>x. u = Some x \<and> p (web_user_of (Some x))")
    case True
    with u s stored show ?thesis by (auto simp: authorize_def)
  next
    case False
    let ?r = "case u of None \<Rightarrow> login_fail d | Some x \<Rightarrow> (case on_fail of Some h \<Rightarrow> h d | None \<Rightarrow> fiber_forbidden d)"
    have "steady E f d (snd ?r)" using fail login_fail_steady forbidden_steady by (auto split: option.split)
    then have "auth_session E (snd ?r) = auth_session E c" using s steady_auth by metis
    moreover have "authorize E (Some p) on_fail k c = ?r" for k
      using u False by (auto simp: authorize_def split: option.split)
    ultimately show ?thesis by blast
  qed
qed

definition casbin_allows :: "('e, 'b, 'm) casbin_lib \<Rightarrow> 's fiber_env \<Rightarrow> ('e, 'm) manager \<Rightarrow> ('s, 'a) fctx \<Rightarrow> bool" where
  "casbin_allows CB E mg c \<longleftrightarrow>
     manager_enforce CB mg (VStr (extract_user_role (web_user_of (stored_user E c)) guest_role)) (VStr (fc_path c)) (VStr (fc_method c))
       = (True, None)"

lemma casbin_guarded:
  fixes E :: "'s fiber_env" and f :: "'a \<Rightarrow> 'c"
  assumes cfg: "fb_manager cfg = Some mg" "fb_subject cfg = None" "fb_object cfg = None" "fb_action cfg = None"
    and fail: "\<And>c. steady E f c (snd (or_default (fb_forbidden cfg) default_forbidden c))"
  shows "guarded E f (casbin_allows CB E mg) (casbin_enforce_with CB E dflt cfg)"
  unfolding guarded_def
proof (intro allI impI)
  fix c :: "('s, 'a) fctx"
  assume c: "user_ok E c"
  obtain u d where u: "current_user E c = (u, d)" by fastforce
  note s = current_user_steady(1) [OF u, of f] and stored = current_user_steady(2) [OF u c]
  have same: "fc_path d = fc_path c" "fc_method d = fc_method c" using s by (simp_all add: steady_def same_request_def)
  let ?forb = "or_default (fb_forbidden cfg) default_forbidden"
  obtain ok e where ok: "manager_enforce CB mg (VStr (extract_user_role (web_user_of u) guest_role)) (VStr (fc_path d)) (VStr (fc_method d)) = (ok, e)"
    by fastforce
  have run: "casbin_enforce_with CB E dflt cfg k c = (case e of
        Some g \<Rightarrow> if err_is g ''policy: enforcer not initialised'' then ?forb d else c_text ''500 Internal Server Error'' (c_status 500 d)
      | None \<Rightarrow> if ok then k d else ?forb d)" for k
    using cfg u ok by (auto simp: casbin_enforce_with_def or_default_def default_subject_def split: option.split)
  show "(\<exists>d. casbin_allows CB E mg c \<and> steady E f c d \<and> (\<forall>next. casbin_enforce_with CB E dflt cfg next c = next d))
      \<or> (\<exists>r. auth_session E (snd r) = auth_session E c \<and> (\<forall>next. casbin_enforce_with CB E dflt cfg next c = r))"
  proof (cases "e = None \<and> ok")
    case True
    then have "casbin_allows CB E mg c" using ok stored same by (simp add: casbin_allows_def)
    with run True s show ?thesis by auto
  next
    case False
    have "steady E f d (snd (c_text ''500 Internal Server Error'' (c_status 500 d)))"
      by (rule steady_trans [OF steady_updates(1) steady_updates(2)])
    then have "auth_session E (snd (c_text ''500 Internal Server Error'' (c_status 500 d))) = auth_session E c"
      "auth_session E (snd (?forb d)) = auth_session E c"
      using s fail [of d] steady_auth by metis+
    moreover define r where "r = (case e of
        Some g \<Rightarrow> if err_is g ''policy: enforcer not initialised'' then ?forb d else c_text ''500 Internal Server Error'' (c_status 500 d)
      | None \<Rightarrow> ?forb d)"
    ultimately have "auth_session E (snd r) = auth_session E c" by (auto split: option.split)
    moreover have "casbin_enforce_with CB E dflt cfg k c = r" for k
      using run False by (auto simp: r_def split: option.split)
    ultimately show ?thesis by blast
  qed
qed


text \<open>
  A token came with the request, and it is the one the session holds; where the session holds none, it is the
  one this request draws for it.
\<close>

definition csrf_checked :: "'s fiber_env \<Rightarrow> ('s, 'a) fctx \<Rightarrow> bool" where
  "csrf_checked E c \<longleftrightarrow> fiber_provided_token c \<noteq> [] \<and>
     (case session_token E (fc_sess c) of Some t \<Rightarrow> fiber_provided_token c = t | None \<Rightarrow> fresh_token E (fiber_provided_token c))"

lemma verify_csrf_checked:
  assumes "verify_csrf (Some (session_csrf_store (fiber_session_lib E))) r (fiber_provided_token c) (fc_sess c) = None"
  shows "csrf_checked E c"
proof -
  have "session_csrf_expected (fiber_session_lib E) r (fc_sess c) = Inr (fiber_provided_token c)" "fiber_provided_token c \<noteq> []"
    using assms by (auto simp: verify_csrf_def session_csrf_store_def csrf_tokens_equal_def split: if_splits sum.splits)
  then have "session_token E (fc_sess c) = Some (fiber_provided_token c)"
    by (cases "fiber_provided_token c")
       (auto simp: session_csrf_expected_def session_token_def fiber_session_lib_def res_bind_def split: sum.splits option.splits gval.splits)
  with \<open>fiber_provided_token c \<noteq> []\<close> show ?thesis by (simp add: csrf_checked_def)
qed

lemma same_request_token:
  "same_request c d \<Longrightarrow> fiber_provided_token d = fiber_provided_token c \<and> fiber_http_request d = fiber_http_request c"
  by (simp add: same_request_def fiber_provided_token_def c_get_def fiber_http_request_def)

lemma steady_checked:
  assumes "steady E f c d" "csrf_checked E d"
  shows "csrf_checked E c"
proof -
  have "fiber_provided_token d = fiber_provided_token c" using assms(1) same_request_token by (auto simp: steady_def)
  with assms show ?thesis by (auto simp: csrf_checked_def steady_def sess_kept_def split: option.splits)
qed

lemma csrf_guarded:
  fixes E :: "'s fiber_env" and f :: "'a \<Rightarrow> 'b"
  assumes S: "sessions_apart (fe_sess E)"
    and conf: "conf = (case cfg of None \<Rightarrow> no_csrf_config | Some x \<Rightarrow> x)" "fx_skip conf = None" "fx_skip_paths conf = []"
    and fail: "\<And>h e c. fx_error conf = Some h \<Longrightarrow> steady E f c (snd (h e c))"
  shows "guarded E f (\<lambda>c. is_csrf_safe_method (fc_method c) \<or> csrf_checked E c) (csrf_with_config E cfg)"
  unfolding guarded_def
proof (intro allI impI)
  fix c :: "('s, 'a) fctx"
  assume c: "user_ok E c"
  obtain tok e c1 where t: "fiber_csrf_token E c = ((tok, e), c1)" by (metis surj_pair)
  define d where "d = (if e = None then c1\<lparr>fc_csrf := Some tok\<rparr> else c1)"
  have s: "steady E f c d"
    using csrf_token_steady [OF S t, of f] steady_trans [OF _ steady_updates(7)] by (auto simp: d_def)
  have same: "same_request c d" using s by (simp add: steady_def)
  have stays: "auth_session E (snd (fiber_csrf_fail conf x d)) = auth_session E c" for x
  proof -
    have "steady E f d (snd (fiber_csrf_fail conf x d))"
      using fail by (auto simp: fiber_csrf_fail_def intro: steady_trans [OF steady_updates(1) steady_updates(2)] split: option.split)
    then show ?thesis using s steady_auth by metis
  qed
  have run: "csrf_with_config E cfg k c = (if is_csrf_safe_method (fc_method d) then k d
      else (case fc_url_err d of Some u \<Rightarrow> fiber_csrf_fail conf (adapt_error u) d
        | None \<Rightarrow> (case verify_csrf (Some (session_csrf_store (fiber_session_lib E))) (fiber_http_request d) (fiber_provided_token d) (fc_sess d) of
            Some g \<Rightarrow> fiber_csrf_fail conf (Go_error g) d | None \<Rightarrow> k d)))" for k
    unfolding csrf_with_config_def conf(1) [symmetric] Let_def t prod.case d_def [symmetric]
    using conf(2,3) by (simp add: fiber_csrf_skips_def)
  show "(\<exists>d. (is_csrf_safe_method (fc_method c) \<or> csrf_checked E c) \<and> steady E f c d \<and> (\<forall>next. csrf_with_config E cfg next c = next d))
      \<or> (\<exists>r. auth_session E (snd r) = auth_session E c \<and> (\<forall>next. csrf_with_config E cfg next c = r))"
  proof (cases "is_csrf_safe_method (fc_method d)")
    case True
    then show ?thesis using run s same by (auto simp: same_request_def)
  next
    case False
    consider (url) u where "fc_url_err d = Some u"
      | (bad) g where "fc_url_err d = None"
          "verify_csrf (Some (session_csrf_store (fiber_session_lib E))) (fiber_http_request d) (fiber_provided_token d) (fc_sess d) = Some g"
      | (good) "fc_url_err d = None"
          "verify_csrf (Some (session_csrf_store (fiber_session_lib E))) (fiber_http_request d) (fiber_provided_token d) (fc_sess d) = None"
      by (meson option.exhaust)
    then show ?thesis
    proof cases
      case url
      then have "csrf_with_config E cfg k c = fiber_csrf_fail conf (adapt_error u) d" for k using run False by simp
      with stays show ?thesis by blast
    next
      case bad
      then have "csrf_with_config E cfg k c = fiber_csrf_fail conf (Go_error g) d" for k using run False by simp
      with stays show ?thesis by blast
    next
      case good
      have "csrf_checked E c" by (rule steady_checked [OF s verify_csrf_checked [OF good(2)]])
      then show ?thesis using run False good s by auto
    qed
  qed
qed

end
