(* ===== verification/Rate_Limit.thy ===== *)
theory Rate_Limit
  imports Go_Base
begin

text \<open>
  pkg/ratelimit/ratelimit.go: the token bucket. Durations and times are nanoseconds; the float64
  token counts are rationals here, so the lemmas are about the arithmetic the code means, without
  its rounding. \<open>lim_wait\<close> is the loop of \<open>Wait\<close> over a world that holds the limiter, the clock
  and the context; it may run for ever when others take the tokens, so it is a partial function.
\<close>

section \<open>The bucket\<close>

record limiter =
  rl_capacity :: rat
  rl_tokens :: rat
  rl_rate :: rat
  rl_last :: int
  rl_closed :: bool

datatype limit_error = Invalid_rate | Limiter_closed | Ctx_ended gerr

definition new_limiter :: "int \<Rightarrow> int \<Rightarrow> int \<Rightarrow> int \<Rightarrow> limit_error + limiter" where
  "new_limiter rate per burst now =
     (if rate \<le> 0 \<or> per \<le> 0 then Inl Invalid_rate
      else (let b = (if burst \<le> 0 then 1 else burst) in
        Inr \<lparr>rl_capacity = of_int b, rl_tokens = of_int b, rl_rate = of_int rate / of_int per,
             rl_last = now, rl_closed = False\<rparr>))"

definition refill :: "int \<Rightarrow> limiter \<Rightarrow> limiter" where
  "refill now l =
     (if 0 < now - rl_last l
      then l\<lparr>rl_tokens := min (rl_tokens l + of_int (now - rl_last l) * rl_rate l) (rl_capacity l),
             rl_last := now\<rparr>
      else l)"

definition allow :: "int \<Rightarrow> limiter \<Rightarrow> bool \<times> limiter" where
  "allow now l =
     (if rl_closed l then (False, l)
      else (let l' = refill now l in
        if 1 \<le> rl_tokens l' then (True, l'\<lparr>rl_tokens := rl_tokens l' - 1\<rparr>) else (False, l')))"

text \<open>\<open>reserve\<close>: \<open>Inr None\<close> when a token was taken, \<open>Inr (Some d)\<close> to wait for \<open>d\<close>.\<close>

definition reserve :: "int \<Rightarrow> limiter \<Rightarrow> (limit_error + int option) \<times> limiter" where
  "reserve now l =
     (if rl_closed l then (Inl Limiter_closed, l)
      else (let l' = refill now l in
        if 1 \<le> rl_tokens l' then (Inr None, l'\<lparr>rl_tokens := rl_tokens l' - 1\<rparr>)
        else (let d = \<lfloor>(1 - rl_tokens l') / rl_rate l'\<rfloor> in
          (Inr (Some (if d < 1000 then 1000 else d)), l'))))"

definition lim_close :: "limiter \<Rightarrow> limiter" where
  "lim_close l = (if rl_closed l then l else l\<lparr>rl_closed := True\<rparr>)"

text \<open>Why a sleeping \<open>Wait\<close> wakes up.\<close>

datatype wake = Woke | Ctx_done | Close_done

record 'w lim_env =
  le_ctx :: "'w \<Rightarrow> gerr option"
  le_clock :: "'w \<Rightarrow> int"
  le_get :: "'w \<Rightarrow> limiter"
  le_put :: "limiter \<Rightarrow> 'w \<Rightarrow> 'w"
  le_sleep :: "int \<Rightarrow> 'w \<Rightarrow> wake \<times> 'w"

partial_function (option) lim_wait :: "'w lim_env \<Rightarrow> 'w \<Rightarrow> (limit_error option \<times> 'w) option" where
  "lim_wait ev w = (case le_ctx ev w of
       Some e \<Rightarrow> Some (Some (Ctx_ended e), w)
     | None \<Rightarrow> (case reserve (le_clock ev w) (le_get ev w) of
         (Inl e, l) \<Rightarrow> Some (Some e, le_put ev l w)
       | (Inr None, l) \<Rightarrow> Some (None, le_put ev l w)
       | (Inr (Some d), l) \<Rightarrow> (case le_sleep ev d (le_put ev l w) of
           (Ctx_done, w') \<Rightarrow> Some (map_option Ctx_ended (le_ctx ev w'), w')
         | (Close_done, w') \<Rightarrow> Some (Some Limiter_closed, w')
         | (Woke, w') \<Rightarrow> lim_wait ev w')))"

definition lim_do :: "'w lim_env \<Rightarrow> ('w \<Rightarrow> 'e option \<times> 'w) \<Rightarrow> 'w
    \<Rightarrow> ((limit_error + 'e option) \<times> 'w) option" where
  "lim_do ev fn w = map_option (\<lambda>(r, w'). case r of
       Some e \<Rightarrow> (Inl e, w')
     | None \<Rightarrow> (let (x, w'') = fn w' in (Inr x, w''))) (lim_wait ev w)"

section \<open>The bucket's invariant\<close>

definition bucket_ok :: "limiter \<Rightarrow> bool" where
  "bucket_ok l \<longleftrightarrow> 0 < rl_rate l \<and> 1 \<le> rl_capacity l \<and> 0 \<le> rl_tokens l \<and> rl_tokens l \<le> rl_capacity l"

lemma new_limiter_ok:
  assumes "new_limiter rate per burst now = Inr l"
  shows "bucket_ok l" and "rl_tokens l = rl_capacity l" and "rl_last l = now" and "\<not> rl_closed l"
    and "rl_rate l = of_int rate / of_int per" and "rl_capacity l = of_int (max 1 burst)"
  using assms by (auto simp: new_limiter_def bucket_ok_def Let_def max_def split: if_splits)

lemma refill_ok: "bucket_ok l \<Longrightarrow> bucket_ok (refill now l)"
  by (auto simp: bucket_ok_def refill_def intro: add_nonneg_nonneg mult_nonneg_nonneg)

text \<open>The calls that take tokens, in the order in which they get the lock.\<close>

datatype lim_call = Allow | Reserve

fun take_call :: "lim_call \<Rightarrow> int \<Rightarrow> limiter \<Rightarrow> bool \<times> limiter" where
  "take_call Allow now l = allow now l"
| "take_call Reserve now l = (let (r, l') = reserve now l in (r = Inr None, l'))"

fun lim_run :: "limiter \<Rightarrow> (lim_call \<times> int) list \<Rightarrow> nat \<times> limiter" where
  "lim_run l [] = (0, l)"
| "lim_run l ((c, t) # cs) =
     ((if fst (take_call c t l) then 1 else 0) + fst (lim_run (snd (take_call c t l)) cs),
      snd (lim_run (snd (take_call c t l)) cs))"

lemma take_call_cases:
  obtains "rl_closed l" "take_call c now l = (False, l)"
  | "\<not> rl_closed l" "1 \<le> rl_tokens (refill now l)"
    "take_call c now l = (True, (refill now l)\<lparr>rl_tokens := rl_tokens (refill now l) - 1\<rparr>)"
  | "\<not> rl_closed l" "rl_tokens (refill now l) < 1" "take_call c now l = (False, refill now l)"
  by (cases c; cases "rl_closed l"; cases "1 \<le> rl_tokens (refill now l)")
     (auto simp: allow_def reserve_def Let_def)

lemma take_call_ok: "bucket_ok l \<Longrightarrow> bucket_ok (snd (take_call c now l))"
  using refill_ok [of l now]
  by (cases rule: take_call_cases [of l c now]) (auto simp: bucket_ok_def)

text \<open>A token taken is paid for by the tokens there were and the time that has passed.\<close>

lemma refill_budget:
  "rl_tokens (refill now l) \<le> rl_tokens l + rl_rate l * of_int (rl_last (refill now l) - rl_last l)"
  by (simp add: refill_def mult.commute)

lemma refill_last: "rl_last (refill now l) = max now (rl_last l)"
  by (simp add: refill_def)

lemma refill_keeps [simp]:
  "rl_rate (refill now l) = rl_rate l" "rl_capacity (refill now l) = rl_capacity l"
  "rl_closed (refill now l) = rl_closed l"
  by (simp_all add: refill_def)

lemma take_call_budget:
  assumes "take_call c now l = (ok, l')"
  shows "(if ok then 1 else 0) + rl_tokens l' \<le> rl_tokens l + rl_rate l * of_int (rl_last l' - rl_last l)"
    and "rl_rate l' = rl_rate l" and "rl_capacity l' = rl_capacity l"
    and "rl_last l \<le> rl_last l'" and "rl_last l' \<le> max now (rl_last l)"
  using assms refill_budget [of now l]
  by (cases rule: take_call_cases [of l c now]; force simp: refill_last)+

lemma lim_run_budget:
  assumes "lim_run l cs = (n, l')" and "\<And>c t. (c, t) \<in> set cs \<Longrightarrow> t \<le> m" and "rl_last l \<le> m"
  shows "of_nat n + rl_tokens l' \<le> rl_tokens l + rl_rate l * of_int (rl_last l' - rl_last l)
    \<and> rl_rate l' = rl_rate l \<and> rl_last l' \<le> m"
  using assms
proof (induction l cs arbitrary: n rule: lim_run.induct)
  case (1 l)
  then show ?case by simp
next
  case (2 l c t cs)
  obtain ok l1 where call: "take_call c t l = (ok, l1)" by fastforce
  define k where "k = fst (lim_run l1 cs)"
  have run: "lim_run (snd (take_call c t l)) cs = (k, l')"
    using "2.prems"(1) call by (auto simp: prod_eq_iff k_def)
  have n: "n = (if ok then 1 else 0) + k" using "2.prems"(1) call by (auto simp: k_def)
  note b = take_call_budget [OF call]
  have "rl_last l1 \<le> m" using b(5) "2.prems"(2) [of c t] "2.prems"(3) by simp
  then have IH: "of_nat k + rl_tokens l' \<le> rl_tokens l1 + rl_rate l1 * of_int (rl_last l' - rl_last l1)
    \<and> rl_rate l' = rl_rate l1 \<and> rl_last l' \<le> m"
    using "2.IH"(1) [OF run] "2.prems"(2) call by auto
  have "rl_rate l * of_int (rl_last l' - rl_last l)
      = rl_rate l * of_int (rl_last l' - rl_last l1) + rl_rate l * of_int (rl_last l1 - rl_last l)"
    by (simp add: algebra_simps)
  with IH b(1,2) n show ?case by (auto split: if_splits)
qed

lemma take_call_closed: "rl_closed l \<Longrightarrow> take_call c t l = (False, l)"
  by (cases c) (simp_all add: allow_def reserve_def)

lemma closed_run: "rl_closed l \<Longrightarrow> lim_run l cs = (0, l)"
  by (induction l cs rule: lim_run.induct) (simp_all add: take_call_closed)

lemma lim_run_ok: "bucket_ok l \<Longrightarrow> bucket_ok (snd (lim_run l cs))"
  by (induction l cs rule: lim_run.induct) (simp_all add: take_call_ok)

text \<open>The tokens of a window: those of a full bucket and those that come in during it.\<close>

lemma window_budget:
  assumes ok: "bucket_ok l" and then_: "rl_last l \<le> t0"
    and run: "lim_run l ((c, t0) # cs) = (n, l')" and window: "\<And>c t. (c, t) \<in> set cs \<Longrightarrow> t \<le> t1" "t0 \<le> t1"
  shows "of_nat n \<le> rl_capacity l + rl_rate l * of_int (t1 - t0)"
proof (cases "rl_closed l")
  case True
  then have "n = 0" using closed_run [OF True, of "(c, t0) # cs"] run by (simp del: lim_run.simps)
  moreover have "0 \<le> rl_rate l * of_int (t1 - t0)"
    using ok window(2) by (intro mult_nonneg_nonneg) (simp_all add: bucket_ok_def)
  ultimately show ?thesis using ok by (simp add: bucket_ok_def)
next
  case False
  let ?m = "refill t0 l" \<comment> \<open>the first call brings the bucket to the start of the window\<close>
  have "refill t0 ?m = ?m" by (simp add: refill_def)
  then have same: "take_call c t0 l = take_call c t0 ?m"
    using False by (cases c) (simp_all add: allow_def reserve_def Let_def)
  have "lim_run ?m ((c, t0) # cs) = (n, l')" using run same by simp
  from lim_run_budget [OF this, of t1]
  have "of_nat n + rl_tokens l' \<le> rl_tokens ?m + rl_rate ?m * of_int (rl_last l' - rl_last ?m)
      \<and> rl_last l' \<le> t1"
    using window then_ by (auto simp: refill_last)
  moreover have "rl_tokens ?m \<le> rl_capacity l" using refill_ok [OF ok, of t0] by (simp add: bucket_ok_def)
  moreover have "rl_last ?m = t0" using then_ by (simp add: refill_last)
  moreover have "0 \<le> rl_tokens l'" using lim_run_ok [OF ok, of "(c, t0) # cs"] run by (simp add: bucket_ok_def)
  moreover have "rl_rate l * of_int (rl_last l' - t0) \<le> rl_rate l * of_int (t1 - t0)"
    using ok calculation(1) by (intro mult_left_mono) (simp_all add: bucket_ok_def)
  ultimately show ?thesis by simp
qed

text \<open>
  (C8) The limit holds: of any sequence of calls made between the times \<open>t0\<close> and \<open>t1\<close> on a
  limiter made by \<open>NewLimiter\<close> that has seen any calls before, at most \<open>burst\<close> plus the rate
  times the length of the window are granted.
\<close>

theorem grants_in_window:
  assumes new: "new_limiter rate per burst start = Inr l0"
    and before: "snd (lim_run l0 cs0) = l" and then_: "rl_last l \<le> t0"
    and run: "lim_run l ((c, t0) # cs) = (n, l')" and window: "\<And>c t. (c, t) \<in> set cs \<Longrightarrow> t \<le> t1" "t0 \<le> t1"
  shows "of_nat n \<le> (of_int (max 1 burst) :: rat) + of_int rate / of_int per * of_int (t1 - t0)"
proof -
  have keep: "rl_rate (snd (lim_run m ds)) = rl_rate m \<and> rl_capacity (snd (lim_run m ds)) = rl_capacity m" for m ds
    by (induction m ds rule: lim_run.induct)
       (simp_all add: take_call_budget(2,3) [OF surjective_pairing])
  have ok: "bucket_ok l" using lim_run_ok new_limiter_ok(1) [OF new] before by blast
  have l: "rl_rate l = of_int rate / of_int per" "rl_capacity l = of_int (max 1 burst)"
    using keep [of l0 cs0] new_limiter_ok [OF new] before by simp_all
  from window_budget [OF ok then_ run window] l show ?thesis by simp
qed

lemma grants_in_window_witness:
  "\<exists>n l. lim_run \<lparr>rl_capacity = 2, rl_tokens = 2, rl_rate = 1 / 10, rl_last = 0, rl_closed = False\<rparr>
      [(Allow, 5), (Reserve, 6), (Allow, 7), (Reserve, 15)] = (n, l) \<and> n = 3 \<and> (of_nat n :: rat) \<le> 2 + 1"
proof -
  let ?l = "\<lparr>rl_capacity = 2, rl_tokens = 2, rl_rate = 1 / 10, rl_last = 0, rl_closed = False\<rparr> :: limiter"
  let ?l' = "\<lparr>rl_capacity = 2, rl_tokens = 0, rl_rate = 1 / 10, rl_last = 15, rl_closed = False\<rparr> :: limiter"
  have new: "new_limiter 1 10 2 0 = Inr ?l" by (simp add: new_limiter_def)
  have run: "lim_run ?l [(Allow, 5), (Reserve, 6), (Allow, 7), (Reserve, 15)] = (3, ?l')"
    by (simp add: allow_def reserve_def refill_def min_def Let_def)
  have "(of_nat 3 :: rat) \<le> of_int (max 1 2) + of_int 1 / of_int 10 * of_int (15 - 5)"
    by (rule grants_in_window [OF new _ _ run, of "[]"]) auto
  with run show ?thesis by auto
qed

section \<open>Waiting\<close>

text \<open>
  A world in which one caller waits alone: a sleep ends when its time has passed and is written
  down, and neither the context nor \<open>Close\<close> interferes. The loop of \<open>Wait\<close> tries once more after
  every sleep.
\<close>

definition alone :: "(int \<times> int list \<times> limiter) lim_env" where
  "alone = \<lparr>le_ctx = (\<lambda>_. None), le_clock = fst, le_get = (\<lambda>(t, ds, l). l),
     le_put = (\<lambda>l (t, ds, _). (t, ds, l)), le_sleep = (\<lambda>d (t, ds, l). (Woke, t + d, ds @ [d], l))\<rparr>"

lemma lim_wait_alone:
  "lim_wait alone (t, ds, l) = (case reserve t l of
       (Inl e, l') \<Rightarrow> Some (Some e, t, ds, l')
     | (Inr None, l') \<Rightarrow> Some (None, t, ds, l')
     | (Inr (Some d), l') \<Rightarrow> lim_wait alone (t + d, ds @ [d], l'))"
  by (subst lim_wait.simps) (simp add: alone_def split: prod.splits sum.splits option.splits)

lemma reserve_enough:
  assumes ok: "bucket_ok l" and "\<not> rl_closed l" and "0 \<le> d" and "1 \<le> rl_tokens l + of_int d * rl_rate l"
  shows "\<exists>l'. reserve (rl_last l + d) l = (Inr None, l')"
proof -
  have "1 \<le> rl_tokens (refill (rl_last l + d) l)"
    using assms by (cases "d = 0") (auto simp: refill_def bucket_ok_def)
  then show ?thesis using assms(2) by (simp add: reserve_def Let_def)
qed

lemma reserve_waits:
  assumes ok: "bucket_ok l" and "\<not> rl_closed l" and "rl_last l \<le> t"
    and "\<nexists>l'. reserve t l = (Inr None, l')"
  shows "\<exists>d l'. reserve t l = (Inr (Some d), l') \<and> bucket_ok l' \<and> \<not> rl_closed l' \<and> rl_last l' = t
    \<and> rl_rate l' = rl_rate l \<and> rl_tokens l' < 1 \<and> rl_tokens (refill t l) = rl_tokens l'
    \<and> d = max 1000 \<lfloor>(1 - rl_tokens l') / rl_rate l'\<rfloor>"
  using assms refill_ok [OF ok, of t] refill_last [of t l]
  by (auto simp: reserve_def Let_def max_def split: if_splits)

text \<open>
  The rounding of the computed wait to whole nanoseconds can leave less than a nanosecond's worth
  of a token missing; then one wait of the least length is enough.
\<close>

lemma second_wait_enough:
  assumes ok: "bucket_ok l" and open_: "\<not> rl_closed l" and low: "rl_tokens l < 1"
    and d: "d = max 1000 \<lfloor>(1 - rl_tokens l) / rl_rate l\<rfloor>"
    and again: "\<not> (\<exists>l'. reserve (rl_last l + d) l = (Inr None, l'))"
  obtains l2 l3 where "reserve (rl_last l + d) l = (Inr (Some 1000), l2)"
    and "reserve (rl_last l + d + 1000) l2 = (Inr None, l3)"
proof -
  let ?t = "rl_last l + d"
  have rate: "0 < rl_rate l" using ok by (simp add: bucket_ok_def)
  have "rl_last l \<le> ?t" using d by simp
  from reserve_waits [OF ok open_ this again] obtain d2 l2 where
    r2: "reserve ?t l = (Inr (Some d2), l2)" and l2: "bucket_ok l2" "\<not> rl_closed l2"
      "rl_last l2 = ?t" "rl_rate l2 = rl_rate l" "rl_tokens l2 < 1"
      "rl_tokens (refill ?t l) = rl_tokens l2"
    and d2: "d2 = max 1000 \<lfloor>(1 - rl_tokens l2) / rl_rate l2\<rfloor>" by blast
  have tok: "rl_tokens l2 = rl_tokens l + of_int d * rl_rate l"
    using l2(5,6) ok d by (auto simp: refill_def bucket_ok_def min_def split: if_splits)
  have "(1 - rl_tokens l) / rl_rate l < of_int d + 1" using d by linarith
  then have "1 - rl_tokens l < (of_int d + 1) * rl_rate l" using rate by (simp add: divide_less_eq)
  then have less: "1 - rl_tokens l2 < rl_rate l2"
    using tok l2(4) by (simp add: algebra_simps)
  then have "(1 - rl_tokens l2) / rl_rate l2 < 1" using l2(4) rate by (simp add: divide_less_eq)
  then have "d2 = 1000" using d2 by linarith
  moreover have "1 \<le> rl_tokens l2 + of_int d2 * rl_rate l2"
    using \<open>d2 = 1000\<close> less l2(4) rate by simp
  then obtain l3 where "reserve (?t + d2) l2 = (Inr None, l3)"
    using reserve_enough [OF l2(1,2), of d2] \<open>d2 = 1000\<close> l2(3) by auto
  ultimately show thesis using r2 that by simp
qed

text \<open>
  (C9) Waiting ends in time and not early: a \<open>Wait\<close> that is alone on an open limiter returns
  without an error after at most two sleeps, so after at most three tries; it has slept exactly as
  long as the tries told it to, each time at least a microsecond, in all at most the time the
  missing token takes to accrue (or a microsecond) plus one microsecond; and when it returns at
  its first try it has not slept, which is the case exactly when a token was there.
\<close>

theorem wait_alone_returns:
  assumes ok: "bucket_ok l" and open_: "\<not> rl_closed l" and last: "rl_last l \<le> t"
  shows "\<exists>t' ds l'. lim_wait alone (t, [], l) = Some (None, t', ds, l') \<and> length ds \<le> 2
    \<and> t' = t + sum_list ds \<and> set ds \<subseteq> {1000..} \<and> (ds = [] \<longleftrightarrow> 1 \<le> rl_tokens (refill t l))
    \<and> sum_list ds \<le> max 1000 \<lfloor>(1 - rl_tokens (refill t l)) / rl_rate l\<rfloor> + 1000"
proof (cases "\<exists>l'. reserve t l = (Inr None, l')")
  case True
  then have "1 \<le> rl_tokens (refill t l)" by (auto simp: reserve_def Let_def open_ split: if_splits)
  with True show ?thesis by (auto simp: lim_wait_alone [of t "[]" l])
next
  case False
  from reserve_waits [OF ok open_ last False] obtain d1 l1 where
    r1: "reserve t l = (Inr (Some d1), l1)" and l1: "bucket_ok l1" "\<not> rl_closed l1" "rl_last l1 = t"
      "rl_rate l1 = rl_rate l" "rl_tokens l1 < 1" "rl_tokens (refill t l) = rl_tokens l1"
    and d1: "d1 = max 1000 \<lfloor>(1 - rl_tokens l1) / rl_rate l1\<rfloor>" by blast
  have first: "lim_wait alone (t, [], l) = lim_wait alone (t + d1, [d1], l1)"
    using r1 by (simp add: lim_wait_alone [of t "[]" l])
  show ?thesis
  proof (cases "\<exists>l'. reserve (t + d1) l1 = (Inr None, l')")
    case True
    then obtain l' where "reserve (t + d1) l1 = (Inr None, l')" by blast
    then have "lim_wait alone (t, [], l) = Some (None, t + d1, [d1], l')"
      using first by (simp add: lim_wait_alone [of "t + d1" "[d1]" l1])
    then show ?thesis using d1 l1(4-6) by auto
  next
    case False
    with second_wait_enough [OF l1(1,2,5) d1] l1(3) obtain l2 l3 where
      "reserve (t + d1) l1 = (Inr (Some 1000), l2)" "reserve (t + d1 + 1000) l2 = (Inr None, l3)"
      by metis
    then have "lim_wait alone (t, [], l) = Some (None, t + d1 + 1000, [d1, 1000], l3)"
      using first by (simp add: lim_wait_alone [of "t + d1" "[d1]" l1]
          lim_wait_alone [of "t + d1 + 1000" "[d1, 1000]" l2])
    then show ?thesis using d1 l1(4-6) by auto
  qed
qed

lemma wait_alone_returns_witness:
  "\<exists>t' ds l'. lim_wait alone (7, [], \<lparr>rl_capacity = 1, rl_tokens = 0, rl_rate = 1 / 3000000, rl_last = 7,
      rl_closed = False\<rparr>) = Some (None, t', ds, l') \<and> length ds \<le> 2 \<and> t' = 7 + sum_list ds
      \<and> sum_list ds \<le> 3000000 + 1000 \<and> ds \<noteq> []"
  using wait_alone_returns [of "\<lparr>rl_capacity = 1, rl_tokens = 0, rl_rate = 1 / 3000000, rl_last = 7,
      rl_closed = False\<rparr>" 7]
  by (auto simp: bucket_ok_def refill_def)

end
