(* ===== verification/Login_Limit.thy ===== *)
theory Login_Limit
  imports Rate_Limit "HOL-Library.AList"
begin

text \<open>
  \<open>LoginRateLimit\<close> of \<open>cmd/crm/middleware\<close>: a token bucket (\<open>Rate_Limit\<close>) for each address, made
  at its first request and dropped when it has not been used for ten minutes.

  A request is one step: its entry is found or made and a token asked for. It reads the clock three
  times: when it looks for the entry, in \<open>NewLimiter\<close>, and in \<open>Allow\<close>. A dropped limiter is closed,
  which matters only to a request that stands between the first and the last reading for ten minutes.
\<close>

section \<open>The limiters by address\<close>

record login_limits =
  ll_max :: int
  ll_window :: int
  ll_by_ip :: "(string \<times> limiter \<times> int) list" \<comment> \<open>the limiter and when it was last asked for\<close>
  ll_sweep :: int

definition idle_time :: int where
  "idle_time = 10 * 60 * 10 ^ 9"

definition new_login_limits :: "int \<Rightarrow> int \<Rightarrow> int \<Rightarrow> login_limits" where
  "new_login_limits mx window now = \<lparr>ll_max = mx, ll_window = window, ll_by_ip = [], ll_sweep = now\<rparr>"

definition sweep_limits :: "int \<Rightarrow> login_limits \<Rightarrow> login_limits" where
  "sweep_limits now s =
     (if idle_time < now - ll_sweep s
      then s\<lparr>ll_by_ip := filter (\<lambda>(ip, l, seen). \<not> idle_time < now - seen) (ll_by_ip s), ll_sweep := now\<rparr>
      else s)"

definition set_entry :: "string \<Rightarrow> limiter \<Rightarrow> int \<Rightarrow> login_limits \<Rightarrow> login_limits" where
  "set_entry ip l seen s = s\<lparr>ll_by_ip := AList.update ip (l, seen) (ll_by_ip s)\<rparr>"

text \<open>The closure \<open>get\<close>; \<open>made\<close> is the time that \<open>NewLimiter\<close> reads.\<close>

definition get_limiter :: "string \<Rightarrow> int \<Rightarrow> int \<Rightarrow> login_limits \<Rightarrow> (limit_error + limiter) \<times> login_limits" where
  "get_limiter ip now made s0 =
     (let s = sweep_limits now s0 in
      case map_of (ll_by_ip s) ip of
        Some (l, seen) \<Rightarrow> (Inr l, set_entry ip l now s)
      | None \<Rightarrow>
          (case new_limiter (ll_max s) (ll_window s) (ll_max s) made of
             Inl e \<Rightarrow> (Inl e, s)
           | Inr l \<Rightarrow> (Inr l, set_entry ip l now s)))"

record login_try =
  lt_ip :: string
  lt_get :: int
  lt_made :: int
  lt_allow :: int

text \<open>What a request that is counted gets: a token, none, or the error of \<open>NewLimiter\<close>.\<close>

definition limit_try :: "login_try \<Rightarrow> login_limits \<Rightarrow> (limit_error + bool) \<times> login_limits" where
  "limit_try r s =
     (case get_limiter (lt_ip r) (lt_get r) (lt_made r) s of
        (Inl e, s1) \<Rightarrow> (Inl e, s1)
      | (Inr l, s1) \<Rightarrow> (case allow (lt_allow r) l of (ok, l1) \<Rightarrow> (Inr ok, set_entry (lt_ip r) l1 (lt_get r) s1)))"

fun limit_tries :: "login_try list \<Rightarrow> login_limits \<Rightarrow> (limit_error + bool) list \<times> login_limits" where
  "limit_tries [] s = ([], s)"
| "limit_tries (r # rs) s =
     (case limit_try r s of (a, s1) \<Rightarrow> (case limit_tries rs s1 of (as, s2) \<Rightarrow> (a # as, s2)))"

definition unlimited :: "int \<Rightarrow> int \<Rightarrow> bool" where
  "unlimited mx window \<longleftrightarrow> mx \<le> 0 \<or> window \<le> 0"

section \<open>Dropping idle limiters is not noticed\<close>

text \<open>
  \<open>tracks\<close>: an address has the limiter \<open>p\<close> that it would have if none was ever dropped, or the
  limiter was dropped and \<open>p\<close> has filled up since. \<open>d\<close> bounds the time a request takes.
\<close>

definition bucket_of :: "int \<Rightarrow> int \<Rightarrow> limiter \<Rightarrow> bool" where
  "bucket_of mx window l \<longleftrightarrow> \<not> rl_closed l \<and> rl_rate l = of_int mx / of_int window \<and> rl_capacity l = of_int mx
     \<and> 0 \<le> rl_tokens l \<and> rl_tokens l \<le> of_int mx"

definition tracks :: "int \<Rightarrow> string \<Rightarrow> int \<Rightarrow> limiter option \<Rightarrow> login_limits \<Rightarrow> bool" where
  "tracks d ip t p s \<longleftrightarrow>
     (case p of
        None \<Rightarrow> map_of (ll_by_ip s) ip = None
      | Some l \<Rightarrow> bucket_of (ll_max s) (ll_window s) l \<and> rl_last l \<le> t \<and>
          (case map_of (ll_by_ip s) ip of
             Some (l1, seen) \<Rightarrow> l1 = l \<and> rl_last l \<le> seen + d \<and> seen \<le> t
           | None \<Rightarrow> rl_last l + ll_window s \<le> t))"

definition limits_ok :: "int \<Rightarrow> login_limits \<Rightarrow> bool" where
  "limits_ok d s \<longleftrightarrow> 0 < ll_max s \<and> 0 < ll_window s \<and> ll_window s + d \<le> idle_time \<and> distinct (map fst (ll_by_ip s))"

definition try_ok :: "int \<Rightarrow> int \<Rightarrow> login_try \<Rightarrow> bool" where
  "try_ok d t r \<longleftrightarrow> t \<le> lt_get r \<and> lt_get r \<le> lt_made r \<and> lt_made r \<le> lt_allow r \<and> lt_allow r \<le> lt_get r + d"

lemma entry_after_filter:
  assumes "distinct (map fst entries)"
  shows "map_of (filter keep entries) ip = Option.bind (map_of entries ip) (\<lambda>e. if keep (ip, e) then Some e else None)"
  using assms by (induction entries) (auto simp: map_of_eq_None_iff rev_image_eqI split: Option.bind_splits)

lemma sweep_keeps [simp]:
  "ll_max (sweep_limits now s) = ll_max s" "ll_window (sweep_limits now s) = ll_window s"
  by (simp_all add: sweep_limits_def)

lemma set_entry_simps [simp]:
  "ll_max (set_entry ip l t s) = ll_max s" "ll_window (set_entry ip l t s) = ll_window s"
  "map_of (ll_by_ip (set_entry ip l t s)) j = (if j = ip then Some (l, t) else map_of (ll_by_ip s) j)"
  by (simp_all add: set_entry_def update_conv')

lemma sweep_ok: "limits_ok d s \<Longrightarrow> limits_ok d (sweep_limits now s)"
  by (auto simp: limits_ok_def sweep_limits_def distinct_map_filter)

lemma set_entry_ok: "limits_ok d s \<Longrightarrow> limits_ok d (set_entry ip l t s)"
  by (simp add: limits_ok_def set_entry_def distinct_update)

lemma sweep_tracks:
  assumes "tracks d ip t p s" "limits_ok d s" "t \<le> now"
  shows "tracks d ip now p (sweep_limits now s)"
  using assms
  by (auto simp: tracks_def sweep_limits_def limits_ok_def entry_after_filter simp del: map_of_eq_Some_iff
      split: option.splits)

lemma tracks_later: "tracks d ip t p s \<Longrightarrow> t \<le> t' \<Longrightarrow> tracks d ip t' p s"
  by (auto simp: tracks_def split: option.splits)

text \<open>A bucket that has had its window's time is full, as a new one is.\<close>

lemma refilled:
  assumes "bucket_of mx window l" "rl_last l + window \<le> t" "0 < mx" "0 < window"
  shows "refill t l = \<lparr>rl_capacity = of_int mx, rl_tokens = of_int mx, rl_rate = of_int mx / of_int window,
    rl_last = t, rl_closed = False\<rparr>"
proof -
  have "(of_int window :: rat) \<le> of_int (t - rl_last l)" using assms(2) by (simp only: of_int_le_iff)
  then have "(of_int mx :: rat) * of_int window \<le> of_int mx * of_int (t - rl_last l)"
    using assms(3) by (intro mult_left_mono) simp_all
  then have "(of_int mx :: rat) \<le> of_int (t - rl_last l) * (of_int mx / of_int window)"
    using assms(4) by (simp add: le_divide_eq mult.commute)
  then show ?thesis using assms by (simp add: refill_def bucket_of_def min_def)
qed

lemma new_refilled:
  assumes "new_limiter mx window mx made = Inr l" "made \<le> t" "0 < mx" "0 < window"
  shows "refill t l = \<lparr>rl_capacity = of_int mx, rl_tokens = of_int mx, rl_rate = of_int mx / of_int window,
    rl_last = t, rl_closed = False\<rparr>"
proof -
  have "0 \<le> (of_int (t - made) :: rat) * (of_int mx / of_int window)"
    using assms(2-4) by (intro mult_nonneg_nonneg divide_nonneg_nonneg) simp_all
  then have "min (of_int mx + of_int (t - made) * (of_int mx / of_int window)) (of_int mx) = (of_int mx :: rat)"
    by (intro min_absorb2) linarith
  with assms show ?thesis
    by (auto simp: new_limiter_def refill_def Let_def simp del: of_int_diff times_divide_eq_right)
qed

lemma allow_refill: "\<not> rl_closed l \<Longrightarrow> allow t l = (let m = refill t l in if 1 \<le> rl_tokens m then (True, m\<lparr>rl_tokens := rl_tokens m - 1\<rparr>) else (False, m))"
  by (simp add: allow_def)

lemma allow_bucket:
  assumes "bucket_of mx window l" "0 < mx" "0 < window" "allow t l = (ok, l1)"
  shows "bucket_of mx window l1" and "rl_last l1 = max t (rl_last l)"
  using assms by (auto simp: bucket_of_def allow_def refill_def Let_def split: if_splits)

lemma new_bucket:
  "0 < mx \<Longrightarrow> 0 < window \<Longrightarrow> new_limiter mx window mx made = Inr l \<Longrightarrow> bucket_of mx window l \<and> rl_last l = made"
  by (auto simp: new_limiter_def bucket_of_def Let_def split: if_splits)

text \<open>The limiter an address would have, at a request.\<close>

definition kept_limiter :: "login_limits \<Rightarrow> login_try \<Rightarrow> limiter option \<Rightarrow> limiter" where
  "kept_limiter s r p = (case p of Some l \<Rightarrow> l
     | None \<Rightarrow> (case new_limiter (ll_max s) (ll_window s) (ll_max s) (lt_made r) of Inr l \<Rightarrow> l | Inl e \<Rightarrow> undefined))"

lemma limit_try_own:
  assumes T: "tracks d (lt_ip r) t p s" and ok: "limits_ok d s" and r: "try_ok d t r"
  obtains g l1 s1 where "allow (lt_allow r) (kept_limiter s r p) = (g, l1)"
    and "limit_try r s = (Inr g, s1)" and "tracks d (lt_ip r) (lt_allow r) (Some l1) s1"
proof -
  let ?s = "sweep_limits (lt_get r) s"
  have mw: "0 < ll_max s" "0 < ll_window s" using ok by (simp_all add: limits_ok_def)
  obtain n where n: "new_limiter (ll_max s) (ll_window s) (ll_max s) (lt_made r) = Inr n"
    using mw by (simp add: new_limiter_def Let_def)
  have T1: "tracks d (lt_ip r) (lt_get r) p ?s" using sweep_tracks [OF T ok] r by (simp add: try_ok_def)
  define l where "l = (case map_of (ll_by_ip ?s) (lt_ip r) of Some (l, seen) \<Rightarrow> l | None \<Rightarrow> n)"
  obtain g l1 where a: "allow (lt_allow r) (kept_limiter s r p) = (g, l1)" by fastforce
  have kept: "bucket_of (ll_max s) (ll_window s) (kept_limiter s r p)" "rl_last (kept_limiter s r p) \<le> lt_made r"
    using T1 n new_bucket [OF mw n] r mw
    by (auto simp: kept_limiter_def tracks_def try_ok_def limits_ok_def split: option.splits)
  have same: "allow (lt_allow r) l = (g, l1)"
  proof (cases "map_of (ll_by_ip ?s) (lt_ip r)")
    case (Some e)
    with T1 have "l = kept_limiter s r p" by (auto simp: l_def tracks_def kept_limiter_def split: option.splits)
    with a show ?thesis by simp
  next
    case None
    then have l: "l = n" by (simp add: l_def)
    show ?thesis
    proof (cases p)
      case None
      with a n show ?thesis by (simp add: l kept_limiter_def)
    next
      case (Some q)
      with T1 None have q: "bucket_of (ll_max s) (ll_window s) q" "rl_last q + ll_window s \<le> lt_get r"
        by (auto simp: tracks_def)
      have "refill (lt_allow r) q = refill (lt_allow r) n"
        using refilled [OF q(1) _ mw] new_refilled [OF n _ mw] q(2) r by (auto simp: try_ok_def)
      moreover have "\<not> rl_closed q" "\<not> rl_closed n" using q(1) new_bucket [OF mw n] by (auto simp: bucket_of_def)
      ultimately show ?thesis using a Some by (simp add: l kept_limiter_def allow_refill)
    qed
  qed
  obtain s0 where get: "get_limiter (lt_ip r) (lt_get r) (lt_made r) s = (Inr l, set_entry (lt_ip r) l (lt_get r) ?s)"
    using n by (auto simp: get_limiter_def Let_def l_def split: option.splits)
  let ?s1 = "set_entry (lt_ip r) l1 (lt_get r) (set_entry (lt_ip r) l (lt_get r) ?s)"
  have "limit_try r s = (Inr g, ?s1)" by (simp add: limit_try_def get same)
  moreover have "tracks d (lt_ip r) (lt_allow r) (Some l1) ?s1"
    using allow_bucket [OF kept(1) mw a] kept(2) r by (simp add: tracks_def try_ok_def)
  ultimately show thesis using that a by blast
qed


lemma limit_try_other:
  assumes T: "tracks d ip t p s" and ok: "limits_ok d s" and r: "try_ok d t r" and other: "lt_ip r \<noteq> ip"
    and step: "limit_try r s = (a, s1)"
  shows "tracks d ip (lt_allow r) p s1"
proof -
  have T1: "tracks d ip (lt_allow r) p (sweep_limits (lt_get r) s)"
    using sweep_tracks [OF T ok, of "lt_get r"] r by (auto simp: try_ok_def elim: tracks_later)
  show ?thesis
    using step T1 other
    by (auto simp: limit_try_def get_limiter_def Let_def tracks_def split: option.splits sum.splits prod.splits)
qed

lemma limit_try_ok: "limits_ok d s \<Longrightarrow> limit_try r s = (a, s1) \<Longrightarrow>
    limits_ok d s1 \<and> ll_max s1 = ll_max s \<and> ll_window s1 = ll_window s"
  using sweep_ok [of d s "lt_get r"]
  by (auto simp: limit_try_def get_limiter_def Let_def set_entry_ok split: option.splits sum.splits prod.splits)

fun tries_ok :: "int \<Rightarrow> int \<Rightarrow> login_try list \<Rightarrow> bool" where
  "tries_ok d t [] \<longleftrightarrow> True"
| "tries_ok d t (r # rs) \<longleftrightarrow> try_ok d t r \<and> tries_ok d (lt_allow r) rs"

text \<open>The requests of an address, with the times of their calls of \<open>Allow\<close>, and what was granted to them.\<close>

definition calls_of :: "string \<Rightarrow> login_try list \<Rightarrow> (lim_call \<times> int) list" where
  "calls_of ip rs = map (\<lambda>r. (Allow, lt_allow r)) (filter (\<lambda>r. lt_ip r = ip) rs)"

definition granted :: "string \<Rightarrow> login_try list \<Rightarrow> (limit_error + bool) list \<Rightarrow> nat" where
  "granted ip rs as = length (filter (\<lambda>(r, a). lt_ip r = ip \<and> a = Inr True) (zip rs as))"

text \<open>
  What an address is granted is what one limiter, made at its first request and never dropped,
  grants it.
\<close>

lemma tries_granted:
  assumes "limit_tries rs s = (as, s')" "tracks d ip t p s" "limits_ok d s" "tries_ok d t rs"
    and first: "\<forall>r. find (\<lambda>r. lt_ip r = ip) rs = Some r \<longrightarrow> kept_limiter s r p = l"
  shows "granted ip rs as = fst (lim_run l (calls_of ip rs))"
  using assms
proof (induction rs arbitrary: s as t p l)
  case Nil
  then show ?case by (simp add: granted_def calls_of_def)
next
  case (Cons r rs)
  obtain a s1 as' where one: "limit_try r s = (a, s1)" and rest: "limit_tries rs s1 = (as', s')"
    and as: "as = a # as'" using Cons.prems(1) by (auto split: prod.splits)
  have ok1: "limits_ok d s1" using limit_try_ok [OF Cons.prems(3) one] by simp
  have r: "try_ok d t r" and rs: "tries_ok d (lt_allow r) rs" using Cons.prems(4) by simp_all
  show ?case
  proof (cases "lt_ip r = ip")
    case True
    then have l: "kept_limiter s r p = l" using Cons.prems(5) by simp
    obtain g l1 where g: "allow (lt_allow r) l = (g, l1)" "a = Inr g" "tracks d ip (lt_allow r) (Some l1) s1"
      using limit_try_own [of d r t p s] Cons.prems(2,3) r True one l by (metis Pair_inject)
    have "granted ip rs as' = fst (lim_run l1 (calls_of ip rs))"
      by (rule Cons.IH [OF rest g(3) ok1 rs]) (simp add: kept_limiter_def)
    with True g as show ?thesis by (simp add: granted_def calls_of_def)
  next
    case False
    have same: "kept_limiter s1 = kept_limiter s"
      using limit_try_ok [OF Cons.prems(3) one] by (intro ext) (auto simp: kept_limiter_def split: option.split)
    have "granted ip rs as' = fst (lim_run l (calls_of ip rs))"
      using Cons.prems(5) False
      by (intro Cons.IH [OF rest limit_try_other [OF Cons.prems(2,3) r False one] ok1 rs])
         (simp add: same)
    with False as show ?thesis by (simp add: granted_def calls_of_def)
  qed
qed

lemma tries_keep:
  assumes "limit_tries rs s = (as, s')" "tracks d ip t p s" "limits_ok d s" "tries_ok d t rs"
  shows "\<exists>p'. tracks d ip (last (t # map lt_allow rs)) p' s' \<and> limits_ok d s'
    \<and> ll_max s' = ll_max s \<and> ll_window s' = ll_window s"
  using assms
proof (induction rs arbitrary: s as t p)
  case Nil
  then show ?case by auto
next
  case (Cons r rs)
  obtain a s1 as' where one: "limit_try r s = (a, s1)" and rest: "limit_tries rs s1 = (as', s')"
    using Cons.prems(1) by (auto split: prod.splits)
  have ok1: "limits_ok d s1 \<and> ll_max s1 = ll_max s \<and> ll_window s1 = ll_window s"
    using limit_try_ok [OF Cons.prems(3) one] .
  have r: "try_ok d t r" and rs: "tries_ok d (lt_allow r) rs" using Cons.prems(4) by simp_all
  have "\<exists>p1. tracks d ip (lt_allow r) p1 s1"
    using limit_try_other [OF Cons.prems(2,3) r _ one] limit_try_own [of d r t p s] Cons.prems(2,3) r one
    by (metis Pair_inject)
  with Cons.IH [OF rest] ok1 rs show ?case by (metis last_ConsR list.discI list.simps(9) list.map(2))
qed


section \<open>The bound\<close>


lemma tries_ok_append:
  "tries_ok d t (xs @ ys) \<longleftrightarrow> tries_ok d t xs \<and> tries_ok d (last (t # map lt_allow xs)) ys"
  by (induction xs arbitrary: t) auto

lemma tries_ok_time: "tries_ok d t rs \<Longrightarrow> r \<in> set rs \<Longrightarrow> \<exists>t'. t \<le> t' \<and> try_ok d t' r"
  by (induction rs arbitrary: t) (auto simp: try_ok_def, fastforce)


text \<open>The kept limiter of an address has not been used after the next request.\<close>

lemma kept_limiter_ok:
  assumes "tracks d ip t p s" "limits_ok d s" "t \<le> t'" "try_ok d t' r"
  shows "bucket_ok (kept_limiter s r p) \<and> rl_last (kept_limiter s r p) \<le> lt_allow r
    \<and> rl_rate (kept_limiter s r p) = of_int (ll_max s) / of_int (ll_window s)
    \<and> rl_capacity (kept_limiter s r p) = of_int (ll_max s)"
proof -
  have mw: "0 < ll_max s" "0 < ll_window s" using assms(2) by (simp_all add: limits_ok_def)
  obtain n where n: "new_limiter (ll_max s) (ll_window s) (ll_max s) (lt_made r) = Inr n"
    using mw by (simp add: new_limiter_def Let_def)
  have "bucket_of (ll_max s) (ll_window s) (kept_limiter s r p) \<and> rl_last (kept_limiter s r p) \<le> lt_allow r"
    using assms(1,3,4) new_bucket [OF mw n] n
    by (auto simp: tracks_def kept_limiter_def try_ok_def split: option.splits)
  with mw show ?thesis by (simp add: bucket_of_def bucket_ok_def)
qed

lemma find_first: "\<forall>y\<in>set xs. \<not> P y \<Longrightarrow> P x \<Longrightarrow> find P (xs @ x # ys) = Some x"
  by (induction xs) auto

lemma tries_bounded_from:
  assumes T: "tracks d ip t p s" and ok: "limits_ok d s" and rs: "tries_ok d t rs"
    and run: "limit_tries rs s = (as, s')"
    and window: "\<forall>r\<in>set rs. t0 \<le> lt_allow r \<and> lt_allow r \<le> t1" "t0 \<le> t1"
  shows "of_nat (granted ip rs as) \<le> (of_int (ll_max s) + of_int (ll_max s) / of_int (ll_window s) * of_int (t1 - t0) :: rat)"
proof (cases "\<exists>r\<in>set rs. lt_ip r = ip")
  case False
  then have "granted ip rs as = 0"
    by (auto simp: granted_def filter_empty_conv dest!: set_zip_leftD)
  moreover have "0 \<le> (of_int (ll_max s) / of_int (ll_window s) * of_int (t1 - t0) :: rat)"
    using ok window(2) by (intro mult_nonneg_nonneg divide_nonneg_nonneg) (simp_all add: limits_ok_def)
  ultimately show ?thesis using ok by (simp add: limits_ok_def)
next
  case True
  then obtain xs r ys where split: "rs = xs @ r # ys" "\<forall>x\<in>set xs. lt_ip x \<noteq> ip" and ip: "lt_ip r = ip"
    using split_list_first_prop [of rs "\<lambda>r. lt_ip r = ip"] by auto
  let ?l = "kept_limiter s r p"
  have first: "find (\<lambda>r. lt_ip r = ip) rs = Some r" using find_first split ip by simp
  have calls: "calls_of ip rs = (Allow, lt_allow r) # calls_of ip ys"
    using split ip by (simp add: calls_of_def filter_empty_conv)
  obtain t' where t': "t \<le> t'" "try_ok d t' r" using tries_ok_time [OF rs] split(1) by auto
  note l = kept_limiter_ok [OF T ok t']
  obtain n l' where n: "lim_run ?l ((Allow, lt_allow r) # calls_of ip ys) = (n, l')" by fastforce
  have "granted ip rs as = n"
    using tries_granted [OF run T ok rs, of ?l] first n calls by simp
  moreover have "of_nat n \<le> rl_capacity ?l + rl_rate ?l * of_int (t1 - lt_allow r)"
    using window_budget [OF _ _ n, of t1] l window split(1) by (auto simp: calls_of_def)
  moreover have "rl_rate ?l * of_int (t1 - lt_allow r) \<le> rl_rate ?l * of_int (t1 - t0)"
    using l window(1) split(1) by (intro mult_left_mono) (auto simp: bucket_ok_def)
  ultimately show ?thesis using l by simp
qed

text \<open>
  (C39) For a limit whose window is at most the ten minutes after which an idle limiter is dropped, less the
  time \<open>d\<close> that a request takes at most from its first to its last reading of the clock: however the requests
  of all addresses mix, and whatever was dropped in between, of the requests of one address between
  two times at most \<open>max\<close>, and \<open>max / window\<close> for each nanosecond between them, are let through. The
  requests are taken one after the other, with a clock that does not go back. For a longer window it is not
  so: \<open>long_window_forgotten\<close> below.
\<close>

theorem login_tries_bounded:
  assumes "0 < mx" "0 < window" "window + d \<le> idle_time"
    and before: "limit_tries before (new_login_limits mx window start) = (as0, s)" and ok: "tries_ok d start (before @ rs)"
    and run: "limit_tries rs s = (as, s')"
    and times: "\<forall>r\<in>set rs. t0 \<le> lt_allow r \<and> lt_allow r \<le> t1" "t0 \<le> t1"
  shows "of_nat (granted ip rs as) \<le> (of_int mx + of_int mx / of_int window * of_int (t1 - t0) :: rat)"
proof -
  let ?s = "new_login_limits mx window start"
  have ok0: "limits_ok d ?s" and T0: "tracks d ip start None ?s"
    using assms(1-3) by (simp_all add: limits_ok_def tracks_def new_login_limits_def)
  from ok have ok1: "tries_ok d start before" and ok2: "tries_ok d (last (start # map lt_allow before)) rs"
    by (simp_all add: tries_ok_append)
  from tries_keep [OF before T0 ok0 ok1] obtain p' where
    "tracks d ip (last (start # map lt_allow before)) p' s" "limits_ok d s" "ll_max s = mx" "ll_window s = window"
    by (auto simp: new_login_limits_def)
  from tries_bounded_from [OF this(1,2) ok2 run times] this(3,4) show ?thesis by simp
qed


section \<open>Witnesses\<close>

definition demo_try :: "string \<Rightarrow> int \<Rightarrow> login_try" where
  "demo_try ip t = \<lparr>lt_ip = ip, lt_get = t, lt_made = t, lt_allow = t\<rparr>"

text \<open>Two attempts a minute for each address; the last request drops the limiter of the other, idle address.\<close>

definition demo_tries :: "login_try list" where
  "demo_tries = map (\<lambda>(ip, sec). demo_try ip (sec * 10 ^ 9)) [(''a'', 1), (''b'', 2), (''a'', 3), (''a'', 4), (''b'', 700)]"

lemma demo_tries_answers:
  "limit_tries demo_tries (new_login_limits 2 (60 * 10 ^ 9) 0) =
    ([Inr True, Inr True, Inr True, Inr False, Inr True],
     \<lparr>ll_max = 2, ll_window = 60 * 10 ^ 9,
      ll_by_ip = [(''b'', \<lparr>rl_capacity = 2, rl_tokens = 1, rl_rate = 2 / (60 * 10 ^ 9), rl_last = 700 * 10 ^ 9, rl_closed = False\<rparr>, 700 * 10 ^ 9)],
      ll_sweep = 700 * 10 ^ 9\<rparr>)"
  by (simp add: demo_tries_def demo_try_def limit_try_def get_limiter_def sweep_limits_def set_entry_def
      new_login_limits_def idle_time_def new_limiter_def allow_def refill_def)

theorem login_tries_bounded_witness:
  "granted ''a'' demo_tries (fst (limit_tries demo_tries (new_login_limits 2 (60 * 10 ^ 9) 0))) = 2
    \<and> of_nat 2 \<le> (2 + 2 / (60 * 10 ^ 9) * of_int (700 * 10 ^ 9 - 1 * 10 ^ 9) :: rat)"
proof -
  let ?s = "new_login_limits 2 (60 * 10 ^ 9) 0"
  obtain s' where run: "limit_tries demo_tries ?s = ([Inr True, Inr True, Inr True, Inr False, Inr True], s')"
    using demo_tries_answers by blast
  have g: "granted ''a'' demo_tries [Inr True, Inr True, Inr True, Inr False, Inr True] = 2"
    by (simp add: granted_def demo_tries_def demo_try_def)
  have ok: "tries_ok 0 0 ([] @ demo_tries)" by (simp add: demo_tries_def demo_try_def try_ok_def)
  have t: "\<forall>r\<in>set demo_tries. 1 * 10 ^ 9 \<le> lt_allow r \<and> lt_allow r \<le> 700 * 10 ^ 9"
    by (simp add: demo_tries_def demo_try_def)
  have "of_nat (granted ''a'' demo_tries [Inr True, Inr True, Inr True, Inr False, Inr True])
      \<le> (of_int 2 + of_int 2 / of_int (60 * 10 ^ 9) * of_int (700 * 10 ^ 9 - 1 * 10 ^ 9) :: rat)"
    by (rule login_tries_bounded [OF _ _ _ limit_tries.simps(1) ok run t]) (simp_all add: idle_time_def)
  with g run show ?thesis by simp
qed

text \<open>
  Where the window is longer than the idle time, dropping idle limiters gives attempts back: with one
  attempt an hour, an address gets a second one after eleven minutes.
\<close>

lemma long_window_forgotten:
  "fst (limit_tries [demo_try ''a'' 0, demo_try ''a'' (660 * 10 ^ 9)] (new_login_limits 1 (3600 * 10 ^ 9) 0)) = [Inr True, Inr True]"
  by (simp add: demo_try_def limit_try_def get_limiter_def sweep_limits_def set_entry_def
      new_login_limits_def idle_time_def new_limiter_def allow_def refill_def)

end
