(* ===== verification/File_System.thy ===== *)
theory File_System
  imports Prelude
begin

text \<open>
  The part of Go's packages \<open>path\<close>, \<open>path/filepath\<close> and \<open>os\<close> that \<open>pkg/fs\<close> uses, on Unix.

  \<^item> Path texts: \<open>fp_clean\<close>, \<open>fp_join\<close>, \<open>fp_dir\<close>, \<open>fp_abs\<close>, \<open>fp_ext\<close>.
  \<^item> A file system is a map from the components of a place to a node; the root is a directory.
    \<open>follow\<close> resolves a path as the system does, symbolic links included, at most 40 of them.
  \<^item> Every system call consumes one entry of the list \<open>w_faults\<close>: \<open>Some\<close> makes it fail (a write
    after the given number of bytes), so a statement for all lists covers every error path.
    Permissions are kept as given, before the umask.

  The lemmas say what a call can change: nothing but the node it names, never a link.
\<close>

section \<open>Path texts\<close>

definition clean_step :: "bool \<Rightarrow> string list \<Rightarrow> string \<Rightarrow> string list" where
  "clean_step rooted st c =
     (if c = [] \<or> c = ''.'' then st
      else if c = ''..'' then
        (case st of
           [] \<Rightarrow> if rooted then [] else [c]
         | t # ts \<Rightarrow> if t = ''..'' then c # st else ts)
      else c # st)"

definition clean_parts :: "bool \<Rightarrow> string list \<Rightarrow> string list" where
  "clean_parts rooted ps = rev (foldl (clean_step rooted) [] ps)"

definition is_rooted :: "string \<Rightarrow> bool" where
  "is_rooted p = has_prefix ''/'' p"

definition fp_clean :: "string \<Rightarrow> string" where
  "fp_clean p =
     (let ps = clean_parts (is_rooted p) (split_on (CHR ''/'') p) in
      if is_rooted p then ''/'' @ join_with ''/'' ps
      else if ps = [] then ''.'' else join_with ''/'' ps)"

definition fp_join :: "string \<Rightarrow> string \<Rightarrow> string" where
  "fp_join a b =
     (if a = [] then (if b = [] then [] else fp_clean b) else fp_clean (a @ ''/'' @ b))"

definition fp_parts :: "string \<Rightarrow> string list" where
  "fp_parts p = filter (\<lambda>c. c \<noteq> []) (split_on (CHR ''/'') p)"

definition fp_dir :: "string \<Rightarrow> string" where
  "fp_dir p = fp_clean (rev (dropWhile (\<lambda>c. c \<noteq> CHR ''/'') (rev p)))"

definition fp_base :: "string \<Rightarrow> string" where
  "fp_base p =
     (if p = [] then ''.'' else if fp_parts p = [] then ''/'' else last (fp_parts p))"

text \<open>\<open>filepath.Ext\<close>: the text from the last dot after the last slash, or nothing.\<close>

definition fp_ext :: "string \<Rightarrow> string" where
  "fp_ext p =
     (let f = last (split_on (CHR ''/'') p) in
      if CHR ''.'' \<in> set f then ''.'' @ last (split_on (CHR ''.'') f) else [])"

text \<open>\<open>filepath.Abs\<close>, with the answer of \<open>os.Getwd\<close>.\<close>

definition fp_abs :: "'e + string \<Rightarrow> string \<Rightarrow> 'e + string" where
  "fp_abs cwd p =
     (if is_rooted p then Inr (fp_clean p) else res_bind cwd (\<lambda>d. Inr (fp_join d p)))"

section \<open>Files\<close>

datatype node = Dir | Reg nat string | Link string | Special

type_synonym place = "string list"
type_synonym file_tree = "place \<rightharpoonup> node"

definition node_at :: "file_tree \<Rightarrow> place \<Rightarrow> node option" where
  "node_at t q = (if q = [] then Some Dir else t q)"

definition link_at :: "file_tree \<Rightarrow> place \<Rightarrow> string option" where
  "link_at t q = (case t q of Some (Link l) \<Rightarrow> Some l | _ \<Rightarrow> None)"

lemma link_at_eq: "link_at t q = Some l \<longleftrightarrow> t q = Some (Link l)" "link_at t q = None \<longleftrightarrow> (\<forall>l. t q \<noteq> Some (Link l))"
  by (auto simp: link_at_def split: option.splits node.splits)

datatype os_error = Os_not_exist | Os_exist | Os_not_dir | Os_is_dir | Os_loop | Os_busy | Os_fault string

text \<open>
  The place a path leads to from \<open>cur\<close>, links followed; its last component need not exist, but
  every place on the way is a directory.
\<close>

fun follow :: "file_tree \<Rightarrow> nat \<Rightarrow> place \<Rightarrow> string list \<Rightarrow> os_error + place" where
  "follow t n cur [] = Inr cur"
| "follow t n cur (c # cs) =
     (case node_at t cur of
        None \<Rightarrow> Inl Os_not_exist
      | Some v \<Rightarrow>
          if v \<noteq> Dir then Inl Os_not_dir
          else if c = [] \<or> c = ''.'' then follow t n cur cs
          else if c = ''..'' then follow t n (butlast cur) cs
          else
            (case link_at t (cur @ [c]) of
               Some l \<Rightarrow>
                 (case n of
                    0 \<Rightarrow> Inl Os_loop
                  | Suc m \<Rightarrow> follow t m (if is_rooted l then [] else cur) (split_on (CHR ''/'') l @ cs))
             | None \<Rightarrow> follow t n (cur @ [c]) cs))"

definition max_links :: nat where
  "max_links = 40"

definition target_of :: "file_tree \<Rightarrow> string list \<Rightarrow> os_error + place" where
  "target_of t cs = follow t max_links [] cs"

text \<open>The place that a path names, its last component not followed.\<close>

definition place_of :: "file_tree \<Rightarrow> string list \<Rightarrow> os_error + place" where
  "place_of t cs =
     (if cs = [] then Inr []
      else
        (case target_of t (butlast cs) of
           Inl e \<Rightarrow> Inl e
         | Inr q \<Rightarrow>
             (case node_at t q of
                Some Dir \<Rightarrow> Inr (q @ [last cs])
              | None \<Rightarrow> Inl Os_not_exist
              | Some _ \<Rightarrow> Inl Os_not_dir)))"

record world =
  w_tree :: file_tree
  w_faults :: "(nat \<times> string) option list"

definition next_fault :: "world \<Rightarrow> (nat \<times> string) option \<times> world" where
  "next_fault w = (case w_faults w of [] \<Rightarrow> (None, w) | f # fs \<Rightarrow> (f, w\<lparr>w_faults := fs\<rparr>))"

definition with_fault :: "(world \<Rightarrow> (os_error + 'a) \<times> world) \<Rightarrow> world \<Rightarrow> (os_error + 'a) \<times> world" where
  "with_fault act w =
     (case next_fault w of (Some (_, e), w1) \<Rightarrow> (Inl (Os_fault e), w1) | (None, w1) \<Rightarrow> act w1)"

definition os_lstat :: "string \<Rightarrow> world \<Rightarrow> (os_error + node) \<times> world" where
  "os_lstat p = with_fault (\<lambda>w.
     (case place_of (w_tree w) (fp_parts p) of
        Inl e \<Rightarrow> Inl e
      | Inr q \<Rightarrow> (case node_at (w_tree w) q of None \<Rightarrow> Inl Os_not_exist | Some v \<Rightarrow> Inr v), w))"

definition os_stat :: "string \<Rightarrow> world \<Rightarrow> (os_error + node) \<times> world" where
  "os_stat p = with_fault (\<lambda>w.
     (case target_of (w_tree w) (fp_parts p) of
        Inl e \<Rightarrow> Inl e
      | Inr q \<Rightarrow> (case node_at (w_tree w) q of None \<Rightarrow> Inl Os_not_exist | Some v \<Rightarrow> Inr v), w))"

text \<open>
  \<open>os.MkdirAll\<close>: directories are made from the top; where one is there already nothing is done,
  and \<open>mkdir\<close> does not follow a link that leads nowhere.
\<close>

definition mkdir_at :: "string list \<Rightarrow> world \<Rightarrow> (os_error + unit) \<times> world" where
  "mkdir_at cs w =
     (case target_of (w_tree w) cs of
        Inr q \<Rightarrow>
          (case node_at (w_tree w) q of
             Some Dir \<Rightarrow> (Inr (), w)
           | Some _ \<Rightarrow> (Inl Os_not_dir, w)
           | None \<Rightarrow>
               with_fault (\<lambda>w.
                 case place_of (w_tree w) cs of
                   Inl e \<Rightarrow> (Inl e, w)
                 | Inr q' \<Rightarrow>
                     if node_at (w_tree w) q' \<noteq> None then (Inl Os_exist, w)
                     else (Inr (), w\<lparr>w_tree := (w_tree w)(q' \<mapsto> Dir)\<rparr>)) w)
      | Inl e \<Rightarrow> (Inl e, w))"

fun mkdir_all :: "string list \<Rightarrow> string list \<Rightarrow> world \<Rightarrow> (os_error + unit) \<times> world" where
  "mkdir_all up [] w = (Inr (), w)"
| "mkdir_all up (c # cs) w =
     (case mkdir_at (up @ [c]) w of
        (Inl e, w1) \<Rightarrow> (Inl e, w1)
      | (Inr _, w1) \<Rightarrow> mkdir_all (up @ [c]) cs w1)"

definition os_mkdir_all :: "string \<Rightarrow> world \<Rightarrow> (os_error + unit) \<times> world" where
  "os_mkdir_all p = mkdir_all [] (fp_parts p)"

text \<open>\<open>os.OpenFile\<close> with \<open>O_CREATE|O_WRONLY|O_TRUNC\<close>: the place that is opened.\<close>

definition os_create :: "string \<Rightarrow> nat \<Rightarrow> world \<Rightarrow> (os_error + place) \<times> world" where
  "os_create p perm = with_fault (\<lambda>w.
     case target_of (w_tree w) (fp_parts p) of
       Inl e \<Rightarrow> (Inl e, w)
     | Inr q \<Rightarrow>
         (case node_at (w_tree w) q of
            None \<Rightarrow> (Inr q, w\<lparr>w_tree := (w_tree w)(q \<mapsto> Reg (perm mod 512) [])\<rparr>)
          | Some (Reg m s) \<Rightarrow> (Inr q, w\<lparr>w_tree := (w_tree w)(q \<mapsto> Reg m [])\<rparr>)
          | Some Special \<Rightarrow> (Inr q, w)
          | Some (Link l) \<Rightarrow> (Inl Os_loop, w)
          | Some Dir \<Rightarrow> (Inl Os_is_dir, w)))"

text \<open>Writing to an open file: the bytes that arrived, and the error.\<close>

definition put_bytes :: "place \<Rightarrow> string \<Rightarrow> file_tree \<Rightarrow> file_tree" where
  "put_bytes q s t = (case t q of Some (Reg m _) \<Rightarrow> t(q \<mapsto> Reg m s) | _ \<Rightarrow> t)"

definition os_write :: "place \<Rightarrow> string \<Rightarrow> world \<Rightarrow> (nat \<times> os_error option) \<times> world" where
  "os_write q s w =
     (case next_fault w of
        (Some (k, e), w1) \<Rightarrow>
          ((min k (length s), Some (Os_fault e)), w1\<lparr>w_tree := put_bytes q (take k s) (w_tree w1)\<rparr>)
      | (None, w1) \<Rightarrow> ((length s, None), w1\<lparr>w_tree := put_bytes q s (w_tree w1)\<rparr>))"

definition os_close :: "world \<Rightarrow> os_error option \<times> world" where
  "os_close w = (case next_fault w of (Some (_, e), w1) \<Rightarrow> (Some (Os_fault e), w1) | (None, w1) \<Rightarrow> (None, w1))"

text \<open>\<open>os.Remove\<close>: a file, or a directory with nothing below it.\<close>

definition os_remove :: "string \<Rightarrow> world \<Rightarrow> (os_error + unit) \<times> world" where
  "os_remove p = with_fault (\<lambda>w.
     case place_of (w_tree w) (fp_parts p) of
       Inl e \<Rightarrow> (Inl e, w)
     | Inr q \<Rightarrow>
         (case node_at (w_tree w) q of
            None \<Rightarrow> (Inl Os_not_exist, w)
          | Some Dir \<Rightarrow> (Inl Os_busy, w) \<comment> \<open>the code removes files only\<close>
          | Some _ \<Rightarrow> (Inr (), w\<lparr>w_tree := (w_tree w)(q := None)\<rparr>)))"

section \<open>Paths without dots\<close>

definition proper :: "string \<Rightarrow> bool" where
  "proper c \<longleftrightarrow> c \<noteq> [] \<and> c \<noteq> ''.'' \<and> c \<noteq> ''..'' \<and> CHR ''/'' \<notin> set c"

definition rooted_path :: "string list \<Rightarrow> string" where
  "rooted_path cs = ''/'' @ join_with ''/'' cs"

lemma is_rooted_simps [simp]: "is_rooted (c # s) \<longleftrightarrow> c = CHR ''/''" "\<not> is_rooted []"
  by (auto simp: is_rooted_def has_prefix_def)

lemma split_append: "split_on c (a @ c # b) = split_on c a @ split_on c b"
proof (induction a)
  case (Cons x xs)
  obtain w ws where "split_on c xs = w # ws" by (cases "split_on c xs") auto
  with Cons show ?case by auto
qed simp

lemma clean_step_proper: "proper c \<Longrightarrow> clean_step r st c = c # st"
  by (simp add: clean_step_def proper_def)

lemma foldl_clean_proper: "list_all proper cs \<Longrightarrow> foldl (clean_step r) st cs = rev cs @ st"
  by (induction cs arbitrary: st) (auto simp: clean_step_proper)

lemma clean_step_rooted:
  "list_all proper st \<Longrightarrow> CHR ''/'' \<notin> set c \<Longrightarrow> list_all proper (clean_step True st c)"
  by (cases st) (auto simp: clean_step_def proper_def)

lemma clean_parts_rooted: "(\<And>c. c \<in> set cs \<Longrightarrow> CHR ''/'' \<notin> set c) \<Longrightarrow> list_all proper (clean_parts True cs)"
proof -
  have "list_all proper st \<Longrightarrow> (\<And>c. c \<in> set cs \<Longrightarrow> CHR ''/'' \<notin> set c) \<Longrightarrow> list_all proper (foldl (clean_step True) st cs)" for st
    by (induction cs arbitrary: st) (auto simp: clean_step_rooted)
  then show "(\<And>c. c \<in> set cs \<Longrightarrow> CHR ''/'' \<notin> set c) \<Longrightarrow> list_all proper (clean_parts True cs)"
    by (simp add: clean_parts_def)
qed

text \<open>A relative path keeps leading double dots only.\<close>

definition dots_first :: "string list \<Rightarrow> bool" where
  "dots_first st \<longleftrightarrow> (\<exists>k ps. st = ps @ replicate k ''..'' \<and> list_all proper ps)"

lemma clean_step_dots: "dots_first st \<Longrightarrow> CHR ''/'' \<notin> set c \<Longrightarrow> dots_first (clean_step False st c)"
proof -
  assume "dots_first st" and c: "CHR ''/'' \<notin> set c"
  then obtain k ps where st: "st = ps @ replicate k ''..''" "list_all proper ps" by (auto simp: dots_first_def)
  show ?thesis
  proof (cases "c = [] \<or> c = ''.'' \<or> c = ''..''")
    case False
    then have "proper c" using c by (simp add: proper_def)
    with st show ?thesis by (auto simp: clean_step_proper dots_first_def intro!: exI [of _ k] exI [of _ "c # ps"])
  next
    case True
    show ?thesis
    proof (cases ps)
      case Nil
      then have "clean_step False st c = replicate k ''..'' \<or> clean_step False st c = replicate (Suc k) ''..''"
        using st True by (cases k) (auto simp: clean_step_def)
      then show ?thesis unfolding dots_first_def by (metis append_Nil list.pred_inject(1))
    next
      case (Cons p qs)
      with st True show ?thesis
        by (auto simp: clean_step_def dots_first_def proper_def intro: exI [of _ k])
    qed
  qed
qed

lemma clean_parts_relative:
  assumes "\<And>c. c \<in> set cs \<Longrightarrow> CHR ''/'' \<notin> set c"
  obtains k ps where "clean_parts False cs = replicate k ''..'' @ ps" "list_all proper ps"
proof -
  have "dots_first st \<Longrightarrow> (\<And>c. c \<in> set cs \<Longrightarrow> CHR ''/'' \<notin> set c) \<Longrightarrow> dots_first (foldl (clean_step False) st cs)" for st
    by (induction cs arbitrary: st) (auto simp: clean_step_dots)
  moreover have "dots_first []" by (auto simp: dots_first_def)
  ultimately have "dots_first (foldl (clean_step False) [] cs)" using assms by blast
  then obtain k ps where "foldl (clean_step False) [] cs = ps @ replicate k ''..''" "list_all proper ps"
    by (auto simp: dots_first_def)
  then have "clean_parts False cs = replicate k ''..'' @ rev ps" "list_all proper (rev ps)"
    by (simp_all add: clean_parts_def)
  then show thesis by (rule that)
qed

lemma split_rooted: "list_all proper cs \<Longrightarrow> cs \<noteq> [] \<Longrightarrow> split_on (CHR ''/'') (rooted_path cs) = [] # cs"
  by (simp add: rooted_path_def split_join list_all_iff proper_def)

lemma fp_parts_rooted: "list_all proper cs \<Longrightarrow> fp_parts (rooted_path cs) = cs"
proof (cases "cs = []")
  case False
  assume cs: "list_all proper cs"
  then have "filter (\<lambda>c. c \<noteq> []) cs = cs" by (auto simp: filter_id_conv list_all_iff proper_def)
  with cs False show ?thesis by (simp add: fp_parts_def split_rooted)
qed (simp add: fp_parts_def rooted_path_def)

lemma fp_clean_rooted: "is_rooted p \<Longrightarrow> \<exists>cs. fp_clean p = rooted_path cs \<and> list_all proper cs"
  by (auto simp: fp_clean_def rooted_path_def intro!: clean_parts_rooted sep_notin_split)

lemma fp_clean_rooted_path: "list_all proper cs \<Longrightarrow> fp_clean (rooted_path cs) = rooted_path cs"
proof -
  assume cs: "list_all proper cs"
  have "clean_parts True (split_on (CHR ''/'') (rooted_path cs)) = cs"
  proof (cases "cs = []")
    case False
    with cs show ?thesis
      by (simp add: split_rooted clean_parts_def foldl_clean_proper clean_step_def [of _ _ "[]"])
  qed (simp add: rooted_path_def clean_parts_def clean_step_def)
  then show ?thesis by (simp add: fp_clean_def rooted_path_def)
qed

lemma fp_join_rooted:
  assumes "list_all proper ds" "list_all proper cs" "cs \<noteq> []"
  shows "fp_join (rooted_path ds) (join_with ''/'' cs) = rooted_path (ds @ cs)"
proof -
  have cs: "split_on (CHR ''/'') (join_with ''/'' cs) = cs"
    using assms by (auto intro!: split_join simp: list_all_iff proper_def)
  have "clean_parts True (split_on (CHR ''/'') (rooted_path ds) @ cs) = ds @ cs"
    using assms(1,2)
    by (cases "ds = []")
      (simp_all add: clean_parts_def foldl_clean_proper split_rooted clean_step_def [of _ _ "[]"], simp add: rooted_path_def foldl_clean_proper clean_step_def)
  then show ?thesis
    by (simp add: fp_join_def fp_clean_def Let_def split_append cs rooted_path_def)
qed

lemma fp_join_dot: "list_all proper ds \<Longrightarrow> fp_join (rooted_path ds) ''.'' = rooted_path ds"
proof -
  assume ds: "list_all proper ds"
  have "clean_parts True (split_on (CHR ''/'') (rooted_path ds) @ [''.'']) = ds"
  proof (cases "ds = []")
    case False
    with ds show ?thesis
      by (simp add: split_rooted clean_parts_def foldl_clean_proper clean_step_def [of _ _ "[]"] clean_step_def [of _ _ "''.''"])
  qed (simp add: rooted_path_def clean_parts_def clean_step_def)
  moreover have "split_on (CHR ''/'') (rooted_path ds @ ''/.'') = split_on (CHR ''/'') (rooted_path ds) @ [''.'']"
    using split_append [of "CHR ''/''" "rooted_path ds" "''.''"] by simp
  ultimately show ?thesis by (simp add: fp_join_def fp_clean_def Let_def rooted_path_def)
qed

lemma join_append: "as \<noteq> [] \<Longrightarrow> bs \<noteq> [] \<Longrightarrow> join_with sep (as @ bs) = join_with sep as @ sep @ join_with sep bs"
  by (induction sep as rule: join_with.induct) (auto simp: join_with_Cons)

lemma proper_join_start: "list_all proper ps \<Longrightarrow> ps \<noteq> [] \<Longrightarrow> \<not> is_rooted (join_with ''/'' ps)"
  by (induction "''/''" ps rule: join_with.induct) (auto simp: proper_def is_rooted_def has_prefix_def neq_Nil_conv)

lemma join_snoc: "es \<noteq> [] \<Longrightarrow> join_with sep (es @ [p]) = join_with sep es @ sep @ p"
  by (induction sep es rule: join_with.induct) auto

lemma fp_dir_rooted: "list_all proper es \<Longrightarrow> proper p \<Longrightarrow> fp_dir (rooted_path (es @ [p])) = rooted_path es"
proof -
  assume es: "list_all proper es" "proper p"
  have stop: "dropWhile (\<lambda>c. c \<noteq> CHR ''/'') (rev (a @ ''/'' @ p)) = CHR ''/'' # rev a" for a
  proof -
    have "dropWhile (\<lambda>c. c \<noteq> CHR ''/'') (rev p @ CHR ''/'' # rev a) = CHR ''/'' # rev a"
      using es(2) by (subst dropWhile_append2) (auto simp: proper_def)
    then show ?thesis by simp
  qed
  show "fp_dir (rooted_path (es @ [p])) = rooted_path es"
  proof (cases "es = []")
    case True
    have "dropWhile (\<lambda>c. c \<noteq> CHR ''/'') (rev (''/'' @ p)) = ''/''" using stop [of "[]"] by simp
    then show ?thesis using True by (simp add: fp_dir_def rooted_path_def fp_clean_def clean_parts_def clean_step_def)
  next
    case False
    have "fp_clean (rooted_path es @ ''/'') = rooted_path es"
    proof -
      have "split_on (CHR ''/'') (rooted_path es @ ''/'') = [] # es @ [[]]"
        using split_append [of "CHR ''/''" "rooted_path es" "[]"] split_rooted [OF es(1) False] by simp
      then show ?thesis
        using es(1) by (simp add: fp_clean_def Let_def clean_parts_def foldl_clean_proper clean_step_def [of _ _ "[]"] rooted_path_def)
    qed
    moreover have "rooted_path (es @ [p]) = rooted_path es @ ''/'' @ p"
      using False by (simp add: rooted_path_def join_snoc)
    ultimately show ?thesis using stop [of "rooted_path es"] by (simp add: fp_dir_def)
  qed
qed

section \<open>What the calls change\<close>

text \<open>Every place lies in a directory.\<close>

definition wf_tree :: "file_tree \<Rightarrow> bool" where
  "wf_tree t \<longleftrightarrow> t [] = None \<and> (\<forall>q c. t (q @ [c]) \<noteq> None \<longrightarrow> node_at t q = Some Dir)"

text \<open>Directories stay, links stay what they are, and no link appears.\<close>

definition extends :: "file_tree \<Rightarrow> file_tree \<Rightarrow> bool" where
  "extends t t' \<longleftrightarrow> (\<forall>q. t q = Some Dir \<longrightarrow> t' q = Some Dir) \<and> (\<forall>q l. t q = Some (Link l) \<longleftrightarrow> t' q = Some (Link l))"

lemma extends_refl [simp]: "extends t t"
  by (simp add: extends_def)

lemma extends_trans: "extends t t' \<Longrightarrow> extends t' t'' \<Longrightarrow> extends t t''"
  by (simp add: extends_def)

lemma extends_dir: "extends t t' \<Longrightarrow> node_at t q = Some Dir \<Longrightarrow> node_at t' q = Some Dir"
  by (auto simp: extends_def node_at_def split: if_splits)

lemma follow_dir: "follow t n cur (c # cs) = Inr q \<Longrightarrow> node_at t cur = Some Dir"
  by (auto split: option.splits if_splits)

lemma follow_step:
  assumes "node_at t cur = Some Dir" "c \<noteq> []" "c \<noteq> ''.''" "c \<noteq> ''..''" "link_at t (cur @ [c]) = None"
  shows "follow t n cur (c # cs) = follow t n (cur @ [c]) cs"
  using assms by simp

lemma extends_link: "extends t t' \<Longrightarrow> link_at t' q = link_at t q"
proof -
  assume "extends t t'"
  then have "link_at t' q = Some l \<longleftrightarrow> link_at t q = Some l" for l by (simp add: extends_def link_at_eq(1))
  then show ?thesis by (metis not_None_eq)
qed

lemma follow_extends: "follow t n cur cs = Inr q \<Longrightarrow> extends t t' \<Longrightarrow> follow t' n cur cs = Inr q"
proof (induction t n cur cs arbitrary: q rule: follow.induct)
  case (2 t n cur c cs)
  note dir = follow_dir [OF 2(5)]
  note dir' = extends_dir [OF 2(6) dir]
  consider "c = [] \<or> c = ''.''" | "c = ''..''" | "c \<noteq> []" "c \<noteq> ''.''" "c \<noteq> ''..''" by blast
  then show ?case
  proof cases
    case 3
    show ?thesis
    proof (cases "link_at t (cur @ [c])")
      case None
      with 2(3) [OF dir] 2(5,6) 3 dir dir' show ?thesis by (simp add: extends_link)
    next
      case (Some l)
      with 2(5) 3 dir obtain m where "n = Suc m" by (cases n) auto
      with 2(4) [OF dir _ _ _ Some] 2(5,6) 3 dir dir' Some show ?thesis by (simp add: extends_link)
    qed
  qed (use 2(1,2,5,6) dir dir' in auto)
qed simp

text \<open>Following a path in two parts.\<close>

lemma follow_append:
  "follow t n cur xs = Inr q \<Longrightarrow> \<exists>m. follow t n cur (xs @ ys) = follow t m q ys"
proof (induction t n cur xs arbitrary: q rule: follow.induct)
  case (2 t n cur c cs)
  note dir = follow_dir [OF 2(5)]
  consider "c = [] \<or> c = ''.''" | "c = ''..''" | "c \<noteq> []" "c \<noteq> ''.''" "c \<noteq> ''..''" by blast
  then show ?case
  proof cases
    case 3
    show ?thesis
    proof (cases "link_at t (cur @ [c])")
      case None
      with 2(3) [OF dir] 2(5) 3 dir show ?thesis by simp
    next
      case (Some l)
      with 2(5) 3 dir obtain m where "n = Suc m" by (cases n) auto
      with 2(4) [OF dir _ _ _ Some] 2(5) 3 dir Some show ?thesis by simp
    qed
  qed (use 2(1,2,5) dir in auto)
qed auto

lemma follow_prefix:
  "follow t n cur (xs @ ys) = Inr q \<Longrightarrow> \<exists>p. follow t n cur xs = Inr p \<and> (ys = [] \<or> node_at t p = Some Dir)"
proof (induction t n cur xs arbitrary: q rule: follow.induct)
  case (1 t n cur)
  then show ?case by (cases ys) (auto split: option.splits if_splits)
next
  case (2 t n cur c cs)
  note dir = follow_dir [OF 2(5) [unfolded append_Cons]]
  consider "c = [] \<or> c = ''.''" | "c = ''..''" | "c \<noteq> []" "c \<noteq> ''.''" "c \<noteq> ''..''" by blast
  then show ?case
  proof cases
    case 3
    show ?thesis
    proof (cases "link_at t (cur @ [c])")
      case None
      with 2(3) [OF dir] 2(5) 3 dir show ?thesis by simp
    next
      case (Some l)
      with 2(5) 3 dir obtain m where "n = Suc m" by (cases n) auto
      with 2(4) [OF dir _ _ _ Some] 2(5) 3 dir Some show ?thesis by simp
    qed
  qed (use 2(1,2,5) dir in auto)
qed

text \<open>No link lies on the components below a place.\<close>

definition no_links :: "file_tree \<Rightarrow> place \<Rightarrow> string list \<Rightarrow> bool" where
  "no_links t d cs \<longleftrightarrow> (\<forall>xs ys. cs = xs @ ys \<and> xs \<noteq> [] \<longrightarrow> link_at t (d @ xs) = None)"

lemma no_links_Cons: "no_links t d (c # cs) \<longleftrightarrow> link_at t (d @ [c]) = None \<and> no_links t (d @ [c]) cs"
  unfolding no_links_def by (fastforce simp: Cons_eq_append_conv)

lemma follow_below:
  "list_all proper cs \<Longrightarrow> no_links t d cs \<Longrightarrow> follow t n d cs = Inr q \<Longrightarrow> q = d @ cs"
proof (induction cs arbitrary: d)
  case (Cons c cs)
  have dir: "node_at t d = Some Dir" using Cons(4) by (auto split: option.splits if_splits)
  from Cons follow_step [OF dir, of c n cs] show ?case
    by (auto simp: no_links_Cons proper_def)
qed simp

lemma target_below:
  assumes "target_of t ds = Inr d" "list_all proper cs" "no_links t d cs" "target_of t (ds @ cs) = Inr q"
  shows "q = d @ cs"
proof -
  obtain m where "follow t max_links [] (ds @ cs) = follow t m d cs"
    using follow_append assms(1) unfolding target_of_def by blast
  with assms follow_below [of cs t d m q] show ?thesis by (simp add: target_of_def)
qed

lemma no_links_prefix: "no_links t d (xs @ ys) \<Longrightarrow> no_links t d xs"
  unfolding no_links_def by (metis append.assoc)

lemma place_below:
  assumes "target_of t ds = Inr d" "list_all proper cs" "no_links t d cs" "cs \<noteq> []" "place_of t (ds @ cs) = Inr q"
  shows "q = d @ cs"
proof -
  obtain bs c where cs: "cs = bs @ [c]" using assms(4) by (cases cs rule: rev_cases) auto
  with assms(5) obtain p where p: "target_of t (ds @ bs) = Inr p" "q = p @ [c]"
    by (auto simp: place_of_def butlast_append split: sum.splits option.splits node.splits)
  with target_below [OF assms(1) _ _ p(1)] assms(2,3) cs no_links_prefix [of t d bs "[c]"] show ?thesis by simp
qed

lemma no_links_extends: "no_links t d cs \<Longrightarrow> extends t t' \<Longrightarrow> no_links t' d cs"
  unfolding no_links_def by (simp add: extends_link)

text \<open>
  One node changes: at \<open>q\<close>, a directory or a file appears, a file gets another content, or a file
  goes. Such a change keeps trees in shape, directories and links.
\<close>

definition is_file :: "node option \<Rightarrow> bool" where
  "is_file v \<longleftrightarrow> v = Some Special \<or> (\<exists>m s. v = Some (Reg m s))"

definition node_change :: "place \<Rightarrow> file_tree \<Rightarrow> file_tree \<Rightarrow> bool" where
  "node_change q t t' \<longleftrightarrow>
     (\<exists>v. t' = t(q := v) \<and> q \<noteq> [] \<and> node_at t (butlast q) = Some Dir
        \<and> (t q = None \<or> is_file (t q)) \<and> (v = Some Dir \<longrightarrow> t q = None) \<and> (\<forall>l. v \<noteq> Some (Link l)))"

lemma node_change_extends: "node_change q t t' \<Longrightarrow> extends t t'"
  by (auto simp: node_change_def extends_def is_file_def split: if_splits)

lemma node_change_wf:
  assumes "wf_tree t" "node_change q t t'"
  shows "wf_tree t'"
proof -
  obtain v where v: "t' = t(q := v)" "q \<noteq> []" "node_at t (butlast q) = Some Dir" "t q = None \<or> is_file (t q)"
    using assms(2) by (auto simp: node_change_def)
  have "node_at t' p = Some Dir" if "t' (p @ [c]) \<noteq> None" for p c
  proof (cases "p @ [c] = q")
    case True
    then have "node_at t p = Some Dir" using v(3) by auto
    with v(4) show ?thesis using True v(1) by (auto simp: node_at_def is_file_def)
  next
    case False
    then have "node_at t p = Some Dir" using that v(1) assms(1) by (auto simp: wf_tree_def)
    moreover from this have "p \<noteq> q" using v(2,4) by (auto simp: node_at_def is_file_def)
    ultimately show ?thesis using v(1) by (simp add: node_at_def split: if_splits)
  qed
  with assms(1) v(1,2) show ?thesis by (simp add: wf_tree_def)
qed

lemma wf_parent: "wf_tree t \<Longrightarrow> t q \<noteq> None \<Longrightarrow> q \<noteq> [] \<and> node_at t (butlast q) = Some Dir"
  by (cases q rule: rev_cases) (auto simp: wf_tree_def)

lemma target_parent:
  assumes "target_of t (cs @ [c]) = Inr q" "proper c" "link_at t q = None"
    and "target_of t cs = Inr p" "link_at t (p @ [c]) = None"
  shows "q = p @ [c] \<and> node_at t p = Some Dir"
proof -
  obtain m where m: "follow t max_links [] (cs @ [c]) = follow t m p [c]"
    using follow_append assms(4) unfolding target_of_def by blast
  then have f: "follow t m p [c] = Inr q" using assms(1) by (simp add: target_of_def)
  from follow_dir [OF this] f assms(2,5) show ?thesis by (simp add: proper_def)
qed

lemma with_fault_cases:
  assumes "with_fault act w = (r, w')"
  obtains e w1 where "r = Inl (Os_fault e)" "w' = w1" "w_tree w1 = w_tree w"
  | w1 where "act w1 = (r, w')" "w_tree w1 = w_tree w"
  using assms
  by (auto simp: with_fault_def next_fault_def split: list.splits option.splits prod.splits)

lemma next_fault_tree: "next_fault w = (f, w1) \<Longrightarrow> w_tree w1 = w_tree w"
  by (auto simp: next_fault_def split: list.splits)

text \<open>\<open>Below\<close>: what is read or made at components \<open>cs\<close> below \<open>ds\<close>, where no link is in the way.\<close>

definition clear_below :: "file_tree \<Rightarrow> string list \<Rightarrow> place \<Rightarrow> string list \<Rightarrow> bool" where
  "clear_below t ds d cs \<longleftrightarrow> wf_tree t \<and> target_of t ds = Inr d \<and> node_at t d = Some Dir
     \<and> list_all proper cs \<and> no_links t d cs"

lemma clear_below_extends: "clear_below t ds d cs \<Longrightarrow> extends t t' \<Longrightarrow> wf_tree t' \<Longrightarrow> clear_below t' ds d cs"
  by (auto simp: clear_below_def target_of_def intro: follow_extends extends_dir no_links_extends)

lemma clear_below_change: "clear_below t ds d cs \<Longrightarrow> node_change q t t' \<Longrightarrow> clear_below t' ds d cs"
  using clear_below_extends node_change_extends node_change_wf unfolding clear_below_def by meson

lemma clear_below_prefix: "clear_below t ds d (xs @ ys) \<Longrightarrow> clear_below t ds d xs"
  by (auto simp: clear_below_def intro: no_links_prefix)

lemma clear_place:
  assumes "clear_below t ds d cs" "cs \<noteq> []" "place_of t (ds @ cs) = Inr q"
  shows "q = d @ cs" and "node_at t (butlast q) = Some Dir"
proof -
  show q: "q = d @ cs" using assms place_below by (auto simp: clear_below_def)
  obtain bs c where cs: "cs = bs @ [c]" using assms(2) by (cases cs rule: rev_cases) auto
  with assms(3) obtain p where "q = p @ [c]" "node_at t p = Some Dir"
    by (auto simp: place_of_def butlast_append split: sum.splits option.splits node.splits)
  then show "node_at t (butlast q) = Some Dir" by simp
qed

lemma clear_target:
  assumes "clear_below t ds d cs" "target_of t (ds @ cs) = Inr q"
  shows "q = d @ cs" and "cs \<noteq> [] \<Longrightarrow> node_at t (butlast q) = Some Dir"
proof -
  show q: "q = d @ cs" using assms target_below by (auto simp: clear_below_def)
  assume "cs \<noteq> []"
  then obtain bs c where cs: "cs = bs @ [c]" by (cases cs rule: rev_cases) auto
  have "follow t max_links [] ((ds @ bs) @ [c]) = Inr q" using assms(2) cs by (simp add: target_of_def)
  from follow_prefix [OF this] obtain p where p: "target_of t (ds @ bs) = Inr p" "node_at t p = Some Dir"
    by (auto simp: target_of_def)
  have "clear_below t ds d bs" using assms(1) cs clear_below_prefix by blast
  then have "p = d @ bs" using p(1) target_below by (auto simp: clear_below_def)
  with p(2) q cs show "node_at t (butlast q) = Some Dir" by (simp add: butlast_append)
qed

lemma mkdir_at_change:
  assumes "mkdir_at (ds @ cs) w = (r, w')" "clear_below (w_tree w) ds d cs"
  shows "w_tree w' = w_tree w \<or> (cs \<noteq> [] \<and> node_change (d @ cs) (w_tree w) (w_tree w') \<and> w_tree w' (d @ cs) = Some Dir)"
proof (cases "\<exists>q. target_of (w_tree w) (ds @ cs) = Inr q \<and> node_at (w_tree w) q = None")
  case False
  with assms(1) have "w' = w" by (auto simp: mkdir_at_def split: sum.splits option.splits node.splits)
  then show ?thesis by simp
next
  case True
  then obtain q where q: "target_of (w_tree w) (ds @ cs) = Inr q" "node_at (w_tree w) q = None" by blast
  have ne: "cs \<noteq> []" using q assms(2) by (auto simp: clear_below_def)
  have act: "with_fault (\<lambda>w. case place_of (w_tree w) (ds @ cs) of
                   Inl e \<Rightarrow> (Inl e, w)
                 | Inr q' \<Rightarrow>
                     if node_at (w_tree w) q' \<noteq> None then (Inl Os_exist, w)
                     else (Inr (), w\<lparr>w_tree := (w_tree w)(q' \<mapsto> Dir)\<rparr>)) w = (r, w')"
    using assms(1) q by (simp add: mkdir_at_def)
  then show ?thesis
  proof (cases rule: with_fault_cases)
    case (1 e w1)
    then show ?thesis by simp
  next
    case (2 w1)
    show ?thesis
    proof (cases "place_of (w_tree w) (ds @ cs)")
      case (Inr q')
      note p = clear_place [OF assms(2) ne Inr]
      with 2 Inr ne show ?thesis
        by (auto simp: node_change_def node_at_def split: if_splits)
    qed (use 2 in simp)
  qed
qed

lemma mkdir_at_ok:
  assumes "mkdir_at (cs @ [c]) w = (Inr u, w')" "proper c"
  shows "\<exists>q. target_of (w_tree w') (cs @ [c]) = Inr q \<and> node_at (w_tree w') q = Some Dir"
proof (cases "\<exists>q. target_of (w_tree w) (cs @ [c]) = Inr q \<and> node_at (w_tree w) q = None")
  case False
  with assms(1) show ?thesis by (auto simp: mkdir_at_def split: sum.splits option.splits node.splits)
next
  case True
  then obtain q where q: "target_of (w_tree w) (cs @ [c]) = Inr q" "node_at (w_tree w) q = None" by blast
  have act: "with_fault (\<lambda>w. case place_of (w_tree w) (cs @ [c]) of
                   Inl e \<Rightarrow> (Inl e, w)
                 | Inr q' \<Rightarrow>
                     if node_at (w_tree w) q' \<noteq> None then (Inl Os_exist, w)
                     else (Inr (), w\<lparr>w_tree := (w_tree w)(q' \<mapsto> Dir)\<rparr>)) w = (Inr u, w')"
    using assms(1) q by (simp add: mkdir_at_def)
  then obtain q' where q': "place_of (w_tree w) (cs @ [c]) = Inr q'" "node_at (w_tree w) q' = None"
    "w_tree w' = (w_tree w)(q' \<mapsto> Dir)"
    by (cases rule: with_fault_cases) (auto split: sum.splits if_splits)
  then obtain p where p: "target_of (w_tree w) cs = Inr p" "node_at (w_tree w) p = Some Dir" "q' = p @ [c]"
    by (auto simp: place_of_def split: sum.splits option.splits node.splits)
  have ch: "node_change q' (w_tree w) (w_tree w')"
    using q'(2,3) p(2,3) by (auto simp: node_change_def node_at_def)
  note ext = node_change_extends [OF ch]
  have p': "target_of (w_tree w') cs = Inr p" "node_at (w_tree w') p = Some Dir"
    using p(1,2) follow_extends [OF _ ext] extends_dir [OF ext] by (auto simp: target_of_def)
  have made: "w_tree w' (p @ [c]) = Some Dir" using q'(3) p(3) by simp
  obtain m where "follow (w_tree w') max_links [] (cs @ [c]) = follow (w_tree w') m p [c]"
    using follow_append p'(1) unfolding target_of_def by blast
  then have "target_of (w_tree w') (cs @ [c]) = Inr (p @ [c])"
    using p'(2) made assms(2) by (simp add: target_of_def proper_def link_at_def)
  then show ?thesis using made by (simp add: node_at_def)
qed

text \<open>A run of changes below \<open>d\<close>, each at one node on the way to \<open>cs\<close>.\<close>

inductive changes :: "place set \<Rightarrow> file_tree \<Rightarrow> file_tree \<Rightarrow> bool" for Q where
  changes_none: "changes Q t t"
| changes_one: "changes Q t t1 \<Longrightarrow> q \<in> Q \<Longrightarrow> node_change q t1 t2 \<Longrightarrow> changes Q t t2"

lemma changes_trans: "changes Q t1 t2 \<Longrightarrow> changes Q t t1 \<Longrightarrow> changes Q t t2"
  by (induction rule: changes.induct) (auto intro: changes.intros)

lemma changes_mono: "changes Q t t' \<Longrightarrow> Q \<subseteq> R \<Longrightarrow> changes R t t'"
  by (induction rule: changes.induct) (auto intro: changes.intros)

lemma changes_single: "q \<in> Q \<Longrightarrow> node_change q t t' \<Longrightarrow> changes Q t t'"
  using changes.intros by blast

lemma changes_extends: "changes Q t t' \<Longrightarrow> extends t t'"
  by (induction rule: changes.induct) (auto intro: extends_trans node_change_extends)

lemma changes_wf: "changes Q t t' \<Longrightarrow> wf_tree t \<Longrightarrow> wf_tree t'"
  by (induction rule: changes.induct) (auto intro: node_change_wf)

lemma changes_within: "changes Q t t' \<Longrightarrow> q \<notin> Q \<Longrightarrow> t' q = t q"
  by (induction rule: changes.induct) (auto simp: node_change_def)

definition strictly_below :: "place \<Rightarrow> place set" where
  "strictly_below d = {q. \<exists>c cs. q = d @ c # cs}"

lemma clear_below_changes: "clear_below t ds d cs \<Longrightarrow> changes Q t t' \<Longrightarrow> clear_below t' ds d cs"
  using clear_below_extends changes_extends changes_wf unfolding clear_below_def by meson

lemma mkdir_all_append: "mkdir_all up (xs @ ys) w =
    (case mkdir_all up xs w of (Inl e, w1) \<Rightarrow> (Inl e, w1) | (Inr _, w1) \<Rightarrow> mkdir_all (up @ xs) ys w1)"
  by (induction xs arbitrary: up w) (auto split: prod.splits sum.splits)

lemma mkdir_all_there:
  assumes "target_of (w_tree w) (up @ cs) = Inr d" "node_at (w_tree w) d = Some Dir"
  shows "mkdir_all up cs w = (Inr (), w)"
  using assms(1)
proof (induction cs arbitrary: up)
  case (Cons c cs)
  have "follow (w_tree w) max_links [] ((up @ [c]) @ cs) = Inr d" using Cons(2) by (simp add: target_of_def)
  from follow_prefix [OF this] obtain p where p: "target_of (w_tree w) (up @ [c]) = Inr p"
    "cs = [] \<or> node_at (w_tree w) p = Some Dir" by (auto simp: target_of_def)
  have "node_at (w_tree w) p = Some Dir" using p Cons(2) assms(2) by auto
  with p Cons(1) [of "up @ [c]"] Cons(2) show ?case by (simp add: mkdir_at_def)
qed simp

lemma mkdir_all_changes:
  assumes "mkdir_all (ds @ xs) ys w = (r, w')" "clear_below (w_tree w) ds d (xs @ ys)"
  shows "changes {q. \<exists>zs. q = d @ xs @ zs \<and> zs \<noteq> []} (w_tree w) (w_tree w')
    \<and> (\<forall>q. w_tree w' q \<noteq> w_tree w q \<longrightarrow> w_tree w' q = Some Dir)"
  using assms(1,2)
proof (induction ys arbitrary: xs w)
  case Nil
  then show ?case by (auto intro: changes_none)
next
  case (Cons y ys)
  let ?Q = "{q. \<exists>zs. q = d @ xs @ zs \<and> zs \<noteq> []}"
  obtain r1 w1 where m: "mkdir_at (ds @ xs @ [y]) w = (r1, w1)" by fastforce
  have clear: "clear_below (w_tree w) ds d (xs @ [y])" using Cons(3) clear_below_prefix [of _ _ _ "xs @ [y]" ys] by simp
  note step = mkdir_at_change [OF m clear]
  have one: "changes ?Q (w_tree w) (w_tree w1)"
    using step by (auto intro: changes_none changes_single [of "d @ xs @ [y]"])
  have one_dir: "\<forall>q. w_tree w1 q \<noteq> w_tree w q \<longrightarrow> w_tree w1 q = Some Dir"
    using step by (auto simp: node_change_def split: if_splits)
  show ?case
  proof (cases r1)
    case (Inl e)
    with Cons(2) m one one_dir show ?thesis by simp
  next
    case (Inr u)
    have rest: "mkdir_all (ds @ xs @ [y]) ys w1 = (r, w')" using Cons(2) m Inr by simp
    have "clear_below (w_tree w1) ds d ((xs @ [y]) @ ys)" using clear_below_changes [OF _ one] Cons(3) by simp
    from Cons(1) [OF _ this] rest have two: "changes {q. \<exists>zs. q = d @ (xs @ [y]) @ zs \<and> zs \<noteq> []} (w_tree w1) (w_tree w')"
      "\<forall>q. w_tree w' q \<noteq> w_tree w1 q \<longrightarrow> w_tree w' q = Some Dir" by simp_all
    have "changes ?Q (w_tree w1) (w_tree w')" using two(1) by (rule changes_mono) auto
    then have "changes ?Q (w_tree w) (w_tree w')" using one by (rule changes_trans)
    moreover have "w_tree w' q = Some Dir" if "w_tree w' q \<noteq> w_tree w q" for q
      using one_dir two(2) that by (cases "w_tree w1 q = w_tree w q") auto
    ultimately show ?thesis by blast
  qed
qed

lemma os_mkdir_all_below:
  assumes "os_mkdir_all (rooted_path (ds @ cs)) w = (r, w')" "clear_below (w_tree w) ds d cs" "list_all proper ds"
  shows "changes (strictly_below d) (w_tree w) (w_tree w')"
    and "\<forall>q. w_tree w' q \<noteq> w_tree w q \<longrightarrow> w_tree w' q = Some Dir"
proof -
  have "list_all proper (ds @ cs)" using assms(2,3) by (simp add: clear_below_def)
  then have "mkdir_all [] (ds @ cs) w = (r, w')" using assms(1) by (simp add: os_mkdir_all_def fp_parts_rooted)
  moreover have "mkdir_all [] ds w = (Inr (), w)"
    using assms(2) mkdir_all_there [of w "[]" ds d] by (simp add: clear_below_def)
  ultimately have "mkdir_all (ds @ []) cs w = (r, w')" by (simp add: mkdir_all_append)
  from mkdir_all_changes [OF this, of d] assms(2)
  have c: "changes {q. \<exists>zs. q = d @ [] @ zs \<and> zs \<noteq> []} (w_tree w) (w_tree w')"
    "\<forall>q. w_tree w' q \<noteq> w_tree w q \<longrightarrow> w_tree w' q = Some Dir" by simp_all
  show "changes (strictly_below d) (w_tree w) (w_tree w')"
    using c(1) by (rule changes_mono) (auto simp: strictly_below_def neq_Nil_conv)
  show "\<forall>q. w_tree w' q \<noteq> w_tree w q \<longrightarrow> w_tree w' q = Some Dir" by (rule c(2))
qed

lemma os_create_below:
  assumes "os_create (rooted_path (ds @ cs)) perm w = (r, w')" "clear_below (w_tree w) ds d cs" "list_all proper ds" "cs \<noteq> []"
  shows "w_tree w' = w_tree w \<or> node_change (d @ cs) (w_tree w) (w_tree w')"
    and "r = Inr q \<Longrightarrow> q = d @ cs \<and> (w_tree w' q = Some Special \<or> (\<exists>m. w_tree w' q = Some (Reg m [])))"
proof -
  have parts: "fp_parts (rooted_path (ds @ cs)) = ds @ cs"
    using assms(2,3) by (intro fp_parts_rooted) (simp add: clear_below_def)
  have "(w_tree w' = w_tree w \<or> node_change (d @ cs) (w_tree w) (w_tree w'))
    \<and> (\<forall>q. r = Inr q \<longrightarrow> q = d @ cs \<and> (w_tree w' q = Some Special \<or> (\<exists>m. w_tree w' q = Some (Reg m []))))"
    using assms(1) unfolding os_create_def parts
  proof (cases rule: with_fault_cases)
    case (1 e w1)
    then show ?thesis by simp
  next
    case (2 w1)
    show ?thesis
    proof (cases "target_of (w_tree w1) (ds @ cs)")
      case (Inr p)
      then have p: "p = d @ cs" "node_at (w_tree w) (butlast p) = Some Dir"
        using 2(2) clear_target [OF assms(2)] assms(4) by auto
      with 2 Inr assms(4) show ?thesis
        by (auto simp: node_change_def node_at_def is_file_def split: option.splits node.splits)
    qed (use 2 in auto)
  qed
  then show "w_tree w' = w_tree w \<or> node_change (d @ cs) (w_tree w) (w_tree w')"
    "r = Inr q \<Longrightarrow> q = d @ cs \<and> (w_tree w' q = Some Special \<or> (\<exists>m. w_tree w' q = Some (Reg m [])))" by blast+
qed

definition node_bytes :: "node option \<Rightarrow> nat" where
  "node_bytes v = (case v of Some (Reg m s) \<Rightarrow> length s | _ \<Rightarrow> 0)"

lemma os_write_change:
  assumes "os_write q s w = ((n, e), w')" "wf_tree (w_tree w)" "node_bytes (w_tree w q) = 0"
  shows "w_tree w' = w_tree w \<or> node_change q (w_tree w) (w_tree w')" "node_bytes (w_tree w' q) \<le> n" "n \<le> length s"
    "e = None \<Longrightarrow> n = length s"
proof -
  obtain f w1 where f: "next_fault w = (f, w1)" by fastforce
  note t = next_fault_tree [OF f]
  have put: "put_bytes q x (w_tree w) = w_tree w \<or> node_change q (w_tree w) (put_bytes q x (w_tree w))" for x
    using wf_parent [OF assms(2), of q]
    by (auto simp: put_bytes_def node_change_def is_file_def split: option.splits node.splits)
  have bytes: "node_bytes (put_bytes q x (w_tree w) q) \<le> length x" for x
    using assms(3) by (auto simp: put_bytes_def node_bytes_def split: option.splits node.splits)
  show "w_tree w' = w_tree w \<or> node_change q (w_tree w) (w_tree w')"
    using assms(1) put [of s] put [of "take n s"] put [of "take (fst (the f)) s"] f t
    by (auto simp: os_write_def split: option.splits)
  show "node_bytes (w_tree w' q) \<le> n" "n \<le> length s" "e = None \<Longrightarrow> n = length s"
    using assms(1) bytes [of s] bytes [of "take (fst (the f)) s"] f t
    by (auto simp: os_write_def min.commute split: option.splits)
qed

lemma os_close_tree: "os_close w = (e, w') \<Longrightarrow> w_tree w' = w_tree w"
  by (auto simp: os_close_def next_fault_def split: prod.splits option.splits list.splits)

lemma os_remove_below:
  assumes "os_remove (rooted_path (ds @ cs)) w = (r, w')" "clear_below (w_tree w) ds d cs" "list_all proper ds" "cs \<noteq> []"
  shows "w_tree w' = w_tree w \<or> (node_change (d @ cs) (w_tree w) (w_tree w') \<and> w_tree w' (d @ cs) = None)"
proof -
  have parts: "fp_parts (rooted_path (ds @ cs)) = ds @ cs"
    using assms(2,3) by (intro fp_parts_rooted) (simp add: clear_below_def)
  show ?thesis
    using assms(1) unfolding os_remove_def parts
  proof (cases rule: with_fault_cases)
    case (1 e w1)
    then show ?thesis by simp
  next
    case (2 w1)
    show ?thesis
    proof (cases "place_of (w_tree w1) (ds @ cs)")
      case (Inr p)
      then have p: "p = d @ cs" "node_at (w_tree w) (butlast p) = Some Dir"
        using 2(2) clear_place [OF assms(2,4)] by auto
      moreover have "link_at (w_tree w) (d @ cs) = None"
        using assms(2,4) by (auto simp: clear_below_def no_links_def)
      ultimately show ?thesis using 2 Inr assms(4)
        by (auto simp: node_change_def node_at_def is_file_def link_at_eq split: option.splits node.splits)
    qed (use 2 in simp)
  qed
qed

lemma wf_prefix_dir: "wf_tree t \<Longrightarrow> t (q @ c # zs) \<noteq> None \<Longrightarrow> node_at t q = Some Dir"
proof (induction zs rule: rev_induct)
  case Nil
  then show ?case by (auto simp: wf_tree_def)
next
  case (snoc z zs)
  have "node_at t (q @ c # zs) = Some Dir" using wf_parent [OF snoc(2,3)] by (simp add: butlast_append)
  then have "t (q @ c # zs) = Some Dir" by (simp add: node_at_def)
  with snoc show ?case by simp
qed

lemma follow_dirs:
  "wf_tree t \<Longrightarrow> list_all proper xs \<Longrightarrow> no_links t d xs \<Longrightarrow> node_at t d = Some Dir \<Longrightarrow>
    node_at t (d @ xs) = Some Dir \<Longrightarrow> follow t m d xs = Inr (d @ xs)"
proof (induction xs arbitrary: d)
  case (Cons x xs)
  have "node_at t (d @ [x]) = Some Dir"
  proof (cases xs)
    case Nil
    then show ?thesis using Cons(6) by simp
  next
    case (Cons y ys)
    then show ?thesis using wf_prefix_dir [OF Cons.prems(1), of "d @ [x]" y ys] Cons.prems(5)
      by (auto simp: node_at_def split: if_splits)
  qed
  with Cons follow_step [of t d x m xs] show ?case by (auto simp: no_links_Cons proper_def)
qed simp

end
