(* ===== verification/Slug.thy ===== *)
theory Slug
  imports File_System
begin

text \<open>
  \<open>pkg/text\<close>: slugs (\<open>slug.go\<close>) and small helpers (\<open>text.go\<close>).

  Texts are UTF-8 bytes. The replacement of the Turkish letters is modelled byte by byte; what
  \<open>asciiFold\<close> does after it with the tables of Unicode (NFD, dropping marks, special letters, lower
  case) is the parameter \<open>nfd\<close>, and the lemmas hold for every such function.
\<close>

section \<open>Slugs\<close>

text \<open>\<open>trSlugReplacer\<close>: the letters with two bytes, and the capital I.\<close>

definition tr_letter :: "char \<Rightarrow> char \<Rightarrow> char option" where
  "tr_letter a b =
     (if a = CHR 0xC3 \<and> (b = CHR 0xA7 \<or> b = CHR 0x87) then Some CHR ''c''
      else if a = CHR 0xC4 \<and> (b = CHR 0x9F \<or> b = CHR 0x9E) then Some CHR ''g''
      else if a = CHR 0xC4 \<and> (b = CHR 0xB1 \<or> b = CHR 0xB0) then Some CHR ''i''
      else if a = CHR 0xC3 \<and> (b = CHR 0xB6 \<or> b = CHR 0x96) then Some CHR ''o''
      else if a = CHR 0xC5 \<and> (b = CHR 0x9F \<or> b = CHR 0x9E) then Some CHR ''s''
      else if a = CHR 0xC3 \<and> (b = CHR 0xBC \<or> b = CHR 0x9C) then Some CHR ''u''
      else None)"

fun tr_replace :: "string \<Rightarrow> string" where
  "tr_replace [] = []"
| "tr_replace [a] = [if a = CHR ''I'' then CHR ''i'' else a]"
| "tr_replace (a # b # s) =
     (case tr_letter a b of
        Some c \<Rightarrow> c # tr_replace s
      | None \<Rightarrow> (if a = CHR ''I'' then CHR ''i'' else a) # tr_replace (b # s))"

definition ascii_fold :: "(string \<Rightarrow> string) \<Rightarrow> string \<Rightarrow> string" where
  "ascii_fold nfd s = nfd (tr_replace s)"

definition slug_char :: "char \<Rightarrow> bool" where
  "slug_char c \<longleftrightarrow> (of_char CHR ''a'' \<le> (of_char c :: nat) \<and> (of_char c :: nat) \<le> of_char CHR ''z'')
     \<or> (of_char CHR ''0'' \<le> (of_char c :: nat) \<and> (of_char c :: nat) \<le> of_char CHR ''9'')"

text \<open>The loop of \<open>slugify\<close>: what is written so far, and whether a separator is pending.\<close>

fun slug_loop :: "char \<Rightarrow> string \<Rightarrow> bool \<Rightarrow> string \<Rightarrow> string" where
  "slug_loop sep out pend [] = out"
| "slug_loop sep out pend (c # s) =
     (if slug_char c then slug_loop sep (out @ (if pend \<and> out \<noteq> [] then [sep] else []) @ [c]) False s
      else slug_loop sep out True s)"

definition slugify :: "string \<Rightarrow> char \<Rightarrow> string" where
  "slugify s sep = slug_loop sep [] False s"

definition to_slug :: "(string \<Rightarrow> string) \<Rightarrow> string \<Rightarrow> string" where
  "to_slug nfd s = slugify (ascii_fold nfd s) (CHR ''-'')"

definition file_slug_fallback :: string where
  "file_slug_fallback = ''file''"

definition max_file_ext_len :: nat where
  "max_file_ext_len = 16"

definition max_file_base_len :: nat where
  "max_file_base_len = 200"

definition clean_ext :: "(string \<Rightarrow> string) \<Rightarrow> string \<Rightarrow> string" where
  "clean_ext nfd ext = take max_file_ext_len (filter slug_char (ascii_fold nfd ext))"

definition trim_right_char :: "char \<Rightarrow> string \<Rightarrow> string" where
  "trim_right_char c s = rev (dropWhile (\<lambda>x. x = c) (rev s))"

text \<open>The name before the last dot and the text after it, where there is one.\<close>

definition split_ext :: "string \<Rightarrow> (string \<times> string) option" where
  "split_ext name =
     (let ps = split_on (CHR ''.'') name in
      if length ps < 2 then None else Some (join_with ''.'' (butlast ps), last ps))"

definition to_slug_for_file :: "(string \<Rightarrow> string) \<Rightarrow> string \<Rightarrow> string" where
  "to_slug_for_file nfd name =
     (let (base, ext) =
            (case split_ext name of
               Some (b, e) \<Rightarrow> if CHR ''/'' \<in> set e \<or> CHR 0x5C \<in> set e then (name, []) else (b, clean_ext nfd e)
             | None \<Rightarrow> (name, []));
          s = to_slug nfd base;
          s1 = (if max_file_base_len < length s then trim_right_char (CHR ''-'') (take max_file_base_len s) else s);
          s2 = (if s1 = [] then file_slug_fallback else s1) in
      if ext \<noteq> [] then s2 @ ''.'' @ ext else s2)"

section \<open>Small helpers\<close>

definition text_coalesce :: "string list \<Rightarrow> string" where
  "text_coalesce ss = (case filter (\<lambda>s. s \<noteq> []) ss of [] \<Rightarrow> [] | s # _ \<Rightarrow> s)"

definition normalize_space :: "string \<Rightarrow> string" where
  "normalize_space s = join_with '' '' (str_fields s)"

section \<open>The shape of a slug\<close>

text \<open>Letters, digits and single separators between them, none at the ends.\<close>

fun double_dash :: "string \<Rightarrow> bool" where
  "double_dash (a # b # s) \<longleftrightarrow> (a = CHR ''-'' \<and> b = CHR ''-'') \<or> double_dash (b # s)"
| "double_dash _ \<longleftrightarrow> False"

definition is_slug :: "string \<Rightarrow> bool" where
  "is_slug s \<longleftrightarrow> s \<noteq> [] \<and> (\<forall>c\<in>set s. slug_char c \<or> c = CHR ''-'') \<and> hd s \<noteq> CHR ''-'' \<and> last s \<noteq> CHR ''-''
     \<and> \<not> double_dash s"

lemma slug_char_dash [simp]: "\<not> slug_char (CHR ''-'')" "\<not> slug_char (CHR ''.'')" "\<not> slug_char (CHR ''/'')" "\<not> slug_char (CHR 0x5C)"
  by (simp_all add: slug_char_def)

lemma double_dash_Cons: "double_dash (a # s) \<longleftrightarrow> (s \<noteq> [] \<and> a = CHR ''-'' \<and> hd s = CHR ''-'') \<or> double_dash s"
  by (cases s) auto

lemma no_dashes_append: "double_dash (xs @ ys) \<longleftrightarrow>
    double_dash xs \<or> double_dash ys \<or> (xs \<noteq> [] \<and> last xs = CHR ''-'' \<and> ys \<noteq> [] \<and> hd ys = CHR ''-'')"
  by (induction xs rule: double_dash.induct) (auto simp: double_dash_Cons)

lemma slug_snoc:
  assumes "slug_char c" "is_slug out"
  shows "is_slug (out @ [c])" "is_slug (out @ ''-'' @ [c])"
proof -
  have c: "c \<noteq> CHR ''-''" using assms(1) by auto
  show "is_slug (out @ [c])" "is_slug (out @ ''-'' @ [c])"
    using assms c by (auto simp: is_slug_def no_dashes_append)
qed

lemma slug_one: "slug_char c \<Longrightarrow> is_slug [c]"
  by (auto simp: is_slug_def)

lemma slug_loop_slug:
  "out = [] \<or> is_slug out \<Longrightarrow> slug_loop (CHR ''-'') out pend s = [] \<or> is_slug (slug_loop (CHR ''-'') out pend s)"
proof (induction s arbitrary: out pend)
  case (Cons c s)
  then show ?case using slug_snoc [of c out] slug_one [of c] by (cases "out = []") simp_all
qed simp

lemma to_slug_slug: "to_slug nfd s = [] \<or> is_slug (to_slug nfd s)"
  using slug_loop_slug [of "[]"] by (simp add: to_slug_def slugify_def)

text \<open>A slug is left as it is.\<close>

lemma slug_loop_same:
  "is_slug (out @ (if pend then ''-'' else []) @ s) \<Longrightarrow> slug_loop (CHR ''-'') out pend s = out @ (if pend then ''-'' else []) @ s"
proof (induction s arbitrary: out pend)
  case Nil
  then show ?case by (auto simp: is_slug_def split: if_splits)
next
  case (Cons c s)
  show ?case
  proof (cases "slug_char c")
    case True
    with Cons(1) [of "out @ (if pend then ''-'' else []) @ [c]" False] Cons(2) show ?thesis
      by (cases "out = []") (auto simp: is_slug_def split: if_splits)
  next
    case False
    then have c: "c = CHR ''-''" using Cons(2) by (auto simp: is_slug_def)
    then have "\<not> pend" using Cons(2) by (auto simp: is_slug_def no_dashes_append)
    with Cons(1) [of out True] Cons(2) c show ?thesis by simp
  qed
qed

lemma slugify_slug: "is_slug s \<Longrightarrow> slugify s (CHR ''-'') = s"
  using slug_loop_same [of "[]" False s] by (simp add: slugify_def)

text \<open>Cutting a slug off, and its dashes at the end.\<close>

lemma slug_cut: "is_slug s \<Longrightarrow> trim_right_char (CHR ''-'') (take n s) = [] \<or> is_slug (trim_right_char (CHR ''-'') (take n s))"
proof -
  assume s: "is_slug s"
  let ?t = "trim_right_char (CHR ''-'') (take n s)"
  have "take n s = ?t @ rev (takeWhile (\<lambda>x. x = CHR ''-'') (rev (take n s)))"
    unfolding trim_right_char_def by (metis rev_append rev_rev_ident takeWhile_dropWhile_id)
  then obtain u where u: "s = ?t @ u" by (metis append.assoc append_take_drop_id)
  have "last ?t \<noteq> CHR ''-''" if "?t \<noteq> []"
  proof -
    have "dropWhile (\<lambda>x. x = CHR ''-'') (rev (take n s)) \<noteq> []" using that by (simp add: trim_right_char_def)
    from hd_dropWhile [OF this] show ?thesis by (simp add: trim_right_char_def last_rev)
  qed
  moreover have "hd ?t = hd s" if "?t \<noteq> []" using that u by (metis hd_append2)
  moreover have "\<not> double_dash ?t" using s u no_dashes_append [of ?t u] by (simp add: is_slug_def)
  moreover have "set ?t \<subseteq> set s" using u by (metis set_append Un_upper1)
  ultimately show ?thesis using s by (auto simp: is_slug_def)
qed


lemma trim_right_char_length: "length (trim_right_char c s) \<le> length s"
  using length_dropWhile_le [of "\<lambda>x. x = c" "rev s"] by (simp add: trim_right_char_def)

lemma file_slug_is_slug: "is_slug file_slug_fallback" "length file_slug_fallback \<le> max_file_base_len"
  by code_simp+

lemma slug_file_proper:
  assumes "is_slug b" "e = [] \<or> (\<exists>x. e = ''.'' @ x \<and> list_all slug_char x)"
  shows "proper (b @ e)"
proof -
  have "b \<noteq> []" "slug_char (hd b) \<or> hd b = CHR ''-''" using assms(1) by (auto simp: is_slug_def)
  then have hd_b: "b \<noteq> []" "hd b \<noteq> CHR ''.''" by auto
  have "CHR ''/'' \<notin> set b" using assms(1) by (auto simp: is_slug_def)
  moreover have "CHR ''/'' \<notin> set e" using assms(2) slug_char_dash(3) by (auto simp: list_all_iff simp del: slug_char_dash)
  ultimately show ?thesis using hd_b by (cases b) (auto simp: proper_def)
qed

text \<open>(C35) File names are safe: whatever a file is called, and whatever the Unicode tables do with it, the name that
  \<open>ToSlugForFile\<close> makes is a single path component that is not empty and not a dot or two, at most 217 bytes long:
  a slug, and at most one dot with letters and digits behind it.\<close>

theorem to_slug_for_file_safe:
  "proper (to_slug_for_file nfd name) \<and> length (to_slug_for_file nfd name) \<le> max_file_base_len + 1 + max_file_ext_len
    \<and> (\<exists>b e. to_slug_for_file nfd name = b @ e \<and> is_slug b
         \<and> (e = [] \<or> (\<exists>x. e = ''.'' @ x \<and> x \<noteq> [] \<and> list_all slug_char x)))"
proof -
  define base ext where "base = fst (case split_ext name of
      Some (b, e) \<Rightarrow> if CHR ''/'' \<in> set e \<or> CHR 0x5C \<in> set e then (name, []) else (b, clean_ext nfd e) | None \<Rightarrow> (name, []))"
    and "ext = snd (case split_ext name of
      Some (b, e) \<Rightarrow> if CHR ''/'' \<in> set e \<or> CHR 0x5C \<in> set e then (name, []) else (b, clean_ext nfd e) | None \<Rightarrow> (name, []))"
  define s1 where "s1 = (if max_file_base_len < length (to_slug nfd base)
      then trim_right_char (CHR ''-'') (take max_file_base_len (to_slug nfd base)) else to_slug nfd base)"
  define b where "b = (if s1 = [] then file_slug_fallback else s1)"
  define e where "e = (if ext \<noteq> [] then ''.'' @ ext else [])"
  have name: "to_slug_for_file nfd name = b @ e"
    by (simp add: to_slug_for_file_def base_def ext_def s1_def b_def e_def case_prod_beta Let_def)
  have "s1 = [] \<or> is_slug s1" using to_slug_slug [of nfd base] slug_cut by (auto simp: s1_def)
  then have b: "is_slug b" using file_slug_is_slug by (auto simp: b_def)
  have "length s1 \<le> max_file_base_len"
    using trim_right_char_length [of "CHR ''-''" "take max_file_base_len (to_slug nfd base)"] by (auto simp: s1_def)
  then have lb: "length b \<le> max_file_base_len" using file_slug_is_slug by (simp add: b_def)
  have "list_all slug_char ext" "length ext \<le> max_file_ext_len"
    by (auto simp: ext_def clean_ext_def list_all_iff dest: in_set_takeD split: option.splits prod.splits)
  then have e: "e = [] \<or> (\<exists>x. e = ''.'' @ x \<and> x \<noteq> [] \<and> list_all slug_char x)" "length e \<le> 1 + max_file_ext_len"
    by (auto simp: e_def)
  have "proper (b @ e)" by (rule slug_file_proper [OF b]) (use e(1) in blast)
  with name b lb e show ?thesis by auto
qed

lemma to_slug_demo: "to_slug_for_file (\<lambda>s. s) ''../../etc/x y.tar.GZ'' = ''etc-x-y-tar''"
  by code_simp

end
