(* ===== verification/Crm.thy ===== *)
theory Crm
  imports Fiber_Web Login_Limit Slug
begin

text \<open>
  The application \<open>cmd/crm\<close>: its users (\<open>controllers/auth.go\<close>), its handlers (\<open>controllers\<close>), its
  middlewares (\<open>middleware\<close>) and its routes (\<open>routers\<close>, \<open>newApp\<close> of \<open>main.go\<close>), as one function
  from a context to the context after the request.

  Parameters are bcrypt, the translations, the texts of times, encoding of the errors of the demo
  form, and the parts of Fiber the application plugs together: \<open>recover\<close>, \<open>requestid\<close>, \<open>helmet\<close>, the
  static files, which requests a route matches, and the error where none does.
\<close>

section \<open>Users\<close>

record crm_user =
  cu_id :: int
  cu_username :: string
  cu_name :: string
  cu_role :: string
  cu_hash :: string

record user_store =
  us_users :: "(string \<times> crm_user) list"
  us_dummy :: string

record password_lib =
  pw_hash :: "string \<Rightarrow> gerr + string"
  pw_check :: "string \<Rightarrow> string \<Rightarrow> bool"

definition session_data :: "crm_user \<Rightarrow> gval" where
  "session_data u = VMap [(''id'', VInt (cu_id u)), (''username'', VStr (cu_username u)), (''name'', VStr (cu_name u)),
     (''role'', VStr (cu_role u))]"

definition store_add ::
  "password_lib \<Rightarrow> int \<Rightarrow> string \<Rightarrow> string \<Rightarrow> string \<Rightarrow> string \<Rightarrow> user_store \<Rightarrow> gerr + user_store" where
  "store_add P i username name role password s =
     (if username = [] \<or> password = [] then Inl (err_new ''users: username and password are required'')
      else
        (case pw_hash P password of
           Inl e \<Rightarrow> Inl (err_wrap (''users: hash '' @ username) e)
         | Inr h \<Rightarrow>
             Inr (s\<lparr>us_users := AList.update username
                \<lparr>cu_id = i, cu_username = username, cu_name = name, cu_role = role, cu_hash = h\<rparr> (us_users s)\<rparr>)))"

definition new_user_store :: "password_lib \<Rightarrow> string \<Rightarrow> string \<Rightarrow> gerr + user_store" where
  "new_user_store P admin_password user_password =
     res_bind (store_add P 1 ''admin'' (''Ada Y'' @ [CHR 0xC3, CHR 0xB6] @ ''netici'') ''admin'' admin_password \<lparr>us_users = [], us_dummy = []\<rparr>) (\<lambda>s1.
     res_bind (store_add P 2 ''user'' (''Umut Kullan'' @ [CHR 0xC4, CHR 0xB1] @ ''c'' @ [CHR 0xC4, CHR 0xB1]) ''user'' user_password s1) (\<lambda>s2.
       (case pw_hash P ''dummy-password-for-timing'' of
          Inl e \<Rightarrow> Inl (err_wrap ''users'' e)
        | Inr h \<Rightarrow> Inr (s2\<lparr>us_dummy := h\<rparr>))))"

definition authenticate :: "password_lib \<Rightarrow> user_store \<Rightarrow> string \<Rightarrow> string \<Rightarrow> crm_user option" where
  "authenticate P s username password =
     (case map_of (us_users s) username of
        None \<Rightarrow> None
      | Some u \<Rightarrow> if \<not> pw_check P (cu_hash u) password then None else Some u)"

definition list_users :: "user_store \<Rightarrow> crm_user list" where
  "list_users s = sort_key cu_id (map (\<lambda>(k, u). u\<lparr>cu_hash := []\<rparr>) (us_users s))"

section \<open>The application\<close>

datatype request_level = Log_debug | Log_warn | Log_error

record request_log =
  rl_level :: request_level
  rl_method :: string
  rl_path :: string
  rl_status :: int
  rl_ip :: string

record crm_app =
  ca_limits :: login_limits
  ca_menu :: menu_loader
  ca_log :: "request_log list"

type_synonym 's crm_ctx = "('s, crm_app) fctx"

type_synonym 's crm_handler = "('s, crm_app) fhandler"

text \<open>The fields of \<open>Handlers\<close>, what its methods take from outside, and the rule library of the forms.\<close>

record ('s, 'e, 'b, 'm, 'f) crm_env =
  ce_fiber :: "'s fiber_env"
  ce_users :: user_store
  ce_password :: password_lib
  ce_casbin :: "('e, 'b, 'm) casbin_lib"
  ce_policy :: "('e, 'm) manager"
  ce_langs :: "string list"
  ce_env_name :: string
  ce_production :: bool
  ce_login_limit :: int
  ce_url :: url_lib
  ce_routes :: templates
  ce_sprint :: "gval \<Rightarrow> string"
  ce_translate :: "string list \<Rightarrow> string \<Rightarrow> gval option \<Rightarrow> string"
  ce_rules :: "'f rule_lib"
  ce_messages :: messages
  ce_clock :: "nat \<Rightarrow> 's \<Rightarrow> int" \<comment> \<open>the readings of the clock for the menu\<close>
  ce_attempt :: "nat \<Rightarrow> int" \<comment> \<open>those of the attempt to log in, of which a request makes at most one\<close>
  ce_menu_records :: "'s \<Rightarrow> string + menu_record list"
  ce_year :: "'s \<Rightarrow> int"
  ce_uptime :: "'s \<Rightarrow> string"
  ce_now_text :: "'s \<Rightarrow> string"
  ce_reload_text :: "int \<Rightarrow> string"
  ce_status_text :: "int \<Rightarrow> string"
  ce_encode_errors :: "(string \<rightharpoonup> string) \<Rightarrow> gerr + string"
  ce_decode_errors :: "string \<Rightarrow> (string \<times> string) list option"
  ce_title_tr :: "string \<Rightarrow> string"
  ce_ascii :: "string \<Rightarrow> string"

section \<open>Language, translation and pages\<close>

definition supported_lang :: "('s, 'e, 'b, 'm, 'f) crm_env \<Rightarrow> string \<Rightarrow> bool" where
  "supported_lang K l \<longleftrightarrow> l \<in> set (ce_langs K)"

definition crm_default_lang :: "('s, 'e, 'b, 'm, 'f) crm_env \<Rightarrow> string" where
  "crm_default_lang K = (case ce_langs K of l # ls \<Rightarrow> l | [] \<Rightarrow> default_lang)"

definition base_lang :: "string \<Rightarrow> string" where
  "base_lang l = (let b = go_lower l; i = length (takeWhile (\<lambda>ch. ch \<noteq> CHR ''-'' \<and> ch \<noteq> CHR ''_'') b) in
     if i < length b \<and> 0 < i then take i b else b)"

definition crm_lang :: "('s, 'e, 'b, 'm, 'f) crm_env \<Rightarrow> 's crm_ctx \<Rightarrow> string" where
  "crm_lang K c =
     (case find (supported_lang K) (map base_lang (fiber_langs (ce_fiber K) (crm_default_lang K) c)) of
        Some l \<Rightarrow> l
      | None \<Rightarrow> crm_default_lang K)"

definition crm_t :: "('s, 'e, 'b, 'm, 'f) crm_env \<Rightarrow> 's crm_ctx \<Rightarrow> string \<Rightarrow> gval option \<Rightarrow> string" where
  "crm_t K c key d = ce_translate K [crm_lang K c] key d"

definition attr_string :: "web_user \<Rightarrow> string \<Rightarrow> string" where
  "attr_string u key = (case get_user_attr u key of Some (VStr s) \<Rightarrow> s | _ \<Rightarrow> [])"

text \<open>\<open>Loader.Items\<close> and \<open>Loader.For\<close> with the menu of the application.\<close>

definition crm_menu_items :: "('s, 'e, 'b, 'm, 'f) crm_env \<Rightarrow> 's crm_ctx \<Rightarrow> menu_item list \<times> 's crm_ctx" where
  "crm_menu_items K c =
     (case loader_items (ce_clock K 0 (fc_sess c)) (ce_menu_records K (fc_sess c)) (ce_clock K 1 (fc_sess c)) (ca_menu (fc_app c)) of
        (items, l) \<Rightarrow> ((case items of None \<Rightarrow> [] | Some its \<Rightarrow> its), c\<lparr>fc_app := (fc_app c)\<lparr>ca_menu := l\<rparr>\<rparr>))"

definition crm_menu_for :: "('s, 'e, 'b, 'm, 'f) crm_env \<Rightarrow> 's crm_ctx \<Rightarrow> menu_item list \<times> 's crm_ctx" where
  "crm_menu_for K c =
     (case crm_menu_items K c of (items, c1) \<Rightarrow> fiber_build_menu (ce_fiber K) (ce_routes K) (ce_sprint K) items c1)"

definition view_str :: "string \<Rightarrow> view_val" where
  "view_str s = View_value (VStr s)"

definition crm_render :: "('s, 'e, 'b, 'm, 'f) crm_env \<Rightarrow> string \<Rightarrow> view_data \<Rightarrow> 's crm_handler" where
  "crm_render K view d c =
     (case current_user (ce_fiber K) c of
        (u, c1) \<Rightarrow>
          (case crm_menu_for K c1 of
             (menu, c2) \<Rightarrow>
               (let wu = web_user_of u;
                    d0 = (if map_of d ''Title'' = None then AList.update ''Title'' (view_str []) d else d);
                    d1 = foldl (\<lambda>m (k, v). AList.update k v m) d0
                      [(''Menu'', View_menu menu), (''Lang'', view_str (crm_lang K c2)), (''Path'', view_str (fc_path c2)),
                       (''Year'', View_value (VInt (ce_year K (fc_sess c2)))), (''IsProduction'', View_value (VBool (ce_production K))),
                       (''UserName'', view_str (attr_string wu ''name'')), (''Username'', view_str (attr_string wu ''username'')),
                       (''UserRole'', view_str (extract_user_role wu guest_role))] in
                fiber_render (ce_fiber K) view d1 (c2\<lparr>fc_cache := ''no-store''\<rparr>))))"

definition status_text :: "('s, 'e, 'b, 'm, 'f) crm_env \<Rightarrow> int \<Rightarrow> string" where
  "status_text K code = (if ce_status_text K code \<noteq> [] then ce_status_text K code else ''Error'')"

definition render_error :: "('s, 'e, 'b, 'm, 'f) crm_env \<Rightarrow> int \<Rightarrow> 's crm_handler" where
  "render_error K code c =
     (if code \<noteq> 403 \<and> code \<noteq> 404 \<and> code < 500 then c_text (status_text K code) (c_status code c)
      else if \<not> wants_html c then c_json (error_json (go_lower (status_text K code))) (c_status code c)
      else
        (let suffix = (if code = 403 then ''403'' else if code = 404 then ''404'' else ''500'') in
         case crm_render K ''error''
             [(''Code'', View_value (VInt code)), (''Title'', view_str (crm_t K (c_status code c) (''error.title_'' @ suffix) None)),
              (''Message'', view_str (crm_t K (c_status code c) (''error.msg_'' @ suffix) None))] (c_status code c) of
           (Some Panic_error, c1) \<Rightarrow> (Some Panic_error, c1)
         | (Some e, c1) \<Rightarrow> c_text (status_text K code) (c_status code c1)
         | (None, c1) \<Rightarrow> (None, c1)))"

definition crm_error_handler :: "('s, 'e, 'b, 'm, 'f) crm_env \<Rightarrow> ferr \<Rightarrow> 's crm_handler" where
  "crm_error_handler K e c = render_error K (case e of Fiber_error code m \<Rightarrow> code | _ \<Rightarrow> 500) c"

definition crm_forbidden :: "('s, 'e, 'b, 'm, 'f) crm_env \<Rightarrow> 's crm_handler" where
  "crm_forbidden K = render_error K 403"

definition crm_csrf_error :: "('s, 'e, 'b, 'm, 'f) crm_env \<Rightarrow> ferr \<Rightarrow> 's crm_handler" where
  "crm_csrf_error K e c =
     (if \<not> wants_html c then c_json (error_json ''csrf'') (c_status 403 c)
      else
        (case crm_render K ''error''
            [(''Code'', View_value (VInt 403)), (''Title'', view_str (crm_t K (c_status 403 c) ''error.title_403'' None)),
             (''Message'', view_str (crm_t K (c_status 403 c) ''error.csrf'' None))] (c_status 403 c) of
           (Some Panic_error, c1) \<Rightarrow> (Some Panic_error, c1)
         | (Some e, c1) \<Rightarrow> c_text ''403 Forbidden'' (c_status 403 c1)
         | (None, c1) \<Rightarrow> (None, c1)))"


section \<open>Handlers\<close>

definition home :: "('s, 'e, 'b, 'm, 'f) crm_env \<Rightarrow> 's crm_handler" where
  "home K c = crm_render K ''index'' [(''Title'', view_str (crm_t K c ''home.title'' None))] c"

definition about_packages :: "string list" where
  "about_packages = [''web'', ''web/fiberweb'', ''policy'', ''localization'', ''forms'', ''router'', ''crypto'', ''logx'', ''config'', ''text'']"

definition package_row :: "('s, 'e, 'b, 'm, 'f) crm_env \<Rightarrow> 's crm_ctx \<Rightarrow> string \<Rightarrow> gval" where
  "package_row K c p =
     (let key = (case last_index_byte (CHR ''/'') p of None \<Rightarrow> p | Some i \<Rightarrow> drop (Suc i) p) in
      VMap [(''Path'', VStr (''github.com/mustafacaglarkara/webdev/pkg/'' @ p)), (''Usage'', VStr (crm_t K c (''about.pkg.'' @ key) None))])"

text \<open>\<open>html\<close> and \<open>slug_in\<close> are the constant texts of the page.\<close>

definition about :: "('s, 'e, 'b, 'm, 'f) crm_env \<Rightarrow> string \<Rightarrow> string \<Rightarrow> 's crm_handler" where
  "about K html slug_in c =
     crm_render K ''about''
       [(''Title'', view_str (crm_t K c ''about.title'' None)), (''Packages'', View_value (VList (map (package_row K c) about_packages))),
        (''UntrustedHTML'', view_str html), (''SlugInput'', view_str slug_in), (''SlugOutput'', view_str (to_slug (ce_ascii K) slug_in))] c"

definition safe_redirect :: "('s, 'e, 'b, 'm, 'f) crm_env \<Rightarrow> string \<Rightarrow> string \<Rightarrow> string" where
  "safe_redirect K next fallback = normalize_safe_redirect (ce_url K) [] next [fallback]"

definition login_next :: "('s, 'e, 'b, 'm, 'f) crm_env \<Rightarrow> 's crm_ctx \<Rightarrow> string" where
  "login_next K c =
     (let n = trim_space (fc_form_value c ''next'') in safe_redirect K (if n = [] then fc_query c ''next'' else n) [])"

definition login_form :: "('s, 'e, 'b, 'm, 'f) crm_env \<Rightarrow> 's crm_handler" where
  "login_form K c =
     (let n = login_next K c in
      case is_authenticated (ce_fiber K) c of
        (True, c1) \<Rightarrow> c_redirect (safe_redirect K n ''/user'') 303 c1
      | (False, c1) \<Rightarrow>
          crm_render K ''login'' [(''Title'', view_str (crm_t K c1 ''login.title'' None)), (''Next'', view_str n)] c1)"

text \<open>\<open>formValues\<close> of the controllers: the data of a form as form values; \<open>dval_text\<close> is \<open>fmt.Sprint\<close>.\<close>

definition form_field_values :: "('f, 't) raw \<Rightarrow> string list" where
  "form_field_values v =
     (case v of
        Some (TStr, FStr s) \<Rightarrow> [s]
      | Some (TSlice TStr, FSlice vs) \<Rightarrow> map (\<lambda>x. case x of FStr s \<Rightarrow> s | _ \<Rightarrow> []) vs
      | _ \<Rightarrow> [[]])"

definition form_old_values :: "('f, 't) form_data \<Rightarrow> old_form" where
  "form_old_values d = map (\<lambda>(k, v). (k, form_field_values v)) d"

definition form_string :: "string \<Rightarrow> ('f, 't) form_data \<Rightarrow> string" where
  "form_string k d = (case map_of d k of Some (Some (TStr, FStr s)) \<Rightarrow> s | _ \<Rightarrow> [])"

definition crm_validate ::
  "('s, 'e, 'b, 'm, 'f) crm_env \<Rightarrow> (string \<times> string) list \<Rightarrow> messages option \<Rightarrow> ('f, unit) form \<Rightarrow> ('f, unit) form \<times> bool" where
  "crm_validate K rules msgs f = form_validate_map (ce_rules K) (\<lambda>n v. None) (ce_messages K) rules msgs f"

definition login_rules :: "(string \<times> string) list" where
  "login_rules = [(''username'', ''required|max:64''), (''password'', ''required|max:128'')]"

definition login :: "('s, 'e, 'b, 'm, 'f) crm_env \<Rightarrow> 's crm_handler" where
  "login K c =
     (let E = ce_fiber K;
          n = login_next K c;
          back = (if n \<noteq> [] then ''/login?next='' @ query_escape n else ''/login'');
          (f, ok) = crm_validate K login_rules None (fiber_form c) in
      if \<not> ok then
        (let c1 = fiber_set_old_inputs (form_old_values (fm_data f)) c in
         set_flash E ''error'' (crm_t K c1 ''login.invalid'' None) back 303 c1)
      else
        (let username = form_string ''username'' (fm_data f) in
         case authenticate (ce_password K) (ce_users K) username (form_string ''password'' (fm_data f)) of
           None \<Rightarrow>
             (let c1 = fiber_set_old_inputs [(''username'', [username])] c in
              set_flash E ''error'' (crm_t K c1 ''login.failed'' None) back 303 c1)
         | Some u \<Rightarrow>
             (case set_user E (Some (session_data u)) c of
                (Some e, c1) \<Rightarrow> (Some e, c1)
              | (None, c1) \<Rightarrow>
                  set_flash E ''success'' (crm_t K c1 ''login.success'' (Some (VMap [(''Name'', VStr (cu_name u))])))
                    (safe_redirect K n ''/user'') 303 c1)))"

definition logout :: "('s, 'e, 'b, 'm, 'f) crm_env \<Rightarrow> 's crm_handler" where
  "logout K c =
     (case clear_user (ce_fiber K) c of
        (Some e, c1) \<Rightarrow> (Some e, c1)
      | (None, c1) \<Rightarrow> set_flash (ce_fiber K) ''success'' (crm_t K c1 ''logout.success'' None) ''/'' 303 c1)"

definition switch_lang :: "('s, 'e, 'b, 'm, 'f) crm_env \<Rightarrow> 's crm_handler" where
  "switch_lang K c =
     (let back = safe_redirect K (fc_form_value c ''next'') ''/''; l = fc_form_value c ''lang'' in
      if \<not> supported_lang K l then set_flash (ce_fiber K) ''error'' (crm_t K c ''lang.invalid'' None) back 303 c
      else
        (case fiber_set_lang (ce_fiber K) l c of
           (Some e, c1) \<Rightarrow> (Some e, c1)
         | (None, c1) \<Rightarrow> set_flash (ce_fiber K) ''success'' (crm_t K c1 ''lang.changed'' None) back 303 c1))"

definition profile :: "('s, 'e, 'b, 'm, 'f) crm_env \<Rightarrow> 's crm_handler" where
  "profile K c = crm_render K ''user'' [(''Title'', view_str (crm_t K c ''user.title'' None))] c"

definition menu_demo :: "('s, 'e, 'b, 'm, 'f) crm_env \<Rightarrow> 's crm_handler" where
  "menu_demo K c =
     (case crm_menu_items K c of
        (items, c1) \<Rightarrow>
          (case crm_menu_for K c1 of
             (shown, c2) \<Rightarrow>
               (case current_user (ce_fiber K) c2 of
                  (u, c3) \<Rightarrow>
                    (let all_rows = flatten_menu 0 items; rows = flatten_menu 0 shown in
                     crm_render K ''demo_menu''
                       [(''Title'', view_str (crm_t K c3 ''demo_menu.title'' None)), (''Rows'', View_rows rows),
                        (''Role'', view_str (extract_user_role (web_user_of u) guest_role)),
                        (''RecordCount'', View_value (VInt (int (length all_rows)))),
                        (''HiddenCount'', View_value (VInt (int (length all_rows) - int (length rows))))] c3))))"

definition form_errors_flash_key :: string where
  "form_errors_flash_key = ''formdemo_errors''"

definition form_demo_rules :: "(string \<times> string) list" where
  "form_demo_rules = [(''name'', ''required|min:2|max:80''), (''email'', ''required|email''), (''age'', ''integer|between:18,120''),
     (''topic'', ''required|in:sales,support,other''), (''message'', ''max:500''), (''agree'', ''required'')]"

definition form_demo_messages :: "(string \<times> string) list" where
  "form_demo_messages =
     [(''name.required'', ''formdemo.err.name_required''), (''name.min'', ''formdemo.err.name_min''), (''name.max'', ''formdemo.err.name_max''),
      (''email.required'', ''formdemo.err.email_required''), (''email.email'', ''formdemo.err.email_invalid''),
      (''age.integer'', ''formdemo.err.age_integer''), (''age.between'', ''formdemo.err.age_between''),
      (''topic.required'', ''formdemo.err.topic_required''), (''topic.in'', ''formdemo.err.topic_in''),
      (''message.max'', ''formdemo.err.message_max''), (''agree.required'', ''formdemo.err.agree_required'')]"

definition form_demo :: "('s, 'e, 'b, 'm, 'f) crm_env \<Rightarrow> 's crm_handler" where
  "form_demo K c =
     (case flash_fn (ce_fiber K) form_errors_flash_key Map.empty c of
        None \<Rightarrow> (Some Panic_error, c)
      | Some (raw, cache, c1) \<Rightarrow>
          (let f = (new_from_map None :: ('f, unit) form);
               errs = (if raw = [] then [] else case ce_decode_errors K raw of None \<Rightarrow> [] | Some es \<Rightarrow> es);
               f1 = foldl (\<lambda>f (k, v). add_error k v f) f errs in
           crm_render K ''formdemo'' [(''Title'', view_str (crm_t K c1 ''formdemo.title'' None)), (''Form'', View_errors (fm_errors f1))] c1))"

definition form_demo_submit :: "('s, 'e, 'b, 'm, 'f) crm_env \<Rightarrow> 's crm_handler" where
  "form_demo_submit K c =
     (let E = ce_fiber K;
          f = (fiber_form c :: ('f, unit) form);
          f1 = (case map_of (fm_data f) ''name'' of
                  Some (Some (TStr, FStr s)) \<Rightarrow> f\<lparr>fm_data := AList.update ''name'' (Some (TStr, FStr (normalize_space s))) (fm_data f)\<rparr>
                | _ \<Rightarrow> f);
          msgs = map_of (map (\<lambda>(k, key). (k, crm_t K c key None)) form_demo_messages);
          (f2, ok) = crm_validate K form_demo_rules (Some msgs) f1 in
      if \<not> ok then
        (let c1 = fiber_set_old_inputs (form_old_values (fm_data f2)) c in
         case ce_encode_errors K (fm_errors f2) of
           Inl e \<Rightarrow> (Some (Go_error e), c1)
         | Inr b \<Rightarrow>
             (case fiber_add_flash E form_errors_flash_key b c1 of
                (Some e, c2) \<Rightarrow> (Some e, c2)
              | (None, c2) \<Rightarrow> set_flash E ''error'' (crm_t K c2 ''formdemo.failed'' None) ''/forms/demo'' 303 c2))
      else
        (let name = (case cleaned ''name'' f2 of Some (TStr, FStr s) \<Rightarrow> s | _ \<Rightarrow> []) in
         set_flash E ''success''
           (crm_t K c ''formdemo.success''
             (Some (VMap [(''Name'', VStr (ce_title_tr K (go_lower name))), (''Slug'', VStr (to_slug (ce_ascii K) name))])))
           ''/forms/demo'' 303 c))"

definition api_health :: "('s, 'e, 'b, 'm, 'f) crm_env \<Rightarrow> 's crm_handler" where
  "api_health K c =
     c_json (VMap [(''status'', VStr ''ok''), (''env'', VStr (ce_env_name K)), (''uptime'', VStr (ce_uptime K (fc_sess c))),
       (''time'', VStr (ce_now_text K (fc_sess c))), (''version'', VInt 1)]) c"

definition attr_value :: "web_user \<Rightarrow> string \<Rightarrow> gval" where
  "attr_value u key = (case get_user_attr u key of None \<Rightarrow> VNil | Some v \<Rightarrow> v)"

definition api_me :: "('s, 'e, 'b, 'm, 'f) crm_env \<Rightarrow> 's crm_handler" where
  "api_me K c =
     (case current_user (ce_fiber K) c of
        (u, c1) \<Rightarrow>
          (let wu = web_user_of u in
           case fiber_can (ce_fiber K) ''/admin'' ''GET'' c1 of
             (adm, c2) \<Rightarrow>
               (case fiber_can (ce_fiber K) ''/user'' ''GET'' c2 of
                  (usr, c3) \<Rightarrow>
                    c_json (VMap
                      [(''user'', VMap [(''id'', attr_value wu ''id''), (''username'', attr_value wu ''username''),
                          (''name'', attr_value wu ''name''), (''role'', VStr (extract_user_role wu guest_role))]),
                       (''lang'', VStr (crm_lang K c3)), (''permissions'', VMap [(''admin'', VBool adm), (''user'', VBool usr)])]) c3)))"

definition api_admin_stats :: "('s, 'e, 'b, 'm, 'f) crm_env \<Rightarrow> 's crm_handler" where
  "api_admin_stats K c =
     (case cb_policies (ce_casbin K) (pm_enforcer (ce_policy K)) of
        Inl e \<Rightarrow> (Some (Go_error e), c)
      | Inr rules \<Rightarrow>
          c_json (VMap [(''users'', VInt (int (length (list_users (ce_users K))))), (''policies'', VInt (int (length rules))),
            (''last_reload'', VStr (ce_reload_text K (pm_last (ce_policy K))))]) c)"

definition user_row :: "crm_user \<Rightarrow> gval" where
  "user_row u = VMap [(''ID'', VInt (cu_id u)), (''Username'', VStr (cu_username u)), (''Name'', VStr (cu_name u)), (''Role'', VStr (cu_role u)),
     (''PasswordHash'', VStr (cu_hash u))]"

definition admin_dashboard :: "('s, 'e, 'b, 'm, 'f) crm_env \<Rightarrow> 's crm_handler" where
  "admin_dashboard K c =
     (case cb_policies (ce_casbin K) (pm_enforcer (ce_policy K)) of
        Inl e \<Rightarrow> (Some (Go_error e), c)
      | Inr rules \<Rightarrow>
          crm_render K ''admin''
            [(''Title'', view_str (crm_t K c ''admin.title'' None)), (''Users'', View_value (VList (map user_row (list_users (ce_users K))))),
             (''Policies'', View_value (VList (map (\<lambda>r. VList (map VStr r)) rules))), (''LastReload'', View_value (VInt (pm_last (ce_policy K))))] c)"

definition api_unauthorized :: "('s, 'a) fhandler" where
  "api_unauthorized c = c_json (error_json ''unauthorized'') (c_status 401 c)"

definition api_forbidden :: "('s, 'a) fhandler" where
  "api_forbidden c = c_json (error_json ''forbidden'') (c_status 403 c)"

definition is_admin :: "web_user \<Rightarrow> bool" where
  "is_admin u \<longleftrightarrow> has_role u ''admin''"


section \<open>Middlewares\<close>

record helmet_config =
  hc_csp :: string
  hc_referrer :: string
  hc_frame :: string
  hc_hsts :: int

definition content_security_policy :: string where
  "content_security_policy =
     ''default-src 'self'; script-src 'self'; style-src 'self'; img-src 'self' data:; object-src 'none'; base-uri 'self'; form-action 'self'; frame-ancestors 'none'' @ [CHR 0x27]"

definition security_headers :: "bool \<Rightarrow> helmet_config" where
  "security_headers production =
     \<lparr>hc_csp = content_security_policy, hc_referrer = ''strict-origin-when-cross-origin'', hc_frame = ''DENY'',
      hc_hsts = (if production then 31536000 else 0)\<rparr>"

definition request_logger :: "('s, crm_app) fmiddleware" where
  "request_logger next c =
     (case next c of
        (Some Panic_error, c1) \<Rightarrow> (Some Panic_error, c1)
      | (err, c1) \<Rightarrow>
          (let status = (case err of None \<Rightarrow> fc_status c1 | Some (Fiber_error code m) \<Rightarrow> code | Some _ \<Rightarrow> 500);
               lev = (if 500 \<le> status then Log_error else if 400 \<le> status then Log_warn else Log_debug);
               entry = \<lparr>rl_level = lev, rl_method = fc_method c1, rl_path = fc_path c1, rl_status = status, rl_ip = fc_ip c1\<rparr> in
           (err, c1\<lparr>fc_app := (fc_app c1)\<lparr>ca_log := ca_log (fc_app c1) @ [entry]\<rparr>\<rparr>)))"

definition only_unsafe_methods :: "('s, 'a) fmiddleware \<Rightarrow> ('s, 'a) fmiddleware" where
  "only_unsafe_methods mw next c = (if is_csrf_safe_method (fc_method c) then next c else mw next c)"

definition set_limits :: "login_limits \<Rightarrow> 's crm_ctx \<Rightarrow> 's crm_ctx" where
  "set_limits l c = c\<lparr>fc_app := (fc_app c)\<lparr>ca_limits := l\<rparr>\<rparr>"

definition attempt_of :: "('s, 'e, 'b, 'm, 'f) crm_env \<Rightarrow> string \<Rightarrow> login_try" where
  "attempt_of K ip = \<lparr>lt_ip = ip, lt_get = ce_attempt K 0, lt_made = ce_attempt K 1, lt_allow = ce_attempt K 2\<rparr>"

definition login_rate_limit :: "('s, 'e, 'b, 'm, 'f) crm_env \<Rightarrow> int \<Rightarrow> int \<Rightarrow> ('s, crm_app) fmiddleware" where
  "login_rate_limit K mx window next c =
     (if unlimited mx window \<or> fc_method c \<noteq> ''POST'' then next c
      else
        (case limit_try (attempt_of K (fc_ip c)) (ca_limits (fc_app c)) of
           (Inl e, l) \<Rightarrow> (Some (Go_error (err_new ''ratelimit: invalid rate'')), set_limits l c)
         | (Inr False, l) \<Rightarrow> (Some (Fiber_error 429 ''too many login attempts''), set_limits l c)
         | (Inr True, l) \<Rightarrow> next (set_limits l c)))"

section \<open>Routes\<close>

text \<open>
  A route matches everything (\<open>app.Use\<close>), what is under a prefix (\<open>app.Use\<close> with a prefix, \<open>app.Group\<close>),
  or a method and a path, which is joined from the prefix of its group and its own.
\<close>

datatype fpattern = Everywhere | Under string | At string string string

record 's froute =
  ro_pattern :: fpattern
  ro_handlers :: "('s, crm_app) fmiddleware list"
  ro_name :: "string option"

record 's fiber_lib =
  fl_recover :: "('s, crm_app) fmiddleware"
  fl_request_id :: "('s, crm_app) fmiddleware"
  fl_helmet :: "helmet_config \<Rightarrow> ('s, crm_app) fmiddleware"
  fl_static :: "('s, crm_app) fmiddleware"
  fl_match :: "fpattern \<Rightarrow> string \<Rightarrow> bool"
  fl_missing :: "'s crm_ctx \<Rightarrow> ferr"

definition endpoint :: "('s, 'a) fhandler \<Rightarrow> ('s, 'a) fmiddleware" where
  "endpoint h next = h"

definition use :: "('s, crm_app) fmiddleware \<Rightarrow> 's froute" where
  "use mw = \<lparr>ro_pattern = Everywhere, ro_handlers = [mw], ro_name = None\<rparr>"

definition group :: "string \<Rightarrow> ('s, crm_app) fmiddleware list \<Rightarrow> 's froute" where
  "group pre mws = \<lparr>ro_pattern = Under pre, ro_handlers = mws, ro_name = None\<rparr>"

definition named :: "string \<Rightarrow> string \<Rightarrow> string \<Rightarrow> string \<Rightarrow> ('s, crm_app) fmiddleware list \<Rightarrow> 's froute" where
  "named pre m path name hs = \<lparr>ro_pattern = At m pre path, ro_handlers = hs, ro_name = Some name\<rparr>"

definition join_path :: "string \<Rightarrow> string \<Rightarrow> string" where
  "join_path pre path =
     (let trim = (\<lambda>s. rev (dropWhile (\<lambda>ch. ch = CHR ''/'') (rev s)));
          full = trim pre @ ''/'' @ dropWhile (\<lambda>ch. ch = CHR ''/'') path in
      if 1 < length full then trim full else full)"

definition registered :: "'s froute list \<Rightarrow> (string \<times> string) list" where
  "registered rs = List.map_filter (\<lambda>r. case (ro_name r, ro_pattern r) of
     (Some n, At m pre path) \<Rightarrow> Some (n, join_path pre path) | _ \<Rightarrow> None) rs"

definition matches_route :: "'s fiber_lib \<Rightarrow> fpattern \<Rightarrow> 's crm_ctx \<Rightarrow> bool" where
  "matches_route FL p c =
     (case p of
        Everywhere \<Rightarrow> True
      | Under pre \<Rightarrow> fl_match FL p (fc_path c)
      | At m pre path \<Rightarrow> fc_method c = m \<and> fl_match FL p (fc_path c))"

text \<open>Routes in the order they were registered; \<open>c.Next\<close> of the last handler of one goes on to the next that matches.\<close>

fun run_routes :: "'s fiber_lib \<Rightarrow> 's froute list \<Rightarrow> 's crm_handler" where
  "run_routes FL [] c = (Some (fl_missing FL c), c)"
| "run_routes FL (r # rs) c =
     (if matches_route FL (ro_pattern r) c then foldr (\<lambda>h k. h k) (ro_handlers r) (run_routes FL rs) c
      else run_routes FL rs c)"

record 's crm_handlers =
  ch_home :: "'s crm_handler"
  ch_about :: "'s crm_handler"
  ch_login_form :: "'s crm_handler"
  ch_login :: "'s crm_handler"
  ch_logout :: "'s crm_handler"
  ch_lang :: "'s crm_handler"
  ch_profile :: "'s crm_handler"
  ch_menu_demo :: "'s crm_handler"
  ch_form :: "'s crm_handler"
  ch_form_submit :: "'s crm_handler"
  ch_health :: "'s crm_handler"
  ch_me :: "'s crm_handler"
  ch_stats :: "'s crm_handler"
  ch_admin :: "'s crm_handler"

definition crm_handlers_of :: "('s, 'e, 'b, 'm, 'f) crm_env \<Rightarrow> string \<Rightarrow> string \<Rightarrow> 's crm_handlers" where
  "crm_handlers_of K html slug_in =
     \<lparr>ch_home = home K, ch_about = about K html slug_in, ch_login_form = login_form K, ch_login = login K, ch_logout = logout K,
      ch_lang = switch_lang K, ch_profile = profile K, ch_menu_demo = menu_demo K, ch_form = form_demo K,
      ch_form_submit = form_demo_submit K, ch_health = api_health K, ch_me = api_me K, ch_stats = api_admin_stats K,
      ch_admin = admin_dashboard K\<rparr>"

definition casbin_guard :: "('s, 'e, 'b, 'm, 'f) crm_env \<Rightarrow> 's crm_handler \<Rightarrow> ('s, crm_app) fmiddleware" where
  "casbin_guard K forbidden = casbin_enforce_with (ce_casbin K) (ce_fiber K) (\<lambda>c. None)
     \<lparr>fb_manager = Some (ce_policy K), fb_subject = None, fb_object = None, fb_action = None, fb_forbidden = Some forbidden\<rparr>"

definition api_routes :: "('s, 'e, 'b, 'm, 'f) crm_env \<Rightarrow> 's crm_handlers \<Rightarrow> 's froute list" where
  "api_routes K H =
     (let logged_in = require_login (ce_fiber K) (Some api_unauthorized); casbin = casbin_guard K api_forbidden in
      [group ''/api'' [only_unsafe_methods (csrf_with_config (ce_fiber K) None)],
       named ''/api'' ''GET'' ''/health'' ''api.health'' [endpoint (ch_health H)],
       named ''/api'' ''GET'' ''/me'' ''api.me'' [logged_in, casbin, endpoint (ch_me H)],
       named ''/api'' ''GET'' ''/admin/stats'' ''api.admin.stats'' [logged_in, require_roles (ce_fiber K) [''admin''], endpoint (ch_stats H)]])"

definition minute :: int where
  "minute = 60 * 10 ^ 9"

definition web_routes :: "('s, 'e, 'b, 'm, 'f) crm_env \<Rightarrow> 's crm_handlers \<Rightarrow> 's froute list" where
  "web_routes K H =
     [named [] ''GET'' ''/'' ''home'' [endpoint (ch_home H)],
      named [] ''GET'' ''/about'' ''about'' [endpoint (ch_about H)],
      named [] ''GET'' ''/login'' ''auth.login'' [endpoint (ch_login_form H)],
      named [] ''POST'' ''/login'' ''auth.login.submit'' [login_rate_limit K (ce_login_limit K) minute, endpoint (ch_login H)],
      named [] ''POST'' ''/logout'' ''auth.logout'' [endpoint (ch_logout H)],
      named [] ''POST'' ''/lang'' ''lang.switch'' [endpoint (ch_lang H)],
      named [] ''GET'' ''/user'' ''user.profile'' [require_login (ce_fiber K) None, endpoint (ch_profile H)],
      named [] ''GET'' ''/demo/menu'' ''demo.menu'' [endpoint (ch_menu_demo H)],
      named [] ''GET'' ''/forms/demo'' ''formdemo.show'' [endpoint (ch_form H)],
      named [] ''POST'' ''/forms/demo'' ''formdemo.submit'' [endpoint (ch_form_submit H)]]"

definition admin_routes :: "('s, 'e, 'b, 'm, 'f) crm_env \<Rightarrow> 's crm_handlers \<Rightarrow> 's froute list" where
  "admin_routes K H =
     [group ''/admin'' [authorize (ce_fiber K) (Some is_admin) (Some (crm_forbidden K)), casbin_guard K (crm_forbidden K)],
      named ''/admin'' ''GET'' ''/'' ''admin.dashboard'' [endpoint (ch_admin H)]]"

definition crm_csrf :: "('s, 'e, 'b, 'm, 'f) crm_env \<Rightarrow> ('s, crm_app) fmiddleware" where
  "crm_csrf K = csrf_with_config (ce_fiber K) (Some \<lparr>fx_skip = None, fx_skip_paths = [], fx_error = Some (crm_csrf_error K)\<rparr>)"

definition crm_routes :: "('s, 'e, 'b, 'm, 'f) crm_env \<Rightarrow> 's fiber_lib \<Rightarrow> 's crm_handlers \<Rightarrow> 's froute list" where
  "crm_routes K FL H =
     [use (fl_recover FL), use (fl_request_id FL), use request_logger, use (fl_helmet FL (security_headers (ce_production K))),
      group ''/static'' [fl_static FL], use (attach_user (ce_fiber K))]
     @ api_routes K H @ [use (crm_csrf K)] @ web_routes K H @ admin_routes K H"

text \<open>A request: its routes, and the error handler where they end with an error; a panic that nobody recovers stays one.\<close>

definition crm_serve :: "('s, 'e, 'b, 'm, 'f) crm_env \<Rightarrow> 's fiber_lib \<Rightarrow> 's crm_handlers \<Rightarrow> 's crm_handler" where
  "crm_serve K FL H c =
     (case run_routes FL (crm_routes K FL H) c of
        (None, c1) \<Rightarrow> (None, c1)
      | (Some Panic_error, c1) \<Rightarrow> (Some Panic_error, c1)
      | (Some e, c1) \<Rightarrow>
          (case crm_error_handler K e c1 of
             (None, c2) \<Rightarrow> (None, c2)
           | (Some Panic_error, c2) \<Rightarrow> (Some Panic_error, c2)
           | (Some e2, c2) \<Rightarrow> (None, c_status 500 c2)))"

text \<open>The state \<open>newApp\<close> starts with, or the error that keeps it from starting; \<open>t0\<close> and \<open>t1\<close> are times.\<close>

definition new_crm_app ::
  "password_lib \<Rightarrow> string \<Rightarrow> string \<Rightarrow> int \<Rightarrow> (string + menu_record list) \<Rightarrow> int \<Rightarrow> int \<Rightarrow> gerr + user_store \<times> crm_app" where
  "new_crm_app P admin_password user_password login_limit answer t0 t1 =
     res_bind (new_user_store P admin_password user_password) (\<lambda>users.
       (case reload_menu answer t0 (new_menu_loader minute) of
          (Some e, l) \<Rightarrow> Inl (err_new ''menusvc'')
        | (None, l) \<Rightarrow>
            Inr (users, \<lparr>ca_limits = new_login_limits login_limit minute t1, ca_menu = l, ca_log = []\<rparr>)))"


section \<open>What a request leaves alone\<close>

abbreviation crm_steady :: "('s, 'e, 'b, 'm, 'f) crm_env \<Rightarrow> 's crm_ctx \<Rightarrow> 's crm_ctx \<Rightarrow> bool" where
  "crm_steady K \<equiv> steady (ce_fiber K) ca_limits"

definition crm_apart :: "('s, 'e, 'b, 'm, 'f) crm_env \<Rightarrow> bool" where
  "crm_apart K \<longleftrightarrow> sessions_apart (fe_sess (ce_fiber K))"

lemma menu_update_steady: "crm_steady K c (c\<lparr>fc_app := (fc_app c)\<lparr>ca_menu := l\<rparr>\<rparr>)"
  by (simp add: steady_def same_request_def user_ok_def stored_user_def auth_session_def get_user_from_request_def)

lemma menu_items_steady: "crm_menu_items K c = (items, c1) \<Longrightarrow> crm_steady K c c1"
  using menu_update_steady by (auto simp: crm_menu_items_def split: prod.splits)

lemma menu_for_steady: "crm_menu_for K c = (items, c1) \<Longrightarrow> crm_steady K c c1"
  by (auto simp: crm_menu_for_def fiber_build_menu_def split: prod.splits
      intro: steady_trans [OF menu_items_steady current_user_steady(1)])

lemma crm_render_steady:
  assumes "crm_apart K"
  shows "crm_steady K c (snd (crm_render K view d c))"
proof -
  obtain u c1 where u: "current_user (ce_fiber K) c = (u, c1)" by fastforce
  obtain menu c2 where m: "crm_menu_for K c1 = (menu, c2)" by fastforce
  have "crm_steady K c c2" by (rule steady_trans [OF current_user_steady(1) [OF u] menu_for_steady [OF m]])
  then have "crm_steady K c (c2\<lparr>fc_cache := ''no-store''\<rparr>)" by (rule steady_trans [OF _ steady_updates(11)])
  then have "crm_steady K c (snd (fiber_render (ce_fiber K) view m (c2\<lparr>fc_cache := ''no-store''\<rparr>)))" for m
    using steady_trans [OF _ render_steady] assms unfolding crm_apart_def by blast
  with u m show ?thesis by (simp add: crm_render_def Let_def)
qed

lemma status_text_steady: "steady E f c (snd (c_text s (c_status n c)))"
  by (rule steady_trans [OF steady_updates(1) steady_updates(2)])

lemma status_json_steady: "steady E f c (snd (c_json v (c_status n c)))"
  by (rule steady_trans [OF steady_updates(1) steady_updates(3)])

lemma error_page_steady:
  assumes "crm_apart K"
  shows "crm_steady K c (snd (case crm_render K view d (c_status n c) of
      (Some Panic_error, c1) \<Rightarrow> (Some Panic_error, c1) | (Some e, c1) \<Rightarrow> c_text s (c_status m c1) | (None, c1) \<Rightarrow> (None, c1)))"
proof -
  obtain e c1 where e: "crm_render K view d (c_status n c) = (e, c1)" by fastforce
  have "crm_steady K c c1"
    using steady_trans [OF steady_updates(1) [of "ce_fiber K" ca_limits c n] crm_render_steady [OF assms, of "c_status n c" view d]] e by simp
  with e steady_trans [OF this status_text_steady] show ?thesis by (auto split: option.split ferr.split)
qed

lemma render_error_steady:
  assumes "crm_apart K"
  shows "crm_steady K c (snd (render_error K code c))"
  using error_page_steady [OF assms] by (simp add: render_error_def Let_def status_text_steady status_json_steady)

lemma crm_error_steady: "crm_apart K \<Longrightarrow> crm_steady K c (snd (crm_error_handler K e c))"
  by (simp add: crm_error_handler_def render_error_steady)

lemma crm_forbidden_steady: "crm_apart K \<Longrightarrow> crm_steady K c (snd (crm_forbidden K c))"
  by (simp add: crm_forbidden_def render_error_steady)

lemma csrf_error_steady: "crm_apart K \<Longrightarrow> crm_steady K c (snd (crm_csrf_error K e c))"
  by (simp add: crm_csrf_error_def status_json_steady error_page_steady)

text \<open>The handlers other than \<open>Login\<close> and \<open>Logout\<close>.\<close>

lemma set_flash_crm_steady: "crm_apart K \<Longrightarrow> crm_steady K c (snd (set_flash (ce_fiber K) key m url code c))"
  by (simp add: crm_apart_def set_flash_steady)

lemma login_form_steady: "crm_apart K \<Longrightarrow> crm_steady K c (snd (login_form K c))"
  by (auto simp: login_form_def Let_def split: prod.splits bool.splits
      intro: steady_trans [OF is_authenticated_steady(1) steady_updates(4)] steady_trans [OF is_authenticated_steady(1) crm_render_steady])

lemma switch_lang_steady: "crm_apart K \<Longrightarrow> crm_steady K c (snd (switch_lang K c))"
  unfolding crm_apart_def
  by (auto simp: switch_lang_def Let_def set_flash_steady split: prod.splits option.splits
      intro: set_lang_steady steady_trans [OF set_lang_steady set_flash_steady])

lemma menu_demo_steady:
  assumes "crm_apart K"
  shows "crm_steady K c (snd (menu_demo K c))"
proof -
  obtain items c1 where 1: "crm_menu_items K c = (items, c1)" by fastforce
  obtain shown c2 where 2: "crm_menu_for K c1 = (shown, c2)" by fastforce
  obtain u c3 where 3: "current_user (ce_fiber K) c2 = (u, c3)" by fastforce
  have "crm_steady K c c3"
    by (rule steady_trans [OF menu_items_steady [OF 1] steady_trans [OF menu_for_steady [OF 2] current_user_steady(1) [OF 3]]])
  with 1 2 3 show ?thesis using steady_trans [OF _ crm_render_steady [OF assms]] by (simp add: menu_demo_def Let_def)
qed

lemma form_demo_steady:
  assumes "crm_apart K"
  shows "crm_steady K c (snd (form_demo K c))"
  using assms steady_trans [OF flash_fn_steady crm_render_steady [OF assms]]
  by (auto simp: form_demo_def Let_def crm_apart_def split: option.split)

lemma form_demo_submit_steady:
  assumes "crm_apart K"
  shows "crm_steady K c (snd (form_demo_submit K c))"
proof -
  note S = assms [unfolded crm_apart_def]
  have p: "steady (ce_fiber K) ca_limits c (fiber_set_old_inputs form c)" for form
    using steady_updates(8) [of "ce_fiber K" ca_limits c "\<lambda>_. Some form"] by (simp add: fiber_set_old_inputs_def)
  show ?thesis
    using set_flash_steady [OF S] p
    by (auto simp: form_demo_submit_def Let_def split: prod.splits sum.splits option.splits
        intro: steady_trans [OF p add_flash_steady [OF S]] steady_trans [OF p steady_trans [OF add_flash_steady [OF S] set_flash_steady [OF S]]])
qed

lemma api_me_steady: "crm_steady K c (snd (api_me K c))"
proof -
  obtain u c1 where 1: "current_user (ce_fiber K) c = (u, c1)" by fastforce
  obtain u2 c2 where 2: "current_user (ce_fiber K) c1 = (u2, c2)" by fastforce
  obtain u3 c3 where 3: "current_user (ce_fiber K) c2 = (u3, c3)" by fastforce
  have "crm_steady K c c3"
    by (rule steady_trans [OF current_user_steady(1) [OF 1] steady_trans [OF current_user_steady(1) [OF 2] current_user_steady(1) [OF 3]]])
  with 1 2 3 steady_trans [OF this steady_updates(3)] show ?thesis by (simp add: api_me_def fiber_can_def Let_def)
qed


section \<open>Who may change the user of a session\<close>

definition posted :: "('s, 'e, 'b, 'm, 'f) crm_env \<Rightarrow> string \<Rightarrow> 's crm_ctx \<Rightarrow> string" where
  "posted K key c = form_string key (fm_data (fiber_form c :: ('f, unit) form))"

definition login_accepted :: "('s, 'e, 'b, 'm, 'f) crm_env \<Rightarrow> 's crm_ctx \<Rightarrow> bool" where
  "login_accepted K c \<longleftrightarrow>
     (\<exists>u. map_of (us_users (ce_users K)) (posted K ''username'' c) = Some u
        \<and> pw_check (ce_password K) (cu_hash u) (posted K ''password'' c))"

text \<open>What the limiter answers to the attempt of this request, at the times it is made.\<close>

definition attempt_granted :: "('s, 'e, 'b, 'm, 'f) crm_env \<Rightarrow> int \<Rightarrow> int \<Rightarrow> 's crm_ctx \<Rightarrow> bool" where
  "attempt_granted K mx window c \<longleftrightarrow> unlimited mx window
     \<or> fst (limit_try (attempt_of K (fc_ip c)) (ca_limits (fc_app c))) = Inr True"

lemma crm_validate_data: "crm_validate K rules msgs f = (f1, ok) \<Longrightarrow> fm_data f1 = fm_data f"
  by (auto simp: crm_validate_def form_validate_map_def split: prod.splits)

lemma posted_request:
  assumes "same_request c d"
  shows "posted K key d = posted K key c"
proof -
  have "fiber_form_values d = fiber_form_values c"
    using assms by (auto simp: same_request_def fiber_form_values_def c_get_def Let_def split: option.split)
  then show ?thesis by (simp add: posted_def fiber_form_def)
qed

lemma login_moves:
  assumes K: "crm_apart K"
  shows "moves (ce_fiber K) (login_accepted K) (login K)"
  unfolding moves_def
proof (intro allI impI, rule ccontr)
  fix c
  assume moved: "auth_session (ce_fiber K) (snd (login K c)) \<noteq> auth_session (ce_fiber K) c" and no: "\<not> login_accepted K c"
  note S = K [unfolded crm_apart_def]
  have p: "crm_steady K c (fiber_set_old_inputs form c)" for form
    using steady_updates(8) [of "ce_fiber K" ca_limits c "\<lambda>_. Some form"] by (simp add: fiber_set_old_inputs_def)
  obtain f ok where v: "crm_validate K login_rules None (fiber_form c) = (f, ok)" by fastforce
  have data: "form_string key (fm_data f) = posted K key c" for key
    using crm_validate_data [OF v] by (simp add: posted_def)
  have "authenticate (ce_password K) (ce_users K) (posted K ''username'' c) (posted K ''password'' c) = None"
    using no by (auto simp: login_accepted_def authenticate_def split: option.split)
  then have "crm_steady K c (snd (login K c))"
    using steady_trans [OF p set_flash_steady [OF S]] v data by (simp add: login_def Let_def)
  with moved show False by (simp add: steady_auth)
qed

lemma set_limits_same:
  "same_request c (set_limits l c)" "auth_session E (set_limits l c) = auth_session E c" "user_ok E (set_limits l c) = user_ok E c"
  by (simp_all add: set_limits_def same_request_def auth_session_def user_ok_def stored_user_def)

lemma limited_login_moves:
  assumes "crm_apart K"
  shows "moves (ce_fiber K) (\<lambda>c. login_accepted K c \<and> attempt_granted K mx window c)
    (\<lambda>c. if fc_method c = ''POST'' then login_rate_limit K mx window (login K) c else (e, c))"
  unfolding moves_def
proof (intro allI impI)
  fix c
  assume ok: "user_ok (ce_fiber K) c"
    and moved: "auth_session (ce_fiber K) (snd (if fc_method c = ''POST'' then login_rate_limit K mx window (login K) c else (e, c)))
      \<noteq> auth_session (ce_fiber K) c"
  note login = login_moves [OF assms, unfolded moves_def, rule_format]
  have post: "fc_method c = ''POST''" using moved by (auto split: if_splits)
  show "login_accepted K c \<and> attempt_granted K mx window c"
  proof (cases "unlimited mx window")
    case True
    with moved post login [OF ok] show ?thesis by (auto simp: login_rate_limit_def attempt_granted_def)
  next
    case False
    obtain a l where a: "limit_try (attempt_of K (fc_ip c)) (ca_limits (fc_app c)) = (a, l)" by fastforce
    have "a = Inr True \<and> auth_session (ce_fiber K) (snd (login K (set_limits l c))) \<noteq> auth_session (ce_fiber K) c"
      using moved post False a set_limits_same(2) [of "ce_fiber K" l c]
      by (auto simp: login_rate_limit_def split: sum.splits bool.splits)
    then have "login_accepted K (set_limits l c)" "a = Inr True"
      using login [of "set_limits l c"] ok set_limits_same(2,3) by metis+
    moreover have "fst (limit_try (attempt_of K (fc_ip c)) (ca_limits (fc_app c))) = Inr True" using a \<open>a = Inr True\<close> by simp
    ultimately show ?thesis
      unfolding attempt_granted_def by (auto simp: login_accepted_def posted_request [OF set_limits_same(1)])
  qed
qed

text \<open>Chains of routes.\<close>

fun route_chain :: "'s fiber_lib \<Rightarrow> 's froute list \<Rightarrow> 's crm_handler \<Rightarrow> 's crm_handler" where
  "route_chain FL [] k = k"
| "route_chain FL (r # rs) k =
     (\<lambda>c. if matches_route FL (ro_pattern r) c then foldr (\<lambda>h n. h n) (ro_handlers r) (route_chain FL rs k) c else route_chain FL rs k c)"

lemma run_routes_chain: "run_routes FL rs = route_chain FL rs (\<lambda>c. (Some (fl_missing FL c), c))"
  by (induction rs) (auto intro!: ext)

lemma route_chain_append: "route_chain FL (xs @ ys) k = route_chain FL xs (route_chain FL ys k)"
  by (induction xs) (auto intro!: ext)

definition route_moves :: "'s fiber_env \<Rightarrow> 's fiber_lib \<Rightarrow> ('s crm_ctx \<Rightarrow> bool) \<Rightarrow> 's froute \<Rightarrow> bool" where
  "route_moves E FL G r \<longleftrightarrow>
     (\<forall>k. moves E G k \<longrightarrow> moves E G (\<lambda>c. if matches_route FL (ro_pattern r) c then foldr (\<lambda>h n. h n) (ro_handlers r) k c else k c))"

lemma chain_moves: "list_all (route_moves E FL G) rs \<Longrightarrow> moves E G k \<Longrightarrow> moves E G (route_chain FL rs k)"
  by (induction rs) (simp_all add: route_moves_def)

lemma moves_if: "moves E G h \<Longrightarrow> moves E G k \<Longrightarrow> moves E G (\<lambda>c. if b c then h c else k c)"
  by (auto simp: moves_def)

lemma transparent_route_moves:
  "list_all (transparent E ca_limits) (ro_handlers r) \<Longrightarrow> backed E ca_limits G \<Longrightarrow> route_moves E FL G r"
proof -
  assume t: "list_all (transparent E ca_limits) (ro_handlers r)" and G: "backed E ca_limits G"
  have "moves E G k \<Longrightarrow> moves E G (foldr (\<lambda>h n. h n) hs k)" if "list_all (transparent E ca_limits) hs" for hs k
    using that by (induction hs) (auto intro: transparent_moves [OF _ _ G])
  with t show ?thesis by (simp add: route_moves_def moves_if)
qed

lemma endpoint_route_moves:
  assumes "list_all (transparent E ca_limits) mws" "moves E G h" "backed E ca_limits G"
  shows "route_moves E FL G (named pre m path name (mws @ [endpoint h]))"
proof -
  have "moves E G (foldr (\<lambda>h n. h n) hs h)" if "list_all (transparent E ca_limits) hs" for hs
    using that assms(2) by (induction hs) (auto intro: transparent_moves [OF _ _ assms(3)])
  with assms(1) show ?thesis by (simp add: route_moves_def named_def endpoint_def moves_if)
qed


text \<open>The application's own middlewares and guards.\<close>

lemma request_logger_transparent:
  fixes E :: "'s fiber_env"
  shows "transparent E ca_limits request_logger"
  unfolding transparent_def
proof (intro conjI allI impI)
  fix k :: "'s crm_handler" and c :: "'s crm_ctx"
  assume "user_ok E c"
  have "auth_session E (snd (request_logger k c)) = auth_session E (snd (k c))"
    by (auto simp: request_logger_def auth_session_def Let_def split: prod.split option.split ferr.split)
  then show "\<exists>d. steady E ca_limits c d \<and> auth_session E (snd (request_logger k c)) \<in> {auth_session E c, auth_session E (snd (k d))}"
    by (intro exI [of _ c]) simp
qed (simp add: request_logger_def)

lemma only_unsafe_transparent:
  assumes "transparent E f mw"
  shows "transparent E f (only_unsafe_methods mw)"
  using assms unfolding transparent_def only_unsafe_methods_def
  by (auto split: if_splits) (metis steady_refl)+

text \<open>What the application relies on in Fiber's middlewares and in its matching of groups.\<close>

definition fiber_lib_ok :: "('s, 'e, 'b, 'm, 'f) crm_env \<Rightarrow> 's fiber_lib \<Rightarrow> bool" where
  "fiber_lib_ok K FL \<longleftrightarrow>
     (\<forall>mw\<in>{fl_recover FL, fl_request_id FL, fl_helmet FL (security_headers (ce_production K)), fl_static FL}.
        transparent (ce_fiber K) ca_limits mw) \<and>
     (\<forall>m pre path p. fl_match FL (At m pre path) p \<longrightarrow> fl_match FL (Under pre) p)"

lemma crm_csrf_guarded:
  assumes "crm_apart K"
  shows "guarded (ce_fiber K) ca_limits (\<lambda>c. is_csrf_safe_method (fc_method c) \<or> csrf_checked (ce_fiber K) c) (crm_csrf K)"
  unfolding crm_csrf_def
  by (rule csrf_guarded [OF assms [unfolded crm_apart_def] refl]) (auto simp: csrf_error_steady [OF assms])

lemma api_csrf_transparent:
  assumes "crm_apart K"
  shows "transparent (ce_fiber K) ca_limits (only_unsafe_methods (csrf_with_config (ce_fiber K) None))"
  by (rule only_unsafe_transparent, rule guarded_transparent, rule csrf_guarded [OF assms [unfolded crm_apart_def] refl])
     (simp_all add: no_csrf_config_def)

lemma casbin_guard_guarded:
  assumes "\<And>c. crm_steady K c (snd (h c))"
  shows "guarded (ce_fiber K) ca_limits (casbin_allows (ce_casbin K) (ce_fiber K) (ce_policy K)) (casbin_guard K h)"
  unfolding casbin_guard_def by (rule casbin_guarded) (simp_all add: or_default_def assms)

lemma api_unauthorized_steady: "steady E f c (snd (api_unauthorized c))"
  by (simp add: api_unauthorized_def status_json_steady)

lemma api_forbidden_steady: "steady E f c (snd (api_forbidden c))"
  by (simp add: api_forbidden_def status_json_steady)

lemma roles_guarded:
  "guarded E f (\<lambda>c. \<exists>u. stored_user E c = Some u \<and> list_ex (has_role (web_user_of (Some u))) roles) (require_roles E roles)"
  unfolding require_roles_def require_roles_with_def by (rule authorize_guarded) simp

lemma admin_guarded:
  assumes "crm_apart K"
  shows "guarded (ce_fiber K) ca_limits (\<lambda>c. \<exists>u. stored_user (ce_fiber K) c = Some u \<and> is_admin (web_user_of (Some u)))
    (authorize (ce_fiber K) (Some is_admin) (Some (crm_forbidden K)))"
  by (rule authorize_guarded) (auto simp: crm_forbidden_steady [OF assms])


text \<open>Where the handlers \<open>Login\<close> and \<open>Logout\<close> may change the user.\<close>

definition login_or_logout :: "('s, 'e, 'b, 'm, 'f) crm_env \<Rightarrow> 's fiber_lib \<Rightarrow> 's crm_ctx \<Rightarrow> bool" where
  "login_or_logout K FL c \<longleftrightarrow> fc_method c = ''POST'' \<and>
     (fl_match FL (At ''POST'' [] ''/logout'') (fc_path c) \<or>
      fl_match FL (At ''POST'' [] ''/login'') (fc_path c) \<and> login_accepted K c \<and> attempt_granted K (ce_login_limit K) minute c)"

lemma login_or_logout_backed: "backed (ce_fiber K) ca_limits (login_or_logout K FL)"
  unfolding backed_def
proof (intro allI impI)
  fix c d
  assume s: "crm_steady K c d" and d: "login_or_logout K FL d"
  have "same_request c d" "ca_limits (fc_app d) = ca_limits (fc_app c)" using s by (simp_all add: steady_def)
  with d posted_request [of c d K] show "login_or_logout K FL c"
    by (auto simp: login_or_logout_def login_accepted_def attempt_granted_def same_request_def)
qed

lemma checked_backed:
  assumes "backed E f G"
  shows "backed E f (\<lambda>c. csrf_checked E c \<and> G c)"
  using assms unfolding backed_def
proof (intro allI impI)
  fix c d
  assume G: "\<forall>c d. steady E f c d \<longrightarrow> G d \<longrightarrow> G c" and s: "steady E f c d" and d: "csrf_checked E d \<and> G d"
  with d G s steady_checked [OF s] show "csrf_checked E c \<and> G c" by auto
qed

lemma plain_route_moves:
  "(\<And>c. crm_steady K c (snd (h c))) \<Longrightarrow> route_moves (ce_fiber K) FL (login_or_logout K FL) (named pre m path name [endpoint h])"
  by (rule endpoint_route_moves [where mws = "[]", simplified]) (auto intro: login_or_logout_backed steady_moves)

lemma login_route_moves:
  assumes "crm_apart K"
  shows "route_moves (ce_fiber K) FL (login_or_logout K FL)
    (named [] ''POST'' ''/login'' name [login_rate_limit K (ce_login_limit K) minute, endpoint (login K)])"
  unfolding route_moves_def
proof (intro allI impI)
  fix k
  assume k: "moves (ce_fiber K) (login_or_logout K FL) k"
  note login = limited_login_moves [OF assms, of "ce_login_limit K" minute None, unfolded moves_def, rule_format]
  show "moves (ce_fiber K) (login_or_logout K FL)
    (\<lambda>c. if matches_route FL (ro_pattern (named [] ''POST'' ''/login'' name [login_rate_limit K (ce_login_limit K) minute, endpoint (login K)])) c
      then foldr (\<lambda>h n. h n) (ro_handlers (named [] ''POST'' ''/login'' name [login_rate_limit K (ce_login_limit K) minute, endpoint (login K)])) k c
      else k c)"
    unfolding moves_def
  proof (intro allI impI)
    fix c
    assume ok: "user_ok (ce_fiber K) c" and moved: "auth_session (ce_fiber K)
      (snd (if matches_route FL (ro_pattern (named [] ''POST'' ''/login'' name [login_rate_limit K (ce_login_limit K) minute, endpoint (login K)])) c
        then foldr (\<lambda>h n. h n) (ro_handlers (named [] ''POST'' ''/login'' name [login_rate_limit K (ce_login_limit K) minute, endpoint (login K)])) k c
        else k c)) \<noteq> auth_session (ce_fiber K) c"
    show "login_or_logout K FL c"
    proof (cases "fc_method c = ''POST'' \<and> fl_match FL (At ''POST'' [] ''/login'') (fc_path c)")
      case True
      with moved login [OF ok] show ?thesis
        by (simp add: named_def matches_route_def endpoint_def login_or_logout_def)
    next
      case False
      with moved have "auth_session (ce_fiber K) (snd (k c)) \<noteq> auth_session (ce_fiber K) c"
        by (simp add: named_def matches_route_def del: foldr.simps split: if_splits)
      with k ok show ?thesis by (simp add: moves_def)
    qed
  qed
qed

lemma logout_route_moves:
  "route_moves (ce_fiber K) FL (login_or_logout K FL) (named [] ''POST'' ''/logout'' name [endpoint (logout K)])"
  by (auto simp: route_moves_def moves_def named_def matches_route_def endpoint_def login_or_logout_def split: if_splits)

lemma protected_route_moves:
  assumes "list_all (transparent (ce_fiber K) ca_limits) mws" "\<And>c. crm_steady K c (snd (h c))"
  shows "route_moves (ce_fiber K) FL (login_or_logout K FL) (named pre m path name (mws @ [endpoint h]))"
  using endpoint_route_moves [OF assms(1) _ login_or_logout_backed] assms(2) steady_moves by metis

lemma inner_routes_move:
  assumes K: "crm_apart K"
  shows "list_all (route_moves (ce_fiber K) FL (login_or_logout K FL))
    (web_routes K (crm_handlers_of K html slug_in) @ admin_routes K (crm_handlers_of K html slug_in))"
proof -
  have user: "route_moves (ce_fiber K) FL (login_or_logout K FL) (named [] ''GET'' ''/user'' ''user.profile'' [require_login (ce_fiber K) None, endpoint (profile K)])"
  proof -
    have "transparent (ce_fiber K) ca_limits (require_login (ce_fiber K) None)"
      by (rule guarded_transparent, rule require_login_guarded) simp
    then show ?thesis
      using protected_route_moves [of K "[require_login (ce_fiber K) None]" "profile K"] crm_render_steady [OF K]
      by (simp add: profile_def)
  qed
  have group: "route_moves (ce_fiber K) FL (login_or_logout K FL)
      (group ''/admin'' [authorize (ce_fiber K) (Some is_admin) (Some (crm_forbidden K)), casbin_guard K (crm_forbidden K)])"
    by (rule transparent_route_moves [OF _ login_or_logout_backed])
       (simp add: group_def guarded_transparent [OF admin_guarded [OF K]] guarded_transparent [OF casbin_guard_guarded [OF crm_forbidden_steady [OF K]]])
  have dash: "crm_steady K c (snd (admin_dashboard K c))" for c
    using crm_render_steady [OF K] by (simp add: admin_dashboard_def split: sum.split)
  show ?thesis
    using K
    by (simp add: web_routes_def admin_routes_def crm_handlers_of_def Let_def login_route_moves logout_route_moves user group dash
        plain_route_moves home_def about_def profile_def crm_render_steady login_form_steady switch_lang_steady menu_demo_steady
        form_demo_steady form_demo_submit_steady)
qed


lemma outer_routes_move:
  assumes K: "crm_apart K" and FL: "fiber_lib_ok K FL" and G: "backed (ce_fiber K) ca_limits G"
  shows "list_all (route_moves (ce_fiber K) FL G)
    ([use (fl_recover FL), use (fl_request_id FL), use request_logger, use (fl_helmet FL (security_headers (ce_production K))),
      group ''/static'' [fl_static FL], use (attach_user (ce_fiber K))] @ api_routes K (crm_handlers_of K html slug_in))"
proof -
  have one: "route_moves (ce_fiber K) FL G (use mw)" "route_moves (ce_fiber K) FL G (group pre [mw])"
    if "transparent (ce_fiber K) ca_limits mw" for mw pre
    using that transparent_route_moves [OF _ G] by (simp_all add: use_def group_def)
  have login: "transparent (ce_fiber K) ca_limits (require_login (ce_fiber K) (Some api_unauthorized))"
    by (rule guarded_transparent, rule require_login_guarded) (auto simp: api_unauthorized_steady)
  have casbin: "transparent (ce_fiber K) ca_limits (casbin_guard K api_forbidden)"
    by (rule guarded_transparent [OF casbin_guard_guarded [OF api_forbidden_steady]])
  have roles: "transparent (ce_fiber K) ca_limits (require_roles (ce_fiber K) [''admin''])"
    by (rule guarded_transparent [OF roles_guarded])
  have me: "route_moves (ce_fiber K) FL G (named ''/api'' ''GET'' p n [require_login (ce_fiber K) (Some api_unauthorized), casbin_guard K api_forbidden, endpoint (api_me K)])" for p n
    using endpoint_route_moves [of "ce_fiber K" "[require_login (ce_fiber K) (Some api_unauthorized), casbin_guard K api_forbidden]" G "api_me K", OF _ _ G]
      steady_moves [of "ce_fiber K" ca_limits "api_me K"] api_me_steady [of K] by (simp add: login casbin)
  have "crm_steady K c (snd (api_admin_stats K c))" for c
    by (simp add: api_admin_stats_def split: sum.split)
  then have stats: "route_moves (ce_fiber K) FL G (named ''/api'' ''GET'' p n [require_login (ce_fiber K) (Some api_unauthorized), require_roles (ce_fiber K) [''admin''], endpoint (api_admin_stats K)])" for p n
    using endpoint_route_moves [of "ce_fiber K" "[require_login (ce_fiber K) (Some api_unauthorized), require_roles (ce_fiber K) [''admin'']]" G "api_admin_stats K", OF _ _ G]
      steady_moves [of "ce_fiber K" ca_limits "api_admin_stats K"] by (simp add: login roles)
  have "crm_steady K c (snd (api_health K c))" for c by (simp add: api_health_def)
  then have health: "route_moves (ce_fiber K) FL G (named ''/api'' ''GET'' p n [endpoint (api_health K)])" for p n
    using endpoint_route_moves [of "ce_fiber K" "[]" G "api_health K", OF _ _ G] steady_moves [of "ce_fiber K" ca_limits "api_health K"] by simp
  from FL show ?thesis
    by (simp add: api_routes_def crm_handlers_of_def Let_def fiber_lib_ok_def one request_logger_transparent
        guarded_transparent [OF attach_user_guarded] api_csrf_transparent [OF K] me stats health)
qed

text \<open>The error handler leaves the user alone.\<close>

lemma serve_auth:
  assumes K: "crm_apart K" and r: "run_routes FL (crm_routes K FL H) c = (e2, c2)" and run: "crm_serve K FL H c = (e, c1)"
  shows "auth_session (ce_fiber K) c1 = auth_session (ce_fiber K) c2"
proof (cases "e2 = None \<or> e2 = Some Panic_error")
  case True
  with r run show ?thesis by (auto simp: crm_serve_def)
next
  case False
  then obtain x where x: "e2 = Some x" "x \<noteq> Panic_error" by auto
  obtain e3 c3 where h: "crm_error_handler K x c2 = (e3, c3)" by fastforce
  have "crm_steady K c2 c3" using crm_error_steady [OF K, of c2 x] h by simp
  then have "auth_session (ce_fiber K) c3 = auth_session (ce_fiber K) c2" by (rule steady_auth)
  moreover have "c1 = c3 \<or> c1 = c_status 500 c3"
    using r run x h by (cases x; cases e3) (auto simp: crm_serve_def split: ferr.splits)
  ultimately show ?thesis by (auto simp: auth_session_def c_status_def)
qed

text \<open>
  (C37) Whatever the request and whatever the sessions hold: the user of the session changes only in a request
  with the method \<open>POST\<close> whose CSRF token, which is not empty, is the one its session holds (where the session
  holds none, the one that this very request draws for it), and which either matches the route of \<open>Logout\<close>, or
  matches that of \<open>Login\<close>, is granted its attempt by the limiter of its address at the times the attempt is
  made, and carries the name of a user of the store and a password that fits this user's hash. It is assumed
  that sessions of different names do not disturb each other, that Fiber's own middlewares go on to the
  handler at most with what they leave alone, and that what the request already knows of its user is right.
\<close>

theorem login_needs_password:
  assumes K: "crm_apart K" and FL: "fiber_lib_ok K FL" and c: "user_ok (ce_fiber K) c"
    and run: "crm_serve K FL (crm_handlers_of K html slug_in) c = (e, c1)"
    and moved: "auth_session (ce_fiber K) c1 \<noteq> auth_session (ce_fiber K) c"
  shows "csrf_checked (ce_fiber K) c \<and> login_or_logout K FL c"
proof -
  let ?E = "ce_fiber K" and ?H = "crm_handlers_of K html slug_in"
  let ?G = "\<lambda>c. csrf_checked ?E c \<and> login_or_logout K FL c"
  let ?missing = "\<lambda>c. (Some (fl_missing FL c), c)"
  have G: "backed ?E ca_limits ?G" by (rule checked_backed [OF login_or_logout_backed])
  have "moves ?E (login_or_logout K FL) (route_chain FL (web_routes K ?H @ admin_routes K ?H) ?missing)"
    by (rule chain_moves [OF inner_routes_move [OF K]]) (simp add: moves_def)
  from guarded_moves [OF crm_csrf_guarded [OF K] this login_or_logout_backed]
  have "moves ?E ?G (crm_csrf K (route_chain FL (web_routes K ?H @ admin_routes K ?H) ?missing))"
    by (rule moves_mono) (auto simp: login_or_logout_def is_csrf_safe_method_def)
  then have inner: "moves ?E ?G (route_chain FL (use (crm_csrf K) # web_routes K ?H @ admin_routes K ?H) ?missing)"
    by (simp add: use_def matches_route_def)
  have "moves ?E ?G (run_routes FL (crm_routes K FL ?H))"
    using chain_moves [OF outer_routes_move [OF K FL G] inner] unfolding crm_routes_def run_routes_chain
    by (simp only: route_chain_append [symmetric] append_assoc append_Cons append_Nil)
  moreover obtain e2 c2 where r: "run_routes FL (crm_routes K FL ?H) c = (e2, c2)" by fastforce
  moreover have "auth_session ?E c1 = auth_session ?E c2"
    by (rule serve_auth [OF K r run])
  ultimately show ?thesis using moved c unfolding moves_def by (metis snd_conv)
qed


text \<open>The application with sessions in memory, where an administrator is logged in; a hash is the password backwards.\<close>

definition demo_fiber :: "(string \<times> sess_vals) list fiber_env" where
  "demo_fiber = \<lparr>fe_sess = demo_session_lib, fe_random = (\<lambda>n. Inr ''ab''), fe_marshal = (\<lambda>v. Inr ''user''), fe_unmarshal = (\<lambda>s. if s = ''user'' then Some (VMap [(''role'', VStr ''admin'')]) else None),
     fe_old_marshal = (\<lambda>m. Inr []), fe_old_unmarshal = (\<lambda>s. None), fe_old_limits = default_old_limits, fe_patterns = default_sensitive_patterns,
     fe_parse_float = (\<lambda>s. None), fe_can = None, fe_view = (\<lambda>v d. View_end (Inr v))\<rparr>"

definition demo_crm :: "((string \<times> sess_vals) list, string list list, string list list, unit, int) crm_env" where
  "demo_crm = \<lparr>ce_fiber = demo_fiber,
     ce_users = \<lparr>us_users = [(''ada'', \<lparr>cu_id = 1, cu_username = ''ada'', cu_name = ''Ada'', cu_role = ''admin'', cu_hash = ''cba''\<rparr>)], us_dummy = []\<rparr>,
     ce_password = \<lparr>pw_hash = (\<lambda>p. Inr (rev p)), pw_check = (\<lambda>h p. h = rev p)\<rparr>,
     ce_casbin = demo_casbin, ce_policy = \<lparr>pm_enforcer = [[''admin'', ''/admin'', ''GET'']], pm_load = None, pm_last = 0\<rparr>,
     ce_langs = [''tr'', ''en''], ce_env_name = ''test'', ce_production = False, ce_login_limit = 5,
     ce_url = \<lparr>ul_parse = (\<lambda>s. Inl (err_new s)), ul_string = (\<lambda>u. [])\<rparr>, ce_routes = Map.empty, ce_sprint = (\<lambda>v. []),
     ce_translate = (\<lambda>ls key d. key), ce_rules = demo_rules, ce_messages = Map.empty, ce_clock = (\<lambda>n s. int n), ce_attempt = int,
     ce_menu_records = (\<lambda>s. Inr []), ce_year = (\<lambda>s. 2024), ce_uptime = (\<lambda>s. []), ce_now_text = (\<lambda>s. []), ce_reload_text = (\<lambda>t. []),
     ce_status_text = (\<lambda>n. []), ce_encode_errors = (\<lambda>m. Inr []), ce_decode_errors = (\<lambda>s. None), ce_title_tr = (\<lambda>s. s), ce_ascii = (\<lambda>s. s)\<rparr>"

text \<open>Fiber with middlewares that only go on, and paths that match literally.\<close>

definition demo_fiber_lib :: "(string \<times> sess_vals) list fiber_lib" where
  "demo_fiber_lib = \<lparr>fl_recover = (\<lambda>h. h), fl_request_id = (\<lambda>h. h), fl_helmet = (\<lambda>cfg h. h), fl_static = (\<lambda>h. h),
     fl_match = (\<lambda>p path. case p of Everywhere \<Rightarrow> True | Under pre \<Rightarrow> has_prefix pre path
       | At m pre rest \<Rightarrow> has_prefix pre path \<and> join_path pre rest = path),
     fl_missing = (\<lambda>c. Fiber_error 404 ''not found'')\<rparr>"

definition demo_visit :: "string \<Rightarrow> string \<Rightarrow> ((string \<times> sess_vals) list, crm_app) fctx" where
  "demo_visit m path = \<lparr>fc_method = m, fc_path = path, fc_url = path, fc_ip = ''10.0.0.1'', fc_header = [],
     fc_query = (\<lambda>k. []), fc_form_value = (\<lambda>k. if k = csrf_field_name then ''t'' else []),
     fc_post_args = [], fc_multipart = None, fc_body = [], fc_url_err = None,
     fc_user = None, fc_auth = None, fc_csrf = None, fc_pending = None, fc_persisted = False, fc_old_cache = None,
     fc_status = 200, fc_type = [], fc_location = [], fc_cache = [], fc_out = No_body,
     fc_sess = [(csrf_session_name, [(csrf_key, VStr ''t'')]), (auth_session_name, [(user_key_json, VStr ''user'')])],
     fc_app = \<lparr>ca_limits = new_login_limits 5 minute 0, ca_menu = new_menu_loader minute, ca_log = []\<rparr>\<rparr>"

lemma demo_apart: "crm_apart demo_crm"
  by (auto simp: crm_apart_def sessions_apart_def demo_crm_def demo_fiber_def demo_session_lib_def update_conv')

lemma demo_fiber_lib_ok: "fiber_lib_ok demo_crm demo_fiber_lib"
proof -
  have "transparent E f (\<lambda>h. h)" for E :: "(string \<times> sess_vals) list fiber_env" and f :: "crm_app \<Rightarrow> login_limits"
    unfolding transparent_def using steady_refl by blast
  then show ?thesis by (simp add: fiber_lib_ok_def demo_fiber_lib_def)
qed

lemma demo_user_ok: "user_ok (ce_fiber demo_crm) (demo_visit m path)"
  by (simp add: user_ok_def demo_visit_def get_user_from_request_def)


lemma demo_logs_out:
  "auth_session (ce_fiber demo_crm) (snd (crm_serve demo_crm demo_fiber_lib (crm_handlers_of demo_crm [] []) (demo_visit ''POST'' ''/logout''))) = Inr []"
  by code_simp

lemma login_needs_password_witness:
  "csrf_checked (ce_fiber demo_crm) (demo_visit ''POST'' ''/logout'') \<and> login_or_logout demo_crm demo_fiber_lib (demo_visit ''POST'' ''/logout'')"
proof -
  obtain e c1 where run: "crm_serve demo_crm demo_fiber_lib (crm_handlers_of demo_crm [] []) (demo_visit ''POST'' ''/logout'') = (e, c1)" by fastforce
  have "auth_session (ce_fiber demo_crm) (demo_visit ''POST'' ''/logout'') = Inr [(''userjson'', VStr ''user'')]" by code_simp
  then show ?thesis
    using login_needs_password [OF demo_apart demo_fiber_lib_ok demo_user_ok run] demo_logs_out run by simp
qed

end
