(* ===== verification/Crm_Access.thy ===== *)
theory Crm_Access
  imports Crm
begin

text \<open>
  What the guards of the routes of \<open>cmd/crm\<close> keep apart: the handlers of the pages and answers that are not
  for everyone can only matter to a request whose session holds a user with the role and the permission.
\<close>

section \<open>Chains that differ in a handler\<close>

definition route_differ :: "'s fiber_env \<Rightarrow> 's fiber_lib \<Rightarrow> ('s crm_ctx \<Rightarrow> bool) \<Rightarrow> 's froute \<Rightarrow> 's froute \<Rightarrow> bool" where
  "route_differ E FL G r r' \<longleftrightarrow>
     (\<forall>k k'. differ E G k k' \<longrightarrow> differ E G
        (\<lambda>c. if matches_route FL (ro_pattern r) c then foldr (\<lambda>h n. h n) (ro_handlers r) k c else k c)
        (\<lambda>c. if matches_route FL (ro_pattern r') c then foldr (\<lambda>h n. h n) (ro_handlers r') k' c else k' c))"

lemma chain_differ:
  "list_all2 (route_differ E FL G) rs rs' \<Longrightarrow> differ E G k k' \<Longrightarrow> differ E G (route_chain FL rs k) (route_chain FL rs' k')"
  by (induction rule: list_all2_induct) (simp_all add: route_differ_def)

lemma differ_if:
  "differ E G h h' \<Longrightarrow> differ E G k k' \<Longrightarrow> differ E G (\<lambda>c. if b c then h c else k c) (\<lambda>c. if b c then h' c else k' c)"
  by (auto simp: differ_def)

lemma transparent_route_differ:
  assumes t: "list_all (transparent E ca_limits) (ro_handlers r)" and G: "backed E ca_limits G"
  shows "route_differ E FL G r r"
proof -
  have "differ E G k k' \<Longrightarrow> differ E G (foldr (\<lambda>h n. h n) hs k) (foldr (\<lambda>h n. h n) hs k')"
    if "list_all (transparent E ca_limits) hs" for hs k k'
    using that by (induction hs) (auto intro: transparent_differ [OF _ _ G])
  with t show ?thesis by (simp add: route_differ_def differ_if)
qed

text \<open>A route that ends in a handler of its own; two that end in different ones.\<close>

lemma endpoint_same: "route_differ E FL G (named pre m path name (mws @ [endpoint h])) (named pre m path name (mws @ [endpoint h]))"
  by (simp add: route_differ_def named_def endpoint_def differ_if)

lemma endpoint_differ:
  assumes d: "differ E P (foldr (\<lambda>h n. h n) mws h) (foldr (\<lambda>h n. h n) mws h')"
    and G: "\<And>c. fc_method c = m \<Longrightarrow> fl_match FL (At m pre path) (fc_path c) \<Longrightarrow> P c \<Longrightarrow> G c"
  shows "route_differ E FL G (named pre m path name (mws @ [endpoint h])) (named pre m path name (mws @ [endpoint h']))"
  using d G by (auto simp: route_differ_def named_def endpoint_def differ_def matches_route_def)

lemmas endpoint_differ_1 = endpoint_differ [where mws = "[mw]" for mw, unfolded foldr.simps comp_def id_def append_Cons append_Nil]

lemmas endpoint_differ_2 = endpoint_differ [where mws = "[mw1, mw2]" for mw1 mw2, unfolded foldr.simps comp_def id_def append_Cons append_Nil]

lemma differ_any [simp]: "differ E (\<lambda>c. True) h h'"
  by (simp add: differ_def)

lemma backed_any [simp]: "backed E f (\<lambda>c. True)"
  by (simp add: backed_def)

lemma casbin_allows_backed: "backed E f (casbin_allows CB E mg)"
  using steady_stored by (fastforce simp: backed_def casbin_allows_def steady_def same_request_def)

lemma backed_conj: "backed E f P \<Longrightarrow> backed E f Q \<Longrightarrow> backed E f (\<lambda>c. P c \<and> Q c)"
  by (auto simp: backed_def)

lemma matched_backed: "backed E f (\<lambda>c. fc_method c = m \<and> fl_match FL p (fc_path c))"
  by (auto simp: backed_def steady_def same_request_def)

section \<open>The protected handlers\<close>

text \<open>The requests that reach a protected handler.\<close>

definition entitled :: "('s, 'e, 'b, 'm, 'f) crm_env \<Rightarrow> 's fiber_lib \<Rightarrow> 's crm_ctx \<Rightarrow> bool" where
  "entitled K FL c \<longleftrightarrow> fc_method c = ''GET'' \<and>
     (case stored_user (ce_fiber K) c of
        None \<Rightarrow> False
      | Some u \<Rightarrow>
          fl_match FL (At ''GET'' [] ''/user'') (fc_path c)
          \<or> fl_match FL (At ''GET'' ''/api'' ''/me'') (fc_path c) \<and> casbin_allows (ce_casbin K) (ce_fiber K) (ce_policy K) c
          \<or> fl_match FL (At ''GET'' ''/api'' ''/admin/stats'') (fc_path c) \<and> has_role (web_user_of (Some u)) ''admin''
          \<or> fl_match FL (At ''GET'' ''/admin'' ''/'') (fc_path c) \<and> has_role (web_user_of (Some u)) ''admin''
              \<and> casbin_allows (ce_casbin K) (ce_fiber K) (ce_policy K) c)"

lemma entitled_backed: "backed (ce_fiber K) ca_limits (entitled K FL)"
proof -
  have "entitled K FL d \<longleftrightarrow> entitled K FL c" if s: "crm_steady K c d" for c d
    using steady_stored [OF s] s by (auto simp: entitled_def casbin_allows_def steady_def same_request_def split: option.splits)
  then show ?thesis by (simp add: backed_def)
qed

text \<open>\<open>H'\<close> has other handlers at the protected routes.\<close>

definition same_open :: "'s crm_handlers \<Rightarrow> 's crm_handlers \<Rightarrow> bool" where
  "same_open H H' \<longleftrightarrow> (\<exists>p m s a. H' = H\<lparr>ch_profile := p, ch_me := m, ch_stats := s, ch_admin := a\<rparr>)"

lemma api_routes_differ:
  fixes K :: "('s, 'e, 'b, 'm, 'f) crm_env"
  assumes K: "crm_apart K" and H: "same_open H H'"
  shows "list_all2 (route_differ (ce_fiber K) FL (entitled K FL)) (api_routes K H) (api_routes K H')"
proof -
  let ?E = "ce_fiber K"
  let ?login = "require_login ?E (Some api_unauthorized)" and ?casbin = "casbin_guard K api_forbidden"
  have login: "guarded ?E ca_limits (\<lambda>c. stored_user ?E c \<noteq> None) ?login"
    by (rule require_login_guarded) (auto simp: api_unauthorized_steady)
  have "differ ?E (casbin_allows (ce_casbin K) ?E (ce_policy K)) (?casbin h) (?casbin h')" for h h' :: "'s crm_handler"
    using guarded_differ [OF casbin_guard_guarded [OF api_forbidden_steady] differ_any backed_any] by simp
  then have "differ ?E (\<lambda>c. stored_user ?E c \<noteq> None \<and> casbin_allows (ce_casbin K) ?E (ce_policy K) c) (?login (?casbin h)) (?login (?casbin h'))" for h h' :: "'s crm_handler"
    by (rule guarded_differ [OF login _ casbin_allows_backed])
  then have me: "route_differ ?E FL (entitled K FL) (named ''/api'' ''GET'' ''/me'' n [?login, ?casbin, endpoint h])
      (named ''/api'' ''GET'' ''/me'' n [?login, ?casbin, endpoint h'])" for n h h'
    by (rule endpoint_differ_2) (auto simp: entitled_def)
  let ?role = "\<lambda>c :: 's crm_ctx. \<exists>u. stored_user ?E c = Some u \<and> list_ex (has_role (web_user_of (Some u))) [''admin'']"
  have "differ ?E ?role (require_roles ?E [''admin''] h) (require_roles ?E [''admin''] h')" for h h' :: "'s crm_handler"
    using guarded_differ [OF roles_guarded differ_any backed_any, of ?E "[''admin'']"] by simp
  moreover have "backed ?E ca_limits ?role"
    using steady_stored by (fastforce simp: backed_def)
  ultimately have "differ ?E (\<lambda>c. stored_user ?E c \<noteq> None \<and> ?role c)
      (?login (require_roles ?E [''admin''] h)) (?login (require_roles ?E [''admin''] h'))" for h h' :: "'s crm_handler"
    by (rule guarded_differ [OF login])
  then have stats: "route_differ ?E FL (entitled K FL) (named ''/api'' ''GET'' ''/admin/stats'' n [?login, require_roles ?E [''admin''], endpoint h])
      (named ''/api'' ''GET'' ''/admin/stats'' n [?login, require_roles ?E [''admin''], endpoint h'])" for n h h'
    by (rule endpoint_differ_2) (auto simp: entitled_def)
  have "route_differ ?E FL (entitled K FL) (group ''/api'' [only_unsafe_methods (csrf_with_config ?E None)])
      (group ''/api'' [only_unsafe_methods (csrf_with_config ?E None)])"
    by (rule transparent_route_differ [OF _ entitled_backed]) (simp add: group_def api_csrf_transparent [OF K])
  then show ?thesis
    using H endpoint_same [where mws = "[]" and pre = "''/api''"]
    by (auto simp: api_routes_def Let_def same_open_def me stats)
qed


lemma web_routes_differ:
  fixes K :: "('s, 'e, 'b, 'm, 'f) crm_env"
  assumes H: "same_open H H'"
  shows "list_all2 (route_differ (ce_fiber K) FL (entitled K FL)) (web_routes K H) (web_routes K H')"
proof -
  let ?E = "ce_fiber K"
  have "guarded ?E ca_limits (\<lambda>c. stored_user ?E c \<noteq> None) (require_login ?E None)"
    by (rule require_login_guarded) simp
  from guarded_differ [OF this differ_any backed_any]
  have "differ ?E (\<lambda>c. stored_user ?E c \<noteq> None) (require_login ?E None h) (require_login ?E None h')" for h h' :: "'s crm_handler" by simp
  then have user: "route_differ ?E FL (entitled K FL) (named [] ''GET'' ''/user'' n [require_login ?E None, endpoint h])
      (named [] ''GET'' ''/user'' n [require_login ?E None, endpoint h'])" for n h h'
    by (rule endpoint_differ_1) (auto simp: entitled_def)
  show ?thesis
    using H endpoint_same [where mws = "[]" and pre = "[]"] endpoint_same [where mws = "[mw]" for mw]
    by (auto simp: web_routes_def same_open_def user)
qed

text \<open>The group \<open>/admin\<close> with its guards, and the page in it.\<close>

lemma admin_routes_differ:
  assumes K: "crm_apart K" and FL: "fiber_lib_ok K FL"
  shows "differ (ce_fiber K) (entitled K FL) (route_chain FL (admin_routes K H) k) (route_chain FL (admin_routes K H') k)"
proof -
  let ?E = "ce_fiber K" and ?allows = "casbin_allows (ce_casbin K) (ce_fiber K) (ce_policy K)"
  let ?page = "\<lambda>H. named ''/admin'' ''GET'' ''/'' ''admin.dashboard'' [endpoint (ch_admin H)]"
  let ?at = "\<lambda>c. fc_method c = ''GET'' \<and> fl_match FL (At ''GET'' ''/admin'' ''/'') (fc_path c)"
  have page: "differ ?E ?at (route_chain FL [?page H] k) (route_chain FL [?page H'] k)"
    by (auto simp: differ_def named_def matches_route_def endpoint_def)
  have casbin: "differ ?E (\<lambda>c. ?allows c \<and> ?at c) (casbin_guard K (crm_forbidden K) (route_chain FL [?page H] k))
      (casbin_guard K (crm_forbidden K) (route_chain FL [?page H'] k))"
    by (rule guarded_differ [OF casbin_guard_guarded [OF crm_forbidden_steady [OF K]] page matched_backed])
  have "differ ?E (\<lambda>c. (\<exists>u. stored_user ?E c = Some u \<and> is_admin (web_user_of (Some u))) \<and> ?allows c \<and> ?at c)
      (authorize ?E (Some is_admin) (Some (crm_forbidden K)) (casbin_guard K (crm_forbidden K) (route_chain FL [?page H] k)))
      (authorize ?E (Some is_admin) (Some (crm_forbidden K)) (casbin_guard K (crm_forbidden K) (route_chain FL [?page H'] k)))"
    by (rule guarded_differ [OF admin_guarded [OF K] casbin backed_conj [OF casbin_allows_backed matched_backed]])
  moreover have "fl_match FL (Under ''/admin'') (fc_path c)" if "?at c" for c
    using FL that by (auto simp: fiber_lib_ok_def)
  ultimately show ?thesis
    using page by (auto simp: admin_routes_def group_def differ_def matches_route_def entitled_def is_admin_def simp del: route_chain.simps(2)
        simp add: route_chain.simps(2) [of FL "\<lparr>ro_pattern = Under pre, ro_handlers = mws, ro_name = None\<rparr>" for pre mws])
qed

text \<open>
  (C38) Other handlers at \<open>/user\<close>, \<open>/api/me\<close>, \<open>/api/admin/stats\<close> and \<open>/admin\<close> make a difference, to the answer, the sessions, the log or
  anything else, only for a \<open>GET\<close> whose session holds a user; for the last two a user with the role \<open>admin\<close>,
  and for \<open>/api/me\<close> and \<open>/admin\<close> one whose role the policy permits the path.
\<close>

theorem protected_handlers_guarded:
  assumes K: "crm_apart K" and FL: "fiber_lib_ok K FL" and c: "user_ok (ce_fiber K) c"
    and differ: "crm_serve K FL H c \<noteq> crm_serve K FL (H\<lparr>ch_profile := p, ch_me := m, ch_stats := s, ch_admin := a\<rparr>) c"
  shows "entitled K FL c"
proof -
  define H' where "H' = H\<lparr>ch_profile := p, ch_me := m, ch_stats := s, ch_admin := a\<rparr>"
  have H: "same_open H H'" by (auto simp: same_open_def H'_def)
  let ?E = "ce_fiber K" and ?G = "entitled K FL" and ?missing = "\<lambda>c. (Some (fl_missing FL c), c)"
  note G = entitled_backed [of K FL]
  have one: "route_differ ?E FL ?G (use mw) (use mw)" "route_differ ?E FL ?G (group pre [mw]) (group pre [mw])"
    if "transparent ?E ca_limits mw" for mw pre
    using that transparent_route_differ [OF _ G] by (simp_all add: use_def group_def)
  let ?front = "[use (fl_recover FL), use (fl_request_id FL), use request_logger, use (fl_helmet FL (security_headers (ce_production K))),
      group ''/static'' [fl_static FL], use (attach_user ?E)]"
  have front: "list_all2 (route_differ ?E FL ?G) ?front ?front"
    using FL by (simp add: fiber_lib_ok_def one request_logger_transparent guarded_transparent [OF attach_user_guarded])
  have csrf: "route_differ ?E FL ?G (use (crm_csrf K)) (use (crm_csrf K))"
    by (rule one(1)) (rule guarded_transparent [OF crm_csrf_guarded [OF K]])
  have "list_all2 (route_differ ?E FL ?G) (?front @ api_routes K H @ [use (crm_csrf K)] @ web_routes K H)
      (?front @ api_routes K H' @ [use (crm_csrf K)] @ web_routes K H')"
    by (intro list_all2_appendI front api_routes_differ [OF K H] web_routes_differ [OF H]) (simp add: csrf)
  from chain_differ [OF this admin_routes_differ [OF K FL, of H ?missing H']]
  have "differ ?E ?G (run_routes FL (crm_routes K FL H)) (run_routes FL (crm_routes K FL H'))"
    by (simp only: crm_routes_def run_routes_chain route_chain_append [symmetric] append_assoc)
  moreover have "run_routes FL (crm_routes K FL H) c \<noteq> run_routes FL (crm_routes K FL H') c"
    using differ unfolding H'_def [symmetric] by (auto simp: crm_serve_def)
  ultimately show ?thesis using c by (simp add: differ_def)
qed

text \<open>The page of the administrators, for one of them; the handlers write another text.\<close>

definition demo_admin_page :: "string \<Rightarrow> (string \<times> sess_vals) list crm_handlers" where
  "demo_admin_page s = (crm_handlers_of demo_crm [] [])\<lparr>ch_admin := c_text s\<rparr>"

lemma demo_admin_answer:
  "fc_out (snd (crm_serve demo_crm demo_fiber_lib (demo_admin_page ''a'') (demo_visit ''GET'' ''/admin''))) = Body_text ''a''"
  "fc_out (snd (crm_serve demo_crm demo_fiber_lib (demo_admin_page ''b'') (demo_visit ''GET'' ''/admin''))) = Body_text ''b''"
  by code_simp+

lemma protected_handlers_guarded_witness: "entitled demo_crm demo_fiber_lib (demo_visit ''GET'' ''/admin'')"
proof -
  have d: "crm_serve demo_crm demo_fiber_lib (demo_admin_page ''a'') (demo_visit ''GET'' ''/admin'')
      \<noteq> crm_serve demo_crm demo_fiber_lib (demo_admin_page ''b'') (demo_visit ''GET'' ''/admin'')"
    using demo_admin_answer by force
  let ?a = "demo_admin_page ''a''" and ?b = "demo_admin_page ''b''"
  have same: "?b = ?a\<lparr>ch_profile := ch_profile ?b, ch_me := ch_me ?b, ch_stats := ch_stats ?b, ch_admin := ch_admin ?b\<rparr>"
    by (simp add: demo_admin_page_def)
  have d': "crm_serve demo_crm demo_fiber_lib ?a (demo_visit ''GET'' ''/admin'') \<noteq> crm_serve demo_crm demo_fiber_lib
      (?a\<lparr>ch_profile := ch_profile ?b, ch_me := ch_me ?b, ch_stats := ch_stats ?b, ch_admin := ch_admin ?b\<rparr>) (demo_visit ''GET'' ''/admin'')"
    using d by (simp only: same [symmetric] not_False_eq_True)
  show ?thesis
    by (rule protected_handlers_guarded [OF demo_apart demo_fiber_lib_ok demo_user_ok d'])
qed

end
