(* ===== verification/Random_Values.thy ===== *)
theory Random_Values
  imports Validate Go_Base "HOL-Library.Word"
begin

text \<open>
  \<open>pkg/conv\<close> and \<open>pkg/id\<close>: numbers from texts, random integers of a range, UUIDs and random texts.

  An \<open>int\<close> of the random functions is a 64-bit word, read with its sign. The random sources are
  parameters: \<open>rand.Uint64\<close> and \<open>rand.Uint64N\<close> of \<open>math/rand/v2\<close>, \<open>crypto/rand\<close>'s \<open>Read\<close> and \<open>Int\<close>.
\<close>

unbundle bit_operations_syntax

section \<open>Numbers from texts\<close>

definition or_value :: "'a option \<Rightarrow> 'a \<Rightarrow> 'a" where
  "or_value v d = (case v of Some x \<Rightarrow> x | None \<Rightarrow> d)"

definition conv_to_int :: "string \<Rightarrow> int \<Rightarrow> int" where
  "conv_to_int s d = or_value (parse_int64 (trim_space s)) d"

text \<open>\<open>strconv.ParseBool\<close>.\<close>

definition parse_bool :: "string \<Rightarrow> bool option" where
  "parse_bool s =
     (if s \<in> set [''1'', ''t'', ''T'', ''true'', ''TRUE'', ''True''] then Some True
      else if s \<in> set [''0'', ''f'', ''F'', ''false'', ''FALSE'', ''False''] then Some False
      else None)"

definition conv_to_bool :: "string \<Rightarrow> bool \<Rightarrow> bool" where
  "conv_to_bool s d = or_value (parse_bool (trim_space s)) d"

definition conv_parse_int :: "string \<Rightarrow> int option" where
  "conv_parse_int s = parse_int64 (trim_space s)"

lemma conv_to_int_cases:
  "conv_to_int s d = (case conv_parse_int s of Some i \<Rightarrow> i | None \<Rightarrow> d)"
  by (simp add: conv_to_int_def conv_parse_int_def or_value_def)

section \<open>Random integers\<close>

text \<open>\<open>any\<close> is \<open>rand.Uint64()\<close> and \<open>below n\<close> is \<open>rand.Uint64N(n)\<close>.\<close>

definition ordered :: "64 word \<Rightarrow> 64 word \<Rightarrow> 64 word \<times> 64 word" where
  "ordered mn mx = (if mx <s mn then (mx, mn) else (mn, mx))"

definition random_int :: "64 word \<Rightarrow> (64 word \<Rightarrow> 64 word) \<Rightarrow> 64 word \<Rightarrow> 64 word \<Rightarrow> 64 word" where
  "random_int any below mn mx =
     (case ordered mn mx of
        (lo, hi) \<Rightarrow> let span = hi - lo in if span = - 1 then any else lo + below (span + 1))"

definition err_random_source :: gerr where
  "err_random_source = sentinel ''conv: random source''"

text \<open>\<open>crypto/rand\<close>: eight bytes as a word, and \<open>Int\<close> for a bound below \<open>2 ^ 64\<close>.\<close>

definition secure_random_int ::
  "gerr + 64 word \<Rightarrow> (64 word \<Rightarrow> gerr + 64 word) \<Rightarrow> 64 word \<Rightarrow> 64 word \<Rightarrow> gerr + 64 word" where
  "secure_random_int any below mn mx =
     (case ordered mn mx of
        (lo, hi) \<Rightarrow>
          let span = hi - lo in
          if span = - 1 then (case any of Inl e \<Rightarrow> Inl (err_join err_random_source e) | Inr w \<Rightarrow> Inr w)
          else (case below (span + 1) of Inl e \<Rightarrow> Inl (err_join err_random_source e) | Inr w \<Rightarrow> Inr (lo + w)))"

lemma ordered_sint: "ordered mn mx = (lo, hi) \<Longrightarrow> sint lo \<le> sint hi \<and> sint lo = min (sint mn) (sint mx) \<and> sint hi = max (sint mn) (sint mx)"
  by (auto simp: ordered_def word_sless_alt split: if_splits)

lemma sint_range64: "- (2 ^ 63) \<le> sint (w :: 64 word)" "sint (w :: 64 word) < 2 ^ 63"
  using sint_ge [of w] sint_lt [of w] by simp_all

lemma span_uint:
  fixes lo hi :: "64 word"
  assumes "sint lo \<le> sint hi"
  shows "uint (hi - lo) = sint hi - sint lo"
proof -
  have w: "word_of_int (sint hi - sint lo) = hi - lo" by (simp flip: wi_hom_sub)
  have "0 \<le> sint hi - sint lo" "sint hi - sint lo < 2 ^ 64"
    using assms sint_range64 [of hi] sint_range64 [of lo] by simp_all
  then show ?thesis using uint_word_of_int [of "sint hi - sint lo", where 'a = 64] unfolding w by simp
qed

text \<open>A step from the lower end that stays within the span, which \<open>sint\<close> reads without a wrap-around.\<close>

lemma offset_sint:
  fixes lo hi k :: "64 word"
  assumes "sint lo \<le> sint hi" "k \<le> hi - lo"
  shows "sint (lo + k) = sint lo + uint k" and "sint (lo + k) \<le> sint hi"
proof -
  have k: "uint k \<le> sint hi - sint lo" using assms span_uint [OF assms(1)] by (simp add: word_le_def)
  have w: "word_of_int (sint lo + uint k) = lo + k" by (simp flip: wi_hom_add)
  have "- (2 ^ 63) \<le> sint lo + uint k" "sint lo + uint k < 2 ^ 63"
    using k sint_range64 [of lo] sint_range64 [of hi] uint_ge_0 [of k] by linarith+
  then have "signed_take_bit 63 (sint lo + uint k) = sint lo + uint k" by (simp add: signed_take_bit_int_eq_self)
  then show "sint (lo + k) = sint lo + uint k"
    using sint_sbintrunc' [of "sint lo + uint k", where 'a = 64] unfolding w by simp
  then show "sint (lo + k) \<le> sint hi" using k by simp
qed

lemma full_span: "hi - lo = (- 1 :: 64 word) \<Longrightarrow> sint lo \<le> sint hi \<Longrightarrow> sint hi - sint lo = 2 ^ 64 - 1"
  using span_uint [of lo hi] by (simp add: unsigned_minus_1_eq_mask mask_eq_exp_minus_1)

lemma span_succ:
  fixes span :: "64 word"
  assumes "span \<noteq> - 1"
  shows "span + 1 \<noteq> 0" and "k < span + 1 \<longleftrightarrow> k \<le> span"
proof -
  show nz: "span + 1 \<noteq> 0" using assms by (simp add: add_eq_0_iff2)
  have "unat (span + 1) = Suc (unat span)" using unatSuc [of span] nz by (simp add: add.commute)
  then show "k < span + 1 \<longleftrightarrow> k \<le> span" by (simp add: word_less_nat_alt word_le_nat_alt less_Suc_eq_le)
qed

lemma random_within:
  assumes "\<And>n. n \<noteq> 0 \<Longrightarrow> below n < n"
  shows "min (sint mn) (sint mx) \<le> sint (random_int any below mn mx) \<and> sint (random_int any below mn mx) \<le> max (sint mn) (sint mx)"
proof -
  obtain lo hi where o: "ordered mn mx = (lo, hi)" by fastforce
  have le: "sint lo \<le> sint hi" and ends: "min (sint mn) (sint mx) = sint lo" "max (sint mn) (sint mx) = sint hi"
    using ordered_sint [OF o] by simp_all
  show ?thesis
  proof (cases "hi - lo = - 1")
    case True
    then have "sint lo = - (2 ^ 63)" "sint hi = 2 ^ 63 - 1"
      using full_span [OF True le] sint_range64 [of lo] sint_range64 [of hi] by simp_all
    then show ?thesis using True o sint_range64 [of any] unfolding ends by (simp add: random_int_def)
  next
    case False
    note succ = span_succ [OF False]
    have "below (hi - lo + 1) \<le> hi - lo" using assms [OF succ(1)] succ(2) by simp
    then have "sint lo \<le> sint (lo + below (hi - lo + 1))" "sint (lo + below (hi - lo + 1)) \<le> sint hi"
      using offset_sint [OF le] uint_ge_0 [of "below (hi - lo + 1)"] by simp_all
    then show ?thesis unfolding ends using False o by (simp add: random_int_def Let_def)
  qed
qed

lemma random_reaches:
  assumes v: "min (sint mn) (sint mx) \<le> sint v" "sint v \<le> max (sint mn) (sint mx)"
  shows "\<exists>any below. (\<forall>n. n \<noteq> 0 \<longrightarrow> below n < n) \<and> random_int any below mn mx = v"
proof -
  obtain lo hi where o: "ordered mn mx = (lo, hi)" by fastforce
  have le: "sint lo \<le> sint hi" and ends: "sint lo \<le> sint v" "sint v \<le> sint hi"
    using ordered_sint [OF o] v by simp_all
  show ?thesis
  proof (cases "hi - lo = - 1")
    case True
    then have "random_int v (\<lambda>n. 0) mn mx = v" using o by (simp add: random_int_def)
    moreover have "(0 :: 64 word) < n" if "n \<noteq> 0" for n using that by (simp add: word_gt_0)
    ultimately show ?thesis by (intro exI [of _ v] exI [of _ "\<lambda>n. 0"]) simp
  next
    case False
    have "uint (v - lo) \<le> uint (hi - lo)" using span_uint [OF le] span_uint [OF ends(1)] ends by simp
    then have "v - lo < hi - lo + 1" using span_succ(2) [OF False] by (simp add: word_le_def)
    moreover have "random_int 0 b mn mx = lo + b (hi - lo + 1)" for b using False o by (simp add: random_int_def Let_def)
    ultimately show ?thesis
      by (intro exI [of _ 0] exI [of _ "\<lambda>n. if n = hi - lo + 1 then v - lo else 0"]) (simp add: word_gt_0)
  qed
qed

text \<open>
  For any two ends, in either order, up to the whole range of \<open>int\<close>: the value is between them, wherever
  \<open>Uint64N(n)\<close> is below \<open>n\<close>, and every value between them can come up.
\<close>

theorem random_int_in_range:
  assumes "\<And>n. n \<noteq> 0 \<Longrightarrow> below n < n"
  shows "min (sint mn) (sint mx) \<le> sint (random_int any below mn mx) \<and> sint (random_int any below mn mx) \<le> max (sint mn) (sint mx)
    \<and> (min (sint mn) (sint mx) \<le> sint v \<and> sint v \<le> max (sint mn) (sint mx) \<longrightarrow>
         (\<exists>any' below'. (\<forall>n. n \<noteq> 0 \<longrightarrow> below' n < n) \<and> random_int any' below' mn mx = v))"
  using random_within [OF assms] random_reaches by blast

theorem random_int_in_range_witness:
  "sint (random_int 7 (\<lambda>n. n - 1) (- 3) 4) = 4
    \<and> min (sint (- 3 :: 64 word)) (sint (4 :: 64 word)) \<le> sint (random_int 7 (\<lambda>n. n - 1) (- 3) 4)
    \<and> sint (random_int 7 (\<lambda>n. n - 1) (- 3) 4) \<le> max (sint (- 3 :: 64 word)) (sint (4 :: 64 word))"
proof -
  have law: "n - 1 < n" if "n \<noteq> (0 :: 64 word)" for n
    using that by (metis measure_unat word_less_nat_alt)
  have v: "sint (random_int 7 (\<lambda>n. n - 1) (- 3) 4) = 4"
    by (simp add: random_int_def ordered_def word_sless_alt)
  have "min (sint (- 3 :: 64 word)) (sint (4 :: 64 word)) \<le> sint (random_int 7 (\<lambda>n. n - 1) (- 3) 4)
      \<and> sint (random_int 7 (\<lambda>n. n - 1) (- 3) 4) \<le> max (sint (- 3 :: 64 word)) (sint (4 :: 64 word))"
    using random_int_in_range [of "\<lambda>n. n - 1" "- 3" 4 7] law by simp
  with v show ?thesis by simp
qed

lemma secure_random_int_in_range:
  assumes "\<And>n w. n \<noteq> 0 \<Longrightarrow> below n = Inr w \<Longrightarrow> w < n" and "secure_random_int any below mn mx = Inr w"
  shows "min (sint mn) (sint mx) \<le> sint w \<and> sint w \<le> max (sint mn) (sint mx)"
proof -
  define f where "f n = (case below n of Inr w \<Rightarrow> w | Inl e \<Rightarrow> 0)" for n
  define g where "g = (case any of Inr w \<Rightarrow> w | Inl e \<Rightarrow> 0)"
  have "f n < n" if "n \<noteq> 0" for n using assms(1) [OF that] that by (auto simp: f_def word_gt_0 split: sum.split)
  moreover have "w = random_int g f mn mx"
    using assms(2) by (auto simp: secure_random_int_def random_int_def f_def g_def Let_def split: prod.splits sum.splits if_splits)
  ultimately show ?thesis using random_within [of f] by simp
qed

section \<open>UUIDs\<close>

definition hex_byte :: "8 word \<Rightarrow> string" where
  "hex_byte w = [hex_char (unat w div 16), hex_char (unat w mod 16)]"

definition hex_text :: "8 word list \<Rightarrow> string" where
  "hex_text ws = concat (map hex_byte ws)"

text \<open>\<open>rand.Read\<close> fills 16 bytes or fails.\<close>

definition id_uuid_v4 :: "gerr + 8 word list \<Rightarrow> gerr + string" where
  "id_uuid_v4 random =
     (case random of
        Inl e \<Rightarrow> Inl e
      | Inr b0 \<Rightarrow>
          (let b1 = b0[6 := (b0 ! 6 AND 0x0F) OR 0x40];
               b = b1[8 := (b1 ! 8 AND 0x3F) OR 0x80] in
           Inr (hex_text (take 4 b) @ ''-'' @ hex_text (take 2 (drop 4 b)) @ ''-'' @ hex_text (take 2 (drop 6 b)) @ ''-''
             @ hex_text (take 2 (drop 8 b)) @ ''-'' @ hex_text (take 6 (drop 10 b)))))"

lemma version_nibble: "unat ((w AND 0x0F) OR (0x40 :: 8 word)) div 16 = 4"
proof -
  have "drop_bit 4 ((w AND 0x0F) OR (0x40 :: 8 word)) = 4" by (simp add: drop_bit_or drop_bit_and)
  then have "unat (drop_bit 4 ((w AND 0x0F) OR (0x40 :: 8 word))) = 4" by simp
  then show ?thesis by (simp add: drop_bit_eq_div unat_div)
qed

lemma variant_nibble: "unat ((w AND 0x3F) OR (0x80 :: 8 word)) div 16 \<in> {8, 9, 10, 11}"
proof -
  have "drop_bit 4 ((w AND 0x3F) OR (0x80 :: 8 word)) = (drop_bit 4 w AND 3) OR 8" by (simp add: drop_bit_or drop_bit_and)
  moreover have "drop_bit 4 w AND 3 = take_bit 2 (drop_bit 4 w)" by (simp add: take_bit_eq_mask mask_numeral)
  moreover have "take_bit 2 v \<in> {0, 1, 2, 3 :: 8 word}" for v
  proof -
    have "unat (take_bit 2 v) < 4" by (simp add: unsigned_take_bit_eq take_bit_eq_mod unat_mod)
    then consider "unat (take_bit 2 v) = 0" | "unat (take_bit 2 v) = 1" | "unat (take_bit 2 v) = 2" | "unat (take_bit 2 v) = 3" by linarith
    then show ?thesis by cases (simp_all add: word_unat_eq_iff)
  qed
  ultimately have "drop_bit 4 ((w AND 0x3F) OR (0x80 :: 8 word)) = take_bit 2 (drop_bit 4 w) OR 8"
    and "take_bit 2 (drop_bit 4 w) \<in> {0, 1, 2, 3 :: 8 word}" by simp_all
  then have "drop_bit 4 ((w AND 0x3F) OR (0x80 :: 8 word)) \<in> {8, 9, 10, 11}" by auto
  then have "unat (((w AND 0x3F) OR (0x80 :: 8 word)) div 16) \<in> {8, 9, 10, 11}" by (auto simp: drop_bit_eq_div)
  then show ?thesis by (simp add: unat_div)
qed

lemma nibble_chars: "hex_char 4 = CHR ''4''" "hex_char 8 = CHR ''8''" "hex_char 9 = CHR ''9''" "hex_char 10 = CHR ''a''" "hex_char 11 = CHR ''b''"
  by code_simp+

lemma hex_text_length [simp]: "length (hex_text ws) = 2 * length ws"
  by (induction ws) (simp_all add: hex_text_def hex_byte_def)

text \<open>
  36 characters with dashes at four places, the version \<open>4\<close> and one of the four variants of RFC 9562, whatever the bytes.
\<close>

lemma uuid_shape:
  assumes "length b = 16"
  obtains s where "id_uuid_v4 (Inr b) = Inr s" "length s = 36" "s ! 8 = CHR ''-''" "s ! 13 = CHR ''-''" "s ! 18 = CHR ''-''" "s ! 23 = CHR ''-''"
    "s ! 14 = CHR ''4''" "s ! 19 \<in> set ''89ab''"
proof -
  obtain b0 b1 b2 b3 b4 b5 b6 b7 b8 b9 ba bb bc bd be bf where b: "b = [b0, b1, b2, b3, b4, b5, b6, b7, b8, b9, ba, bb, bc, bd, be, bf]"
    using assms by (auto simp: numeral_eq_Suc length_Suc_conv)
  let ?v = "(b6 AND 0x0F) OR 0x40" and ?r = "(b8 AND 0x3F) OR 0x80"
  let ?s = "hex_text [b0, b1, b2, b3] @ ''-'' @ hex_text [b4, b5] @ ''-'' @ hex_text [?v, b7] @ ''-'' @ hex_text [?r, b9] @ ''-''
    @ hex_text [ba, bb, bc, bd, be, bf]"
  have u: "id_uuid_v4 (Inr b) = Inr ?s" by (simp add: id_uuid_v4_def b Let_def)
  have "hex_char (unat ?v div 16) = CHR ''4''" by (simp only: version_nibble nibble_chars)
  moreover have "hex_char (unat ?r div 16) \<in> set ''89ab''" using variant_nibble [of b8] by (auto simp: nibble_chars)
  ultimately have "?s ! 14 = CHR ''4''" "?s ! 19 \<in> set ''89ab''" by (simp_all add: hex_text_def hex_byte_def)
  then show thesis using u by (intro that [of ?s]) (simp_all add: hex_text_def hex_byte_def)
qed

section \<open>Random texts\<close>

definition id_letters :: string where
  "id_letters = ''abcdefghijklmnopqrstuvwxyzABCDEFGHIJKLMNOPQRSTUVWXYZ0123456789''"

definition max_byte :: nat where
  "max_byte = 256 - 256 mod length id_letters"

text \<open>The inner loop over a buffer, for \<open>n\<close> characters that are still missing.\<close>

fun take_letters :: "nat \<Rightarrow> 8 word list \<Rightarrow> string" where
  "take_letters n [] = []"
| "take_letters n (c # cs) =
     (if n = 0 then []
      else if max_byte \<le> unat c then take_letters n cs
      else id_letters ! (unat c mod length id_letters) # take_letters (n - 1) cs)"

text \<open>\<open>read\<close> is \<open>rand.Read\<close> into the buffer; the loop does not end while every byte is refused.\<close>

partial_function (option) random_loop ::
  "('w \<Rightarrow> (gerr + 8 word list) \<times> 'w) \<Rightarrow> nat \<Rightarrow> string \<Rightarrow> 'w \<Rightarrow> ((gerr + string) \<times> 'w) option" where
  "random_loop read n out w =
     (if length out < n then
        (case read w of
           (Inl e, w1) \<Rightarrow> Some (Inl e, w1)
         | (Inr buf, w1) \<Rightarrow> random_loop read n (out @ take_letters (n - length out) buf) w1)
      else Some (Inr out, w))"

definition random_string :: "(nat \<Rightarrow> 'w \<Rightarrow> (gerr + 8 word list) \<times> 'w) \<Rightarrow> int \<Rightarrow> 'w \<Rightarrow> ((gerr + string) \<times> 'w) option" where
  "random_string read n w =
     (if n \<le> 0 then Some (Inr [], w)
      else random_loop (read (nat n + nat n div 4 + 8)) (nat n) [] w)"

lemma max_byte_letters: "max_byte = 248" "length id_letters = 62"
  by (simp_all add: max_byte_def id_letters_def)

lemma take_letters_within: "length (take_letters n cs) \<le> n \<and> set (take_letters n cs) \<subseteq> set id_letters"
proof (induction n cs rule: take_letters.induct)
  case (2 n c cs)
  have "id_letters ! (unat c mod length id_letters) \<in> set id_letters"
    by (rule nth_mem) (simp add: max_byte_letters)
  with 2 show ?case by auto
qed simp

lemma take_letters_some: "0 < n \<Longrightarrow> c \<in> set cs \<Longrightarrow> unat c < max_byte \<Longrightarrow> take_letters n cs \<noteq> []"
  by (induction n cs rule: take_letters.induct) auto

text \<open>No letter is preferred: each stands for four of the bytes that are not refused.\<close>

lemma letters_uniform: "i < 62 \<Longrightarrow> card {c :: nat. c < max_byte \<and> c mod length id_letters = i} = 4"
proof -
  assume i: "i < 62"
  have "{c :: nat. c < max_byte \<and> c mod length id_letters = i} = {i, i + 62, i + 124, i + 186}"
  proof (intro set_eqI iffI)
    fix c
    assume "c \<in> {c :: nat. c < max_byte \<and> c mod length id_letters = i}"
    then have c: "c < 248" "c mod 62 = i" by (simp_all add: max_byte_letters)
    obtain k where k: "c = 62 * k + i" using c(2) by (metis mult_div_mod_eq)
    then have "k < 4" using c(1) by simp
    then consider "k = 0" | "k = 1" | "k = 2" | "k = 3" by linarith
    then show "c \<in> {i, i + 62, i + 124, i + 186}" by cases (simp_all add: k)
  next
    fix c
    assume c: "c \<in> {i, i + 62, i + 124, i + 186}"
    have "(i + 62 * k) mod 62 = i" for k using i by simp
    from this [of 1] this [of 2] this [of 3] show "c \<in> {c. c < max_byte \<and> c mod length id_letters = i}"
      using c i by (auto simp: max_byte_letters)
  qed
  then show ?thesis by simp
qed

text \<open>
  Where reads succeed and a buffer always has a byte that is not refused, the function returns, and gives
  \<open>n\<close> characters of the alphabet.
\<close>

lemma random_loop_returns:
  assumes "\<And>w. \<exists>buf w1 c. read w = (Inr buf, w1) \<and> c \<in> set buf \<and> unat c < max_byte"
    and "length out \<le> n" "set out \<subseteq> set id_letters"
  shows "\<exists>s w1. random_loop read n out w = Some (Inr s, w1) \<and> length s = n \<and> set s \<subseteq> set id_letters"
  using assms(2,3)
proof (induction "n - length out" arbitrary: out w rule: less_induct)
  case less
  show ?case
  proof (cases "length out < n")
    case True
    obtain buf w1 c where r: "read w = (Inr buf, w1)" "c \<in> set buf" "unat c < max_byte" using assms(1) by blast
    let ?out = "out @ take_letters (n - length out) buf"
    have "take_letters (n - length out) buf \<noteq> []" using take_letters_some r True by simp
    then have "n - length ?out < n - length out" using True by (simp add: diff_less_mono2)
    moreover have "length ?out \<le> n" "set ?out \<subseteq> set id_letters"
      using take_letters_within [of "n - length out" buf] less.prems True by auto
    ultimately have "\<exists>s w2. random_loop read n ?out w1 = Some (Inr s, w2) \<and> length s = n \<and> set s \<subseteq> set id_letters"
      by (rule less.hyps)
    then show ?thesis using r True by (subst random_loop.simps) simp
  next
    case False
    then show ?thesis using less.prems by (subst random_loop.simps) simp
  qed
qed

lemma random_string_returns:
  assumes "\<And>w. \<exists>buf w1 c. read (nat n + nat n div 4 + 8) w = (Inr buf, w1) \<and> c \<in> set buf \<and> unat c < max_byte"
  shows "\<exists>s w1. random_string read n w = Some (Inr s, w1) \<and> length s = nat n \<and> set s \<subseteq> set id_letters"
  using random_loop_returns [OF assms, of "[]" "nat n"] by (simp add: random_string_def)

end
