(* ===== verification/Crm_Config.thy ===== *)
theory Crm_Config
  imports Random_Values
begin

text \<open>
  Environment variables (\<open>pkg/config/env.go\<close>) and the configuration that \<open>cmd/crm\<close> reads from them
  (\<open>cmd/crm/config/config.go\<close>). The environment is a map; \<open>time.ParseDuration\<close> and the random bytes are arguments.
  Errors are told apart by a constructor each, without their texts.
\<close>

section \<open>Environment variables\<close>

type_synonym environ = "string \<rightharpoonup> string"

datatype config_error =
    Env_missing string
  | Env_error string string \<comment> \<open>the name and the value that does not parse\<close>
  | Unknown_env string
  | Limit_negative
  | Port_out_of_range int
  | Key_required
  | Key_too_short nat
  | Passwords_required
  | Bad_key_length
  | Key_random gerr

definition get_env :: "environ \<Rightarrow> string \<Rightarrow> string \<Rightarrow> string" where
  "get_env env key fallback = (case env key of Some v \<Rightarrow> v | None \<Rightarrow> fallback)"

text \<open>\<open>MustGetEnv\<close> panics (\<open>None\<close>) where the variable is not set.\<close>

definition must_get_env :: "environ \<Rightarrow> string \<Rightarrow> string option" where
  "must_get_env env key = env key"

definition require_env :: "environ \<Rightarrow> string \<Rightarrow> config_error + string" where
  "require_env env key = (case env key of None \<Rightarrow> Inl (Env_missing key) | Some v \<Rightarrow> Inr v)"

text \<open>The value, whether the variable is set, and the error; \<open>z\<close> is the zero value.\<close>

definition lookup_env :: "(string \<Rightarrow> 'a option) \<Rightarrow> 'a \<Rightarrow> environ \<Rightarrow> string \<Rightarrow> 'a \<times> bool \<times> config_error option" where
  "lookup_env parse z env key =
     (case env key of
        None \<Rightarrow> (z, False, None)
      | Some v \<Rightarrow> (case parse (trim_space v) of None \<Rightarrow> (z, True, Some (Env_error key v)) | Some x \<Rightarrow> (x, True, None)))"

definition lookup_env_int :: "environ \<Rightarrow> string \<Rightarrow> int \<times> bool \<times> config_error option" where
  "lookup_env_int = lookup_env parse_int64 0"

definition lookup_env_bool :: "environ \<Rightarrow> string \<Rightarrow> bool \<times> bool \<times> config_error option" where
  "lookup_env_bool = lookup_env parse_bool False"

definition lookup_env_duration :: "(string \<Rightarrow> int option) \<Rightarrow> environ \<Rightarrow> string \<Rightarrow> int \<times> bool \<times> config_error option" where
  "lookup_env_duration parse_duration = lookup_env parse_duration 0"

definition value_or :: "'a \<times> bool \<times> config_error option \<Rightarrow> 'a \<Rightarrow> 'a" where
  "value_or r fallback = (case r of (v, ok, err) \<Rightarrow> if ok \<and> err = None then v else fallback)"

definition get_env_int :: "environ \<Rightarrow> string \<Rightarrow> int \<Rightarrow> int" where
  "get_env_int env key fallback = value_or (lookup_env_int env key) fallback"

definition get_env_bool :: "environ \<Rightarrow> string \<Rightarrow> bool \<Rightarrow> bool" where
  "get_env_bool env key fallback = value_or (lookup_env_bool env key) fallback"

definition get_env_duration :: "(string \<Rightarrow> int option) \<Rightarrow> environ \<Rightarrow> string \<Rightarrow> int \<Rightarrow> int" where
  "get_env_duration parse_duration env key fallback = value_or (lookup_env_duration parse_duration env key) fallback"

section \<open>The configuration of the application\<close>

definition env_env :: string where "env_env = ''CRM_ENV''"

definition env_port :: string where "env_port = ''CRM_PORT''"

definition env_session_key :: string where "env_session_key = ''CRM_SESSION_KEY''"

definition env_admin_password :: string where "env_admin_password = ''CRM_ADMIN_PASSWORD''"

definition env_user_password :: string where "env_user_password = ''CRM_USER_PASSWORD''"

definition env_log_level :: string where "env_log_level = ''CRM_LOG_LEVEL''"

definition env_login_limit :: string where "env_login_limit = ''CRM_LOGIN_RATE_LIMIT''"

definition development :: string where "development = ''development''"

definition production :: string where "production = ''production''"

definition dev_admin_password :: string where "dev_admin_password = ''admin123''"

definition dev_user_password :: string where "dev_user_password = ''user123''"

record crm_config =
  cc_env :: string
  cc_port :: int
  cc_session_key :: string
  cc_key_generated :: bool
  cc_admin_password :: string
  cc_user_password :: string
  cc_default_passwords :: bool
  cc_log_level :: string
  cc_login_limit :: int

definition is_production :: "crm_config \<Rightarrow> bool" where
  "is_production c \<longleftrightarrow> cc_env c = production"

definition secure_cookies :: "crm_config \<Rightarrow> bool" where
  "secure_cookies c \<longleftrightarrow> is_production c"

definition config_addr :: "crm_config \<Rightarrow> string" where
  "config_addr c = '':'' @ itoa_int (cc_port c)"

text \<open>\<open>random n\<close> is what \<open>rand.Read\<close> fills \<open>n\<close> bytes with.\<close>

definition random_key :: "(nat \<Rightarrow> gerr + string) \<Rightarrow> int \<Rightarrow> config_error + string" where
  "random_key random n =
     (if n \<le> 0 then Inl Bad_key_length
      else (case random (nat n) of Inl e \<Rightarrow> Inl (Key_random e) | Inr b \<Rightarrow> Inr b))"

text \<open>The name of the environment, the limit of attempts, the port, the key and the passwords, in this order.\<close>

definition load_env :: "string \<Rightarrow> config_error + string" where
  "load_env e =
     (if e = development \<or> e = production then Inr e
      else if e = ''dev'' \<or> e = [] then Inr development
      else if e = ''prod'' then Inr production
      else Inl (Unknown_env e))"

definition load_limit :: "environ \<Rightarrow> config_error + int" where
  "load_limit env =
     (case lookup_env_int env env_login_limit of
        (_, _, Some e) \<Rightarrow> Inl e
      | (n, ok, None) \<Rightarrow> if ok then (if n < 0 then Inl Limit_negative else Inr n) else Inr 10)"

definition load_port :: "environ \<Rightarrow> config_error + int" where
  "load_port env =
     (case lookup_env_int env env_port of
        (_, _, Some e) \<Rightarrow> Inl e
      | (n, ok, None) \<Rightarrow> if ok then (if n < 1 \<or> 65535 < n then Inl (Port_out_of_range n) else Inr n) else Inr 8080)"

definition load_key :: "(nat \<Rightarrow> gerr + string) \<Rightarrow> environ \<Rightarrow> bool \<Rightarrow> config_error + string \<times> bool" where
  "load_key random env in_prod =
     (let key = get_env env env_session_key [] in
      if key \<noteq> [] \<and> 32 \<le> length key then Inr (key, False)
      else if in_prod then (if key = [] then Inl Key_required else Inl (Key_too_short (length key)))
      else if key \<noteq> [] then Inl (Key_too_short (length key))
      else res_bind (random_key random 64) (\<lambda>k. Inr (k, True)))"

definition load_config :: "(nat \<Rightarrow> gerr + string) \<Rightarrow> environ \<Rightarrow> config_error + crm_config" where
  "load_config random env =
     res_bind (load_env (go_lower (trim_space (get_env env env_env development)))) (\<lambda>e.
     res_bind (load_limit env) (\<lambda>limit.
     res_bind (load_port env) (\<lambda>port.
     res_bind (load_key random env (e = production)) (\<lambda>(key, generated).
       (let admin = get_env env env_admin_password []; user = get_env env env_user_password [] in
        if e = production \<and> (admin = [] \<or> user = []) then Inl Passwords_required
        else Inr \<lparr>cc_env = e, cc_port = port, cc_session_key = key, cc_key_generated = generated,
          cc_admin_password = (if admin = [] then dev_admin_password else admin),
          cc_user_password = (if user = [] then dev_user_password else user),
          cc_default_passwords = (admin = [] \<or> user = []),
          cc_log_level = go_lower (get_env env env_log_level ''info''), cc_login_limit = limit\<rparr>)))))"

section \<open>What a loaded configuration guarantees\<close>

lemma load_env_names: "load_env e = Inr n \<Longrightarrow> n = development \<or> n = production"
  by (auto simp: load_env_def split: if_splits)

lemma load_limit_bounds: "load_limit env = Inr n \<Longrightarrow> 0 \<le> n"
  by (auto simp: load_limit_def split: prod.splits option.splits if_splits)

lemma load_port_bounds: "load_port env = Inr n \<Longrightarrow> 1 \<le> n \<and> n \<le> 65535"
  by (auto simp: load_port_def split: prod.splits option.splits if_splits)

lemma load_key_cases:
  assumes "load_key random env in_prod = Inr (key, generated)"
  shows "if generated then \<not> in_prod \<and> get_env env env_session_key [] = [] \<and> random 64 = Inr key
    else env env_session_key = Some key \<and> 32 \<le> length key"
  using assms
  by (auto simp: load_key_def get_env_def random_key_def Let_def res_bind_def split: if_splits option.splits sum.splits)

text \<open>
  (C40) A configuration that \<open>Load\<close> returns names one of two environments, has a port and a limit in their ranges and a
  session key of at least 32 bytes, where the random source fills the bytes asked for. In production the
  key and both passwords are those of the environment: none was generated and none is the default one by omission.
\<close>

theorem loaded_config_safe:
  assumes "load_config random env = Inr c" and "\<And>n b. random n = Inr b \<Longrightarrow> length b = n"
  shows "cc_env c \<in> {development, production} \<and> 1 \<le> cc_port c \<and> cc_port c \<le> 65535 \<and> 0 \<le> cc_login_limit c
    \<and> 32 \<le> length (cc_session_key c) \<and> cc_admin_password c \<noteq> [] \<and> cc_user_password c \<noteq> []
    \<and> (is_production c \<longrightarrow> \<not> cc_key_generated c \<and> \<not> cc_default_passwords c \<and> secure_cookies c
         \<and> env env_session_key = Some (cc_session_key c) \<and> env env_admin_password = Some (cc_admin_password c)
         \<and> env env_user_password = Some (cc_user_password c))"
proof -
  obtain e limit port key generated where e: "load_env (go_lower (trim_space (get_env env env_env development))) = Inr e"
    and l: "load_limit env = Inr limit" and p: "load_port env = Inr port"
    and k: "load_key random env (e = production) = Inr (key, generated)"
    using assms(1) by (auto simp: load_config_def res_bind_def split: sum.splits)
  let ?admin = "get_env env env_admin_password []" and ?user = "get_env env env_user_password []"
  have c: "c = \<lparr>cc_env = e, cc_port = port, cc_session_key = key, cc_key_generated = generated,
      cc_admin_password = (if ?admin = [] then dev_admin_password else ?admin),
      cc_user_password = (if ?user = [] then dev_user_password else ?user),
      cc_default_passwords = (?admin = [] \<or> ?user = []),
      cc_log_level = go_lower (get_env env env_log_level ''info''), cc_login_limit = limit\<rparr>"
    and pw: "e = production \<Longrightarrow> ?admin \<noteq> [] \<and> ?user \<noteq> []"
    using assms(1) [unfolded load_config_def e l p res_bind_def sum.case k prod.case Let_def] by (auto split: if_splits)
  have "32 \<le> length key" using load_key_cases [OF k] assms(2) [of 64 key] by (auto split: if_splits)
  moreover have "env env_session_key = Some key \<and> \<not> generated" if "e = production"
    using load_key_cases [OF k] that by (auto split: if_splits)
  moreover have "env n = Some (get_env env n [])" if "get_env env n [] \<noteq> []" for n
    using that by (auto simp: get_env_def split: option.splits)
  ultimately show ?thesis
    using load_env_names [OF e] load_limit_bounds [OF l] load_port_bounds [OF p] pw
    by (auto simp: c is_production_def secure_cookies_def dev_admin_password_def dev_user_password_def)
qed

definition demo_environ :: environ where
  "demo_environ = [env_env \<mapsto> '' Prod '', env_session_key \<mapsto> replicate 40 (CHR ''k''), env_admin_password \<mapsto> ''a1'', env_user_password \<mapsto> ''u1'']"

theorem loaded_config_safe_witness:
  "\<exists>c. load_config (\<lambda>n. Inl (err_new ''no source'')) demo_environ = Inr c \<and> is_production c \<and> \<not> cc_key_generated c
    \<and> demo_environ env_session_key = Some (cc_session_key c) \<and> cc_port c = 8080"
proof -
  have l: "load_config (\<lambda>n. Inl (err_new ''no source'')) demo_environ = Inr \<lparr>cc_env = production, cc_port = 8080,
      cc_session_key = replicate 40 (CHR ''k''), cc_key_generated = False, cc_admin_password = ''a1'', cc_user_password = ''u1'',
      cc_default_passwords = False, cc_log_level = ''info'', cc_login_limit = 10\<rparr>"
    by code_simp
  show ?thesis using loaded_config_safe [OF l] l by (simp add: is_production_def)
qed

text \<open>In production a short key, a missing key and a missing password are errors.\<close>

lemma production_refuses:
  assumes "load_env (go_lower (trim_space (get_env env env_env development))) = Inr production"
    and "length (get_env env env_session_key []) < 32 \<or> get_env env env_admin_password [] = [] \<or> get_env env env_user_password [] = []"
  shows "\<exists>err. load_config random env = Inl err"
proof (cases "load_config random env")
  case (Inr c)
  then obtain key generated where k: "load_key random env True = Inr (key, generated)"
    using assms(1) by (auto simp: load_config_def res_bind_def split: sum.splits)
  from load_key_cases [OF k] have "32 \<le> length (get_env env env_session_key [])" by (auto simp: get_env_def split: if_splits)
  with Inr assms show ?thesis by (auto simp: load_config_def res_bind_def Let_def split: sum.splits if_splits)
qed simp

end
