(* ===== verification/Collection.thy ===== *)
theory Collection
  imports Prelude "HOL-Library.Multiset" "HOL-Library.Signed_Division"
begin

text \<open>
  \<open>pkg/collection\<close>: functions on slices. A \<open>comparable\<close> element is a value of a type whose equality
  is Go's \<open>==\<close>. \<open>CompareBy\<close> is \<open>CompareByTyped\<close> with its pairs as \<open>[2]any\<close>.
\<close>

section \<open>Searching and removing duplicates\<close>

fun contains :: "'a list \<Rightarrow> 'a \<Rightarrow> bool" where
  "contains [] v = False"
| "contains (x # xs) v = (if x = v then True else contains xs v)"

fun index_from :: "nat \<Rightarrow> 'a list \<Rightarrow> 'a \<Rightarrow> int" where
  "index_from i [] v = - 1"
| "index_from i (x # xs) v = (if x = v then int i else index_from (Suc i) xs v)"

definition index_of :: "'a list \<Rightarrow> 'a \<Rightarrow> int" where
  "index_of arr v = index_from 0 arr v"

fun dedup_loop :: "'a list \<Rightarrow> 'a set \<Rightarrow> 'a list \<Rightarrow> 'a list" where
  "dedup_loop [] seen out = out"
| "dedup_loop (x # xs) seen out =
     (if x \<notin> seen then dedup_loop xs (insert x seen) (out @ [x]) else dedup_loop xs seen out)"

definition dedup :: "'a list \<Rightarrow> 'a list" where
  "dedup arr = dedup_loop arr {} []"

lemma contains_set: "contains arr v \<longleftrightarrow> v \<in> set arr"
  by (induction arr) auto

lemma index_from_first:
  "index_from i arr v = (if v \<in> set arr then int (i + length (takeWhile (\<lambda>x. x \<noteq> v) arr)) else - 1)"
  by (induction arr arbitrary: i) auto

text \<open>The first index, or \<open>-1\<close>; a value is contained where it has an index.\<close>

lemma index_of_contains: "contains arr v \<longleftrightarrow> index_of arr v \<noteq> - 1"
  by (simp add: contains_set index_of_def index_from_first)

lemma dedup_loop_keeps:
  "distinct out \<Longrightarrow> set out = seen \<Longrightarrow> distinct (dedup_loop arr seen out) \<and> set (dedup_loop arr seen out) = seen \<union> set arr"
  by (induction arr seen out rule: dedup_loop.induct) auto

lemma dedup_values: "distinct (dedup arr)" "set (dedup arr) = set arr"
  using dedup_loop_keeps [of "[]" "{}" arr] by (simp_all add: dedup_def)

section \<open>Chunks\<close>

text \<open>
  The loop over \<open>i\<close>; \<open>chunk\<close> is \<open>None\<close> where \<open>make\<close> panics because the capacity is negative. The sum in the
  capacity wraps around; \<open>i\<close> does not, as it grows only while another chunk is left.
\<close>

function chunks_from :: "'a list \<Rightarrow> nat \<Rightarrow> nat \<Rightarrow> 'a list list" where
  "chunks_from arr n i =
     (if 0 < n \<and> i < length arr then
        (let stop = (if n < length arr - i then i + n else length arr) in
         take (stop - i) (drop i arr) # chunks_from arr n (i + n))
      else [])"
  by auto
termination
  by (relation "measure (\<lambda>(arr, n, i). length arr - i)") auto

declare chunks_from.simps [simp del]

definition chunk :: "'a list \<Rightarrow> int \<Rightarrow> 'a list list option" where
  "chunk arr n =
     (if n \<le> 0 \<or> arr = [] then Some []
      else if wrap64 (int (length arr) + n - 1) sdiv n < 0 then None
      else Some (chunks_from arr (nat n) 0))"

lemma chunks_from_step: "0 < n \<Longrightarrow> i < length arr \<Longrightarrow>
    chunks_from arr n i = take n (drop i arr) # chunks_from arr n (i + n)"
  by (subst chunks_from.simps) (simp add: Let_def)

lemma chunks_from_end: "length arr \<le> i \<Longrightarrow> chunks_from arr n i = []"
  by (subst chunks_from.simps) simp

text \<open>Nothing is lost, no chunk is too long, and only the last one may be shorter.\<close>

lemma chunks_from_spec:
  assumes "0 < n" "i < length arr"
  shows "concat (chunks_from arr n i) = drop i arr \<and> list_all (\<lambda>c. length c = n) (butlast (chunks_from arr n i))
    \<and> chunks_from arr n i \<noteq> [] \<and> last (chunks_from arr n i) \<noteq> [] \<and> length (last (chunks_from arr n i)) \<le> n"
  using assms
proof (induction arr n i rule: chunks_from.induct)
  case (1 arr n i)
  note step = chunks_from_step [OF 1(2,3)]
  show ?case
  proof (cases "i + n < length arr")
    case True
    then have "concat (chunks_from arr n (i + n)) = drop (i + n) arr \<and> list_all (\<lambda>c. length c = n) (butlast (chunks_from arr n (i + n)))
        \<and> chunks_from arr n (i + n) \<noteq> [] \<and> last (chunks_from arr n (i + n)) \<noteq> [] \<and> length (last (chunks_from arr n (i + n))) \<le> n"
      using 1 by simp
    moreover have "take n (drop i arr) @ drop (i + n) arr = drop i arr"
      by (metis append_take_drop_id drop_drop add.commute)
    ultimately show ?thesis using True by (auto simp: step)
  next
    case False
    with 1(2,3) show ?thesis by (simp add: step chunks_from_end)
  qed
qed

lemma capacity_negative:
  assumes "0 < n" "n < 2 ^ 63" "0 < k" "k < 2 ^ 63"
  shows "wrap64 (k + n - 1) sdiv n < 0 \<longleftrightarrow> 2 ^ 63 < k + n \<and> k + 2 * n \<le> 2 ^ 64 + 1"
proof (cases "k + n - 1 < 2 ^ 63")
  case True
  then have "wrap64 (k + n - 1) = k + n - 1" using assms by (intro wrap64_id) auto
  moreover have "0 \<le> (k + n - 1) sdiv n" using assms by (simp add: signed_divide_int_def sgn_if pos_imp_zdiv_nonneg_iff)
  ultimately show ?thesis using True by simp
next
  case False
  have "wrap64 (k + n - 1) = (k + n - 1 - 2 ^ 63) mod 2 ^ 64 - 2 ^ 63"
    using mod_add_self2 [of "k + n - 1 - 2 ^ 63" "2 ^ 64 :: int"] by (simp add: wrap64_def algebra_simps)
  also have "(k + n - 1 - 2 ^ 63) mod 2 ^ 64 = k + n - 1 - 2 ^ 63"
    using False assms by (intro mod_pos_pos_trivial) auto
  finally have w: "wrap64 (k + n - 1) = - (2 ^ 64 + 1 - k - n)" by simp
  have pos: "0 < 2 ^ 64 + 1 - k - n" using assms by simp
  have "wrap64 (k + n - 1) sdiv n = - ((2 ^ 64 + 1 - k - n) div n)"
    unfolding w signed_divide_int_def using pos assms(1) by (simp add: sgn_if)
  moreover have "0 < (2 ^ 64 + 1 - k - n) div n \<longleftrightarrow> n \<le> 2 ^ 64 + 1 - k - n"
    using assms(1) pos by (simp add: pos_imp_zdiv_pos_iff)
  ultimately show ?thesis using False by auto
qed

text \<open>
  \<open>Chunk\<close> gives back the slice in chunks of \<open>n\<close> elements, of which the last may be shorter, or it panics:
  where \<open>n\<close> is so close to the greatest \<open>int\<close> that the length with \<open>n\<close> exceeds it, and not by too much.
\<close>

theorem chunk_spec:
  assumes "0 < n" "n < 2 ^ 63" "arr \<noteq> []" "int (length arr) < 2 ^ 63"
  shows "case chunk arr n of
      None \<Rightarrow> 2 ^ 63 < int (length arr) + n \<and> int (length arr) + 2 * n \<le> 2 ^ 64 + 1
    | Some cs \<Rightarrow> concat cs = arr \<and> list_all (\<lambda>c. int (length c) = n) (butlast cs) \<and> last cs \<noteq> [] \<and> int (length (last cs)) \<le> n"
proof -
  have "0 < int (length arr)" using assms(3) by simp
  note cap = capacity_negative [OF assms(1,2) this assms(4)]
  show ?thesis
    using chunks_from_spec [of "nat n" 0 arr] assms(1,3) cap by (auto simp: chunk_def list_all_iff)
qed

theorem chunk_spec_witness:
  "chunk [1, 2, 3, 4, 5 :: nat] 2 = Some [[1, 2], [3, 4], [5]] \<and> concat [[1, 2], [3, 4], [5]] = [1, 2, 3, 4, 5 :: nat]"
proof -
  have c: "chunk [1, 2, 3, 4, 5 :: nat] 2 = Some [[1, 2], [3, 4], [5]]"
    by (simp add: chunk_def wrap64_def signed_divide_int_def chunks_from.simps)
  show ?thesis using chunk_spec [of 2 "[1, 2, 3, 4, 5 :: nat]"] c by simp
qed

text \<open>Two elements in chunks of the greatest \<open>int\<close>: a panic.\<close>

lemma chunk_max_int_panics: "chunk [a, b] (2 ^ 63 - 1) = None"
  by (simp add: chunk_def wrap64_def signed_divide_int_def)


section \<open>Matching two slices\<close>

text \<open>The first element of \<open>b\<close> that is not matched yet and fits, with its index; \<open>marks\<close> is \<open>matchedB\<close>.\<close>

fun first_free :: "('a \<Rightarrow> 'b \<Rightarrow> bool) \<Rightarrow> 'a \<Rightarrow> ('b \<times> bool) list \<Rightarrow> nat \<Rightarrow> (nat \<times> 'b) option" where
  "first_free cmp x [] j = None"
| "first_free cmp x ((y, m) # ys) j = (if \<not> m \<and> cmp x y then Some (j, y) else first_free cmp x ys (Suc j))"

fun compare_loop ::
  "('a \<Rightarrow> 'b \<Rightarrow> bool) \<Rightarrow> 'b list \<Rightarrow> 'a list \<Rightarrow> bool list \<Rightarrow> ('a \<times> 'b) list \<Rightarrow> 'a list \<Rightarrow> ('a \<times> 'b) list \<times> 'a list \<times> bool list" where
  "compare_loop cmp b [] marks matches only_a = (matches, only_a, marks)"
| "compare_loop cmp b (x # xs) marks matches only_a =
     (case first_free cmp x (zip b marks) 0 of
        Some (j, y) \<Rightarrow> compare_loop cmp b xs (marks[j := True]) (matches @ [(x, y)]) only_a
      | None \<Rightarrow> compare_loop cmp b xs marks matches (only_a @ [x]))"

definition unmatched :: "'b list \<Rightarrow> bool list \<Rightarrow> 'b list" where
  "unmatched b marks = map fst (filter (\<lambda>(y, m). \<not> m) (zip b marks))"

definition compare_by_typed :: "('a \<Rightarrow> 'b \<Rightarrow> bool) \<Rightarrow> 'a list \<Rightarrow> 'b list \<Rightarrow> ('a \<times> 'b) list \<times> 'a list \<times> 'b list" where
  "compare_by_typed cmp a b =
     (case compare_loop cmp b a (replicate (length b) False) [] [] of
        (matches, only_a, marks) \<Rightarrow> (matches, only_a, unmatched b marks))"

lemma first_free_Some:
  "first_free cmp x ys i = Some (j, y) \<Longrightarrow> i \<le> j \<and> j - i < length ys \<and> ys ! (j - i) = (y, False) \<and> cmp x y"
proof (induction cmp x ys i rule: first_free.induct)
  case (2 cmp x y' m ys i)
  then show ?case by (auto simp: Suc_diff_le nth_Cons' split: if_splits)
qed simp

lemma first_free_None: "first_free cmp x ys i = None \<Longrightarrow> (y, False) \<in> set ys \<Longrightarrow> \<not> cmp x y"
  by (induction cmp x ys i rule: first_free.induct) (auto split: if_splits)

lemma unmatched_iff: "y \<in> set (unmatched b marks) \<longleftrightarrow> (y, False) \<in> set (zip b marks)"
  by (force simp: unmatched_def)

lemma unmatched_mark:
  "j < length b \<Longrightarrow> length marks = length b \<Longrightarrow> \<not> marks ! j \<Longrightarrow>
    mset (unmatched b marks) = add_mset (b ! j) (mset (unmatched b (marks[j := True])))"
proof (induction b marks arbitrary: j rule: list_induct2')
  case (4 y ys m ms)
  then show ?case by (cases j) (auto simp: unmatched_def)
qed simp_all

text \<open>What holds when the loop has gone through \<open>a\<close>.\<close>

definition matching ::
  "('a \<Rightarrow> 'b \<Rightarrow> bool) \<Rightarrow> 'a list \<Rightarrow> 'b list \<Rightarrow> bool list \<Rightarrow> ('a \<times> 'b) list \<Rightarrow> 'a list \<Rightarrow> bool" where
  "matching cmp a b marks matches only_a \<longleftrightarrow> length marks = length b
     \<and> mset a = mset (map fst matches) + mset only_a \<and> mset b = mset (map snd matches) + mset (unmatched b marks)
     \<and> (\<forall>(x, y)\<in>set matches. cmp x y) \<and> (\<forall>x\<in>set only_a. \<forall>y\<in>set (unmatched b marks). \<not> cmp x y)"

lemma matching_left:
  assumes "matching cmp a b marks matches only_a" "first_free cmp x (zip b marks) 0 = None"
  shows "matching cmp (a @ [x]) b marks matches (only_a @ [x])"
proof -
  have "\<not> cmp x y" if "y \<in> set (unmatched b marks)" for y
    using that assms(2) by (simp add: unmatched_iff first_free_None)
  with assms(1) show ?thesis by (simp add: matching_def ball_Un)
qed

lemma matching_pair:
  assumes m: "matching cmp a b marks matches only_a" and f: "first_free cmp x (zip b marks) 0 = Some (j, y)"
  shows "matching cmp (a @ [x]) b (marks[j := True]) (matches @ [(x, y)]) only_a"
proof -
  have len: "length marks = length b" using m by (simp add: matching_def)
  have j: "j < length b" "b ! j = y" "\<not> marks ! j" "cmp x y"
    using first_free_Some [OF f] len by auto
  have mark: "mset (unmatched b marks) = add_mset y (mset (unmatched b (marks[j := True])))"
    using unmatched_mark [OF j(1) len j(3)] j(2) by simp
  then have "set (unmatched b (marks[j := True])) \<subseteq> set (unmatched b marks)"
    by (metis set_mset_mset set_mset_add_mset_insert subset_insertI)
  with m j(4) len mark show ?thesis by (auto simp: matching_def)
qed

lemma compare_loop_matching:
  "matching cmp a b marks matches only_a \<Longrightarrow> compare_loop cmp b xs marks matches only_a = (matches', only_a', marks') \<Longrightarrow>
    matching cmp (a @ xs) b marks' matches' only_a'"
proof (induction xs arbitrary: a marks matches only_a)
  case (Cons x xs)
  show ?case
  proof (cases "first_free cmp x (zip b marks) 0")
    case None
    with Cons.IH [OF matching_left [OF Cons.prems(1) None]] Cons.prems(2) show ?thesis by simp
  next
    case (Some r)
    obtain j y where r: "r = (j, y)" by (cases r)
    with Cons.IH [OF matching_pair [OF Cons.prems(1)]] Some Cons.prems(2) show ?thesis by simp
  qed
qed simp

text \<open>
  A matching: both slices are split up, each element being in a pair or left over once; pairs fit; and no two elements
  that are left over fit.
\<close>

lemma compare_by_typed_matching:
  assumes "compare_by_typed cmp a b = (matches, only_a, only_b)"
  shows "mset a = mset (map fst matches) + mset only_a" and "mset b = mset (map snd matches) + mset only_b"
    and "\<forall>(x, y)\<in>set matches. cmp x y" and "\<forall>x\<in>set only_a. \<forall>y\<in>set only_b. \<not> cmp x y"
proof -
  obtain marks where l: "compare_loop cmp b a (replicate (length b) False) [] [] = (matches, only_a, marks)"
    and o: "only_b = unmatched b marks"
    using assms by (auto simp: compare_by_typed_def split: prod.splits)
  have "unmatched b (replicate (length b) False) = b"
    by (induction b) (auto simp: unmatched_def)
  then have "matching cmp [] b (replicate (length b) False) [] []" by (simp add: matching_def)
  from compare_loop_matching [OF this l] have m: "matching cmp a b marks matches only_a" by simp
  show "mset a = mset (map fst matches) + mset only_a" "mset b = mset (map snd matches) + mset only_b"
    "\<forall>(x, y)\<in>set matches. cmp x y" "\<forall>x\<in>set only_a. \<forall>y\<in>set only_b. \<not> cmp x y"
    using m by (simp_all add: matching_def o)
qed

end
