(* ===== verification/I18n_Check.thy ===== *)
theory I18n_Check
  imports Go_Base File_System "HOL-Library.AList" "HOL-Library.Multiset"
begin

text \<open>
  \<open>pkg/i18ncheck\<close>: the translation keys used in templates against those of the locale files
  (\<open>config.go\<close>, \<open>matcher.go\<close>, \<open>scanner.go\<close>, \<open>locale.go\<close>, \<open>report.go\<close>).

  Parameters: the directory tree with what reading a file answers, the matches of the compiled
  pattern in a text (its first group), doublestar patterns, decoded JSON documents and language tags.
  The workers of a scan take files in any order; each adds what it found under one lock, so a scan is
  a fold over some order of the files, and the result does not depend on that order.
\<close>

section \<open>Configuration\<close>

record check_config =
  ck_templates :: string
  ck_locale_glob :: string
  ck_pattern :: string
  ck_extensions :: "string list"
  ck_ignore :: "string list"
  ck_exclude :: "string list"
  ck_gitignore :: string
  ck_format :: string
  ck_fail_unused :: bool
  ck_show_usage :: bool
  ck_usage_filter :: string
  ck_workers :: int
  ck_required :: "string list"
  ck_strict :: bool
  ck_fail_locale :: bool
  ck_allow_dup :: "string list"
  ck_out :: string

text \<open>The values of the flags; the flag package parses them.\<close>

record raw_flags =
  fl_templates :: string
  fl_locales :: string
  fl_pattern :: string
  fl_ext :: string
  fl_ignore :: string
  fl_exclude :: string
  fl_gitignore :: string
  fl_format :: string
  fl_fail_unused :: bool
  fl_show_usage :: bool
  fl_usage_filter :: string
  fl_workers :: int
  fl_required :: string
  fl_strict :: bool
  fl_fail_locale :: bool
  fl_allow_dup :: string
  fl_out :: string

definition split_and_trim :: "string \<Rightarrow> string list" where
  "split_and_trim s = filter (\<lambda>p. p \<noteq> []) (map trim_space (split_on (CHR '','') s))"

datatype flag_error = Empty_pattern | Bad_format string | Bad_usage_filter string

definition config_of_flags :: "int \<Rightarrow> raw_flags \<Rightarrow> flag_error + check_config" where
  "config_of_flags cpus f =
     (let exts = split_and_trim (fl_ext f) in
      let cfg = \<lparr>ck_templates = fl_templates f, ck_locale_glob = fl_locales f, ck_pattern = fl_pattern f,
                 ck_extensions = (if exts = [] then [''.jet''] else exts), ck_ignore = split_and_trim (fl_ignore f),
                 ck_exclude = split_and_trim (fl_exclude f), ck_gitignore = fl_gitignore f, ck_format = go_lower (fl_format f),
                 ck_fail_unused = fl_fail_unused f, ck_show_usage = fl_show_usage f, ck_usage_filter = go_lower (fl_usage_filter f),
                 ck_workers = (if fl_workers f \<le> 0 then cpus else fl_workers f), ck_required = split_and_trim (fl_required f),
                 ck_strict = fl_strict f, ck_fail_locale = fl_fail_locale f, ck_allow_dup = split_and_trim (fl_allow_dup f),
                 ck_out = fl_out f\<rparr> in
      if ck_pattern cfg = [] then Inl Empty_pattern
      else if ck_format cfg \<noteq> ''text'' \<and> ck_format cfg \<noteq> ''json'' then Inl (Bad_format (ck_format cfg))
      else if ck_usage_filter cfg \<noteq> ''all'' \<and> ck_usage_filter cfg \<noteq> ''missing'' then Inl (Bad_usage_filter (ck_usage_filter cfg))
      else Inr cfg)"

section \<open>Paths that are left out\<close>

record git_rule =
  gr_pattern :: string
  gr_negate :: bool
  gr_anchored :: bool
  gr_dir_only :: bool

definition drop_suffix :: "string \<Rightarrow> string \<Rightarrow> string" where
  "drop_suffix p s = (if has_suffix p s then take (length s - length p) s else s)"

definition git_line :: "string \<Rightarrow> git_rule option" where
  "git_line raw =
     (let l = trim_space raw in
      if l = [] \<or> has_prefix ''#'' l then None
      else
        (let neg = has_prefix ''!'' l; l1 = trim_prefix ''!'' l;
             anch = has_prefix ''/'' l1; l2 = trim_prefix ''/'' l1;
             dir = has_suffix ''/'' l2; l3 = drop_suffix ''/'' l2 in
         if l3 = [] then None else Some \<lparr>gr_pattern = l3, gr_negate = neg, gr_anchored = anch, gr_dir_only = dir\<rparr>))"

text \<open>The lines of the file, or the error of opening or scanning it.\<close>

definition load_gitignore :: "(string \<Rightarrow> string + string list) \<Rightarrow> string \<Rightarrow> string + git_rule list" where
  "load_gitignore lines path = (if path = [] then Inr [] else res_bind (lines path) (\<lambda>ls. Inr (List.map_filter git_line ls)))"

definition glob_match :: "(string \<Rightarrow> string \<Rightarrow> bool) \<Rightarrow> bool \<Rightarrow> string \<Rightarrow> string \<Rightarrow> bool" where
  "glob_match glob anch pat rel = (if anch then glob pat rel else glob pat rel \<or> glob (''**/'' @ pat) rel)"

definition git_match :: "(string \<Rightarrow> string \<Rightarrow> bool) \<Rightarrow> git_rule list \<Rightarrow> string \<Rightarrow> bool \<Rightarrow> bool" where
  "git_match glob rules rel is_dir =
     fold (\<lambda>r ignored.
         if gr_dir_only r \<and> \<not> is_dir then ignored
         else if glob_match glob (gr_anchored r) (gr_pattern r) rel then \<not> gr_negate r
         else ignored) rules False"

record path_excluder =
  px_excludes :: "string list"
  px_git :: "git_rule list"

definition new_path_excluder :: "string list \<Rightarrow> git_rule list \<Rightarrow> path_excluder" where
  "new_path_excluder ex git = \<lparr>px_excludes = filter (\<lambda>e. e \<noteq> []) (map trim_space ex), px_git = git\<rparr>"

definition exclude_hit :: "(string \<Rightarrow> string \<Rightarrow> bool) \<Rightarrow> string \<Rightarrow> bool \<Rightarrow> string \<Rightarrow> bool" where
  "exclude_hit glob rel is_dir e =
     (let anch = has_prefix ''/'' e; pat0 = trim_prefix ''/'' e;
          dir = has_suffix ''/'' pat0; pat = drop_suffix ''/'' pat0 in
      if dir \<and> \<not> is_dir then False else glob_match glob anch pat rel)"

definition should_exclude :: "(string \<Rightarrow> string \<Rightarrow> bool) \<Rightarrow> path_excluder \<Rightarrow> string \<Rightarrow> bool \<Rightarrow> bool" where
  "should_exclude glob p rel is_dir \<longleftrightarrow>
     (\<exists>e\<in>set (px_excludes p). exclude_hit glob rel is_dir e) \<or> git_match glob (px_git p) rel is_dir"

section \<open>Scanning the templates\<close>

text \<open>The tree below the root in the order of \<open>WalkDir\<close>; a directory that cannot be read has its error.\<close>

datatype tree_entry = Entry_file string | Entry_dir string "tree_entry list" | Entry_bad string string

definition rel_join :: "string \<Rightarrow> string \<Rightarrow> string" where
  "rel_join up name = (if up = [] then name else up @ ''/'' @ name)"

definition has_ext :: "string \<Rightarrow> string list \<Rightarrow> bool" where
  "has_ext path exts \<longleftrightarrow> exts = [] \<or> fp_ext path \<in> set exts"

fun walk_entries :: "(string \<Rightarrow> bool \<Rightarrow> bool) \<Rightarrow> string list \<Rightarrow> string \<Rightarrow> tree_entry list \<Rightarrow> string + string list" where
  "walk_entries ex exts up [] = Inr []"
| "walk_entries ex exts up (Entry_file name # es) =
     (let rel = rel_join up name in
      res_bind (walk_entries ex exts up es) (\<lambda>fs. Inr (if \<not> ex rel False \<and> has_ext rel exts then rel # fs else fs)))"
| "walk_entries ex exts up (Entry_dir name sub # es) =
     (let rel = rel_join up name in
      res_bind (if ex rel True then Inr [] else walk_entries ex exts rel sub) (\<lambda>fs.
        res_bind (walk_entries ex exts up es) (\<lambda>gs. Inr (fs @ gs))))"
| "walk_entries ex exts up (Entry_bad name e # es) =
     (if ex (rel_join up name) True then walk_entries ex exts up es else Inl e)"

record collect_result =
  cr_keys :: "string set"
  cr_usage :: "string \<rightharpoonup> string list"
  cr_read_errors :: "string list"

definition add_match :: "string \<Rightarrow> string \<Rightarrow> collect_result \<Rightarrow> collect_result" where
  "add_match rel k res =
     (let lst = (case cr_usage res k of Some l \<Rightarrow> l | None \<Rightarrow> []) in
      res\<lparr>cr_keys := insert k (cr_keys res),
          cr_usage := (if rel \<in> set lst then cr_usage res else (cr_usage res)(k \<mapsto> lst @ [rel]))\<rparr>)"

text \<open>A worker takes a file: what it found is added while the lock is held.\<close>

definition scan_file ::
  "(string \<Rightarrow> string + string) \<Rightarrow> (string \<Rightarrow> string list) \<Rightarrow> string \<Rightarrow> string \<Rightarrow> collect_result \<Rightarrow> collect_result" where
  "scan_file read matches base rel res =
     (case read rel of
        Inl e \<Rightarrow> res\<lparr>cr_read_errors := cr_read_errors res @ [fp_join base rel @ '': '' @ e]\<rparr>
      | Inr b \<Rightarrow> fold (add_match rel) (matches b) res)"

definition collect_files ::
  "(string \<Rightarrow> string + string) \<Rightarrow> (string \<Rightarrow> string list) \<Rightarrow> string \<Rightarrow> string list \<Rightarrow> collect_result" where
  "collect_files read matches base files =
     (let res = fold (scan_file read matches base) files \<lparr>cr_keys = {}, cr_usage = Map.empty, cr_read_errors = []\<rparr> in
      res\<lparr>cr_usage := (\<lambda>k. map_option sort (cr_usage res k)), cr_read_errors := sort (cr_read_errors res)\<rparr>)"


record check_lib =
  kl_compile :: "string \<Rightarrow> string + nat \<times> (string \<Rightarrow> string list)" \<comment> \<open>number of groups, and the first group of every match\<close>
  kl_stat :: "string \<Rightarrow> string option"
  kl_tree :: "string \<Rightarrow> tree_entry list"
  kl_lines :: "string \<Rightarrow> string + string list"
  kl_glob :: "string \<Rightarrow> string \<Rightarrow> bool"
  kl_glob_files :: "string \<Rightarrow> string + string list"
  kl_read :: "string \<Rightarrow> string + string"
  kl_decode :: "string \<Rightarrow> string + gval"
  kl_lang :: "string \<Rightarrow> string option"

datatype check_error = Bad_regex string | No_group string | Bad_gitignore string | No_templates string string | Walk_failed string
  | Bad_glob string | No_locale_files string | Locale_unreadable string | Empty_locale string | Bad_json string string | Bad_root string

definition template_excluder :: "check_lib \<Rightarrow> check_config \<Rightarrow> check_error + path_excluder" where
  "template_excluder L cfg =
     (let path = (if ck_gitignore cfg = [] \<or> is_rooted (ck_gitignore cfg) then ck_gitignore cfg
                  else fp_join (ck_templates cfg) (ck_gitignore cfg)) in
      case load_gitignore (kl_lines L) path of
        Inl e \<Rightarrow> Inl (Bad_gitignore e)
      | Inr rules \<Rightarrow> Inr (new_path_excluder (ck_exclude cfg) rules))"

definition template_files :: "check_lib \<Rightarrow> check_config \<Rightarrow> check_error + string list" where
  "template_files L cfg =
     res_bind (template_excluder L cfg) (\<lambda>ex.
       case kl_stat L (ck_templates cfg) of
         Some e \<Rightarrow> Inl (No_templates (ck_templates cfg) e)
       | None \<Rightarrow>
           (case walk_entries (should_exclude (kl_glob L) ex) (ck_extensions cfg) [] (kl_tree L (ck_templates cfg)) of
              Inl e \<Rightarrow> Inl (Walk_failed e)
            | Inr files \<Rightarrow> Inr files))"

text \<open>\<open>order\<close> is the order in which the workers add what they found.\<close>

definition collect_template_keys ::
  "check_lib \<Rightarrow> (string list \<Rightarrow> string list) \<Rightarrow> check_config \<Rightarrow> check_error + collect_result" where
  "collect_template_keys L order cfg =
     (case kl_compile L (ck_pattern cfg) of
        Inl e \<Rightarrow> Inl (Bad_regex e)
      | Inr (groups, matches) \<Rightarrow>
          if groups < 1 then Inl (No_group (ck_pattern cfg))
          else
            res_bind (template_files L cfg) (\<lambda>files.
              Inr (collect_files (\<lambda>rel. kl_read L (fp_join (ck_templates cfg) rel)) matches (ck_templates cfg) (order files))))"

section \<open>The keys of the locale files\<close>

datatype invalid_reason = Not_an_object | No_id | Missing_field string | Extra_field string | Empty_message | Null_message
  | Mixed_object | No_message_text | Empty_object | Unsupported_value

record locale_invalid =
  li_file :: string
  li_index :: int
  li_key :: string
  li_reason :: invalid_reason

definition plural_keys :: "string list" where
  "plural_keys = [''translation'', ''other'', ''zero'', ''one'', ''two'', ''few'', ''many'']"

definition reserved_keys :: "string list" where
  "reserved_keys = [''id'', ''description'', ''hash'', ''leftdelim'', ''rightdelim'', ''zero'', ''one'', ''two'', ''few'', ''many'',
     ''other'', ''translation'']"

definition allowed_by_prefix :: "string \<Rightarrow> string list \<Rightarrow> bool" where
  "allowed_by_prefix i ps \<longleftrightarrow> (\<exists>p\<in>set ps. p \<noteq> [] \<and> has_prefix p i)"

definition required_missing :: "(string \<times> gval) list \<Rightarrow> string \<Rightarrow> bool" where
  "required_missing obj rf \<longleftrightarrow> rf \<noteq> [] \<and>
     (case map_of obj rf of None \<Rightarrow> True | Some v \<Rightarrow> v = VNil \<or> v = VStr [])"

fun collect_array :: "string \<Rightarrow> int \<Rightarrow> gval list \<Rightarrow> string list \<Rightarrow> bool \<Rightarrow> string list \<times> locale_invalid list" where
  "collect_array p i [] required strict = ([], [])"
| "collect_array p i (item # items) required strict =
     (let (ids, bad) = collect_array p (i + 1) items required strict;
          inv = (\<lambda>k r. \<lparr>li_file = p, li_index = i, li_key = k, li_reason = r\<rparr>) in
      case item of
        VMap obj \<Rightarrow>
          (case map_of obj ''id'' of
             Some (VStr idv) \<Rightarrow>
               if idv = [] then (ids, inv [] No_id # bad)
               else
                 (let missing = filter (required_missing obj) required in
                  if missing \<noteq> [] then (ids, map (\<lambda>rf. inv idv (Missing_field rf)) missing @ bad)
                  else
                    (let extra = (if strict then filter (\<lambda>k. k \<noteq> ''id'' \<and> k \<notin> set required) (sort (remdups (map fst obj))) else []) in
                     (idv # ids, map (\<lambda>k. inv idv (Extra_field k)) extra @ bad)))
           | _ \<Rightarrow> (ids, inv [] No_id # bad))
      | _ \<Rightarrow> (ids, inv [] Not_an_object # bad))"

definition is_reserved :: "string \<Rightarrow> gval \<Rightarrow> bool" where
  "is_reserved k v \<longleftrightarrow> go_lower k \<in> set reserved_keys \<and> (k = ''translation'' \<or> (\<exists>s. v = VStr s))"

text \<open>Whether an object is a message, and whether it mixes the fields of one with other keys.\<close>

definition classify_object :: "(string \<times> gval) list \<Rightarrow> bool \<times> bool" where
  "classify_object m =
     (let reserved = (\<exists>(k, v)\<in>set m. is_reserved k v); other = (\<exists>(k, v)\<in>set m. \<not> is_reserved k v) in
      (reserved \<and> \<not> other, reserved \<and> other))"

definition has_message_text :: "(string \<times> gval) list \<Rightarrow> bool" where
  "has_message_text m \<longleftrightarrow> (\<exists>(k, v)\<in>set m. go_lower k \<in> set plural_keys \<and> (\<exists>s. v = VStr s \<and> s \<noteq> []))"

definition sorted_entries :: "(string \<times> gval) list \<Rightarrow> (string \<times> gval) list" where
  "sorted_entries m = sort_key fst (AList.clearjunk m)"

lemma delete_entries_size: "size_list f (AList.delete k m) \<le> size_list f m"
  by (induction m) auto

lemma clearjunk_size: "size_list f (AList.clearjunk m) \<le> size_list f m"
proof (induction m rule: AList.clearjunk.induct)
  case (2 p ps)
  then show ?case using delete_entries_size [of f "fst p" ps] by simp
qed simp

lemma sorted_entries_size: "size_list f (sorted_entries m) \<le> size_list f m"
proof -
  have "size_list f (sort_key fst xs) = size_list f xs" for xs :: "(string \<times> gval) list"
    by (simp add: size_list_conv_sum_list flip: sum_mset_sum_list)
  then show ?thesis using clearjunk_size by (simp add: sorted_entries_def)
qed


function collect_map :: "string \<Rightarrow> string \<Rightarrow> (string \<times> gval) list \<Rightarrow> string list \<times> locale_invalid list" where
  "collect_map p pre [] = ([], [])"
| "collect_map p pre ((k, v) # kvs) =
     (let path = (if pre \<noteq> [] then pre @ ''.'' @ k else k);
          invalid = (\<lambda>r. [\<lparr>li_file = p, li_index = - 1, li_key = path, li_reason = r\<rparr>]);
          (ids, bad) =
            (case v of
               VStr s \<Rightarrow> if s = [] then ([], invalid Empty_message) else ([path], [])
             | VNil \<Rightarrow> ([], invalid Null_message)
             | VMap m \<Rightarrow>
                 (let (msg, mixed) = classify_object m in
                  if mixed then ([], invalid Mixed_object)
                  else if msg then
                    (if \<not> has_message_text m then ([], invalid No_message_text)
                     else ([case map_of m ''id'' of Some (VStr s) \<Rightarrow> if s \<noteq> [] then s else path | _ \<Rightarrow> path], []))
                  else if m = [] then ([], invalid Empty_object)
                  else collect_map p path (sorted_entries m))
             | _ \<Rightarrow> ([], invalid Unsupported_value));
          (ids2, bad2) = collect_map p pre kvs in
      (ids @ ids2, bad @ bad2))"
  by pat_completeness auto
termination
proof (relation "measure (\<lambda>(p, pre, kvs). size_list (size_prod (\<lambda>x. 0) size) kvs)")
  show "((p, x, sorted_entries m), p, pre, (k, v) # kvs) \<in> measure (\<lambda>(p, pre, kvs). size_list (size_prod (\<lambda>x. 0) size) kvs)"
    if "v = VMap m" for p x m pre k v kvs
    using sorted_entries_size [of "size_prod (\<lambda>x. 0) size" m] that by simp
qed auto


definition lang_of_path :: "(string \<Rightarrow> string option) \<Rightarrow> string \<Rightarrow> string" where
  "lang_of_path tag p =
     (let b = fp_base p; name = drop_suffix (fp_ext b) b; n = last (split_on (CHR ''.'') name) in
      case tag n of None \<Rightarrow> ''und'' | Some t \<Rightarrow> t)"

definition locale_ids :: "check_lib \<Rightarrow> string list \<Rightarrow> bool \<Rightarrow> string \<Rightarrow> check_error + (string list \<times> locale_invalid list)" where
  "locale_ids L required strict p =
     (case kl_read L p of
        Inl e \<Rightarrow> Inl (Locale_unreadable e)
      | Inr b0 \<Rightarrow>
          (let b = trim_space b0 in
           if b = [] then Inl (Empty_locale p)
           else
             (case kl_decode L b of
                Inl e \<Rightarrow> Inl (Bad_json p e)
              | Inr (VList items) \<Rightarrow> Inr (collect_array p 0 items required strict)
              | Inr (VMap m) \<Rightarrow> Inr (collect_map p [] (sorted_entries m))
              | Inr _ \<Rightarrow> Inl (Bad_root p))))"

text \<open>The identifiers seen by language, those seen twice in one, and all of them.\<close>

record locale_state =
  lo_seen :: "string \<Rightarrow> string set"
  lo_dups :: "string set"
  lo_keys :: "string set"
  lo_invalid :: "locale_invalid list"

definition see_id :: "string \<Rightarrow> string list \<Rightarrow> string \<Rightarrow> locale_state \<Rightarrow> locale_state" where
  "see_id lang allow i st =
     st\<lparr>lo_dups := (if i \<in> lo_seen st lang \<and> \<not> allowed_by_prefix i allow then insert i (lo_dups st) else lo_dups st),
        lo_seen := (lo_seen st)(lang := insert i (lo_seen st lang)), lo_keys := insert i (lo_keys st)\<rparr>"

fun load_paths :: "check_lib \<Rightarrow> string list \<Rightarrow> bool \<Rightarrow> string list \<Rightarrow> string list \<Rightarrow> locale_state \<Rightarrow> check_error + locale_state" where
  "load_paths L required strict allow [] st = Inr st"
| "load_paths L required strict allow (p # ps) st =
     (case locale_ids L required strict p of
        Inl e \<Rightarrow> Inl e
      | Inr (ids, bad) \<Rightarrow>
          load_paths L required strict allow ps
            (fold (see_id (lang_of_path (kl_lang L) p) allow) ids (st\<lparr>lo_invalid := lo_invalid st @ bad\<rparr>)))"

definition load_locale_keys ::
  "check_lib \<Rightarrow> check_config \<Rightarrow> check_error + (string set \<times> locale_invalid list \<times> string list)" where
  "load_locale_keys L cfg =
     (case kl_glob_files L (ck_locale_glob cfg) of
        Inl e \<Rightarrow> Inl (Bad_glob e)
      | Inr paths \<Rightarrow>
          if paths = [] then Inl (No_locale_files (ck_locale_glob cfg))
          else
            (case load_paths L (ck_required cfg) (ck_strict cfg) (ck_allow_dup cfg) (sort paths)
                    \<lparr>lo_seen = (\<lambda>l. {}), lo_dups = {}, lo_keys = {}, lo_invalid = []\<rparr> of
               Inl e \<Rightarrow> Inl e
             | Inr st \<Rightarrow> Inr (lo_keys st, lo_invalid st, sorted_list_of_set (lo_dups st))))"

section \<open>The report\<close>

definition key_diff :: "string set \<Rightarrow> string set \<Rightarrow> string list \<times> string list" where
  "key_diff used known = (sorted_list_of_set (used - known), sorted_list_of_set (known - used))"

definition filter_ignored :: "string list \<Rightarrow> string list \<Rightarrow> string list" where
  "filter_ignored keys ignore = filter (\<lambda>k. \<not> (\<exists>p\<in>set ignore. has_prefix p k)) keys"

record check_report =
  rp_template_count :: nat
  rp_locale_count :: nat
  rp_missing :: "string list"
  rp_unused :: "string list"
  rp_usage :: "(string \<rightharpoonup> string list) option"
  rp_invalid :: "locale_invalid list"
  rp_duplicates :: "string list"
  rp_read_errors :: "string list"

definition build_report ::
  "check_config \<Rightarrow> collect_result \<Rightarrow> string set \<Rightarrow> locale_invalid list \<Rightarrow> string list \<Rightarrow> check_report" where
  "build_report cfg col known invalid dups =
     (let missing = filter_ignored (fst (key_diff (cr_keys col) known)) (ck_ignore cfg);
          unused = filter_ignored (snd (key_diff (cr_keys col) known)) (ck_ignore cfg) in
      \<lparr>rp_template_count = card (cr_keys col), rp_locale_count = card known, rp_missing = missing, rp_unused = unused,
       rp_usage = (if \<not> ck_show_usage cfg then None
                   else Some (if ck_usage_filter cfg = ''missing'' then cr_usage col |` set missing else cr_usage col)),
       rp_invalid = invalid, rp_duplicates = dups, rp_read_errors = cr_read_errors col\<rparr>)"

definition has_locale_issues :: "check_report \<Rightarrow> bool" where
  "has_locale_issues r \<longleftrightarrow> rp_invalid r \<noteq> [] \<or> rp_duplicates r \<noteq> []"

definition exit_code :: "check_config \<Rightarrow> check_report \<Rightarrow> nat" where
  "exit_code cfg r =
     (if rp_read_errors r \<noteq> [] then 1
      else if rp_missing r \<noteq> [] then 2
      else if ck_fail_unused cfg \<and> rp_unused r \<noteq> [] then 3
      else if ck_fail_locale cfg \<and> has_locale_issues r then 4
      else 0)"

text \<open>The lines of the text report; \<open>reason\<close> gives the texts of the reasons.\<close>

definition report_lines :: "(invalid_reason \<Rightarrow> string) \<Rightarrow> check_report \<Rightarrow> string list" where
  "report_lines reason r =
     [''== i18n Check =='', ''Templates keys: '' @ itoa (rp_template_count r), ''Locale keys:    '' @ itoa (rp_locale_count r)]
     @ (if rp_invalid r \<noteq> [] then [''Locale invalid entries: '' @ itoa (length (rp_invalid r))] else [])
     @ map (\<lambda>i. ''  - '' @ li_file i @ '' ['' @
           (if li_key i \<noteq> [] then li_key i
            else ''#'' @ (if li_index i < 0 then ''-'' @ itoa (nat (- li_index i)) else itoa (nat (li_index i)))) @ '']: ''
           @ reason (li_reason i)) (rp_invalid r)
     @ (if rp_duplicates r \<noteq> []
        then (''Locale duplicate ids: '' @ itoa (length (rp_duplicates r))) # map ((@) ''  - '') (rp_duplicates r) else [])
     @ (if rp_read_errors r \<noteq> []
        then (''Read errors ('' @ itoa (length (rp_read_errors r)) @ ''):'') # map ((@) ''  - '') (rp_read_errors r) else [])
     @ (''Missing ('' @ itoa (length (rp_missing r)) @ ''):'') # map ((@) ''  - '') (rp_missing r)
     @ (''Unused ('' @ itoa (length (rp_unused r)) @ ''):'') # map ((@) ''  - '') (rp_unused r)
     @ (case rp_usage r of
          None \<Rightarrow> []
        | Some u \<Rightarrow>
            ''Usage map:'' # concat (map (\<lambda>k. (''  '' @ k @ '':'') # map ((@) ''    - '') (sort (the (u k))))
              (sorted_list_of_set (dom u))))"

text \<open>A run: writing the report to a file and to the output may fail.\<close>

definition run_check ::
  "check_lib \<Rightarrow> (string list \<Rightarrow> string list) \<Rightarrow> (string \<Rightarrow> check_report \<Rightarrow> string option) \<Rightarrow> (string \<Rightarrow> check_report \<Rightarrow> string option)
    \<Rightarrow> check_config option \<Rightarrow> nat" where
  "run_check L order write_json write_out c =
     (case c of
        None \<Rightarrow> 1
      | Some cfg \<Rightarrow>
          (case collect_template_keys L order cfg of
             Inl e \<Rightarrow> 1
           | Inr col \<Rightarrow>
               (case load_locale_keys L cfg of
                  Inl e \<Rightarrow> 1
                | Inr (known, invalid, dups) \<Rightarrow>
                    (let rep = build_report cfg col known invalid dups;
                         format = (if ck_format cfg = [] then ''text'' else ck_format cfg) in
                     if ck_out cfg \<noteq> [] \<and> write_json (ck_out cfg) rep \<noteq> None then 1
                     else if format \<noteq> ''text'' \<and> (format \<noteq> ''json'' \<or> write_out format rep \<noteq> None) then 1
                     else exit_code cfg rep))))"

section \<open>The order of the workers\<close>

text \<open>What a scan finds, as sets: the files read and the files that use a key.\<close>

lemma add_matches:
  "cr_keys (fold (add_match rel) ks res) = cr_keys res \<union> set ks"
  "cr_read_errors (fold (add_match rel) ks res) = cr_read_errors res"
  by (induction ks arbitrary: res) (auto simp: add_match_def Let_def)

definition used :: "(string \<rightharpoonup> string list) \<Rightarrow> string \<Rightarrow> string list" where
  "used u k = (case u k of Some l \<Rightarrow> l | None \<Rightarrow> [])"

definition usage_ok :: "(string \<times> string) set \<Rightarrow> (string \<rightharpoonup> string list) \<Rightarrow> bool" where
  "usage_ok U u \<longleftrightarrow> (\<forall>k. u k \<noteq> Some [] \<and> distinct (used u k) \<and> set (used u k) = {f. (f, k) \<in> U})"

lemma add_match_usage:
  assumes "usage_ok U (cr_usage res)"
  shows "usage_ok (insert (rel, k) U) (cr_usage (add_match rel k res))"
proof -
  let ?u = "cr_usage (add_match rel k res)"
  have "used ?u j = (if j = k \<and> rel \<notin> set (used (cr_usage res) k) then used (cr_usage res) k @ [rel] else used (cr_usage res) j)" for j
    by (simp add: add_match_def used_def Let_def)
  moreover have "?u j \<noteq> Some []" for j using assms by (simp add: add_match_def usage_ok_def Let_def)
  ultimately show ?thesis using assms by (auto simp: usage_ok_def)
qed

lemma add_matches_usage:
  "usage_ok U (cr_usage res) \<Longrightarrow> usage_ok (U \<union> {rel} \<times> set ks) (cr_usage (fold (add_match rel) ks res))"
proof (induction ks arbitrary: U res)
  case (Cons k ks)
  have "insert (rel, k) U \<union> {rel} \<times> set ks = U \<union> {rel} \<times> set (k # ks)" by auto
  with Cons(1) [OF add_match_usage [OF Cons(2)]] show ?case by simp
qed simp

lemma usage_sorted:
  assumes "usage_ok U u" "usage_ok U v"
  shows "(\<lambda>k. map_option sort (u k)) = (\<lambda>k. map_option sort (v k))"
proof
  fix k
  have "set (used u k) = set (used v k)" "distinct (used u k)" "distinct (used v k)"
    using assms by (simp_all add: usage_ok_def)
  then have "sort (used u k) = sort (used v k)" by (metis distinct_remdups_id sorted_list_of_set_sort_remdups)
  moreover have "u k \<noteq> Some []" "v k \<noteq> Some []" using assms by (simp_all add: usage_ok_def)
  ultimately show "map_option sort (u k) = map_option sort (v k)"
    by (cases "u k"; cases "v k") (auto simp: used_def dest: arg_cong [of _ _ length])
qed

definition found :: "(string \<Rightarrow> string + string) \<Rightarrow> (string \<Rightarrow> string list) \<Rightarrow> string \<Rightarrow> string list" where
  "found read matches rel = (case read rel of Inl e \<Rightarrow> [] | Inr b \<Rightarrow> matches b)"

definition read_failures :: "(string \<Rightarrow> string + string) \<Rightarrow> string \<Rightarrow> string \<Rightarrow> string list" where
  "read_failures read base rel = (case read rel of Inl e \<Rightarrow> [fp_join base rel @ '': '' @ e] | Inr b \<Rightarrow> [])"

lemma scan_files_found:
  "usage_ok U (cr_usage res) \<Longrightarrow>
    cr_keys (fold (scan_file read matches base) fs res) = cr_keys res \<union> (\<Union>f\<in>set fs. set (found read matches f))
  \<and> usage_ok (U \<union> {(f, k). f \<in> set fs \<and> k \<in> set (found read matches f)}) (cr_usage (fold (scan_file read matches base) fs res))
  \<and> cr_read_errors (fold (scan_file read matches base) fs res) = cr_read_errors res @ concat (map (read_failures read base) fs)"
proof (induction fs arbitrary: U res)
  case (Cons f fs)
  let ?r = "scan_file read matches base f res"
  have one: "cr_keys ?r = cr_keys res \<union> set (found read matches f)" "cr_read_errors ?r = cr_read_errors res @ read_failures read base f"
    by (auto simp: scan_file_def found_def read_failures_def add_matches split: sum.splits)
  have "usage_ok (U \<union> {f} \<times> set (found read matches f)) (cr_usage ?r)"
    using add_matches_usage [OF Cons(2)] Cons(2) by (auto simp: scan_file_def found_def split: sum.splits)
  from Cons(1) [OF this] one
  have "usage_ok (U \<union> {f} \<times> set (found read matches f) \<union> {(g, k). g \<in> set fs \<and> k \<in> set (found read matches g)})
      (cr_usage (fold (scan_file read matches base) (f # fs) res))" by simp
  moreover have "U \<union> {f} \<times> set (found read matches f) \<union> {(g, k). g \<in> set fs \<and> k \<in> set (found read matches g)} =
      U \<union> {(g, k). g \<in> set (f # fs) \<and> k \<in> set (found read matches g)}" by auto
  ultimately show ?case using Cons(1) [OF \<open>usage_ok (U \<union> {f} \<times> _) _\<close>] one by (simp add: Un_assoc)
qed simp

lemma usage_ok_empty: "usage_ok {} Map.empty"
  by (simp add: usage_ok_def used_def)


text \<open>The scan does not depend on which worker takes which file when: the keys, the files of each key and the read
  errors are the same for every order in which the files are added.\<close>

theorem collect_any_order:
  assumes "mset fs = mset gs"
  shows "collect_files read matches base fs = collect_files read matches base gs"
proof -
  let ?z = "\<lparr>cr_keys = {}, cr_usage = Map.empty, cr_read_errors = []\<rparr>"
  let ?run = "\<lambda>fs. fold (scan_file read matches base) fs ?z"
  have z: "usage_ok {} (cr_usage ?z)" by (simp add: usage_ok_def used_def)
  note f = scan_files_found [OF z, of read matches base]
  have ok: "usage_ok {(f, k). f \<in> set hs \<and> k \<in> set (found read matches f)} (cr_usage (?run hs))" for hs
    using f [of hs] by simp
  have same: "set fs = set gs" using assms by (rule mset_eq_setD)
  have "mset (concat (map (read_failures read base) fs)) = mset (concat (map (read_failures read base) gs))"
    using assms by (simp add: mset_concat mset_map flip: sum_mset_sum_list)
  then have "sort (concat (map (read_failures read base) fs)) = sort (concat (map (read_failures read base) gs))"
    by (intro properties_for_sort) simp_all
  then have "sort (cr_read_errors (?run fs)) = sort (cr_read_errors (?run gs))"
    using f [of fs] f [of gs] by simp
  moreover have "cr_keys (?run fs) = cr_keys (?run gs)" using f [of fs] f [of gs] same by simp
  moreover have "(\<lambda>k. map_option sort (cr_usage (?run fs) k)) = (\<lambda>k. map_option sort (cr_usage (?run gs) k))"
    by (rule usage_sorted [OF ok [of fs, unfolded same] ok [of gs]])
  ultimately show ?thesis unfolding collect_files_def Let_def by (simp add: collect_result.equality)
qed


section \<open>What a run reports\<close>

text \<open>The files and keys of a scan, and the identifiers of a file.\<close>

lemma collect_keys:
  "cr_keys (collect_files read matches base fs) = (\<Union>f\<in>set fs. set (found read matches f))"
  "cr_read_errors (collect_files read matches base fs) = [] \<longleftrightarrow> (\<forall>f\<in>set fs. \<exists>b. read f = Inr b)"
proof -
  have z: "usage_ok {} (cr_usage \<lparr>cr_keys = {}, cr_usage = Map.empty, cr_read_errors = []\<rparr>)" by (simp add: usage_ok_def used_def)
  show "cr_keys (collect_files read matches base fs) = (\<Union>f\<in>set fs. set (found read matches f))"
    using scan_files_found [OF z] by (simp add: collect_files_def Let_def)
  have "cr_read_errors (collect_files read matches base fs) = sort (concat (map (read_failures read base) fs))"
    using scan_files_found [OF z] by (simp add: collect_files_def Let_def)
  moreover have "read_failures read base f = [] \<longleftrightarrow> (\<exists>b. read f = Inr b)" for f by (auto simp: read_failures_def split: sum.splits)
  moreover have "sort xs = [] \<longleftrightarrow> xs = []" for xs :: "string list" by (metis set_empty set_sort)
  ultimately show "cr_read_errors (collect_files read matches base fs) = [] \<longleftrightarrow> (\<forall>f\<in>set fs. \<exists>b. read f = Inr b)"
    by (simp add: concat_eq_Nil_conv)
qed

lemma found_iff: "k \<in> set (found read matches f) \<longleftrightarrow> (\<exists>b. read f = Inr b \<and> k \<in> set (matches b))"
  by (cases "read f") (auto simp: found_def)

lemma collect_keys_finite: "finite (cr_keys (collect_files read matches base fs))"
  by (simp add: collect_keys)

lemma see_ids:
  "lo_keys (fold (see_id lang allow) ids st) = lo_keys st \<union> set ids"
  "lo_invalid (fold (see_id lang allow) ids st) = lo_invalid st"
  "finite (lo_dups st) \<Longrightarrow> finite (lo_dups (fold (see_id lang allow) ids st))"
  by (induction ids arbitrary: st) (auto simp: see_id_def)

lemma load_paths_keys:
  "load_paths L required strict allow ps st = Inr st' \<Longrightarrow>
    lo_keys st' = lo_keys st \<union> {i. \<exists>p\<in>set ps. \<exists>ids bad. locale_ids L required strict p = Inr (ids, bad) \<and> i \<in> set ids}
  \<and> (finite (lo_keys st) \<longrightarrow> finite (lo_keys st')) \<and> (finite (lo_dups st) \<longrightarrow> finite (lo_dups st'))"
proof (induction ps arbitrary: st)
  case (Cons p ps)
  then obtain ids bad where p: "locale_ids L required strict p = Inr (ids, bad)" by (auto split: sum.splits)
  with Cons(2) have "load_paths L required strict allow ps
      (fold (see_id (lang_of_path (kl_lang L) p) allow) ids (st\<lparr>lo_invalid := lo_invalid st @ bad\<rparr>)) = Inr st'" by simp
  from Cons(1) [OF this] p show ?case by (auto simp: see_ids)
qed simp

text \<open>(C34) A run passes exactly where every template file can be read, every key used in one is the identifier of a valid
  message of a locale file or begins with an ignored prefix, and, where that is asked for, every identifier is used
  or ignored, and no invalid entry and no duplicate identifier was found. The order in which the workers finish the
  files plays no part.\<close>

theorem run_passes:
  assumes "mset (order files) = mset files" and "kl_compile L (ck_pattern cfg) = Inr (groups, matches)" and "1 \<le> groups"
    and "template_files L cfg = Inr files" and "load_locale_keys L cfg = Inr (known, invalid, dups)"
    and "\<forall>p r. write_json p r = None \<and> write_out p r = None" and "ck_format cfg \<in> {[], ''text'', ''json''}"
  shows "run_check L order write_json write_out (Some cfg) = 0 \<longleftrightarrow>
     (\<forall>f\<in>set files. \<exists>b. kl_read L (fp_join (ck_templates cfg) f) = Inr b \<and>
        (\<forall>k\<in>set (matches b). k \<in> known \<or> (\<exists>p\<in>set (ck_ignore cfg). has_prefix p k)))
   \<and> (ck_fail_unused cfg \<longrightarrow> (\<forall>k\<in>known. (\<exists>p\<in>set (ck_ignore cfg). has_prefix p k) \<or>
        (\<exists>f\<in>set files. \<exists>b. kl_read L (fp_join (ck_templates cfg) f) = Inr b \<and> k \<in> set (matches b))))
   \<and> (ck_fail_locale cfg \<longrightarrow> invalid = [] \<and> dups = [])"
proof -
  let ?read = "\<lambda>rel. kl_read L (fp_join (ck_templates cfg) rel)"
  let ?col = "collect_files ?read matches (ck_templates cfg) files"
  let ?rep = "build_report cfg ?col known invalid dups"
  have fin: "finite known"
    using assms(5) load_paths_keys by (fastforce simp: load_locale_keys_def split: sum.splits if_splits)
  have "collect_template_keys L order cfg = Inr ?col"
    using assms(2-4) collect_any_order [OF assms(1)] by (simp add: collect_template_keys_def)
  then have run: "run_check L order write_json write_out (Some cfg) = exit_code cfg ?rep"
    using assms(5-7) by (auto simp: run_check_def Let_def)
  have miss: "rp_missing ?rep = [] \<longleftrightarrow> (\<forall>k\<in>cr_keys ?col. k \<in> known \<or> (\<exists>p\<in>set (ck_ignore cfg). has_prefix p k))"
    using collect_keys_finite [of ?read matches "ck_templates cfg" files]
    by (auto simp: build_report_def key_diff_def filter_ignored_def filter_empty_conv Let_def)
  have unused: "rp_unused ?rep = [] \<longleftrightarrow> (\<forall>k\<in>known. (\<exists>p\<in>set (ck_ignore cfg). has_prefix p k) \<or> k \<in> cr_keys ?col)"
    using fin by (auto simp: build_report_def key_diff_def filter_ignored_def filter_empty_conv Let_def)
  have keys: "k \<in> cr_keys ?col \<longleftrightarrow> (\<exists>f\<in>set files. \<exists>b. ?read f = Inr b \<and> k \<in> set (matches b))" for k
    by (simp add: collect_keys found_iff)
  have errs: "rp_read_errors ?rep = [] \<longleftrightarrow> (\<forall>f\<in>set files. \<exists>b. ?read f = Inr b)"
    by (simp add: build_report_def collect_keys Let_def)
  have "has_locale_issues ?rep \<longleftrightarrow> \<not> (invalid = [] \<and> dups = [])" by (simp add: has_locale_issues_def build_report_def Let_def)
  then have "exit_code cfg ?rep = 0 \<longleftrightarrow> rp_read_errors ?rep = [] \<and> rp_missing ?rep = [] \<and> (ck_fail_unused cfg \<longrightarrow> rp_unused ?rep = [])
      \<and> (ck_fail_locale cfg \<longrightarrow> invalid = [] \<and> dups = [])" by (simp add: exit_code_def)
  moreover have "(\<forall>k\<in>cr_keys ?col. P k) \<longleftrightarrow> (\<forall>f\<in>set files. \<forall>b. ?read f = Inr b \<longrightarrow> (\<forall>k\<in>set (matches b). P k))" for P
    using keys by blast
  ultimately show ?thesis unfolding run errs miss unused keys by (simp only:) fastforce
qed


text \<open>Two templates that use one key, which one locale file defines.\<close>

definition demo_check :: check_lib where
  "demo_check = \<lparr>kl_compile = (\<lambda>p. Inr (1, \<lambda>b. [b])), kl_stat = (\<lambda>p. None),
     kl_tree = (\<lambda>p. [Entry_file ''a.jet'', Entry_dir ''sub'' [Entry_file ''b.jet'', Entry_file ''c.txt'']]),
     kl_lines = (\<lambda>p. Inl ''none''), kl_glob = (\<lambda>p s. p = s), kl_glob_files = (\<lambda>p. Inr [''tr.json'']),
     kl_read = (\<lambda>p. Inr (if p = ''tr.json'' then ''doc'' else ''home'')),
     kl_decode = (\<lambda>b. Inr (VMap [(''home'', VStr ''Ana'')])), kl_lang = Some\<rparr>"

definition demo_check_config :: check_config where
  "demo_check_config = \<lparr>ck_templates = ''t'', ck_locale_glob = ''g'', ck_pattern = ''p'', ck_extensions = [''.jet''], ck_ignore = [],
     ck_exclude = [], ck_gitignore = [], ck_format = ''text'', ck_fail_unused = True, ck_show_usage = False, ck_usage_filter = ''all'',
     ck_workers = 2, ck_required = [], ck_strict = False, ck_fail_locale = True, ck_allow_dup = [], ck_out = []\<rparr>"

lemma demo_template_files: "template_files demo_check demo_check_config = Inr [''a.jet'', ''sub/b.jet'']"
  by code_simp

lemma demo_locale_keys: "load_locale_keys demo_check demo_check_config = Inr ({''home''}, [], [])"
proof -
  have trim: "trim_space ''doc'' = ''doc''" by code_simp
  have "locale_ids demo_check [] False ''tr.json'' = Inr ([''home''], [])"
    by (simp add: locale_ids_def demo_check_def trim sorted_entries_def)
  then show ?thesis by (simp add: load_locale_keys_def demo_check_config_def see_id_def) (simp add: demo_check_def see_id_def)
qed

lemma run_passes_witness: "run_check demo_check rev (\<lambda>p r. None) (\<lambda>p r. None) (Some demo_check_config) = 0"
proof -
  have "run_check demo_check rev (\<lambda>p r. None) (\<lambda>p r. None) (Some demo_check_config) = 0 \<longleftrightarrow>
     (\<forall>f\<in>set [''a.jet'', ''sub/b.jet'']. \<exists>b. kl_read demo_check (fp_join (ck_templates demo_check_config) f) = Inr b \<and>
        (\<forall>k\<in>set [b]. k \<in> {''home''} \<or> (\<exists>p\<in>set (ck_ignore demo_check_config). has_prefix p k)))
   \<and> (ck_fail_unused demo_check_config \<longrightarrow> (\<forall>k\<in>{''home''}. (\<exists>p\<in>set (ck_ignore demo_check_config). has_prefix p k) \<or>
        (\<exists>f\<in>set [''a.jet'', ''sub/b.jet'']. \<exists>b. kl_read demo_check (fp_join (ck_templates demo_check_config) f) = Inr b \<and> k \<in> set [b])))
   \<and> (ck_fail_locale demo_check_config \<longrightarrow> ([] :: locale_invalid list) = [] \<and> ([] :: string list) = [])"
    by (rule run_passes [OF _ _ _ demo_template_files demo_locale_keys, of rev 1]) (simp_all add: demo_check_def demo_check_config_def)
  moreover have "fp_join ''t'' ''a.jet'' \<noteq> ''tr.json''" "fp_join ''t'' ''sub/b.jet'' \<noteq> ''tr.json''" by code_simp+
  ultimately show ?thesis by (simp add: demo_check_def demo_check_config_def)
qed

end
