(* ===== verification/Mail.thy ===== *)
theory Mail
  imports Go_Base
begin

text \<open>
  Sending mail: \<open>pkg/fs/mail.go\<close>.

  The SMTP client (\<open>net/smtp\<close>), the network and the server are operations on a world; so are the
  context's state, the retry timer and the clock. Addresses (\<open>mail.ParseAddress\<close>), attachments
  (\<open>os.Stat\<close>, \<open>AttachFile\<close>) and the encoding of the message (package \<open>email\<close>) are parameters.
  An error with the facet \<open>smtp_code\<close> is a \<open>*textproto.Error\<close>: the server's own answer.

  The lemmas follow a message: however the server and the network behave, at most one copy is
  accepted by the server, and the rate windows never grant more than they allow.
\<close>

section \<open>Configuration and rate windows\<close>

record smtp_cfg =
  sc_host :: string
  sc_port :: nat
  sc_user :: string
  sc_pass :: string
  sc_use_tls :: bool
  sc_timeout :: int
  sc_rate_interval :: int
  sc_rate_max :: int
  sc_retry_attempts :: int
  sc_retry_delay :: int

text \<open>Durations are nanoseconds.\<close>

definition default_smtp_timeout :: int where
  "default_smtp_timeout = 30000000000"

definition err_email_rate_limited :: gerr where
  "err_email_rate_limited = sentinel ''email rate limit exceeded''"

record rate_window =
  rw_start :: "int option" \<comment> \<open>\<open>None\<close> is the zero time\<close>
  rw_count :: int

definition new_rate_window :: rate_window where
  "new_rate_window = \<lparr>rw_start = None, rw_count = 0\<rparr>"

type_synonym email_rates = "string \<rightharpoonup> rate_window"

text \<open>The texts of \<open>time.Duration.String\<close> and \<open>strconv.Itoa\<close> are a parameter.\<close>

definition rate_key :: "(int \<Rightarrow> string) \<Rightarrow> (int \<Rightarrow> string) \<Rightarrow> smtp_cfg \<Rightarrow> string" where
  "rate_key dur_text num_text cfg =
     sc_host cfg @ '':'' @ num_text (int (sc_port cfg)) @ ''|'' @ sc_user cfg @ ''|'' @ dur_text (sc_rate_interval cfg)
       @ ''|'' @ num_text (sc_rate_max cfg)"

text \<open>
  A granted slot is the window's start at the time (\<open>None\<close> where there is no limit, and the function that
  gives it back does nothing).
\<close>

definition window_reserve :: "int \<Rightarrow> int \<Rightarrow> int \<Rightarrow> rate_window \<Rightarrow> int option \<times> rate_window" where
  "window_reserve interval mx now w =
     (let w1 = (if rw_start w = None \<or> interval < now - the (rw_start w) then \<lparr>rw_start = Some now, rw_count = 0\<rparr> else w) in
      if mx \<le> rw_count w1 then (None, w1) else (rw_start w1, w1\<lparr>rw_count := rw_count w1 + 1\<rparr>))"

definition window_release :: "int \<Rightarrow> rate_window \<Rightarrow> rate_window" where
  "window_release start w = (if rw_start w = Some start \<and> 0 < rw_count w then w\<lparr>rw_count := rw_count w - 1\<rparr> else w)"

definition reserve_email_slot ::
  "(smtp_cfg \<Rightarrow> string) \<Rightarrow> smtp_cfg \<Rightarrow> int \<Rightarrow> email_rates \<Rightarrow> int option option \<times> email_rates" where
  "reserve_email_slot key cfg now rates =
     (if sc_rate_max cfg \<le> 0 \<or> sc_rate_interval cfg \<le> 0 then (Some None, rates)
      else
        (let w = (case rates (key cfg) of Some w \<Rightarrow> w | None \<Rightarrow> new_rate_window);
             (slot, w1) = window_reserve (sc_rate_interval cfg) (sc_rate_max cfg) now w;
             rates1 = rates(key cfg \<mapsto> w1) in
         case slot of None \<Rightarrow> (None, rates1) | Some start \<Rightarrow> (Some (Some start), rates1)))"

definition release_email_slot :: "(smtp_cfg \<Rightarrow> string) \<Rightarrow> smtp_cfg \<Rightarrow> int option \<Rightarrow> email_rates \<Rightarrow> email_rates" where
  "release_email_slot key cfg slot rates =
     (case slot of
        None \<Rightarrow> rates
      | Some start \<Rightarrow>
          (case rates (key cfg) of None \<Rightarrow> rates | Some w \<Rightarrow> rates(key cfg \<mapsto> window_release start w)))"

section \<open>Errors\<close>

definition smtp_code :: "err_info \<Rightarrow> int option" where
  "smtp_code i = (if e_id i = ''textproto'' then e_code i else None)"

definition is_transient_smtp_code :: "int \<Rightarrow> bool" where
  "is_transient_smtp_code c \<longleftrightarrow> c = 421 \<or> c = 450 \<or> c = 451 \<or> c = 452"

text \<open>\<open>strconv.Atoi\<close> of three bytes: a sign may stand in front, and then the code is no transient one.\<close>

definition three_digits :: "string \<Rightarrow> int option" where
  "three_digits s = (if list_all is_digit s then Some (int (decimal_value s)) else None)"

definition is_transient_smtp_error :: "gerr \<Rightarrow> bool" where
  "is_transient_smtp_error e =
     (case err_as smtp_code e of
        Some c \<Rightarrow> is_transient_smtp_code c
      | None \<Rightarrow>
          if err_as e_timeout e = Some True then True
          else
            (let s = trim_space (err_msg e) in
             if 3 \<le> length s then
               (case three_digits (take 3 s) of
                  Some c \<Rightarrow> (length s = 3 \<or> s ! 3 = CHR '' '' \<or> s ! 3 = CHR ''-'') \<and> is_transient_smtp_code c
                | None \<Rightarrow> False)
             else False))"

section \<open>One session\<close>

record 'w smtp_lib =
  sm_dial :: "smtp_cfg \<Rightarrow> int \<Rightarrow> 'w \<Rightarrow> gerr option \<times> 'w" \<comment> \<open>connecting, over TLS where the configuration says so\<close>
  sm_client :: "smtp_cfg \<Rightarrow> 'w \<Rightarrow> gerr option \<times> 'w"
  sm_hello :: "string \<Rightarrow> 'w \<Rightarrow> gerr option \<times> 'w"
  sm_extension :: "string \<Rightarrow> 'w \<Rightarrow> bool"
  sm_start_tls :: "'w \<Rightarrow> gerr option \<times> 'w"
  sm_auth :: "smtp_cfg \<Rightarrow> 'w \<Rightarrow> gerr option \<times> 'w"
  sm_mail :: "string \<Rightarrow> 'w \<Rightarrow> gerr option \<times> 'w"
  sm_rcpt :: "string \<Rightarrow> 'w \<Rightarrow> gerr option \<times> 'w"
  sm_data :: "'w \<Rightarrow> gerr option \<times> 'w"
  sm_write :: "string \<Rightarrow> 'w \<Rightarrow> gerr option \<times> 'w"
  sm_close_data :: "'w \<Rightarrow> gerr option \<times> 'w"
  sm_quit :: "'w \<Rightarrow> 'w"
  sm_close :: "'w \<Rightarrow> 'w" \<comment> \<open>closing the client or the connection\<close>
  sm_ctx_err :: "'w \<Rightarrow> gerr option"
  sm_wait :: "int \<Rightarrow> 'w \<Rightarrow> bool \<times> 'w" \<comment> \<open>\<open>True\<close>: the timer fired; \<open>False\<close>: the context ended first\<close>
  sm_now :: "'w \<Rightarrow> int"

text \<open>\<open>smtpSendError\<close> marks what may have been delivered.\<close>

datatype send_error = Send_failed gerr | Send_ambiguous gerr

fun send_all :: "('a \<Rightarrow> 'w \<Rightarrow> gerr option \<times> 'w) \<Rightarrow> 'a list \<Rightarrow> 'w \<Rightarrow> gerr option \<times> 'w" where
  "send_all f [] w = (None, w)"
| "send_all f (x # xs) w = (case f x w of (Some e, w1) \<Rightarrow> (Some e, w1) | (None, w1) \<Rightarrow> send_all f xs w1)"

definition start_session :: "'w smtp_lib \<Rightarrow> smtp_cfg \<Rightarrow> string \<Rightarrow> string list \<Rightarrow> 'w \<Rightarrow> gerr option \<times> 'w" where
  "start_session S cfg sender rcpts w =
     send_all (\<lambda>f. f)
       ([sm_hello S ''localhost'',
         (\<lambda>w. if \<not> sc_use_tls cfg \<and> sm_extension S ''STARTTLS'' w then sm_start_tls S w else (None, w)),
         (\<lambda>w. if sc_user cfg \<noteq> [] then
                (if \<not> sm_extension S ''AUTH'' w then (Some (err_new ''smtp: server doesn't support AUTH''), w)
                 else sm_auth S cfg w)
              else (None, w)),
         sm_mail S sender]
        @ map (sm_rcpt S) rcpts @ [sm_data S]) w"

definition send_message :: "'w smtp_lib \<Rightarrow> string \<Rightarrow> 'w \<Rightarrow> send_error option \<times> 'w" where
  "send_message S msg w =
     (case sm_write S msg w of
        (Some e, w1) \<Rightarrow> (Some (Send_ambiguous e), w1)
      | (None, w1) \<Rightarrow>
          (case sm_close_data S w1 of
             (Some e, w2) \<Rightarrow> (Some (if err_as smtp_code e \<noteq> None then Send_failed e else Send_ambiguous e), w2)
           | (None, w2) \<Rightarrow> (None, sm_quit S w2)))"

definition send_once ::
  "'w smtp_lib \<Rightarrow> smtp_cfg \<Rightarrow> int \<Rightarrow> string \<Rightarrow> string list \<Rightarrow> string \<Rightarrow> 'w \<Rightarrow> send_error option \<times> 'w" where
  "send_once S cfg timeout sender rcpts msg w =
     (case sm_dial S cfg timeout w of
        (Some e, w1) \<Rightarrow> (Some (Send_failed e), w1)
      | (None, w1) \<Rightarrow>
          (case sm_client S cfg w1 of
             (Some e, w2) \<Rightarrow> (Some (Send_failed e), sm_close S w2)
           | (None, w2) \<Rightarrow>
               (case start_session S cfg sender rcpts w2 of
                  (Some e, w3) \<Rightarrow> (Some (Send_failed e), sm_close S w3)
                | (None, w3) \<Rightarrow> (case send_message S msg w3 of (r, w4) \<Rightarrow> (r, sm_close S w4)))))"

section \<open>Retrying\<close>

datatype mail_error =
    Mail_failed gerr
  | Mail_ambiguous gerr
  | Mail_context gerr "gerr option" \<comment> \<open>the context's error, with the last error of a try\<close>
  | Mail_refused gerr \<comment> \<open>before anything is sent\<close>

text \<open>
  The loop with \<open>n\<close> tries left and the error of the last one. \<open>ctx.Err()\<close> after a try is read where the
  context is; after the wait the context has ended where the timer did not fire.
\<close>

fun send_loop ::
  "'w smtp_lib \<Rightarrow> int \<Rightarrow> ('w \<Rightarrow> send_error option \<times> 'w) \<Rightarrow> nat \<Rightarrow> gerr option \<Rightarrow> 'w \<Rightarrow> mail_error option \<times> 'w" where
  "send_loop S delay once 0 lst w = (map_option Mail_failed lst, w)"
| "send_loop S delay once (Suc n) lst w =
     (case sm_ctx_err S w of
        Some e \<Rightarrow> (Some (Mail_context e lst), w)
      | None \<Rightarrow>
          (case once w of
             (None, w1) \<Rightarrow> (None, w1)
           | (Some (Send_ambiguous e), w1) \<Rightarrow> (Some (Mail_ambiguous e), w1)
           | (Some (Send_failed e), w1) \<Rightarrow>
               if sm_ctx_err S w1 \<noteq> None \<or> \<not> is_transient_smtp_error e then (Some (Mail_failed e), w1)
               else if 0 < n then
                 (case sm_wait S delay w1 of
                    (False, w2) \<Rightarrow>
                      (Some (Mail_context (case sm_ctx_err S w2 of Some x \<Rightarrow> x | None \<Rightarrow> ctx_canceled) (Some e)), w2)
                  | (True, w2) \<Rightarrow> send_loop S delay once n (Some e) w2)
               else send_loop S delay once n (Some e) w1))"


section \<open>Sending\<close>

record mail_text =
  mt_from :: string
  mt_to :: "string list"
  mt_cc :: "string list"
  mt_bcc :: "string list"
  mt_subject :: string
  mt_body :: string
  mt_html :: string
  mt_attachments :: "string list"

record mail_lib =
  mb_parse_address :: "string \<Rightarrow> gerr + string"
  mb_stat :: "string \<Rightarrow> gerr + bool" \<comment> \<open>whether it is a directory\<close>
  mb_attach :: "string \<Rightarrow> gerr option"
  mb_bytes :: "mail_text \<Rightarrow> gerr + string"

definition envelope :: "mail_lib \<Rightarrow> mail_text \<Rightarrow> gerr + (string \<times> string list)" where
  "envelope M m =
     res_bind (res_map (mb_parse_address M) (mt_to m @ mt_cc m @ mt_bcc m)) (\<lambda>rcpts.
       if mt_from m = [] \<or> rcpts = [] then
         Inl (err_new ''must specify at least one From address and one To address'')
       else res_bind (mb_parse_address M (mt_from m)) (\<lambda>from_addr. Inr (from_addr, rcpts)))"

fun check_attachments :: "mail_lib \<Rightarrow> string list \<Rightarrow> gerr option" where
  "check_attachments M [] = None"
| "check_attachments M (a # as) =
     (if has_prefix ''http://'' a \<or> has_prefix ''https://'' a then
        Some (err_new (''fs: remote attachments are not supported: '' @ a))
      else
        (case mb_stat M a of
           Inl e \<Rightarrow> Some (err_wrap (''fs: attachment '' @ a) e)
         | Inr True \<Rightarrow> Some (err_new (''fs: attachment '' @ a @ '' is a directory''))
         | Inr False \<Rightarrow>
             (case mb_attach M a of
                Some e \<Rightarrow> Some (err_wrap (''fs: attachment '' @ a) e)
              | None \<Rightarrow> check_attachments M as)))"

text \<open>The rate windows live in the world: other senders use them at the same time.\<close>

record 'w mail_env =
  mn_smtp :: "'w smtp_lib"
  mn_mail :: mail_lib
  mn_key :: "smtp_cfg \<Rightarrow> string"
  mn_rates :: "'w \<Rightarrow> email_rates"
  mn_put_rates :: "email_rates \<Rightarrow> 'w \<Rightarrow> 'w"

definition send_email :: "'w mail_env \<Rightarrow> smtp_cfg \<Rightarrow> mail_text \<Rightarrow> 'w \<Rightarrow> mail_error option \<times> 'w" where
  "send_email N cfg m w =
     (case check_attachments (mn_mail N) (mt_attachments m) of
        Some e \<Rightarrow> (Some (Mail_refused e), w)
      | None \<Rightarrow>
          (case envelope (mn_mail N) m of
             Inl e \<Rightarrow> (Some (Mail_refused e), w)
           | Inr (sender, rcpts) \<Rightarrow>
               (case mb_bytes (mn_mail N) m of
                  Inl e \<Rightarrow> (Some (Mail_refused e), w)
                | Inr raw \<Rightarrow>
                    (case reserve_email_slot (mn_key N) cfg (sm_now (mn_smtp N) w) (mn_rates N w) of
                       (None, rates) \<Rightarrow> (Some (Mail_refused err_email_rate_limited), mn_put_rates N rates w)
                     | (Some slot, rates) \<Rightarrow>
                         (let tries = (if sc_retry_attempts cfg \<le> 1 then 1 else nat (sc_retry_attempts cfg));
                              delay = (if sc_retry_delay cfg \<le> 0 then 2000000000 else sc_retry_delay cfg);
                              timeout = (if sc_timeout cfg \<le> 0 then default_smtp_timeout else sc_timeout cfg);
                              (r, w1) = send_loop (mn_smtp N) delay (send_once (mn_smtp N) cfg timeout sender rcpts raw) tries None
                                (mn_put_rates N rates w) in
                          if r = None then (None, w1)
                          else (r, mn_put_rates N (release_email_slot (mn_key N) cfg slot (mn_rates N w1)) w1))))))"

section \<open>At most one copy\<close>

text \<open>
  What SMTP promises of the number of messages a server has accepted: only the end of the data can accept
  one. Where the client sees success, the server accepted it; where the client sees the server's own error
  code, it did not; after any other failure while the message or its end is written, it may have.
\<close>

definition accepts :: "('w \<Rightarrow> nat) \<Rightarrow> (gerr option \<times> 'w) \<Rightarrow> 'w \<Rightarrow> bool" where
  "accepts acc res w \<longleftrightarrow> acc (snd res) = acc w"

definition counts_accepted :: "'w mail_env \<Rightarrow> ('w \<Rightarrow> nat) \<Rightarrow> bool" where
  "counts_accepted N acc \<longleftrightarrow> (let S = mn_smtp N in
     (\<forall>w cfg t. accepts acc (sm_dial S cfg t w) w) \<and> (\<forall>w cfg. accepts acc (sm_client S cfg w) w)
   \<and> (\<forall>w s. accepts acc (sm_hello S s w) w) \<and> (\<forall>w. accepts acc (sm_start_tls S w) w)
   \<and> (\<forall>w cfg. accepts acc (sm_auth S cfg w) w) \<and> (\<forall>w s. accepts acc (sm_mail S s w) w)
   \<and> (\<forall>w s. accepts acc (sm_rcpt S s w) w) \<and> (\<forall>w. accepts acc (sm_data S w) w)
   \<and> (\<forall>w. acc (sm_quit S w) = acc w) \<and> (\<forall>w. acc (sm_close S w) = acc w)
   \<and> (\<forall>w d. acc (snd (sm_wait S d w)) = acc w) \<and> (\<forall>w r. acc (mn_put_rates N r w) = acc w)
   \<and> (\<forall>w s w'. sm_write S s w = (None, w') \<longrightarrow> acc w' = acc w)
   \<and> (\<forall>w s e w'. sm_write S s w = (Some e, w') \<longrightarrow> acc w' = acc w \<or> acc w' = Suc (acc w))
   \<and> (\<forall>w w'. sm_close_data S w = (None, w') \<longrightarrow> acc w' = Suc (acc w))
   \<and> (\<forall>w e w'. sm_close_data S w = (Some e, w') \<longrightarrow> acc w' = acc w \<or> (acc w' = Suc (acc w) \<and> err_as smtp_code e = None)))"

lemma counts_kept:
  assumes "counts_accepted N acc"
  shows "acc (snd (sm_dial (mn_smtp N) cfg t w)) = acc w" "acc (snd (sm_client (mn_smtp N) cfg w)) = acc w"
    "acc (sm_quit (mn_smtp N) w) = acc w" "acc (sm_close (mn_smtp N) w) = acc w"
    "acc (snd (sm_wait (mn_smtp N) d w)) = acc w" "acc (mn_put_rates N rates w) = acc w"
  using assms by (simp_all add: counts_accepted_def accepts_def Let_def)

lemma counts_message:
  assumes "counts_accepted N acc"
  shows "sm_write (mn_smtp N) s w = (None, w') \<Longrightarrow> acc w' = acc w"
    and "sm_write (mn_smtp N) s w = (Some e, w') \<Longrightarrow> acc w' = acc w \<or> acc w' = Suc (acc w)"
    and "sm_close_data (mn_smtp N) w = (None, w') \<Longrightarrow> acc w' = Suc (acc w)"
    and "sm_close_data (mn_smtp N) w = (Some e, w') \<Longrightarrow> acc w' = acc w \<or> (acc w' = Suc (acc w) \<and> err_as smtp_code e = None)"
  using assms unfolding counts_accepted_def Let_def by blast+

lemma send_all_accepts:
  "(\<And>x w. x \<in> set xs \<Longrightarrow> accepts acc (f x w) w) \<Longrightarrow> send_all f xs w = (r, w') \<Longrightarrow> acc w' = acc w"
proof (induction xs arbitrary: w)
  case (Cons x xs)
  obtain r1 w1 where x: "f x w = (r1, w1)" by fastforce
  have "acc w1 = acc w" using Cons(2) [of x w] x by (simp add: accepts_def)
  with Cons x show ?case by (cases r1) auto
qed simp

lemma start_session_accepts:
  assumes "counts_accepted N acc" "start_session (mn_smtp N) cfg sender rcpts w = (r, w')"
  shows "acc w' = acc w"
proof (rule send_all_accepts [OF _ assms(2) [unfolded start_session_def]])
  fix f and u :: 'a
  assume f: "f \<in> set ([sm_hello (mn_smtp N) ''localhost'',
         (\<lambda>w. if \<not> sc_use_tls cfg \<and> sm_extension (mn_smtp N) ''STARTTLS'' w then sm_start_tls (mn_smtp N) w else (None, w)),
         (\<lambda>w. if sc_user cfg \<noteq> [] then
                (if \<not> sm_extension (mn_smtp N) ''AUTH'' w then (Some (err_new ''smtp: server doesn't support AUTH''), w)
                 else sm_auth (mn_smtp N) cfg w)
              else (None, w)),
         sm_mail (mn_smtp N) sender] @ map (sm_rcpt (mn_smtp N)) rcpts @ [sm_data (mn_smtp N)])"
  have "accepts acc (None, u) u" "accepts acc (Some e, u) u" for e by (simp_all add: accepts_def)
  with f assms(1) show "accepts acc (f u) u" by (auto simp: counts_accepted_def Let_def)
qed

text \<open>What one try can do to the number of accepted messages, by its result.\<close>

definition delivery :: "send_error option \<Rightarrow> nat \<Rightarrow> nat \<Rightarrow> bool" where
  "delivery r a a' \<longleftrightarrow> (case r of
       None \<Rightarrow> a' = Suc a
     | Some (Send_failed e) \<Rightarrow> a' = a
     | Some (Send_ambiguous e) \<Rightarrow> a' = a \<or> a' = Suc a)"

lemma send_message_delivery:
  assumes "counts_accepted N acc" "send_message (mn_smtp N) msg w = (r, w')"
  shows "delivery r (acc w) (acc w')"
proof -
  obtain r1 w1 where wr: "sm_write (mn_smtp N) msg w = (r1, w1)" by fastforce
  obtain r2 w2 where cl: "sm_close_data (mn_smtp N) w1 = (r2, w2)" by fastforce
  note laws = counts_message [OF assms(1)] counts_kept(3) [OF assms(1)]
  show ?thesis
  proof (cases r1)
    case (Some e)
    with assms(2) wr laws(2) [of msg w e w1] show ?thesis by (auto simp: send_message_def delivery_def)
  next
    case r1: None
    with wr laws(1) have same: "acc w1 = acc w" by blast
    show ?thesis
    proof (cases r2)
      case None
      with assms(2) wr cl r1 laws(3) [of w1 w2] laws(5) same show ?thesis by (auto simp: send_message_def delivery_def)
    next
      case (Some e)
      with assms(2) wr cl r1 laws(4) [of w1 e w2] same show ?thesis
        by (auto simp: send_message_def delivery_def split: if_splits)
    qed
  qed
qed

lemma send_once_delivery:
  assumes acc: "counts_accepted N acc" and run: "send_once (mn_smtp N) cfg timeout sender rcpts msg w = (r, w')"
  shows "delivery r (acc w) (acc w')"
proof -
  obtain r1 w1 where d: "sm_dial (mn_smtp N) cfg timeout w = (r1, w1)" by fastforce
  obtain r2 w2 where c: "sm_client (mn_smtp N) cfg w1 = (r2, w2)" by fastforce
  obtain r3 w3 where s: "start_session (mn_smtp N) cfg sender rcpts w2 = (r3, w3)" by fastforce
  obtain r4 w4 where m: "send_message (mn_smtp N) msg w3 = (r4, w4)" by fastforce
  have a: "acc w1 = acc w" "acc w2 = acc w1"
    using counts_kept(1) [OF acc, of cfg timeout w] counts_kept(2) [OF acc, of cfg w1] d c by simp_all
  note b = start_session_accepts [OF acc s] send_message_delivery [OF acc m] counts_kept(4) [OF acc]
  show ?thesis
  proof (cases "r1 = None \<and> r2 = None \<and> r3 = None")
    case True
    with run d c s m a b show ?thesis by (auto simp: send_once_def)
  next
    case False
    with run d c s m a b show ?thesis by (cases r1; cases r2; cases r3) (auto simp: send_once_def delivery_def)
  qed
qed

definition mail_delivery :: "mail_error option \<Rightarrow> nat \<Rightarrow> nat \<Rightarrow> bool" where
  "mail_delivery r a a' \<longleftrightarrow> (case r of
       None \<Rightarrow> a' = Suc a
     | Some (Mail_ambiguous e) \<Rightarrow> a' = a \<or> a' = Suc a
     | Some e \<Rightarrow> a' = a)"

lemma send_loop_delivery:
  assumes acc: "counts_accepted N acc" and once: "\<forall>w r w'. once w = (r, w') \<longrightarrow> delivery r (acc w) (acc w')"
  shows "send_loop (mn_smtp N) delay once n lst w = (r, w') \<Longrightarrow> lst \<noteq> None \<or> 0 < n \<Longrightarrow> mail_delivery r (acc w) (acc w')"
proof (induction n arbitrary: lst w)
  case 0
  then show ?case by (auto simp: mail_delivery_def)
next
  case (Suc n)
  obtain r1 w1 where o: "once w = (r1, w1)" by fastforce
  then have d: "delivery r1 (acc w) (acc w1)" using once by blast
  obtain b w2 where wt: "sm_wait (mn_smtp N) delay w1 = (b, w2)" by fastforce
  have kept: "acc w2 = acc w1" using counts_kept(5) [OF acc, of delay w1] wt by simp
  show ?case
  proof (cases "\<exists>x. sm_ctx_err (mn_smtp N) w = None \<and> r1 = Some (Send_failed x)")
    case False
    with Suc(2) o d show ?thesis
      by (auto simp: mail_delivery_def delivery_def split: option.splits send_error.splits)
  next
    case True
    then obtain x where x: "sm_ctx_err (mn_smtp N) w = None" "r1 = Some (Send_failed x)" "acc w1 = acc w"
      using d by (auto simp: delivery_def)
    have failed: "mail_delivery (Some (Mail_failed x)) (acc w) (acc w)" "mail_delivery (Some (Mail_context y z)) (acc w) (acc w)" for y z
      by (simp_all add: mail_delivery_def)
    show ?thesis
      using Suc(2) o x wt kept Suc(1) [of "Some x" w2] Suc(1) [of "Some x" w1] failed
      by (cases b) (auto split: if_splits)
  qed
qed

text \<open>(C33) At most one copy: however the server and the network behave, and however often it is tried again, a call of
  \<open>SendEmail\<close> makes the server accept at most one copy of the message; it is exactly one where the call reports
  success, and none where it reports anything but an ambiguous error.\<close>

theorem send_email_at_most_once:
  assumes "counts_accepted N acc" and "send_email N cfg m w = (r, w')"
  shows "acc w' = (case r of None \<Rightarrow> Suc (acc w) | Some (Mail_ambiguous e) \<Rightarrow> acc w' | Some e \<Rightarrow> acc w) \<and> acc w' \<le> Suc (acc w)"
proof (cases "check_attachments (mn_mail N) (mt_attachments m) = None \<and> \<not> (\<exists>e. envelope (mn_mail N) m = Inl e) \<and>
    \<not> (\<exists>e. mb_bytes (mn_mail N) m = Inl e)")
  case False
  with assms(2) show ?thesis by (auto simp: send_email_def split: option.splits sum.splits prod.splits)
next
  case True
  then obtain sender rcpts raw where pre: "check_attachments (mn_mail N) (mt_attachments m) = None"
    "envelope (mn_mail N) m = Inr (sender, rcpts)" "mb_bytes (mn_mail N) m = Inr raw"
    by (metis obj_sumE surj_pair)
  obtain slot rates where slot: "reserve_email_slot (mn_key N) cfg (sm_now (mn_smtp N) w) (mn_rates N w) = (slot, rates)" by fastforce
  let ?once = "send_once (mn_smtp N) cfg (if sc_timeout cfg \<le> 0 then default_smtp_timeout else sc_timeout cfg) sender rcpts raw"
  let ?delay = "if sc_retry_delay cfg \<le> 0 then 2000000000 else sc_retry_delay cfg"
  let ?tries = "if sc_retry_attempts cfg \<le> 1 then 1 else nat (sc_retry_attempts cfg)"
  obtain r1 w1 where run: "send_loop (mn_smtp N) ?delay ?once ?tries None (mn_put_rates N rates w) = (r1, w1)" by fastforce
  note kept = counts_kept(6) [OF assms(1)]
  have once: "\<forall>w r w'. ?once w = (r, w') \<longrightarrow> delivery r (acc w) (acc w')" using send_once_delivery [OF assms(1)] by blast
  have sent: "mail_delivery r1 (acc w) (acc w1)" using send_loop_delivery [OF assms(1) once run] kept by simp
  show ?thesis
  proof (cases slot)
    case None
    with assms(2) pre slot kept show ?thesis by (auto simp: send_email_def)
  next
    case (Some s)
    then have "r = r1 \<and> acc w' = acc w1"
      using assms(2) pre slot run kept by (auto simp: send_email_def Let_def split: if_splits)
    with sent show ?thesis by (auto simp: mail_delivery_def split: option.splits mail_error.splits)
  qed
qed


text \<open>A server that refuses the first try with code 451 and accepts the second.\<close>

definition busy_error :: gerr where
  "busy_error = Gerr ((plain_info ''textproto'' ''451 try again'')\<lparr>e_code := Some 451\<rparr>) []"

definition demo_smtp :: "(nat \<times> nat) smtp_lib" where
  "demo_smtp = \<lparr>sm_dial = (\<lambda>cfg t w. (None, w)), sm_client = (\<lambda>cfg w. (None, w)), sm_hello = (\<lambda>s w. (None, w)),
     sm_extension = (\<lambda>s w. False), sm_start_tls = (\<lambda>w. (None, w)), sm_auth = (\<lambda>cfg w. (None, w)),
     sm_mail = (\<lambda>s w. (None, w)), sm_rcpt = (\<lambda>s w. (None, w)), sm_data = (\<lambda>w. (None, w)), sm_write = (\<lambda>s w. (None, w)),
     sm_close_data = (\<lambda>w. if snd w = 0 then (Some busy_error, (fst w, 1)) else (None, (Suc (fst w), snd w))),
     sm_quit = (\<lambda>w. w), sm_close = (\<lambda>w. w), sm_ctx_err = (\<lambda>w. None), sm_wait = (\<lambda>d w. (True, w)), sm_now = (\<lambda>w. 0)\<rparr>"

definition demo_mail_env :: "(nat \<times> nat) mail_env" where
  "demo_mail_env = \<lparr>mn_smtp = demo_smtp,
     mn_mail = \<lparr>mb_parse_address = Inr, mb_stat = (\<lambda>a. Inr False), mb_attach = (\<lambda>a. None), mb_bytes = (\<lambda>m. Inr (mt_body m))\<rparr>,
     mn_key = sc_host, mn_rates = (\<lambda>w. Map.empty), mn_put_rates = (\<lambda>r w. w)\<rparr>"

definition demo_smtp_cfg :: smtp_cfg where
  "demo_smtp_cfg = \<lparr>sc_host = ''mx'', sc_port = 25, sc_user = [], sc_pass = [], sc_use_tls = False, sc_timeout = 0,
     sc_rate_interval = 0, sc_rate_max = 0, sc_retry_attempts = 3, sc_retry_delay = 1\<rparr>"

definition demo_mail :: mail_text where
  "demo_mail = \<lparr>mt_from = ''a@x'', mt_to = [''b@x''], mt_cc = [], mt_bcc = [], mt_subject = ''s'', mt_body = ''hi'',
     mt_html = [], mt_attachments = []\<rparr>"

lemma demo_mail_counts: "counts_accepted demo_mail_env fst"
  by (auto simp: counts_accepted_def demo_mail_env_def demo_smtp_def accepts_def Let_def)

lemma send_email_at_most_once_witness:
  "\<exists>w'. send_email demo_mail_env demo_smtp_cfg demo_mail (0, 0) = (None, w') \<and> fst w' = 1"
proof -
  have "fst (send_email demo_mail_env demo_smtp_cfg demo_mail (0, 0)) = None" by code_simp
  then obtain w' where run: "send_email demo_mail_env demo_smtp_cfg demo_mail (0, 0) = (None, w')"
    by (cases "send_email demo_mail_env demo_smtp_cfg demo_mail (0, 0)") auto
  from send_email_at_most_once [OF demo_mail_counts run] run show ?thesis by simp
qed

section \<open>Rate windows\<close>

text \<open>
  All senders of one configuration, in any interleaving: a slot is taken at a time that does not go back,
  kept where the mail was sent, and given back otherwise. \<open>held\<close> are the slots not given back.
\<close>

record rate_state =
  rs_window :: rate_window
  rs_held :: "int list"
  rs_time :: int

inductive rate_step :: "int \<Rightarrow> int \<Rightarrow> rate_state \<Rightarrow> rate_state \<Rightarrow> bool" for interval mx where
  rate_granted: "rs_time s \<le> now \<Longrightarrow> window_reserve interval mx now (rs_window s) = (Some start, w) \<Longrightarrow>
    rate_step interval mx s \<lparr>rs_window = w, rs_held = start # rs_held s, rs_time = now\<rparr>"
| rate_refused: "rs_time s \<le> now \<Longrightarrow> window_reserve interval mx now (rs_window s) = (None, w) \<Longrightarrow>
    rate_step interval mx s (s\<lparr>rs_window := w, rs_time := now\<rparr>)"
| rate_released: "start \<in> set (rs_held s) \<Longrightarrow>
    rate_step interval mx s (s\<lparr>rs_window := window_release start (rs_window s), rs_held := remove1 start (rs_held s)\<rparr>)"

definition fresh_rate :: "rate_state \<Rightarrow> bool" where
  "fresh_rate s \<longleftrightarrow> rs_window s = new_rate_window \<and> rs_held s = []"

text \<open>The slots held of every window are within the limit, those of the current window are its count, and
  two windows start more than an interval apart.\<close>

definition rate_inv :: "int \<Rightarrow> int \<Rightarrow> rate_state \<Rightarrow> bool" where
  "rate_inv interval mx s \<longleftrightarrow>
     (case rw_start (rs_window s) of
        None \<Rightarrow> rs_held s = [] \<and> rw_count (rs_window s) = 0
      | Some start \<Rightarrow> start \<le> rs_time s \<and> rw_count (rs_window s) = int (count_list (rs_held s) start)
          \<and> (\<forall>h\<in>set (rs_held s). h = start \<or> h + interval < start))
   \<and> (\<forall>h. int (count_list (rs_held s) h) \<le> mx)
   \<and> (\<forall>h\<in>set (rs_held s). \<forall>k\<in>set (rs_held s). h < k \<longrightarrow> h + interval < k)"

lemma rate_inv_reserve:
  assumes inv: "rate_inv interval mx s" and "0 < interval" "0 < mx" "rs_time s \<le> now"
    and res: "window_reserve interval mx now (rs_window s) = (slot, w)"
  shows "rate_inv interval mx (s\<lparr>rs_window := w, rs_time := now, rs_held := (case slot of None \<Rightarrow> rs_held s | Some x \<Rightarrow> x # rs_held s)\<rparr>)"
proof (cases "rw_start (rs_window s) = None \<or> interval < now - the (rw_start (rs_window s))")
  case True
  then have held: "\<forall>h\<in>set (rs_held s). h + interval < now"
    using inv assms(2) by (fastforce simp: rate_inv_def split: option.splits)
  then have none: "count_list (rs_held s) now = 0" using assms(2) by (fastforce simp: count_list_0_iff)
  have w: "slot = Some now" "w = \<lparr>rw_start = Some now, rw_count = 1\<rparr>"
    using res True assms(3) by (auto simp: window_reserve_def Let_def)
  show ?thesis using inv held none w assms(2,3) by (fastforce simp: rate_inv_def)
next
  case False
  then obtain start where start: "rw_start (rs_window s) = Some start" by auto
  with res False have w: "if mx \<le> rw_count (rs_window s) then slot = None \<and> w = rs_window s
      else slot = Some start \<and> w = rs_window s\<lparr>rw_count := rw_count (rs_window s) + 1\<rparr>"
    by (auto simp: window_reserve_def Let_def split: if_splits)
  show ?thesis
  proof (cases "mx \<le> rw_count (rs_window s)")
    case True
    with w inv start assms(4) show ?thesis by (auto simp: rate_inv_def)
  next
    case False
    with w inv start assms(2,4) show ?thesis by (auto simp: rate_inv_def)
  qed
qed


lemma rate_inv_release:
  assumes inv: "rate_inv interval mx s" and held: "start \<in> set (rs_held s)"
  shows "rate_inv interval mx (s\<lparr>rs_window := window_release start (rs_window s), rs_held := remove1 start (rs_held s)\<rparr>)"
proof -
  obtain cur where cur: "rw_start (rs_window s) = Some cur" using inv held by (cases "rw_start (rs_window s)") (auto simp: rate_inv_def)
  have sub: "set (remove1 start (rs_held s)) \<subseteq> set (rs_held s)" by (rule set_remove1_subset)
  have pos: "0 < count_list (rs_held s) start" using held by (simp add: count_list_0_iff flip: neq0_conv)
  have "window_release start (rs_window s) =
      (if start = cur then rs_window s\<lparr>rw_count := rw_count (rs_window s) - 1\<rparr> else rs_window s)"
    using cur inv pos by (auto simp: window_release_def rate_inv_def)
  moreover have "int (count_list (remove1 start (rs_held s)) h) \<le> mx" for h
  proof -
    have "count_list (remove1 start (rs_held s)) h \<le> count_list (rs_held s) h" by (simp add: count_list_remove1)
    then show ?thesis using inv by (meson of_nat_mono order_trans rate_inv_def)
  qed
  moreover have "h + interval < k" if "h \<in> set (remove1 start (rs_held s))" "k \<in> set (remove1 start (rs_held s))" "h < k" for h k
    using inv that sub by (auto simp: rate_inv_def)
  moreover have "h = cur \<or> h + interval < cur" if "h \<in> set (remove1 start (rs_held s))" for h
    using inv cur that sub by (auto simp: rate_inv_def)
  moreover have "cur \<le> rs_time s" "rw_count (rs_window s) = int (count_list (rs_held s) cur)" using inv cur by (simp_all add: rate_inv_def)
  ultimately show ?thesis
    using cur pos by (auto simp: rate_inv_def count_list_remove1)
qed

lemma rate_inv_step:
  assumes "rate_step interval mx s t" "rate_inv interval mx s" "0 < interval" "0 < mx"
  shows "rate_inv interval mx t"
  using assms(1)
proof cases
  case (rate_granted now start w)
  from rate_inv_reserve [OF assms(2-4) rate_granted(2,3)] rate_granted(1) show ?thesis by (cases s) simp
next
  case (rate_refused now w)
  from rate_inv_reserve [OF assms(2-4) rate_refused(2,3)] rate_refused(1) show ?thesis by simp
next
  case (rate_released start)
  from rate_inv_release [OF assms(2) rate_released(2)] rate_released(1) show ?thesis by simp
qed

interpretation rate_windows: transition_system fresh_rate "rate_step interval mx"
  "\<lambda>s. 0 < interval \<longrightarrow> 0 < mx \<longrightarrow> rate_inv interval mx s" for interval mx
proof
  show "0 < interval \<longrightarrow> 0 < mx \<longrightarrow> rate_inv interval mx s" if "fresh_rate s" for s
    using that by (simp add: fresh_rate_def new_rate_window_def rate_inv_def)
  show "0 < interval \<longrightarrow> 0 < mx \<longrightarrow> rate_inv interval mx t"
    if "0 < interval \<longrightarrow> 0 < mx \<longrightarrow> rate_inv interval mx s" "rate_step interval mx s t" for s t
    using rate_inv_step [OF that(2)] that(1) by blast
qed

text \<open>In every interleaving of senders of one configuration, at most \<open>RateMax\<close> slots of a rate window are in use or
  were used for a mail that was sent, and two windows with such slots start more than \<open>RateInterval\<close> apart.\<close>

theorem rate_windows_hold:
  assumes "fresh_rate s0" "(rate_step interval mx)\<^sup>*\<^sup>* s0 s" "0 < interval" "0 < mx"
  shows "int (count_list (rs_held s) h) \<le> mx
    \<and> (h \<in> set (rs_held s) \<and> k \<in> set (rs_held s) \<and> h < k \<longrightarrow> h + interval < k)"
  using rate_windows.inv_reachable [OF assms(1,2)] assms(3,4) by (auto simp: rate_inv_def)

lemma rate_windows_hold_witness:
  "\<exists>s. (rate_step 10 1)\<^sup>*\<^sup>* \<lparr>rs_window = new_rate_window, rs_held = [], rs_time = 0\<rparr> s \<and> rs_held s = [5]
    \<and> int (count_list (rs_held s) 5) \<le> 1"
proof -
  let ?s = "\<lparr>rs_window = new_rate_window, rs_held = [], rs_time = 0\<rparr>"
  have "rate_step 10 1 ?s \<lparr>rs_window = \<lparr>rw_start = Some 5, rw_count = 1\<rparr>, rs_held = 5 # rs_held ?s, rs_time = 5\<rparr>"
    by (rule rate_granted) (simp_all add: window_reserve_def new_rate_window_def)
  then have run: "(rate_step 10 1)\<^sup>*\<^sup>* ?s \<lparr>rs_window = \<lparr>rw_start = Some 5, rw_count = 1\<rparr>, rs_held = [5], rs_time = 5\<rparr>"
    by simp
  have "fresh_rate ?s" by (simp add: fresh_rate_def)
  from rate_windows_hold [OF this run, of 5 5] run show ?thesis by fastforce
qed

end
