(* ===== verification/Archive.thy ===== *)
theory Archive
  imports File_System
begin

text \<open>
  \<open>pkg/fs\<close>, archives: \<open>extract.go\<close> (limits, \<open>safeJoin\<close>, \<open>writeFile\<close>), the extraction of
  \<open>archive.go\<close> (zip) and \<open>rar.go\<close> (rar).

  The archive itself is what its reader (\<open>archive/zip\<close>, \<open>rardecode\<close>) answers: a list of entries, each
  with its name, kind, permissions, the size its header claims, and the reader of its content
  (\<open>Inl\<close> where opening it fails; otherwise the bytes and the error that follows them, if any).
  The file system and the failures of its calls are explicit (File_System.thy).
\<close>

section \<open>Limits\<close>

definition default_max_extract_file_bytes :: int where
  "default_max_extract_file_bytes = 1073741824"

definition default_max_extract_total_bytes :: int where
  "default_max_extract_total_bytes = 4294967296"

definition default_max_extract_entries :: int where
  "default_max_extract_entries = 10000"

definition default_max_rar_dictionary_bytes :: int where
  "default_max_rar_dictionary_bytes = 268435456"

record extract_options =
  xo_max_file_bytes :: int
  xo_max_total_bytes :: int
  xo_max_entries :: int
  xo_skip_symlinks :: bool
  xo_max_rar_dictionary_bytes :: int

definition default_extract_options :: extract_options where
  "default_extract_options =
     \<lparr>xo_max_file_bytes = default_max_extract_file_bytes, xo_max_total_bytes = default_max_extract_total_bytes,
      xo_max_entries = default_max_extract_entries, xo_skip_symlinks = False,
      xo_max_rar_dictionary_bytes = default_max_rar_dictionary_bytes\<rparr>"

definition normalized :: "extract_options \<Rightarrow> extract_options" where
  "normalized o1 =
     o1\<lparr>xo_max_file_bytes := (if xo_max_file_bytes o1 \<le> 0 then default_max_extract_file_bytes else xo_max_file_bytes o1),
        xo_max_total_bytes := (if xo_max_total_bytes o1 \<le> 0 then default_max_extract_total_bytes else xo_max_total_bytes o1),
        xo_max_entries := (if xo_max_entries o1 \<le> 0 then default_max_extract_entries else xo_max_entries o1)\<rparr>"

datatype extract_error =
    Unsafe_path string string
  | Extract_limit string int string
  | Empty_destination
  | Os_failed os_error
  | Content_failed string

section \<open>The place of an entry\<close>

definition back_to_slash :: "string \<Rightarrow> string" where
  "back_to_slash = map (\<lambda>c. if c = CHR 0x5C then CHR ''/'' else c)"

text \<open>The components below the destination, checked one by one without following links.\<close>

fun check_links :: "string \<Rightarrow> string \<Rightarrow> string list \<Rightarrow> world \<Rightarrow> extract_error option \<times> world" where
  "check_links name cur [] w = (None, w)"
| "check_links name cur (p # ps) w =
     (let cur' = fp_join cur p in
      case os_lstat cur' w of
        (Inl e, w1) \<Rightarrow> (if e = Os_not_exist then None else Some (Os_failed e), w1)
      | (Inr (Link l), w1) \<Rightarrow> (Some (Unsafe_path name ''path traverses an existing symlink''), w1)
      | (Inr v, w1) \<Rightarrow> check_links name cur' ps w1)"

definition safe_join :: "string \<Rightarrow> string \<Rightarrow> world \<Rightarrow> (extract_error + string) \<times> world" where
  "safe_join dest name w =
     (if name = [] \<or> CHR 0x00 \<in> set name then (Inl (Unsafe_path name ''empty or invalid name''), w)
      else
        (let n = back_to_slash name in
         if has_prefix ''/'' n \<or> is_rooted name \<or> (2 \<le> length n \<and> n ! 1 = CHR '':'') then
           (Inl (Unsafe_path name ''absolute path''), w)
         else
           (let cleaned = fp_clean n in
            if cleaned = ''..'' \<or> has_prefix ''../'' cleaned then
              (Inl (Unsafe_path name ''path escapes destination''), w)
            else
              (let target = fp_join dest cleaned in
               if target \<noteq> dest \<and> \<not> has_prefix (dest @ ''/'') target then
                 (Inl (Unsafe_path name ''path escapes destination''), w)
               else if target = dest then (Inr target, w)
               else
                 (case check_links name dest (split_on (CHR ''/'') (drop (Suc (length dest)) target)) w of
                    (Some e, w1) \<Rightarrow> (Inl e, w1)
                  | (None, w1) \<Rightarrow> (Inr target, w1))))))"

section \<open>The state of an extraction\<close>

record extract_state =
  xs_opts :: extract_options
  xs_dest :: string
  xs_entries :: int
  xs_total :: int

definition new_extract_state ::
  "os_error + string \<Rightarrow> string \<Rightarrow> extract_options \<Rightarrow> world \<Rightarrow> (extract_error + extract_state) \<times> world" where
  "new_extract_state cwd dir opts w =
     (if dir = [] then (Inl Empty_destination, w)
      else
        (case fp_abs cwd dir of
           Inl e \<Rightarrow> (Inl (Os_failed e), w)
         | Inr ab \<Rightarrow>
             (case os_mkdir_all ab w of
                (Inl e, w1) \<Rightarrow> (Inl (Os_failed e), w1)
              | (Inr _, w1) \<Rightarrow>
                  (Inr \<lparr>xs_opts = normalized opts, xs_dest = fp_clean ab, xs_entries = 0, xs_total = 0\<rparr>, w1))))"

definition count_entry :: "string \<Rightarrow> extract_state \<Rightarrow> extract_error option \<times> extract_state" where
  "count_entry name st =
     (let st1 = st\<lparr>xs_entries := xs_entries st + 1\<rparr> in
      (if xo_max_entries (xs_opts st1) < xs_entries st1
       then Some (Extract_limit ''entries'' (xo_max_entries (xs_opts st1)) name) else None, st1))"

text \<open>
  \<open>io.Copy(out, io.LimitReader(r, limit+1))\<close>: what is read of a content, and the error of the
  reader where it gets that far. The sum wraps around at the largest 64-bit integer.
\<close>

definition copy_limited :: "int \<Rightarrow> string \<times> string option \<Rightarrow> string \<times> string option" where
  "copy_limited limit rd =
     (let lim = wrap64 (limit + 1) in
      if lim \<le> 0 then ([], None)
      else if nat lim \<le> length (fst rd) then (take (nat lim) (fst rd), None)
      else rd)"

definition write_limit :: "extract_state \<Rightarrow> int \<times> string \<times> int" where
  "write_limit st =
     (let remaining = xo_max_total_bytes (xs_opts st) - xs_total st in
      if remaining < xo_max_file_bytes (xs_opts st)
      then (remaining, ''total_bytes'', xo_max_total_bytes (xs_opts st))
      else (xo_max_file_bytes (xs_opts st), ''file_bytes'', xo_max_file_bytes (xs_opts st)))"

definition write_file ::
  "string \<Rightarrow> string \<Rightarrow> string \<times> string option \<Rightarrow> nat \<Rightarrow> extract_state \<Rightarrow> world
    \<Rightarrow> extract_error option \<times> extract_state \<times> world" where
  "write_file target name rd perm st w =
     (case os_mkdir_all (fp_dir target) w of
        (Inl e, w1) \<Rightarrow> (Some (Os_failed e), st, w1)
      | (Inr _, w1) \<Rightarrow>
          (case os_create target (if perm mod 512 = 0 then 420 else perm mod 512) w1 of
             (Inl e, w2) \<Rightarrow> (Some (Os_failed e), st, w2)
           | (Inr q, w2) \<Rightarrow>
               (let (limit, lname, lmax) = write_limit st;
                    (bytes, rerr) = copy_limited limit rd;
                    ((n, werr), w3) = os_write q bytes w2;
                    (err, st1) =
                      (if limit < int n
                       then (Some (Extract_limit lname lmax name), st\<lparr>xs_total := xs_total st + limit\<rparr>)
                       else (case werr of Some e \<Rightarrow> Some (Os_failed e) | None \<Rightarrow> map_option Content_failed rerr,
                             st\<lparr>xs_total := xs_total st + int n\<rparr>));
                    (cerr, w4) = os_close w3;
                    err1 = (case err of Some e \<Rightarrow> Some e | None \<Rightarrow> map_option Os_failed cerr) in
                if err1 \<noteq> None then (err1, st1, snd (os_remove target w4)) else (None, st1, w4))))"

section \<open>Zip and rar\<close>

datatype archive_kind = Z_symlink | Z_dir | Z_regular | Z_other

record archive_entry =
  ae_name :: string
  ae_kind :: archive_kind
  ae_perm :: nat
  ae_size :: int
  ae_unknown_size :: bool \<comment> \<open>rar only\<close>
  ae_link_target :: string \<comment> \<open>rar only\<close>
  ae_open :: "string + (string \<times> string option)"

definition symlink_entry :: "archive_entry \<Rightarrow> extract_state \<Rightarrow> extract_error option" where
  "symlink_entry e st =
     (if xo_skip_symlinks (xs_opts st) then None
      else Some (Unsafe_path (ae_name e) ''symlink entries are not allowed''))"

definition dir_entry :: "string \<Rightarrow> world \<Rightarrow> extract_error option \<times> world" where
  "dir_entry target w =
     (case os_mkdir_all target w of (Inl e, w1) \<Rightarrow> (Some (Os_failed e), w1) | (Inr _, w1) \<Rightarrow> (None, w1))"

definition zip_entry :: "archive_entry \<Rightarrow> extract_state \<Rightarrow> world \<Rightarrow> extract_error option \<times> extract_state \<times> world" where
  "zip_entry e st0 w =
     (let (cerr, st) = count_entry (ae_name e) st0 in
      case cerr of
        Some x \<Rightarrow> (Some x, st, w)
      | None \<Rightarrow>
          (case safe_join (xs_dest st) (ae_name e) w of
             (Inl x, w1) \<Rightarrow> (Some x, st, w1)
           | (Inr target, w1) \<Rightarrow>
               if ae_kind e = Z_symlink then (symlink_entry e st, st, w1)
               else if ae_kind e = Z_dir then (let (x, w2) = dir_entry target w1 in (x, st, w2))
               else if target = xs_dest st \<or> ae_kind e \<noteq> Z_regular then
                 (Some (Unsafe_path (ae_name e) ''not a regular file''), st, w1)
               else if xo_max_file_bytes (xs_opts st) < ae_size e then
                 (Some (Extract_limit ''file_bytes'' (xo_max_file_bytes (xs_opts st)) (ae_name e)), st, w1)
               else
                 (case ae_open e of
                    Inl x \<Rightarrow> (Some (Content_failed x), st, w1)
                  | Inr rd \<Rightarrow> write_file target (ae_name e) rd (ae_perm e) st w1)))"

fun zip_entries :: "archive_entry list \<Rightarrow> extract_state \<Rightarrow> world \<Rightarrow> extract_error option \<times> extract_state \<times> world" where
  "zip_entries [] st w = (None, st, w)"
| "zip_entries (e # es) st w =
     (case zip_entry e st w of
        (Some x, st1, w1) \<Rightarrow> (Some x, st1, w1)
      | (None, st1, w1) \<Rightarrow> zip_entries es st1 w1)"

definition extract_zip_with_options ::
  "os_error + string \<Rightarrow> string + archive_entry list \<Rightarrow> string \<Rightarrow> extract_options \<Rightarrow> world \<Rightarrow> extract_error option \<times> world" where
  "extract_zip_with_options cwd opened dest opts w =
     (case opened of
        Inl x \<Rightarrow> (Some (Content_failed x), w)
      | Inr es \<Rightarrow>
          (case new_extract_state cwd dest opts w of
             (Inl x, w1) \<Rightarrow> (Some x, w1)
           | (Inr st, w1) \<Rightarrow> (let (x, st1, w2) = zip_entries es st w1 in (x, w2))))"

definition extract_zip :: "os_error + string \<Rightarrow> string + archive_entry list \<Rightarrow> string \<Rightarrow> world \<Rightarrow> extract_error option \<times> world" where
  "extract_zip cwd opened dest = extract_zip_with_options cwd opened dest default_extract_options"

text \<open>The rar reader hands out headers until its end or an error; contents need no opening.\<close>

definition rar_entry :: "archive_entry \<Rightarrow> extract_state \<Rightarrow> world \<Rightarrow> extract_error option \<times> extract_state \<times> world" where
  "rar_entry e st0 w =
     (let (cerr, st) = count_entry (ae_name e) st0 in
      case cerr of
        Some x \<Rightarrow> (Some x, st, w)
      | None \<Rightarrow>
          (case safe_join (xs_dest st) (ae_name e) w of
             (Inl x, w1) \<Rightarrow> (Some x, st, w1)
           | (Inr target, w1) \<Rightarrow>
               if ae_kind e = Z_symlink \<or> ae_link_target e \<noteq> [] then (symlink_entry e st, st, w1)
               else if ae_kind e = Z_dir then (let (x, w2) = dir_entry target w1 in (x, st, w2))
               else if target = xs_dest st then
                 (Some (Unsafe_path (ae_name e) ''not a regular file''), st, w1)
               else if \<not> ae_unknown_size e \<and> xo_max_file_bytes (xs_opts st) < ae_size e then
                 (Some (Extract_limit ''file_bytes'' (xo_max_file_bytes (xs_opts st)) (ae_name e)), st, w1)
               else
                 (case ae_open e of
                    Inl x \<Rightarrow> write_file target (ae_name e) ([], Some x) (ae_perm e) st w1
                  | Inr rd \<Rightarrow> write_file target (ae_name e) rd (ae_perm e) st w1)))"

fun rar_entries ::
  "(string + archive_entry) list \<Rightarrow> extract_state \<Rightarrow> world \<Rightarrow> extract_error option \<times> extract_state \<times> world" where
  "rar_entries [] st w = (None, st, w)"
| "rar_entries (Inl x # es) st w = (Some (Content_failed x), st, w)"
| "rar_entries (Inr e # es) st w =
     (case rar_entry e st w of
        (Some x, st1, w1) \<Rightarrow> (Some x, st1, w1)
      | (None, st1, w1) \<Rightarrow> rar_entries es st1 w1)"

definition extract_rar_native_with_options ::
  "os_error + string \<Rightarrow> (int \<Rightarrow> string + (string + archive_entry) list) \<Rightarrow> string \<Rightarrow> extract_options \<Rightarrow> world
    \<Rightarrow> extract_error option \<times> world" where
  "extract_rar_native_with_options cwd reader dest opts w =
     (let dict = (if xo_max_rar_dictionary_bytes opts \<le> 0 then default_max_rar_dictionary_bytes
                  else xo_max_rar_dictionary_bytes opts) in
      case reader dict of
        Inl x \<Rightarrow> (Some (Content_failed x), w)
      | Inr es \<Rightarrow>
          (case new_extract_state cwd dest opts w of
             (Inl x, w1) \<Rightarrow> (Some x, w1)
           | (Inr st, w1) \<Rightarrow> (let (x, st1, w2) = rar_entries es st w1 in (x, w2))))"

section \<open>Entries stay below the destination\<close>

text \<open>The checks of \<open>safeJoin\<close>: the path is the destination with proper components added.\<close>

lemma safe_join_target:
  assumes "safe_join dest name w = (Inr target, w1)" "dest = rooted_path ds" "list_all proper ds"
  obtains cs where "list_all proper cs" "target = rooted_path (ds @ cs)" "target = dest \<longleftrightarrow> cs = []"
    "cs = [] \<Longrightarrow> w1 = w" "cs \<noteq> [] \<Longrightarrow> check_links name dest cs w = (None, w1)"
proof -
  let ?n = "back_to_slash name"
  let ?parts = "clean_parts False (split_on (CHR ''/'') ?n)"
  have no_root: "\<not> is_rooted ?n" using assms(1) by (auto simp: safe_join_def is_rooted_def Let_def split: if_splits)
  obtain k ps where ps: "?parts = replicate k ''..'' @ ps" "list_all proper ps"
    using clean_parts_relative [of "split_on (CHR ''/'') ?n"] sep_notin_split by blast
  have cleaned: "fp_clean ?n = (if ?parts = [] then ''.'' else join_with ''/'' ?parts)"
    using no_root by (simp add: fp_clean_def Let_def)
  have "\<not> (fp_clean ?n = ''..'' \<or> has_prefix ''../'' (fp_clean ?n))"
    using assms(1) by (auto simp: safe_join_def Let_def split: if_splits)
  moreover have "fp_clean ?n = ''..'' \<or> has_prefix ''../'' (fp_clean ?n)" if k: "0 < k"
  proof -
    obtain j where "k = Suc j" using k by (cases k) auto
    then obtain rest where "?parts = ''..'' # rest" using ps(1) by simp
    then show ?thesis using cleaned by (cases rest) (auto simp: has_prefix_def)
  qed
  ultimately have parts: "?parts = ps" using ps(1) by (cases k) auto
  have join: "fp_join dest (fp_clean ?n) = rooted_path (ds @ ps)"
    using cleaned parts fp_join_dot [OF assms(3)] fp_join_rooted [OF assms(3) ps(2)] assms(2) by (cases "ps = []") simp_all
  have t: "target = rooted_path (ds @ ps)" using assms(1) join
    by (auto simp: safe_join_def Let_def split: if_splits prod.splits option.splits)
  have eq: "target = dest \<longleftrightarrow> ps = []"
    using t assms(2) fp_parts_rooted [of ds] fp_parts_rooted [of "ds @ ps"] assms(3) ps(2) by auto
  have rest: "split_on (CHR ''/'') (drop (Suc (length dest)) target) = ps" if "ps \<noteq> []"
  proof -
    have "has_prefix (dest @ ''/'') target"
      using assms(1) join t eq that by (auto simp: safe_join_def Let_def split: if_splits prod.splits option.splits)
    then have "ds \<noteq> []"
      using proper_join_start [OF ps(2) that] t assms(2) by (auto simp: rooted_path_def has_prefix_iff)
    then have "target = dest @ ''/'' @ join_with ''/'' ps"
      using that t assms(2) by (simp add: rooted_path_def join_append)
    then show ?thesis using that ps(2) by (auto intro!: split_join simp: list_all_iff proper_def)
  qed
  show thesis
    by (rule that [OF ps(2) t eq])
       (use assms(1) join t eq rest in \<open>auto simp: safe_join_def Let_def split: if_splits prod.splits option.splits\<close>)
qed

lemma no_links_snoc: "no_links t d (xs @ [p]) \<longleftrightarrow> no_links t d xs \<and> link_at t (d @ xs @ [p]) = None"
proof
  assume "no_links t d (xs @ [p])"
  then show "no_links t d xs \<and> link_at t (d @ xs @ [p]) = None"
    using no_links_prefix [of t d xs "[p]"] by (auto simp: no_links_def)
next
  assume a: "no_links t d xs \<and> link_at t (d @ xs @ [p]) = None"
  show "no_links t d (xs @ [p])"
    unfolding no_links_def
  proof (intro allI impI)
    fix as bs assume "xs @ [p] = as @ bs \<and> as \<noteq> []"
    with a show "link_at t (d @ as) = None"
      by (cases bs rule: rev_cases) (auto simp: no_links_def)
  qed
qed

text \<open>Where a component is missing, nothing lies beyond it.\<close>

lemma missing_no_links:
  assumes clear: "clear_below t ds d xs" and "proper p"
    and none: "case place_of t (ds @ xs @ [p]) of Inl e \<Rightarrow> e = Os_not_exist | Inr q \<Rightarrow> node_at t q = None"
  shows "no_links t d (xs @ p # ps)"
  unfolding no_links_def
proof (intro allI impI)
  fix as bs assume split: "xs @ p # ps = as @ bs \<and> as \<noteq> []"
  show "link_at t (d @ as) = None"
  proof (cases "length as \<le> length xs")
    case True
    with split obtain cs where "xs = as @ cs" by (metis append_eq_append_conv_if append_take_drop_id)
    with clear split show ?thesis by (auto simp: clear_below_def no_links_def)
  next
    case False
    then obtain zs where as: "as = xs @ p # zs"
      using split by (auto simp: append_eq_append_conv2 Cons_eq_append_conv)
    show ?thesis
    proof (rule ccontr)
      assume "link_at t (d @ as) \<noteq> None"
      then obtain l where l: "t (d @ xs @ p # zs) = Some (Link l)" using as by (auto simp: link_at_eq)
      have wf: "wf_tree t" using clear by (simp add: clear_below_def)
      have dir: "node_at t (d @ xs) = Some Dir" using wf_prefix_dir [OF wf, of "d @ xs" p zs] l by simp
      obtain m where "follow t max_links [] (ds @ xs) = follow t m d xs"
        using clear follow_append unfolding clear_below_def target_of_def by blast
      then have "target_of t (ds @ xs) = Inr (d @ xs)"
        using clear follow_dirs [of t xs d m] dir by (simp add: clear_below_def target_of_def)
      then have "place_of t (ds @ xs @ [p]) = Inr (d @ xs @ [p])"
        using dir by (simp add: place_of_def butlast_append)
      with none have "t (d @ xs @ [p]) = None" by (simp add: node_at_def)
      with l show False
        using wf_prefix_dir [OF wf, of "d @ xs @ [p]"] by (cases zs) (auto simp: node_at_def)
    qed
  qed
qed

lemma check_links_clear:
  assumes "check_links name (rooted_path (ds @ xs)) ps w = (None, w1)"
    and "clear_below (w_tree w) ds d xs" "list_all proper ps" "list_all proper ds"
  shows "w_tree w1 = w_tree w \<and> clear_below (w_tree w) ds d (xs @ ps)"
  using assms(1-3)
proof (induction ps arbitrary: xs w)
  case (Cons p ps)
  have join: "fp_join (rooted_path (ds @ xs)) p = rooted_path (ds @ xs @ [p])"
    using fp_join_rooted [of "ds @ xs" "[p]"] Cons(3,4) assms(4) by (simp add: clear_below_def)
  have parts: "fp_parts (rooted_path (ds @ xs @ [p])) = ds @ xs @ [p]"
    using Cons(3,4) assms(4) by (intro fp_parts_rooted) (simp add: clear_below_def)
  obtain r w2 where st: "os_lstat (rooted_path (ds @ xs @ [p])) w = (r, w2)" by fastforce
  have r: "w_tree w2 = w_tree w \<and> ((\<exists>e. r = Inl (Os_fault e)) \<or> r = (case place_of (w_tree w) (ds @ xs @ [p]) of
        Inl e \<Rightarrow> Inl e | Inr q \<Rightarrow> (case node_at (w_tree w) q of None \<Rightarrow> Inl Os_not_exist | Some v \<Rightarrow> Inr v)))"
    using st unfolding os_lstat_def parts by (elim with_fault_cases) (auto split: sum.split option.split)
  show ?case
  proof (cases r)
    case (Inl e)
    with Cons(2) join st have e: "e = Os_not_exist" "w1 = w2" by (auto simp: Let_def split: if_splits)
    have "no_links (w_tree w) d (xs @ p # ps)"
      by (rule missing_no_links [OF Cons(3)]) (use r Inl e Cons(4) in \<open>auto split: sum.splits option.splits\<close>)
    with Cons(3,4) r e show ?thesis by (simp add: clear_below_def)
  next
    case (Inr v)
    with r obtain q where q: "place_of (w_tree w) (ds @ xs @ [p]) = Inr q" "node_at (w_tree w) q = Some v"
      by (auto split: sum.splits option.splits)
    then obtain q0 where q0: "target_of (w_tree w) (ds @ xs) = Inr q0" "q = q0 @ [p]"
      by (auto simp: place_of_def butlast_append split: sum.splits option.splits node.splits)
    have "q0 = d @ xs" using clear_target(1) [OF Cons(3) q0(1)] .
    moreover have "link_at (w_tree w) q = None"
      using Cons(2,3) join st Inr q(2)
      by (auto simp: Let_def node_at_def link_at_eq clear_below_def wf_tree_def split: if_splits node.splits)
    ultimately have clear: "clear_below (w_tree w2) ds d (xs @ [p])"
      using Cons(3,4) q0(2) r by (simp add: clear_below_def no_links_snoc)
    have "check_links name (rooted_path (ds @ xs @ [p])) ps w2 = (None, w1)"
      using Cons(2) join st Inr by (auto simp: Let_def split: node.splits)
    with Cons(1) [of "xs @ [p]" w2] clear Cons(4) r show ?thesis by simp
  qed
qed simp

lemma safe_join_clear:
  assumes "safe_join (rooted_path ds) name w = (Inr target, w1)" "list_all proper ds"
    and "wf_tree (w_tree w)" "target_of (w_tree w) ds = Inr d" "node_at (w_tree w) d = Some Dir"
  obtains cs where "target = rooted_path (ds @ cs)" "target = rooted_path ds \<longleftrightarrow> cs = []"
    "w_tree w1 = w_tree w" "clear_below (w_tree w) ds d cs"
proof -
  from safe_join_target [OF assms(1) refl assms(2)] obtain cs where
    cs: "list_all proper cs" "target = rooted_path (ds @ cs)" "target = rooted_path ds \<longleftrightarrow> cs = []"
      "cs = [] \<Longrightarrow> w1 = w" "cs \<noteq> [] \<Longrightarrow> check_links name (rooted_path ds) cs w = (None, w1)" by metis
  have base: "clear_below (w_tree w) ds d []" using assms(3-5) by (simp add: clear_below_def no_links_def)
  show thesis
  proof (cases "cs = []")
    case True
    with cs base show thesis by (intro that [of cs]) auto
  next
    case False
    from check_links_clear [of name ds "[]" cs w w1 d] cs(1) cs(5) [OF False] base assms(2)
    show thesis by (intro that [of cs]) (use cs in auto)
  qed
qed

lemma check_links_tree: "check_links name cur ps w = (x, w1) \<Longrightarrow> w_tree w1 = w_tree w"
proof (induction ps arbitrary: cur w)
  case (Cons p ps)
  obtain r w2 where st: "os_lstat (fp_join cur p) w = (r, w2)" by fastforce
  have "w_tree w2 = w_tree w" using st unfolding os_lstat_def by (elim with_fault_cases) auto
  with Cons st show ?case by (auto simp: Let_def split: sum.splits node.splits if_splits)
qed simp

lemma safe_join_tree: "safe_join dest name w = (x, w1) \<Longrightarrow> w_tree w1 = w_tree w"
  by (auto simp: safe_join_def Let_def dest: check_links_tree split: if_splits prod.splits option.splits)

section \<open>Limits hold\<close>

definition changed :: "file_tree \<Rightarrow> file_tree \<Rightarrow> place set" where
  "changed t t' = {q. t' q \<noteq> t q}"

definition within_limits :: "file_tree \<Rightarrow> file_tree \<Rightarrow> int \<Rightarrow> int \<Rightarrow> bool" where
  "within_limits t0 t m b \<longleftrightarrow> finite (changed t0 t) \<and> (\<forall>q\<in>changed t0 t. int (node_bytes (t q)) \<le> m)
     \<and> (\<Sum>q\<in>changed t0 t. int (node_bytes (t q))) \<le> b"

lemma within_limits_refl: "0 \<le> b \<Longrightarrow> within_limits t t m b"
  by (simp add: within_limits_def changed_def)

lemma within_limits_mono: "within_limits t0 t m b \<Longrightarrow> m \<le> m' \<Longrightarrow> b \<le> b' \<Longrightarrow> within_limits t0 t m' b'"
  unfolding within_limits_def by force

lemma within_limits_step:
  assumes w: "within_limits t0 t m b" and "finite X" "\<And>q. q \<notin> X \<Longrightarrow> t' q = t q"
    and x: "\<And>q. q \<in> X \<Longrightarrow> int (node_bytes (t' q)) \<le> m" "(\<Sum>q\<in>X. int (node_bytes (t' q))) \<le> k"
  shows "within_limits t0 t' m (b + k)"
proof -
  let ?f = "\<lambda>t q. int (node_bytes (t q))"
  have sub: "changed t0 t' \<subseteq> (changed t0 t - X) \<union> X" using assms(3) by (auto simp: changed_def)
  have fin: "finite ((changed t0 t - X) \<union> X)" using w assms(2) by (simp add: within_limits_def)
  have "sum (?f t') (changed t0 t') \<le> sum (?f t') ((changed t0 t - X) \<union> X)"
    by (rule sum_mono2 [OF fin sub]) simp
  also have "\<dots> = sum (?f t') (changed t0 t - X) + sum (?f t') X"
    using fin assms(2) by (intro sum.union_disjoint) auto
  also have "sum (?f t') (changed t0 t - X) = sum (?f t) (changed t0 t - X)"
    using assms(3) by (intro sum.cong) auto
  also have "sum (?f t) (changed t0 t - X) \<le> sum (?f t) (changed t0 t)"
    using w by (intro sum_mono2) (auto simp: within_limits_def)
  also have "\<dots> \<le> b" using w by (simp add: within_limits_def)
  finally have "sum (?f t') (changed t0 t') \<le> b + k" using x(2) by simp
  moreover have "?f t' q \<le> m" if "q \<in> changed t0 t'" for q
    using that sub x(1) w assms(3) by (cases "q \<in> X") (auto simp: within_limits_def changed_def)
  ultimately show ?thesis using finite_subset [OF sub fin] by (simp add: within_limits_def)
qed

lemma changes_finite: "changes Q t t' \<Longrightarrow> finite (changed t t')"
proof (induction rule: changes.induct)
  case (changes_one t t1 q t2)
  then have "changed t t2 \<subseteq> insert q (changed t t1)" by (auto simp: changed_def node_change_def)
  with changes_one(4) show ?case by (meson finite.insertI finite_subset)
qed (simp add: changed_def)

lemma within_limits_dirs:
  assumes "within_limits t0 t m b" "changes Q t t'" "\<forall>q. t' q \<noteq> t q \<longrightarrow> t' q = Some Dir" "0 \<le> m"
  shows "within_limits t0 t' m b"
proof -
  have zero: "int (node_bytes (t' q)) = 0" if "q \<in> changed t t'" for q
    using assms(3) that by (auto simp: changed_def node_bytes_def)
  have "within_limits t0 t' m (b + 0)"
    by (rule within_limits_step [OF assms(1) changes_finite [OF assms(2)]])
       (use zero assms(4) in \<open>auto simp: changed_def\<close>)
  then show ?thesis by simp
qed

lemma copy_limited_length: "- 1 \<le> limit \<Longrightarrow> int (length (fst (copy_limited limit rd))) \<le> limit + 1"
proof -
  assume "- 1 \<le> limit"
  then have "wrap64 (limit + 1) \<le> limit + 1"
    using zmod_le_nonneg_dividend [of "limit + 1 + 2 ^ 63" "2 ^ 64"] by (simp add: wrap64_def)
  then show ?thesis using \<open>- 1 \<le> limit\<close> by (auto simp: copy_limited_def Let_def min_def)
qed

definition state_ok :: "extract_state \<Rightarrow> bool" where
  "state_ok st \<longleftrightarrow> 0 < xo_max_file_bytes (xs_opts st) \<and> 0 \<le> xs_total st \<and> xs_total st \<le> xo_max_total_bytes (xs_opts st)"

text \<open>What a step may do: nodes change below the destination, and the limits hold, up to one
  byte where it failed.\<close>

definition step_ok :: "file_tree \<Rightarrow> place \<Rightarrow> extract_error option \<Rightarrow> extract_state \<Rightarrow> world \<Rightarrow> extract_state \<Rightarrow> world \<Rightarrow> bool" where
  "step_ok t0 d r st w st' w' \<longleftrightarrow>
     changes (strictly_below d) (w_tree w) (w_tree w')
   \<and> xs_opts st' = xs_opts st \<and> xs_dest st' = xs_dest st \<and> state_ok st'
   \<and> within_limits t0 (w_tree w') (xo_max_file_bytes (xs_opts st) + (if r = None then 0 else 1))
       (xs_total st' + (if r = None then 0 else 1))"

lemma write_limit_bounds:
  assumes "write_limit st = (limit, lname, lmax)" "state_ok st"
  shows "0 \<le> limit" "limit \<le> xo_max_file_bytes (xs_opts st)" "xs_total st + limit \<le> xo_max_total_bytes (xs_opts st)"
  using assms by (auto simp: write_limit_def state_ok_def Let_def split: if_splits)

lemma strictly_below_append: "cs \<noteq> [] \<Longrightarrow> d @ cs \<in> strictly_below d"
  by (auto simp: strictly_below_def neq_Nil_conv)

text \<open>Copying into the new file, closing it, and removing it after an error.\<close>

definition finish_file ::
  "string \<Rightarrow> string \<Rightarrow> string \<times> string option \<Rightarrow> place \<Rightarrow> extract_state \<Rightarrow> world
    \<Rightarrow> extract_error option \<times> extract_state \<times> world" where
  "finish_file target name rd q st w2 =
     (let (limit, lname, lmax) = write_limit st;
          (bytes, rerr) = copy_limited limit rd;
          ((n, werr), w3) = os_write q bytes w2;
          (err, st1) =
            (if limit < int n
             then (Some (Extract_limit lname lmax name), st\<lparr>xs_total := xs_total st + limit\<rparr>)
             else (case werr of Some e \<Rightarrow> Some (Os_failed e) | None \<Rightarrow> map_option Content_failed rerr,
                   st\<lparr>xs_total := xs_total st + int n\<rparr>));
          (cerr, w4) = os_close w3;
          err1 = (case err of Some e \<Rightarrow> Some e | None \<Rightarrow> map_option Os_failed cerr) in
      if err1 \<noteq> None then (err1, st1, snd (os_remove target w4)) else (None, st1, w4))"

lemma write_file_finish:
  "write_file target name rd perm st w =
     (case os_mkdir_all (fp_dir target) w of
        (Inl e, w1) \<Rightarrow> (Some (Os_failed e), st, w1)
      | (Inr _, w1) \<Rightarrow>
          (case os_create target (if perm mod 512 = 0 then 420 else perm mod 512) w1 of
             (Inl e, w2) \<Rightarrow> (Some (Os_failed e), st, w2)
           | (Inr q, w2) \<Rightarrow> finish_file target name rd q st w2))"
  unfolding write_file_def finish_file_def by (rule refl)

lemma finish_file_ok:
  assumes run: "finish_file (rooted_path (ds @ cs)) name rd q st w = (r, st', w')"
    and clear: "clear_below (w_tree w) ds d cs" "list_all proper ds" "cs \<noteq> []"
    and q: "q = d @ cs" "node_bytes (w_tree w q) = 0"
    and ok: "state_ok st" "within_limits t0 (w_tree w) (xo_max_file_bytes (xs_opts st)) (xs_total st)"
  shows "step_ok t0 d r st w st' w'"
proof -
  let ?m = "xo_max_file_bytes (xs_opts st)"
  obtain limit lname lmax where l: "write_limit st = (limit, lname, lmax)" by (cases "write_limit st") auto
  note lim = write_limit_bounds [OF l ok(1)]
  obtain bytes rerr where c: "copy_limited limit rd = (bytes, rerr)" by fastforce
  obtain n werr w3 where wr: "os_write q bytes w = ((n, werr), w3)" by (metis surj_pair)
  obtain cerr w4 where cl: "os_close w3 = (cerr, w4)" by fastforce
  obtain x w5 where rm: "os_remove (rooted_path (ds @ cs)) w4 = (x, w5)" by fastforce
  have wf: "wf_tree (w_tree w)" using clear(1) by (simp add: clear_below_def)
  note wrote = os_write_change [OF wr wf q(2)]
  have t4: "w_tree w4 = w_tree w3" by (rule os_close_tree [OF cl])
  have mem: "q \<in> strictly_below d" using q(1) clear(3) strictly_below_append by simp
  have ch3: "changes (strictly_below d) (w_tree w) (w_tree w3)"
    using wrote(1) changes_single [OF mem] by (auto intro: changes_none)
  have clear3: "clear_below (w_tree w4) ds d cs" unfolding t4 by (rule clear_below_changes [OF clear(1) ch3])
  note gone = os_remove_below [OF rm clear3 clear(2,3)]
  have ch5: "changes (strictly_below d) (w_tree w) (w_tree w5)"
    using gone changes_trans [OF changes_single [OF mem] ch3] ch3 t4 q(1) by auto
  have at_q: "w_tree w3 p = w_tree w p" "w_tree w5 p = w_tree w p" if "p \<noteq> q" for p
    using wrote(1) gone that t4 q(1) by (auto simp: node_change_def)
  have n: "int n \<le> limit + 1"
    using wrote(3) copy_limited_length [of limit rd] lim(1) c by simp
  have small3: "int (node_bytes (w_tree w3 q)) \<le> int n" using wrote(2) by simp
  have small5: "int (node_bytes (w_tree w5 q)) \<le> int n" using gone small3 t4 q(1) by (auto simp: node_bytes_def)
  have lim3: "within_limits t0 (w_tree w3) ?m (xs_total st + int n)" if "int n \<le> limit"
    by (rule within_limits_step [OF ok(2), where X = "{q}"]) (use at_q small3 that lim(2) in auto)
  have lim5: "within_limits t0 (w_tree w5) (?m + 1) (xs_total st + int n)"
    by (rule within_limits_step [OF within_limits_mono [OF ok(2)], where X = "{q}"])
       (use at_q small5 n lim(2) in auto)
  show ?thesis
  proof (cases "limit < int n")
    case True
    then have "r \<noteq> None" "st' = st\<lparr>xs_total := xs_total st + limit\<rparr>" "w' = w5"
      using run l c wr cl rm by (auto simp: finish_file_def)
    with ch5 lim5 n lim ok(1) show ?thesis
      by (auto simp: step_ok_def state_ok_def elim: within_limits_mono)
  next
    case False
    then have "st' = st\<lparr>xs_total := xs_total st + int n\<rparr>" "if r = None then w' = w4 else w' = w5"
      using run l c wr cl rm by (auto simp: finish_file_def Let_def split: if_splits)
    with ch3 ch5 lim3 lim5 t4 False lim ok(1) show ?thesis
      by (auto simp: step_ok_def state_ok_def elim: within_limits_mono split: if_splits)
  qed
qed

lemma write_file_ok:
  assumes run: "write_file (rooted_path (ds @ cs)) name rd perm st w = (r, st', w')"
    and clear: "clear_below (w_tree w) ds d cs" "list_all proper ds" "cs \<noteq> []"
    and ok: "state_ok st" "within_limits t0 (w_tree w) (xo_max_file_bytes (xs_opts st)) (xs_total st)"
  shows "step_ok t0 d r st w st' w'"
proof -
  let ?m = "xo_max_file_bytes (xs_opts st)"
  obtain bs c where cs: "cs = bs @ [c]" using clear(3) by (cases cs rule: rev_cases) auto
  have m: "0 \<le> ?m" using ok(1) by (simp add: state_ok_def)
  have proper: "list_all proper (ds @ bs)" "proper c" using clear(1,2) cs by (auto simp: clear_below_def)
  obtain r1 w1 where mk: "os_mkdir_all (rooted_path (ds @ bs)) w = (r1, w1)" by fastforce
  obtain r2 w2 where cr: "os_create (rooted_path (ds @ cs)) (if perm mod 512 = 0 then 420 else perm mod 512) w1 = (r2, w2)"
    by fastforce
  have dir: "fp_dir (rooted_path (ds @ cs)) = rooted_path (ds @ bs)"
    using fp_dir_rooted [OF proper] cs by simp
  have "clear_below (w_tree w) ds d bs" using clear(1) cs clear_below_prefix by blast
  note made = os_mkdir_all_below [OF mk this clear(2)]
  have lim1: "within_limits t0 (w_tree w1) ?m (xs_total st)" by (rule within_limits_dirs [OF ok(2) made m])
  have clear1: "clear_below (w_tree w1) ds d cs" by (rule clear_below_changes [OF clear(1) made(1)])
  note create = os_create_below [OF cr clear1 clear(2,3)]
  have ch2: "changes (strictly_below d) (w_tree w) (w_tree w2)"
    using create(1) changes_trans [OF changes_single [OF strictly_below_append [OF clear(3)]] made(1)] made(1) by auto
  have clear2: "clear_below (w_tree w2) ds d cs" by (rule clear_below_changes [OF clear(1) ch2])
  have failed: "step_ok t0 d (Some e) st w st w1" for e
    using made(1) lim1 ok(1) by (auto simp: step_ok_def elim: within_limits_mono)
  show ?thesis
  proof (cases r1)
    case (Inl e)
    with run mk dir failed [of "Os_failed e"] show ?thesis by (auto simp: write_file_finish)
  next
    case r1: (Inr u)
    show ?thesis
    proof (cases r2)
      case (Inl e)
      have "w_tree w2 = w_tree w1"
        using cr Inl unfolding os_create_def
        by (elim with_fault_cases) (auto split: sum.splits option.splits node.splits)
      with run mk cr dir r1 Inl failed [of "Os_failed e"] show ?thesis
        by (auto simp: write_file_finish step_ok_def)
    next
      case (Inr q)
      note q = create(2) [OF Inr]
      have lim2: "within_limits t0 (w_tree w2) ?m (xs_total st + 0)"
        by (rule within_limits_step [OF lim1, where X = "{d @ cs}"])
           (use create(1) q m in \<open>auto simp: node_change_def node_bytes_def\<close>)
      have "finish_file (rooted_path (ds @ cs)) name rd q st w2 = (r, st', w')"
        using run mk cr dir r1 Inr by (simp add: write_file_finish)
      from finish_file_ok [OF this clear2 clear(2,3), of t0] q ok(1) lim2
      have "step_ok t0 d r st w2 st' w'" by (auto simp: node_bytes_def)
      with ch2 show ?thesis unfolding step_ok_def using changes_trans by blast
    qed
  qed
qed

text \<open>An entry, once its path is found safe: what zip and rar do with it.\<close>

definition ready :: "file_tree \<Rightarrow> string list \<Rightarrow> place \<Rightarrow> extract_state \<Rightarrow> world \<Rightarrow> bool" where
  "ready t0 ds d st w \<longleftrightarrow> list_all proper ds \<and> xs_dest st = rooted_path ds \<and> state_ok st
     \<and> wf_tree (w_tree w) \<and> target_of (w_tree w) ds = Inr d \<and> node_at (w_tree w) d = Some Dir
     \<and> within_limits t0 (w_tree w) (xo_max_file_bytes (xs_opts st)) (xs_total st)"

lemma ready_base: "ready t0 ds d st w \<Longrightarrow> clear_below (w_tree w) ds d []"
  by (simp add: ready_def clear_below_def no_links_def)

lemma ready_step:
  assumes "ready t0 ds d st w" "step_ok t0 d None st w st' w'"
  shows "ready t0 ds d st' w'"
proof -
  have "clear_below (w_tree w') ds d []"
    using ready_base [OF assms(1)] clear_below_changes assms(2) unfolding step_ok_def by blast
  with assms show ?thesis by (auto simp: ready_def step_ok_def clear_below_def)
qed

lemma step_ok_same: "ready t0 ds d st w \<Longrightarrow> w_tree w' = w_tree w \<Longrightarrow> step_ok t0 d r st w (st\<lparr>xs_entries := k\<rparr>) w'"
  by (auto simp: ready_def step_ok_def state_ok_def intro: changes_none elim: within_limits_mono)

lemma step_ok_entries: "step_ok t0 d r (st\<lparr>xs_entries := k\<rparr>) w st' w' \<longleftrightarrow> step_ok t0 d r st w st' w'"
  by (simp add: step_ok_def)

lemma dir_entry_ok:
  assumes "dir_entry (rooted_path (ds @ cs)) w1 = (r, w')" "ready t0 ds d st w" "w_tree w1 = w_tree w"
    "clear_below (w_tree w) ds d cs"
  shows "step_ok t0 d r st w (st\<lparr>xs_entries := k\<rparr>) w'"
proof -
  obtain x where m: "os_mkdir_all (rooted_path (ds @ cs)) w1 = (x, w')"
    using assms(1) by (auto simp: dir_entry_def split: prod.splits sum.splits)
  have ds: "list_all proper ds" using assms(2) by (simp add: ready_def)
  note made = os_mkdir_all_below [OF m assms(4) [folded assms(3)] ds]
  have "within_limits t0 (w_tree w') (xo_max_file_bytes (xs_opts st)) (xs_total st)"
    by (rule within_limits_dirs [OF _ made]) (use assms(2,3) in \<open>simp_all add: ready_def state_ok_def\<close>)
  with assms(2,3) made(1) show ?thesis
    by (auto simp: step_ok_def ready_def state_ok_def elim: within_limits_mono)
qed

lemma entry_file_ok:
  assumes "write_file (rooted_path (ds @ cs)) name rd perm (st\<lparr>xs_entries := k\<rparr>) w1 = (r, st', w')" "ready t0 ds d st w"
    "w_tree w1 = w_tree w" "clear_below (w_tree w) ds d cs" "cs \<noteq> []"
  shows "step_ok t0 d r st w st' w'"
proof -
  have "step_ok t0 d r (st\<lparr>xs_entries := k\<rparr>) w1 st' w'"
    by (rule write_file_ok [OF assms(1)]) (use assms(2-5) in \<open>simp_all add: ready_def state_ok_def\<close>)
  with assms(3) show ?thesis by (simp add: step_ok_def)
qed

lemma zip_entry_ok:
  assumes run: "zip_entry e st w = (r, st', w')" and ok: "ready t0 ds d st w"
  shows "step_ok t0 d r st w st' w'"
proof -
  let ?st = "st\<lparr>xs_entries := xs_entries st + 1\<rparr>"
  have dest: "xs_dest st = rooted_path ds" using ok by (simp add: ready_def)
  obtain x w1 where j: "safe_join (rooted_path ds) (ae_name e) w = (x, w1)" by fastforce
  have base: "list_all proper ds" "wf_tree (w_tree w)" "target_of (w_tree w) ds = Inr d" "node_at (w_tree w) d = Some Dir"
    using ok by (simp_all add: ready_def)
  show ?thesis
  proof (cases x)
    case (Inl y)
    have "w_tree w1 = w_tree w" using safe_join_tree [OF j] .
    with run j Inl dest step_ok_same [OF ok] show ?thesis
      by (auto simp: zip_entry_def count_entry_def Let_def split: if_splits)
  next
    case (Inr target)
    from safe_join_clear [OF j [unfolded Inr] base] obtain cs where
      cs: "target = rooted_path (ds @ cs)" "target = rooted_path ds \<longleftrightarrow> cs = []" "w_tree w1 = w_tree w"
        "clear_below (w_tree w) ds d cs" .
    note same = step_ok_same [OF ok cs(3)] step_ok_same [OF ok refl]
    show ?thesis
      using run j Inr dest cs same dir_entry_ok [OF _ ok cs(3,4)] entry_file_ok [OF _ ok cs(3,4)]
      by (auto simp: zip_entry_def count_entry_def symlink_entry_def Let_def split: if_splits prod.splits sum.splits)
  qed
qed

text \<open>The loop over the entries is the same for both formats: what it needs of one entry.\<close>

definition counted :: "extract_error option \<Rightarrow> extract_state \<Rightarrow> extract_state \<Rightarrow> bool" where
  "counted r st st' \<longleftrightarrow>
     (r = None \<longrightarrow> xs_entries st' = xs_entries st + 1 \<and> xs_entries st' \<le> xo_max_entries (xs_opts st))"

locale entry_loop =
  fixes one :: "'x \<Rightarrow> extract_state \<Rightarrow> world \<Rightarrow> extract_error option \<times> extract_state \<times> world"
    and entries :: "'x list \<Rightarrow> extract_state \<Rightarrow> world \<Rightarrow> extract_error option \<times> extract_state \<times> world"
  assumes entries_Nil: "entries [] st w = (None, st, w)"
    and entries_Cons: "entries (x # xs) st w =
      (case one x st w of (Some e, st1, w1) \<Rightarrow> (Some e, st1, w1) | (None, st1, w1) \<Rightarrow> entries xs st1 w1)"
    and one_ok: "one x st w = (r, st', w') \<Longrightarrow> ready t0 ds d st w \<Longrightarrow> step_ok t0 d r st w st' w' \<and> counted r st st'"
begin

lemma entries_ok: "entries xs st w = (r, st', w') \<Longrightarrow> ready t0 ds d st w \<Longrightarrow> step_ok t0 d r st w st' w'"
proof (induction xs arbitrary: st w)
  case Nil
  then show ?case by (auto simp: entries_Nil step_ok_def ready_def intro: changes_none)
next
  case (Cons x xs)
  obtain r1 st1 w1 where o: "one x st w = (r1, st1, w1)" by (metis surj_pair)
  note ok = one_ok [OF o Cons(3), THEN conjunct1]
  show ?case
  proof (cases r1)
    case None
    have next_ready: "ready t0 ds d st1 w1" using ready_step [OF Cons(3)] ok None by simp
    have "entries xs st1 w1 = (r, st', w')" using Cons(2) o None by (simp add: entries_Cons)
    from Cons(1) [OF this next_ready] ok None show ?thesis
      by (auto simp: step_ok_def elim: changes_trans)
  next
    case (Some e)
    with Cons(2) o ok show ?thesis by (simp add: entries_Cons)
  qed
qed

lemma entries_counted:
  "entries xs st w = (None, st', w') \<Longrightarrow> ready t0 ds d st w \<Longrightarrow>
    xs_entries st' = xs_entries st + int (length xs) \<and> (xs \<noteq> [] \<longrightarrow> xs_entries st' \<le> xo_max_entries (xs_opts st))"
proof (induction xs arbitrary: st w)
  case (Cons x xs)
  obtain st1 w1 where o: "one x st w = (None, st1, w1)" "entries xs st1 w1 = (None, st', w')"
    using Cons(2) by (auto simp: entries_Cons split: prod.splits option.splits)
  note ok = one_ok [OF o(1) Cons(3)]
  then have same: "xs_opts st1 = xs_opts st" by (simp add: step_ok_def)
  from Cons(1) [OF o(2) ready_step [OF Cons(3)]] ok same show ?case
    by (cases xs) (use o(2) in \<open>auto simp: counted_def entries_Nil\<close>)
qed (simp add: entries_Nil)

end

lemma finish_file_entries: "finish_file target name rd q st w = (r, st', w') \<Longrightarrow> xs_entries st' = xs_entries st"
  by (auto simp: finish_file_def Let_def split: prod.splits if_splits)

lemma write_file_entries: "write_file target name rd perm st w = (r, st', w') \<Longrightarrow> xs_entries st' = xs_entries st"
  by (auto simp: write_file_finish dest: finish_file_entries split: prod.splits sum.splits)

lemma zip_entry_counted: "zip_entry e st w = (r, st', w') \<Longrightarrow> counted r st st'"
  by (auto simp: counted_def zip_entry_def count_entry_def Let_def dest: write_file_entries
      split: if_splits prod.splits sum.splits)

lemma rar_entry_counted: "rar_entry e st w = (r, st', w') \<Longrightarrow> counted r st st'"
  by (auto simp: counted_def rar_entry_def count_entry_def Let_def dest: write_file_entries
      split: if_splits prod.splits sum.splits)

lemma rar_entry_ok:
  assumes run: "rar_entry e st w = (r, st', w')" and ok: "ready t0 ds d st w"
  shows "step_ok t0 d r st w st' w'"
proof -
  have dest: "xs_dest st = rooted_path ds" using ok by (simp add: ready_def)
  obtain x w1 where j: "safe_join (rooted_path ds) (ae_name e) w = (x, w1)" by fastforce
  have base: "list_all proper ds" "wf_tree (w_tree w)" "target_of (w_tree w) ds = Inr d" "node_at (w_tree w) d = Some Dir"
    using ok by (simp_all add: ready_def)
  show ?thesis
  proof (cases x)
    case (Inl y)
    have "w_tree w1 = w_tree w" using safe_join_tree [OF j] .
    with run j Inl dest step_ok_same [OF ok] show ?thesis
      by (auto simp: rar_entry_def count_entry_def Let_def split: if_splits)
  next
    case (Inr target)
    from safe_join_clear [OF j [unfolded Inr] base] obtain cs where
      cs: "target = rooted_path (ds @ cs)" "target = rooted_path ds \<longleftrightarrow> cs = []" "w_tree w1 = w_tree w"
        "clear_below (w_tree w) ds d cs" .
    note same = step_ok_same [OF ok cs(3)] step_ok_same [OF ok refl]
    show ?thesis
      using run j Inr dest cs same dir_entry_ok [OF _ ok cs(3,4)] entry_file_ok [OF _ ok cs(3,4)]
      by (auto simp: rar_entry_def count_entry_def symlink_entry_def Let_def split: if_splits prod.splits sum.splits)
  qed
qed

definition rar_next :: "string + archive_entry \<Rightarrow> extract_state \<Rightarrow> world \<Rightarrow> extract_error option \<times> extract_state \<times> world" where
  "rar_next x st w = (case x of Inl e \<Rightarrow> (Some (Content_failed e), st, w) | Inr e \<Rightarrow> rar_entry e st w)"

interpretation zip_loop: entry_loop zip_entry zip_entries
  by unfold_locales (auto intro: zip_entry_ok zip_entry_counted split: prod.splits option.splits)

interpretation rar_loop: entry_loop rar_next rar_entries
proof unfold_locales
  show "rar_entries (x # xs) st w =
      (case rar_next x st w of (Some e, st1, w1) \<Rightarrow> (Some e, st1, w1) | (None, st1, w1) \<Rightarrow> rar_entries xs st1 w1)"
    for x xs st w by (cases x) (auto simp: rar_next_def)
  show "rar_next x st w = (r, st', w') \<Longrightarrow> ready t0 ds d st w \<Longrightarrow> step_ok t0 d r st w st' w' \<and> counted r st st'"
    for x st w r st' w' t0 ds d
  proof (cases x)
    case (Inl e)
    assume "rar_next x st w = (r, st', w')" "ready t0 ds d st w"
    with Inl step_ok_same [of t0 ds d st w w r "xs_entries st"] show ?thesis
      by (auto simp: rar_next_def counted_def)
  next
    case (Inr e)
    assume "rar_next x st w = (r, st', w')" "ready t0 ds d st w"
    then have "rar_entry e st w = (r, st', w')" "ready t0 ds d st w" using Inr by (simp_all add: rar_next_def)
    then show ?thesis using rar_entry_ok rar_entry_counted by blast
  qed
qed simp

text \<open>Making the destination.\<close>

lemma place_parent: "place_of t cs = Inr q \<Longrightarrow> q = [] \<or> node_at t (butlast q) = Some Dir"
  by (auto simp: place_of_def split: if_splits sum.splits option.splits node.splits)

lemma mkdir_at_node:
  "mkdir_at cs w = (r, w') \<Longrightarrow> w_tree w' = w_tree w \<or> (\<exists>q. node_change q (w_tree w) (w_tree w'))"
proof -
  assume run: "mkdir_at cs w = (r, w')"
  show ?thesis
  proof (cases "\<exists>q. target_of (w_tree w) cs = Inr q \<and> node_at (w_tree w) q = None")
    case False
    with run show ?thesis by (auto simp: mkdir_at_def split: sum.splits option.splits node.splits)
  next
    case True
    with run have "with_fault (\<lambda>w. case place_of (w_tree w) cs of
                   Inl e \<Rightarrow> (Inl e, w)
                 | Inr q' \<Rightarrow>
                     if node_at (w_tree w) q' \<noteq> None then (Inl Os_exist, w)
                     else (Inr (), w\<lparr>w_tree := (w_tree w)(q' \<mapsto> Dir)\<rparr>)) w = (r, w')"
      by (auto simp: mkdir_at_def)
    then show ?thesis
    proof (cases rule: with_fault_cases)
      case (2 w1)
      show ?thesis
      proof (cases "place_of (w_tree w) cs")
        case (Inr q)
        have "node_change q (w_tree w) ((w_tree w)(q \<mapsto> Dir))" if "node_at (w_tree w) q = None"
          unfolding node_change_def using that place_parent [OF Inr]
          by (intro exI [of _ "Some Dir"]) (auto simp: node_at_def split: if_splits)
        with 2 Inr show ?thesis by (auto split: if_splits)
      qed (use 2 in simp)
    qed simp
  qed
qed

lemma mkdir_all_wf: "mkdir_all up cs w = (r, w') \<Longrightarrow> wf_tree (w_tree w) \<Longrightarrow> wf_tree (w_tree w')"
proof (induction cs arbitrary: up w)
  case (Cons c cs)
  obtain r1 w1 where m: "mkdir_at (up @ [c]) w = (r1, w1)" by fastforce
  have "wf_tree (w_tree w1)" using mkdir_at_node [OF m] node_change_wf [OF Cons(3)] Cons(3) by auto
  with Cons m show ?case by (auto split: sum.splits)
qed simp

lemma new_state_ready:
  assumes new: "new_extract_state cwd dir opts w = (Inr st, w1)" and wf: "wf_tree (w_tree w)"
    and cwd: "\<forall>c. cwd = Inr c \<longrightarrow> is_rooted c"
  obtains ds d where "ready (w_tree w1) ds d st w1" "xs_opts st = normalized opts" "xs_entries st = 0"
proof -
  obtain ab where ab: "fp_abs cwd dir = Inr ab" "os_mkdir_all ab w = (Inr (), w1)"
    and st: "st = \<lparr>xs_opts = normalized opts, xs_dest = fp_clean ab, xs_entries = 0, xs_total = 0\<rparr>"
    using new by (auto simp: new_extract_state_def split: if_splits sum.splits prod.splits)
  have "\<exists>p. is_rooted p \<and> ab = fp_clean p"
  proof (cases "is_rooted dir")
    case False
    then obtain c where c: "is_rooted c" "ab = fp_join c dir"
      using ab(1) cwd by (cases cwd) (auto simp: fp_abs_def)
    then have "is_rooted (c @ ''/'' @ dir)" "ab = fp_clean (c @ ''/'' @ dir)"
      by (cases c; simp add: fp_join_def)+
    then show ?thesis by blast
  qed (use ab(1) in \<open>auto simp: fp_abs_def\<close>)
  then obtain ds where ds: "ab = rooted_path ds" "list_all proper ds" using fp_clean_rooted by blast
  have parts: "mkdir_all [] ds w = (Inr (), w1)" using ab(2) ds by (simp add: os_mkdir_all_def fp_parts_rooted)
  have "\<exists>d. target_of (w_tree w1) ds = Inr d \<and> node_at (w_tree w1) d = Some Dir"
  proof (cases ds rule: rev_cases)
    case Nil
    then show ?thesis by (simp add: target_of_def node_at_def)
  next
    case (snoc bs c)
    then obtain u w2 where "mkdir_at (bs @ [c]) w2 = (Inr u, w1)"
      using parts by (auto simp: mkdir_all_append split: prod.splits sum.splits)
    with mkdir_at_ok [of bs c w2 u w1] ds(2) snoc show ?thesis by simp
  qed
  then obtain d where "target_of (w_tree w1) ds = Inr d" "node_at (w_tree w1) d = Some Dir" by blast
  moreover have "wf_tree (w_tree w1)" by (rule mkdir_all_wf [OF parts wf])
  ultimately have "ready (w_tree w1) ds d st w1"
    using st ds fp_clean_rooted_path [OF ds(2)]
    by (auto simp: ready_def state_ok_def normalized_def default_max_extract_file_bytes_def
        default_max_extract_total_bytes_def intro: within_limits_refl)
  with st show thesis by (intro that) auto
qed


lemma normalized_entries: "0 < xo_max_entries (normalized opts)"
  by (simp add: normalized_def default_max_extract_entries_def)

lemma changes_nodes: "changes Q t t' \<Longrightarrow> t' q \<noteq> t q \<Longrightarrow> t q \<noteq> Some Dir \<and> link_at t q = None \<and> link_at t' q = None"
proof (induction rule: changes.induct)
  case (changes_one t t1 p t2)
  then show ?case
    by (cases "t1 q = t q") (auto simp: node_change_def link_at_eq is_file_def split: if_splits option.splits node.splits)
qed simp

text \<open>A run of either format: its entries are taken from a state that is ready.\<close>

lemma extraction_steps:
  assumes new: "new_extract_state cwd dir opts w = (Inr st, w1)" "ready t0 ds d st w1"
    and run: "extract_zip_with_options cwd (Inr es) dir opts w = (r, w2) \<or>
      extract_rar_native_with_options cwd (\<lambda>_. Inr rs) dir opts w = (r, w2)"
  obtains st' where "step_ok t0 d r st w1 st' w2"
  using run
proof
  assume "extract_zip_with_options cwd (Inr es) dir opts w = (r, w2)"
  then obtain st' where "zip_entries es st w1 = (r, st', w2)"
    using new(1) by (auto simp: extract_zip_with_options_def split: prod.splits)
  from zip_loop.entries_ok [OF this new(2)] show thesis by (rule that)
next
  assume "extract_rar_native_with_options cwd (\<lambda>_. Inr rs) dir opts w = (r, w2)"
  then obtain st' where "rar_entries rs st w1 = (r, st', w2)"
    using new(1) by (auto simp: extract_rar_native_with_options_def Let_def split: prod.splits)
  from rar_loop.entries_ok [OF this new(2)] show thesis by (rule that)
qed

section \<open>Properties\<close>

text \<open>(C29) An extraction stays inside its destination (zip-slip): whatever the entries of a zip or rar
  archive are named, contain or claim, whatever links the destination holds, and whichever system calls
  fail, every place of the file system that differs afterwards lies strictly below the directory the
  destination leads to, was not a directory or a symbolic link before, and is no symbolic link now.\<close>

theorem extraction_confined:
  assumes "wf_tree (w_tree w)" and "\<forall>c. cwd = Inr c \<longrightarrow> is_rooted c"
    and "new_extract_state cwd dir opts w = (Inr st, w1)"
    and "extract_zip_with_options cwd (Inr es) dir opts w = (r, w2) \<or>
      extract_rar_native_with_options cwd (\<lambda>_. Inr rs) dir opts w = (r, w2)"
  shows "\<exists>d. target_of (w_tree w1) (fp_parts (xs_dest st)) = Inr d \<and> node_at (w_tree w1) d = Some Dir
    \<and> (\<forall>q. w_tree w2 q \<noteq> w_tree w1 q \<longrightarrow> q \<in> strictly_below d
        \<and> w_tree w1 q \<noteq> Some Dir \<and> link_at (w_tree w1) q = None \<and> link_at (w_tree w2) q = None)"
proof -
  from new_state_ready [OF assms(3,1,2)] obtain ds d where ok: "ready (w_tree w1) ds d st w1" .
  from extraction_steps [OF assms(3) ok assms(4)] obtain st' where step: "step_ok (w_tree w1) d r st w1 st' w2" .
  then have ch: "changes (strictly_below d) (w_tree w1) (w_tree w2)" by (simp add: step_ok_def)
  have "target_of (w_tree w1) (fp_parts (xs_dest st)) = Inr d" "node_at (w_tree w1) d = Some Dir"
    using ok by (simp_all add: ready_def fp_parts_rooted)
  with changes_within [OF ch] changes_nodes [OF ch] show ?thesis by blast
qed

text \<open>Where no error is reported, every entry was counted, and they are not too many.\<close>

lemma extraction_counted:
  assumes new: "new_extract_state cwd dir opts w = (Inr st, w1)" "ready t0 ds d st w1"
      "xs_opts st = normalized opts" "xs_entries st = 0"
    and run: "extract_zip_with_options cwd (Inr es) dir opts w = (None, w2) \<and> n = length es \<or>
      extract_rar_native_with_options cwd (\<lambda>_. Inr rs) dir opts w = (None, w2) \<and> n = length rs"
  shows "int n \<le> xo_max_entries (normalized opts)"
  using run
proof
  assume "extract_zip_with_options cwd (Inr es) dir opts w = (None, w2) \<and> n = length es"
  moreover from this obtain st' where "zip_entries es st w1 = (None, st', w2)"
    using new(1) by (auto simp: extract_zip_with_options_def split: prod.splits)
  from zip_loop.entries_counted [OF this new(2)] have "xs_entries st' = int (length es)"
    "es \<noteq> [] \<longrightarrow> xs_entries st' \<le> xo_max_entries (normalized opts)" using new(3,4) by auto
  ultimately show ?thesis using normalized_entries [of opts] by (cases es) auto
next
  assume "extract_rar_native_with_options cwd (\<lambda>_. Inr rs) dir opts w = (None, w2) \<and> n = length rs"
  moreover from this obtain st' where "rar_entries rs st w1 = (None, st', w2)"
    using new(1) by (auto simp: extract_rar_native_with_options_def Let_def split: prod.splits)
  from rar_loop.entries_counted [OF this new(2)] have "xs_entries st' = int (length rs)"
    "rs \<noteq> [] \<longrightarrow> xs_entries st' \<le> xo_max_entries (normalized opts)" using new(3,4) by auto
  ultimately show ?thesis using normalized_entries [of opts] by (cases rs) auto
qed

text \<open>(C30) An extraction of a zip or rar archive stays within its limits: whatever the archive contains or
  claims about sizes, and whatever files it overwrites, the places that differ afterwards are finitely many,
  none of them has more bytes than the limit for one file, their bytes together are within the limit for the
  whole archive (each up to the one byte that is read to notice that a limit is passed, and only when an
  error is reported), and where no error is reported the archive has at most the allowed number of entries.\<close>

theorem extraction_bounded:
  assumes "wf_tree (w_tree w)" and "\<forall>c. cwd = Inr c \<longrightarrow> is_rooted c"
    and "new_extract_state cwd dir opts w = (Inr st, w1)"
    and "extract_zip_with_options cwd (Inr es) dir opts w = (r, w2) \<and> n = length es \<or>
      extract_rar_native_with_options cwd (\<lambda>_. Inr rs) dir opts w = (r, w2) \<and> n = length rs"
  shows "finite (changed (w_tree w1) (w_tree w2))
    \<and> (\<forall>q\<in>changed (w_tree w1) (w_tree w2).
         int (node_bytes (w_tree w2 q)) \<le> xo_max_file_bytes (normalized opts) + (if r = None then 0 else 1))
    \<and> (\<Sum>q\<in>changed (w_tree w1) (w_tree w2). int (node_bytes (w_tree w2 q)))
        \<le> xo_max_total_bytes (normalized opts) + (if r = None then 0 else 1)
    \<and> (r = None \<longrightarrow> int n \<le> xo_max_entries (normalized opts))"
proof -
  from new_state_ready [OF assms(3,1,2)] obtain ds d where
    ok: "ready (w_tree w1) ds d st w1" "xs_opts st = normalized opts" "xs_entries st = 0" .
  from assms(4) have "extract_zip_with_options cwd (Inr es) dir opts w = (r, w2) \<or>
      extract_rar_native_with_options cwd (\<lambda>_. Inr rs) dir opts w = (r, w2)" by blast
  from extraction_steps [OF assms(3) ok(1) this] obtain st' where step: "step_ok (w_tree w1) d r st w1 st' w2" .
  have "int n \<le> xo_max_entries (normalized opts)" if "r = None"
    using extraction_counted [OF assms(3) ok] assms(4) that by blast
  moreover have "within_limits (w_tree w1) (w_tree w2) (xo_max_file_bytes (normalized opts) + (if r = None then 0 else 1))
      (xo_max_total_bytes (normalized opts) + (if r = None then 0 else 1))"
    using step ok(2) unfolding step_ok_def state_ok_def by (auto elim: within_limits_mono)
  ultimately show ?thesis unfolding within_limits_def by blast
qed

text \<open>An archive with a directory, a file, and a file whose name leads outside.\<close>

definition demo_archive :: "archive_entry list" where
  "demo_archive =
     [\<lparr>ae_name = ''a/'', ae_kind = Z_dir, ae_perm = 493, ae_size = 0, ae_unknown_size = False,
       ae_link_target = [], ae_open = Inr ([], None)\<rparr>,
      \<lparr>ae_name = ''a/x.txt'', ae_kind = Z_regular, ae_perm = 420, ae_size = 2, ae_unknown_size = False,
       ae_link_target = [], ae_open = Inr (''hi'', None)\<rparr>,
      \<lparr>ae_name = ''a/../../y'', ae_kind = Z_regular, ae_perm = 420, ae_size = 2, ae_unknown_size = False,
       ae_link_target = [], ae_open = Inr (''no'', None)\<rparr>]"

definition demo_files :: world where
  "demo_files = \<lparr>w_tree = [[''srv''] \<mapsto> Dir], w_faults = []\<rparr>"

lemma demo_files_wf: "wf_tree (w_tree demo_files)"
  by (auto simp: wf_tree_def demo_files_def node_at_def)

lemma demo_state: "\<exists>st w1. new_extract_state (Inr ''/srv'') ''out'' default_extract_options demo_files = (Inr st, w1)"
proof -
  have "(case fst (new_extract_state (Inr ''/srv'') ''out'' default_extract_options demo_files) of Inr st \<Rightarrow> True | Inl e \<Rightarrow> False)"
    by code_simp
  then show ?thesis by (cases "new_extract_state (Inr ''/srv'') ''out'' default_extract_options demo_files") (auto split: sum.splits)
qed

lemma extraction_confined_witness:
  "\<exists>st w1 r w2 d. extract_zip_with_options (Inr ''/srv'') (Inr demo_archive) ''out'' default_extract_options demo_files = (r, w2)
    \<and> new_extract_state (Inr ''/srv'') ''out'' default_extract_options demo_files = (Inr st, w1)
    \<and> target_of (w_tree w1) (fp_parts (xs_dest st)) = Inr d \<and> node_at (w_tree w1) d = Some Dir"
proof -
  obtain st w1 where new: "new_extract_state (Inr ''/srv'') ''out'' default_extract_options demo_files = (Inr st, w1)"
    using demo_state by blast
  obtain r w2 where run: "extract_zip_with_options (Inr ''/srv'') (Inr demo_archive) ''out'' default_extract_options demo_files = (r, w2)"
    by fastforce
  have "\<forall>c. Inr ''/srv'' = (Inr c :: os_error + string) \<longrightarrow> is_rooted c" by simp
  from extraction_confined [OF demo_files_wf this new, of demo_archive r w2] run new show ?thesis by blast
qed

lemma extraction_bounded_witness:
  "\<exists>st w1 r w2. new_extract_state (Inr ''/srv'') ''out'' default_extract_options demo_files = (Inr st, w1)
    \<and> extract_zip_with_options (Inr ''/srv'') (Inr demo_archive) ''out'' default_extract_options demo_files = (r, w2)
    \<and> (\<Sum>q\<in>changed (w_tree w1) (w_tree w2). int (node_bytes (w_tree w2 q))) \<le> 4294967297"
proof -
  obtain st w1 where new: "new_extract_state (Inr ''/srv'') ''out'' default_extract_options demo_files = (Inr st, w1)"
    using demo_state by blast
  obtain r w2 where run: "extract_zip_with_options (Inr ''/srv'') (Inr demo_archive) ''out'' default_extract_options demo_files = (r, w2)"
    by fastforce
  have "\<forall>c. Inr ''/srv'' = (Inr c :: os_error + string) \<longrightarrow> is_rooted c" by simp
  from extraction_bounded [OF demo_files_wf this new disjI1 [OF conjI [OF run refl]]]
  have "(\<Sum>q\<in>changed (w_tree w1) (w_tree w2). int (node_bytes (w_tree w2 q)))
      \<le> xo_max_total_bytes (normalized default_extract_options) + (if r = None then 0 else 1)" by blast
  moreover have "xo_max_total_bytes (normalized default_extract_options) = 4294967296" by code_simp
  ultimately have "(\<Sum>q\<in>changed (w_tree w1) (w_tree w2). int (node_bytes (w_tree w2 q))) \<le> 4294967297"
    by (cases "r = None") simp_all
  with run new show ?thesis by blast
qed

text \<open>The sum \<open>limit + 1\<close> wraps around: with both byte limits at the largest 64-bit integer nothing of any
  content is read, and every file of an archive is written empty, without an error.\<close>

lemma largest_limit_extracts_nothing: "copy_limited (2 ^ 63 - 1) rd = ([], None)"
  by (simp add: copy_limited_def wrap64_def)

end
