(* ===== verification/Http_Client.thy ===== *)
theory Http_Client
  imports Url Go_Base
begin

text \<open>
  \<open>pkg/httpx\<close>: the JSON client (\<open>httpx.go\<close>) and its retry decisions (\<open>retry.go\<close>).

  The world is changed by sending a request, by waiting and by the end of the context
  (\<open>http_env\<close>); the loop of \<open>exchangeJSON\<close> also returns the events it caused, in order. The
  encoded body, the decoder of the response, validators, the retry policy, the random source and
  the parser of URLs and of HTTP dates are parameters.
\<close>

section \<open>The client\<close>

record http_response =
  hr_status :: int
  hr_header :: multi
  hr_body :: string
  hr_body_err :: "gerr option" \<comment> \<open>what reading past the body's bytes ends in, beside EOF\<close>

type_synonym retry_decider = "int \<Rightarrow> gerr option \<Rightarrow> http_response option \<Rightarrow> int \<times> bool"

type_synonym response_validator = "http_response \<Rightarrow> string \<Rightarrow> gerr option"

record 'f http_client =
  hc_base_url :: string
  hc_headers :: multi
  hc_log_dir :: string
  hc_log_success :: bool
  hc_log_error :: bool
  hc_retry_attempts :: int
  hc_retry_delay :: int
  hc_retry_statuses :: "int list option"
  hc_backoff_initial :: int
  hc_backoff_max :: int
  hc_backoff_multiplier :: 'f
  hc_backoff_jitter :: 'f
  hc_retry_non_idempotent :: bool
  hc_max_attempts :: int
  hc_max_retry_after :: int
  hc_max_response_bytes :: int
  hc_stream_idle_timeout :: int
  hc_log_headers :: bool
  hc_log_request_body :: bool
  hc_log_response_on_error :: bool
  hc_redact_headers :: "string set"
  hc_redact_fields :: "string set"
  hc_max_log_size :: int
  hc_correlation_header :: string
  hc_auto_correlation :: bool
  hc_retry_policy :: "retry_decider option"
  hc_logger :: bool
  hc_slog_success :: bool
  hc_slog_error :: bool
  hc_validators :: "(string \<times> response_validator) list"
  hc_default_validator :: "response_validator option"

definition second_ns :: int where
  "second_ns = 10 ^ 9"

definition default_max_response_bytes :: int where
  "default_max_response_bytes = 10 * 2 ^ 20"

definition default_max_attempts :: int where
  "default_max_attempts = 10"

definition default_max_retry_after :: int where
  "default_max_retry_after = 60 * second_ns"

text \<open>Floating-point arithmetic, and the conversions from and to durations.\<close>

record 'f arith =
  fa_add :: "'f \<Rightarrow> 'f \<Rightarrow> 'f"
  fa_sub :: "'f \<Rightarrow> 'f \<Rightarrow> 'f"
  fa_mul :: "'f \<Rightarrow> 'f \<Rightarrow> 'f"
  fa_lt :: "'f \<Rightarrow> 'f \<Rightarrow> bool"
  fa_of_int :: "int \<Rightarrow> 'f"
  fa_to_int :: "'f \<Rightarrow> int"

definition clamp01 :: "'f arith \<Rightarrow> 'f \<Rightarrow> 'f" where
  "clamp01 A f = (if fa_lt A f (fa_of_int A 0) then fa_of_int A 0
     else if fa_lt A (fa_of_int A 1) f then fa_of_int A 1 else f)"

section \<open>Options\<close>

type_synonym 'f http_option = "'f http_client \<Rightarrow> 'f http_client"

definition trim_right_slash :: "string \<Rightarrow> string" where
  "trim_right_slash s = rev (dropWhile (\<lambda>c. c = CHR ''/'') (rev s))"

definition with_base_url :: "string \<Rightarrow> 'f http_option" where
  "with_base_url u c = c\<lparr>hc_base_url := trim_right_slash u\<rparr>"

definition with_header :: "string \<Rightarrow> string \<Rightarrow> 'f http_option" where
  "with_header k v c = c\<lparr>hc_headers := header_add k v (hc_headers c)\<rparr>"

definition with_file_logging :: "string \<Rightarrow> bool \<Rightarrow> bool \<Rightarrow> 'f http_option" where
  "with_file_logging dir ok err c = c\<lparr>hc_log_dir := dir, hc_log_success := ok, hc_log_error := err\<rparr>"

definition with_retry :: "int \<Rightarrow> int \<Rightarrow> int list \<Rightarrow> 'f http_option" where
  "with_retry attempts delay statuses c =
     (let c1 = c\<lparr>hc_retry_attempts := (if attempts < 1 then 1 else attempts), hc_retry_delay := delay\<rparr> in
      if statuses \<noteq> [] then c1\<lparr>hc_retry_statuses := Some statuses\<rparr> else c1)"

definition with_exponential_backoff :: "'f arith \<Rightarrow> int \<Rightarrow> int \<Rightarrow> 'f \<Rightarrow> 'f \<Rightarrow> 'f http_option" where
  "with_exponential_backoff A initial mx mult jitter c =
     c\<lparr>hc_backoff_initial := initial, hc_backoff_max := mx, hc_backoff_multiplier := mult,
       hc_backoff_jitter := clamp01 A jitter\<rparr>"

definition with_retry_non_idempotent :: "bool \<Rightarrow> 'f http_option" where
  "with_retry_non_idempotent allow c = c\<lparr>hc_retry_non_idempotent := allow\<rparr>"

definition with_max_attempts :: "int \<Rightarrow> 'f http_option" where
  "with_max_attempts n c = c\<lparr>hc_max_attempts := n\<rparr>"

definition with_max_retry_after :: "int \<Rightarrow> 'f http_option" where
  "with_max_retry_after d c = c\<lparr>hc_max_retry_after := d\<rparr>"

definition with_max_response_bytes :: "int \<Rightarrow> 'f http_option" where
  "with_max_response_bytes n c = c\<lparr>hc_max_response_bytes := n\<rparr>"

definition with_stream_idle_timeout :: "int \<Rightarrow> 'f http_option" where
  "with_stream_idle_timeout d c = c\<lparr>hc_stream_idle_timeout := d\<rparr>"

definition with_logging_details :: "bool \<Rightarrow> bool \<Rightarrow> bool \<Rightarrow> 'f http_option" where
  "with_logging_details hs rq rs c =
     c\<lparr>hc_log_headers := hs, hc_log_request_body := rq, hc_log_response_on_error := rs\<rparr>"

definition with_redactions :: "string list \<Rightarrow> string list \<Rightarrow> 'f http_option" where
  "with_redactions hs fs c =
     c\<lparr>hc_redact_headers := hc_redact_headers c \<union> go_lower ` set hs,
       hc_redact_fields := hc_redact_fields c \<union> go_lower ` set fs\<rparr>"

definition with_log_rotation :: "int \<Rightarrow> 'f http_option" where
  "with_log_rotation n c = c\<lparr>hc_max_log_size := n\<rparr>"

definition with_correlation_header :: "string \<Rightarrow> bool \<Rightarrow> 'f http_option" where
  "with_correlation_header name auto c = c\<lparr>hc_correlation_header := name, hc_auto_correlation := auto\<rparr>"

definition with_slogger :: "bool \<Rightarrow> bool \<Rightarrow> bool \<Rightarrow> 'f http_option" where
  "with_slogger l ok err c = c\<lparr>hc_logger := l, hc_slog_success := ok, hc_slog_error := err\<rparr>"

definition with_retry_policy :: "retry_decider option \<Rightarrow> 'f http_option" where
  "with_retry_policy p c = c\<lparr>hc_retry_policy := p\<rparr>"

definition with_response_validator :: "response_validator option \<Rightarrow> 'f http_option" where
  "with_response_validator v c = c\<lparr>hc_default_validator := v\<rparr>"

definition with_validator_for_path :: "string \<Rightarrow> response_validator \<Rightarrow> 'f http_option" where
  "with_validator_for_path path v c = c\<lparr>hc_validators := AList.update path v (hc_validators c)\<rparr>"

definition new_http_client :: "'f arith \<Rightarrow> 'f http_option option list \<Rightarrow> 'f http_client" where
  "new_http_client A opts = foldl (\<lambda>c x. case x of None \<Rightarrow> c | Some f \<Rightarrow> f c)
     \<lparr>hc_base_url = [], hc_headers = [], hc_log_dir = [], hc_log_success = False, hc_log_error = False,
      hc_retry_attempts = 0, hc_retry_delay = 0, hc_retry_statuses = None, hc_backoff_initial = 0,
      hc_backoff_max = 0, hc_backoff_multiplier = fa_of_int A 0, hc_backoff_jitter = fa_of_int A 0,
      hc_retry_non_idempotent = False, hc_max_attempts = 0, hc_max_retry_after = 0,
      hc_max_response_bytes = 0, hc_stream_idle_timeout = 0, hc_log_headers = False,
      hc_log_request_body = False, hc_log_response_on_error = False, hc_redact_headers = {},
      hc_redact_fields = {}, hc_max_log_size = 0, hc_correlation_header = [], hc_auto_correlation = False,
      hc_retry_policy = None, hc_logger = False, hc_slog_success = False, hc_slog_error = False,
      hc_validators = [], hc_default_validator = None\<rparr> opts"

section \<open>Retry decisions\<close>

record 'f fixed_policy =
  fp_delay :: int
  fp_max_attempts :: int
  fp_statuses :: "int list"

definition fixed_next :: "'f fixed_policy \<Rightarrow> retry_decider" where
  "fixed_next p attempt err resp =
     (if fp_max_attempts p \<le> attempt then (0, False)
      else if err \<noteq> None then (fp_delay p, True)
      else case resp of
        Some r \<Rightarrow> if hr_status r \<in> set (fp_statuses p) then (fp_delay p, True) else (0, False)
      | None \<Rightarrow> (0, False))"

record 'f exp_policy =
  ep_initial :: int
  ep_max :: int
  ep_multiplier :: 'f
  ep_jitter_full :: bool
  ep_max_attempts :: int
  ep_statuses :: "int list"

text \<open>The loop of \<open>backoff\<close>: \<open>n\<close> multiplications, stopped once the delay is beyond the maximum.\<close>

fun exp_grow :: "'f arith \<Rightarrow> 'f exp_policy \<Rightarrow> nat \<Rightarrow> 'f \<Rightarrow> 'f" where
  "exp_grow A p 0 d = d"
| "exp_grow A p (Suc n) d =
     (let d' = fa_mul A d (ep_multiplier p) in
      if 0 < ep_max p \<and> fa_lt A (fa_of_int A (ep_max p)) d' then d' else exp_grow A p n d')"

text \<open>\<open>rnd n\<close> is \<open>rand.Int64N(n)\<close>.\<close>

definition exp_backoff :: "'f arith \<Rightarrow> (int \<Rightarrow> int) \<Rightarrow> 'f exp_policy \<Rightarrow> int \<Rightarrow> int" where
  "exp_backoff A rnd p attempt =
     (let d = exp_grow A p (nat (attempt - 1)) (fa_of_int A (ep_initial p));
          dur0 = fa_to_int A d;
          dur = (if 0 < ep_max p \<and> (ep_max p < dur0 \<or> fa_lt A (fa_of_int A (ep_max p)) d) then ep_max p else dur0) in
      if ep_jitter_full p \<and> 0 < dur then rnd (dur + 1) else dur)"

definition exp_next :: "'f arith \<Rightarrow> (int \<Rightarrow> int) \<Rightarrow> 'f exp_policy \<Rightarrow> retry_decider" where
  "exp_next A rnd p attempt err resp =
     (if ep_max_attempts p \<le> attempt then (0, False)
      else if err \<noteq> None then (exp_backoff A rnd p attempt, True)
      else case resp of
        Some r \<Rightarrow> if hr_status r \<in> set (ep_statuses p) then (exp_backoff A rnd p attempt, True) else (0, False)
      | None \<Rightarrow> (0, False))"

definition is_idempotent_method :: "string \<Rightarrow> bool" where
  "is_idempotent_method m =
     (go_upper m \<in> set [''GET'', ''HEAD'', ''OPTIONS'', ''PUT'', ''DELETE'', ''TRACE''])"

definition idempotency_key :: string where
  "idempotency_key = ''Idempotency-Key''"

definition retry_allowed_for :: "'f http_client \<Rightarrow> string \<Rightarrow> multi \<Rightarrow> bool" where
  "retry_allowed_for c method headers =
     (if is_idempotent_method method \<or> hc_retry_non_idempotent c then True
      else if header_get idempotency_key headers \<noteq> [] then True
      else header_get idempotency_key (hc_headers c) \<noteq> [])"

definition attempt_cap :: "'f http_client \<Rightarrow> int" where
  "attempt_cap c = (if 0 < hc_max_attempts c then hc_max_attempts c
     else max default_max_attempts (hc_retry_attempts c))"

definition max_retry_after :: "'f http_client \<Rightarrow> int" where
  "max_retry_after c = (if 0 < hc_max_retry_after c then hc_max_retry_after c else default_max_retry_after)"

definition should_retry_status :: "'f http_client \<Rightarrow> int \<Rightarrow> bool" where
  "should_retry_status c status = (case hc_retry_statuses c of None \<Rightarrow> False | Some ss \<Rightarrow> status \<in> set ss)"

definition status_of :: "http_response option \<Rightarrow> int" where
  "status_of resp = (case resp of None \<Rightarrow> 0 | Some r \<Rightarrow> hr_status r)"

definition http_should_retry :: "'f http_client \<Rightarrow> gerr option \<Rightarrow> int \<Rightarrow> int \<Rightarrow> bool" where
  "http_should_retry c net_err status attempt =
     (if hc_retry_attempts c \<le> 0 \<or> hc_retry_attempts c \<le> attempt then False
      else if net_err \<noteq> None then True
      else 0 < status \<and> should_retry_status c status)"

text \<open>\<open>legacyBackoff\<close>; \<open>rf\<close> is \<open>rand.Float64()\<close>, and durations in milliseconds are in nanoseconds.\<close>

fun legacy_grow :: "'f arith \<Rightarrow> 'f http_client \<Rightarrow> nat \<Rightarrow> int \<Rightarrow> int" where
  "legacy_grow A c 0 d = d"
| "legacy_grow A c (Suc n) d =
     (let d' = fa_to_int A (fa_mul A (fa_of_int A d) (hc_backoff_multiplier c)) in
      if 0 < hc_backoff_max c \<and> hc_backoff_max c < d' then hc_backoff_max c else legacy_grow A c n d')"

definition legacy_backoff :: "'f arith \<Rightarrow> 'f \<Rightarrow> 'f http_client \<Rightarrow> int \<Rightarrow> int" where
  "legacy_backoff A rf c attempt =
     (if 0 < hc_backoff_initial c \<and> fa_lt A (fa_of_int A 0) (hc_backoff_multiplier c) then
        (let d = legacy_grow A c (nat (attempt - 1)) (hc_backoff_initial c);
             j = clamp01 A (hc_backoff_jitter c) in
         if fa_lt A (fa_of_int A 0) j then
           (let factor = fa_add A (fa_of_int A 1) (fa_mul A j (fa_sub A (fa_mul A (fa_of_int A 2) rf) (fa_of_int A 1)));
                d' = fa_to_int A (fa_mul A (fa_of_int A d) factor) in
            if d' < 10 ^ 6 then 10 ^ 6 else d')
         else d)
      else if 0 < hc_retry_delay c then hc_retry_delay c
      else 100 * 10 ^ 6)"

definition next_retry ::
  "'f arith \<Rightarrow> 'f \<Rightarrow> 'f http_client \<Rightarrow> int \<Rightarrow> int \<Rightarrow> bool \<Rightarrow> gerr option \<Rightarrow> http_response option \<Rightarrow> int option" where
  "next_retry A rf c attempt max_attempts can_retry err resp =
     (if \<not> can_retry \<or> max_attempts \<le> attempt then None
      else case hc_retry_policy c of
        Some nxt \<Rightarrow> (case nxt attempt err resp of (d, ok) \<Rightarrow> if ok then Some (if d < 0 then 0 else d) else None)
      | None \<Rightarrow>
          if \<not> http_should_retry c err (status_of resp) attempt then None
          else Some (legacy_backoff A rf c attempt))"

text \<open>\<open>parseRetryAfter\<close>; \<open>until\<close> is the time from now to an HTTP date, \<open>None\<close> for no date.\<close>

definition parse_retry_after :: "(string \<Rightarrow> int option) \<Rightarrow> string \<Rightarrow> int option" where
  "parse_retry_after until v0 =
     (let v = trim_space v0 in
      if v = [] then None
      else case parse_int64 v of
        Some secs \<Rightarrow> Some (if secs < 0 then 0 else min secs (24 * 60 * 60) * second_ns)
      | None \<Rightarrow> (case until v of None \<Rightarrow> None | Some d \<Rightarrow> Some (if d < 0 then 0 else d)))"

end
