(* ===== verification/Http_Logging.thy ===== *)
theory Http_Logging
  imports Http_Client
begin

text \<open>
  \<open>pkg/httpx/logging.go\<close>: what the client writes to its log files and to slog, with credentials
  masked. Parsing and printing of JSON, the clock and the duration of the request are parameters;
  the file system is the list of actions on the log file of the day.
\<close>

record http_request =
  rq_method :: string
  rq_url :: go_url
  rq_header :: multi
  rq_body :: "string option"

section \<open>What is secret\<close>

definition default_redact_headers :: "string list" where
  "default_redact_headers =
     [''authorization'', ''proxy-authorization'', ''cookie'', ''set-cookie'', ''x-api-key'', ''api-key'',
      ''x-auth-token'', ''x-access-token'', ''x-csrf-token'', ''x-xsrf-token'', ''x-amz-security-token'']"

definition credential_headers :: "string list" where
  "credential_headers =
     [''authorization'', ''proxy-authorization'', ''cookie'', ''x-api-key'', ''api-key'', ''x-auth-token'',
      ''x-access-token'']"

definition is_credential_header :: "string \<Rightarrow> bool" where
  "is_credential_header k = (go_lower k \<in> set credential_headers)"

definition default_redact_fields :: "string list" where
  "default_redact_fields =
     [''password'', ''passwd'', ''secret'', ''token'', ''access_token'', ''refresh_token'', ''id_token'',
      ''client_secret'', ''api_key'', ''apikey'']"

definition secret_query_exact :: "string list" where
  "secret_query_exact =
     [''key'', ''sig'', ''code'', ''auth'', ''pwd'', ''pass'', ''session'', ''sessionid'', ''jwt'', ''authorization'']"

definition secret_query_substr :: "string list" where
  "secret_query_substr =
     [''token'', ''secret'', ''password'', ''passwd'', ''signature'', ''api_key'', ''apikey'', ''api-key'',
      ''credential'', ''private'']"

definition is_secret_query_param :: "string \<Rightarrow> bool" where
  "is_secret_query_param k =
     (let l = go_lower k in
      if l \<in> set secret_query_exact then True
      else if list_ex (\<lambda>s. contains_sub s l) secret_query_substr then True
      else has_suffix ''_key'' l \<or> has_suffix ''-key'' l)"

definition is_redacted_header :: "'f http_client \<Rightarrow> string \<Rightarrow> bool" where
  "is_redacted_header c k =
     (let l = go_lower k in l \<in> set default_redact_headers \<or> l \<in> hc_redact_headers c)"

definition is_redacted_field :: "'f http_client \<Rightarrow> string \<Rightarrow> bool" where
  "is_redacted_field c k =
     (let l = go_lower k in l \<in> set default_redact_fields \<or> l \<in> hc_redact_fields c)"

definition stars :: string where
  "stars = ''***''"

section \<open>Masking\<close>

definition redact_query :: "string \<Rightarrow> string" where
  "redact_query raw =
     (case parse_query raw of (q, bad) \<Rightarrow>
        if bad then stars
        else if list_ex (\<lambda>(k, vs). is_secret_query_param k) q
        then encode_values (map (\<lambda>(k, vs). (k, if is_secret_query_param k then map (\<lambda>_. stars) vs else vs)) q)
        else raw)"

fun mask_user :: "(string \<times> string option) option \<Rightarrow> (string \<times> string option) option" where
  "mask_user (Some (n, Some p)) = Some (n, Some stars)"
| "mask_user x = x"

definition redact_url :: "url_lib \<Rightarrow> go_url \<Rightarrow> string" where
  "redact_url U u =
     ul_string U (u\<lparr>gu_user := mask_user (gu_user u),
       gu_raw_query := (if gu_raw_query u \<noteq> [] then redact_query (gu_raw_query u) else [])\<rparr>)"

definition redact_headers :: "'f http_client \<Rightarrow> multi \<Rightarrow> multi" where
  "redact_headers c h = map (\<lambda>(k, vs). (k, if is_redacted_header c k then [stars] else vs)) h"

fun redact_json :: "'f http_client \<Rightarrow> gval \<Rightarrow> gval" where
  "redact_json c (VMap m) =
     VMap (map (\<lambda>(k, v). (k, if is_redacted_field c k then VStr stars else redact_json c v)) m)"
| "redact_json c (VList vs) = VList (map (redact_json c) vs)"
| "redact_json c v = v"

record json_lib =
  js_parse :: "string \<Rightarrow> gval option"
  js_print :: "gval \<Rightarrow> string option"
  js_headers :: "multi \<Rightarrow> string"

definition redact_body_preview :: "json_lib \<Rightarrow> 'f http_client \<Rightarrow> string \<Rightarrow> string" where
  "redact_body_preview J c s =
     (if s = [] then s
      else case js_parse J s of None \<Rightarrow> s
      | Some v \<Rightarrow> (case js_print J (redact_json c v) of None \<Rightarrow> s | Some t \<Rightarrow> t))"

definition truncate_str :: "nat \<Rightarrow> string \<Rightarrow> string" where
  "truncate_str n s = take n s"

definition spaced :: "string \<Rightarrow> string" where
  "spaced s = map (\<lambda>c. if c = CHR 0x0A then CHR '' '' else c) s"

section \<open>Log entries\<close>

text \<open>
  What a call of \<open>logToFile\<close> and \<open>logToSlog\<close> is given; \<open>le_stamp\<close> and \<open>le_dur\<close> are the formatted
  time and duration.
\<close>

record log_entry =
  le_success :: bool
  le_request :: http_request
  le_status :: int
  le_error :: string
  le_request_body :: string
  le_response_body :: string
  le_stamp :: string
  le_dur :: string

definition correlation_header_name :: "'f http_client \<Rightarrow> string" where
  "correlation_header_name c = (if hc_correlation_header c = [] then ''X-Correlation-ID'' else hc_correlation_header c)"

definition bar :: "string \<Rightarrow> string \<Rightarrow> string" where
  "bar name v = '' | '' @ name @ ''='' @ v"

definition log_line :: "url_lib \<Rightarrow> json_lib \<Rightarrow> 'f http_client \<Rightarrow> log_entry \<Rightarrow> string" where
  "log_line U J c e =
     (let r = le_request e; cid = header_get (correlation_header_name c) (rq_header r) in
      le_stamp e @ '' | '' @ rq_method r @ '' '' @ redact_url U (rq_url r)
        @ bar ''status'' (itoa_int (le_status e)) @ bar ''host'' (gu_host (rq_url r)) @ bar ''dur'' (le_dur e)
        @ (if cid \<noteq> [] then bar ''cid'' cid else [])
        @ (if hc_log_headers c then bar ''reqh'' (truncate_str 1000 (js_headers J (redact_headers c (rq_header r)))) else [])
        @ (if hc_log_request_body c \<and> le_request_body e \<noteq> [] then bar ''reqb'' (spaced (le_request_body e)) else [])
        @ (if \<not> le_success e \<and> hc_log_response_on_error c \<and> le_response_body e \<noteq> []
           then bar ''respb'' (spaced (le_response_body e)) else [])
        @ (if \<not> le_success e \<and> le_error e \<noteq> [] then bar ''err'' (spaced (truncate_str 1000 (le_error e))) else []))"

text \<open>The sub-directory and the line of \<open>logToFile\<close>, where it writes at all.\<close>

definition log_to_file :: "url_lib \<Rightarrow> json_lib \<Rightarrow> 'f http_client \<Rightarrow> log_entry \<Rightarrow> (string \<times> string) option" where
  "log_to_file U J c e =
     (if hc_log_dir c = [] then None
      else if le_success e \<and> \<not> hc_log_success c then None
      else if \<not> le_success e \<and> \<not> hc_log_error c then None
      else Some (if le_success e then ''success'' else ''error'', log_line U J c e))"

text \<open>The actions on the file of the day, given its size, and the attributes of the slog record.\<close>

datatype log_action = Rotate | Append string

definition log_actions :: "'f http_client \<Rightarrow> int option \<Rightarrow> string \<Rightarrow> log_action list" where
  "log_actions c size_now line =
     (if 0 < hc_max_log_size c then
        (case size_now of
           Some n \<Rightarrow> if hc_max_log_size c < n + int (length line) + 1 then [Rotate] else []
         | None \<Rightarrow> [])
      else []) @ [Append (line @ [CHR 0x0A])]"

definition log_to_slog :: "url_lib \<Rightarrow> 'f http_client \<Rightarrow> log_entry \<Rightarrow> (string \<times> string) list option" where
  "log_to_slog U c e =
     (if \<not> hc_logger c then None
      else if le_success e \<and> \<not> hc_slog_success c then None
      else if \<not> le_success e \<and> \<not> hc_slog_error c then None
      else
        (let r = le_request e; cid = header_get (correlation_header_name c) (rq_header r) in
         Some ([(''method'', rq_method r), (''url'', redact_url U (rq_url r)),
                (''status'', itoa_int (le_status e)), (''dur'', le_dur e), (''host'', gu_host (rq_url r))]
           @ (if cid \<noteq> [] then [(''cid'', cid)] else [])
           @ (if \<not> le_success e \<and> le_error e \<noteq> [] then [(''err'', truncate_str 200 (le_error e))] else [])
           @ (if \<not> le_success e \<and> le_response_body e \<noteq> []
              then [(''respb'', truncate_str 200 (le_response_body e))] else []))))"


section \<open>Masked data does not show\<close>

text \<open>
  Two values, headers, queries, URLs or bodies that differ in secrets only: in the values of masked
  fields, headers and query parameters, and in the password.
\<close>

inductive json_low :: "'f http_client \<Rightarrow> gval \<Rightarrow> gval \<Rightarrow> bool" for c where
  json_low_same: "json_low c v v"
| json_low_list: "list_all2 (json_low c) vs ws \<Longrightarrow> json_low c (VList vs) (VList ws)"
| json_low_map: "list_all2 (\<lambda>p q. fst p = fst q \<and> (is_redacted_field c (fst p) \<or> json_low c (snd p) (snd q))) m n \<Longrightarrow>
    json_low c (VMap m) (VMap n)"

lemma list_all2_map_eq: "list_all2 (\<lambda>x y. f x = f y) xs ys \<Longrightarrow> map f xs = map f ys"
  by (induction rule: list_all2_induct) auto

lemma redact_json_low: "json_low c v w \<Longrightarrow> redact_json c v = redact_json c w"
proof (induction rule: json_low.induct)
  case (json_low_list vs ws)
  then have "list_all2 (\<lambda>x y. redact_json c x = redact_json c y) vs ws"
    by (auto elim: list_all2_mono)
  then show ?case by (simp add: list_all2_map_eq)
next
  case (json_low_map m n)
  let ?f = "\<lambda>(k, v). (k, if is_redacted_field c k then VStr stars else redact_json c v)"
  from json_low_map have "list_all2 (\<lambda>p q. ?f p = ?f q) m n"
    by (rule list_all2_mono) auto
  from list_all2_map_eq [OF this] show ?case by simp
qed simp

definition headers_low :: "'f http_client \<Rightarrow> multi \<Rightarrow> multi \<Rightarrow> bool" where
  "headers_low c h h' =
     list_all2 (\<lambda>p q. fst p = fst q \<and> (is_redacted_header c (fst p) \<or> snd p = snd q)) h h'"

lemma redact_headers_low: "headers_low c h h' \<Longrightarrow> redact_headers c h = redact_headers c h'"
  unfolding redact_headers_def headers_low_def
  by (rule list_all2_map_eq) (auto elim!: list_all2_mono)

lemma headers_low_values:
  "headers_low c h h' \<Longrightarrow> \<not> is_redacted_header c k \<Longrightarrow> multi_values k h = multi_values k h'"
  unfolding headers_low_def multi_values_def
  by (induction rule: list_all2_induct) auto

definition query_low :: "string \<Rightarrow> string \<Rightarrow> bool" where
  "query_low raw raw' \<longleftrightarrow> raw = raw' \<or> (raw \<noteq> [] \<and> raw' \<noteq> [] \<and>
     (case (parse_query raw, parse_query raw') of ((q, bad), (q', bad')) \<Rightarrow>
        bad \<and> bad' \<or> \<not> bad \<and> \<not> bad' \<and> list_ex (\<lambda>p. is_secret_query_param (fst p)) q
          \<and> list_all2 (\<lambda>p r. fst p = fst r \<and> length (snd p) = length (snd r)
              \<and> (is_secret_query_param (fst p) \<or> snd p = snd r)) q q'))"

lemma list_all2_list_ex: "list_all2 (\<lambda>x y. f x = f y) xs ys \<Longrightarrow> list_ex f xs = list_ex f ys"
  by (induction rule: list_all2_induct) auto

lemma redact_query_low:
  assumes "query_low raw raw'"
  shows "redact_query raw = redact_query raw'"
proof (cases "raw = raw'")
  case False
  obtain q bad where q: "parse_query raw = (q, bad)" by fastforce
  obtain q' bad' where q': "parse_query raw' = (q', bad')" by fastforce
  let ?f = "\<lambda>(k, vs). (k, if is_secret_query_param k then map (\<lambda>_. stars) vs else vs)"
  show ?thesis
  proof (cases bad)
    case True
    with assms False q q' show ?thesis by (auto simp: query_low_def redact_query_def)
  next
    case good: False
    with assms False q q' have low: "\<not> bad'" "list_ex (\<lambda>p. is_secret_query_param (fst p)) q"
      "list_all2 (\<lambda>p r. fst p = fst r \<and> length (snd p) = length (snd r)
              \<and> (is_secret_query_param (fst p) \<or> snd p = snd r)) q q'"
      by (auto simp: query_low_def)
    have "list_all2 (\<lambda>p r. ?f p = ?f r) q q'"
      using low(3) by (rule list_all2_mono) (auto simp: map_replicate_const)
    moreover have "list_all2 (\<lambda>p r. is_secret_query_param (fst p) = is_secret_query_param (fst r)) q q'"
      using low(3) by (rule list_all2_mono) auto
    ultimately show ?thesis
      using q q' good low(1,2) list_all2_map_eq [of ?f q q']
        list_all2_list_ex [of "\<lambda>p. is_secret_query_param (fst p)" q q']
      by (simp add: redact_query_def case_prod_unfold)
  qed
qed simp

fun user_low :: "(string \<times> string option) option \<Rightarrow> (string \<times> string option) option \<Rightarrow> bool" where
  "user_low (Some (n, Some p)) (Some (n', Some p')) = (n = n')"
| "user_low x y = (x = y)"

lemma mask_user_low: "user_low x y \<Longrightarrow> mask_user x = mask_user y"
  by (induction x y rule: user_low.induct) auto

definition url_low :: "go_url \<Rightarrow> go_url \<Rightarrow> bool" where
  "url_low u u' \<longleftrightarrow>
     u'\<lparr>gu_user := gu_user u, gu_raw_query := gu_raw_query u\<rparr> = u
     \<and> user_low (gu_user u) (gu_user u')
     \<and> query_low (gu_raw_query u) (gu_raw_query u')"

lemma redact_url_low:
  assumes "url_low u u'"
  shows "redact_url U u = redact_url U u'"
proof -
  have rest: "u'\<lparr>gu_user := x, gu_raw_query := y\<rparr> = u\<lparr>gu_user := x, gu_raw_query := y\<rparr>" for x y
  proof -
    have "u\<lparr>gu_user := x, gu_raw_query := y\<rparr>
        = (u'\<lparr>gu_user := gu_user u, gu_raw_query := gu_raw_query u\<rparr>)\<lparr>gu_user := x, gu_raw_query := y\<rparr>"
      using assms by (simp add: url_low_def)
    then show ?thesis by simp
  qed
  have "mask_user (gu_user u) = mask_user (gu_user u')"
    using assms by (intro mask_user_low) (simp add: url_low_def)
  moreover have "(gu_raw_query u \<noteq> []) = (gu_raw_query u' \<noteq> [])"
    "redact_query (gu_raw_query u) = redact_query (gu_raw_query u')"
    using assms redact_query_low by (auto simp: url_low_def query_low_def)
  ultimately show ?thesis unfolding redact_url_def rest by simp
qed

definition body_low :: "json_lib \<Rightarrow> 'f http_client \<Rightarrow> string \<Rightarrow> string \<Rightarrow> bool" where
  "body_low J c b b' \<longleftrightarrow> b = b' \<or> b \<noteq> [] \<and> b' \<noteq> [] \<and>
     (\<exists>v w. js_parse J b = Some v \<and> js_parse J b' = Some w \<and> json_low c v w
        \<and> js_print J (redact_json c v) \<noteq> None)"

lemma redact_body_low: "body_low J c b b' \<Longrightarrow> redact_body_preview J c b = redact_body_preview J c b'"
  by (auto simp: body_low_def redact_body_preview_def dest!: redact_json_low split: option.splits)

text \<open>
  Requests that differ only in secrets, and what that means for the lines of a log entry. The
  correlation header is logged as it is, so it must not be a masked one.
\<close>

definition request_low :: "'f http_client \<Rightarrow> http_request \<Rightarrow> http_request \<Rightarrow> bool" where
  "request_low c r r' \<longleftrightarrow> rq_method r = rq_method r' \<and> url_low (rq_url r) (rq_url r')
     \<and> headers_low c (rq_header r) (rq_header r')"

lemma entry_low:
  assumes low: "request_low c r r'"
    and correlation: "\<not> is_redacted_header c (canonical_key (correlation_header_name c))"
  shows "log_to_file U J c (e\<lparr>le_request := r\<rparr>) = log_to_file U J c (e\<lparr>le_request := r'\<rparr>)
    \<and> log_to_slog U c (e\<lparr>le_request := r\<rparr>) = log_to_slog U c (e\<lparr>le_request := r'\<rparr>)"
proof -
  have verb: "rq_method r = rq_method r'" and url: "url_low (rq_url r) (rq_url r')"
    and headers: "headers_low c (rq_header r) (rq_header r')" using low by (simp_all add: request_low_def)
  have host: "gu_host (rq_url r) = gu_host (rq_url r')"
  proof -
    have "gu_host (rq_url r) = gu_host ((rq_url r')\<lparr>gu_user := gu_user (rq_url r), gu_raw_query := gu_raw_query (rq_url r)\<rparr>)"
      using url by (simp add: url_low_def)
    then show ?thesis by simp
  qed
  have "header_get (correlation_header_name c) (rq_header r) = header_get (correlation_header_name c) (rq_header r')"
    by (simp add: header_get_def multi_get_def headers_low_values [OF headers correlation])
  note eqs = this verb host redact_url_low [OF url] redact_headers_low [OF headers]
  let ?e = "e\<lparr>le_request := r\<rparr>" and ?e' = "e\<lparr>le_request := r'\<rparr>"
  have same: "le_request ?e = r" "le_request ?e' = r'" "le_success ?e' = le_success ?e"
    "le_status ?e' = le_status ?e" "le_error ?e' = le_error ?e" "le_stamp ?e' = le_stamp ?e" "le_dur ?e' = le_dur ?e"
    "le_request_body ?e' = le_request_body ?e" "le_response_body ?e' = le_response_body ?e"
    by simp_all
  show ?thesis
    unfolding log_to_file_def log_to_slog_def log_line_def Let_def same eqs by (rule conjI refl)+
qed

section \<open>A pair of requests with different secrets\<close>

text \<open>A JSON library whose documents are objects with one password.\<close>

definition demo_secret_json :: json_lib where
  "demo_secret_json = \<lparr>js_parse = (\<lambda>s. Some (VMap [(''password'', VStr s)])),
     js_print = (\<lambda>v. case v of VMap [(_, VStr t)] \<Rightarrow> Some t | _ \<Rightarrow> None), js_headers = (\<lambda>h. concat (concat (map snd h)))\<rparr>"

text \<open>Every URL holds its own text as password and as token.\<close>

definition demo_secret_urls :: url_lib where
  "demo_secret_urls = \<lparr>ul_parse = (\<lambda>s. Inr \<lparr>gu_scheme = ''http'', gu_user = Some (''u'', Some (drop 7 s)), gu_host = ''h'',
     gu_path = ''/p'', gu_raw_query = ''token='' @ drop 7 s, gu_opaque = [], gu_fragment = []\<rparr>), ul_string = gu_path\<rparr>"

definition demo_secret_client :: "unit http_client" where
  "demo_secret_client = new_http_client \<lparr>fa_add = \<lambda>_ _. (), fa_sub = \<lambda>_ _. (), fa_mul = \<lambda>_ _. (), fa_lt = \<lambda>_ _. False,
     fa_of_int = \<lambda>_. (), fa_to_int = \<lambda>_. 0\<rparr>
     [Some (with_file_logging ''logs'' True True), Some (with_logging_details True True True)]"

text \<open>The text of an error is not masked: the line of a failure ends in it, whatever it holds.\<close>

lemma log_line_shows_error:
  assumes "\<not> le_success e" "le_error e \<noteq> []" "length (le_error e) \<le> 1000"
  shows "\<exists>l. log_line U J c e = l @ '' | err='' @ spaced (le_error e)"
  using assms by (simp add: log_line_def Let_def bar_def truncate_str_def)

end
