(* ===== verification/Http_Exchange.thy ===== *)
theory Http_Exchange
  imports Http_Logging
begin

text \<open>
  \<open>pkg/httpx/httpx.go\<close>: building a request, sending it with the client's headers, and the loop of
  \<open>exchangeJSON\<close> with its retries. \<open>http_call\<close> holds the arguments of a call; the JSON of its body
  and the decoder of its result are functions.
\<close>

section \<open>Requests\<close>

record 'o http_call =
  ca_method :: string
  ca_path :: string
  ca_params :: multi
  ca_headers :: multi
  ca_body :: "(gerr + string) option" \<comment> \<open>encoding \<open>in\<close>, where it is not nil\<close>
  ca_decode :: "(string \<Rightarrow> gerr + 'o) option" \<comment> \<open>decoding into \<open>out\<close>, where it is not nil\<close>

definition resolve_url :: "url_lib \<Rightarrow> 'f http_client \<Rightarrow> string \<Rightarrow> gerr + string" where
  "resolve_url U c path =
     (if path = [] then Inr (hc_base_url c)
      else if has_prefix ''http://'' path \<or> has_prefix ''https://'' path then Inr path
      else if hc_base_url c = [] then Inr path
      else res_bind (ul_parse U (hc_base_url c)) (\<lambda>u.
        Inr (ul_string U (u\<lparr>gu_path :=
          (if has_prefix ''/'' path then trim_right_slash (gu_path u) @ path
           else if has_suffix ''/'' (gu_path u) \<or> gu_path u = [] then gu_path u @ path
           else gu_path u @ ''/'' @ path)\<rparr>))))"

definition resolve_with_params :: "url_lib \<Rightarrow> 'f http_client \<Rightarrow> string \<Rightarrow> multi \<Rightarrow> gerr + string" where
  "resolve_with_params U c path params = res_bind (resolve_url U c path) (\<lambda>s.
     if params = [] then Inr s
     else res_bind (ul_parse U s) (\<lambda>u.
       Inr (ul_string U (u\<lparr>gu_raw_query :=
         encode_values (multi_add_all params (fst (parse_query (gu_raw_query u))))\<rparr>))))"

text \<open>\<open>newUUIDv4\<close> from 16 random bytes.\<close>

definition uuid_v4 :: "string \<Rightarrow> string" where
  "uuid_v4 b =
     (let b1 = b[6 := char_of (of_char (b ! 6) mod 16 + 0x40 :: nat), 8 := char_of (of_char (b ! 8) mod 64 + 0x80 :: nat)];
          hex = (\<lambda>s. concat (map (\<lambda>c. [hex_char (of_char c div 16), hex_char (of_char c mod 16)]) s)) in
      hex (take 4 b1) @ ''-'' @ hex (take 2 (drop 4 b1)) @ ''-'' @ hex (take 2 (drop 6 b1)) @ ''-''
        @ hex (take 2 (drop 8 b1)) @ ''-'' @ hex (take 6 (drop 10 b1)))"

definition apply_correlation :: "'f http_client \<Rightarrow> string \<Rightarrow> multi \<Rightarrow> multi" where
  "apply_correlation c random h =
     (if \<not> hc_auto_correlation c then h
      else if header_get (correlation_header_name c) h = []
      then header_set (correlation_header_name c) (uuid_v4 random) h else h)"

definition build_json_request ::
  "url_lib \<Rightarrow> json_lib \<Rightarrow> 'f http_client \<Rightarrow> string \<Rightarrow> 'o http_call \<Rightarrow> gerr + (http_request \<times> string)" where
  "build_json_request U J c random call =
     res_bind (resolve_with_params U c (ca_path call) (ca_params call)) (\<lambda>s.
     res_bind (case ca_body call of None \<Rightarrow> Inr None | Some (Inl e) \<Rightarrow> Inl e | Some (Inr b) \<Rightarrow> Inr (Some b)) (\<lambda>body.
     res_bind (ul_parse U s) (\<lambda>u.
       let prev = (case body of None \<Rightarrow> [] | Some b \<Rightarrow>
                     if hc_log_request_body c then truncate_str 1000 (redact_body_preview J c b) else []);
           h1 = header_set ''Accept'' ''application/json'' [];
           h2 = (if body \<noteq> None then header_set ''Content-Type'' ''application/json'' h1 else h1);
           h3 = header_add_all (ca_headers call) h2 in
       Inr (\<lparr>rq_method = ca_method call, rq_url = u, rq_header = apply_correlation c random h3,
             rq_body = body\<rparr>, prev))))"

definition base_host :: "url_lib \<Rightarrow> 'f http_client \<Rightarrow> string" where
  "base_host U c = (if hc_base_url c = [] then []
     else case ul_parse U (hc_base_url c) of Inl e \<Rightarrow> [] | Inr u \<Rightarrow> go_lower (gu_host u))"

definition cross_host :: "url_lib \<Rightarrow> 'f http_client \<Rightarrow> http_request \<Rightarrow> bool" where
  "cross_host U c req \<longleftrightarrow> base_host U c \<noteq> [] \<and> \<not> equal_fold (gu_host (rq_url req)) (base_host U c)"

definition default_header :: "bool \<Rightarrow> multi \<Rightarrow> string \<times> string list \<Rightarrow> multi" where
  "default_header cross h kvs = (case kvs of (k, vs) \<Rightarrow>
     if header_values k h \<noteq> [] then h
     else if cross \<and> is_credential_header k then h
     else foldl (\<lambda>h v. header_add k v h) h vs)"

definition apply_default_headers :: "url_lib \<Rightarrow> 'f http_client \<Rightarrow> http_request \<Rightarrow> http_request" where
  "apply_default_headers U c req =
     req\<lparr>rq_header := foldl (default_header (cross_host U c req)) (rq_header req) (hc_headers c)\<rparr>"

section \<open>Responses\<close>

datatype http_error =
    Net_error gerr
  | Status_error int string
  | Build_error gerr
  | Too_large int
  | Read_error gerr
  | Invalid_response gerr
  | Decode_error gerr
  | Ctx_error gerr "http_error option" \<comment> \<open>\<open>joinCtxErr\<close>\<close>

datatype http_event = Sent http_request "gerr + http_response" | Logged log_entry | Slept int

record ('f, 'w) http_env =
  he_ctx_err :: "'w \<Rightarrow> gerr option"
  he_send :: "http_request \<Rightarrow> 'w \<Rightarrow> (gerr + http_response) \<times> 'w"
  he_timer :: "int \<Rightarrow> 'w \<Rightarrow> gerr option \<times> 'w" \<comment> \<open>waiting for a timer or the end of the context\<close>
  he_until :: "'w \<Rightarrow> string \<Rightarrow> int option" \<comment> \<open>the time from now to an HTTP date\<close>
  he_rand :: "'w \<Rightarrow> 'f"
  he_random :: "'w \<Rightarrow> string" \<comment> \<open>16 random bytes\<close>
  he_stamp :: "'w \<Rightarrow> string \<times> string" \<comment> \<open>the time and the duration of a log entry\<close>

definition sleep_ctx :: "('f, 'w) http_env \<Rightarrow> int \<Rightarrow> 'w \<Rightarrow> gerr option \<times> 'w" where
  "sleep_ctx ev d w = (if d \<le> 0 then (he_ctx_err ev w, w) else he_timer ev d w)"

definition small_body_len :: nat where
  "small_body_len = 4 * 1024"

definition read_small_body :: "http_response \<Rightarrow> string" where
  "read_small_body resp = take small_body_len (hr_body resp)"

definition max_response_bytes :: "'f http_client \<Rightarrow> int" where
  "max_response_bytes c = (if hc_max_response_bytes c = 0 then default_max_response_bytes else hc_max_response_bytes c)"

text \<open>\<open>readLimited\<close>; \<open>io.LimitReader\<close> is given the limit and one more, as an int64.\<close>

definition read_limited :: "'f http_client \<Rightarrow> http_response \<Rightarrow> http_error + string" where
  "read_limited c resp =
     (let limit = max_response_bytes c; body = hr_body resp;
          whole = (case hr_body_err resp of Some e \<Rightarrow> Inl (Read_error e) | None \<Rightarrow> Inr body) in
      if limit < 0 then whole
      else let n = wrap64 (limit + 1) in
        if n \<le> 0 then Inr []
        else if int (length body) < n then whole
        else if limit < n then Inl (Too_large limit) else Inr (take (nat n) body))"

definition pick_validator :: "'f http_client \<Rightarrow> string \<Rightarrow> response_validator option" where
  "pick_validator c path = (case map_of (hc_validators c) path of Some v \<Rightarrow> Some v | None \<Rightarrow> hc_default_validator c)"

definition mk_entry ::
  "('f, 'w) http_env \<Rightarrow> 'w \<Rightarrow> bool \<Rightarrow> http_request \<Rightarrow> int \<Rightarrow> string \<Rightarrow> string \<Rightarrow> string \<Rightarrow> log_entry" where
  "mk_entry ev w success req status err prev resp_prev =
     \<lparr>le_success = success, le_request = req, le_status = status, le_error = err, le_request_body = prev,
      le_response_body = resp_prev, le_stamp = fst (he_stamp ev w), le_dur = snd (he_stamp ev w)\<rparr>"

fun http_error_text :: "http_error \<Rightarrow> string" where
  "http_error_text (Too_large n) = ''httpx: response body too large: limit '' @ itoa_int n @ '' bytes''"
| "http_error_text (Read_error e) = err_msg e"
| "http_error_text (Net_error e) = err_msg e"
| "http_error_text (Status_error n b) = ''http error: status='' @ itoa_int n @ '' body='' @ b"
| "http_error_text (Build_error e) = err_msg e"
| "http_error_text (Invalid_response e) = err_msg e"
| "http_error_text (Decode_error e) = err_msg e"
| "http_error_text (Ctx_error e x) = err_msg e @ (case x of None \<Rightarrow> [] | Some y \<Rightarrow> CHR 0x0A # http_error_text y)"

datatype 'o outcome = Finished "http_error + 'o option" | Again int http_error

definition handle_failure ::
  "('f, 'w) http_env \<Rightarrow> json_lib \<Rightarrow> 'f arith \<Rightarrow> 'f http_client \<Rightarrow> http_request \<Rightarrow> string \<Rightarrow> int \<Rightarrow> int \<Rightarrow> bool
    \<Rightarrow> http_response \<Rightarrow> 'w \<Rightarrow> 'o outcome \<times> http_event list" where
  "handle_failure ev J A c req prev attempt mx can resp w =
     (let b = read_small_body resp;
          resp_prev = (if hc_log_response_on_error c then redact_body_preview J c b else []);
          lg = [Logged (mk_entry ev w False req (hr_status resp) (redact_body_preview J c b) prev resp_prev)];
          http_err = Status_error (hr_status resp) b in
      case next_retry A (he_rand ev w) c attempt mx can None (Some resp) of
        None \<Rightarrow> (Finished (Inl http_err), lg)
      | Some delay \<Rightarrow> (case parse_retry_after (he_until ev w) (header_get ''Retry-After'' (hr_header resp)) of
            Some ra \<Rightarrow>
              if max_retry_after c < ra then (Finished (Inl http_err), lg)
              else (Again (if delay < ra then ra else delay) http_err, lg)
          | None \<Rightarrow> (Again delay http_err, lg)))"

definition handle_success ::
  "('f, 'w) http_env \<Rightarrow> 'f http_client \<Rightarrow> 'o http_call \<Rightarrow> http_request \<Rightarrow> string \<Rightarrow> http_response \<Rightarrow> 'w
    \<Rightarrow> (http_error + 'o option) \<times> http_event list" where
  "handle_success ev c call req prev resp w =
     (let validator = pick_validator c (ca_path call);
          ok = [Logged (mk_entry ev w True req (hr_status resp) [] prev [])] in
      if validator = None \<and> ca_decode call = None then (Inr None, ok)
      else case read_limited c resp of
        Inl e \<Rightarrow> (Inl e, [Logged (mk_entry ev w False req (hr_status resp) (http_error_text e) prev [])])
      | Inr body \<Rightarrow> (case (case validator of None \<Rightarrow> None | Some v \<Rightarrow> v resp body) of
            Some e \<Rightarrow> (Inl (Invalid_response e), [])
          | None \<Rightarrow> (case ca_decode call of
                None \<Rightarrow> (Inr None, ok)
              | Some dec \<Rightarrow>
                  if trim_space body = [] then (Inr None, ok)
                  else (case dec body of Inl e \<Rightarrow> (Inl (Decode_error e), []) | Inr x \<Rightarrow> (Inr (Some x), ok)))))"

definition handle_response ::
  "('f, 'w) http_env \<Rightarrow> json_lib \<Rightarrow> 'f arith \<Rightarrow> 'f http_client \<Rightarrow> 'o http_call \<Rightarrow> http_request \<Rightarrow> string \<Rightarrow> int \<Rightarrow> int
    \<Rightarrow> bool \<Rightarrow> http_response \<Rightarrow> 'w \<Rightarrow> 'o outcome \<times> http_event list" where
  "handle_response ev J A c call req prev attempt mx can resp w =
     (if 400 \<le> hr_status resp then handle_failure ev J A c req prev attempt mx can resp w
      else case handle_success ev c call req prev resp w of (r, lg) \<Rightarrow> (Finished r, lg))"

section \<open>The loop\<close>

lemma next_retry_bound:
  "next_retry A rf c attempt mx can err resp = Some d \<Longrightarrow> can \<and> attempt < mx"
  by (auto simp: next_retry_def split: if_splits)

lemma handle_failure_Again:
  "handle_failure ev J A c req prev attempt mx can resp w = (Again d e, lg) \<Longrightarrow>
    \<exists>d0. next_retry A (he_rand ev w) c attempt mx can None (Some resp) = Some d0"
  by (cases "next_retry A (he_rand ev w) c attempt mx can None (Some resp)")
     (simp_all add: handle_failure_def Let_def)

lemma handle_response_Again:
  assumes "handle_response ev J A c call req prev attempt mx can resp w = (Again d e, lg)"
  shows "can \<and> attempt < mx \<and> 400 \<le> hr_status resp"
proof (cases "400 \<le> hr_status resp")
  case True
  with assms show ?thesis
    by (auto simp: handle_response_def dest!: handle_failure_Again dest: next_retry_bound)
next
  case False
  with assms show ?thesis by (simp add: handle_response_def split: prod.splits)
qed

text \<open>The body of the loop of \<open>exchangeJSON\<close>, up to the wait before the next attempt.\<close>

definition exchange_attempt ::
  "('f, 'w) http_env \<Rightarrow> url_lib \<Rightarrow> json_lib \<Rightarrow> 'f arith \<Rightarrow> 'f http_client \<Rightarrow> 'o http_call \<Rightarrow> bool \<Rightarrow> int \<Rightarrow> int
    \<Rightarrow> http_error option \<Rightarrow> 'w \<Rightarrow> 'o outcome \<times> 'w \<times> http_event list" where
  "exchange_attempt ev U J A c call can mx attempt prior w =
     (case he_ctx_err ev w of
        Some e \<Rightarrow> (Finished (Inl (Ctx_error e prior)), w, [])
      | None \<Rightarrow> (case build_json_request U J c (he_random ev w) call of
          Inl e \<Rightarrow> (Finished (Inl (Build_error e)), w, [])
        | Inr (req0, prev) \<Rightarrow>
            (let req = apply_default_headers U c req0 in
             case he_send ev req w of
               (Inl e, w1) \<Rightarrow>
                 (let es = [Sent req (Inl e), Logged (mk_entry ev w1 False req 0 (err_msg e) prev [])] in
                  case he_ctx_err ev w1 of
                    Some ce \<Rightarrow> (Finished (Inl (Ctx_error ce (Some (Net_error e)))), w1, es)
                  | None \<Rightarrow> (case next_retry A (he_rand ev w1) c attempt mx can (Some e) None of
                      None \<Rightarrow> (Finished (Inl (Net_error e)), w1, es)
                    | Some d \<Rightarrow> (Again d (Net_error e), w1, es)))
             | (Inr resp, w1) \<Rightarrow>
                 (case handle_response ev J A c call req prev attempt mx can resp w1 of
                    (out, lg) \<Rightarrow> (out, w1, Sent req (Inr resp) # lg)))))"

lemma exchange_attempt_Again:
  assumes "exchange_attempt ev U J A c call can mx attempt prior w = (Again d cause, w1, es)"
  shows "can \<and> attempt < mx"
  using assms unfolding exchange_attempt_def Let_def
  by (auto split: option.splits sum.splits prod.splits dest: next_retry_bound handle_response_Again)

text \<open>
  \<open>exchangeJSON\<close> from an attempt on; \<open>prior\<close> is the error of the attempt before. The result, the
  world and the events.
\<close>

function exchange_loop ::
  "('f, 'w) http_env \<Rightarrow> url_lib \<Rightarrow> json_lib \<Rightarrow> 'f arith \<Rightarrow> 'f http_client \<Rightarrow> 'o http_call \<Rightarrow> bool \<Rightarrow> int \<Rightarrow> int
    \<Rightarrow> http_error option \<Rightarrow> 'w \<Rightarrow> (http_error + 'o option) \<times> 'w \<times> http_event list" where
  "exchange_loop ev U J A c call can mx attempt prior w =
     (case exchange_attempt ev U J A c call can mx attempt prior w of
        (Finished r, w1, es) \<Rightarrow> (r, w1, es)
      | (Again d cause, w1, es) \<Rightarrow> (case sleep_ctx ev d w1 of
            (Some se, w2) \<Rightarrow> (Inl (Ctx_error se (Some cause)), w2, es @ [Slept d])
          | (None, w2) \<Rightarrow>
              (case exchange_loop ev U J A c call can mx (attempt + 1) (Some cause) w2 of
                 (r, w3, es') \<Rightarrow> (r, w3, es @ Slept d # es'))))"
  by pat_completeness auto

termination
  apply (relation "measure (\<lambda>(ev, U, J, A, c, call, can, mx, attempt, prior, w). nat (mx - attempt))")
   apply (rule wf_measure)
  apply (simp only: in_measure split_conv)
  apply (hypsubst, drule exchange_attempt_Again [OF sym], simp)
  done

declare exchange_loop.simps [simp del]

definition exchange_json ::
  "('f, 'w) http_env \<Rightarrow> url_lib \<Rightarrow> json_lib \<Rightarrow> 'f arith \<Rightarrow> 'f http_client \<Rightarrow> 'o http_call \<Rightarrow> 'w
    \<Rightarrow> (http_error + 'o option) \<times> 'w \<times> http_event list" where
  "exchange_json ev U J A c call w =
     exchange_loop ev U J A c call (retry_allowed_for c (ca_method call) (ca_headers call)) (attempt_cap c) 1 None w"

section \<open>What an exchange may do\<close>

text \<open>
  The specification of an exchange, from an attempt on: its events and its result. The attempt is
  stopped before it is sent, is the last one, is followed by a wait the context ends, or is
  followed by a wait and the next attempt, which the policy, the cap and the server must allow.
\<close>

definition failed :: "gerr + http_response \<Rightarrow> bool" where
  "failed res = (case res of Inl e \<Rightarrow> True | Inr resp \<Rightarrow> 400 \<le> hr_status resp)"

definition is_log :: "http_event \<Rightarrow> bool" where
  "is_log e = (case e of Logged _ \<Rightarrow> True | _ \<Rightarrow> False)"

text \<open>
  What a response asks for, by the grammar of \<open>Retry-After\<close> in RFC 9110 and not by the client's
  parser: decimal digits are a number of seconds (numbers that do not fit an int64 are left out).
  A wait, in nanoseconds, is not shorter than that, or than a day where more is asked for, and it
  is not made when it is beyond the client's maximum.
\<close>

definition seconds_demanded :: "http_response \<Rightarrow> nat option" where
  "seconds_demanded resp =
     (let v = trim_space (header_get ''Retry-After'' (hr_header resp))
      in if v \<noteq> [] \<and> list_all is_digit v \<and> decimal_value v < 2 ^ 63 then Some (decimal_value v) else None)"

definition wait_ok :: "'f http_client \<Rightarrow> gerr + http_response \<Rightarrow> int \<Rightarrow> bool" where
  "wait_ok c res d = (case res of Inl e \<Rightarrow> True | Inr resp \<Rightarrow>
     (case seconds_demanded resp of
        None \<Rightarrow> True
      | Some n \<Rightarrow> 1000000000 * int (min n 86400) \<le> d \<and> 1000000000 * int (min n 86400) \<le> max_retry_after c))"

inductive exch_ok :: "'f http_client \<Rightarrow> bool \<Rightarrow> int \<Rightarrow> int \<Rightarrow> http_event list \<Rightarrow> http_error + 'o option \<Rightarrow> bool"
  for c can mx where
  exch_stop: "exch_ok c can mx a [] (Inl e)"
| exch_final: "list_all is_log lg \<Longrightarrow> isl r \<or> \<not> failed res \<Longrightarrow> exch_ok c can mx a (Sent req res # lg) r"
| exch_cancel: "can \<Longrightarrow> a < mx \<Longrightarrow> failed res \<Longrightarrow> wait_ok c res d \<Longrightarrow>
    exch_ok c can mx a [Sent req res, Logged l, Slept d] (Inl e)"
| exch_again: "can \<Longrightarrow> a < mx \<Longrightarrow> failed res \<Longrightarrow> wait_ok c res d \<Longrightarrow> exch_ok c can mx (a + 1) es r \<Longrightarrow>
    exch_ok c can mx a (Sent req res # Logged l # Slept d # es) r"

lemma parse_int64_digits:
  assumes "v \<noteq> []" and "list_all is_digit v" and "decimal_value v < 2 ^ 63"
  shows "parse_int64 v = Some (int (decimal_value v))"
proof -
  have "take 1 v \<noteq> ''-'' \<and> take 1 v \<noteq> ''+''" using assms(1,2) by (cases v) (auto simp: is_digit_def)
  moreover have "int (decimal_value v) < int (2 ^ 63)" using assms(3) by (simp only: of_nat_less_iff)
  then have "int (decimal_value v) < 2 ^ 63" by simp
  ultimately show ?thesis using assms(1,2) by (simp add: parse_int64_def)
qed

lemma seconds_demanded_parsed:
  assumes "seconds_demanded resp = Some n"
  shows "parse_retry_after u (header_get ''Retry-After'' (hr_header resp)) = Some (1000000000 * int (min n 86400))"
proof -
  define v where "v = trim_space (header_get ''Retry-After'' (hr_header resp))"
  have v: "v \<noteq> []" "list_all is_digit v" "decimal_value v < 2 ^ 63" and n: "n = decimal_value v"
    using assms by (auto simp: seconds_demanded_def v_def Let_def split: if_splits)
  have "min (int n) 86400 * second_ns = 1000000000 * int (min n 86400)"
    by (simp add: second_ns_def min_def)
  then show ?thesis
    using v(1) parse_int64_digits [OF v] by (simp add: parse_retry_after_def v_def [symmetric] n [symmetric])
qed

lemma handle_failure_wait:
  assumes "handle_failure ev J A c req prev attempt mx can resp w = (Again d e, lg)"
  shows "wait_ok c (Inr resp) d \<and> (\<exists>l. lg = [Logged l])"
proof -
  obtain d0 where d0: "next_retry A (he_rand ev w) c attempt mx can None (Some resp) = Some d0"
    using handle_failure_Again [OF assms] by blast
  let ?v = "header_get ''Retry-After'' (hr_header resp)"
  show ?thesis
  proof (cases "parse_retry_after (he_until ev w) ?v")
    case None
    then have "seconds_demanded resp = None"
      using seconds_demanded_parsed [of resp _ "he_until ev w"] by (cases "seconds_demanded resp") auto
    with None d0 assms show ?thesis by (auto simp: handle_failure_def Let_def wait_ok_def)
  next
    case (Some ra)
    with d0 assms have "ra \<le> d" "ra \<le> max_retry_after c" "\<exists>l. lg = [Logged l]"
      by (auto simp: handle_failure_def Let_def split: if_splits)
    moreover have "seconds_demanded resp = None \<or> (\<exists>n. seconds_demanded resp = Some n \<and> ra = 1000000000 * int (min n 86400))"
      using seconds_demanded_parsed [of resp _ "he_until ev w"] Some by (cases "seconds_demanded resp") auto
    ultimately show ?thesis by (auto simp: wait_ok_def)
  qed
qed

lemma handle_failure_finished:
  "handle_failure ev J A c req prev attempt mx can resp w = (Finished r, lg) \<Longrightarrow> isl r \<and> list_all is_log lg"
  by (auto simp: handle_failure_def Let_def is_log_def split: option.splits if_splits)

lemma handle_success_logs:
  "handle_success ev c call req prev resp w = (r, lg) \<Longrightarrow> list_all is_log lg"
  by (auto simp: handle_success_def Let_def is_log_def split: option.splits if_splits sum.splits)

lemma handle_response_Finished:
  assumes "handle_response ev J A c call req prev attempt mx can resp w = (Finished r, lg)"
  shows "list_all is_log lg \<and> (isl r \<or> \<not> failed (Inr resp))"
  using assms handle_failure_finished handle_success_logs
  by (fastforce simp: handle_response_def failed_def split: if_splits prod.splits)

lemma handle_response_wait:
  "handle_response ev J A c call req prev attempt mx can resp w = (Again d e, lg) \<Longrightarrow>
    wait_ok c (Inr resp) d \<and> (\<exists>l. lg = [Logged l])"
  by (auto simp: handle_response_def dest!: handle_failure_wait split: if_splits prod.splits)

lemma failed_simps [simp]: "failed (Inl e)" "failed (Inr resp) \<longleftrightarrow> 400 \<le> hr_status resp" "wait_ok c (Inl e) d"
  by (simp_all add: failed_def wait_ok_def)

lemma exchange_attempt_again:
  assumes "exchange_attempt ev U J A c call can mx attempt prior w = (Again d cause, w1, es)"
  shows "\<exists>req res l. es = [Sent req res, Logged l] \<and> failed res \<and> wait_ok c res d"
  using assms unfolding exchange_attempt_def Let_def
  by (auto split: option.splits sum.splits prod.splits
      dest: handle_response_Again handle_response_wait)

lemma exchange_attempt_final:
  assumes "exchange_attempt ev U J A c call can mx attempt prior w = (Finished r, w1, es)"
  shows "es = [] \<and> isl r \<or> (\<exists>req res lg. es = Sent req res # lg \<and> list_all is_log lg \<and> (isl r \<or> \<not> failed res))"
  using assms unfolding exchange_attempt_def Let_def
  by (auto simp: is_log_def split: option.splits sum.splits prod.splits dest: handle_response_Finished)

lemma exchange_loop_ok:
  "exchange_loop ev U J A c call can mx attempt prior w = (r, w', es) \<Longrightarrow> exch_ok c can mx attempt es r"
proof (induction ev U J A c call can mx attempt prior w arbitrary: r w' es rule: exchange_loop.induct)
  case (1 ev U J A c call can mx attempt prior w)
  obtain out w1 es1 where step: "exchange_attempt ev U J A c call can mx attempt prior w = (out, w1, es1)"
    by (cases "exchange_attempt ev U J A c call can mx attempt prior w")
  show ?case
  proof (cases out)
    case (Finished r1)
    with step 1(2) have "r = r1" "es = es1" by (simp_all add: exchange_loop.simps)
    with exchange_attempt_final [of ev U J A c call can mx attempt prior w r1 w1 es1] step Finished
    show ?thesis by (cases r1) (auto intro: exch_stop exch_final)
  next
    case (Again d cause)
    note step = step [unfolded Again]
    obtain req res l where es1: "es1 = [Sent req res, Logged l]" "failed res" "wait_ok c res d"
      using exchange_attempt_again [OF step] by blast
    note can = exchange_attempt_Again [OF step]
    obtain o2 w2 where sleep: "sleep_ctx ev d w1 = (o2, w2)" by fastforce
    show ?thesis
    proof (cases o2)
      case None
      obtain r3 w3 es3 where rest: "exchange_loop ev U J A c call can mx (attempt + 1) (Some cause) w2 = (r3, w3, es3)"
        by (cases "exchange_loop ev U J A c call can mx (attempt + 1) (Some cause) w2")
      have "exch_ok c can mx (attempt + 1) es3 r3"
        by (rule 1(1) [OF step [symmetric] refl refl sleep [unfolded None, symmetric] refl rest])
      moreover have "r = r3" "es = es1 @ Slept d # es3"
        using 1(2) step sleep None rest by (simp_all add: exchange_loop.simps)
      ultimately show ?thesis using es1 can by (auto intro: exch_again)
    next
      case (Some se)
      with 1(2) step sleep have "r = Inl (Ctx_error se (Some cause))" "es = es1 @ [Slept d]"
        by (simp_all add: exchange_loop.simps)
      with es1 can show ?thesis by (auto intro: exch_cancel)
    qed
  qed
qed

section \<open>Client headers on other hosts\<close>

lemma header_char_byte: "header_char c \<Longrightarrow> (of_char c :: nat) < 128"
  by (auto simp: header_char_def is_letter_def is_digit_def)

lemma lower_upper: "lower_char (upper_char c) = lower_char c"
proof (cases "97 \<le> (of_char c :: nat) \<and> (of_char c :: nat) \<le> 122")
  case True
  then have "((of_char c :: nat) - 32) mod 256 = of_char c - 32" "65 \<le> (of_char c :: nat) - 32 \<and> (of_char c :: nat) - 32 \<le> 90"
    by (auto intro!: mod_less)
  with True show ?thesis by (simp add: lower_char_def upper_char_def)
qed (auto simp: upper_char_def)

lemma lower_lower: "lower_char (lower_char c) = lower_char c"
  by (simp add: lower_char_def)

lemma header_char_upper: "header_char c \<Longrightarrow> header_char (upper_char c)"
  by (cases "97 \<le> (of_char c :: nat) \<and> (of_char c :: nat) \<le> 122")
     (auto simp: upper_char_def header_char_def is_letter_def)

lemma header_char_lower: "header_char c \<Longrightarrow> header_char (lower_char c)"
  by (cases "65 \<le> (of_char c :: nat) \<and> (of_char c :: nat) \<le> 90")
     (auto simp: lower_char_def header_char_def is_letter_def)

lemma go_lower_header: "list_all header_char k \<Longrightarrow> go_lower k = map lower_char k"
proof (induction k rule: go_lower.induct)
  case (3 x y s)
  then have "(of_char x :: nat) < 128" by (auto dest: header_char_byte)
  then have "x \<noteq> CHR 0xC4" "x \<noteq> CHR 0xE2" by auto
  with 3 show ?case by simp
qed simp_all

lemma canonical_from_header:
  "list_all header_char k \<Longrightarrow> list_all header_char (canonical_from up k) \<and> map lower_char (canonical_from up k) = map lower_char k"
  by (induction up k rule: canonical_from.induct) (simp_all add: header_char_upper header_char_lower lower_upper lower_lower)

lemma canonical_key_lower:
  assumes "canonical_key j = canonical_key k"
  shows "go_lower j = go_lower k"
proof -
  consider "list_all header_char j = list_all header_char k" | "list_all header_char j" "\<not> list_all header_char k"
    | "\<not> list_all header_char j" "list_all header_char k" by blast
  then show ?thesis
  proof cases
    case 1
    show ?thesis
    proof (cases "list_all header_char j")
      case True
      with 1 assms have "canonical_from True j = canonical_from True k" by (simp add: canonical_key_def)
      then have "map lower_char j = map lower_char k"
        using canonical_from_header [of j True] canonical_from_header [of k True] True 1 by metis
      with True 1 show ?thesis by (simp add: go_lower_header)
    qed (use 1 assms in \<open>simp add: canonical_key_def\<close>)
  qed (use assms canonical_from_header [of j True] canonical_from_header [of k True] in
      \<open>auto simp: canonical_key_def\<close>)
qed

lemma char_45: "(of_char (CHR ''-'') :: nat) = 45"
  by simp

lemma upper_upper: "upper_char (upper_char c) = upper_char c"
proof (cases "97 \<le> (of_char c :: nat) \<and> (of_char c :: nat) \<le> 122")
  case True
  then have "((of_char c :: nat) - 32) mod 256 = of_char c - 32" "\<not> 97 \<le> (of_char c :: nat) - 32"
    by (auto intro!: mod_less)
  with True show ?thesis by (simp add: upper_char_def)
qed (auto simp: upper_char_def)

lemma hyphen_case [simp]: "upper_char c = CHR ''-'' \<longleftrightarrow> c = CHR ''-''" "lower_char c = CHR ''-'' \<longleftrightarrow> c = CHR ''-''"
proof -
  have "(of_char (upper_char c) :: nat) = 45 \<longleftrightarrow> (of_char c :: nat) = 45" by (auto simp: upper_char_def)
  then show "upper_char c = CHR ''-'' \<longleftrightarrow> c = CHR ''-''" by (metis of_char_eq_iff char_45)
  have "(of_char (lower_char c) :: nat) = 45 \<longleftrightarrow> (of_char c :: nat) = 45" by (auto simp: lower_char_def)
  then show "lower_char c = CHR ''-'' \<longleftrightarrow> c = CHR ''-''" by (metis of_char_eq_iff char_45)
qed

lemma canonical_from_idem: "canonical_from up (canonical_from up k) = canonical_from up k"
  by (induction up k rule: canonical_from.induct) (simp_all add: upper_upper lower_lower)

lemma canonical_key_idem: "canonical_key (canonical_key k) = canonical_key k"
  by (simp add: canonical_key_def canonical_from_header canonical_from_idem)

lemma header_values_add_many:
  "header_values k (foldl (\<lambda>h v. header_add j v h) h vs)
    = header_values k h @ (if canonical_key k = canonical_key j then vs else [])"
  by (induction vs arbitrary: h) (simp_all add: header_values_def header_add_def)

lemma default_header_values:
  assumes "is_credential_header k"
  shows "header_values k (default_header True h jvs) = header_values k h"
proof -
  obtain j vs where jvs: "jvs = (j, vs)" by (cases jvs)
  show ?thesis
  proof (cases "canonical_key k = canonical_key j")
    case True
    with canonical_key_lower [OF True] assms have "is_credential_header j"
      by (simp only: is_credential_header_def)
    with jvs show ?thesis by (simp add: default_header_def)
  next
    case False
    with jvs show ?thesis by (simp add: default_header_def header_values_add_many)
  qed
qed

lemma apply_default_headers_cross:
  assumes "cross_host U c req" "is_credential_header k"
  shows "header_values k (rq_header (apply_default_headers U c req)) = header_values k (rq_header req)"
proof -
  have "header_values k (foldl (default_header True) h hs) = header_values k h" for h hs
    by (induction hs arbitrary: h) (simp_all add: default_header_values [OF assms(2)])
  with assms(1) show ?thesis by (simp add: apply_default_headers_def)
qed

text \<open>The values that the caller gave a header, under whatever spelling.\<close>

definition caller_values :: "string \<Rightarrow> multi \<Rightarrow> string list" where
  "caller_values k hs = concat (map (\<lambda>(j, vs). if canonical_key k = canonical_key j then vs else []) hs)"

lemma header_add_all_values: "header_values k (header_add_all hs h) = header_values k h @ caller_values k hs"
proof -
  have "header_values k (foldl (\<lambda>h (j, vs). foldl (\<lambda>h v. header_add j v h) h vs) h hs)
      = header_values k h @ caller_values k hs"
  proof (induction hs arbitrary: h)
    case (Cons p hs)
    then show ?case by (cases p) (simp add: header_values_add_many caller_values_def)
  qed (simp add: caller_values_def)
  then show ?thesis by (simp add: header_add_all_def)
qed

lemma header_values_set:
  "header_values k (header_set j v h) = (if canonical_key k = canonical_key j then [v] else header_values k h)"
  by (simp add: header_values_def header_set_def)

lemma apply_correlation_values:
  "\<not> hc_auto_correlation c \<or> canonical_key (correlation_header_name c) \<noteq> canonical_key k \<Longrightarrow>
    header_values k (apply_correlation c rnd h) = header_values k h"
  by (auto simp: apply_correlation_def header_values_set)

lemma build_json_request_values:
  assumes "build_json_request U J c rnd call = Inr (req, prev)"
    and "canonical_key k \<noteq> ''Accept''" "canonical_key k \<noteq> ''Content-Type''"
    and "\<not> hc_auto_correlation c \<or> canonical_key (correlation_header_name c) \<noteq> canonical_key k"
  shows "header_values k (rq_header req) = caller_values k (ca_headers call)"
proof -
  have keys: "canonical_key ''Accept'' = ''Accept''" "canonical_key ''Content-Type'' = ''Content-Type''"
    by code_simp+
  have base: "header_values k (if b then header_set ''Content-Type'' x (header_set ''Accept'' y [])
      else header_set ''Accept'' y []) = []" for b x y
    using assms(2,3) keys by (simp add: header_values_set) (simp add: header_values_def multi_values_def)
  obtain b where "rq_header req = apply_correlation c rnd (header_add_all (ca_headers call)
      (if b then header_set ''Content-Type'' ''application/json'' (header_set ''Accept'' ''application/json'' [])
       else header_set ''Accept'' ''application/json'' []))"
    using assms(1) by (auto simp: build_json_request_def Let_def)
  then show ?thesis
    by (simp only: apply_correlation_values [OF assms(4)] header_add_all_values base) simp
qed

lemma handle_response_logs:
  assumes "handle_response ev J A c call req prev attempt mx can resp w = (out, lg)"
  shows "list_all is_log lg"
  using assms handle_response_Finished handle_response_wait
  by (cases out) (fastforce simp: is_log_def)+

lemma no_sends: "list_all is_log lg \<Longrightarrow> Sent req res \<notin> set lg"
  by (induction lg) (auto simp: is_log_def)

definition sends_of :: "http_event list \<Rightarrow> (http_request \<times> (gerr + http_response)) list" where
  "sends_of es = List.map_filter (\<lambda>e. case e of Sent req res \<Rightarrow> Some (req, res) | _ \<Rightarrow> None) es"

lemma sends_of_simps [simp]:
  "sends_of [] = []" "sends_of (Sent req res # es) = (req, res) # sends_of es"
  "sends_of (Logged l # es) = sends_of es" "sends_of (Slept d # es) = sends_of es"
  by (simp_all add: sends_of_def List.map_filter_simps)

lemma sends_of_append [simp]: "sends_of (es @ es') = sends_of es @ sends_of es'"
  by (induction es) (auto simp: sends_of_def List.map_filter_simps split: option.splits)

lemma sends_of_logs: "list_all is_log lg \<Longrightarrow> sends_of lg = []"
  by (induction lg) (auto simp: is_log_def split: http_event.splits)

text \<open>A request that \<open>exchange_json\<close> sends: one built for the call, with the client's headers.\<close>

definition sent_for ::
  "url_lib \<Rightarrow> json_lib \<Rightarrow> 'f http_client \<Rightarrow> 'o http_call \<Rightarrow> http_request \<Rightarrow> bool" where
  "sent_for U J c call req \<longleftrightarrow>
     (\<exists>rnd req0 prev. build_json_request U J c rnd call = Inr (req0, prev) \<and> req = apply_default_headers U c req0)"

lemma sent_forI [intro]:
  "build_json_request U J c rnd call = Inr (req0, prev) \<Longrightarrow> sent_for U J c call (apply_default_headers U c req0)"
  by (auto simp: sent_for_def)

lemma exchange_attempt_sends:
  assumes "exchange_attempt ev U J A c call can mx attempt prior w = (out, w1, es)"
  shows "list_all (\<lambda>(req, res). sent_for U J c call req) (sends_of es)"
  using assms unfolding exchange_attempt_def Let_def
  by (auto simp: sends_of_logs split: option.splits sum.splits prod.splits
      dest!: handle_response_logs)

lemma exchange_loop_sends:
  "exchange_loop ev U J A c call can mx attempt prior w = (r, w', es) \<Longrightarrow>
    list_all (\<lambda>(req, res). sent_for U J c call req) (sends_of es)"
proof (induction ev U J A c call can mx attempt prior w arbitrary: r w' es rule: exchange_loop.induct)
  case (1 ev U J A c call can mx attempt prior w)
  obtain out w1 es1 where step: "exchange_attempt ev U J A c call can mx attempt prior w = (out, w1, es1)"
    by (cases "exchange_attempt ev U J A c call can mx attempt prior w")
  note first = exchange_attempt_sends [OF step]
  show ?case
  proof (cases out)
    case (Finished r1)
    with step 1(2) first show ?thesis by (simp add: exchange_loop.simps)
  next
    case (Again d cause)
    note step = step [unfolded Again]
    obtain o2 w2 where sleep: "sleep_ctx ev d w1 = (o2, w2)" by fastforce
    show ?thesis
    proof (cases o2)
      case None
      obtain r3 w3 es3 where rest: "exchange_loop ev U J A c call can mx (attempt + 1) (Some cause) w2 = (r3, w3, es3)"
        by (cases "exchange_loop ev U J A c call can mx (attempt + 1) (Some cause) w2")
      note ih = 1(1) [OF step [symmetric] refl refl sleep [unfolded None, symmetric] refl rest]
      with first 1(2) step sleep None rest show ?thesis by (auto simp: exchange_loop.simps)
    next
      case (Some se)
      with first 1(2) step sleep show ?thesis by (auto simp: exchange_loop.simps)
    qed
  qed
qed

section \<open>Properties\<close>

text \<open>Every wait in a trace honours what the response before it asked for.\<close>

fun waits_ok :: "'f http_client \<Rightarrow> http_event list \<Rightarrow> bool" where
  "waits_ok c (Sent req res # Logged l # Slept d # es) \<longleftrightarrow> wait_ok c res d \<and> waits_ok c es"
| "waits_ok c (Sent req res # es) \<longleftrightarrow> list_all is_log es"
| "waits_ok c es \<longleftrightarrow> es = []"

lemma waits_ok_logs: "list_all is_log lg \<Longrightarrow> waits_ok c (Sent req res # lg)"
  by (cases "(c, Sent req res # lg)" rule: waits_ok.cases) (auto simp: is_log_def)

lemma exch_ok_sends:
  "exch_ok c can mx a es r \<Longrightarrow>
    int (length (sends_of es)) \<le> (if can then max 1 (mx - a + 1) else 1)
    \<and> list_all (\<lambda>(req, res). failed res) (butlast (sends_of es))
    \<and> (isl r \<or> sends_of es \<noteq> [] \<and> \<not> failed (snd (last (sends_of es))))
    \<and> waits_ok c es"
  by (induction rule: exch_ok.induct) (auto simp: sends_of_logs waits_ok_logs)

text \<open>
  (C21) What an exchange does on the wire. It sends at most as many requests as the attempt cap
  says, and at most one where neither the method, the options nor an idempotency key allow a
  retry; every request but the last one failed, in the network or with a status from 400 on; a
  result comes from a response below 400 to the last request; and before it asks again it waits at
  least as many seconds as the \<open>Retry-After\<close> of the last response says, or a day where it says more,
  and does not ask again where that is beyond the client's maximum. A \<open>Retry-After\<close> that is a date
  is read by \<open>net/http\<close> and not covered.
\<close>

theorem exchange_disciplined:
  assumes "exchange_json ev U J A c call w = (r, w', es)"
  shows "int (length (sends_of es)) \<le>
      (if retry_allowed_for c (ca_method call) (ca_headers call) then max 1 (attempt_cap c) else 1)
    \<and> list_all (\<lambda>(req, res). failed res) (butlast (sends_of es))
    \<and> (isl r \<or> sends_of es \<noteq> [] \<and> \<not> failed (snd (last (sends_of es))))
    \<and> waits_ok c es"
  using exch_ok_sends [OF exchange_loop_ok [OF assms [unfolded exchange_json_def]]] by (simp only: diff_add_cancel)

text \<open>
  (C22) Credentials stay with their host: a request that an exchange sends to another host than the
  one of the base URL carries a credential header only with the values the caller gave for this
  call, none of the client's own (a correlation header of that name apart).
\<close>

theorem credentials_stay_home:
  assumes "exchange_json ev U J A c call w = (r, w', es)" and "(req, res) \<in> set (sends_of es)"
    and "base_host U c \<noteq> []" "\<not> equal_fold (gu_host (rq_url req)) (base_host U c)"
    and "is_credential_header k"
    and "\<not> hc_auto_correlation c \<or> canonical_key (correlation_header_name c) \<noteq> canonical_key k"
  shows "header_values k (rq_header req) = caller_values k (ca_headers call)"
proof -
  have "sent_for U J c call req"
    using exchange_loop_sends [OF assms(1) [unfolded exchange_json_def]] assms(2) by (auto simp: list_all_iff)
  then obtain rnd req0 prev where built: "build_json_request U J c rnd call = Inr (req0, prev)"
    "req = apply_default_headers U c req0" by (auto simp: sent_for_def)
  have cross: "cross_host U c req0"
    using assms(3,4) built(2) by (simp add: cross_host_def apply_default_headers_def)
  have "go_lower ''Accept'' \<notin> set credential_headers" "go_lower ''Content-Type'' \<notin> set credential_headers"
    by code_simp+
  moreover have "go_lower (canonical_key k) \<in> set credential_headers"
    using assms(5) canonical_key_lower [OF canonical_key_idem] by (simp add: is_credential_header_def)
  ultimately have other: "canonical_key k \<noteq> ''Accept''" "canonical_key k \<noteq> ''Content-Type''" by auto
  show ?thesis
    using apply_default_headers_cross [OF cross assms(5)] build_json_request_values [OF built(1) other assms(6)]
    by (simp add: built(2))
qed

section \<open>What the logs show\<close>

text \<open>The lines of the log file and the slog records that events leave.\<close>

definition lines_of :: "url_lib \<Rightarrow> json_lib \<Rightarrow> 'f http_client \<Rightarrow> http_event list \<Rightarrow> ((string \<times> string) option \<times> (string \<times> string) list option) list" where
  "lines_of U J c es = concat (map (\<lambda>e. case e of
     Logged l \<Rightarrow> [(log_to_file U J c l, log_to_slog U c l)] | _ \<Rightarrow> []) es)"

text \<open>The same answer, or error answers with the same status whose first 4 KiB differ only in secrets.\<close>

definition response_low :: "json_lib \<Rightarrow> 'f http_client \<Rightarrow> http_response \<Rightarrow> http_response \<Rightarrow> bool" where
  "response_low J c resp resp' \<longleftrightarrow> resp = resp' \<or>
     400 \<le> hr_status resp \<and> hr_status resp' = hr_status resp \<and> body_low J c (read_small_body resp) (read_small_body resp')"

text \<open>The same body, or two that differ only in secrets.\<close>

fun call_body_low :: "json_lib \<Rightarrow> 'f http_client \<Rightarrow> (gerr + string) option \<Rightarrow> (gerr + string) option \<Rightarrow> bool" where
  "call_body_low J c (Some (Inr b)) (Some (Inr b')) = body_low J c b b'"
| "call_body_low J c x y = (x = y)"

lemma lines_of_simps [simp]:
  "lines_of U J c [] = []" "lines_of U J c (Sent req res # es) = lines_of U J c es"
  by (simp_all add: lines_of_def)

lemma mk_entry_lines:
  assumes "request_low c r r'" and "\<not> is_redacted_header c (canonical_key (correlation_header_name c))"
    and stamp: "he_stamp ev w = he_stamp ev w'"
  shows "lines_of U J c [Logged (mk_entry ev w ok r st err prev rp)] = lines_of U J c [Logged (mk_entry ev w' ok r' st err prev rp)]"
proof -
  let ?e = "mk_entry ev w ok r st err prev rp"
  have "mk_entry ev w ok r st err prev rp = ?e\<lparr>le_request := r\<rparr>"
    "mk_entry ev w' ok r' st err prev rp = ?e\<lparr>le_request := r'\<rparr>"
    using stamp by (simp_all add: mk_entry_def)
  with entry_low [OF assms(1,2), of U J ?e] show ?thesis by (simp add: lines_of_def)
qed

lemma handle_failure_log:
  "snd (handle_failure ev J A c req prev attempt mx can resp w) =
    [Logged (mk_entry ev w False req (hr_status resp) (redact_body_preview J c (read_small_body resp)) prev
      (if hc_log_response_on_error c then redact_body_preview J c (read_small_body resp) else []))]"
  by (simp add: handle_failure_def Let_def split: option.split)

lemma handle_response_lines:
  assumes low: "request_low c r r'"
    and correlation: "\<not> is_redacted_header c (canonical_key (correlation_header_name c))"
    and stamp: "he_stamp ev w = he_stamp ev w'" and resp: "response_low J c resp resp'"
    and call: "pick_validator c (ca_path call) = pick_validator c (ca_path call')" "ca_decode call = ca_decode call'"
  shows "lines_of U J c (snd (handle_response ev J A c call r prev attempt mx can resp w))
    = lines_of U J c (snd (handle_response ev J A c call' r' prev attempt mx can resp' w'))"
proof (cases "400 \<le> hr_status resp")
  case True
  then have st: "hr_status resp' = hr_status resp"
    and b: "redact_body_preview J c (read_small_body resp') = redact_body_preview J c (read_small_body resp)"
    using resp by (auto simp: response_low_def dest: redact_body_low)
  show ?thesis
    using True by (simp only: handle_response_def st b if_True handle_failure_log mk_entry_lines [OF low correlation stamp])
next
  case False
  then have same: "resp' = resp" using resp by (simp add: response_low_def)
  note entry = mk_entry_lines [OF low correlation stamp, of U J]
  have "lines_of U J c (snd (handle_success ev c call r prev resp w))
      = lines_of U J c (snd (handle_success ev c call' r' prev resp w'))"
    by (simp add: handle_success_def Let_def call entry split: option.split sum.split)
  with False same show ?thesis by (simp add: handle_response_def case_prod_beta)
qed

fun body_preview :: "json_lib \<Rightarrow> 'f http_client \<Rightarrow> (gerr + string) option \<Rightarrow> string" where
  "body_preview J c (Some (Inr b)) = (if hc_log_request_body c then truncate_str 1000 (redact_body_preview J c b) else [])"
| "body_preview J c _ = []"

lemma built_preview: "build_json_request U J c rnd call = Inr (req, prev) \<Longrightarrow> prev = body_preview J c (ca_body call)"
  by (auto simp: build_json_request_def Let_def split: option.splits sum.splits if_splits)

lemma build_preview_low:
  assumes "build_json_request U J c rnd call = Inr (req, prev)" "build_json_request U J c rnd' call' = Inr (req', prev')"
    and "call_body_low J c (ca_body call) (ca_body call')"
  shows "prev = prev'"
proof -
  have "body_preview J c (ca_body call) = body_preview J c (ca_body call')"
    using assms(3)
    by (cases "(J, c, ca_body call, ca_body call')" rule: call_body_low.cases) (auto dest: redact_body_low)
  then show ?thesis using built_preview [OF assms(1)] built_preview [OF assms(2)] by simp
qed

text \<open>
  (C23) Logs keep secrets, wherever a request is answered: two attempts whose requests differ only
  in the password of the URL, in the values of secret query parameters, in the values of masked
  headers and in the masked fields of their JSON bodies, and whose answers are the same or are
  errors (status 400 and above) that differ only in the masked fields of their JSON bodies, leave
  the same lines in the log file and the same slog records, whatever the client's logging options.
  Conditions: the correlation header, which is logged, is not a masked one, and error bodies are
  JSON also when cut at 4 KiB. The texts of errors of the network and of a body cut before it is
  JSON are logged as they are: \<open>network_error_logged\<close> and \<open>cut_body_logged\<close> below.
\<close>

theorem logs_hide_secrets:
  assumes built: "build_json_request U J c (he_random ev w) call = Inr (req, prev)"
      "build_json_request U J c (he_random ev w) call' = Inr (req', prev')"
    and requests: "request_low c (apply_default_headers U c req) (apply_default_headers U c req')"
    and bodies: "call_body_low J c (ca_body call) (ca_body call')"
    and answered: "he_send ev (apply_default_headers U c req) w = (Inr resp, w1)"
      "he_send ev (apply_default_headers U c req') w = (Inr resp', w1')"
    and answers: "response_low J c resp resp'" and stamps: "he_stamp ev w1 = he_stamp ev w1'"
    and call: "pick_validator c (ca_path call) = pick_validator c (ca_path call')" "ca_decode call = ca_decode call'"
    and correlation: "\<not> is_redacted_header c (canonical_key (correlation_header_name c))"
  shows "lines_of U J c (snd (snd (exchange_attempt ev U J A c call can mx attempt prior w)))
    = lines_of U J c (snd (snd (exchange_attempt ev U J A c call' can mx attempt prior w)))"
proof (cases "he_ctx_err ev w")
  case None
  have prev: "prev' = prev" using build_preview_low [OF built bodies] by simp
  from handle_response_lines [OF requests correlation stamps answers call]
  show ?thesis
    by (simp add: exchange_attempt_def None built answered prev Let_def case_prod_beta)
qed (simp add: exchange_attempt_def)

section \<open>Witnesses\<close>

definition demo_url_lib :: url_lib where
  "demo_url_lib = \<lparr>ul_parse = (\<lambda>s. Inr \<lparr>gu_scheme = ''http'', gu_user = None,
       gu_host = takeWhile (\<lambda>c. c \<noteq> CHR ''/'') (drop 7 s), gu_path = dropWhile (\<lambda>c. c \<noteq> CHR ''/'') (drop 7 s),
       gu_raw_query = [], gu_opaque = [], gu_fragment = []\<rparr>),
     ul_string = (\<lambda>u. ''http://'' @ gu_host u @ gu_path u)\<rparr>"

definition demo_json_lib :: json_lib where
  "demo_json_lib = \<lparr>js_parse = (\<lambda>_. None), js_print = (\<lambda>_. None), js_headers = (\<lambda>_. [])\<rparr>"

definition demo_arith :: "int arith" where
  "demo_arith = \<lparr>fa_add = (+), fa_sub = (-), fa_mul = (*), fa_lt = (<), fa_of_int = id, fa_to_int = id\<rparr>"

text \<open>The world is the list of the responses to come.\<close>

definition demo_http_env :: "(int, (gerr + http_response) list) http_env" where
  "demo_http_env = \<lparr>he_ctx_err = (\<lambda>_. None),
     he_send = (\<lambda>req w. case w of [] \<Rightarrow> (Inl ctx_deadline, []) | r # rs \<Rightarrow> (r, rs)),
     he_timer = (\<lambda>d w. (None, w)), he_until = (\<lambda>_ _. None), he_rand = (\<lambda>_. 0), he_random = (\<lambda>_. replicate 16 CHR ''x''),
     he_stamp = (\<lambda>_. ([], []))\<rparr>"

definition demo_http_client :: "int http_client" where
  "demo_http_client = new_http_client demo_arith
     [Some (with_base_url ''http://a/''), Some (with_header ''Api-Key'' ''k''), Some (with_retry 3 5 [503])]"

definition demo_response :: "int \<Rightarrow> multi \<Rightarrow> http_response" where
  "demo_response status h = \<lparr>hr_status = status, hr_header = h, hr_body = [], hr_body_err = None\<rparr>"

definition demo_http_call :: "string \<Rightarrow> unit http_call" where
  "demo_http_call path = \<lparr>ca_method = ''GET'', ca_path = path, ca_params = [], ca_headers = [], ca_body = None, ca_decode = None\<rparr>"

definition demo_exchange ::
  "string \<Rightarrow> (http_error + unit option) \<times> (gerr + http_response) list \<times> http_event list" where
  "demo_exchange path = exchange_json demo_http_env demo_url_lib demo_json_lib demo_arith demo_http_client
     (demo_http_call path) [Inr (demo_response 503 [(''Retry-After'', [''2''])]), Inr (demo_response 200 [])]"


lemma demo_exchange_json:
  "exchange_json demo_http_env demo_url_lib demo_json_lib demo_arith demo_http_client (demo_http_call path)
     [Inr (demo_response 503 [(''Retry-After'', [''2''])]), Inr (demo_response 200 [])]
    = (fst (demo_exchange path), fst (snd (demo_exchange path)), snd (snd (demo_exchange path)))"
  by (simp add: demo_exchange_def)

theorem exchange_disciplined_witness:
  "length (sends_of (snd (snd (demo_exchange ''/x'')))) = 2
    \<and> list_all (\<lambda>(req, res). failed res) (butlast (sends_of (snd (snd (demo_exchange ''/x'')))))
    \<and> waits_ok demo_http_client (snd (snd (demo_exchange ''/x'')))"
proof -
  have "length (sends_of (snd (snd (demo_exchange ''/x'')))) = 2" by code_simp
  then show ?thesis using exchange_disciplined [OF demo_exchange_json [of "''/x''"]] by blast
qed

theorem credentials_stay_home_witness:
  "header_values ''API-key'' (rq_header (fst (hd (sends_of (snd (snd (demo_exchange ''http://b/x''))))))) = []
    \<and> header_values ''API-key'' (rq_header (fst (hd (sends_of (snd (snd (demo_exchange ''/x''))))))) = [''k'']"
proof -
  let ?s = "sends_of (snd (snd (demo_exchange ''http://b/x'')))"
  have "?s \<noteq> []" by code_simp
  then have "(fst (hd ?s), snd (hd ?s)) \<in> set ?s" by simp
  moreover have "base_host demo_url_lib demo_http_client \<noteq> []" by code_simp
  moreover have "\<not> equal_fold (gu_host (rq_url (fst (hd ?s)))) (base_host demo_url_lib demo_http_client)" by code_simp
  moreover have "is_credential_header ''API-key''" by code_simp
  moreover have "\<not> hc_auto_correlation demo_http_client" by code_simp
  ultimately have "header_values ''API-key'' (rq_header (fst (hd ?s))) = caller_values ''API-key'' (ca_headers (demo_http_call ''http://b/x''))"
    using credentials_stay_home [OF demo_exchange_json] by blast
  moreover have "caller_values ''API-key'' (ca_headers (demo_http_call ''http://b/x'')) = []" by code_simp
  moreover have "header_values ''API-key'' (rq_header (fst (hd (sends_of (snd (snd (demo_exchange ''/x''))))))) = [''k'']"
    by code_simp
  ultimately show ?thesis by simp
qed

text \<open>A call whose URL, header and body are secrets, and a server that fails and sends the body back.\<close>

definition demo_secret_call :: "string \<Rightarrow> unit http_call" where
  "demo_secret_call s = \<lparr>ca_method = ''PUT'', ca_path = ''http://'' @ s, ca_params = [],
     ca_headers = [(''Authorization'', [s])], ca_body = Some (Inr s), ca_decode = None\<rparr>"

definition demo_secret_env :: "(unit, unit) http_env" where
  "demo_secret_env = \<lparr>he_ctx_err = (\<lambda>_. None),
     he_send = (\<lambda>req w. (Inr \<lparr>hr_status = 503, hr_header = [],
       hr_body = (case rq_body req of None \<Rightarrow> [] | Some b \<Rightarrow> b), hr_body_err = None\<rparr>, w)),
     he_timer = (\<lambda>d w. (None, w)), he_until = (\<lambda>_ _. None), he_rand = (\<lambda>_. ()), he_random = (\<lambda>_. replicate 16 CHR ''x''),
     he_stamp = (\<lambda>_. (''t'', ''d''))\<rparr>"

definition demo_secret_arith :: "unit arith" where
  "demo_secret_arith = \<lparr>fa_add = \<lambda>_ _. (), fa_sub = \<lambda>_ _. (), fa_mul = \<lambda>_ _. (), fa_lt = \<lambda>_ _. False,
     fa_of_int = \<lambda>_. (), fa_to_int = \<lambda>_. 0\<rparr>"

definition demo_secret_built :: "string \<Rightarrow> http_request \<times> string" where
  "demo_secret_built s = projr (build_json_request demo_secret_urls demo_secret_json demo_secret_client
     (he_random demo_secret_env ()) (demo_secret_call s))"

definition demo_secret_sent :: "string \<Rightarrow> http_request" where
  "demo_secret_sent s = apply_default_headers demo_secret_urls demo_secret_client (fst (demo_secret_built s))"

definition demo_secret_lines :: "string \<Rightarrow> ((string \<times> string) option \<times> (string \<times> string) list option) list" where
  "demo_secret_lines s = lines_of demo_secret_urls demo_secret_json demo_secret_client (snd (snd (exchange_attempt
     demo_secret_env demo_secret_urls demo_secret_json demo_secret_arith demo_secret_client (demo_secret_call s) False 1 1 None ())))"

theorem logs_hide_secrets_witness:
  "demo_secret_lines ''a'' = demo_secret_lines ''b'' \<and> length (demo_secret_lines ''a'') = 1
    \<and> hc_log_dir demo_secret_client \<noteq> []"
proof -
  have built: "build_json_request demo_secret_urls demo_secret_json demo_secret_client (he_random demo_secret_env ())
        (demo_secret_call ''a'') = Inr (fst (demo_secret_built ''a''), snd (demo_secret_built ''a''))"
      "build_json_request demo_secret_urls demo_secret_json demo_secret_client (he_random demo_secret_env ())
        (demo_secret_call ''b'') = Inr (fst (demo_secret_built ''b''), snd (demo_secret_built ''b''))" by code_simp+
  have low: "request_low demo_secret_client (demo_secret_sent ''a'') (demo_secret_sent ''b'')"
    unfolding request_low_def url_low_def query_low_def headers_low_def by code_simp
  have field: "is_redacted_field demo_secret_client ''password''" by code_simp
  have low_text: "body_low demo_secret_json demo_secret_client ''a'' ''b''"
    using field by (auto simp: body_low_def demo_secret_json_def intro!: json_low_map)
  have body: "call_body_low demo_secret_json demo_secret_client (ca_body (demo_secret_call ''a'')) (ca_body (demo_secret_call ''b''))"
    using low_text by (simp add: demo_secret_call_def)
  let ?r = "\<lambda>s. \<lparr>hr_status = 503, hr_header = [], hr_body = s, hr_body_err = None\<rparr>"
  have sent: "he_send demo_secret_env (demo_secret_sent ''a'') () = (Inr (?r ''a''), ())"
      "he_send demo_secret_env (demo_secret_sent ''b'') () = (Inr (?r ''b''), ())" by code_simp+
  have small: "read_small_body (?r ''a'') = ''a''" "read_small_body (?r ''b'') = ''b''"
    by (simp_all add: read_small_body_def small_body_len_def)
  have answers: "response_low demo_secret_json demo_secret_client (?r ''a'') (?r ''b'')"
    using low_text by (simp add: response_low_def small)
  have other: "pick_validator demo_secret_client (ca_path (demo_secret_call ''a''))
        = pick_validator demo_secret_client (ca_path (demo_secret_call ''b''))"
      "ca_decode (demo_secret_call ''a'') = ca_decode (demo_secret_call ''b'')"
    by (simp_all add: pick_validator_def demo_secret_call_def demo_secret_client_def new_http_client_def
        with_file_logging_def with_logging_details_def)
  have correlation: "\<not> is_redacted_header demo_secret_client (canonical_key (correlation_header_name demo_secret_client))"
    by code_simp
  have "demo_secret_lines ''a'' = demo_secret_lines ''b''"
    unfolding demo_secret_lines_def
    by (rule logs_hide_secrets [OF built low [unfolded demo_secret_sent_def] body sent [unfolded demo_secret_sent_def]
          answers refl other correlation])
  moreover have "length (demo_secret_lines ''a'') = 1"
    by (simp add: demo_secret_lines_def lines_of_def exchange_attempt_def built [unfolded prod.collapse]) code_simp
  moreover have "hc_log_dir demo_secret_client \<noteq> []" by code_simp
  ultimately show ?thesis by simp
qed

section \<open>Where the masking and the limit end\<close>

text \<open>The text of a network error, with the URL it names, is logged as it is.\<close>

lemma network_error_logged:
  assumes "he_ctx_err ev w = None" "build_json_request U J c (he_random ev w) call = Inr (req, prev)"
    and "he_send ev (apply_default_headers U c req) w = (Inl e, w1)"
  shows "\<exists>out le. exchange_attempt ev U J A c call can mx attempt prior w
      = (out, w1, [Sent (apply_default_headers U c req) (Inl e), Logged le]) \<and> le_error le = err_msg e"
  using assms
  by (auto simp: exchange_attempt_def Let_def mk_entry_def split: option.splits)

text \<open>An error body that is no JSON any more, once cut at 4 KiB, is logged as it is.\<close>

lemma cut_body_logged:
  assumes "js_parse J (take small_body_len (hr_body resp)) = None"
  shows "\<exists>out le. handle_failure ev J A c req prev attempt mx can resp w = (out, [Logged le])
      \<and> le_error le = take small_body_len (hr_body resp)"
proof -
  have "redact_body_preview J c (read_small_body resp) = take small_body_len (hr_body resp)"
    using assms by (simp add: redact_body_preview_def read_small_body_def)
  then show ?thesis
    by (simp add: handle_failure_def Let_def mk_entry_def split: option.split)
qed

text \<open>With the largest limit, one more than the limit wraps around and every body reads as empty.\<close>

lemma largest_limit_reads_nothing:
  "hc_max_response_bytes c = 2 ^ 63 - 1 \<Longrightarrow> read_limited c resp = Inr []"
  by (simp add: read_limited_def max_response_bytes_def Let_def wrap64_def)

section \<open>The shortcuts\<close>

text \<open>The builders of queries and headers, and \<open>GetJSON\<close> \<dots> \<open>DeleteJSON\<close> in their variants.\<close>

definition query_add :: "string \<Rightarrow> string list \<Rightarrow> multi \<Rightarrow> multi" where
  "query_add k vals q = foldl (\<lambda>q v. multi_add k v q) q vals"

definition hdr_bearer :: "string \<Rightarrow> multi \<Rightarrow> multi" where
  "hdr_bearer token h = (if token \<noteq> [] then header_set ''Authorization'' (''Bearer '' @ token) h else h)"

definition hdr_idempotency_key :: "string \<Rightarrow> multi \<Rightarrow> multi" where
  "hdr_idempotency_key key h = (if key \<noteq> [] then header_set ''Idempotency-Key'' key h else h)"

definition query_of_map :: "(string \<times> string) list \<Rightarrow> multi" where
  "query_of_map m = foldl (\<lambda>q (k, v). multi_set k v q) [] m"

definition hdr_of_map :: "(string \<times> string) list \<Rightarrow> multi" where
  "hdr_of_map m = foldl (\<lambda>h (k, v). header_set k v h) [] m"

definition json_with where
  "json_with ev U J A c method path params headers body dec =
     exchange_json ev U J A c
       \<lparr>ca_method = method, ca_path = path, ca_params = params, ca_headers = headers,
        ca_body = (if method = ''GET'' \<or> method = ''DELETE'' then None else body), ca_decode = dec\<rparr>"

definition json_plain where
  "json_plain ev U J A c method path body dec = json_with ev U J A c method path [] [] body dec"

text \<open>\<open>limit\<close> is \<open>context.WithTimeout\<close>.\<close>

definition json_opts where
  "json_opts limit ev U J A c method path body dec params headers timeout =
     json_with (if 0 < timeout then limit timeout ev else ev) U J A c method path params headers body dec"

lemma bearer_header: "token \<noteq> [] \<Longrightarrow> header_get ''Authorization'' (hdr_bearer token h) = ''Bearer '' @ token"
  by (simp add: hdr_bearer_def header_get_def header_set_def multi_get_def)

text \<open>An idempotency key makes any method one that may be retried; without one a POST is sent once.\<close>

lemma idempotency_key_allows_retry:
  "key \<noteq> [] \<Longrightarrow> retry_allowed_for c method (hdr_idempotency_key key h)"
  by (simp add: retry_allowed_for_def hdr_idempotency_key_def idempotency_key_def header_get_def header_set_def multi_get_def)

lemma post_sent_once:
  assumes "json_with ev U J A c ''POST'' path params headers body dec w = (r, w', es)"
    and "\<not> hc_retry_non_idempotent c" "header_get idempotency_key headers = []"
      "header_get idempotency_key (hc_headers c) = []"
  shows "length (sends_of es) \<le> 1"
proof -
  have "\<not> is_idempotent_method ''POST''" by code_simp
  with assms(2-4) have "\<not> retry_allowed_for c ''POST'' headers" by (simp add: retry_allowed_for_def)
  with exch_ok_sends [OF exchange_loop_ok [OF assms(1) [unfolded json_with_def exchange_json_def]]]
  show ?thesis by simp
qed

end
