(* ===== verification/Signals.thy ===== *)
theory Signals
  imports Prelude
begin

text \<open>
  \<open>pkg/signals\<close>: subscribers of an event, called in the order they subscribed, and the bus of topics.

  A callback changes a world and may panic. It may itself subscribe, unsubscribe or clear while an
  event is delivered: so the world holds the signal, and \<open>Emit\<close> goes through the subscribers it
  found when it began. Locks are held only for the single steps modelled here.
\<close>

section \<open>A signal\<close>

record 'f signal =
  sg_subs :: "(nat \<times> 'f) list"
  sg_next :: nat
  sg_on_panic :: bool \<comment> \<open>whether a handler for panics is set\<close>

definition new_signal :: "'f signal" where
  "new_signal = \<lparr>sg_subs = [], sg_next = 0, sg_on_panic = False\<rparr>"

text \<open>The counter is a uint64; it is kept at its width.\<close>

definition next_id :: "nat \<Rightarrow> nat" where
  "next_id n = (n + 1) mod 2 ^ 64"

definition set_on_panic :: "bool \<Rightarrow> 'f signal \<Rightarrow> 'f signal" where
  "set_on_panic fn s = s\<lparr>sg_on_panic := fn\<rparr>"

text \<open>\<open>Subscribe\<close>: the identifier to unsubscribe with, \<open>None\<close> for a nil callback.\<close>

definition subscribe :: "'f option \<Rightarrow> 'f signal \<Rightarrow> nat option \<times> 'f signal" where
  "subscribe fn s = (case fn of None \<Rightarrow> (None, s)
     | Some f \<Rightarrow> (let i = next_id (sg_next s) in
         (Some i, s\<lparr>sg_next := i, sg_subs := sg_subs s @ [(i, f)]\<rparr>)))"

fun remove_first :: "nat \<Rightarrow> (nat \<times> 'f) list \<Rightarrow> (nat \<times> 'f) list" where
  "remove_first i [] = []"
| "remove_first i ((j, f) # subs) = (if j = i then subs else (j, f) # remove_first i subs)"

definition remove_sub :: "nat \<Rightarrow> 'f signal \<Rightarrow> 'f signal" where
  "remove_sub i s = s\<lparr>sg_subs := remove_first i (sg_subs s)\<rparr>"

text \<open>The function that \<open>Subscribe\<close> returns; \<open>fired\<close> is its \<open>sync.Once\<close>.\<close>

definition unsubscribe :: "nat option \<Rightarrow> bool \<times> 'f signal \<Rightarrow> bool \<times> 'f signal" where
  "unsubscribe tok fs = (case (tok, fs) of
       (None, _) \<Rightarrow> fs
     | (Some i, (fired, s)) \<Rightarrow> if fired then (True, s) else (True, remove_sub i s))"

definition signal_len :: "'f signal \<Rightarrow> nat" where
  "signal_len s = length (sg_subs s)"

definition clear_signal :: "'f signal \<Rightarrow> 'f signal" where
  "clear_signal s = s\<lparr>sg_subs := []\<rparr>"

text \<open>
  \<open>Emit\<close>. \<open>run f v w\<close> calls a subscriber: the text of its panic, if any, and the world. \<open>report\<close> tells
  the panic to the handler that was set when \<open>Emit\<close> began, or to the log; it may panic itself, which
  ends the loop.
\<close>

record ('f, 'v, 'w) signal_env =
  se_run :: "'f \<Rightarrow> 'v \<Rightarrow> 'w \<Rightarrow> string option \<times> 'w"
  se_report :: "bool \<Rightarrow> string \<Rightarrow> 'w \<Rightarrow> string option \<times> 'w"

definition call_safe :: "('f, 'v, 'w) signal_env \<Rightarrow> 'f \<Rightarrow> 'v \<Rightarrow> bool \<Rightarrow> 'w \<Rightarrow> string option \<times> 'w" where
  "call_safe E f v on_panic w = (case se_run E f v w of
       (None, w1) \<Rightarrow> (None, w1)
     | (Some p, w1) \<Rightarrow> se_report E on_panic p w1)"

fun emit_loop :: "('f, 'v, 'w) signal_env \<Rightarrow> 'v \<Rightarrow> bool \<Rightarrow> (nat \<times> 'f) list \<Rightarrow> 'w \<Rightarrow> nat list \<times> string option \<times> 'w" where
  "emit_loop E v on_panic [] w = ([], None, w)"
| "emit_loop E v on_panic ((i, f) # subs) w = (case call_safe E f v on_panic w of
       (Some p, w1) \<Rightarrow> ([i], Some p, w1)
     | (None, w1) \<Rightarrow> (case emit_loop E v on_panic subs w1 of (is, p, w2) \<Rightarrow> (i # is, p, w2)))"

text \<open>The subscribers called, in order, a panic that got out, and the world; \<open>sig\<close> reads the signal in it.\<close>

definition emit :: "('f, 'v, 'w) signal_env \<Rightarrow> ('w \<Rightarrow> 'f signal) \<Rightarrow> 'v \<Rightarrow> 'w \<Rightarrow> nat list \<times> string option \<times> 'w" where
  "emit E sig v w = emit_loop E v (sg_on_panic (sig w)) (sg_subs (sig w)) w"

section \<open>The bus\<close>

type_synonym 'f bus = "string \<rightharpoonup> 'f signal"

definition topic :: "string \<Rightarrow> 'f bus \<Rightarrow> 'f signal \<times> 'f bus" where
  "topic name b = (case b name of Some s \<Rightarrow> (s, b) | None \<Rightarrow> (new_signal, b(name \<mapsto> new_signal)))"

definition bus_subscribe :: "string \<Rightarrow> 'f option \<Rightarrow> 'f bus \<Rightarrow> nat option \<times> 'f bus" where
  "bus_subscribe name fn b = (case topic name b of (s, b1) \<Rightarrow> (case subscribe fn s of (i, s1) \<Rightarrow> (i, b1(name \<mapsto> s1))))"

definition bus_emit ::
  "('f, 'v, 'w) signal_env \<Rightarrow> ('w \<Rightarrow> 'f bus) \<Rightarrow> string \<Rightarrow> 'v \<Rightarrow> 'w \<Rightarrow> nat list \<times> string option \<times> 'w" where
  "bus_emit E bus_of name v w = (case bus_of w name of None \<Rightarrow> ([], None, w)
     | Some s \<Rightarrow> emit_loop E v (sg_on_panic s) (sg_subs s) w)"

text \<open>\<open>RemoveTopic\<close>: the signal that others may still hold, without subscribers, and the bus.\<close>

definition remove_topic :: "string \<Rightarrow> 'f bus \<Rightarrow> 'f signal option \<times> 'f bus" where
  "remove_topic name b = (map_option clear_signal (b name), b(name := None))"

section \<open>Histories of a signal\<close>

text \<open>The calls that change the subscribers, in any order, as threads and callbacks interleave them.\<close>

datatype 'f sig_call = Call_subscribe "'f option" | Call_remove nat | Call_clear

fun sig_step :: "'f sig_call \<Rightarrow> 'f signal \<Rightarrow> 'f signal" where
  "sig_step (Call_subscribe fn) s = snd (subscribe fn s)"
| "sig_step (Call_remove i) s = remove_sub i s"
| "sig_step Call_clear s = clear_signal s"

definition sig_run :: "'f sig_call list \<Rightarrow> 'f signal" where
  "sig_run cs = foldl (\<lambda>s c. sig_step c s) new_signal cs"

text \<open>The subscribers as a specification has them: those subscribed and neither removed nor cleared since.\<close>

fun live :: "'f sig_call list \<Rightarrow> nat \<Rightarrow> (nat \<times> 'f) list \<Rightarrow> (nat \<times> 'f) list" where
  "live [] n acc = acc"
| "live (Call_subscribe None # cs) n acc = live cs n acc"
| "live (Call_subscribe (Some f) # cs) n acc = live cs (n + 1) (acc @ [(n + 1, f)])"
| "live (Call_remove i # cs) n acc = live cs n (filter (\<lambda>p. fst p \<noteq> i) acc)"
| "live (Call_clear # cs) n acc = live cs n []"

fun subscriptions :: "'f sig_call list \<Rightarrow> nat" where
  "subscriptions [] = 0"
| "subscriptions (Call_subscribe (Some f) # cs) = Suc (subscriptions cs)"
| "subscriptions (c # cs) = subscriptions cs"

lemma remove_first_filter: "distinct (map fst subs) \<Longrightarrow> remove_first i subs = filter (\<lambda>p. fst p \<noteq> i) subs"
proof (induction i subs rule: remove_first.induct)
  case (2 i j f subs)
  have "filter (\<lambda>p. fst p \<noteq> j) subs = subs" if "j \<notin> fst ` set subs"
    using that by (intro filter_True) force
  with 2 show ?case by auto
qed simp

lemma sig_live:
  "distinct (map fst (sg_subs s)) \<Longrightarrow> (\<forall>i\<in>fst ` set (sg_subs s). i \<le> sg_next s) \<Longrightarrow>
    sg_next s + subscriptions cs < 2 ^ 64 \<Longrightarrow>
    sg_subs (foldl (\<lambda>s c. sig_step c s) s cs) = live cs (sg_next s) (sg_subs s)
    \<and> distinct (map fst (live cs (sg_next s) (sg_subs s)))"
proof (induction cs arbitrary: s)
  case (Cons c cs)
  have step: "sg_next s + 1 < 2 ^ 64" if "c = Call_subscribe (Some f)" for f
    using Cons.prems(3) that by simp
  let ?s = "sig_step c s"
  have next_s: "sg_next ?s = (case c of Call_subscribe (Some f) \<Rightarrow> sg_next s + 1 | _ \<Rightarrow> sg_next s)"
    using step by (auto simp: subscribe_def Let_def next_id_def remove_sub_def clear_signal_def split: sig_call.split option.split)
  have "distinct (map fst (sg_subs ?s))" "\<forall>i\<in>fst ` set (sg_subs ?s). i \<le> sg_next ?s"
    using Cons.prems(1,2) step next_s
    by (cases c; auto simp: subscribe_def Let_def next_id_def remove_sub_def clear_signal_def remove_first_filter
        distinct_map_filter split: option.splits)+
  moreover have "sg_next ?s + subscriptions cs < 2 ^ 64"
    using Cons.prems(3) next_s by (cases "c # cs" rule: subscriptions.cases) simp_all
  moreover have "live (c # cs) (sg_next s) (sg_subs s) = live cs (sg_next ?s) (sg_subs ?s)"
    using Cons.prems(1) next_s step
    by (cases "(c # cs, sg_next s, sg_subs s)" rule: live.cases)
       (auto simp: subscribe_def Let_def next_id_def remove_sub_def clear_signal_def remove_first_filter)
  ultimately show ?case using Cons.IH [of ?s] by simp
qed simp

text \<open>
  Whatever the order of subscribing, unsubscribing and clearing (fewer than 2^64 subscriptions), the
  subscribers of a signal are those that subscribed and did not leave since, in the order they came,
  each with an identifier of its own: an unsubscribe function removes its own subscriber only.
\<close>

theorem subscribers_live:
  assumes "subscriptions cs < 2 ^ 64"
  shows "sg_subs (sig_run cs) = live cs 0 [] \<and> distinct (map fst (live cs 0 []))"
proof -
  have "sg_next (new_signal :: 'a signal) = 0" "sg_subs (new_signal :: 'a signal) = []"
    by (simp_all add: new_signal_def)
  with sig_live [of new_signal cs] assms show ?thesis by (simp add: sig_run_def)
qed

text \<open>An event reaches every subscriber there was, in order, whatever they do and whether they panic.\<close>

theorem emit_reaches_all:
  assumes "\<And>b p w. fst (se_report E b p w) = None"
  shows "\<exists>w'. emit E sig v w = (map fst (sg_subs (sig w)), None, w')"
proof -
  have "\<exists>w'. emit_loop E v b subs w = (map fst subs, None, w')" for b subs w
  proof (induction subs arbitrary: w)
    case (Cons p subs)
    obtain i f where p: "p = (i, f)" by fastforce
    have "fst (call_safe E f v b w) = None" using assms by (auto simp: call_safe_def split: prod.split option.split)
    then obtain w1 where "call_safe E f v b w = (None, w1)" by (cases "call_safe E f v b w") auto
    moreover obtain w2 where "emit_loop E v b subs w1 = (map fst subs, None, w2)" using Cons.IH by blast
    ultimately show ?case by (simp add: p)
  qed simp
  then show ?thesis by (simp add: emit_def)
qed

section \<open>Witnesses\<close>

theorem subscribers_live_witness:
  "sg_subs (sig_run [Call_subscribe (Some ''a''), Call_subscribe (Some ''b''), Call_remove 1, Call_remove 1, Call_subscribe (Some ''a'')])
    = [(2, ''b''), (3, ''a'')]"
proof -
  let ?cs = "[Call_subscribe (Some ''a''), Call_subscribe (Some ''b''), Call_remove 1, Call_remove 1, Call_subscribe (Some ''a'')]"
  have "subscriptions ?cs < 2 ^ 64" by simp
  from subscribers_live [OF this] show ?thesis by simp
qed

definition demo_signal_env :: "(string, nat, string) signal_env" where
  "demo_signal_env = \<lparr>se_run = (\<lambda>f v w. (if f = ''bad'' then Some f else None, w @ f)), se_report = (\<lambda>b p w. (None, w @ ''!''))\<rparr>"

theorem emit_reaches_all_witness:
  "\<exists>w'. emit demo_signal_env (\<lambda>w. sig_run [Call_subscribe (Some ''bad''), Call_subscribe (Some ''b'')]) 5 [] = ([1, 2], None, w')"
proof -
  have quiet: "fst (se_report demo_signal_env b p w) = None" for b p w by (simp add: demo_signal_env_def)
  have "map fst (sg_subs (sig_run [Call_subscribe (Some ''bad''), Call_subscribe (Some ''b'')])) = [1, 2]"
    by (simp add: sig_run_def subscribe_def next_id_def new_signal_def Let_def)
  with emit_reaches_all [OF quiet, of "\<lambda>w. sig_run [Call_subscribe (Some ''bad''), Call_subscribe (Some ''b'')]" 5 "[]"]
  show ?thesis by simp
qed

end
