(* ===== verification/Sql_Ident.thy ===== *)
theory Sql_Ident
  imports Go_Base
begin

text \<open>
  pkg/sqlutil/ident.go: dialects, strict validation and quoting of identifiers, placeholders,
  and the names of SQL Server types. Two interfaces are stated here as locales, because every
  component that builds SQL rests on them: \<open>quoting\<close> (what a quoted identifier may contain)
  and \<open>placeholder_style\<close> (what a placeholder may contain).
\<close>

section \<open>Dialects\<close>

datatype dialect = Generic | Postgres | MySQL | SQLite | SQLServer

instantiation dialect :: enum
begin

definition enum_dialect_def: "enum_class.enum = [Generic, Postgres, MySQL, SQLite, SQLServer]"

definition enum_all_dialect_def:
  "enum_class.enum_all P \<longleftrightarrow> P Generic \<and> P Postgres \<and> P MySQL \<and> P SQLite \<and> P SQLServer"

definition enum_ex_dialect_def:
  "enum_class.enum_ex P \<longleftrightarrow> P Generic \<or> P Postgres \<or> P MySQL \<or> P SQLite \<or> P SQLServer"

instance
proof
  show "(UNIV :: dialect set) = set enum_class.enum"
    by (auto simp: enum_dialect_def intro: dialect.exhaust)
  show "distinct (enum_class.enum :: dialect list)" by (simp add: enum_dialect_def)
  show "enum_class.enum_all P \<longleftrightarrow> Ball UNIV P" for P :: "dialect \<Rightarrow> bool"
    by (simp add: enum_all_dialect_def) (metis dialect.exhaust)
  show "enum_class.enum_ex P \<longleftrightarrow> Bex UNIV P" for P :: "dialect \<Rightarrow> bool"
    by (simp add: enum_ex_dialect_def) (metis dialect.exhaust)
qed

end

datatype sql_error =
    Invalid_identifier string
  | Invalid_sql_type string
  | Unknown_dialect string

definition parse_dialect :: "string \<Rightarrow> dialect \<times> sql_error option" where
  "parse_dialect name =
     (let s = go_lower (trim_space name) in
      if s \<in> {''postgres'', ''postgresql'', ''pg'', ''pgx''} then (Postgres, None)
      else if s \<in> {''mysql'', ''mariadb''} then (MySQL, None)
      else if s \<in> {''sqlite'', ''sqlite3''} then (SQLite, None)
      else if s \<in> {''sqlserver'', ''mssql''} then (SQLServer, None)
      else if s \<in> {'''', ''generic''} then (Generic, None)
      else (Generic, Some (Unknown_dialect name)))"

text \<open>
  \<open>DetectDialect\<close>: the argument is the package path and name of the driver's type, \<open>None\<close>
  for a nil database or driver.
\<close>

definition detect_dialect :: "(string \<times> string) option \<Rightarrow> dialect" where
  "detect_dialect t = (case t of None \<Rightarrow> Generic | Some (pkg, name) \<Rightarrow>
     (let full = go_lower (pkg @ ''.'' @ name) in
      if contains_sub ''sqlite'' full then SQLite
      else if contains_sub ''pgx'' full \<or> contains_sub ''lib/pq'' full \<or> contains_sub ''postgres'' full
        then Postgres
      else if contains_sub ''mysql'' full then MySQL
      else if contains_sub ''mssql'' full \<or> contains_sub ''sqlserver'' full then SQLServer
      else Generic))"

section \<open>Identifiers\<close>

definition ident_start :: "char \<Rightarrow> bool" where
  "ident_start c \<longleftrightarrow> is_letter c \<or> c = CHR ''_''"

definition ident_char :: "char \<Rightarrow> bool" where
  "ident_char c \<longleftrightarrow> is_letter c \<or> is_digit c \<or> c = CHR ''_''"

text \<open>\<open>identRe\<close>: a letter or underscore, then at most 127 letters, digits and underscores.\<close>

definition ident_re :: "string \<Rightarrow> bool" where
  "ident_re s = (case s of [] \<Rightarrow> False
     | c # cs \<Rightarrow> ident_start c \<and> list_all ident_char cs \<and> length cs \<le> 127)"

definition validate_ident :: "string \<Rightarrow> sql_error option" where
  "validate_ident name =
     (if name = [] then Some (Invalid_identifier name)
      else let parts = split_on (CHR ''.'') name in
        if 3 < length parts then Some (Invalid_identifier name)
        else if list_all ident_re parts then None
        else Some (Invalid_identifier name))"

definition quote_part :: "dialect \<Rightarrow> string \<Rightarrow> string" where
  "quote_part d p = (case d of
       Postgres \<Rightarrow> [CHR 0x22] @ p @ [CHR 0x22]
     | SQLite \<Rightarrow> [CHR 0x22] @ p @ [CHR 0x22]
     | MySQL \<Rightarrow> [CHR 0x60] @ p @ [CHR 0x60]
     | SQLServer \<Rightarrow> ''['' @ p @ '']''
     | Generic \<Rightarrow> p)"

definition quote_ident :: "dialect \<Rightarrow> string \<Rightarrow> sql_error + string" where
  "quote_ident d name = (case validate_ident name of
       Some e \<Rightarrow> Inl e
     | None \<Rightarrow> Inr (join_with ''.'' (map (quote_part d) (split_on (CHR ''.'') name))))"

definition quote_idents :: "dialect \<Rightarrow> string list \<Rightarrow> sql_error + string list" where
  "quote_idents d names = res_map (quote_ident d) names"

section \<open>Placeholders\<close>

definition placeholder :: "dialect \<Rightarrow> nat \<Rightarrow> string" where
  "placeholder d n = (case d of
       Postgres \<Rightarrow> ''$'' @ itoa n
     | SQLServer \<Rightarrow> ''@p'' @ itoa n
     | _ \<Rightarrow> ''?'')"

section \<open>SQL Server type names\<close>

definition re_space :: "char \<Rightarrow> bool" where
  "re_space c \<longleftrightarrow> c \<in> {CHR 0x09, CHR 0x0A, CHR 0x0C, CHR 0x0D, CHR 0x20}"

text \<open>One to five digits, then white space; what follows is returned.\<close>

definition type_digits :: "string \<Rightarrow> string option" where
  "type_digits s =
     (let ds = takeWhile is_digit s in
      if 1 \<le> length ds \<and> length ds \<le> 5 then Some (dropWhile re_space (dropWhile is_digit s)) else None)"

definition type_size :: "string \<Rightarrow> string option" where
  "type_size s =
     (if go_upper (take 3 s) = ''MAX'' \<and> length (take 3 s) = 3
      then Some (dropWhile re_space (drop 3 s)) else type_digits s)"

definition type_args :: "string \<Rightarrow> bool" where
  "type_args s = (case dropWhile re_space s of
       CHR ''('' # r \<Rightarrow> (case type_size (dropWhile re_space r) of
           None \<Rightarrow> False
         | Some t \<Rightarrow> t = '')'' \<or>
             (case t of
                CHR '','' # u \<Rightarrow> type_digits (dropWhile re_space u) = Some '')''
              | _ \<Rightarrow> False))
     | _ \<Rightarrow> False)"

definition sql_type_re :: "string \<Rightarrow> bool" where
  "sql_type_re s = (case s of [] \<Rightarrow> False
     | c # cs \<Rightarrow> is_letter c \<and> length (takeWhile ident_char cs) \<le> 63
         \<and> (dropWhile ident_char cs = [] \<or> type_args (dropWhile ident_char cs)))"

definition validate_sql_type :: "string \<Rightarrow> sql_error option" where
  "validate_sql_type typ =
     (if sql_type_re (trim_space typ) then None else Some (Invalid_sql_type typ))"

end
