(* ===== verification/Sql_Frag.thy ===== *)
theory Sql_Frag
  imports Sql_Ident
begin

text \<open>
  What the SQL builders promise, stated once. A statement is a list of fragments, literal text
  and bound values (\<open>frag\<close>); \<open>render\<close> writes it with numbered placeholders and \<open>frag_args\<close>
  lists the values in the order of their placeholders. The builders of pkg/q, pkg/sqlutil and
  pkg/db thread a string and an argument slice; the refinement lemmas of their theories say that
  this equals rendering the fragments. The two locales are the interfaces they rest on:
  \<open>placeholder_style\<close> for the \<open>ph\<close> functions and \<open>quoting\<close> for \<open>QuoteIdent\<close>.
\<close>

datatype frag = Txt string | Arg gval

fun render :: "(nat \<Rightarrow> string) \<Rightarrow> nat \<Rightarrow> frag list \<Rightarrow> string" where
  "render ph n [] = []"
| "render ph n (Txt s # fs) = s @ render ph n fs"
| "render ph n (Arg v # fs) = ph (Suc n) @ render ph (Suc n) fs"

fun frag_args :: "frag list \<Rightarrow> gval list" where
  "frag_args [] = []"
| "frag_args (Txt s # fs) = frag_args fs"
| "frag_args (Arg v # fs) = v # frag_args fs"

text \<open>The statement with its values left out: all that may depend on trusted text only.\<close>

fun erase :: "frag \<Rightarrow> string option" where
  "erase (Txt s) = Some s"
| "erase (Arg v) = None"

definition frag_shape :: "frag list \<Rightarrow> string option list" where
  "frag_shape fs = map erase fs"

definition text_within :: "char set \<Rightarrow> frag list \<Rightarrow> bool" where
  "text_within A fs \<longleftrightarrow> (\<forall>s. Txt s \<in> set fs \<longrightarrow> set s \<subseteq> A)"

lemma render_append [simp]:
  "render ph n (fs @ gs) = render ph n fs @ render ph (n + length (frag_args fs)) gs"
  by (induction ph n fs rule: render.induct) auto

lemma frag_args_append [simp]: "frag_args (fs @ gs) = frag_args fs @ frag_args gs"
  by (induction fs rule: frag_args.induct) auto

lemma frag_args_map_Arg [simp]: "frag_args (map Arg vs) = vs"
  by (induction vs) auto

lemma text_within_simps [simp]:
  "text_within A []"
  "text_within A (Txt s # fs) \<longleftrightarrow> set s \<subseteq> A \<and> text_within A fs"
  "text_within A (Arg v # fs) \<longleftrightarrow> text_within A fs"
  "text_within A (fs @ gs) \<longleftrightarrow> text_within A fs \<and> text_within A gs"
  by (auto simp: text_within_def)

lemma text_within_concat [simp]:
  "text_within A (concat fss) \<longleftrightarrow> (\<forall>fs\<in>set fss. text_within A fs)"
  by (induction fss) auto

lemma text_within_mono: "text_within A fs \<Longrightarrow> A \<subseteq> B \<Longrightarrow> text_within B fs"
  by (fastforce simp: text_within_def)

lemma frag_shape_simps [simp]:
  "frag_shape [] = []"
  "frag_shape (f # fs) = erase f # frag_shape fs"
  "frag_shape (fs @ gs) = frag_shape fs @ frag_shape gs"
  by (simp_all add: frag_shape_def)

lemma erase_eq_Some [simp]: "erase f = Some s \<longleftrightarrow> f = Txt s"
  by (cases f) auto

lemma erase_eq_None [simp]: "erase f = None \<longleftrightarrow> (\<exists>v. f = Arg v)"
  by (cases f) auto

text \<open>The text depends on the shape alone: values cannot influence it.\<close>

lemma render_shape: "frag_shape fs = frag_shape gs \<Longrightarrow> render ph n fs = render ph n gs"
proof (induction ph n fs arbitrary: gs rule: render.induct)
  case (1 ph n)
  then show ?case by (cases gs) auto
next
  case (2 ph n s fs)
  then obtain gs' where "gs = Txt s # gs'" "frag_shape fs = frag_shape gs'"
    by (cases gs) (auto, metis erase_eq_Some)
  with 2 show ?case by simp
next
  case (3 ph n v fs)
  then obtain w gs' where "gs = Arg w # gs'" "frag_shape fs = frag_shape gs'"
    by (cases gs) (auto, metis erase_eq_None)
  with 3 show ?case by simp
qed

lemma frag_args_shape: "frag_shape fs = frag_shape gs \<Longrightarrow> length (frag_args fs) = length (frag_args gs)"
proof (induction fs arbitrary: gs rule: frag_args.induct)
  case 1
  then show ?case by (cases gs) auto
next
  case (2 s fs)
  then obtain gs' where "gs = Txt s # gs'" "frag_shape fs = frag_shape gs'"
    by (cases gs) (auto, metis erase_eq_Some)
  with 2 show ?case by simp
next
  case (3 v fs)
  then obtain w gs' where "gs = Arg w # gs'" "frag_shape fs = frag_shape gs'"
    by (cases gs) (auto, metis erase_eq_None)
  with 3 show ?case by simp
qed

text \<open>A list of fragment lists with text in between.\<close>

fun join_frags :: "string \<Rightarrow> frag list list \<Rightarrow> frag list" where
  "join_frags sep [] = []"
| "join_frags sep [fs] = fs"
| "join_frags sep (fs # gs # fss) = fs @ Txt sep # join_frags sep (gs # fss)"

lemma text_within_join [simp]:
  "set sep \<subseteq> A \<Longrightarrow> (\<And>fs. fs \<in> set fss \<Longrightarrow> text_within A fs) \<Longrightarrow> text_within A (join_frags sep fss)"
  by (induction sep fss rule: join_frags.induct) auto

lemma frag_args_join [simp]: "frag_args (join_frags sep fss) = concat (map frag_args fss)"
  by (induction sep fss rule: join_frags.induct) auto

lemma frag_shape_join:
  "map frag_shape fss = map frag_shape gss \<Longrightarrow> frag_shape (join_frags sep fss) = frag_shape (join_frags sep gss)"
proof (induction sep fss arbitrary: gss rule: join_frags.induct)
  case (3 sep fs gs fss)
  then obtain fs' gs' fss' where "gss = fs' # gs' # fss'" by (auto simp: Cons_eq_map_conv)
  with 3 show ?case by simp
qed (auto simp: Cons_eq_map_conv)

text \<open>The texts of several fragment lists, numbered through.\<close>

fun render_list :: "(nat \<Rightarrow> string) \<Rightarrow> nat \<Rightarrow> frag list list \<Rightarrow> string list" where
  "render_list ph n [] = []"
| "render_list ph n (fs # fss) = render ph n fs # render_list ph (n + length (frag_args fs)) fss"

lemma render_list_Nil [simp]: "render_list ph n fss = [] \<longleftrightarrow> fss = []"
  by (cases fss) auto

lemma join_render_list: "join_with sep (render_list ph n fss) = render ph n (join_frags sep fss)"
proof (induction sep fss arbitrary: n rule: join_frags.induct)
  case (3 sep fs gs fss)
  show ?case using 3 [of "n + length (frag_args fs)"] by simp
qed auto

section \<open>Parentheses\<close>

text \<open>The nesting depth after reading a text at depth \<open>n\<close>; \<open>None\<close> when it closes too much.\<close>

fun nesting :: "nat \<Rightarrow> string \<Rightarrow> nat option" where
  "nesting n [] = Some n"
| "nesting n (c # s) =
     (if c = CHR ''('' then nesting (Suc n) s
      else if c = CHR '')'' then (case n of 0 \<Rightarrow> None | Suc m \<Rightarrow> nesting m s)
      else nesting n s)"

definition balanced :: "string \<Rightarrow> bool" where
  "balanced s \<longleftrightarrow> nesting 0 s = Some 0"

lemma nesting_append: "nesting n (s @ t) = Option.bind (nesting n s) (\<lambda>m. nesting m t)"
  by (induction n s rule: nesting.induct) (auto split: nat.splits)

lemma nesting_shift: "nesting n s = Some m \<Longrightarrow> nesting (n + k) s = Some (m + k)"
proof (induction n s rule: nesting.induct)
  case (2 n c s)
  then show ?case by (cases n) (auto split: if_splits)
qed auto

lemma balanced_nesting: "balanced s \<Longrightarrow> nesting n s = Some n"
  unfolding balanced_def using nesting_shift [of 0 s 0 n] by simp

lemma balanced_append [intro]: "balanced s \<Longrightarrow> balanced t \<Longrightarrow> balanced (s @ t)"
  by (simp add: balanced_def nesting_append)

lemma balanced_parens [intro]:
  assumes "balanced s"
  shows "balanced (CHR ''('' # s @ '')'')"
  using balanced_nesting [OF assms, of "Suc 0"] by (simp add: balanced_def nesting_append)

lemma balanced_flat [intro]: "set s \<inter> {CHR ''('', CHR '')''} = {} \<Longrightarrow> balanced s"
  unfolding balanced_def by (induction s) auto

lemma balanced_join: "balanced sep \<Longrightarrow> (\<And>w. w \<in> set ws \<Longrightarrow> balanced w) \<Longrightarrow> balanced (join_with sep ws)"
proof (induction sep ws rule: join_with.induct)
  case (1 sep)
  then show ?case by (simp add: balanced_flat)
next
  case (2 sep w)
  then show ?case by simp
next
  case (3 sep w v ws)
  then have "balanced (w @ sep @ join_with sep (v # ws))" by (intro balanced_append) auto
  then show ?case by simp
qed

section \<open>Placeholders\<close>

text \<open>
  A placeholder function: every placeholder shows the mark exactly once and is written with
  the mark and characters of the alphabet only.
\<close>

locale placeholder_style =
  fixes ph :: "nat \<Rightarrow> string"
    and mark :: char
    and rest :: "char set"
  assumes ph_mark: "count_list (ph n) mark = 1"
    and ph_alphabet: "set (ph n) \<subseteq> insert mark rest"
begin

lemma render_marks:
  "text_within (- {mark}) fs \<Longrightarrow> count_list (render ph n fs) mark = length (frag_args fs)"
proof (induction fs arbitrary: n)
  case Nil
  then show ?case by simp
next
  case (Cons f fs)
  then show ?case
    by (cases f) (auto simp: ph_mark count_list_0_iff)
qed

lemma render_alphabet:
  "text_within A fs \<Longrightarrow> set (render ph n fs) \<subseteq> insert mark (rest \<union> A)"
proof (induction fs arbitrary: n)
  case Nil
  then show ?case by simp
next
  case (Cons f fs)
  then show ?case
    using ph_alphabet [of "Suc n"] by (cases f) (simp_all, blast+)
qed

end

definition ph_mark_of :: "dialect \<Rightarrow> char" where
  "ph_mark_of d = (case d of Postgres \<Rightarrow> CHR ''$'' | SQLServer \<Rightarrow> CHR ''@'' | _ \<Rightarrow> CHR ''?'')"

definition ph_rest :: "char set" where
  "ph_rest = insert CHR ''p'' (Collect is_digit)"

lemma not_in_itoa: "\<not> is_digit c \<Longrightarrow> c \<notin> set (itoa n)"
  using itoa_digits by blast

interpretation dialect_ph: placeholder_style "placeholder d" "ph_mark_of d" ph_rest for d
proof unfold_locales
  fix n
  have "CHR ''$'' \<notin> set (itoa n)" "CHR ''@'' \<notin> set (itoa n)"
    by (rule not_in_itoa, simp add: is_digit_def)+
  then show "count_list (placeholder d n) (ph_mark_of d) = 1"
    by (cases d) (simp_all add: placeholder_def ph_mark_of_def count_list_0_iff)
  show "set (placeholder d n) \<subseteq> insert (ph_mark_of d) ph_rest"
    by (cases d) (auto simp: placeholder_def ph_mark_of_def ph_rest_def dest: itoa_digits)
qed

section \<open>Quoting\<close>

text \<open>
  A quoting function for identifiers: what it accepts it writes in its alphabet, never empty,
  and no two names alike.
\<close>

locale quoting =
  fixes quote :: "string \<Rightarrow> 'e + string"
    and alphabet :: "char set"
  assumes quote_alphabet: "quote n = Inr q \<Longrightarrow> set q \<subseteq> alphabet"
    and quote_nonempty: "quote n \<noteq> Inr []"
    and quote_inj: "quote n = Inr q \<Longrightarrow> quote m = Inr q \<Longrightarrow> n = m"
begin

lemma quotes_alphabet:
  assumes "res_map quote ns = Inr qs" and "q \<in> set qs"
  shows "set q \<subseteq> alphabet"
  using assms by (auto elim!: res_map_set dest: quote_alphabet)

lemma quotes_inj:
  assumes "res_map quote ns = Inr qs" and "res_map quote ms = Inr qs"
  shows "ns = ms"
proof (rule nth_equalityI)
  show len: "length ns = length ms" using assms by (auto dest!: res_map_length)
  fix i assume "i < length ns"
  with len assms have "quote (ns ! i) = Inr (qs ! i)" and "quote (ms ! i) = Inr (qs ! i)"
    by (auto intro: res_map_nth)
  then show "ns ! i = ms ! i" by (rule quote_inj)
qed

lemma quotes_distinct:
  assumes "res_map quote ns = Inr qs" and "distinct ns"
  shows "distinct qs"
proof -
  have len: "length qs = length ns" using assms(1) by (rule res_map_length)
  have "qs ! i \<noteq> qs ! j" if "i < length qs" "j < length qs" "i \<noteq> j" for i j
  proof
    assume eq: "qs ! i = qs ! j"
    from that len have "quote (ns ! i) = Inr (qs ! i)" and "quote (ns ! j) = Inr (qs ! j)"
      using res_map_nth [OF assms(1)] by simp_all
    with eq have "ns ! i = ns ! j" by (auto intro: quote_inj)
    with that len assms(2) show False by (simp add: nth_eq_iff_index_eq)
  qed
  then show ?thesis by (simp add: distinct_conv_nth)
qed

end

definition delimiters :: "dialect \<Rightarrow> char set" where
  "delimiters d = (case d of Postgres \<Rightarrow> {CHR 0x22} | SQLite \<Rightarrow> {CHR 0x22} | MySQL \<Rightarrow> {CHR 0x60}
     | SQLServer \<Rightarrow> {CHR ''['', CHR '']''} | Generic \<Rightarrow> {})"

definition ident_alphabet :: "dialect \<Rightarrow> char set" where
  "ident_alphabet d = insert (CHR ''.'') (Collect ident_char \<union> delimiters d)"

lemma ident_start_char: "ident_start c \<Longrightarrow> ident_char c"
  by (auto simp: ident_start_def ident_char_def)

lemma ident_re_chars: "ident_re s \<Longrightarrow> c \<in> set s \<Longrightarrow> ident_char c"
  by (cases s) (auto simp: ident_re_def list_all_iff dest: ident_start_char)

lemma ident_re_nonempty: "ident_re s \<Longrightarrow> s \<noteq> []"
  by (auto simp: ident_re_def)

lemma validate_ident_None:
  "validate_ident n = None \<longleftrightarrow>
     length (split_on (CHR ''.'') n) \<le> 3 \<and> (\<forall>p\<in>set (split_on (CHR ''.'') n). ident_re p)"
  by (auto simp: validate_ident_def Let_def list_all_iff ident_re_def)

lemma not_ident_char [simp]:
  "\<not> ident_char (CHR ''.'')" "\<not> ident_char (CHR 0x22)" "\<not> ident_char (CHR 0x60)"
  "\<not> ident_char (CHR ''['')" "\<not> ident_char (CHR '']'')" "\<not> ident_char (CHR ''?'')"
  "\<not> ident_char (CHR ''$'')" "\<not> ident_char (CHR ''@'')" "\<not> ident_char (CHR 0x27)"
  "\<not> ident_char (CHR '';'')" "\<not> ident_char (CHR ''-'')" "\<not> ident_char (CHR ''/'')"
  "\<not> ident_char (CHR ''*'')" "\<not> ident_char (CHR '' '')" "\<not> ident_char (CHR ''('')"
  "\<not> ident_char (CHR '')'')" "\<not> ident_char (CHR '','')" "\<not> ident_char (CHR 0x5C)"
  by (simp_all add: ident_char_def is_letter_def is_digit_def)

lemma quote_part_no_dot:
  assumes "ident_re p"
  shows "CHR ''.'' \<notin> set (quote_part d p)"
proof -
  have "CHR ''.'' \<notin> set p" using assms ident_re_chars not_ident_char(1) by blast
  then show ?thesis by (cases d) (auto simp: quote_part_def)
qed

lemma quote_part_inj: "quote_part d p = quote_part d r \<Longrightarrow> p = r"
  by (cases d) (auto simp: quote_part_def)

lemma quote_part_nonempty: "ident_re p \<Longrightarrow> quote_part d p \<noteq> []"
  by (cases d) (auto simp: quote_part_def ident_re_def)

lemma quote_ident_Inr:
  "quote_ident d n = Inr q \<longleftrightarrow>
     validate_ident n = None \<and> q = join_with ''.'' (map (quote_part d) (split_on (CHR ''.'') n))"
  by (auto simp: quote_ident_def split: option.splits)

text \<open>The parts of a quoted name can be read back by splitting at the dots.\<close>

lemma split_quote_ident:
  assumes "quote_ident d n = Inr q"
  shows "split_on (CHR ''.'') q = map (quote_part d) (split_on (CHR ''.'') n)"
proof -
  from assms have parts: "\<forall>p\<in>set (split_on (CHR ''.'') n). ident_re p"
    and q: "q = join_with ''.'' (map (quote_part d) (split_on (CHR ''.'') n))"
    by (auto simp: quote_ident_Inr validate_ident_None)
  show ?thesis unfolding q using parts
    by (intro split_join) (auto simp: quote_part_no_dot)
qed

interpretation dialect_quote: quoting "quote_ident d" "ident_alphabet d" for d
proof unfold_locales
  show "set q \<subseteq> ident_alphabet d" if "quote_ident d n = Inr q" for n q
  proof -
    from that have parts: "\<forall>p\<in>set (split_on (CHR ''.'') n). ident_re p"
      and q: "q = join_with ''.'' (map (quote_part d) (split_on (CHR ''.'') n))"
      by (auto simp: quote_ident_Inr validate_ident_None)
    have "set (quote_part d p) \<subseteq> ident_alphabet d" if "ident_re p" for p
      using ident_re_chars [OF that]
      by (cases d) (auto simp: quote_part_def ident_alphabet_def delimiters_def)
    with parts show ?thesis unfolding q
      by (intro set_join_subset) (auto simp: ident_alphabet_def)
  qed
  show "quote_ident d n \<noteq> Inr []" for n
  proof
    assume "quote_ident d n = Inr []"
    from split_quote_ident [OF this]
    have "map (quote_part d) (split_on (CHR ''.'') n) = [[]]" by simp
    moreover have "\<forall>p\<in>set (split_on (CHR ''.'') n). ident_re p"
      using \<open>quote_ident d n = Inr []\<close> by (auto simp: quote_ident_Inr validate_ident_None)
    ultimately show False by (auto simp: map_eq_Cons_conv quote_part_nonempty)
  qed
  show "n = m" if "quote_ident d n = Inr q" and "quote_ident d m = Inr q" for n m q
  proof -
    from that have "map (quote_part d) (split_on (CHR ''.'') n) = map (quote_part d) (split_on (CHR ''.'') m)"
      by (metis split_quote_ident)
    then have "split_on (CHR ''.'') n = split_on (CHR ''.'') m"
      by (rule map_injective) (auto intro: injI quote_part_inj)
    then show ?thesis by (metis join_split)
  qed
qed

text \<open>Characters that could end an identifier or a statement, or start a comment or a literal.\<close>

definition sql_meta :: "char set" where
  "sql_meta = {CHR 0x27, CHR '';'', CHR ''-'', CHR ''/'', CHR ''*'', CHR 0x5C}"

lemma ident_alphabet_safe [simp]: "ident_alphabet d \<inter> sql_meta = {}"
  by (cases d) (auto simp: ident_alphabet_def delimiters_def sql_meta_def)

lemma mark_notin_ident [simp]: "ph_mark_of d \<notin> ident_alphabet d'"
  by (cases d; cases d') (auto simp: ident_alphabet_def delimiters_def ph_mark_of_def)

section \<open>Reading a quoted identifier back\<close>

text \<open>
  How a database reads a qualified name, written from the dialects' lexical rules and not from
  \<open>QuoteIdent\<close>: PostgreSQL and SQLite delimit an identifier with double quotes, MySQL with
  backticks, SQL Server with brackets; the generic dialect has bare identifiers only. A delimited
  identifier ends at the first closing delimiter that is not doubled; after it the name ends or a
  dot and the next part follow. Anything else is not a name.
\<close>

definition name_delims :: "dialect \<Rightarrow> (char \<times> char) option" where
  "name_delims d = (case d of
       Postgres \<Rightarrow> Some (CHR 0x22, CHR 0x22)
     | SQLite \<Rightarrow> Some (CHR 0x22, CHR 0x22)
     | MySQL \<Rightarrow> Some (CHR 0x60, CHR 0x60)
     | SQLServer \<Rightarrow> Some (CHR ''['', CHR '']'')
     | Generic \<Rightarrow> None)"

fun read_delimited :: "char \<Rightarrow> string \<Rightarrow> (string \<times> string) option" where
  "read_delimited c [] = None"
| "read_delimited c (x # s) =
     (if x \<noteq> c then map_option (apfst (Cons x)) (read_delimited c s)
      else case s of
          [] \<Rightarrow> Some ([], [])
        | y # t \<Rightarrow> if y = c then map_option (apfst (Cons c)) (read_delimited c t) else Some ([], s))"

definition read_part :: "dialect \<Rightarrow> string \<Rightarrow> (string \<times> string) option" where
  "read_part d s = (case name_delims d of
       Some (l, r) \<Rightarrow> (case s of x # t \<Rightarrow> if x = l then read_delimited r t else None | [] \<Rightarrow> None)
     | None \<Rightarrow> (case s of
           x # t \<Rightarrow> if ident_start x then Some (x # takeWhile ident_char t, dropWhile ident_char t) else None
         | [] \<Rightarrow> None))"

fun read_name :: "nat \<Rightarrow> dialect \<Rightarrow> string \<Rightarrow> string list option" where
  "read_name 0 d s = None"
| "read_name (Suc k) d s = (case read_part d s of
       None \<Rightarrow> None
     | Some (p, []) \<Rightarrow> Some [p]
     | Some (p, x # t) \<Rightarrow> if x = CHR ''.'' then map_option (Cons p) (read_name k d t) else None)"

text \<open>
  A name that needs no escaping in any dialect: one to three parts, each of 1 to 128 letters,
  digits and underscores and not starting with a digit.
\<close>

definition plain_part :: "string \<Rightarrow> bool" where
  "plain_part p \<longleftrightarrow> p \<noteq> [] \<and> length p \<le> 128 \<and> \<not> is_digit (hd p) \<and>
     (\<forall>c\<in>set p. is_letter c \<or> is_digit c \<or> c = CHR ''_'')"

definition plain_name :: "string list \<Rightarrow> bool" where
  "plain_name ps \<longleftrightarrow> ps \<noteq> [] \<and> length ps \<le> 3 \<and> (\<forall>p\<in>set ps. plain_part p)"

lemma not_letter_digit: "is_letter c \<Longrightarrow> \<not> is_digit c"
  by (auto simp: is_letter_def is_digit_def)

lemma plain_part_ident: "plain_part p \<longleftrightarrow> ident_re p"
  by (cases p) (auto simp: plain_part_def ident_re_def ident_start_def ident_char_def list_all_iff
      dest: not_letter_digit, simp add: is_digit_def)

lemma plain_name_valid: "validate_ident n = None \<longleftrightarrow> plain_name (split_on (CHR ''.'') n)"
  by (simp add: plain_name_def plain_part_ident validate_ident_None)

lemma plain_name_join:
  assumes "plain_name ps"
  shows "split_on (CHR ''.'') (join_with ''.'' ps) = ps"
  using assms ident_re_chars
  by (intro split_join) (force simp: plain_name_def plain_part_ident)+

lemma read_delimited_plain:
  "c \<notin> set p \<Longrightarrow> s = [] \<or> hd s \<noteq> c \<Longrightarrow> read_delimited c (p @ c # s) = Some (p, s)"
  by (induction p) (auto split: list.splits)

lemma takeWhile_dropWhile_all:
  "\<forall>c\<in>set p. P c \<Longrightarrow> s = [] \<or> \<not> P (hd s) \<Longrightarrow> takeWhile P (p @ s) = p \<and> dropWhile P (p @ s) = s"
  by (induction p) (cases s; auto)+

lemma read_quoted_part:
  assumes "ident_re p" and s: "s = [] \<or> hd s = CHR ''.''"
  shows "read_part d (quote_part d p @ s) = Some (p, s)"
proof (cases "name_delims d")
  case None
  then have d: "d = Generic" by (cases d) (auto simp: name_delims_def)
  obtain c cs where p: "p = c # cs" "ident_start c" "\<forall>c\<in>set cs. ident_char c"
    using assms(1) by (cases p) (auto simp: ident_re_def list_all_iff)
  from s have "s = [] \<or> \<not> ident_char (hd s)" by auto
  from takeWhile_dropWhile_all [OF p(3) this] show ?thesis
    by (simp add: read_part_def name_delims_def quote_part_def d p)
next
  case (Some lr)
  have no: "CHR 0x22 \<notin> set p" "CHR 0x60 \<notin> set p" "CHR '']'' \<notin> set p"
    using ident_re_chars [OF assms(1)] not_ident_char by blast+
  from s have h: "s = [] \<or> hd s \<noteq> CHR 0x22" "s = [] \<or> hd s \<noteq> CHR 0x60" "s = [] \<or> hd s \<noteq> CHR '']''"
    by auto
  show ?thesis
    using Some no h by (cases d) (auto simp: read_part_def name_delims_def quote_part_def read_delimited_plain)
qed

lemma read_quoted_name:
  "ps \<noteq> [] \<Longrightarrow> length ps \<le> k \<Longrightarrow> \<forall>p\<in>set ps. ident_re p \<Longrightarrow>
    read_name k d (join_with ''.'' (map (quote_part d) ps)) = Some ps"
proof (induction k arbitrary: ps)
  case (Suc k)
  then obtain p qs where ps: "ps = p # qs" by (cases ps) auto
  show ?case
  proof (cases qs)
    case Nil
    then show ?thesis using Suc.prems ps read_quoted_part [of p "[]" d] by simp
  next
    case (Cons q rs)
    then have "read_name k d (join_with ''.'' (map (quote_part d) qs)) = Some qs"
      using Suc ps by (intro Suc.IH) auto
    then show ?thesis
      using Suc.prems ps Cons
        read_quoted_part [of p "''.'' @ join_with ''.'' (map (quote_part d) qs)" d] by simp
  qed
qed simp

text \<open>
  (C1) Quoting is safe and loses nothing, in every dialect. \<open>QuoteIdent\<close> accepts exactly the
  names made of one to three dot-separated parts of at most 128 letters, digits and underscores
  that do not start with a digit, and reports every other name in its error. The text it returns
  is read by the dialect's own lexical rules, with the delimiters of that dialect (double quotes
  for PostgreSQL and SQLite, backticks for MySQL, brackets for SQL Server), as one complete name
  of exactly the parts given, and besides those delimiters it has only name characters and dots,
  so nothing in it can end the identifier early or start a comment or a literal.
\<close>

theorem quote_ident_roundtrip:
  "case quote_ident d n of
     Inl e \<Rightarrow> e = Invalid_identifier n \<and> (\<nexists>ps. plain_name ps \<and> n = join_with ''.'' ps)
   | Inr q \<Rightarrow> (\<exists>ps. plain_name ps \<and> n = join_with ''.'' ps \<and> read_name 3 d q = Some ps) \<and>
       set q \<subseteq> {c. is_letter c \<or> is_digit c \<or> c = CHR ''_'' \<or> c = CHR ''.'' \<or>
          (\<exists>l r. name_delims d = Some (l, r) \<and> (c = l \<or> c = r))}"
proof (cases "quote_ident d n")
  case (Inl e)
  then have bad: "validate_ident n = Some e"
    by (auto simp: quote_ident_def split: option.splits)
  have "e = Invalid_identifier n"
    using bad by (auto simp: validate_ident_def Let_def split: if_splits)
  moreover have "n \<noteq> join_with ''.'' ps" if "plain_name ps" for ps
    using bad plain_name_valid [of n] plain_name_join [OF that] that by auto
  ultimately show ?thesis using Inl by auto
next
  case (Inr q)
  let ?ps = "split_on (CHR ''.'') n"
  from Inr have ps: "plain_name ?ps" and q: "q = join_with ''.'' (map (quote_part d) ?ps)"
    by (auto simp: quote_ident_Inr plain_name_valid)
  have "read_name 3 d q = Some ?ps"
    using ps unfolding q by (intro read_quoted_name) (auto simp: plain_name_def plain_part_ident)
  moreover have "n = join_with ''.'' ?ps" by (simp add: join_split)
  moreover have "set q \<subseteq> ident_alphabet d" by (rule dialect_quote.quote_alphabet [OF Inr])
  then have "set q \<subseteq> {c. is_letter c \<or> is_digit c \<or> c = CHR ''_'' \<or> c = CHR ''.'' \<or>
      (\<exists>l r. name_delims d = Some (l, r) \<and> (c = l \<or> c = r))}"
    by (cases d) (auto simp: ident_alphabet_def delimiters_def ident_char_def name_delims_def)
  ultimately show ?thesis using Inr ps by auto
qed

text \<open>Both branches occur, here for a MySQL name of two parts and for an injection.\<close>

lemma quote_ident_roundtrip_witness:
  "(\<exists>ps. plain_name ps \<and> ''s.t'' = join_with ''.'' ps \<and> read_name 3 MySQL
      [CHR 0x60, CHR ''s'', CHR 0x60, CHR ''.'', CHR 0x60, CHR ''t'', CHR 0x60] = Some ps) \<and>
    (\<nexists>ps. plain_name ps \<and> ''t;x'' = join_with ''.'' ps)"
proof -
  have q: "quote_ident MySQL ''s.t'' =
      Inr [CHR 0x60, CHR ''s'', CHR 0x60, CHR ''.'', CHR 0x60, CHR ''t'', CHR 0x60]"
    and b: "quote_ident MySQL ''t;x'' = Inl (Invalid_identifier ''t;x'')" by code_simp+
  show ?thesis
    using quote_ident_roundtrip [where d = MySQL and n = "''s.t''"]
      quote_ident_roundtrip [where d = MySQL and n = "''t;x''"]
    unfolding q b by simp
qed

end
