(* ===== verification/Query_Builder.thy ===== *)
theory Query_Builder
  imports Sql_Frag
begin

text \<open>
  pkg/q/q.go: the WHERE-condition builder. A \<open>qnode\<close> has the fields of the struct \<open>Q\<close>: a nil
  slice is \<open>None\<close> and a nil \<open>*Q\<close> is \<open>None\<close>. \<open>build\<close> threads the builder's argument slice
  as the code does; \<open>q_frags\<close> is the specification, the condition as fragments, and the lemma
  \<open>build_frags\<close> says that the code's text and arguments are their rendering.
\<close>

section \<open>Operators and conditions\<close>

datatype op = OpEq | OpNe | OpGt | OpGte | OpLt | OpLte | OpIn | OpNotIn | OpLike | OpNotLike
  | OpIsNull | OpIsNotNull

fun op_text :: "op \<Rightarrow> string" where
  "op_text OpEq = ''=''"
| "op_text OpNe = ''!=''"
| "op_text OpGt = ''>''"
| "op_text OpGte = ''>=''"
| "op_text OpLt = ''<''"
| "op_text OpLte = ''<=''"
| "op_text OpIn = ''IN''"
| "op_text OpNotIn = ''NOT IN''"
| "op_text OpLike = ''LIKE''"
| "op_text OpNotLike = ''NOT LIKE''"
| "op_text OpIsNull = ''IS NULL''"
| "op_text OpIsNotNull = ''IS NOT NULL''"

definition allowed_ops :: "(string \<times> op) list" where
  "allowed_ops =
     [(''='', OpEq), (''!='', OpNe), (''<>'', OpNe), (''>'', OpGt), (''>='', OpGte), (''<'', OpLt),
      (''<='', OpLte), (''IN'', OpIn), (''NOT IN'', OpNotIn), (''LIKE'', OpLike),
      (''NOT LIKE'', OpNotLike), (''IS NULL'', OpIsNull), (''IS NOT NULL'', OpIsNotNull)]"

definition parse_op :: "string \<Rightarrow> op option" where
  "parse_op s = map_of allowed_ops (go_upper (join_with '' '' (str_fields s)))"

datatype q_error = Bad_field sql_error | Bad_op string

datatype qkind = KLeaf | KAnd | KOr | KNot

datatype qnode = Q (q_field: string) (q_op: string) (q_value: gval)
  (q_and: "qnode option list option") (q_or: "qnode option list option")
  (q_not: "qnode option") (q_kind: qkind)

definition q_leaf :: "op \<Rightarrow> string \<Rightarrow> gval \<Rightarrow> qnode" where
  "q_leaf oper field v = Q field (op_text oper) v None None None KLeaf"

definition q_is_null :: "string \<Rightarrow> qnode" where
  "q_is_null field = q_leaf OpIsNull field VNil"

definition q_is_not_null :: "string \<Rightarrow> qnode" where
  "q_is_not_null field = q_leaf OpIsNotNull field VNil"

definition q_in :: "string \<Rightarrow> gval \<Rightarrow> qnode" where
  "q_in field v = q_leaf OpIn field v"

definition q_not_in :: "string \<Rightarrow> gval \<Rightarrow> qnode" where
  "q_not_in field v = q_leaf OpNotIn field v"

definition q_where :: "string \<Rightarrow> string \<Rightarrow> gval \<Rightarrow> qnode" where
  "q_where field oper v =
     Q field (case parse_op oper of None \<Rightarrow> oper | Some x \<Rightarrow> op_text x) v None None None KLeaf"

text \<open>A variadic call with no arguments passes a nil slice.\<close>

definition varargs :: "'a list \<Rightarrow> 'a list option" where
  "varargs xs = (if xs = [] then None else Some xs)"

definition q_all :: "qnode option list \<Rightarrow> qnode" where
  "q_all qs = Q [] [] VNil (varargs qs) None None KAnd"

definition q_any :: "qnode option list \<Rightarrow> qnode" where
  "q_any qs = Q [] [] VNil None (varargs qs) None KOr"

definition q_neg :: "qnode option \<Rightarrow> qnode" where
  "q_neg q = Q [] [] VNil None None q KNot"

definition resolved_kind :: "qnode \<Rightarrow> qkind" where
  "resolved_kind q =
     (if q_kind q \<noteq> KLeaf then q_kind q
      else if q_and q \<noteq> None then KAnd
      else if q_or q \<noteq> None then KOr
      else if q_not q \<noteq> None then KNot
      else KLeaf)"

section \<open>The builder\<close>

text \<open>\<open>ph\<close>: append the value, return its placeholder.\<close>

definition q_ph :: "dialect \<Rightarrow> gval list \<Rightarrow> gval \<Rightarrow> string \<times> gval list" where
  "q_ph d args v = (let args' = args @ [v] in (placeholder d (length args'), args'))"

fun q_ph_all :: "dialect \<Rightarrow> gval list \<Rightarrow> gval list \<Rightarrow> string list \<times> gval list" where
  "q_ph_all d args [] = ([], args)"
| "q_ph_all d args (v # vs) =
     (let (p, args1) = q_ph d args v; (ps, args2) = q_ph_all d args1 vs in (p # ps, args2))"

fun expand :: "gval \<Rightarrow> gval list option" where
  "expand VNil = Some []"
| "expand (VList vs) = Some vs"
| "expand _ = None"

text \<open>What \<open>IN\<close> and \<open>NOT IN\<close> list: a value that is not a list counts as a list of one.\<close>

definition in_values :: "gval \<Rightarrow> gval list" where
  "in_values v = (case expand v of None \<Rightarrow> [v] | Some vs \<Rightarrow> vs)"

definition leaf :: "dialect \<Rightarrow> qnode \<Rightarrow> gval list \<Rightarrow> q_error + string \<times> gval list" where
  "leaf d q args =
     (case quote_ident d (q_field q) of Inl e \<Rightarrow> Inl (Bad_field e) | Inr field \<Rightarrow>
      (case parse_op (q_op q) of None \<Rightarrow> Inl (Bad_op (q_op q)) | Some oper \<Rightarrow>
       if oper = OpIsNull \<or> oper = OpIsNotNull then Inr (field @ '' '' @ op_text oper, args)
       else if oper = OpIn \<or> oper = OpNotIn then
         (let vals = in_values (q_value q) in
          if vals = [] then Inr (if oper = OpIn then ''1=0'' else ''1=1'', args)
          else (let (ps, args') = q_ph_all d args vals in
            Inr (field @ '' '' @ op_text oper @ '' ('' @ join_with '', '' ps @ '')'', args')))
       else if (oper = OpEq \<or> oper = OpNe) \<and> q_value q = VNil then
         Inr (field @ (if oper = OpEq then '' IS NULL'' else '' IS NOT NULL''), args)
       else (let (p, args') = q_ph d args (q_value q) in
         Inr (field @ '' '' @ op_text oper @ '' '' @ p, args'))))"

lemma size_sub_list [termination_simp]:
  "x \<in> set xs \<Longrightarrow> size_option size x < Suc (size_list (size_option size) xs)"
  by (induction xs) auto

function (sequential) build :: "dialect \<Rightarrow> qnode option \<Rightarrow> gval list \<Rightarrow> q_error + string \<times> gval list"
  and build_parts :: "dialect \<Rightarrow> qnode option list \<Rightarrow> gval list \<Rightarrow> q_error + string list \<times> gval list"
where
  "build d None args = Inr (''1=1'', args)"
| "build d (Some q) args = (case resolved_kind q of
       KAnd \<Rightarrow> res_bind (build_parts d (case q_and q of None \<Rightarrow> [] | Some l \<Rightarrow> l) args) (\<lambda>(parts, args').
         Inr (if parts = [] then ''1=1'' else join_with '' AND '' parts, args'))
     | KOr \<Rightarrow> res_bind (build_parts d (case q_or q of None \<Rightarrow> [] | Some l \<Rightarrow> l) args) (\<lambda>(parts, args').
         Inr (if parts = [] then ''1=0'' else join_with '' OR '' parts, args'))
     | KNot \<Rightarrow> res_bind (build d (q_not q) args) (\<lambda>(w, args').
         Inr (''NOT ('' @ w @ '')'', args'))
     | KLeaf \<Rightarrow> leaf d q args)"
| "build_parts d [] args = Inr ([], args)"
| "build_parts d (None # subs) args = build_parts d subs args"
| "build_parts d (Some sub # subs) args =
     res_bind (build d (Some sub) args) (\<lambda>(w, args').
       res_bind (build_parts d subs args') (\<lambda>(parts, args'').
         Inr ((''('' @ w @ '')'') # parts, args'')))"
  by pat_completeness auto
termination
proof (relation "measure (\<lambda>x. case x of
    Inl (d, q, args) \<Rightarrow> size_option size q
  | Inr (d, qs, args) \<Rightarrow> size_list (size_option size) qs)", goal_cases)
  case 1
  then show ?case by simp
next
  case (2 d q args)
  then show ?case by (cases q) (auto split: option.splits)
next
  case (3 d q args)
  then show ?case by (cases q) (auto split: option.splits)
next
  case (4 d q args)
  then show ?case by (cases q) (auto split: option.splits)
qed auto

definition q_build :: "dialect \<Rightarrow> qnode option \<Rightarrow> q_error + string \<times> gval list" where
  "q_build d q = build d q []"

definition q_to_sql :: "qnode option \<Rightarrow> q_error + string \<times> gval list" where
  "q_to_sql q = q_build Generic q"

section \<open>Specification: a condition as fragments\<close>

definition leaf_frags :: "dialect \<Rightarrow> qnode \<Rightarrow> q_error + frag list" where
  "leaf_frags d q =
     (case quote_ident d (q_field q) of Inl e \<Rightarrow> Inl (Bad_field e) | Inr field \<Rightarrow>
      (case parse_op (q_op q) of None \<Rightarrow> Inl (Bad_op (q_op q)) | Some oper \<Rightarrow>
       Inr (case oper of
           OpIsNull \<Rightarrow> [Txt (field @ '' IS NULL'')]
         | OpIsNotNull \<Rightarrow> [Txt (field @ '' IS NOT NULL'')]
         | _ \<Rightarrow>
           (if oper \<in> {OpIn, OpNotIn} then
              (let vals = in_values (q_value q) in
               if vals = [] then [Txt (if oper = OpIn then ''1=0'' else ''1=1'')]
               else Txt (field @ '' '' @ op_text oper @ '' ('') #
                 join_frags '', '' (map (\<lambda>v. [Arg v]) vals) @ [Txt '')''])
            else if oper \<in> {OpEq, OpNe} \<and> q_value q = VNil then
              [Txt (field @ (if oper = OpEq then '' IS NULL'' else '' IS NOT NULL''))]
            else [Txt (field @ '' '' @ op_text oper @ '' ''), Arg (q_value q)]))))"

lemma q_ph_all_eq:
  "q_ph_all d args vs =
     (render_list (placeholder d) (length args) (map (\<lambda>v. [Arg v]) vs), args @ vs)"
  by (induction vs arbitrary: args) (auto simp: q_ph_def Let_def split: prod.splits)

lemma leaf_refines_op:
  "quote_ident d (q_field q) = Inr field \<Longrightarrow> parse_op (q_op q) = Some oper \<Longrightarrow>
   leaf d q args = (case leaf_frags d q of Inl e \<Rightarrow> Inl e
     | Inr fs \<Rightarrow> Inr (render (placeholder d) (length args) fs, args @ frag_args fs))"
  by (induction oper)
     (simp_all add: leaf_def leaf_frags_def Let_def q_ph_def q_ph_all_eq join_render_list o_def)

lemma leaf_refines:
  "leaf d q args = (case leaf_frags d q of Inl e \<Rightarrow> Inl e
     | Inr fs \<Rightarrow> Inr (render (placeholder d) (length args) fs, args @ frag_args fs))"
proof (cases "quote_ident d (q_field q)")
  case (Inl e)
  then show ?thesis by (simp add: leaf_def leaf_frags_def)
next
  case field: (Inr field)
  show ?thesis
  proof (cases "parse_op (q_op q)")
    case None
    then show ?thesis by (simp add: leaf_def leaf_frags_def field)
  next
    case (Some oper)
    with field show ?thesis by (rule leaf_refines_op)
  qed
qed

function (sequential) q_frags :: "dialect \<Rightarrow> qnode option \<Rightarrow> q_error + frag list"
  and q_frags_parts :: "dialect \<Rightarrow> qnode option list \<Rightarrow> q_error + frag list list"
where
  "q_frags d None = Inr [Txt ''1=1'']"
| "q_frags d (Some q) = (case resolved_kind q of
       KAnd \<Rightarrow> res_bind (q_frags_parts d (case q_and q of None \<Rightarrow> [] | Some l \<Rightarrow> l)) (\<lambda>parts.
         Inr (if parts = [] then [Txt ''1=1''] else join_frags '' AND '' parts))
     | KOr \<Rightarrow> res_bind (q_frags_parts d (case q_or q of None \<Rightarrow> [] | Some l \<Rightarrow> l)) (\<lambda>parts.
         Inr (if parts = [] then [Txt ''1=0''] else join_frags '' OR '' parts))
     | KNot \<Rightarrow> res_bind (q_frags d (q_not q)) (\<lambda>w. Inr (Txt ''NOT ('' # w @ [Txt '')'']))
     | KLeaf \<Rightarrow> leaf_frags d q)"
| "q_frags_parts d [] = Inr []"
| "q_frags_parts d (None # subs) = q_frags_parts d subs"
| "q_frags_parts d (Some sub # subs) =
     res_bind (q_frags d (Some sub)) (\<lambda>w. res_bind (q_frags_parts d subs) (\<lambda>parts.
       Inr ((Txt ''('' # w @ [Txt '')'']) # parts)))"
  by pat_completeness auto
termination
proof (relation "measure (\<lambda>x. case x of
    Inl (d, q) \<Rightarrow> size_option size q
  | Inr (d, qs) \<Rightarrow> size_list (size_option size) qs)", goal_cases)
  case 1
  then show ?case by simp
next
  case (2 d q)
  then show ?case by (cases q) (auto split: option.splits)
next
  case (3 d q)
  then show ?case by (cases q) (auto split: option.splits)
next
  case (4 d q)
  then show ?case by (cases q) (auto split: option.splits)
qed auto

lemma build_frags:
  "build d qo args = (case q_frags d qo of Inl e \<Rightarrow> Inl e
     | Inr fs \<Rightarrow> Inr (render (placeholder d) (length args) fs, args @ frag_args fs))"
  "build_parts d qs args = (case q_frags_parts d qs of Inl e \<Rightarrow> Inl e
     | Inr fss \<Rightarrow> Inr (render_list (placeholder d) (length args) fss, args @ concat (map frag_args fss)))"
proof (induction d qo args and d qs args rule: build_build_parts.induct)
  case (1 d args)
  then show ?case by simp
next
  case (2 d q args)
  show ?case
  proof (cases "resolved_kind q")
    case KLeaf
    then show ?thesis by (simp add: leaf_refines)
  next
    case KAnd
    then show ?thesis
      by (cases "q_frags_parts d (case q_and q of None \<Rightarrow> [] | Some l \<Rightarrow> l)")
         (simp_all add: "2.IH"(1) join_render_list)
  next
    case KOr
    then show ?thesis
      by (cases "q_frags_parts d (case q_or q of None \<Rightarrow> [] | Some l \<Rightarrow> l)")
         (simp_all add: "2.IH"(2) join_render_list)
  next
    case KNot
    then show ?thesis
      by (cases "q_frags d (q_not q)") (simp_all add: "2.IH"(3))
  qed
next
  case (3 d args)
  then show ?case by simp
next
  case (4 d subs args)
  then show ?case by simp
next
  case (5 d sub subs args)
  show ?case
  proof (cases "q_frags d (Some sub)")
    case (Inl e)
    with "5.IH"(1) show ?thesis by (simp del: build.simps q_frags.simps)
  next
    case (Inr fs)
    with "5.IH" show ?thesis
      by (cases "q_frags_parts d subs") (simp_all del: build.simps(2) q_frags.simps(2))
  qed
qed

section \<open>Well-formedness of the generated condition\<close>

definition q_alphabet :: "dialect \<Rightarrow> char set" where
  "q_alphabet d = ident_alphabet d \<union> set '' =!<>(),''"

lemma ident_in_q_alphabet: "set q \<subseteq> ident_alphabet d \<Longrightarrow> set q \<subseteq> q_alphabet d"
  by (auto simp: q_alphabet_def)

lemma ident_char_in_alphabet: "ident_char c \<Longrightarrow> c \<in> ident_alphabet d"
  by (simp add: ident_alphabet_def)

lemma keyword_chars [simp]:
  "ident_char (CHR ''0'')" "ident_char (CHR ''1'')" "ident_char (CHR ''A'')" "ident_char (CHR ''D'')"
  "ident_char (CHR ''E'')" "ident_char (CHR ''I'')" "ident_char (CHR ''K'')" "ident_char (CHR ''L'')"
  "ident_char (CHR ''N'')" "ident_char (CHR ''O'')" "ident_char (CHR ''R'')" "ident_char (CHR ''S'')"
  "ident_char (CHR ''T'')" "ident_char (CHR ''U'')"
  by (simp_all add: ident_char_def is_letter_def is_digit_def)

lemma op_text_alphabet: "set (op_text oper) \<subseteq> q_alphabet d"
  by (cases oper) (auto simp: q_alphabet_def ident_char_in_alphabet)

lemma q_alphabet_chars [simp]:
  "CHR '' '' \<in> q_alphabet d" "CHR ''='' \<in> q_alphabet d" "CHR ''('' \<in> q_alphabet d"
  "CHR '')'' \<in> q_alphabet d" "CHR '','' \<in> q_alphabet d" "ident_char c \<Longrightarrow> c \<in> q_alphabet d"
  by (auto simp: q_alphabet_def ident_char_in_alphabet)

lemma placeholder_flat: "set (placeholder d n) \<inter> {CHR ''('', CHR '')''} = {}"
proof -
  have "set (placeholder d n) \<subseteq> insert (ph_mark_of d) ph_rest" by (rule dialect_ph.ph_alphabet)
  moreover have "insert (ph_mark_of d) ph_rest \<inter> {CHR ''('', CHR '')''} = {}"
    by (cases d) (auto simp: ph_mark_of_def ph_rest_def is_digit_def)
  ultimately show ?thesis by blast
qed

lemma ident_flat: "quote_ident d n = Inr q \<Longrightarrow> set q \<inter> {CHR ''('', CHR '')''} = {}"
proof -
  assume "quote_ident d n = Inr q"
  then have "set q \<subseteq> ident_alphabet d" by (rule dialect_quote.quote_alphabet)
  moreover have "ident_alphabet d \<inter> {CHR ''('', CHR '')''} = {}"
    by (cases d) (auto simp: ident_alphabet_def delimiters_def)
  ultimately show ?thesis by blast
qed

text \<open>A fragment list that may stand inside parentheses.\<close>

definition good_frags :: "dialect \<Rightarrow> frag list \<Rightarrow> bool" where
  "good_frags d fs \<longleftrightarrow> text_within (q_alphabet d) fs \<and> (\<forall>n. balanced (render (placeholder d) n fs))"

lemma good_flat_text:
  "set s \<subseteq> q_alphabet d \<Longrightarrow> set s \<inter> {CHR ''('', CHR '')''} = {} \<Longrightarrow> good_frags d [Txt s]"
  by (simp add: good_frags_def balanced_flat)

lemma good_arg: "good_frags d [Arg v]"
  using placeholder_flat by (simp add: good_frags_def balanced_flat)

lemma good_append: "good_frags d fs \<Longrightarrow> good_frags d gs \<Longrightarrow> good_frags d (fs @ gs)"
  by (auto simp: good_frags_def)

lemma good_parens:
  assumes "good_frags d fs" and "set s \<subseteq> q_alphabet d" and "set s \<inter> {CHR ''('', CHR '')''} = {}"
  shows "good_frags d (Txt (s @ ''('') # fs @ [Txt '')''])"
proof -
  have "balanced (s @ (CHR ''('' # render (placeholder d) n fs @ '')''))" for n
    by (rule balanced_append [OF balanced_flat balanced_parens])
       (use assms in \<open>auto simp: good_frags_def\<close>)
  with assms show ?thesis by (simp add: good_frags_def)
qed

lemma good_join:
  assumes "\<And>fs. fs \<in> set fss \<Longrightarrow> good_frags d fs" and "set sep \<subseteq> q_alphabet d"
    and "set sep \<inter> {CHR ''('', CHR '')''} = {}"
  shows "good_frags d (join_frags sep fss)"
proof -
  have "balanced w" if "w \<in> set (render_list (placeholder d) n fss)" for w n
    using that assms(1) by (induction fss arbitrary: n) (auto simp: good_frags_def)
  then have "balanced (render (placeholder d) n (join_frags sep fss))" for n
    unfolding join_render_list [symmetric] using assms(3)
    by (intro balanced_join) (auto intro: balanced_flat)
  with assms show ?thesis by (simp add: good_frags_def)
qed

lemma op_text_flat: "set (op_text oper) \<inter> {CHR ''('', CHR '')''} = {}"
  by (cases oper) auto

lemma leaf_frags_good:
  assumes "leaf_frags d q = Inr fs"
  shows "good_frags d fs"
proof -
  from assms obtain field oper where field: "quote_ident d (q_field q) = Inr field"
    and oper: "parse_op (q_op q) = Some oper"
    by (auto simp: leaf_frags_def split: sum.splits option.splits)
  have A: "set field \<subseteq> q_alphabet d"
    by (rule ident_in_q_alphabet [OF dialect_quote.quote_alphabet [OF field]])
  have F: "set field \<inter> {CHR ''('', CHR '')''} = {}" using field by (rule ident_flat)
  have head: "good_frags d [Txt (field @ '' '' @ op_text p @ '' '')]" for p
    using A F op_text_alphabet [of p d] op_text_flat [of p] by (intro good_flat_text) auto
  have nulls: "good_frags d [Txt (field @ '' IS NULL'')]" "good_frags d [Txt (field @ '' IS NOT NULL'')]"
    using A F by (auto intro!: good_flat_text)
  have truth: "good_frags d [Txt ''1=0'']" "good_frags d [Txt ''1=1'']"
    by (auto intro!: good_flat_text)
  have listed: "good_frags d (Txt ((field @ '' '' @ op_text p @ '' '') @ ''('') #
      join_frags '', '' (map (\<lambda>v. [Arg v]) vs) @ [Txt '')''])" for p vs
    using A F op_text_alphabet [of p d] op_text_flat [of p]
    by (intro good_parens good_join) (auto simp: good_arg)
  have single: "good_frags d [Txt (field @ '' '' @ op_text p @ '' ''), Arg v]" for p v
    using good_append [OF head [of p] good_arg [of d v]] by simp
  show ?thesis
    using assms nulls truth listed [of oper] single [of oper]
    by (auto simp: leaf_frags_def field oper Let_def split: op.splits if_splits)
qed

lemma q_frags_good:
  "q_frags d qo = Inr fs \<Longrightarrow> good_frags d fs"
  "q_frags_parts d qs = Inr fss \<Longrightarrow> gs \<in> set fss \<Longrightarrow> good_frags d gs"
proof (induction d qo and d qs arbitrary: fs and fss gs rule: q_frags_q_frags_parts.induct)
  case (1 d)
  then show ?case by (auto intro!: good_flat_text)
next
  case (2 d q)
  have lits: "good_frags d [Txt ''1=1'']" "good_frags d [Txt ''1=0'']" by (auto intro!: good_flat_text)
  show ?case
  proof (cases "resolved_kind q")
    case KLeaf
    with "2.prems" show ?thesis by (simp add: leaf_frags_good)
  next
    case KAnd
    with "2.prems" "2.IH"(1) lits show ?thesis by (auto split: if_splits intro!: good_join)
  next
    case KOr
    with "2.prems" "2.IH"(2) lits show ?thesis by (auto split: if_splits intro!: good_join)
  next
    case KNot
    with "2.prems" "2.IH"(3) show ?thesis using good_parens [of d _ "''NOT ''"] by auto
  qed
next
  case (5 d sub subs)
  then show ?case
    using good_parens [of d _ "''''"] by (auto simp del: q_frags.simps)
qed auto

section \<open>Values never reach the text\<close>

text \<open>
  A change of values that keeps what the builder may look at: whether a value is nil, whether
  it is a list, and the length of a list.
\<close>

definition keeps_form :: "(gval \<Rightarrow> gval) \<Rightarrow> bool" where
  "keeps_form f \<longleftrightarrow> (\<forall>v. f v = VNil \<longleftrightarrow> v = VNil)
     \<and> (\<forall>v. map_option length (expand (f v)) = map_option length (expand v))"

fun map_values :: "(gval \<Rightarrow> gval) \<Rightarrow> qnode \<Rightarrow> qnode" where
  "map_values f (Q field oper v qand qor qnot k) =
     Q field oper (f v) (map_option (map (map_option (map_values f))) qand)
       (map_option (map (map_option (map_values f))) qor) (map_option (map_values f) qnot) k"

lemma map_values_sel [simp]:
  "q_field (map_values f q) = q_field q"
  "q_op (map_values f q) = q_op q"
  "q_value (map_values f q) = f (q_value q)"
  "q_and (map_values f q) = map_option (map (map_option (map_values f))) (q_and q)"
  "q_or (map_values f q) = map_option (map (map_option (map_values f))) (q_or q)"
  "q_not (map_values f q) = map_option (map_values f) (q_not q)"
  "resolved_kind (map_values f q) = resolved_kind q"
  by (cases q; simp add: resolved_kind_def)+

lemma shape_args: "length vs = length ws \<Longrightarrow>
  frag_shape (join_frags sep (map (\<lambda>v. [Arg v]) vs)) = frag_shape (join_frags sep (map (\<lambda>v. [Arg v]) ws))"
  by (rule frag_shape_join) (induction vs ws rule: list_induct2, auto)

lemma keeps_form_vals:
  assumes "keeps_form f"
  shows "length (in_values (f v)) = length (in_values v)"
proof -
  from assms have "map_option length (expand (f v)) = map_option length (expand v)"
    by (simp add: keeps_form_def)
  then show ?thesis by (auto simp: in_values_def split: option.splits)
qed

lemma leaf_frags_shape:
  assumes "keeps_form f"
  shows "res_image frag_shape (leaf_frags d (map_values f q)) = res_image frag_shape (leaf_frags d q)"
proof (cases "quote_ident d (q_field q)")
  case (Inl e)
  then show ?thesis by (simp add: leaf_frags_def)
next
  case (Inr field)
  have null: "f (q_value q) = VNil \<longleftrightarrow> q_value q = VNil" using assms by (simp add: keeps_form_def)
  note vals = keeps_form_vals [OF assms, of "q_value q"]
  show ?thesis
  proof (cases "parse_op (q_op q)")
    case None
    with Inr show ?thesis by (simp add: leaf_frags_def)
  next
    case (Some oper)
    have empty: "in_values (f (q_value q)) = [] \<longleftrightarrow> in_values (q_value q) = []"
      using vals by (metis length_0_conv)
    have "parse_op (q_op q) = Some oper \<Longrightarrow> ?thesis"
      using Inr null empty shape_args [OF vals]
      by (induction oper) (simp_all add: leaf_frags_def Let_def)
    with Some show ?thesis by blast
  qed
qed

lemma case_map_option_list:
  "(case map_option (map g) x of None \<Rightarrow> [] | Some l \<Rightarrow> l) = map g (case x of None \<Rightarrow> [] | Some l \<Rightarrow> l)"
  by (cases x) auto

lemma q_frags_shape:
  assumes "keeps_form f"
  shows "res_image frag_shape (q_frags d (map_option (map_values f) qo)) =
      res_image frag_shape (q_frags d qo)"
    and "res_image (map frag_shape) (q_frags_parts d (map (map_option (map_values f)) qs)) =
      res_image (map frag_shape) (q_frags_parts d qs)"
proof (induction d qo and d qs rule: q_frags_q_frags_parts.induct)
  case (2 d q)
  have join: "res_image frag_shape (res_bind r (\<lambda>parts. Inr (if parts = [] then e else join_frags sep parts))) =
      res_image frag_shape (res_bind r' (\<lambda>parts. Inr (if parts = [] then e else join_frags sep parts)))"
    if "res_image (map frag_shape) r = res_image (map frag_shape) r'"
    for sep e and r r' :: "q_error + frag list list"
    using that by (cases r; cases r') (auto intro: frag_shape_join)
  show ?case
  proof (cases "resolved_kind q")
    case KLeaf
    then show ?thesis using leaf_frags_shape [OF assms, of d q] by simp
  next
    case KAnd
    show ?thesis
      using join [OF "2.IH"(1) [OF KAnd]] KAnd by (simp add: case_map_option_list del: case_map_option)
  next
    case KOr
    show ?thesis
      using join [OF "2.IH"(2) [OF KOr]] KOr by (simp add: case_map_option_list del: case_map_option)
  next
    case KNot
    with "2.IH"(3) show ?thesis
      by (cases "q_frags d (map_option (map_values f) (q_not q))"; cases "q_frags d (q_not q)") auto
  qed
next
  case (5 d sub subs)
  then show ?case
    by (cases "q_frags d (Some (map_values f sub))"; cases "q_frags d (Some sub)";
        cases "q_frags_parts d (map (map_option (map_values f)) subs)"; cases "q_frags_parts d subs")
       (auto simp del: q_frags.simps)
qed auto

section \<open>Properties\<close>

text \<open>
  (C2) The builder computes what the condition means as fragments: from any argument slice, the
  text is the rendering of the condition's fragments with the placeholders numbered on from
  that slice, the values are appended in the order of their placeholders, and the errors are
  those of the specification.
\<close>

theorem q_build_refines:
  "build d qo args = (case q_frags d qo of Inl e \<Rightarrow> Inl e
     | Inr fs \<Rightarrow> Inr (render (placeholder d) (length args) fs, args @ frag_args fs))"
  by (rule build_frags)

text \<open>
  (C3) No injection through the builder: whatever the field names, operators and values, a
  condition that \<open>Build\<close> returns has no quote, semicolon, comment or escape character, its
  parentheses are balanced, and it shows exactly one placeholder per bound value.
\<close>

theorem q_build_safe:
  assumes "q_build d qo = Inr (s, args)"
  shows "set s \<inter> sql_meta = {} \<and> balanced s \<and> count_list s (ph_mark_of d) = length args"
proof -
  from assms obtain fs where fs: "q_frags d qo = Inr fs" and s: "s = render (placeholder d) 0 fs"
    and args: "args = frag_args fs"
    by (auto simp: q_build_def build_frags(1) split: sum.splits)
  from q_frags_good(1) [OF fs] have tw: "text_within (q_alphabet d) fs" and bal: "balanced s"
    unfolding s by (auto simp: good_frags_def)
  have "ph_mark_of d \<notin> q_alphabet d"
    by (cases d) (auto simp: q_alphabet_def ident_alphabet_def delimiters_def ph_mark_of_def)
  with tw have "text_within (- {ph_mark_of d}) fs" by (auto intro: text_within_mono)
  then have marks: "count_list s (ph_mark_of d) = length args"
    unfolding s args by (rule dialect_ph.render_marks)
  have "set s \<subseteq> insert (ph_mark_of d) (ph_rest \<union> q_alphabet d)"
    unfolding s using tw by (rule dialect_ph.render_alphabet)
  moreover have "q_alphabet d \<inter> sql_meta = {}"
    using ident_alphabet_safe [of d] by (auto simp: q_alphabet_def sql_meta_def)
  moreover have "ph_mark_of d \<notin> sql_meta"
    by (cases d) (auto simp: ph_mark_of_def sql_meta_def)
  moreover have "ph_rest \<inter> sql_meta = {}"
    by (auto simp: ph_rest_def sql_meta_def is_digit_def)
  ultimately have "set s \<inter> sql_meta = {}" by blast
  with marks bal show ?thesis by blast
qed

lemma q_build_safe_witness:
  "count_list ''(a = ?) AND (b IN (?, ?))'' (CHR ''?'') = 3"
proof -
  have "q_build Generic (Some (q_all [Some (q_leaf OpEq ''a'' (VStr [CHR 0x27])),
      Some (q_in ''b'' (VList [VInt 1, VInt 2]))])) =
    Inr (''(a = ?) AND (b IN (?, ?))'', [VStr [CHR 0x27], VInt 1, VInt 2])"
    by code_simp
  from q_build_safe [OF this] show ?thesis by (simp add: ph_mark_of_def)
qed

text \<open>
  Values are bound, never written: replacing the values of a condition by any others of the
  same form (nil or not, list or not, as long a list) changes neither the text nor the number of
  arguments nor the error.
\<close>

theorem q_build_values_bound:
  assumes "keeps_form f"
  shows "res_image (\<lambda>(s, args). (s, length args)) (q_build d (map_option (map_values f) qo)) =
    res_image (\<lambda>(s, args). (s, length args)) (q_build d qo)"
proof -
  from q_frags_shape(1) [OF assms, of d qo] show ?thesis
    by (cases "q_frags d (map_option (map_values f) qo)"; cases "q_frags d qo")
       (auto simp: q_build_def build_frags(1) dest: render_shape frag_args_shape)
qed

text \<open>Every scalar replaced by one and the same string: an instance of \<open>keeps_form\<close>.\<close>

fun censor :: "gval \<Rightarrow> gval" where
  "censor VNil = VNil"
| "censor (VList vs) = VList (map (\<lambda>_. VStr []) vs)"
| "censor _ = VStr []"

lemma censor_keeps_form: "keeps_form censor"
proof -
  have "(censor v = VNil \<longleftrightarrow> v = VNil) \<and> map_option length (expand (censor v)) = map_option length (expand v)" for v
    by (cases v) auto
  then show ?thesis by (simp add: keeps_form_def)
qed

lemma q_build_values_bound_witness:
  "res_image fst (q_build Postgres (Some (q_leaf OpEq ''a'' (VStr ''x'')))) =
   res_image fst (q_build Postgres (Some (q_leaf OpEq ''a'' (VStr []))))"
proof -
  have "map_values censor (q_leaf OpEq ''a'' (VStr ''x'')) = q_leaf OpEq ''a'' (VStr [])"
    by (simp add: q_leaf_def)
  with q_build_values_bound [OF censor_keeps_form, of Postgres "Some (q_leaf OpEq ''a'' (VStr ''x''))"]
  show ?thesis
    by (cases "q_build Postgres (Some (q_leaf OpEq ''a'' (VStr ''x'')))";
        cases "q_build Postgres (Some (q_leaf OpEq ''a'' (VStr [])))") auto
qed

end
