(* ===== verification/Sql_Template.thy ===== *)
theory Sql_Template
  imports Sql_Frag
begin

text \<open>
  pkg/sqlutil/sqlutil.go: SQL templates. Go's template engine is represented by what it does with
  the loader's functions: running a template on its data is a \<open>tmpl\<close>, a program that emits text
  and calls the bind functions, going on with the text each call returns (so pipelines and
  conditions are covered). The functions themselves, the cache of parsed templates, the parser of
  named queries and the OUT-parameter helpers are translated; \<open>title\<close> is left out, since it maps
  letters beyond ASCII.
\<close>

section \<open>The bind functions\<close>

datatype tmpl_error =
    T_ident sql_error
  | T_empty_in
  | T_bind_only
  | T_idents_type
  | T_idents_elem
  | T_out_name string
  | T_alias string
  | T_path string
  | T_read string
  | T_parse string
  | T_no_query string
  | T_other string

definition t_ident :: "sql_error + 'a \<Rightarrow> tmpl_error + 'a" where
  "t_ident r = (case r of Inl e \<Rightarrow> Inl (T_ident e) | Inr x \<Rightarrow> Inr x)"

lemma t_ident_Inr [simp]: "t_ident r = Inr x \<longleftrightarrow> r = Inr x"
  by (cases r) (simp_all add: t_ident_def)

text \<open>\<open>binder.ph\<close> on one value and on a list of values.\<close>

definition b_ph :: "dialect \<Rightarrow> gval list \<Rightarrow> gval \<Rightarrow> string \<times> gval list" where
  "b_ph d args v = (placeholder d (length (args @ [v])), args @ [v])"

fun b_phs :: "dialect \<Rightarrow> gval list \<Rightarrow> gval list \<Rightarrow> string list \<times> gval list" where
  "b_phs d args [] = ([], args)"
| "b_phs d args (v # vs) =
     (let (p, args1) = b_ph d args v; (ps, args2) = b_phs d args1 vs in (p # ps, args2))"

definition b_in :: "dialect \<Rightarrow> gval list \<Rightarrow> gval \<Rightarrow> tmpl_error + string \<times> gval list" where
  "b_in d args v = (case expand_slice v of
       None \<Rightarrow> (let (p, args') = b_ph d args v in Inr (''('' @ p @ '')'', args'))
     | Some vals \<Rightarrow>
         if vals = [] then Inl T_empty_in
         else (let (ps, args') = b_phs d args vals in Inr (''('' @ join_with '', '' ps @ '')'', args')))"

text \<open>The values of a list filter: nil counts as no value, any other value that is no list as one.\<close>

definition list_values :: "gval \<Rightarrow> gval list" where
  "list_values v = (case expand_slice v of Some vs \<Rightarrow> vs | None \<Rightarrow> if v = VNil then [] else [v])"

definition b_in_list :: "dialect \<Rightarrow> gval list \<Rightarrow> string \<Rightarrow> gval \<Rightarrow> bool \<Rightarrow> tmpl_error + string \<times> gval list" where
  "b_in_list d args col v neg =
     res_bind (t_ident (quote_ident d col)) (\<lambda>qc.
     (let vals = list_values v in
      if vals = [] then Inr (if neg then ''1=1'' else ''1=0'', args)
      else if length vals = 1 then
        (let (p, args') = b_ph d args (hd vals) in
         Inr (qc @ (if neg then '' <> '' else '' = '') @ p, args'))
      else (let (ps, args') = b_phs d args vals in
         Inr (qc @ (if neg then '' NOT IN '' else '' IN '') @ ''('' @ join_with '', '' ps @ '')'', args'))))"

text \<open>\<open>sortedKeys\<close>: a map is an association list with distinct keys, in any order.\<close>

definition sorted_keys :: "(string \<times> gval) list \<Rightarrow> tmpl_error + string list" where
  "sorted_keys m = (case List.find (\<lambda>k. validate_ident k \<noteq> None) (map fst m) of
       Some k \<Rightarrow> Inl (T_ident (Invalid_identifier k))
     | None \<Rightarrow> Inr (sort (map fst m)))"

definition quote_or_empty :: "dialect \<Rightarrow> string \<Rightarrow> string" where
  "quote_or_empty d k = (case quote_ident d k of Inl e \<Rightarrow> [] | Inr q \<Rightarrow> q)"

definition map_value :: "(string \<times> gval) list \<Rightarrow> string \<Rightarrow> gval" where
  "map_value m k = (case map_of m k of None \<Rightarrow> VNil | Some v \<Rightarrow> v)"

definition b_set_list :: "dialect \<Rightarrow> gval list \<Rightarrow> (string \<times> gval) list \<Rightarrow> tmpl_error + string \<times> gval list" where
  "b_set_list d args m =
     res_bind (sorted_keys m) (\<lambda>keys.
     if keys = [] then Inr ([], args)
     else (let (ps, args') = b_phs d args (map (map_value m) keys) in
       Inr (''SET '' @ join_with '', '' (map2 (\<lambda>k p. quote_or_empty d k @ '' = '' @ p) keys ps), args')))"

datatype bcall =
    Param gval
  | In gval
  | InList string gval
  | NotInList string gval
  | SetList "(string \<times> gval) list"

fun bind_call :: "dialect \<Rightarrow> bcall \<Rightarrow> gval list \<Rightarrow> tmpl_error + string \<times> gval list" where
  "bind_call d (Param v) args = Inr (b_ph d args v)"
| "bind_call d (In v) args = b_in d args v"
| "bind_call d (InList col v) args = b_in_list d args col v False"
| "bind_call d (NotInList col v) args = b_in_list d args col v True"
| "bind_call d (SetList m) args = b_set_list d args m"

section \<open>Legacy mode\<close>

definition render_in_list :: "dialect \<Rightarrow> string \<Rightarrow> gval \<Rightarrow> bool \<Rightarrow> (nat \<Rightarrow> string) \<Rightarrow> tmpl_error + string \<times> nat" where
  "render_in_list d col v neg ph =
     res_bind (t_ident (quote_ident d col)) (\<lambda>qc.
     (let n = length (list_values v) in
      if n = 0 then Inr (if neg then ''1=1'' else ''1=0'', 0)
      else if n = 1 then Inr (qc @ (if neg then '' <> '' else '' = '') @ ph 1, 1)
      else Inr (qc @ (if neg then '' NOT IN '' else '' IN '') @ ''('' @
        join_with '','' (map (\<lambda>i. ph (Suc i)) [0..<n]) @ '')'', n)))"

definition render_set_list :: "dialect \<Rightarrow> (string \<times> gval) list \<Rightarrow> (nat \<Rightarrow> string) \<Rightarrow> tmpl_error + string \<times> nat" where
  "render_set_list d m ph =
     res_bind (sorted_keys m) (\<lambda>keys.
     if keys = [] then Inr ([], 0)
     else Inr (''SET '' @ join_with '', ''
       (map (\<lambda>(i, k). quote_or_empty d k @ ''='' @ ph (Suc i)) (enumerate 0 keys)), length keys))"

definition legacy_ph :: "nat \<Rightarrow> string" where
  "legacy_ph n = ''?''"

text \<open>The functions a template is parsed with; \<open>Load\<close> runs it with these.\<close>

fun legacy_call :: "dialect \<Rightarrow> bcall \<Rightarrow> tmpl_error + string" where
  "legacy_call d (Param v) = Inl T_bind_only"
| "legacy_call d (In v) = Inl T_bind_only"
| "legacy_call d (InList col v) = res_image fst (render_in_list d col v False legacy_ph)"
| "legacy_call d (NotInList col v) = res_image fst (render_in_list d col v True legacy_ph)"
| "legacy_call d (SetList m) = res_image fst (render_set_list d m legacy_ph)"

fun ident_list :: "gval \<Rightarrow> tmpl_error + string list" where
  "ident_list (VStr s) = Inr [s]"
| "ident_list (VList vs) = res_map (\<lambda>v. case v of VStr s \<Rightarrow> Inr s | _ \<Rightarrow> Inl T_idents_elem) vs"
| "ident_list _ = Inl T_idents_type"

definition quote_ident_list :: "dialect \<Rightarrow> gval \<Rightarrow> tmpl_error + string" where
  "quote_ident_list d names =
     res_bind (ident_list names) (\<lambda>list.
     res_bind (t_ident (quote_idents d list)) (\<lambda>q. Inr (join_with '', '' q)))"

definition where_join :: "string \<Rightarrow> string list \<Rightarrow> string" where
  "where_join sep parts =
     (let cleaned = filter (\<lambda>p. p \<noteq> []) (map trim_space parts) in
      if cleaned = [] then []
      else (let s = go_upper (trim_space sep); sep' = (if s = ''OR'' then ''OR'' else ''AND'') in
        ''WHERE '' @ join_with ('' '' @ sep' @ '' '') cleaned))"

fun dict :: "gval list \<Rightarrow> (string \<times> gval) list" where
  "dict (VStr k # v # kv) = (let m = dict kv in if k \<in> fst ` set m then m else (k, v) # m)"
| "dict (x # v # kv) = dict kv"
| "dict _ = []"

section \<open>SQL Server OUT parameters\<close>

definition out_name :: "string \<Rightarrow> tmpl_error + string" where
  "out_name name =
     (let n = trim_space name; bare = trim_prefix ''@'' n in
      if ident_re bare then Inr (''@'' @ bare) else Inl (T_out_name n))"

definition sp_out_decl :: "string \<Rightarrow> string \<Rightarrow> tmpl_error + string" where
  "sp_out_decl name typ =
     (if trim_space name = [] \<or> trim_space typ = [] then Inr []
      else res_bind (out_name name) (\<lambda>n.
        case validate_sql_type typ of Some e \<Rightarrow> Inl (T_ident e)
        | None \<Rightarrow> Inr (n @ '' '' @ trim_space typ @ '' OUTPUT'')))"

definition sp_out_val :: "string \<Rightarrow> tmpl_error + string" where
  "sp_out_val name = (if trim_space name = [] then Inr [] else out_name name)"

record out_param =
  op_name :: string
  op_type :: string
  op_alias :: string

text \<open>\<open>toString\<close>; \<open>fmt\<close> is what \<open>fmt.Sprintf\<close> prints for the other kinds of value.\<close>

fun to_string :: "(gval \<Rightarrow> string) \<Rightarrow> gval \<Rightarrow> string" where
  "to_string fmt VNil = []"
| "to_string fmt (VStr s) = s"
| "to_string fmt (VBytes s) = s"
| "to_string fmt v = trim_space (fmt v)"

text \<open>The maps of a list as OUT parameters; elements of other kinds are dropped here.\<close>

definition out_param_of :: "(gval \<Rightarrow> string) \<Rightarrow> (string \<times> gval) list \<Rightarrow> out_param" where
  "out_param_of fmt m = \<lparr>op_name = to_string fmt (map_value m ''name''),
     op_type = to_string fmt (map_value m ''type''), op_alias = to_string fmt (map_value m ''alias'')\<rparr>"

definition normalize_out_params :: "(gval \<Rightarrow> string) \<Rightarrow> gval \<Rightarrow> out_param list" where
  "normalize_out_params fmt v = (case v of
       VList vs \<Rightarrow> filter (\<lambda>p. trim_space (op_name p) \<noteq> [] \<and> trim_space (op_type p) \<noteq> [])
         (concat (map (\<lambda>e. case e of VMap m \<Rightarrow> [out_param_of fmt m] | _ \<Rightarrow> []) vs))
     | _ \<Rightarrow> [])"

definition sp_out_decls :: "(gval \<Rightarrow> string) \<Rightarrow> gval \<Rightarrow> tmpl_error + string" where
  "sp_out_decls fmt arr = res_bind (res_map (\<lambda>p. sp_out_decl (op_name p) (op_type p)) (normalize_out_params fmt arr))
     (\<lambda>parts. Inr (join_with '', '' parts))"

definition sp_out_vals :: "(gval \<Rightarrow> string) \<Rightarrow> gval \<Rightarrow> tmpl_error + string" where
  "sp_out_vals fmt arr =
     res_bind (res_map (\<lambda>p. res_bind (out_name (op_name p)) (\<lambda>n.
        (let a = trim_space (op_alias p); alias = (if a = [] then trim_prefix ''@'' n else a) in
         if ident_re alias then Inr (n @ '' AS '' @ alias) else Inl (T_alias alias))))
       (normalize_out_params fmt arr)) (\<lambda>parts. Inr (join_with '', '' parts))"

section \<open>Running templates\<close>

datatype tmpl = TDone | TFail string | TEmit string tmpl | TCall bcall "string \<Rightarrow> tmpl"

primrec run_bind :: "dialect \<Rightarrow> tmpl \<Rightarrow> string \<Rightarrow> gval list \<Rightarrow> tmpl_error + string \<times> gval list" where
  "run_bind d TDone out args = Inr (out, args)"
| "run_bind d (TFail e) out args = Inl (T_other e)"
| "run_bind d (TEmit s t) out args = run_bind d t (out @ s) args"
| "run_bind d (TCall c k) out args = (case bind_call d c args of
       Inl e \<Rightarrow> Inl e | Inr (s, args') \<Rightarrow> run_bind d (k s) out args')"

primrec run_legacy :: "dialect \<Rightarrow> tmpl \<Rightarrow> string \<Rightarrow> tmpl_error + string" where
  "run_legacy d TDone out = Inr out"
| "run_legacy d (TFail e) out = Inl (T_other e)"
| "run_legacy d (TEmit s t) out = run_legacy d t (out @ s)"
| "run_legacy d (TCall c k) out = (case legacy_call d c of
       Inl e \<Rightarrow> Inl e | Inr s \<Rightarrow> run_legacy d (k s) out)"

text \<open>\<open>execute\<close>: with a fresh binder, or in legacy mode without arguments.\<close>

definition execute :: "dialect \<Rightarrow> tmpl \<Rightarrow> bool \<Rightarrow> tmpl_error + string \<times> gval list" where
  "execute d t bound =
     (if bound then res_bind (run_bind d t [] []) (\<lambda>(s, args). Inr (trim_space s, args))
      else res_bind (run_legacy d t []) (\<lambda>s. Inr (trim_space s, [])))"

section \<open>Paths and named queries\<close>

text \<open>\<open>fs.ValidPath\<close> on UTF-8 text: the root, or slash-separated elements, none empty, \<open>.\<close> or \<open>..\<close>.\<close>

definition fs_valid_path :: "string \<Rightarrow> bool" where
  "fs_valid_path name \<longleftrightarrow> name = ''.'' \<or>
     list_all (\<lambda>e. e \<noteq> [] \<and> e \<noteq> ''.'' \<and> e \<noteq> ''..'') (split_on (CHR ''/'') name)"

definition check_path :: "string \<Rightarrow> tmpl_error option" where
  "check_path name =
     (if \<not> fs_valid_path name \<or> CHR 0x5C \<in> set name then Some (T_path name) else None)"

definition name_mark :: string where
  "name_mark = ''-- name:''"

text \<open>The state of the loop of \<open>parseNamedQueries\<close>: the queries, the current name and lines.\<close>

type_synonym nq_state = "(string \<Rightarrow> string option) \<times> string \<times> string list"

definition nq_flush :: "nq_state \<Rightarrow> nq_state" where
  "nq_flush st = (case st of (qs, name, lines) \<Rightarrow>
     (if name \<noteq> [] \<and> lines \<noteq> []
      then qs(name \<mapsto> trim_space (join_with [CHR 0x0A] lines)) else qs, [], []))"

definition nq_line :: "string \<Rightarrow> nq_state \<Rightarrow> nq_state" where
  "nq_line line st =
     (let t = trim_space line in
      if has_prefix name_mark t then
        (case nq_flush st of (qs, _, _) \<Rightarrow> (qs, trim_space (trim_prefix name_mark t), []))
      else (case st of (qs, name, lines) \<Rightarrow>
        if name \<noteq> [] then (qs, name, lines @ [line]) else st))"

definition parse_named_queries :: "string \<Rightarrow> string \<Rightarrow> string option" where
  "parse_named_queries content =
     fst (nq_flush (fold nq_line (split_on (CHR 0x0A) content) (Map.empty, [], [])))"

section \<open>The loader\<close>

text \<open>
  The loader reads files with \<open>read\<close> and parses them with \<open>parse\<close>; \<open>'t\<close> is a parsed template.
  Both caches are read under the lock, filled outside it and written under it if still absent.
\<close>

record 't loader =
  ld_cache :: "string \<Rightarrow> 't option"
  ld_named :: "string \<Rightarrow> (string \<Rightarrow> 't option) option"

definition new_loader :: "'t loader" where
  "new_loader = \<lparr>ld_cache = Map.empty, ld_named = Map.empty\<rparr>"

definition load_raw :: "(string \<Rightarrow> tmpl_error + string) \<Rightarrow> string \<Rightarrow> tmpl_error + string" where
  "load_raw read name = (case check_path name of Some e \<Rightarrow> Inl e | None \<Rightarrow> read name)"

definition parse_file :: "(string \<Rightarrow> tmpl_error + string) \<Rightarrow> (string \<Rightarrow> string \<Rightarrow> tmpl_error + 't)
    \<Rightarrow> string \<Rightarrow> tmpl_error + 't" where
  "parse_file read parse name = res_bind (read name) (parse name)"

text \<open>The second critical section of \<open>getOrParse\<close>.\<close>

definition cache_put :: "string \<Rightarrow> 't \<Rightarrow> 't loader \<Rightarrow> 't \<times> 't loader" where
  "cache_put name t l = (case ld_cache l name of
       Some existing \<Rightarrow> (existing, l)
     | None \<Rightarrow> (t, l\<lparr>ld_cache := (ld_cache l)(name \<mapsto> t)\<rparr>))"

definition get_or_parse :: "(string \<Rightarrow> tmpl_error + string) \<Rightarrow> (string \<Rightarrow> string \<Rightarrow> tmpl_error + 't)
    \<Rightarrow> string \<Rightarrow> 't loader \<Rightarrow> (tmpl_error + 't) \<times> 't loader" where
  "get_or_parse read parse name l = (case check_path name of Some e \<Rightarrow> (Inl e, l)
     | None \<Rightarrow> (case ld_cache l name of Some t \<Rightarrow> (Inr t, l)
       | None \<Rightarrow> (case parse_file read parse name of Inl e \<Rightarrow> (Inl e, l)
         | Inr t \<Rightarrow> (let (t', l') = cache_put name t l in (Inr t', l')))))"

text \<open>The templates of a file of named queries; \<open>names\<close> lists the queries it has.\<close>

definition parse_set :: "(string \<Rightarrow> string \<Rightarrow> tmpl_error + 't) \<Rightarrow> (string \<Rightarrow> string option) \<Rightarrow> string list
    \<Rightarrow> tmpl_error + (string \<Rightarrow> 't option)" where
  "parse_set parse queries names = res_fold (\<lambda>ts name. case queries name of
       None \<Rightarrow> Inr ts
     | Some q \<Rightarrow> res_bind (parse name q) (\<lambda>t. Inr (ts(name \<mapsto> t)))) Map.empty names"

text \<open>The names in order of appearance: what a range over the map visits, in some order.\<close>

definition query_names :: "string \<Rightarrow> string list" where
  "query_names content = remdups (map (\<lambda>line. trim_space (trim_prefix name_mark (trim_space line)))
     (filter (\<lambda>line. has_prefix name_mark (trim_space line)) (split_on (CHR 0x0A) content)))"

definition get_named :: "(string \<Rightarrow> tmpl_error + string) \<Rightarrow> (string \<Rightarrow> string \<Rightarrow> tmpl_error + 't)
    \<Rightarrow> string \<Rightarrow> string \<Rightarrow> 't loader \<Rightarrow> (tmpl_error + 't) \<times> 't loader" where
  "get_named read parse file query l =
     (let pick = (\<lambda>ts l'. (case ts query of None \<Rightarrow> Inl (T_no_query query) | Some t \<Rightarrow> Inr t, l')) in
      case check_path file of Some e \<Rightarrow> (Inl e, l)
      | None \<Rightarrow> (case ld_named l file of Some ts \<Rightarrow> pick ts l
        | None \<Rightarrow> (case res_bind (read file) (\<lambda>content.
              parse_set parse (parse_named_queries content) (query_names content)) of
            Inl e \<Rightarrow> (Inl e, l)
          | Inr ts \<Rightarrow> pick ts (l\<lparr>ld_named := (ld_named l)(file \<mapsto> ts)\<rparr>))))"

text \<open>\<open>Render\<close> and \<open>Load\<close>, \<open>run\<close> being the program a parsed template is on the data.\<close>

definition render_template :: "(string \<Rightarrow> tmpl_error + string) \<Rightarrow> (string \<Rightarrow> string \<Rightarrow> tmpl_error + 't)
    \<Rightarrow> ('t \<Rightarrow> tmpl) \<Rightarrow> dialect \<Rightarrow> bool \<Rightarrow> string \<Rightarrow> 't loader
    \<Rightarrow> (tmpl_error + string \<times> gval list) \<times> 't loader" where
  "render_template read parse run d bound name l = (case get_or_parse read parse name l of
       (Inl e, l') \<Rightarrow> (Inl e, l')
     | (Inr t, l') \<Rightarrow> (execute d (run t) bound, l'))"

definition render_named :: "(string \<Rightarrow> tmpl_error + string) \<Rightarrow> (string \<Rightarrow> string \<Rightarrow> tmpl_error + 't)
    \<Rightarrow> ('t \<Rightarrow> tmpl) \<Rightarrow> dialect \<Rightarrow> bool \<Rightarrow> string \<Rightarrow> string \<Rightarrow> 't loader
    \<Rightarrow> (tmpl_error + string \<times> gval list) \<times> 't loader" where
  "render_named read parse run d bound file query l = (case get_named read parse file query l of
       (Inl e, l') \<Rightarrow> (Inl e, l')
     | (Inr t, l') \<Rightarrow> (execute d (run t) bound, l'))"

section \<open>What the bind functions promise\<close>

text \<open>Each call as fragments: the specification of what it returns and binds.\<close>

fun arg_frags :: "gval list \<Rightarrow> frag list" where
  "arg_frags vs = join_frags '', '' (map (\<lambda>v. [Arg v]) vs)"

definition filter_frags :: "dialect \<Rightarrow> string \<Rightarrow> gval \<Rightarrow> bool \<Rightarrow> tmpl_error + frag list" where
  "filter_frags d col v neg =
     res_bind (t_ident (quote_ident d col)) (\<lambda>qc. Inr (case list_values v of
         [] \<Rightarrow> [Txt (if neg then ''1=1'' else ''1=0'')]
       | [x] \<Rightarrow> [Txt (qc @ (if neg then '' <> '' else '' = '')), Arg x]
       | vs \<Rightarrow> Txt (qc @ (if neg then '' NOT IN '' else '' IN '') @ ''('') # arg_frags vs @ [Txt '')'']))"

fun call_frags :: "dialect \<Rightarrow> bcall \<Rightarrow> tmpl_error + frag list" where
  "call_frags d (Param v) = Inr [Arg v]"
| "call_frags d (In v) = (case expand_slice v of None \<Rightarrow> Inr [Txt ''('', Arg v, Txt '')'']
     | Some vs \<Rightarrow> if vs = [] then Inl T_empty_in else Inr (Txt ''('' # arg_frags vs @ [Txt '')'']))"
| "call_frags d (InList col v) = filter_frags d col v False"
| "call_frags d (NotInList col v) = filter_frags d col v True"
| "call_frags d (SetList m) = res_bind (sorted_keys m) (\<lambda>keys. Inr (if keys = [] then []
     else Txt ''SET '' # join_frags '', ''
       (map (\<lambda>k. [Txt (quote_or_empty d k @ '' = ''), Arg (map_value m k)]) keys)))"

lemma b_phs_eq: "b_phs d args vs =
    (render_list (placeholder d) (length args) (map (\<lambda>v. [Arg v]) vs), args @ vs)"
  by (induction vs arbitrary: args) (auto simp: b_ph_def Let_def split: prod.splits)

lemma render_list_pairs:
  "map2 (\<lambda>k p. f k @ p) ks (render_list ph n (map (\<lambda>k. [Arg (g k)]) ks))
    = render_list ph n (map (\<lambda>k. [Txt (f k), Arg (g k)]) ks)"
  by (induction ks arbitrary: n) auto

lemma frag_args_arg_frags [simp]: "frag_args (arg_frags vs) = vs"
  by (simp add: o_def)

lemma b_in_list_frags:
  "b_in_list d args col v neg = (case filter_frags d col v neg of Inl e \<Rightarrow> Inl e
     | Inr fs \<Rightarrow> Inr (render (placeholder d) (length args) fs, args @ frag_args fs))"
proof (cases "quote_ident d col")
  case (Inl e)
  then show ?thesis by (simp add: b_in_list_def filter_frags_def t_ident_def)
next
  case (Inr qc)
  have eq: "t_ident (quote_ident d col) = Inr qc" using Inr by simp
  consider "list_values v = []" | x where "list_values v = [x]" | x y zs where "list_values v = x # y # zs"
    by (metis list.exhaust)
  then show ?thesis
  proof cases
    case 3
    have "join_with '', '' (fst (b_phs d args (x # y # zs)))
        = render (placeholder d) (length args) (arg_frags (x # y # zs))"
      unfolding b_phs_eq fst_conv arg_frags.simps by (rule join_render_list)
    then show ?thesis
      by (simp add: b_in_list_def filter_frags_def eq 3 Let_def b_phs_eq o_def
          del: arg_frags.simps join_with.simps render_list.simps list.map b_phs.simps)
  qed (simp_all add: b_in_list_def filter_frags_def eq b_ph_def Let_def)
qed

lemma bind_call_frags:
  "bind_call d c args = (case call_frags d c of Inl e \<Rightarrow> Inl e
     | Inr fs \<Rightarrow> Inr (render (placeholder d) (length args) fs, args @ frag_args fs))"
proof (cases c)
  case (Param v)
  then show ?thesis by (simp add: b_ph_def)
next
  case (In v)
  then show ?thesis
    by (simp add: b_in_def b_ph_def b_phs_eq join_render_list o_def Let_def split: option.splits)
next
  case (SetList m)
  have "map2 (\<lambda>k p. quote_or_empty d k @ '' = '' @ p) ks (render_list (placeholder d) n (map (\<lambda>k. [Arg (map_value m k)]) ks))
      = render_list (placeholder d) n (map (\<lambda>k. [Txt (quote_or_empty d k @ '' = ''), Arg (map_value m k)]) ks)" for ks n
    using render_list_pairs [of "\<lambda>k. quote_or_empty d k @ '' = ''"] by simp
  then show ?thesis
    by (cases "sorted_keys m")
       (simp_all add: SetList b_set_list_def b_phs_eq join_render_list o_def comp_def Let_def)
next
  case (InList col v)
  then show ?thesis by (simp add: b_in_list_frags)
next
  case (NotInList col v)
  then show ?thesis by (simp add: b_in_list_frags)
qed

section \<open>Rendering\<close>

text \<open>Calls of the same form: values may differ, as long as lists keep their length.\<close>

fun same_value :: "gval \<Rightarrow> gval \<Rightarrow> bool" where
  "same_value v w = (case (expand_slice v, expand_slice w) of
       (None, None) \<Rightarrow> v = VNil \<longleftrightarrow> w = VNil
     | (Some vs, Some ws) \<Rightarrow> length vs = length ws
     | _ \<Rightarrow> False)"

fun same_call :: "bcall \<Rightarrow> bcall \<Rightarrow> bool" where
  "same_call (Param v) (Param w) = True"
| "same_call (In v) (In w) = same_value v w"
| "same_call (InList c v) (InList c' w) = (c = c' \<and> same_value v w)"
| "same_call (NotInList c v) (NotInList c' w) = (c = c' \<and> same_value v w)"
| "same_call (SetList m) (SetList m') = (map fst m = map fst m')"
| "same_call _ _ = False"

text \<open>Two runs of a template that differ in bound values only: the text they emit and the calls
  they make are the same up to values, whatever text the calls return.\<close>

inductive same_run :: "tmpl \<Rightarrow> tmpl \<Rightarrow> bool" where
  same_done: "same_run TDone TDone"
| same_fail: "same_run (TFail e) (TFail e)"
| same_emit: "same_run t u \<Longrightarrow> same_run (TEmit s t) (TEmit s u)"
| same_call: "same_call c c' \<Longrightarrow> (\<And>s. same_run (k s) (k' s)) \<Longrightarrow> same_run (TCall c k) (TCall c' k')"

inductive_simps same_run_simps [simp]:
  "same_run TDone u" "same_run (TFail e) u" "same_run (TEmit s t) u" "same_run (TCall c k) u"

lemma list_values_same: "same_value v w \<Longrightarrow> length (list_values v) = length (list_values w)"
  by (auto simp: list_values_def split: option.splits)

lemma arg_frags_shape: "length vs = length ws \<Longrightarrow> frag_shape (arg_frags vs) = frag_shape (arg_frags ws)"
  unfolding arg_frags.simps by (rule frag_shape_join) (induction vs ws rule: list_induct2; simp)

lemma filter_frags_same:
  assumes "same_value v w"
  shows "res_image frag_shape (filter_frags d col v neg) = res_image frag_shape (filter_frags d col w neg)"
proof (cases "quote_ident d col")
  case (Inl e)
  then show ?thesis by (simp add: filter_frags_def t_ident_def)
next
  case (Inr qc)
  have eq: "t_ident (quote_ident d col) = Inr qc" using Inr by simp
  have len: "length (list_values v) = length (list_values w)" by (rule list_values_same [OF assms])
  consider "list_values v = []" | x where "list_values v = [x]" | x y zs where "list_values v = x # y # zs"
    by (metis list.exhaust)
  then show ?thesis
  proof cases
    case 1
    with len show ?thesis by (simp add: filter_frags_def eq)
  next
    case 2
    with len obtain x' where "list_values w = [x']" by (cases "list_values w") auto
    with 2 show ?thesis by (simp add: filter_frags_def eq)
  next
    case 3
    with len obtain x' y' zs' where w: "list_values w = x' # y' # zs'" "length zs' = length zs"
      by (auto simp: length_Suc_conv Suc_length_conv)
    then show ?thesis
      using arg_frags_shape [of "x # y # zs" "x' # y' # zs'"]
      by (simp add: filter_frags_def eq 3 del: arg_frags.simps)
  qed
qed

lemma call_frags_same:
  "same_call c c' \<Longrightarrow> res_image frag_shape (call_frags d c) = res_image frag_shape (call_frags d c')"
proof (induction c c' rule: same_call.induct)
  case (2 v w)
  show ?case
  proof (cases "expand_slice v")
    case None
    with 2 have "expand_slice w = None" by (auto split: option.splits)
    with None show ?thesis by simp
  next
    case (Some vs)
    with 2 obtain ws where "expand_slice w = Some ws" "length vs = length ws"
      by (auto split: option.splits)
    with Some show ?thesis using arg_frags_shape [of vs ws] by (auto simp del: arg_frags.simps)
  qed
next
  case (5 m m')
  then have "map fst m = map fst m'" by simp
  then have keys: "sorted_keys m = sorted_keys m'" unfolding sorted_keys_def by (rule arg_cong)
  have "frag_shape (join_frags '', '' (map (\<lambda>k. [Txt (quote_or_empty d k @ '' = ''), Arg (map_value m k)]) ks))
      = frag_shape (join_frags '', '' (map (\<lambda>k. [Txt (quote_or_empty d k @ '' = ''), Arg (map_value m' k)]) ks))" for ks
    by (rule frag_shape_join) simp
  then show ?case by (cases "sorted_keys m'") (simp_all add: keys)
qed (auto simp: filter_frags_same)

lemma run_bind_same:
  "same_run t u \<Longrightarrow> length as = length bs \<Longrightarrow>
    rel_sum (=) (rel_prod (=) (\<lambda>a b. length a = length b)) (run_bind d t out as) (run_bind d u out bs)"
proof (induction arbitrary: out as bs rule: same_run.induct)
  case (same_call c c' k k')
  note shape = call_frags_same [OF same_call.hyps(1), of d]
  show ?case
  proof (cases "call_frags d c")
    case (Inl e)
    with shape have "call_frags d c' = Inl e" by (cases "call_frags d c'") auto
    with Inl show ?thesis by (simp add: bind_call_frags)
  next
    case (Inr fs)
    with shape obtain gs where gs: "call_frags d c' = Inr gs" "frag_shape fs = frag_shape gs"
      by (cases "call_frags d c'") auto
    have "render (placeholder d) (length as) fs = render (placeholder d) (length bs) gs"
      using render_shape [OF gs(2)] same_call.prems by simp
    moreover have "length (as @ frag_args fs) = length (bs @ frag_args gs)"
      using frag_args_shape [OF gs(2)] same_call.prems by simp
    ultimately show ?thesis
      using same_call.IH Inr gs(1) by (simp add: bind_call_frags)
  qed
qed auto

text \<open>
  (C14) Bound values never reach the text: two runs of a template whose calls of the bind functions
  differ in the bound values only (lists keeping their length) fail alike or give the same SQL
  text with the same number of arguments, whatever the values are.
\<close>

theorem render_values_bound:
  assumes "same_run t u"
  shows "rel_sum (=) (rel_prod (=) (\<lambda>a b. length a = length b)) (execute d t True) (execute d u True)"
  using run_bind_same [OF assms, of "[]" "[]" d "[]"]
  by (cases "run_bind d t [] []"; cases "run_bind d u [] []") (auto simp: execute_def)

text \<open>A template: \<open>SELECT * FROM t WHERE {{ inList "id" .ids }} AND n = {{ param .n }}\<close>.\<close>

definition demo_tmpl :: "gval \<Rightarrow> gval \<Rightarrow> tmpl" where
  "demo_tmpl ids n = TEmit ''SELECT * FROM t WHERE '' (TCall (InList ''id'' ids)
     (\<lambda>s. TEmit s (TEmit '' AND n = '' (TCall (Param n) (\<lambda>s. TEmit s TDone)))))"

lemma render_values_bound_witness:
  "rel_sum (=) (rel_prod (=) (\<lambda>a b. length a = length b))
    (execute Postgres (demo_tmpl (VList [VInt 1, VInt 2]) (VStr ''x'')) True)
    (execute Postgres (demo_tmpl (VList [VStr ''1) OR (1=1'', VNil]) (VStr ''; DROP TABLE t'')) True)"
  by (rule render_values_bound) (simp add: demo_tmpl_def)

text \<open>A template whose text goes straight to the output, in the order of the calls.\<close>

datatype piece = Lit string | Bind bcall

fun of_pieces :: "piece list \<Rightarrow> tmpl" where
  "of_pieces [] = TDone"
| "of_pieces (Lit s # ps) = TEmit s (of_pieces ps)"
| "of_pieces (Bind c # ps) = TCall c (\<lambda>s. TEmit s (of_pieces ps))"

fun pieces_frags :: "dialect \<Rightarrow> piece list \<Rightarrow> tmpl_error + frag list" where
  "pieces_frags d [] = Inr []"
| "pieces_frags d (Lit s # ps) = res_image (\<lambda>fs. Txt s # fs) (pieces_frags d ps)"
| "pieces_frags d (Bind c # ps) = res_bind (call_frags d c) (\<lambda>fs.
     res_image (\<lambda>gs. fs @ gs) (pieces_frags d ps))"

lemma run_bind_pieces:
  "run_bind d (of_pieces ps) out args = res_image
    (\<lambda>fs. (out @ render (placeholder d) (length args) fs, args @ frag_args fs)) (pieces_frags d ps)"
proof (induction ps arbitrary: out args)
  case Nil
  then show ?case by simp
next
  case (Cons p ps)
  show ?case
  proof (cases p)
    case (Lit s)
    then show ?thesis by (cases "pieces_frags d ps") (simp_all add: Cons)
  next
    case (Bind c)
    then show ?thesis
      by (cases "call_frags d c"; cases "pieces_frags d ps") (simp_all add: Cons bind_call_frags)
  qed
qed

text \<open>
  Rendering refines its specification: for a template that writes what its calls return in
  place, \<open>Render\<close> gives the text with the placeholders of all calls numbered through and exactly
  the bound values in that order, trimmed; errors included.
\<close>

theorem render_refines:
  "execute d (of_pieces ps) True = res_image
    (\<lambda>fs. (trim_space (render (placeholder d) 0 fs), frag_args fs)) (pieces_frags d ps)"
  by (cases "pieces_frags d ps") (simp_all add: execute_def run_bind_pieces)

section \<open>Named queries\<close>

lemma ident_char_not_space:
  assumes "ident_char c"
  shows "c \<notin> hd ` set space_runes" and "c \<notin> last ` set space_runes"
  using assms by (auto simp: space_runes_def ident_char_def is_letter_def is_digit_def)

definition query_block :: "string \<times> string list \<Rightarrow> string list" where
  "query_block q = (name_mark @ '' '' @ fst q) # snd q"

definition good_query :: "string \<times> string list \<Rightarrow> bool" where
  "good_query q \<longleftrightarrow> fst q \<noteq> [] \<and> list_all ident_char (fst q) \<and> snd q \<noteq> [] \<and>
     list_all (\<lambda>l. CHR 0x0A \<notin> set l \<and> \<not> has_prefix name_mark (trim_space l)) (snd q)"

lemma name_line:
  assumes "n \<noteq> []" and "list_all ident_char n"
  shows "trim_space (name_mark @ '' '' @ n) = name_mark @ '' '' @ n"
    and "trim_space (trim_prefix name_mark (name_mark @ '' '' @ n)) = n"
proof -
  have l: "ident_char (last n)" "ident_char (hd n)" using assms by (simp_all add: list_all_iff)
  show "trim_space (name_mark @ '' '' @ n) = name_mark @ '' '' @ n"
    by (rule trim_space_id)
       (use ident_char_not_space [OF l(1)] assms(1) in \<open>auto simp: name_mark_def space_runes_def\<close>)
  have "trim_space n = n"
    by (rule trim_space_id) (use ident_char_not_space l assms(1) in auto)
  then show "trim_space (trim_prefix name_mark (name_mark @ '' '' @ n)) = n"
    by (simp add: trim_prefix_def has_prefix_def trim_space_blank)
qed

lemma fold_lines:
  "n \<noteq> [] \<Longrightarrow> list_all (\<lambda>l. \<not> has_prefix name_mark (trim_space l)) ls \<Longrightarrow>
    fold nq_line ls (qs, n, acc) = (qs, n, acc @ ls)"
  by (induction ls arbitrary: acc) (simp_all add: nq_line_def Let_def)

lemma fold_block:
  assumes "good_query q"
  shows "fold nq_line (query_block q) st = (fst (nq_flush st), fst q, snd q)"
proof -
  have g: "fst q \<noteq> []" "list_all ident_char (fst q)"
    "list_all (\<lambda>l. \<not> has_prefix name_mark (trim_space l)) (snd q)"
    using assms by (auto simp: good_query_def list_all_iff)
  have "nq_line (name_mark @ '' '' @ fst q) st = (fst (nq_flush st), fst q, [])"
    using name_line [OF g(1,2)]
    by (simp add: nq_line_def Let_def has_prefix_def split: prod.splits)
  then show ?thesis using fold_lines [OF g(1,3), of "fst (nq_flush st)" "[]"]
    by (simp add: query_block_def)
qed

definition query_entry :: "string \<times> string list \<Rightarrow> string \<times> string" where
  "query_entry q = (fst q, trim_space (join_with [CHR 0x0A] (snd q)))"

lemma nq_flush_triple: "nq_flush (qs, n, ls) =
    (if n \<noteq> [] \<and> ls \<noteq> [] then qs(n \<mapsto> trim_space (join_with [CHR 0x0A] ls)) else qs, [], [])"
  by (simp add: nq_flush_def)

lemma fold_blocks:
  "list_all good_query qs \<Longrightarrow> fst (nq_flush (fold nq_line (concat (map query_block qs)) st))
    = fst (nq_flush st) ++ map_of (rev (map query_entry qs))"
proof (induction qs arbitrary: st)
  case Nil
  then show ?case by simp
next
  case (Cons q qs)
  then have g: "good_query q" by simp
  have "fst (nq_flush (fst (nq_flush st), fst q, snd q)) = (fst (nq_flush st))(fst q \<mapsto> snd (query_entry q))"
    using g by (cases q) (simp add: nq_flush_triple good_query_def query_entry_def)
  then show ?case
    using Cons.IH [of "(fst (nq_flush st), fst q, snd q)"] Cons.prems
    by (simp add: fold_block [OF g] map_add_upd_left query_entry_def map_add_def fun_eq_iff
        split: option.splits)
qed

text \<open>
  Reading back a file of named queries: for blocks of a \<open>-- name:\<close> line and a body, with
  distinct names and no body line that looks like a name line, the parser returns exactly the
  queries that were written, each body trimmed.
\<close>

theorem named_queries_roundtrip:
  assumes "list_all good_query qs" and "distinct (map fst qs)"
  shows "parse_named_queries (join_with [CHR 0x0A] (concat (map query_block qs))) = map_of (map query_entry qs)"
proof (cases "qs = []")
  case True
  then show ?thesis
    by (simp add: parse_named_queries_def nq_line_def nq_flush_def Let_def name_mark_def has_prefix_def
        trim_space_def trim_left.simps [of "[]"] trim_right.simps [of "[]"])
next
  case False
  have no_nl: "CHR 0x0A \<notin> set l" if "l \<in> set (query_block q)" "good_query q" for l q
  proof -
    have "\<not> ident_char (CHR 0x0A)" by (simp add: ident_char_def is_letter_def is_digit_def)
    then have "CHR 0x0A \<notin> set (fst q)" using that(2) by (auto simp: good_query_def list_all_iff)
    with that show ?thesis by (auto simp: query_block_def good_query_def name_mark_def list_all_iff)
  qed
  have ne: "concat (map query_block qs) \<noteq> []" using False by (cases qs) (auto simp: query_block_def)
  have lines: "split_on (CHR 0x0A) (join_with [CHR 0x0A] (concat (map query_block qs))) = concat (map query_block qs)"
    by (rule split_join [OF ne]) (use assms(1) no_nl in \<open>auto simp: list_all_iff\<close>)
  have "map_of (rev (map query_entry qs)) = map_of (map query_entry qs)"
    using assms(2) by (intro map_of_inject_set [THEN iffD2]) (auto simp: query_entry_def o_def simp flip: rev_map)
  then show ?thesis
    unfolding parse_named_queries_def lines fold_blocks [OF assms(1)] by (simp add: nq_flush_def)
qed

lemma named_queries_roundtrip_witness:
  "parse_named_queries (join_with [CHR 0x0A] [''-- name: one'', ''SELECT 1'', ''-- name: two'', '' SELECT'', ''2 ''])
    = map_of [(''one'', ''SELECT 1''), (''two'', ''SELECT'' @ [CHR 0x0A] @ ''2'')]"
proof -
  let ?qs = "[(''one'', [''SELECT 1'']), (''two'', ['' SELECT'', ''2 ''])]"
  have good: "list_all good_query ?qs" by code_simp
  have blocks: "concat (map query_block ?qs) = [''-- name: one'', ''SELECT 1'', ''-- name: two'', '' SELECT'', ''2 '']"
    by (simp add: query_block_def name_mark_def)
  have entries: "map query_entry ?qs = [(''one'', ''SELECT 1''), (''two'', ''SELECT'' @ [CHR 0x0A] @ ''2'')]"
    by code_simp
  from named_queries_roundtrip [OF good] show ?thesis unfolding blocks entries by simp
qed

section \<open>The caches\<close>

text \<open>Without a cache: what a path and a query name stand for.\<close>

definition parsed_file :: "(string \<Rightarrow> tmpl_error + string) \<Rightarrow> (string \<Rightarrow> string \<Rightarrow> tmpl_error + 't)
    \<Rightarrow> string \<Rightarrow> tmpl_error + 't" where
  "parsed_file read parse name = (case check_path name of Some e \<Rightarrow> Inl e | None \<Rightarrow> parse_file read parse name)"

definition parsed_set :: "(string \<Rightarrow> tmpl_error + string) \<Rightarrow> (string \<Rightarrow> string \<Rightarrow> tmpl_error + 't)
    \<Rightarrow> string \<Rightarrow> tmpl_error + (string \<Rightarrow> 't option)" where
  "parsed_set read parse file = (case check_path file of Some e \<Rightarrow> Inl e
     | None \<Rightarrow> res_bind (read file) (\<lambda>content. parse_set parse (parse_named_queries content) (query_names content)))"

inductive ld_step for read parse where
  ld_get: "ld_step read parse l (snd (get_or_parse read parse name l))"
| ld_put: "parsed_file read parse name = Inr t \<Longrightarrow> ld_step read parse l (snd (cache_put name t l))"
| ld_named: "ld_step read parse l (snd (get_named read parse file query l))"

inductive_cases ld_stepE: "ld_step read parse l l'"

definition coherent where
  "coherent read parse l \<longleftrightarrow> (\<forall>n t. ld_cache l n = Some t \<longrightarrow> parsed_file read parse n = Inr t)
     \<and> (\<forall>f ts. ld_named l f = Some ts \<longrightarrow> parsed_set read parse f = Inr ts)"

lemma coherent_cache: "coherent read parse l \<Longrightarrow> ld_cache l n = Some t \<Longrightarrow> parsed_file read parse n = Inr t"
  and coherent_named: "coherent read parse l \<Longrightarrow> ld_named l f = Some ts \<Longrightarrow> parsed_set read parse f = Inr ts"
  by (simp_all add: coherent_def)

lemma get_or_parse_cases:
  "get_or_parse read parse n l = (case ld_cache l n of
      None \<Rightarrow> (case parsed_file read parse n of Inl e \<Rightarrow> (Inl e, l)
        | Inr t \<Rightarrow> (Inr t, l\<lparr>ld_cache := (ld_cache l)(n \<mapsto> t)\<rparr>))
    | Some t \<Rightarrow> (case check_path n of Some e \<Rightarrow> (Inl e, l) | None \<Rightarrow> (Inr t, l)))"
  by (simp add: get_or_parse_def parsed_file_def cache_put_def split: option.splits sum.splits)

lemma get_named_cases:
  "get_named read parse f q l = (let pick = (\<lambda>ts. case ts q of None \<Rightarrow> Inl (T_no_query q) | Some t \<Rightarrow> Inr t) in
    case ld_named l f of
      None \<Rightarrow> (case parsed_set read parse f of Inl e \<Rightarrow> (Inl e, l)
        | Inr ts \<Rightarrow> (pick ts, l\<lparr>ld_named := (ld_named l)(f \<mapsto> ts)\<rparr>))
    | Some ts \<Rightarrow> (case check_path f of Some e \<Rightarrow> (Inl e, l) | None \<Rightarrow> (pick ts, l)))"
  by (simp add: get_named_def parsed_set_def Let_def split: option.splits sum.splits)

lemma parsed_file_path: "parsed_file read parse n = Inr t \<Longrightarrow> check_path n = None"
  and parsed_set_path: "parsed_set read parse f = Inr ts \<Longrightarrow> check_path f = None"
  by (auto simp: parsed_file_def parsed_set_def split: option.splits)

lemma get_or_parse_coherent:
  assumes "coherent read parse l"
  shows "fst (get_or_parse read parse n l) = parsed_file read parse n"
    and "coherent read parse (snd (get_or_parse read parse n l))"
proof -
  show "fst (get_or_parse read parse n l) = parsed_file read parse n"
    using coherent_cache [OF assms, of n] parsed_file_path [of read parse n]
    by (cases "ld_cache l n"; cases "parsed_file read parse n") (auto simp: get_or_parse_cases)
  show "coherent read parse (snd (get_or_parse read parse n l))"
    using assms by (cases "ld_cache l n"; cases "parsed_file read parse n"; cases "check_path n")
      (auto simp: get_or_parse_cases coherent_def)
qed

lemma cache_put_coherent:
  "coherent read parse l \<Longrightarrow> parsed_file read parse n = Inr t \<Longrightarrow> coherent read parse (snd (cache_put n t l))"
  unfolding coherent_def by (auto simp: cache_put_def split: option.splits)

lemma get_named_coherent:
  assumes "coherent read parse l"
  shows "fst (get_named read parse f q l) = res_bind (parsed_set read parse f)
      (\<lambda>ts. case ts q of None \<Rightarrow> Inl (T_no_query q) | Some t \<Rightarrow> Inr t)"
    and "coherent read parse (snd (get_named read parse f q l))"
proof -
  show "fst (get_named read parse f q l) = res_bind (parsed_set read parse f)
      (\<lambda>ts. case ts q of None \<Rightarrow> Inl (T_no_query q) | Some t \<Rightarrow> Inr t)"
    using coherent_named [OF assms, of f] parsed_set_path [of read parse f]
    by (cases "ld_named l f"; cases "parsed_set read parse f") (auto simp: get_named_cases)
  show "coherent read parse (snd (get_named read parse f q l))"
    using assms by (cases "ld_named l f"; cases "parsed_set read parse f"; cases "check_path f")
      (auto simp: get_named_cases coherent_def)
qed

lemma coherent_new: "coherent read parse new_loader"
  by (simp add: coherent_def new_loader_def)

interpretation ld: transition_system "\<lambda>l. l = new_loader" "ld_step read parse" "coherent read parse" for read parse
  by unfold_locales
     (auto elim!: ld_stepE intro: coherent_new get_or_parse_coherent cache_put_coherent get_named_coherent)

text \<open>
  Caching is invisible: after any calls of the loader in any interleaving, a template or a
  named query asked for is the parse of its file, or the same error, as if nothing were cached.
\<close>

theorem loader_transparent:
  assumes "(ld_step read parse)\<^sup>*\<^sup>* new_loader l"
  shows "fst (get_or_parse read parse n l) = parsed_file read parse n
    \<and> fst (get_named read parse f q l) = res_bind (parsed_set read parse f)
      (\<lambda>ts. case ts q of None \<Rightarrow> Inl (T_no_query q) | Some t \<Rightarrow> Inr t)"
  using get_or_parse_coherent(1) get_named_coherent(1) ld.inv_reachable [OF refl assms] by metis

lemma loader_transparent_witness:
  "fst (get_or_parse (\<lambda>_. Inr ''x'') (\<lambda>_ s. Inr s) ''a.sql''
      (snd (get_or_parse (\<lambda>_. Inr ''x'') (\<lambda>_ s. Inr s) ''a.sql'' new_loader))) = (Inr ''x'' :: tmpl_error + string)"
proof -
  let ?l = "snd (get_or_parse (\<lambda>_. Inr ''x'') (\<lambda>_ s. Inr s) ''a.sql'' new_loader)"
  have "(ld_step (\<lambda>_. Inr ''x'') (\<lambda>_ s. Inr s))\<^sup>*\<^sup>* new_loader ?l"
    by (rule r_into_rtranclp) (rule ld_get)
  moreover have "parsed_file (\<lambda>_. Inr ''x'') (\<lambda>_ s. Inr s) ''a.sql'' = (Inr ''x'' :: tmpl_error + string)"
    by (simp add: parsed_file_def parse_file_def check_path_def fs_valid_path_def)
  ultimately show ?thesis using loader_transparent by metis
qed

end
