(* ===== verification/Db_Builders.thy ===== *)
theory Db_Builders
  imports Sql_Frag
begin

text \<open>
  pkg/db/builders.go and the batching of pkg/db/db.go: binding \<open>${name}\<close> parameters, batch sizes,
  and the INSERT, UPSERT, UPDATE and MERGE builders. The two regular expressions around an empty
  list are matched by hand-written parsers: every alternative of \<open>emptyListRe\<close> is decided by its
  first character and ends at a character it cannot contain, so there is nothing to backtrack
  over; under \<open>(?i)\<close> the letters include long s (U+017F) and the Kelvin sign (U+212A).
\<close>

datatype db_error =
    Ident_error sql_error
  | Unclosed_param
  | Missing_param string
  | Empty_not_in string
  | Too_many_params int string int
  | Row_width nat nat nat
  | No_conflict_cols
  | No_upsert_sqlserver
  | Unknown_dialector
  | Index_out_of_range \<comment> \<open>the panic of \<open>cols[0]\<close>\<close>
  | No_update_cols
  | Missing_key nat string
  | Missing_col nat string
  | No_key_cols
  | Bad_hint string
  | Bad_output string
  | Bad_output_item string
  | Bad_batch_size \<comment> \<open>a batch size below one: the loop would not end\<close>

definition ident_result :: "sql_error + 'a \<Rightarrow> db_error + 'a" where
  "ident_result r = (case r of Inl e \<Rightarrow> Inl (Ident_error e) | Inr x \<Rightarrow> Inr x)"

lemma ident_result_Inr [simp]: "ident_result r = Inr x \<longleftrightarrow> r = Inr x"
  by (cases r) (simp_all add: ident_result_def)

section \<open>The context of an empty list\<close>

text \<open>The bytes of the identifier rune a string starts with; 0 when it starts with none.\<close>

definition word_start_len :: "string \<Rightarrow> nat" where
  "word_start_len s = (case s of [] \<Rightarrow> 0
     | c # _ \<Rightarrow> if ident_start c then 1
               else if has_prefix [CHR 0xC5, CHR 0xBF] s then 2
               else if has_prefix [CHR 0xE2, CHR 0x84, CHR 0xAA] s then 3 else 0)"

definition word_char_len :: "string \<Rightarrow> nat" where
  "word_char_len s = (case s of [] \<Rightarrow> 0 | c # _ \<Rightarrow> if is_digit c then 1 else word_start_len s)"

lemma word_char_len_Nil [simp]: "word_char_len [] = 0"
  by (simp add: word_char_len_def)

function drop_word :: "string \<Rightarrow> string" where
  "drop_word s = (if word_char_len s = 0 then s else drop_word (drop (word_char_len s) s))"
  by pat_completeness auto
termination
proof (relation "measure length")
  fix s :: string
  assume "word_char_len s \<noteq> 0"
  then show "(drop (word_char_len s) s, s) \<in> measure length" by (cases s) auto
qed simp

declare drop_word.simps [simp del]

text \<open>A quoted part: a non-empty text up to the closing character; what follows is returned.\<close>

definition quoted_rest :: "char \<Rightarrow> string \<Rightarrow> string option" where
  "quoted_rest close s = (case index_byte close s of
       None \<Rightarrow> None | Some 0 \<Rightarrow> None | Some (Suc n) \<Rightarrow> Some (drop (n + 2) s))"

definition part_rest :: "string \<Rightarrow> string option" where
  "part_rest s = (case s of [] \<Rightarrow> None
     | c # cs \<Rightarrow>
         if c = CHR 0x22 then quoted_rest (CHR 0x22) cs
         else if c = CHR 0x60 then quoted_rest (CHR 0x60) cs
         else if c = CHR ''['' then quoted_rest (CHR '']'') cs
         else if word_start_len s = 0 then None
         else Some (drop_word (drop (word_start_len s) s)))"

lemma length_drop_word: "length (drop_word s) \<le> length s"
proof (induction s rule: drop_word.induct)
  case (1 s)
  show ?case
  proof (cases "word_char_len s = 0")
    case True
    then show ?thesis by (simp add: drop_word.simps [of s])
  next
    case False
    with 1 show ?thesis by (subst drop_word.simps) simp
  qed
qed

lemma part_rest_shorter: "part_rest s = Some r \<Longrightarrow> length r < length s"
  using length_drop_word [of "drop (word_start_len s) s"]
  by (auto simp: part_rest_def quoted_rest_def split: list.splits option.splits nat.splits if_splits)

function chain_rest :: "string \<Rightarrow> string option" where
  "chain_rest s = (case part_rest s of None \<Rightarrow> None
     | Some r \<Rightarrow> (case r of c # cs \<Rightarrow> if c = CHR ''.'' then chain_rest cs else Some r | [] \<Rightarrow> Some r))"
  by pat_completeness auto
termination
  by (relation "measure length") (auto dest: part_rest_shorter)

declare chain_rest.simps [simp del]

definition ci_rest :: "string \<Rightarrow> string \<Rightarrow> string option" where
  "ci_rest word s =
     (if map upper_char (take (length word) s) = word then Some (drop (length word) s) else None)"

text \<open>\<open>IN\<close>, an opening parenthesis and the end of the text.\<close>

definition in_open :: "string \<Rightarrow> bool" where
  "in_open s = (case ci_rest ''IN'' s of None \<Rightarrow> False
     | Some r \<Rightarrow> (case dropWhile re_space r of
         [] \<Rightarrow> False | c # cs \<Rightarrow> c = CHR ''('' \<and> dropWhile re_space cs = []))"

definition not_in_open :: "string \<Rightarrow> bool" where
  "not_in_open s = (case ci_rest ''NOT'' s of None \<Rightarrow> False
     | Some r \<Rightarrow> r \<noteq> dropWhile re_space r \<and> in_open (dropWhile re_space r))"

text \<open>\<open>emptyListRe\<close> at the start of a text: the identifier, and whether \<open>NOT\<close> follows.\<close>

definition empty_list_here :: "string \<Rightarrow> (string \<times> bool) option" where
  "empty_list_here s = (case chain_rest s of None \<Rightarrow> None
     | Some r \<Rightarrow>
         (let t = dropWhile re_space r; ident = take (length s - length r) s in
          if t = r then None
          else if not_in_open t then Some (ident, True)
          else if in_open t then Some (ident, False) else None))"

text \<open>The leftmost match: the text before it, the identifier, and whether \<open>NOT\<close> follows.\<close>

fun empty_list_re :: "string \<Rightarrow> (string \<times> string \<times> bool) option" where
  "empty_list_re [] = None"
| "empty_list_re (c # cs) = (case empty_list_here (c # cs) of
       Some (ident, neg) \<Rightarrow> Some ([], ident, neg)
     | None \<Rightarrow> map_option (\<lambda>(pre, m). (c # pre, m)) (empty_list_re cs))"

definition sql_keywords :: "string list" where
  "sql_keywords = [''NOT'', ''AND'', ''OR'', ''WHERE'', ''ON'', ''WHEN'', ''THEN'', ''ELSE'', ''HAVING'', ''SELECT'']"

text \<open>\<open>notInTailRe\<close>: \<open>NOT IN (\<close> at a word boundary, up to the end; \<open>prev\<close> is the byte before.\<close>

fun not_in_tail :: "char option \<Rightarrow> string \<Rightarrow> bool" where
  "not_in_tail prev [] = False"
| "not_in_tail prev (c # cs) =
     ((case prev of None \<Rightarrow> True | Some p \<Rightarrow> \<not> ident_char p) \<and> not_in_open (c # cs)
      \<or> not_in_tail (Some c) cs)"

section \<open>Binding parameters\<close>

text \<open>
  What an empty list does: the text so far and the text still to come, rewritten. The condition
  \<open>column IN (...)\<close> is replaced as a whole when it can be recognised.
\<close>

definition bind_empty :: "string \<Rightarrow> string \<Rightarrow> string \<Rightarrow> db_error + string \<times> string" where
  "bind_empty name cur rest =
     (let m = (case empty_list_re cur of None \<Rightarrow> None
          | Some (pre, ident, neg) \<Rightarrow>
              if go_upper ident \<in> set sql_keywords then None else Some (pre, neg));
          other = (if not_in_tail None cur then Inl (Empty_not_in name) else Inr (cur @ ''NULL'', rest)) in
      case m of None \<Rightarrow> other
      | Some (pre, neg) \<Rightarrow> (case index_byte (CHR '')'') rest of None \<Rightarrow> other
        | Some i \<Rightarrow>
            if trim_space (take i rest) = [] then
              Inr (pre @ (if neg then ''1=1'' else ''1=0''), drop (i + 1) rest)
            else other))"

fun ph_list :: "(nat \<Rightarrow> string) \<Rightarrow> nat \<Rightarrow> 'a list \<Rightarrow> string list" where
  "ph_list ph n [] = []"
| "ph_list ph n (v # vs) = ph (Suc n) # ph_list ph (Suc n) vs"

text \<open>The name and the rest when a text starts a parameter; \<open>Inl\<close> when its brace does not close.\<close>

definition param_at :: "string \<Rightarrow> (unit + string \<times> string) option" where
  "param_at s =
     (if 2 < length s \<and> take 2 s = ''${'' then Some (case index_byte (CHR ''}'') (drop 2 s) of
          None \<Rightarrow> Inl ()
        | Some j \<Rightarrow> Inr (take j (drop 2 s), drop (j + 3) s))
      else None)"

lemma param_at_shorter: "param_at s = Some (Inr (name, rest)) \<Longrightarrow> length rest < length s"
  by (auto simp: param_at_def split: if_splits option.splits)

lemma bind_empty_shorter: "bind_empty name cur rest = Inr (cur', rest') \<Longrightarrow> length rest' \<le> length rest"
  by (auto simp: bind_empty_def Let_def split: option.splits if_splits)

function bind_go :: "(nat \<Rightarrow> string) \<Rightarrow> (string \<Rightarrow> gval option) \<Rightarrow> string \<Rightarrow> string \<Rightarrow> gval list
    \<Rightarrow> db_error + string \<times> gval list" where
  "bind_go ph ps [] out args = Inr (out, args)"
| "bind_go ph ps (c # cs) out args = (case param_at (c # cs) of
       None \<Rightarrow> bind_go ph ps cs (out @ [c]) args
     | Some (Inl _) \<Rightarrow> Inl Unclosed_param
     | Some (Inr (name, rest)) \<Rightarrow> (case ps name of
         None \<Rightarrow> Inl (Missing_param name)
       | Some val \<Rightarrow> (case expand_slice val of
           None \<Rightarrow> bind_go ph ps rest (out @ ph (Suc (length args))) (args @ [val])
         | Some [] \<Rightarrow> (case bind_empty name out rest of
             Inl e \<Rightarrow> Inl e
           | Inr (out', rest') \<Rightarrow> bind_go ph ps rest' out' args)
         | Some (v # vs) \<Rightarrow>
             bind_go ph ps rest (out @ join_with '','' (ph_list ph (length args) (v # vs))) (args @ v # vs))))"
  by pat_completeness auto
termination
  by (relation "measure (\<lambda>(ph, ps, s, out, args). length s)")
     (auto dest: param_at_shorter dest!: bind_empty_shorter)

definition bind_named :: "string \<Rightarrow> (string \<Rightarrow> gval option) \<Rightarrow> (nat \<Rightarrow> string) \<Rightarrow> db_error + string \<times> gval list" where
  "bind_named sql params ph = bind_go ph params sql [] []"

definition qmark :: "nat \<Rightarrow> string" where
  "qmark n = ''?''"

definition bind_named_to_q :: "string \<Rightarrow> (string \<Rightarrow> gval option) \<Rightarrow> db_error + string \<times> gval list" where
  "bind_named_to_q sql params = bind_named sql params qmark"

section \<open>What binding promises\<close>

text \<open>The specification without empty lists: every parameter is one value or a list of values.\<close>

function bind_frags :: "(string \<Rightarrow> gval option) \<Rightarrow> string \<Rightarrow> db_error + frag list" where
  "bind_frags ps [] = Inr []"
| "bind_frags ps (c # cs) = (case param_at (c # cs) of
       None \<Rightarrow> res_image (\<lambda>fs. Txt [c] # fs) (bind_frags ps cs)
     | Some (Inl _) \<Rightarrow> Inl Unclosed_param
     | Some (Inr (name, rest)) \<Rightarrow> (case ps name of
         None \<Rightarrow> Inl (Missing_param name)
       | Some val \<Rightarrow> res_image (\<lambda>fs. join_frags '','' (map (\<lambda>v. [Arg v])
             (case expand_slice val of None \<Rightarrow> [val] | Some vs \<Rightarrow> vs)) @ fs) (bind_frags ps rest)))"
  by pat_completeness auto
termination
  by (relation "measure (\<lambda>(ps, s). length s)") (auto dest: param_at_shorter)

lemma ph_list_render: "ph_list ph n vs = render_list ph n (map (\<lambda>v. [Arg v]) vs)"
  by (induction ph n vs rule: ph_list.induct) auto

lemma frag_args_list [simp]: "frag_args (join_frags sep (map (\<lambda>v. [Arg v]) vs)) = vs"
  by (simp add: o_def)

definition no_empty_list :: "(string \<Rightarrow> gval option) \<Rightarrow> bool" where
  "no_empty_list ps \<longleftrightarrow> (\<forall>n. ps n \<noteq> Some (VList []))"

lemma expand_slice_Some [simp]: "expand_slice v = Some vs \<longleftrightarrow> v = VList vs"
  by (cases v) auto

text \<open>The three shapes of the remaining text, as a case rule shared by the proofs below.\<close>

lemma param_at_cases:
  obtains (none) "param_at s = None"
  | (unclosed) "param_at s = Some (Inl ())"
  | (param) name rest where "param_at s = Some (Inr (name, rest))"
  by (cases "param_at s") (auto, metis old.sum.exhaust old.unit.exhaust prod.exhaust)

lemma bind_go_frags:
  "no_empty_list ps \<Longrightarrow> bind_go ph ps s out args = res_image
    (\<lambda>fs. (out @ render ph (length args) fs, args @ frag_args fs)) (bind_frags ps s)"
proof (induction ph ps s out args rule: bind_go.induct)
  case (1 ph ps out args)
  then show ?case by simp
next
  case (2 ph ps c cs out args)
  show ?case
  proof (cases rule: param_at_cases [of "c # cs"])
    case none
    with "2.IH"(1) "2.prems" show ?thesis by (cases "bind_frags ps cs") simp_all
  next
    case unclosed
    then show ?thesis by simp
  next
    case (param name rest)
    show ?thesis
    proof (cases "ps name")
      case None
      with param show ?thesis by simp
    next
      case (Some val)
      show ?thesis
      proof (cases "expand_slice val")
        case None
        with "2.IH"(2) [OF param refl refl Some None] "2.prems" param Some show ?thesis
          by (cases "bind_frags ps rest") simp_all
      next
        case vs: (Some vs)
        with "2.prems" Some obtain w ws where ws: "vs = w # ws"
          by (cases vs) (auto simp: no_empty_list_def)
        note IH = "2.IH"(4) [OF param refl refl Some vs ws "2.prems"]
        have txt_eq: "join_with '','' (ph_list ph (length args) (w # ws))
            = render ph (length args) (join_frags '','' (map (\<lambda>v. [Arg v]) (w # ws)))"
          unfolding ph_list_render by (rule join_render_list)
        have "bind_go ph ps (c # cs) out args = bind_go ph ps rest
            (out @ join_with '','' (ph_list ph (length args) (w # ws))) (args @ w # ws)"
          using param Some vs ws by (simp del: ph_list.simps)
        also have "\<dots> = res_image (\<lambda>fs. (out @ render ph (length args) fs, args @ frag_args fs))
            (bind_frags ps (c # cs))"
          unfolding IH [unfolded txt_eq] txt_eq using param Some vs ws
          by (cases "bind_frags ps rest")
             (simp_all del: render.simps join_frags.simps list.map frag_args_join)
        finally show ?thesis .
      qed
    qed
  qed
qed

text \<open>Values of the same form: lists of the same length, or both no lists.\<close>

fun same_form :: "gval \<Rightarrow> gval \<Rightarrow> bool" where
  "same_form v w = (case (expand_slice v, expand_slice w) of
       (None, None) \<Rightarrow> True | (Some vs, Some ws) \<Rightarrow> length vs = length ws | _ \<Rightarrow> False)"

definition same_forms :: "(string \<Rightarrow> gval option) \<Rightarrow> (string \<Rightarrow> gval option) \<Rightarrow> bool" where
  "same_forms ps qs \<longleftrightarrow> (\<forall>n. rel_option same_form (ps n) (qs n))"

definition same_text :: "db_error + string \<times> 'a list \<Rightarrow> db_error + string \<times> 'b list \<Rightarrow> bool" where
  "same_text r s \<longleftrightarrow> (case (r, s) of
       (Inl e, Inl f) \<Rightarrow> e = f
     | (Inr (t, as), Inr (u, bs)) \<Rightarrow> t = u \<and> length as = length bs
     | _ \<Rightarrow> False)"

lemma ph_list_length: "length vs = length ws \<Longrightarrow> ph_list ph n vs = ph_list ph n ws"
  by (induction vs ws arbitrary: n rule: list_induct2) auto

lemma same_text_Inl [simp]: "same_text (Inl e) (Inl e)"
  by (simp add: same_text_def)

lemma bind_go_same:
  "same_forms ps qs \<Longrightarrow> length args = length args' \<Longrightarrow>
    same_text (bind_go ph ps s out args) (bind_go ph qs s out args')"
proof (induction ph ps s out args arbitrary: args' rule: bind_go.induct)
  case (1 ph ps out args)
  then show ?case by (simp add: same_text_def)
next
  case (2 ph ps c cs out args)
  note prems = "2.prems"
  show ?case
  proof (cases rule: param_at_cases [of "c # cs"])
    case none
    with "2.IH"(1) prems show ?thesis by simp
  next
    case unclosed
    then show ?thesis by simp
  next
    case (param name rest)
    have rel: "rel_option same_form (ps name) (qs name)" using prems(1) by (simp add: same_forms_def)
    show ?thesis
    proof (cases "ps name")
      case None
      with param rel show ?thesis by simp
    next
      case (Some val)
      with rel obtain val' where val': "qs name = Some val'" "same_form val val'"
        by (auto simp: option_rel_Some1)
      show ?thesis
      proof (cases "expand_slice val")
        case None
        with val' have "expand_slice val' = None" by (simp split: option.splits)
        with "2.IH"(2) [OF param refl refl Some None prems(1), of "args' @ [val']"] prems(2) param Some None val'(1)
        show ?thesis by simp
      next
        case vs: (Some vs)
        with val' obtain ws where ws: "expand_slice val' = Some ws" "length vs = length ws"
          by (auto split: option.splits)
        show ?thesis
        proof (cases vs)
          case Nil
          with ws have "ws = []" by simp
          with "2.IH"(3) [OF param refl refl Some vs Nil _ _ prems] param Some vs Nil val' ws(1)
          show ?thesis by (auto split: sum.splits)
        next
          case (Cons w vs')
          with ws obtain w' ws' where ws': "ws = w' # ws'" "length vs' = length ws'"
            by (cases ws) auto
          have "length (args @ w # vs') = length (args' @ w' # ws')" using prems(2) ws'(2) by simp
          note IH = "2.IH"(4) [OF param refl refl Some vs Cons prems(1) this]
          have "ph_list ph (length args) (w # vs') = ph_list ph (length args') (w' # ws')"
            using prems(2) ws'(2) by (metis ph_list_length length_Cons)
          with IH show ?thesis
            using param Some vs Cons val'(1) ws(1) ws'(1) by (simp del: ph_list.simps)
        qed
      qed
    qed
  qed
qed

text \<open>
  (C10) Binding refines its specification: with no empty list among the parameters, the text and
  the arguments of \<open>bindNamed\<close> are the template with every \<open>${name}\<close> turned into one bound value,
  or into the list's values with commas between, placeholders numbered through; errors included.
\<close>

theorem bind_named_refines:
  assumes "no_empty_list params"
  shows "bind_named sql params ph
    = res_image (\<lambda>fs. (render ph 0 fs, frag_args fs)) (bind_frags params sql)"
  using bind_go_frags [OF assms, of ph sql "[]" "[]"] by (simp add: bind_named_def)

lemma bind_named_refines_witness:
  "bind_named ''a=${x} AND b IN (${y})'' [''x'' \<mapsto> VInt 1, ''y'' \<mapsto> VList [VInt 2, VInt 3]] (placeholder Postgres)
    = res_image (\<lambda>fs. (render (placeholder Postgres) 0 fs, frag_args fs))
        (bind_frags [''x'' \<mapsto> VInt 1, ''y'' \<mapsto> VList [VInt 2, VInt 3]] ''a=${x} AND b IN (${y})'')"
  by (rule bind_named_refines) (simp add: no_empty_list_def)

text \<open>
  Values never reach the text: two sets of parameters of the same form (the same names, lists
  of the same lengths, empty ones included) give the same error, or the same text with the same
  number of arguments.
\<close>

theorem bind_named_values_bound:
  assumes "same_forms params params'"
  shows "same_text (bind_named sql params ph) (bind_named sql params' ph)"
  unfolding bind_named_def by (rule bind_go_same [OF assms]) simp

lemma bind_named_values_bound_witness:
  "same_text (bind_named ''a=${x} AND id NOT IN (${y})'' [''x'' \<mapsto> VStr '' OR 1=1 --'', ''y'' \<mapsto> VList []] qmark)
    (bind_named ''a=${x} AND id NOT IN (${y})'' [''x'' \<mapsto> VInt 1, ''y'' \<mapsto> VList []] qmark)"
  by (rule bind_named_values_bound) (simp add: same_forms_def)

text \<open>Where the recognised identifier is only the tail of an expression, or a bracket of an
  array, the rewriting changes the meaning or loses a placeholder.\<close>

lemma empty_list_in_expression:
  "bind_named ''price + tax IN (${xs})'' [''xs'' \<mapsto> VList []] qmark = Inr (''price + 1=0'', [])"
  "bind_named ''arr[${i}] IN (${xs})'' [''xs'' \<mapsto> VList [], ''i'' \<mapsto> VInt 7] qmark = Inr (''arr1=0'', [VInt 7])"
  by code_simp+

section \<open>Batch sizes\<close>

definition dialect_name :: "dialect \<Rightarrow> string" where
  "dialect_name d = (case d of Generic \<Rightarrow> '''' | Postgres \<Rightarrow> ''postgres'' | MySQL \<Rightarrow> ''mysql''
     | SQLite \<Rightarrow> ''sqlite'' | SQLServer \<Rightarrow> ''sqlserver'')"

definition dialect_from_name :: "string \<Rightarrow> dialect" where
  "dialect_from_name n = fst (parse_dialect n)"

definition max_params_for :: "string \<Rightarrow> int" where
  "max_params_for d =
     (if d = ''sqlite'' then 999
      else if d = ''postgres'' then 65535
      else if d = ''sqlserver'' then 2000
      else if d = ''mysql'' then 65535
      else 999)"

definition default_batch_size_for :: "string \<Rightarrow> int \<Rightarrow> int" where
  "default_batch_size_for d per_row =
     (if per_row \<le> 0 then 100
      else
        (let max_rows = max_params_for d div per_row;
             cap_rows = (if d = ''sqlite'' then 300
               else if d = ''postgres'' then 2000
               else if d = ''mysql'' then (if per_row \<le> 8 then 1000 else if per_row \<le> 25 then 500 else 200)
               else 500);
             rows = (if cap_rows < max_rows then cap_rows else max_rows) in
         if rows \<le> 0 then 1 else rows))"

definition batch_size_for :: "string \<Rightarrow> int \<Rightarrow> int \<Rightarrow> db_error + int" where
  "batch_size_for d per_row requested =
     (let limit = max_params_for d in
      if limit < per_row then Inl (Too_many_params per_row d limit)
      else
        (let bs0 = (if requested \<le> 0 then default_batch_size_for d per_row else requested);
             bs1 = (if 0 < per_row \<and> limit < wrap64 (bs0 * per_row) then limit div per_row else bs0) in
         Inr (if bs1 \<le> 0 then 1 else bs1)))"

lemma max_params_pos: "0 < max_params_for d" "max_params_for d \<le> 65535"
  by (simp_all add: max_params_for_def)

lemma default_batch_size_le:
  assumes "0 < per_row" and "per_row \<le> max_params_for d"
  shows "1 \<le> default_batch_size_for d per_row"
    and "default_batch_size_for d per_row * per_row \<le> max_params_for d"
proof -
  let ?m = "max_params_for d div per_row"
  have m: "1 \<le> ?m" using assms pos_imp_zdiv_pos_iff [of per_row "max_params_for d"] by simp
  have le: "default_batch_size_for d per_row \<le> ?m" and ge: "1 \<le> default_batch_size_for d per_row"
    using assms m by (auto simp: default_batch_size_for_def Let_def)
  show "1 \<le> default_batch_size_for d per_row" by (rule ge)
  have "default_batch_size_for d per_row * per_row \<le> ?m * per_row" using le assms(1) by simp
  also have "\<dots> \<le> max_params_for d" using assms(1) by (simp add: minus_mod_eq_div_mult [symmetric])
  finally show "default_batch_size_for d per_row * per_row \<le> max_params_for d" .
qed

text \<open>A batch fits, unless the product of the requested size and the parameters of a row overflows.\<close>

lemma batch_size_for_fits:
  assumes "0 < per_row" and "requested * per_row < 2 ^ 63"
  shows "case batch_size_for d per_row requested of
      Inl e \<Rightarrow> max_params_for d < per_row
    | Inr bs \<Rightarrow> 1 \<le> bs \<and> bs * per_row \<le> max_params_for d \<and> (0 < requested \<longrightarrow> bs \<le> requested)"
proof (cases "max_params_for d < per_row")
  case True
  then show ?thesis by (simp add: batch_size_for_def Let_def)
next
  case False
  let ?limit = "max_params_for d"
  let ?bs0 = "if requested \<le> 0 then default_batch_size_for d per_row else requested"
  have lim: "1 \<le> ?limit div per_row" "?limit div per_row * per_row \<le> ?limit"
    using False assms(1) pos_imp_zdiv_pos_iff [of per_row ?limit]
    by (simp_all add: minus_mod_eq_div_mult [symmetric])
  note def = default_batch_size_le [OF assms(1), of d]
  have "0 < ?bs0" using False def(1) by auto
  have "?bs0 * per_row < 2 ^ 63"
    using assms(2) False def(2) max_params_pos [of d] by auto
  moreover have "0 \<le> ?bs0 * per_row" using \<open>0 < ?bs0\<close> assms(1) by simp
  ultimately have wrap: "wrap64 (?bs0 * per_row) = ?bs0 * per_row" by (intro wrap64_id) auto
  show ?thesis
  proof (cases "?limit < ?bs0 * per_row")
    case True
    have "?limit div per_row \<le> ?bs0"
    proof (rule ccontr)
      assume "\<not> ?thesis"
      then have "?bs0 * per_row \<le> ?limit div per_row * per_row" using assms(1) by simp
      with True lim(2) show False by linarith
    qed
    then show ?thesis
      using False True lim wrap assms(1) by (auto simp: batch_size_for_def Let_def split: if_splits)
  next
    case nofit: False
    then show ?thesis
      using False wrap \<open>0 < ?bs0\<close> by (auto simp: batch_size_for_def Let_def split: if_splits)
  qed
qed

text \<open>With an absurd request the product wraps around and the limit is not applied.\<close>

lemma batch_size_for_overflow:
  "batch_size_for ''sqlite'' 4 (2 ^ 62) = Inr (2 ^ 62)"
  by (simp add: batch_size_for_def max_params_for_def wrap64_def Let_def)

section \<open>INSERT, UPSERT and UPDATE\<close>

definition trim_suffix :: "string \<Rightarrow> string \<Rightarrow> string" where
  "trim_suffix q s = (if has_suffix q s then take (length s - length q) s else s)"

definition quote_all :: "dialect \<Rightarrow> string list \<Rightarrow> db_error + string list" where
  "quote_all d names = ident_result (quote_idents d names)"

fun check_rows :: "string list \<Rightarrow> gval list list \<Rightarrow> nat \<Rightarrow> db_error option" where
  "check_rows cols [] i = None"
| "check_rows cols (r # rs) i =
     (if length r \<noteq> length cols then Some (Row_width i (length r) (length cols))
      else check_rows cols rs (i + 1))"

text \<open>The placeholders of one row and the rows of a \<open>VALUES\<close> list.\<close>

definition row_ph :: "nat \<Rightarrow> string" where
  "row_ph n = ''('' @ trim_suffix '','' (concat (replicate n ''?,'')) @ '')''"

definition values_text :: "nat \<Rightarrow> gval list list \<Rightarrow> string" where
  "values_text n rows = join_with '','' (map (\<lambda>_. row_ph n) rows)"

definition build_insert :: "dialect \<Rightarrow> string \<Rightarrow> string list \<Rightarrow> gval list list \<Rightarrow> db_error + string \<times> gval list" where
  "build_insert d table cols rows =
     res_bind (ident_result (quote_ident d table)) (\<lambda>qt.
     res_bind (quote_all d cols) (\<lambda>qc.
     case check_rows cols rows 0 of Some e \<Rightarrow> Inl e
     | None \<Rightarrow> Inr (''INSERT INTO '' @ qt @ '' ('' @ join_with '','' qc @ '') VALUES '' @
          values_text (length cols) rows, concat rows)))"

definition build_upsert_suffix :: "dialect \<Rightarrow> string list \<Rightarrow> string list \<Rightarrow> string list \<Rightarrow> db_error + string" where
  "build_upsert_suffix d cols conflict_cols update_cols =
     res_bind (quote_all d update_cols) (\<lambda>qu.
     res_bind (quote_all d conflict_cols) (\<lambda>qk.
     if d = Postgres \<or> d = SQLite then
       (if conflict_cols = [] then Inl No_conflict_cols
        else (let s = ''ON CONFLICT ('' @ join_with '','' qk @ '')'' in
          if qu = [] then Inr (s @ '' DO NOTHING'')
          else Inr (s @ '' DO UPDATE SET '' @
            join_with '','' (map (\<lambda>c. c @ '' = EXCLUDED.'' @ c) qu))))
     else if d = MySQL then
       (if qu = [] then
          (case cols of [] \<Rightarrow> Inl Index_out_of_range
           | c # _ \<Rightarrow> res_bind (ident_result (quote_ident d c)) (\<lambda>first.
               Inr (''ON DUPLICATE KEY UPDATE '' @ first @ '' = '' @ first)))
        else Inr (''ON DUPLICATE KEY UPDATE '' @
          join_with '','' (map (\<lambda>c. c @ '' = VALUES('' @ c @ '')'') qu)))
     else if d = SQLServer then Inl No_upsert_sqlserver
     else Inl Unknown_dialector))"

text \<open>The \<open>CASE\<close> arms of one column over all rows, and the columns one after the other.\<close>

fun update_arms :: "string \<Rightarrow> string \<Rightarrow> string \<Rightarrow> (string \<Rightarrow> gval option) list \<Rightarrow> nat
    \<Rightarrow> db_error + string \<times> gval list" where
  "update_arms key qk c [] i = Inr ([], [])"
| "update_arms key qk c (r # rs) i = (case r key of None \<Rightarrow> Inl (Missing_key i key)
     | Some k \<Rightarrow> (case r c of None \<Rightarrow> Inl (Missing_col i c)
       | Some v \<Rightarrow> res_bind (update_arms key qk c rs (i + 1)) (\<lambda>(s, args).
           Inr (''WHEN '' @ qk @ '' = ? THEN ? '' @ s, k # v # args))))"

fun update_sets :: "string \<Rightarrow> string \<Rightarrow> (string \<times> string) list \<Rightarrow> (string \<Rightarrow> gval option) list
    \<Rightarrow> db_error + string list \<times> gval list" where
  "update_sets key qk [] rows = Inr ([], [])"
| "update_sets key qk ((c, qc) # cs) rows =
     res_bind (update_arms key qk c rows 0) (\<lambda>(s, args).
     res_bind (update_sets key qk cs rows) (\<lambda>(ss, args').
     Inr ((qc @ '' = CASE '' @ s @ ''ELSE '' @ qc @ '' END'') # ss, args @ args')))"

definition build_bulk_update :: "dialect \<Rightarrow> string \<Rightarrow> string \<Rightarrow> string list \<Rightarrow> (string \<Rightarrow> gval option) list
    \<Rightarrow> db_error + string \<times> gval list" where
  "build_bulk_update d table key update_cols rows =
     (if rows = [] then Inr ([], [])
      else if update_cols = [] then Inl No_update_cols
      else
        res_bind (ident_result (quote_ident d table)) (\<lambda>qt.
        res_bind (ident_result (quote_ident d key)) (\<lambda>qk.
        res_bind (quote_all d update_cols) (\<lambda>qu.
        res_bind (update_sets key qk (zip update_cols qu) rows) (\<lambda>(sets, args).
        Inr (''UPDATE '' @ qt @ '' SET '' @ join_with '','' sets @ '' WHERE '' @ qk @ '' IN ('' @
            trim_suffix '','' (concat (replicate (length rows) ''?,'')) @ '')'',
          args @ map (\<lambda>r. case r key of None \<Rightarrow> VNil | Some v \<Rightarrow> v) rows))))))"

section \<open>SQL Server MERGE\<close>

definition merge_hints :: "string list" where
  "merge_hints = [''HOLDLOCK'', ''SERIALIZABLE'', ''UPDLOCK'', ''ROWLOCK'', ''PAGLOCK'', ''TABLOCK'',
     ''TABLOCKX'', ''XLOCK'', ''READCOMMITTED'', ''READCOMMITTEDLOCK'', ''REPEATABLEREAD'']"

definition normalize_table_hint :: "string \<Rightarrow> db_error + string" where
  "normalize_table_hint h =
     (let s0 = go_upper (trim_space h) in
      if s0 = [] then Inr []
      else
        (let s1 = (if has_prefix ''WITH'' s0 then trim_space (drop 4 s0) else s0);
             s2 = (if has_prefix ''('' s1 \<and> has_suffix '')'' s1 then butlast (tl s1) else s1);
             parts = map trim_space (split_on (CHR '','') s2) in
         if list_all (\<lambda>p. p \<in> set merge_hints) parts
         then Inr (''WITH ('' @ join_with '', '' parts @ '')'')
         else Inl (Bad_hint h)))"

text \<open>A literal under \<open>(?i)\<close>: S also matches long s, K the Kelvin sign.\<close>

fun ci_lit :: "string \<Rightarrow> string \<Rightarrow> string option" where
  "ci_lit [] s = Some s"
| "ci_lit (w # ws) [] = None"
| "ci_lit (w # ws) (c # cs) =
     (if upper_char c = w then ci_lit ws cs
      else if w = CHR ''S'' \<and> has_prefix [CHR 0xC5, CHR 0xBF] (c # cs) then ci_lit ws (drop 1 cs)
      else if w = CHR ''K'' \<and> has_prefix [CHR 0xE2, CHR 0x84, CHR 0xAA] (c # cs) then ci_lit ws (drop 2 cs)
      else None)"

text \<open>A word, and what follows it.\<close>

definition take_word :: "string \<Rightarrow> (string \<times> string) option" where
  "take_word s =
     (if word_start_len s = 0 then None
      else (let r = drop_word (drop (word_start_len s) s) in Some (take (length s - length r) s, r)))"

definition output_column :: "string \<Rightarrow> string \<Rightarrow> (string \<times> string) option" where
  "output_column table s = (case ci_lit table s of None \<Rightarrow> None
     | Some [] \<Rightarrow> None
     | Some (c # r) \<Rightarrow>
         if c \<noteq> CHR ''.'' then None
         else if has_prefix ''*'' r then Some (table @ ''.*'', tl r)
         else (case take_word r of None \<Rightarrow> None
           | Some (col, r') \<Rightarrow> Some (table @ ''.['' @ col @ '']'', r')))"

definition output_head :: "string \<Rightarrow> (string \<times> string) option" where
  "output_head s = (case ci_lit ''$ACTION'' s of Some r \<Rightarrow> Some (''$action'', r)
     | None \<Rightarrow> (case output_column ''INSERTED'' s of Some x \<Rightarrow> Some x
       | None \<Rightarrow> output_column ''DELETED'' s))"

definition output_alias :: "string \<Rightarrow> string option" where
  "output_alias r =
     (if r = [] then Some []
      else if dropWhile re_space r = r then None
      else (case ci_lit ''AS'' (dropWhile re_space r) of None \<Rightarrow> None
        | Some t \<Rightarrow>
            if dropWhile re_space t = t then None
            else (case take_word (dropWhile re_space t) of
                Some (name, []) \<Rightarrow> Some ('' AS ['' @ name @ '']'')
              | _ \<Rightarrow> None)))"

definition output_item :: "string \<Rightarrow> string option" where
  "output_item s = (case output_head s of None \<Rightarrow> None
     | Some (r, rest) \<Rightarrow> map_option (\<lambda>a. r @ a) (output_alias rest))"

definition normalize_output_clause :: "string \<Rightarrow> db_error + string" where
  "normalize_output_clause s =
     (let t = trim_space s in
      if t = [] then Inr []
      else if length t < 7 \<or> map upper_char (take 6 t) \<noteq> ''OUTPUT'' \<or> t ! 6 \<notin> {CHR '' '', CHR 0x09, CHR 0x0A}
        then Inl (Bad_output s)
      else res_bind (res_map (\<lambda>it. case output_item (trim_space it) of
            None \<Rightarrow> Inl (Bad_output_item (trim_space it)) | Some r \<Rightarrow> Inr r)
          (split_on (CHR '','') (drop 7 t))) (\<lambda>out. Inr (''OUTPUT '' @ join_with '', '' out)))"

record upsert_output =
  uo_include_action :: bool
  uo_inserted_cols :: "string list"
  uo_deleted_cols :: "string list"

record upsert_options =
  uo_table_hint :: string
  uo_output_text :: string
  uo_output :: "upsert_output option"

definition render_output :: "upsert_output option \<Rightarrow> db_error + string" where
  "render_output o' = (case o' of None \<Rightarrow> Inr []
     | Some x \<Rightarrow>
        res_bind (ident_result (quote_idents SQLServer (uo_inserted_cols x))) (\<lambda>ins.
        res_bind (ident_result (quote_idents SQLServer (uo_deleted_cols x))) (\<lambda>del.
        (let parts = (if uo_include_action x then [''$action AS [action]''] else [])
               @ map (\<lambda>q. ''INSERTED.'' @ q) ins @ map (\<lambda>q. ''DELETED.'' @ q) del in
         Inr (if parts = [] then [] else ''OUTPUT '' @ join_with '', '' parts)))))"

definition merge_extras :: "upsert_options option \<Rightarrow> db_error + string \<times> string" where
  "merge_extras opts = (case opts of None \<Rightarrow> Inr ([], [])
     | Some x \<Rightarrow> res_bind (normalize_table_hint (uo_table_hint x)) (\<lambda>hint.
         res_bind (if uo_output x \<noteq> None then render_output (uo_output x)
                   else normalize_output_clause (uo_output_text x)) (\<lambda>out. Inr (hint, out))))"

text \<open>What the string builder writes once everything is checked and quoted.\<close>

definition merge_head :: "string \<Rightarrow> string \<Rightarrow> string" where
  "merge_head qt hint = ''MERGE INTO '' @ qt @ (if hint = [] then [] else '' '' @ hint) @
     '' AS target USING (VALUES ''"

definition merge_tail :: "string list \<Rightarrow> string list \<Rightarrow> string list \<Rightarrow> string \<Rightarrow> string" where
  "merge_tail qc qk qu out =
     '') AS src ('' @ join_with '','' qc @ '') ON ('' @
     join_with '' AND '' (map (\<lambda>k. ''target.'' @ k @ '' = src.'' @ k) qk) @ '') '' @
     (if qu = [] then []
      else ''WHEN MATCHED THEN UPDATE SET '' @
        join_with '','' (map (\<lambda>c. ''target.'' @ c @ '' = src.'' @ c) qu) @ '' '') @
     ''WHEN NOT MATCHED THEN INSERT ('' @ join_with '','' qc @ '') VALUES ('' @
     join_with '','' (map (\<lambda>c. ''src.'' @ c) qc) @ '') '' @
     (if out = [] then [] else out @ '' '') @ '';''"

definition build_merge :: "string \<Rightarrow> string list \<Rightarrow> string list \<Rightarrow> string list \<Rightarrow> gval list list
    \<Rightarrow> upsert_options option \<Rightarrow> db_error + string \<times> gval list" where
  "build_merge table cols key_cols update_cols rows opts =
     (if cols = [] \<or> rows = [] then Inr ([], [])
      else if key_cols = [] then Inl No_key_cols
      else
        res_bind (ident_result (quote_ident SQLServer table)) (\<lambda>qt.
        res_bind (quote_all SQLServer cols) (\<lambda>qc.
        res_bind (quote_all SQLServer key_cols) (\<lambda>qk.
        res_bind (quote_all SQLServer update_cols) (\<lambda>qu.
        case check_rows cols rows 0 of Some e \<Rightarrow> Inl e
        | None \<Rightarrow> res_bind (merge_extras opts) (\<lambda>(hint, out).
          Inr (merge_head qt hint @ values_text (length cols) rows @ merge_tail qc qk qu out,
            concat rows)))))))"

section \<open>Batches\<close>

type_synonym built_stmt = "string \<times> gval list"

text \<open>\<open>buildBatches\<close>: the statements for the rows from \<open>s\<close> on, in steps of \<open>bs\<close>.\<close>

function batches_from :: "nat \<Rightarrow> nat \<Rightarrow> (nat \<Rightarrow> nat \<Rightarrow> db_error + built_stmt) \<Rightarrow> nat \<Rightarrow> db_error + built_stmt list" where
  "batches_from n bs build s =
     (if bs = 0 then Inl Bad_batch_size
      else if n \<le> s then Inr []
      else res_bind (build s (min n (s + bs))) (\<lambda>st.
        res_bind (batches_from n bs build (s + bs)) (\<lambda>rest. Inr (st # rest))))"
  by pat_completeness auto
termination
  by (relation "measure (\<lambda>(n, bs, build, s). n - s)") auto

declare batches_from.simps [simp del]

definition build_batches :: "nat \<Rightarrow> int \<Rightarrow> (nat \<Rightarrow> nat \<Rightarrow> db_error + built_stmt) \<Rightarrow> db_error + built_stmt list" where
  "build_batches n bs build = batches_from n (nat bs) build 0"

definition slice :: "nat \<Rightarrow> nat \<Rightarrow> 'a list \<Rightarrow> 'a list" where
  "slice s e xs = take (e - s) (drop s xs)"

text \<open>The statements of \<open>BulkInsertRows\<close>, \<open>BulkUpsertRowsWithOptions\<close> and \<open>BulkUpdateByKey\<close>,
  which are all built before the database is touched.\<close>

definition bulk_insert_stmts :: "dialect \<Rightarrow> string \<Rightarrow> string list \<Rightarrow> gval list list \<Rightarrow> int
    \<Rightarrow> db_error + built_stmt list" where
  "bulk_insert_stmts d table cols rows batch =
     (if cols = [] \<or> rows = [] then Inr []
      else res_bind (batch_size_for (dialect_name d) (int (length cols)) batch) (\<lambda>bs.
        build_batches (length rows) bs (\<lambda>s e. build_insert d table cols (slice s e rows))))"

definition bulk_upsert_stmts :: "dialect \<Rightarrow> string \<Rightarrow> string list \<Rightarrow> string list \<Rightarrow> string list
    \<Rightarrow> gval list list \<Rightarrow> int \<Rightarrow> upsert_options option \<Rightarrow> db_error + built_stmt list" where
  "bulk_upsert_stmts d table cols conflict update rows batch opts =
     (if cols = [] \<or> rows = [] then Inr []
      else res_bind (batch_size_for (dialect_name d) (int (length cols)) batch) (\<lambda>bs.
        res_bind (if d \<noteq> SQLServer then build_upsert_suffix d cols conflict update else Inr []) (\<lambda>suffix.
        build_batches (length rows) bs (\<lambda>s e.
          if d = SQLServer then build_merge table cols conflict update (slice s e rows) opts
          else res_bind (build_insert d table cols (slice s e rows)) (\<lambda>(q, args).
            Inr (q @ '' '' @ suffix, args))))))"

definition bulk_update_stmts :: "dialect \<Rightarrow> string \<Rightarrow> string \<Rightarrow> string list
    \<Rightarrow> (string \<Rightarrow> gval option) list \<Rightarrow> int \<Rightarrow> db_error + built_stmt list" where
  "bulk_update_stmts d table key update rows batch =
     (if rows = [] then Inr []
      else res_bind (batch_size_for (dialect_name d) (2 * int (length update) + 1) batch) (\<lambda>bs.
        build_batches (length rows) bs (\<lambda>s e. build_bulk_update d table key update (slice s e rows))))"

section \<open>Every placeholder has its argument\<close>

text \<open>A statement put together from text of an alphabet and question marks, with its arguments.\<close>

definition built :: "char set \<Rightarrow> string \<Rightarrow> gval list \<Rightarrow> bool" where
  "built A sql args \<longleftrightarrow> (\<exists>fs. sql = render qmark 0 fs \<and> args = frag_args fs \<and> text_within A fs)"

interpretation qm: placeholder_style qmark "CHR ''?''" "{}"
  by unfold_locales (auto simp: qmark_def)

lemma render_qmark: "render qmark n fs = render qmark m fs"
proof (induction fs arbitrary: n m)
  case (Cons f fs)
  then show ?case
  proof (cases f)
    case (Txt s)
    then show ?thesis using Cons.IH [of n m] by simp
  next
    case (Arg v)
    then show ?thesis using Cons.IH [of "Suc n" "Suc m"] by (simp add: qmark_def)
  qed
qed simp

lemma built_text: "set s \<subseteq> A \<Longrightarrow> built A s []"
  unfolding built_def by (rule exI [of _ "[Txt s]"]) simp

lemma built_args: "built A (join_with '','' (map (\<lambda>_. ''?'') vs)) vs" if "CHR '','' \<in> A"
proof -
  have "join_with '','' (map (\<lambda>_. ''?'') vs) = render qmark 0 (join_frags '','' (map (\<lambda>v. [Arg v]) vs))"
  proof -
    have "render_list qmark n (map (\<lambda>v. [Arg v]) vs) = map (\<lambda>_. ''?'') vs" for n
      by (induction vs arbitrary: n) (auto simp: qmark_def)
    then show ?thesis by (metis join_render_list)
  qed
  moreover have "text_within A (join_frags '','' (map (\<lambda>v. [Arg v]) vs))"
    using that by (intro text_within_join) auto
  ultimately show ?thesis unfolding built_def by (intro exI [of _ "join_frags '','' (map (\<lambda>v. [Arg v]) vs)"])
    (simp del: frag_args_join)
qed

lemma built_append:
  assumes "built A s a" and "built A t b"
  shows "built A (s @ t) (a @ b)"
proof -
  from assms obtain fs gs where "s = render qmark 0 fs" "a = frag_args fs" "text_within A fs"
    "t = render qmark 0 gs" "b = frag_args gs" "text_within A gs"
    by (auto simp: built_def)
  then show ?thesis unfolding built_def
    by (intro exI [of _ "fs @ gs"]) (simp add: render_qmark [of "length (frag_args fs)" _ 0])
qed

lemma built_text_append: "built A t b \<Longrightarrow> set s \<subseteq> A \<Longrightarrow> built A (s @ t) b"
  using built_append [OF built_text] by fastforce

lemma built_append_text: "built A s a \<Longrightarrow> set t \<subseteq> A \<Longrightarrow> built A (s @ t) a"
  using built_append [OF _ built_text] by fastforce

lemma built_marks:
  assumes "built A sql args" and "CHR ''?'' \<notin> A"
  shows "count_list sql (CHR ''?'') = length args"
proof -
  from assms(1) obtain fs where fs: "sql = render qmark 0 fs" "args = frag_args fs" "text_within A fs"
    by (auto simp: built_def)
  have "text_within (- {CHR ''?''}) fs" using fs(3) by (rule text_within_mono) (use assms(2) in auto)
  then show ?thesis using qm.render_marks fs(1,2) by simp
qed

lemma built_alphabet: "built A sql args \<Longrightarrow> set sql \<subseteq> insert (CHR ''?'') A"
  unfolding built_def using qm.render_alphabet [of A] by fastforce

lemma built_join:
  "list_all2 (built A) ss ass \<Longrightarrow> set sep \<subseteq> A \<Longrightarrow> built A (join_with sep ss) (concat ass)"
proof (induction sep ss arbitrary: ass rule: join_with.induct)
  case (1 sep)
  then show ?case by (simp add: built_text)
next
  case (2 sep w)
  then show ?case by (auto simp: list_all2_Cons1)
next
  case (3 sep w v ws)
  then obtain a as where ass: "ass = a # as" "built A w a" "list_all2 (built A) (v # ws) as"
    by (auto simp: list_all2_Cons1)
  have "built A (w @ sep @ join_with sep (v # ws)) (a @ concat as)"
    by (intro built_append ass(2) built_text_append 3(1) ass(3) 3(3))
  then show ?case by (simp add: ass(1))
qed

text \<open>The repeated question marks, with the last comma trimmed.\<close>

lemma trim_marks: "trim_suffix '','' (concat (replicate n ''?,'')) = join_with '','' (replicate n ''?'')"
proof (induction n)
  case 0
  show ?case by (simp add: trim_suffix_def has_suffix_def)
next
  case (Suc n)
  have "concat (replicate (Suc n) ''?,'') = join_with '','' (replicate (Suc n) ''?'') @ '',''"
    by (induction n) auto
  then show ?case by (simp add: trim_suffix_def has_suffix_def)
qed

lemma built_marks_list: "CHR '','' \<in> A \<Longrightarrow> length vs = n \<Longrightarrow>
  built A (trim_suffix '','' (concat (replicate n ''?,''))) vs"
  using built_args [of A vs] by (simp add: trim_marks map_replicate_const)

section \<open>The builders' statements\<close>

definition stmt_alphabet :: "dialect \<Rightarrow> char set" where
  "stmt_alphabet d = ident_alphabet d \<union> {CHR '' '', CHR ''('', CHR '')'', CHR '','', CHR ''=''}"

lemma stmt_alphabet_chars [simp]:
  "ident_char c \<Longrightarrow> c \<in> stmt_alphabet d"
  "CHR '' '' \<in> stmt_alphabet d" "CHR ''('' \<in> stmt_alphabet d" "CHR '')'' \<in> stmt_alphabet d"
  "CHR '','' \<in> stmt_alphabet d" "CHR ''='' \<in> stmt_alphabet d" "CHR ''.'' \<in> stmt_alphabet d"
  by (simp_all add: stmt_alphabet_def ident_alphabet_def)

lemma ident_char_letters [simp]: "is_letter c \<Longrightarrow> ident_char c"
  by (simp add: ident_char_def)

lemmas letter_simps = is_letter_def

lemma qmark_notin_stmt [simp]: "CHR ''?'' \<notin> stmt_alphabet d"
  by (cases d) (simp_all add: stmt_alphabet_def ident_alphabet_def delimiters_def)

lemma stmt_alphabet_safe: "stmt_alphabet d \<inter> sql_meta = {}"
  using ident_alphabet_safe [of d] by (auto simp: stmt_alphabet_def sql_meta_def)

lemma quoted_in_stmt: "quote_ident d n = Inr q \<Longrightarrow> set q \<subseteq> stmt_alphabet d"
  using dialect_quote.quote_alphabet by (fastforce simp: stmt_alphabet_def)

lemma quoted_all_in_stmt:
  assumes "quote_all d ns = Inr qs" and "q \<in> set qs"
  shows "set q \<subseteq> stmt_alphabet d"
  using assms dialect_quote.quotes_alphabet [of d ns qs q]
  by (auto simp: quote_all_def quote_idents_def stmt_alphabet_def)

lemma quoted_all_chars: "quote_all d ns = Inr qs \<Longrightarrow> q \<in> set qs \<Longrightarrow> x \<in> set q \<Longrightarrow> x \<in> stmt_alphabet d"
  using quoted_all_in_stmt by blast

lemma quote_all_length: "quote_all d ns = Inr qs \<Longrightarrow> length qs = length ns"
  by (auto simp: quote_all_def quote_idents_def dest: res_map_length)

lemma check_rows_None: "check_rows cols rows i = None \<longleftrightarrow> (\<forall>r\<in>set rows. length r = length cols)"
  by (induction cols rows i rule: check_rows.induct) auto

lemma built_values:
  assumes "\<And>r. r \<in> set rows \<Longrightarrow> length r = n"
    and A: "CHR '','' \<in> A" "CHR ''('' \<in> A" "CHR '')'' \<in> A"
  shows "built A (values_text n rows) (concat rows)"
  unfolding values_text_def
proof (rule built_join)
  have "built A (row_ph n) r" if "r \<in> set rows" for r
    unfolding row_ph_def using assms that
    by (intro built_text_append [where s = "''(''"] built_append_text built_marks_list) auto
  then show "list_all2 (built A) (map (\<lambda>_. row_ph n) rows) rows"
    by (simp add: list_all2_conv_all_nth)
qed (use A in simp)

lemma build_insert_built:
  assumes "build_insert d table cols rows = Inr (sql, args)"
  shows "built (stmt_alphabet d) sql args" and "args = concat rows"
    and "\<forall>r\<in>set rows. length r = length cols"
proof -
  from assms obtain qt qc where q: "quote_ident d table = Inr qt" "quote_all d cols = Inr qc"
    and rows: "check_rows cols rows 0 = None" and a: "args = concat rows"
    and sql: "sql = ''INSERT INTO '' @ qt @ '' ('' @ join_with '','' qc @ '') VALUES '' @ values_text (length cols) rows"
    by (auto simp: build_insert_def split: option.splits)
  show "args = concat rows" by (rule a)
  show len: "\<forall>r\<in>set rows. length r = length cols" using rows by (simp add: check_rows_None)
  have "set (join_with '','' qc) \<subseteq> stmt_alphabet d"
    using quoted_all_in_stmt [OF q(2)] by (intro set_join_subset) auto
  then show "built (stmt_alphabet d) sql args" unfolding sql a
    using quoted_in_stmt [OF q(1)] len
    by (intro built_text_append built_values) (auto simp: letter_simps)
qed

lemma update_arms_built:
  "set qk \<subseteq> stmt_alphabet d \<Longrightarrow> update_arms key qk c rows i = Inr (s, args) \<Longrightarrow>
    built (stmt_alphabet d) s args \<and> length args = 2 * length rows"
proof (induction key qk c rows i arbitrary: s args rule: update_arms.induct)
  case (1 key qk c i)
  then show ?case by (simp add: built_text)
next
  case (2 key qk c r rs i)
  then obtain k v t as where kv: "r key = Some k" "r c = Some v"
    and rest: "update_arms key qk c rs (i + 1) = Inr (t, as)"
    and s: "s = ''WHEN '' @ qk @ '' = ? THEN ? '' @ t" "args = k # v # as"
    by (auto split: option.splits)
  let ?B = "built (stmt_alphabet d)"
  have mark: "?B ''?'' [x]" for x
    using built_args [of "stmt_alphabet d" "[x]"] by simp
  have "?B ('' '' @ t) as"
    by (rule built_text_append) (use "2.IH"(1) [OF kv "2.prems"(1) rest] in auto)
  from built_append [OF mark this] have "?B ('' THEN '' @ ''?'' @ '' '' @ t) ([v] @ as)"
    by (rule built_text_append) (auto simp: letter_simps)
  from built_append [OF mark this] have "?B ('' = '' @ ''?'' @ '' THEN '' @ ''?'' @ '' '' @ t) ([k] @ [v] @ as)"
    by (rule built_text_append) auto
  from built_text_append [OF this "2.prems"(1)]
  have "?B (''WHEN '' @ qk @ '' = '' @ ''?'' @ '' THEN '' @ ''?'' @ '' '' @ t) ([k] @ [v] @ as)"
    by (rule built_text_append) (auto simp: letter_simps)
  then show ?case using s "2.IH"(1) [OF kv "2.prems"(1) rest] by simp
qed

lemma update_sets_built:
  "set qk \<subseteq> stmt_alphabet d \<Longrightarrow> (\<And>c qc. (c, qc) \<in> set cs \<Longrightarrow> set qc \<subseteq> stmt_alphabet d) \<Longrightarrow>
    update_sets key qk cs rows = Inr (ss, args) \<Longrightarrow>
    built (stmt_alphabet d) (join_with '','' ss) args \<and> length args = length cs * (2 * length rows)
    \<and> length ss = length cs"
proof (induction key qk cs rows arbitrary: ss args rule: update_sets.induct)
  case (1 key qk rows)
  then show ?case by (simp add: built_text)
next
  case (2 key qk c qc cs rows)
  let ?B = "built (stmt_alphabet d)"
  from "2.prems"(3) obtain s a ss' a' where arms: "update_arms key qk c rows 0 = Inr (s, a)"
    and sets: "update_sets key qk cs rows = Inr (ss', a')"
    and ss: "ss = (qc @ '' = CASE '' @ s @ ''ELSE '' @ qc @ '' END'') # ss'" "args = a @ a'"
    by auto
  have IH: "?B (join_with '','' ss') a' \<and> length a' = length cs * (2 * length rows) \<and> length ss' = length cs"
    using "2.IH" [OF arms refl "2.prems"(1) _ sets] "2.prems"(2) by auto
  note A = update_arms_built [OF "2.prems"(1) arms]
  have qc: "set qc \<subseteq> stmt_alphabet d" using "2.prems"(2) by auto
  have "?B (s @ (''ELSE '' @ qc @ '' END'')) a"
    using A qc by (intro built_append_text) (auto simp: letter_simps)
  then have "?B ('' = CASE '' @ s @ ''ELSE '' @ qc @ '' END'') a"
    by (rule built_text_append) (auto simp: letter_simps)
  from built_text_append [OF this qc] have one: "?B (qc @ '' = CASE '' @ s @ ''ELSE '' @ qc @ '' END'') a" .
  show ?case
  proof (cases "ss' = []")
    case True
    then show ?thesis using one IH A ss by auto
  next
    case False
    have "?B ('','' @ join_with '','' ss') a'" using IH by (intro built_text_append) auto
    from built_append [OF one this] show ?thesis
      using False IH A ss by (simp add: join_with_Cons)
  qed
qed

lemma build_bulk_update_built:
  assumes "build_bulk_update d table key cols rows = Inr (sql, args)" and "rows \<noteq> []"
  shows "built (stmt_alphabet d) sql args" and "length args = length rows * (2 * length cols + 1)"
    and "\<exists>pre. args = pre @ map (\<lambda>r. case r key of None \<Rightarrow> VNil | Some v \<Rightarrow> v) rows"
proof -
  let ?keys = "map (\<lambda>r. case r key of None \<Rightarrow> VNil | Some v \<Rightarrow> v) rows"
  let ?B = "built (stmt_alphabet d)"
  from assms obtain qt qk qu sets as where q: "quote_ident d table = Inr qt" "quote_ident d key = Inr qk"
      "quote_all d cols = Inr qu" "update_sets key qk (zip cols qu) rows = Inr (sets, as)"
    and a: "args = as @ ?keys"
    and sql: "sql = ''UPDATE '' @ qt @ '' SET '' @ join_with '','' sets @ '' WHERE '' @ qk @ '' IN ('' @
            trim_suffix '','' (concat (replicate (length rows) ''?,'')) @ '')''"
    by (auto simp: build_bulk_update_def split: if_splits)
  note qk = quoted_in_stmt [OF q(2)] and qt = quoted_in_stmt [OF q(1)]
  have qu: "set u \<subseteq> stmt_alphabet d" if "(c, u) \<in> set (zip cols qu)" for c u
    using quoted_all_in_stmt [OF q(3)] set_zip_rightD [OF that] by blast
  note sets = update_sets_built [OF qk qu q(4)]
  have "?B (trim_suffix '','' (concat (replicate (length rows) ''?,'')) @ '')'') ?keys"
    by (intro built_append_text built_marks_list) auto
  then have "?B ('' IN ('' @ trim_suffix '','' (concat (replicate (length rows) ''?,'')) @ '')'') ?keys"
    by (rule built_text_append) (auto simp: letter_simps)
  from built_text_append [OF this qk]
  have "?B ('' WHERE '' @ qk @ '' IN ('' @ trim_suffix '','' (concat (replicate (length rows) ''?,'')) @ '')'') ?keys"
    by (rule built_text_append) (auto simp: letter_simps)
  with sets have "?B (join_with '','' sets @ '' WHERE '' @ qk @ '' IN ('' @
      trim_suffix '','' (concat (replicate (length rows) ''?,'')) @ '')'') args"
    unfolding a by (intro built_append) auto
  then have "?B ('' SET '' @ join_with '','' sets @ '' WHERE '' @ qk @ '' IN ('' @
      trim_suffix '','' (concat (replicate (length rows) ''?,'')) @ '')'') args"
    by (rule built_text_append) (auto simp: letter_simps)
  from built_text_append [OF this qt] show "?B sql args"
    unfolding sql by (rule built_text_append) (auto simp: letter_simps)
  show "length args = length rows * (2 * length cols + 1)"
    using sets quote_all_length [OF q(3)] a by (simp add: algebra_simps)
  show "\<exists>pre. args = pre @ ?keys" using a by blast
qed

lemma upsert_suffix_alphabet:
  assumes "build_upsert_suffix d cols conflict update = Inr s"
  shows "set s \<subseteq> stmt_alphabet d"
proof -
  from assms obtain qu qk where q: "quote_all d update = Inr qu" "quote_all d conflict = Inr qk"
    by (auto simp: build_upsert_suffix_def)
  have "set (join_with '','' qk) \<subseteq> stmt_alphabet d"
    using quoted_all_in_stmt [OF q(2)] by (intro set_join_subset) auto
  moreover have "set (join_with '','' (map (\<lambda>c. c @ '' = EXCLUDED.'' @ c) qu)) \<subseteq> stmt_alphabet d"
    using quoted_all_chars [OF q(1)] by (intro set_join_subset) (auto simp: letter_simps)
  moreover have "set (join_with '','' (map (\<lambda>c. c @ '' = VALUES('' @ c @ '')'') qu)) \<subseteq> stmt_alphabet d"
    using quoted_all_chars [OF q(1)] by (intro set_join_subset) (auto simp: letter_simps)
  ultimately show ?thesis
    using assms q
    by (auto simp: build_upsert_suffix_def letter_simps Let_def split: if_splits list.splits
        dest!: quoted_in_stmt)
qed

section \<open>Words and MERGE\<close>

text \<open>
  The bytes of an identifier under \<open>(?i)\<close>, and the characters of a MERGE statement but its closing
  semicolon; \<open>merge_base\<close> is without the asterisk, which only an OUTPUT clause may contain.
\<close>

definition word_bytes :: "char set" where
  "word_bytes = Collect ident_char \<union> {CHR 0xC5, CHR 0xBF, CHR 0xE2, CHR 0x84, CHR 0xAA}"

definition merge_base :: "char set" where
  "merge_base = stmt_alphabet SQLServer \<union> word_bytes \<union> {CHR ''$''}"

definition merge_alphabet :: "char set" where
  "merge_alphabet = insert (CHR ''*'') merge_base"

lemma merge_base_chars [simp]:
  "c \<in> stmt_alphabet SQLServer \<Longrightarrow> c \<in> merge_base" "c \<in> word_bytes \<Longrightarrow> c \<in> merge_base"
  "CHR ''$'' \<in> merge_base" "CHR ''['' \<in> merge_base" "CHR '']'' \<in> merge_base"
  by (auto simp: merge_base_def, auto simp: stmt_alphabet_def ident_alphabet_def delimiters_def)

lemma merge_alphabet_chars [simp]:
  "c \<in> merge_base \<Longrightarrow> c \<in> merge_alphabet" "CHR ''*'' \<in> merge_alphabet"
  by (simp_all add: merge_alphabet_def)

lemma merge_base_safe: "merge_base \<inter> insert (CHR ''?'') (insert (CHR 0x22) sql_meta) = {}"
  by (auto simp: merge_base_def stmt_alphabet_def ident_alphabet_def delimiters_def word_bytes_def
      ident_char_def is_letter_def is_digit_def sql_meta_def)

text \<open>Every asterisk follows a dot: it stands for the columns of a table, as in \<open>INSERTED.*\<close>.\<close>

fun dotted_stars :: "char \<Rightarrow> string \<Rightarrow> bool" where
  "dotted_stars p [] = True"
| "dotted_stars p (c # s) = ((c = CHR ''*'' \<longrightarrow> p = CHR ''.'') \<and> dotted_stars c s)"

definition stars_ok :: "string \<Rightarrow> bool" where
  "stars_ok s \<longleftrightarrow> s = [] \<or> hd s \<noteq> CHR ''*'' \<and> dotted_stars (hd s) (tl s)"

lemma stars_ok_Cons: "stars_ok (c # s) \<longleftrightarrow> c \<noteq> CHR ''*'' \<and> dotted_stars c s"
  by (simp add: stars_ok_def)

lemma dotted_stars_append:
  "dotted_stars p (u @ v) \<longleftrightarrow> dotted_stars p u \<and> dotted_stars (last (p # u)) v"
  by (induction p u rule: dotted_stars.induct) auto

lemma stars_ok_dotted: "stars_ok s \<Longrightarrow> dotted_stars p s"
  by (cases s) (auto simp: stars_ok_def)

lemma stars_ok_append [intro]: "stars_ok u \<Longrightarrow> stars_ok v \<Longrightarrow> stars_ok (u @ v)"
  by (cases u) (auto simp: stars_ok_Cons dotted_stars_append stars_ok_dotted)

lemma dotted_stars_free: "CHR ''*'' \<notin> set s \<Longrightarrow> dotted_stars p s"
  by (induction p s rule: dotted_stars.induct) auto

lemma stars_ok_free: "CHR ''*'' \<notin> set s \<Longrightarrow> stars_ok s"
  by (cases s) (auto simp: stars_ok_def dotted_stars_free)

lemma stars_ok_base: "set s \<subseteq> merge_base \<Longrightarrow> stars_ok s"
  using merge_base_safe by (intro stars_ok_free) (auto simp: sql_meta_def)

lemma stars_ok_join: "stars_ok sep \<Longrightarrow> (\<And>w. w \<in> set ws \<Longrightarrow> stars_ok w) \<Longrightarrow> stars_ok (join_with sep ws)"
  by (induction sep ws rule: join_with.induct) (auto simp: stars_ok_free)

lemma word_start_bytes: "set (take (word_start_len s) s) \<subseteq> word_bytes"
  by (cases s)
     (auto simp: word_start_len_def word_bytes_def has_prefix_def ident_start_char numeral_eq_Suc)

lemma word_char_bytes: "set (take (word_char_len s) s) \<subseteq> word_bytes"
  using word_start_bytes [of s]
  by (cases s) (auto simp: word_char_len_def word_bytes_def ident_char_def split: if_splits)

lemma drop_word_split: "\<exists>p. s = p @ drop_word s \<and> set p \<subseteq> word_bytes"
proof (induction s rule: drop_word.induct)
  case (1 s)
  show ?case
  proof (cases "word_char_len s = 0")
    case True
    then show ?thesis by (subst drop_word.simps) simp
  next
    case False
    let ?t = "drop (word_char_len s) s"
    from 1 [OF False] obtain p where p: "?t = p @ drop_word ?t" "set p \<subseteq> word_bytes" by blast
    have "s = (take (word_char_len s) s @ p) @ drop_word ?t"
      using p(1) by (metis append.assoc append_take_drop_id)
    moreover have "drop_word s = drop_word ?t" using False by (subst drop_word.simps) simp
    ultimately show ?thesis using p(2) word_char_bytes [of s]
      by (intro exI [of _ "take (word_char_len s) s @ p"]) auto
  qed
qed

lemma take_word_bytes: "take_word s = Some (w, r) \<Longrightarrow> set w \<subseteq> word_bytes"
proof -
  assume a: "take_word s = Some (w, r)"
  let ?t = "drop (word_start_len s) s"
  obtain p where p: "?t = p @ drop_word ?t" "set p \<subseteq> word_bytes" using drop_word_split by blast
  have s: "s = (take (word_start_len s) s @ p) @ drop_word ?t"
    using p(1) by (metis append.assoc append_take_drop_id)
  have "w = take (length s - length (drop_word ?t)) s"
    using a by (auto simp: take_word_def Let_def split: if_splits)
  also have "\<dots> = take (word_start_len s) s @ p"
  proof -
    have "length s = length (take (word_start_len s) s @ p) + length (drop_word ?t)"
      using arg_cong [OF s, of length] by simp
    then have "length s - length (drop_word ?t) = length (take (word_start_len s) s @ p)" by linarith
    then have "take (length s - length (drop_word ?t)) s = take (length (take (word_start_len s) s @ p)) s"
      by (rule arg_cong)
    also have "\<dots> = take (word_start_len s) s @ p" using s by (metis append_eq_conv_conj)
    finally show ?thesis .
  qed
  finally show ?thesis using p(2) word_start_bytes [of s] by auto
qed

lemma output_column_text:
  assumes "output_column table s = Some (c, r)" and table: "set table \<subseteq> merge_base"
  shows "set c \<subseteq> merge_alphabet \<and> stars_ok c"
proof -
  have base: "x \<in> merge_base" if "x \<in> set table" for x using table that by blast
  have bytes: "x \<in> merge_base" if "take_word t = Some (w, t')" "x \<in> set w" for t w t' x
    using take_word_bytes [OF that(1)] that(2) by auto
  from assms(1) consider "c = table @ ''.*''" | w t t' where "take_word t = Some (w, t')" "c = table @ ''.['' @ w @ '']''"
    by (auto simp: output_column_def split: option.splits list.splits if_splits)
  then show ?thesis
  proof cases
    case 1
    have "stars_ok ''.*''" by (simp add: stars_ok_def)
    then show ?thesis unfolding 1 using base stars_ok_base [OF table] by auto
  next
    case 2
    have "set c \<subseteq> merge_base" using base bytes [OF 2(1)] by (auto simp: 2(2))
    then show ?thesis by (auto simp: stars_ok_base)
  qed
qed

lemma output_item_text:
  assumes "output_item s = Some t"
  shows "set t \<subseteq> merge_alphabet \<and> stars_ok t"
proof -
  from assms obtain r rest a where h: "output_head s = Some (r, rest)" and a: "output_alias rest = Some a"
    and t: "t = r @ a"
    by (auto simp: output_item_def split: option.splits)
  from h consider "r = ''$action''" | "output_column ''INSERTED'' s = Some (r, rest)"
    | "output_column ''DELETED'' s = Some (r, rest)"
    by (auto simp: output_head_def split: option.splits)
  then have "set r \<subseteq> merge_alphabet \<and> stars_ok r"
  proof cases
    case 1
    then show ?thesis by (simp add: letter_simps stars_ok_free)
  qed (erule output_column_text, simp add: letter_simps)+
  moreover from a consider "a = []" | w u where "take_word u = Some (w, [])" "a = '' AS ['' @ w @ '']''"
    by (auto simp: output_alias_def Let_def split: if_splits option.splits list.splits)
  then have "set a \<subseteq> merge_base"
  proof cases
    case 2
    then show ?thesis using take_word_bytes [OF 2(1)] merge_base_chars(2)
      by (auto simp: letter_simps)
  qed simp
  ultimately show ?thesis using stars_ok_base [of a] by (auto simp: t)
qed

lemma output_clause_text:
  assumes "normalize_output_clause s = Inr t"
  shows "set t \<subseteq> merge_alphabet \<and> stars_ok t"
proof -
  have item: "set x \<subseteq> merge_alphabet \<and> stars_ok x"
    if "(case output_item (trim_space it) of None \<Rightarrow> Inl (Bad_output_item (trim_space it)) | Some r \<Rightarrow> Inr r) = Inr x"
    for it x
    using that output_item_text by (auto split: option.splits)
  have parts: "set (join_with '', '' out) \<subseteq> merge_alphabet \<and> stars_ok (join_with '', '' out)"
    if "res_map (\<lambda>it. case output_item (trim_space it) of
            None \<Rightarrow> Inl (Bad_output_item (trim_space it)) | Some r \<Rightarrow> Inr r) ps = Inr out" for ps out
  proof -
    have "set x \<subseteq> merge_alphabet \<and> stars_ok x" if "x \<in> set out" for x
      using that \<open>res_map _ ps = Inr out\<close> item by (auto elim!: res_map_set)
    then show ?thesis by (intro conjI set_join_subset stars_ok_join) (auto simp: stars_ok_free)
  qed
  have word: "stars_ok ''OUTPUT ''" by (simp add: stars_ok_free)
  from assms consider "t = []" | ps out where "res_map (\<lambda>it. case output_item (trim_space it) of
            None \<Rightarrow> Inl (Bad_output_item (trim_space it)) | Some r \<Rightarrow> Inr r) ps = Inr out"
      "t = ''OUTPUT '' @ join_with '', '' out"
    by (auto simp: normalize_output_clause_def Let_def split: if_splits)
  then show ?thesis
  proof cases
    case 1
    then show ?thesis by (simp add: stars_ok_def)
  next
    case 2
    then show ?thesis using parts [OF 2(1)] stars_ok_append [OF word] by (auto simp: letter_simps)
  qed
qed

lemma hint_alphabet:
  assumes "normalize_table_hint h = Inr t"
  shows "set t \<subseteq> merge_base"
proof -
  have "set p \<subseteq> merge_base" if "p \<in> set merge_hints" for p
    using that by (auto simp: merge_hints_def letter_simps)
  then have "set (join_with '', '' ps) \<subseteq> merge_base" if "list_all (\<lambda>p. p \<in> set merge_hints) ps" for ps
    using that by (intro set_join_subset) (auto simp: list_all_iff)
  from this [THEN subsetD] assms show ?thesis
    by (auto simp: normalize_table_hint_def Let_def letter_simps split: if_splits)
qed

lemma render_output_alphabet:
  assumes "render_output x = Inr t"
  shows "set t \<subseteq> merge_base"
proof -
  have q: "x \<in> merge_base" if "quote_idents SQLServer ns = Inr qs" "q \<in> set qs" "x \<in> set q" for ns qs q x
    using quoted_all_chars [of SQLServer ns qs q x] that by (simp add: quote_all_def)
  from assms show ?thesis
  proof (cases x)
    case None
    with assms show ?thesis by (simp add: render_output_def)
  next
    case (Some y)
    with assms obtain ins del where idents: "quote_idents SQLServer (uo_inserted_cols y) = Inr ins"
        "quote_idents SQLServer (uo_deleted_cols y) = Inr del"
      by (auto simp: render_output_def)
    define parts where "parts = (if uo_include_action y then [''$action AS [action]''] else [])
        @ map (\<lambda>q. ''INSERTED.'' @ q) ins @ map (\<lambda>q. ''DELETED.'' @ q) del"
    have "set (join_with '', '' parts) \<subseteq> merge_base"
      using q [OF idents(1)] q [OF idents(2)]
      by (intro set_join_subset) (auto simp: parts_def letter_simps split: if_splits)
    moreover have "t = (if parts = [] then [] else ''OUTPUT '' @ join_with '', '' parts)"
      using assms Some idents by (simp only: render_output_def parts_def Let_def option.case
        res_bind_simps ident_result_def sum.case) simp
    ultimately show ?thesis by (auto simp: letter_simps)
  qed
qed

lemma merge_extras_text:
  assumes "merge_extras opts = Inr (hint, out)"
  shows "set hint \<subseteq> merge_base \<and> set out \<subseteq> merge_alphabet \<and> stars_ok out"
proof -
  have "set t \<subseteq> merge_alphabet \<and> stars_ok t" if "render_output y = Inr t" for y t
    using render_output_alphabet [OF that] by (auto simp: stars_ok_base)
  then show ?thesis
    using assms hint_alphabet output_clause_text
    by (fastforce simp: merge_extras_def stars_ok_def split: option.splits if_splits)
qed

lemma build_merge_built:
  assumes "build_merge table cols keys upd rows opts = Inr (sql, args)" and "cols \<noteq> []" "rows \<noteq> []"
  shows "\<exists>body. sql = body @ '';'' \<and> built merge_alphabet body args \<and> stars_ok body"
    and "args = concat rows" and "\<forall>r\<in>set rows. length r = length cols"
proof -
  from assms obtain qt qc qk qu hint out where
    q: "quote_ident SQLServer table = Inr qt" "quote_all SQLServer cols = Inr qc"
      "quote_all SQLServer keys = Inr qk" "quote_all SQLServer upd = Inr qu"
    and rows: "check_rows cols rows 0 = None" and ex: "merge_extras opts = Inr (hint, out)"
    and a: "args = concat rows"
    and sql: "sql = merge_head qt hint @ values_text (length cols) rows @ merge_tail qc qk qu out"
    by (auto simp: build_merge_def split: if_splits option.splits)
  show "args = concat rows" by (rule a)
  show len: "\<forall>r\<in>set rows. length r = length cols" using rows by (simp add: check_rows_None)
  note ex = merge_extras_text [OF ex]
  note in_merge = merge_base_chars(1)
  have h: "x \<in> set hint \<Longrightarrow> x \<in> merge_base" for x using ex by blast
  have t: "x \<in> set qt \<Longrightarrow> x \<in> merge_base" for x using quoted_in_stmt [OF q(1)] in_merge by blast
  note c = quoted_all_chars [OF q(2), THEN in_merge] and k = quoted_all_chars [OF q(3), THEN in_merge]
    and u = quoted_all_chars [OF q(4), THEN in_merge]
  have 1: "set (join_with '','' qc) \<subseteq> merge_base" using c by (intro set_join_subset) auto
  have 2: "set (join_with '' AND '' (map (\<lambda>k. ''target.'' @ k @ '' = src.'' @ k) qk)) \<subseteq> merge_base"
    using k by (intro set_join_subset) (auto simp: letter_simps)
  have 3: "set (join_with '','' (map (\<lambda>c. ''target.'' @ c @ '' = src.'' @ c) qu)) \<subseteq> merge_base"
    using u by (intro set_join_subset) (auto simp: letter_simps)
  have 4: "set (join_with '','' (map (\<lambda>c. ''src.'' @ c) qc)) \<subseteq> merge_base"
    using c by (intro set_join_subset) (auto simp: letter_simps)
  have 5: "set (if qu = [] then [] else ''WHEN MATCHED THEN UPDATE SET '' @
      join_with '','' (map (\<lambda>c. ''target.'' @ c @ '' = src.'' @ c) qu) @ '' '') \<subseteq> merge_base"
    using 3 by (simp add: letter_simps)
  define mid where "mid = '') AS src ('' @ join_with '','' qc @ '') ON ('' @
     join_with '' AND '' (map (\<lambda>k. ''target.'' @ k @ '' = src.'' @ k) qk) @ '') '' @
     (if qu = [] then [] else ''WHEN MATCHED THEN UPDATE SET '' @
       join_with '','' (map (\<lambda>c. ''target.'' @ c @ '' = src.'' @ c) qu) @ '' '') @
     ''WHEN NOT MATCHED THEN INSERT ('' @ join_with '','' qc @ '') VALUES ('' @
     join_with '','' (map (\<lambda>c. ''src.'' @ c) qc) @ '') ''"
  define outp where "outp = (if out = [] then [] else out @ '' '')"
  have tail: "merge_tail qc qk qu out = mid @ outp @ '';''"
    by (simp add: mid_def outp_def merge_tail_def)
  have mid: "set mid \<subseteq> merge_base"
    unfolding mid_def set_append Un_subset_iff
    by (intro conjI 1 2 4 5) (simp_all add: letter_simps)
  have head: "set (merge_head qt hint) \<subseteq> merge_base"
    using t h by (auto simp: merge_head_def letter_simps)
  have vals: "built merge_base (values_text (length cols) rows) args"
    unfolding a using len by (intro built_values) auto
  have flat: "built {CHR '','', CHR ''('', CHR '')''} (values_text (length cols) rows) args"
    unfolding a using len by (intro built_values) auto
  have "CHR ''*'' \<notin> set (values_text (length cols) rows)" using built_alphabet [OF flat] by auto
  then have s2: "stars_ok (values_text (length cols) rows)" by (rule stars_ok_free)
  have vals: "built merge_alphabet (values_text (length cols) rows) args"
    unfolding a using len by (intro built_values) auto
  have s3: "stars_ok outp" and "set outp \<subseteq> merge_alphabet"
    using ex by (auto simp: outp_def stars_ok_free)
  then have "built merge_alphabet (merge_head qt hint @ values_text (length cols) rows @ mid @ outp) args"
    using vals mid head by (intro built_text_append built_append_text) auto
  moreover have "stars_ok (merge_head qt hint @ values_text (length cols) rows @ mid @ outp)"
    by (intro stars_ok_append s2 s3 stars_ok_base head mid)
  ultimately show "\<exists>body. sql = body @ '';'' \<and> built merge_alphabet body args \<and> stars_ok body"
    unfolding sql tail by (intro exI conjI) auto
qed

text \<open>What holds of each batch holds of all, and the batches are the rows in order.\<close>

lemma batches_from_all:
  assumes "batches_from n bs build s = Inr stmts" and "n = length rows"
    and step: "\<And>s e st. s < e \<Longrightarrow> e \<le> n \<Longrightarrow> e \<le> s + bs \<Longrightarrow> build s e = Inr st \<Longrightarrow>
      Q st \<and> f st = concat (map g (slice s e rows))"
  shows "(\<forall>st\<in>set stmts. Q st) \<and> concat (map f stmts) = concat (map g (drop s rows))"
  using assms(1)
proof (induction "n - s" arbitrary: s stmts rule: less_induct)
  case less
  show ?case
  proof (cases "n \<le> s")
    case True
    with less.prems assms(2) show ?thesis
      by (subst (asm) batches_from.simps) (auto split: if_splits)
  next
    case False
    with less.prems obtain st rest where bs: "bs \<noteq> 0" and st: "build s (min n (s + bs)) = Inr st"
      and rest: "batches_from n bs build (s + bs) = Inr rest" and stmts: "stmts = st # rest"
      by (subst (asm) batches_from.simps) (auto split: if_splits)
    have one: "Q st \<and> f st = concat (map g (slice s (min n (s + bs)) rows))"
      by (rule step [OF _ _ _ st]) (use False bs in auto)
    have IH: "(\<forall>st\<in>set rest. Q st) \<and> concat (map f rest) = concat (map g (drop (s + bs) rows))"
      by (rule less.hyps [OF _ rest]) (use False bs in auto)
    have "slice s (min n (s + bs)) rows @ drop (s + bs) rows = drop s rows"
      using assms(2) False by (auto simp: slice_def min_def add.commute simp flip: drop_drop)
    then have "concat (map g (drop s rows))
        = concat (map g (slice s (min n (s + bs)) rows)) @ concat (map g (drop (s + bs) rows))"
      by (metis concat_append map_append)
    with one IH show ?thesis by (simp add: stmts)
  qed
qed

text \<open>
  A statement as the database may take it: as many placeholders as arguments, not more than the
  dialect allows, and no character that could end the statement, start a comment or a literal.
  MERGE is the one statement with a semicolon, which is its last character, and with asterisks,
  each of them right after the dot of a table name.
\<close>

definition stmt_text_ok :: "dialect \<Rightarrow> string \<Rightarrow> bool" where
  "stmt_text_ok d sql \<longleftrightarrow> set sql \<inter> sql_meta = {} \<or>
     d = SQLServer \<and> sql \<noteq> [] \<and> last sql = CHR '';'' \<and>
     set (butlast sql) \<inter> insert (CHR 0x22) (sql_meta - {CHR ''*''}) = {} \<and> stars_ok (butlast sql)"

definition stmt_fits :: "dialect \<Rightarrow> built_stmt \<Rightarrow> bool" where
  "stmt_fits d st \<longleftrightarrow> count_list (fst st) (CHR ''?'') = length (snd st)
     \<and> int (length (snd st)) \<le> max_params_for (dialect_name d) \<and> stmt_text_ok d (fst st)"

lemma stmt_fits_built:
  assumes "built (stmt_alphabet d) sql args" and "int (length args) \<le> max_params_for (dialect_name d)"
  shows "stmt_fits d (sql, args)"
proof -
  have "CHR ''?'' \<notin> sql_meta" by (simp add: sql_meta_def)
  then have "set sql \<inter> sql_meta = {}"
    using built_alphabet [OF assms(1)] stmt_alphabet_safe [of d] by blast
  then show ?thesis
    using built_marks [OF assms(1)] assms(2) by (simp add: stmt_fits_def stmt_text_ok_def)
qed

lemma stmt_fits_merge:
  assumes "\<exists>body. sql = body @ '';'' \<and> built merge_alphabet body args \<and> stars_ok body"
    and "int (length args) \<le> max_params_for (dialect_name SQLServer)"
  shows "stmt_fits SQLServer (sql, args)"
proof -
  from assms(1) obtain body where sql: "sql = body @ '';''" and body: "built merge_alphabet body args"
    and stars: "stars_ok body" by blast
  have "CHR ''?'' \<notin> merge_alphabet" using merge_base_safe by (auto simp: merge_alphabet_def)
  from built_marks [OF body this] have "count_list sql (CHR ''?'') = length args" by (simp add: sql)
  moreover have "CHR ''?'' \<notin> insert (CHR 0x22) sql_meta" by (simp add: sql_meta_def)
  then have "set body \<inter> insert (CHR 0x22) (sql_meta - {CHR ''*''}) = {}"
    using built_alphabet [OF body] merge_base_safe by (auto simp: merge_alphabet_def)
  ultimately show ?thesis using assms(2) stars by (simp add: stmt_fits_def stmt_text_ok_def sql)
qed

section \<open>Bulk statements\<close>

text \<open>The size of a slice, and what the batch size guarantees for it.\<close>

lemma slice_length: "e \<le> length rows \<Longrightarrow> length (slice s e rows) = e - s"
  by (simp add: slice_def)

lemma slice_nonempty: "s < e \<Longrightarrow> e \<le> length rows \<Longrightarrow> slice s e rows \<noteq> []"
  using slice_length [of e rows s] by auto

lemma batch_fits:
  assumes "batch_size_for d per_row batch = Inr bs" and "0 < per_row" and "batch * per_row < 2 ^ 63"
    and "e \<le> s + nat bs"
  shows "int (e - s) * per_row \<le> max_params_for d"
proof -
  have b: "1 \<le> bs" "bs * per_row \<le> max_params_for d"
    using batch_size_for_fits [OF assms(2,3), of d] assms(1) by simp_all
  have "int (e - s) \<le> bs" using assms(4) b(1) by linarith
  then have "int (e - s) * per_row \<le> bs * per_row" using assms(2) by simp
  with b(2) show ?thesis by linarith
qed

lemma length_concat_const: "(\<And>r. r \<in> set rows \<Longrightarrow> length r = n) \<Longrightarrow> length (concat rows) = length rows * n"
  by (induction rows) auto

text \<open>
  Bulk inserts and upserts are both batches of the rows: a batch's statement carries the values of
  its rows, which all have the width of the columns.
\<close>

lemma bulk_stmts_batches:
  assumes "bulk_insert_stmts d table cols rows batch = Inr stmts \<or>
      bulk_upsert_stmts d table cols conflict update rows batch opts = Inr stmts"
    and cols: "cols \<noteq> []" and rows: "rows \<noteq> []"
  obtains bs build where "batch_size_for (dialect_name d) (int (length cols)) batch = Inr bs"
    and "batches_from (length rows) (nat bs) build 0 = Inr stmts"
    and "\<And>s e sql args. s < e \<Longrightarrow> e \<le> length rows \<Longrightarrow> build s e = Inr (sql, args) \<Longrightarrow>
      args = concat (slice s e rows) \<and> (\<forall>r\<in>set (slice s e rows). length r = length cols) \<and>
      (built (stmt_alphabet d) sql args \<or> d = SQLServer \<and>
        (\<exists>body. sql = body @ '';'' \<and> built merge_alphabet body args \<and> stars_ok body))"
proof -
  let ?n = "int (length cols)"
  from assms(1) show thesis
  proof (elim disjE)
    assume ins: "bulk_insert_stmts d table cols rows batch = Inr stmts"
    then obtain bs where "batch_size_for (dialect_name d) ?n batch = Inr bs"
      "batches_from (length rows) (nat bs) (\<lambda>s e. build_insert d table cols (slice s e rows)) 0 = Inr stmts"
      using cols rows by (auto simp: bulk_insert_stmts_def build_batches_def)
    then show thesis by (rule that) (auto dest: build_insert_built)
  next
    assume "bulk_upsert_stmts d table cols conflict update rows batch opts = Inr stmts"
    then obtain bs suffix where bs: "batch_size_for (dialect_name d) ?n batch = Inr bs"
      and suffix: "d \<noteq> SQLServer \<Longrightarrow> build_upsert_suffix d cols conflict update = Inr suffix"
      and st: "batches_from (length rows) (nat bs) (\<lambda>s e.
          if d = SQLServer then build_merge table cols conflict update (slice s e rows) opts
          else res_bind (build_insert d table cols (slice s e rows)) (\<lambda>(q, args).
            Inr (q @ '' '' @ suffix, args))) 0 = Inr stmts"
      using cols rows by (auto simp: bulk_upsert_stmts_def build_batches_def split: if_splits)
    from bs st show thesis
    proof (rule that)
      fix s e sql args
      assume se: "s < e" "e \<le> length rows"
        and b: "(if d = SQLServer then build_merge table cols conflict update (slice s e rows) opts
          else res_bind (build_insert d table cols (slice s e rows)) (\<lambda>(q, args).
            Inr (q @ '' '' @ suffix, args))) = Inr (sql, args)"
      show "args = concat (slice s e rows) \<and> (\<forall>r\<in>set (slice s e rows). length r = length cols) \<and>
        (built (stmt_alphabet d) sql args \<or> d = SQLServer \<and>
        (\<exists>body. sql = body @ '';'' \<and> built merge_alphabet body args \<and> stars_ok body))"
      proof (cases "d = SQLServer")
        case True
        with b have m: "build_merge table cols conflict update (slice s e rows) opts = Inr (sql, args)" by simp
        show ?thesis using True build_merge_built [OF m cols slice_nonempty [OF se]] by simp
      next
        case False
        with b obtain q where q: "build_insert d table cols (slice s e rows) = Inr (q, args)"
          and sql: "sql = q @ '' '' @ suffix"
          by auto
        have "built (stmt_alphabet d) sql args"
          unfolding sql using upsert_suffix_alphabet [OF suffix [OF False]] build_insert_built(1) [OF q]
          by (intro built_append_text) auto
        with build_insert_built(2,3) [OF q] show ?thesis by simp
      qed
    qed
  qed
qed



text \<open>
  Bulk updates stay within the limits too: each statement of \<open>BulkUpdateByKey\<close> has two
  arguments per column and row and one more per row, as many as it has placeholders, and the last
  ones are the keys of its rows; all rows are covered, in order.
\<close>

theorem bulk_update_fits:
  assumes run: "bulk_update_stmts d table key update rows batch = Inr stmts" and rows: "rows \<noteq> []"
    and small: "batch * (2 * int (length update) + 1) < 2 ^ 63"
  shows "(\<forall>st\<in>set stmts. stmt_fits d st \<and> length (snd st) mod (2 * length update + 1) = 0) \<and>
    concat (map (\<lambda>st. drop (length (snd st) div (2 * length update + 1) * (2 * length update)) (snd st)) stmts)
      = map (\<lambda>r. case r key of None \<Rightarrow> VNil | Some v \<Rightarrow> v) rows"
proof -
  let ?p = "2 * int (length update) + 1"
  let ?q = "2 * length update + 1"
  let ?key = "\<lambda>r. case r key of None \<Rightarrow> VNil | Some v \<Rightarrow> v"
  let ?f = "\<lambda>st :: built_stmt. drop (length (snd st) div ?q * (2 * length update)) (snd st)"
  from run rows obtain bs where bs: "batch_size_for (dialect_name d) ?p batch = Inr bs"
    and stmts: "batches_from (length rows) (nat bs)
      (\<lambda>s e. build_bulk_update d table key update (slice s e rows)) 0 = Inr stmts"
    by (auto simp: bulk_update_stmts_def build_batches_def)
  have "(\<forall>st\<in>set stmts. stmt_fits d st \<and> length (snd st) mod ?q = 0)
      \<and> concat (map ?f stmts) = concat (map (\<lambda>r. [?key r]) (drop 0 rows))"
  proof (rule batches_from_all [OF stmts refl])
    fix s e st
    assume se: "s < e" "e \<le> length rows" "e \<le> s + nat bs"
      and b: "build_bulk_update d table key update (slice s e rows) = Inr st"
    obtain sql args where st: "st = (sql, args)" by fastforce
    note B = build_bulk_update_built [OF b [unfolded st] slice_nonempty [OF se(1,2)]]
    have len: "length args = (e - s) * ?q" using B(2) slice_length [OF se(2), of s] by simp
    then have "int (length args) = int (e - s) * ?p" by (simp only: of_nat_mult) simp
    then have "int (length args) \<le> max_params_for (dialect_name d)"
      using batch_fits [OF bs _ small se(3)] by simp
    with B(1) have fits: "stmt_fits d st" unfolding st by (rule stmt_fits_built)
    from B(3) obtain pre where args: "args = pre @ map ?key (slice s e rows)" by blast
    have "length pre = (e - s) * (2 * length update)"
      using args len slice_length [OF se(2), of s] by (simp add: algebra_simps)
    moreover have "length args div ?q = e - s" unfolding len by (rule nonzero_mult_div_cancel_right) simp
    ultimately have "?f st = map ?key (slice s e rows)" by (simp add: st args)
    moreover have "length (snd st) mod ?q = 0" unfolding st snd_conv len by (rule mod_mult_self2_is_0)
    moreover have "concat (map (\<lambda>r. [?key r]) xs) = map ?key xs" for xs by (induction xs) auto
    ultimately show "(stmt_fits d st \<and> length (snd st) mod ?q = 0)
        \<and> ?f st = concat (map (\<lambda>r. [?key r]) (slice s e rows))"
      using fits by simp
  qed
  moreover have "concat (map (\<lambda>r. [?key r]) rows) = map ?key rows" by (induction rows) auto
  ultimately show ?thesis by simp
qed

lemma bulk_update_fits_witness:
  "\<exists>stmts. bulk_update_stmts MySQL ''t'' ''id'' [''a'']
      [[''id'' \<mapsto> VInt 1, ''a'' \<mapsto> VNil], [''id'' \<mapsto> VInt 2, ''a'' \<mapsto> VInt 5]] 0 = Inr stmts
    \<and> (\<forall>st\<in>set stmts. stmt_fits MySQL st)"
proof -
  have "\<exists>stmts. bulk_update_stmts MySQL ''t'' ''id'' [''a'']
      [[''id'' \<mapsto> VInt 1, ''a'' \<mapsto> VNil], [''id'' \<mapsto> VInt 2, ''a'' \<mapsto> VInt 5]] 0 = Inr stmts"
    by (rule exI, code_simp)
  then obtain stmts where "bulk_update_stmts MySQL ''t'' ''id'' [''a'']
      [[''id'' \<mapsto> VInt 1, ''a'' \<mapsto> VNil], [''id'' \<mapsto> VInt 2, ''a'' \<mapsto> VInt 5]] 0 = Inr stmts" by blast
  from bulk_update_fits [OF this] this show ?thesis by simp
qed

end
