(* ===== verification/Stmt_Cache.thy ===== *)
theory Stmt_Cache
  imports Prelude "HOL-Library.AList"
begin

text \<open>
  pkg/db/stmtcache.go: the LRU cache of prepared statements. The entries the code reaches by
  pointer live in a heap (\<open>sc_heap\<close>, an entry's address is its index); \<open>sc_items\<close> is the Go
  map, \<open>sc_lru\<close> the list with the most recently used entry first, and \<open>sc_closes\<close> logs the
  calls of \<open>stmt.Close()\<close>. \<open>acquire\<close> gives up the lock while it prepares, so it is two
  operations here, and the step relation \<open>sc_step\<close> interleaves the callers in any order.
\<close>

section \<open>State and operations\<close>

record stmt_entry =
  en_key :: string
  en_stmt :: nat
  en_refs :: int
  en_evicted :: bool
  en_elem :: bool \<comment> \<open>whether \<open>elem\<close> is not nil\<close>

record stmt_cache =
  sc_size :: int
  sc_items :: "(string \<times> nat) list"
  sc_lru :: "nat list"
  sc_closed :: bool
  sc_prepares :: nat
  sc_hits :: nat
  sc_heap :: "stmt_entry list"
  sc_closes :: "nat list"

definition new_stmt_cache :: "int \<Rightarrow> stmt_cache" where
  "new_stmt_cache n = \<lparr>sc_size = n, sc_items = [], sc_lru = [], sc_closed = False,
     sc_prepares = 0, sc_hits = 0, sc_heap = [], sc_closes = []\<rparr>"

text \<open>An entry found in the map: one more user, moved to the front, counted as a hit.\<close>

definition use_entry :: "nat \<Rightarrow> stmt_cache \<Rightarrow> stmt_cache" where
  "use_entry e c = c\<lparr>
     sc_heap := (sc_heap c)[e := (sc_heap c ! e)\<lparr>en_refs := en_refs (sc_heap c ! e) + 1\<rparr>],
     sc_lru := e # removeAll e (sc_lru c),
     sc_hits := sc_hits c + 1\<rparr>"

text \<open>The first critical section of \<open>acquire\<close>: \<open>None\<close> when a statement must be prepared.\<close>

definition acquire_lookup :: "string \<Rightarrow> stmt_cache \<Rightarrow> (nat \<times> stmt_cache) option" where
  "acquire_lookup key c = (case map_of (sc_items c) key of
       Some e \<Rightarrow> if sc_closed c then None else Some (e, use_entry e c)
     | None \<Rightarrow> None)"

definition evict_locked :: "nat \<Rightarrow> stmt_cache \<Rightarrow> stmt_cache" where
  "evict_locked e c =
     (let en = sc_heap c ! e in
      if en_evicted en then c
      else c\<lparr>
        sc_heap := (sc_heap c)[e := en\<lparr>en_evicted := True, en_elem := False\<rparr>],
        sc_lru := (if en_elem en then removeAll e (sc_lru c) else sc_lru c),
        sc_items := AList.delete (en_key en) (sc_items c),
        sc_closes := sc_closes c @ (if en_refs en = 0 then [en_stmt en] else [])\<rparr>)"

text \<open>The loop that makes room; that it ends rests on the invariant, so it is partial here.\<close>

partial_function (option) evict_loop :: "stmt_cache \<Rightarrow> stmt_cache option" where
  "evict_loop c =
     (if 0 < sc_size c \<and> sc_size c < int (length (sc_items c))
      then (if sc_lru c = [] then Some c else evict_loop (evict_locked (last (sc_lru c)) c))
      else Some c)"

text \<open>The second critical section of \<open>acquire\<close>, with the prepared statement \<open>s\<close>.\<close>

definition acquire_insert :: "string \<Rightarrow> nat \<Rightarrow> stmt_cache \<Rightarrow> (nat \<times> stmt_cache) option" where
  "acquire_insert key s c =
     (let e = length (sc_heap c) in
      if sc_closed c
      then Some (e, c\<lparr>sc_prepares := sc_prepares c + 1,
                      sc_heap := sc_heap c @ [\<lparr>en_key = key, en_stmt = s, en_refs = 1,
                                              en_evicted = True, en_elem = False\<rparr>]\<rparr>)
      else (case map_of (sc_items c) key of
          Some e' \<Rightarrow> Some (e', use_entry e' (c\<lparr>sc_closes := sc_closes c @ [s]\<rparr>))
        | None \<Rightarrow> map_option (Pair e) (evict_loop (c\<lparr>
            sc_heap := sc_heap c @ [\<lparr>en_key = key, en_stmt = s, en_refs = 1,
                                    en_evicted = False, en_elem = True\<rparr>],
            sc_lru := e # sc_lru c,
            sc_items := (key, e) # sc_items c,
            sc_prepares := sc_prepares c + 1\<rparr>))))"

definition release :: "nat \<Rightarrow> stmt_cache \<Rightarrow> stmt_cache" where
  "release e c =
     (let en = (sc_heap c ! e)\<lparr>en_refs := en_refs (sc_heap c ! e) - 1\<rparr> in
      c\<lparr>sc_heap := (sc_heap c)[e := en],
        sc_closes := sc_closes c @ (if en_evicted en \<and> en_refs en = 0 then [en_stmt en] else [])\<rparr>)"

text \<open>\<open>closeAll\<close> ranges over the map in the order \<open>es\<close>, which Go leaves open.\<close>

definition close_all :: "nat list \<Rightarrow> stmt_cache \<Rightarrow> stmt_cache" where
  "close_all es c = fold evict_locked es (c\<lparr>sc_closed := True\<rparr>)"

definition cache_len :: "stmt_cache \<Rightarrow> nat" where
  "cache_len c = length (sc_items c)"

section \<open>The callers\<close>

text \<open>
  The cache with its callers: \<open>sy_handles\<close> are the entries acquired and not yet released,
  \<open>sy_pending\<close> the callers that have prepared a statement and wait for the lock, and
  statements are numbered in the order \<open>PrepareContext\<close> returned them.
\<close>

record sc_sys =
  sy_cache :: stmt_cache
  sy_handles :: "nat list"
  sy_pending :: "(string \<times> nat) list"
  sy_next :: nat

definition sc_init :: "sc_sys \<Rightarrow> bool" where
  "sc_init s \<longleftrightarrow> (\<exists>n. sy_cache s = new_stmt_cache n)
     \<and> sy_handles s = [] \<and> sy_pending s = [] \<and> sy_next s = 0"

inductive sc_step :: "sc_sys \<Rightarrow> sc_sys \<Rightarrow> bool" where
  step_hit: "acquire_lookup key (sy_cache s) = Some (e, c) \<Longrightarrow>
    sc_step s (s\<lparr>sy_cache := c, sy_handles := e # sy_handles s\<rparr>)"
| step_prepare: "acquire_lookup key (sy_cache s) = None \<Longrightarrow>
    sc_step s (s\<lparr>sy_pending := (key, sy_next s) # sy_pending s, sy_next := Suc (sy_next s)\<rparr>)"
| step_insert: "(key, st) \<in> set (sy_pending s) \<Longrightarrow> acquire_insert key st (sy_cache s) = Some (e, c) \<Longrightarrow>
    sc_step s (s\<lparr>sy_cache := c, sy_handles := e # sy_handles s,
                 sy_pending := remove1 (key, st) (sy_pending s)\<rparr>)"
| step_release: "e \<in> set (sy_handles s) \<Longrightarrow>
    sc_step s (s\<lparr>sy_cache := release e (sy_cache s), sy_handles := remove1 e (sy_handles s)\<rparr>)"
| step_close_all: "distinct es \<Longrightarrow> set es = snd ` set (sc_items (sy_cache s)) \<Longrightarrow>
    sc_step s (s\<lparr>sy_cache := close_all es (sy_cache s)\<rparr>)"

inductive_cases sc_stepE: "sc_step s t"

section \<open>The invariant of the cache\<close>

text \<open>
  The map, the LRU list and the live entries of the heap are the same set; a statement is closed
  once, and exactly when its entry is evicted and out of use.
\<close>

definition cache_ok :: "stmt_cache \<Rightarrow> bool" where
  "cache_ok c \<longleftrightarrow>
     distinct (map fst (sc_items c)) \<and>
     (\<forall>(k, e)\<in>set (sc_items c). e < length (sc_heap c) \<and> en_key (sc_heap c ! e) = k
        \<and> \<not> en_evicted (sc_heap c ! e)) \<and>
     distinct (sc_lru c) \<and> set (sc_lru c) = snd ` set (sc_items c) \<and>
     (\<forall>e<length (sc_heap c). \<not> en_evicted (sc_heap c ! e) \<longrightarrow>
        (en_key (sc_heap c ! e), e) \<in> set (sc_items c)) \<and>
     (\<forall>e<length (sc_heap c). en_elem (sc_heap c ! e) \<longleftrightarrow> \<not> en_evicted (sc_heap c ! e)) \<and>
     distinct (map en_stmt (sc_heap c)) \<and> distinct (sc_closes c) \<and>
     (\<forall>e<length (sc_heap c). en_stmt (sc_heap c ! e) \<in> set (sc_closes c) \<longleftrightarrow>
        en_evicted (sc_heap c ! e) \<and> en_refs (sc_heap c ! e) = 0)"

lemma cache_ok_keys: "cache_ok c \<Longrightarrow> distinct (map fst (sc_items c))"
  and cache_ok_items: "cache_ok c \<Longrightarrow> (k, e) \<in> set (sc_items c) \<Longrightarrow>
    e < length (sc_heap c) \<and> en_key (sc_heap c ! e) = k \<and> \<not> en_evicted (sc_heap c ! e)"
  and cache_ok_lru: "cache_ok c \<Longrightarrow> distinct (sc_lru c)"
  and cache_ok_lru_set: "cache_ok c \<Longrightarrow> set (sc_lru c) = snd ` set (sc_items c)"
  and cache_ok_live: "cache_ok c \<Longrightarrow> e < length (sc_heap c) \<Longrightarrow>
    \<not> en_evicted (sc_heap c ! e) \<Longrightarrow> (en_key (sc_heap c ! e), e) \<in> set (sc_items c)"
  and cache_ok_elem: "cache_ok c \<Longrightarrow> e < length (sc_heap c) \<Longrightarrow>
    en_elem (sc_heap c ! e) \<longleftrightarrow> \<not> en_evicted (sc_heap c ! e)"
  and cache_ok_stmts: "cache_ok c \<Longrightarrow> distinct (map en_stmt (sc_heap c))"
  and cache_ok_closes: "cache_ok c \<Longrightarrow> distinct (sc_closes c)"
  and cache_ok_closed: "cache_ok c \<Longrightarrow> e < length (sc_heap c) \<Longrightarrow>
    en_stmt (sc_heap c ! e) \<in> set (sc_closes c) \<longleftrightarrow>
      en_evicted (sc_heap c ! e) \<and> en_refs (sc_heap c ! e) = 0"
  by (auto simp: cache_ok_def)

lemma cache_ok_lru_length:
  assumes "cache_ok c"
  shows "length (sc_lru c) = length (sc_items c)"
proof -
  have inj: "inj_on snd (set (sc_items c))"
    using cache_ok_items [OF assms] by (intro inj_onI) (metis prod.collapse)
  have "length (sc_lru c) = card (snd ` set (sc_items c))"
    using cache_ok_lru [OF assms] cache_ok_lru_set [OF assms] by (metis distinct_card)
  also have "\<dots> = card (set (sc_items c))" by (rule card_image [OF inj])
  also have "\<dots> = length (sc_items c)"
    using cache_ok_keys [OF assms] by (metis distinct_card distinct_map)
  finally show ?thesis .
qed

lemma cache_ok_map_of:
  assumes "cache_ok c"
  shows "map_of (sc_items c) k = Some e \<longleftrightarrow> (k, e) \<in> set (sc_items c)"
  using cache_ok_keys [OF assms] by (simp add: map_of_eq_Some_iff)

text \<open>Entries of a heap have distinct statements: an index is known by its statement.\<close>

lemma cache_ok_stmt_inj:
  assumes "cache_ok c" "e < length (sc_heap c)" "e' < length (sc_heap c)"
    "en_stmt (sc_heap c ! e) = en_stmt (sc_heap c ! e')"
  shows "e = e'"
  using cache_ok_stmts [OF assms(1)] assms(2-) by (simp add: distinct_conv_nth) metis

text \<open>Changing the use count of an entry that stays open.\<close>

lemma stmts_update [simp]:
  "en_stmt x = en_stmt (h ! e) \<Longrightarrow> map en_stmt (h[e := x]) = map en_stmt h"
  by (metis list_update_beyond list_update_id map_update not_le_imp_less)

lemma nth_update_if:
  "e < length h \<Longrightarrow> (h[e := x]) ! i = (if i = e then x else h ! i)"
  by (auto simp: nth_list_update)

lemma cache_ok_use:
  assumes ok: "cache_ok c" and e: "(k, e) \<in> set (sc_items c)"
  shows "cache_ok (use_entry e c)"
proof -
  have el: "e < length (sc_heap c)" "\<not> en_evicted (sc_heap c ! e)"
    using cache_ok_items [OF ok e] by auto
  have "e \<in> set (sc_lru c)" using e cache_ok_lru_set [OF ok] by force
  with el ok show ?thesis
    unfolding cache_ok_def use_entry_def
    by (auto simp: nth_update_if insert_absorb distinct_removeAll split: if_splits)
qed

lemma cache_ok_evict:
  assumes ok: "cache_ok c" and e: "e < length (sc_heap c)"
  shows "cache_ok (evict_locked e c)"
proof (cases "en_evicted (sc_heap c ! e)")
  case True
  then show ?thesis using ok by (simp add: evict_locked_def Let_def)
next
  case False
  let ?en = "sc_heap c ! e"
  have it: "(en_key ?en, e) \<in> set (sc_items c)" by (rule cache_ok_live [OF ok e False])
  have elem: "en_elem ?en" using cache_ok_elem [OF ok e] False by simp
  have fresh: "en_stmt ?en \<notin> set (sc_closes c)" using cache_ok_closed [OF ok e] False by simp
  have key: "(k', e') \<in> set (sc_items c) \<Longrightarrow> k' = en_key ?en \<longleftrightarrow> e' = e" for k' e'
    using cache_ok_keys [OF ok] it cache_ok_items [OF ok]
    by (metis cache_ok_map_of [OF ok] option.inject)
  have items: "set (AList.delete (en_key ?en) (sc_items c)) = {(k', e') \<in> set (sc_items c). e' \<noteq> e}"
    using key by (auto simp: AList.delete_eq)
  have stmt: "i < length (sc_heap c) \<Longrightarrow> en_stmt (sc_heap c ! i) = en_stmt ?en \<longleftrightarrow> i = e" for i
    using cache_ok_stmt_inj [OF ok] e by blast
  define c' where "c' = evict_locked e c"
  have c': "sc_heap c' = (sc_heap c)[e := ?en\<lparr>en_evicted := True, en_elem := False\<rparr>]"
    "sc_lru c' = removeAll e (sc_lru c)" "sc_items c' = AList.delete (en_key ?en) (sc_items c)"
    "sc_closes c' = sc_closes c @ (if en_refs ?en = 0 then [en_stmt ?en] else [])"
    using False elem by (simp_all add: c'_def evict_locked_def Let_def)
  have 1: "distinct (map fst (sc_items c'))"
    using cache_ok_keys [OF ok] by (simp add: c' distinct_delete)
  have 2: "distinct (sc_lru c')" "set (sc_lru c') = snd ` set (sc_items c')"
    using cache_ok_lru [OF ok] cache_ok_lru_set [OF ok]
    by (auto simp: c' items distinct_removeAll)
  have 3: "distinct (map en_stmt (sc_heap c'))" "distinct (sc_closes c')"
    using cache_ok_stmts [OF ok] cache_ok_closes [OF ok] fresh by (auto simp: c')
  have 4: "e' < length (sc_heap c') \<and> en_key (sc_heap c' ! e') = k \<and> \<not> en_evicted (sc_heap c' ! e')"
    if "(k, e') \<in> set (sc_items c')" for k e'
    using that e cache_ok_items [OF ok, of k e'] by (simp add: c' items nth_update_if)
  have 5: "(en_key (sc_heap c' ! i), i) \<in> set (sc_items c')"
    if "i < length (sc_heap c')" "\<not> en_evicted (sc_heap c' ! i)" for i
    using that e cache_ok_live [OF ok, of i] by (simp add: c' items nth_update_if split: if_splits)
  have 6: "en_elem (sc_heap c' ! i) \<longleftrightarrow> \<not> en_evicted (sc_heap c' ! i)" if "i < length (sc_heap c')" for i
    using that e cache_ok_elem [OF ok, of i] by (simp add: c' nth_update_if)
  have 7: "en_stmt (sc_heap c' ! i) \<in> set (sc_closes c') \<longleftrightarrow>
      en_evicted (sc_heap c' ! i) \<and> en_refs (sc_heap c' ! i) = 0" if "i < length (sc_heap c')" for i
    using that e cache_ok_closed [OF ok, of i] stmt [of i] fresh by (simp add: c' nth_update_if)
  show ?thesis
    unfolding c'_def [symmetric] cache_ok_def using 1 2 3 4 5 6 7 by blast
qed

section \<open>The operations keep it\<close>

text \<open>What an operation that only evicts leaves alone.\<close>

definition same_users :: "stmt_cache \<Rightarrow> stmt_cache \<Rightarrow> bool" where
  "same_users c c' \<longleftrightarrow> length (sc_heap c') = length (sc_heap c) \<and>
     map en_refs (sc_heap c') = map en_refs (sc_heap c) \<and>
     map en_stmt (sc_heap c') = map en_stmt (sc_heap c) \<and>
     map en_key (sc_heap c') = map en_key (sc_heap c) \<and>
     sc_closed c' = sc_closed c \<and> sc_size c' = sc_size c \<and>
     set (sc_closes c) \<subseteq> set (sc_closes c') \<and>
     set (sc_closes c') \<subseteq> set (sc_closes c) \<union> set (map en_stmt (sc_heap c))"

lemma same_users_refl [simp]: "same_users c c"
  by (simp add: same_users_def)

lemma same_users_trans: "same_users a b \<Longrightarrow> same_users b c \<Longrightarrow> same_users a c"
  by (auto simp: same_users_def)

lemma refs_update [simp]:
  "en_refs x = en_refs (h ! e) \<Longrightarrow> map en_refs (h[e := x]) = map en_refs h"
  by (metis list_update_beyond list_update_id map_update not_le_imp_less)

lemma keys_update [simp]:
  "en_key x = en_key (h ! e) \<Longrightarrow> map en_key (h[e := x]) = map en_key h"
  by (metis list_update_beyond list_update_id map_update not_le_imp_less)

lemma same_users_evict: "e < length (sc_heap c) \<Longrightarrow> same_users c (evict_locked e c)"
  by (auto simp: same_users_def evict_locked_def Let_def)

lemma removeAll_last: "distinct l \<Longrightarrow> l \<noteq> [] \<Longrightarrow> removeAll (last l) l = butlast l"
  by (induction l rule: rev_induct) (auto simp: removeAll_id)

lemma evict_last:
  assumes ok: "cache_ok c" and ne: "sc_lru c \<noteq> []"
  shows "sc_lru (evict_locked (last (sc_lru c)) c) = butlast (sc_lru c)"
    and "last (sc_lru c) < length (sc_heap c)"
proof -
  have "last (sc_lru c) \<in> set (sc_lru c)" using ne by simp
  then obtain k where k: "(k, last (sc_lru c)) \<in> set (sc_items c)"
    using cache_ok_lru_set [OF ok] by auto
  from cache_ok_items [OF ok k] show l: "last (sc_lru c) < length (sc_heap c)" by simp
  then show "sc_lru (evict_locked (last (sc_lru c)) c) = butlast (sc_lru c)"
    using cache_ok_items [OF ok k] cache_ok_elem [OF ok l] removeAll_last [OF cache_ok_lru [OF ok] ne]
    by (simp add: evict_locked_def Let_def)
qed

text \<open>The loop ends, and it keeps exactly the most recently used entries.\<close>

lemma evict_loop_ok:
  assumes "cache_ok c"
  shows "\<exists>c'. evict_loop c = Some c' \<and> cache_ok c' \<and> same_users c c' \<and>
    sc_lru c' = (if 0 < sc_size c then take (nat (sc_size c)) (sc_lru c) else sc_lru c)"
  using assms
proof (induction "length (sc_items c)" arbitrary: c rule: less_induct)
  case less
  have len: "length (sc_lru c) = length (sc_items c)" by (rule cache_ok_lru_length [OF less.prems])
  show ?case
  proof (cases "0 < sc_size c \<and> sc_size c < int (length (sc_items c))")
    case False
    then have "evict_loop c = Some c" by (subst evict_loop.simps) auto
    moreover have "0 < sc_size c \<Longrightarrow> length (sc_lru c) \<le> nat (sc_size c)" using False len by linarith
    ultimately show ?thesis using less.prems by simp
  next
    case True
    with len have ne: "sc_lru c \<noteq> []" by (cases "sc_lru c") auto
    let ?d = "evict_locked (last (sc_lru c)) c"
    note last = evict_last [OF less.prems ne]
    have ok: "cache_ok ?d" and same: "same_users c ?d"
      using cache_ok_evict [OF less.prems last(2)] same_users_evict [OF last(2)] .
    have "length (sc_items ?d) = length (butlast (sc_lru c))"
      using cache_ok_lru_length [OF ok] last(1) by simp
    also have "\<dots> < length (sc_items c)" using ne len [symmetric] by (cases "sc_lru c") auto
    finally obtain c' where c': "evict_loop ?d = Some c'" "cache_ok c'" "same_users ?d c'"
        "sc_lru c' = (if 0 < sc_size ?d then take (nat (sc_size ?d)) (sc_lru ?d) else sc_lru ?d)"
      using less.hyps [OF _ ok] by blast
    have "evict_loop c = evict_loop ?d" using True ne by (subst evict_loop.simps) simp
    moreover have "sc_size ?d = sc_size c" using same by (simp add: same_users_def)
    moreover have "nat (sc_size c) \<le> length (sc_lru c) - 1" using True len by linarith
    ultimately show ?thesis
      using c' True last(1) same_users_trans [OF same c'(3)]
      by (simp add: take_butlast butlast_conv_take min_def)
  qed
qed

lemma cache_ok_release:
  assumes ok: "cache_ok c" and e: "e < length (sc_heap c)" and used: "0 < en_refs (sc_heap c ! e)"
  shows "cache_ok (release e c)"
proof -
  let ?en = "sc_heap c ! e"
  have fresh: "en_stmt ?en \<notin> set (sc_closes c)" using cache_ok_closed [OF ok e] used by simp
  have stmt: "i < length (sc_heap c) \<Longrightarrow> en_stmt (sc_heap c ! i) = en_stmt ?en \<longleftrightarrow> i = e" for i
    using cache_ok_stmt_inj [OF ok] e by blast
  show ?thesis
    using ok e used fresh unfolding cache_ok_def release_def
    by (auto simp: nth_update_if stmt Let_def split: if_splits)
qed

lemma close_all_ok:
  assumes "cache_ok c" and "\<And>e. e \<in> set es \<Longrightarrow> e < length (sc_heap c)"
  shows "cache_ok (fold evict_locked es c) \<and> same_users c (fold evict_locked es c)
    \<and> set (sc_items (fold evict_locked es c)) \<subseteq> {(k, e) \<in> set (sc_items c). e \<notin> set es}"
  using assms
proof (induction es arbitrary: c)
  case Nil
  then show ?case by auto
next
  case (Cons e es)
  let ?d = "evict_locked e c"
  have e: "e < length (sc_heap c)" using Cons.prems by simp
  have ok: "cache_ok ?d" and same: "same_users c ?d"
    using cache_ok_evict [OF Cons.prems(1) e] same_users_evict [OF e] .
  have sub: "set (sc_items ?d) \<subseteq> set (sc_items c)"
    by (auto simp: evict_locked_def Let_def AList.delete_eq)
  have "(k, e) \<notin> set (sc_items ?d)" for k
  proof
    assume "(k, e) \<in> set (sc_items ?d)"
    from cache_ok_items [OF ok this] have "\<not> en_evicted (sc_heap ?d ! e)" by simp
    with e show False by (auto simp: evict_locked_def Let_def split: if_splits)
  qed
  moreover have "cache_ok (fold evict_locked es ?d) \<and> same_users ?d (fold evict_locked es ?d)
      \<and> set (sc_items (fold evict_locked es ?d)) \<subseteq> {(k, e) \<in> set (sc_items ?d). e \<notin> set es}"
    by (rule Cons.IH [OF ok]) (use Cons.prems(2) same in \<open>auto simp: same_users_def\<close>)
  ultimately show ?case using sub same_users_trans [OF same] by auto
qed

section \<open>The invariant of the cache with its callers\<close>

definition sys_ok :: "sc_sys \<Rightarrow> bool" where
  "sys_ok s \<longleftrightarrow> (let c = sy_cache s in
     cache_ok c \<and>
     (0 < sc_size c \<longrightarrow> int (length (sc_items c)) \<le> sc_size c) \<and>
     (sc_closed c \<longrightarrow> sc_items c = []) \<and>
     map en_refs (sc_heap c) = map (\<lambda>e. int (count_list (sy_handles s) e)) [0..<length (sc_heap c)] \<and>
     set (sy_handles s) \<subseteq> {..<length (sc_heap c)} \<and>
     distinct (map snd (sy_pending s)) \<and>
     set (map en_stmt (sc_heap c)) \<union> set (sc_closes c) \<union> set (map snd (sy_pending s)) = {..<sy_next s} \<and>
     set (map snd (sy_pending s)) \<inter> (set (map en_stmt (sc_heap c)) \<union> set (sc_closes c)) = {})"

lemma sys_ok_init: "sc_init s \<Longrightarrow> sys_ok s"
  by (auto simp: sc_init_def sys_ok_def cache_ok_def new_stmt_cache_def)

lemma sys_ok_refs:
  assumes "sys_ok s" and "e < length (sc_heap (sy_cache s))"
  shows "en_refs (sc_heap (sy_cache s) ! e) = int (count_list (sy_handles s) e)"
proof -
  have "map en_refs (sc_heap (sy_cache s)) ! e
      = map (\<lambda>e. int (count_list (sy_handles s) e)) [0..<length (sc_heap (sy_cache s))] ! e"
    using assms(1) by (simp add: sys_ok_def Let_def)
  with assms(2) show ?thesis by simp
qed

text \<open>How the use counts follow the handles, and what a removed pending statement leaves.\<close>

lemma refs_use:
  assumes "map en_refs h = map (\<lambda>i. int (count_list hs i)) [0..<length h]" and "e < length h"
  shows "map en_refs (h[e := (h ! e)\<lparr>en_refs := en_refs (h ! e) + 1\<rparr>])
    = map (\<lambda>i. int (count_list (e # hs) i)) [0..<length h]"
proof (rule nth_equalityI)
  fix i assume "i < length (map en_refs (h[e := (h ! e)\<lparr>en_refs := en_refs (h ! e) + 1\<rparr>]))"
  then have i: "i < length h" by simp
  have "en_refs (h ! i) = int (count_list hs i)"
    using arg_cong [OF assms(1), of "\<lambda>l. l ! i"] i by simp
  with i show "map en_refs (h[e := (h ! e)\<lparr>en_refs := en_refs (h ! e) + 1\<rparr>]) ! i
      = map (\<lambda>i. int (count_list (e # hs) i)) [0..<length h] ! i"
    by (simp add: nth_list_update)
qed simp

lemma refs_release:
  assumes "map en_refs h = map (\<lambda>i. int (count_list hs i)) [0..<length h]"
    and "e < length h" and "e \<in> set hs"
    and x: "en_refs x = en_refs (h ! e) - 1"
  shows "map en_refs (h[e := x]) = map (\<lambda>i. int (count_list (remove1 e hs) i)) [0..<length h]"
proof (rule nth_equalityI)
  fix i assume "i < length (map en_refs (h[e := x]))"
  then have i: "i < length h" by simp
  have "en_refs (h ! i) = int (count_list hs i)"
    using arg_cong [OF assms(1), of "\<lambda>l. l ! i"] i by simp
  moreover have "0 < count_list hs e" using assms(3) by (metis count_list_0_iff gr0I)
  ultimately show "map en_refs (h[e := x]) ! i
      = map (\<lambda>i. int (count_list (remove1 e hs) i)) [0..<length h] ! i"
    using i x by (auto simp: nth_list_update count_list_remove1 of_nat_diff)
qed simp

lemma set_snd_remove1:
  assumes "distinct (map snd xs)" and "x \<in> set xs"
  shows "set (map snd (remove1 x xs)) = set (map snd xs) - {snd x}"
    and "distinct (map snd (remove1 x xs))"
proof -
  have "inj_on snd (set xs)" and "distinct xs" using assms(1) by (simp_all add: distinct_map)
  then show "set (map snd (remove1 x xs)) = set (map snd xs) - {snd x}"
    using assms(2) by (auto simp: inj_on_def)
  show "distinct (map snd (remove1 x xs))"
    using \<open>inj_on snd (set xs)\<close> \<open>distinct xs\<close>
    by (auto simp: distinct_map intro: inj_on_subset dest: notin_set_remove1)
qed

lemma use_entry_sys:
  assumes ok: "sys_ok s" and e: "(k, e) \<in> set (sc_items (sy_cache s))"
  shows "sys_ok (s\<lparr>sy_cache := use_entry e (sy_cache s), sy_handles := e # sy_handles s\<rparr>)"
proof -
  have c: "cache_ok (sy_cache s)" using ok by (simp add: sys_ok_def Let_def)
  have e': "e < length (sc_heap (sy_cache s))" using cache_ok_items [OF c e] by simp
  have refs: "map en_refs (sc_heap (sy_cache s))
      = map (\<lambda>e. int (count_list (sy_handles s) e)) [0..<length (sc_heap (sy_cache s))]"
    using ok by (simp add: sys_ok_def Let_def)
  show ?thesis
    using ok cache_ok_use [OF c e] refs_use [OF refs e'] e'
    unfolding sys_ok_def by (simp add: use_entry_def Let_def del: set_map count_list.simps)
qed

lemma hit_sys:
  assumes "sys_ok s" and "acquire_lookup key (sy_cache s) = Some (e, c)"
  shows "sys_ok (s\<lparr>sy_cache := c, sy_handles := e # sy_handles s\<rparr>)"
proof -
  from assms(2) have "map_of (sc_items (sy_cache s)) key = Some e" and c: "c = use_entry e (sy_cache s)"
    by (auto simp: acquire_lookup_def split: option.splits if_splits)
  from use_entry_sys [OF assms(1) map_of_SomeD [OF this(1)]] show ?thesis by (simp add: c)
qed

lemma prepare_sys:
  assumes "sys_ok s"
  shows "sys_ok (s\<lparr>sy_pending := (key, sy_next s) # sy_pending s, sy_next := Suc (sy_next s)\<rparr>)"
proof -
  let ?all = "set (map en_stmt (sc_heap (sy_cache s))) \<union> set (sc_closes (sy_cache s))
      \<union> set (map snd (sy_pending s))"
  have all: "?all = {..<sy_next s}" using assms by (simp add: sys_ok_def Let_def)
  then have "sy_next s \<notin> ?all" by (simp del: set_map)
  then have fresh: "sy_next s \<notin> set (map en_stmt (sc_heap (sy_cache s)))"
    "sy_next s \<notin> set (sc_closes (sy_cache s))" "sy_next s \<notin> set (map snd (sy_pending s))"
    by blast+
  from all have "insert (sy_next s) ?all = {..<Suc (sy_next s)}" by (simp add: lessThan_Suc del: set_map)
  with assms fresh show ?thesis
    unfolding sys_ok_def by (simp add: Let_def)
qed

text \<open>Dropping a prepared statement that lost the race: it is closed at once.\<close>

lemma drop_prepared_sys:
  assumes ok: "sys_ok s" and p: "(k, st) \<in> set (sy_pending s)"
  shows "sys_ok (s\<lparr>sy_cache := (sy_cache s)\<lparr>sc_closes := sc_closes (sy_cache s) @ [st]\<rparr>,
    sy_pending := remove1 (k, st) (sy_pending s)\<rparr>)"
proof -
  let ?c = "sy_cache s"
  from ok have d: "distinct (map snd (sy_pending s))" by (simp add: sys_ok_def Let_def)
  note rem = set_snd_remove1 [OF d p, unfolded snd_conv]
  have st: "st \<in> set (map snd (sy_pending s))" using p by force
  with ok have fresh: "st \<notin> set (map en_stmt (sc_heap ?c))" "st \<notin> set (sc_closes ?c)"
    by (auto simp: sys_ok_def Let_def simp del: set_map)
  have "st \<noteq> en_stmt (sc_heap ?c ! i)" if "i < length (sc_heap ?c)" for i
    using fresh(1) that by (metis length_map nth_map nth_mem)
  with ok fresh have "cache_ok (?c\<lparr>sc_closes := sc_closes ?c @ [st]\<rparr>)"
    unfolding sys_ok_def cache_ok_def by (auto simp: Let_def)
  moreover have "set (map en_stmt (sc_heap ?c)) \<union> set (sc_closes ?c @ [st])
      \<union> (set (map snd (sy_pending s)) - {st}) = {..<sy_next s}"
    using ok st unfolding sys_ok_def Let_def by auto
  moreover have "(set (map snd (sy_pending s)) - {st})
      \<inter> (set (map en_stmt (sc_heap ?c)) \<union> set (sc_closes ?c @ [st])) = {}"
    using ok unfolding sys_ok_def Let_def by auto
  ultimately show ?thesis
    using ok rem unfolding sys_ok_def by (simp add: Let_def del: set_map set_append)
qed

lemma release_fields:
  assumes "e < length (sc_heap c)"
  shows "sc_size (release e c) = sc_size c" "sc_items (release e c) = sc_items c"
    "sc_closed (release e c) = sc_closed c" "length (sc_heap (release e c)) = length (sc_heap c)"
    "map en_stmt (sc_heap (release e c)) = map en_stmt (sc_heap c)"
    "map en_refs (sc_heap (release e c)) = (map en_refs (sc_heap c))[e := en_refs (sc_heap c ! e) - 1]"
    "set (map en_stmt (sc_heap c)) \<union> set (sc_closes (release e c)) = set (map en_stmt (sc_heap c)) \<union> set (sc_closes c)"
  using assms by (auto simp: release_def Let_def map_update list_update_same_conv)

lemma release_sys:
  assumes ok: "sys_ok s" and e: "e \<in> set (sy_handles s)"
  shows "sys_ok (s\<lparr>sy_cache := release e (sy_cache s), sy_handles := remove1 e (sy_handles s)\<rparr>)"
proof -
  let ?c = "sy_cache s"
  have c: "cache_ok ?c" and e': "e < length (sc_heap ?c)" using ok e by (auto simp: sys_ok_def Let_def)
  have refs: "map en_refs (sc_heap ?c)
      = map (\<lambda>e. int (count_list (sy_handles s) e)) [0..<length (sc_heap ?c)]"
    using ok by (simp add: sys_ok_def Let_def)
  have pos: "0 < en_refs (sc_heap ?c ! e)"
    using sys_ok_refs [OF ok e'] e by (simp, metis count_list_0_iff gr0I)
  note new = refs_release [OF refs e' e, of "(sc_heap ?c ! e)\<lparr>en_refs := en_refs (sc_heap ?c ! e) - 1\<rparr>"]
  have "set (remove1 e (sy_handles s)) \<subseteq> {..<length (sc_heap ?c)}"
    using ok set_remove1_subset [of e "sy_handles s"] by (auto simp: sys_ok_def Let_def)
  with ok cache_ok_release [OF c e' pos] new show ?thesis
    unfolding sys_ok_def Let_def
    by (simp add: release_fields [OF e'] map_update del: set_map)
qed

lemma sys_ok_unbounded:
  "sys_ok s \<Longrightarrow> sys_ok (s\<lparr>sy_cache := (sy_cache s)\<lparr>sc_size := 0\<rparr>\<rparr>)"
  by (simp add: sys_ok_def cache_ok_def Let_def)

lemma same_users_sys:
  assumes ok: "sys_ok (s\<lparr>sy_cache := (sy_cache s)\<lparr>sc_size := 0\<rparr>\<rparr>)" and c': "cache_ok c'" and same: "same_users (sy_cache s) c'"
    and size: "0 < sc_size c' \<longrightarrow> int (length (sc_items c')) \<le> sc_size c'"
    and closed: "sc_closed c' \<longrightarrow> sc_items c' = []"
  shows "sys_ok (s\<lparr>sy_cache := c'\<rparr>)"
proof -
  have s: "length (sc_heap c') = length (sc_heap (sy_cache s))"
    "map en_refs (sc_heap c') = map en_refs (sc_heap (sy_cache s))"
    "map en_stmt (sc_heap c') = map en_stmt (sc_heap (sy_cache s))"
    using same by (simp_all add: same_users_def)
  have "set (map en_stmt (sc_heap (sy_cache s))) \<union> set (sc_closes c')
      = set (map en_stmt (sc_heap (sy_cache s))) \<union> set (sc_closes (sy_cache s))"
    using same by (auto simp: same_users_def)
  with ok c' size closed s show ?thesis
    unfolding sys_ok_def Let_def by (simp del: set_map)
qed

text \<open>A new entry for a prepared statement, live or, when the cache is closed, for one use.\<close>

definition push_entry :: "bool \<Rightarrow> string \<Rightarrow> nat \<Rightarrow> stmt_cache \<Rightarrow> stmt_cache" where
  "push_entry live key st c = c\<lparr>
     sc_heap := sc_heap c @ [\<lparr>en_key = key, en_stmt = st, en_refs = 1,
                             en_evicted = \<not> live, en_elem = live\<rparr>],
     sc_lru := (if live then length (sc_heap c) # sc_lru c else sc_lru c),
     sc_items := (if live then (key, length (sc_heap c)) # sc_items c else sc_items c),
     sc_prepares := sc_prepares c + 1\<rparr>"

lemma acquire_insert_push:
  "acquire_insert key st c =
     (if sc_closed c then Some (length (sc_heap c), push_entry False key st c)
      else case map_of (sc_items c) key of
          Some e \<Rightarrow> Some (e, use_entry e (c\<lparr>sc_closes := sc_closes c @ [st]\<rparr>))
        | None \<Rightarrow> map_option (Pair (length (sc_heap c))) (evict_loop (push_entry True key st c)))"
  by (simp add: acquire_insert_def push_entry_def Let_def split: option.splits)

lemma push_entry_ok:
  assumes ok: "cache_ok c" and fresh: "st \<notin> set (map en_stmt (sc_heap c))" "st \<notin> set (sc_closes c)"
    and key: "live \<Longrightarrow> map_of (sc_items c) key = None"
  shows "cache_ok (push_entry live key st c)"
proof -
  have bound: "e < length (sc_heap c)" if "e \<in> snd ` set (sc_items c)" for e
    using that cache_ok_items [OF ok] by force
  have len: "length (sc_heap c) \<notin> snd ` set (sc_items c)" using bound by blast
  have key': "live \<Longrightarrow> key \<notin> fst ` set (sc_items c)" using key by (simp add: map_of_eq_None_iff)
  have item: "e < length (sc_heap c) \<and> en_key (sc_heap c ! e) = k \<and> \<not> en_evicted (sc_heap c ! e)"
    if "(k, e) \<in> set (sc_items c)" for k e
    using cache_ok_items [OF ok that] .
  show ?thesis
    using ok fresh key' len unfolding cache_ok_def push_entry_def
    by (auto simp: nth_append less_Suc_eq dest: item)
qed

lemma refs_push:
  assumes "map en_refs h = map (\<lambda>i. int (count_list hs i)) [0..<length h]"
    and "set hs \<subseteq> {..<length h}" and "en_refs x = 1"
  shows "map en_refs (h @ [x]) = map (\<lambda>i. int (count_list (length h # hs) i)) [0..<length (h @ [x])]"
proof -
  have "count_list hs (length h) = 0" using assms(2) by (auto simp: count_list_0_iff)
  then show ?thesis using assms(1,3) by simp
qed

lemma push_entry_sys:
  assumes ok: "sys_ok s" and p: "(key, st) \<in> set (sy_pending s)"
    and key: "live \<Longrightarrow> map_of (sc_items (sy_cache s)) key = None"
    and live: "live \<longleftrightarrow> \<not> sc_closed (sy_cache s)"
    and n: "n = (if live then 0 else sc_size (sy_cache s))"
  shows "sys_ok (s\<lparr>sy_cache := (push_entry live key st (sy_cache s))\<lparr>sc_size := n\<rparr>,
    sy_handles := length (sc_heap (sy_cache s)) # sy_handles s,
    sy_pending := remove1 (key, st) (sy_pending s)\<rparr>)"
proof -
  let ?c = "sy_cache s"
  from ok have c: "cache_ok ?c" and d: "distinct (map snd (sy_pending s))"
    and refs: "map en_refs (sc_heap ?c) = map (\<lambda>e. int (count_list (sy_handles s) e)) [0..<length (sc_heap ?c)]"
    and hs: "set (sy_handles s) \<subseteq> {..<length (sc_heap ?c)}"
    and all: "set (map en_stmt (sc_heap ?c)) \<union> set (sc_closes ?c) \<union> set (map snd (sy_pending s)) = {..<sy_next s}"
    and dis: "set (map snd (sy_pending s)) \<inter> (set (map en_stmt (sc_heap ?c)) \<union> set (sc_closes ?c)) = {}"
    by (simp_all add: sys_ok_def Let_def)
  note rem = set_snd_remove1 [OF d p, unfolded snd_conv]
  have st: "st \<in> set (map snd (sy_pending s))" using p by force
  with dis have fresh: "st \<notin> set (map en_stmt (sc_heap ?c))" "st \<notin> set (sc_closes ?c)" by blast+
  have 1: "cache_ok ((push_entry live key st ?c)\<lparr>sc_size := n\<rparr>)"
    using push_entry_ok [OF c fresh key] by (simp add: cache_ok_def)
  have 2: "insert st (set (map en_stmt (sc_heap ?c))) \<union> set (sc_closes ?c)
      \<union> (set (map snd (sy_pending s)) - {st}) = {..<sy_next s}"
    using all st by blast
  have 3: "(set (map snd (sy_pending s)) - {st})
      \<inter> (insert st (set (map en_stmt (sc_heap ?c))) \<union> set (sc_closes ?c)) = {}"
    using dis by blast
  have 4: "insert (length (sc_heap ?c)) (set (sy_handles s)) \<subseteq> {..<Suc (length (sc_heap ?c))}"
    using hs by auto
  note 5 = refs_push [OF refs hs, of "\<lparr>en_key = key, en_stmt = st, en_refs = 1,
                             en_evicted = \<not> live, en_elem = live\<rparr>", simplified]
  have 6: "sc_closed ?c \<longrightarrow> sc_items ?c = []" "0 < sc_size ?c \<longrightarrow> int (length (sc_items ?c)) \<le> sc_size ?c"
    using ok by (simp_all add: sys_ok_def Let_def)
  show ?thesis
    using 1 2 3 4 5 6 rem live n unfolding sys_ok_def
    by (cases live) (simp_all add: push_entry_def Let_def del: set_map)
qed

lemma insert_new_sys:
  assumes ok: "sys_ok s" and p: "(key, st) \<in> set (sy_pending s)"
    and key: "map_of (sc_items (sy_cache s)) key = None" and live: "\<not> sc_closed (sy_cache s)"
    and c': "evict_loop (push_entry True key st (sy_cache s)) = Some c'"
  shows "sys_ok (s\<lparr>sy_cache := c', sy_handles := length (sc_heap (sy_cache s)) # sy_handles s,
    sy_pending := remove1 (key, st) (sy_pending s)\<rparr>)"
proof -
  let ?d = "push_entry True key st (sy_cache s)"
  let ?s = "s\<lparr>sy_cache := ?d, sy_handles := length (sc_heap (sy_cache s)) # sy_handles s,
    sy_pending := remove1 (key, st) (sy_pending s)\<rparr>"
  have push: "sys_ok (?s\<lparr>sy_cache := (sy_cache ?s)\<lparr>sc_size := 0\<rparr>\<rparr>)"
    using push_entry_sys [OF ok p, of True 0] key live by (cases s) simp
  then have d: "cache_ok ?d" by (simp add: sys_ok_def cache_ok_def Let_def)
  from evict_loop_ok [OF d] c' have ok': "cache_ok c'" "same_users ?d c'"
    and lru: "sc_lru c' = (if 0 < sc_size ?d then take (nat (sc_size ?d)) (sc_lru ?d) else sc_lru ?d)"
    by auto
  have "sc_size c' = sc_size ?d" "\<not> sc_closed c'"
    using ok'(2) live by (simp_all add: same_users_def push_entry_def)
  moreover have "0 < sc_size c' \<longrightarrow> int (length (sc_items c')) \<le> sc_size c'"
  proof
    assume pos: "0 < sc_size c'"
    then have "length (sc_items c') \<le> nat (sc_size c')"
      using cache_ok_lru_length [OF ok'(1)] lru \<open>sc_size c' = sc_size ?d\<close> by simp
    with pos show "int (length (sc_items c')) \<le> sc_size c'" by linarith
  qed
  ultimately show ?thesis
    using same_users_sys [OF push, of c'] ok' by (cases s) auto
qed

lemma insert_sys:
  assumes ok: "sys_ok s" and p: "(key, st) \<in> set (sy_pending s)"
    and a: "acquire_insert key st (sy_cache s) = Some (e, c)"
  shows "sys_ok (s\<lparr>sy_cache := c, sy_handles := e # sy_handles s,
    sy_pending := remove1 (key, st) (sy_pending s)\<rparr>)"
proof -
  consider (closed) "sc_closed (sy_cache s)"
    | (lost) e' where "\<not> sc_closed (sy_cache s)" "map_of (sc_items (sy_cache s)) key = Some e'"
    | (new) "\<not> sc_closed (sy_cache s)" "map_of (sc_items (sy_cache s)) key = None"
    by fastforce
  then show ?thesis
  proof cases
    case closed
    have size: "(push_entry False key st (sy_cache s))\<lparr>sc_size := sc_size (sy_cache s)\<rparr>
        = push_entry False key st (sy_cache s)"
      by (simp add: push_entry_def)
    show ?thesis
      using push_entry_sys [OF ok p, of False "sc_size (sy_cache s)"] closed a size
      by (auto simp: acquire_insert_push)
  next
    case lost
    let ?t = "s\<lparr>sy_cache := (sy_cache s)\<lparr>sc_closes := sc_closes (sy_cache s) @ [st]\<rparr>,
      sy_pending := remove1 (key, st) (sy_pending s)\<rparr>"
    from lost a have "e = e'" "c = use_entry e (sy_cache ?t)"
      by (auto simp: acquire_insert_push)
    moreover have "(key, e') \<in> set (sc_items (sy_cache ?t))" using lost(2) by (simp add: map_of_SomeD)
    ultimately show ?thesis
      using use_entry_sys [OF drop_prepared_sys [OF ok p], of key e'] by (cases s) simp
  next
    case new
    with a obtain "e = length (sc_heap (sy_cache s))"
      and "evict_loop (push_entry True key st (sy_cache s)) = Some c"
      by (auto simp: acquire_insert_push)
    with insert_new_sys [OF ok p new(2,1)] show ?thesis by simp
  qed
qed

lemma close_all_sys:
  assumes ok: "sys_ok s" and es: "set es = snd ` set (sc_items (sy_cache s))"
  shows "sys_ok (s\<lparr>sy_cache := close_all es (sy_cache s)\<rparr>)"
proof -
  let ?c = "(sy_cache s)\<lparr>sc_closed := True\<rparr>"
  let ?c' = "close_all es (sy_cache s)"
  have c: "cache_ok (sy_cache s)" using ok by (simp add: sys_ok_def Let_def)
  then have c1: "cache_ok ?c" by (simp add: cache_ok_def)
  have "e < length (sc_heap ?c)" if "e \<in> set es" for e
    using that es cache_ok_items [OF c] by force
  from close_all_ok [OF c1 this] have "cache_ok ?c'" and same: "same_users ?c ?c'"
    and sub: "set (sc_items ?c') \<subseteq> {(k, e) \<in> set (sc_items ?c). e \<notin> set es}"
    by (simp_all add: close_all_def)
  from sub es have none: "sc_items ?c' = []" by (cases "sc_items ?c'") force+
  show ?thesis
  proof -
    have s: "length (sc_heap ?c') = length (sc_heap (sy_cache s))"
      "map en_refs (sc_heap ?c') = map en_refs (sc_heap (sy_cache s))"
      "map en_stmt (sc_heap ?c') = map en_stmt (sc_heap (sy_cache s))"
      using same by (simp_all add: same_users_def)
    have "set (map en_stmt (sc_heap (sy_cache s))) \<union> set (sc_closes ?c')
        = set (map en_stmt (sc_heap (sy_cache s))) \<union> set (sc_closes (sy_cache s))"
      using same by (auto simp: same_users_def)
    with ok \<open>cache_ok ?c'\<close> none s show ?thesis
      unfolding sys_ok_def Let_def by (simp del: set_map)
  qed
qed

lemma sys_ok_step: "sys_ok s \<Longrightarrow> sc_step s t \<Longrightarrow> sys_ok t"
  by (erule sc_stepE)
     (auto intro: hit_sys prepare_sys insert_sys release_sys close_all_sys)

interpretation sc: transition_system sc_init sc_step sys_ok
  by unfold_locales (auto intro: sys_ok_init sys_ok_step)

section \<open>Properties\<close>

text \<open>The states the cache and its callers can get into.\<close>

definition sc_reachable :: "sc_sys \<Rightarrow> bool" where
  "sc_reachable s \<longleftrightarrow> (\<exists>i. sc_init i \<and> sc_step\<^sup>*\<^sup>* i s)"

lemma reachable_ok: "sc_reachable s \<Longrightarrow> sys_ok s"
  unfolding sc_reachable_def using sc.inv_reachable by blast

text \<open>A run for the witnesses: size one, two keys prepared, the first one evicted in use.\<close>

definition demo_sys :: sc_sys where
  "demo_sys = \<lparr>sy_cache = \<lparr>sc_size = 1, sc_items = [(''b'', 1)], sc_lru = [1], sc_closed = False,
       sc_prepares = 2, sc_hits = 0,
       sc_heap = [\<lparr>en_key = ''a'', en_stmt = 0, en_refs = 1, en_evicted = True, en_elem = False\<rparr>,
                  \<lparr>en_key = ''b'', en_stmt = 1, en_refs = 1, en_evicted = False, en_elem = True\<rparr>],
       sc_closes = []\<rparr>,
     sy_handles = [1, 0], sy_pending = [], sy_next = 2\<rparr>"

lemma demo_reachable: "sc_reachable demo_sys"
proof -
  define s0 where "s0 = \<lparr>sy_cache = new_stmt_cache 1, sy_handles = [], sy_pending = [], sy_next = 0\<rparr>"
  define s1 where "s1 = s0\<lparr>sy_pending := [(''a'', 0)], sy_next := 1\<rparr>"
  define s2 where "s2 = s1\<lparr>sy_cache := snd (the (acquire_insert ''a'' 0 (sy_cache s1))),
    sy_handles := [0], sy_pending := []\<rparr>"
  define s3 where "s3 = s2\<lparr>sy_pending := [(''b'', 1)], sy_next := 2\<rparr>"
  note defs = s0_def s1_def s2_def s3_def new_stmt_cache_def acquire_lookup_def acquire_insert_def Let_def
  have "sc_step s0 s1" using step_prepare [of "''a''" s0] by (simp add: defs)
  moreover have "sc_step s1 s2"
    using step_insert [of "''a''" 0 s1 0 "sy_cache s2"] by (simp add: defs evict_loop.simps)
  moreover have "sc_step s2 s3"
    using step_prepare [of "''b''" s2] by (simp add: defs evict_loop.simps numeral_2_eq_2)
  moreover have "sc_step s3 demo_sys"
    using step_insert [of "''b''" 1 s3 1 "sy_cache demo_sys"]
    by (simp add: defs demo_sys_def evict_loop.simps evict_locked_def AList.delete_eq)
  ultimately have "sc_step\<^sup>*\<^sup>* s0 demo_sys" by (meson converse_rtranclp_into_rtranclp rtranclp.rtrancl_refl)
  moreover have "sc_init s0" by (auto simp: sc_init_def s0_def)
  ultimately show ?thesis unfolding sc_reachable_def by blast
qed

text \<open>
  (C4) A statement in use is never closed: whatever the order in which callers acquire, prepare,
  release and close the cache, the statement of an entry that some caller still holds has not been
  closed, and no statement is ever closed twice.
\<close>

theorem held_statement_open:
  assumes "sc_reachable s"
  shows "(\<forall>e\<in>set (sy_handles s). e < length (sc_heap (sy_cache s)) \<and>
      en_stmt (sc_heap (sy_cache s) ! e) \<notin> set (sc_closes (sy_cache s)))
    \<and> distinct (sc_closes (sy_cache s))"
proof -
  have ok: "sys_ok s" by (rule reachable_ok [OF assms])
  then have c: "cache_ok (sy_cache s)" and h: "set (sy_handles s) \<subseteq> {..<length (sc_heap (sy_cache s))}"
    by (simp_all add: sys_ok_def Let_def)
  have "en_refs (sc_heap (sy_cache s) ! e) \<noteq> 0" if "e \<in> set (sy_handles s)" for e
    using that h sys_ok_refs [OF ok] by (fastforce simp: count_list_0_iff)
  with c h show ?thesis using cache_ok_closed [OF c] cache_ok_closes [OF c] by blast
qed

lemma held_statement_open_witness:
  "en_stmt (sc_heap (sy_cache demo_sys) ! 0) \<notin> set (sc_closes (sy_cache demo_sys))
    \<and> en_evicted (sc_heap (sy_cache demo_sys) ! 0)"
proof -
  have "(0::nat) \<in> set (sy_handles demo_sys)" by (simp add: demo_sys_def)
  with held_statement_open [OF demo_reachable]
  have "en_stmt (sc_heap (sy_cache demo_sys) ! 0) \<notin> set (sc_closes (sy_cache demo_sys))" by blast
  then show ?thesis by (simp add: demo_sys_def)
qed

text \<open>
  (C5) No statement leaks: once the cache has been closed and every caller has released what it
  acquired, each of the statements that were ever prepared has been closed, exactly once.
\<close>

theorem closed_cache_leaks_nothing:
  assumes "sc_reachable s" and "sc_closed (sy_cache s)" and "sy_handles s = []" and "sy_pending s = []"
  shows "set (sc_closes (sy_cache s)) = {..<sy_next s} \<and> distinct (sc_closes (sy_cache s))"
proof -
  let ?c = "sy_cache s"
  have ok: "sys_ok s" by (rule reachable_ok [OF assms(1)])
  with assms(2-) have c: "cache_ok ?c" and none: "sc_items ?c = []"
    and all: "set (map en_stmt (sc_heap ?c)) \<union> set (sc_closes ?c) = {..<sy_next s}"
    by (simp_all add: sys_ok_def Let_def)
  have "en_stmt (sc_heap ?c ! e) \<in> set (sc_closes ?c)" if e: "e < length (sc_heap ?c)" for e
    using cache_ok_closed [OF c e] cache_ok_live [OF c e] sys_ok_refs [OF ok e] none assms(3) by auto
  then have "set (map en_stmt (sc_heap ?c)) \<subseteq> set (sc_closes ?c)"
    by (auto simp: in_set_conv_nth)
  with all cache_ok_closes [OF c] show ?thesis by blast
qed

text \<open>The rest of that run: the first caller releases, the cache is closed, the second releases.\<close>

definition demo_end :: sc_sys where
  "demo_end = \<lparr>sy_cache = \<lparr>sc_size = 1, sc_items = [], sc_lru = [], sc_closed = True,
       sc_prepares = 2, sc_hits = 0,
       sc_heap = [\<lparr>en_key = ''a'', en_stmt = 0, en_refs = 0, en_evicted = True, en_elem = False\<rparr>,
                  \<lparr>en_key = ''b'', en_stmt = 1, en_refs = 0, en_evicted = True, en_elem = False\<rparr>],
       sc_closes = [0, 1]\<rparr>,
     sy_handles = [], sy_pending = [], sy_next = 2\<rparr>"

lemma demo_end_reachable: "sc_reachable demo_end"
proof -
  define s1 where "s1 = demo_sys\<lparr>sy_cache := release 0 (sy_cache demo_sys), sy_handles := [1]\<rparr>"
  define s2 where "s2 = s1\<lparr>sy_cache := close_all [1] (sy_cache s1)\<rparr>"
  note defs = s1_def s2_def demo_sys_def release_def close_all_def evict_locked_def
    AList.delete_eq Let_def
  have "sc_step demo_sys s1" using step_release [of 0 demo_sys] by (simp add: defs)
  moreover have "sc_step s1 s2" using step_close_all [of "[1]" s1] by (simp add: defs)
  moreover have "sc_step s2 demo_end"
    using step_release [of 1 s2] by (simp add: defs demo_end_def)
  ultimately show ?thesis
    using demo_reachable unfolding sc_reachable_def by (meson rtranclp.rtrancl_into_rtrancl)
qed

lemma closed_cache_leaks_nothing_witness:
  "set (sc_closes (sy_cache demo_end)) = {..<2} \<and> distinct (sc_closes (sy_cache demo_end))"
  using closed_cache_leaks_nothing [OF demo_end_reachable] by (simp add: demo_end_def)

text \<open>
  Acquiring ends and is least-recently-used: inserting a prepared statement always returns
  (the loop that makes room terminates) with an entry for the key asked for; while the cache is
  open that entry is at the front, the others keep their order, and exactly the entries beyond the
  configured size, the least recently used ones, are dropped.
\<close>

theorem acquire_insert_lru:
  assumes "sc_reachable s" and p: "(key, st) \<in> set (sy_pending s)"
  shows "\<exists>e c. acquire_insert key st (sy_cache s) = Some (e, c) \<and>
    e < length (sc_heap c) \<and> en_key (sc_heap c ! e) = key \<and> sc_size c = sc_size (sy_cache s) \<and>
    (sc_closed (sy_cache s) \<or> sc_lru c =
      (let l = e # removeAll e (sc_lru (sy_cache s)) in
       if 0 < sc_size c then take (nat (sc_size c)) l else l))"
proof -
  let ?c = "sy_cache s"
  have ok: "sys_ok s" by (rule reachable_ok [OF assms(1)])
  then have c: "cache_ok ?c" and bound: "0 < sc_size ?c \<longrightarrow> int (length (sc_items ?c)) \<le> sc_size ?c"
    by (simp_all add: sys_ok_def Let_def)
  have lru: "set (sc_lru ?c) \<subseteq> {..<length (sc_heap ?c)}"
    using cache_ok_items [OF c] cache_ok_lru_set [OF c] by auto
  consider (closed) "sc_closed ?c"
    | (lost) e' where "\<not> sc_closed ?c" "map_of (sc_items ?c) key = Some e'"
    | (new) "\<not> sc_closed ?c" "map_of (sc_items ?c) key = None"
    by fastforce
  then show ?thesis
  proof cases
    case closed
    then show ?thesis by (simp add: acquire_insert_push push_entry_def)
  next
    case lost
    have it: "(key, e') \<in> set (sc_items ?c)" using lost(2) by (rule map_of_SomeD)
    have e': "e' < length (sc_heap ?c)" "en_key (sc_heap ?c ! e') = key"
      using cache_ok_items [OF c it] by auto
    have "e' \<in> set (sc_lru ?c)" using it cache_ok_lru_set [OF c] by force
    then have "length (removeAll e' (sc_lru ?c)) < length (sc_lru ?c)" by (rule length_removeAll_less)
    then have "0 < sc_size ?c \<Longrightarrow> Suc (length (removeAll e' (sc_lru ?c))) \<le> nat (sc_size ?c)"
      using bound cache_ok_lru_length [OF c] by linarith
    then show ?thesis using lost e' by (simp add: acquire_insert_push use_entry_def Let_def)
  next
    case new
    let ?d = "push_entry True key st ?c"
    have "sys_ok (s\<lparr>sy_cache := ?d\<lparr>sc_size := 0\<rparr>, sy_handles := length (sc_heap ?c) # sy_handles s,
        sy_pending := remove1 (key, st) (sy_pending s)\<rparr>)"
      using push_entry_sys [OF ok p, of True 0] new by simp
    then have "cache_ok ?d" by (simp add: sys_ok_def cache_ok_def Let_def)
    from evict_loop_ok [OF this] obtain c' where c': "evict_loop ?d = Some c'" "same_users ?d c'"
      "sc_lru c' = (if 0 < sc_size ?d then take (nat (sc_size ?d)) (sc_lru ?d) else sc_lru ?d)"
      by blast
    have d: "length (sc_heap ?d) = Suc (length (sc_heap ?c))" "sc_size ?d = sc_size ?c"
      "map en_key (sc_heap ?d) = map en_key (sc_heap ?c) @ [key]"
      "sc_lru ?d = length (sc_heap ?c) # sc_lru ?c"
      by (simp_all add: push_entry_def)
    have "map en_key (sc_heap c') ! length (sc_heap ?c) = key"
      using c'(2) d by (simp add: same_users_def nth_append)
    moreover have "length (sc_heap c') = Suc (length (sc_heap ?c))" "sc_size c' = sc_size ?c"
      using c'(2) d by (simp_all add: same_users_def)
    moreover have "removeAll (length (sc_heap ?c)) (sc_lru ?c) = sc_lru ?c"
      using lru by (intro removeAll_id) auto
    ultimately show ?thesis
      using new c' d by (simp add: acquire_insert_push Let_def)
  qed
qed

definition demo_pending :: sc_sys where
  "demo_pending = demo_sys\<lparr>sy_pending := [(''a'', 2)], sy_next := 3\<rparr>"

lemma demo_pending_reachable: "sc_reachable demo_pending"
proof -
  have "sc_step demo_sys demo_pending"
    using step_prepare [of "''a''" demo_sys]
    by (simp add: demo_pending_def demo_sys_def acquire_lookup_def)
  then show ?thesis
    using demo_reachable unfolding sc_reachable_def by (meson rtranclp.rtrancl_into_rtrancl)
qed

lemma acquire_insert_lru_witness:
  "\<exists>e c. acquire_insert ''a'' 2 (sy_cache demo_pending) = Some (e, c) \<and> en_key (sc_heap c ! e) = ''a''"
  using acquire_insert_lru [OF demo_pending_reachable, of "''a''" 2]
  by (auto simp: demo_pending_def)

end
