(* ===== verification/Resilience.thy ===== *)
theory Resilience
  imports Go_Base
begin

text \<open>
  pkg/resilience/resilience.go: retries and the circuit breaker.

  \<^item> \<open>retry_do\<close> is \<open>RetryPolicy.Do\<close>. What the code takes from outside is an argument: the
    function that is tried, the state of the context (\<open>ctx_err\<close>), the wait on a timer or the end
    of the context (\<open>wait_for\<close>), all threading a world \<open>'w\<close>; and \<open>rp_scale\<close>, the product
    of a duration with the multiplier in float64, whose rounding no lemma depends on.
  \<^item> The breaker is a record with the fields of the struct. \<open>Execute\<close> runs its function outside
    the lock, so it is \<open>cb_admit\<close> and later \<open>cb_finish\<close>; \<open>cb_step\<close> interleaves any number of
    calls, and \<open>cb_execute\<close> is one call alone.
\<close>

section \<open>Retry\<close>

record retry_policy =
  rp_attempts :: int
  rp_delay :: int
  rp_multiplier :: rat
  rp_max_delay :: int
  rp_should_retry :: "(gerr \<Rightarrow> bool) option"
  rp_scale :: "rat \<Rightarrow> int \<Rightarrow> int"

record 'w retry_env =
  ctx_err :: "'w \<Rightarrow> gerr option"
  wait_for :: "int \<Rightarrow> 'w \<Rightarrow> gerr option \<times> 'w" \<comment> \<open>the context's error when it ended first\<close>

definition is_context_error :: "gerr \<Rightarrow> bool" where
  "is_context_error e \<longleftrightarrow>
     err_is e ''context canceled'' \<or> err_is e ''context deadline exceeded''"

definition default_should_retry :: "gerr option \<Rightarrow> bool" where
  "default_should_retry e = (case e of None \<Rightarrow> False | Some x \<Rightarrow> \<not> is_context_error x)"

text \<open>\<open>errors.Is(last, ctxErr)\<close> compares with the identity of the context's error.\<close>

fun err_id :: "gerr \<Rightarrow> string" where
  "err_id (Gerr i cs) = e_id i"

definition join_ctx :: "gerr \<Rightarrow> gerr option \<Rightarrow> gerr" where
  "join_ctx c prev = (case prev of
       None \<Rightarrow> c
     | Some e \<Rightarrow> if err_is e (err_id c) then c else err_join c e)"

definition next_delay :: "retry_policy \<Rightarrow> int \<Rightarrow> int" where
  "next_delay p delay =
     (let d = (if 1 < rp_multiplier p then rp_scale p (rp_multiplier p) delay else delay) in
      if 0 < rp_max_delay p \<and> rp_max_delay p < d then rp_max_delay p else d)"

definition should_retry_of :: "retry_policy \<Rightarrow> gerr \<Rightarrow> bool" where
  "should_retry_of p e = (case rp_should_retry p of
       None \<Rightarrow> default_should_retry (Some e) | Some f \<Rightarrow> f e)"

fun retry_loop :: "retry_policy \<Rightarrow> 'w retry_env \<Rightarrow> ('w \<Rightarrow> gerr option \<times> 'w) \<Rightarrow> nat \<Rightarrow> int \<Rightarrow> gerr option
    \<Rightarrow> 'w \<Rightarrow> gerr option \<times> 'w" where
  "retry_loop p ev fn 0 delay prev w = (prev, w)"
| "retry_loop p ev fn (Suc n) delay prev w = (case fn w of
       (None, w1) \<Rightarrow> (None, w1)
     | (Some e, w1) \<Rightarrow>
         if n = 0 \<or> \<not> should_retry_of p e then (Some e, w1)
         else (case ctx_err ev w1 of
             Some c \<Rightarrow> (Some (join_ctx c (Some e)), w1)
           | None \<Rightarrow>
               if 0 < delay then (case wait_for ev delay w1 of
                   (Some c, w2) \<Rightarrow> (Some (join_ctx c (Some e)), w2)
                 | (None, w2) \<Rightarrow> retry_loop p ev fn n (next_delay p delay) (Some e) w2)
               else retry_loop p ev fn n (next_delay p delay) (Some e) w1))"

definition retry_do :: "retry_policy \<Rightarrow> 'w retry_env \<Rightarrow> ('w \<Rightarrow> gerr option \<times> 'w) \<Rightarrow> 'w \<Rightarrow> gerr option \<times> 'w" where
  "retry_do p ev fn w = (case ctx_err ev w of
       Some c \<Rightarrow> (Some c, w)
     | None \<Rightarrow> retry_loop p ev fn (if rp_attempts p \<le> 0 then 1 else nat (rp_attempts p)) (rp_delay p) None w)"

definition plain_policy :: "int \<Rightarrow> int \<Rightarrow> (gerr \<Rightarrow> bool) option \<Rightarrow> retry_policy" where
  "plain_policy attempts delay should =
     \<lparr>rp_attempts = attempts, rp_delay = delay, rp_multiplier = 0, rp_max_delay = 0,
      rp_should_retry = should, rp_scale = (\<lambda>_ d. d)\<rparr>"

definition retry :: "'w retry_env \<Rightarrow> int \<Rightarrow> int \<Rightarrow> ('w \<Rightarrow> gerr option \<times> 'w) \<Rightarrow> 'w \<Rightarrow> gerr option \<times> 'w" where
  "retry ev attempts delay fn = retry_do (plain_policy attempts delay None) ev fn"

definition retry_if :: "'w retry_env \<Rightarrow> int \<Rightarrow> int \<Rightarrow> (gerr \<Rightarrow> bool) option
    \<Rightarrow> ('w \<Rightarrow> gerr option \<times> 'w) \<Rightarrow> 'w \<Rightarrow> gerr option \<times> 'w" where
  "retry_if ev attempts delay should fn = retry_do (plain_policy attempts delay should) ev fn"

text \<open>The same environment with a record of what was called and how long it was waited.\<close>

datatype retry_event = Called "gerr option" | Waited int

definition traced_env :: "'w retry_env \<Rightarrow> ('w \<times> retry_event list) retry_env" where
  "traced_env ev = \<lparr>ctx_err = (\<lambda>(w, tr). ctx_err ev w),
     wait_for = (\<lambda>d (w, tr). let (c, w') = wait_for ev d w in (c, w', tr @ [Waited d]))\<rparr>"

definition traced_fn :: "('w \<Rightarrow> gerr option \<times> 'w) \<Rightarrow> 'w \<times> retry_event list \<Rightarrow> gerr option \<times> 'w \<times> retry_event list" where
  "traced_fn fn = (\<lambda>(w, tr). let (r, w') = fn w in (r, w', tr @ [Called r]))"

fun event_calls :: "retry_event list \<Rightarrow> gerr option list" where
  "event_calls [] = []"
| "event_calls (Called r # es) = r # event_calls es"
| "event_calls (Waited d # es) = event_calls es"

fun event_waits :: "retry_event list \<Rightarrow> int list" where
  "event_waits [] = []"
| "event_waits (Called r # es) = event_waits es"
| "event_waits (Waited d # es) = d # event_waits es"

lemma event_calls_append [simp]: "event_calls (a @ b) = event_calls a @ event_calls b"
  by (induction a rule: event_calls.induct) auto

lemma event_waits_append [simp]: "event_waits (a @ b) = event_waits a @ event_waits b"
  by (induction a rule: event_waits.induct) auto

lemma next_delay_max: "0 < rp_max_delay p \<Longrightarrow> next_delay p d \<le> rp_max_delay p"
  by (simp add: next_delay_def Let_def)

text \<open>What a run of the loop with \<open>n\<close> attempts left may show, and its result.\<close>

inductive run_ok :: "retry_policy \<Rightarrow> nat \<Rightarrow> int \<Rightarrow> retry_event list \<Rightarrow> gerr option \<Rightarrow> bool" for p where
  run_success: "run_ok p (Suc n) d [Called None] None"
| run_give_up: "n = 0 \<or> \<not> should_retry_of p e \<Longrightarrow> run_ok p (Suc n) d [Called (Some e)] (Some e)"
| run_ctx_ended: "n \<noteq> 0 \<Longrightarrow> should_retry_of p e \<Longrightarrow>
    run_ok p (Suc n) d [Called (Some e)] (Some (join_ctx c (Some e)))"
| run_ctx_in_wait: "n \<noteq> 0 \<Longrightarrow> should_retry_of p e \<Longrightarrow> 0 < d \<Longrightarrow>
    run_ok p (Suc n) d [Called (Some e), Waited d] (Some (join_ctx c (Some e)))"
| run_again_wait: "n \<noteq> 0 \<Longrightarrow> should_retry_of p e \<Longrightarrow> 0 < d \<Longrightarrow> run_ok p n (next_delay p d) es r \<Longrightarrow>
    run_ok p (Suc n) d (Called (Some e) # Waited d # es) r"
| run_again: "n \<noteq> 0 \<Longrightarrow> should_retry_of p e \<Longrightarrow> d \<le> 0 \<Longrightarrow> run_ok p n (next_delay p d) es r \<Longrightarrow>
    run_ok p (Suc n) d (Called (Some e) # es) r"

lemma traced_simps [simp]:
  "traced_fn fn (w, tr) = (fst (fn w), snd (fn w), tr @ [Called (fst (fn w))])"
  "ctx_err (traced_env ev) (w, tr) = ctx_err ev w"
  "wait_for (traced_env ev) d (w, tr) = (fst (wait_for ev d w), snd (wait_for ev d w), tr @ [Waited d])"
  by (simp_all add: traced_fn_def traced_env_def split: prod.splits)

lemma retry_loop_run:
  "n \<noteq> 0 \<Longrightarrow> \<exists>es r w'. retry_loop p (traced_env ev) (traced_fn fn) n d prev (w, tr) = (r, w', tr @ es)
    \<and> run_ok p n d es r"
proof (induction n arbitrary: d prev w tr)
  case 0
  then show ?case by simp
next
  case (Suc n)
  let ?L = "retry_loop p (traced_env ev) (traced_fn fn) (Suc n) d prev (w, tr)"
  obtain x w1 where fn: "fn w = (x, w1)" by fastforce
  show ?case
  proof (cases x)
    case None
    with fn show ?thesis by (auto intro: run_success)
  next
    case (Some e)
    consider (stop) "n = 0 \<or> \<not> should_retry_of p e"
      | (ended) c where "n \<noteq> 0" "should_retry_of p e" "ctx_err ev w1 = Some c"
      | (wait) "n \<noteq> 0" "should_retry_of p e" "ctx_err ev w1 = None" "0 < d"
      | (again) "n \<noteq> 0" "should_retry_of p e" "ctx_err ev w1 = None" "d \<le> 0"
      by fastforce
    then show ?thesis
    proof cases
      case stop
      then have "?L = (Some e, w1, tr @ [Called (Some e)])" using fn Some by auto
      then show ?thesis using run_give_up [OF stop] by blast
    next
      case ended
      then have "?L = (Some (join_ctx c (Some e)), w1, tr @ [Called (Some e)])" using fn Some by simp
      then show ?thesis using run_ctx_ended [OF ended(1,2)] by blast
    next
      case wait
      obtain y w2 where y: "wait_for ev d w1 = (y, w2)" by fastforce
      show ?thesis
      proof (cases y)
        case (Some c)
        then have "?L = (Some (join_ctx c (Some e)), w2, tr @ [Called (Some e), Waited d])"
          using fn \<open>x = Some e\<close> wait y by simp
        then show ?thesis using run_ctx_in_wait [OF wait(1,2,4)] by blast
      next
        case None
        from Suc.IH [OF wait(1), of "next_delay p d" "Some e" w2 "tr @ [Called (Some e), Waited d]"]
        obtain es r w' where "retry_loop p (traced_env ev) (traced_fn fn) n (next_delay p d) (Some e)
            (w2, tr @ [Called (Some e), Waited d]) = (r, w', (tr @ [Called (Some e), Waited d]) @ es)"
          and run: "run_ok p n (next_delay p d) es r" by blast
        then have "?L = (r, w', tr @ Called (Some e) # Waited d # es)"
          using fn \<open>x = Some e\<close> wait y None by simp
        then show ?thesis using run_again_wait [OF wait(1,2,4) run] by blast
      qed
    next
      case again
      from Suc.IH [OF again(1), of "next_delay p d" "Some e" w1 "tr @ [Called (Some e)]"]
      obtain es r w' where "retry_loop p (traced_env ev) (traced_fn fn) n (next_delay p d) (Some e)
          (w1, tr @ [Called (Some e)]) = (r, w', (tr @ [Called (Some e)]) @ es)"
        and run: "run_ok p n (next_delay p d) es r" by blast
      then have "?L = (r, w', tr @ Called (Some e) # es)" using fn Some again by simp
      then show ?thesis using run_again [OF again(1,2,4) run] by blast
    qed
  qed
qed

lemma run_ok_facts:
  assumes "run_ok p n d es r"
  shows "event_calls es \<noteq> []" and "length (event_calls es) \<le> n" and "length (event_waits es) < n"
    and "\<forall>x\<in>set (butlast (event_calls es)). \<exists>e. x = Some e \<and> should_retry_of p e"
    and "\<forall>w\<in>set (event_waits es). 0 < w"
    and "event_waits es = [] \<or> d \<le> 0 \<or> hd (event_waits es) = d"
  using assms by (induction rule: run_ok.induct) auto

lemma run_ok_result:
  assumes "run_ok p n d es r"
  shows "case last (event_calls es) of None \<Rightarrow> r = None
    | Some e \<Rightarrow> r = Some e \<or> (\<exists>c. r = Some (join_ctx c (Some e)))"
  using assms
  by (induction rule: run_ok.induct) (auto split: option.splits dest: run_ok_facts(1))

lemma run_ok_max_wait:
  assumes "run_ok p n d es r" and "0 < rp_max_delay p"
  shows "\<forall>w\<in>set (event_waits es). w \<le> max d (rp_max_delay p)"
    and "\<forall>w\<in>set (tl (event_waits es)). w \<le> rp_max_delay p"
  using assms
proof (induction rule: run_ok.induct)
  case (run_again_wait n e d es r)
  {
    case 1
    then show ?case using run_again_wait.IH(1) next_delay_max [of p d] by fastforce
  next
    case 2
    then show ?case using run_again_wait.IH(1) next_delay_max [of p d] by fastforce
  }
next
  case (run_again n e d es r)
  {
    case 1
    then show ?case using run_again.IH(1) next_delay_max [of p d] by fastforce
  next
    case 2
    then show ?case using run_again.IH(2) by simp
  }
qed auto

text \<open>
  (C6) Retrying is bounded and selective: \<open>Do\<close> always returns; it calls the function at least
  once unless the context had ended before, at most \<open>Attempts\<close> times (once when that is not
  positive), waits fewer times than it may call, tries again only after an error that
  \<open>ShouldRetry\<close> accepts, succeeds exactly when the last call did, and otherwise reports the last
  error, alone or joined with the context's; with \<open>MaxDelay\<close> no wait but the first exceeds it.
\<close>

theorem retry_do_spec:
  fixes ev :: "'w retry_env" and p :: retry_policy
  defines "most \<equiv> max 1 (rp_attempts p)"
  assumes run: "retry_do p (traced_env ev) (traced_fn fn) (w, []) = (r, w', tr)"
  shows "if ctx_err ev w \<noteq> None then r = ctx_err ev w \<and> tr = []
    else event_calls tr \<noteq> [] \<and> int (length (event_calls tr)) \<le> most
      \<and> int (length (event_waits tr)) < most
      \<and> (\<forall>x\<in>set (butlast (event_calls tr)). \<exists>e. x = Some e \<and> should_retry_of p e)
      \<and> (case last (event_calls tr) of None \<Rightarrow> r = None
         | Some e \<Rightarrow> r = Some e \<or> (\<exists>c. r = Some (join_ctx c (Some e))))
      \<and> (0 < rp_max_delay p \<longrightarrow> (\<forall>d\<in>set (tl (event_waits tr)). d \<le> rp_max_delay p))"
proof (cases "ctx_err ev w")
  case (Some c)
  with run have "r = Some c" "tr = []" by (simp_all add: retry_do_def)
  then show ?thesis by (simp add: Some)
next
  case None
  let ?n = "if rp_attempts p \<le> 0 then 1 else nat (rp_attempts p)"
  have n: "?n \<noteq> 0" "int ?n = most" by (auto simp: most_def)
  obtain es where tr: "tr = es" and ok: "run_ok p ?n (rp_delay p) es r"
    using retry_loop_run [OF n(1), of p ev fn "rp_delay p" None w "[]"] run None
    by (auto simp: retry_do_def)
  note f = run_ok_facts [OF ok]
  have "int (length (event_calls tr)) \<le> most" unfolding tr using f(2) n(2) by linarith
  moreover have "int (length (event_waits tr)) < most" unfolding tr using f(3) n(2) by linarith
  ultimately show ?thesis
    using None f(1,4) run_ok_result [OF ok] run_ok_max_wait(2) [OF ok] tr by simp
qed

text \<open>A world for the witnesses: the results still to come; the context never ends.\<close>

definition demo_env :: "gerr option list retry_env" where
  "demo_env = \<lparr>ctx_err = (\<lambda>_. None), wait_for = (\<lambda>_ w. (None, w))\<rparr>"

definition demo_fn :: "gerr option list \<Rightarrow> gerr option \<times> gerr option list" where
  "demo_fn w = (case w of [] \<Rightarrow> (None, []) | r # rs \<Rightarrow> (r, rs))"

definition demo_policy :: retry_policy where
  "demo_policy = (plain_policy 5 10 None)\<lparr>rp_multiplier := 2, rp_max_delay := 15,
     rp_scale := (\<lambda>_ d. 2 * d)\<rparr>"

lemma retry_do_spec_witness:
  "list_all (\<lambda>d. d \<le> rp_max_delay demo_policy) (tl [10, 15])
    \<and> int (length [10, 15 :: int]) < rp_attempts demo_policy"
proof -
  let ?e = "Some (err_new ''busy'')"
  have "retry_do demo_policy (traced_env demo_env) (traced_fn demo_fn) ([?e, ?e, None], [])
      = (None, [], [Called ?e, Waited 10, Called ?e, Waited 15, Called None])"
    by (simp add: retry_do_def demo_policy_def plain_policy_def demo_env_def demo_fn_def
        next_delay_def should_retry_of_def default_should_retry_def is_context_error_def
        eval_nat_numeral)
  from retry_do_spec [OF this] show ?thesis
    by (simp add: demo_env_def demo_policy_def plain_policy_def)
qed

text \<open>The first wait is \<open>Delay\<close> itself, whatever \<open>MaxDelay\<close> says.\<close>

lemma first_wait_uncapped:
  "retry_do ((plain_policy 2 10 None)\<lparr>rp_max_delay := 5\<rparr>) (traced_env demo_env) (traced_fn demo_fn)
      ([Some (err_new ''busy''), None], [])
    = (None, [], [Called (Some (err_new ''busy'')), Waited 10, Called None])"
  by (simp add: retry_do_def plain_policy_def demo_env_def demo_fn_def
      next_delay_def should_retry_of_def default_should_retry_def is_context_error_def
      eval_nat_numeral)

section \<open>Circuit breaker\<close>

datatype cb_state = Closed | Open | HalfOpen

fun state_string :: "cb_state \<Rightarrow> string" where
  "state_string Open = ''open''"
| "state_string HalfOpen = ''half-open''"
| "state_string Closed = ''closed''"

datatype cb_outcome = Success | Failure | Neutral

record breaker =
  cb_state :: cb_state
  cb_failures :: int
  cb_threshold :: int
  cb_open_until :: int
  cb_timeout :: int
  cb_allow_probe :: bool
  cb_is_failure :: "(gerr \<Rightarrow> bool) option"

text \<open>\<open>WithFailurePredicate\<close> ignores a nil predicate; \<open>opts\<close> are the options in order.\<close>

definition with_failure_predicate :: "(gerr \<Rightarrow> bool) option \<Rightarrow> breaker \<Rightarrow> breaker" where
  "with_failure_predicate f cb = (case f of None \<Rightarrow> cb | Some g \<Rightarrow> cb\<lparr>cb_is_failure := Some g\<rparr>)"

definition new_breaker :: "int \<Rightarrow> int \<Rightarrow> (breaker \<Rightarrow> breaker) option list \<Rightarrow> breaker" where
  "new_breaker threshold timeout opts =
     fold (\<lambda>opt cb. case opt of None \<Rightarrow> cb | Some f \<Rightarrow> f cb) opts
       \<lparr>cb_state = Closed, cb_failures = 0, cb_threshold = (if threshold \<le> 0 then 5 else threshold),
        cb_open_until = 0, cb_timeout = (if timeout \<le> 0 then 30 * 1000000000 else timeout),
        cb_allow_probe = False, cb_is_failure = None\<rparr>"

text \<open>\<open>currentStateLocked\<close>: times are nanoseconds on the monotonic clock.\<close>

definition current_state :: "int \<Rightarrow> breaker \<Rightarrow> breaker" where
  "current_state now cb =
     (if cb_state cb = Open \<and> cb_open_until cb < now
      then cb\<lparr>cb_state := HalfOpen, cb_allow_probe := True\<rparr> else cb)"

definition breaker_state :: "int \<Rightarrow> breaker \<Rightarrow> string \<times> breaker" where
  "breaker_state now cb = (let cb' = current_state now cb in (state_string (cb_state cb'), cb'))"

definition classify :: "breaker \<Rightarrow> gerr option \<Rightarrow> cb_outcome" where
  "classify cb err = (case err of
       None \<Rightarrow> Success
     | Some e \<Rightarrow>
         if is_context_error e then Neutral
         else (case cb_is_failure cb of
             None \<Rightarrow> Failure
           | Some f \<Rightarrow> if f e then Failure else Success))"

definition cb_record :: "int \<Rightarrow> cb_outcome \<Rightarrow> bool \<Rightarrow> breaker \<Rightarrow> breaker" where
  "cb_record now out probe cb = (case out of
       Success \<Rightarrow>
         if cb_state cb = HalfOpen \<and> \<not> probe then cb
         else cb\<lparr>cb_state := Closed, cb_failures := 0, cb_allow_probe := False\<rparr>
     | Neutral \<Rightarrow>
         if probe \<and> cb_state cb = HalfOpen then cb\<lparr>cb_allow_probe := True\<rparr> else cb
     | Failure \<Rightarrow> (case cb_state cb of
           Closed \<Rightarrow>
             let cb' = cb\<lparr>cb_failures := cb_failures cb + 1\<rparr> in
             if cb_threshold cb \<le> cb_failures cb'
             then cb'\<lparr>cb_state := Open, cb_open_until := now + cb_timeout cb\<rparr> else cb'
         | HalfOpen \<Rightarrow>
             if probe
             then cb\<lparr>cb_state := Open, cb_open_until := now + cb_timeout cb, cb_allow_probe := False\<rparr>
             else cb
         | Open \<Rightarrow> cb))"

text \<open>
  The part of \<open>Execute\<close> before the call: \<open>None\<close> is \<open>ErrBreakerOpen\<close>, \<open>Some probe\<close> lets the
  call pass. The part after it: a panic is recorded as a failure and thrown again.
\<close>

definition cb_admit :: "int \<Rightarrow> breaker \<Rightarrow> bool option \<times> breaker" where
  "cb_admit now cb =
     (let cb' = current_state now cb in
      case cb_state cb' of
        Open \<Rightarrow> (None, cb')
      | HalfOpen \<Rightarrow> if cb_allow_probe cb' then (Some True, cb'\<lparr>cb_allow_probe := False\<rparr>) else (None, cb')
      | Closed \<Rightarrow> (Some False, cb'))"

datatype call_result = Returned "gerr option" | Panicked

definition cb_finish :: "int \<Rightarrow> call_result \<Rightarrow> bool \<Rightarrow> breaker \<Rightarrow> breaker" where
  "cb_finish now res probe cb = (case res of
       Returned err \<Rightarrow> cb_record now (classify cb err) probe cb
     | Panicked \<Rightarrow> cb_record now Failure probe cb)"

definition err_breaker_open :: gerr where
  "err_breaker_open = sentinel ''circuit breaker is open''"

text \<open>One call of \<open>Execute\<close> with nothing in between; \<open>clock\<close> reads the time off the world.\<close>

definition cb_execute :: "('w \<Rightarrow> gerr option) \<Rightarrow> ('w \<Rightarrow> int) \<Rightarrow> ('w \<Rightarrow> call_result \<times> 'w) \<Rightarrow> breaker \<Rightarrow> 'w
    \<Rightarrow> call_result \<times> breaker \<times> 'w" where
  "cb_execute ctx clock fn cb w = (case ctx w of
       Some c \<Rightarrow> (Returned (Some c), cb, w)
     | None \<Rightarrow> (case cb_admit (clock w) cb of
         (None, cb1) \<Rightarrow> (Returned (Some err_breaker_open), cb1, w)
       | (Some probe, cb1) \<Rightarrow>
           (let (res, w') = fn w in (res, cb_finish (clock w') res probe cb1, w'))))"

section \<open>The breaker under concurrent calls\<close>

text \<open>\<open>br_flights\<close> has an element for every call in flight: whether it is the probe.\<close>

record br_sys =
  br_cb :: breaker
  br_flights :: "bool list"
  br_now :: int

definition br_init :: "br_sys \<Rightarrow> bool" where
  "br_init s \<longleftrightarrow> (\<exists>n t f. br_cb s = new_breaker n t [Some (with_failure_predicate f)]) \<and> br_flights s = []"

inductive cb_step :: "br_sys \<Rightarrow> br_sys \<Rightarrow> bool" where
  cb_tick: "br_now s \<le> t \<Longrightarrow> cb_step s (s\<lparr>br_now := t\<rparr>)"
| cb_look: "cb_step s (s\<lparr>br_cb := snd (breaker_state (br_now s) (br_cb s))\<rparr>)"
| cb_reject: "cb_admit (br_now s) (br_cb s) = (None, cb) \<Longrightarrow> cb_step s (s\<lparr>br_cb := cb\<rparr>)"
| cb_start: "cb_admit (br_now s) (br_cb s) = (Some probe, cb) \<Longrightarrow>
    cb_step s (s\<lparr>br_cb := cb, br_flights := probe # br_flights s\<rparr>)"
| cb_end: "probe \<in> set (br_flights s) \<Longrightarrow>
    cb_step s (s\<lparr>br_cb := cb_finish (br_now s) res probe (br_cb s),
                 br_flights := remove1 probe (br_flights s)\<rparr>)"

inductive_cases cb_stepE: "cb_step s t"

inductive_simps cb_step_end_simps: "cb_step s (s\<lparr>br_cb := c, br_flights := fs\<rparr>)"

text \<open>
  The invariant: the failure count is below the threshold while the breaker is closed and equal to
  it otherwise, and there is a probe in flight exactly when the breaker is half open and the right
  to probe is taken.
\<close>

definition br_ok :: "br_sys \<Rightarrow> bool" where
  "br_ok s \<longleftrightarrow> (let cb = br_cb s in
     0 < cb_threshold cb \<and> 0 < cb_timeout cb \<and> 0 \<le> cb_failures cb \<and>
     (if cb_state cb = Closed then cb_failures cb < cb_threshold cb else cb_failures cb = cb_threshold cb) \<and>
     count_list (br_flights s) True = (if cb_state cb = HalfOpen \<and> \<not> cb_allow_probe cb then 1 else 0) \<and>
     (cb_allow_probe cb \<longrightarrow> cb_state cb = HalfOpen))"

lemma br_ok_init: "br_init s \<Longrightarrow> br_ok s"
  by (auto simp: br_init_def br_ok_def new_breaker_def with_failure_predicate_def split: option.splits)

lemma br_ok_tick: "br_ok (s\<lparr>br_now := t\<rparr>) = br_ok s"
  by (simp add: br_ok_def)

lemma br_ok_look: "br_ok s \<Longrightarrow> br_ok (s\<lparr>br_cb := current_state now (br_cb s)\<rparr>)"
  by (auto simp: br_ok_def current_state_def Let_def)

lemma br_ok_start:
  assumes ok: "br_ok s" and a: "cb_admit now (br_cb s) = (Some probe, cb)"
  shows "br_ok (s\<lparr>br_cb := cb, br_flights := probe # br_flights s\<rparr>)"
  using br_ok_look [OF ok, of now] a
  by (auto simp: br_ok_def cb_admit_def Let_def split: cb_state.splits if_splits)

lemma br_ok_reject:
  assumes ok: "br_ok s" and a: "cb_admit now (br_cb s) = (None, cb)"
  shows "br_ok (s\<lparr>br_cb := cb\<rparr>)"
  using br_ok_look [OF ok, of now] a
  by (auto simp: br_ok_def cb_admit_def Let_def split: cb_state.splits if_splits)

lemma br_ok_record:
  assumes ok: "br_ok s" and p: "probe \<in> set (br_flights s)"
  shows "br_ok (s\<lparr>br_cb := cb_record now out probe (br_cb s), br_flights := remove1 probe (br_flights s)\<rparr>)"
proof -
  have "probe \<Longrightarrow> 0 < count_list (br_flights s) True" using p by (metis count_list_0_iff gr0I)
  with ok show ?thesis
    by (cases out; cases "cb_state (br_cb s)"; cases probe)
       (simp_all add: br_ok_def cb_record_def Let_def count_list_remove1 split: if_splits)
qed

lemma br_ok_step: "br_ok s \<Longrightarrow> cb_step s t \<Longrightarrow> br_ok t"
proof (erule cb_stepE)
  fix probe res
  assume "br_ok s" "probe \<in> set (br_flights s)"
    and t: "t = s\<lparr>br_cb := cb_finish (br_now s) res probe (br_cb s), br_flights := remove1 probe (br_flights s)\<rparr>"
  then show "br_ok t"
    by (cases res) (auto simp: cb_finish_def intro: br_ok_record)
qed (auto simp: br_ok_tick breaker_state_def Let_def intro: br_ok_start br_ok_reject br_ok_look)

interpretation br: transition_system br_init cb_step br_ok
  by unfold_locales (auto intro: br_ok_init br_ok_step)

definition br_reachable :: "br_sys \<Rightarrow> bool" where
  "br_reachable s \<longleftrightarrow> (\<exists>i. br_init i \<and> cb_step\<^sup>*\<^sup>* i s)"

lemma br_reachable_ok: "br_reachable s \<Longrightarrow> br_ok s"
  unfolding br_reachable_def using br.inv_reachable by blast

section \<open>Properties of the breaker\<close>

text \<open>
  (C7) One probe, and never stuck: in every interleaving of calls at most one probe is in flight
  and only while the breaker is half open, the failure count never exceeds the threshold, and a
  half-open breaker with no probe in flight lets the next call pass as the probe.
\<close>

theorem breaker_probe_exclusive:
  assumes "br_reachable s"
  shows "count_list (br_flights s) True \<le> 1
    \<and> (True \<in> set (br_flights s) \<longrightarrow> cb_state (br_cb s) = HalfOpen)
    \<and> cb_failures (br_cb s) \<le> cb_threshold (br_cb s)
    \<and> (cb_state (br_cb s) = HalfOpen \<and> True \<notin> set (br_flights s) \<longrightarrow>
        fst (cb_admit now (br_cb s)) = Some True)"
proof -
  have ok: "br_ok s" by (rule br_reachable_ok [OF assms])
  have count: "True \<in> set (br_flights s) \<longleftrightarrow> count_list (br_flights s) True \<noteq> 0"
    by (simp add: count_list_0_iff)
  from ok show ?thesis unfolding count
    by (auto simp: br_ok_def cb_admit_def current_state_def Let_def split: if_splits)
qed

text \<open>
  A run for the witnesses: a breaker with threshold one; two calls start, the first one fails and
  opens it, time passes, a probe starts.
\<close>

definition demo_breaker :: breaker where
  "demo_breaker = new_breaker 1 10 [Some (with_failure_predicate None)]"

definition demo_half_open :: br_sys where
  "demo_half_open = \<lparr>br_cb = demo_breaker\<lparr>cb_failures := 1, cb_state := HalfOpen, cb_open_until := 10\<rparr>,
     br_flights = [True, False], br_now = 11\<rparr>"

lemmas demo_breaker_simps = demo_breaker_def new_breaker_def with_failure_predicate_def

lemma demo_half_open_reachable: "br_reachable demo_half_open"
proof -
  define s0 where "s0 = \<lparr>br_cb = demo_breaker, br_flights = [], br_now = 0\<rparr>"
  define s1 where "s1 = s0\<lparr>br_flights := [False]\<rparr>"
  define s2 where "s2 = s0\<lparr>br_flights := [False, False]\<rparr>"
  define s3 where "s3 = \<lparr>br_cb = demo_breaker\<lparr>cb_failures := 1, cb_state := Open, cb_open_until := 10\<rparr>,
    br_flights = [False], br_now = 0\<rparr>"
  define s4 where "s4 = s3\<lparr>br_now := 11\<rparr>"
  note defs = s0_def s1_def s2_def s3_def s4_def demo_breaker_simps cb_admit_def current_state_def
    cb_finish_def cb_record_def Let_def
  have "cb_step s0 s1" using cb_start [of s0 False demo_breaker] by (simp add: defs)
  moreover have "cb_step s1 s2" using cb_start [of s1 False demo_breaker] by (simp add: defs)
  moreover have "cb_step s2 s3" using cb_end [of False s2 Panicked] by (simp add: defs)
  moreover have "cb_step s3 s4" using cb_tick [of s3 11] by (simp add: defs)
  moreover have "cb_step s4 demo_half_open"
    using cb_start [of s4 True "br_cb demo_half_open"] by (simp add: defs demo_half_open_def)
  ultimately have "cb_step\<^sup>*\<^sup>* s0 demo_half_open"
    by (meson converse_rtranclp_into_rtranclp rtranclp.rtrancl_refl)
  moreover have "br_init s0" unfolding br_init_def s0_def demo_breaker_def by fastforce
  ultimately show ?thesis unfolding br_reachable_def by blast
qed

lemma breaker_probe_exclusive_witness:
  "count_list (br_flights demo_half_open) True \<le> 1 \<and> True \<in> set (br_flights demo_half_open)"
  using breaker_probe_exclusive [OF demo_half_open_reachable] by (simp add: demo_half_open_def)

text \<open>A failing call: a panic, or an error that is classified as a failure.\<close>

definition fails_with :: "breaker \<Rightarrow> call_result \<Rightarrow> bool" where
  "fails_with cb res \<longleftrightarrow> (case res of Panicked \<Rightarrow> True | Returned e \<Rightarrow> classify cb e = Failure)"

lemma finish_failure: "fails_with cb res \<Longrightarrow> cb_finish now res probe cb = cb_record now Failure probe cb"
  by (auto simp: fails_with_def cb_finish_def split: call_result.splits)

lemma fails_with_cong: "cb_is_failure cb = cb_is_failure cb' \<Longrightarrow> fails_with cb = fails_with cb'"
  by (auto simp: fails_with_def classify_def fun_eq_iff split: call_result.splits option.splits)

lemma failures_closed:
  assumes "cb_state cb = Closed" and "\<And>t r. (t, r) \<in> set cs \<Longrightarrow> fails_with cb r"
    and "cb_failures cb + int (length cs) < cb_threshold cb"
  shows "fold (\<lambda>(t, r). cb_finish t r False) cs cb = cb\<lparr>cb_failures := cb_failures cb + int (length cs)\<rparr>"
  using assms
proof (induction cs arbitrary: cb)
  case Nil
  then show ?case by simp
next
  case (Cons c cs)
  obtain t r where c: "c = (t, r)" by fastforce
  let ?d = "cb\<lparr>cb_failures := cb_failures cb + 1\<rparr>"
  have "fails_with cb r" using Cons.prems(2) [of t r] c by simp
  then have "cb_finish t r False cb = ?d"
    using Cons.prems(1,3) c by (simp add: finish_failure cb_record_def Let_def)
  moreover have "fold (\<lambda>(t, r). cb_finish t r False) cs ?d
      = ?d\<lparr>cb_failures := cb_failures ?d + int (length cs)\<rparr>"
    by (rule Cons.IH) (use Cons.prems in \<open>auto simp: fails_with_cong [of ?d cb]\<close>)
  ultimately show ?case using c by (simp add: algebra_simps)
qed

text \<open>
  The breaker trips exactly at the threshold: calls of a new breaker that fail one after the
  other leave it closed while they are fewer than the threshold; the call that reaches it opens it,
  and from then on until \<open>openTimeout\<close> has passed \<open>Execute\<close> returns \<open>ErrBreakerOpen\<close> without
  running its function.
\<close>

theorem breaker_trips:
  assumes cb: "cb = new_breaker n timeout [Some (with_failure_predicate f)]"
    and n: "0 < n" and timeout: "0 < timeout"
    and fail: "\<And>t r. (t, r) \<in> set cs \<Longrightarrow> fails_with cb r"
    and cb': "cb' = fold (\<lambda>(t, r). cb_finish t r False) cs cb"
  shows "(int (length cs) < n \<longrightarrow> fst (cb_admit now cb') = Some False) \<and>
    (int (length cs) = n \<and> now \<le> fst (last cs) + timeout \<and> ctx w = None \<and> clock w = now \<longrightarrow>
      cb_execute ctx clock fn cb' w = (Returned (Some err_breaker_open), cb', w))"
proof (intro conjI impI)
  have new: "cb_state cb = Closed" "cb_failures cb = 0" "cb_threshold cb = n" "cb_timeout cb = timeout"
    using cb n timeout by (simp_all add: new_breaker_def with_failure_predicate_def split: option.splits)
  {
    assume "int (length cs) < n"
    then have "cb' = cb\<lparr>cb_failures := int (length cs)\<rparr>"
      unfolding cb' using failures_closed [OF new(1) fail] new by simp
    then show "fst (cb_admit now cb') = Some False"
      using new by (simp add: cb_admit_def current_state_def Let_def)
  }
  assume a: "int (length cs) = n \<and> now \<le> fst (last cs) + timeout \<and> ctx w = None \<and> clock w = now"
  with n obtain ds t r where cs: "cs = ds @ [(t, r)]"
    by (cases cs rule: rev_cases) auto
  let ?d = "cb\<lparr>cb_failures := int (length ds)\<rparr>"
  have "fold (\<lambda>(t, r). cb_finish t r False) ds cb = ?d"
    using failures_closed [OF new(1), of ds] fail a cs new by auto
  then have "cb' = cb_finish t r False ?d" unfolding cb' by (simp add: cs)
  also have "\<dots> = ?d\<lparr>cb_failures := n, cb_state := Open, cb_open_until := t + timeout\<rparr>"
    using fail [of t r] fails_with_cong [of ?d cb] a new cs
    by (simp add: finish_failure cb_record_def Let_def)
  finally have "cb_state cb' = Open" and "cb_open_until cb' = t + timeout" by simp_all
  with a show "cb_execute ctx clock fn cb' w = (Returned (Some err_breaker_open), cb', w)"
    by (simp add: cb_execute_def cb_admit_def current_state_def Let_def cs)
qed

lemma breaker_trips_witness:
  "cb_execute (\<lambda>_. None) id (\<lambda>w. (Returned None, w))
      (cb_finish 5 (Returned (Some (err_new ''x''))) False (cb_finish 3 Panicked False
        (new_breaker 2 10 [Some (with_failure_predicate None)]))) 15
    = (Returned (Some err_breaker_open),
       cb_finish 5 (Returned (Some (err_new ''x''))) False (cb_finish 3 Panicked False
        (new_breaker 2 10 [Some (with_failure_predicate None)])), 15)"
proof -
  let ?cb = "new_breaker 2 10 [Some (with_failure_predicate None)]"
  let ?cs = "[(3::int, Panicked), (5, Returned (Some (err_new ''x'')))]"
  have fail: "(t, r) \<in> set ?cs \<Longrightarrow> fails_with ?cb r" for t :: int and r
    by (auto simp: fails_with_def classify_def is_context_error_def new_breaker_def
        with_failure_predicate_def)
  have "(int (length ?cs) < 2 \<longrightarrow> fst (cb_admit 15 (fold (\<lambda>(t, r). cb_finish t r False) ?cs ?cb)) = Some False) \<and>
    (int (length ?cs) = 2 \<and> 15 \<le> fst (last ?cs) + 10 \<and> (\<lambda>_. None) (15::int) = (None :: gerr option) \<and> id 15 = (15::int) \<longrightarrow>
      cb_execute (\<lambda>_. None) id (\<lambda>w. (Returned None, w)) (fold (\<lambda>(t, r). cb_finish t r False) ?cs ?cb) 15
      = (Returned (Some err_breaker_open), fold (\<lambda>(t, r). cb_finish t r False) ?cs ?cb, 15))"
    by (rule breaker_trips [OF refl _ _ fail refl]) simp_all
  then show ?thesis by simp
qed

text \<open>
  A success that was admitted before the breaker opened closes it at once, without waiting for
  \<open>openTimeout\<close>: from the open state of the run above.
\<close>

lemma late_success_closes:
  "cb_state cb = Open \<Longrightarrow> cb_state (cb_finish now (Returned None) False cb) = Closed"
  by (simp add: cb_finish_def classify_def cb_record_def)

end
