(* ===== verification/Db_Policies.thy ===== *)
theory Db_Policies
  imports Db_Builders Stmt_Cache Resilience
begin

text \<open>
  pkg/db/errors.go and the runtime of pkg/db/db.go: which errors are retried, which ones count
  for the breaker, the life of the runtime, and the execution of statements under the retry and
  breaker policies. The database itself (GORM) is a parameter: \<open>exec\<close> runs one statement and
  \<open>transaction\<close> a function inside a transaction. Logging is left out.
\<close>

section \<open>Classification of errors\<close>

definition is_constraint_violation :: "gerr option \<Rightarrow> bool" where
  "is_constraint_violation err = (case err of None \<Rightarrow> False | Some e \<Rightarrow>
     if err_is e ''gorm.ErrDuplicatedKey'' \<or> err_is e ''gorm.ErrForeignKeyViolated''
       \<or> err_is e ''gorm.ErrCheckConstraintViolated'' then True
     else (case err_as e_state e of Some st \<Rightarrow> has_prefix ''23'' st
     | None \<Rightarrow> (case err_as e_mssql e of Some n \<Rightarrow> n \<in> {2627, 2601, 547, 515, 2628}
     | None \<Rightarrow> (case err_as e_mysql e of
         Some n \<Rightarrow> n \<in> {1062, 1451, 1452, 1048, 1216, 1217, 3819, 1364}
     | None \<Rightarrow> (case err_as e_sqlite e of Some c \<Rightarrow> c = 19
     | None \<Rightarrow> (case err_as e_code e of Some c \<Rightarrow> c mod 256 = 19
     | None \<Rightarrow> False))))))"

text \<open>The errors that neither \<open>IsTransient\<close> nor the breaker counts.\<close>

definition is_neutral :: "gerr \<Rightarrow> bool" where
  "is_neutral e \<longleftrightarrow> is_context_error e \<or> err_is e ''sql.ErrNoRows'' \<or> err_is e ''gorm.ErrRecordNotFound''
     \<or> is_constraint_violation (Some e)"

definition connection_errors :: "string list" where
  "connection_errors = [''driver.ErrBadConn'', ''mysql.ErrInvalidConn'', ''ECONNRESET'', ''ECONNREFUSED'',
     ''ECONNABORTED'', ''EPIPE'', ''io.ErrUnexpectedEOF'']"

definition transient_states :: "string list" where
  "transient_states = [''40001'', ''40P01'', ''57P01'', ''57P02'', ''57P03'', ''53300'']"

definition transient_messages :: "string list" where
  "transient_messages = [''database is locked'', ''database table is locked'', ''deadlock'',
     ''connection reset by peer'', ''broken pipe'', ''connection refused'', ''bad connection'']"

definition is_transient :: "gerr option \<Rightarrow> bool" where
  "is_transient err = (case err of None \<Rightarrow> False | Some e \<Rightarrow>
     if is_neutral e then False
     else if list_ex (err_is e) connection_errors then True
     else (case err_as e_state e of Some st \<Rightarrow> st \<in> set transient_states \<or> has_prefix ''08'' st
     | None \<Rightarrow> (case err_as e_mssql e of
         Some n \<Rightarrow> n \<in> {1205, 1222, 233, 64, 10053, 10054, 10928, 10929, 40197, 40501, 40613,
                       49918, 49919, 49920}
     | None \<Rightarrow> (case err_as e_mysql e of Some n \<Rightarrow> n \<in> {1213, 1205, 1040, 1053}
     | None \<Rightarrow> (case err_as e_sqlite e of Some c \<Rightarrow> c = 5 \<or> c = 6
     | None \<Rightarrow> (case err_as e_code e of Some c \<Rightarrow> c mod 256 = 5 \<or> c mod 256 = 6
     | None \<Rightarrow> list_ex (\<lambda>s. contains_sub s (go_lower (err_msg e))) transient_messages))))))"

definition is_timeout :: "gerr option \<Rightarrow> bool" where
  "is_timeout err = (case err of None \<Rightarrow> False | Some e \<Rightarrow>
     if is_context_error e then False
     else if err_as e_timeout e = Some True then True
     else if err_as e_state e = Some ''57014'' then True
     else err_as e_mssql e = Some (- 2))"

definition should_retry :: "bool \<Rightarrow> gerr \<Rightarrow> bool" where
  "should_retry read e = (if is_transient (Some e) then True else read \<and> is_timeout (Some e))"

definition is_breaker_failure :: "gerr \<Rightarrow> bool" where
  "is_breaker_failure e = (\<not> is_neutral e)"

lemma transient_not_neutral: "is_transient (Some e) \<Longrightarrow> \<not> is_neutral e"
  by (auto simp: is_transient_def split: if_splits)

section \<open>The runtime\<close>

record db_config =
  cf_driver :: string
  cf_retry_attempts :: int
  cf_retry_delay :: int
  cf_retry_writes :: bool
  cf_enable_breaker :: bool
  cf_fail_threshold :: int
  cf_open_timeout :: int
  cf_enable_stmt_cache :: bool
  cf_stmt_cache_size :: int

text \<open>A runtime; \<open>rt_db\<close> identifies the connection pool that \<open>openDB\<close> returned.\<close>

record db_runtime =
  rt_db :: nat
  rt_cfg :: db_config
  rt_cb :: "breaker option"
  rt_cache :: "stmt_cache option"
  rt_dialect :: dialect

datatype db_fail = Not_init | Bind_fail db_error | Build_fail db_error | Db_fail gerr | Unsupported_driver string

definition driver_dialect :: "string \<Rightarrow> dialect option" where
  "driver_dialect name =
     (let s = go_lower name in
      if s \<in> {''postgres'', ''pg'', ''postgresql''} then Some Postgres
      else if s = ''mysql'' then Some MySQL
      else if s \<in> {''sqlite'', ''sqlite3''} then Some SQLite
      else if s \<in> {''sqlserver'', ''mssql''} then Some SQLServer
      else None)"

text \<open>
  \<open>Init\<close>: \<open>open_db\<close> opens a pool for the chosen dialect. The new runtime replaces the old one,
  which is returned to be shut down.
\<close>

definition new_runtime :: "nat \<Rightarrow> db_config \<Rightarrow> dialect \<Rightarrow> db_runtime" where
  "new_runtime pool cfg d = \<lparr>rt_db = pool, rt_cfg = cfg,
     rt_cb = (if cf_enable_breaker cfg
              then Some (new_breaker (cf_fail_threshold cfg) (cf_open_timeout cfg)
                [Some (with_failure_predicate (Some is_breaker_failure))]) else None),
     rt_cache = (if cf_enable_stmt_cache cfg then Some (new_stmt_cache (cf_stmt_cache_size cfg)) else None),
     rt_dialect = d\<rparr>"

definition db_init :: "(dialect \<Rightarrow> gerr + nat) \<Rightarrow> db_config \<Rightarrow> db_runtime option
    \<Rightarrow> db_fail option \<times> db_runtime option \<times> db_runtime option" where
  "db_init open_db cfg cur = (case driver_dialect (cf_driver cfg) of
       None \<Rightarrow> (Some (Unsupported_driver (cf_driver cfg)), cur, None)
     | Some d \<Rightarrow> (case open_db d of
         Inl e \<Rightarrow> (Some (Db_fail e), cur, None)
       | Inr pool \<Rightarrow> (None, Some (new_runtime pool cfg d), cur)))"

definition db_close :: "db_runtime option \<Rightarrow> db_runtime option \<times> db_runtime option" where
  "db_close cur = (None, cur)"

definition shutdown :: "nat list \<Rightarrow> db_runtime \<Rightarrow> stmt_cache option" where
  "shutdown order rt = map_option (close_all order) (rt_cache rt)"

definition current_rt :: "db_runtime option \<Rightarrow> db_fail + db_runtime" where
  "current_rt cur = (case cur of None \<Rightarrow> Inl Not_init | Some rt \<Rightarrow> Inr rt)"

definition stmt_metrics :: "db_runtime option \<Rightarrow> nat \<times> nat" where
  "stmt_metrics cur = (case cur of None \<Rightarrow> (0, 0) | Some rt \<Rightarrow> (case rt_cache rt of
       None \<Rightarrow> (0, 0) | Some c \<Rightarrow> (sc_prepares c, sc_hits c)))"

text \<open>The values a context carries for this package.\<close>

record db_ctx =
  dc_trace_id :: "string option"
  dc_tx_id :: "string option"
  dc_query_id :: "string option"
  dc_write_retry :: "bool option"

definition with_write_retry :: "bool \<Rightarrow> db_ctx \<Rightarrow> db_ctx" where
  "with_write_retry enabled ctx = ctx\<lparr>dc_write_retry := Some enabled\<rparr>"

definition ensure_query_id :: "string \<Rightarrow> db_ctx option \<Rightarrow> db_ctx" where
  "ensure_query_id fresh ctx = (case ctx of
       None \<Rightarrow> \<lparr>dc_trace_id = None, dc_tx_id = None, dc_query_id = Some fresh, dc_write_retry = None\<rparr>
     | Some c \<Rightarrow> if dc_query_id c = None then c\<lparr>dc_query_id := Some fresh\<rparr> else c)"

datatype op_kind = OpRead | OpWrite | OpTx

definition write_retry_allowed :: "db_runtime \<Rightarrow> db_ctx \<Rightarrow> bool" where
  "write_retry_allowed rt ctx = (case dc_write_retry ctx of
       Some v \<Rightarrow> v | None \<Rightarrow> cf_retry_writes (rt_cfg rt))"

definition policy_attempts :: "db_runtime \<Rightarrow> db_ctx \<Rightarrow> op_kind \<Rightarrow> int" where
  "policy_attempts rt ctx kind =
     (let n = cf_retry_attempts (rt_cfg rt) in
      if n \<le> 1 \<or> (kind \<noteq> OpRead \<and> \<not> write_retry_allowed rt ctx) then 1 else n)"

text \<open>
  \<open>doWithPolicies\<close>: retries inside the breaker. The world is what the function works on; \<open>ev\<close> and
  \<open>clock\<close> read the context and the time off it; the breaker's state is returned with it.
\<close>

definition do_with_policies :: "'w retry_env \<Rightarrow> ('w \<Rightarrow> int) \<Rightarrow> db_runtime \<Rightarrow> db_ctx \<Rightarrow> op_kind
    \<Rightarrow> ('w \<Rightarrow> gerr option \<times> 'w) \<Rightarrow> 'w \<Rightarrow> call_result \<times> db_runtime \<times> 'w" where
  "do_with_policies ev clock rt ctx kind fn w =
     (let retry_fn = retry_if ev (policy_attempts rt ctx kind) (cf_retry_delay (rt_cfg rt))
            (Some (should_retry (kind = OpRead))) fn in
      case rt_cb rt of
        None \<Rightarrow> (let (r, w') = retry_fn w in (Returned r, rt, w'))
      | Some cb \<Rightarrow>
          (let (r, cb', w') = cb_execute (ctx_err ev) clock (\<lambda>w. let (r, w') = retry_fn w in (Returned r, w')) cb w
           in (r, rt\<lparr>rt_cb := Some cb'\<rparr>, w')))"

section \<open>Running statements\<close>

text \<open>
  \<open>ExecString\<close> and its shorthands: bind, then run under the policies. The closure's variable
  \<open>rows\<close> is part of the world, so a failed attempt may leave its count behind, as in the code.
\<close>

definition lift_env :: "'w retry_env \<Rightarrow> ('w \<times> 'x) retry_env" where
  "lift_env ev = \<lparr>ctx_err = (\<lambda>(w, _). ctx_err ev w),
     wait_for = (\<lambda>d (w, x). let (c, w') = wait_for ev d w in (c, w', x))\<rparr>"

definition exec_string :: "'w retry_env \<Rightarrow> ('w \<Rightarrow> int) \<Rightarrow> (string \<Rightarrow> gval list \<Rightarrow> 'w \<Rightarrow> (gerr option \<times> int) \<times> 'w)
    \<Rightarrow> db_runtime option \<Rightarrow> string \<Rightarrow> db_ctx option \<Rightarrow> string \<Rightarrow> (string \<Rightarrow> gval option) \<Rightarrow> 'w
    \<Rightarrow> (db_fail + int \<times> call_result) \<times> db_runtime option \<times> 'w" where
  "exec_string ev clock exec cur fresh ctx sql params w = (case current_rt cur of
       Inl e \<Rightarrow> (Inl e, cur, w)
     | Inr rt \<Rightarrow> (case bind_named_to_q sql params of
         Inl e \<Rightarrow> (Inl (Bind_fail e), cur, w)
       | Inr (bound, args) \<Rightarrow>
           (let (r, rt', w', rows) = do_with_policies (lift_env ev) (\<lambda>(w, _). clock w) rt
                  (ensure_query_id fresh ctx) OpWrite
                  (\<lambda>(w, _). let ((e, n), w') = exec bound args w in (e, w', n)) (w, 0)
            in (Inr (rows, r), Some rt', w'))))"

text \<open>\<open>QueryString\<close> (and \<open>ExecReturningString\<close> with \<open>OpWrite\<close>): every attempt starts with an empty result.\<close>

definition query_string :: "op_kind \<Rightarrow> 'w retry_env \<Rightarrow> ('w \<Rightarrow> int)
    \<Rightarrow> (string \<Rightarrow> gval list \<Rightarrow> 'r list \<Rightarrow> 'w \<Rightarrow> (gerr option \<times> 'r list) \<times> 'w)
    \<Rightarrow> db_runtime option \<Rightarrow> string \<Rightarrow> db_ctx option \<Rightarrow> string \<Rightarrow> (string \<Rightarrow> gval option) \<Rightarrow> 'r list \<Rightarrow> 'w
    \<Rightarrow> (db_fail + 'r list \<times> call_result) \<times> db_runtime option \<times> 'w" where
  "query_string kind ev clock scan cur fresh ctx sql params dest w = (case current_rt cur of
       Inl e \<Rightarrow> (Inl e, cur, w)
     | Inr rt \<Rightarrow> (case bind_named_to_q sql params of
         Inl e \<Rightarrow> (Inl (Bind_fail e), cur, w)
       | Inr (bound, args) \<Rightarrow>
           (let (r, rt', w', dest') = do_with_policies (lift_env ev) (\<lambda>(w, _). clock w) rt
                  (ensure_query_id fresh ctx) kind
                  (\<lambda>(w, _). let ((e, rs), w') = scan bound args [] w in (e, w', rs)) (w, dest)
            in (Inr (dest', r), Some rt', w'))))"

text \<open>The body of the transaction of \<open>execBatches\<close>: stop at the first error, add up the rows.\<close>

fun exec_all :: "(string \<Rightarrow> gval list \<Rightarrow> 'w \<Rightarrow> (gerr option \<times> int) \<times> 'w) \<Rightarrow> built_stmt list \<Rightarrow> int \<Rightarrow> 'w
    \<Rightarrow> gerr option \<times> int \<times> 'w" where
  "exec_all exec [] acc w = (None, acc, w)"
| "exec_all exec ((sql, args) # sts) acc w = (case exec sql args w of
       ((Some e, n), w') \<Rightarrow> (Some e, acc, w')
     | ((None, n), w') \<Rightarrow> exec_all exec sts (acc + n) w')"

text \<open>
  \<open>execBatches\<close>: one statement runs by itself, several in one transaction. \<open>transaction\<close> runs its
  body and commits, or rolls back and returns the body's error.
\<close>

definition exec_batches :: "'w retry_env \<Rightarrow> ('w \<Rightarrow> int) \<Rightarrow> (string \<Rightarrow> gval list \<Rightarrow> 'w \<Rightarrow> (gerr option \<times> int) \<times> 'w)
    \<Rightarrow> (('w \<times> int \<Rightarrow> gerr option \<times> 'w \<times> int) \<Rightarrow> 'w \<times> int \<Rightarrow> gerr option \<times> 'w \<times> int)
    \<Rightarrow> db_runtime \<Rightarrow> db_ctx \<Rightarrow> built_stmt list \<Rightarrow> 'w \<Rightarrow> (int \<times> call_result) \<times> db_runtime \<times> 'w" where
  "exec_batches ev clock exec transaction rt ctx stmts w = (case stmts of
       [(sql, args)] \<Rightarrow>
         (let (r, rt', w', rows) = do_with_policies (lift_env ev) (\<lambda>(w, _). clock w) rt ctx OpWrite
                (\<lambda>(w, _). let ((e, n), w') = exec sql args w in (e, w', n)) (w, 0)
          in ((rows, r), rt', w'))
     | _ \<Rightarrow>
         (let (r, rt', w', acc) = do_with_policies (lift_env ev) (\<lambda>(w, _). clock w) rt ctx OpTx
                (\<lambda>(w, _). transaction (\<lambda>(w, t).
                   let (e, t', w') = exec_all exec stmts t w in (e, w', t')) (w, 0)) (w, 0)
          in ((if r = Returned None then acc else 0, r), rt', w')))"

text \<open>The bulk operations: build every statement, then run them.\<close>

definition run_bulk :: "'w retry_env \<Rightarrow> ('w \<Rightarrow> int) \<Rightarrow> (string \<Rightarrow> gval list \<Rightarrow> 'w \<Rightarrow> (gerr option \<times> int) \<times> 'w)
    \<Rightarrow> (('w \<times> int \<Rightarrow> gerr option \<times> 'w \<times> int) \<Rightarrow> 'w \<times> int \<Rightarrow> gerr option \<times> 'w \<times> int)
    \<Rightarrow> db_runtime option \<Rightarrow> db_ctx \<Rightarrow> (dialect \<Rightarrow> db_error + built_stmt list) \<Rightarrow> bool \<Rightarrow> 'w
    \<Rightarrow> (db_fail + int \<times> call_result) \<times> db_runtime option \<times> 'w" where
  "run_bulk ev clock exec transaction cur ctx stmts nothing w = (case current_rt cur of
       Inl e \<Rightarrow> (Inl e, cur, w)
     | Inr rt \<Rightarrow>
         if nothing then (Inr (0, Returned None), cur, w)
         else (case stmts (rt_dialect rt) of
             Inl e \<Rightarrow> (Inl (Build_fail e), cur, w)
           | Inr sts \<Rightarrow> (let (r, rt', w') = exec_batches ev clock exec transaction rt ctx sts w
               in (Inr r, Some rt', w'))))"

definition bulk_insert_rows where
  "bulk_insert_rows ev clock exec transaction cur ctx table cols rows batch w =
     run_bulk ev clock exec transaction cur ctx (\<lambda>d. bulk_insert_stmts d table cols rows batch)
       (cols = [] \<or> rows = []) w"

definition bulk_upsert_rows where
  "bulk_upsert_rows ev clock exec transaction cur ctx table cols conflict update rows batch opts w =
     run_bulk ev clock exec transaction cur ctx
       (\<lambda>d. bulk_upsert_stmts d table cols conflict update rows batch opts) (cols = [] \<or> rows = []) w"

definition bulk_update_by_key where
  "bulk_update_by_key ev clock exec transaction cur ctx table key update rows batch w =
     run_bulk ev clock exec transaction cur ctx (\<lambda>d. bulk_update_stmts d table key update rows batch)
       (rows = []) w"

text \<open>\<open>Tx\<close>: the caller's function inside a transaction, under the policies.\<close>

definition db_tx :: "'w retry_env \<Rightarrow> ('w \<Rightarrow> int) \<Rightarrow> (('w \<Rightarrow> gerr option \<times> 'w) \<Rightarrow> 'w \<Rightarrow> gerr option \<times> 'w)
    \<Rightarrow> db_runtime option \<Rightarrow> db_ctx \<Rightarrow> ('w \<Rightarrow> gerr option \<times> 'w) \<Rightarrow> 'w
    \<Rightarrow> (db_fail + call_result) \<times> db_runtime option \<times> 'w" where
  "db_tx ev clock transaction cur ctx fn w = (case current_rt cur of
       Inl e \<Rightarrow> (Inl e, cur, w)
     | Inr rt \<Rightarrow> (let (r, rt', w') = do_with_policies ev clock rt ctx OpTx (transaction fn) w
         in (Inr r, Some rt', w')))"

section \<open>The policies\<close>

text \<open>What retries do to a world, for any invariant that failed attempts and waits keep.\<close>

lemma retry_loop_invariant:
  assumes "retry_loop p ev fn n d prev w = (r, w')" and "I w" and "n \<noteq> 0"
    and fn: "\<And>w e w'. I w \<Longrightarrow> fn w = (Some e, w') \<Longrightarrow> I w'"
    and wait: "\<And>d w c w'. I w \<Longrightarrow> wait_for ev d w = (c, w') \<Longrightarrow> I w'"
  shows "if r = None then \<exists>v. I v \<and> fn v = (None, w') else I w'"
  using assms(1-3)
proof (induction n arbitrary: d prev w)
  case 0
  then show ?case by simp
next
  case (Suc n)
  obtain x w1 where x: "fn w = (x, w1)" by fastforce
  show ?case
  proof (cases x)
    case None
    with Suc.prems x show ?thesis by auto
  next
    case (Some e)
    have I1: "I w1" using fn [OF Suc.prems(2)] x Some by simp
    consider (stop) "n = 0 \<or> \<not> should_retry_of p e"
      | (ended) c where "n \<noteq> 0" "should_retry_of p e" "ctx_err ev w1 = Some c"
      | (wait) "n \<noteq> 0" "should_retry_of p e" "ctx_err ev w1 = None" "0 < d"
      | (again) "n \<noteq> 0" "should_retry_of p e" "ctx_err ev w1 = None" "d \<le> 0"
      by fastforce
    then show ?thesis
    proof cases
      case stop
      with Suc.prems(1) x Some I1 show ?thesis by auto
    next
      case ended
      with Suc.prems(1) x Some I1 show ?thesis by auto
    next
      case wait
      obtain c w2 where c: "wait_for ev d w1 = (c, w2)" by fastforce
      have I2: "I w2" by (rule assms(5) [OF I1 c])
      show ?thesis
        using Suc.prems(1) Suc.IH [OF _ I2 wait(1)] x Some wait c I2 by (cases c) auto
    next
      case again
      then show ?thesis using Suc.prems(1) Suc.IH [OF _ I1 again(1)] x Some by auto
    qed
  qed
qed

lemma retry_if_invariant:
  assumes "retry_if ev k delay should fn w = (r, w')" and "I w"
    and "\<And>w e w'. I w \<Longrightarrow> fn w = (Some e, w') \<Longrightarrow> I w'"
    and "\<And>d w c w'. I w \<Longrightarrow> wait_for ev d w = (c, w') \<Longrightarrow> I w'"
  shows "if r = None then \<exists>v. I v \<and> fn v = (None, w') else I w'"
proof (cases "ctx_err ev w")
  case None
  let ?p = "plain_policy k delay should"
  let ?n = "if rp_attempts ?p \<le> 0 then 1 else nat (rp_attempts ?p)"
  have "retry_loop ?p ev fn ?n (rp_delay ?p) None w = (r, w')"
    using assms(1) None by (simp add: retry_if_def retry_do_def)
  then show ?thesis
  proof (rule retry_loop_invariant [where I = I])
    show "I v'" if "I v" and "fn v = (Some e, v')" for v e v' using assms(3) that .
    show "I v'" if "I v" and "wait_for ev d v = (c, v')" for d v c v' using assms(4) that .
  qed (use assms(2) in simp_all)
next
  case (Some c)
  with assms(1) have "r = Some c" "w' = w" by (simp_all add: retry_if_def retry_do_def)
  with assms(2) show ?thesis by simp
qed

lemma do_with_policies_invariant:
  assumes "do_with_policies ev clock rt ctx kind fn w = (r, rt', w')" and "I w"
    and "\<And>w e w'. I w \<Longrightarrow> fn w = (Some e, w') \<Longrightarrow> I w'"
    and "\<And>d w c w'. I w \<Longrightarrow> wait_for ev d w = (c, w') \<Longrightarrow> I w'"
  shows "if r = Returned None then \<exists>v. I v \<and> fn v = (None, w') else I w'"
proof -
  let ?f = "retry_if ev (policy_attempts rt ctx kind) (cf_retry_delay (rt_cfg rt))
            (Some (should_retry (kind = OpRead))) fn"
  have f: "if x = None then \<exists>v. I v \<and> fn v = (None, w1) else I w1" if "?f w = (x, w1)" for x w1
    using retry_if_invariant [where I = I, OF that assms(2) assms(3) assms(4)] .
  show ?thesis
  proof (cases "rt_cb rt")
    case None
    with assms(1) obtain x where "?f w = (x, w')" "r = Returned x"
      by (auto simp: do_with_policies_def Let_def split: prod.splits)
    with f show ?thesis by fastforce
  next
    case (Some cb)
    show ?thesis
    proof (cases "ctx_err ev w")
      case None
      obtain adm cb1 where a: "cb_admit (clock w) cb = (adm, cb1)" by fastforce
      obtain x w1 where x: "?f w = (x, w1)" by fastforce
      show ?thesis
      proof (cases adm)
        case None
        then show ?thesis
          using assms(1,2) \<open>ctx_err ev w = None\<close> Some a
          by (auto simp: do_with_policies_def cb_execute_def)
      next
        case (Some probe)
        then have "r = Returned x" "w' = w1"
          using assms(1) \<open>ctx_err ev w = None\<close> \<open>rt_cb rt = Some cb\<close> a x
          by (auto simp: do_with_policies_def cb_execute_def)
        with f [OF x] show ?thesis by auto
      qed
    qed (use assms(1,2) Some in \<open>auto simp: do_with_policies_def cb_execute_def\<close>)
  qed
qed


text \<open>A database for the witnesses: the log of executed statements; a statement may fail once.\<close>

definition demo_cfg :: db_config where
  "demo_cfg = \<lparr>cf_driver = ''pg'', cf_retry_attempts = 3, cf_retry_delay = 5, cf_retry_writes = False,
     cf_enable_breaker = True, cf_fail_threshold = 2, cf_open_timeout = 10,
     cf_enable_stmt_cache = False, cf_stmt_cache_size = 0\<rparr>"

definition demo_rt :: db_runtime where
  "demo_rt = new_runtime 0 demo_cfg Postgres"

definition demo_ctx :: db_ctx where
  "demo_ctx = with_write_retry True (ensure_query_id ''q'' None)"

definition log_env :: "(string list \<times> nat) retry_env" where
  "log_env = \<lparr>ctx_err = (\<lambda>_. None), wait_for = (\<lambda>d w. (None, w))\<rparr>"

text \<open>The number counts down to the statement that fails with a deadlock.\<close>

definition log_exec :: "string \<Rightarrow> gval list \<Rightarrow> string list \<times> nat \<Rightarrow> (gerr option \<times> int) \<times> string list \<times> nat" where
  "log_exec sql args = (\<lambda>(l, k). if k = 1 then ((Some (err_new ''deadlock''), 0), (l, 0))
     else ((None, 1), (l @ [sql], k - 1)))"

definition log_tx :: "((string list \<times> nat) \<times> int \<Rightarrow> gerr option \<times> (string list \<times> nat) \<times> int)
    \<Rightarrow> (string list \<times> nat) \<times> int \<Rightarrow> gerr option \<times> (string list \<times> nat) \<times> int" where
  "log_tx body = (\<lambda>(w, t). case body (w, t) of
       (Some e, w', t') \<Rightarrow> (Some e, (fst w, snd w'), t')
     | (None, w', t') \<Rightarrow> (None, w', t'))"

lemma demo_classify: "is_transient (Some (err_new ''deadlock''))" "\<not> is_neutral (err_new ''deadlock'')"
  by code_simp+


lemma should_retry_facts:
  assumes "should_retry read e"
  shows "\<not> is_context_error e" and "is_transient (Some e) \<or> read \<and> is_timeout (Some e)"
    and "\<not> read \<Longrightarrow> \<not> is_constraint_violation (Some e)"
  using assms transient_not_neutral [of e]
  by (auto simp: should_retry_def is_neutral_def is_timeout_def split: if_splits)

text \<open>
  What the policies run: nothing, or one run of the retry loop with the attempts the kind allows.
\<close>

lemma policies_run:
  assumes "do_with_policies (traced_env ev) clock rt ctx kind (traced_fn fn) (w, []) = (r, rt', w', tr)"
  shows "tr = [] \<or> (\<exists>x. run_ok (plain_policy (policy_attempts rt ctx kind) (cf_retry_delay (rt_cfg rt))
      (Some (should_retry (kind = OpRead)))) (nat (policy_attempts rt ctx kind)) (cf_retry_delay (rt_cfg rt)) tr x)"
proof -
  let ?k = "policy_attempts rt ctx kind"
  let ?p = "plain_policy ?k (cf_retry_delay (rt_cfg rt)) (Some (should_retry (kind = OpRead)))"
  let ?f = "retry_if (traced_env ev) ?k (cf_retry_delay (rt_cfg rt))
            (Some (should_retry (kind = OpRead))) (traced_fn fn)"
  have k: "1 \<le> ?k" by (auto simp: policy_attempts_def Let_def)
  have ran: "tr = [] \<or> run_ok ?p (nat ?k) (cf_retry_delay (rt_cfg rt)) tr x"
    if f: "?f (w, []) = (x, w1, tr)" for x w1
  proof (cases "ctx_err ev w")
    case None
    have "nat ?k \<noteq> 0" using k by simp
    from retry_loop_run [OF this, of ?p ev fn "rp_delay ?p" None w "[]"] f None k
    show ?thesis by (auto simp: retry_if_def retry_do_def plain_policy_def)
  next
    case (Some c)
    with f show ?thesis by (simp add: retry_if_def retry_do_def)
  qed
  show "tr = [] \<or> (\<exists>x. run_ok ?p (nat ?k) (cf_retry_delay (rt_cfg rt)) tr x)"
  proof (cases "rt_cb rt")
    case None
    with assms obtain x where "?f (w, []) = (x, w', tr)"
      by (auto simp: do_with_policies_def Let_def split: prod.splits)
    with ran show ?thesis by blast
  next
    case (Some cb)
    obtain adm cb1 where a: "cb_admit (clock (w, [])) cb = (adm, cb1)" by fastforce
    obtain x w1 tr1 where x: "?f (w, []) = (x, w1, tr1)" by (metis prod_cases3)
    show ?thesis
      using assms Some a x ran
      by (cases "ctx_err ev w"; cases adm) (auto simp: do_with_policies_def cb_execute_def)
  qed
qed

text \<open>
  (C13) What is retried: under the policies a function is called at most \<open>RetryAttempts\<close> times, and
  a write or transaction at most once unless retrying writes is allowed by the configuration or the
  context; a call is repeated only after a transient error, or for reads a timeout, and never
  after a context error; a write is never repeated after a constraint violation.
\<close>

theorem policies_retry_spec:
  assumes "do_with_policies (traced_env ev) clock rt ctx kind (traced_fn fn) (w, []) = (r, rt', w', tr)"
  shows "int (length (event_calls tr)) \<le> policy_attempts rt ctx kind
    \<and> (kind \<noteq> OpRead \<longrightarrow> \<not> write_retry_allowed rt ctx \<longrightarrow> length (event_calls tr) \<le> 1)
    \<and> (\<forall>x\<in>set (butlast (event_calls tr)). \<exists>e. x = Some e \<and> \<not> is_context_error e
        \<and> (is_transient x \<or> kind = OpRead \<and> is_timeout x)
        \<and> (kind \<noteq> OpRead \<longrightarrow> \<not> is_constraint_violation x))"
proof -
  let ?k = "policy_attempts rt ctx kind"
  have k: "1 \<le> ?k" by (auto simp: policy_attempts_def Let_def)
  let ?p = "plain_policy ?k (cf_retry_delay (rt_cfg rt)) (Some (should_retry (kind = OpRead)))"
  from policies_run [OF assms] show ?thesis
  proof
    assume "tr = []"
    with k show ?thesis by simp
  next
    assume "\<exists>x. run_ok ?p (nat ?k) (cf_retry_delay (rt_cfg rt)) tr x"
    then obtain x where ok: "run_ok ?p (nat ?k) (cf_retry_delay (rt_cfg rt)) tr x" by blast
    have calls: "int (length (event_calls tr)) \<le> ?k" using run_ok_facts(2) [OF ok] k by linarith
    have retried: "\<exists>e. x = Some e \<and> should_retry (kind = OpRead) e" if "x \<in> set (butlast (event_calls tr))" for x
      using run_ok_facts(4) [OF ok] that by (simp add: should_retry_of_def plain_policy_def)
    have once: "?k = 1" if "kind \<noteq> OpRead" "\<not> write_retry_allowed rt ctx"
      using that by (simp add: policy_attempts_def Let_def)
    show ?thesis
    proof (intro conjI impI ballI)
      show "int (length (event_calls tr)) \<le> ?k" by (rule calls)
      show "length (event_calls tr) \<le> 1" if "kind \<noteq> OpRead" "\<not> write_retry_allowed rt ctx"
        using calls once [OF that] by simp
      fix x assume "x \<in> set (butlast (event_calls tr))"
      then obtain e where "x = Some e" "should_retry (kind = OpRead) e" using retried by blast
      then show "\<exists>e. x = Some e \<and> \<not> is_context_error e
        \<and> (is_transient x \<or> kind = OpRead \<and> is_timeout x)
        \<and> (kind \<noteq> OpRead \<longrightarrow> \<not> is_constraint_violation x)"
        using should_retry_facts by blast
    qed
  qed
qed

lemma policies_retry_spec_witness:
  "\<exists>r rt' w' tr. do_with_policies (traced_env demo_env) (\<lambda>_. 0) demo_rt (ensure_query_id ''q'' None) OpWrite
      (traced_fn demo_fn) ([Some (err_new ''deadlock'')], []) = (r, rt', w', tr) \<and> length (event_calls tr) \<le> 1"
proof -
  obtain r rt' w' tr where run: "do_with_policies (traced_env demo_env) (\<lambda>_. 0) demo_rt
      (ensure_query_id ''q'' None) OpWrite (traced_fn demo_fn) ([Some (err_new ''deadlock'')], [])
      = (r, rt', w', tr)" by (metis prod_cases4)
  have "\<not> write_retry_allowed demo_rt (ensure_query_id ''q'' None)"
    by (simp add: write_retry_allowed_def demo_rt_def new_runtime_def demo_cfg_def ensure_query_id_def)
  with policies_retry_spec [OF run] run show ?thesis by auto
qed

end
