(* ===== verification/Sql_Runner.thy ===== *)
theory Sql_Runner
  imports Sql_Ident
begin

text \<open>
  What the migration runner (pkg/migrate) and the seeder (pkg/seeder) have in common: the part of
  \<open>database/sql\<close> they call, as a record of functions on a world \<open>'w\<close>; a transaction scope; the laws
  of a database with transactions; and the interface \<open>sequential_runner\<close> of a loop that runs the
  pending items of a list in order and stops at the first error.
\<close>

section \<open>The database\<close>

datatype sql_arg = AStr string | ATime int | AInt int

text \<open>A statement runs on the pool or on the open transaction.\<close>

datatype execer = OnDb | OnTx

record ('w, 'r) sqldb =
  sd_driver :: "(string \<times> string) option"
  sd_exec :: "execer \<Rightarrow> string \<Rightarrow> sql_arg list \<Rightarrow> 'w \<Rightarrow> gerr option \<times> 'w"
  sd_query :: "string \<Rightarrow> 'w \<Rightarrow> (gerr + 'r list) \<times> 'w"
  sd_begin :: "'w \<Rightarrow> gerr option \<times> 'w"
  sd_commit :: "'w \<Rightarrow> gerr option \<times> 'w"
  sd_rollback :: "'w \<Rightarrow> 'w"

text \<open>\<open>BeginTx\<close>, a body whose error rolls back, \<open>Commit\<close>; \<open>wrap\<close> makes the caller's error.\<close>

definition tx_scope :: "('w, 'r) sqldb \<Rightarrow> (gerr \<Rightarrow> 'e) \<Rightarrow> ('w \<Rightarrow> 'e option \<times> 'w) \<Rightarrow> 'w \<Rightarrow> 'e option \<times> 'w" where
  "tx_scope db wrap f w = (case sd_begin db w of
       (Some e, w1) \<Rightarrow> (Some (wrap e), w1)
     | (None, w1) \<Rightarrow> (case f w1 of
           (Some e, w2) \<Rightarrow> (Some e, sd_rollback db w2)
         | (None, w2) \<Rightarrow> (case sd_commit db w2 of
               (Some e, w3) \<Rightarrow> (Some (wrap e), w3)
             | (None, w3) \<Rightarrow> (None, w3))))"

text \<open>
  The laws of transactions. \<open>view\<close> is the content a statement sees, \<open>saved\<close> the content when the
  open transaction began: a transaction starts from what was there, a rollback or a failed
  commit restores it, a commit keeps what the transaction made of it.
\<close>

definition tx_laws :: "('w, 'r) sqldb \<Rightarrow> ('w \<Rightarrow> 'v) \<Rightarrow> ('w \<Rightarrow> 'v) \<Rightarrow> bool" where
  "tx_laws db view saved \<longleftrightarrow>
     (\<forall>w e w'. sd_begin db w = (Some e, w') \<longrightarrow> view w' = view w)
   \<and> (\<forall>w w'. sd_begin db w = (None, w') \<longrightarrow> view w' = view w \<and> saved w' = view w)
   \<and> (\<forall>q xs w e w'. sd_exec db OnTx q xs w = (e, w') \<longrightarrow> saved w' = saved w)
   \<and> (\<forall>w. view (sd_rollback db w) = saved w)
   \<and> (\<forall>w w'. sd_commit db w = (None, w') \<longrightarrow> view w' = view w)
   \<and> (\<forall>w e w'. sd_commit db w = (Some e, w') \<longrightarrow> view w' = saved w)"

lemma tx_lawsD:
  assumes "tx_laws db view saved"
  shows "sd_begin db w = (Some e, w') \<Longrightarrow> view w' = view w"
    and "sd_begin db w = (None, w') \<Longrightarrow> view w' = view w"
    and "sd_begin db w = (None, w') \<Longrightarrow> saved w' = view w"
    and "sd_exec db OnTx q xs w = (r, w') \<Longrightarrow> saved w' = saved w"
    and "view (sd_rollback db w) = saved w"
    and "sd_commit db w = (None, w') \<Longrightarrow> view w' = view w"
    and "sd_commit db w = (Some e, w') \<Longrightarrow> view w' = saved w"
  using assms unfolding tx_laws_def by blast+

text \<open>A transaction scope is all or nothing.\<close>

lemma tx_scope_atomic:
  assumes laws: "tx_laws db view saved" and run: "tx_scope db wrap f w = (r, w')"
    and keeps: "\<And>v x v'. f v = (x, v') \<Longrightarrow> saved v' = saved v"
  shows "case r of Some _ \<Rightarrow> view w' = view w
    | None \<Rightarrow> \<exists>v v'. view v = view w \<and> f v = (None, v') \<and> view w' = view v'"
proof -
  note d = tx_lawsD [OF laws]
  obtain b w1 where b: "sd_begin db w = (b, w1)" by fastforce
  show ?thesis
  proof (cases b)
    case (Some e)
    with run b d(1) show ?thesis by (auto simp: tx_scope_def)
  next
    case None
    obtain x w2 where x: "f w1 = (x, w2)" by fastforce
    have w1: "view w1 = view w" "saved w1 = view w" using d(2,3) b None by auto
    have w2: "saved w2 = view w" using keeps [OF x] w1 by simp
    obtain c w3 where c: "sd_commit db w2 = (c, w3)" by fastforce
    show ?thesis
    proof (cases x)
      case Some
      with run b None x w2 d(5) show ?thesis by (auto simp: tx_scope_def)
    next
      case x_None: None
      show ?thesis
      proof (cases c)
        case Some
        with run b None x x_None c w2 d(7) show ?thesis by (auto simp: tx_scope_def)
      next
        case c_None: None
        then have "r = None" "w' = w3" using run b None x x_None c by (auto simp: tx_scope_def)
        moreover have "view w3 = view w2" using d(6) c c_None by simp
        ultimately show ?thesis using x x_None w1(1) by auto
      qed
    qed
  qed
qed

section \<open>Running pending items in order\<close>

locale sequential_runner =
  fixes skip :: "'a \<Rightarrow> bool"
    and run :: "'a \<Rightarrow> 'w \<Rightarrow> 'e option \<times> 'w"
    and name :: "'a \<Rightarrow> 'b"
    and loop :: "'a list \<Rightarrow> 'b list \<Rightarrow> 'w \<Rightarrow> ('b list \<times> 'e option) \<times> 'w"
  assumes loop_Nil: "loop [] acc w = ((acc, None), w)"
    and loop_skip: "skip x \<Longrightarrow> loop (x # xs) acc w = loop xs acc w"
    and loop_fail: "\<not> skip x \<Longrightarrow> run x w = (Some e, w') \<Longrightarrow> loop (x # xs) acc w = ((acc, Some e), w')"
    and loop_run: "\<not> skip x \<Longrightarrow> run x w = (None, w') \<Longrightarrow> loop (x # xs) acc w = loop xs (acc @ [name x]) w'"
begin

definition pending :: "'a list \<Rightarrow> 'a list" where
  "pending xs = filter (\<lambda>x. \<not> skip x) xs"

lemma pending_simps [simp]:
  "pending [] = []" "skip x \<Longrightarrow> pending (x # xs) = pending xs"
  "\<not> skip x \<Longrightarrow> pending (x # xs) = x # pending xs"
  by (simp_all add: pending_def)

text \<open>
  The items that ran are the first pending ones, all of them exactly when there is no error; the
  world went through their successful runs, and then through the run that failed.
\<close>

lemma loop_split_fail_acc:
  assumes "loop xs acc w = ((out, r), w')" and "I pre w"
    and ok: "\<And>ys y v v'. y \<in> set (pending xs) \<Longrightarrow> I ys v \<Longrightarrow> run y v = (None, v') \<Longrightarrow> I (ys @ [y]) v'"
  shows "\<exists>ds rest. pending xs = ds @ rest \<and> out = acc @ map name ds \<and> (case r of
      None \<Rightarrow> rest = [] \<and> I (pre @ ds) w'
    | Some e \<Rightarrow> (\<exists>y ys v. rest = y # ys \<and> I (pre @ ds) v \<and> run y v = (Some e, w')))"
  using assms
proof (induction xs arbitrary: acc w pre)
  case Nil
  then show ?case by (auto simp: loop_Nil)
next
  case (Cons x xs)
  obtain y w1 where y: "run x w = (y, w1)" by fastforce
  have later: "I (ys @ [z]) v'" if "z \<in> set (pending xs)" "I ys v" "run z v = (None, v')" for ys z v v'
    using Cons.prems(3) [OF _ that(2,3)] that(1) by (cases "skip x") simp_all
  consider "skip x" | "\<not> skip x" "y = None" | e where "\<not> skip x" "y = Some e" by (cases y) auto
  then show ?case
  proof cases
    case 1
    have "loop xs acc w = ((out, r), w')" using Cons.prems(1) loop_skip [OF 1] by simp
    then have "\<exists>ds rest. pending xs = ds @ rest \<and> out = acc @ map name ds \<and> (case r of
        None \<Rightarrow> rest = [] \<and> I (pre @ ds) w'
      | Some e \<Rightarrow> (\<exists>y ys v. rest = y # ys \<and> I (pre @ ds) v \<and> run y v = (Some e, w')))"
      by (rule Cons.IH) (fact Cons.prems(2), rule later)
    with 1 show ?thesis by simp
  next
    case 2
    have I1: "I (pre @ [x]) w1" by (rule Cons.prems(3) [OF _ Cons.prems(2)]) (use 2 y in auto)
    have "loop xs (acc @ [name x]) w1 = ((out, r), w')" using Cons.prems(1) loop_run 2 y by simp
    then have "\<exists>ds rest. pending xs = ds @ rest \<and> out = (acc @ [name x]) @ map name ds \<and> (case r of
        None \<Rightarrow> rest = [] \<and> I ((pre @ [x]) @ ds) w'
      | Some e \<Rightarrow> (\<exists>y ys v. rest = y # ys \<and> I ((pre @ [x]) @ ds) v \<and> run y v = (Some e, w')))"
      by (rule Cons.IH) (fact I1, rule later)
    then obtain ds rest where
      "pending xs = ds @ rest" "out = (acc @ [name x]) @ map name ds" "case r of
        None \<Rightarrow> rest = [] \<and> I ((pre @ [x]) @ ds) w'
      | Some e \<Rightarrow> (\<exists>y ys v. rest = y # ys \<and> I ((pre @ [x]) @ ds) v \<and> run y v = (Some e, w'))" by blast
    with 2 show ?thesis by - (rule exI [of _ "x # ds"], rule exI [of _ rest], cases r, simp_all)
  next
    case 3
    with loop_fail y Cons.prems(1) have "out = acc" "r = Some e" "run x w = (Some e, w')" by simp_all
    with 3 Cons.prems(2) show ?thesis
      by - (rule exI [of _ "[]"], rule exI [of _ "x # pending xs"], auto)
  qed
qed

lemma loop_split_fail:
  assumes "loop xs [] w = ((out, r), w')" and "I [] w"
    and "\<And>ys y v v'. y \<in> set (pending xs) \<Longrightarrow> I ys v \<Longrightarrow> run y v = (None, v') \<Longrightarrow> I (ys @ [y]) v'"
  shows "\<exists>ds rest. pending xs = ds @ rest \<and> out = map name ds \<and> (r = None \<longrightarrow> rest = [] \<and> I ds w')
    \<and> (\<forall>e. r = Some e \<longrightarrow> (\<exists>y ys v. rest = y # ys \<and> I ds v \<and> run y v = (Some e, w')))"
proof -
  have "\<exists>ds rest. pending xs = ds @ rest \<and> out = [] @ map name ds \<and> (case r of
      None \<Rightarrow> rest = [] \<and> I ([] @ ds) w'
    | Some e \<Rightarrow> (\<exists>y ys v. rest = y # ys \<and> I ([] @ ds) v \<and> run y v = (Some e, w')))"
    by (rule loop_split_fail_acc [where I = I, OF assms(1,2)]) (rule assms(3))
  then show ?thesis by (cases r) auto
qed

lemma loop_split_acc:
  assumes "loop xs acc w = ((out, r), w')" and "I pre w"
    and ok: "\<And>ys y v v'. y \<in> set (pending xs) \<Longrightarrow> I ys v \<Longrightarrow> run y v = (None, v') \<Longrightarrow> I (ys @ [y]) v'"
    and fail: "\<And>ys y v v' e. y \<in> set (pending xs) \<Longrightarrow> I ys v \<Longrightarrow> run y v = (Some e, v') \<Longrightarrow> I ys v'"
  shows "\<exists>ds rest. pending xs = ds @ rest \<and> out = acc @ map name ds
    \<and> (r = None \<longleftrightarrow> rest = []) \<and> I (pre @ ds) w'"
proof -
  have "\<exists>ds rest. pending xs = ds @ rest \<and> out = acc @ map name ds \<and> (case r of
      None \<Rightarrow> rest = [] \<and> I (pre @ ds) w'
    | Some e \<Rightarrow> (\<exists>y ys v. rest = y # ys \<and> I (pre @ ds) v \<and> run y v = (Some e, w')))"
    by (rule loop_split_fail_acc [where I = I, OF assms(1,2)]) (rule ok)
  then obtain ds rest where
    ds: "pending xs = ds @ rest" "out = acc @ map name ds" and r: "case r of
        None \<Rightarrow> rest = [] \<and> I (pre @ ds) w'
      | Some e \<Rightarrow> (\<exists>y ys v. rest = y # ys \<and> I (pre @ ds) v \<and> run y v = (Some e, w'))" by blast
  have "(r = None \<longleftrightarrow> rest = []) \<and> I (pre @ ds) w'"
  proof (cases r)
    case None
    with r show ?thesis by simp
  next
    case (Some e)
    with r obtain y ys v where y: "rest = y # ys" "I (pre @ ds) v" "run y v = (Some e, w')" by auto
    have "y \<in> set (pending xs)" using ds(1) y(1) by simp
    from fail [OF this y(2,3)] Some y(1) show ?thesis by simp
  qed
  with ds show ?thesis by blast
qed

lemma loop_split:
  assumes "loop xs [] w = ((out, r), w')" and "I [] w"
    and "\<And>ys y v v'. y \<in> set (pending xs) \<Longrightarrow> I ys v \<Longrightarrow> run y v = (None, v') \<Longrightarrow> I (ys @ [y]) v'"
    and "\<And>ys y v v' e. y \<in> set (pending xs) \<Longrightarrow> I ys v \<Longrightarrow> run y v = (Some e, v') \<Longrightarrow> I ys v'"
  shows "\<exists>ds rest. pending xs = ds @ rest \<and> out = map name ds \<and> (r = None \<longleftrightarrow> rest = []) \<and> I ds w'"
proof -
  have "\<exists>ds rest. pending xs = ds @ rest \<and> out = [] @ map name ds
      \<and> (r = None \<longleftrightarrow> rest = []) \<and> I ([] @ ds) w'"
    by (rule loop_split_acc [where I = I and pre = "[]"]) (fact assms)+
  then show ?thesis by simp
qed

lemma loop_keeps:
  assumes "loop xs acc w = ((out, r), w')" and "I w"
    and "\<And>y v x v'. y \<in> set (pending xs) \<Longrightarrow> I v \<Longrightarrow> run y v = (x, v') \<Longrightarrow> I v'"
  shows "I w'"
proof -
  have "\<exists>ds rest. pending xs = ds @ rest \<and> out = acc @ map name ds
      \<and> (r = None \<longleftrightarrow> rest = []) \<and> I w'"
    by (rule loop_split_acc [where I = "\<lambda>_. I" and pre = "[]"]) (fact assms)+
  then show ?thesis by blast
qed

end

end
