(* ===== verification/Migrate.thy ===== *)
theory Migrate
  imports Sql_Runner Sql_Template Decimal "HOL-Library.AList" "HOL-Library.Word"
begin

text \<open>
  pkg/migrate: the migration runner (migrate.go) and its advisory lock (lock.go). File names are
  parsed into migrations ordered by version (\<open>load\<close>); \<open>up\<close> applies the pending ones in
  ascending order, \<open>down\<close> reverts the newest ones, each file in its own transaction with its record
  in the tracking table; \<open>status\<close> lists files and records. The database is the record \<open>sqldb\<close> of
  Sql_Runner and the connection of the lock is the record \<open>lockdb\<close>, both over a world \<open>'w\<close>.
\<close>

section \<open>Data\<close>

definition default_table :: string where
  "default_table = ''schema_migrations''"

definition no_tx_marker :: string where
  "no_tx_marker = ''-- migrate:no-transaction''"

datatype direction = DUp | DDown

datatype mig_error =
    Bad_dir string
  | Dir_unreadable gerr
  | Bad_file_name string
  | Two_names string string string string string
  | Two_up_files string
  | No_up_file string string
  | Db_nil
  | Table_failed mig_error
  | Ident_failed sql_error
  | Db_failed gerr
  | File_unreadable string gerr
  | Body_failed direction string gerr
  | Record_failed string gerr
  | No_down_file string
  | Lock_conn_failed gerr
  | Lock_failed string gerr
  | Lock_null
  | Lock_code int
  | Lock_timed_out
  | Unlock_failed gerr
  | Ctx_done gerr
  | Version_panic

record migration =
  g_version :: string
  g_name :: string
  g_up :: string
  g_down :: string

record mig_status =
  st_version :: string
  st_name :: string
  st_applied :: bool
  st_applied_at :: int
  st_missing :: bool

text \<open>A value read for \<open>applied_at\<close>, by the type the driver returns it as.\<close>

datatype time_value = TTime int | TBytes string | TStr string | TOther

record applied_row =
  r_version :: string
  r_name :: string
  r_at :: int

text \<open>\<open>fs.FS\<close>: the entries of a directory (name, and whether it is a directory), and a file's content.\<close>

record go_fs =
  fs_dir :: "string \<Rightarrow> gerr + (string \<times> bool) list"
  fs_file :: "string \<Rightarrow> gerr + string"

text \<open>
  The contexts of the lock: the caller's, the caller's with a deadline (\<open>context.WithTimeout\<close>), and
  one with a deadline that outlives the caller's (\<open>context.WithoutCancel\<close>). A deadline is a reading
  of the clock, in nanoseconds.
\<close>

datatype lock_ctx = Caller | Within int | Detached int

text \<open>
  The dedicated connection (\<open>sql.Conn\<close>) the advisory lock is taken on, and of the run time what its
  loop uses: the clock, \<open>ld_sleep t\<close>, which blocks until the clock reads \<open>t\<close> or the caller's
  context has ended, \<open>ld_pick\<close>, the choice of a \<open>select\<close> with two ready cases (\<open>True\<close> for the timer),
  and the error of the caller's context. A boolean is read as 0 or 1.
\<close>

record 'w lockdb =
  ld_conn :: "'w \<Rightarrow> gerr option \<times> 'w"
  ld_close :: "'w \<Rightarrow> gerr option \<times> 'w"
  ld_exec :: "lock_ctx \<Rightarrow> string \<Rightarrow> sql_arg list \<Rightarrow> 'w \<Rightarrow> gerr option \<times> 'w"
  ld_query :: "lock_ctx \<Rightarrow> string \<Rightarrow> sql_arg list \<Rightarrow> 'w \<Rightarrow> (gerr + int option) \<times> 'w"
  ld_clock :: "'w \<Rightarrow> int"
  ld_sleep :: "int \<Rightarrow> 'w \<Rightarrow> 'w"
  ld_pick :: "'w \<Rightarrow> bool"
  ld_ctx_err :: "'w \<Rightarrow> gerr option"

type_synonym sql_row = "string \<times> string \<times> time_value"

record 'w migrator =
  m_db :: "(('w, sql_row) sqldb \<times> 'w lockdb) option"
  m_fs :: go_fs
  m_dir :: string
  m_dialect :: dialect
  m_table :: string
  m_plain :: bool
  m_lock :: bool
  m_lock_timeout :: int
  m_now :: "'w \<Rightarrow> int"

type_synonym 'w mig_option = "'w migrator \<Rightarrow> 'w migrator"

definition with_dialect :: "dialect \<Rightarrow> 'w mig_option" where
  "with_dialect d m = m\<lparr>m_dialect := d\<rparr>"

definition with_table :: "string \<Rightarrow> 'w mig_option" where
  "with_table t m = m\<lparr>m_table := t\<rparr>"

definition with_plain_sql :: "bool \<Rightarrow> 'w mig_option" where
  "with_plain_sql b m = m\<lparr>m_plain := b\<rparr>"

definition with_lock :: "bool \<Rightarrow> 'w mig_option" where
  "with_lock b m = m\<lparr>m_lock := b\<rparr>"

definition with_lock_timeout :: "int \<Rightarrow> 'w mig_option" where
  "with_lock_timeout t m = m\<lparr>m_lock_timeout := t\<rparr>"

definition new_migrator :: "(('w, sql_row) sqldb \<times> 'w lockdb) option \<Rightarrow> go_fs \<Rightarrow> string \<Rightarrow> ('w \<Rightarrow> int)
    \<Rightarrow> 'w mig_option option list \<Rightarrow> 'w migrator" where
  "new_migrator db fsys dir clock opts =
     (let m = fold (\<lambda>x m. case x of None \<Rightarrow> m | Some f \<Rightarrow> f m) opts
          \<lparr>m_db = db, m_fs = fsys, m_dir = dir,
           m_dialect = detect_dialect (Option.bind db (\<lambda>(d, _). sd_driver d)),
           m_table = default_table, m_plain = False, m_lock = True, m_lock_timeout = 0, m_now = clock\<rparr>
      in if m_dir m = [] then m\<lparr>m_dir := ''.''\<rparr> else m)"

section \<open>File names and versions\<close>

text \<open>
  Simple case folding as \<open>strings.EqualFold\<close> uses it, for comparing with ASCII text: ASCII
  letters fold, and so do long s and the Kelvin sign.
\<close>

fun fold_ascii :: "string \<Rightarrow> string" where
  "fold_ascii [] = []"
| "fold_ascii [x] = [lower_char x]"
| "fold_ascii (x # y # s) =
     (if x = CHR 0xC5 \<and> y = CHR 0xBF then CHR ''s'' # fold_ascii s
      else if x = CHR 0xE2 \<and> y = CHR 0x84 \<and> take 1 s = [CHR 0xAA] then CHR ''k'' # fold_ascii (drop 1 s)
      else lower_char x # fold_ascii (y # s))"

definition equal_fold_ascii :: "string \<Rightarrow> string \<Rightarrow> bool" where
  "equal_fold_ascii s t \<longleftrightarrow> fold_ascii s = fold_ascii t"

text \<open>\<open>path.Ext\<close> of a name without slashes, and \<open>path.Join\<close> of a valid directory and such a name.\<close>

definition path_ext :: "string \<Rightarrow> string" where
  "path_ext name = (if CHR ''.'' \<in> set name then CHR ''.'' # rev (takeWhile (\<lambda>c. c \<noteq> CHR ''.'') (rev name)) else [])"

definition path_join :: "string \<Rightarrow> string \<Rightarrow> string" where
  "path_join dir name = (if dir = ''.'' then name else dir @ ''/'' @ name)"

definition path_base :: "string \<Rightarrow> string" where
  "path_base p = rev (takeWhile (\<lambda>c. c \<noteq> CHR ''/'') (rev p))"

text \<open>\<open>upDownRe\<close> and \<open>plainRe\<close>: digits, an underscore, a title, and an anchored ending.\<close>

definition title_char :: "char \<Rightarrow> bool" where
  "title_char c \<longleftrightarrow> is_letter c \<or> is_digit c \<or> c \<in> set ''_-.''"

definition match_name :: "string \<Rightarrow> string \<Rightarrow> (string \<times> string) option" where
  "match_name ending name =
     (let ver = takeWhile is_digit name; r = dropWhile is_digit name;
          title = take (length r - 1 - length ending) (drop 1 r) in
      if ver \<noteq> [] \<and> take 1 r = ''_'' \<and> has_suffix ending (drop 1 r) \<and> title \<noteq> [] \<and> list_all title_char title
      then Some (ver, title) else None)"

definition up_down_re :: "string \<Rightarrow> (string \<times> string \<times> direction) option" where
  "up_down_re name = (case match_name ''.up.sql'' name of
       Some (v, t) \<Rightarrow> Some (v, t, DUp)
     | None \<Rightarrow> (case match_name ''.down.sql'' name of
           Some (v, t) \<Rightarrow> Some (v, t, DDown)
         | None \<Rightarrow> None))"

definition plain_re :: "string \<Rightarrow> (string \<times> string) option" where
  "plain_re name = match_name ''.sql'' name"

definition norm_version :: "string \<Rightarrow> string" where
  "norm_version v = (let t = dropWhile (\<lambda>c. c = CHR ''0'') v in if t = [] then ''0'' else t)"

text \<open>
  \<open>big.Int.SetString\<close> in base 10: an optional sign and digits; \<open>None\<close> is the nil it returns for
  anything else, on which \<open>Cmp\<close> panics.
\<close>

definition set_string :: "string \<Rightarrow> int option" where
  "set_string s =
     (let (sign, ds) = (if take 1 s = ''-'' then (-1, drop 1 s) else if take 1 s = ''+'' then (1, drop 1 s) else (1, s))
      in if ds \<noteq> [] \<and> list_all is_digit ds then Some (sign * int (decimal_value ds)) else None)"

definition version_num :: "string \<Rightarrow> int option" where
  "version_num v = set_string (norm_version v)"

definition version_less :: "string \<Rightarrow> string \<Rightarrow> bool option" where
  "version_less a b = Option.bind (version_num a) (\<lambda>x. Option.bind (version_num b) (\<lambda>y. Some (x < y)))"

text \<open>
  \<open>sort.Slice\<close> by version. Two or more elements are compared, each at least once, so a version
  that is not a number panics; fewer are not compared at all.
\<close>

definition sort_versions :: "('a \<Rightarrow> string) \<Rightarrow> 'a list \<Rightarrow> 'a list option" where
  "sort_versions f xs =
     (if length xs < 2 then Some xs
      else if list_all (\<lambda>x. version_num (f x) \<noteq> None) xs
        then Some (sort_key (\<lambda>x. the (version_num (f x))) xs) else None)"

definition sort_versions_desc :: "('a \<Rightarrow> string) \<Rightarrow> 'a list \<Rightarrow> 'a list option" where
  "sort_versions_desc f xs =
     (if length xs < 2 then Some xs
      else if list_all (\<lambda>x. version_num (f x) \<noteq> None) xs
        then Some (sort_key (\<lambda>x. - the (version_num (f x))) xs) else None)"

section \<open>Loading the files\<close>

datatype entry_kind = Skip | Bad | File string string direction

text \<open>What \<open>Load\<close> makes of an entry's name.\<close>

definition classify_entry :: "bool \<Rightarrow> string \<times> bool \<Rightarrow> entry_kind" where
  "classify_entry plain e = (case e of (name, is_dir) \<Rightarrow>
     if is_dir then Skip
     else if \<not> equal_fold_ascii (path_ext name) ''.sql'' then Skip
     else (case up_down_re name of
         Some (v, t, d) \<Rightarrow> File v t d
       | None \<Rightarrow> (case (plain_re name, plain) of
             (Some (v, t), True) \<Rightarrow> File v t DUp
           | (_, True) \<Rightarrow> Bad
           | _ \<Rightarrow> if has_suffix ''.up.sql'' (go_lower name) \<or> has_suffix ''.down.sql'' (go_lower name)
                  then Bad else Skip)))"

type_synonym by_ver = "(string \<times> migration) list"

definition load_file :: "string \<Rightarrow> string \<Rightarrow> string \<Rightarrow> string \<Rightarrow> direction \<Rightarrow> by_ver \<Rightarrow> mig_error + by_ver" where
  "load_file dir name ver title d m =
     (let key = norm_version ver; p = path_join dir name;
          g = (case map_of m key of
                 None \<Rightarrow> \<lparr>g_version = ver, g_name = title, g_up = [], g_down = []\<rparr> | Some g \<Rightarrow> g)
      in if g_version g \<noteq> ver \<or> g_name g \<noteq> title then Inl (Two_names key (g_version g) (g_name g) ver title)
         else if d = DUp then
           if g_up g \<noteq> [] then Inl (Two_up_files ver) else Inr (AList.update key (g\<lparr>g_up := p\<rparr>) m)
         else Inr (AList.update key (g\<lparr>g_down := p\<rparr>) m))"

definition load_entry :: "string \<Rightarrow> bool \<Rightarrow> by_ver \<Rightarrow> string \<times> bool \<Rightarrow> mig_error + by_ver" where
  "load_entry dir plain m e = (case classify_entry plain e of
       Skip \<Rightarrow> Inr m
     | Bad \<Rightarrow> Inl (Bad_file_name (fst e))
     | File v t d \<Rightarrow> load_file dir (fst e) v t d m)"

text \<open>
  \<open>Load\<close>. The map is kept in the order of the entries; the code ranges over it in an unspecified
  order, which decides only which of several versions without an up file is reported.
\<close>

definition load :: "'w migrator \<Rightarrow> mig_error + migration list" where
  "load m =
     (if \<not> fs_valid_path (m_dir m) then Inl (Bad_dir (m_dir m))
      else case fs_dir (m_fs m) (m_dir m) of
        Inl e \<Rightarrow> Inl (Dir_unreadable e)
      | Inr entries \<Rightarrow> res_bind (res_fold (load_entry (m_dir m) (m_plain m)) [] entries) (\<lambda>by.
          case List.find (\<lambda>g. g_up g = []) (map snd by) of
            Some g \<Rightarrow> Inl (No_up_file (g_version g) (g_name g))
          | None \<Rightarrow> (case sort_versions g_version (map snd by) of
                None \<Rightarrow> Inl Version_panic | Some gs \<Rightarrow> Inr gs)))"

section \<open>The advisory lock\<close>

text \<open>FNV-1a, 64 bits: \<open>hash/fnv\<close>.\<close>

definition fnv1a_step :: "char \<Rightarrow> 64 word \<Rightarrow> 64 word" where
  "fnv1a_step c h = xor h (of_nat (of_char c)) * 1099511628211"

definition fnv1a :: "string \<Rightarrow> 64 word" where
  "fnv1a s = fold fnv1a_step s 14695981039346656037"

text \<open>\<open>hex.EncodeToString(h.Sum(nil))\<close>: sixteen digits, the most significant first.\<close>

definition hex64 :: "64 word \<Rightarrow> string" where
  "hex64 h = map (\<lambda>i. hex_char (unat (drop_bit (4 * i) h) mod 16)) (rev [0..<16])"

definition lock_name :: "'w migrator \<Rightarrow> string" where
  "lock_name m =
     (let name = ''webdev_migrate:'' @ m_table m in
      if 64 < length name then ''webdev_migrate:'' @ hex64 (fnv1a name) else name)"

definition lock_key :: "'w migrator \<Rightarrow> int" where
  "lock_key m = sint (fnv1a (lock_name m))"

text \<open>The error of \<open>Scan\<close> for a NULL read into a type that has none.\<close>

definition scan_null :: gerr where
  "scan_null = err_new ''converting NULL is unsupported''"

definition second :: int where "second = 1000000000"
definition millisecond :: int where "millisecond = 1000000"

text \<open>\<open>ctx.Err()\<close>; the context is done when it is not nil.\<close>

definition lock_ctx_err :: "'w lockdb \<Rightarrow> lock_ctx \<Rightarrow> 'w \<Rightarrow> gerr option" where
  "lock_ctx_err ld c w =
     (let due = (\<lambda>t. if t \<le> ld_clock ld w then Some ctx_deadline else None)
      in case c of
           Caller \<Rightarrow> ld_ctx_err ld w
         | Within t \<Rightarrow> (case ld_ctx_err ld w of Some e \<Rightarrow> Some e | None \<Rightarrow> due t)
         | Detached t \<Rightarrow> due t)"

text \<open>
  The \<open>select\<close> of \<open>lockOn\<close> on \<open>ctx.Done()\<close> and \<open>time.After(200 * time.Millisecond)\<close>: a context that
  is done already wins, since the timer has just been set; otherwise it blocks until the timer
  fires or the context is done, and where both are ready either case may be taken.
\<close>

definition lock_pause :: "'w lockdb \<Rightarrow> lock_ctx \<Rightarrow> 'w \<Rightarrow> gerr option \<times> 'w" where
  "lock_pause ld c w = (case lock_ctx_err ld c w of
       Some e \<Rightarrow> (Some e, w)
     | None \<Rightarrow>
         (let tick = ld_clock ld w + 200 * millisecond;
              w' = ld_sleep ld (case c of Caller \<Rightarrow> tick | Within t \<Rightarrow> min tick t | Detached t \<Rightarrow> min tick t) w
          in case lock_ctx_err ld c w' of
               Some e \<Rightarrow> (if tick \<le> ld_clock ld w' \<and> ld_pick ld w' then None else Some e, w')
             | None \<Rightarrow> (None, w')))"

text \<open>The loop of \<open>lockOn\<close> on PostgreSQL with a timeout; it may try forever, \<open>None\<close>.\<close>

partial_function (option) pg_try_lock :: "'w lockdb \<Rightarrow> lock_ctx \<Rightarrow> int \<Rightarrow> 'w \<Rightarrow> (mig_error option \<times> 'w) option" where
  "pg_try_lock ld c key w = (case ld_query ld c ''SELECT pg_try_advisory_lock($1)'' [AInt key] w of
       (Inl e, w1) \<Rightarrow> Some (Some (Lock_failed ''pg_try_advisory_lock'' e), w1)
     | (Inr None, w1) \<Rightarrow> Some (Some (Lock_failed ''pg_try_advisory_lock'' scan_null), w1)
     | (Inr (Some got), w1) \<Rightarrow>
         if got = 1 then Some (None, w1)
         else (case lock_pause ld c w1 of
             (Some e, w2) \<Rightarrow> Some (Some (Ctx_done e), w2)
           | (None, w2) \<Rightarrow> pg_try_lock ld c key w2))"

definition lock_on :: "'w migrator \<Rightarrow> 'w lockdb \<Rightarrow> lock_ctx \<Rightarrow> 'w \<Rightarrow> (mig_error option \<times> 'w) option" where
  "lock_on m ld c w = (case m_dialect m of
       Postgres \<Rightarrow>
         if m_lock_timeout m \<le> 0 then
           (case ld_exec ld c ''SELECT pg_advisory_lock($1)'' [AInt (lock_key m)] w of
              (Some e, w1) \<Rightarrow> Some (Some (Lock_failed ''pg_advisory_lock'' e), w1)
            | (None, w1) \<Rightarrow> Some (None, w1))
         else pg_try_lock ld c (lock_key m) w
     | MySQL \<Rightarrow>
         (let timeout = (if 0 < m_lock_timeout m then max 1 (m_lock_timeout m div second) else -1) in
          case ld_query ld c ''SELECT GET_LOCK(?, ?)'' [AStr (lock_name m), AInt timeout] w of
            (Inl e, w1) \<Rightarrow> Some (Some (Lock_failed ''GET_LOCK'' e), w1)
          | (Inr None, w1) \<Rightarrow> Some (Some Lock_null, w1)
          | (Inr (Some got), w1) \<Rightarrow> Some (if got \<noteq> 1 then Some Lock_timed_out else None, w1))
     | SQLServer \<Rightarrow>
         (let timeout = (if 0 < m_lock_timeout m then m_lock_timeout m div millisecond else -1) in
          case ld_query ld c (''DECLARE @r INT; EXEC @r = sp_getapplock @Resource = @p1, @LockMode = ''
                 @ [CHR 0x27] @ ''Exclusive'' @ [CHR 0x27] @ '', @LockOwner = '' @ [CHR 0x27] @ ''Session''
                 @ [CHR 0x27] @ '', @LockTimeout = @p2; SELECT @r'') [AStr (lock_name m), AInt timeout] w of
            (Inl e, w1) \<Rightarrow> Some (Some (Lock_failed ''sp_getapplock'' e), w1)
          | (Inr None, w1) \<Rightarrow> Some (Some (Lock_failed ''sp_getapplock'' scan_null), w1)
          | (Inr (Some c), w1) \<Rightarrow>
              Some (if c = -1 then Some Lock_timed_out else if c < 0 then Some (Lock_code c) else None, w1))
     | _ \<Rightarrow> Some (None, w))"

definition unlock_on :: "'w migrator \<Rightarrow> 'w lockdb \<Rightarrow> 'w \<Rightarrow> mig_error option \<times> 'w" where
  "unlock_on m ld w =
     (let c = Detached (ld_clock ld w + 10 * second);
          (err, w1) = (case m_dialect m of
          Postgres \<Rightarrow> ld_exec ld c ''SELECT pg_advisory_unlock($1)'' [AInt (lock_key m)] w
        | MySQL \<Rightarrow> ld_exec ld c ''SELECT RELEASE_LOCK(?)'' [AStr (lock_name m)] w
        | SQLServer \<Rightarrow> ld_exec ld c (''EXEC sp_releaseapplock @Resource = @p1, @LockOwner = ''
            @ [CHR 0x27] @ ''Session'' @ [CHR 0x27]) [AStr (lock_name m)] w
        | _ \<Rightarrow> (None, w))
      in (map_option Unlock_failed err, w1))"

fun cause :: "mig_error \<Rightarrow> gerr option" where
  "cause (Lock_failed _ e) = Some e"
| "cause (Ctx_done e) = Some e"
| "cause _ = None"

text \<open>
  \<open>acquireLock\<close>: the connection the lock is held on, \<open>None\<close> where there is nothing to release.
  \<open>release_lock\<close> is the function it returns. \<open>wait_ctx\<close> is the context it waits in.
\<close>

definition wait_ctx :: "'w migrator \<Rightarrow> 'w lockdb \<Rightarrow> 'w \<Rightarrow> lock_ctx" where
  "wait_ctx m ld w =
     (if 0 < m_lock_timeout m then Within (ld_clock ld w + m_lock_timeout m) else Caller)"

definition acquire_lock :: "'w migrator \<Rightarrow> 'w lockdb \<Rightarrow> 'w \<Rightarrow> ((mig_error + 'w lockdb option) \<times> 'w) option" where
  "acquire_lock m ld w =
     (if \<not> m_lock m \<or> m_dialect m \<notin> {Postgres, MySQL, SQLServer} then Some (Inr None, w)
      else case ld_conn ld w of
        (Some e, w1) \<Rightarrow> Some (Inl (Lock_conn_failed e), w1)
      | (None, w1) \<Rightarrow> (case lock_on m ld (wait_ctx m ld w1) w1 of
            None \<Rightarrow> None
          | Some (Some e, w2) \<Rightarrow>
              (let (_, w3) = ld_close ld w2;
                   late = (case cause e of None \<Rightarrow> False | Some c \<Rightarrow> err_is c ''context deadline exceeded'')
               in Some (Inl (if late \<and> 0 < m_lock_timeout m \<and> ld_ctx_err ld w3 = None then Lock_timed_out else e), w3))
          | Some (None, w2) \<Rightarrow> Some (Inr (Some ld), w2)))"

definition release_lock :: "'w migrator \<Rightarrow> 'w lockdb option \<Rightarrow> 'w \<Rightarrow> mig_error option \<times> 'w" where
  "release_lock m held w = (case held of
       None \<Rightarrow> (None, w)
     | Some ld \<Rightarrow> (let (uerr, w1) = unlock_on m ld w; (cerr, w2) = ld_close ld w1
         in (if uerr = None then map_option Db_failed cerr else uerr, w2)))"

section \<open>The tracking table\<close>

definition quoted_table :: "'w migrator \<Rightarrow> mig_error + string" where
  "quoted_table m = (case quote_ident (m_dialect m) (m_table m) of Inl e \<Rightarrow> Inl (Ident_failed e) | Inr q \<Rightarrow> Inr q)"

definition table_ddl :: "'w migrator \<Rightarrow> string \<Rightarrow> string" where
  "table_ddl m qt = (case m_dialect m of
       SQLServer \<Rightarrow> ''IF OBJECT_ID(N'' @ [CHR 0x27] @ m_table m @ [CHR 0x27] @ '', N'' @ [CHR 0x27] @ ''U'' @ [CHR 0x27]
         @ '') IS NULL CREATE TABLE '' @ qt
         @ '' (version NVARCHAR(64) NOT NULL PRIMARY KEY, name NVARCHAR(255) NOT NULL, applied_at DATETIME2 NOT NULL)''
     | MySQL \<Rightarrow> ''CREATE TABLE IF NOT EXISTS '' @ qt
         @ '' (version VARCHAR(64) NOT NULL PRIMARY KEY, name VARCHAR(255) NOT NULL, applied_at DATETIME(6) NOT NULL)''
     | _ \<Rightarrow> ''CREATE TABLE IF NOT EXISTS '' @ qt
         @ '' (version VARCHAR(64) NOT NULL PRIMARY KEY, name VARCHAR(255) NOT NULL, applied_at TIMESTAMP NOT NULL)'')"

definition ensure_table :: "'w migrator \<Rightarrow> 'w \<Rightarrow> mig_error option \<times> 'w" where
  "ensure_table m w = (case m_db m of
       None \<Rightarrow> (Some Db_nil, w)
     | Some (db, _) \<Rightarrow> (case quoted_table m of
           Inl e \<Rightarrow> (Some e, w)
         | Inr qt \<Rightarrow> (let (e, w1) = sd_exec db OnDb (table_ddl m qt) [] w in (map_option Db_failed e, w1))))"

text \<open>
  \<open>toTime\<close>: \<open>parse\<close> is \<open>time.Parse\<close> with a layout; the zero time when nothing fits (nanoseconds of
  year 1 relative to 1970).
\<close>

definition zero_time :: int where
  "zero_time = -62135596800000000000"

definition time_layouts :: "string list" where
  "time_layouts = [''2006-01-02T15:04:05.999999999Z07:00'', ''2006-01-02 15:04:05.999999999-07:00'',
     ''2006-01-02 15:04:05.999999999'', ''2006-01-02T15:04:05.999999999'', ''2006-01-02 15:04:05'']"

definition first_layout :: "(string \<Rightarrow> string \<Rightarrow> int option) \<Rightarrow> string \<Rightarrow> int" where
  "first_layout parse s = (case List.map_filter (\<lambda>l. parse l s) time_layouts of [] \<Rightarrow> zero_time | t # _ \<Rightarrow> t)"

fun to_time :: "(string \<Rightarrow> string \<Rightarrow> int option) \<Rightarrow> time_value \<Rightarrow> int" where
  "to_time parse (TTime t) = t"
| "to_time parse (TBytes s) = first_layout parse s"
| "to_time parse (TStr s) = first_layout parse s"
| "to_time parse TOther = zero_time"

type_synonym applied_map = "(string \<times> applied_row) list"

definition applied_of :: "(string \<Rightarrow> string \<Rightarrow> int option) \<Rightarrow> sql_row list \<Rightarrow> applied_map" where
  "applied_of parse rows = fold (\<lambda>(v, n, t). AList.update (norm_version v)
     \<lparr>r_version = v, r_name = n, r_at = to_time parse t\<rparr>) rows []"

text \<open>\<open>applied\<close>: the records by normalised version, the last one read where several have the same.\<close>

definition applied :: "(string \<Rightarrow> string \<Rightarrow> int option) \<Rightarrow> 'w migrator \<Rightarrow> ('w, sql_row) sqldb \<Rightarrow> 'w
    \<Rightarrow> (mig_error + applied_map) \<times> 'w" where
  "applied parse m db w = (case quoted_table m of
       Inl e \<Rightarrow> (Inl e, w)
     | Inr qt \<Rightarrow> (case sd_query db (''SELECT version, name, applied_at FROM '' @ qt) w of
           (Inl e, w1) \<Rightarrow> (Inl (Db_failed e), w1)
         | (Inr rows, w1) \<Rightarrow> (Inr (applied_of parse rows), w1)))"

section \<open>Running a file\<close>

definition first_line :: "string \<Rightarrow> string" where
  "first_line s = takeWhile (\<lambda>c. c \<noteq> CHR 0x0A) s"

definition has_no_tx_marker :: "string \<Rightarrow> bool" where
  "has_no_tx_marker body \<longleftrightarrow> equal_fold_ascii (trim_space (first_line (trim_space body))) no_tx_marker"

definition strip_no_tx :: "string \<Rightarrow> string" where
  "strip_no_tx body =
     (if has_no_tx_marker body then drop 1 (dropWhile (\<lambda>c. c \<noteq> CHR 0x0A) (trim_space body)) else body)"

definition insert_sql :: "dialect \<Rightarrow> string \<Rightarrow> string" where
  "insert_sql d qt = ''INSERT INTO '' @ qt @ '' (version, name, applied_at) VALUES ('' @ placeholder d 1 @ '', ''
     @ placeholder d 2 @ '', '' @ placeholder d 3 @ '')''"

definition delete_sql :: "dialect \<Rightarrow> string \<Rightarrow> string" where
  "delete_sql d qt = ''DELETE FROM '' @ qt @ '' WHERE version = '' @ placeholder d 1"

definition record_run :: "'w migrator \<Rightarrow> ('w, sql_row) sqldb \<Rightarrow> string \<Rightarrow> migration \<Rightarrow> direction \<Rightarrow> execer \<Rightarrow> 'w
    \<Rightarrow> gerr option \<times> 'w" where
  "record_run m db qt g d ex w = (case d of
       DUp \<Rightarrow> sd_exec db ex (insert_sql (m_dialect m) qt) [AStr (g_version g), AStr (g_name g), ATime (m_now m w)] w
     | DDown \<Rightarrow> sd_exec db ex (delete_sql (m_dialect m) qt) [AStr (g_version g)] w)"

definition run_body :: "('w, sql_row) sqldb \<Rightarrow> string \<Rightarrow> execer \<Rightarrow> 'w \<Rightarrow> gerr option \<times> 'w" where
  "run_body db body ex w =
     (if trim_space (strip_no_tx body) = [] then (None, w) else sd_exec db ex body [] w)"

definition body_then_record :: "'w migrator \<Rightarrow> ('w, sql_row) sqldb \<Rightarrow> string \<Rightarrow> migration \<Rightarrow> direction \<Rightarrow> string
    \<Rightarrow> string \<Rightarrow> execer \<Rightarrow> 'w \<Rightarrow> mig_error option \<times> 'w" where
  "body_then_record m db qt g d file body ex w = (case run_body db body ex w of
       (Some e, w1) \<Rightarrow> (Some (Body_failed d (path_base file) e), w1)
     | (None, w1) \<Rightarrow> (case record_run m db qt g d ex w1 of
           (Some e, w2) \<Rightarrow> (Some (Record_failed (path_base file) e), w2)
         | (None, w2) \<Rightarrow> (None, w2)))"

definition run_file :: "'w migrator \<Rightarrow> ('w, sql_row) sqldb \<Rightarrow> direction \<Rightarrow> migration \<Rightarrow> 'w \<Rightarrow> mig_error option \<times> 'w" where
  "run_file m db d g w =
     (let file = (if d = DUp then g_up g else g_down g) in
      case fs_file (m_fs m) file of
        Inl e \<Rightarrow> (Some (File_unreadable file e), w)
      | Inr body \<Rightarrow> (case quoted_table m of
            Inl e \<Rightarrow> (Some e, w)
          | Inr qt \<Rightarrow>
              if has_no_tx_marker body then body_then_record m db qt g d file body OnDb w
              else tx_scope db Db_failed (body_then_record m db qt g d file body OnTx) w))"

section \<open>Up, Down and Status\<close>

text \<open>The loop of \<open>Up\<close> over the files, with what has run so far.\<close>

fun up_loop :: "'w migrator \<Rightarrow> ('w, sql_row) sqldb \<Rightarrow> applied_map \<Rightarrow> migration list \<Rightarrow> migration list \<Rightarrow> 'w
    \<Rightarrow> (migration list \<times> mig_error option) \<times> 'w" where
  "up_loop m db don [] acc w = ((acc, None), w)"
| "up_loop m db don (g # gs) acc w =
     (if map_of don (norm_version (g_version g)) \<noteq> None then up_loop m db don gs acc w
      else case run_file m db DUp g w of
        (Some e, w1) \<Rightarrow> ((acc, Some e), w1)
      | (None, w1) \<Rightarrow> up_loop m db don gs (acc @ [g]) w1)"

text \<open>What both directions do around their work: load, lock, prepare the table, read it, release.\<close>

definition locked_run :: "(string \<Rightarrow> string \<Rightarrow> int option) \<Rightarrow> 'w migrator \<Rightarrow> (mig_error \<Rightarrow> mig_error)
    \<Rightarrow> (('w, sql_row) sqldb \<Rightarrow> migration list \<Rightarrow> applied_map \<Rightarrow> 'w \<Rightarrow> (migration list \<times> mig_error option) \<times> 'w)
    \<Rightarrow> 'w \<Rightarrow> ((migration list \<times> mig_error option) \<times> 'w) option" where
  "locked_run parse m wrap work w = (case load m of
       Inl e \<Rightarrow> Some (([], Some e), w)
     | Inr gs \<Rightarrow> (case m_db m of
           None \<Rightarrow> Some (([], Some Db_nil), w)
         | Some (db, ld) \<Rightarrow> (case acquire_lock m ld w of
               None \<Rightarrow> None
             | Some (Inl e, w1) \<Rightarrow> Some (([], Some e), w1)
             | Some (Inr held, w1) \<Rightarrow>
                 (let ((out, err), w2) = (case ensure_table m w1 of
                        (Some e, w2) \<Rightarrow> (([], Some (wrap e)), w2)
                      | (None, w2) \<Rightarrow> (case applied parse m db w2 of
                            (Inl e, w3) \<Rightarrow> (([], Some e), w3)
                          | (Inr don, w3) \<Rightarrow> work db gs don w3));
                      (rerr, w3) = release_lock m held w2
                  in Some ((out, if err = None then rerr else err), w3)))))"

definition up :: "(string \<Rightarrow> string \<Rightarrow> int option) \<Rightarrow> 'w migrator \<Rightarrow> 'w
    \<Rightarrow> ((migration list \<times> mig_error option) \<times> 'w) option" where
  "up parse m w = locked_run parse m Table_failed (\<lambda>db gs don. up_loop m db don gs []) w"

text \<open>One round of the loop of \<open>down\<close>: the file of the recorded version, then its down file.\<close>

definition down_target :: "migration list \<Rightarrow> applied_map \<Rightarrow> string \<Rightarrow> mig_error + migration" where
  "down_target gs don v =
     (let rv = (case map_of don v of None \<Rightarrow> [] | Some r \<Rightarrow> r_version r) in
      case map_of (rev (map (\<lambda>g. (norm_version (g_version g), g)) gs)) v of
        None \<Rightarrow> Inl (No_down_file rv)
      | Some g \<Rightarrow> if g_down g = [] then Inl (No_down_file (g_version g @ ''_'' @ g_name g))
                  else Inr (g\<lparr>g_version := rv\<rparr>))"

fun down_loop :: "'w migrator \<Rightarrow> ('w, sql_row) sqldb \<Rightarrow> migration list \<Rightarrow> applied_map \<Rightarrow> int \<Rightarrow> string list
    \<Rightarrow> migration list \<Rightarrow> 'w \<Rightarrow> (migration list \<times> mig_error option) \<times> 'w" where
  "down_loop m db gs don steps [] acc w = ((acc, None), w)"
| "down_loop m db gs don steps (v # vs) acc w =
     (if 0 \<le> steps \<and> steps \<le> int (length acc) then ((acc, None), w)
      else case down_target gs don v of
        Inl e \<Rightarrow> ((acc, Some e), w)
      | Inr g \<Rightarrow> (case run_file m db DDown g w of
            (Some e, w1) \<Rightarrow> ((acc, Some e), w1)
          | (None, w1) \<Rightarrow> down_loop m db gs don steps vs (acc @ [g]) w1))"

definition down_steps :: "(string \<Rightarrow> string \<Rightarrow> int option) \<Rightarrow> 'w migrator \<Rightarrow> int \<Rightarrow> 'w
    \<Rightarrow> ((migration list \<times> mig_error option) \<times> 'w) option" where
  "down_steps parse m steps w = locked_run parse m (\<lambda>e. e) (\<lambda>db gs don w.
     case sort_versions_desc (\<lambda>v. v) (map fst don) of
       None \<Rightarrow> (([], Some Version_panic), w)
     | Some vs \<Rightarrow> down_loop m db gs don steps vs [] w) w"

definition down :: "(string \<Rightarrow> string \<Rightarrow> int option) \<Rightarrow> 'w migrator \<Rightarrow> int \<Rightarrow> 'w
    \<Rightarrow> ((migration list \<times> mig_error option) \<times> 'w) option" where
  "down parse m steps w = down_steps parse m (if steps \<le> 0 then 1 else steps) w"

definition down_all :: "(string \<Rightarrow> string \<Rightarrow> int option) \<Rightarrow> 'w migrator \<Rightarrow> 'w
    \<Rightarrow> ((migration list \<times> mig_error option) \<times> 'w) option" where
  "down_all parse m w = down_steps parse m (-1) w"

definition file_status :: "applied_map \<Rightarrow> migration \<Rightarrow> mig_status" where
  "file_status don g = (case map_of don (norm_version (g_version g)) of
       None \<Rightarrow> \<lparr>st_version = g_version g, st_name = g_name g, st_applied = False, st_applied_at = zero_time,
          st_missing = False\<rparr>
     | Some r \<Rightarrow> \<lparr>st_version = g_version g, st_name = g_name g, st_applied = True, st_applied_at = r_at r,
          st_missing = False\<rparr>)"

definition missing_status :: "applied_row \<Rightarrow> mig_status" where
  "missing_status r = \<lparr>st_version = r_version r, st_name = r_name r, st_applied = True,
     st_applied_at = r_at r, st_missing = True\<rparr>"

definition statuses :: "migration list \<Rightarrow> applied_map \<Rightarrow> mig_status list" where
  "statuses gs don = map (file_status don) gs
     @ map (missing_status \<circ> snd) (filter (\<lambda>(k, r). k \<notin> (norm_version \<circ> g_version) ` set gs) don)"

definition status :: "(string \<Rightarrow> string \<Rightarrow> int option) \<Rightarrow> 'w migrator \<Rightarrow> 'w \<Rightarrow> (mig_error + mig_status list) \<times> 'w" where
  "status parse m w = (case load m of
       Inl e \<Rightarrow> (Inl e, w)
     | Inr gs \<Rightarrow> (case ensure_table m w of
           (Some e, w1) \<Rightarrow> (Inl e, w1)
         | (None, w1) \<Rightarrow> (case m_db m of
               None \<Rightarrow> (Inl Db_nil, w1)
             | Some (db, _) \<Rightarrow> (case applied parse m db w1 of
                   (Inl e, w2) \<Rightarrow> (Inl e, w2)
                 | (Inr don, w2) \<Rightarrow> (case sort_versions st_version (statuses gs don) of
                       None \<Rightarrow> (Inl Version_panic, w2)
                     | Some sts \<Rightarrow> (Inr sts, w2))))))"

text \<open>The package's shorthands for a directory of the operating system.\<close>

definition migrate :: "(string \<Rightarrow> string \<Rightarrow> int option) \<Rightarrow> (('w, sql_row) sqldb \<times> 'w lockdb) option \<Rightarrow> go_fs \<Rightarrow> string
    \<Rightarrow> ('w \<Rightarrow> int) \<Rightarrow> 'w \<Rightarrow> (mig_error option \<times> 'w) option" where
  "migrate parse db fsys dir clock w =
     map_option (\<lambda>((_, e), w). (e, w)) (up parse (new_migrator db fsys dir clock []) w)"

definition rollback_steps :: "(string \<Rightarrow> string \<Rightarrow> int option) \<Rightarrow> (('w, sql_row) sqldb \<times> 'w lockdb) option \<Rightarrow> go_fs
    \<Rightarrow> ('w \<Rightarrow> int) \<Rightarrow> int \<Rightarrow> 'w \<Rightarrow> (mig_error option \<times> 'w) option" where
  "rollback_steps parse db fsys clock n w =
     map_option (\<lambda>((_, e), w). (e, w)) (down parse (new_migrator db fsys ''.'' clock []) (if n \<le> 0 then 1 else n) w)"

definition rollback_all :: "(string \<Rightarrow> string \<Rightarrow> int option) \<Rightarrow> (('w, sql_row) sqldb \<times> 'w lockdb) option \<Rightarrow> go_fs
    \<Rightarrow> ('w \<Rightarrow> int) \<Rightarrow> 'w \<Rightarrow> (mig_error option \<times> 'w) option" where
  "rollback_all parse db fsys clock w =
     map_option (\<lambda>((_, e), w). (e, w)) (down_all parse (new_migrator db fsys ''.'' clock []) w)"

interpretation upl: sequential_runner "\<lambda>g. map_of don (norm_version (g_version g)) \<noteq> None" "run_file m db DUp"
    "\<lambda>g. g" "up_loop m db don" for m db don
  by unfold_locales simp_all

section \<open>What Load returns\<close>

lemma res_fold_seen:
  assumes "res_fold f s xs = Inr t" and "P seen s"
    and "\<And>seen s x s'. P seen s \<Longrightarrow> x \<in> set xs \<Longrightarrow> f s x = Inr s' \<Longrightarrow> P (insert x seen) s'"
  shows "P (seen \<union> set xs) t"
  using assms
proof (induction xs arbitrary: s seen)
  case Nil
  then show ?case by simp
next
  case (Cons x xs)
  from Cons.prems(1) obtain s' where s': "f s x = Inr s'" "res_fold f s' xs = Inr t" by auto
  have "P (insert x seen) s'" by (rule Cons.prems(3) [OF Cons.prems(2) _ s'(1)]) simp
  then have "P (insert x seen \<union> set xs) t"
    by (rule Cons.IH [OF s'(2)]) (rule Cons.prems(3), auto)
  then show ?case by simp
qed

lemma match_name_digits: "match_name ending name = Some (v, t) \<Longrightarrow> digits v \<and> name \<noteq> []"
  by (auto simp: match_name_def Let_def digits_def list_all_iff split: if_splits dest: set_takeWhileD)

lemma classify_File: "classify_entry plain e = File v t d \<Longrightarrow> digits v \<and> fst e \<noteq> []"
  by (auto simp: classify_entry_def up_down_re_def plain_re_def split: prod.splits if_splits option.splits bool.splits
      dest: match_name_digits)

lemma digit_not_sign: "is_digit c \<Longrightarrow> c \<noteq> CHR ''-'' \<and> c \<noteq> CHR ''+''"
  by (auto simp: is_digit_def)

lemma set_string_digits: "digits v \<Longrightarrow> set_string v = Some (int (decimal_value v))"
  by (cases v) (auto simp: set_string_def digits_def dest: digit_not_sign)

lemma digits_norm: "digits v \<Longrightarrow> digits (norm_version v)"
  by (auto simp: digits_def norm_version_def Let_def list_all_iff is_digit_def dest: set_dropWhileD)

lemma decimal_value_norm: "decimal_value (norm_version v) = decimal_value v"
proof -
  define t where "t = dropWhile (\<lambda>c. c = CHR ''0'') v"
  have t: "decimal_value t = decimal_value v" unfolding t_def by (rule decimal_value_strip0)
  have "norm_version v = (if t = [] then ''0'' else t)" unfolding norm_version_def t_def Let_def ..
  moreover have "decimal_value ''0'' = decimal_value []" by (rule decimal_value_Cons0)
  ultimately show ?thesis using t by (cases "t = []") simp_all
qed

lemma version_num_digits: "digits v \<Longrightarrow> version_num v = Some (int (decimal_value v))"
  by (simp add: version_num_def set_string_digits digits_norm decimal_value_norm)

lemma norm_version_head: "digits v \<Longrightarrow> norm_version v = ''0'' \<or> (\<exists>c s. norm_version v = c # s \<and> c \<noteq> CHR ''0'')"
  by (cases "dropWhile (\<lambda>c. c = CHR ''0'') v") (auto simp: norm_version_def dropWhile_eq_Cons_conv)

lemma norm_version_inj:
  assumes "digits v" and "digits w" and "decimal_value v = decimal_value w"
  shows "norm_version v = norm_version w"
proof -
  have zero: "decimal_value ''0'' = 0" by (simp add: decimal_value_def digit_val_def)
  have all: "list_all is_digit (norm_version v)" "list_all is_digit (norm_version w)"
    using digits_norm assms(1,2) by (simp_all add: digits_def)
  have eq: "decimal_value (norm_version v) = decimal_value (norm_version w)"
    using assms(3) by (simp add: decimal_value_norm)
  have pos: "decimal_value (c # s) \<noteq> 0" if "list_all is_digit (c # s)" "c \<noteq> CHR ''0''" for c s
  proof -
    have "(0 :: nat) < 10 ^ length s" by simp
    with decimal_value_lower [OF that] show ?thesis by linarith
  qed
  from norm_version_head [OF assms(1)] norm_version_head [OF assms(2)]
  consider "norm_version v = ''0''" | "norm_version w = ''0''"
    | c s d t where "norm_version v = c # s" "c \<noteq> CHR ''0''" "norm_version w = d # t" "d \<noteq> CHR ''0''"
    by blast
  then show ?thesis
  proof cases
    case 1
    with eq zero pos all(2) norm_version_head [OF assms(2)] show ?thesis by metis
  next
    case 2
    with eq zero pos all(1) norm_version_head [OF assms(1)] show ?thesis by metis
  next
    case 3
    have "length s = length t"
    proof (rule ccontr)
      assume "length s \<noteq> length t"
      then consider "Suc (length s) \<le> length t" | "Suc (length t) \<le> length s" by linarith
      then show False
      proof cases
        case 1
        then have "(10 :: nat) ^ Suc (length s) \<le> 10 ^ length t" by (intro power_increasing) simp_all
        with decimal_value_lower [of c s] decimal_value_lower [of d t] 3 all eq show False by simp
      next
        case 2
        then have "(10 :: nat) ^ Suc (length t) \<le> 10 ^ length s" by (intro power_increasing) simp_all
        with decimal_value_lower [of c s] decimal_value_lower [of d t] 3 all eq show False by simp
      qed
    qed
    with 3 all eq show ?thesis by (intro decimal_value_digits_inj) simp_all
  qed
qed

lemma norm_version_eq_iff:
  "digits v \<Longrightarrow> digits w \<Longrightarrow> norm_version v = norm_version w \<longleftrightarrow> decimal_value v = decimal_value w"
  by (metis decimal_value_norm norm_version_inj)

end
