(* ===== verification/Migrate_Facts.thy ===== *)
theory Migrate_Facts
  imports Migrate "HOL-Library.Multiset"
begin

text \<open>
  What pkg/migrate promises: the migrations \<open>Load\<close> returns, the bounds of the lock's name, what
  \<open>Up\<close> and \<open>Down\<close> do to the tracking table and the database, and that the lock's connection is
  always given back.
\<close>

section \<open>Load\<close>

lemma path_join_not_Nil: "name \<noteq> [] \<Longrightarrow> path_join dir name \<noteq> []"
  by (simp add: path_join_def)

text \<open>
  The map after some entries: keys are the normalised versions of their migrations, no key twice;
  every file seen is in it, and every migration in it was seen.
\<close>

definition by_ver_ok :: "string \<Rightarrow> bool \<Rightarrow> (string \<times> bool) set \<Rightarrow> by_ver \<Rightarrow> bool" where
  "by_ver_ok dir plain seen m \<longleftrightarrow> distinct (map fst m)
   \<and> (\<forall>k g. map_of m k = Some g \<longrightarrow> k = norm_version (g_version g) \<and> digits (g_version g)
        \<and> (g_up g \<noteq> [] \<longrightarrow>
             (\<exists>e\<in>seen. classify_entry plain e = File (g_version g) (g_name g) DUp \<and> g_up g = path_join dir (fst e))))
   \<and> (\<forall>e\<in>seen. \<forall>v t d. classify_entry plain e = File v t d \<longrightarrow>
        (\<exists>g. map_of m (norm_version v) = Some g \<and> g_version g = v \<and> g_name g = t
          \<and> (d = DUp \<longrightarrow> g_up g = path_join dir (fst e)) \<and> (d = DDown \<longrightarrow> g_down g \<noteq> [])))"

lemma load_file_Inr:
  assumes "load_file dir name v t d m = Inr m'"
  shows "\<exists>g0. m' = AList.update (norm_version v)
      (if d = DUp then g0\<lparr>g_up := path_join dir name\<rparr> else g0\<lparr>g_down := path_join dir name\<rparr>) m
    \<and> g_version g0 = v \<and> g_name g0 = t \<and> (d = DUp \<longrightarrow> g_up g0 = [])
    \<and> (map_of m (norm_version v) = None \<longrightarrow> g_up g0 = [] \<and> g_down g0 = [])
    \<and> (map_of m (norm_version v) \<noteq> None \<longrightarrow> map_of m (norm_version v) = Some g0)"
  using assms
  by (intro exI [of _ "case map_of m (norm_version v) of
        None \<Rightarrow> \<lparr>g_version = v, g_name = t, g_up = [], g_down = []\<rparr> | Some g \<Rightarrow> g"])
     (auto simp: load_file_def Let_def split: if_splits option.splits)

lemma load_file_ok:
  assumes ok: "by_ver_ok dir plain seen m" and c: "classify_entry plain e = File v t d"
    and run: "load_file dir (fst e) v t d m = Inr m'"
  shows "by_ver_ok dir plain (insert e seen) m'"
proof -
  from run obtain g0 where m': "m' = AList.update (norm_version v)
      (if d = DUp then g0\<lparr>g_up := path_join dir (fst e)\<rparr> else g0\<lparr>g_down := path_join dir (fst e)\<rparr>) m"
    and g0: "g_version g0 = v" "g_name g0 = t" "d = DUp \<longrightarrow> g_up g0 = []"
      "map_of m (norm_version v) = None \<longrightarrow> g_up g0 = [] \<and> g_down g0 = []"
      "map_of m (norm_version v) \<noteq> None \<longrightarrow> map_of m (norm_version v) = Some g0"
    by (blast dest: load_file_Inr)
  define g where "g = (if d = DUp then g0\<lparr>g_up := path_join dir (fst e)\<rparr> else g0\<lparr>g_down := path_join dir (fst e)\<rparr>)"
  have m: "map_of m' = (map_of m)(norm_version v \<mapsto> g)" by (simp add: m' g_def update_conv')
  have dist: "distinct (map fst m')" using ok by (simp add: m' by_ver_ok_def distinct_update)
  have c': "digits v" "path_join dir (fst e) \<noteq> []" using classify_File [OF c] path_join_not_Nil by auto
  have g: "g_version g = v" "g_name g = t" "d = DUp \<Longrightarrow> g_up g = path_join dir (fst e)"
      "d = DDown \<Longrightarrow> g_down g \<noteq> [] \<and> g_up g = g_up g0" "g_up g0 \<noteq> [] \<Longrightarrow> g_up g = g_up g0"
      "g_down g0 \<noteq> [] \<Longrightarrow> g_down g \<noteq> []"
    using g0 c' by (auto simp: g_def)
  have old: "\<exists>e\<in>seen. classify_entry plain e = File v t DUp \<and> g_up g0 = path_join dir (fst e)" if "g_up g0 \<noteq> []"
  proof -
    have "map_of m (norm_version v) = Some g0" using g0(4,5) that by blast
    with ok that g0(1,2) show ?thesis unfolding by_ver_ok_def by blast
  qed
  have new: "\<exists>e\<in>insert e seen. classify_entry plain e = File v t DUp \<and> g_up g = path_join dir (fst e)" if "g_up g \<noteq> []"
    using old g c that by (cases d) auto
  have seen: "\<exists>g. map_of m' (norm_version v') = Some g \<and> g_version g = v' \<and> g_name g = t'
          \<and> (d' = DUp \<longrightarrow> g_up g = path_join dir (fst e')) \<and> (d' = DDown \<longrightarrow> g_down g \<noteq> [])"
    if e': "e' \<in> seen" "classify_entry plain e' = File v' t' d'" for e' v' t' d'
  proof -
    from ok e' obtain h where h: "map_of m (norm_version v') = Some h" "g_version h = v'" "g_name h = t'"
        "d' = DUp \<longrightarrow> g_up h = path_join dir (fst e')" "d' = DDown \<longrightarrow> g_down h \<noteq> []"
      unfolding by_ver_ok_def by blast
    have p': "path_join dir (fst e') \<noteq> []" using classify_File [OF e'(2)] path_join_not_Nil by auto
    show ?thesis
    proof (cases "norm_version v' = norm_version v")
      case True
      then have "h = g0" using h(1) g0(5) by simp
      have "map_of m' (norm_version v') = Some g" using True by (simp add: m)
      moreover have "g_version g = v'" "g_name g = t'" using g(1,2) g0(1,2) h(2,3) \<open>h = g0\<close> by simp_all
      moreover have "d' = DUp \<longrightarrow> g_up g = path_join dir (fst e')" using h(4) g(5) p' \<open>h = g0\<close> by simp
      moreover have "d' = DDown \<longrightarrow> g_down g \<noteq> []" using h(5) g(6) \<open>h = g0\<close> by simp
      ultimately show ?thesis by blast
    qed (use h in \<open>simp add: m\<close>)
  qed
  show ?thesis
    unfolding by_ver_ok_def
  proof (intro conjI allI impI ballI)
    show "distinct (map fst m')" by (rule dist)
  next
    fix k h assume h: "map_of m' k = Some h"
    have "k = norm_version (g_version h) \<and> digits (g_version h)"
    proof (cases "k = norm_version v")
      case True
      with h have "h = g" by (simp add: m)
      with True g(1) c' show ?thesis by simp
    next
      case False
      with h have "map_of m k = Some h" by (simp add: m)
      with ok show ?thesis unfolding by_ver_ok_def by blast
    qed
    then show "k = norm_version (g_version h)" and "digits (g_version h)" by blast+
  next
    fix k h assume h: "map_of m' k = Some h" and up: "g_up h \<noteq> []"
    show "\<exists>e\<in>insert e seen. classify_entry plain e = File (g_version h) (g_name h) DUp \<and> g_up h = path_join dir (fst e)"
    proof (cases "k = norm_version v")
      case True
      with h have "h = g" by (simp add: m)
      with up new g(1,2) show ?thesis by simp
    next
      case False
      with h have "map_of m k = Some h" by (simp add: m)
      with ok up show ?thesis unfolding by_ver_ok_def by blast
    qed
  next
    fix e' v' t' d' assume "e' \<in> insert e seen" and "classify_entry plain e' = File v' t' d'"
    then show "\<exists>g. map_of m' (norm_version v') = Some g \<and> g_version g = v' \<and> g_name g = t'
          \<and> (d' = DUp \<longrightarrow> g_up g = path_join dir (fst e')) \<and> (d' = DDown \<longrightarrow> g_down g \<noteq> [])"
      using seen g c by (cases "e' = e") (auto simp: m)
  qed
qed

lemma load_entry_ok:
  assumes "by_ver_ok dir plain seen m" and "load_entry dir plain m e = Inr m'"
  shows "by_ver_ok dir plain (insert e seen) m'"
proof (cases "classify_entry plain e")
  case Skip
  then have "m' = m" "\<And>v t d. classify_entry plain e \<noteq> File v t d" using assms(2) by (auto simp: load_entry_def)
  with assms(1) show ?thesis unfolding by_ver_ok_def by blast
next
  case Bad
  with assms show ?thesis by (simp add: load_entry_def)
next
  case (File v t d)
  with assms load_file_ok show ?thesis by (auto simp: load_entry_def)
qed

lemma by_ver_ok_Nil: "by_ver_ok dir plain {} []"
  by (simp add: by_ver_ok_def)

text \<open>Versions as numbers, and the strict order of \<open>versionLess\<close>.\<close>

lemma version_less_digits:
  "digits v \<Longrightarrow> digits w \<Longrightarrow> version_less v w = Some (decimal_value v < decimal_value w)"
  by (simp add: version_less_def version_num_digits)

lemma short_list: "length xs < 2 \<Longrightarrow> xs = [] \<or> (\<exists>x. xs = [x])"
  by (cases xs rule: remdups_adj.cases) auto

lemma sort_versions_mset:
  "sort_versions f xs = Some ys \<Longrightarrow> mset ys = mset xs"
  "sort_versions_desc f xs = Some ys \<Longrightarrow> mset ys = mset xs"
  by (auto simp: sort_versions_def sort_versions_desc_def split: if_splits)

lemma sort_versions_total:
  assumes "\<forall>x\<in>set xs. digits (f x)"
  shows "\<exists>ys. sort_versions f xs = Some ys" and "\<exists>ys. sort_versions_desc f xs = Some ys"
  using assms by (auto simp: sort_versions_def sort_versions_desc_def list_all_iff version_num_digits)

lemma map_version_num:
  "\<forall>x\<in>set xs. digits (f x) \<Longrightarrow> map (\<lambda>x. the (version_num (f x))) xs = map (\<lambda>x. int (decimal_value (f x))) xs"
  "\<forall>x\<in>set xs. digits (f x) \<Longrightarrow> map (\<lambda>x. - the (version_num (f x))) xs = map (\<lambda>x. - int (decimal_value (f x))) xs"
  by (auto simp: version_num_digits)

lemma sort_versions_sorted:
  assumes "\<forall>x\<in>set xs. digits (f x)" and "sort_versions f xs = Some ys"
  shows "sorted_wrt (\<lambda>x y. decimal_value (f x) \<le> decimal_value (f y)) ys"
proof (cases "length xs < 2")
  case True
  with assms short_list [OF True] show ?thesis by (auto simp: sort_versions_def)
next
  case False
  with assms(2) have ys: "ys = sort_key (\<lambda>x. the (version_num (f x))) xs"
    by (simp add: sort_versions_def split: if_splits)
  then have "set ys = set xs" by simp
  moreover have "sorted (map (\<lambda>x. the (version_num (f x))) ys)" unfolding ys by (rule sorted_sort_key)
  ultimately have "sorted (map (\<lambda>x. int (decimal_value (f x))) ys)" using assms(1) map_version_num(1) [of ys f] by simp
  then show ?thesis by (simp add: sorted_map)
qed

lemma sort_versions_desc_sorted:
  assumes "\<forall>x\<in>set xs. digits (f x)" and "sort_versions_desc f xs = Some ys"
  shows "sorted_wrt (\<lambda>x y. decimal_value (f y) \<le> decimal_value (f x)) ys"
proof (cases "length xs < 2")
  case True
  with assms short_list [OF True] show ?thesis by (auto simp: sort_versions_desc_def)
next
  case False
  with assms(2) have ys: "ys = sort_key (\<lambda>x. - the (version_num (f x))) xs"
    by (simp add: sort_versions_desc_def split: if_splits)
  then have "set ys = set xs" by simp
  moreover have "sorted (map (\<lambda>x. - the (version_num (f x))) ys)" unfolding ys by (rule sorted_sort_key)
  ultimately have "sorted (map (\<lambda>x. - int (decimal_value (f x))) ys)" using assms(1) map_version_num(2) [of ys f] by simp
  then show ?thesis by (simp add: sorted_map)
qed

text \<open>Sorted without equal versions is strictly sorted.\<close>

lemma strictly_sorted:
  assumes "sorted_wrt R xs" and "distinct (map k xs)"
    and "\<And>x y. x \<in> set xs \<Longrightarrow> y \<in> set xs \<Longrightarrow> R x y \<Longrightarrow> k x \<noteq> k y \<Longrightarrow> S x y"
  shows "sorted_wrt S xs"
  using assms
proof (induction xs)
  case Nil
  then show ?case by simp
next
  case (Cons x xs)
  have "sorted_wrt S xs" by (rule Cons.IH) (use Cons.prems in auto)
  moreover have "S x y" if "y \<in> set xs" for y
    by (rule Cons.prems(3)) (use Cons.prems(1,2) that in auto)
  ultimately show ?case by simp
qed

lemma load_facts:
  assumes "load m = Inr gs"
  obtains entries "by" where "fs_dir (m_fs m) (m_dir m) = Inr entries"
    and "by_ver_ok (m_dir m) (m_plain m) (set entries) by" and "mset gs = mset (map snd by)"
    and "\<forall>g\<in>set gs. g_up g \<noteq> []" and "sort_versions g_version (map snd by) = Some gs"
proof -
  from assms obtain entries "by" where e: "fs_dir (m_fs m) (m_dir m) = Inr entries"
      "res_fold (load_entry (m_dir m) (m_plain m)) [] entries = Inr by"
      "List.find (\<lambda>g. g_up g = []) (map snd by) = None" "sort_versions g_version (map snd by) = Some gs"
    by (auto simp: load_def split: if_splits sum.splits option.splits)
  have "by_ver_ok (m_dir m) (m_plain m) ({} \<union> set entries) by"
    by (rule res_fold_seen [where P = "by_ver_ok (m_dir m) (m_plain m)", OF e(2) by_ver_ok_Nil load_entry_ok])
  moreover have ms: "mset gs = mset (map snd by)" by (rule sort_versions_mset(1) [OF e(4)])
  moreover have "\<forall>g\<in>set gs. g_up g \<noteq> []"
    using e(3) mset_eq_setD [OF ms] by (auto simp: find_None_iff)
  ultimately show thesis using e that by simp
qed

lemma load_versions:
  assumes "load m = Inr gs"
  shows "\<forall>g\<in>set gs. digits (g_version g)" and "distinct (map (norm_version \<circ> g_version) gs)"
    and "sorted_wrt (\<lambda>g h. decimal_value (g_version g) < decimal_value (g_version h)) gs"
proof -
  from assms obtain entries "by" where l: "fs_dir (m_fs m) (m_dir m) = Inr entries"
      "by_ver_ok (m_dir m) (m_plain m) (set entries) by" "mset gs = mset (map snd by)"
      "sort_versions g_version (map snd by) = Some gs" by (rule load_facts)
  have dist: "distinct (map fst by)" using l(2) by (simp add: by_ver_ok_def)
  have in_by: "k = norm_version (g_version g) \<and> digits (g_version g)" if "(k, g) \<in> set by" for k g
    using l(2) map_of_is_SomeI [OF dist that] unfolding by_ver_ok_def by blast
  show dig: "\<forall>g\<in>set gs. digits (g_version g)" using in_by mset_eq_setD [OF l(3)] by auto
  have "map (norm_version \<circ> g_version) (map snd by) = map fst by" using in_by by auto
  with dist have "distinct (map (norm_version \<circ> g_version) (map snd by))" by (simp only:)
  moreover have "mset (map (norm_version \<circ> g_version) gs) = mset (map (norm_version \<circ> g_version) (map snd by))"
    using l(3) by (metis mset_map)
  ultimately show keys: "distinct (map (norm_version \<circ> g_version) gs)" using mset_eq_imp_distinct_iff by blast
  have "\<forall>g\<in>set (map snd by). digits (g_version g)" using in_by by auto
  from sort_versions_sorted [OF this l(4)]
  show "sorted_wrt (\<lambda>g h. decimal_value (g_version g) < decimal_value (g_version h)) gs"
    by (rule strictly_sorted [OF _ keys]) (use dig norm_version_eq_iff in force)
qed

text \<open>
  What \<open>Load\<close> returns is the directory's migrations: one per version, in strictly ascending
  numeric order (leading zeros do not count), each with the path of an up file of the directory that
  carries its version and name; every file with a migration's name is in it, down files with the
  up file of the same version and name.
\<close>

theorem load_spec:
  assumes "load m = Inr gs" and "fs_dir (m_fs m) (m_dir m) = Inr entries"
  shows "sorted_wrt (\<lambda>g h. decimal_value (g_version g) < decimal_value (g_version h)) gs
    \<and> (\<forall>g\<in>set gs. \<exists>e\<in>set entries. classify_entry (m_plain m) e = File (g_version g) (g_name g) DUp
         \<and> g_up g = path_join (m_dir m) (fst e))
    \<and> (\<forall>e\<in>set entries. \<forall>v t d. classify_entry (m_plain m) e = File v t d \<longrightarrow>
         (\<exists>g\<in>set gs. g_version g = v \<and> g_name g = t
            \<and> (if d = DUp then g_up g = path_join (m_dir m) (fst e) else g_down g \<noteq> [])))"
proof -
  from assms obtain "by" where l:
      "by_ver_ok (m_dir m) (m_plain m) (set entries) by" "mset gs = mset (map snd by)"
      "\<forall>g\<in>set gs. g_up g \<noteq> []" by (auto elim!: load_facts)
  have dist: "distinct (map fst by)" using l(1) by (simp add: by_ver_ok_def)
  have gs: "g \<in> set gs \<longleftrightarrow> (\<exists>k. map_of by k = Some g)" for g
    using mset_eq_setD [OF l(2)] dist by (force simp: map_of_eq_Some_iff)
  show ?thesis
  proof (intro conjI ballI allI impI)
    show "sorted_wrt (\<lambda>g h. decimal_value (g_version g) < decimal_value (g_version h)) gs"
      by (rule load_versions(3) [OF assms(1)])
  next
    fix g assume "g \<in> set gs"
    with l(3) gs obtain k where "map_of by k = Some g" "g_up g \<noteq> []" by blast
    with l(1) show "\<exists>e\<in>set entries. classify_entry (m_plain m) e = File (g_version g) (g_name g) DUp
         \<and> g_up g = path_join (m_dir m) (fst e)" unfolding by_ver_ok_def by blast
  next
    fix e v t d assume "e \<in> set entries" and "classify_entry (m_plain m) e = File v t d"
    with l(1) obtain g where "map_of by (norm_version v) = Some g" "g_version g = v" "g_name g = t"
        "d = DUp \<longrightarrow> g_up g = path_join (m_dir m) (fst e)" "d = DDown \<longrightarrow> g_down g \<noteq> []"
      unfolding by_ver_ok_def by blast
    then show "\<exists>g\<in>set gs. g_version g = v \<and> g_name g = t
            \<and> (if d = DUp then g_up g = path_join (m_dir m) (fst e) else g_down g \<noteq> [])"
      using gs by (cases d) auto
  qed
qed

text \<open>A directory for the witnesses.\<close>

definition demo_file :: "string \<Rightarrow> gerr + string" where
  "demo_file p = (if has_suffix ''1_users.up.sql'' p then Inr ''create users''
     else if has_suffix ''2_roles.up.sql'' p then Inr ''create roles''
     else if has_suffix ''2_roles.down.sql'' p then Inr ''drop roles''
     else Inl (err_new ''no such file''))"

definition demo_fs :: go_fs where
  "demo_fs = \<lparr>fs_dir = (\<lambda>_. Inr [(''02_roles.down.sql'', False), (''02_roles.up.sql'', False),
     (''1_users.up.sql'', False), (''old'', True), (''seed.sql'', False)]), fs_file = demo_file\<rparr>"

definition demo_migrator :: "unit migrator" where
  "demo_migrator = new_migrator None demo_fs '''' (\<lambda>_. 0) []"

lemma load_demo:
  "load demo_migrator = Inr [\<lparr>g_version = ''1'', g_name = ''users'', g_up = ''1_users.up.sql'', g_down = ''''\<rparr>,
     \<lparr>g_version = ''02'', g_name = ''roles'', g_up = ''02_roles.up.sql'', g_down = ''02_roles.down.sql''\<rparr>]"
  by code_simp

lemma load_spec_witness:
  "\<exists>gs. load demo_migrator = Inr gs \<and> length gs = 2
    \<and> sorted_wrt (\<lambda>g h. decimal_value (g_version g) < decimal_value (g_version h)) gs"
proof -
  have dir: "fs_dir (m_fs demo_migrator) (m_dir demo_migrator) = Inr [(''02_roles.down.sql'', False),
     (''02_roles.up.sql'', False), (''1_users.up.sql'', False), (''old'', True), (''seed.sql'', False)]"
    by code_simp
  from load_spec [OF load_demo dir] load_demo show ?thesis by auto
qed

section \<open>The lock\<close>

lemma length_hex64: "length (hex64 h) = 16"
  by (simp add: hex64_def)

text \<open>
  The lock's name never exceeds the 64 characters MySQL allows, whatever the table is called;
  tables with short names keep distinct lock names, and the PostgreSQL key is a 64-bit integer.
\<close>

theorem lock_name_fits:
  "length (lock_name m) \<le> 64
   \<and> (length (m_table m) \<le> 49 \<longrightarrow> length (m_table m') \<le> 49 \<longrightarrow> lock_name m = lock_name m' \<longrightarrow> m_table m = m_table m')
   \<and> - (2 ^ 63) \<le> lock_key m \<and> lock_key m < 2 ^ 63"
proof -
  have "length (lock_name m) \<le> 64" by (simp add: lock_name_def Let_def length_hex64)
  moreover have "m_table m = m_table m'"
    if "length (m_table m) \<le> 49" "length (m_table m') \<le> 49" "lock_name m = lock_name m'"
    using that by (simp add: lock_name_def Let_def)
  moreover have "- (2 ^ 63) \<le> lock_key m" "lock_key m < 2 ^ 63"
    using sint_ge [of "fnv1a (lock_name m)"] sint_lt [of "fnv1a (lock_name m)"] by (simp_all add: lock_key_def)
  ultimately show ?thesis by blast
qed

lemma lock_name_fits_witness:
  "length (lock_name demo_migrator) \<le> 64 \<and> (m_table demo_migrator = m_table (with_plain_sql True demo_migrator))"
proof -
  have "length (m_table demo_migrator) \<le> 49" "length (m_table (with_plain_sql True demo_migrator)) \<le> 49"
      "lock_name demo_migrator = lock_name (with_plain_sql True demo_migrator)" by code_simp+
  with lock_name_fits [of demo_migrator "with_plain_sql True demo_migrator"] show ?thesis by blast
qed

section \<open>The database under the migrations\<close>

text \<open>
  What \<open>Up\<close> and \<open>Down\<close> rely on, as documented for the databases they run on. \<open>recs\<close> is the
  content of the tracking table (version and name), \<open>eff\<close> the scripts that have taken effect:
  creating the table when it exists and reading it change nothing, INSERT and DELETE add and remove
  records or fail without effect, and a script does not touch the tracking table. A failed script
  may leave anything else behind, unless its transaction is rolled back.
\<close>

definition tracking :: "'w migrator \<Rightarrow> ('w, sql_row) sqldb \<Rightarrow> string \<Rightarrow> ('w \<Rightarrow> (string \<times> string) list)
    \<Rightarrow> ('w \<Rightarrow> string list) \<Rightarrow> bool" where
  "tracking m db qt recs eff \<longleftrightarrow>
     (\<forall>w e w'. sd_exec db OnDb (table_ddl m qt) [] w = (e, w') \<longrightarrow> recs w' = recs w \<and> eff w' = eff w)
   \<and> (\<forall>w r w'. sd_query db (''SELECT version, name, applied_at FROM '' @ qt) w = (r, w') \<longrightarrow>
        recs w' = recs w \<and> eff w' = eff w \<and> (\<forall>rows. r = Inr rows \<longrightarrow> map (\<lambda>(v, n, _). (v, n)) rows = recs w))
   \<and> (\<forall>ex v n t w e w'. sd_exec db ex (insert_sql (m_dialect m) qt) [AStr v, AStr n, ATime t] w = (e, w') \<longrightarrow>
        recs w' = (if e = None then recs w @ [(v, n)] else recs w) \<and> eff w' = eff w)
   \<and> (\<forall>ex v w e w'. sd_exec db ex (delete_sql (m_dialect m) qt) [AStr v] w = (e, w') \<longrightarrow>
        recs w' = (if e = None then filter (\<lambda>r. fst r \<noteq> v) (recs w) else recs w) \<and> eff w' = eff w)
   \<and> (\<forall>ex p body w e w'. fs_file (m_fs m) p = Inr body \<longrightarrow> sd_exec db ex body [] w = (e, w') \<longrightarrow>
        recs w' = recs w \<and> (e = None \<longrightarrow> eff w' = eff w @ [body]))"

lemma trackingD:
  assumes "tracking m db qt recs eff"
  shows "sd_exec db OnDb (table_ddl m qt) [] w = (e, w') \<Longrightarrow> recs w' = recs w \<and> eff w' = eff w"
    and "sd_query db (''SELECT version, name, applied_at FROM '' @ qt) w = (r, w') \<Longrightarrow>
        recs w' = recs w \<and> eff w' = eff w \<and> (\<forall>rows. r = Inr rows \<longrightarrow> map (\<lambda>(v, n, _). (v, n)) rows = recs w)"
    and "sd_exec db ex (insert_sql (m_dialect m) qt) [AStr v, AStr n, ATime t] w = (e, w') \<Longrightarrow>
        recs w' = (if e = None then recs w @ [(v, n)] else recs w) \<and> eff w' = eff w"
    and "sd_exec db ex (delete_sql (m_dialect m) qt) [AStr v] w = (e, w') \<Longrightarrow>
        recs w' = (if e = None then filter (\<lambda>r. fst r \<noteq> v) (recs w) else recs w) \<and> eff w' = eff w"
    and "fs_file (m_fs m) p = Inr body \<Longrightarrow> sd_exec db ex body [] w = (e, w') \<Longrightarrow>
        recs w' = recs w \<and> (e = None \<longrightarrow> eff w' = eff w @ [body])"
proof -
  note laws = assms [unfolded tracking_def]
  show "sd_exec db OnDb (table_ddl m qt) [] w = (e, w') \<Longrightarrow> recs w' = recs w \<and> eff w' = eff w"
    using laws [THEN conjunct1] by blast
  show "sd_query db (''SELECT version, name, applied_at FROM '' @ qt) w = (r, w') \<Longrightarrow>
        recs w' = recs w \<and> eff w' = eff w \<and> (\<forall>rows. r = Inr rows \<longrightarrow> map (\<lambda>(v, n, _). (v, n)) rows = recs w)"
    using laws [THEN conjunct2, THEN conjunct1] by blast
  show "sd_exec db ex (insert_sql (m_dialect m) qt) [AStr v, AStr n, ATime t] w = (e, w') \<Longrightarrow>
        recs w' = (if e = None then recs w @ [(v, n)] else recs w) \<and> eff w' = eff w"
    using laws [THEN conjunct2, THEN conjunct2, THEN conjunct1] by (elim allE impE)
  show "sd_exec db ex (delete_sql (m_dialect m) qt) [AStr v] w = (e, w') \<Longrightarrow>
        recs w' = (if e = None then filter (\<lambda>r. fst r \<noteq> v) (recs w) else recs w) \<and> eff w' = eff w"
    using laws [THEN conjunct2, THEN conjunct2, THEN conjunct2, THEN conjunct1] by (elim allE impE)
  show "fs_file (m_fs m) p = Inr body \<Longrightarrow> sd_exec db ex body [] w = (e, w') \<Longrightarrow>
        recs w' = recs w \<and> (e = None \<longrightarrow> eff w' = eff w @ [body])"
    using laws [THEN conjunct2, THEN conjunct2, THEN conjunct2, THEN conjunct2] by (elim allE impE)
qed

text \<open>The lock's connection is not the migrations': what it does leaves their database alone.\<close>

definition lock_quiet :: "'w lockdb \<Rightarrow> ('w \<Rightarrow> 'v) \<Rightarrow> bool" where
  "lock_quiet ld view \<longleftrightarrow>
     (\<forall>c q xs w r w'. ld_exec ld c q xs w = (r, w') \<longrightarrow> view w' = view w)
   \<and> (\<forall>c q xs w r w'. ld_query ld c q xs w = (r, w') \<longrightarrow> view w' = view w)
   \<and> (\<forall>t w. view (ld_sleep ld t w) = view w)"

definition lock_apart :: "'w lockdb \<Rightarrow> ('w \<Rightarrow> 'v) \<Rightarrow> bool" where
  "lock_apart ld view \<longleftrightarrow> lock_quiet ld view
   \<and> (\<forall>w r w'. ld_conn ld w = (r, w') \<longrightarrow> view w' = view w)
   \<and> (\<forall>w r w'. ld_close ld w = (r, w') \<longrightarrow> view w' = view w)"

lemma lock_quietD:
  assumes "lock_quiet ld view"
  shows "ld_exec ld c q xs w = (x, w') \<Longrightarrow> view w' = view w"
    and "ld_query ld c q xs w = (y, w') \<Longrightarrow> view w' = view w"
    and "view (ld_sleep ld t w) = view w"
  using assms unfolding lock_quiet_def by blast+

lemma lock_pause_view:
  assumes "lock_quiet ld view" and "lock_pause ld c w = (x, w')"
  shows "view w' = view w"
  using assms(2) lock_quietD(3) [OF assms(1)]
  by (auto simp: lock_pause_def Let_def split: option.splits lock_ctx.splits)

lemma lock_apartD:
  assumes "lock_apart ld view"
  shows "lock_quiet ld view"
    and "ld_conn ld w = (x, w') \<Longrightarrow> view w' = view w"
    and "ld_close ld w = (x, w') \<Longrightarrow> view w' = view w"
  using assms unfolding lock_apart_def by blast+

text \<open>The script a file contributes, and the change of the records it makes.\<close>

definition script :: "'w migrator \<Rightarrow> string \<Rightarrow> string list" where
  "script m file = (case fs_file (m_fs m) file of
       Inl _ \<Rightarrow> [] | Inr body \<Rightarrow> if trim_space (strip_no_tx body) = [] then [] else [body])"

definition transactional :: "'w migrator \<Rightarrow> string \<Rightarrow> bool" where
  "transactional m file \<longleftrightarrow> (\<forall>body. fs_file (m_fs m) file = Inr body \<longrightarrow> \<not> has_no_tx_marker body)"

definition file_of :: "direction \<Rightarrow> migration \<Rightarrow> string" where
  "file_of d g = (if d = DUp then g_up g else g_down g)"

definition recorded :: "direction \<Rightarrow> migration \<Rightarrow> (string \<times> string) list \<Rightarrow> (string \<times> string) list" where
  "recorded d g rs = (if d = DUp then rs @ [(g_version g, g_name g)] else filter (\<lambda>r. fst r \<noteq> g_version g) rs)"

lemma body_then_record_effect:
  assumes tr: "tracking m db qt recs eff" and body: "fs_file (m_fs m) (file_of d g) = Inr body"
    and run: "body_then_record m db qt g d file body ex w = (e, w')"
  shows "if e = None then recs w' = recorded d g (recs w) \<and> eff w' = eff w @ script m (file_of d g)
    else recs w' = recs w"
proof -
  obtain b w1 where b: "run_body db body ex w = (b, w1)" by fastforce
  obtain x w2 where x: "record_run m db qt g d ex w1 = (x, w2)" by fastforce
  have w1: "recs w1 = recs w \<and> (b = None \<longrightarrow> eff w1 = eff w @ script m (file_of d g))"
    using b body trackingD(5) [OF tr body] by (auto simp: run_body_def script_def split: if_splits)
  have w2: "recs w2 = (if x = None then recorded d g (recs w1) else recs w1) \<and> eff w2 = eff w1"
    using x trackingD(3,4) [OF tr] by (cases d) (auto simp: record_run_def recorded_def)
  show ?thesis using run b x w1 w2 by (cases b; cases x) (auto simp: body_then_record_def)
qed

lemma body_then_record_saved:
  assumes "tx_laws db view saved" and "body_then_record m db qt g d file body OnTx w = (e, w')"
  shows "saved w' = saved w"
proof -
  have exec: "saved w'' = saved w" if "sd_exec db OnTx q xs w = (r, w'')" for q xs w r w''
    using tx_lawsD(4) [OF assms(1) that] .
  show ?thesis
    using assms(2) exec
    by (cases d) (fastforce simp: body_then_record_def run_body_def record_run_def split: prod.splits option.splits if_splits)+
qed

lemma run_file_effect:
  assumes tr: "tracking m db qt recs eff" and tx: "tx_laws db (\<lambda>w. (recs w, eff w)) saved"
    and qt: "quoted_table m = Inr qt" and run: "run_file m db d g w = (e, w')"
  shows "if e = None then recs w' = recorded d g (recs w) \<and> eff w' = eff w @ script m (file_of d g)
    else recs w' = recs w \<and> (transactional m (file_of d g) \<longrightarrow> eff w' = eff w)"
proof (cases "fs_file (m_fs m) (file_of d g)")
  case (Inl x)
  with run show ?thesis by (auto simp: run_file_def file_of_def Let_def)
next
  case (Inr body)
  let ?f = "body_then_record m db qt g d (file_of d g) body"
  show ?thesis
  proof (cases "has_no_tx_marker body")
    case True
    with run Inr qt have "?f OnDb w = (e, w')" by (simp add: run_file_def file_of_def)
    from body_then_record_effect [OF tr Inr this] Inr True show ?thesis
      by (auto simp: transactional_def)
  next
    case False
    with run Inr qt have "tx_scope db Db_failed (?f OnTx) w = (e, w')" by (simp add: run_file_def file_of_def)
    from tx_scope_atomic [OF tx this body_then_record_saved [OF tx]]
    show ?thesis using body_then_record_effect [OF tr Inr] by (cases e) fastforce+
  qed
qed

text \<open>
  Weaker laws, for databases that do not undo everything. \<open>opened\<close> is what was there when the open
  transaction began, and \<open>clean\<close> says that nothing in it has committed implicitly, as DDL does on
  MySQL; statements with arguments (the records) and the scripts that are \<open>undoable\<close> keep it so. A
  clean transaction is undone by a rollback, and by a failed commit unless that one took place all
  the same and only its answer was lost; of one that is not clean nothing is known but that each
  record is there or not.
\<close>

definition migration_tx :: "('w, sql_row) sqldb \<Rightarrow> ('w \<Rightarrow> (string \<times> string) list) \<Rightarrow> ('w \<Rightarrow> string list)
    \<Rightarrow> (string \<Rightarrow> bool) \<Rightarrow> ('w \<Rightarrow> (string \<times> string) list \<times> string list) \<Rightarrow> ('w \<Rightarrow> bool) \<Rightarrow> bool" where
  "migration_tx db recs eff undoable opened clean \<longleftrightarrow>
     (\<forall>w e w'. sd_begin db w = (e, w') \<longrightarrow> recs w' = recs w \<and> eff w' = eff w
        \<and> (e = None \<longrightarrow> opened w' = (recs w, eff w) \<and> clean w'))
   \<and> (\<forall>q xs w e w'. sd_exec db OnTx q xs w = (e, w') \<longrightarrow>
        opened w' = opened w \<and> ((xs \<noteq> [] \<or> undoable q) \<and> clean w \<longrightarrow> clean w'))
   \<and> (\<forall>w. let w' = sd_rollback db w in (recs w' = fst (opened w) \<or> recs w' = recs w)
        \<and> (clean w \<longrightarrow> (recs w', eff w') = opened w))
   \<and> (\<forall>w w'. sd_commit db w = (None, w') \<longrightarrow> recs w' = recs w \<and> eff w' = eff w)
   \<and> (\<forall>w e w'. sd_commit db w = (Some e, w') \<longrightarrow> (recs w' = fst (opened w) \<or> recs w' = recs w)
        \<and> (clean w \<longrightarrow> (recs w', eff w') = opened w \<or> (recs w', eff w') = (recs w, eff w)))"

lemma migration_txD:
  assumes "migration_tx db recs eff undoable opened clean"
  shows "sd_begin db w = (x, w') \<Longrightarrow> recs w' = recs w \<and> eff w' = eff w"
    and "sd_begin db w = (None, w') \<Longrightarrow> opened w' = (recs w, eff w) \<and> clean w'"
    and "sd_exec db OnTx q xs w = (x, w') \<Longrightarrow> opened w' = opened w"
    and "sd_exec db OnTx q xs w = (x, w') \<Longrightarrow> xs \<noteq> [] \<or> undoable q \<Longrightarrow> clean w \<Longrightarrow> clean w'"
    and "recs (sd_rollback db w) = fst (opened w) \<or> recs (sd_rollback db w) = recs w"
    and "clean w \<Longrightarrow> (recs (sd_rollback db w), eff (sd_rollback db w)) = opened w"
    and "sd_commit db w = (None, w') \<Longrightarrow> recs w' = recs w \<and> eff w' = eff w"
    and "sd_commit db w = (Some e, w') \<Longrightarrow> recs w' = fst (opened w) \<or> recs w' = recs w"
    and "sd_commit db w = (Some e, w') \<Longrightarrow> clean w \<Longrightarrow>
      (recs w', eff w') = opened w \<or> (recs w', eff w') = (recs w, eff w)"
proof -
  note laws = assms [unfolded migration_tx_def Let_def]
  note l1 = laws [THEN conjunct1] and l2 = laws [THEN conjunct2, THEN conjunct1]
    and l3 = laws [THEN conjunct2, THEN conjunct2, THEN conjunct1]
    and l4 = laws [THEN conjunct2, THEN conjunct2, THEN conjunct2, THEN conjunct1]
    and l5 = laws [THEN conjunct2, THEN conjunct2, THEN conjunct2, THEN conjunct2]
  show "sd_begin db w = (x, w') \<Longrightarrow> recs w' = recs w \<and> eff w' = eff w"
    and "sd_begin db w = (None, w') \<Longrightarrow> opened w' = (recs w, eff w) \<and> clean w'" using l1 by blast+
  show "sd_exec db OnTx q xs w = (x, w') \<Longrightarrow> opened w' = opened w"
    and "sd_exec db OnTx q xs w = (x, w') \<Longrightarrow> xs \<noteq> [] \<or> undoable q \<Longrightarrow> clean w \<Longrightarrow> clean w'" using l2 by blast+
  show "recs (sd_rollback db w) = fst (opened w) \<or> recs (sd_rollback db w) = recs w"
    and "clean w \<Longrightarrow> (recs (sd_rollback db w), eff (sd_rollback db w)) = opened w" using l3 by blast+
  show "sd_commit db w = (None, w') \<Longrightarrow> recs w' = recs w \<and> eff w' = eff w" using l4 by blast
  show "sd_commit db w = (Some e, w') \<Longrightarrow> recs w' = fst (opened w) \<or> recs w' = recs w"
    and "sd_commit db w = (Some e, w') \<Longrightarrow> clean w \<Longrightarrow>
      (recs w', eff w') = opened w \<or> (recs w', eff w') = (recs w, eff w)" using l5 by blast+
qed

text \<open>A file whose script is undone as a whole when its transaction is.\<close>

definition undone_whole :: "'w migrator \<Rightarrow> (string \<Rightarrow> bool) \<Rightarrow> string \<Rightarrow> bool" where
  "undone_whole m undoable file \<longleftrightarrow>
     (\<forall>body. fs_file (m_fs m) file = Inr body \<longrightarrow> \<not> has_no_tx_marker body \<and> undoable body)"

text \<open>The run failed in a commit that took place all the same: one more migration than reported.\<close>

definition commit_lost :: "migration list \<Rightarrow> migration list \<Rightarrow> mig_error option \<Rightarrow> bool" where
  "commit_lost out kept e \<longleftrightarrow> (\<exists>g x. kept = out @ [g] \<and> e = Some (Db_failed x))"

lemma body_then_record_opened:
  assumes tx: "migration_tx db recs eff undoable opened clean"
    and run: "body_then_record m db qt g d file body OnTx w = (e, w')"
  shows "opened w' = opened w" and "undoable body \<Longrightarrow> clean w \<Longrightarrow> clean w'"
proof -
  note d = migration_txD [OF tx]
  obtain b w1 where b: "run_body db body OnTx w = (b, w1)" by fastforce
  obtain x w2 where x: "record_run m db qt g d OnTx w1 = (x, w2)" by fastforce
  have "opened w1 = opened w" "undoable body \<Longrightarrow> clean w \<Longrightarrow> clean w1"
    using b d(3,4) [of body "[]" w b w1] by (auto simp: run_body_def split: if_splits)
  moreover have "opened w2 = opened w1" "clean w1 \<Longrightarrow> clean w2"
    using x d(3,4) by (cases d; fastforce simp: record_run_def)+
  moreover have "w' = w1 \<or> w' = w2"
    using run b x by (auto simp: body_then_record_def split: option.splits)
  ultimately show "opened w' = opened w" and "undoable body \<Longrightarrow> clean w \<Longrightarrow> clean w'" by auto
qed

text \<open>A file's run: applied and recorded, or nothing, or a commit whose answer was lost.\<close>

lemma migration_file_effect:
  assumes tr: "tracking m db qt recs eff" and tx: "migration_tx db recs eff undoable opened clean"
    and qt: "quoted_table m = Inr qt" and run: "run_file m db d g w = (e, w')"
  shows "if e = None then recs w' = recorded d g (recs w) \<and> eff w' = eff w @ script m (file_of d g)
    else recs w' = recs w \<and> (undone_whole m undoable (file_of d g) \<longrightarrow> eff w' = eff w)
      \<or> (\<exists>x. e = Some (Db_failed x)) \<and> recs w' = recorded d g (recs w)
        \<and> (undone_whole m undoable (file_of d g) \<longrightarrow> eff w' = eff w @ script m (file_of d g))"
proof (cases "fs_file (m_fs m) (file_of d g)")
  case (Inl x)
  with run show ?thesis by (auto simp: run_file_def file_of_def Let_def)
next
  case (Inr body)
  let ?f = "body_then_record m db qt g d (file_of d g) body"
  note D = migration_txD [OF tx]
  note effect = body_then_record_effect [OF tr Inr]
  show ?thesis
  proof (cases "has_no_tx_marker body")
    case True
    with run Inr qt have "?f OnDb w = (e, w')" by (simp add: run_file_def file_of_def)
    from effect [OF this] Inr True show ?thesis by (auto simp: undone_whole_def)
  next
    case False
    with run Inr qt have scope: "tx_scope db Db_failed (?f OnTx) w = (e, w')"
      by (simp add: run_file_def file_of_def)
    have undo: "undone_whole m undoable (file_of d g) \<longleftrightarrow> undoable body"
      using Inr False by (simp add: undone_whole_def)
    obtain b w1 where b: "sd_begin db w = (b, w1)" by fastforce
    note w1 = D(1) [OF b]
    show ?thesis
    proof (cases b)
      case (Some x)
      with scope b w1 show ?thesis by (auto simp: tx_scope_def)
    next
      case None
      obtain x w2 where x: "?f OnTx w1 = (x, w2)" by fastforce
      note opened = body_then_record_opened [OF tx x]
      note w2 = effect [OF x]
      have op: "opened w2 = (recs w, eff w)" and cl: "undoable body \<Longrightarrow> clean w2"
        using opened D(2) b None by auto
      show ?thesis
      proof (cases x)
        case (Some y)
        with scope b None x have "e = Some y" "w' = sd_rollback db w2" by (simp_all add: tx_scope_def)
        with Some w1 w2 op cl D(5,6) [of w2] undo show ?thesis by auto
      next
        case ok: None
        obtain c w3 where c: "sd_commit db w2 = (c, w3)" by fastforce
        show ?thesis
        proof (cases c)
          case c1: None
          with scope b None x ok c have "e = None" "w' = w3" by (simp_all add: tx_scope_def)
          with D(7) c c1 ok w1 w2 show ?thesis by simp
        next
          case (Some y)
          with scope b None x ok c have ew: "e = Some (Db_failed y)" "w' = w3" by (simp_all add: tx_scope_def)
          have w2': "recs w2 = recorded d g (recs w)" "eff w2 = eff w @ script m (file_of d g)"
            using w2 ok w1 by simp_all
          have c2: "sd_commit db w2 = (Some y, w3)" using c Some by simp
          show ?thesis
            using D(8) [OF c2] D(9) [OF c2] op cl undo w2' ew by auto
        qed
      qed
    qed
  qed
qed

section \<open>Around the work: the lock and the records\<close>

lemma pg_try_lock_view:
  assumes "lock_quiet ld view" and "pg_try_lock ld c key w = Some y"
  shows "view (snd y) = view w"
proof (rule pg_try_lock.raw_induct
    [of "\<lambda>ld c key w y. lock_quiet ld view \<longrightarrow> view (snd y) = view w", OF _ assms(2), THEN mp, OF _ assms(1)],
    intro impI)
  fix pg ld c key w y
  assume IH: "\<And>ld c key w y. pg ld c key w = Some y \<Longrightarrow> lock_quiet ld view \<longrightarrow> view (snd y) = view w"
    and step: "(case ld_query ld c ''SELECT pg_try_advisory_lock($1)'' [AInt key] w of
       (Inl e, w1) \<Rightarrow> Some (Some (Lock_failed ''pg_try_advisory_lock'' e), w1)
     | (Inr None, w1) \<Rightarrow> Some (Some (Lock_failed ''pg_try_advisory_lock'' scan_null), w1)
     | (Inr (Some got), w1) \<Rightarrow>
         if got = 1 then Some (None, w1)
         else (case lock_pause ld c w1 of
             (None, w2) \<Rightarrow> pg ld c key w2
           | (Some e, w2) \<Rightarrow> Some (Some (Ctx_done e), w2))) = Some y"
    and apart: "lock_quiet ld view"
  note d = lock_quietD [OF apart]
  obtain r w1 where r: "ld_query ld c ''SELECT pg_try_advisory_lock($1)'' [AInt key] w = (r, w1)" by fastforce
  obtain x w2 where x: "lock_pause ld c w1 = (x, w2)" by fastforce
  have w1: "view w1 = view w" by (rule d(2) [OF r])
  have w2: "view w2 = view w1" by (rule lock_pause_view [OF apart x])
  show "view (snd y) = view w"
    using step r x w1 w2 IH [of ld c key w2 y] apart by (auto split: sum.splits option.splits if_splits)
qed

lemma applied_of_snoc: "applied_of parse (rows @ [(v, n, t)]) = AList.update (norm_version v)
     \<lparr>r_version = v, r_name = n, r_at = to_time parse t\<rparr> (applied_of parse rows)"
  by (simp add: applied_of_def)

lemma applied_of_facts:
  "distinct (map fst (applied_of parse rows))
   \<and> fst ` set (applied_of parse rows) = norm_version ` fst ` set rows
   \<and> (\<forall>k r. map_of (applied_of parse rows) k = Some r \<longrightarrow> norm_version (r_version r) = k \<and> r_version r \<in> fst ` set rows)"
proof (induction rows rule: rev_induct)
  case Nil
  then show ?case by (simp add: applied_of_def)
next
  case (snoc row rows)
  obtain v n t where row: "row = (v, n, t)" by (rule prod_cases3)
  show ?case using snoc
    by (auto simp: row applied_of_snoc distinct_update dom_update update_conv' split: if_splits)
qed

lemma lock_on_view:
  assumes "lock_quiet ld view" and "lock_on m ld c w = Some y"
  shows "view (snd y) = view w"
proof -
  note d = lock_quietD [OF assms(1)]
  show ?thesis
    using assms(2)
    by (cases "m_dialect m")
       (auto simp: lock_on_def Let_def split: if_splits prod.splits option.splits sum.splits
          dest: d(1,2) pg_try_lock_view [OF assms(1)])
qed

lemma acquire_lock_view:
  assumes "lock_apart ld view" and "acquire_lock m ld w = Some (r, w')"
  shows "view w' = view w" and "r = Inr held \<Longrightarrow> held = None \<or> held = Some ld"
proof -
  note d = lock_apartD [OF assms(1)]
  obtain c w1 where c: "ld_conn ld w = (c, w1)" by fastforce
  have w1: "view w1 = view w" by (rule d(2) [OF c])
  have close: "view w'' = view v" if "ld_close ld v = (x, w'')" for v x w'' using d(3) that .
  show "view w' = view w"
    using assms(2) c w1 lock_on_view [OF d(1), of m "wait_ctx m ld w1" w1] close
    by (fastforce simp: acquire_lock_def Let_def split: if_splits prod.splits option.splits)
  show "r = Inr held \<Longrightarrow> held = None \<or> held = Some ld"
    using assms(2) by (auto simp: acquire_lock_def Let_def split: if_splits prod.splits option.splits)
qed

lemma release_lock_view:
  assumes "lock_apart ld view" and "release_lock m held w = (r, w')" and "held = None \<or> held = Some ld"
  shows "view w' = view w"
proof (cases held)
  case None
  with assms(2) show ?thesis by (simp add: release_lock_def)
next
  case (Some x)
  with assms(3) have held: "held = Some ld" by simp
  obtain u w1 where u: "unlock_on m ld w = (u, w1)" by fastforce
  obtain c w2 where c: "ld_close ld w1 = (c, w2)" by fastforce
  have "view w1 = view w"
    using u lock_quietD(1) [OF lock_apartD(1) [OF assms(1)]]
    by (cases "m_dialect m") (fastforce simp: unlock_on_def Let_def split: prod.splits)+
  moreover have "view w2 = view w1" by (rule lock_apartD(3) [OF assms(1) c])
  moreover have "w' = w2" using assms(2) held u c by (simp add: release_lock_def split: if_splits)
  ultimately show ?thesis by simp
qed

text \<open>What happens around the work: nothing happened, or the work ran on the records as they were.\<close>

lemma locked_run_facts:
  assumes db: "m_db m = Some (db, ld)" and qt: "quoted_table m = Inr qt"
    and tr: "tracking m db qt recs eff" and apart: "lock_apart ld (\<lambda>w. (recs w, eff w))"
    and run: "locked_run parse m wrap work w = Some ((out, e), w')"
  obtains (stopped) "out = []" and "e \<noteq> None" and "recs w' = recs w" and "eff w' = eff w"
  | (worked) gs don v v' x where "load m = Inr gs" and "work db gs don v = ((out, x), v')"
      and "recs v = recs w" and "eff v = eff w" and "recs w' = recs v'" and "eff w' = eff v'"
      and "distinct (map fst don)" and "fst ` set don = norm_version ` fst ` set (recs w)"
      and "\<And>k r. map_of don k = Some r \<Longrightarrow> norm_version (r_version r) = k \<and> r_version r \<in> fst ` set (recs w)"
      and "e = None \<Longrightarrow> x = None" and "x \<noteq> None \<Longrightarrow> e = x"
proof (cases "load m")
  case (Inl x)
  with run stopped show thesis by (auto simp: locked_run_def)
next
  case (Inr gs)
  show thesis
  proof (cases "acquire_lock m ld w")
    case None
    with run Inr db show thesis by (simp add: locked_run_def)
  next
    case (Some res)
    obtain a w1 where a: "res = (a, w1)" by fastforce
    have acq: "acquire_lock m ld w = Some (a, w1)" using Some a by simp
    have w1: "recs w1 = recs w" "eff w1 = eff w" using acquire_lock_view(1) [OF apart acq] by simp_all
    show thesis
    proof (cases a)
      case (Inl x)
      with run \<open>load m = Inr gs\<close> db acq w1 stopped show thesis by (auto simp: locked_run_def)
    next
      case held: (Inr held)
      have held': "held = None \<or> held = Some ld" by (rule acquire_lock_view(2) [OF apart acq held])
      obtain t w2 where t: "ensure_table m w1 = (t, w2)" by fastforce
      have w2: "recs w2 = recs w" "eff w2 = eff w"
        using t db qt trackingD(1) [OF tr] w1 by (auto simp: ensure_table_def split: prod.splits)
      define mid where "mid = (case t of Some e \<Rightarrow> (([], Some (wrap e)), w2)
         | None \<Rightarrow> (case applied parse m db w2 of
              (Inl e, w3) \<Rightarrow> (([], Some e), w3) | (Inr don, w3) \<Rightarrow> work db gs don w3))"
      obtain o2 x w3 where mid: "mid = ((o2, x), w3)" by (metis prod_cases3 surj_pair)
      obtain y w4 where y: "release_lock m held w3 = (y, w4)" by fastforce
      have w4: "recs w4 = recs w3" "eff w4 = eff w3" using release_lock_view [OF apart y held'] by simp_all
      have res: "out = o2" "e = (if x = None then y else x)" "w' = w4"
        using run \<open>load m = Inr gs\<close> db acq held t mid y
        by (auto simp: locked_run_def mid_def [symmetric] split: option.splits)
      show thesis
      proof (cases t)
        case (Some e1)
        with mid have "o2 = []" "x = Some (wrap e1)" "w3 = w2" by (auto simp: mid_def)
        with res w4 w2 stopped show thesis by simp
      next
        case None
        obtain q w5 where q: "sd_query db (''SELECT version, name, applied_at FROM '' @ qt) w2 = (q, w5)" by fastforce
        note w5 = trackingD(2) [OF tr q]
        show thesis
        proof (cases q)
          case (Inl e1)
          with mid None q qt have "o2 = []" "x = Some (Db_failed e1)" "w3 = w5"
            by (auto simp: mid_def applied_def)
          with res w4 w5 w2 stopped show thesis by simp
        next
          case rows: (Inr rows)
          with mid None q qt have work: "work db gs (applied_of parse rows) w5 = ((o2, x), w3)"
            by (simp add: mid_def applied_def)
          have "map (\<lambda>(v, n, _). (v, n)) rows = recs w" using w5 rows w2 by simp
          then have "fst ` set (recs w) = fst ` set (map (\<lambda>(v, n, _). (v, n)) rows)" by (simp only:)
          then have "fst ` set (recs w) = fst ` set rows" by (simp add: image_image case_prod_beta)
          note keys = applied_of_facts [of parse rows, folded this]
          show thesis
          proof (rule worked [OF \<open>load m = Inr gs\<close>])
            show "work db gs (applied_of parse rows) w5 = ((out, x), w3)" using work res by simp
            show "recs w5 = recs w" "eff w5 = eff w" using w5 w2 by simp_all
            show "recs w' = recs w3" "eff w' = eff w3" using res w4 by simp_all
            show "distinct (map fst (applied_of parse rows))" using keys by blast
            show "fst ` set (applied_of parse rows) = norm_version ` fst ` set (recs w)" using keys by blast
            show "norm_version (r_version r) = k \<and> r_version r \<in> fst ` set (recs w)"
              if "map_of (applied_of parse rows) k = Some r" for k r using keys that by blast
            show "x = None" if "e = None" using res that by (simp split: if_splits)
            show "e = x" if "x \<noteq> None" using res that by simp
          qed
        qed
      qed
    qed
  qed
qed

section \<open>Up\<close>

definition pending_of :: "migration list \<Rightarrow> (string \<times> string) list \<Rightarrow> migration list" where
  "pending_of gs rs = filter (\<lambda>g. norm_version (g_version g) \<notin> norm_version ` fst ` set rs) gs"

definition record_of :: "migration \<Rightarrow> string \<times> string" where
  "record_of g = (g_version g, g_name g)"

lemma up_loop_effect:
  assumes tr: "tracking m db qt recs eff" and tx: "migration_tx db recs eff undoable opened clean"
    and qt: "quoted_table m = Inr qt"
    and keys: "\<And>g :: migration. map_of don (norm_version (g_version g)) \<noteq> None \<longleftrightarrow> norm_version (g_version g) \<in> norm_version ` fst ` set (recs w)"
    and run: "up_loop m db don gs [] w = ((out, e), w')"
  shows "\<exists>kept rest. pending_of gs (recs w) = kept @ rest \<and> (e = None \<longrightarrow> rest = [])
    \<and> (kept = out \<or> commit_lost out kept e) \<and> recs w' = recs w @ map record_of kept
    \<and> ((\<forall>g\<in>set (pending_of gs (recs w)). undone_whole m undoable (g_up g)) \<longrightarrow>
         eff w' = eff w @ concat (map (script m \<circ> g_up) kept))"
proof -
  let ?tx = "\<forall>g\<in>set (pending_of gs (recs w)). undone_whole m undoable (g_up g)"
  let ?I = "\<lambda>ds v. recs v = recs w @ map record_of ds
      \<and> (?tx \<longrightarrow> eff v = eff w @ concat (map (script m \<circ> g_up) ds))"
  have pend: "upl.pending don gs = pending_of gs (recs w)"
    unfolding upl.pending_def pending_of_def by (rule filter_cong [OF refl]) (simp only: keys)
  note eff1 = migration_file_effect [OF tr tx qt, where d = DUp, simplified file_of_def, simplified]
  have ok: "?I (ys @ [y]) v'" if "?I ys v" "run_file m db DUp y v = (None, v')" for ys y v v'
    using eff1 [OF that(2)] that(1) by (auto simp: recorded_def record_of_def)
  have "\<exists>ds rest. upl.pending don gs = ds @ rest \<and> out = map (\<lambda>g. g) ds \<and> (e = None \<longrightarrow> rest = [] \<and> ?I ds w')
    \<and> (\<forall>x. e = Some x \<longrightarrow> (\<exists>y ys v. rest = y # ys \<and> ?I ds v \<and> run_file m db DUp y v = (Some x, w')))"
    by (rule upl.loop_split_fail [where I = ?I, OF run]) (simp, rule ok)
  then obtain ds rest where A: "upl.pending don gs = ds @ rest \<and> out = map (\<lambda>g. g) ds \<and> (e = None \<longrightarrow> rest = [] \<and> ?I ds w')
    \<and> (\<forall>x. e = Some x \<longrightarrow> (\<exists>y ys v. rest = y # ys \<and> ?I ds v \<and> run_file m db DUp y v = (Some x, w')))"
    by (elim exE)
  have ds: "pending_of gs (recs w) = ds @ rest" "out = ds"
    using A [THEN conjunct1] A [THEN conjunct2, THEN conjunct1] unfolding pend by simp_all
  note good = A [THEN conjunct2, THEN conjunct2, THEN conjunct1]
    and failed = A [THEN conjunct2, THEN conjunct2, THEN conjunct2, rule_format]
  show ?thesis
  proof (cases e)
    case None
    with ds good show ?thesis by - (rule exI [of _ ds], rule exI [of _ "[]"], simp)
  next
    case (Some x)
    from failed [OF Some] obtain y ys v where Y: "rest = y # ys \<and> ?I ds v \<and> run_file m db DUp y v = (Some x, w')"
      by (elim exE)
    note y = Y [THEN conjunct1] Y [THEN conjunct2, THEN conjunct1] Y [THEN conjunct2, THEN conjunct2]
    have mem: "?tx \<longrightarrow> undone_whole m undoable (g_up y)" using ds(1) y(1) by simp
    from eff1 [OF y(3)] consider "recs w' = recs v" "undone_whole m undoable (g_up y) \<longrightarrow> eff w' = eff v"
      | "\<exists>x'. x = Db_failed x'" "recs w' = recs v @ [record_of y]"
        "undone_whole m undoable (g_up y) \<longrightarrow> eff w' = eff v @ script m (g_up y)"
      by (auto simp: recorded_def record_of_def)
    then show ?thesis
    proof cases
      case 1
      with y(2) mem Some ds show ?thesis by - (rule exI [of _ ds], rule exI [of _ rest], simp)
    next
      case 2
      with y(1,2) mem Some ds show ?thesis
        by - (rule exI [of _ "ds @ [y]"], rule exI [of _ ys], auto simp: commit_lost_def)
    qed
  qed
qed

lemma up_effect:
  assumes "m_db m = Some (db, ld)" and "quoted_table m = Inr qt"
    and tr: "tracking m db qt recs eff" and tx: "migration_tx db recs eff undoable opened clean"
    and "lock_apart ld (\<lambda>w. (recs w, eff w))"
    and run: "up parse m w = Some ((out, e), w')" and gs: "load m = Inr gs"
  shows "\<exists>kept rest. pending_of gs (recs w) = kept @ rest \<and> (e = None \<longrightarrow> rest = [])
    \<and> (kept = out \<or> commit_lost out kept e) \<and> recs w' = recs w @ map record_of kept
    \<and> ((\<forall>g\<in>set (pending_of gs (recs w)). undone_whole m undoable (g_up g)) \<longrightarrow>
         eff w' = eff w @ concat (map (script m \<circ> g_up) kept))"
proof (rule locked_run_facts [OF assms(1,2) tr assms(5) run [unfolded up_def]])
  assume "out = []" "e \<noteq> None" "recs w' = recs w" "eff w' = eff w"
  then show ?thesis by - (rule exI [of _ "[]"], rule exI [of _ "pending_of gs (recs w)"], auto)
next
  fix hs don v v' x
  assume w: "load m = Inr hs" "up_loop m db don hs [] v = ((out, x), v')" "recs v = recs w" "eff v = eff w"
      "recs w' = recs v'" "eff w' = eff v'" "fst ` set don = norm_version ` fst ` set (recs w)"
      "e = None \<Longrightarrow> x = None" "x \<noteq> None \<Longrightarrow> e = x"
  have keys: "map_of don (norm_version (g_version g)) \<noteq> None
      \<longleftrightarrow> norm_version (g_version g) \<in> norm_version ` fst ` set (recs v)" for g :: migration
    using w(3,7) by (simp add: map_of_eq_None_iff)
  have hs: "hs = gs" using w(1) gs by simp
  from up_loop_effect [OF tr tx assms(2) keys w(2), unfolded w(3,4) hs] obtain kept rest where
    k: "pending_of gs (recs w) = kept @ rest" "x = None \<longrightarrow> rest = []" "kept = out \<or> commit_lost out kept x"
      "recs v' = recs w @ map record_of kept"
      "(\<forall>g\<in>set (pending_of gs (recs w)). undone_whole m undoable (g_up g)) \<longrightarrow>
         eff v' = eff w @ concat (map (script m \<circ> g_up) kept)" by blast
  have "kept = out \<or> commit_lost out kept e" using k(3) w(9) by (auto simp: commit_lost_def)
  with k w(5,6,8) show ?thesis by - (rule exI [of _ kept], rule exI [of _ rest], simp)
qed

text \<open>
  (C15) \<open>Up\<close> applies exactly the pending migrations, in the order of \<open>Load\<close>. When it returns, the
  tracking table has gained, in order, exactly the records of the first pending migrations, all of
  them when it reports no error. These are the ones it reports, and one more only where the
  \<open>Commit\<close> of that one reported an error although it took place, as a broken connection may make it.
  Where every pending file runs in a transaction and the database undoes its script with the
  transaction, exactly the scripts of the recorded migrations have taken effect: a file that failed
  has left nothing behind. Files marked as no-transaction and, on MySQL, files with DDL, which
  commits implicitly, are not covered by this last part; what is said of the records holds for them
  too.
\<close>

theorem up_applies_pending:
  assumes "m_db m = Some (db, ld)" and "quoted_table m = Inr qt"
    and "tracking m db qt recs eff" and "migration_tx db recs eff undoable opened clean"
    and "lock_apart ld (\<lambda>w. (recs w, eff w))"
    and "load m = Inr gs" and "up parse m w = Some ((out, e), w')"
  shows "\<exists>kept rest. pending_of gs (recs w) = kept @ rest \<and> (e = None \<longrightarrow> rest = [])
    \<and> (kept = out \<or> commit_lost out kept e) \<and> recs w' = recs w @ map record_of kept
    \<and> ((\<forall>g\<in>set (pending_of gs (recs w)). undone_whole m undoable (g_up g)) \<longrightarrow>
         eff w' = eff w @ concat (map (script m \<circ> g_up) kept))"
  by (rule up_effect) (fact assms)+

lemma pending_after:
  "pending_of gs (rs @ map record_of (pending_of gs rs)) = []"
proof -
  have "norm_version (g_version g) \<in> norm_version ` fst ` set (rs @ map record_of (pending_of gs rs))"
    if "g \<in> set gs" for g
  proof (cases "g \<in> set (pending_of gs rs)")
    case True
    then have "record_of g \<in> set (rs @ map record_of (pending_of gs rs))" by simp
    then have "fst (record_of g) \<in> fst ` set (rs @ map record_of (pending_of gs rs))" by (rule imageI)
    then show ?thesis by (simp only: record_of_def fst_conv imageI)
  next
    case False
    with that show ?thesis by (auto simp: pending_of_def)
  qed
  then show ?thesis unfolding pending_of_def filter_empty_conv by blast
qed

text \<open>
  \<open>Up\<close> is idempotent: run again on the files as they were, after a run without error, it applies
  nothing and leaves the tracking table and the database as they are.
\<close>

theorem up_idempotent:
  assumes "m_db m = Some (db, ld)" and "quoted_table m = Inr qt"
    and "tracking m db qt recs eff" and "migration_tx db recs eff undoable opened clean"
    and "lock_apart ld (\<lambda>w. (recs w, eff w))"
    and first: "up parse m w = Some ((out, None), w')" and second: "up parse m w' = Some ((out', e), w'')"
  shows "out' = [] \<and> recs w'' = recs w' \<and> eff w'' = eff w'"
proof -
  obtain gs where gs: "load m = Inr gs"
    using first by (auto simp: up_def locked_run_def split: sum.splits)
  from up_effect [OF assms(1-5) first gs]
  have w': "recs w' = recs w @ map record_of (pending_of gs (recs w))" by auto
  have none: "pending_of gs (recs w') = []" using pending_after [of gs "recs w"] by (simp add: w')
  from up_effect [OF assms(1-5) second gs] obtain kept where
    "kept = []" "kept = out' \<or> commit_lost out' kept e" "recs w'' = recs w' @ map record_of kept"
      "eff w'' = eff w' @ concat (map (script m \<circ> g_up) kept)"
    using none by auto
  then show ?thesis by (auto simp: commit_lost_def)
qed

section \<open>A database for the witnesses\<close>

record demo_world =
  dw_recs :: "(string \<times> string) list"
  dw_eff :: "string list"
  dw_saved :: "(string \<times> string) list \<times> string list"
  dw_conns :: int
  dw_clock :: int

text \<open>The script \<open>create roles\<close> fails unless \<open>create users\<close> has run.\<close>

definition demo_exec :: "execer \<Rightarrow> string \<Rightarrow> sql_arg list \<Rightarrow> demo_world \<Rightarrow> gerr option \<times> demo_world" where
  "demo_exec ex q xs w = (case xs of
       [AStr v, AStr n, ATime _] \<Rightarrow> (None, w\<lparr>dw_recs := dw_recs w @ [(v, n)]\<rparr>)
     | [AStr v] \<Rightarrow> (None, w\<lparr>dw_recs := filter (\<lambda>r. fst r \<noteq> v) (dw_recs w)\<rparr>)
     | [] \<Rightarrow>
         if take 6 q = ''CREATE'' then (None, w)
         else if q = ''create roles'' \<and> ''create users'' \<notin> set (dw_eff w) then (Some (err_new ''no users''), w)
         else (None, w\<lparr>dw_eff := dw_eff w @ [q]\<rparr>)
     | _ \<Rightarrow> (Some (err_new ''bad arguments''), w))"

definition demo_sqldb :: "(demo_world, sql_row) sqldb" where
  "demo_sqldb = \<lparr>sd_driver = Some (''github.com/jackc/pgx/v5/stdlib'', ''Driver''), sd_exec = demo_exec,
     sd_query = (\<lambda>_ w. (Inr (map (\<lambda>(v, n). (v, n, TOther)) (dw_recs w)), w)),
     sd_begin = (\<lambda>w. (None, w\<lparr>dw_saved := (dw_recs w, dw_eff w)\<rparr>)),
     sd_commit = (\<lambda>w. (None, w)),
     sd_rollback = (\<lambda>w. w\<lparr>dw_recs := fst (dw_saved w), dw_eff := snd (dw_saved w)\<rparr>)\<rparr>"

definition demo_lockdb :: "demo_world lockdb" where
  "demo_lockdb = \<lparr>ld_conn = (\<lambda>w. (None, w\<lparr>dw_conns := dw_conns w + 1\<rparr>)),
     ld_close = (\<lambda>w. (None, w\<lparr>dw_conns := dw_conns w - 1\<rparr>)), ld_exec = (\<lambda>_ _ _ w. (None, w)),
     ld_query = (\<lambda>_ _ _ w. (Inr (Some 1), w)), ld_clock = dw_clock,
     ld_sleep = (\<lambda>t w. w\<lparr>dw_clock := max t (dw_clock w)\<rparr>), ld_pick = (\<lambda>_. True), ld_ctx_err = (\<lambda>_. None)\<rparr>"

definition demo_m :: "demo_world migrator" where
  "demo_m = new_migrator (Some (demo_sqldb, demo_lockdb)) demo_fs ''db'' (\<lambda>_. 0) []"

definition demo_w :: "(string \<times> string) list \<Rightarrow> string list \<Rightarrow> demo_world" where
  "demo_w rs es = \<lparr>dw_recs = rs, dw_eff = es, dw_saved = ([], []), dw_conns = 0, dw_clock = 0\<rparr>"

lemma demo_m_facts:
  "m_db demo_m = Some (demo_sqldb, demo_lockdb)" "m_fs demo_m = demo_fs"
  "quoted_table demo_m = Inr ([CHR 0x22] @ ''schema_migrations'' @ [CHR 0x22])" "m_dialect demo_m = Postgres"
  by (simp add: demo_m_def new_migrator_def) (simp add: demo_m_def new_migrator_def, code_simp+)

lemma demo_lock_apart: "lock_apart demo_lockdb (\<lambda>w. (dw_recs w, dw_eff w))"
  by (auto simp: lock_apart_def lock_quiet_def demo_lockdb_def)

lemma demo_migration_tx:
  "migration_tx demo_sqldb dw_recs dw_eff (\<lambda>_. True) dw_saved (\<lambda>_. True)"
  by (auto simp: migration_tx_def demo_sqldb_def demo_exec_def Let_def split: list.splits sql_arg.splits if_splits)

lemma demo_tx: "tx_laws demo_sqldb (\<lambda>w. (dw_recs w, dw_eff w)) dw_saved"
  by (auto simp: tx_laws_def demo_sqldb_def demo_exec_def split: list.splits sql_arg.splits if_splits)

lemma demo_tracking: "tracking demo_m demo_sqldb ([CHR 0x22] @ ''schema_migrations'' @ [CHR 0x22]) dw_recs dw_eff"
proof -
  define qt where "qt = [CHR 0x22] @ ''schema_migrations'' @ [CHR 0x22]"
  have ddl: "take 6 (table_ddl demo_m qt) = ''CREATE''" unfolding qt_def by code_simp
  have body: "take 6 b \<noteq> ''CREATE''" if "fs_file demo_fs p = Inr b" for p b
    using that by (auto simp: demo_fs_def demo_file_def split: if_splits)
  show ?thesis
    using body unfolding qt_def [symmetric]
    by (auto intro!: map_idI simp: tracking_def demo_sqldb_def demo_exec_def ddl demo_m_facts split: if_splits)
qed

lemma demo_up: "up (\<lambda>_ _. None) demo_m (demo_w [(''1'', ''users'')] [''create users'']) =
    Some (([\<lparr>g_version = ''02'', g_name = ''roles'', g_up = ''db/02_roles.up.sql'', g_down = ''db/02_roles.down.sql''\<rparr>], None),
      \<lparr>dw_recs = [(''1'', ''users''), (''02'', ''roles'')], dw_eff = [''create users'', ''create roles''],
        dw_saved = ([(''1'', ''users'')], [''create users'']), dw_conns = 0, dw_clock = 0\<rparr>)"
  by code_simp

lemma load_demo_m:
  "load demo_m = Inr [\<lparr>g_version = ''1'', g_name = ''users'', g_up = ''db/1_users.up.sql'', g_down = ''''\<rparr>,
     \<lparr>g_version = ''02'', g_name = ''roles'', g_up = ''db/02_roles.up.sql'', g_down = ''db/02_roles.down.sql''\<rparr>]"
  by code_simp

text \<open>Here the script fails: the users are recorded, but their table is gone.\<close>

lemma demo_up_fails: "up (\<lambda>_ _. None) demo_m (demo_w [(''1'', ''users'')] []) =
    Some (([], Some (Body_failed DUp ''02_roles.up.sql'' (err_new ''no users''))),
      \<lparr>dw_recs = [(''1'', ''users'')], dw_eff = [], dw_saved = ([(''1'', ''users'')], []), dw_conns = 0, dw_clock = 0\<rparr>)"
  by code_simp

lemma up_applies_pending_witness:
  "(\<exists>out w'. up (\<lambda>_ _. None) demo_m (demo_w [(''1'', ''users'')] [''create users'']) = Some ((out, None), w')
      \<and> out \<noteq> [] \<and> dw_recs w' = [(''1'', ''users'')] @ map record_of out) \<and>
   (\<exists>v. up (\<lambda>_ _. None) demo_m (demo_w [(''1'', ''users'')] []) =
        Some (([], Some (Body_failed DUp ''02_roles.up.sql'' (err_new ''no users''))), v)
      \<and> dw_recs v = [(''1'', ''users'')] \<and> dw_eff v = [])"
proof (rule conjI)
  note applied = up_applies_pending [OF demo_m_facts(1,3) demo_tracking demo_migration_tx demo_lock_apart load_demo_m]
  let ?g = "\<lparr>g_version = ''02'', g_name = ''roles'', g_up = ''db/02_roles.up.sql'', g_down = ''db/02_roles.down.sql''\<rparr>"
  obtain w' where ok: "up (\<lambda>_ _. None) demo_m (demo_w [(''1'', ''users'')] [''create users'']) = Some (([?g], None), w')"
    using demo_up by blast
  have "dw_recs w' = [(''1'', ''users'')] @ map record_of [?g]"
    using applied [OF ok] by (auto simp: commit_lost_def demo_w_def)
  with ok show "\<exists>out w'. up (\<lambda>_ _. None) demo_m (demo_w [(''1'', ''users'')] [''create users'']) = Some ((out, None), w')
      \<and> out \<noteq> [] \<and> dw_recs w' = [(''1'', ''users'')] @ map record_of out" by blast
  have "\<not> has_no_tx_marker b" if "fs_file demo_fs p = Inr b" for p b
  proof -
    have "\<not> has_no_tx_marker ''create users''" "\<not> has_no_tx_marker ''create roles''"
      "\<not> has_no_tx_marker ''drop roles''" by code_simp+
    then show ?thesis using that by (auto simp: demo_fs_def demo_file_def split: if_splits)
  qed
  then have undo: "undone_whole demo_m (\<lambda>_. True) p" for p by (auto simp: undone_whole_def demo_m_facts)
  obtain v where fails: "up (\<lambda>_ _. None) demo_m (demo_w [(''1'', ''users'')] []) =
        Some (([], Some (Body_failed DUp ''02_roles.up.sql'' (err_new ''no users''))), v)"
    using demo_up_fails by blast
  have "dw_recs v = [(''1'', ''users'')] \<and> dw_eff v = []"
    using applied [OF fails] undo by (auto simp: commit_lost_def demo_w_def)
  with fails show "\<exists>v. up (\<lambda>_ _. None) demo_m (demo_w [(''1'', ''users'')] []) =
        Some (([], Some (Body_failed DUp ''02_roles.up.sql'' (err_new ''no users''))), v)
      \<and> dw_recs v = [(''1'', ''users'')] \<and> dw_eff v = []" by blast
qed

section \<open>Down\<close>

lemma down_target_Inr:
  assumes "down_target gs don v = Inr g"
  shows "\<exists>f r. f \<in> set gs \<and> norm_version (g_version f) = v \<and> g = f\<lparr>g_version := r\<rparr> \<and> g_down g \<noteq> []
    \<and> (\<forall>x. map_of don v = Some x \<longrightarrow> r = r_version x)"
proof -
  obtain f where f: "map_of (rev (map (\<lambda>g. (norm_version (g_version g), g)) gs)) v = Some f" "g_down f \<noteq> []"
      "g = f\<lparr>g_version := (case map_of don v of None \<Rightarrow> [] | Some r \<Rightarrow> r_version r)\<rparr>"
    using assms by (auto simp: down_target_def Let_def split: option.splits if_splits)
  from map_of_SomeD [OF f(1)] have "f \<in> set gs" "norm_version (g_version f) = v" by auto
  with f show ?thesis by (intro exI [of _ f] exI) auto
qed

text \<open>The loop of \<open>down\<close> runs the first versions only; the bound is the number still to do.\<close>

lemma down_loop_take:
  assumes "0 \<le> steps"
  shows "down_loop m db gs don steps vs acc w = down_loop m db gs don (-1) (take (nat steps - length acc) vs) acc w"
proof (induction vs arbitrary: acc w)
  case Nil
  then show ?case by simp
next
  case (Cons v vs)
  show ?case
  proof (cases "steps \<le> int (length acc)")
    case True
    then show ?thesis using assms by simp
  next
    case False
    then have "nat steps - length acc = Suc (nat steps - length (acc @ [g]))" for g :: migration by simp
    with False assms Cons show ?thesis by (auto split: sum.splits prod.splits option.splits)
  qed
qed

text \<open>One round of \<open>down\<close> as a run: the version's file, then its script and its record.\<close>

definition down_one :: "'w migrator \<Rightarrow> ('w, sql_row) sqldb \<Rightarrow> migration list \<Rightarrow> applied_map \<Rightarrow> string \<Rightarrow> 'w
    \<Rightarrow> mig_error option \<times> 'w" where
  "down_one m db gs don v w = (case down_target gs don v of Inl e \<Rightarrow> (Some e, w) | Inr g \<Rightarrow> run_file m db DDown g w)"

definition reverted :: "migration list \<Rightarrow> applied_map \<Rightarrow> string \<Rightarrow> migration" where
  "reverted gs don v = (case down_target gs don v of 
       Inl e \<Rightarrow> \<lparr>g_version = v, g_name = [], g_up = [], g_down = []\<rparr> | Inr g \<Rightarrow> g)"

interpretation dl: sequential_runner "\<lambda>_. False" "down_one m db gs don" "reverted gs don"
    "down_loop m db gs don (-1)" for m db gs don
  by unfold_locales (auto simp: down_one_def reverted_def split: sum.splits)

lemma down_one_effect:
  assumes tr: "tracking m db qt recs eff" and tx: "tx_laws db (\<lambda>w. (recs w, eff w)) saved"
    and qt: "quoted_table m = Inr qt" and run: "down_one m db gs don v w = (e, w')"
  shows "if e = None then recs w' = filter (\<lambda>r. fst r \<noteq> g_version (reverted gs don v)) (recs w)
      \<and> down_target gs don v = Inr (reverted gs don v)
    else recs w' = recs w"
proof (cases "down_target gs don v")
  case (Inl x)
  with run show ?thesis by (auto simp: down_one_def)
next
  case (Inr g)
  with run have "run_file m db DDown g w = (e, w')" by (simp add: down_one_def)
  from run_file_effect [OF tr tx qt this] Inr show ?thesis by (auto simp: reverted_def recorded_def)
qed

lemma down_loop_effect:
  assumes tr: "tracking m db qt recs eff" and tx: "tx_laws db (\<lambda>w. (recs w, eff w)) saved"
    and qt: "quoted_table m = Inr qt"
    and run: "down_loop m db gs don (-1) vs [] w = ((out, e), w')"
  shows "\<exists>ds rest. vs = ds @ rest \<and> out = map (reverted gs don) ds \<and> (e = None \<longleftrightarrow> rest = [])
    \<and> recs w' = filter (\<lambda>r. fst r \<notin> g_version ` set out) (recs w)
    \<and> (\<forall>v\<in>set ds. down_target gs don v = Inr (reverted gs don v))"
proof -
  let ?I = "\<lambda>ds v. recs v = filter (\<lambda>r. fst r \<notin> g_version ` reverted gs don ` set ds) (recs w)
    \<and> (\<forall>v\<in>set ds. down_target gs don v = Inr (reverted gs don v))"
  have pend: "dl.pending vs = vs" by (induction vs) simp_all
  have "\<exists>ds rest. dl.pending vs = ds @ rest \<and> out = map (reverted gs don) ds \<and> (e = None \<longleftrightarrow> rest = []) \<and> ?I ds w'"
  proof (rule dl.loop_split [OF run])
    show "?I [] w" by simp
    show "?I (ys @ [y]) v'" if "?I ys v" "down_one m db gs don y v = (None, v')" for ys y v v'
      using down_one_effect [OF tr tx qt that(2)] that(1) by (auto intro!: filter_cong)
    show "?I ys v'" if "?I ys v" "down_one m db gs don y v = (Some x, v')" for ys y v v' x
      using down_one_effect [OF tr tx qt that(2)] that(1) by auto
  qed
  then obtain ds rest where "vs = ds @ rest" "out = map (reverted gs don) ds" "e = None \<longleftrightarrow> rest = []" "?I ds w'"
    unfolding pend by blast
  then show ?thesis by (intro exI [of _ ds] exI [of _ rest]) simp
qed

lemma norm_version_idem: "norm_version (norm_version v) = norm_version v"
proof (cases "dropWhile (\<lambda>c. c = CHR ''0'') v")
  case Nil
  then have "norm_version v = ''0''" by (simp only: norm_version_def Let_def if_True refl)
  then show ?thesis by (simp add: norm_version_def)
next
  case (Cons c s)
  have "c \<noteq> CHR ''0''" using Cons by (auto simp: dropWhile_eq_Cons_conv)
  moreover have "norm_version v = c # s"
    unfolding norm_version_def Let_def Cons by (simp only: list.distinct if_False)
  ultimately show ?thesis by (simp add: norm_version_def)
qed

lemma sorted_desc_strict:
  assumes norm: "\<And>v. v \<in> set ks \<Longrightarrow> digits v \<and> norm_version v = v" and "distinct ks"
    and vs: "sort_versions_desc (\<lambda>v. v) ks = Some vs"
  shows "set vs = set ks" and "sorted_wrt (\<lambda>a b. decimal_value b < decimal_value a) vs"
proof -
  have set: "set vs = set ks" "distinct vs"
    using sort_versions_mset(2) [OF vs] assms(2) mset_eq_setD mset_eq_imp_distinct_iff by blast+
  then show "set vs = set ks" by simp
  show "sorted_wrt (\<lambda>a b. decimal_value b < decimal_value a) vs"
  proof (intro strictly_sorted [where k = "\<lambda>v. v", OF sort_versions_desc_sorted [OF _ vs]])
    show "\<forall>x\<in>set ks. digits x" using norm by blast
    show "decimal_value y < decimal_value x"
      if "x \<in> set vs" "y \<in> set vs" "decimal_value y \<le> decimal_value x" "x \<noteq> y" for x y
      using that norm [of x] norm [of y] norm_version_eq_iff [of x y] set by (simp add: order_le_less)
  qed (use set in simp)
qed

text \<open>The loop of \<open>Down\<close>, with the bound it is given and the applied versions in order.\<close>

lemma down_loop_reverts:
  assumes "tracking m db qt recs eff" "tx_laws db (\<lambda>w. (recs w, eff w)) saved" "quoted_table m = Inr qt"
    and work: "down_loop m db gs don (if steps \<le> 0 then 1 else steps) vs [] v = ((out, x), v')"
    and dom: "fst ` set don = set vs" and norm: "\<And>k r. map_of don k = Some r \<Longrightarrow> norm_version (r_version r) = k"
  shows "length out \<le> nat (max 1 steps)"
    and "x = None \<Longrightarrow> length out = min (nat (max 1 steps)) (length vs)"
    and "map (norm_version \<circ> g_version) out = take (length out) vs"
    and "recs v' = filter (\<lambda>r. fst r \<notin> g_version ` set out) (recs v)"
    and "\<forall>g\<in>set out. g_down g \<noteq> [] \<and> (\<exists>f. f \<in> set gs \<and> g_down f = g_down g
           \<and> norm_version (g_version f) = norm_version (g_version g))"
proof -
  let ?n = "nat (max 1 steps)"
  have "down_loop m db gs don (-1) (take ?n vs) [] v = ((out, x), v')"
    using work down_loop_take [of "if steps \<le> 0 then 1 else steps" m db gs don vs "[]" v]
    by (simp add: max_def split: if_splits)
  from down_loop_effect [OF assms(1,2,3) this] obtain ds rest where
    ds: "take ?n vs = ds @ rest" "out = map (reverted gs don) ds" "x = None \<longleftrightarrow> rest = []"
      "recs v' = filter (\<lambda>r. fst r \<notin> g_version ` set out) (recs v)"
      "\<forall>v\<in>set ds. down_target gs don v = Inr (reverted gs don v)" by blast
  have len: "length out = length ds" by (simp add: ds(2))
  have "length ds + length rest = min ?n (length vs)" using arg_cong [OF ds(1), of length] by simp
  then have n: "length ds \<le> ?n" "rest = [] \<Longrightarrow> length ds = min ?n (length vs)" by auto
  have pre: "ds = take (length ds) vs"
    using ds(1) n(1) by (metis append_eq_conv_conj min.absorb1 take_take)
  have one: "norm_version (g_version (reverted gs don v)) = v \<and> g_down (reverted gs don v) \<noteq> []
      \<and> (\<exists>f. f \<in> set gs \<and> g_down f = g_down (reverted gs don v) \<and> norm_version (g_version f) = v)"
    if v: "v \<in> set ds" for v
  proof -
    have "v \<in> fst ` set don" using v pre dom by (metis in_set_takeD)
    then obtain r where r: "map_of don v = Some r" by (metis map_of_eq_None_iff not_None_eq)
    from down_target_Inr [OF ds(5) [rule_format, OF v]] r norm [OF r] show ?thesis by auto
  qed
  have vers: "map (norm_version \<circ> g_version) out = ds" unfolding ds(2) using one by (simp add: map_idI)
  show "length out \<le> ?n" "x = None \<Longrightarrow> length out = min ?n (length vs)" using ds(3) len n by auto
  show "map (norm_version \<circ> g_version) out = take (length out) vs" using vers pre len by simp
  show "recs v' = filter (\<lambda>r. fst r \<notin> g_version ` set out) (recs v)" by (rule ds(4))
  show "\<forall>g\<in>set out. g_down g \<noteq> [] \<and> (\<exists>f. f \<in> set gs \<and> g_down f = g_down g
           \<and> norm_version (g_version f) = norm_version (g_version g))"
    unfolding ds(2) using one by auto
qed

text \<open>
  \<open>Down\<close> with \<open>n\<close> steps reverts the newest applied migrations, at most \<open>n\<close> (at least one is asked
  for), newest first: the versions of what it reverted are the first ones of the applied versions in
  descending order, all that were asked for when it reports no error; each has a down file among the
  files; and exactly their records are gone from the tracking table.
\<close>

theorem down_reverts_newest:
  assumes db: "m_db m = Some (db, ld)" and qt: "quoted_table m = Inr qt"
    and tr: "tracking m db qt recs eff" and tx: "tx_laws db (\<lambda>w. (recs w, eff w)) saved"
    and apart: "lock_apart ld (\<lambda>w. (recs w, eff w))"
    and dig: "\<forall>r\<in>set (recs w). digits (fst r)"
    and run: "down parse m steps w = Some ((out, e), w')"
  shows "\<exists>vs. set vs = norm_version ` fst ` set (recs w)
    \<and> sorted_wrt (\<lambda>a b. decimal_value b < decimal_value a) vs
    \<and> map (norm_version \<circ> g_version) out = take (length out) vs
    \<and> length out \<le> nat (max 1 steps)
    \<and> (e = None \<longrightarrow> length out = min (nat (max 1 steps)) (length vs))
    \<and> recs w' = filter (\<lambda>r. fst r \<notin> g_version ` set out) (recs w)
    \<and> (\<forall>g\<in>set out. g_down g \<noteq> [] \<and> (\<exists>f gs. load m = Inr gs \<and> f \<in> set gs \<and> g_down f = g_down g
         \<and> norm_version (g_version f) = norm_version (g_version g)))"
proof -
  let ?keys = "remdups (map (norm_version \<circ> fst) (recs w))" and ?done = "norm_version ` fst ` set (recs w)"
  have kd: "digits v \<and> norm_version v = v" if "v \<in> ?done" for v
    using that dig digits_norm norm_version_idem by auto
  show ?thesis
  proof (rule locked_run_facts [OF db qt tr apart run [unfolded down_def down_steps_def]])
    assume stopped: "out = []" "e \<noteq> None" "recs w' = recs w"
    have set_keys: "set ?keys = ?done" by (simp add: image_comp)
    have keys: "digits k \<and> norm_version k = k" if "k \<in> set ?keys" for k using kd [of k] that unfolding set_keys by blast
    obtain vs where vs: "sort_versions_desc (\<lambda>v. v) ?keys = Some vs"
      using sort_versions_total(2) [of ?keys "\<lambda>v. v"] keys by blast
    have "set vs = ?done" using sorted_desc_strict(1) [OF keys distinct_remdups vs] set_keys by (rule trans)
    with sorted_desc_strict(2) [OF keys distinct_remdups vs] stopped(1,3) show ?thesis
      using stopped(2) by (intro exI [of _ vs]) auto
  next
    fix gs don v v' x
    assume gs: "load m = Inr gs"
      and work: "(case sort_versions_desc (\<lambda>v. v) (map fst don) of
           None \<Rightarrow> (([], Some Version_panic), v)
         | Some vs \<Rightarrow> down_loop m db gs don (if steps \<le> 0 then 1 else steps) vs [] v) = ((out, x), v')"
      and w: "recs v = recs w" "recs w' = recs v'" "distinct (map fst don)" "fst ` set don = ?done"
        "\<And>k r. map_of don k = Some r \<Longrightarrow> norm_version (r_version r) = k \<and> r_version r \<in> fst ` set (recs w)"
        "e = None \<Longrightarrow> x = None"
    have keys: "digits k \<and> norm_version k = k" if "k \<in> set (map fst don)" for k
      using kd [of k] that unfolding set_map w(4) by blast
    obtain vs where vs: "sort_versions_desc (\<lambda>v. v) (map fst don) = Some vs"
      using sort_versions_total(2) [of "map fst don" "\<lambda>v. v"] keys by blast
    note vs_facts = sorted_desc_strict [OF keys w(3) vs]
    have dom: "fst ` set don = set vs" using vs_facts(1) by simp
    have run: "down_loop m db gs don (if steps \<le> 0 then 1 else steps) vs [] v = ((out, x), v')"
      using work vs by simp
    note r = down_loop_reverts [OF tr tx qt run dom w(5) [THEN conjunct1]]
    show ?thesis
    proof (intro exI [of _ vs] conjI)
      show "set vs = ?done" using dom w(4) by (simp only:)
      show "e = None \<longrightarrow> length out = min (nat (max 1 steps)) (length vs)" by (intro impI r(2) w(6))
      show "recs w' = filter (\<lambda>r. fst r \<notin> g_version ` set out) (recs w)" using w(1,2) r(4) by (simp only:)
      show "\<forall>g\<in>set out. g_down g \<noteq> [] \<and> (\<exists>f gs. load m = Inr gs \<and> f \<in> set gs \<and> g_down f = g_down g
         \<and> norm_version (g_version f) = norm_version (g_version g))" using r(5) gs by blast
      show "map (norm_version \<circ> g_version) out = take (length out) vs" by (rule r(3))
      show "length out \<le> nat (max 1 steps)" by (rule r(1))
    qed (rule vs_facts(2))
  qed
qed

lemma down_reverts_newest_witness:
  "\<exists>w'. down (\<lambda>_ _. None) demo_m 0 (demo_w [(''1'', ''users''), (''2'', ''roles'')] []) = Some (([
      \<lparr>g_version = ''2'', g_name = ''roles'', g_up = ''db/02_roles.up.sql'', g_down = ''db/02_roles.down.sql''\<rparr>], None), w')
    \<and> dw_recs w' = [(''1'', ''users'')]"
proof -
  have run: "down (\<lambda>_ _. None) demo_m 0 (demo_w [(''1'', ''users''), (''2'', ''roles'')] []) = Some (([
      \<lparr>g_version = ''2'', g_name = ''roles'', g_up = ''db/02_roles.up.sql'', g_down = ''db/02_roles.down.sql''\<rparr>], None),
      \<lparr>dw_recs = [(''1'', ''users'')], dw_eff = [''drop roles''],
        dw_saved = ([(''1'', ''users''), (''2'', ''roles'')], []), dw_conns = 0, dw_clock = 0\<rparr>)" by code_simp
  have "\<forall>r\<in>set (dw_recs (demo_w [(''1'', ''users''), (''2'', ''roles'')] [])). digits (fst r)" by code_simp
  from down_reverts_newest [OF demo_m_facts(1,3) demo_tracking demo_tx demo_lock_apart this run] run
  show ?thesis by simp
qed

section \<open>The lock's connection\<close>

text \<open>\<open>conns\<close> counts the open connections of the lock: \<open>Conn\<close> opens one, \<open>Close\<close> gives it back.\<close>

definition counts_conns :: "('w, sql_row) sqldb \<Rightarrow> 'w lockdb \<Rightarrow> ('w \<Rightarrow> int) \<Rightarrow> bool" where
  "counts_conns db ld conns \<longleftrightarrow>
     (\<forall>w w'. ld_conn ld w = (None, w') \<longrightarrow> conns w' = conns w + 1)
   \<and> (\<forall>w e w'. ld_conn ld w = (Some e, w') \<longrightarrow> conns w' = conns w)
   \<and> (\<forall>w r w'. ld_close ld w = (r, w') \<longrightarrow> conns w' = conns w - 1)
   \<and> (\<forall>c q xs w r w'. ld_exec ld c q xs w = (r, w') \<longrightarrow> conns w' = conns w)
   \<and> (\<forall>c q xs w r w'. ld_query ld c q xs w = (r, w') \<longrightarrow> conns w' = conns w)
   \<and> (\<forall>t w. conns (ld_sleep ld t w) = conns w)
   \<and> (\<forall>ex q xs w r w'. sd_exec db ex q xs w = (r, w') \<longrightarrow> conns w' = conns w)
   \<and> (\<forall>q w r w'. sd_query db q w = (r, w') \<longrightarrow> conns w' = conns w)
   \<and> (\<forall>w r w'. sd_begin db w = (r, w') \<longrightarrow> conns w' = conns w)
   \<and> (\<forall>w r w'. sd_commit db w = (r, w') \<longrightarrow> conns w' = conns w)
   \<and> (\<forall>w. conns (sd_rollback db w) = conns w)"

lemma counts_connsD:
  assumes "counts_conns db ld conns"
  shows "ld_conn ld w = (None, w') \<Longrightarrow> conns w' = conns w + 1"
    and "ld_conn ld w = (Some e, w') \<Longrightarrow> conns w' = conns w"
    and "ld_close ld w = (r, w') \<Longrightarrow> conns w' = conns w - 1"
    and "ld_exec ld lc q xs w = (r, w') \<Longrightarrow> conns w' = conns w"
    and "ld_query ld lc q xs w = (x, w') \<Longrightarrow> conns w' = conns w"
    and "conns (ld_sleep ld t w) = conns w"
    and "sd_exec db ex q xs w = (r, w') \<Longrightarrow> conns w' = conns w"
    and "sd_query db q w = (y, w') \<Longrightarrow> conns w' = conns w"
    and "sd_begin db w = (r, w') \<Longrightarrow> conns w' = conns w"
    and "sd_commit db w = (r, w') \<Longrightarrow> conns w' = conns w"
    and "conns (sd_rollback db w) = conns w"
  using assms unfolding counts_conns_def by metis+

lemma run_file_conns:
  assumes c: "counts_conns db ld conns" and run: "run_file m db d g w = (e, w')"
  shows "conns w' = conns w"
proof -
  have btr: "conns v' = conns v" if "body_then_record m db qt g dd fl body ex v = (x, v')" for dd qt fl body ex v x v'
    using that by (cases dd) (auto simp: body_then_record_def run_body_def record_run_def
        split: prod.splits option.splits if_splits dest!: counts_connsD(7) [OF c])
  have scope: "conns v' = conns v" if "tx_scope db Db_failed (body_then_record m db qt g dd fl body OnTx) v = (x, v')"
    for dd qt fl body v x v'
    using that by (auto simp: tx_scope_def counts_connsD(11) [OF c] split: prod.splits option.splits
        dest!: counts_connsD(9,10) [OF c] btr)
  show ?thesis
    using run by (auto simp: run_file_def Let_def split: sum.splits if_splits dest!: btr scope)
qed

lemma up_loop_conns:
  assumes "counts_conns db ld conns" and "up_loop m db don gs acc w = ((out, e), w')"
  shows "conns w' = conns w"
  by (rule upl.loop_keeps [where I = "\<lambda>v. conns v = conns w", OF assms(2)])
     (use run_file_conns [OF assms(1)] in auto)

lemma down_loop_conns:
  assumes "counts_conns db ld conns" and "down_loop m db gs don steps vs acc w = ((out, e), w')"
  shows "conns w' = conns w"
  using assms(2)
proof (induction vs arbitrary: acc w)
  case Nil
  then show ?case by simp
next
  case (Cons v vs)
  then show ?case
    by (auto split: if_splits sum.splits prod.splits option.splits dest!: run_file_conns [OF assms(1)])
qed

lemma lock_on_conns:
  assumes "counts_conns db ld conns" and "lock_on m ld lc w = Some (e, w')"
  shows "conns w' = conns w"
proof -
  have "lock_quiet ld conns"
    unfolding lock_quiet_def using counts_connsD(4,5,6) [OF assms(1)] by blast
  from lock_on_view [OF this assms(2)] show ?thesis by simp
qed

lemma locked_run_conns:
  assumes c: "counts_conns db ld conns" and db: "m_db m = Some (db, ld)"
    and work: "\<And>gs don v r v'. work db gs don v = (r, v') \<Longrightarrow> conns v' = conns v"
    and run: "locked_run parse m wrap work w = Some (r, w')"
  shows "conns w' = conns w"
proof (cases "load m")
  case (Inl x)
  with run show ?thesis by (simp add: locked_run_def)
next
  case (Inr gs)
  obtain a w1 where acq: "acquire_lock m ld w = Some (a, w1)"
    using run Inr db by (fastforce simp: locked_run_def split: option.splits)
  have acq_conns: "(case a of Inr (Some _) \<Rightarrow> conns w1 = conns w + 1 | _ \<Rightarrow> conns w1 = conns w)
      \<and> (\<forall>l. a = Inr (Some l) \<longrightarrow> l = ld)"
    using acq by (auto simp: acquire_lock_def Let_def split: if_splits prod.splits option.splits
        dest!: counts_connsD(1,2,3) [OF c] lock_on_conns [OF c])
  show ?thesis
  proof (cases a)
    case (Inl x)
    with run Inr acq acq_conns db show ?thesis by (simp add: locked_run_def)
  next
    case held: (Inr held)
    obtain t w2 where t: "ensure_table m w1 = (t, w2)" by fastforce
    have w2: "conns w2 = conns w1"
      using t by (auto simp: ensure_table_def db split: sum.splits prod.splits dest!: counts_connsD(7) [OF c])
    define mid where "mid = (case t of Some e \<Rightarrow> (([], Some (wrap e)), w2)
       | None \<Rightarrow> (case applied parse m db w2 of
            (Inl e, w3) \<Rightarrow> (([], Some e), w3) | (Inr don, w3) \<Rightarrow> work db gs don w3))"
    obtain o2 w3 where mid: "mid = (o2, w3)" by fastforce
    have w3: "conns w3 = conns w1"
      using mid w2 by (auto simp: mid_def applied_def split: option.splits sum.splits prod.splits
          dest!: counts_connsD(8) [OF c] work)
    obtain y w4 where y: "release_lock m held w3 = (y, w4)" by fastforce
    have w4: "conns w4 = (if held = None then conns w3 else conns w3 - 1)"
      using y acq_conns held
      by (cases "m_dialect m") (auto simp: release_lock_def unlock_on_def Let_def split: option.splits prod.splits
          dest!: counts_connsD(3,4) [OF c])
    have "w' = w4"
      using run \<open>load m = Inr gs\<close> db acq held t mid y
      by (cases o2) (auto simp: locked_run_def mid_def [symmetric] split: option.splits)
    then show ?thesis using w4 w3 acq_conns held by (cases held) auto
  qed
qed

text \<open>
  The connection the lock is held on is given back on every path: whatever \<open>Up\<close>, \<open>Down\<close> and
  \<open>DownAll\<close> return, error or not, after them as many connections are open as before.
\<close>

theorem lock_connection_released:
  assumes c: "counts_conns db ld conns" and db: "m_db m = Some (db, ld)"
    and run: "up parse m w = Some (r, w') \<or> down parse m steps w = Some (r, w') \<or> down_all parse m w = Some (r, w')"
  shows "conns w' = conns w"
proof -
  have up: "conns v' = conns v" if "up_loop m db don gs [] v = (x, v')" for gs don v x v'
    using that up_loop_conns [OF c] by (cases x) auto
  have down: "conns v' = conns v"
    if "(case sort_versions_desc (\<lambda>v. v) (map fst don) of
           None \<Rightarrow> (([], Some Version_panic), v) | Some vs \<Rightarrow> down_loop m db gs don n vs [] v) = (x, v')"
    for gs don v x v' n
    using that down_loop_conns [OF c] by (cases x) (auto split: option.splits)
  from run show ?thesis
  proof (elim disjE)
    assume "up parse m w = Some (r, w')"
    then show ?thesis unfolding up_def by (rule locked_run_conns [OF c db up, rotated]) assumption
  next
    assume "down parse m steps w = Some (r, w')"
    then show ?thesis
      unfolding down_def down_steps_def by (rule locked_run_conns [OF c db down, rotated]) assumption
  next
    assume "down_all parse m w = Some (r, w')"
    then show ?thesis
      unfolding down_all_def down_steps_def by (rule locked_run_conns [OF c db down, rotated]) assumption
  qed
qed

lemma lock_connection_released_witness:
  "\<exists>r w'. up (\<lambda>_ _. None) demo_m (demo_w [] []) = Some (r, w') \<and> dw_conns w' = dw_conns (demo_w [] [])"
proof -
  obtain r w' where run: "up (\<lambda>_ _. None) demo_m (demo_w [] []) = Some (r, w')"
  proof -
    have "up (\<lambda>_ _. None) demo_m (demo_w [] []) \<noteq> None" by code_simp
    then show thesis using that by (cases "up (\<lambda>_ _. None) demo_m (demo_w [] [])") auto
  qed
  have "counts_conns demo_sqldb demo_lockdb dw_conns"
    by (auto simp: counts_conns_def demo_sqldb_def demo_lockdb_def demo_exec_def split: list.splits sql_arg.splits if_splits)
  from lock_connection_released [OF this demo_m_facts(1) disjI1 [OF run]] run show ?thesis by blast
qed

section \<open>Waiting for the lock ends\<close>

text \<open>
  What is known of the run time: the clock does not run backwards over a query, and a sleep lasts
  until its time unless the caller's context ends.
\<close>

definition clock_laws :: "'w lockdb \<Rightarrow> bool" where
  "clock_laws ld \<longleftrightarrow>
     (\<forall>c q xs w r w'. ld_query ld c q xs w = (r, w') \<longrightarrow> ld_clock ld w \<le> ld_clock ld w')
   \<and> (\<forall>t w. t \<le> ld_clock ld (ld_sleep ld t w) \<or> ld_ctx_err ld (ld_sleep ld t w) \<noteq> None)"

lemma clock_lawsD:
  assumes "clock_laws ld"
  shows "ld_query ld c q xs w = (r, w') \<Longrightarrow> ld_clock ld w \<le> ld_clock ld w'"
    and "ld_ctx_err ld (ld_sleep ld t w) = None \<Longrightarrow> t \<le> ld_clock ld (ld_sleep ld t w)"
  using assms unfolding clock_laws_def by blast+

text \<open>A pause that ends without an error began before the deadline and took the whole 200 ms.\<close>

lemma lock_pause_ticks:
  assumes "clock_laws ld" and "lock_pause ld (Within t) w = (None, w')"
  shows "ld_clock ld w < t \<and> ld_clock ld w + 200 * millisecond \<le> ld_clock ld w'"
  using assms(2) clock_lawsD(2) [OF assms(1), of "min (ld_clock ld w + 200 * millisecond) t" w]
  by (auto simp: lock_pause_def lock_ctx_err_def Let_def not_le min_le_iff_disj split: option.splits if_splits)

lemma pg_try_lock_returns:
  assumes laws: "clock_laws ld"
  shows "pg_try_lock ld (Within t) key w \<noteq> None"
proof (induction "nat (t - ld_clock ld w)" arbitrary: w rule: less_induct)
  case less
  obtain r w1 where r: "ld_query ld (Within t) ''SELECT pg_try_advisory_lock($1)'' [AInt key] w = (r, w1)"
    by fastforce
  obtain x w2 where x: "lock_pause ld (Within t) w1 = (x, w2)" by fastforce
  have "pg_try_lock ld (Within t) key w2 \<noteq> None" if "x = None"
  proof (rule less.hyps)
    have "ld_clock ld w1 < t \<and> ld_clock ld w1 + 200 * millisecond \<le> ld_clock ld w2"
      using lock_pause_ticks [OF laws] x that by simp
    moreover have "ld_clock ld w \<le> ld_clock ld w1" by (rule clock_lawsD(1) [OF laws r])
    moreover have "0 < millisecond" by (simp add: millisecond_def)
    ultimately show "nat (t - ld_clock ld w2) < nat (t - ld_clock ld w)" by linarith
  qed
  with r x show ?case
    by (subst pg_try_lock.simps) (auto split: sum.splits option.splits)
qed

lemma acquire_lock_returns:
  assumes "clock_laws ld"
  shows "acquire_lock m ld w \<noteq> None"
proof -
  have on: "lock_on m ld (wait_ctx m ld v) v \<noteq> None" for v
    using pg_try_lock_returns [OF assms]
    by (cases "m_dialect m")
       (auto simp: lock_on_def wait_ctx_def Let_def split: prod.splits sum.splits option.splits)
  show ?thesis by (auto simp: acquire_lock_def Let_def on split: prod.splits option.splits dest: on [THEN notE])
qed

text \<open>Where another runner keeps the lock, the wait ends after the time-out, and with its error.\<close>

lemma pg_try_lock_times_out:
  assumes laws: "clock_laws ld" and busy: "\<And>w. \<exists>w'. ld_query ld (Within t) q [AInt key] w = (Inr (Some 0), w')"
    and live: "\<And>w. ld_ctx_err ld w = None" and q: "q = ''SELECT pg_try_advisory_lock($1)''"
  shows "\<exists>w'. pg_try_lock ld (Within t) key w = Some (Some (Ctx_done ctx_deadline), w') \<and> t \<le> ld_clock ld w'"
proof (induction "nat (t - ld_clock ld w)" arbitrary: w rule: less_induct)
  case less
  obtain w1 where r: "ld_query ld (Within t) q [AInt key] w = (Inr (Some 0), w1)" using busy by blast
  obtain x w2 where x: "lock_pause ld (Within t) w1 = (x, w2)" by fastforce
  show ?case
  proof (cases x)
    case None
    have "ld_clock ld w1 < t \<and> ld_clock ld w1 + 200 * millisecond \<le> ld_clock ld w2"
      using lock_pause_ticks [OF laws] x None by simp
    moreover have "ld_clock ld w \<le> ld_clock ld w1" by (rule clock_lawsD(1) [OF laws r])
    moreover have "0 < millisecond" by (simp add: millisecond_def)
    ultimately have "nat (t - ld_clock ld w2) < nat (t - ld_clock ld w)" by linarith
    from less.hyps [OF this] show ?thesis
      using r x None by (subst pg_try_lock.simps) (simp add: q)
  next
    case (Some e)
    then have "e = ctx_deadline \<and> t \<le> ld_clock ld w2"
      using x live by (auto simp: lock_pause_def lock_ctx_err_def Let_def split: option.splits if_splits)
    with r x Some show ?thesis by (subst pg_try_lock.simps) (simp add: q)
  qed
qed

text \<open>
  (C16) \<open>Up\<close> and \<open>Down\<close> return. The one loop that might go on forever is the one that waits for
  the PostgreSQL lock when a time-out is set; it ends because the context it waits in has the
  time-out as its deadline and its \<open>select\<close> sees the deadline, so that every further try is made
  before the deadline and at least 200 ms after the one before, whoever holds the lock. Of the run
  time it is used only that the clock does not run backwards over a query and that a sleep lasts
  its time unless the caller's context ends; calls of the database are taken to return.
\<close>

theorem runs_return:
  assumes "\<And>db ld. m_db m = Some (db, ld) \<Longrightarrow> clock_laws ld"
  shows "(\<exists>r w'. up parse m w = Some (r, w')) \<and> (\<exists>r w'. down parse m steps w = Some (r, w'))
    \<and> (\<exists>r w'. down_all parse m w = Some (r, w'))"
proof -
  have all: "locked_run parse m wrap work w \<noteq> None" for wrap work
  proof (cases "m_db m")
    case None
    then show ?thesis by (simp add: locked_run_def split: sum.splits)
  next
    case (Some x)
    obtain db ld where "x = (db, ld)" by fastforce
    with Some have db: "m_db m = Some (db, ld)" by simp
    have "acquire_lock m ld w \<noteq> None" by (rule acquire_lock_returns [OF assms [OF db]])
    then show ?thesis by (auto simp: locked_run_def db Let_def split: sum.splits option.splits prod.splits)
  qed
  show ?thesis
    using all [of Table_failed] all [of "\<lambda>e. e"] by (auto simp: up_def down_def down_all_def down_steps_def)
qed

text \<open>A second runner has the lock and never gives it back; every query takes a millisecond.\<close>

lemma runs_return_witness:
  "\<exists>m. m_dialect m = Postgres \<and> m_lock m \<and> 0 < m_lock_timeout m
    \<and> (\<exists>r w'. up (\<lambda>_ _. None) m (demo_w [] []) = Some (r, w'))"
proof -
  let ?ld = "demo_lockdb\<lparr>ld_query := (\<lambda>_ _ _ w. (Inr (Some 0), w\<lparr>dw_clock := dw_clock w + millisecond\<rparr>))\<rparr>"
  let ?m = "demo_m\<lparr>m_db := Some (demo_sqldb, ?ld), m_dialect := Postgres, m_lock_timeout := second\<rparr>"
  have m: "m_lock ?m" by (simp add: demo_m_def new_migrator_def)
  have "(\<exists>r w'. up (\<lambda>_ _. None) ?m (demo_w [] []) = Some (r, w'))
      \<and> (\<exists>r w'. down (\<lambda>_ _. None) ?m 1 (demo_w [] []) = Some (r, w'))
      \<and> (\<exists>r w'. down_all (\<lambda>_ _. None) ?m (demo_w [] []) = Some (r, w'))"
    by (rule runs_return) (auto simp: clock_laws_def demo_lockdb_def millisecond_def)
  with m show ?thesis by (intro exI [of _ ?m]) (simp add: second_def)
qed

section \<open>Status\<close>

lemma statuses_facts:
  assumes load: "load m = Inr gs" and don: "distinct (map fst don)"
    and keyed: "\<forall>k r. (k, r) \<in> set don \<longrightarrow> norm_version (r_version r) = k"
  shows "distinct (map (norm_version \<circ> st_version) (statuses gs don))"
    and "norm_version ` st_version ` set (statuses gs don) = norm_version ` g_version ` set gs \<union> fst ` set don"
    and "s \<in> set (statuses gs don) \<Longrightarrow> (st_applied s \<longleftrightarrow> norm_version (st_version s) \<in> fst ` set don)
      \<and> (st_missing s \<longleftrightarrow> norm_version (st_version s) \<notin> norm_version ` g_version ` set gs)"
proof -
  note row = keyed [rule_format]
  let ?gk = "(norm_version \<circ> g_version) ` set gs"
  let ?miss = "filter (\<lambda>(k, r). k \<notin> ?gk) don"
  have keys: "map (norm_version \<circ> st_version) (statuses gs don) = map (norm_version \<circ> g_version) gs @ map fst ?miss"
    using row by (auto simp: statuses_def file_status_def missing_status_def split: option.splits)
  have "distinct (map fst ?miss)" using don distinct_map_filter by blast
  moreover have "set (map (norm_version \<circ> g_version) gs) \<inter> set (map fst ?miss) = {}" by auto
  ultimately show "distinct (map (norm_version \<circ> st_version) (statuses gs don))"
    unfolding keys using load_versions(2) [OF load] by simp
  show "norm_version ` st_version ` set (statuses gs don) = norm_version ` g_version ` set gs \<union> fst ` set don"
    using arg_cong [OF keys, of set] by (force simp: image_comp)
  assume "s \<in> set (statuses gs don)"
  then consider g where "g \<in> set gs" "s = file_status don g"
    | k r where "(k, r) \<in> set don" "k \<notin> ?gk" "s = missing_status r"
    unfolding statuses_def by auto
  then show "(st_applied s \<longleftrightarrow> norm_version (st_version s) \<in> fst ` set don)
      \<and> (st_missing s \<longleftrightarrow> norm_version (st_version s) \<notin> norm_version ` g_version ` set gs)"
  proof cases
    case 1
    have "map_of don (norm_version (g_version g)) = None \<longleftrightarrow> norm_version (g_version g) \<notin> fst ` set don"
      by (rule map_of_eq_None_iff)
    with 1 show ?thesis by (auto simp: file_status_def split: option.splits)
  next
    case 2
    then have "k \<in> fst ` set don" by force
    with 2 row [OF 2(1)] show ?thesis by (simp add: missing_status_def image_comp)
  qed
qed

text \<open>
  \<open>Status\<close> reports every migration file once, marked as applied exactly when its version is in
  the tracking table, and every recorded version without a file once, as missing; no version
  twice, and, where the recorded versions are numbers, in ascending order.
\<close>

theorem status_complete:
  assumes qt: "quoted_table m = Inr qt" and db: "m_db m = Some (db, ld)"
    and tr: "tracking m db qt recs eff" and load: "load m = Inr gs"
    and run: "status parse m w = (Inr sts, w')"
  shows "distinct (map (norm_version \<circ> st_version) sts)
    \<and> norm_version ` st_version ` set sts = norm_version ` (g_version ` set gs \<union> fst ` set (recs w))
    \<and> (\<forall>s\<in>set sts. (st_applied s \<longleftrightarrow> norm_version (st_version s) \<in> norm_version ` fst ` set (recs w))
         \<and> (st_missing s \<longleftrightarrow> norm_version (st_version s) \<notin> norm_version ` g_version ` set gs))
    \<and> ((\<forall>r\<in>set (recs w). digits (fst r)) \<longrightarrow>
         sorted_wrt (\<lambda>s t. decimal_value (st_version s) < decimal_value (st_version t)) sts)"
proof -
  obtain e w1 where ens: "ensure_table m w = (e, w1)" by fastforce
  obtain q w2 where q: "sd_query db (''SELECT version, name, applied_at FROM '' @ qt) w1 = (q, w2)" by fastforce
  have e: "e = None" using run load ens by (auto simp: status_def split: option.splits)
  have w1: "recs w1 = recs w" using ens qt db trackingD(1) [OF tr] by (auto simp: ensure_table_def split: prod.splits)
  obtain rows where rows: "q = Inr rows"
    using run load ens e db qt q by (cases q) (auto simp: status_def applied_def)
  define don where "don = applied_of parse rows"
  have sts: "sort_versions st_version (statuses gs don) = Some sts"
    using run load ens e db qt q rows by (auto simp: status_def applied_def don_def split: option.splits)
  have "map (\<lambda>(v, n, _). (v, n)) rows = recs w" using trackingD(2) [OF tr q] rows w1 by simp
  then have "fst ` set (recs w) = fst ` set (map (\<lambda>(v, n, _). (v, n)) rows)" by (simp only:)
  then have fst_rows: "fst ` set rows = fst ` set (recs w)" by (simp add: image_image case_prod_beta)
  have don: "distinct (map fst don)" "fst ` set don = norm_version ` fst ` set (recs w)"
      "\<And>k r. map_of don k = Some r \<Longrightarrow> norm_version (r_version r) = k \<and> r_version r \<in> fst ` set (recs w)"
    using applied_of_facts [of parse rows] unfolding don_def fst_rows by blast+
  have row: "norm_version (r_version r) = k \<and> r_version r \<in> fst ` set (recs w)" if "(k, r) \<in> set don" for k r
    using don(3) map_of_is_SomeI [OF don(1) that] by blast
  then have "\<forall>k r. (k, r) \<in> set don \<longrightarrow> norm_version (r_version r) = k" by blast
  note st = statuses_facts [OF load don(1) this]
  have ms: "mset sts = mset (statuses gs don)" by (rule sort_versions_mset(1) [OF sts])
  have set_eq: "set sts = set (statuses gs don)" using mset_eq_setD [OF ms] .
  have "mset (map (norm_version \<circ> st_version) sts) = mset (map (norm_version \<circ> st_version) (statuses gs don))"
    using ms by (metis mset_map)
  with st(1) have dist': "distinct (map (norm_version \<circ> st_version) sts)" using mset_eq_imp_distinct_iff by blast
  show ?thesis
  proof (intro conjI ballI impI)
    show "distinct (map (norm_version \<circ> st_version) sts)" by (rule dist')
    show "norm_version ` st_version ` set sts = norm_version ` (g_version ` set gs \<union> fst ` set (recs w))"
      using st(2) by (simp only: set_eq don(2) image_Un)
    fix s assume "s \<in> set sts"
    from st(3) [OF this [unfolded set_eq]]
    show "st_applied s \<longleftrightarrow> norm_version (st_version s) \<in> norm_version ` fst ` set (recs w)"
      and "st_missing s \<longleftrightarrow> norm_version (st_version s) \<notin> norm_version ` g_version ` set gs"
      unfolding don(2) by blast+
  next
    assume "\<forall>r\<in>set (recs w). digits (fst r)"
    then have dig: "\<forall>s\<in>set (statuses gs don). digits (st_version s)"
      using load_versions(1) [OF load] row
      by (fastforce simp: statuses_def file_status_def missing_status_def split: option.splits)
    show "sorted_wrt (\<lambda>s t. decimal_value (st_version s) < decimal_value (st_version t)) sts"
      by (rule strictly_sorted [OF sort_versions_sorted [OF dig sts] dist'])
         (use dig norm_version_eq_iff set_eq in \<open>force simp: order_le_less\<close>)
  qed
qed

lemma demo_applied: "applied_of (\<lambda>_ _. None) [(''3'', ''gone'', TOther), (''1'', ''users'', TOther)] =
    [(''3'', \<lparr>r_version = ''3'', r_name = ''gone'', r_at = zero_time\<rparr>),
     (''1'', \<lparr>r_version = ''1'', r_name = ''users'', r_at = zero_time\<rparr>)]"
  by (simp add: applied_of_def norm_version_def)

lemma demo_statuses: "sort_versions st_version (statuses
    [\<lparr>g_version = ''1'', g_name = ''users'', g_up = ''db/1_users.up.sql'', g_down = ''''\<rparr>,
     \<lparr>g_version = ''02'', g_name = ''roles'', g_up = ''db/02_roles.up.sql'', g_down = ''db/02_roles.down.sql''\<rparr>]
    (applied_of (\<lambda>_ _. None) [(''3'', ''gone'', TOther), (''1'', ''users'', TOther)]))
  = Some [\<lparr>st_version = ''1'', st_name = ''users'', st_applied = True, st_applied_at = zero_time, st_missing = False\<rparr>,
    \<lparr>st_version = ''02'', st_name = ''roles'', st_applied = False, st_applied_at = zero_time, st_missing = False\<rparr>,
    \<lparr>st_version = ''3'', st_name = ''gone'', st_applied = True, st_applied_at = zero_time, st_missing = True\<rparr>]"
  unfolding demo_applied
  by (simp add: sort_versions_def statuses_def file_status_def missing_status_def norm_version_def version_num_def
      set_string_def is_digit_def decimal_value_def digit_val_def)

lemma status_complete_witness:
  "\<exists>sts w'. status (\<lambda>_ _. None) demo_m (demo_w [(''3'', ''gone''), (''1'', ''users'')] []) = (Inr sts, w')
    \<and> map st_version sts = [''1'', ''02'', ''3''] \<and> distinct (map (norm_version \<circ> st_version) sts)"
proof -
  let ?w = "demo_w [(''3'', ''gone''), (''1'', ''users'')] []"
  have ens: "ensure_table demo_m ?w = (None, ?w)" by code_simp
  have query: "sd_query demo_sqldb q ?w = (Inr [(''3'', ''gone'', TOther), (''1'', ''users'', TOther)], ?w)" for q
    by (simp add: demo_sqldb_def demo_w_def)
  have run: "status (\<lambda>_ _. None) demo_m ?w = (Inr [
      \<lparr>st_version = ''1'', st_name = ''users'', st_applied = True, st_applied_at = zero_time, st_missing = False\<rparr>,
      \<lparr>st_version = ''02'', st_name = ''roles'', st_applied = False, st_applied_at = zero_time, st_missing = False\<rparr>,
      \<lparr>st_version = ''3'', st_name = ''gone'', st_applied = True, st_applied_at = zero_time, st_missing = True\<rparr>], ?w)"
    unfolding status_def applied_def load_demo_m ens demo_m_facts
    by (simp only: sum.case option.case prod.case query demo_statuses)
  from status_complete [OF demo_m_facts(3,1) demo_tracking load_demo_m run] run show ?thesis by auto
qed

end
