(* ===== verification/Seeder.thy ===== *)
theory Seeder
  imports Migrate "HOL-Library.List_Lexorder" "HOL-Library.Char_ord"
begin

text \<open>
  pkg/seeder/seeder.go: named seeds, run in registration order, each in its own transaction with
  its record in the history table; \<open>run_seeder\<close> skips what has run, \<open>run_force\<close> runs it again. The
  database is the record \<open>sqldb\<close> of Sql_Runner, a seed is a function on the world inside the open
  transaction.
\<close>

section \<open>Registration\<close>

definition seed_table :: string where
  "seed_table = ''seed_history''"

datatype seed_error =
    Bad_seed_name
  | Seed_fn_nil string
  | Duplicate_seed string
  | Bad_seed_dir string
  | Seed_dir_failed gerr
  | Unknown_seed string
  | Seed_db_nil
  | Seed_ident sql_error
  | Seed_table_failed seed_error
  | Seed_db gerr
  | Seed_failed string seed_error
  | History_failed gerr

type_synonym 'w seed_fn = "'w \<Rightarrow> gerr option \<times> 'w"

record 'w named_seed =
  sn_name :: string
  sn_fn :: "'w seed_fn"

type_synonym seed_row = "string \<times> time_value"

record 'w seeder =
  se_db :: "('w, seed_row) sqldb option"
  se_dialect :: dialect
  se_table :: string
  se_now :: "'w \<Rightarrow> int"
  se_seeds :: "'w named_seed list"
  se_names :: "string set"

definition seed_with_dialect :: "dialect \<Rightarrow> 'w seeder \<Rightarrow> 'w seeder" where
  "seed_with_dialect d s = s\<lparr>se_dialect := d\<rparr>"

definition seed_with_table :: "string \<Rightarrow> 'w seeder \<Rightarrow> 'w seeder" where
  "seed_with_table t s = s\<lparr>se_table := t\<rparr>"

definition new_seeder :: "('w, seed_row) sqldb option \<Rightarrow> ('w \<Rightarrow> int) \<Rightarrow> ('w seeder \<Rightarrow> 'w seeder) option list \<Rightarrow> 'w seeder" where
  "new_seeder db clock opts =
     fold (\<lambda>x s. case x of None \<Rightarrow> s | Some f \<Rightarrow> f s) opts
       \<lparr>se_db = db, se_dialect = detect_dialect (Option.bind db sd_driver), se_table = seed_table,
        se_now = clock, se_seeds = [], se_names = {}\<rparr>"

text \<open>\<open>Register\<close>: the function is an option, \<open>None\<close> for nil.\<close>

definition register :: "string \<Rightarrow> 'w seed_fn option \<Rightarrow> 'w seeder \<Rightarrow> seed_error option \<times> 'w seeder" where
  "register name fn s =
     (let name = trim_space name in
      if name = [] \<or> 255 < length name then (Some Bad_seed_name, s)
      else case fn of
        None \<Rightarrow> (Some (Seed_fn_nil name), s)
      | Some f \<Rightarrow>
          if name \<in> se_names s then (Some (Duplicate_seed name), s)
          else (None, s\<lparr>se_names := insert name (se_names s),
                        se_seeds := se_seeds s @ [\<lparr>sn_name = name, sn_fn = f\<rparr>]\<rparr>))"

text \<open>\<open>MustRegister\<close>: \<open>None\<close> is the panic.\<close>

definition must_register :: "string \<Rightarrow> 'w seed_fn option \<Rightarrow> 'w seeder \<Rightarrow> 'w seeder option" where
  "must_register name fn s = (case register name fn s of (Some _, _) \<Rightarrow> None | (None, s') \<Rightarrow> Some s')"

definition seed_file :: "string \<times> bool \<Rightarrow> bool" where
  "seed_file e \<longleftrightarrow> \<not> snd e \<and> (let lower = go_lower (fst e) in
     has_suffix ''.sql'' lower \<and> \<not> has_suffix ''.up.sql'' lower \<and> \<not> has_suffix ''.down.sql'' lower)"

text \<open>The seed of a file: its content in one call; \<open>exec\<close> is the transaction's \<open>ExecContext\<close>.\<close>

definition file_seed :: "go_fs \<Rightarrow> (string \<Rightarrow> sql_arg list \<Rightarrow> 'w \<Rightarrow> gerr option \<times> 'w) \<Rightarrow> string \<Rightarrow> 'w seed_fn" where
  "file_seed fsys exec p w = (case fs_file fsys p of
       Inl e \<Rightarrow> (Some e, w)
     | Inr b \<Rightarrow> if trim_space b = [] then (None, w) else exec b [] w)"

fun register_files :: "go_fs \<Rightarrow> (string \<Rightarrow> sql_arg list \<Rightarrow> 'w \<Rightarrow> gerr option \<times> 'w) \<Rightarrow> string \<Rightarrow> string list \<Rightarrow> 'w seeder
    \<Rightarrow> seed_error option \<times> 'w seeder" where
  "register_files fsys exec dir [] s = (None, s)"
| "register_files fsys exec dir (f # fs) s =
     (case register (''sql:'' @ f) (Some (file_seed fsys exec (path_join dir f))) s of
        (Some e, s') \<Rightarrow> (Some e, s')
      | (None, s') \<Rightarrow> register_files fsys exec dir fs s')"

definition register_sql_dir :: "go_fs \<Rightarrow> (string \<Rightarrow> sql_arg list \<Rightarrow> 'w \<Rightarrow> gerr option \<times> 'w) \<Rightarrow> string \<Rightarrow> 'w seeder
    \<Rightarrow> seed_error option \<times> 'w seeder" where
  "register_sql_dir fsys exec dir s =
     (if \<not> fs_valid_path dir then (Some (Bad_seed_dir dir), s)
      else case fs_dir fsys dir of
        Inl e \<Rightarrow> (Some (Seed_dir_failed e), s)
      | Inr entries \<Rightarrow> register_files fsys exec dir (sort (map fst (filter seed_file entries))) s)"

definition seed_names :: "'w seeder \<Rightarrow> string list" where
  "seed_names s = map sn_name (se_seeds s)"

section \<open>The history table\<close>

definition seed_qt :: "'w seeder \<Rightarrow> seed_error + string" where
  "seed_qt s = (case quote_ident (se_dialect s) (se_table s) of Inl e \<Rightarrow> Inl (Seed_ident e) | Inr q \<Rightarrow> Inr q)"

definition seed_ddl :: "'w seeder \<Rightarrow> string \<Rightarrow> string" where
  "seed_ddl s qt = (case se_dialect s of
       SQLServer \<Rightarrow> ''IF OBJECT_ID(N'' @ [CHR 0x27] @ se_table s @ [CHR 0x27] @ '', N'' @ [CHR 0x27] @ ''U'' @ [CHR 0x27]
         @ '') IS NULL CREATE TABLE '' @ qt
         @ '' (name NVARCHAR(255) NOT NULL PRIMARY KEY, applied_at DATETIME2 NOT NULL)''
     | MySQL \<Rightarrow> ''CREATE TABLE IF NOT EXISTS '' @ qt
         @ '' (name VARCHAR(255) NOT NULL PRIMARY KEY, applied_at DATETIME(6) NOT NULL)''
     | _ \<Rightarrow> ''CREATE TABLE IF NOT EXISTS '' @ qt
         @ '' (name VARCHAR(255) NOT NULL PRIMARY KEY, applied_at TIMESTAMP NOT NULL)'')"

definition seed_ensure_table :: "'w seeder \<Rightarrow> ('w, seed_row) sqldb \<Rightarrow> 'w \<Rightarrow> seed_error option \<times> 'w" where
  "seed_ensure_table s db w = (case seed_qt s of
       Inl e \<Rightarrow> (Some e, w)
     | Inr qt \<Rightarrow> (let (e, w1) = sd_exec db OnDb (seed_ddl s qt) [] w in (map_option Seed_db e, w1)))"

definition seed_time :: "time_value \<Rightarrow> int" where
  "seed_time v = (case v of TTime t \<Rightarrow> t | _ \<Rightarrow> zero_time)"

definition seed_applied :: "'w seeder \<Rightarrow> ('w, seed_row) sqldb \<Rightarrow> 'w \<Rightarrow> (seed_error + (string \<rightharpoonup> int)) \<times> 'w" where
  "seed_applied s db w = (case seed_qt s of
       Inl e \<Rightarrow> (Inl e, w)
     | Inr qt \<Rightarrow> (case sd_query db (''SELECT name, applied_at FROM '' @ qt) w of
           (Inl e, w1) \<Rightarrow> (Inl (Seed_db e), w1)
         | (Inr rows, w1) \<Rightarrow> (Inr (fold (\<lambda>(n, v) m. m(n \<mapsto> seed_time v)) rows Map.empty), w1)))"

text \<open>\<open>Applied\<close>. On a nil database the code panics, \<open>None\<close>.\<close>

definition applied_seeds :: "'w seeder \<Rightarrow> 'w \<Rightarrow> ((seed_error + (string \<rightharpoonup> int)) \<times> 'w) option" where
  "applied_seeds s w = (case se_db s of
       None \<Rightarrow> (case seed_qt s of Inl e \<Rightarrow> Some (Inl e, w) | Inr _ \<Rightarrow> None)
     | Some db \<Rightarrow> Some (case seed_ensure_table s db w of
           (Some e, w1) \<Rightarrow> (Inl e, w1)
         | (None, w1) \<Rightarrow> seed_applied s db w1))"

section \<open>Running\<close>

definition seed_update_sql :: "dialect \<Rightarrow> string \<Rightarrow> string" where
  "seed_update_sql d qt = ''UPDATE '' @ qt @ '' SET applied_at = '' @ placeholder d 1 @ '' WHERE name = '' @ placeholder d 2"

definition seed_insert_sql :: "dialect \<Rightarrow> string \<Rightarrow> string" where
  "seed_insert_sql d qt = ''INSERT INTO '' @ qt @ '' (name, applied_at) VALUES ('' @ placeholder d 1 @ '', ''
     @ placeholder d 2 @ '')''"

definition seed_and_record :: "'w seeder \<Rightarrow> ('w, seed_row) sqldb \<Rightarrow> string \<Rightarrow> bool \<Rightarrow> 'w named_seed \<Rightarrow> 'w
    \<Rightarrow> seed_error option \<times> 'w" where
  "seed_and_record s db qt already sd w = (case sn_fn sd w of
       (Some e, w1) \<Rightarrow> (Some (Seed_db e), w1)
     | (None, w1) \<Rightarrow>
         (let now = se_now s w1;
              (e, w2) = (if already
                then sd_exec db OnTx (seed_update_sql (se_dialect s) qt) [ATime now, AStr (sn_name sd)] w1
                else sd_exec db OnTx (seed_insert_sql (se_dialect s) qt) [AStr (sn_name sd), ATime now] w1)
          in (map_option History_failed e, w2)))"

definition run_one :: "'w seeder \<Rightarrow> ('w, seed_row) sqldb \<Rightarrow> bool \<Rightarrow> 'w named_seed \<Rightarrow> 'w \<Rightarrow> seed_error option \<times> 'w" where
  "run_one s db already sd w = (case seed_qt s of
       Inl e \<Rightarrow> (Some e, w)
     | Inr qt \<Rightarrow> tx_scope db Seed_db (seed_and_record s db qt already sd) w)"

text \<open>Which seeds run: \<open>force\<close> is nil (\<open>None\<close>) or a set of names, and only counts when forcing.\<close>

definition run_it :: "bool \<Rightarrow> string set option \<Rightarrow> bool \<Rightarrow> string \<Rightarrow> bool" where
  "run_it force_mode force already name =
     (if \<not> force_mode then \<not> already else case force of None \<Rightarrow> True | Some ns \<Rightarrow> name \<in> ns)"

fun seed_loop :: "'w seeder \<Rightarrow> ('w, seed_row) sqldb \<Rightarrow> (string \<rightharpoonup> int) \<Rightarrow> string set option \<Rightarrow> bool
    \<Rightarrow> 'w named_seed list \<Rightarrow> string list \<Rightarrow> 'w \<Rightarrow> (string list \<times> seed_error option) \<times> 'w" where
  "seed_loop s db don force mode [] acc w = ((acc, None), w)"
| "seed_loop s db don force mode (sd # sds) acc w =
     (let already = (don (sn_name sd) \<noteq> None) in
      if \<not> run_it mode force already (sn_name sd) then seed_loop s db don force mode sds acc w
      else case run_one s db already sd w of
        (Some e, w1) \<Rightarrow> ((acc, Some (Seed_failed (sn_name sd) e)), w1)
      | (None, w1) \<Rightarrow> seed_loop s db don force mode sds (acc @ [sn_name sd]) w1)"

definition run_seeds_of :: "'w seeder \<Rightarrow> string set option \<Rightarrow> bool \<Rightarrow> 'w \<Rightarrow> (string list \<times> seed_error option) \<times> 'w" where
  "run_seeds_of s force mode w = (case se_db s of
       None \<Rightarrow> (([], Some Seed_db_nil), w)
     | Some db \<Rightarrow> (case seed_ensure_table s db w of
           (Some e, w1) \<Rightarrow> (([], Some (Seed_table_failed e)), w1)
         | (None, w1) \<Rightarrow> (case seed_applied s db w1 of
               (Inl e, w2) \<Rightarrow> (([], Some e), w2)
             | (Inr don, w2) \<Rightarrow> seed_loop s db don force mode (se_seeds s) [] w2)))"

definition run_seeder :: "'w seeder \<Rightarrow> 'w \<Rightarrow> (string list \<times> seed_error option) \<times> 'w" where
  "run_seeder s w = run_seeds_of s None False w"

definition run_force :: "'w seeder \<Rightarrow> string list \<Rightarrow> 'w \<Rightarrow> (string list \<times> seed_error option) \<times> 'w" where
  "run_force s names w =
     (if names = [] then run_seeds_of s None True w
      else case List.find (\<lambda>n. n \<notin> se_names s) names of
        Some n \<Rightarrow> (([], Some (Unknown_seed n)), w)
      | None \<Rightarrow> run_seeds_of s (Some (set names)) True w)"

text \<open>\<open>RunSeeds\<close>: the functions one after the other, no record and no transaction.\<close>

fun run_seeds :: "('w \<Rightarrow> gerr option \<times> 'w) list \<Rightarrow> 'w \<Rightarrow> seed_error option \<times> 'w" where
  "run_seeds [] w = (None, w)"
| "run_seeds (f # fs) w = (case f w of (Some e, w1) \<Rightarrow> (Some (Seed_db e), w1) | (None, w1) \<Rightarrow> run_seeds fs w1)"

interpretation sl: sequential_runner
    "\<lambda>sd. \<not> run_it mode force (don (sn_name sd) \<noteq> None) (sn_name sd)"
    "\<lambda>sd w. case run_one s db (don (sn_name sd) \<noteq> None) sd w of
       (None, w1) \<Rightarrow> (None, w1) | (Some e, w1) \<Rightarrow> (Some (Seed_failed (sn_name sd) e), w1)"
    sn_name "seed_loop s db don force mode" for s db don force mode
  by unfold_locales (auto split: prod.splits option.splits)

section \<open>Registered seeds\<close>

text \<open>The registration calls a program may make on a seeder.\<close>

inductive seed_step :: "'w seeder \<Rightarrow> 'w seeder \<Rightarrow> bool" where
  reg: "register name fn s = (r, s') \<Longrightarrow> seed_step s s'"
| dir: "register_sql_dir fsys exec d s = (r, s') \<Longrightarrow> seed_step s s'"

inductive_cases seed_stepE: "seed_step s s'"

definition seeds_ok :: "'w seeder \<Rightarrow> bool" where
  "seeds_ok s \<longleftrightarrow> distinct (seed_names s) \<and> se_names s = set (seed_names s)
   \<and> (\<forall>n\<in>set (seed_names s). n \<noteq> [] \<and> length n \<le> 255)"

lemma register_ok: "seeds_ok s \<Longrightarrow> register name fn s = (r, s') \<Longrightarrow> seeds_ok s'"
  by (auto simp: register_def seeds_ok_def seed_names_def Let_def split: if_splits option.splits)

lemma register_files_ok: "seeds_ok s \<Longrightarrow> register_files fsys exec dir fs s = (r, s') \<Longrightarrow> seeds_ok s'"
  by (induction fs arbitrary: s) (auto split: prod.splits option.splits dest: register_ok)

lemma new_seeder_empty:
  assumes "\<forall>f. Some f \<in> set opts \<longrightarrow> (\<forall>s. se_seeds (f s) = se_seeds s \<and> se_names (f s) = se_names s)"
  shows "seeds_ok (new_seeder db clock opts)"
proof -
  have "se_seeds (fold (\<lambda>x s. case x of None \<Rightarrow> s | Some f \<Rightarrow> f s) opts s) = se_seeds s
      \<and> se_names (fold (\<lambda>x s. case x of None \<Rightarrow> s | Some f \<Rightarrow> f s) opts s) = se_names s" for s
    using assms by (induction opts arbitrary: s) (auto split: option.splits)
  then show ?thesis by (simp add: new_seeder_def seeds_ok_def seed_names_def)
qed

interpretation sg: transition_system "\<lambda>s. s = new_seeder db clock []" seed_step seeds_ok for db clock
proof
  show "seeds_ok s" if "s = new_seeder db clock []" for s
    unfolding that by (rule new_seeder_empty) simp
  show "seeds_ok t" if "seeds_ok s" and "seed_step s t" for s t
    using that(2,1) register_ok register_files_ok
    by (cases rule: seed_step.cases) (fastforce simp: register_sql_dir_def split: if_splits sum.splits)+
qed

text \<open>
  However seeds are registered, one by one or from directories, with errors in between: no two
  have the same name, the set of known names is exactly theirs, and no name is empty or longer
  than the history table's column.
\<close>

theorem registered_seeds_ok:
  assumes "seed_step\<^sup>*\<^sup>* (new_seeder db clock []) s"
  shows "distinct (seed_names s) \<and> se_names s = set (seed_names s)
    \<and> (\<forall>n\<in>set (seed_names s). n \<noteq> [] \<and> length n \<le> 255)"
  using sg.inv_reachable [OF refl assms] by (simp add: seeds_ok_def)

section \<open>Runs\<close>

text \<open>
  What a run relies on. \<open>hist\<close> is the content of the history table, \<open>eff\<close> the seeds that have taken
  effect: a seed that succeeds leaves its effect and does not touch the history table, and no seed
  ends the transaction it is given.
\<close>

definition seeding :: "'w seeder \<Rightarrow> ('w, seed_row) sqldb \<Rightarrow> string \<Rightarrow> ('w \<Rightarrow> string list) \<Rightarrow> ('w \<Rightarrow> string list)
    \<Rightarrow> ('w \<Rightarrow> string list \<times> string list) \<Rightarrow> bool" where
  "seeding s db qt hist eff saved \<longleftrightarrow>
     (\<forall>w r w'. sd_exec db OnDb (seed_ddl s qt) [] w = (r, w') \<longrightarrow> hist w' = hist w \<and> eff w' = eff w)
   \<and> (\<forall>w r w'. sd_query db (''SELECT name, applied_at FROM '' @ qt) w = (r, w') \<longrightarrow>
        hist w' = hist w \<and> eff w' = eff w \<and> (\<forall>rows. r = Inr rows \<longrightarrow> map fst rows = hist w))
   \<and> (\<forall>n t w w'. sd_exec db OnTx (seed_insert_sql (se_dialect s) qt) [AStr n, ATime t] w = (None, w') \<longrightarrow>
        hist w' = hist w @ [n] \<and> eff w' = eff w)
   \<and> (\<forall>n t w w'. sd_exec db OnTx (seed_update_sql (se_dialect s) qt) [ATime t, AStr n] w = (None, w') \<longrightarrow>
        hist w' = hist w \<and> eff w' = eff w)
   \<and> (\<forall>sd\<in>set (se_seeds s). \<forall>w w'. sn_fn sd w = (None, w') \<longrightarrow> hist w' = hist w \<and> eff w' = eff w @ [sn_name sd])
   \<and> (\<forall>sd\<in>set (se_seeds s). \<forall>w r w'. sn_fn sd w = (r, w') \<longrightarrow> saved w' = saved w)"

lemma seed_and_record_effect:
  assumes "seeding s db qt hist eff saved" and "sd \<in> set (se_seeds s)"
    and "seed_and_record s db qt already sd w = (None, w')"
  shows "hist w' = hist w @ (if already then [] else [sn_name sd]) \<and> eff w' = eff w @ [sn_name sd]"
proof -
  obtain e w1 where f: "sn_fn sd w = (e, w1)" by fastforce
  have e: "e = None" using assms(3) f by (auto simp: seed_and_record_def split: option.splits)
  have w1: "hist w1 = hist w \<and> eff w1 = eff w @ [sn_name sd]"
    using assms(1,2) f e unfolding seeding_def by blast
  show ?thesis
  proof (cases already)
    case True
    then have "sd_exec db OnTx (seed_update_sql (se_dialect s) qt) [ATime (se_now s w1), AStr (sn_name sd)] w1 = (None, w')"
      using assms(3) f e by (auto simp: seed_and_record_def Let_def split: prod.splits)
    with assms(1) have "hist w' = hist w1 \<and> eff w' = eff w1" unfolding seeding_def by blast
    with w1 True show ?thesis by simp
  next
    case False
    then have "sd_exec db OnTx (seed_insert_sql (se_dialect s) qt) [AStr (sn_name sd), ATime (se_now s w1)] w1 = (None, w')"
      using assms(3) f e by (auto simp: seed_and_record_def Let_def split: prod.splits)
    with assms(1) have "hist w' = hist w1 @ [sn_name sd] \<and> eff w' = eff w1" unfolding seeding_def by blast
    with w1 False show ?thesis by simp
  qed
qed

lemma run_one_effect:
  assumes law: "seeding s db qt hist eff saved" and tx: "tx_laws db (\<lambda>w. (hist w, eff w)) saved"
    and qt: "seed_qt s = Inr qt" and sd: "sd \<in> set (se_seeds s)" and run: "run_one s db already sd w = (e, w')"
  shows "if e = None then hist w' = hist w @ (if already then [] else [sn_name sd]) \<and> eff w' = eff w @ [sn_name sd]
    else hist w' = hist w \<and> eff w' = eff w"
proof -
  let ?f = "seed_and_record s db qt already sd"
  have saved: "saved v' = saved v" if "?f v = (x, v')" for v x v'
  proof -
    obtain e1 w1 where f: "sn_fn sd v = (e1, w1)" by fastforce
    have "saved w1 = saved v" using law sd f unfolding seeding_def by blast
    then show ?thesis
      using that f tx_lawsD(4) [OF tx]
      by (auto simp: seed_and_record_def Let_def split: option.splits if_splits prod.splits)
  qed
  have "tx_scope db Seed_db ?f w = (e, w')" using run qt by (simp add: run_one_def)
  from tx_scope_atomic [OF tx this saved] show ?thesis
    using seed_and_record_effect [OF law sd, of already] by (cases e) fastforce+
qed

lemma fold_upd_dom: "dom (fold (\<lambda>(n, v) m. m(n \<mapsto> seed_time v)) rows m) = dom m \<union> fst ` set rows"
  by (induction rows arbitrary: m) auto

text \<open>The seeds a run selects, and what is new in the history table after some of them.\<close>

definition selected :: "bool \<Rightarrow> string set option \<Rightarrow> string list \<Rightarrow> 'w named_seed list \<Rightarrow> string list" where
  "selected mode force h sds = filter (\<lambda>n. run_it mode force (n \<in> set h) n) (map sn_name sds)"

lemma seed_loop_effect:
  fixes s :: "'a seeder"
  assumes law: "seeding s db qt hist eff saved" and tx: "tx_laws db (\<lambda>w. (hist w, eff w)) saved"
    and qt: "seed_qt s = Inr qt" and don: "dom don = set (hist w)"
    and run: "seed_loop s db don force mode (se_seeds s) [] w = ((out, e), w')"
  shows "\<exists>rest. selected mode force (hist w) (se_seeds s) = out @ rest \<and> (e = None \<longleftrightarrow> rest = [])
    \<and> hist w' = hist w @ filter (\<lambda>n. n \<notin> set (hist w)) out \<and> eff w' = eff w @ out"
proof -
  have already: "don n \<noteq> None \<longleftrightarrow> n \<in> set (hist w)" for n using don by auto
  let ?sk = "\<lambda>sd :: 'a named_seed. \<not> run_it mode force (don (sn_name sd) \<noteq> None) (sn_name sd)"
  have pend: "sl.pending mode force don xs = filter (\<lambda>sd. \<not> ?sk sd) xs" for xs
    by (rule sl.pending_def)
  have sel: "selected mode force (hist w) (se_seeds s) = map sn_name (sl.pending mode force don (se_seeds s))"
    unfolding pend selected_def filter_map comp_def by (simp only: already not_not)
  let ?I = "\<lambda>(ds :: 'a named_seed list) v. hist v = hist w @ filter (\<lambda>n. n \<notin> set (hist w)) (map sn_name ds) \<and> eff v = eff w @ map sn_name ds"
  have "\<exists>ds rest. sl.pending mode force don (se_seeds s) = ds @ rest \<and> out = map sn_name ds
      \<and> (e = None \<longleftrightarrow> rest = []) \<and> ?I ds w'"
  proof (rule sl.loop_split [OF run])
    show "?I [] w" by simp
  next
    fix ys y v v'
    assume y: "y \<in> set (sl.pending mode force don (se_seeds s))" and I: "?I ys v"
      and r: "(case run_one s db (don (sn_name y) \<noteq> None) y v of
         (None, w1) \<Rightarrow> (None, w1) | (Some e, w1) \<Rightarrow> (Some (Seed_failed (sn_name y) e), w1)) = (None, v')"
    have "y \<in> set (se_seeds s)" using y unfolding pend by simp
    moreover have "run_one s db (don (sn_name y) \<noteq> None) y v = (None, v')"
      using r by (auto split: prod.splits option.splits)
    ultimately show "?I (ys @ [y]) v'"
      using run_one_effect [OF law tx qt] I already [of "sn_name y"] by fastforce
  next
    fix ys y v v' x
    assume y: "y \<in> set (sl.pending mode force don (se_seeds s))" and I: "?I ys v"
      and r: "(case run_one s db (don (sn_name y) \<noteq> None) y v of
         (None, w1) \<Rightarrow> (None, w1) | (Some e, w1) \<Rightarrow> (Some (Seed_failed (sn_name y) e), w1)) = (Some x, v')"
    have "y \<in> set (se_seeds s)" using y unfolding pend by simp
    moreover obtain z where "run_one s db (don (sn_name y) \<noteq> None) y v = (Some z, v')"
      using r by (auto split: prod.splits option.splits)
    ultimately show "?I ys v'" using run_one_effect [OF law tx qt] I by fastforce
  qed
  then obtain ds rest where ds: "sl.pending mode force don (se_seeds s) = ds @ rest" "out = map sn_name ds"
      "e = None \<longleftrightarrow> rest = []" "?I ds w'" by blast
  then show ?thesis unfolding sel by (intro exI [of _ "map sn_name rest"]) simp
qed

lemma run_seeds_of_effect:
  assumes db: "se_db s = Some db" and qt: "seed_qt s = Inr qt"
    and law: "seeding s db qt hist eff saved" and tx: "tx_laws db (\<lambda>w. (hist w, eff w)) saved"
    and run: "run_seeds_of s force mode w = ((out, e), w')"
  shows "\<exists>rest. selected mode force (hist w) (se_seeds s) = out @ rest \<and> (e = None \<longrightarrow> rest = [])
    \<and> hist w' = hist w @ filter (\<lambda>n. n \<notin> set (hist w)) out \<and> eff w' = eff w @ out"
proof -
  obtain t w1 where t: "sd_exec db OnDb (seed_ddl s qt) [] w = (t, w1)" by fastforce
  obtain q w2 where q: "sd_query db (''SELECT name, applied_at FROM '' @ qt) w1 = (q, w2)" by fastforce
  note laws = law [unfolded seeding_def]
  have w1: "hist w1 = hist w \<and> eff w1 = eff w"
    using laws [THEN conjunct1] t by (elim allE impE)
  have w2: "hist w2 = hist w1 \<and> eff w2 = eff w1 \<and> (\<forall>rows. q = Inr rows \<longrightarrow> map fst rows = hist w1)"
    using laws [THEN conjunct2, THEN conjunct1] q by (elim allE impE)
  consider (stopped) "out = []" "e \<noteq> None" "hist w' = hist w" "eff w' = eff w"
    | (ran) rows where "q = Inr rows" "seed_loop s db (fold (\<lambda>(n, v) m. m(n \<mapsto> seed_time v)) rows Map.empty) force mode
        (se_seeds s) [] w2 = ((out, e), w')"
    using run db qt t q w1 w2
    by (cases t; cases q) (auto simp: run_seeds_of_def seed_ensure_table_def seed_applied_def)
  then show ?thesis
  proof cases
    case stopped
    then show ?thesis by (intro exI [of _ "selected mode force (hist w) (se_seeds s)"]) auto
  next
    case ran
    have "fst ` set rows = set (hist w2)" using w2 ran(1) by (metis list.set_map)
    then have "dom (fold (\<lambda>(n, v) m. m(n \<mapsto> seed_time v)) rows Map.empty) = set (hist w2)"
      by (simp add: fold_upd_dom)
    from seed_loop_effect [OF law tx qt this ran(2)] w1 w2 show ?thesis by auto
  qed
qed

text \<open>
  \<open>Run\<close> runs exactly the seeds that are not in the history table, in registration order, each
  all or nothing: what it reports are the first of them (all, when it reports no error), exactly
  these have taken effect, in this order, and exactly their names are new in the history table; a
  second run after one without error runs nothing.
\<close>

theorem run_runs_pending:
  assumes "se_db s = Some db" and "seed_qt s = Inr qt"
    and "seeding s db qt hist eff saved" and "tx_laws db (\<lambda>w. (hist w, eff w)) saved"
    and run: "run_seeder s w = ((out, e), w')"
  shows "(\<exists>rest. filter (\<lambda>n. n \<notin> set (hist w)) (seed_names s) = out @ rest \<and> (e = None \<longrightarrow> rest = []))
    \<and> hist w' = hist w @ out \<and> eff w' = eff w @ out
    \<and> (e = None \<longrightarrow> fst (fst (run_seeder s w')) = [])"
proof -
  have sel: "selected False None h (se_seeds s) = filter (\<lambda>n. n \<notin> set h) (seed_names s)" for h
    by (simp add: selected_def run_it_def seed_names_def)
  note effect = run_seeds_of_effect [OF assms(1-4), of None False, folded run_seeder_def, unfolded sel]
  from effect [OF run] obtain rest where rest:
      "filter (\<lambda>n. n \<notin> set (hist w)) (seed_names s) = out @ rest" "e = None \<longrightarrow> rest = []"
      "hist w' = hist w @ filter (\<lambda>n. n \<notin> set (hist w)) out" "eff w' = eff w @ out" by blast
  have "set out \<subseteq> set (filter (\<lambda>n. n \<notin> set (hist w)) (seed_names s))" unfolding rest(1) by simp
  then have "filter (\<lambda>n. n \<notin> set (hist w)) out = out" by (auto simp: filter_id_conv)
  then have w': "hist w' = hist w @ out" using rest(3) by simp
  have "fst (fst (run_seeder s w')) = []" if "e = None"
  proof -
    obtain out2 e2 w2 where second: "run_seeder s w' = ((out2, e2), w2)" by (metis prod_cases3 surj_pair)
    from that rest have "out = filter (\<lambda>n. n \<notin> set (hist w)) (seed_names s)" by simp
    then have "filter (\<lambda>n. n \<notin> set (hist w')) (seed_names s) = []"
      unfolding w' by (auto simp: filter_empty_conv)
    with effect [OF second] second show ?thesis by auto
  qed
  with rest w' show ?thesis by blast
qed

text \<open>
  \<open>RunForce\<close> with names runs exactly the named seeds, whether they have run before or not, in
  registration order whatever the order of the names, and without names all of them; a name that is
  not registered runs nothing. The history table gets no second record of a seed.
\<close>

theorem run_force_selects:
  assumes "se_db s = Some db" and "seed_qt s = Inr qt"
    and "seeding s db qt hist eff saved" and "tx_laws db (\<lambda>w. (hist w, eff w)) saved"
    and names: "se_names s = set (seed_names s)" "distinct (seed_names s)"
    and run: "run_force s ns w = ((out, e), w')"
  shows "if set ns \<subseteq> se_names s
    then (\<exists>rest. filter (\<lambda>n. ns = [] \<or> n \<in> set ns) (seed_names s) = out @ rest \<and> (e = None \<longrightarrow> rest = []))
      \<and> eff w' = eff w @ out \<and> (distinct (hist w) \<longrightarrow> distinct (hist w')) \<and> set (hist w') = set (hist w) \<union> set out
    else (\<exists>n\<in>set ns - se_names s. e = Some (Unknown_seed n)) \<and> out = [] \<and> w' = w"
proof (cases "set ns \<subseteq> se_names s")
  case True
  define force where "force = (if ns = [] then None else Some (set ns))"
  have find: "List.find (\<lambda>n. n \<notin> se_names s) ns = None" using True by (auto simp: find_None_iff)
  have "run_seeds_of s force True w = ((out, e), w')"
    using run find by (simp add: run_force_def force_def split: if_splits)
  from run_seeds_of_effect [OF assms(1-4) this] obtain rest where rest:
      "selected True force (hist w) (se_seeds s) = out @ rest" "e = None \<longrightarrow> rest = []"
      "hist w' = hist w @ filter (\<lambda>n. n \<notin> set (hist w)) out" "eff w' = eff w @ out" by blast
  have sel: "selected True force (hist w) (se_seeds s) = filter (\<lambda>n. ns = [] \<or> n \<in> set ns) (seed_names s)"
    by (simp add: selected_def run_it_def seed_names_def force_def)
  have "distinct out" using distinct_filter [OF names(2)] rest(1) unfolding sel by (metis distinct_append)
  then show ?thesis using True rest unfolding sel by auto
next
  case False
  then obtain n where "List.find (\<lambda>n. n \<notin> se_names s) ns = Some n"
    by (cases "List.find (\<lambda>n. n \<notin> se_names s) ns") (auto simp: find_None_iff)
  moreover from this have "n \<in> set ns - se_names s" by (auto simp: find_Some_iff)
  moreover have "ns \<noteq> []" using False by auto
  ultimately show ?thesis using False run by (auto simp: run_force_def)
qed

section \<open>A database for the witnesses\<close>

type_synonym seed_world = "(string list \<times> string list) \<times> (string list \<times> string list)"

definition demo_seed_exec :: "execer \<Rightarrow> string \<Rightarrow> sql_arg list \<Rightarrow> seed_world \<Rightarrow> gerr option \<times> seed_world" where
  "demo_seed_exec ex q xs w = (case (xs, w) of
       ([AStr n, ATime t], ((h, f), sv)) \<Rightarrow> (None, ((h @ [n], f), sv))
     | _ \<Rightarrow> (None, w))"

definition demo_seed_db :: "(seed_world, seed_row) sqldb" where
  "demo_seed_db = \<lparr>sd_driver = None, sd_exec = demo_seed_exec,
     sd_query = (\<lambda>_ w. (Inr (map (\<lambda>n. (n, TOther)) (fst (fst w))), w)),
     sd_begin = (\<lambda>w. (None, (fst w, fst w))), sd_commit = (\<lambda>w. (None, w)),
     sd_rollback = (\<lambda>w. (snd w, snd w))\<rparr>"

definition demo_seed :: "string \<Rightarrow> seed_world seed_fn" where
  "demo_seed n = (\<lambda>((h, f), sv). (if n = ''bad'' then Some (err_new ''bad'') else None, ((h, f @ [n]), sv)))"

definition demo_seeder :: "seed_world seeder" where
  "demo_seeder = snd (register ''bad'' (Some (demo_seed ''bad'')) (snd (register '' roles '' (Some (demo_seed ''roles''))
     (snd (register ''users'' (Some (demo_seed ''users'')) (new_seeder (Some demo_seed_db) (\<lambda>_. 0) []))))))"

lemma demo_seeder_eq: "demo_seeder = \<lparr>se_db = Some demo_seed_db, se_dialect = Generic, se_table = seed_table,
    se_now = (\<lambda>_. 0), se_seeds = [\<lparr>sn_name = ''users'', sn_fn = demo_seed ''users''\<rparr>,
      \<lparr>sn_name = ''roles'', sn_fn = demo_seed ''roles''\<rparr>, \<lparr>sn_name = ''bad'', sn_fn = demo_seed ''bad''\<rparr>],
    se_names = {''bad'', ''roles'', ''users''}\<rparr>"
proof -
  have t: "trim_space ''users'' = ''users''" "trim_space '' roles '' = ''roles''" "trim_space ''bad'' = ''bad''"
    by code_simp+
  show ?thesis
    by (simp add: demo_seeder_def register_def new_seeder_def t Let_def detect_dialect_def demo_seed_db_def)
qed

lemma demo_seeder_facts:
  "se_db demo_seeder = Some demo_seed_db" "seed_qt demo_seeder = Inr seed_table"
  "se_names demo_seeder = set (seed_names demo_seeder)" "distinct (seed_names demo_seeder)"
proof -
  have "quote_ident Generic seed_table = Inr seed_table" by code_simp
  then show "seed_qt demo_seeder = Inr seed_table" by (simp add: seed_qt_def demo_seeder_eq)
qed (auto simp: demo_seeder_eq seed_names_def)

lemma demo_seed_tx: "tx_laws demo_seed_db (\<lambda>w. (fst (fst w), snd (fst w))) snd"
  by (auto simp: tx_laws_def demo_seed_db_def demo_seed_exec_def split: list.splits sql_arg.splits)

lemma demo_seeding: "seeding demo_seeder demo_seed_db seed_table (\<lambda>w. fst (fst w)) (\<lambda>w. snd (fst w)) snd"
  by (auto simp: seeding_def demo_seeder_eq demo_seed_db_def demo_seed_exec_def demo_seed_def comp_def
      split: prod.splits)

lemma registered_seeds_ok_witness:
  "\<exists>s :: seed_world seeder. seed_step\<^sup>*\<^sup>* (new_seeder None (\<lambda>_. 0) []) s \<and> seed_names s = [''a''] \<and> distinct (seed_names s)"
proof -
  let ?s0 = "new_seeder None (\<lambda>_. 0) [] :: seed_world seeder"
  obtain r s where s: "register ''a'' (Some (demo_seed ''a'')) ?s0 = (r, s)" by fastforce
  have steps: "seed_step\<^sup>*\<^sup>* ?s0 s" using seed_step.reg [OF s] by blast
  have "trim_space ''a'' = ''a''" by code_simp
  then have "seed_names s = [''a'']" using s by (auto simp: register_def new_seeder_def seed_names_def Let_def)
  with steps registered_seeds_ok [OF steps] show ?thesis by blast
qed

lemma demo_seed_ensure: "seed_ensure_table demo_seeder demo_seed_db w = (None, w)"
  by (simp add: seed_ensure_table_def demo_seeder_facts demo_seed_db_def demo_seed_exec_def)

lemma demo_seed_applied: "seed_applied demo_seeder demo_seed_db ((h, f), sv) =
    (Inr (fold (\<lambda>(n, v) m. m(n \<mapsto> seed_time v)) (map (\<lambda>n. (n, TOther)) h) Map.empty), ((h, f), sv))"
  by (simp add: seed_applied_def demo_seeder_facts demo_seed_db_def)

lemma demo_run_one: "run_one demo_seeder demo_seed_db al \<lparr>sn_name = n, sn_fn = demo_seed n\<rparr> ((h, f), sv) =
    (if n = ''bad'' then (Some (Seed_db (err_new ''bad'')), ((h, f), (h, f)))
     else (None, ((if al then h else h @ [n], f @ [n]), (h, f))))"
  by (simp add: run_one_def demo_seeder_facts tx_scope_def demo_seed_db_def seed_and_record_def demo_seed_def
      demo_seed_exec_def Let_def)

lemma demo_seeds: "se_seeds demo_seeder = [\<lparr>sn_name = ''users'', sn_fn = demo_seed ''users''\<rparr>,
      \<lparr>sn_name = ''roles'', sn_fn = demo_seed ''roles''\<rparr>, \<lparr>sn_name = ''bad'', sn_fn = demo_seed ''bad''\<rparr>]"
  by (simp add: demo_seeder_eq)

lemma run_runs_pending_witness:
  "\<exists>w'. run_seeder demo_seeder (([''users''], []), ([], [])) = (([''roles''], Some (Seed_failed ''bad'' (Seed_db (err_new ''bad'')))), w')
    \<and> fst (fst w') = [''users'', ''roles''] \<and> snd (fst w') = [''roles'']"
proof -
  have run: "run_seeder demo_seeder (([''users''], []), ([], [])) =
      (([''roles''], Some (Seed_failed ''bad'' (Seed_db (err_new ''bad'')))),
       (([''users'', ''roles''], [''roles'']), ([''users'', ''roles''], [''roles''])))"
    by (simp add: run_seeder_def run_seeds_of_def demo_seeder_facts demo_seed_ensure demo_seed_applied demo_seeds
        run_it_def demo_run_one)
  from run_runs_pending [OF demo_seeder_facts(1,2) demo_seeding demo_seed_tx run] run show ?thesis by simp
qed

lemma run_force_selects_witness:
  "run_force demo_seeder [''users'', ''nobody''] (([], []), ([], [])) = (([], Some (Unknown_seed ''nobody'')), (([], []), ([], [])))"
proof -
  obtain x w' where x: "run_force demo_seeder [''users'', ''nobody''] (([], []), ([], [])) = (x, w')"
    by (metis surj_pair)
  obtain out e where "x = (out, e)" by fastforce
  with x have run: "run_force demo_seeder [''users'', ''nobody''] (([], []), ([], [])) = ((out, e), w')" by simp
  have diff: "set [''users'', ''nobody''] - se_names demo_seeder = {''nobody''}" by (auto simp: demo_seeder_eq)
  then have "\<not> set [''users'', ''nobody''] \<subseteq> se_names demo_seeder" by blast
  with run_force_selects [OF demo_seeder_facts(1,2) demo_seeding demo_seed_tx demo_seeder_facts(3,4) run]
  have "\<exists>n\<in>set [''users'', ''nobody''] - se_names demo_seeder. e = Some (Unknown_seed n)" "out = []" "w' = (([], []), ([], []))"
    by (simp_all only: if_False)
  with run show ?thesis unfolding diff by simp
qed

end
