(* ===== verification/Base64.thy ===== *)
theory Base64
  imports Prelude
begin

text \<open>
  \<open>encoding/base64\<close> as the tokens use it: \<open>RawURLEncoding\<close>, the URL alphabet without padding.
  Decoding is Go's: line breaks are skipped, and the bits that a last, shorter group leaves over
  are not checked. Also the hexadecimal encoding of bytes.
\<close>

definition b64_char :: "nat \<Rightarrow> char" where
  "b64_char n =
     (if n < 26 then char_of (65 + n)
      else if n < 52 then char_of (71 + n)
      else if n < 62 then char_of (n - 4)
      else if n = 62 then CHR ''-''
      else CHR ''_'')"

definition b64_val :: "char \<Rightarrow> nat option" where
  "b64_val c =
     (let n = of_char c :: nat in
      if 65 \<le> n \<and> n \<le> 90 then Some (n - 65)
      else if 97 \<le> n \<and> n \<le> 122 then Some (n - 71)
      else if 48 \<le> n \<and> n \<le> 57 then Some (n + 4)
      else if c = CHR ''-'' then Some 62
      else if c = CHR ''_'' then Some 63
      else None)"

abbreviation byte :: "char \<Rightarrow> nat" where
  "byte c \<equiv> of_char c"

fun b64_encode :: "string \<Rightarrow> string" where
  "b64_encode [] = []"
| "b64_encode [a] = [b64_char (byte a div 4), b64_char (byte a mod 4 * 16)]"
| "b64_encode [a, b] =
     [b64_char (byte a div 4), b64_char (byte a mod 4 * 16 + byte b div 16), b64_char (byte b mod 16 * 4)]"
| "b64_encode (a # b # c # s) =
     b64_char (byte a div 4) # b64_char (byte a mod 4 * 16 + byte b div 16)
     # b64_char (byte b mod 16 * 4 + byte c div 64) # b64_char (byte c mod 64) # b64_encode s"

fun b64_digits :: "nat list \<Rightarrow> string option" where
  "b64_digits [] = Some []"
| "b64_digits [p] = None"
| "b64_digits [p, q] = Some [char_of (p * 4 + q div 16)]"
| "b64_digits [p, q, r] = Some [char_of (p * 4 + q div 16), char_of (q mod 16 * 16 + r div 4)]"
| "b64_digits (p # q # r # t # s) =
     map_option (\<lambda>bs. char_of (p * 4 + q div 16) # char_of (q mod 16 * 16 + r div 4)
       # char_of (r mod 4 * 64 + t) # bs) (b64_digits s)"

definition b64_decode :: "string \<Rightarrow> string option" where
  "b64_decode s = Option.bind
     (those (map b64_val (filter (\<lambda>c. c \<noteq> CHR 0x0A \<and> c \<noteq> CHR 0x0D) s))) b64_digits"

definition hex_encode :: "string \<Rightarrow> string" where
  "hex_encode s = concat (map (\<lambda>c. [hex_char (byte c div 16), hex_char (byte c mod 16)]) s)"

section \<open>Decoding what was encoded\<close>

text \<open>The alphabet: the characters that have a value.\<close>

lemma b64_val_char: "n < 64 \<Longrightarrow> b64_val (b64_char n) = Some n"
proof -
  assume "n < 64"
  then consider "n < 26" | "26 \<le> n" "n < 52" | "52 \<le> n" "n < 62" | "n = 62" | "n = 63" by linarith
  then show ?thesis
    by cases (auto simp: b64_char_def b64_val_def Let_def)
qed

text \<open>The six-bit digits of the encoding, and the bounds that make them so.\<close>

fun b64_nums :: "string \<Rightarrow> nat list" where
  "b64_nums [] = []"
| "b64_nums [a] = [byte a div 4, byte a mod 4 * 16]"
| "b64_nums [a, b] = [byte a div 4, byte a mod 4 * 16 + byte b div 16, byte b mod 16 * 4]"
| "b64_nums (a # b # c # s) =
     byte a div 4 # (byte a mod 4 * 16 + byte b div 16) # (byte b mod 16 * 4 + byte c div 64)
     # (byte c mod 64) # b64_nums s"

lemma byte_bounds:
  "byte a div 4 < 64" "byte a mod 4 * 16 < 64" "byte a mod 16 * 4 < 64"
  "byte a mod 4 * 16 + byte b div 16 < 64" "byte b mod 16 * 4 + byte c div 64 < 64"
proof -
  have "byte a < 256" "byte b < 256" "byte c < 256" by simp_all
  moreover from this have "byte b div 16 < 16" "byte c div 64 < 4" by (simp_all add: less_mult_imp_div_less)
  moreover have "byte a mod 4 < 4" "byte a mod 16 < 16" "byte b mod 16 < 16" by simp_all
  ultimately show "byte a div 4 < 64" "byte a mod 4 * 16 < 64" "byte a mod 16 * 4 < 64"
    "byte a mod 4 * 16 + byte b div 16 < 64" "byte b mod 16 * 4 + byte c div 64 < 64"
    by (simp add: less_mult_imp_div_less, linarith+)
qed

lemma b64_encode_nums: "b64_encode s = map b64_char (b64_nums s)"
  by (induction s rule: b64_nums.induct) simp_all

lemma b64_nums_bound: "n \<in> set (b64_nums s) \<Longrightarrow> n < 64"
  by (induction s rule: b64_nums.induct) (auto simp: byte_bounds)

lemma byte_join [simp]:
  "char_of (byte a div 4 * 4 + (byte a mod 4 * 16) div 16) = a"
  "char_of (byte a div 4 * 4 + (byte a mod 4 * 16 + byte b div 16) div 16) = a"
  "char_of ((byte a mod 4 * 16 + byte b div 16) mod 16 * 16 + (byte b mod 16 * 4) div 4) = b"
  "char_of ((byte a mod 4 * 16 + byte b div 16) mod 16 * 16 + (byte b mod 16 * 4 + byte c div 64) div 4) = b"
  "char_of ((byte b mod 16 * 4 + byte c div 64) mod 4 * 64 + byte c mod 64) = c"
proof -
  have "byte b < 256" "byte c < 256" by simp_all
  then have b: "byte b div 16 < 16" and c: "byte c div 64 < 4" by (simp_all add: less_mult_imp_div_less)
  show "char_of (byte a div 4 * 4 + (byte a mod 4 * 16) div 16) = a" by simp
  show "char_of (byte a div 4 * 4 + (byte a mod 4 * 16 + byte b div 16) div 16) = a" using b by simp
  have 1: "(byte a mod 4 * 16 + byte b div 16) mod 16 = byte b div 16" using b by simp
  show "char_of ((byte a mod 4 * 16 + byte b div 16) mod 16 * 16 + (byte b mod 16 * 4) div 4) = b"
    unfolding 1 by simp
  have 2: "(byte b mod 16 * 4 + byte c div 64) div 4 = byte b mod 16" using c by simp
  show "char_of ((byte a mod 4 * 16 + byte b div 16) mod 16 * 16 + (byte b mod 16 * 4 + byte c div 64) div 4) = b"
    unfolding 1 2 by simp
  have 3: "(byte b mod 16 * 4 + byte c div 64) mod 4 = byte c div 64" using c by (simp add: mod_mult_self4)
  show "char_of ((byte b mod 16 * 4 + byte c div 64) mod 4 * 64 + byte c mod 64) = c"
    unfolding 3 by simp
qed

lemma b64_digits_nums: "b64_digits (b64_nums s) = Some s"
  by (induction s rule: b64_nums.induct)
     (simp_all only: b64_nums.simps b64_digits.simps byte_join option.map)

lemma b64_encode_chars: "c \<in> set (b64_encode s) \<Longrightarrow> b64_val c \<noteq> None"
  by (auto simp: b64_encode_nums b64_val_char b64_nums_bound)

lemma those_map_Some: "(\<And>x. x \<in> set xs \<Longrightarrow> f x = Some (g x)) \<Longrightarrow> those (map f xs) = Some (map g xs)"
  by (induction xs) auto

lemma b64_roundtrip [simp]: "b64_decode (b64_encode s) = Some s"
proof -
  have "b64_val (CHR 0x0A) = None" "b64_val (CHR 0x0D) = None" by (simp_all add: b64_val_def)
  then have "filter (\<lambda>c. c \<noteq> CHR 0x0A \<and> c \<noteq> CHR 0x0D) (b64_encode s) = b64_encode s"
    using b64_encode_chars [of _ s] unfolding filter_id_conv by metis
  moreover have "those (map b64_val (b64_encode s)) = Some (b64_nums s)"
    unfolding b64_encode_nums map_map
    by (subst those_map_Some [where g = id]) (simp_all add: b64_val_char b64_nums_bound)
  ultimately show ?thesis by (simp add: b64_decode_def b64_digits_nums)
qed

lemma b64_no_dot [simp]: "CHR ''.'' \<notin> set (b64_encode s)"
  using b64_encode_chars [of "CHR ''.''" s] by (auto simp: b64_val_def)

lemma b64_encode_Nil [simp]: "b64_encode s = [] \<longleftrightarrow> s = []"
  by (cases s rule: b64_encode.cases) simp_all

end
