(* ===== verification/Tokens.thy ===== *)
theory Tokens
  imports Validate Go_Base Base64
begin

text \<open>
  \<open>pkg/crypto\<close>: signed tokens (\<open>signed_token.go\<close>) and, in \<open>crypto.go\<close>, AES-GCM texts, HMAC
  signatures and the older tokens that carry credentials.

  \<open>token_lib\<close> holds what the code calls of the libraries: the keyed hash, the ciphers, the key
  derivation, and \<open>encoding/json\<close> for the values the tokens store. Base64 and hexadecimal are
  modelled (\<open>Base64.thy\<close>), and so are the clock's values, with Go's wrap-around and saturation.
\<close>

section \<open>Times\<close>

text \<open>
  A \<open>time.Time\<close>: seconds since year 1 as an int64, and nanoseconds. Durations are int64
  nanoseconds. \<open>time_add\<close> saturates as \<open>Time.addSec\<close> does.
\<close>

record go_time =
  gt_sec :: int
  gt_nsec :: int

definition unix_to_internal :: int where
  "unix_to_internal = 62135596800"

definition time_unix :: "int \<Rightarrow> go_time" where
  "time_unix s = \<lparr>gt_sec = wrap64 (s + unix_to_internal), gt_nsec = 0\<rparr>"

definition unix_of :: "go_time \<Rightarrow> int" where
  "unix_of t = wrap64 (gt_sec t - unix_to_internal)"

definition zero_go_time :: go_time where
  "zero_go_time = \<lparr>gt_sec = 0, gt_nsec = 0\<rparr>"

definition time_add :: "go_time \<Rightarrow> int \<Rightarrow> go_time" where
  "time_add t d =
     (let n = gt_nsec t + d; s = gt_sec t + n div 10 ^ 9 in
      \<lparr>gt_sec = (if s < - (2 ^ 63) then - (2 ^ 63 - 1) else if 2 ^ 63 \<le> s then 2 ^ 63 - 1 else s),
       gt_nsec = n mod 10 ^ 9\<rparr>)"

definition time_before :: "go_time \<Rightarrow> go_time \<Rightarrow> bool" where
  "time_before t u \<longleftrightarrow> gt_sec t < gt_sec u \<or> gt_sec t = gt_sec u \<and> gt_nsec t < gt_nsec u"

definition time_after :: "go_time \<Rightarrow> go_time \<Rightarrow> bool" where
  "time_after t u = time_before u t"

section \<open>Library functions\<close>

record token_lib =
  tl_hmac :: "string \<Rightarrow> string \<Rightarrow> string" \<comment> \<open>HMAC-SHA256: key, message\<close>
  tl_marshal :: "(string \<rightharpoonup> gval) \<Rightarrow> string option" \<comment> \<open>\<open>json.Marshal\<close> of a map\<close>
  tl_decode :: "string \<Rightarrow> (string \<rightharpoonup> gval) option" \<comment> \<open>decoding a map, numbers as \<open>json.Number\<close>\<close>
  tl_alg :: "string \<Rightarrow> string option" \<comment> \<open>the field \<open>alg\<close> of a header\<close>
  tl_number :: "string \<Rightarrow> gval" \<comment> \<open>\<open>Number.Float64\<close>, its error ignored\<close>
  tl_int_of_float :: "string \<Rightarrow> int option" \<comment> \<open>\<open>int64\<close> of \<open>Number.Float64\<close>\<close>
  tl_cred_marshal :: "string \<Rightarrow> string \<Rightarrow> int \<Rightarrow> string option" \<comment> \<open>\<open>json.Marshal(credPayload{u, p, exp})\<close>\<close>
  tl_cred_decode :: "string \<Rightarrow> (string \<times> string \<times> int) option"
  tl_argon :: "string \<Rightarrow> string \<Rightarrow> string" \<comment> \<open>Argon2id with the parameters of \<open>deriveKeyV2\<close>: key, salt\<close>
  tl_sha256 :: "string \<Rightarrow> string"
  tl_seal :: "string \<Rightarrow> string \<Rightarrow> string \<Rightarrow> string \<Rightarrow> string" \<comment> \<open>AES-GCM: key, nonce, text, additional data\<close>
  tl_open :: "string \<Rightarrow> string \<Rightarrow> string \<Rightarrow> string \<Rightarrow> string option"

section \<open>Signed tokens\<close>

definition min_signed_key_len :: nat where
  "min_signed_key_len = 32"

datatype token_error =
    Weak_key
  | Empty_subject
  | No_expiry
  | Reserved_claim string
  | Marshal_failed
  | Invalid_token string
  | Token_expired
  | Token_not_yet_valid

record token_claims =
  tc_subject :: string
  tc_issued :: go_time
  tc_expires :: go_time
  tc_custom :: "string \<rightharpoonup> gval"

definition reserved_claims :: "string list" where
  "reserved_claims = [''sub'', ''iat'', ''exp'', ''nbf'']"

record signed_config =
  sc_allow_no_expiry :: bool
  sc_leeway :: int
  sc_now :: go_time

type_synonym signed_option = "signed_config \<Rightarrow> signed_config"

definition allow_no_expiry :: signed_option where
  "allow_no_expiry c = c\<lparr>sc_allow_no_expiry := True\<rparr>"

definition with_leeway :: "int \<Rightarrow> signed_option" where
  "with_leeway d c = (if 0 < d then c\<lparr>sc_leeway := d\<rparr> else c)"

definition with_clock :: "go_time option \<Rightarrow> signed_option" where
  "with_clock now c = (case now of None \<Rightarrow> c | Some t \<Rightarrow> c\<lparr>sc_now := t\<rparr>)"

text \<open>\<open>clock\<close> is what \<open>time.Now\<close> returns; a nil option is \<open>None\<close>.\<close>

definition build_signed_cfg :: "go_time \<Rightarrow> signed_option option list \<Rightarrow> signed_config" where
  "build_signed_cfg clock opts =
     foldl (\<lambda>c ov. case ov of None \<Rightarrow> c | Some f \<Rightarrow> f c)
       \<lparr>sc_allow_no_expiry = False, sc_leeway = 0, sc_now = clock\<rparr> opts"

definition dquote :: string where
  "dquote = [CHR 0x22]"

definition jwt_header_json :: string where
  "jwt_header_json = ''{'' @ dquote @ ''alg'' @ dquote @ '':'' @ dquote @ ''HS256'' @ dquote @ '',''
     @ dquote @ ''typ'' @ dquote @ '':'' @ dquote @ ''JWT'' @ dquote @ ''}''"

definition jwt_header :: string where
  "jwt_header = b64_encode jwt_header_json"

definition sign_hs256 :: "token_lib \<Rightarrow> string \<Rightarrow> string \<Rightarrow> string" where
  "sign_hs256 L key input = tl_hmac L key input"

definition token_body :: "string \<Rightarrow> (string \<times> gval) list \<Rightarrow> int \<Rightarrow> go_time \<Rightarrow> string \<rightharpoonup> gval" where
  "token_body subject claims ttl now =
     (let b = (map_of claims)(''sub'' \<mapsto> VStr subject, ''iat'' \<mapsto> VInt (unix_of now)) in
      if 0 < ttl then b(''exp'' \<mapsto> VInt (unix_of (time_add now ttl))) else b)"

definition generate_signed_token ::
  "token_lib \<Rightarrow> go_time \<Rightarrow> string \<Rightarrow> string \<Rightarrow> (string \<times> gval) list \<Rightarrow> int \<Rightarrow> signed_option option list
    \<Rightarrow> token_error + string" where
  "generate_signed_token L clock key subject claims ttl opts =
     (let cfg = build_signed_cfg clock opts in
      if length key < min_signed_key_len then Inl Weak_key
      else if subject = [] then Inl Empty_subject
      else if ttl \<le> 0 \<and> \<not> sc_allow_no_expiry cfg then Inl No_expiry
      else case find (\<lambda>(k, v). k \<in> set reserved_claims) claims of
        Some (k, v) \<Rightarrow> Inl (Reserved_claim k)
      | None \<Rightarrow> (case tl_marshal L (token_body subject claims ttl (sc_now cfg)) of
          None \<Rightarrow> Inl Marshal_failed
        | Some payload \<Rightarrow>
            let input = jwt_header @ ''.'' @ b64_encode payload in
            Inr (input @ ''.'' @ b64_encode (sign_hs256 L key input))))"

text \<open>The claim \<open>name\<close> and whether it is there.\<close>

definition numeric_claim :: "token_lib \<Rightarrow> (string \<rightharpoonup> gval) \<Rightarrow> string \<Rightarrow> token_error + (int \<times> bool)" where
  "numeric_claim L m name = (case m name of
       None \<Rightarrow> Inr (0, False)
     | Some (VNumber n) \<Rightarrow> (case parse_int64 n of
           Some i \<Rightarrow> Inr (i, True)
         | None \<Rightarrow> (case tl_int_of_float L n of
               Some i \<Rightarrow> Inr (i, True)
             | None \<Rightarrow> Inl (Invalid_token (''claim '' @ name @ '' is not numeric''))))
     | Some _ \<Rightarrow> Inl (Invalid_token (''claim '' @ name @ '' is not numeric'')))"

fun normalize_numbers :: "token_lib \<Rightarrow> gval \<Rightarrow> gval" where
  "normalize_numbers L (VNumber n) = tl_number L n"
| "normalize_numbers L (VMap m) = VMap (map (map_prod id (normalize_numbers L)) m)"
| "normalize_numbers L (VList vs) = VList (map (normalize_numbers L) vs)"
| "normalize_numbers L v = v"

text \<open>The token without the prefix \<open>Bearer\<close>.\<close>

definition bare_token :: "string \<Rightarrow> string" where
  "bare_token token0 =
     (let token = trim_space token0 in
      if 7 < length token \<and> equal_fold (take 7 token) ''bearer '' then trim_space (drop 7 token) else token)"

text \<open>The checks of the claims, once signature and payload are.\<close>

definition check_claims :: "token_lib \<Rightarrow> signed_config \<Rightarrow> (string \<rightharpoonup> gval) \<Rightarrow> token_error + token_claims" where
  "check_claims L cfg raw =
     (let sub = (case raw ''sub'' of Some (VStr s) \<Rightarrow> s | _ \<Rightarrow> []) in
      if sub = [] then Inl (Invalid_token ''missing subject'')
      else res_bind (numeric_claim L raw ''iat'') (\<lambda>(iat, has_iat).
        res_bind (numeric_claim L raw ''exp'') (\<lambda>(exp, has_exp).
          res_bind (numeric_claim L raw ''nbf'') (\<lambda>(nbf, has_nbf).
            let now = sc_now cfg; leeway = sc_leeway cfg in
            if \<not> has_exp \<and> \<not> sc_allow_no_expiry cfg then Inl No_expiry
            else if has_exp \<and> time_after now (time_add (time_unix exp) leeway) then Inl Token_expired
            else if has_nbf \<and> time_before (time_add now leeway) (time_unix nbf) then Inl Token_not_yet_valid
            else if iat \<noteq> 0 \<and> time_before (time_add now (wrap64 (leeway + 60 * 10 ^ 9))) (time_unix iat)
            then Inl Token_not_yet_valid
            else Inr \<lparr>tc_subject = sub,
                      tc_issued = (if iat \<noteq> 0 then time_unix iat else zero_go_time),
                      tc_expires = (if has_exp then time_unix exp else zero_go_time),
                      tc_custom = (\<lambda>k. if k \<in> set reserved_claims then None
                                    else map_option (normalize_numbers L) (raw k))\<rparr>))))"

definition parse_signed_token ::
  "token_lib \<Rightarrow> go_time \<Rightarrow> string \<Rightarrow> string \<Rightarrow> signed_option option list \<Rightarrow> token_error + token_claims" where
  "parse_signed_token L clock token key opts =
     (let cfg = build_signed_cfg clock opts in
      if length key < min_signed_key_len then Inl Weak_key
      else case split_on (CHR ''.'') (bare_token token) of
        [p0, p1, p2] \<Rightarrow> (case b64_decode p0 of
          None \<Rightarrow> Inl (Invalid_token ''bad header encoding'')
        | Some hdr \<Rightarrow>
            if tl_alg L hdr \<noteq> Some ''HS256'' then Inl (Invalid_token ''unsupported algorithm'')
            else (case b64_decode p2 of
              None \<Rightarrow> Inl (Invalid_token ''bad signature encoding'')
            | Some sig \<Rightarrow>
                if sig \<noteq> sign_hs256 L key (p0 @ ''.'' @ p1) then Inl (Invalid_token ''invalid signature'')
                else (case b64_decode p1 of
                  None \<Rightarrow> Inl (Invalid_token ''bad payload encoding'')
                | Some payload \<Rightarrow> (case tl_decode L payload of
                      None \<Rightarrow> Inl (Invalid_token ''bad payload'')
                    | Some raw \<Rightarrow> check_claims L cfg raw))))
      | _ \<Rightarrow> Inl (Invalid_token ''malformed token''))"


section \<open>Tokens are read back\<close>

text \<open>
  What the code relies on in \<open>encoding/json\<close>: decoding a marshalled object whose keys are valid
  UTF-8 gives the same keys, the strings that are valid UTF-8, and the integers as their decimal
  text. Nothing is said of other keys and strings, in which \<open>encoding/json\<close> replaces what is not
  UTF-8.
\<close>

definition json_law :: "token_lib \<Rightarrow> bool" where
  "json_law L \<longleftrightarrow> (\<forall>m p. tl_marshal L m = Some p \<and> (\<forall>k\<in>dom m. utf8_valid k) \<longrightarrow>
     (\<exists>r. tl_decode L p = Some r \<and> dom r = dom m
        \<and> (\<forall>k s. m k = Some (VStr s) \<and> utf8_valid s \<longrightarrow> r k = Some (VStr s))
        \<and> (\<forall>k i. m k = Some (VInt i) \<longrightarrow> r k = Some (VNumber (itoa_int i)))))"

text \<open>The characters of a token: the alphabet of base64 and the dot.\<close>

definition token_text :: "string \<Rightarrow> bool" where
  "token_text t \<longleftrightarrow> t \<noteq> [] \<and> (\<forall>c\<in>set t. c = CHR ''.'' \<or> b64_val c \<noteq> None)"

lemma space_bytes:
  "list_all (\<lambda>c. byte c \<le> 32 \<or> 128 \<le> byte c) (map hd space_runes @ map last space_runes)"
  by (simp add: space_runes_def)

lemma token_char_not_space:
  assumes "c = CHR ''.'' \<or> b64_val c \<noteq> None"
  shows "c \<notin> hd ` set space_runes" and "c \<notin> last ` set space_runes"
proof -
  have "32 < byte c \<and> byte c < 128" using assms by (auto simp: b64_val_def Let_def split: if_splits)
  with space_bytes show "c \<notin> hd ` set space_runes" "c \<notin> last ` set space_runes"
    by (force simp: list_all_iff)+
qed

lemma token_text_ends:
  assumes "token_text t"
  shows "t \<noteq> []" "hd t \<notin> hd ` set space_runes" "last t \<notin> last ` set space_runes"
  using assms token_char_not_space [of "hd t"] token_char_not_space [of "last t"]
  unfolding token_text_def by (metis hd_in_set last_in_set)+

lemma trim_token: "token_text t \<Longrightarrow> trim_space t = t"
  using token_text_ends trim_space_id by blast

lemma lower_char_blank: "lower_char c = CHR '' '' \<longleftrightarrow> c = CHR '' ''"
proof
  assume *: "lower_char c = CHR '' ''"
  have "byte (lower_char c) = 32" by (simp add: *)
  moreover have "byte (lower_char c) \<noteq> 32" if "65 \<le> byte c" "byte c \<le> 90"
    using that by (simp add: lower_char_def)
  ultimately have "lower_char c = c" by (auto simp: lower_char_def)
  with * show "c = CHR '' ''" by simp
qed (simp add: lower_char_def)

lemma fold_key_blank: "CHR '' '' \<in> set (fold_key s) \<Longrightarrow> CHR '' '' \<in> set s"
proof (induction s rule: fold_key.induct)
  case (2 x)
  then show ?case using lower_char_blank [of x] by auto
next
  case (3 x y s)
  then show ?case
    using lower_char_blank [of x] by (cases s) (auto split: if_splits)
qed simp

lemma bare_token_text:
  assumes "token_text t"
  shows "bare_token t = t" and "bare_token (''Bearer '' @ t) = t"
proof -
  have "\<not> equal_fold (take 7 t) ''bearer ''"
  proof
    assume "equal_fold (take 7 t) ''bearer ''"
    then have eq: "fold_key (take 7 t) = fold_key ''bearer ''" by (simp only: equal_fold_def)
    have "CHR '' '' \<in> set (fold_key ''bearer '')" using lower_char_blank [of "CHR '' ''"] by simp
    then have "CHR '' '' \<in> set (take 7 t)" by (rule fold_key_blank [of "take 7 t", unfolded eq])
    then have blank: "CHR '' '' \<in> set t" by (rule in_set_takeD)
    from assms have "\<forall>c\<in>set t. c = CHR ''.'' \<or> b64_val c \<noteq> None"
      unfolding token_text_def by (rule conjunct2)
    from bspec [OF this blank] have "b64_val (CHR '' '') \<noteq> None" by simp
    moreover have "b64_val (CHR '' '') = None" by (simp add: b64_val_def)
    ultimately show False by simp
  qed
  with trim_token [OF assms] show "bare_token t = t" by (simp add: bare_token_def)
  note ends = token_text_ends [OF assms]
  have "CHR ''B'' \<notin> hd ` set space_runes" by (simp add: space_runes_def)
  with ends have "trim_space (''Bearer '' @ t) = ''Bearer '' @ t"
    by (intro trim_space_id) simp_all
  moreover have "lower_char (CHR ''B'') = lower_char (CHR ''b'')" by code_simp
  then have "equal_fold ''Bearer '' ''bearer ''" by (simp add: equal_fold_def)
  ultimately show "bare_token (''Bearer '' @ t) = t"
    using trim_token [OF assms] ends(1) by (simp add: bare_token_def)
qed

lemma split_token:
  assumes "CHR ''.'' \<notin> set h" "CHR ''.'' \<notin> set p" "CHR ''.'' \<notin> set s"
  shows "split_on (CHR ''.'') (h @ ''.'' @ p @ ''.'' @ s) = [h, p, s]"
  using assms by (simp add: split_on_append_sep split_on_no_sep)

lemma token_text_encoded: "token_text (b64_encode a @ ''.'' @ b64_encode b @ ''.'' @ b64_encode c)"
  by (auto simp: token_text_def dest: b64_encode_chars)

lemma numeric_claim_int:
  "m name = Some (VNumber (itoa_int i)) \<Longrightarrow> - (2 ^ 63) \<le> i \<Longrightarrow> i < 2 ^ 63 \<Longrightarrow> numeric_claim L m name = Inr (i, True)"
  by (simp add: numeric_claim_def parse_int64_itoa_int)

lemma numeric_claim_None: "m name = None \<Longrightarrow> numeric_claim L m name = Inr (0, False)"
  by (simp add: numeric_claim_def)

lemma unix_of_range: "- (2 ^ 63) \<le> unix_of t" "unix_of t < 2 ^ 63"
  by (simp_all add: unix_of_def wrap64_def)

text \<open>A token as the generator writes it, and what its parser makes of it.\<close>

lemma generate_token_inv:
  assumes "generate_signed_token L clock key subject claims ttl opts = Inr token"
  obtains payload where
    "tl_marshal L (token_body subject claims ttl (sc_now (build_signed_cfg clock opts))) = Some payload"
    "token = jwt_header @ ''.'' @ b64_encode payload @ ''.'' @
       b64_encode (sign_hs256 L key (jwt_header @ ''.'' @ b64_encode payload))"
    "min_signed_key_len \<le> length key" "subject \<noteq> []"
    "ttl \<le> 0 \<longrightarrow> sc_allow_no_expiry (build_signed_cfg clock opts)"
    "\<forall>k v. (k, v) \<in> set claims \<longrightarrow> k \<notin> set reserved_claims"
  using assms
  by (auto simp: generate_signed_token_def Let_def find_None_iff split: if_splits option.splits)

lemma parse_written_token:
  assumes "min_signed_key_len \<le> length key" and "tl_alg L jwt_header_json = Some ''HS256''"
    and "tl_decode L payload = Some raw"
    and "token = jwt_header @ ''.'' @ b64_encode payload @ ''.'' @
       b64_encode (sign_hs256 L key (jwt_header @ ''.'' @ b64_encode payload))"
  shows "parse_signed_token L clock token key opts = check_claims L (build_signed_cfg clock opts) raw"
    and "parse_signed_token L clock (''Bearer '' @ token) key opts = check_claims L (build_signed_cfg clock opts) raw"
proof -
  have tt: "token_text token" unfolding assms(4) jwt_header_def by (rule token_text_encoded)
  have "split_on (CHR ''.'') token = [jwt_header, b64_encode payload,
      b64_encode (sign_hs256 L key (jwt_header @ ''.'' @ b64_encode payload))]"
    unfolding assms(4) by (rule split_token) (simp_all add: jwt_header_def)
  then show "parse_signed_token L clock token key opts = check_claims L (build_signed_cfg clock opts) raw"
    "parse_signed_token L clock (''Bearer '' @ token) key opts = check_claims L (build_signed_cfg clock opts) raw"
    using assms(1-3) by (simp_all only: parse_signed_token_def Let_def bare_token_text [OF tt])
      (simp_all add: jwt_header_def)
qed


definition token_expiry :: "go_time \<Rightarrow> int \<Rightarrow> int" where
  "token_expiry now ttl = unix_of (time_add now ttl)"

lemma check_claims_ok:
  assumes "raw ''sub'' = Some (VStr subject)" "subject \<noteq> []"
    and "numeric_claim L raw ''iat'' = Inr (iat, h1)" "numeric_claim L raw ''exp'' = Inr (expiry, has_exp)"
    and "raw ''nbf'' = None"
    and "has_exp \<or> sc_allow_no_expiry cfg"
    and "has_exp \<longrightarrow> \<not> time_after (sc_now cfg) (time_add (time_unix expiry) (sc_leeway cfg))"
    and "\<not> time_before (time_add (sc_now cfg) (wrap64 (sc_leeway cfg + 60 * 10 ^ 9))) (time_unix iat)"
  shows "check_claims L cfg raw = Inr \<lparr>tc_subject = subject,
      tc_issued = (if iat \<noteq> 0 then time_unix iat else zero_go_time),
      tc_expires = (if has_exp then time_unix expiry else zero_go_time),
      tc_custom = (\<lambda>k. if k \<in> set reserved_claims then None else map_option (normalize_numbers L) (raw k))\<rparr>"
  using assms by (auto simp: check_claims_def numeric_claim_None Let_def)

text \<open>What the parser finds in the payload that the generator wrote.\<close>

definition custom_claims :: "token_lib \<Rightarrow> (string \<rightharpoonup> gval) \<Rightarrow> (string \<rightharpoonup> gval)" where
  "custom_claims L raw = (\<lambda>k. if k \<in> set reserved_claims then None else map_option (normalize_numbers L) (raw k))"

lemma written_body:
  fixes claims subject ttl now
  defines "b \<equiv> token_body subject claims ttl now"
  assumes free: "\<forall>k v. (k, v) \<in> set claims \<longrightarrow> k \<notin> set reserved_claims"
  shows "b ''sub'' = Some (VStr subject)" "b ''iat'' = Some (VInt (unix_of now))"
    "b ''exp'' = (if 0 < ttl then Some (VInt (token_expiry now ttl)) else None)" "b ''nbf'' = None"
    "k \<notin> set reserved_claims \<Longrightarrow> b k = map_of claims k" "k \<in> set reserved_claims \<Longrightarrow> map_of claims k = None"
proof -
  have none: "map_of claims k = None" if "k \<in> set reserved_claims" for k
    using free that by (auto simp: map_of_eq_None_iff)
  show "b ''sub'' = Some (VStr subject)" "b ''iat'' = Some (VInt (unix_of now))"
    "b ''exp'' = (if 0 < ttl then Some (VInt (token_expiry now ttl)) else None)" "b ''nbf'' = None"
    using none by (simp_all add: b_def token_body_def Let_def token_expiry_def reserved_claims_def)
  show "k \<notin> set reserved_claims \<Longrightarrow> b k = map_of claims k"
    by (auto simp: b_def token_body_def Let_def reserved_claims_def)
  show "k \<in> set reserved_claims \<Longrightarrow> map_of claims k = None" by (rule none)
qed

lemma written_claims_read:
  assumes json: "json_law L" and free: "\<forall>k v. (k, v) \<in> set claims \<longrightarrow> k \<notin> set reserved_claims"
    and payload: "tl_marshal L (token_body subject claims ttl now) = Some payload" and utf8: "utf8_valid subject"
    and keys: "\<forall>k\<in>fst ` set claims. utf8_valid k"
  obtains raw where "tl_decode L payload = Some raw" "raw ''sub'' = Some (VStr subject)" "raw ''nbf'' = None"
    "numeric_claim L raw ''iat'' = Inr (unix_of now, True)"
    "numeric_claim L raw ''exp'' = Inr (if 0 < ttl then token_expiry now ttl else 0, 0 < ttl)"
    "dom (custom_claims L raw) = fst ` set claims"
    "\<forall>k s. map_of claims k = Some (VStr s) \<and> utf8_valid s \<longrightarrow> custom_claims L raw k = Some (VStr s)"
proof -
  note b = written_body(1-5) [OF free, where subject = subject and ttl = ttl and now = now] written_body(6) [OF free]
  have reserved: "\<forall>k\<in>set reserved_claims. utf8_valid k" by code_simp
  have "utf8_valid k" if "token_body subject claims ttl now k \<noteq> None" for k
  proof (cases "k \<in> set reserved_claims")
    case True
    with reserved show ?thesis by blast
  next
    case False
    then have "map_of claims k \<noteq> None" using that b(5) [of k] by simp
    then show ?thesis using keys by (auto simp: map_of_eq_None_iff)
  qed
  then have "tl_marshal L (token_body subject claims ttl now) = Some payload \<and>
      (\<forall>k\<in>dom (token_body subject claims ttl now). utf8_valid k)" using payload by auto
  from json [unfolded json_law_def, rule_format, OF this] obtain raw where
    raw: "tl_decode L payload = Some raw" "dom raw = dom (token_body subject claims ttl now)"
      "\<And>k s. token_body subject claims ttl now k = Some (VStr s) \<Longrightarrow> utf8_valid s \<Longrightarrow> raw k = Some (VStr s)"
      "\<And>k i. token_body subject claims ttl now k = Some (VInt i) \<Longrightarrow> raw k = Some (VNumber (itoa_int i))"
    by blast
  have gone: "raw k = None" if "token_body subject claims ttl now k = None" for k using that raw(2) by (metis domIff)
  have iat: "numeric_claim L raw ''iat'' = Inr (unix_of now, True)"
    by (intro numeric_claim_int raw(4) unix_of_range b(2))
  have expiry: "numeric_claim L raw ''exp'' = Inr (if 0 < ttl then token_expiry now ttl else 0, 0 < ttl)"
    using raw(4) [of "''exp''" "token_expiry now ttl"] gone [of "''exp''"] b(3) unix_of_range
    by (auto simp: token_expiry_def numeric_claim_None intro!: numeric_claim_int)
  have dom: "dom (custom_claims L raw) = fst ` set claims"
    using raw(2) b(5,6)
    by (auto simp: custom_claims_def dom_def set_eq_iff dom_map_of_conv_image_fst [symmetric])
  have strings: "custom_claims L raw k = Some (VStr s)" if "map_of claims k = Some (VStr s)" "utf8_valid s" for k s
  proof -
    have "k \<notin> set reserved_claims" using b(6) [of k] that(1) by auto
    with raw(3) [of k s] b(5) [of k] that show ?thesis by (simp add: custom_claims_def)
  qed
  show thesis
    by (rule that [OF raw(1) raw(3) [OF b(1) utf8] gone [OF b(4)] iat expiry dom]) (use strings in blast)
qed

text \<open>
  (C19) A signed token is read back: with the same key, before it expires and not from before it
  was issued (within the leeway), bare or with the prefix \<open>Bearer\<close>, parsing gives the subject, the
  times and exactly the caller's claims, strings that are valid UTF-8 as they were; the token's clock
  and the parser's may differ. The subject and the names of the claims are valid UTF-8, since JSON
  does not keep other text.
\<close>

theorem signed_token_roundtrip:
  fixes L opts opts' clock clock' ttl
  defines "cfg \<equiv> build_signed_cfg clock opts" and "cfg' \<equiv> build_signed_cfg clock' opts'"
  defines "iat \<equiv> unix_of (sc_now cfg)" and "expiry \<equiv> token_expiry (sc_now cfg) ttl"
  assumes gen: "generate_signed_token L clock key subject claims ttl opts = Inr token"
    and json: "json_law L" and alg: "tl_alg L jwt_header_json = Some ''HS256''" and utf8: "utf8_valid subject"
    and keys: "\<forall>k\<in>fst ` set claims. utf8_valid k"
    and valid: "if 0 < ttl then \<not> time_after (sc_now cfg') (time_add (time_unix expiry) (sc_leeway cfg'))
      else sc_allow_no_expiry cfg'"
    and issued: "\<not> time_before (time_add (sc_now cfg') (wrap64 (sc_leeway cfg' + 60 * 10 ^ 9))) (time_unix iat)"
  shows "\<exists>custom. parse_signed_token L clock' token key opts' = Inr \<lparr>tc_subject = subject,
        tc_issued = (if iat \<noteq> 0 then time_unix iat else zero_go_time),
        tc_expires = (if 0 < ttl then time_unix expiry else zero_go_time), tc_custom = custom\<rparr>
      \<and> parse_signed_token L clock' (''Bearer '' @ token) key opts' = parse_signed_token L clock' token key opts'
      \<and> dom custom = fst ` set claims
      \<and> (\<forall>k s. map_of claims k = Some (VStr s) \<and> utf8_valid s \<longrightarrow> custom k = Some (VStr s))"
proof -
  from gen obtain payload where g: "tl_marshal L (token_body subject claims ttl (sc_now cfg)) = Some payload"
      "token = jwt_header @ ''.'' @ b64_encode payload @ ''.'' @
         b64_encode (sign_hs256 L key (jwt_header @ ''.'' @ b64_encode payload))"
      "min_signed_key_len \<le> length key" "subject \<noteq> []"
    and free: "\<forall>k v. (k, v) \<in> set claims \<longrightarrow> k \<notin> set reserved_claims"
    unfolding cfg_def by (rule generate_token_inv)
  from written_claims_read [OF json free g(1) utf8 keys] obtain raw where
    raw: "tl_decode L payload = Some raw" "raw ''sub'' = Some (VStr subject)" "raw ''nbf'' = None"
      "numeric_claim L raw ''iat'' = Inr (iat, True)"
      "numeric_claim L raw ''exp'' = Inr (if 0 < ttl then expiry else 0, 0 < ttl)"
    and custom: "dom (custom_claims L raw) = fst ` set claims"
      "\<forall>k s. map_of claims k = Some (VStr s) \<and> utf8_valid s \<longrightarrow> custom_claims L raw k = Some (VStr s)"
    unfolding iat_def expiry_def by blast
  have "check_claims L cfg' raw = Inr \<lparr>tc_subject = subject,
      tc_issued = (if iat \<noteq> 0 then time_unix iat else zero_go_time),
      tc_expires = (if 0 < ttl then time_unix (if 0 < ttl then expiry else 0) else zero_go_time),
      tc_custom = custom_claims L raw\<rparr>"
    unfolding custom_claims_def using valid issued
    by (intro check_claims_ok [OF raw(2) g(4) raw(4,5,3)]) (auto split: if_splits)
  note parsed = parse_written_token [OF g(3) alg raw(1) g(2), of clock' opts', folded cfg'_def, unfolded this]
  with custom show ?thesis by (intro exI [of _ "custom_claims L raw"]) (auto split: if_splits)
qed

text \<open>A library for the examples: it marshals one body, by a fixed text.\<close>

definition demo_body :: "string \<rightharpoonup> gval" where
  "demo_body = token_body ''ada'' [(''role'', VStr ''admin'')] (3600 * 10 ^ 9) (time_unix 1000)"

fun json_image :: "gval \<Rightarrow> gval" where
  "json_image (VInt i) = VNumber (itoa_int i)"
| "json_image v = v"

definition demo_tokens :: token_lib where
  "demo_tokens = \<lparr>tl_hmac = (\<lambda>k m. take 32 (k @ replicate 32 (CHR ''m''))), tl_marshal = (\<lambda>m. if m = demo_body then Some ''body'' else None),
     tl_decode = (\<lambda>s. Some (\<lambda>k. map_option json_image (demo_body k))), tl_alg = (\<lambda>h. Some ''HS256''),
     tl_number = VNumber, tl_int_of_float = (\<lambda>s. None),
     tl_cred_marshal = (\<lambda>u p e. if e = 0 \<and> CHR 0x0A \<notin> set u \<and> CHR 0x0A \<notin> set p
        then Some (u @ [CHR 0x0A] @ p) else None),
     tl_cred_decode = (\<lambda>s. case split_on (CHR 0x0A) s of [u, p] \<Rightarrow> Some (u, p, 0) | _ \<Rightarrow> None),
     tl_argon = (\<lambda>k s. take 32 (k @ replicate 32 (CHR ''x''))), tl_sha256 = (\<lambda>k. take 32 (k @ replicate 32 (CHR ''y''))),
     tl_seal = (\<lambda>k n t a. replicate 16 (CHR ''t'') @ t), tl_open = (\<lambda>k n c a. Some (drop 16 c))\<rparr>"

definition demo_key :: string where
  "demo_key = replicate 32 (CHR ''k'')"

definition demo_token :: string where
  "demo_token = jwt_header @ ''.'' @ b64_encode ''body'' @ ''.'' @ b64_encode demo_key"

lemma demo_json: "json_law demo_tokens"
  unfolding json_law_def
  by (auto simp: demo_tokens_def dom_def split: if_splits)

lemma demo_generated:
  "generate_signed_token demo_tokens (time_unix 1000) demo_key ''ada'' [(''role'', VStr ''admin'')]
     (3600 * 10 ^ 9) [] = Inr demo_token"
  by (simp add: generate_signed_token_def build_signed_cfg_def demo_key_def min_signed_key_len_def
      reserved_claims_def demo_tokens_def demo_body_def demo_token_def sign_hs256_def)

lemma demo_times:
  "unix_of (time_unix 1000) = 1000" "token_expiry (time_unix 1000) 3600000000000 = 4600"
  "\<not> time_after (time_unix 2000) (time_add (time_unix 4600) 0)"
  "\<not> time_before (time_add (time_unix 2000) (wrap64 60000000000)) (time_unix 1000)"
  by (simp_all add: token_expiry_def time_after_def time_before_def time_add_def unix_of_def time_unix_def wrap64_def
      unix_to_internal_def)

lemma demo_text_laws: "utf8_valid ''ada''" "tl_alg demo_tokens jwt_header_json = Some ''HS256''"
  by (code_simp, simp add: demo_tokens_def)

lemma demo_token_cfg: "build_signed_cfg t [] = \<lparr>sc_allow_no_expiry = False, sc_leeway = 0, sc_now = t\<rparr>"
  by (simp add: build_signed_cfg_def)

lemma signed_token_roundtrip_witness:
  "\<exists>custom. parse_signed_token demo_tokens (time_unix 2000) demo_token demo_key [] =
      Inr \<lparr>tc_subject = ''ada'', tc_issued = time_unix 1000, tc_expires = time_unix 4600, tc_custom = custom\<rparr>
    \<and> dom custom = {''role''}"
proof -
  have "\<forall>k\<in>fst ` set [(''role'', VStr ''admin'')]. utf8_valid k" by simp code_simp
  from signed_token_roundtrip [OF demo_generated demo_json demo_text_laws(2,1) this, of "time_unix 2000" "[]"]
  show ?thesis by (auto simp: demo_token_cfg demo_times)
qed

section \<open>What is accepted\<close>

lemma numeric_claim_has: "numeric_claim L raw name = Inr (i, h) \<Longrightarrow> h \<longleftrightarrow> raw name \<noteq> None"
  by (auto simp: numeric_claim_def split: option.splits gval.splits)

lemma check_claims_inv:
  assumes "check_claims L cfg raw = Inr c"
  obtains iat expiry nbf hi he hn where
    "numeric_claim L raw ''iat'' = Inr (iat, hi)" "numeric_claim L raw ''exp'' = Inr (expiry, he)"
    "numeric_claim L raw ''nbf'' = Inr (nbf, hn)"
    "raw ''sub'' = Some (VStr (tc_subject c))" "tc_subject c \<noteq> []"
    "he \<or> sc_allow_no_expiry cfg"
    "he \<longrightarrow> \<not> time_after (sc_now cfg) (time_add (time_unix expiry) (sc_leeway cfg))"
    "hn \<longrightarrow> \<not> time_before (time_add (sc_now cfg) (sc_leeway cfg)) (time_unix nbf)"
    "tc_custom c = (\<lambda>k. if k \<in> set reserved_claims then None else map_option (normalize_numbers L) (raw k))"
    "tc_expires c = (if he then time_unix expiry else zero_go_time)"
  using assms
  by (auto simp: check_claims_def Let_def split: option.splits gval.splits if_splits prod.splits)

lemma parse_token_inv:
  assumes "parse_signed_token L clock token key opts = Inr c"
  obtains p0 p1 p2 hdr payload raw where
    "bare_token token = p0 @ ''.'' @ p1 @ ''.'' @ p2"
    "b64_decode p0 = Some hdr" "tl_alg L hdr = Some ''HS256''"
    "b64_decode p2 = Some (tl_hmac L key (p0 @ ''.'' @ p1))"
    "b64_decode p1 = Some payload" "tl_decode L payload = Some raw"
    "check_claims L (build_signed_cfg clock opts) raw = Inr c" "min_signed_key_len \<le> length key"
proof -
  have join: "bare_token token = p0 @ ''.'' @ p1 @ ''.'' @ p2"
    if "split_on (CHR ''.'') (bare_token token) = [p0, p1, p2]" for p0 p1 p2
    using join_split [of "CHR ''.''" "bare_token token"] unfolding that by simp
  from assms that show ?thesis
    by (auto simp: parse_signed_token_def Let_def sign_hs256_def dest!: join
        split: if_splits list.splits option.splits)
qed

text \<open>
  (C20) Only tokens signed with the key, unexpired and as announced are accepted: whatever text
  parses, its third part is the signature of the first two under the key, its header names HS256,
  its payload has the reported subject, an expiry that has not passed (unless that was waived),
  and no start that lies ahead; the reported claims are the payload's, without the reserved ones.
  So without a signature for the same header and payload, no token with them is accepted.
\<close>

theorem signed_token_accepted:
  assumes "parse_signed_token L clock token key opts = Inr c"
  shows "\<exists>p0 p1 p2 payload raw. bare_token token = p0 @ ''.'' @ p1 @ ''.'' @ p2
    \<and> b64_decode p2 = Some (tl_hmac L key (p0 @ ''.'' @ p1)) \<and> min_signed_key_len \<le> length key
    \<and> Option.bind (b64_decode p0) (tl_alg L) = Some ''HS256''
    \<and> b64_decode p1 = Some payload \<and> tl_decode L payload = Some raw
    \<and> raw ''sub'' = Some (VStr (tc_subject c)) \<and> tc_subject c \<noteq> []
    \<and> (if raw ''exp'' = None then sc_allow_no_expiry (build_signed_cfg clock opts)
       else \<not> time_after (sc_now (build_signed_cfg clock opts))
              (time_add (tc_expires c) (sc_leeway (build_signed_cfg clock opts))))
    \<and> (case numeric_claim L raw ''nbf'' of Inr (nbf, True) \<Rightarrow>
          \<not> time_before (time_add (sc_now (build_signed_cfg clock opts)) (sc_leeway (build_signed_cfg clock opts)))
              (time_unix nbf) | _ \<Rightarrow> True)
    \<and> tc_custom c = (\<lambda>k. if k \<in> set reserved_claims then None else map_option (normalize_numbers L) (raw k))"
proof -
  from assms obtain p0 p1 p2 hdr payload raw where p: "bare_token token = p0 @ ''.'' @ p1 @ ''.'' @ p2"
    "b64_decode p0 = Some hdr" "tl_alg L hdr = Some ''HS256''"
    "b64_decode p2 = Some (tl_hmac L key (p0 @ ''.'' @ p1))"
    "b64_decode p1 = Some payload" "tl_decode L payload = Some raw"
    "check_claims L (build_signed_cfg clock opts) raw = Inr c" "min_signed_key_len \<le> length key"
    by (rule parse_token_inv)
  from p(7) obtain iat expiry nbf hi he hn where
    n: "numeric_claim L raw ''iat'' = Inr (iat, hi)" "numeric_claim L raw ''exp'' = Inr (expiry, he)"
      "numeric_claim L raw ''nbf'' = Inr (nbf, hn)"
    and c: "raw ''sub'' = Some (VStr (tc_subject c))" "tc_subject c \<noteq> []"
      "he \<or> sc_allow_no_expiry (build_signed_cfg clock opts)"
      "he \<longrightarrow> \<not> time_after (sc_now (build_signed_cfg clock opts))
         (time_add (time_unix expiry) (sc_leeway (build_signed_cfg clock opts)))"
      "hn \<longrightarrow> \<not> time_before (time_add (sc_now (build_signed_cfg clock opts)) (sc_leeway (build_signed_cfg clock opts)))
         (time_unix nbf)"
      "tc_custom c = (\<lambda>k. if k \<in> set reserved_claims then None else map_option (normalize_numbers L) (raw k))"
      "tc_expires c = (if he then time_unix expiry else zero_go_time)"
    by (rule check_claims_inv)
  from c(3,4,7) numeric_claim_has [OF n(2)]
  have "if raw ''exp'' = None then sc_allow_no_expiry (build_signed_cfg clock opts)
       else \<not> time_after (sc_now (build_signed_cfg clock opts))
              (time_add (tc_expires c) (sc_leeway (build_signed_cfg clock opts)))"
    by (cases he) auto
  then show ?thesis
    using p(1-6,8) c(1,2,5,6) n(3)
    by (intro exI [of _ p0] exI [of _ p1] exI [of _ p2] exI [of _ payload] exI [of _ raw] conjI)
       (simp_all split: bool.splits)
qed


definition demo_raw :: "string \<rightharpoonup> gval" where
  "demo_raw = (\<lambda>k. map_option json_image (demo_body k))"

lemma demo_claims_ok: "\<exists>c. check_claims demo_tokens (build_signed_cfg (time_unix 2000) []) demo_raw = Inr c"
proof -
  have free: "\<forall>k v. (k, v) \<in> set [(''role'', VStr ''admin'')] \<longrightarrow> k \<notin> set reserved_claims"
    by (simp add: reserved_claims_def)
  note body = written_body(1-4) [OF free, where subject = "''ada''" and ttl = 3600000000000 and now = "time_unix 1000"]
  have raw: "demo_raw ''sub'' = Some (VStr ''ada'')" "demo_raw ''nbf'' = None"
    "demo_raw ''iat'' = Some (VNumber (itoa_int 1000))" "demo_raw ''exp'' = Some (VNumber (itoa_int 4600))"
    by (simp_all add: demo_raw_def demo_body_def demo_times body)
  have num: "numeric_claim demo_tokens demo_raw ''iat'' = Inr (1000, True)"
    "numeric_claim demo_tokens demo_raw ''exp'' = Inr (4600, True)"
    using raw by (auto intro!: numeric_claim_int)
  show ?thesis
    using check_claims_ok [OF raw(1) _ num raw(2), of "build_signed_cfg (time_unix 2000) []"]
    by (simp add: demo_token_cfg demo_times)
qed

lemma demo_parses: "\<exists>c. parse_signed_token demo_tokens (time_unix 2000) demo_token demo_key [] = Inr c"
proof -
  have "tl_decode demo_tokens ''body'' = Some demo_raw" by (simp add: demo_tokens_def demo_raw_def)
  moreover have "demo_token = jwt_header @ ''.'' @ b64_encode ''body'' @ ''.'' @
      b64_encode (sign_hs256 demo_tokens demo_key (jwt_header @ ''.'' @ b64_encode ''body''))"
    by (simp add: demo_token_def sign_hs256_def demo_tokens_def demo_key_def)
  ultimately show ?thesis
    using demo_claims_ok parse_written_token(1) [OF _ demo_text_laws(2), of demo_key "''body''" demo_raw demo_token]
    by (simp add: demo_key_def min_signed_key_len_def)
qed

lemma signed_token_accepted_witness:
  "\<exists>p0 p1 p2. bare_token demo_token = p0 @ ''.'' @ p1 @ ''.'' @ p2
    \<and> b64_decode p2 = Some (tl_hmac demo_tokens demo_key (p0 @ ''.'' @ p1))"
proof -
  from demo_parses obtain c where
    "parse_signed_token demo_tokens (time_unix 2000) demo_token demo_key [] = Inr c" by blast
  from signed_token_accepted [OF this] show ?thesis by blast
qed

text \<open>
  A lifetime below a second may be over at once: the expiry is kept in whole seconds, rounded down,
  so a token made in the middle of a second for 400 ms is already refused when it is made.
\<close>

lemma short_lived_token_refused:
  "let now = \<lparr>gt_sec = 62135597800, gt_nsec = 500000000\<rparr> in
    time_after now (time_unix (token_expiry now (400 * 10 ^ 6)))"
  by (simp add: token_expiry_def time_add_def unix_of_def time_unix_def wrap64_def unix_to_internal_def
      time_after_def time_before_def)

section \<open>Encrypted texts\<close>

text \<open>
  \<open>EncryptAESGCM\<close>: \<open>salt\<close> and \<open>nonce\<close> are the reads of the random source, \<open>None\<close> where a read
  fails; the ciphers are AES-GCM with nonces of 12 and tags of 16 bytes. The cipher needs a key of
  16, 24 or 32 bytes.
\<close>

datatype crypto_error = Empty_key | Random_failed | Key_size | Bad_base64 | Too_short | Open_failed

definition aes_v2_prefix :: string where
  "aes_v2_prefix = ''v2.''"

definition aes_salt_len :: nat where
  "aes_salt_len = 16"

definition aes_v2_aad :: string where
  "aes_v2_aad = ''webdev/crypto:v2''"

definition gcm_nonce_size :: nat where
  "gcm_nonce_size = 12"

definition derive_key_v2 :: "token_lib \<Rightarrow> string \<Rightarrow> string \<Rightarrow> string" where
  "derive_key_v2 L key salt = tl_argon L key salt"

definition gcm_key_ok :: "string \<Rightarrow> bool" where
  "gcm_key_ok k \<longleftrightarrow> length k \<in> {16, 24, 32}"

definition encrypt_aes_gcm ::
  "token_lib \<Rightarrow> string option \<Rightarrow> string option \<Rightarrow> string \<Rightarrow> string \<Rightarrow> crypto_error + string" where
  "encrypt_aes_gcm L salt nonce plaintext key =
     (if key = [] then Inl Empty_key
      else case salt of None \<Rightarrow> Inl Random_failed | Some slt \<Rightarrow>
        (let k = derive_key_v2 L key slt in
         if \<not> gcm_key_ok k then Inl Key_size
         else case nonce of None \<Rightarrow> Inl Random_failed | Some n \<Rightarrow>
           Inr (aes_v2_prefix @ b64_encode (slt @ n @ tl_seal L k n plaintext aes_v2_aad))))"

definition decrypt_legacy :: "token_lib \<Rightarrow> string \<Rightarrow> string \<Rightarrow> crypto_error + string" where
  "decrypt_legacy L s key = (case b64_decode s of None \<Rightarrow> Inl Bad_base64 | Some ct \<Rightarrow>
     (let k = tl_sha256 L key in
      if \<not> gcm_key_ok k then Inl Key_size
      else if length ct < gcm_nonce_size then Inl Too_short
      else case tl_open L k (take gcm_nonce_size ct) (drop gcm_nonce_size ct) [] of
        None \<Rightarrow> Inl Open_failed | Some pt \<Rightarrow> Inr pt))"

definition decrypt_aes_gcm :: "token_lib \<Rightarrow> string \<Rightarrow> string \<Rightarrow> crypto_error + string" where
  "decrypt_aes_gcm L s key =
     (if has_prefix aes_v2_prefix s then
        (case b64_decode (drop (length aes_v2_prefix) s) of None \<Rightarrow> Inl Bad_base64 | Some raw \<Rightarrow>
           if length raw < aes_salt_len + 12 + 16 then Inl Too_short
           else (let k = derive_key_v2 L key (take aes_salt_len raw);
                     body = drop aes_salt_len raw in
             if \<not> gcm_key_ok k then Inl Key_size
             else case tl_open L k (take gcm_nonce_size body) (drop gcm_nonce_size body) aes_v2_aad of
               None \<Rightarrow> Inl Open_failed | Some pt \<Rightarrow> Inr pt))
      else decrypt_legacy L s key)"

definition hmac_sign :: "token_lib \<Rightarrow> string \<Rightarrow> string \<Rightarrow> string" where
  "hmac_sign L message key = hex_encode (tl_hmac L key message)"

definition hmac_verify :: "token_lib \<Rightarrow> string \<Rightarrow> string \<Rightarrow> string \<Rightarrow> bool" where
  "hmac_verify L message key sig \<longleftrightarrow> hmac_sign L message key = sig"

text \<open>\<open>GenerateBearerToken\<close>: the bytes read of the random source, by their number.\<close>

definition generate_bearer_token :: "(nat \<Rightarrow> string option) \<Rightarrow> int \<Rightarrow> crypto_error + string" where
  "generate_bearer_token rand n_bytes =
     (case rand (if n_bytes \<le> 0 then 32 else nat n_bytes) of None \<Rightarrow> Inl Random_failed | Some b \<Rightarrow> Inr (b64_encode b))"

section \<open>Tokens that carry credentials\<close>

record token_options =
  to_aes_key :: string
  to_hmac_key :: string
  to_expiry :: int
  to_prefix :: string

definition with_aes_key :: "string \<Rightarrow> token_options \<Rightarrow> token_options" where
  "with_aes_key k o1 = o1\<lparr>to_aes_key := k\<rparr>"

definition with_hmac_key :: "string \<Rightarrow> token_options \<Rightarrow> token_options" where
  "with_hmac_key k o1 = o1\<lparr>to_hmac_key := k\<rparr>"

definition with_expiry :: "int \<Rightarrow> token_options \<Rightarrow> token_options" where
  "with_expiry d o1 = o1\<lparr>to_expiry := d\<rparr>"

definition with_prefix :: "string \<Rightarrow> token_options \<Rightarrow> token_options" where
  "with_prefix p o1 = o1\<lparr>to_prefix := p\<rparr>"

definition token_options_of :: "(token_options \<Rightarrow> token_options) list \<Rightarrow> token_options" where
  "token_options_of opts =
     foldl (\<lambda>o1 f. f o1) \<lparr>to_aes_key = [], to_hmac_key = [], to_expiry = 0, to_prefix = []\<rparr> opts"

datatype cred_error = Cred_marshal | Cred_crypto crypto_error | Cred_invalid | Cred_expired

definition prefixed :: "token_options \<Rightarrow> string \<Rightarrow> string" where
  "prefixed o1 t = (if to_prefix o1 \<noteq> [] then to_prefix o1 @ '' '' @ t else t)"

definition generate_credentials ::
  "token_lib \<Rightarrow> go_time \<Rightarrow> string option \<Rightarrow> string option \<Rightarrow> string \<Rightarrow> string \<Rightarrow> token_options
    \<Rightarrow> cred_error + string" where
  "generate_credentials L now salt nonce user pass o1 =
     (let e = (if 0 < to_expiry o1 then unix_of (time_add now (to_expiry o1)) else 0) in
      case tl_cred_marshal L user pass e of None \<Rightarrow> Inl Cred_marshal | Some b \<Rightarrow>
        if to_aes_key o1 \<noteq> [] then
          (case encrypt_aes_gcm L salt nonce b (to_aes_key o1) of
             Inl err \<Rightarrow> Inl (Cred_crypto err) | Inr enc \<Rightarrow> Inr (prefixed o1 enc))
        else if to_hmac_key o1 \<noteq> [] then
          Inr (prefixed o1 (b64_encode b @ ''.'' @ hmac_sign L b (to_hmac_key o1)))
        else Inr (prefixed o1 (b64_encode (user @ '':'' @ pass))))"

definition cred_from_json :: "token_lib \<Rightarrow> go_time \<Rightarrow> string \<Rightarrow> cred_error + (string \<times> string)" where
  "cred_from_json L now b = (case tl_cred_decode L b of None \<Rightarrow> Inl Cred_invalid
     | Some (u, p, e) \<Rightarrow> if e \<noteq> 0 \<and> e < unix_of now then Inl Cred_expired else Inr (u, p))"

definition parse_bearer_token :: "token_lib \<Rightarrow> go_time \<Rightarrow> string \<Rightarrow> token_options \<Rightarrow> cred_error + (string \<times> string)" where
  "parse_bearer_token L now token0 o1 =
     (let token = trim_space (if to_prefix o1 \<noteq> [] then trim_prefix (to_prefix o1 @ '' '') token0 else token0) in
      if token = [] then Inl Cred_invalid
      else if to_aes_key o1 \<noteq> [] then
        (case decrypt_aes_gcm L token (to_aes_key o1) of
           Inl err \<Rightarrow> Inl Cred_invalid | Inr dec \<Rightarrow> cred_from_json L now dec)
      else if to_hmac_key o1 \<noteq> [] then
        (case split_on (CHR ''.'') token of
           [p, sig] \<Rightarrow>
             if p = [] \<or> sig = [] then Inl Cred_invalid
             else (case b64_decode p of None \<Rightarrow> Inl Cred_invalid | Some payload \<Rightarrow>
               if \<not> hmac_verify L payload (to_hmac_key o1) sig then Inl Cred_invalid
               else cred_from_json L now payload)
         | _ \<Rightarrow> Inl Cred_invalid)
      else if contains_sub ''.'' token then Inl Cred_invalid
      else (case b64_decode token of None \<Rightarrow> Inl Cred_invalid | Some dec \<Rightarrow>
        (case index_byte (CHR '':'') dec of None \<Rightarrow> Inl Cred_invalid
         | Some i \<Rightarrow> Inr (take i dec, drop (Suc i) dec))))"

definition generate_basic_bearer :: "string \<Rightarrow> string \<Rightarrow> string" where
  "generate_basic_bearer user pass =
     (if user = [] \<and> pass = [] then [] else ''Bearer '' @ b64_encode (user @ '':'' @ pass))"


text \<open>What the code relies on in \<open>encoding/json\<close> and the ciphers.\<close>

definition cred_law :: "token_lib \<Rightarrow> bool" where
  "cred_law L \<longleftrightarrow> (\<forall>u p e b. tl_cred_marshal L u p e = Some b \<and> utf8_valid u \<and> utf8_valid p
     \<longrightarrow> b \<noteq> [] \<and> tl_cred_decode L b = Some (u, p, e))"

definition hmac_law :: "token_lib \<Rightarrow> bool" where
  "hmac_law L \<longleftrightarrow> (\<forall>k m. length (tl_hmac L k m) = 32)"

definition gcm_law :: "token_lib \<Rightarrow> bool" where
  "gcm_law L \<longleftrightarrow> (\<forall>k s. length (tl_argon L k s) = 32)
     \<and> (\<forall>k n t a. tl_open L k n (tl_seal L k n t a) a = Some t \<and> length (tl_seal L k n t a) = length t + 16)"

lemma decrypt_encrypted:
  assumes "gcm_law L" and "encrypt_aes_gcm L salt nonce plaintext key = Inr s"
    and "\<And>x. salt = Some x \<Longrightarrow> length x = aes_salt_len" and "\<And>x. nonce = Some x \<Longrightarrow> length x = gcm_nonce_size"
  shows "decrypt_aes_gcm L s key = Inr plaintext"
    and "\<exists>raw. s = aes_v2_prefix @ b64_encode raw"
proof -
  from assms obtain slt n where
    s: "s = aes_v2_prefix @ b64_encode (slt @ n @ tl_seal L (tl_argon L key slt) n plaintext aes_v2_aad)"
    and len: "length slt = aes_salt_len" "length n = gcm_nonce_size"
    by (auto simp: encrypt_aes_gcm_def derive_key_v2_def Let_def split: if_splits option.splits)
  have "gcm_key_ok (tl_argon L key slt)" using assms(1) by (simp add: gcm_law_def gcm_key_ok_def)
  with assms(1) len show "decrypt_aes_gcm L s key = Inr plaintext"
    by (simp add: s decrypt_aes_gcm_def has_prefix_iff gcm_law_def derive_key_v2_def
        aes_salt_len_def gcm_nonce_size_def)
  show "\<exists>raw. s = aes_v2_prefix @ b64_encode raw" using s by blast
qed

lemma hex_char_token: "n < 16 \<Longrightarrow> b64_val (hex_char n) \<noteq> None \<and> hex_char n \<noteq> CHR ''.''"
proof -
  assume n: "n < 16"
  show ?thesis
  proof (cases "n < 10")
    case True
    then have "byte (hex_char n) = 48 + n" by (simp add: hex_char_def)
    with True show ?thesis by (auto simp: b64_val_def Let_def)
  next
    case False
    with n have "byte (hex_char n) = 87 + n" by (simp add: hex_char_def)
    with False n show ?thesis by (auto simp: b64_val_def Let_def)
  qed
qed

lemma hex_encode_chars: "c \<in> set (hex_encode s) \<Longrightarrow> b64_val c \<noteq> None \<and> c \<noteq> CHR ''.''" (is "_ \<Longrightarrow> ?thesis")
proof -
  assume "c \<in> set (hex_encode s)"
  then obtain x where "c = hex_char (byte x div 16) \<or> c = hex_char (byte x mod 16)"
    by (auto simp: hex_encode_def)
  then show ?thesis
    using hex_char_token [of "byte x div 16"] hex_char_token [of "byte x mod 16"]
    by (auto simp: less_mult_imp_div_less)
qed

lemma parse_prefixed:
  "token_text t \<Longrightarrow>
    trim_space (if to_prefix o1 \<noteq> [] then trim_prefix (to_prefix o1 @ '' '') (prefixed o1 t) else prefixed o1 t) = t"
  by (simp add: prefixed_def trim_prefix_def has_prefix_iff trim_token)

lemma index_byte_append: "c \<notin> set u \<Longrightarrow> index_byte c (u @ c # v) = Some (length u)"
  by (induction u) auto

lemma contains_dot: "contains_sub ''.'' s \<longleftrightarrow> CHR ''.'' \<in> set s"
  by (induction s) (auto simp: has_prefix_def)

lemma parse_encrypted:
  assumes "gcm_law L" "encrypt_aes_gcm L salt nonce b (to_aes_key o1) = Inr enc"
    and random: "\<And>x. salt = Some x \<Longrightarrow> length x = aes_salt_len" "\<And>x. nonce = Some x \<Longrightarrow> length x = gcm_nonce_size"
    and "to_aes_key o1 \<noteq> []"
  shows "parse_bearer_token L now (prefixed o1 enc) o1 = cred_from_json L now b"
proof -
  note dec = decrypt_encrypted [OF assms(1,2) random]
  have "b64_val (CHR ''v'') \<noteq> None" "b64_val (CHR ''2'') \<noteq> None" by (simp_all add: b64_val_def)
  with dec(2) have "token_text enc" by (auto simp: token_text_def aes_v2_prefix_def dest: b64_encode_chars)
  from parse_prefixed [OF this, of o1] this dec(1) assms(5) show ?thesis
    by (simp add: parse_bearer_token_def token_text_def Let_def)
qed

lemma parse_hmac_signed:
  fixes L b o1
  defines "t \<equiv> b64_encode b @ ''.'' @ hmac_sign L b (to_hmac_key o1)"
  assumes "hmac_law L" "b \<noteq> []" "to_aes_key o1 = []" "to_hmac_key o1 \<noteq> []"
  shows "parse_bearer_token L now (prefixed o1 t) o1 = cred_from_json L now b"
proof -
  have no_dot: "CHR ''.'' \<notin> set (hmac_sign L b (to_hmac_key o1))"
    using hex_encode_chars by (auto simp: hmac_sign_def)
  then have "split_on (CHR ''.'') t = [b64_encode b, hmac_sign L b (to_hmac_key o1)]"
    by (simp add: t_def split_on_append_sep split_on_no_sep)
  moreover have "token_text t" "t \<noteq> []"
    by (auto simp: t_def token_text_def hmac_sign_def dest: b64_encode_chars hex_encode_chars)
  moreover have "hmac_sign L b (to_hmac_key o1) \<noteq> []"
    using assms(2) [unfolded hmac_law_def, rule_format, of "to_hmac_key o1" b]
    by (cases "tl_hmac L (to_hmac_key o1) b") (auto simp: hmac_sign_def hex_encode_def)
  ultimately show ?thesis
    using assms(3-5) unfolding parse_bearer_token_def Let_def
    by (simp only: parse_prefixed) (simp add: hmac_verify_def)
qed

lemma parse_plain:
  assumes "CHR '':'' \<notin> set user" "to_aes_key o1 = []" "to_hmac_key o1 = []"
  shows "parse_bearer_token L now (prefixed o1 (b64_encode (user @ '':'' @ pass))) o1 = Inr (user, pass)"
proof -
  have "token_text (b64_encode (user @ '':'' @ pass))" by (auto simp: token_text_def dest: b64_encode_chars)
  with assms show ?thesis
    unfolding parse_bearer_token_def Let_def
    by (simp only: parse_prefixed) (simp add: contains_dot index_byte_append)
qed

text \<open>
  Credentials are read back in every mode: what \<open>GenerateBearerTokenFromCredentials\<close> writes
  (encrypted, signed, or plain, with or without a prefix), \<open>ParseBearerToken\<close> with the same options
  takes apart into the same user and password, until it expires; in the plain mode, for user names
  without a colon.
\<close>

theorem credentials_roundtrip:
  assumes gen: "generate_credentials L now salt nonce user pass o1 = Inr token"
    and laws: "cred_law L" "gcm_law L" "hmac_law L"
    and random: "\<And>x. salt = Some x \<Longrightarrow> length x = aes_salt_len" "\<And>x. nonce = Some x \<Longrightarrow> length x = gcm_nonce_size"
    and utf8: "utf8_valid user" "utf8_valid pass"
    and fresh: "0 < to_expiry o1 \<Longrightarrow> unix_of now' \<le> unix_of (time_add now (to_expiry o1))"
    and colon: "to_aes_key o1 = [] \<Longrightarrow> to_hmac_key o1 = [] \<Longrightarrow> CHR '':'' \<notin> set user"
  shows "parse_bearer_token L now' token o1 = Inr (user, pass)"
proof -
  let ?e = "if 0 < to_expiry o1 then unix_of (time_add now (to_expiry o1)) else 0"
  from gen obtain b where b: "tl_cred_marshal L user pass ?e = Some b"
    by (auto simp: generate_credentials_def Let_def split: option.splits)
  from laws(1) b utf8 have "b \<noteq> []" "tl_cred_decode L b = Some (user, pass, ?e)"
    unfolding cred_law_def by blast+
  with fresh have json: "cred_from_json L now' b = Inr (user, pass)" by (auto simp: cred_from_json_def)
  show ?thesis
  proof (cases "to_aes_key o1 = []")
    case False
    with gen b obtain enc where "encrypt_aes_gcm L salt nonce b (to_aes_key o1) = Inr enc" "token = prefixed o1 enc"
      by (auto simp: generate_credentials_def Let_def split: sum.splits)
    with parse_encrypted [OF laws(2) this(1) random False] json show ?thesis by simp
  next
    case True
    with gen b json parse_hmac_signed [OF laws(3) \<open>b \<noteq> []\<close>] parse_plain [OF colon] show ?thesis
      by (cases "to_hmac_key o1 = []") (auto simp: generate_credentials_def Let_def)
  qed
qed

lemma demo_laws: "cred_law demo_tokens" "gcm_law demo_tokens" "hmac_law demo_tokens"
  by (auto simp: cred_law_def gcm_law_def hmac_law_def demo_tokens_def split_on_append_sep split_on_no_sep
      split: if_splits)

definition demo_options :: token_options where
  "demo_options = token_options_of [with_aes_key ''secret'', with_prefix ''Bearer'']"

lemma credentials_roundtrip_witness:
  "\<exists>token. generate_credentials demo_tokens (time_unix 1000) (Some (replicate 16 (CHR ''s'')))
        (Some (replicate 12 (CHR ''n''))) ''ada'' ''pw:1'' demo_options = Inr token
     \<and> parse_bearer_token demo_tokens (time_unix 9000) token demo_options = Inr (''ada'', ''pw:1'')"
proof -
  let ?gen = "generate_credentials demo_tokens (time_unix 1000) (Some (replicate 16 (CHR ''s'')))
        (Some (replicate 12 (CHR ''n''))) ''ada'' ''pw:1'' demo_options"
  have opts: "to_aes_key demo_options = ''secret''" "to_expiry demo_options = 0"
    by (simp_all add: demo_options_def token_options_of_def with_aes_key_def with_prefix_def)
  have "\<exists>token. ?gen = Inr token"
    using demo_laws(2)
    by (simp add: generate_credentials_def opts demo_tokens_def encrypt_aes_gcm_def derive_key_v2_def gcm_key_ok_def)
  then obtain token where token: "?gen = Inr token" by blast
  have utf8: "utf8_valid ''ada''" "utf8_valid ''pw:1''" by code_simp+
  have "parse_bearer_token demo_tokens (time_unix 9000) token demo_options = Inr (''ada'', ''pw:1'')"
    by (rule credentials_roundtrip [OF token demo_laws(1,2,3) _ _ utf8])
       (auto simp: opts aes_salt_len_def gcm_nonce_size_def)
  with token show ?thesis by blast
qed

text \<open>
  With a key, nothing unsigned or unencrypted is accepted: with an AES key only what decrypts under
  it, with an HMAC key only a payload with its signature; a plain token only without any key.
\<close>

lemma credentials_fail_closed:
  assumes "parse_bearer_token L now token o1 = Inr (u, p)"
  shows "to_aes_key o1 \<noteq> [] \<Longrightarrow>
      \<exists>s dec. decrypt_aes_gcm L s (to_aes_key o1) = Inr dec \<and> cred_from_json L now dec = Inr (u, p)"
    and "to_aes_key o1 = [] \<Longrightarrow> to_hmac_key o1 \<noteq> [] \<Longrightarrow>
      \<exists>payload. hmac_sign L payload (to_hmac_key o1) \<in> set (split_on (CHR ''.'')
          (trim_space (if to_prefix o1 \<noteq> [] then trim_prefix (to_prefix o1 @ '' '') token else token)))
        \<and> cred_from_json L now payload = Inr (u, p)"
  using assms
  by (auto simp: parse_bearer_token_def Let_def hmac_verify_def split: if_splits sum.splits list.splits option.splits)

text \<open>In the plain mode a colon in the user name moves a part of it into the password.\<close>

lemma credentials_colon:
  "generate_credentials demo_tokens (time_unix 0) None None ''a:b'' ''c'' (token_options_of [])
     = Inr (b64_encode ''a:b:c'')"
  "parse_bearer_token demo_tokens (time_unix 0) (b64_encode ''a:b:c'') (token_options_of []) = Inr (''a'', ''b:c'')"
proof -
  show "generate_credentials demo_tokens (time_unix 0) None None ''a:b'' ''c'' (token_options_of [])
     = Inr (b64_encode ''a:b:c'')"
    by (simp add: generate_credentials_def token_options_of_def demo_tokens_def prefixed_def)
  have "token_text (b64_encode ''a:b:c'')"
    by (simp only: token_text_def) (use b64_encode_chars [of _ "''a:b:c''"] in auto)
  from trim_token [OF this] this
  show "parse_bearer_token demo_tokens (time_unix 0) (b64_encode ''a:b:c'') (token_options_of []) = Inr (''a'', ''b:c'')"
    by (simp add: parse_bearer_token_def token_options_of_def contains_dot token_text_def del: b64_encode.simps)
qed

end
