(* ===== verification/Spec2Isabelle.thy ===== *)
theory Spec2Isabelle
  imports Crm_Access Crm_Config Collection Web_Session Slug I18n_Check Mail Menu Archive Http_Exchange Forms Web_Guard Policy Signals Query_Builder Sql_Template Db_Policies Db_Builders Stmt_Cache Resilience Rate_Limit
    Migrate_Facts Seeder Router Validation Tokens
begin

text \<open>
  A verification development for the Go toolkit \<open>webdev\<close>: the packages under \<open>src/pkg\<close> and the application
  \<open>src/cmd/crm\<close> that puts them together. Every definition translates the Go code named here; every theorem is about
  those definitions.

  \<^bold>\<open>The program and the theories\<close>

  Shared: \<open>Prelude\<close> (results, byte strings, package \<open>strings\<close>, the locale \<open>transition_system\<close>), \<open>Go_Base\<close> (values of
  type \<open>any\<close> and errors), \<open>Decimal\<close>, \<open>Base64\<close>, \<open>Url\<close> (\<open>net/url\<close> and header maps), \<open>File_System\<close> (\<open>path/filepath\<close>
  and \<open>os\<close> on Unix), \<open>Sql_Frag\<close> and \<open>Sql_Runner\<close> (what SQL builders and runners promise).

  \<^item> SQL. \<open>Sql_Ident\<close>: \<open>pkg/sqlutil/ident.go\<close> (\<open>ValidateIdent\<close>, \<open>QuoteIdent\<close>, \<open>Placeholder\<close>). \<open>Query_Builder\<close>: \<open>pkg/q\<close>
    (\<open>Q\<close>, \<open>Build\<close>). \<open>Sql_Template\<close>: \<open>pkg/sqlutil/sqlutil.go\<close> (\<open>Render\<close>, the bind functions, the loader's cache, named queries).
    \<open>Db_Builders\<close>: \<open>pkg/db/builders.go\<close> (\<open>bindNamed\<close>, INSERT, UPSERT, UPDATE, MERGE in batches). \<open>Db_Policies\<close>:
    \<open>pkg/db/errors.go\<close> and the runtime of \<open>db.go\<close> (retries, breaker, transactions of batches). \<open>Stmt_Cache\<close>:
    \<open>pkg/db/stmtcache.go\<close>. A statement of \<open>Sql_Frag\<close> is a list of texts and bound values; the builders, which thread a
    string and an argument slice, refine its rendering.
  \<^item> Reliability. \<open>Resilience\<close>: \<open>pkg/resilience\<close> (\<open>RetryPolicy.Do\<close>, \<open>CircuitBreaker\<close>). \<open>Rate_Limit\<close>: \<open>pkg/ratelimit\<close>. \<open>Signals\<close>:
    \<open>pkg/signals\<close>. \<open>Db_Policies\<close>, \<open>Login_Limit\<close> and \<open>Crm\<close> use the first two.
  \<^item> Databases in time. \<open>Migrate\<close> with \<open>Migrate_Facts\<close>: \<open>pkg/migrate\<close> (\<open>Load\<close>, \<open>Up\<close>, \<open>Down\<close>, \<open>Status\<close>, the advisory lock).
    \<open>Seeder\<close>: \<open>pkg/seeder\<close>. Both run the loop of \<open>Sql_Runner\<close>'s locale \<open>sequential_runner\<close>.
  \<^item> Requests out. \<open>Http_Client\<close>, \<open>Http_Exchange\<close>, \<open>Http_Logging\<close>: \<open>pkg/httpx\<close> (\<open>retry.go\<close>, \<open>httpx.go\<close>, \<open>logging.go\<close>).
    \<open>Mail\<close>: \<open>pkg/fs/mail.go\<close>.
  \<^item> Requests in. \<open>Http_Server\<close>: \<open>pkg/middleware\<close>. \<open>Web_Guard\<close>: \<open>pkg/security/csrf.go\<close>, \<open>pkg/web/csrf.go\<close>,
    \<open>safe_redirect.go\<close>, \<open>redirect.go\<close>. \<open>Web_Session\<close>: flash messages, user, old input and language of \<open>pkg/web\<close>. \<open>Policy\<close>:
    \<open>pkg/policy\<close>. \<open>Router\<close>: \<open>pkg/router/router.go\<close>. \<open>Menu\<close>: \<open>pkg/web/menu.go\<close> with the menu records of \<open>cmd/crm\<close>. \<open>Tokens\<close>:
    \<open>pkg/crypto\<close>.
  \<^item> Input. \<open>Validate\<close>: \<open>pkg/validate\<close>. \<open>Validation\<close>: \<open>pkg/validation\<close>. \<open>Form_Bind\<close>, \<open>Forms\<close>: \<open>pkg/forms\<close>.
  \<^item> Files and texts. \<open>Archive\<close>: \<open>pkg/fs/extract.go\<close>, \<open>archive.go\<close>, \<open>rar.go\<close>. \<open>Slug\<close>: \<open>pkg/text\<close>. \<open>I18n_Check\<close>: \<open>pkg/i18ncheck\<close>.
    \<open>Collection\<close>: \<open>pkg/collection\<close>. \<open>Random_Values\<close>: \<open>pkg/conv\<close>, \<open>pkg/id\<close>.
  \<^item> The application. \<open>Fiber_Web\<close>: \<open>pkg/web/fiberweb\<close> and \<open>pkg/policy/fiberpolicy\<close>, the packages above on Fiber's context
    (\<open>fctx\<close>). \<open>Login_Limit\<close> and \<open>Crm\<close>: \<open>cmd/crm/middleware\<close>, \<open>controllers\<close>, \<open>routers\<close> and \<open>newApp\<close>; \<open>crm_serve\<close> is one request from
    the first middleware to the error handler. \<open>Crm_Access\<close>: what its guards keep apart. \<open>Crm_Config\<close>: \<open>pkg/config/env.go\<close> and
    \<open>cmd/crm/config\<close>.

  \<^bold>\<open>How the code is modelled\<close>

  A struct is a record, a tagged union a datatype, a value with an error a sum with \<open>Inl\<close> for the error. A string is the
  list of its bytes. An \<open>int\<close> is an integer, with \<open>wrap64\<close> or a 64-bit word where its wrap-around can be reached; \<open>float64\<close> is an
  abstract type with its operations as parameters, or a rational in \<open>Rate_Limit\<close>, whose lemmas are about exact arithmetic.
  A panic is a value: \<open>None\<close>, or a constructor of the results of handlers. Methods under a mutex are atomic steps; where the code gives up its
  lock (\<open>acquire\<close> of the statement cache, \<open>Execute\<close> of the breaker) they are two, and a step relation interleaves the callers:
  \<open>sc_step\<close>, \<open>cb_step\<close>, \<open>rate_step\<close>, \<open>ld_step\<close>, \<open>seed_step\<close>, each an interpretation of \<open>transition_system\<close>. A map
  that is ranged over is a list in some order, and the lemmas hold for every order.

  What the code takes from elsewhere is a parameter with the laws it relies on as hypotheses: the databases (\<open>sqldb\<close>,
  \<open>lockdb\<close>), GORM, \<open>net/http\<close>, \<open>net/smtp\<close>, gorilla/sessions (\<open>sess_lib\<close>), casbin (\<open>casbin_lib\<close>), go-playground/validator (\<open>rl_var\<close>),
  HMAC, AES, Argon2 and JSON (\<open>token_lib\<close>, \<open>json_lib\<close>), bcrypt (\<open>password_lib\<close>), Fiber's own middlewares and its matching of paths
  (\<open>fiber_lib\<close>), the clock, the random sources and the tables of Unicode. The witnesses instantiate each with concrete functions.

  \<^bold>\<open>Interfaces\<close>

  \<open>placeholder_style\<close> and \<open>quoting\<close> (\<open>Sql_Frag\<close>) are what every SQL builder relies on; they are interpreted on \<open>placeholder\<close> and
  \<open>quote_ident\<close> of all dialects, and on the question marks of \<open>pkg/db\<close>. \<open>sequential_runner\<close> (\<open>Sql_Runner\<close>) is interpreted on
  \<open>Up\<close>, \<open>Down\<close> and the seeder. \<open>entry_loop\<close> (\<open>Archive\<close>) is interpreted on zip and rar.

  \<^bold>\<open>What the lemmas show\<close>

  \<^item> SQL: quoting is read back by the lexical rules of each dialect and cannot be escaped; values are bound, never spliced; statements stay within the limit of
    parameters; a statement of the cache is not closed while it is held; batches are atomic.
  \<^item> Reliability: how often and when something is retried, in \<open>retry_do\<close>, the HTTP client, the database policies and mail; a
    half-open breaker admits one probe; a token bucket grants no more than burst and rate allow, and waiting ends.
  \<^item> Migrations and seeds: exactly the pending ones run, in order, each with its record, and the lock is given back; waiting for
    it ends at its time-out. That a failed migration leaves nothing behind is shown for files that run in a transaction and whose script
    the database undoes with it (\<open>undone_whole\<close>), so not for DDL on MySQL; a \<open>Commit\<close> may report an error although it took place.
  \<^item> Web: CSRF protection and policies fail closed; forwarded addresses and \<open>X-Real-IP\<close> are believed from trusted proxies only; redirects stay
    on the site; tokens are accepted only with a signature; secrets stay off other hosts, and out of the logs of requests that are answered (\<open>network_error_logged\<close> and \<open>cut_body_logged\<close> show what is logged otherwise); forbidden menu items are hidden.
  \<^item> Input: which fields fail and with which message, independent of the order of rules; binding keeps the types of a struct.
  \<^item> Files: extraction touches nothing outside its directory and respects its limits; file names of slugs are safe.
  \<^item> The application: \<open>login_needs_password\<close> (who can change the user of a session), \<open>protected_handlers_guarded\<close> (whom the
    protected pages serve), \<open>login_tries_bounded\<close> (for windows up to the idle time, see \<open>long_window_forgotten\<close>), and \<open>loaded_config_safe\<close> (what production starts with). The first two compose
    the guards of \<open>Fiber_Web\<close> (\<open>guarded\<close>, \<open>transparent\<close>, \<open>moves\<close>, \<open>differ\<close>) along the routes in their order.

  \<^bold>\<open>Loops and bounds\<close>

  Loops are structural or have a termination proof. Those that need not end are partial functions of type \<open>option\<close>, with a
  lemma that they return: \<open>lim_wait\<close> (alone on the limiter), \<open>pg_try_lock\<close> (whose \<open>select\<close> sees the deadline of the time-out), \<open>evict_loop\<close> and
  \<open>random_loop\<close> (where some byte of a buffer is usable). Retry loops run down from the number of attempts. Symbolic links are followed at most 40 times, as Linux does.
  Counters of calls are limits of the code, not of the model.

  \<^bold>\<open>Not modelled\<close>

  Packages that only put a library together: YAML and struct tags of \<open>pkg/config\<close>, \<open>grpcx\<close>, \<open>jsonx\<close>, \<open>logx\<close>, \<open>scheduler\<close>, \<open>socialite\<close>, \<open>timex\<close>,
  the template helpers of \<open>pkg/web\<close>, images, FTP and plain files of \<open>pkg/fs\<close>, the sanitizing policies of \<open>pkg/security\<close>, the translation
  bundle of \<open>pkg/localization\<close>, adapters of other routers, and \<open>strutil\<close>, which repeats \<open>pkg/text\<close>. In modelled packages: logging, the
  texts of some errors, timeouts of \<open>net/http\<close>, streams of \<open>pkg/httpx\<close>, cookies as such (they are part of the world of the sessions), and the
  loading of keys, templates and locales in \<open>newApp\<close>. Time that a comparison takes is not modelled.

  Simplifications to keep in mind: the file tree of \<open>File_System\<close> has no hard links; a struct that embeds a pointer to itself, on
  which \<open>Bind\<close> would recurse, is no value of the types of \<open>Form_Bind\<close>; the login limiter takes requests one after the other, so
  that of two requests at once one has its token before the other looks for its entry; a request draws the same bytes whenever it draws a
  CSRF token, which it does again only where the session could not be saved; in \<open>Down\<close>, the seeder and the batches of \<open>Db_Policies\<close>
  a transaction that reports an error, also from \<open>Commit\<close>, is taken to have been rolled back (in \<open>Up\<close> it is not).
\<close>

end
